(* ===== verification/SigPrelude.thy ===== *)
theory SigPrelude
  imports Main "HOL-Library.Word"
begin

text \<open>
  Shared vocabulary of the SigurdOS development: the machine types the firmware uses
  (\<open>uint8_t\<close>, \<open>uint16_t\<close>, \<open>uint32_t\<close>, \<open>size_t\<close>), byte strings, the little-endian
  loads and stores that \<open>memcpy\<close> performs on the ESP32-S3 and on the native test
  host, the wrap-safe clock comparison \<open>(int32_t)(now - deadline) < 0\<close> that most
  components inline, and generic facts on lists and arrays used by several theories.

  A C pointer that the code tests against \<open>nullptr\<close> is an \<open>option\<close>; a C string is
  the list of its bytes before the terminator; \<open>size_t\<close> counts are \<open>nat\<close> (no count in
  the modelled code comes near \<open>2 ^ 32\<close>); clocks and identifiers are words, so that
  their wrap-around is the hardware's.
\<close>

unbundle bit_operations_syntax

type_synonym byte = "8 word"
type_synonym u16 = "16 word"
type_synonym u32 = "32 word"
type_synonym cstring = "8 word list"

named_theorems clock_simps "wrap-safe clock comparison"
named_theorems le_simps "little-endian loads and stores"

subsection \<open>Wrap-safe clocks\<close>

text \<open>\<open>static_cast<int32_t>(now_ms - deadline_ms) < 0\<close>.\<close>

definition before32 :: "u32 \<Rightarrow> u32 \<Rightarrow> bool" where
  "before32 now deadline \<longleftrightarrow> sint (now - deadline) < 0"

lemma sint32_neg_iff: "sint (x :: u32) < 0 \<longleftrightarrow> 2 ^ 31 \<le> unat x"
proof -
  have lt: "uint x < 2 ^ 32" using uint_lt2p [of x] by simp
  have "sint x < 0 \<longleftrightarrow> bit (uint x) 31"
    by (simp add: sint_uint)
  also have "\<dots> \<longleftrightarrow> odd (uint x div 2 ^ 31)"
    by (simp add: bit_iff_odd)
  also have "\<dots> \<longleftrightarrow> 2 ^ 31 \<le> uint x"
  proof (cases "uint x < 2 ^ 31")
    case True
    then have "uint x div 2 ^ 31 = 0" by (simp add: div_pos_pos_trivial)
    with True show ?thesis by simp
  next
    case False
    with lt have "uint x div 2 ^ 31 = 1"
      by (simp add: int_div_pos_eq [where r = "uint x - 2 ^ 31" and q = 1])
    with False show ?thesis by simp
  qed
  also have "\<dots> \<longleftrightarrow> 2 ^ 31 \<le> unat x"
    by (simp flip: nat_uint_eq) linarith?
  finally show ?thesis .
qed

lemma before32_iff: "before32 now deadline \<longleftrightarrow> 2 ^ 31 \<le> unat (now - deadline)"
  by (simp add: before32_def sint32_neg_iff)

lemma unat_minus_wrap:
  "unat (e - d :: u32) = (if unat d \<le> unat e then unat e - unat d else unat e + 2 ^ 32 - unat d)"
  using unat_sub_if_size [of e d] by (simp add: word_size)

text \<open>
  A deadline set \<open>d\<close> ticks after \<open>t\<close>, read \<open>e\<close> ticks after \<open>t\<close>: as long as both
  intervals are below half the clock's range the comparison is the comparison of the
  two intervals, whatever \<open>t\<close> is, so also across the wrap of the millisecond counter.
\<close>

lemma before32_interval [clock_simps]:
  assumes "unat d < 2 ^ 31" and "unat e < 2 ^ 31"
  shows "before32 (t + e) (t + d) \<longleftrightarrow> unat e < unat d"
proof -
  have "(t + e) - (t + d) = e - d" by simp
  then show ?thesis
    using assms by (simp add: before32_iff unat_minus_wrap split: if_split) linarith?
qed

lemma before32_self [clock_simps]: "\<not> before32 t t"
  by (simp add: before32_def)

subsection \<open>Little-endian loads and stores\<close>

text \<open>
  \<open>memcpy\<close> of an integer into or out of a byte buffer, on a little-endian machine; the
  same bytes as the shift-and-or readers of \<open>status_response.h\<close> and friends. A load at an
  offset reads the bytes there; every caller checks the length first.
\<close>

definition put_u16 :: "u16 \<Rightarrow> byte list" where
  "put_u16 w = [ucast w, ucast (drop_bit 8 w)]"

definition put_u32 :: "u32 \<Rightarrow> byte list" where
  "put_u32 w = [ucast w, ucast (drop_bit 8 w), ucast (drop_bit 16 w), ucast (drop_bit 24 w)]"

definition get_u16 :: "byte list \<Rightarrow> nat \<Rightarrow> u16" where
  "get_u16 d i = ucast (d ! i) OR push_bit 8 (ucast (d ! (i + 1)))"

definition get_u32 :: "byte list \<Rightarrow> nat \<Rightarrow> u32" where
  "get_u32 d i = ucast (d ! i) OR push_bit 8 (ucast (d ! (i + 1))) OR
     push_bit 16 (ucast (d ! (i + 2))) OR push_bit 24 (ucast (d ! (i + 3)))"

lemma length_put_u16 [simp]: "length (put_u16 w) = 2"
  by (simp add: put_u16_def)

lemma length_put_u32 [simp]: "length (put_u32 w) = 4"
  by (simp add: put_u32_def)

lemma get_u16_put_u16 [le_simps]: "get_u16 (xs @ put_u16 w @ ys) (length xs) = w"
  unfolding get_u16_def put_u16_def
  by (rule bit_word_eqI) (auto simp: nth_append bit_simps)

lemma u32_of_bytes:
  "ucast (ucast w :: byte) OR push_bit 8 (ucast (ucast (drop_bit 8 w) :: byte)) OR
     push_bit 16 (ucast (ucast (drop_bit 16 w) :: byte)) OR
     push_bit 24 (ucast (ucast (drop_bit 24 w) :: byte)) = (w :: u32)"
proof (rule bit_word_eqI)
  fix n assume "n < LENGTH(32)"
  then consider "n < 8" | "8 \<le> n" "n < 16" | "16 \<le> n" "n < 24" | "24 \<le> n" "n < 32"
    by fastforce
  then show "bit (ucast (ucast w :: byte) OR push_bit 8 (ucast (ucast (drop_bit 8 w) :: byte)) OR
     push_bit 16 (ucast (ucast (drop_bit 16 w) :: byte)) OR
     push_bit 24 (ucast (ucast (drop_bit 24 w) :: byte)) :: u32) n = bit w n"
    by cases (auto simp: bit_simps)
qed

lemma bytes_of_u32:
  fixes a b c d :: byte
  defines "w \<equiv> ucast a OR push_bit 8 (ucast b) OR push_bit 16 (ucast c) OR push_bit 24 (ucast d) :: u32"
  shows "ucast w = a" and "ucast (drop_bit 8 w) = b"
    and "ucast (drop_bit 16 w) = c" and "ucast (drop_bit 24 w) = d"
  unfolding w_def by (rule bit_word_eqI, auto simp: bit_simps dest: bit_imp_le_length)+

lemma get_u32_put_u32 [le_simps]: "get_u32 (xs @ put_u32 w @ ys) (length xs) = w"
  unfolding get_u32_def put_u32_def by (simp add: nth_append u32_of_bytes)

lemma get_u16_put_u16_0 [le_simps]: "get_u16 (put_u16 w @ ys) 0 = w"
  using get_u16_put_u16 [of "[]"] by simp

lemma get_u32_put_u32_0 [le_simps]: "get_u32 (put_u32 w @ ys) 0 = w"
  using get_u32_put_u32 [of "[]"] by simp

lemma put_u32_get_u32:
  assumes "i + 4 \<le> length d"
  shows "put_u32 (get_u32 d i) = take 4 (drop i d)"
proof -
  have "take 4 (drop i d) = [d ! i, d ! (i + 1), d ! (i + 2), d ! (i + 3)]"
    using assms by (intro nth_equalityI) (auto simp: nth_Cons' numeral_eq_Suc less_Suc_eq)
  then show ?thesis by (simp only: put_u32_def get_u32_def bytes_of_u32)
qed

lemma put_u16_inj [simp]: "put_u16 a = put_u16 b \<longleftrightarrow> a = b"
  by (metis get_u16_put_u16_0)

lemma put_u32_inj [simp]: "put_u32 a = put_u32 b \<longleftrightarrow> a = b"
  by (metis get_u32_put_u32_0)

subsection \<open>C strings in buffers\<close>

text \<open>
  \<open>strnlen(buf, n)\<close> and the string a buffer holds. \<open>strncmp(a, b, n) == 0\<close> on two buffers
  of \<open>n\<close> bytes is equality of the strings they hold.
\<close>

definition strnlen :: "byte list \<Rightarrow> nat \<Rightarrow> nat" where
  "strnlen buf n = length (takeWhile (\<lambda>b. b \<noteq> 0) (take n buf))"

definition cstr :: "byte list \<Rightarrow> cstring" where
  "cstr buf = takeWhile (\<lambda>b. b \<noteq> 0) buf"

definition bytes_of :: "string \<Rightarrow> cstring" where
  "bytes_of s = map of_char s"

lemma strnlen_le: "strnlen buf n \<le> n"
  unfolding strnlen_def by (rule order_trans [OF length_takeWhile_le]) simp

lemma strnlen_le_length: "strnlen buf n \<le> length buf"
  unfolding strnlen_def by (rule order_trans [OF length_takeWhile_le]) simp

lemma take_strnlen: "take (strnlen buf n) buf = cstr (take n buf)"
proof -
  have "cstr (take n buf) = take (strnlen buf n) (take n buf)"
    unfolding cstr_def strnlen_def by (rule takeWhile_eq_take)
  then show ?thesis using strnlen_le [of buf n] by (simp add: min_absorb1)
qed

lemma cstr_take: "cstr (take m d) = take m (cstr d)"
  unfolding cstr_def by (induction d arbitrary: m) (auto simp: take_Cons' split: if_splits)

lemma cstr_idem [simp]: "cstr (cstr d) = cstr d"
  by (simp add: cstr_def)

lemma cstr_strnlen: "strnlen d n < n \<Longrightarrow> n \<le> length d \<Longrightarrow> cstr d = take (strnlen d n) d"
proof (induction d arbitrary: n)
  case (Cons b d)
  then obtain m where "n = Suc m" by (cases n) auto
  with Cons show ?case by (cases "b = 0") (auto simp: cstr_def strnlen_def)
qed simp

lemma cstr_no_nul: "0 \<notin> set (cstr buf)"
  by (auto simp: cstr_def dest: set_takeWhileD)

lemma cstr_id: "0 \<notin> set s \<Longrightarrow> cstr s = s"
  by (induction s) (auto simp: cstr_def)

lemma cstr_terminated: "0 \<notin> set s \<Longrightarrow> cstr (s @ 0 # rest) = s"
  by (induction s) (auto simp: cstr_def)

text \<open>Fixed-size character arrays: a string, its terminator, then zero fill.\<close>

definition pad_to :: "nat \<Rightarrow> byte list \<Rightarrow> byte list" where
  "pad_to n s = s @ replicate (n - length s) 0"

lemma length_pad_to [simp]: "length s \<le> n \<Longrightarrow> length (pad_to n s) = n"
  by (simp add: pad_to_def)

lemma cstr_pad_to: "0 \<notin> set s \<Longrightarrow> cstr (pad_to n s) = s"
  by (cases "n - length s") (simp_all add: pad_to_def cstr_id cstr_terminated)

text \<open>\<open>memcpy(d + i, bs, n)\<close> into a buffer that has room for the bytes.\<close>

definition overwrite :: "'a list \<Rightarrow> nat \<Rightarrow> 'a list \<Rightarrow> 'a list" where
  "overwrite d i bs = take i d @ bs @ drop (i + length bs) d"

lemma length_overwrite [simp]: "i + length bs \<le> length d \<Longrightarrow> length (overwrite d i bs) = length d"
  by (simp add: overwrite_def)

lemma overwrite_Nil [simp]: "overwrite d i [] = d"
  by (simp add: overwrite_def)

lemma overwrite_overwrite:
  "i + length bs + length cs \<le> length d \<Longrightarrow> overwrite (overwrite d i bs) (i + length bs) cs = overwrite d i (bs @ cs)"
  by (simp add: overwrite_def add.commute add.left_commute)

lemma overwrite_0: "overwrite d 0 bs = bs @ drop (length bs) d"
  by (simp add: overwrite_def)

subsection \<open>Exhaustive facts about one byte\<close>

text \<open>
  Masks and character classes are decided on all 256 values; each such fact is stated once
  and the component proofs use it in place of bit arithmetic.
\<close>

definition byte_list :: "byte list" where
  "byte_list = [
    0, 1, 2, 3, 4, 5, 6, 7, 8, 9, 10, 11, 12, 13, 14, 15, 16, 17, 18, 19, 20, 21, 22, 23, 24, 25,
    26, 27, 28, 29, 30, 31, 32, 33, 34, 35, 36, 37, 38, 39, 40, 41, 42, 43, 44, 45, 46, 47, 48,
    49, 50, 51, 52, 53, 54, 55, 56, 57, 58, 59, 60, 61, 62, 63, 64, 65, 66, 67, 68, 69, 70, 71,
    72, 73, 74, 75, 76, 77, 78, 79, 80, 81, 82, 83, 84, 85, 86, 87, 88, 89, 90, 91, 92, 93, 94,
    95, 96, 97, 98, 99, 100, 101, 102, 103, 104, 105, 106, 107, 108, 109, 110, 111, 112, 113,
    114, 115, 116, 117, 118, 119, 120, 121, 122, 123, 124, 125, 126, 127, 128, 129, 130, 131,
    132, 133, 134, 135, 136, 137, 138, 139, 140, 141, 142, 143, 144, 145, 146, 147, 148, 149,
    150, 151, 152, 153, 154, 155, 156, 157, 158, 159, 160, 161, 162, 163, 164, 165, 166, 167,
    168, 169, 170, 171, 172, 173, 174, 175, 176, 177, 178, 179, 180, 181, 182, 183, 184, 185,
    186, 187, 188, 189, 190, 191, 192, 193, 194, 195, 196, 197, 198, 199, 200, 201, 202, 203,
    204, 205, 206, 207, 208, 209, 210, 211, 212, 213, 214, 215, 216, 217, 218, 219, 220, 221,
    222, 223, 224, 225, 226, 227, 228, 229, 230, 231, 232, 233, 234, 235, 236, 237, 238, 239,
    240, 241, 242, 243, 244, 245, 246, 247, 248, 249, 250, 251, 252, 253, 254, 255]"

lemma byte_list_eq: "byte_list = map word_of_nat [0..<256]"
  by (simp add: byte_list_def upt_conv_Cons)

lemma unat_byte_less [simp]: "unat (b :: byte) < 256"
  using unsigned_less [of b, where 'a = nat] by simp

lemma byte_all:
  assumes "list_all P byte_list"
  shows "P b"
proof -
  have "word_of_nat (unat b) \<in> set byte_list"
    by (auto simp: byte_list_eq intro!: image_eqI [of _ _ "unat b"])
  with assms show ?thesis by (auto simp: list_all_iff)
qed

lemma byte_hi_bit_iff: "b AND 0x80 = 0 \<longleftrightarrow> unat (b :: byte) < 0x80"
  by (rule byte_all [where b = b]) (simp add: byte_list_def)

lemma byte_cont_iff: "b AND 0xC0 = 0x80 \<longleftrightarrow> 0x80 \<le> unat (b :: byte) \<and> unat b < 0xC0"
  by (rule byte_all [where b = b]) (simp add: byte_list_def)

lemma byte_e0_iff: "b AND 0xF0 = 0xE0 \<longleftrightarrow> 0xE0 \<le> unat (b :: byte) \<and> unat b < 0xF0"
  by (rule byte_all [where b = b]) (simp add: byte_list_def)

lemma unat_of_nat_byte: "n < 256 \<Longrightarrow> unat (word_of_nat n :: byte) = n"
  by (simp add: unat_of_nat)

subsection \<open>First match\<close>

text \<open>The index a forward scan stops at.\<close>

fun first_index :: "('a \<Rightarrow> bool) \<Rightarrow> 'a list \<Rightarrow> nat option" where
  "first_index P [] = None"
| "first_index P (x # xs) = (if P x then Some 0 else map_option Suc (first_index P xs))"

lemma first_index_Some: "first_index P xs = Some i \<Longrightarrow> i < length xs \<and> P (xs ! i) \<and> (\<forall>j < i. \<not> P (xs ! j))"
proof (induction xs arbitrary: i)
  case (Cons x xs)
  then show ?case
    by (cases i) (auto split: if_splits simp: less_Suc_eq_0_disj)
qed simp

lemma first_index_None: "first_index P xs = None \<longleftrightarrow> (\<forall>x \<in> set xs. \<not> P x)"
  by (induction xs) auto

lemma first_index_update:
  assumes "i < length xs" and "\<forall>j < i. \<not> P (xs ! j)" and "P y"
  shows "first_index P (xs[i := y]) = Some i"
  using assms
proof (induction xs arbitrary: i)
  case (Cons x xs)
  show ?case
  proof (cases i)
    case (Suc k)
    have "\<not> P x" using Cons.prems(2) [rule_format, of 0] Suc by simp
    moreover have "\<forall>j < k. \<not> P (xs ! j)"
    proof (intro allI impI)
      fix j assume "j < k"
      then show "\<not> P (xs ! j)" using Cons.prems(2) [rule_format, of "Suc j"] Suc by simp
    qed
    ultimately show ?thesis using Cons Suc by simp
  qed (use Cons.prems in simp)
qed simp

lemma first_index_eq [simp]: "first_index ((=) x) xs = None \<longleftrightarrow> x \<notin> set xs"
  by (auto simp: first_index_None)

end
