(* ===== verification/Utf8.thy ===== *)
theory Utf8
  imports SigPrelude "HOL-Library.Sublist"
begin

text \<open>
  Model of \<open>src/utils/utf8_util.h\<close>, the UTF-8 boundary handling every message, name and
  file field of the firmware goes through, and its correctness against the encoding of
  Unicode scalar values (RFC 3629): truncation keeps the longest well-formed prefix that
  fits, copies are always terminated inside the destination, and appending keeps the same
  contract.

  A source buffer is the list of bytes readable through the pointer; the scan for the
  terminator stops at the end of that list, which stands for the terminator of a C string.
  A destination is the list of the bytes of the array.
\<close>

section \<open>The code\<close>

definition utf8_is_continuation :: "byte \<Rightarrow> bool" where
  "utf8_is_continuation byte \<longleftrightarrow> byte AND 0xC0 = 0x80"

definition utf8_sequence_length :: "byte \<Rightarrow> nat" where
  "utf8_sequence_length lead =
     (if lead AND 0x80 = 0 then 1
      else if lead \<ge> 0xC2 \<and> lead \<le> 0xDF then 2
      else if lead AND 0xF0 = 0xE0 then 3
      else if lead \<ge> 0xF0 \<and> lead \<le> 0xF4 then 4
      else 0)"

definition utf8_sequence_is_valid :: "byte list option \<Rightarrow> nat \<Rightarrow> bool" where
  "utf8_sequence_is_valid bytes len =
     (case bytes of
        None \<Rightarrow> False
      | Some bs \<Rightarrow>
          if len = 0 then False
          else if len = 1 then bs ! 0 < 0x80
          else if \<not> list_all (\<lambda>i. utf8_is_continuation (bs ! i)) [1..<len] then False
          else if len = 3 \<and> bs ! 0 = 0xE0 \<and> bs ! 1 < 0xA0 then False
          else if len = 3 \<and> bs ! 0 = 0xED \<and> bs ! 1 > 0x9F then False
          else if len = 4 \<and> bs ! 0 = 0xF0 \<and> bs ! 1 < 0x90 then False
          else if len = 4 \<and> bs ! 0 = 0xF4 \<and> bs ! 1 > 0x8F then False
          else True)"

text \<open>The second loop of \<open>utf8_truncate_bytes\<close>, from \<open>pos\<close> on.\<close>

function utf8_scan :: "byte list \<Rightarrow> nat \<Rightarrow> nat \<Rightarrow> nat" where
  "utf8_scan str string_len pos =
     (if pos < string_len then
        (let sequence_len = utf8_sequence_length (str ! pos)
         in if sequence_len = 0 \<or> sequence_len > string_len - pos then pos
            else if \<not> utf8_sequence_is_valid (Some (drop pos str)) sequence_len then pos
            else utf8_scan str string_len (pos + sequence_len))
      else pos)"
  by pat_completeness auto
termination
  by (relation "measure (\<lambda>(str, string_len, pos). string_len - pos)") auto

declare utf8_scan.simps [simp del]

definition utf8_truncate_bytes :: "byte list option \<Rightarrow> nat \<Rightarrow> nat" where
  "utf8_truncate_bytes str max_bytes =
     (case str of
        None \<Rightarrow> 0
      | Some s \<Rightarrow> if max_bytes = 0 then 0 else utf8_scan s (strnlen s max_bytes) 0)"

text \<open>\<open>memmove(dest, src, keep); dest[keep] = '\\0'\<close>.\<close>

definition store_terminated :: "byte list \<Rightarrow> byte list option \<Rightarrow> nat \<Rightarrow> byte list" where
  "store_terminated dest src keep =
     (case src of None \<Rightarrow> dest[keep := 0]
      | Some s \<Rightarrow> take keep s @ 0 # drop (keep + 1) dest)"

definition utf8_copy_truncate ::
    "byte list option \<Rightarrow> nat \<Rightarrow> byte list option \<Rightarrow> byte list option \<times> nat" where
  "utf8_copy_truncate dest dest_size src =
     (case dest of
        None \<Rightarrow> (None, 0)
      | Some d \<Rightarrow>
          if dest_size = 0 then (Some d, 0)
          else let keep = utf8_truncate_bytes src (dest_size - 1)
               in (Some (store_terminated d src keep), keep))"

definition utf8_copy_truncate_n ::
    "byte list option \<Rightarrow> nat \<Rightarrow> byte list option \<Rightarrow> nat \<Rightarrow> byte list option \<times> nat" where
  "utf8_copy_truncate_n dest dest_size src src_size =
     (case dest of
        None \<Rightarrow> (None, 0)
      | Some d \<Rightarrow>
          if dest_size = 0 then (Some d, 0)
          else let max_copy = (if src_size < dest_size - 1 then src_size else dest_size - 1);
                   keep = utf8_truncate_bytes src max_copy
               in (Some (store_terminated d src keep), keep))"

definition utf8_append_truncate ::
    "byte list option \<Rightarrow> nat \<Rightarrow> byte list option \<Rightarrow> byte list option \<times> nat" where
  "utf8_append_truncate dest dest_size src =
     (case dest of
        None \<Rightarrow> (None, 0)
      | Some d \<Rightarrow>
          if dest_size = 0 then (Some d, 0)
          else let used = strnlen d dest_size
               in if used = dest_size then (Some (d[dest_size - 1 := 0]), dest_size - 1)
                  else (case utf8_copy_truncate (Some (drop used d)) (dest_size - used) src of
                          (Some d', n) \<Rightarrow> (Some (take used d @ d'), used + n)
                        | (None, n) \<Rightarrow> (Some d, used + n)))"

section \<open>Specification: encodings of scalar values\<close>

definition scalar :: "nat \<Rightarrow> bool" where
  "scalar c \<longleftrightarrow> c < 0x110000 \<and> \<not> (0xD800 \<le> c \<and> c \<le> 0xDFFF)"

definition utf8_encode :: "nat \<Rightarrow> byte list" where
  "utf8_encode c =
     (if c < 0x80 then [word_of_nat c]
      else if c < 0x800 then map word_of_nat [0xC0 + c div 64, 0x80 + c mod 64]
      else if c < 0x10000 then
        map word_of_nat [0xE0 + c div 4096, 0x80 + c div 64 mod 64, 0x80 + c mod 64]
      else map word_of_nat [0xF0 + c div 262144, 0x80 + c div 4096 mod 64,
             0x80 + c div 64 mod 64, 0x80 + c mod 64])"

definition utf8_wf :: "byte list \<Rightarrow> bool" where
  "utf8_wf bs \<longleftrightarrow> (\<exists>cps. (\<forall>c \<in> set cps. scalar c) \<and> bs = concat (map utf8_encode cps))"

section \<open>One sequence\<close>

text \<open>The test the loop makes at a position, on the bytes that are left there.\<close>

definition seq_ok :: "byte list \<Rightarrow> bool" where
  "seq_ok bs \<longleftrightarrow> bs \<noteq> [] \<and> utf8_sequence_length (hd bs) \<noteq> 0 \<and>
     utf8_sequence_length (hd bs) \<le> length bs \<and>
     utf8_sequence_is_valid (Some bs) (utf8_sequence_length (hd bs))"

lemma encode_nonempty: "utf8_encode c \<noteq> []"
  by (simp add: utf8_encode_def)

lemma seq_len_cases:
  "utf8_sequence_length b =
     (if unat b < 0x80 then 1 else if 0xC2 \<le> unat b \<and> unat b \<le> 0xDF then 2
      else if 0xE0 \<le> unat b \<and> unat b < 0xF0 then 3
      else if 0xF0 \<le> unat b \<and> unat b \<le> 0xF4 then 4 else 0)"
  by (simp add: utf8_sequence_length_def byte_hi_bit_iff byte_e0_iff word_le_nat_alt)

lemma cont_iff: "utf8_is_continuation b \<longleftrightarrow> 0x80 \<le> unat b \<and> unat b < 0xC0"
  by (simp add: utf8_is_continuation_def byte_cont_iff)

lemma upt_small: "[1..<2] = [1]" "[1..<3] = [1, 2]" "[1..<4] = [1, 2, 3]"
  by (simp_all add: upt_rec)

lemma valid_cases:
  "utf8_sequence_is_valid (Some bs) 1 \<longleftrightarrow> unat (bs ! 0) < 0x80"
  "utf8_sequence_is_valid (Some bs) 2 \<longleftrightarrow> 0x80 \<le> unat (bs ! 1) \<and> unat (bs ! 1) < 0xC0"
  "utf8_sequence_is_valid (Some bs) 3 \<longleftrightarrow>
     (0x80 \<le> unat (bs ! 1) \<and> unat (bs ! 1) < 0xC0) \<and> (0x80 \<le> unat (bs ! 2) \<and> unat (bs ! 2) < 0xC0) \<and>
     \<not> (unat (bs ! 0) = 0xE0 \<and> unat (bs ! 1) < 0xA0) \<and> \<not> (unat (bs ! 0) = 0xED \<and> unat (bs ! 1) > 0x9F)"
  "utf8_sequence_is_valid (Some bs) 4 \<longleftrightarrow>
     (0x80 \<le> unat (bs ! 1) \<and> unat (bs ! 1) < 0xC0) \<and> (0x80 \<le> unat (bs ! 2) \<and> unat (bs ! 2) < 0xC0) \<and>
     (0x80 \<le> unat (bs ! 3) \<and> unat (bs ! 3) < 0xC0) \<and>
     \<not> (unat (bs ! 0) = 0xF0 \<and> unat (bs ! 1) < 0x90) \<and> \<not> (unat (bs ! 0) = 0xF4 \<and> unat (bs ! 1) > 0x8F)"
  unfolding utf8_sequence_is_valid_def
  by (simp_all only: upt_small option.case cont_iff word_less_nat_alt word_unat_eq_iff) auto

text \<open>
  The four shapes of an encoding, with its bytes as numbers; \<open>q\<close> is the code point without
  the payload of the last byte.
\<close>

lemma encode_cases:
  assumes "scalar c"
  obtains (one) b0 where "utf8_encode c = [b0]" "unat b0 = c" "c < 0x80"
  | (two) b0 b1 where "utf8_encode c = [b0, b1]" "unat b0 = 0xC0 + c div 64"
      "unat b1 = 0x80 + c mod 64" "0x80 \<le> c" "c < 0x800"
  | (three) b0 b1 b2 q where "utf8_encode c = [b0, b1, b2]" "q = c div 64" "unat b0 = 0xE0 + q div 64"
      "unat b1 = 0x80 + q mod 64" "unat b2 = 0x80 + c mod 64" "0x20 \<le> q" "q < 0x400"
      "\<not> (0x360 \<le> q \<and> q < 0x380)"
  | (four) b0 b1 b2 b3 q r where "utf8_encode c = [b0, b1, b2, b3]" "q = c div 64" "r = q div 64"
      "unat b0 = 0xF0 + r div 64" "unat b1 = 0x80 + r mod 64" "unat b2 = 0x80 + q mod 64"
      "unat b3 = 0x80 + c mod 64" "0x10 \<le> r" "r < 0x110"
proof -
  have q: "c div 4096 = c div 64 div 64" "c div 262144 = c div 64 div 64 div 64"
    by (simp_all flip: div_mult2_eq)
  note u = unat_of_nat_byte
  consider "c < 0x80" | "0x80 \<le> c" "c < 0x800" | "0x800 \<le> c" "c < 0x10000" | "0x10000 \<le> c" "c < 0x110000"
    using assms by (force simp: scalar_def)
  then show thesis
  proof cases
    case 1
    then show thesis using u [of c] by (intro one [of "word_of_nat c"]) (simp_all add: utf8_encode_def)
  next
    case 2
    then show thesis
      by (intro two [of "word_of_nat (0xC0 + c div 64)" "word_of_nat (0x80 + c mod 64)"])
        (simp_all add: utf8_encode_def u del: of_nat_add)
  next
    case 3
    then show thesis
      using assms
      by (intro three [of "word_of_nat (0xE0 + c div 64 div 64)" "word_of_nat (0x80 + c div 64 mod 64)"
            "word_of_nat (0x80 + c mod 64)" "c div 64"])
        (auto simp: utf8_encode_def u q scalar_def simp del: of_nat_add)
  next
    case 4
    then show thesis
      by (intro four [of "word_of_nat (0xF0 + c div 64 div 64 div 64)"
            "word_of_nat (0x80 + c div 64 div 64 mod 64)" "word_of_nat (0x80 + c div 64 mod 64)"
            "word_of_nat (0x80 + c mod 64)" "c div 64" "c div 64 div 64"])
        (auto simp: utf8_encode_def u q simp del: of_nat_add)
  qed
qed

lemma digit64: "(q :: nat) = 64 * (q div 64) + q mod 64 \<and> q mod 64 < 64"
  by simp

lemma seq_ok_encode:
  assumes "scalar c"
  shows "utf8_sequence_length (hd (utf8_encode c)) = length (utf8_encode c) \<and>
    seq_ok (utf8_encode c @ rest)"
  using assms
proof (cases rule: encode_cases)
  case (one b0)
  then have "utf8_sequence_length b0 = 1" by (simp add: seq_len_cases)
  with one show ?thesis using valid_cases(1) by (simp add: seq_ok_def)
next
  case (two b0 b1)
  then have "2 \<le> c div 64" "c div 64 < 32" by auto
  with two have "utf8_sequence_length b0 = 2" by (simp add: seq_len_cases)
  with two show ?thesis by (simp add: seq_ok_def valid_cases)
next
  case (three b0 b1 b2 q)
  then have a: "q div 64 < 16" "q div 64 = 0 \<longrightarrow> 32 \<le> q mod 64" "q div 64 = 13 \<longrightarrow> q mod 64 < 32"
    using digit64 [of q] by linarith+
  with three have "utf8_sequence_length b0 = 3" by (simp add: seq_len_cases)
  with three a show ?thesis by (auto simp: seq_ok_def valid_cases)
next
  case (four b0 b1 b2 b3 q r)
  then have a: "r div 64 < 5" "r div 64 = 0 \<longrightarrow> 16 \<le> r mod 64" "r div 64 = 4 \<longrightarrow> r mod 64 < 16"
    using digit64 [of r] by linarith+
  with four have "utf8_sequence_length b0 = 4" by (simp add: seq_len_cases)
  with four a show ?thesis by (auto simp: seq_ok_def valid_cases)
qed

lemma seq_len_range: "utf8_sequence_length b \<in> {0, 1, 2, 3, 4}"
  by (simp add: utf8_sequence_length_def)

text \<open>Decoding: an accepted sequence is the encoding of a scalar value.\<close>

lemma encode_digits:
  "\<lbrakk>2 \<le> a; a < 32; b < 64\<rbrakk> \<Longrightarrow>
     utf8_encode (a * 64 + b) = map word_of_nat [0xC0 + a, 0x80 + b]"
  "\<lbrakk>a = 0 \<longrightarrow> 32 \<le> b; a < 16; b < 64; d < 64\<rbrakk> \<Longrightarrow>
     utf8_encode ((a * 64 + b) * 64 + d) = map word_of_nat [0xE0 + a, 0x80 + b, 0x80 + d]"
  "\<lbrakk>a = 0 \<longrightarrow> 16 \<le> b; a < 5; b < 64; d < 64; e < 64\<rbrakk> \<Longrightarrow>
     utf8_encode (((a * 64 + b) * 64 + d) * 64 + e) =
       map word_of_nat [0xF0 + a, 0x80 + b, 0x80 + d, 0x80 + e]"
proof -
  have q: "c div 4096 = c div 64 div 64" "c div 262144 = c div 64 div 64 div 64" for c :: nat
    by (simp_all flip: div_mult2_eq)
  have dm: "(x * 64 + y) div 64 = x" "(x * 64 + y) mod 64 = y" if "y < 64" for x y :: nat
    using that by auto
  show "\<lbrakk>2 \<le> a; a < 32; b < 64\<rbrakk> \<Longrightarrow>
     utf8_encode (a * 64 + b) = map word_of_nat [0xC0 + a, 0x80 + b]"
    unfolding utf8_encode_def by (subst dm, assumption)+ (simp del: of_nat_add)
  show "\<lbrakk>a = 0 \<longrightarrow> 32 \<le> b; a < 16; b < 64; d < 64\<rbrakk> \<Longrightarrow>
     utf8_encode ((a * 64 + b) * 64 + d) = map word_of_nat [0xE0 + a, 0x80 + b, 0x80 + d]"
    unfolding utf8_encode_def q by (subst dm, assumption)+ (auto simp del: of_nat_add)
  show "\<lbrakk>a = 0 \<longrightarrow> 16 \<le> b; a < 5; b < 64; d < 64; e < 64\<rbrakk> \<Longrightarrow>
     utf8_encode (((a * 64 + b) * 64 + d) * 64 + e) =
       map word_of_nat [0xF0 + a, 0x80 + b, 0x80 + d, 0x80 + e]"
    unfolding utf8_encode_def q by (subst dm, assumption)+ (auto simp del: of_nat_add)
qed

lemma seq_ok_decode:
  assumes ok: "seq_ok bs"
  obtains c where "scalar c" and "take (utf8_sequence_length (hd bs)) bs = utf8_encode c"
proof -
  let ?n = "utf8_sequence_length (hd bs)"
  have n: "?n \<le> length bs" "bs \<noteq> []" "?n \<noteq> 0" and v: "utf8_sequence_is_valid (Some bs) ?n"
    using ok by (auto simp: seq_ok_def)
  from n(2) have hd: "hd bs = bs ! 0" by (simp add: hd_conv_nth)
  have take: "take m bs = map ((!) bs) [0..<m]" if "m \<le> length bs" for m
    using that by (intro nth_equalityI) auto
  consider "?n = 1" | "?n = 2" | "?n = 3" | "?n = 4" using seq_len_range [of "hd bs"] n(3) by auto
  then show thesis
  proof cases
    case 1
    let ?c = "unat (bs ! 0)"
    have "?c < 0x80" using v 1 valid_cases(1) by simp
    moreover have "take ?n bs = [bs ! 0]" using n 1 by (cases bs) auto
    ultimately show thesis by (intro that [of ?c]) (auto simp: scalar_def utf8_encode_def)
  next
    case 2
    define a b where ab: "a = unat (bs ! 0) - 0xC0" "b = unat (bs ! 1) - 0x80"
    have "0xC2 \<le> unat (bs ! 0)" "unat (bs ! 0) \<le> 0xDF" "0x80 \<le> unat (bs ! 1)" "unat (bs ! 1) < 0xC0"
      using v 2 hd by (auto simp: valid_cases seq_len_cases split: if_splits)
    with ab have r: "2 \<le> a" "a < 32" "b < 64" "0xC0 + a = unat (bs ! 0)" "0x80 + b = unat (bs ! 1)"
      by auto
    have "take ?n bs = [bs ! 0, bs ! 1]" using n 2 by (simp add: take upt_rec eval_nat_numeral)
    also have "\<dots> = utf8_encode (a * 64 + b)"
      unfolding encode_digits(1) [OF r(1-3)] r(4,5) by simp
    finally show thesis using r by (intro that) (auto simp: scalar_def)
  next
    case 3
    define a b d where ab: "a = unat (bs ! 0) - 0xE0" "b = unat (bs ! 1) - 0x80" "d = unat (bs ! 2) - 0x80"
    have "0xE0 \<le> unat (bs ! 0)" "unat (bs ! 0) < 0xF0"
      using 3 hd by (auto simp: seq_len_cases split: if_splits)
    with v 3 ab have r: "a = 0 \<longrightarrow> 32 \<le> b" "a < 16" "b < 64" "d < 64" "0xE0 + a = unat (bs ! 0)"
      "0x80 + b = unat (bs ! 1)" "0x80 + d = unat (bs ! 2)" "a = 13 \<longrightarrow> b < 32"
      by (auto simp: valid_cases)
    have "take ?n bs = [bs ! 0, bs ! 1, bs ! 2]" using n 3 by (simp add: take upt_rec eval_nat_numeral)
    also have "\<dots> = utf8_encode ((a * 64 + b) * 64 + d)"
      unfolding encode_digits(2) [OF r(1-4)] r(5-7) by simp
    finally have e: "take ?n bs = utf8_encode ((a * 64 + b) * 64 + d)" .
    consider "a \<le> 12" | "a = 13" "b < 32" | "14 \<le> a" using r(8) by linarith
    then have "scalar ((a * 64 + b) * 64 + d)" using r(2-4) by cases (auto simp: scalar_def)
    then show thesis using e by (rule that)
  next
    case 4
    define a b d e where ab: "a = unat (bs ! 0) - 0xF0" "b = unat (bs ! 1) - 0x80"
      "d = unat (bs ! 2) - 0x80" "e = unat (bs ! 3) - 0x80"
    have "0xF0 \<le> unat (bs ! 0)" "unat (bs ! 0) \<le> 0xF4"
      using 4 hd by (auto simp: seq_len_cases split: if_splits)
    with v 4 ab have r: "a = 0 \<longrightarrow> 16 \<le> b" "a < 5" "b < 64" "d < 64" "e < 64" "0xF0 + a = unat (bs ! 0)"
      "0x80 + b = unat (bs ! 1)" "0x80 + d = unat (bs ! 2)" "0x80 + e = unat (bs ! 3)" "a = 4 \<longrightarrow> b < 16"
      by (auto simp: valid_cases)
    have "take ?n bs = [bs ! 0, bs ! 1, bs ! 2, bs ! 3]" using n 4 by (simp add: take upt_rec eval_nat_numeral)
    also have "\<dots> = utf8_encode (((a * 64 + b) * 64 + d) * 64 + e)"
      unfolding encode_digits(3) [OF r(1-5)] r(6-9) by simp
    finally show thesis using r by (intro that) (auto simp: scalar_def)
  qed
qed

section \<open>Truncation\<close>

lemma utf8_wf_Nil [simp]: "utf8_wf []"
  by (auto simp: utf8_wf_def intro: exI [of _ "[]"])

lemma utf8_wf_Cons:
  assumes "scalar c" and "utf8_wf bs"
  shows "utf8_wf (utf8_encode c @ bs)"
proof -
  obtain cps where "\<forall>c \<in> set cps. scalar c" "bs = concat (map utf8_encode cps)"
    using assms(2) by (auto simp: utf8_wf_def)
  with assms(1) show ?thesis by (auto simp: utf8_wf_def intro!: exI [of _ "c # cps"])
qed

lemma utf8_wf_ascii: "(\<forall>b \<in> set bs. unat b < 128) \<Longrightarrow> utf8_wf bs"
proof (induction bs)
  case (Cons b bs)
  then have "utf8_encode (unat b) = [b]" "scalar (unat b)" by (simp_all add: utf8_encode_def scalar_def)
  then show ?case using Cons utf8_wf_Cons [of "unat b" bs] by simp
qed simp

lemma utf8_wf_cases:
  assumes "utf8_wf bs"
  obtains "bs = []" | c bs' where "scalar c" "bs = utf8_encode c @ bs'" "utf8_wf bs'"
proof -
  obtain cps where "\<forall>c \<in> set cps. scalar c" "bs = concat (map utf8_encode cps)"
    using assms by (auto simp: utf8_wf_def)
  then show thesis using that by (cases cps) (auto simp: utf8_wf_def)
qed

text \<open>The loop's step, in terms of the bytes that are left.\<close>

lemma utf8_scan_step:
  assumes "len \<le> length str"
  shows "utf8_scan str len pos =
     (if pos < len \<and> seq_ok (take (len - pos) (drop pos str))
      then utf8_scan str len (pos + utf8_sequence_length (str ! pos)) else pos)"
proof (cases "pos < len")
  case True
  let ?l = "take (len - pos) (drop pos str)"
  let ?k = "utf8_sequence_length (str ! pos)"
  have hd: "hd ?l = str ! pos" and ne: "?l \<noteq> []" and ln: "length ?l = len - pos"
    using True assms by (simp_all add: hd_drop_conv_nth)
  have "utf8_sequence_is_valid (Some (drop pos str)) ?k = utf8_sequence_is_valid (Some ?l) ?k"
    if "?k \<le> len - pos" "?k \<noteq> 0"
    using that seq_len_range [of "str ! pos"] True
    by (auto simp: valid_cases valid_cases(1) [simplified])
  then show ?thesis
    using True hd ne ln
    by (subst utf8_scan.simps) (auto simp: seq_ok_def Let_def)
next
  case False
  then show ?thesis by (subst utf8_scan.simps) simp
qed

lemma utf8_scan_correct:
  assumes "len \<le> length str" and "pos \<le> len"
  shows "pos \<le> utf8_scan str len pos \<and> utf8_scan str len pos \<le> len \<and>
    utf8_wf (take (utf8_scan str len pos - pos) (drop pos str))"
  using assms(2)
proof (induction "len - pos" arbitrary: pos rule: less_induct)
  case less
  let ?l = "take (len - pos) (drop pos str)"
  let ?k = "utf8_sequence_length (str ! pos)"
  show ?case
  proof (cases "pos < len \<and> seq_ok ?l")
    case False
    then show ?thesis using utf8_scan_step [OF assms(1), of pos] less.prems by auto
  next
    case True
    then have hd: "hd ?l = str ! pos" using assms by (simp add: hd_drop_conv_nth)
    from True obtain c where c: "scalar c" "take ?k ?l = utf8_encode c"
      using seq_ok_decode [of ?l] hd by metis
    have k: "?k \<noteq> 0" "?k \<le> len - pos" using True hd assms by (auto simp: seq_ok_def)
    let ?r = "utf8_scan str len (pos + ?k)"
    have IH: "pos + ?k \<le> ?r \<and> ?r \<le> len \<and> utf8_wf (take (?r - (pos + ?k)) (drop (pos + ?k) str))"
      using k True by (intro less.hyps) auto
    have "?r - pos = ?k + (?r - (pos + ?k))" using IH by simp
    then have "take (?r - pos) (drop pos str) = take (?k + (?r - (pos + ?k))) (drop pos str)"
      by (rule arg_cong)
    also have "\<dots> = take ?k (drop pos str) @ take (?r - (pos + ?k)) (drop (pos + ?k) str)"
      by (subst take_add) (simp add: add.commute)
    also have "take ?k (drop pos str) = utf8_encode c" using c k by (simp add: min_absorb1)
    finally have "utf8_wf (take (?r - pos) (drop pos str))" using IH c(1) by (simp add: utf8_wf_Cons)
    then show ?thesis using IH utf8_scan_step [OF assms(1), of pos] True by auto
  qed
qed

lemma utf8_scan_longest:
  assumes "len \<le> length str" and "pos \<le> len" and "utf8_wf p"
    and "prefix p (take (len - pos) (drop pos str))"
  shows "pos + length p \<le> utf8_scan str len pos"
  using assms(2-4)
proof (induction "length p" arbitrary: p pos rule: less_induct)
  case less
  from less.prems(2) show ?case
  proof (cases rule: utf8_wf_cases)
    case 1
    then show ?thesis using utf8_scan_correct [OF assms(1) less.prems(1)] by simp
  next
    case (2 c p')
    let ?l = "take (len - pos) (drop pos str)"
    let ?k = "utf8_sequence_length (str ! pos)"
    obtain rest where l: "?l = utf8_encode c @ p' @ rest" using less.prems(3) 2 by (auto elim: prefixE)
    then have ok: "seq_ok ?l" and k: "utf8_sequence_length (hd ?l) = length (utf8_encode c)"
      using seq_ok_encode [OF 2(1)] encode_nonempty by auto
    have "pos < len" using ok by (auto simp: seq_ok_def)
    then have hd: "hd ?l = str ! pos" using assms(1) by (simp add: hd_drop_conv_nth)
    have "take (len - (pos + ?k)) (drop (pos + ?k) str) = drop ?k ?l"
      by (simp add: drop_take add.commute)
    also have "\<dots> = p' @ rest" using l k hd by simp
    finally have pre: "prefix p' (take (len - (pos + ?k)) (drop (pos + ?k) str))" by simp
    have "pos + ?k + length p' \<le> utf8_scan str len (pos + ?k)"
    proof (rule less.hyps [OF _ _ 2(3) pre])
      show "length p' < length p" using 2 encode_nonempty [of c] by simp
      have "length ?l = len - pos" using assms(1) by simp
      then show "pos + ?k \<le> len" using l k hd \<open>pos < len\<close> by auto
    qed
    then show ?thesis using utf8_scan_step [OF assms(1), of pos] ok \<open>pos < len\<close> 2 k hd by simp
  qed
qed

lemma utf8_wf_append:
  assumes "utf8_wf xs" and "utf8_wf ys"
  shows "utf8_wf (xs @ ys)"
proof -
  obtain as bs where "\<forall>c \<in> set as. scalar c" "xs = concat (map utf8_encode as)"
    and "\<forall>c \<in> set bs. scalar c" "ys = concat (map utf8_encode bs)"
    using assms by (auto simp: utf8_wf_def)
  then show ?thesis by (auto simp: utf8_wf_def intro!: exI [of _ "as @ bs"])
qed

lemma truncate_bytes_le: "utf8_truncate_bytes src m \<le> m"
proof (cases src)
  case (Some s)
  then show ?thesis
    using utf8_scan_correct [OF strnlen_le_length, of 0 s m] strnlen_le [of s m]
    by (simp add: utf8_truncate_bytes_def)
qed (simp add: utf8_truncate_bytes_def)

lemma truncate_bytes_le_strnlen: "utf8_truncate_bytes (Some s) m \<le> strnlen s m"
  using utf8_scan_correct [OF strnlen_le_length, of 0 s m]
  by (simp add: utf8_truncate_bytes_def)

lemma truncate_bytes_wf: "utf8_wf (take (utf8_truncate_bytes (Some s) m) s)"
  using utf8_scan_correct [OF strnlen_le_length, of 0 s m]
  by (simp add: utf8_truncate_bytes_def)

lemma truncate_bytes_take: "take (utf8_truncate_bytes (Some s) m) s = take (utf8_truncate_bytes (Some s) m) (cstr s)"
proof -
  have "take (utf8_truncate_bytes (Some s) m) s = take (utf8_truncate_bytes (Some s) m) (take (strnlen s m) s)"
    using truncate_bytes_le_strnlen [of s m] by (simp add: min_absorb1)
  also have "take (strnlen s m) s = cstr (take m s)" by (rule take_strnlen)
  also have "\<dots> = take m (cstr s)" by (rule cstr_take)
  finally show ?thesis using truncate_bytes_le [of "Some s" m] by (simp add: min_absorb1)
qed

lemma truncate_bytes_longest:
  assumes "utf8_wf p" and "prefix p (cstr (take m s))"
  shows "length p \<le> utf8_truncate_bytes (Some s) m"
proof (cases "m = 0")
  case True
  then show ?thesis using assms(2) by (simp add: cstr_def)
next
  case False
  have "prefix p (take (strnlen s m) s)" using assms(2) by (simp add: take_strnlen)
  then show ?thesis
    using utf8_scan_longest [OF strnlen_le_length, of 0 s m p] assms(1) False
    by (simp add: utf8_truncate_bytes_def)
qed

lemma truncate_bytes_no_nul: "0 \<notin> set (take (utf8_truncate_bytes (Some s) m) s)"
  using cstr_no_nul [of s] by (auto simp: truncate_bytes_take dest: in_set_takeD)

lemma truncate_bytes_all:
  assumes "utf8_wf s" and "0 \<notin> set s" and "length s \<le> m"
  shows "utf8_truncate_bytes (Some s) m = length s"
proof (rule antisym)
  have "cstr (take m s) = s" using assms by (simp add: cstr_id)
  then show "length s \<le> utf8_truncate_bytes (Some s) m"
    using truncate_bytes_longest [of s m s] assms(1) by simp
  show "utf8_truncate_bytes (Some s) m \<le> length s"
    using truncate_bytes_le_strnlen [of s m] strnlen_le_length [of s m] by simp
qed

text \<open>The string that survives truncation, and the copy in terms of it.\<close>

definition utf8_trunc :: "nat \<Rightarrow> byte list \<Rightarrow> cstring" where
  "utf8_trunc m s = take (utf8_truncate_bytes (Some s) m) s"

lemma length_utf8_trunc: "length (utf8_trunc m s) = utf8_truncate_bytes (Some s) m"
  using truncate_bytes_le_strnlen [of s m] strnlen_le_length [of s m] by (simp add: utf8_trunc_def)

lemma length_utf8_trunc_le: "length (utf8_trunc m s) \<le> m"
  by (simp add: length_utf8_trunc truncate_bytes_le)

lemma utf8_trunc_wf [simp]: "utf8_wf (utf8_trunc m s)"
  by (simp add: utf8_trunc_def truncate_bytes_wf)

lemma utf8_trunc_no_nul [simp]: "0 \<notin> set (utf8_trunc m s)"
  by (simp add: utf8_trunc_def truncate_bytes_no_nul)

lemma utf8_trunc_all: "utf8_wf s \<Longrightarrow> 0 \<notin> set s \<Longrightarrow> length s \<le> m \<Longrightarrow> utf8_trunc m s = s"
  by (simp add: utf8_trunc_def truncate_bytes_all)

lemma utf8_trunc_take: "utf8_trunc m s = take (utf8_truncate_bytes (Some s) m) (cstr (take m s))"
  using truncate_bytes_le_strnlen [of s m] by (simp add: utf8_trunc_def min_absorb1 flip: take_strnlen)

lemma utf8_trunc_prefix: "prefix (utf8_trunc m s) (cstr (take m s))"
  by (simp add: utf8_trunc_take take_is_prefix)

lemma utf8_trunc_cstr [simp]: "utf8_trunc m (cstr d) = utf8_trunc m d"
proof -
  have c: "cstr (take m (cstr d)) = cstr (take m d)" by (simp add: cstr_take)
  have "utf8_truncate_bytes (Some (cstr d)) m = utf8_truncate_bytes (Some d) m"
    using truncate_bytes_longest [OF utf8_trunc_wf, of m "cstr d" m d] utf8_trunc_prefix [of m "cstr d"]
      truncate_bytes_longest [OF utf8_trunc_wf, of m d m "cstr d"] utf8_trunc_prefix [of m d] c
    by (simp add: length_utf8_trunc)
  then show ?thesis by (simp only: utf8_trunc_take c)
qed

lemma copy_truncate_eq:
  "0 < n \<Longrightarrow> utf8_copy_truncate (Some d) n (Some s) =
     (Some (utf8_trunc (n - 1) s @ 0 # drop (length (utf8_trunc (n - 1) s) + 1) d), length (utf8_trunc (n - 1) s))"
  unfolding length_utf8_trunc
  by (simp add: utf8_copy_truncate_def store_terminated_def Let_def utf8_trunc_def)

section \<open>Properties\<close>

text \<open>
  C37. Truncating a message, name or file field to \<open>max_bytes\<close> keeps at most that many bytes
  of the string, the kept bytes are a sequence of complete encodings of Unicode scalar
  values, and no longer prefix of the string within the limit is: nothing is dropped that
  could have been kept, and no code point is split.
\<close>

theorem utf8_truncate_longest_wf_prefix:
  "utf8_truncate_bytes (Some s) max_bytes \<le> max_bytes \<and>
   utf8_wf (take (utf8_truncate_bytes (Some s) max_bytes) s) \<and>
   prefix (take (utf8_truncate_bytes (Some s) max_bytes) s) (cstr (take max_bytes s)) \<and>
   (\<forall>p. utf8_wf p \<and> prefix p (cstr (take max_bytes s)) \<longrightarrow>
      length p \<le> utf8_truncate_bytes (Some s) max_bytes)"
proof (intro conjI allI impI)
  let ?r = "utf8_truncate_bytes (Some s) max_bytes"
  show "?r \<le> max_bytes" by (rule truncate_bytes_le)
  show "utf8_wf (take ?r s)" by (rule truncate_bytes_wf)
  show "prefix (take ?r s) (cstr (take max_bytes s))"
    using utf8_trunc_prefix [of max_bytes s] by (simp add: utf8_trunc_def)
  fix p assume "utf8_wf p \<and> prefix p (cstr (take max_bytes s))"
  then show "length p \<le> ?r" by (blast intro: truncate_bytes_longest)
qed

text \<open>At the three-byte Euro sign cut after two of its bytes, only the leading letter stays.\<close>

theorem utf8_truncate_longest_wf_prefix_witness:
  "utf8_wf [0x41] \<and> prefix [0x41] (cstr (take 3 [0x41, 0xE2, 0x82, 0xAC])) \<and>
   1 \<le> utf8_truncate_bytes (Some [0x41, 0xE2, 0x82, 0xAC]) 3"
proof -
  have wf: "utf8_wf [0x41]"
    unfolding utf8_wf_def by (rule exI [of _ "[0x41]"]) (simp add: scalar_def utf8_encode_def)
  have pre: "prefix [0x41] (cstr (take 3 [0x41, 0xE2, 0x82, 0xAC]))"
    by (simp add: cstr_def)
  show ?thesis
    using wf pre utf8_truncate_longest_wf_prefix [of "[0x41, 0xE2, 0x82, 0xAC]" 3] by fastforce
qed

text \<open>
  Copying into a destination array of \<open>dest_size\<close> bytes writes only inside it: the
  array keeps its length and the bytes after the terminator, the terminator is inside the
  first \<open>dest_size\<close> bytes, and the string now held is the well-formed prefix that
  truncation chose; a well-formed string that fits is copied whole.
\<close>

theorem utf8_copy_truncate_contract:
  assumes "0 < dest_size" and "dest_size \<le> length d"
    and "utf8_copy_truncate (Some d) dest_size (Some s) = (Some d', keep)"
  shows "length d' = length d \<and> keep < dest_size \<and> d' ! keep = 0 \<and>
    drop (keep + 1) d' = drop (keep + 1) d \<and>
    cstr d' = take keep s \<and> utf8_wf (cstr d') \<and>
    (utf8_wf s \<and> 0 \<notin> set s \<and> length s < dest_size \<longrightarrow> cstr d' = s)"
proof -
  let ?t = "utf8_trunc (dest_size - 1) s"
  have k: "keep = length ?t" and d': "d' = ?t @ 0 # drop (length ?t + 1) d"
    using assms(1,3) by (auto simp: copy_truncate_eq)
  have kl: "length ?t < dest_size" using length_utf8_trunc_le [of "dest_size - 1" s] assms(1) by linarith
  have c: "cstr d' = ?t" unfolding d' by (rule cstr_terminated) simp
  have t: "take keep s = ?t" unfolding k length_utf8_trunc by (simp only: utf8_trunc_def)
  have "cstr d' = s" if "utf8_wf s" "0 \<notin> set s" "length s < dest_size"
    using utf8_trunc_all [of s "dest_size - 1"] that c by simp
  moreover have "length d' = length d" "d' ! keep = 0" "drop (keep + 1) d' = drop (keep + 1) d"
    using kl assms(2) by (simp_all add: d' k nth_append)
  ultimately show ?thesis using kl c t by (simp add: k)
qed

theorem utf8_copy_truncate_contract_witness:
  "cstr (the (fst (utf8_copy_truncate (Some [1, 1, 1, 1]) 4 (Some [0x41, 0x42])))) = [0x41, 0x42]"
proof -
  let ?s = "[0x41, 0x42] :: byte list"
  have wf: "utf8_wf ?s"
    unfolding utf8_wf_def by (rule exI [of _ "[0x41, 0x42]"]) (simp add: scalar_def utf8_encode_def)
  obtain d' keep where e: "utf8_copy_truncate (Some [1, 1, 1, 1]) 4 (Some ?s) = (Some d', keep)"
    by (simp add: utf8_copy_truncate_def Let_def)
  have pre: "0 < (4 :: nat)" "4 \<le> length [1, 1, 1, 1 :: byte]" "0 \<notin> set ?s" "length ?s < 4" by simp_all
  have "cstr d' = ?s"
    using utf8_copy_truncate_contract [OF pre(1,2) e] wf pre(3,4) by blast
  then show ?thesis by (simp add: e)
qed

text \<open>
  Appending to a buffer that holds a well-formed string leaves a terminated, well-formed
  string that starts with the old one, never writing outside the first \<open>dest_size\<close> bytes.
\<close>

theorem utf8_append_truncate_contract:
  assumes "0 < dest_size" and "dest_size \<le> length d" and "strnlen d dest_size < dest_size"
    and "utf8_wf (cstr d)"
    and "utf8_append_truncate (Some d) dest_size (Some s) = (Some d', n)"
  shows "length d' = length d \<and> n < dest_size \<and> d' ! n = 0 \<and>
    drop dest_size d' = drop dest_size d \<and> prefix (cstr d) (cstr d') \<and> n = length (cstr d') \<and>
    utf8_wf (cstr d')"
proof -
  let ?u = "strnlen d dest_size"
  let ?k = "utf8_truncate_bytes (Some s) (dest_size - ?u - 1)"
  have tk: "take ?u d = cstr (take dest_size d)" by (rule take_strnlen)
  have d': "d' = take ?u d @ take ?k s @ 0 # drop (?u + ?k + 1) d" and n: "n = ?u + ?k"
    using assms(1,3,5)
    by (auto simp: utf8_append_truncate_def utf8_copy_truncate_def store_terminated_def Let_def add.commute)
  have kl: "?k \<le> dest_size - ?u - 1" by (rule truncate_bytes_le)
  have ks: "?k \<le> length s"
    using truncate_bytes_le_strnlen [of s "dest_size - ?u - 1"]
      strnlen_le_length [of s "dest_size - ?u - 1"] by simp
  have nn: "0 \<notin> set (take ?u d @ take ?k s)"
    using cstr_no_nul [of "take dest_size d"] truncate_bytes_no_nul [of s "dest_size - ?u - 1"]
    by (simp add: tk)
  have c: "cstr d' = take ?u d @ take ?k s"
    unfolding d' using cstr_terminated [OF nn] by simp
  have cd: "cstr d = take ?u d" using assms(2,3) by (intro cstr_strnlen)
  have ul: "?u \<le> length d" by (rule strnlen_le_length)
  have wf: "utf8_wf (cstr d')"
    using utf8_wf_append [OF _ truncate_bytes_wf] assms(4) by (simp add: c cd)
  have len: "length (cstr d') = n" using ul ks n by (simp add: c)
  have nl: "n < dest_size" using kl assms(3) n by linarith
  then obtain j where j: "dest_size = n + Suc j" by (auto dest: less_imp_Suc_add)
  have sh: "d' = cstr d' @ 0 # drop (Suc n) d" using d' c n by simp
  have "length d' = length d" "d' ! n = 0" "drop dest_size d' = drop dest_size d"
    by (subst sh, use len nl j assms(2) in \<open>simp add: nth_append add.commute\<close>)+
  then show ?thesis using wf c cd len nl by simp
qed

theorem utf8_append_truncate_contract_witness:
  "\<exists>d' n. utf8_append_truncate (Some [0x41, 0, 0, 0]) 4 (Some [0x42]) = (Some d', n) \<and>
     prefix [0x41] (cstr d') \<and> utf8_wf (cstr d')"
proof -
  let ?d = "[0x41, 0, 0, 0] :: byte list"
  have c: "cstr ?d = [0x41]" by (simp add: cstr_def)
  have wf: "utf8_wf (cstr ?d)"
    unfolding utf8_wf_def c by (rule exI [of _ "[0x41]"]) (simp add: scalar_def utf8_encode_def)
  have l: "strnlen ?d 4 < 4" by (simp add: strnlen_def)
  obtain d' n where e: "utf8_append_truncate (Some ?d) 4 (Some [0x42]) = (Some d', n)"
    by (simp add: utf8_append_truncate_def utf8_copy_truncate_def strnlen_def Let_def)
  show ?thesis
    using utf8_append_truncate_contract [OF _ _ l wf e] e c by auto
qed

end
