(* ===== verification/Queues.thy ===== *)
theory Queues
  imports SigPrelude Utf8
begin

text \<open>
  The bounded queues of the firmware: \<open>FixedQueue\<close> (\<open>utils/fixed_queue.h\<close>), the BLE frame
  queue between the Bluetooth host task and the application loop
  (\<open>comms/ble_frame_queue.h\<close>), the repeater command responses
  (\<open>mesh/cmd_response_queue.h\<close>), the completed-response table
  (\<open>mesh/bounded_response_queue.h\<close>) and the fixed-table clean-up loops
  (\<open>mesh/contact_runtime_cleanup.h\<close>).

  The three rings implement one contract, the locale \<open>bounded_fifo\<close>; what a client relies on
  (every run of pushes and pops delivers exactly the accepted items, in order) is proved
  once in the locale and holds for each ring by interpretation. The template parameters
  \<open>Capacity\<close> and \<open>MAX_LEN\<close> are arguments.
\<close>

section \<open>The contract of a bounded FIFO\<close>

datatype 'a qop = Enq 'a | Deq

text \<open>
  A run of operations: the final queue, what the pops delivered, and the pushes accepted.
\<close>

fun qrun :: "('a \<Rightarrow> 'q \<Rightarrow> 'q option) \<Rightarrow> ('q \<Rightarrow> ('b \<times> 'q) option) \<Rightarrow> 'q \<Rightarrow> 'a qop list \<Rightarrow> 'q \<times> 'b list \<times> 'a list" where
  "qrun enq deq q [] = (q, [], [])"
| "qrun enq deq q (Enq x # ops) =
     (case enq x q of
        None \<Rightarrow> qrun enq deq q ops
      | Some q' \<Rightarrow> (case qrun enq deq q' ops of (r, out, acc) \<Rightarrow> (r, out, x # acc)))"
| "qrun enq deq q (Deq # ops) =
     (case deq q of
        None \<Rightarrow> qrun enq deq q ops
      | Some (y, q') \<Rightarrow> (case qrun enq deq q' ops of (r, out, acc) \<Rightarrow> (r, y # out, acc)))"

locale bounded_fifo =
  fixes inv :: "'q \<Rightarrow> bool"
    and cap :: "'q \<Rightarrow> nat"
    and contents :: "'q \<Rightarrow> 'b list"
    and stored :: "'a \<Rightarrow> 'b"
    and adm :: "'a \<Rightarrow> bool"
    and enq :: "'a \<Rightarrow> 'q \<Rightarrow> 'q option"
    and deq :: "'q \<Rightarrow> ('b \<times> 'q) option"
  assumes bounded: "inv q \<Longrightarrow> length (contents q) \<le> cap q"
    and enq_None: "inv q \<Longrightarrow> enq x q = None \<longleftrightarrow> \<not> adm x \<or> length (contents q) = cap q"
    and enq_Some: "inv q \<Longrightarrow> enq x q = Some q' \<Longrightarrow>
      inv q' \<and> cap q' = cap q \<and> contents q' = contents q @ [stored x]"
    and deq_None: "inv q \<Longrightarrow> deq q = None \<longleftrightarrow> contents q = []"
    and deq_Some: "inv q \<Longrightarrow> deq q = Some (y, q') \<Longrightarrow>
      inv q' \<and> cap q' = cap q \<and> contents q = y # contents q'"
begin

lemma fifo_run:
  assumes "inv q" and "qrun enq deq q ops = (r, out, acc)"
  shows "inv r \<and> cap r = cap q \<and> contents q @ map stored acc = out @ contents r"
  using assms
proof (induction ops arbitrary: q out acc)
  case Nil
  then show ?case by simp
next
  case (Cons op ops)
  show ?case
  proof (cases op)
    case (Enq x)
    show ?thesis
    proof (cases "enq x q")
      case None
      then show ?thesis using Cons Enq by simp
    next
      case (Some q')
      obtain acc' where "qrun enq deq q' ops = (r, out, acc')" and acc: "acc = x # acc'"
        using Cons.prems(2) Enq Some by (auto split: prod.splits)
      then have "inv r \<and> cap r = cap q' \<and> contents q' @ map stored acc' = out @ contents r"
        using Cons.IH enq_Some [OF Cons.prems(1) Some] by blast
      then show ?thesis using enq_Some [OF Cons.prems(1) Some] acc by simp
    qed
  next
    case Deq
    show ?thesis
    proof (cases "deq q")
      case None
      then show ?thesis using Cons Deq by simp
    next
      case (Some p)
      obtain y q' where p: "p = (y, q')" by force
      obtain out' where "qrun enq deq q' ops = (r, out', acc)" and out: "out = y # out'"
        using Cons.prems(2) Deq Some p by (auto split: prod.splits)
      then have "inv r \<and> cap r = cap q' \<and> contents q' @ map stored acc = out' @ contents r"
        using Cons.IH deq_Some [OF Cons.prems(1)] Some p by blast
      then show ?thesis using deq_Some [OF Cons.prems(1)] Some p out by simp
    qed
  qed
qed

text \<open>An admissible item is refused only when the run has filled the queue.\<close>

lemma fifo_refuses_only_full:
  assumes "inv q" and "qrun enq deq q ops = (r, out, acc)" and "adm x"
  shows "enq x r = None \<longleftrightarrow> length (contents q) + length acc = length out + cap q"
proof -
  have f: "inv r" "cap r = cap q" "contents q @ map stored acc = out @ contents r"
    using fifo_run [OF assms(1,2)] by auto
  have "length (contents q) + length acc = length out + length (contents r)"
    using arg_cong [OF f(3), of length] by simp
  then show ?thesis using enq_None [OF f(1), of x] f(2) assms(3) by auto
qed

lemma fifo_delivers_prefix:
  assumes "inv q" and "contents q = []" and "qrun enq deq q ops = (r, out, acc)"
  shows "out = take (length out) (map stored acc) \<and> length acc \<le> length out + cap q"
proof -
  have f: "map stored acc = out @ contents r" and b: "length (contents r) \<le> cap q"
    using fifo_run [OF assms(1,3)] bounded [of r] assms(2) by auto
  have "length acc = length (out @ contents r)" using f by (metis length_map)
  then show ?thesis using f b by simp
qed

end

section \<open>Ring arithmetic\<close>

text \<open>The live window of an array used as a ring.\<close>

definition ring :: "'a list \<Rightarrow> nat \<Rightarrow> nat \<Rightarrow> 'a list" where
  "ring vs start n = map (\<lambda>i. vs ! ((start + i) mod length vs)) [0..<n]"

lemma length_ring [simp]: "length (ring vs start n) = n"
  by (simp add: ring_def)

lemma ring_Suc: "ring vs start (Suc n) = vs ! (start mod length vs) # ring vs (Suc start) n"
  by (simp add: ring_def upt_conv_Cons map_Suc_upt [symmetric] comp_def del: upt_Suc)

lemma ring_mod: "ring vs (start mod length vs) n = ring vs start n"
  by (simp add: ring_def mod_simps)

lemma ring_slot_distinct:
  assumes "i < n" and "n \<le> c" and "k < c" and "n \<le> k"
  shows "(start + k) mod c \<noteq> (start + i) mod (c :: nat)"
proof
  assume "(start + k) mod c = (start + i) mod c"
  then have "(start + k - (start + i)) mod c = 0"
    by (rule mod_eq_dvd_iff_nat [THEN iffD1, THEN mod_eq_0_iff_dvd [THEN iffD2], rotated]) (use assms in simp)
  then show False using assms by simp
qed

lemma ring_snoc:
  assumes "n < length vs"
  shows "ring (vs[(start + n) mod length vs := x]) start (Suc n) = ring vs start n @ [x]"
proof -
  have "(start + n) mod length vs < length vs" using assms by (intro mod_less_divisor) linarith
  then show ?thesis
    using assms ring_slot_distinct [of _ n "length vs" n start]
    by (auto simp: ring_def nth_list_update)
qed

lemma ring_update_outside:
  assumes "n \<le> k" and "k < length vs"
  shows "ring (vs[(start + k) mod length vs := x]) start n = ring vs start n"
  using assms ring_slot_distinct [of _ n "length vs" k start]
  by (auto simp: ring_def nth_list_update)

section \<open>FixedQueue\<close>

text \<open>\<open>Capacity\<close> is the length of the array.\<close>

record 'a fixed_queue =
  fq_values :: "'a list"
  fq_head :: nat
  fq_tail :: nat
  fq_size :: nat

definition fq_capacity :: "'a fixed_queue \<Rightarrow> nat" where
  "fq_capacity q = length (fq_values q)"

definition fq_empty :: "'a fixed_queue \<Rightarrow> bool" where
  "fq_empty q \<longleftrightarrow> fq_size q = 0"

definition fq_full :: "'a fixed_queue \<Rightarrow> bool" where
  "fq_full q \<longleftrightarrow> fq_size q = fq_capacity q"

definition fq_push :: "'a \<Rightarrow> 'a fixed_queue \<Rightarrow> 'a fixed_queue option" where
  "fq_push value q =
     (if fq_full q then None
      else Some (q\<lparr>fq_values := (fq_values q)[fq_head q := value],
                   fq_head := (fq_head q + 1) mod fq_capacity q,
                   fq_size := fq_size q + 1\<rparr>))"

text \<open>\<open>out\<close> says whether the caller passed a destination.\<close>

definition fq_pop :: "bool \<Rightarrow> 'a fixed_queue \<Rightarrow> ('a \<times> 'a fixed_queue) option" where
  "fq_pop out q =
     (if \<not> out \<or> fq_empty q then None
      else Some (fq_values q ! fq_tail q,
                 q\<lparr>fq_tail := (fq_tail q + 1) mod fq_capacity q, fq_size := fq_size q - 1\<rparr>))"

definition fq_reset :: "'a fixed_queue \<Rightarrow> 'a fixed_queue" where
  "fq_reset q = q\<lparr>fq_head := 0, fq_tail := 0, fq_size := 0\<rparr>"

definition fq_inv :: "'a fixed_queue \<Rightarrow> bool" where
  "fq_inv q \<longleftrightarrow> 0 < fq_capacity q \<and> fq_size q \<le> fq_capacity q \<and> fq_tail q < fq_capacity q \<and>
     fq_head q = (fq_tail q + fq_size q) mod fq_capacity q"

definition fq_contents :: "'a fixed_queue \<Rightarrow> 'a list" where
  "fq_contents q = ring (fq_values q) (fq_tail q) (fq_size q)"

lemmas fq_defs = fq_capacity_def fq_empty_def fq_full_def fq_push_def fq_pop_def fq_inv_def fq_contents_def

lemma fq_push_Some:
  assumes "fq_inv q" and "fq_push x q = Some q'"
  shows "fq_inv q' \<and> fq_capacity q' = fq_capacity q \<and> fq_contents q' = fq_contents q @ [x]"
proof -
  have n: "fq_size q < length (fq_values q)" and h: "fq_head q = (fq_tail q + fq_size q) mod length (fq_values q)"
    using assms by (auto simp: fq_defs split: if_splits)
  have q': "q' = q\<lparr>fq_values := (fq_values q)[fq_head q := x],
      fq_head := (fq_head q + 1) mod length (fq_values q), fq_size := fq_size q + 1\<rparr>"
    using assms(2) by (auto simp: fq_defs split: if_splits)
  show ?thesis
    using assms(1) n ring_snoc [OF n, of "fq_tail q" x]
    by (simp add: q' fq_defs h mod_simps)
qed

lemma fq_pop_Some:
  assumes "fq_inv q" and "fq_pop True q = Some (y, q')"
  shows "fq_inv q' \<and> fq_capacity q' = fq_capacity q \<and> fq_contents q = y # fq_contents q'"
proof -
  have q': "q' = q\<lparr>fq_tail := (fq_tail q + 1) mod length (fq_values q), fq_size := fq_size q - 1\<rparr>"
    and y: "y = fq_values q ! fq_tail q" and n: "0 < fq_size q"
    using assms(2) by (auto simp: fq_defs split: if_splits)
  obtain m where m: "fq_size q = Suc m" using n by (cases "fq_size q") auto
  have "fq_tail q < length (fq_values q)" using assms(1) by (simp add: fq_defs)
  then show ?thesis
    using assms(1)
    by (simp add: q' y m fq_defs ring_Suc mod_simps ring_mod [of "fq_values q" "Suc (fq_tail q)"])
qed

interpretation fq: bounded_fifo fq_inv fq_capacity fq_contents "\<lambda>x. x" "\<lambda>_. True" fq_push "fq_pop True"
proof unfold_locales
  show "fq_inv q \<Longrightarrow> length (fq_contents q) \<le> fq_capacity q" for q :: "'a fixed_queue"
    by (simp add: fq_defs)
  show "fq_inv q \<Longrightarrow> (fq_pop True q = None) = (fq_contents q = [])" for q :: "'a fixed_queue"
    by (auto simp: fq_defs ring_def)
  show "fq_inv q \<Longrightarrow> (fq_push x q = None) = (\<not> True \<or> length (fq_contents q) = fq_capacity q)"
    for q :: "'a fixed_queue" and x by (simp add: fq_defs)
  show "fq_inv q \<Longrightarrow> fq_push x q = Some q' \<Longrightarrow>
      fq_inv q' \<and> fq_capacity q' = fq_capacity q \<and> fq_contents q' = fq_contents q @ [x]"
    for q q' :: "'a fixed_queue" and x by (rule fq_push_Some)
  show "fq_inv q \<Longrightarrow> fq_pop True q = Some (y, q') \<Longrightarrow>
      fq_inv q' \<and> fq_capacity q' = fq_capacity q \<and> fq_contents q = y # fq_contents q'"
    for q q' :: "'a fixed_queue" and y by (rule fq_pop_Some)
qed

section \<open>BLE frame queue\<close>

datatype BleFrameQueuePushResult = Accepted | InvalidFrame | Full

datatype BleRxAdmissionAction = RxAccepted | DisconnectPeer

definition rxAdmissionAction :: "BleFrameQueuePushResult \<Rightarrow> BleRxAdmissionAction" where
  "rxAdmissionAction result = (if result = Accepted then RxAccepted else DisconnectPeer)"

text \<open>\<open>struct Frame { uint16_t len; uint8_t buf[MAX_LEN]; }\<close>.\<close>

record ble_frame =
  bf_len :: u16
  bf_buf :: "byte list"

record ble_frame_queue =
  bq_frames :: "ble_frame list"
  bq_head :: nat
  bq_count :: nat

definition zero_frame :: "nat \<Rightarrow> ble_frame" where
  "zero_frame max_len = \<lparr>bf_len = 0, bf_buf = replicate max_len 0\<rparr>"

text \<open>\<open>secureWipe(&slot, sizeof(slot))\<close>: every byte of the frame becomes zero.\<close>

definition wipe_frame :: "ble_frame \<Rightarrow> ble_frame" where
  "wipe_frame f = \<lparr>bf_len = 0, bf_buf = replicate (length (bf_buf f)) 0\<rparr>"

definition bq_tryPush :: "nat \<Rightarrow> byte list option \<Rightarrow> nat \<Rightarrow> ble_frame_queue \<Rightarrow> BleFrameQueuePushResult \<times> ble_frame_queue" where
  "bq_tryPush max_len data n q =
     (case data of
        None \<Rightarrow> (InvalidFrame, q)
      | Some d \<Rightarrow>
          if n = 0 \<or> n > max_len then (InvalidFrame, q)
          else if bq_count q \<ge> length (bq_frames q) then (Full, q)
          else let i = (bq_head q + bq_count q) mod length (bq_frames q); slot = bq_frames q ! i
               in (Accepted, q\<lparr>bq_frames := (bq_frames q)[i := \<lparr>bf_len = word_of_nat n,
                                 bf_buf = take n d @ drop n (bf_buf slot)\<rparr>],
                               bq_count := bq_count q + 1\<rparr>))"

definition bq_push :: "nat \<Rightarrow> byte list option \<Rightarrow> nat \<Rightarrow> ble_frame_queue \<Rightarrow> bool \<times> ble_frame_queue" where
  "bq_push max_len data n q = (case bq_tryPush max_len data n q of (r, q') \<Rightarrow> (r = Accepted, q'))"

text \<open>\<open>pop\<close> returns the length; the bytes it copies to \<open>dest\<close> are the second component.\<close>

definition bq_pop :: "bool \<Rightarrow> ble_frame_queue \<Rightarrow> nat \<times> byte list \<times> ble_frame_queue" where
  "bq_pop dest q =
     (if \<not> dest then (0, [], q)
      else if bq_count q = 0 then (0, [], q)
      else let slot = bq_frames q ! bq_head q; n = unat (bf_len slot)
           in (n, take n (bf_buf slot),
               q\<lparr>bq_frames := (bq_frames q)[bq_head q := wipe_frame slot],
                 bq_head := (bq_head q + 1) mod length (bq_frames q),
                 bq_count := bq_count q - 1\<rparr>))"

definition bq_clear :: "ble_frame_queue \<Rightarrow> ble_frame_queue" where
  "bq_clear q = q\<lparr>bq_head := 0, bq_count := 0, bq_frames := map wipe_frame (bq_frames q)\<rparr>"

text \<open>
  Invariant: window inside the array, live frames hold their payload followed by zeros,
  every slot outside the window is zero.
\<close>

definition frame_ok :: "nat \<Rightarrow> ble_frame \<Rightarrow> bool" where
  "frame_ok max_len f \<longleftrightarrow> length (bf_buf f) = max_len \<and> 0 < unat (bf_len f) \<and> unat (bf_len f) \<le> max_len \<and>
     drop (unat (bf_len f)) (bf_buf f) = replicate (max_len - unat (bf_len f)) 0"

definition bq_inv :: "nat \<Rightarrow> ble_frame_queue \<Rightarrow> bool" where
  "bq_inv max_len q \<longleftrightarrow> max_len < 65536 \<and> bq_head q < length (bq_frames q) \<and>
     bq_count q \<le> length (bq_frames q) \<and>
     (\<forall>f \<in> set (ring (bq_frames q) (bq_head q) (bq_count q)). frame_ok max_len f) \<and>
     (\<forall>f \<in> set (ring (bq_frames q) (bq_head q + bq_count q) (length (bq_frames q) - bq_count q)).
        f = zero_frame max_len)"

definition frame_bytes :: "ble_frame \<Rightarrow> byte list" where
  "frame_bytes f = take (unat (bf_len f)) (bf_buf f)"

definition bq_contents :: "ble_frame_queue \<Rightarrow> byte list list" where
  "bq_contents q = map frame_bytes (ring (bq_frames q) (bq_head q) (bq_count q))"

definition bq_capacity :: "ble_frame_queue \<Rightarrow> nat" where
  "bq_capacity q = length (bq_frames q)"

lemmas bq_defs = bq_inv_def bq_contents_def bq_capacity_def bq_tryPush_def bq_push_def bq_pop_def

text \<open>
  The two slots an operation touches, named from the part of the ring it leaves alone.
\<close>

lemma ring_update_before:
  assumes "start < length vs" and "n < length vs"
  shows "ring (vs[start := x]) (start + 1) n = ring vs (start + 1) n"
proof -
  have "start + 1 + (length vs - 1) = start + length vs" using assms(1) by simp
  then have "(start + 1 + (length vs - 1)) mod length vs = start" using assms(1) by simp
  then show ?thesis using ring_update_outside [of n "length vs - 1" vs "start + 1" x] assms by simp
qed

lemma ring_update_last:
  assumes "start < length vs" and "n \<le> length vs" and "0 < n"
  shows "ring (vs[start := x]) (start + n) (length vs - n + 1) =
    ring vs (start + n) (length vs - n) @ [x]"
proof -
  have "(start + n + (length vs - n)) mod length vs = start" using assms by simp
  then show ?thesis using ring_snoc [of "length vs - n" vs "start + n" x] assms by simp
qed

lemma bq_tryPush_Accepted:
  assumes inv: "bq_inv m q" and acc: "bq_tryPush m (Some d) (length d) q = (Accepted, q')"
  shows "bq_inv m q' \<and> bq_capacity q' = bq_capacity q \<and> bq_contents q' = bq_contents q @ [d]"
proof -
  let ?c = "length (bq_frames q)" and ?n = "bq_count q" and ?h = "bq_head q"
  let ?i = "(?h + ?n) mod ?c"
  let ?f = "\<lparr>bf_len = word_of_nat (length d), bf_buf = d @ drop (length d) (bf_buf (bq_frames q ! ?i))\<rparr>"
  have ok: "0 < length d" "length d \<le> m" "?n < ?c" and m: "m < 65536"
    and q': "q' = q\<lparr>bq_frames := (bq_frames q)[?i := ?f], bq_count := ?n + 1\<rparr>"
    using acc inv by (auto simp: bq_defs Let_def split: if_splits)
  obtain k where k: "?c - ?n = Suc k" using ok(3) by (cases "?c - ?n") auto
  have free: "ring (bq_frames q) (?h + ?n) (?c - ?n) = bq_frames q ! ?i # ring (bq_frames q) (Suc (?h + ?n)) k"
    using k by (simp add: ring_Suc)
  then have z: "bq_frames q ! ?i = zero_frame m"
    and zs: "\<forall>f \<in> set (ring (bq_frames q) (Suc (?h + ?n)) k). f = zero_frame m"
    using inv by (auto simp: bq_inv_def)
  have u: "unat (word_of_nat (length d) :: u16) = length d"
    using ok m by (simp add: unat_of_nat)
  have fok: "frame_ok m ?f" and fb: "frame_bytes ?f = d"
    using ok u by (simp_all add: frame_ok_def frame_bytes_def z zero_frame_def)
  have "?i < ?c" using ok(3) by (intro mod_less_divisor) linarith
  then have "ring ((bq_frames q)[?i := ?f]) (?i + 1) k = ring (bq_frames q) (?i + 1) k"
    using k by (intro ring_update_before) auto
  then have rest: "ring ((bq_frames q)[?i := ?f]) (Suc (?h + ?n)) k = ring (bq_frames q) (Suc (?h + ?n)) k"
    using ring_mod [of "bq_frames q" "Suc (?h + ?n)" k]
      ring_mod [of "(bq_frames q)[?i := ?f]" "Suc (?h + ?n)" k]
      ring_mod [of "bq_frames q" "?i + 1" k] ring_mod [of "(bq_frames q)[?i := ?f]" "?i + 1" k]
    by (simp add: mod_simps)
  have live: "ring ((bq_frames q)[?i := ?f]) ?h (Suc ?n) = ring (bq_frames q) ?h ?n @ [?f]"
    using ok(3) by (rule ring_snoc)
  have kk: "?c - Suc ?n = k" using k by simp
  show ?thesis
    using inv live rest zs fok fb ok(3)
    by (simp add: q' bq_inv_def bq_contents_def bq_capacity_def kk)
qed

lemma bq_pop_nonempty:
  assumes inv: "bq_inv m q" and ne: "bq_count q \<noteq> 0" and pop: "bq_pop True q = (n, d, q')"
  shows "bq_inv m q' \<and> bq_capacity q' = bq_capacity q \<and> bq_contents q = d # bq_contents q' \<and>
    n = length d \<and> 0 < n \<and> n \<le> m"
proof -
  let ?c = "length (bq_frames q)" and ?h = "bq_head q" and ?f = "bq_frames q ! bq_head q"
  obtain k where k: "bq_count q = Suc k" using ne by (cases "bq_count q") auto
  have h: "?h < ?c" and kc: "k < ?c" using inv k by (auto simp: bq_inv_def)
  have live: "ring (bq_frames q) ?h (bq_count q) = ?f # ring (bq_frames q) (Suc ?h) k"
    using h by (simp add: k ring_Suc)
  then have fok: "frame_ok m ?f" using inv by (simp add: bq_inv_def)
  then have w: "wipe_frame ?f = zero_frame m" by (simp add: frame_ok_def wipe_frame_def zero_frame_def)
  have d: "d = frame_bytes ?f" and n: "n = unat (bf_len ?f)"
    and q': "q' = q\<lparr>bq_frames := (bq_frames q)[?h := zero_frame m], bq_head := (?h + 1) mod ?c, bq_count := k\<rparr>"
    using pop k by (auto simp: bq_pop_def Let_def frame_bytes_def w)
  let ?g = "(bq_frames q)[?h := zero_frame m]"
  have r1: "ring ?g (Suc ?h) k = ring (bq_frames q) (Suc ?h) k"
    using ring_update_before [OF h kc, of "zero_frame m"] by simp
  have r2: "ring ?g (Suc (?h + k)) (?c - k) = ring (bq_frames q) (Suc (?h + k)) (?c - Suc k) @ [zero_frame m]"
    using ring_update_last [OF h, of "Suc k" "zero_frame m"] kc by (simp add: Suc_diff_Suc)
  have r1': "ring ?g (Suc ?h mod ?c) k = ring (bq_frames q) (Suc ?h) k"
    using r1 ring_mod [of ?g "Suc ?h" k] by simp
  have r2': "ring ?g (Suc ?h mod ?c + k) (?c - k) = ring (bq_frames q) (Suc (?h + k)) (?c - Suc k) @ [zero_frame m]"
    using r2 ring_mod [of ?g "Suc ?h mod ?c + k" "?c - k"] ring_mod [of ?g "Suc (?h + k)" "?c - k"]
    by (simp add: mod_simps)
  have "Suc ?h mod ?c < ?c" using h by (intro mod_less_divisor) linarith
  then have "bq_inv m q'"
    using inv live r1' r2' kc by (auto simp: q' bq_inv_def k)
  then show ?thesis
    using live r1' fok by (simp add: q' d n bq_contents_def bq_capacity_def k frame_ok_def frame_bytes_def)
qed

text \<open>The queue as producer and consumer see it: a push is given the bytes of one frame.\<close>

definition bq_enq :: "nat \<Rightarrow> byte list \<Rightarrow> ble_frame_queue \<Rightarrow> ble_frame_queue option" where
  "bq_enq m d q = (case bq_push m (Some d) (length d) q of (ok, q') \<Rightarrow> if ok then Some q' else None)"

definition bq_deq :: "ble_frame_queue \<Rightarrow> (byte list \<times> ble_frame_queue) option" where
  "bq_deq q = (case bq_pop True q of (n, d, q') \<Rightarrow> if n = 0 then None else Some (d, q'))"

lemma bq_deq_None:
  assumes "bq_inv m q"
  shows "bq_deq q = None \<longleftrightarrow> bq_count q = 0"
proof (cases "bq_count q = 0")
  case True
  then show ?thesis by (simp add: bq_deq_def bq_pop_def)
next
  case False
  obtain n d q' where p: "bq_pop True q = (n, d, q')" by (metis prod_cases3)
  then have "0 < n" using bq_pop_nonempty [OF assms False] by blast
  then show ?thesis using False by (simp add: bq_deq_def p)
qed

lemma bq_deq_Some:
  assumes "bq_inv m q" and "bq_deq q = Some (d, q')"
  shows "bq_inv m q' \<and> bq_capacity q' = bq_capacity q \<and> bq_contents q = d # bq_contents q'"
proof -
  obtain n where p: "bq_pop True q = (n, d, q')"
    using assms(2) by (auto simp: bq_deq_def split: prod.splits if_splits)
  have "bq_count q \<noteq> 0" using bq_deq_None [OF assms(1)] assms(2) by simp
  then show ?thesis using bq_pop_nonempty [OF assms(1) _ p] by simp
qed

interpretation bq: bounded_fifo "bq_inv m" bq_capacity bq_contents "\<lambda>d. d"
    "\<lambda>d. 0 < length d \<and> length d \<le> m" "bq_enq m" bq_deq
  for m :: nat
proof unfold_locales
  show "bq_inv m q \<Longrightarrow> length (bq_contents q) \<le> bq_capacity q" for q
    by (simp add: bq_inv_def bq_contents_def bq_capacity_def)
  show "bq_inv m q \<Longrightarrow> (bq_deq q = None) = (bq_contents q = [])" for q
    using bq_deq_None by (auto simp: bq_contents_def ring_def)
  show "bq_inv m q \<Longrightarrow> (bq_enq m d q = None) =
      (\<not> (0 < length d \<and> length d \<le> m) \<or> length (bq_contents q) = bq_capacity q)" for q d
    by (auto simp: bq_enq_def bq_defs Let_def split: prod.splits if_splits)
  show "bq_inv m q \<Longrightarrow> bq_enq m d q = Some q' \<Longrightarrow>
      bq_inv m q' \<and> bq_capacity q' = bq_capacity q \<and> bq_contents q' = bq_contents q @ [d]" for q q' d
    using bq_tryPush_Accepted [of m q d q']
    by (auto simp: bq_enq_def bq_push_def split: prod.splits if_splits)
  show "bq_inv m q \<Longrightarrow> bq_deq q = Some (d, q') \<Longrightarrow>
      bq_inv m q' \<and> bq_capacity q' = bq_capacity q \<and> bq_contents q = d # bq_contents q'" for q q' d
    by (rule bq_deq_Some)
qed

section \<open>Repeater command responses\<close>

record cmd_entry =
  ce_name :: "byte list"
  ce_text :: "byte list"
  ce_timestamp :: u32

record cmd_queue =
  cq_entries :: "cmd_entry list"
  cq_head :: nat
  cq_count :: nat

text \<open>\<open>copy\<close>: a missing source copies the empty string.\<close>

definition cq_copy :: "byte list option \<Rightarrow> nat \<Rightarrow> byte list option \<Rightarrow> byte list option" where
  "cq_copy destination sz source =
     fst (utf8_copy_truncate destination sz (Some (case source of Some s \<Rightarrow> s | None \<Rightarrow> [])))"

definition cq_push :: "byte list option \<Rightarrow> byte list option \<Rightarrow> u32 \<Rightarrow> cmd_queue \<Rightarrow> cmd_queue option" where
  "cq_push name text timestamp q =
     (case (name, text) of
        (Some n, Some t) \<Rightarrow>
          if cq_count q \<ge> length (cq_entries q) then None
          else let i = (cq_head q + cq_count q) mod length (cq_entries q); e = cq_entries q ! i
               in Some (q\<lparr>cq_entries := (cq_entries q)[i :=
                           \<lparr>ce_name = the (cq_copy (Some (ce_name e)) 32 (Some n)),
                            ce_text = the (cq_copy (Some (ce_text e)) 160 (Some t)),
                            ce_timestamp = timestamp\<rparr>],
                         cq_count := cq_count q + 1\<rparr>)
      | _ \<Rightarrow> None)"

definition cq_poll :: "byte list option \<Rightarrow> nat \<Rightarrow> byte list option \<Rightarrow> nat \<Rightarrow> cmd_queue \<Rightarrow>
    (byte list option \<times> byte list option \<times> u32 \<times> cmd_queue) option" where
  "cq_poll name_out name_size text_out text_size q =
     (if cq_count q = 0 then None
      else let e = cq_entries q ! cq_head q
           in Some (cq_copy name_out name_size (Some (ce_name e)),
                    cq_copy text_out text_size (Some (ce_text e)),
                    ce_timestamp e,
                    q\<lparr>cq_head := (cq_head q + 1) mod length (cq_entries q), cq_count := cq_count q - 1\<rparr>))"

definition cq_clear :: "cmd_queue \<Rightarrow> cmd_queue" where
  "cq_clear q = q\<lparr>cq_head := 0, cq_count := 0\<rparr>"

definition cq_string_ok :: "nat \<Rightarrow> byte list \<Rightarrow> bool" where
  "cq_string_ok n d \<longleftrightarrow> length (cstr d) < n \<and> utf8_wf (cstr d)"

definition cq_inv :: "cmd_queue \<Rightarrow> bool" where
  "cq_inv q \<longleftrightarrow> cq_head q < length (cq_entries q) \<and> cq_count q \<le> length (cq_entries q) \<and>
     (\<forall>e \<in> set (ring (cq_entries q) (cq_head q) (cq_count q)).
        cq_string_ok 32 (ce_name e) \<and> cq_string_ok 160 (ce_text e))"

definition cq_entry :: "cmd_entry \<Rightarrow> cstring \<times> cstring \<times> u32" where
  "cq_entry e = (cstr (ce_name e), cstr (ce_text e), ce_timestamp e)"

definition cq_contents :: "cmd_queue \<Rightarrow> (cstring \<times> cstring \<times> u32) list" where
  "cq_contents q = map cq_entry (ring (cq_entries q) (cq_head q) (cq_count q))"

definition cq_capacity :: "cmd_queue \<Rightarrow> nat" where
  "cq_capacity q = length (cq_entries q)"

text \<open>What the queue keeps of a response, and a reader with buffers of the entry's sizes.\<close>

definition cq_stored :: "cstring \<times> cstring \<times> u32 \<Rightarrow> cstring \<times> cstring \<times> u32" where
  "cq_stored = (\<lambda>(n, t, ts). (utf8_trunc 31 n, utf8_trunc 159 t, ts))"

definition cq_enq :: "cstring \<times> cstring \<times> u32 \<Rightarrow> cmd_queue \<Rightarrow> cmd_queue option" where
  "cq_enq = (\<lambda>(n, t, ts). cq_push (Some n) (Some t) ts)"

definition cq_deq :: "cmd_queue \<Rightarrow> ((cstring \<times> cstring \<times> u32) \<times> cmd_queue) option" where
  "cq_deq q = (case cq_poll (Some (replicate 32 0)) 32 (Some (replicate 160 0)) 160 q of
     None \<Rightarrow> None
   | Some (n, t, ts, q') \<Rightarrow> Some ((cstr (the n), cstr (the t), ts), q'))"

lemma cq_copy_cstr: "0 < n \<Longrightarrow> cstr (the (cq_copy (Some d) n (Some s))) = utf8_trunc (n - 1) s"
  unfolding cq_copy_def by (simp add: copy_truncate_eq cstr_terminated)

lemma cq_copy_out:
  assumes "cq_string_ok n d" and "0 < n"
  shows "cstr (the (cq_copy (Some b) n (Some d))) = cstr d"
proof -
  have "utf8_trunc (n - 1) (cstr d) = cstr d"
    using assms cstr_no_nul by (intro utf8_trunc_all) (auto simp: cq_string_ok_def)
  then show ?thesis using assms(2) by (simp add: cq_copy_cstr)
qed

lemma cq_copy_ok: "0 < n \<Longrightarrow> cq_string_ok n (the (cq_copy (Some d) n (Some s)))"
  using length_utf8_trunc_le [of "n - 1" s] by (simp add: cq_string_ok_def cq_copy_cstr)

lemma cq_enq_Some:
  assumes inv: "cq_inv q" and e: "cq_enq x q = Some q'"
  shows "cq_inv q' \<and> cq_capacity q' = cq_capacity q \<and> cq_contents q' = cq_contents q @ [cq_stored x]"
proof -
  obtain n t ts where x: "x = (n, t, ts)" by (metis prod_cases3)
  let ?c = "length (cq_entries q)"
  let ?i = "(cq_head q + cq_count q) mod ?c"
  define f where "f = \<lparr>ce_name = the (cq_copy (Some (ce_name (cq_entries q ! ?i))) 32 (Some n)),
    ce_text = the (cq_copy (Some (ce_text (cq_entries q ! ?i))) 160 (Some t)), ce_timestamp = ts\<rparr>"
  have lt: "cq_count q < ?c" and q': "q' = q\<lparr>cq_entries := (cq_entries q)[?i := f], cq_count := cq_count q + 1\<rparr>"
    using e by (auto simp: cq_enq_def cq_push_def x f_def Let_def split: if_splits)
  have "cq_entry f = cq_stored x"
    by (simp add: cq_entry_def cq_stored_def f_def x cq_copy_cstr)
  moreover have "cq_string_ok 32 (ce_name f) \<and> cq_string_ok 160 (ce_text f)"
    by (simp add: f_def cq_copy_ok)
  ultimately show ?thesis
    using inv lt ring_snoc [OF lt, of "cq_head q" f]
    by (auto simp: q' cq_inv_def cq_contents_def cq_capacity_def)
qed

lemma cq_deq_Some:
  assumes inv: "cq_inv q" and d: "cq_deq q = Some (y, q')"
  shows "cq_inv q' \<and> cq_capacity q' = cq_capacity q \<and> cq_contents q = y # cq_contents q'"
proof -
  let ?e = "cq_entries q ! cq_head q" and ?c = "length (cq_entries q)"
  have h: "cq_head q < ?c" using inv by (simp add: cq_inv_def)
  have "cq_count q \<noteq> 0" using d by (auto simp: cq_deq_def cq_poll_def split: if_splits)
  then obtain k where k: "cq_count q = Suc k" by (cases "cq_count q") auto
  have q': "q' = q\<lparr>cq_head := (cq_head q + 1) mod ?c, cq_count := k\<rparr>"
    using d k by (auto simp: cq_deq_def cq_poll_def Let_def)
  have live: "ring (cq_entries q) (cq_head q) (cq_count q) = ?e # ring (cq_entries q) (Suc (cq_head q)) k"
    using h by (simp add: k ring_Suc)
  then have "cq_string_ok 32 (ce_name ?e) \<and> cq_string_ok 160 (ce_text ?e)"
    using inv by (simp add: cq_inv_def)
  then have y: "y = cq_entry ?e"
    using d k by (auto simp: cq_deq_def cq_poll_def Let_def cq_entry_def cq_copy_out)
  have "Suc (cq_head q) mod ?c < ?c" using h by (intro mod_less_divisor) linarith
  then show ?thesis
    using inv live k y
    by (simp add: q' cq_inv_def cq_contents_def cq_capacity_def ring_mod [of "cq_entries q" "Suc (cq_head q)"])
qed

interpretation cq: bounded_fifo cq_inv cq_capacity cq_contents cq_stored "\<lambda>_. True" cq_enq cq_deq
proof unfold_locales
  show "cq_inv q \<Longrightarrow> length (cq_contents q) \<le> cq_capacity q" for q
    by (simp add: cq_inv_def cq_contents_def cq_capacity_def)
  show "cq_inv q \<Longrightarrow> (cq_deq q = None) = (cq_contents q = [])" for q
    by (auto simp: cq_deq_def cq_poll_def cq_contents_def ring_def Let_def)
  show "cq_inv q \<Longrightarrow> (cq_enq x q = None) = (\<not> True \<or> length (cq_contents q) = cq_capacity q)" for q x
    by (auto simp: cq_enq_def cq_push_def cq_contents_def cq_capacity_def cq_inv_def Let_def split: prod.splits)
  show "cq_inv q \<Longrightarrow> cq_enq x q = Some q' \<Longrightarrow>
      cq_inv q' \<and> cq_capacity q' = cq_capacity q \<and> cq_contents q' = cq_contents q @ [cq_stored x]" for q q' x
    by (rule cq_enq_Some)
  show "cq_inv q \<Longrightarrow> cq_deq q = Some (y, q') \<Longrightarrow>
      cq_inv q' \<and> cq_capacity q' = cq_capacity q \<and> cq_contents q = y # cq_contents q'" for q q' y
    by (rule cq_deq_Some)
qed

section \<open>Completed responses: reclaim the oldest\<close>

text \<open>
  \<open>Entry{}\<close> is the argument \<open>e0\<close>; \<open>appendSlot\<close> hands the fresh slot to the caller, which fills it:
  \<open>br_append\<close> is the slot filled with \<open>e\<close>.
\<close>

record 'e response_queue =
  br_entries :: "'e list"
  br_size :: nat

text \<open>\<open>for (i = from; i < bound; ++i) entries[i - 1] = entries[i];\<close>\<close>

function br_shift :: "'e list \<Rightarrow> nat \<Rightarrow> nat \<Rightarrow> 'e list" where
  "br_shift es i bound = (if i < bound then br_shift (es[i - 1 := es ! i]) (i + 1) bound else es)"
  by pat_completeness auto
termination
  by (relation "measure (\<lambda>(es, i, bound). bound - i)") auto

declare br_shift.simps [simp del]

definition br_appendSlot :: "'e \<Rightarrow> 'e response_queue \<Rightarrow> 'e response_queue \<times> nat" where
  "br_appendSlot e0 q =
     (let q1 = (if br_size q = length (br_entries q)
                then q\<lparr>br_entries := br_shift (br_entries q) 1 (length (br_entries q)),
                       br_size := br_size q - 1\<rparr> else q)
      in (q1\<lparr>br_entries := (br_entries q1)[br_size q1 := e0], br_size := br_size q1 + 1\<rparr>, br_size q1))"

definition br_append :: "'e \<Rightarrow> 'e \<Rightarrow> 'e response_queue \<Rightarrow> 'e response_queue" where
  "br_append e0 e q = (case br_appendSlot e0 q of (q', i) \<Rightarrow> q'\<lparr>br_entries := (br_entries q')[i := e]\<rparr>)"

definition br_consume :: "'e \<Rightarrow> nat \<Rightarrow> 'e response_queue \<Rightarrow> bool \<times> 'e response_queue" where
  "br_consume e0 index q =
     (if index \<ge> br_size q then (False, q)
      else (True, q\<lparr>br_entries := (br_shift (br_entries q) (index + 1) (br_size q))[br_size q - 1 := e0],
                     br_size := br_size q - 1\<rparr>))"

definition br_at :: "nat \<Rightarrow> 'e response_queue \<Rightarrow> 'e option" where
  "br_at index q = (if index < br_size q then Some (br_entries q ! index) else None)"

definition br_clear :: "'e \<Rightarrow> 'e response_queue \<Rightarrow> 'e response_queue" where
  "br_clear e0 q = q\<lparr>br_entries := replicate (length (br_entries q)) e0, br_size := 0\<rparr>"

definition br_inv :: "'e \<Rightarrow> 'e response_queue \<Rightarrow> bool" where
  "br_inv e0 q \<longleftrightarrow> 0 < length (br_entries q) \<and> br_size q \<le> length (br_entries q) \<and>
     drop (br_size q) (br_entries q) = replicate (length (br_entries q) - br_size q) e0"

definition br_contents :: "'e response_queue \<Rightarrow> 'e list" where
  "br_contents q = take (br_size q) (br_entries q)"

lemma br_shift_eq:
  assumes "0 < i" and "i \<le> bound" and "bound \<le> length es"
  shows "br_shift es i bound = take (i - 1) es @ drop i (take bound es) @ drop (bound - 1) es"
  using assms
proof (induction es i bound rule: br_shift.induct)
  case (1 es i bound)
  show ?case
  proof (cases "i < bound")
    case True
    let ?es = "es[i - 1 := es ! i]"
    have "br_shift ?es (i + 1) bound = take i ?es @ drop (i + 1) (take bound ?es) @ drop (bound - 1) ?es"
      using 1 True by simp
    also have "take i ?es = take (i - 1) es @ [es ! i]"
      using 1 True by (cases i) (auto simp: take_Suc_conv_app_nth)
    also have "drop (i + 1) (take bound ?es) = drop (i + 1) (take bound es)"
      using 1 True by (simp add: drop_take drop_update_cancel)
    also have "drop (bound - 1) ?es = drop (bound - 1) es"
      using 1 True by (simp add: drop_update_cancel)
    finally show ?thesis using 1 True
      by (simp add: br_shift.simps [of es] Cons_nth_drop_Suc [symmetric])
  next
    case False
    then have "i = bound" using 1 by simp
    then show ?thesis using 1 by (simp add: br_shift.simps [of es])
  qed
qed

lemma br_shift_full:
  assumes "es \<noteq> []"
  shows "br_shift es (Suc 0) (length es) = tl es @ [last es]"
proof -
  have "drop (length es - Suc 0) es = [last es]" using assms by (cases es rule: rev_cases) auto
  moreover have "Suc 0 \<le> length es" using assms by (cases es) auto
  ultimately show ?thesis by (simp add: br_shift_eq drop_Suc)
qed

lemma length_br_shift [simp]: "length (br_shift es i n) = length es"
  by (induction es i n rule: br_shift.induct) (simp add: br_shift.simps)

lemma br_append_room:
  assumes "br_inv e0 q" and "br_size q < length (br_entries q)"
  shows "br_inv e0 (br_append e0 e q) \<and> br_contents (br_append e0 e q) = br_contents q @ [e]"
proof -
  have "drop (br_size q) (br_entries q) = e0 # replicate (length (br_entries q) - Suc (br_size q)) e0"
    using assms by (simp add: br_inv_def Suc_diff_Suc replicate_Suc [symmetric] del: replicate_Suc)
  then have "drop (Suc (br_size q)) (br_entries q) = replicate (length (br_entries q) - Suc (br_size q)) e0"
    by (metis drop_Suc list.sel(3) tl_drop)
  then show ?thesis
    using assms by (simp add: br_inv_def br_append_def br_appendSlot_def br_contents_def Let_def take_Suc_conv_app_nth)
qed

lemma br_append_full:
  assumes "br_inv e0 q" and "br_size q = length (br_entries q)"
  shows "br_inv e0 (br_append e0 e q) \<and> br_contents (br_append e0 e q) = tl (br_contents q) @ [e]"
  using assms br_shift_full [of "br_entries q"]
  by (cases "br_entries q") (auto simp: br_inv_def br_append_def br_appendSlot_def br_contents_def Let_def list_update_append)

lemma br_capacity [simp]:
  "length (br_entries (br_append e0 e q)) = length (br_entries q)"
  by (simp add: br_append_def br_appendSlot_def Let_def)

text \<open>The newest \<open>Capacity\<close> responses are kept, whatever was there before.\<close>

lemma br_append_contents:
  assumes "br_inv e0 q"
  shows "br_inv e0 (br_append e0 e q) \<and>
    br_contents (br_append e0 e q) =
      drop (Suc (length (br_contents q)) - length (br_entries q)) (br_contents q @ [e])"
proof (cases "br_size q = length (br_entries q)")
  case True
  then show ?thesis using br_append_full [OF assms True] assms
    by (cases "br_entries q") (auto simp: br_contents_def br_inv_def)
next
  case False
  then have "br_size q < length (br_entries q)" using assms by (simp add: br_inv_def)
  then show ?thesis using br_append_room [OF assms] by (simp add: br_contents_def)
qed

lemma br_append_fold:
  assumes "br_inv e0 q"
  shows "br_inv e0 (fold (br_append e0) es q) \<and>
    br_contents (fold (br_append e0) es q) =
      drop (length (br_contents q) + length es - length (br_entries q)) (br_contents q @ es)"
  using assms
proof (induction es arbitrary: q)
  case Nil
  then show ?case by (simp add: br_contents_def br_inv_def)
next
  case (Cons e es)
  let ?q = "br_append e0 e q"
  have a: "br_inv e0 ?q" "br_contents ?q = drop (Suc (length (br_contents q)) - length (br_entries q)) (br_contents q @ [e])"
    using br_append_contents [OF Cons.prems, of e] by auto
  let ?c = "length (br_entries q)" and ?k = "length (br_contents q)"
  have b: "?k \<le> ?c" "0 < ?c" using Cons.prems by (auto simp: br_contents_def br_inv_def)
  have "br_contents (fold (br_append e0) es ?q) = drop (length (br_contents ?q) + length es - ?c) (br_contents ?q @ es)"
    using Cons.IH [OF a(1)] by simp
  also have "br_contents ?q @ es = drop (Suc ?k - ?c) (br_contents q @ e # es)"
    using b by (cases "br_entries q") (simp_all add: a(2))
  also have "drop (length (br_contents ?q) + length es - ?c) \<dots> = drop (?k + length (e # es) - ?c) (br_contents q @ e # es)"
    using b unfolding drop_drop by (intro arg_cong2 [of _ _ _ _ drop]) (auto simp: a(2))
  finally show ?case using Cons.IH [OF a(1)] by simp
qed

lemma br_consume_contents:
  assumes inv: "br_inv e0 q" and i: "index < br_size q"
  shows "br_consume e0 index q = (True, snd (br_consume e0 index q)) \<and>
    br_inv e0 (snd (br_consume e0 index q)) \<and>
    br_contents (snd (br_consume e0 index q)) =
      take index (br_contents q) @ drop (Suc index) (br_contents q)"
proof -
  let ?es = "br_entries q" and ?n = "br_size q"
  have n: "?n \<le> length ?es" "0 < length ?es" and t: "drop ?n ?es = replicate (length ?es - ?n) e0"
    using inv by (auto simp: br_inv_def)
  have s: "br_shift ?es (index + 1) ?n = take index ?es @ drop (Suc index) (take ?n ?es) @ drop (?n - 1) ?es"
    using br_shift_eq [of "index + 1" ?n ?es] i n by simp
  have l: "length (take index ?es @ drop (Suc index) (take ?n ?es)) = ?n - 1" using i n by simp
  have d: "(drop (?n - 1) ?es)[0 := e0] = e0 # replicate (length ?es - ?n) e0"
    using i n t by (cases ?n) (auto simp: Cons_nth_drop_Suc [symmetric])
  have e: "(br_shift ?es (index + 1) ?n)[?n - 1 := e0] =
      (take index ?es @ drop (Suc index) (take ?n ?es)) @ e0 # replicate (length ?es - ?n) e0"
    using l d unfolding s append_assoc [symmetric] by (simp add: list_update_append del: append_assoc)
  have "take index (take ?n ?es) = take index ?es" using i by (simp add: min_absorb1)
  then show ?thesis
    using e l i n by (simp add: br_consume_def br_inv_def br_contents_def Suc_diff_le del: append_assoc take_take)
qed

section \<open>Fixed-table clean-up\<close>

text \<open>
  A table that is a null pointer is \<open>None\<close>; \<open>count\<close> never exceeds the table (the callers pass
  its own size). The loops keep the indices of the source.
\<close>

function clearMatchingEntries_loop :: "'e \<Rightarrow> ('e \<Rightarrow> bool) \<Rightarrow> nat \<Rightarrow> nat \<Rightarrow> 'e list \<Rightarrow> nat \<Rightarrow> nat \<times> 'e list" where
  "clearMatchingEntries_loop e0 match i count entries cleared =
     (if i < count
      then if \<not> match (entries ! i) then clearMatchingEntries_loop e0 match (i + 1) count entries cleared
           else clearMatchingEntries_loop e0 match (i + 1) count (entries[i := e0]) (cleared + 1)
      else (cleared, entries))"
  by pat_completeness auto
termination
  by (relation "measure (\<lambda>(e0, match, i, count, entries, cleared). count - i)") auto

declare clearMatchingEntries_loop.simps [simp del]

definition clearMatchingEntries :: "'e \<Rightarrow> ('e \<Rightarrow> bool) \<Rightarrow> 'e list option \<Rightarrow> nat \<Rightarrow> nat \<times> 'e list option" where
  "clearMatchingEntries e0 match entries count =
     (case entries of None \<Rightarrow> (0, None)
      | Some es \<Rightarrow> (case clearMatchingEntries_loop e0 match 0 count es 0 of (n, es') \<Rightarrow> (n, Some es')))"

function compact_loop :: "('e \<Rightarrow> bool) \<Rightarrow> nat \<Rightarrow> nat \<Rightarrow> nat \<Rightarrow> 'e list \<Rightarrow> nat \<times> 'e list" where
  "compact_loop match rd count wr entries =
     (if rd < count
      then if match (entries ! rd) then compact_loop match (rd + 1) count wr entries
           else compact_loop match (rd + 1) count (wr + 1)
                  (if wr \<noteq> rd then entries[wr := entries ! rd] else entries)
      else (wr, entries))"
  by pat_completeness auto
termination
  by (relation "measure (\<lambda>(match, rd, count, wr, entries). count - rd)") auto

declare compact_loop.simps [simp del]

fun blank_from :: "'e \<Rightarrow> nat \<Rightarrow> nat \<Rightarrow> 'e list \<Rightarrow> 'e list" where
  "blank_from e0 i 0 entries = entries"
| "blank_from e0 i (Suc n) entries = blank_from e0 (i + 1) n (entries[i := e0])"

definition compactRemoveMatchingEntries :: "'e \<Rightarrow> ('e \<Rightarrow> bool) \<Rightarrow> 'e list option \<Rightarrow> nat \<Rightarrow> nat \<times> 'e list option" where
  "compactRemoveMatchingEntries e0 match entries count =
     (case entries of None \<Rightarrow> (count, None)
      | Some es \<Rightarrow> (case compact_loop match 0 count 0 es of
          (wr, es') \<Rightarrow> (wr, Some (blank_from e0 wr (count - wr) es'))))"

lemma clear_loop_eq:
  assumes "i \<le> count" and "count \<le> length es"
  shows "clearMatchingEntries_loop e0 match i count es k =
    (k + length (filter match (drop i (take count es))),
     take i es @ map (\<lambda>e. if match e then e0 else e) (drop i (take count es)) @ drop count es)"
  using assms
proof (induction e0 match i count es k rule: clearMatchingEntries_loop.induct)
  case (1 e0 match i count es k)
  show ?case
  proof (cases "i < count")
    case True
    have d: "drop i (take count es) = es ! i # drop (Suc i) (take count es)"
      using 1 True by (simp add: Cons_nth_drop_Suc [symmetric])
    have e: "drop (Suc i) (take count (es[i := e0])) = drop (Suc i) (take count es)"
      using 1 True by (simp add: drop_take drop_update_cancel)
    show ?thesis
      using 1 True
      by (cases "match (es ! i)")
         (simp_all add: clearMatchingEntries_loop.simps [of e0 match i] d e take_Suc_conv_app_nth
           drop_update_cancel)
  next
    case False
    then have "i = count" using 1 by simp
    then show ?thesis by (simp add: clearMatchingEntries_loop.simps [of e0 match count])
  qed
qed

lemma length_compact_loop: "length (snd (compact_loop match rd count wr es)) = length es"
  by (induction match rd count wr es rule: compact_loop.induct) (simp add: compact_loop.simps)

lemma compact_loop_eq:
  assumes "wr \<le> rd" and "rd \<le> count" and "count \<le> length es"
  shows "fst (compact_loop match rd count wr es) = wr + length (filter (Not \<circ> match) (drop rd (take count es))) \<and>
    take (fst (compact_loop match rd count wr es)) (snd (compact_loop match rd count wr es)) =
      take wr es @ filter (Not \<circ> match) (drop rd (take count es)) \<and>
    drop count (snd (compact_loop match rd count wr es)) = drop count es"
  using assms
proof (induction match rd count wr es rule: compact_loop.induct)
  case (1 match rd count wr es)
  show ?case
  proof (cases "rd < count")
    case True
    let ?es = "if wr \<noteq> rd then es[wr := es ! rd] else es"
    have d: "drop rd (take count es) = es ! rd # drop (Suc rd) (take count es)"
      using 1 True by (simp add: Cons_nth_drop_Suc [symmetric])
    have e: "drop (Suc rd) (take count ?es) = drop (Suc rd) (take count es)"
      using 1 True by (simp add: drop_take drop_update_cancel)
    have t: "take (Suc wr) ?es = take wr es @ [es ! rd]"
      using 1 True by (auto simp: take_Suc_conv_app_nth)
    show ?thesis
    proof (cases "match (es ! rd)")
      case True
      then show ?thesis using 1 \<open>rd < count\<close> by (auto simp: compact_loop.simps [of match rd] d)
    next
      case False
      then have "compact_loop match rd count wr es = compact_loop match (rd + 1) count (wr + 1) ?es"
        using \<open>rd < count\<close> by (simp add: compact_loop.simps [of match rd])
      then show ?thesis
        using 1(2) [OF \<open>rd < count\<close> False] False e t d 1(3-5) \<open>rd < count\<close>
        by (auto simp: drop_update_cancel)
    qed
  next
    case False
    then have "rd = count" using 1 by simp
    then show ?thesis by (simp add: compact_loop.simps [of match count])
  qed
qed

lemma blank_from_eq:
  "i + n \<le> length es \<Longrightarrow> blank_from e0 i n es = take i es @ replicate n e0 @ drop (i + n) es"
proof (induction n arbitrary: i es)
  case (Suc n)
  then show ?case by (simp add: take_Suc_conv_app_nth drop_update_cancel)
qed simp

lemma compactRemove_eq:
  assumes "count \<le> length es"
  shows "compactRemoveMatchingEntries e0 match (Some es) count =
    (let kept = filter (Not \<circ> match) (take count es)
     in (length kept, Some (kept @ replicate (count - length kept) e0 @ drop count es)))"
proof -
  obtain wr es' where c: "compact_loop match 0 count 0 es = (wr, es')" by force
  have w: "wr = length (filter (Not \<circ> match) (take count es))"
    "take wr es' = filter (Not \<circ> match) (take count es)" "drop count es' = drop count es"
    using compact_loop_eq [of 0 0 count es match] assms by (auto simp: c)
  have "length es' = length es" using length_compact_loop [of match 0 count 0 es] c by simp
  moreover have "wr \<le> count" using w(1) length_filter_le [of "Not \<circ> match" "take count es"] by simp
  ultimately show ?thesis using w assms
    by (simp add: compactRemoveMatchingEntries_def c blank_from_eq Let_def)
qed

section \<open>Initial queues\<close>

definition fq_init :: "'a \<Rightarrow> nat \<Rightarrow> 'a fixed_queue" where
  "fq_init v0 c = \<lparr>fq_values = replicate c v0, fq_head = 0, fq_tail = 0, fq_size = 0\<rparr>"

definition bq_init :: "nat \<Rightarrow> nat \<Rightarrow> ble_frame_queue" where
  "bq_init m c = \<lparr>bq_frames = replicate c (zero_frame m), bq_head = 0, bq_count = 0\<rparr>"

definition cq_init :: "nat \<Rightarrow> cmd_queue" where
  "cq_init c = \<lparr>cq_entries = replicate c \<lparr>ce_name = replicate 32 0, ce_text = replicate 160 0, ce_timestamp = 0\<rparr>,
     cq_head = 0, cq_count = 0\<rparr>"

definition br_init :: "'e \<Rightarrow> nat \<Rightarrow> 'e response_queue" where
  "br_init e0 c = \<lparr>br_entries = replicate c e0, br_size = 0\<rparr>"

lemma fq_init_inv [simp]: "0 < c \<Longrightarrow> fq_inv (fq_init v0 c)" "fq_contents (fq_init v0 c) = []" "fq_capacity (fq_init v0 c) = c"
  by (simp_all add: fq_init_def fq_defs ring_def)

lemma bq_init_inv [simp]:
  "0 < c \<Longrightarrow> m < 65536 \<Longrightarrow> bq_inv m (bq_init m c)" "bq_contents (bq_init m c) = []" "bq_capacity (bq_init m c) = c"
  by (auto simp: bq_init_def bq_inv_def bq_contents_def bq_capacity_def ring_def)

lemma cq_init_inv [simp]: "0 < c \<Longrightarrow> cq_inv (cq_init c)" "cq_contents (cq_init c) = []" "cq_capacity (cq_init c) = c"
  by (simp_all add: cq_init_def cq_inv_def cq_contents_def cq_capacity_def ring_def)

lemma br_init_inv [simp]: "0 < c \<Longrightarrow> br_inv e0 (br_init e0 c)" "br_contents (br_init e0 c) = []" "length (br_entries (br_init e0 c)) = c"
  by (simp_all add: br_init_def br_inv_def br_contents_def)

text \<open>Live or free, every slot of a consistent queue has the frame's own width.\<close>

lemma ring_all: "set vs = set (ring vs s n) \<union> set (ring vs (s + n) (length vs - n))" if "n \<le> length vs"
proof -
  have "ring vs s n @ ring vs (s + n) (length vs - n) = ring vs s (length vs)"
    using that by (intro nth_equalityI) (auto simp: ring_def nth_append)
  moreover have "set (ring vs s (length vs)) = set vs"
  proof -
    have "ring vs s (length vs) = rotate s vs"
      by (rule nth_equalityI) (simp_all add: ring_def nth_rotate)
    then show ?thesis by simp
  qed
  ultimately show ?thesis by (metis set_append)
qed

lemma bq_clear_init:
  assumes "bq_inv m q"
  shows "bq_clear q = bq_init m (bq_capacity q)"
proof -
  have "length (bf_buf f) = m" if "f \<in> set (bq_frames q)" for f
    using that assms ring_all [of "bq_count q" "bq_frames q" "bq_head q"]
    by (auto simp: bq_inv_def frame_ok_def zero_frame_def)
  then have "map wipe_frame (bq_frames q) = map (\<lambda>_. zero_frame m) (bq_frames q)"
    by (auto simp: wipe_frame_def zero_frame_def)
  then show ?thesis
    by (simp add: bq_clear_def bq_init_def bq_capacity_def map_replicate_const)
qed

section \<open>Properties\<close>

text \<open>
  C36: the BLE frame queue between the host task and the application is a FIFO of frames. After
  any sequence of pushes and pops on a fresh queue the pops have delivered exactly the oldest
  accepted frames, byte for byte and in order, the rest is still queued, a frame of 1 to
  \<open>MAX_LEN\<close> bytes is refused only when \<open>Capacity\<close> frames are queued, no byte of a delivered frame
  remains in the array, and \<open>clear\<close> gives back the queue of a fresh start.
\<close>

theorem ble_queue_fifo:
  assumes "0 < c" and "m < 65536" and "qrun (bq_enq m) bq_deq (bq_init m c) ops = (q, out, acc)"
  shows "acc = out @ bq_contents q \<and> length acc \<le> length out + c \<and>
    (\<forall>d. bq_enq m d q = None \<longleftrightarrow> d = [] \<or> length d > m \<or> length acc = length out + c) \<and>
    (\<forall>f \<in> set (bq_frames q). f = zero_frame m \<or> frame_bytes f \<in> set (bq_contents q)) \<and>
    bq_clear q = bq_init m c"
proof -
  have inv: "bq_inv m (bq_init m c)" using assms by simp
  have f: "bq_inv m q" "bq_capacity q = c" "acc = out @ bq_contents q"
    using bq.fifo_run [OF inv assms(3)] by auto
  have full: "length acc = length out + c \<longleftrightarrow> length (bq_contents q) = bq_capacity q"
    using f(2,3) by auto
  have "bq_enq m d q = None \<longleftrightarrow> d = [] \<or> length d > m \<or> length acc = length out + c" for d
    unfolding full bq.enq_None [OF f(1), of d] by (simp add: not_le)
  moreover have "f = zero_frame m \<or> frame_bytes f \<in> set (bq_contents q)" if f': "f \<in> set (bq_frames q)" for f
  proof -
    have "f \<in> set (ring (bq_frames q) (bq_head q) (bq_count q)) \<or>
        f \<in> set (ring (bq_frames q) (bq_head q + bq_count q) (length (bq_frames q) - bq_count q))"
      using f' f(1) ring_all [of "bq_count q" "bq_frames q" "bq_head q"] by (simp add: bq_inv_def)
    then show ?thesis using f(1) by (auto simp: bq_inv_def bq_contents_def)
  qed
  moreover have "length acc \<le> length out + c"
    using bq.fifo_delivers_prefix [OF inv _ assms(3)] by simp
  ultimately show ?thesis using f bq_clear_init [OF f(1)] by simp
qed

theorem ble_queue_fifo_witness:
  "\<exists>q. qrun (bq_enq 4) bq_deq (bq_init 4 2) [Enq [1, 2], Enq [], Enq [3], Enq [4], Deq] = (q, [[1, 2]], [[1, 2], [3]]) \<and>
    bq_contents q = [[3]] \<and> bq_clear q = bq_init 4 2"
proof -
  have "snd (qrun (bq_enq 4) bq_deq (bq_init 4 2) [Enq [1, 2], Enq [], Enq [3], Enq [4], Deq]) = ([[1, 2]], [[1, 2], [3]])"
    by code_simp
  then obtain q where q: "qrun (bq_enq 4) bq_deq (bq_init 4 2) [Enq [1, 2], Enq [], Enq [3], Enq [4], Deq]
      = (q, [[1, 2]], [[1, 2], [3]])"
    by (metis prod.collapse)
  then show ?thesis using ble_queue_fifo [OF _ _ q] by auto
qed

text \<open>
  A repeater command response reaches the reader whole or cut at a character boundary.
  After any sequence of pushes and polls on a fresh queue, what the polls returned followed by
  what is queued is the accepted responses in order, each name the longest well-formed UTF-8
  prefix of at most 31 bytes and each text of at most 159; a response is refused only when all
  \<open>Capacity\<close> entries are taken.
\<close>

theorem cmd_responses_fifo:
  assumes "0 < c" and "qrun cq_enq cq_deq (cq_init c) ops = (q, out, acc)"
  shows "map (\<lambda>(n, t, ts). (utf8_trunc 31 n, utf8_trunc 159 t, ts)) acc = out @ cq_contents q \<and>
    (\<forall>(n, t, ts) \<in> set (out @ cq_contents q). length n \<le> 31 \<and> length t \<le> 159 \<and> utf8_wf n \<and> utf8_wf t) \<and>
    (\<forall>x. cq_enq x q = None \<longleftrightarrow> length acc = length out + c)"
proof -
  have inv: "cq_inv (cq_init c)" using assms by simp
  have f: "cq_inv q" "cq_capacity q = c" "map cq_stored acc = out @ cq_contents q"
    using cq.fifo_run [OF inv assms(2)] by auto
  have "cq_enq x q = None \<longleftrightarrow> length acc = length out + c" for x
    using cq.fifo_refuses_only_full [OF inv assms(2)] by simp
  moreover have "\<forall>(n, t, ts) \<in> set (map cq_stored acc). length n \<le> 31 \<and> length t \<le> 159 \<and> utf8_wf n \<and> utf8_wf t"
    using length_utf8_trunc_le by (auto simp: cq_stored_def)
  ultimately show ?thesis using f(3) [symmetric] cq_stored_def by simp
qed

theorem cmd_responses_fifo_witness:
  "\<exists>q. qrun cq_enq cq_deq (cq_init 1) [Enq ([65], [66, 67], 7), Enq ([65], [66], 8)] = (q, [], [([65], [66, 67], 7)]) \<and>
    cq_contents q = [([65], [66, 67], 7)]"
proof -
  obtain q where q: "qrun cq_enq cq_deq (cq_init 1) [Enq ([65], [66, 67], 7), Enq ([65], [66], 8)]
      = (q, [], [([65], [66, 67], 7)])"
    by (simp add: cq_enq_def cq_push_def cq_init_def Let_def)
  have "utf8_trunc 31 [65] = [65]" "utf8_trunc 159 [66, 67] = [66, 67]"
    by (intro utf8_trunc_all utf8_wf_ascii; simp)+
  then show ?thesis using cmd_responses_fifo [OF _ q] q by simp
qed

text \<open>
  The completed-response table keeps the newest \<open>Capacity\<close> responses in arrival order, each
  unconsumed; consuming one removes exactly it, keeps the order of the others and leaves no
  stale entry behind the live ones.
\<close>

theorem response_table_keeps_newest:
  assumes "0 < c" and "q = fold (br_append e0) es (br_init e0 c)"
  shows "br_contents q = drop (length es - c) es \<and>
    (\<forall>i < length (br_contents q). br_at i q = Some (es ! (length es - c + i)) \<and>
       (\<exists>q'. br_consume e0 i q = (True, q') \<and>
          br_contents q' = take i (br_contents q) @ drop (Suc i) (br_contents q) \<and>
          drop (br_size q') (br_entries q') = replicate (c - br_size q') e0)) \<and>
    (\<forall>i \<ge> length (br_contents q). br_at i q = None \<and> br_consume e0 i q = (False, q))"
proof -
  have f: "br_inv e0 q" "br_contents q = drop (length es - c) es"
    using br_append_fold [of e0 "br_init e0 c" es] assms by auto
  have cap: "length (br_entries q) = c"
    unfolding assms(2) using br_init_inv(3) by (induction es rule: rev_induct) simp_all
  have n: "length (br_contents q) = br_size q" using f(1) by (simp add: br_contents_def br_inv_def)
  have "br_at i q = Some (es ! (length es - c + i)) \<and> (\<exists>q'. br_consume e0 i q = (True, q') \<and>
      br_contents q' = take i (br_contents q) @ drop (Suc i) (br_contents q) \<and>
      drop (br_size q') (br_entries q') = replicate (c - br_size q') e0)"
    if i: "i < length (br_contents q)" for i
  proof -
    have i': "i < br_size q" using i n by simp
    have "br_contents q ! i = es ! (length es - c + i)" using i f(2) by simp
    moreover have "br_contents q ! i = br_entries q ! i" using i' by (simp add: br_contents_def)
    ultimately have "br_at i q = Some (es ! (length es - c + i))" using i' by (simp add: br_at_def)
    moreover have "length (br_entries (snd (br_consume e0 i q))) = c"
      using cap by (simp add: br_consume_def)
    ultimately show ?thesis using br_consume_contents [OF f(1) i'] by (metis br_inv_def)
  qed
  then show ?thesis using f(2) n by (simp add: br_at_def br_consume_def)
qed

theorem response_table_keeps_newest_witness:
  "br_contents (fold (br_append 0) [1, 2, 3] (br_init (0::nat) 2)) = [2, 3]"
  using response_table_keeps_newest [of 2 "fold (br_append 0) [1, 2, 3] (br_init (0::nat) 2)" 0 "[1, 2, 3]"]
  by simp

text \<open>
  Removing a contact's rows from a fixed table keeps exactly the other rows, in their order,
  blanks the freed tail, leaves everything behind \<open>count\<close> alone and returns the number kept; the
  in-place clean-up blanks exactly the matching rows and counts them.
\<close>

theorem table_cleanup_exact:
  assumes "count \<le> length es"
  shows "compactRemoveMatchingEntries e0 match (Some es) count =
      (length (filter (Not \<circ> match) (take count es)),
       Some (filter (Not \<circ> match) (take count es) @
             replicate (length (filter match (take count es))) e0 @ drop count es)) \<and>
    clearMatchingEntries e0 match (Some es) count =
      (length (filter match (take count es)),
       Some (map (\<lambda>e. if match e then e0 else e) (take count es) @ drop count es))"
proof -
  have "length (filter match (take count es)) + length (filter (Not \<circ> match) (take count es)) = count"
    using sum_length_filter_compl [of match "take count es"] assms by (simp add: comp_def)
  then have "count - length (filter (Not \<circ> match) (take count es)) = length (filter match (take count es))" by simp
  then show ?thesis
    using compactRemove_eq [OF assms, of e0 match] clear_loop_eq [of 0 count es e0 match 0] assms
    by (simp add: Let_def clearMatchingEntries_def)
qed

theorem table_cleanup_exact_witness:
  "compactRemoveMatchingEntries 0 even (Some [1, 2, 3, 4, 9 :: nat]) 4 = (2, Some [1, 3, 0, 0, 9])"
  using table_cleanup_exact [of 4 "[1, 2, 3, 4, 9 :: nat]" 0 even] by simp

end
