(* ===== verification/FrameParser.thy ===== *)
theory FrameParser
  imports SigPrelude
begin

text \<open>
  The byte-stream framing of the TCP and WebSocket companion transports
  (\<open>comms/transport_frame_parser.h\<close>): the incremental parser \<open>CompanionFrameParser\<close> and
  \<open>encodeCompanionTransportFrame\<close>. \<open>MAX_FRAME_SIZE\<close> comes from the MeshCore library and is the
  argument \<open>mfs\<close> of every definition; the laws need only \<open>mfs < 15360\<close>.

  The parser is shown to be a function of the stream: from any sequence of noise, bad headers
  and frames it delivers exactly the payloads of the frames, and its 16-bit counters never
  index past the payload buffer.
\<close>

section \<open>The parser\<close>

datatype State = SeekMarker | LengthLow | LengthHigh | Payload

record companion_parser =
  fp_state :: State
  fp_expected :: u16
  fp_received :: u16
  fp_ready :: bool
  fp_payload :: "byte list"

definition fp_reset :: "companion_parser \<Rightarrow> companion_parser" where
  "fp_reset p = p\<lparr>fp_state := SeekMarker, fp_expected := 0, fp_received := 0, fp_ready := False\<rparr>"

definition fp_init :: "nat \<Rightarrow> companion_parser" where
  "fp_init mfs = fp_reset \<lparr>fp_state = SeekMarker, fp_expected = 0, fp_received = 0, fp_ready = False,
     fp_payload = replicate mfs 0\<rparr>"

definition fp_push :: "nat \<Rightarrow> byte \<Rightarrow> companion_parser \<Rightarrow> bool \<times> companion_parser" where
  "fp_push mfs b p =
     (if fp_ready p then (False, p)
      else case fp_state p of
        SeekMarker \<Rightarrow> (False, if b = 0x3C then p\<lparr>fp_state := LengthLow\<rparr> else p)
      | LengthLow \<Rightarrow> (False, p\<lparr>fp_expected := ucast b, fp_state := LengthHigh\<rparr>)
      | LengthHigh \<Rightarrow>
          let e = or (fp_expected p) (push_bit 8 (ucast b)); p1 = p\<lparr>fp_expected := e\<rparr>
          in if e = 0 \<or> unat e > mfs
             then (False, if b = 0x3C then (fp_reset p1)\<lparr>fp_state := LengthLow\<rparr> else fp_reset p1)
             else (False, p1\<lparr>fp_received := 0, fp_state := Payload\<rparr>)
      | Payload \<Rightarrow>
          let p1 = p\<lparr>fp_payload := (fp_payload p)[unat (fp_received p) := b],
                     fp_received := fp_received p + 1\<rparr>
          in if fp_received p1 = fp_expected p1
             then (True, p1\<lparr>fp_ready := True, fp_state := SeekMarker\<rparr>)
             else (False, p1))"

definition fp_available :: "companion_parser \<Rightarrow> bool" where
  "fp_available p \<longleftrightarrow> fp_ready p"

text \<open>
  \<open>out\<close> says whether a destination was passed; the result holds the bytes written to it, the
  length and the parser after the call.
\<close>

definition fp_take :: "bool \<Rightarrow> nat \<Rightarrow> companion_parser \<Rightarrow> (byte list \<times> nat \<times> companion_parser) option" where
  "fp_take out capacity p =
     (if \<not> fp_ready p \<or> \<not> out \<or> capacity < unat (fp_expected p) then None
      else Some (map (\<lambda>i. fp_payload p ! i) [0..<unat (fp_expected p)], unat (fp_expected p),
                 p\<lparr>fp_expected := 0, fp_received := 0, fp_ready := False\<rparr>))"

definition encodeCompanionTransportFrame :: "nat \<Rightarrow> bool \<Rightarrow> nat \<Rightarrow> byte list option \<Rightarrow> byte list option" where
  "encodeCompanionTransportFrame mfs out capacity payload =
     (case payload of None \<Rightarrow> None
      | Some d \<Rightarrow>
          if \<not> out \<or> length d = 0 \<or> length d > mfs \<or> capacity < length d + 3 then None
          else Some (0x3E # word_of_nat (length d mod 256) # word_of_nat (length d div 256 mod 256) # d))"

text \<open>
  A connection as \<open>pollRecvFrame\<close> (\<open>transport_tcp.cpp\<close>) reads it over successive polls: each
  completed frame is taken into a buffer of \<open>MAX_FRAME_SIZE\<close> bytes.
\<close>

fun fp_run :: "nat \<Rightarrow> companion_parser \<Rightarrow> byte list \<Rightarrow> byte list list \<times> companion_parser" where
  "fp_run mfs p [] = ([], p)"
| "fp_run mfs p (b # bs) =
     (case fp_push mfs b p of
        (False, p1) \<Rightarrow> fp_run mfs p1 bs
      | (True, p1) \<Rightarrow>
          (case fp_take True mfs p1 of
             None \<Rightarrow> fp_run mfs p1 bs
           | Some (d, n, p2) \<Rightarrow> (case fp_run mfs p2 bs of (ds, q) \<Rightarrow> (d # ds, q))))"

section \<open>Invariant\<close>

definition fp_inv :: "nat \<Rightarrow> companion_parser \<Rightarrow> bool" where
  "fp_inv mfs p \<longleftrightarrow> mfs < 65536 \<and> length (fp_payload p) = mfs \<and>
     (fp_state p = LengthHigh \<longrightarrow> unat (fp_expected p) < 256) \<and>
     (fp_state p = Payload \<longrightarrow> \<not> fp_ready p \<and> unat (fp_expected p) \<le> mfs \<and>
        unat (fp_received p) < unat (fp_expected p)) \<and>
     (fp_ready p \<longrightarrow> fp_state p = SeekMarker \<and> 0 < unat (fp_expected p) \<and> unat (fp_expected p) \<le> mfs)"

lemma fp_inv_init: "mfs < 65536 \<Longrightarrow> fp_inv mfs (fp_init mfs)"
  by (simp add: fp_inv_def fp_init_def fp_reset_def)

lemma u16_inc: "unat (r :: u16) < unat (e :: u16) \<Longrightarrow> unat (r + 1) = unat r + 1"
  using unsigned_less [of e, where 'a = nat] by (simp add: unat_word_ariths)

lemma fp_push_inv:
  assumes inv: "fp_inv mfs p"
  shows "fp_inv mfs (snd (fp_push mfs b p))"
proof (cases "fp_ready p")
  case True
  then show ?thesis using inv by (simp add: fp_push_def)
next
  case nr: False
  have "take_bit 16 (unat b) < 256"
    by (rule le_less_trans [OF take_bit_nat_less_eq_self unat_byte_less])
  then have lt: "unat (ucast b :: u16) < 256"
    unfolding unsigned_ucast_eq by simp
  show ?thesis
  proof (cases "fp_state p")
    case SeekMarker
    then show ?thesis using inv nr by (simp add: fp_push_def fp_inv_def)
  next
    case LengthLow
    then show ?thesis using inv nr lt by (simp add: fp_push_def fp_inv_def)
  next
    case LengthHigh
    then show ?thesis using inv nr
      by (simp add: fp_push_def fp_inv_def Let_def fp_reset_def unat_gt_0)
  next
    case Payload
    then have "unat (fp_received p + 1) = unat (fp_received p) + 1"
      using inv by (intro u16_inc [of _ "fp_expected p"]) (simp add: fp_inv_def)
    then show ?thesis using inv nr Payload
      by (auto simp: fp_push_def fp_inv_def Let_def word_unat_eq_iff)
  qed
qed

lemma fp_take_inv: "fp_inv mfs p \<Longrightarrow> fp_take out c p = Some (d, n, q) \<Longrightarrow> fp_inv mfs q"
  by (auto simp: fp_take_def fp_inv_def split: if_splits)

lemma fp_run_inv: "fp_inv mfs p \<Longrightarrow> fp_inv mfs (snd (fp_run mfs p bs))"
proof (induction mfs p bs rule: fp_run.induct)
  case (2 mfs p b bs)
  obtain r p1 where p: "fp_push mfs b p = (r, p1)" by force
  have i1: "fp_inv mfs p1" using fp_push_inv [OF 2(4), of b] p by simp
  show ?case
  proof (cases r)
    case False
    then show ?thesis using 2 i1 p by simp
  next
    case True
    then show ?thesis using 2 i1 fp_take_inv [OF i1] p
      by (auto split: option.splits prod.splits)
  qed
qed simp

section \<open>The stream as a sequence of chunks\<close>

definition len_bytes :: "nat \<Rightarrow> byte list" where
  "len_bytes n = put_u16 (word_of_nat n)"

text \<open>
  \<open>Noise\<close>: bytes without a marker. \<open>BadHeader\<close>: a marker with a length of zero or above the
  maximum. \<open>Resync\<close>: such a header whose last byte is itself the marker of the next frame.
  \<open>Frame\<close>: a well-formed frame.
\<close>

datatype chunk = Noise "byte list" | BadHeader byte byte | Resync byte "byte list" | Frame "byte list"

definition payload_ok :: "nat \<Rightarrow> byte list \<Rightarrow> bool" where
  "payload_ok mfs d \<longleftrightarrow> d \<noteq> [] \<and> length d \<le> mfs"

fun chunk_ok :: "nat \<Rightarrow> chunk \<Rightarrow> bool" where
  "chunk_ok mfs (Noise g) \<longleftrightarrow> 0x3C \<notin> set g"
| "chunk_ok mfs (BadHeader lo hi) \<longleftrightarrow> hi \<noteq> 0x3C \<and> (let n = unat (get_u16 [lo, hi] 0) in n = 0 \<or> n > mfs)"
| "chunk_ok mfs (Resync lo d) \<longleftrightarrow> payload_ok mfs d"
| "chunk_ok mfs (Frame d) \<longleftrightarrow> payload_ok mfs d"

fun chunk_bytes :: "chunk \<Rightarrow> byte list" where
  "chunk_bytes (Noise g) = g"
| "chunk_bytes (BadHeader lo hi) = [0x3C, lo, hi]"
| "chunk_bytes (Resync lo d) = [0x3C, lo, 0x3C] @ len_bytes (length d) @ d"
| "chunk_bytes (Frame d) = 0x3C # len_bytes (length d) @ d"

fun chunk_frames :: "chunk \<Rightarrow> byte list list" where
  "chunk_frames (Noise g) = []"
| "chunk_frames (BadHeader lo hi) = []"
| "chunk_frames (Resync lo d) = [d]"
| "chunk_frames (Frame d) = [d]"

definition idle :: "nat \<Rightarrow> companion_parser \<Rightarrow> bool" where
  "idle mfs p \<longleftrightarrow> fp_inv mfs p \<and> fp_state p = SeekMarker \<and> \<not> fp_ready p"

lemma fp_run_append:
  "fp_run mfs p (xs @ ys) = (case fp_run mfs p xs of (ds, q) \<Rightarrow>
     (case fp_run mfs q ys of (es, r) \<Rightarrow> (ds @ es, r)))"
  by (induction mfs p xs rule: fp_run.induct) (auto split: prod.splits bool.splits option.splits)

lemma run_noise: "idle mfs p \<Longrightarrow> 0x3C \<notin> set g \<Longrightarrow> fp_run mfs p g = ([], p)"
  by (induction g) (auto simp: idle_def fp_push_def)

text \<open>The payload phase: the bytes land at consecutive offsets and the last one completes the frame.\<close>

lemma take_list_update_snoc: "n < length xs \<Longrightarrow> take (Suc n) (xs[n := b]) = take n xs @ [b]"
  by (simp add: take_Suc_conv_app_nth)

lemma nth_take_eq: "n \<le> length xs \<Longrightarrow> map (\<lambda>i. xs ! i) [0..<n] = take n xs"
  by (rule nth_equalityI) auto

lemma run_payload:
  assumes "fp_inv mfs p" and "fp_state p = Payload"
    and "length bs = unat (fp_expected p) - unat (fp_received p)"
  shows "\<exists>q. fp_run mfs p bs = ([take (unat (fp_received p)) (fp_payload p) @ bs], q) \<and> idle mfs q"
  using assms
proof (induction bs arbitrary: p)
  case Nil
  then show ?case by (simp add: fp_inv_def)
next
  case (Cons b bs)
  let ?r = "unat (fp_received p)" and ?e = "unat (fp_expected p)"
  let ?p1 = "p\<lparr>fp_payload := (fp_payload p)[?r := b], fp_received := fp_received p + 1\<rparr>"
  have r: "?r < ?e" "?e \<le> mfs" "length (fp_payload p) = mfs" "\<not> fp_ready p"
    using Cons.prems by (auto simp: fp_inv_def)
  have r1: "unat (fp_received p + 1) = ?r + 1" using u16_inc r(1) by blast
  have t: "take (Suc ?r) ((fp_payload p)[?r := b]) = take ?r (fp_payload p) @ [b]"
    using r by (intro take_list_update_snoc) simp
  show ?case
  proof (cases "fp_received p + 1 = fp_expected p")
    case True
    let ?p2 = "?p1\<lparr>fp_ready := True, fp_state := SeekMarker\<rparr>"
    let ?p3 = "?p2\<lparr>fp_expected := 0, fp_received := 0, fp_ready := False\<rparr>"
    have e: "?e = Suc ?r" using True r1 by simp
    then have "bs = []" using Cons.prems(3) by simp
    have push: "fp_push mfs b p = (True, ?p2)"
      using True r Cons.prems(2) by (simp add: fp_push_def Let_def)
    have "map (\<lambda>i. fp_payload ?p2 ! i) [0..<?e] = take ?r (fp_payload p) @ [b]"
      using r(2,3) e t nth_take_eq [of ?e "(fp_payload p)[?r := b]"] by (simp del: upt_Suc)
    then have "fp_take True mfs ?p2 = Some (take ?r (fp_payload p) @ [b], ?e, ?p3)"
      using r(2) by (simp add: fp_take_def)
    moreover have "idle mfs ?p3" using Cons.prems by (simp add: idle_def fp_inv_def)
    ultimately show ?thesis using push \<open>bs = []\<close> by simp
  next
    case False
    have push: "fp_push mfs b p = (False, ?p1)"
      using False r Cons.prems(2) by (simp add: fp_push_def Let_def)
    then have "fp_inv mfs ?p1" using fp_push_inv [OF Cons.prems(1), of b] by simp
    then show ?thesis using Cons.IH [of ?p1] push Cons.prems r1 t by simp
  qed
qed

lemma run_header:
  assumes inv: "fp_inv mfs p" and st: "fp_state p = LengthLow" "\<not> fp_ready p" and ok: "payload_ok mfs d"
  shows "\<exists>q. fp_run mfs p (len_bytes (length d) @ d) = ([d], q) \<and> idle mfs q"
proof -
  define w :: u16 where "w = word_of_nat (length d)"
  have n: "unat w = length d" "w \<noteq> 0" using ok inv
    by (auto simp: w_def payload_ok_def fp_inv_def unat_of_nat word_unat_eq_iff)
  let ?lo = "ucast w :: byte" and ?hi = "ucast (drop_bit 8 w) :: byte"
  have join: "or (ucast ?lo) (push_bit 8 (ucast ?hi)) = w"
    using get_u16_put_u16_0 [of w "[]"] by (simp add: get_u16_def put_u16_def)
  let ?p1 = "p\<lparr>fp_expected := ucast ?lo, fp_state := LengthHigh\<rparr>"
  let ?p2 = "?p1\<lparr>fp_expected := w, fp_received := 0, fp_state := Payload\<rparr>"
  have p1: "fp_push mfs ?lo p = (False, ?p1)" using st by (simp add: fp_push_def)
  have p2: "fp_push mfs ?hi ?p1 = (False, ?p2)"
    using st n ok by (simp add: fp_push_def join Let_def payload_ok_def)
  have "fp_inv mfs ?p2" using fp_push_inv [OF fp_push_inv [OF inv, of ?lo], of ?hi] p1 p2 by simp
  then obtain q where "fp_run mfs ?p2 d = ([d], q)" "idle mfs q"
    using run_payload [of mfs ?p2 d] n by auto
  then show ?thesis using p1 p2 by (simp add: len_bytes_def put_u16_def w_def [symmetric])
qed

lemma run_chunk:
  assumes p: "idle mfs p" and m: "mfs < 15360" and c: "chunk_ok mfs c"
  shows "\<exists>q. fp_run mfs p (chunk_bytes c) = (chunk_frames c, q) \<and> idle mfs q"
proof -
  let ?p1 = "p\<lparr>fp_state := LengthLow\<rparr>"
  have p1: "fp_push mfs 0x3C p = (False, ?p1)" using p by (simp add: idle_def fp_push_def)
  have i1: "fp_inv mfs ?p1" "\<not> fp_ready ?p1" using p by (auto simp: idle_def fp_inv_def)
  define p2 where "p2 lo = ?p1\<lparr>fp_expected := ucast (lo :: byte), fp_state := LengthHigh\<rparr>" for lo
  have p2: "fp_push mfs lo ?p1 = (False, p2 lo)" for lo using i1(2) by (simp add: fp_push_def p2_def)
  have i2: "fp_inv mfs (p2 lo)" for lo using fp_push_inv [OF i1(1), of lo] p2 by simp
  let ?e = "\<lambda>lo hi. get_u16 [lo, hi] 0"
  have p3: "fp_push mfs hi (p2 lo) = (False, let r = fp_reset (p2 lo) in if hi = 0x3C then r\<lparr>fp_state := LengthLow\<rparr> else r)"
    if "?e lo hi = 0 \<or> unat (?e lo hi) > mfs" for lo hi
    using that i1(2) by (auto simp: fp_push_def p2_def get_u16_def fp_reset_def Let_def)
  show ?thesis
  proof (cases c)
    case (Noise g)
    then show ?thesis using run_noise p c by auto
  next
    case (BadHeader lo hi)
    then have bad: "?e lo hi = 0 \<or> unat (?e lo hi) > mfs" "hi \<noteq> 0x3C"
      using c by (auto simp: Let_def unat_eq_0)
    have "idle mfs (fp_reset (p2 lo))" using i2 [of lo] by (simp add: idle_def fp_inv_def fp_reset_def)
    then show ?thesis using BadHeader p1 p2 p3 [OF bad(1)] bad(2) by simp
  next
    case (Resync lo d)
    have "unat (?e lo 0x3C) > mfs"
    proof -
      have "15360 \<le> unat (?e lo 0x3C)"
        by (rule byte_all [where b = lo]) (simp add: byte_list_def get_u16_def)
      then show ?thesis using m by simp
    qed
    then have p3': "fp_push mfs 0x3C (p2 lo) = (False, (fp_reset (p2 lo))\<lparr>fp_state := LengthLow\<rparr>)"
      using p3 [of lo "0x3C"] by simp
    have "fp_inv mfs ((fp_reset (p2 lo))\<lparr>fp_state := LengthLow\<rparr>)"
      using i2 [of lo] by (simp add: fp_inv_def fp_reset_def)
    then have "\<exists>q. fp_run mfs ((fp_reset (p2 lo))\<lparr>fp_state := LengthLow\<rparr>) (len_bytes (length d) @ d) = ([d], q) \<and> idle mfs q"
      using c Resync by (intro run_header) (simp_all add: fp_reset_def)
    then show ?thesis using Resync p1 p2 p3' by simp
  next
    case (Frame d)
    then show ?thesis using run_header [OF i1(1) _ i1(2), of d] c p1 by auto
  qed
qed

lemma run_chunks:
  assumes "idle mfs p" and "mfs < 15360" and "\<forall>c \<in> set cs. chunk_ok mfs c"
  shows "\<exists>q. fp_run mfs p (concat (map chunk_bytes cs)) = (concat (map chunk_frames cs), q) \<and> idle mfs q"
  using assms
proof (induction cs arbitrary: p)
  case (Cons c cs)
  obtain q where q: "fp_run mfs p (chunk_bytes c) = (chunk_frames c, q)" "idle mfs q"
    using run_chunk [of mfs p c] Cons.prems by auto
  obtain r where "fp_run mfs q (concat (map chunk_bytes cs)) = (concat (map chunk_frames cs), r)" "idle mfs r"
    using Cons q(2) by auto
  then show ?case using q by (auto simp: fp_run_append)
qed simp

lemma encode_len_bytes:
  assumes "payload_ok mfs d" and "mfs < 65536" and "length d + 3 \<le> c"
  shows "encodeCompanionTransportFrame mfs True c (Some d) = Some (0x3E # len_bytes (length d) @ d)"
proof -
  define w :: u16 where "w = word_of_nat (length d)"
  have n: "unat w = length d" "length d < 65536" using assms by (simp_all add: w_def payload_ok_def unat_of_nat)
  have lo: "(word_of_nat (length d mod 256) :: byte) = ucast w"
    unfolding word_unat_eq_iff by (simp add: unat_of_nat unsigned_ucast_eq n(1) take_bit_eq_mod)
  have hi: "(word_of_nat (length d div 256 mod 256) :: byte) = ucast (drop_bit 8 w)"
    unfolding word_unat_eq_iff unsigned_ucast_eq unsigned_drop_bit_eq n(1)
    using n(2) by (simp add: unat_of_nat take_bit_eq_mod drop_bit_eq_div)
  show ?thesis using assms
    by (simp add: encodeCompanionTransportFrame_def payload_ok_def len_bytes_def put_u16_def lo hi
        w_def [symmetric])
qed

section \<open>Properties\<close>

text \<open>
  C23: the stream parser delivers exactly the frames that were sent. Fed with any sequence of
  noise without a marker, headers with an impossible length, such headers whose high byte is
  the marker of a frame, and well-formed frames, a fresh parser returns the payloads of the
  frames, all of them and in order, and is ready for the next marker.
\<close>

theorem parser_delivers_frames:
  assumes "mfs < 15360" and "\<forall>c \<in> set cs. chunk_ok mfs c"
  shows "\<exists>q. fp_run mfs (fp_init mfs) (concat (map chunk_bytes cs)) = (concat (map chunk_frames cs), q) \<and>
    fp_state q = SeekMarker \<and> \<not> fp_available q"
proof -
  have "idle mfs (fp_init mfs)"
    using assms(1) fp_inv_init [of mfs] by (simp add: idle_def fp_init_def fp_reset_def)
  then show ?thesis using run_chunks [OF _ assms] by (auto simp: idle_def fp_available_def)
qed

theorem parser_delivers_frames_witness:
  "fst (fp_run 4 (fp_init 4) [7, 0x3C, 9, 0x3C, 2, 0, 5, 6, 0x3C, 0, 0, 0x3C, 1, 0, 0x3C]) = [[5, 6], [0x3C]]"
proof -
  let ?cs = "[Noise [7], Resync 9 [5, 6], BadHeader 0 0, Frame [0x3C]]"
  have "\<forall>c \<in> set ?cs. chunk_ok 4 c" by (simp add: payload_ok_def get_u16_def)
  from parser_delivers_frames [OF _ this] show ?thesis
    by (auto simp: len_bytes_def put_u16_def)
qed

text \<open>
  The parser never writes outside its payload buffer and never announces a length the
  buffer does not hold, whatever bytes arrive: before a payload byte is stored the write index
  is below \<open>MAX_FRAME_SIZE\<close>, and a frame that \<open>take\<close> hands out has between 1 and
  \<open>MAX_FRAME_SIZE\<close> bytes.
\<close>

theorem parser_stays_in_bounds:
  assumes "mfs < 65536" and "fp_run mfs (fp_init mfs) bs = (ds, p)"
  shows "length (fp_payload p) = mfs \<and>
    (fp_state p = Payload \<longrightarrow> unat (fp_received p) < mfs) \<and>
    (fp_available p \<longrightarrow> 0 < unat (fp_expected p) \<and> unat (fp_expected p) \<le> mfs) \<and>
    (\<forall>d n q. fp_take True mfs p = Some (d, n, q) \<longrightarrow> length d = n \<and> 0 < n \<and> n \<le> mfs)"
proof -
  have "fp_inv mfs p" using fp_run_inv [OF fp_inv_init [OF assms(1)], of bs] assms(2) by simp
  then show ?thesis by (auto simp: fp_inv_def fp_available_def fp_take_def split: if_splits)
qed

theorem parser_stays_in_bounds_witness:
  "\<exists>ds p. fp_run 2 (fp_init 2) [0x3C, 2, 0, 9] = (ds, p) \<and> fp_state p = Payload \<and> unat (fp_received p) < 2"
proof -
  obtain ds p where r: "fp_run 2 (fp_init 2) [0x3C, 2, 0, 9] = (ds, p)" by force
  have "fp_state p = Payload" using r by (auto simp: fp_init_def fp_reset_def fp_push_def Let_def)
  then show ?thesis using parser_stays_in_bounds [OF _ r] r by auto
qed

text \<open>
  The encoder and the parser agree on the frame format. The bytes the device writes for a
  payload, with the direction marker replaced by the one the parser looks for, give the payload
  back; a payload that is empty, longer than \<open>MAX_FRAME_SIZE\<close> or does not fit the output with its
  three header bytes is not encoded.
\<close>

theorem frame_round_trip:
  assumes "mfs < 15360"
  shows "case encodeCompanionTransportFrame mfs True c (Some d) of
      None \<Rightarrow> d = [] \<or> mfs < length d \<or> c < length d + 3
    | Some f \<Rightarrow> d \<noteq> [] \<and> length d \<le> mfs \<and> length f = length d + 3 \<and> length f \<le> c \<and> hd f = 0x3E \<and>
        fst (fp_run mfs (fp_init mfs) (0x3C # tl f)) = [d]"
proof (cases "payload_ok mfs d \<and> length d + 3 \<le> c")
  case True
  have "idle mfs (fp_init mfs)"
    using assms(1) fp_inv_init [of mfs] by (simp add: idle_def fp_init_def fp_reset_def)
  then have "fst (fp_run mfs (fp_init mfs) (chunk_bytes (Frame d))) = [d]"
    using run_chunk [of mfs "fp_init mfs" "Frame d"] assms True by auto
  then show ?thesis using encode_len_bytes [of mfs d c] assms True
    by (simp add: payload_ok_def len_bytes_def del: fp_run.simps)
next
  case False
  then show ?thesis by (auto simp: encodeCompanionTransportFrame_def payload_ok_def)
qed

theorem frame_round_trip_witness:
  "\<exists>f. encodeCompanionTransportFrame 172 True 5 (Some [1, 2]) = Some f \<and>
    fst (fp_run 172 (fp_init 172) (0x3C # tl f)) = [[1, 2]]"
proof -
  obtain f where f: "encodeCompanionTransportFrame 172 True 5 (Some [1, 2]) = Some f"
    by (simp add: encodeCompanionTransportFrame_def)
  then show ?thesis using frame_round_trip [where mfs = 172 and c = 5 and d = "[1, 2]"] by (simp del: fp_run.simps)
qed

end
