(* ===== verification/BleSecurity.thy ===== *)
theory BleSecurity
  imports SigPrelude
begin

text \<open>
  The policies that guard the Bluetooth companion link: the authentication throttle
  (\<open>comms/ble_auth_throttle.h\<close>), the authentication watchdog
  (\<open>comms/ble_auth_watchdog.h\<close>), the controller start-up gate (\<open>comms/ble_init_gate.h\<close>), the bond
  cache (\<open>comms/ble_bond_cache.h\<close>), the bond purge scheduler (\<open>comms/ble_bond_rotation.h\<close>), the
  ATT payload policy (\<open>comms/ble_att_policy.h\<close>) and the session generation accessor
  (\<open>comms/serial_session.h\<close>).

  Millisecond clocks are 32-bit words that wrap; a claim about a deadline quantifies over the
  time it was set at, so it covers the wrap. The 8-bit failure counters saturate at 31 and are
  naturals here.
\<close>

section \<open>Authentication throttle\<close>

definition BLE_AUTH_BACKOFF_BASE_MS :: u32 where "BLE_AUTH_BACKOFF_BASE_MS = 1000"

definition BLE_AUTH_BACKOFF_MAX_MS :: u32 where "BLE_AUTH_BACKOFF_MAX_MS = 5 * 60 * 1000"

definition BLE_PAIRING_WINDOW_MS :: u32 where "BLE_PAIRING_WINDOW_MS = 2 * 60 * 1000"

record PeerState =
  ps_address :: "byte list"
  ps_blocked_until :: u32
  ps_failures :: nat
  ps_used :: bool

definition PeerState0 :: PeerState where
  "PeerState0 = \<lparr>ps_address = replicate 6 0, ps_blocked_until = 0, ps_failures = 0, ps_used = False\<rparr>"

record BleAuthThrottle =
  th_peers :: "PeerState list"
  th_blocked_until :: u32
  th_pairing_deadline :: u32
  th_global_failures :: nat
  th_pairing_open :: bool

definition th_reset :: "BleAuthThrottle \<Rightarrow> BleAuthThrottle" where
  "th_reset s = s\<lparr>th_global_failures := 0, th_blocked_until := 0,
     th_peers := map (\<lambda>_. PeerState0) (th_peers s), th_pairing_deadline := 0, th_pairing_open := False\<rparr>"

definition th_init :: BleAuthThrottle where
  "th_init = \<lparr>th_peers = replicate 4 PeerState0, th_blocked_until = 0, th_pairing_deadline = 0,
     th_global_failures = 0, th_pairing_open = False\<rparr>"

definition th_openPairingWindow :: "u32 \<Rightarrow> BleAuthThrottle \<Rightarrow> BleAuthThrottle" where
  "th_openPairingWindow now s =
     (th_reset s)\<lparr>th_pairing_deadline := now + BLE_PAIRING_WINDOW_MS, th_pairing_open := True\<rparr>"

definition th_pairingWindowOpen :: "u32 \<Rightarrow> BleAuthThrottle \<Rightarrow> bool" where
  "th_pairingWindowOpen now s \<longleftrightarrow> th_pairing_open s \<and> before32 now (th_pairing_deadline s)"

definition th_blocked :: "u32 \<Rightarrow> BleAuthThrottle \<Rightarrow> bool" where
  "th_blocked now s \<longleftrightarrow> th_global_failures s > 0 \<and> before32 now (th_blocked_until s)"

text \<open>\<open>find\<close>: the first slot in use for the peer.\<close>

definition th_find :: "byte list \<Rightarrow> PeerState list \<Rightarrow> PeerState option" where
  "th_find peer ps = List.find (\<lambda>s. ps_used s \<and> ps_address s = peer) ps"

definition th_attemptAllowed :: "byte list \<Rightarrow> bool \<Rightarrow> u32 \<Rightarrow> BleAuthThrottle \<Rightarrow> bool" where
  "th_attemptAllowed peer known_bond now s =
     (if th_blocked now s then False
      else case th_find peer (th_peers s) of
        Some st \<Rightarrow> if ps_failures st > 0 \<and> before32 now (ps_blocked_until st) then False
                   else known_bond \<or> th_pairingWindowOpen now s
      | None \<Rightarrow> known_bond \<or> th_pairingWindowOpen now s)"

text \<open>\<open>victim\<close>: the least-failed slot, the earliest one on a tie.\<close>

fun th_victim :: "PeerState list \<Rightarrow> nat \<Rightarrow> nat \<Rightarrow> nat \<Rightarrow> nat" where
  "th_victim ps victim i 0 = victim"
| "th_victim ps victim i (Suc n) =
     th_victim ps (if ps_failures (ps ! i) < ps_failures (ps ! victim) then i else victim) (i + 1) n"

text \<open>\<open>findOrReplace\<close>: the table after the call and the index of the slot it returns.\<close>

definition th_findOrReplace :: "byte list \<Rightarrow> PeerState list \<Rightarrow> PeerState list \<times> nat" where
  "th_findOrReplace peer ps =
     (case first_index (\<lambda>s. ps_used s \<and> ps_address s = peer) ps of
        Some i \<Rightarrow> (ps, i)
      | None \<Rightarrow>
          (case first_index (\<lambda>s. \<not> ps_used s) ps of
             Some i \<Rightarrow> (ps[i := (ps ! i)\<lparr>ps_used := True, ps_address := peer\<rparr>], i)
           | None \<Rightarrow>
               let v = th_victim ps 0 1 (length ps - 1)
               in (ps[v := PeerState0\<lparr>ps_used := True, ps_address := peer\<rparr>], v)))"

text \<open>The doubling loop: \<open>i\<close> counts down the remaining rounds.\<close>

fun backoff_loop :: "nat \<Rightarrow> u32 \<Rightarrow> u32" where
  "backoff_loop 0 delay = delay"
| "backoff_loop (Suc i) delay =
     (if delay < BLE_AUTH_BACKOFF_MAX_MS
      then backoff_loop i (if delay > BLE_AUTH_BACKOFF_MAX_MS div 2 then BLE_AUTH_BACKOFF_MAX_MS else delay * 2)
      else delay)"

definition th_recordFailure :: "byte list \<Rightarrow> u32 \<Rightarrow> BleAuthThrottle \<Rightarrow> u32 \<times> BleAuthThrottle" where
  "th_recordFailure peer now s =
     (let g = (if th_global_failures s < 31 then th_global_failures s + 1 else th_global_failures s);
          (ps, i) = th_findOrReplace peer (th_peers s);
          st = ps ! i;
          f = (if ps_failures st < 31 then ps_failures st + 1 else ps_failures st);
          d = backoff_loop ((if g > f then g else f) - 1) BLE_AUTH_BACKOFF_BASE_MS;
          delay = (if d > BLE_AUTH_BACKOFF_MAX_MS then BLE_AUTH_BACKOFF_MAX_MS else d)
      in (delay, s\<lparr>th_global_failures := g, th_blocked_until := now + delay,
                   th_peers := ps[i := st\<lparr>ps_failures := f, ps_blocked_until := now + delay\<rparr>]\<rparr>))"

definition th_recordSuccess :: "BleAuthThrottle \<Rightarrow> BleAuthThrottle" where
  "th_recordSuccess s = th_reset s"

definition th_peerFailureCount :: "byte list \<Rightarrow> BleAuthThrottle \<Rightarrow> nat" where
  "th_peerFailureCount peer s = (case th_find peer (th_peers s) of Some st \<Rightarrow> ps_failures st | None \<Rightarrow> 0)"

subsection \<open>Backoff\<close>

definition backoff :: "nat \<Rightarrow> nat" where
  "backoff k = min 300000 (1000 * 2 ^ (min k 31 - 1))"

lemma backoff_loop_unat:
  assumes "unat d \<le> 300000"
  shows "unat (backoff_loop n d) = min 300000 (unat d * 2 ^ n)"
  using assms
proof (induction n arbitrary: d)
  case (Suc n)
  have m: "BLE_AUTH_BACKOFF_MAX_MS = 300000" by (simp add: BLE_AUTH_BACKOFF_MAX_MS_def)
  have h: "(300000 div 2 :: u32) = 150000" by simp
  show ?case
  proof (cases "d < 300000")
    case False
    then have "unat d = 300000" using Suc.prems by (simp add: word_less_nat_alt)
    then show ?thesis using False by (simp add: m min_def)
  next
    case lt: True
    show ?thesis
    proof (cases "150000 < d")
      case True
      then have "150000 < unat d" by (simp add: word_less_nat_alt)
      then have "300000 \<le> unat d * 2 ^ Suc n"
        using mult_le_mono [of 150000 "unat d" 2 "2 ^ Suc n"] by simp
      moreover have "backoff_loop (Suc n) d = backoff_loop n 300000" using lt True by (simp add: m)
      ultimately show ?thesis using Suc.IH [of 300000] by simp
    next
      case False
      then have "unat d \<le> 150000" by (simp add: word_less_nat_alt)
      then have "unat (d * 2) = unat d * 2" by (simp add: unat_word_ariths)
      moreover have "backoff_loop (Suc n) d = backoff_loop n (d * 2)" using lt False by (simp add: m)
      ultimately show ?thesis using Suc.IH [of "d * 2"] \<open>unat d \<le> 150000\<close> by (simp add: ac_simps)
    qed
  qed
qed simp

subsection \<open>Table of peers\<close>

lemma th_victim_bound: "victim < length ps \<Longrightarrow> i + n \<le> length ps \<Longrightarrow> th_victim ps victim i n < length ps"
  by (induction n arbitrary: victim i) auto

lemma th_find_first_index:
  "th_find peer ps = map_option (\<lambda>i. ps ! i) (first_index (\<lambda>s. ps_used s \<and> ps_address s = peer) ps)"
  by (induction ps) (auto simp: th_find_def option.map_comp comp_def)

definition th_inv :: "BleAuthThrottle \<Rightarrow> bool" where
  "th_inv s \<longleftrightarrow> th_peers s \<noteq> [] \<and> th_global_failures s \<le> 31 \<and>
     (\<forall>p \<in> set (th_peers s). ps_failures p \<le> th_global_failures s)"

lemma th_inv_reset [simp]: "th_inv s \<Longrightarrow> th_inv (th_reset s)"
  by (simp add: th_inv_def th_reset_def PeerState0_def)

lemma th_inv_init [simp]: "th_inv th_init"
  by (simp add: th_inv_def th_init_def PeerState0_def)

text \<open>
  \<open>findOrReplace\<close> returns a slot of the table that belongs to the peer, in front of every other
  slot of that peer, with a failure count no slot of the old table exceeds.
\<close>

lemma th_findOrReplace_spec:
  assumes ne: "ps \<noteq> []" and e: "th_findOrReplace peer ps = (qs, i)" and b: "\<forall>p \<in> set ps. ps_failures p \<le> g"
  shows "i < length qs \<and> length qs = length ps \<and> ps_used (qs ! i) \<and> ps_address (qs ! i) = peer \<and>
    (\<forall>j < i. \<not> (ps_used (qs ! j) \<and> ps_address (qs ! j) = peer)) \<and> (\<forall>p \<in> set qs. ps_failures p \<le> g)"
proof (cases "first_index (\<lambda>s. ps_used s \<and> ps_address s = peer) ps")
  case (Some k)
  then show ?thesis using e b first_index_Some [OF Some] by (auto simp: th_findOrReplace_def)
next
  case None
  then have no: "\<forall>j < length ps. \<not> (ps_used (ps ! j) \<and> ps_address (ps ! j) = peer)"
    using first_index_None [of _ ps] by simp
  have upd: ?thesis if "i < length ps" and "qs = ps[i := s]" and "ps_used s" "ps_address s = peer" "ps_failures s \<le> g" for s
    using that no b set_update_subset_insert [of ps i s] by (auto simp: nth_list_update)
  show ?thesis
  proof (cases "first_index (\<lambda>s. \<not> ps_used s) ps")
    case (Some k)
    then have k: "k < length ps" using first_index_Some by fast
    then have "i = k" "qs = ps[k := (ps ! k)\<lparr>ps_used := True, ps_address := peer\<rparr>]"
      using e None Some by (auto simp: th_findOrReplace_def)
    then show ?thesis using upd [of "(ps ! k)\<lparr>ps_used := True, ps_address := peer\<rparr>"] k b by simp
  next
    case None2: None
    have "th_victim ps 0 1 (length ps - 1) < length ps"
      using ne by (intro th_victim_bound) (auto simp: Suc_le_eq)
    moreover have "i = th_victim ps 0 1 (length ps - 1)" "qs = ps[i := PeerState0\<lparr>ps_used := True, ps_address := peer\<rparr>]"
      using e None None2 by (auto simp: th_findOrReplace_def Let_def)
    ultimately show ?thesis using upd [of "PeerState0\<lparr>ps_used := True, ps_address := peer\<rparr>"]
      by (simp add: PeerState0_def)
  qed
qed

lemma th_recordFailure_spec:
  assumes inv: "th_inv s" and r: "th_recordFailure peer now s = (delay, s')"
  shows "th_inv s' \<and> th_global_failures s' = min 31 (th_global_failures s + 1) \<and>
    unat delay = backoff (th_global_failures s + 1) \<and> th_blocked_until s' = now + delay \<and>
    th_pairing_deadline s' = th_pairing_deadline s \<and> th_pairing_open s' = th_pairing_open s \<and>
    (\<exists>st. th_find peer (th_peers s') = Some st \<and> 0 < ps_failures st \<and> ps_blocked_until st = now + delay)"
proof -
  let ?g = "if th_global_failures s < 31 then th_global_failures s + 1 else th_global_failures s"
  obtain ps i where f: "th_findOrReplace peer (th_peers s) = (ps, i)" by force
  let ?f = "if ps_failures (ps ! i) < 31 then ps_failures (ps ! i) + 1 else ps_failures (ps ! i)"
  have t: "i < length ps" "ps_used (ps ! i)" "ps_address (ps ! i) = peer"
    "\<forall>j < i. \<not> (ps_used (ps ! j) \<and> ps_address (ps ! j) = peer)" "\<forall>p \<in> set ps. ps_failures p \<le> th_global_failures s"
    using th_findOrReplace_spec [OF _ f, of "th_global_failures s"] inv by (auto simp: th_inv_def)
  have g: "?g = min 31 (th_global_failures s + 1)" using inv by (simp add: th_inv_def)
  have fi: "ps_failures (ps ! i) \<le> th_global_failures s" using t(1,5) by simp
  then have fg: "?f \<le> ?g" "0 < ?f" using inv by (auto simp: th_inv_def)
  define d where "d = backoff_loop (?g - 1) BLE_AUTH_BACKOFF_BASE_MS"
  have "unat d = min 300000 (1000 * 2 ^ (?g - 1))"
    unfolding d_def by (subst backoff_loop_unat) (simp_all add: BLE_AUTH_BACKOFF_BASE_MS_def)
  then have d: "unat d = backoff (th_global_failures s + 1)" "\<not> BLE_AUTH_BACKOFF_MAX_MS < d"
    unfolding g backoff_def by (simp_all add: min.commute BLE_AUTH_BACKOFF_MAX_MS_def word_less_nat_alt)
  have "(if a > b then a else b) = a" if "b \<le> a" for a b :: nat using that by simp
  then have m: "(if ?g > ?f then ?g else ?f) = ?g" using fg(1) by blast
  define st where "st = (ps ! i)\<lparr>ps_failures := ?f, ps_blocked_until := now + d\<rparr>"
  have "th_recordFailure peer now s =
      (d, s\<lparr>th_global_failures := ?g, th_blocked_until := now + d, th_peers := ps[i := st]\<rparr>)"
    unfolding th_recordFailure_def f Let_def prod.case m d_def [symmetric] st_def by (simp only: d(2) if_False)
  then have e: "delay = d \<and> s' = s\<lparr>th_global_failures := ?g, th_blocked_until := now + d, th_peers := ps[i := st]\<rparr>"
    using r by (simp only: prod.inject)
  have "first_index (\<lambda>s. ps_used s \<and> ps_address s = peer) (ps[i := st]) = Some i"
    using t by (intro first_index_update) (simp_all add: st_def)
  then have "th_find peer (ps[i := st]) = Some st" using t(1) by (simp add: th_find_first_index)
  moreover have "\<forall>p \<in> set (ps[i := st]). ps_failures p \<le> ?g"
    using t(5) fg(1) set_update_subset_insert [of ps i st] by (force simp: st_def)
  ultimately show ?thesis using e g d(1) fg(2) t(1) inv by (auto simp: th_inv_def st_def)
qed

subsection \<open>Histories\<close>

datatype th_op = Open u32 | Fail "byte list" u32 | Success | Reset

fun th_step :: "th_op \<Rightarrow> BleAuthThrottle \<Rightarrow> BleAuthThrottle" where
  "th_step (Open t) s = th_openPairingWindow t s"
| "th_step (Fail peer t) s = snd (th_recordFailure peer t s)"
| "th_step Success s = th_recordSuccess s"
| "th_step Reset s = th_reset s"

fun is_Fail :: "th_op \<Rightarrow> bool" where
  "is_Fail (Fail peer t) = True"
| "is_Fail _ = False"

text \<open>The failures since the last operation that forgives them.\<close>

definition streak :: "th_op list \<Rightarrow> nat" where
  "streak ops = length (takeWhile is_Fail (rev ops))"

lemma streak_snoc: "streak (ops @ [op]) = (if is_Fail op then streak ops + 1 else 0)"
  by (simp add: streak_def)

lemma th_openPairingWindow_inv [simp]: "th_inv s \<Longrightarrow> th_inv (th_openPairingWindow t s)"
  using th_inv_reset [of s] by (simp add: th_openPairingWindow_def th_inv_def)

lemma th_run:
  "th_inv (fold th_step ops th_init) \<and> th_global_failures (fold th_step ops th_init) = min 31 (streak ops)"
proof (induction ops rule: rev_induct)
  case Nil
  then show ?case by (simp add: streak_def) (simp add: th_init_def)
next
  case (snoc op ops)
  let ?s = "fold th_step ops th_init"
  show ?case
  proof (cases op)
    case (Fail peer t)
    obtain d s' where "th_recordFailure peer t ?s = (d, s')" by force
    then show ?thesis using th_recordFailure_spec [of ?s peer t d s'] snoc Fail by (simp add: streak_snoc)
  next
    case (Open t)
    then show ?thesis using snoc by (simp add: streak_snoc) (simp add: th_openPairingWindow_def th_reset_def)
  next
    case Success
    then show ?thesis using snoc by (simp add: streak_snoc th_recordSuccess_def) (simp add: th_reset_def)
  next
    case Reset
    then show ?thesis using snoc by (simp add: streak_snoc) (simp add: th_reset_def)
  qed
qed

text \<open>The pairing flag records the last operation that is not a failure.\<close>

lemma th_pairing_history:
  assumes "th_pairing_open (fold th_step ops th_init)"
  shows "\<exists>ops1 t fs. ops = ops1 @ Open t # fs \<and> list_all is_Fail fs \<and>
    th_pairing_deadline (fold th_step ops th_init) = t + BLE_PAIRING_WINDOW_MS"
  using assms
proof (induction ops rule: rev_induct)
  case Nil
  then show ?case by (simp add: th_init_def)
next
  case (snoc op ops)
  let ?s = "fold th_step ops th_init"
  show ?case
  proof (cases op)
    case (Fail peer t)
    obtain d s' where r: "th_recordFailure peer t ?s = (d, s')" by force
    then have same: "th_pairing_deadline s' = th_pairing_deadline ?s" "th_pairing_open s' = th_pairing_open ?s"
      using th_recordFailure_spec [of ?s peer t d s'] th_run [of ops] by auto
    then obtain ops1 t0 fs where "ops = ops1 @ Open t0 # fs" "list_all is_Fail fs"
      "th_pairing_deadline ?s = t0 + BLE_PAIRING_WINDOW_MS"
      using snoc Fail r by auto
    then show ?thesis using Fail r same by (intro exI [of _ ops1] exI [of _ t0] exI [of _ "fs @ [op]"]) simp
  next
    case (Open t)
    then show ?thesis
      by (intro exI [of _ ops] exI [of _ t] exI [of _ "[]"]) (simp add: th_openPairingWindow_def)
  qed (use snoc in \<open>simp_all add: th_recordSuccess_def th_reset_def\<close>)
qed

section \<open>Authentication watchdog\<close>

record BleAuthWatchdog =
  wd_timeout :: u32
  wd_deadline :: u32
  wd_conn_id :: u16
  wd_armed :: bool

definition wd_init :: "u32 \<Rightarrow> BleAuthWatchdog" where
  "wd_init timeout = \<lparr>wd_timeout = timeout, wd_deadline = 0, wd_conn_id = 0, wd_armed = False\<rparr>"

definition wd_arm :: "u16 \<Rightarrow> u32 \<Rightarrow> BleAuthWatchdog \<Rightarrow> BleAuthWatchdog" where
  "wd_arm conn now w = w\<lparr>wd_conn_id := conn, wd_deadline := now + wd_timeout w, wd_armed := True\<rparr>"

definition wd_cancel :: "BleAuthWatchdog \<Rightarrow> BleAuthWatchdog" where
  "wd_cancel w = w\<lparr>wd_armed := False\<rparr>"

definition wd_takeExpired :: "u32 \<Rightarrow> BleAuthWatchdog \<Rightarrow> u16 option \<times> BleAuthWatchdog" where
  "wd_takeExpired now w =
     (if \<not> wd_armed w \<or> before32 now (wd_deadline w) then (None, w)
      else (Some (wd_conn_id w), w\<lparr>wd_armed := False\<rparr>))"

fun wd_polls :: "u32 list \<Rightarrow> BleAuthWatchdog \<Rightarrow> u16 option list" where
  "wd_polls [] w = []"
| "wd_polls (t # ts) w = (case wd_takeExpired t w of (r, w') \<Rightarrow> r # wd_polls ts w')"

lemma wd_polls_disarmed: "\<not> wd_armed w \<Longrightarrow> wd_polls ts w = replicate (length ts) None"
  by (induction ts) (auto simp: wd_takeExpired_def)

section \<open>Controller start-up gate\<close>

datatype BleInitState = Unconfigured | Ready | Initializing | Initialized | Failed

record BleInitGate =
  ig_state :: BleInitState
  ig_retry_delay :: u32
  ig_retry_at :: u32

definition ig_init :: "u32 \<Rightarrow> BleInitGate" where
  "ig_init retry_delay = \<lparr>ig_state = Unconfigured, ig_retry_delay = retry_delay, ig_retry_at = 0\<rparr>"

definition ig_configure :: "BleInitGate \<Rightarrow> BleInitGate" where
  "ig_configure g = g\<lparr>ig_state := Ready, ig_retry_at := 0\<rparr>"

text \<open>
  \<open>ensureInitialized\<close>: \<open>ok\<close> is what the initializer returns if it is called; the result says
  what the gate returns and whether it called the initializer.
\<close>

definition ig_ensureInitialized :: "u32 \<Rightarrow> bool \<Rightarrow> BleInitGate \<Rightarrow> bool \<times> bool \<times> BleInitGate" where
  "ig_ensureInitialized now ok g =
     (if ig_state g = Initialized then (True, False, g)
      else if ig_state g = Unconfigured \<or> ig_state g = Initializing then (False, False, g)
      else if ig_state g = Failed \<and> before32 now (ig_retry_at g) then (False, False, g)
      else if \<not> ok then (False, True, g\<lparr>ig_state := Failed, ig_retry_at := now + ig_retry_delay g\<rparr>)
      else (True, True, g\<lparr>ig_state := Initialized\<rparr>))"

text \<open>A sequence of calls, each with its time and the outcome its initializer would have.\<close>

fun ig_calls :: "(u32 \<times> bool) list \<Rightarrow> BleInitGate \<Rightarrow> (bool \<times> bool) list \<times> BleInitGate" where
  "ig_calls [] g = ([], g)"
| "ig_calls ((t, ok) # cs) g =
     (case ig_ensureInitialized t ok g of (r, called, g') \<Rightarrow>
        case ig_calls cs g' of (rs, g'') \<Rightarrow> ((r, called) # rs, g''))"

lemma ig_calls_initialized:
  "ig_state g = Initialized \<Longrightarrow> ig_calls cs g = (replicate (length cs) (True, False), g)"
  by (induction cs) (auto simp: ig_ensureInitialized_def)

lemma ig_calls_unconfigured:
  "ig_state g = Unconfigured \<Longrightarrow> ig_calls cs g = (replicate (length cs) (False, False), g)"
  by (induction cs) (auto simp: ig_ensureInitialized_def)

section \<open>Bond cache\<close>

record BleBondCache =
  bc_peers :: "byte list list"
  bc_count :: nat

definition bc_clear :: "BleBondCache \<Rightarrow> BleBondCache" where
  "bc_clear c = c\<lparr>bc_count := 0\<rparr>"

definition bc_replace :: "byte list list option \<Rightarrow> nat \<Rightarrow> BleBondCache \<Rightarrow> bool \<times> BleBondCache" where
  "bc_replace peers count c =
     (if count > length (bc_peers c) \<or> (count > 0 \<and> peers = None) then (False, c)
      else (True, c\<lparr>bc_peers := take count (case peers of Some ps \<Rightarrow> ps | None \<Rightarrow> []) @ drop count (bc_peers c),
                    bc_count := count\<rparr>))"

definition bc_contains :: "byte list \<Rightarrow> BleBondCache \<Rightarrow> bool" where
  "bc_contains peer c \<longleftrightarrow> list_ex (\<lambda>i. bc_peers c ! i = peer) [0..<bc_count c]"

definition bc_add :: "byte list \<Rightarrow> BleBondCache \<Rightarrow> bool \<times> BleBondCache" where
  "bc_add peer c =
     (if bc_contains peer c then (True, c)
      else if bc_count c \<ge> length (bc_peers c) then (False, c)
      else (True, c\<lparr>bc_peers := (bc_peers c)[bc_count c := peer], bc_count := bc_count c + 1\<rparr>))"

definition bc_bonds :: "BleBondCache \<Rightarrow> byte list list" where
  "bc_bonds c = take (bc_count c) (bc_peers c)"

definition bc_inv :: "BleBondCache \<Rightarrow> bool" where
  "bc_inv c \<longleftrightarrow> bc_count c \<le> length (bc_peers c)"

lemma bc_contains_iff: "bc_inv c \<Longrightarrow> bc_contains peer c \<longleftrightarrow> peer \<in> set (bc_bonds c)"
  by (auto simp: bc_contains_def bc_bonds_def bc_inv_def list_ex_iff in_set_conv_nth)

lemma bc_add_spec:
  assumes "bc_inv c" and "bc_add peer c = (ok, c')"
  shows "bc_inv c' \<and> length (bc_peers c') = length (bc_peers c) \<and>
    (ok \<longleftrightarrow> peer \<in> set (bc_bonds c) \<or> length (bc_bonds c) < length (bc_peers c)) \<and>
    set (bc_bonds c') = (if ok then insert peer (set (bc_bonds c)) else set (bc_bonds c)) \<and>
    (distinct (bc_bonds c) \<longrightarrow> distinct (bc_bonds c'))"
proof -
  have "take (Suc (bc_count c)) ((bc_peers c)[bc_count c := peer]) = bc_bonds c @ [peer]"
    if "bc_count c < length (bc_peers c)" using that by (simp add: bc_bonds_def take_Suc_conv_app_nth)
  then show ?thesis using assms bc_contains_iff [OF assms(1), of peer]
    by (auto simp: bc_add_def bc_inv_def bc_bonds_def split: if_splits)
qed

lemma bc_replace_spec:
  assumes "bc_inv c" and "bc_replace peers count c = (ok, c')" and "\<forall>ps. peers = Some ps \<longrightarrow> count \<le> length ps"
  shows "bc_inv c' \<and> length (bc_peers c') = length (bc_peers c) \<and>
    bc_bonds c' = (if ok then (case peers of Some ps \<Rightarrow> take count ps | None \<Rightarrow> []) else bc_bonds c)"
  using assms by (cases peers) (auto simp: bc_replace_def bc_inv_def bc_bonds_def split: if_splits)

section \<open>Bond rotation\<close>

definition BLE_PIN_RESPONSE_GRACE_MS :: u32 where "BLE_PIN_RESPONSE_GRACE_MS = 1000"

definition BLE_BOND_PURGE_RETRY_MS :: u32 where "BLE_BOND_PURGE_RETRY_MS = 250"

record BleBondRotationState =
  rot_next_action :: u32
  rot_pending :: bool
  rot_purge_started :: bool

definition rot_request :: "u32 \<Rightarrow> bool \<Rightarrow> BleBondRotationState \<Rightarrow> BleBondRotationState" where
  "rot_request now response_grace r = r\<lparr>rot_pending := True, rot_purge_started := False,
     rot_next_action := now + (if response_grace then BLE_PIN_RESPONSE_GRACE_MS else 0)\<rparr>"

definition rot_actionDue :: "u32 \<Rightarrow> BleBondRotationState \<Rightarrow> bool" where
  "rot_actionDue now r \<longleftrightarrow> rot_pending r \<and> \<not> before32 now (rot_next_action r)"

definition rot_purgeSubmitted :: "u32 \<Rightarrow> BleBondRotationState \<Rightarrow> BleBondRotationState" where
  "rot_purgeSubmitted now r = r\<lparr>rot_purge_started := True, rot_next_action := now + BLE_BOND_PURGE_RETRY_MS\<rparr>"

definition rot_retryLater :: "u32 \<Rightarrow> BleBondRotationState \<Rightarrow> BleBondRotationState" where
  "rot_retryLater now r = r\<lparr>rot_next_action := now + BLE_BOND_PURGE_RETRY_MS\<rparr>"

definition rot_expedite :: "u32 \<Rightarrow> BleBondRotationState \<Rightarrow> BleBondRotationState" where
  "rot_expedite now r = (if rot_pending r \<and> \<not> rot_purge_started r then r\<lparr>rot_next_action := now\<rparr> else r)"

definition rot_clear :: "BleBondRotationState \<Rightarrow> BleBondRotationState" where
  "rot_clear r = r\<lparr>rot_pending := False, rot_purge_started := False, rot_next_action := 0\<rparr>"

text \<open>
  A purge waits out the response's grace period, a submitted one its retry period, and a
  disconnect moves only a purge that was not submitted.
\<close>

lemma rot_schedule:
  assumes "unat e < 2 ^ 31"
  shows "rot_actionDue (t + e) (rot_request t grace r) \<longleftrightarrow> (grace \<longrightarrow> 1000 \<le> unat e)"
    and "rot_pending r \<Longrightarrow> rot_actionDue (t + e) (rot_purgeSubmitted t r) \<longleftrightarrow> 250 \<le> unat e"
    and "rot_pending r \<Longrightarrow> rot_actionDue (t + e) (rot_expedite t' (rot_purgeSubmitted t r)) \<longleftrightarrow> 250 \<le> unat e"
    and "rot_actionDue (t + e) (rot_expedite (t + e) (rot_request t grace r))"
    and "\<not> rot_actionDue (t + e) (rot_clear r)"
  using before32_interval [of 1000 e t] before32_interval [of 0 e t] before32_interval [of 250 e t] assms
  by (auto simp: rot_actionDue_def rot_request_def rot_purgeSubmitted_def rot_expedite_def rot_clear_def
      BLE_PIN_RESPONSE_GRACE_MS_def BLE_BOND_PURGE_RETRY_MS_def before32_self)

section \<open>ATT payload policy and session generation\<close>

definition payloadCapacity :: "u16 \<Rightarrow> nat" where
  "payloadCapacity mtu = (if mtu > 3 then unat (mtu - 3) else 0)"

definition frameFitsMtu :: "nat \<Rightarrow> u16 \<Rightarrow> bool" where
  "frameFitsMtu frame_len mtu \<longleftrightarrow> frame_len > 0 \<and> frame_len \<le> payloadCapacity mtu"

lemma frameFitsMtu_iff: "frameFitsMtu n mtu \<longleftrightarrow> 0 < n \<and> n + 3 \<le> unat mtu"
proof (cases "mtu > 3")
  case True
  then have "unat (mtu - 3) = unat mtu - 3" "3 < unat mtu"
    by (auto simp: word_less_nat_alt unat_sub_if_size word_size)
  then show ?thesis using True by (auto simp: frameFitsMtu_def payloadCapacity_def)
next
  case False
  then show ?thesis by (auto simp: frameFitsMtu_def payloadCapacity_def word_less_nat_alt)
qed

text \<open>\<open>serial\<close>: whether the interface is present and connected; \<open>source\<close>: the epoch a session source reports.\<close>

definition serialSessionGenerationFor :: "bool option \<Rightarrow> u32 option \<Rightarrow> u32" where
  "serialSessionGenerationFor serial source =
     (case serial of None \<Rightarrow> 0
      | Some connected \<Rightarrow> if \<not> connected then 0 else (case source of Some g \<Rightarrow> g | None \<Rightarrow> 1))"

section \<open>Properties\<close>





text \<open>
  C34: an unauthenticated connection is dropped once, on time. Polled at any times after it was
  armed for a connection, the watchdog stays silent until the timeout has passed, then names
  that connection exactly once and is silent afterwards; cancelled, it stays silent. The times
  may cross the wrap of the clock.
\<close>

theorem watchdog_fires_once:
  assumes "unat (wd_timeout w) < 2 ^ 31" and "\<forall>e \<in> set (es @ e # fs). unat e < 2 ^ 31"
    and "\<forall>e' \<in> set es. unat e' < unat (wd_timeout w)" and "unat (wd_timeout w) \<le> unat e"
  shows "wd_polls (map ((+) t) (es @ e # fs)) (wd_arm conn t w) =
      replicate (length es) None @ Some conn # replicate (length fs) None \<and>
    wd_polls (map ((+) t) (es @ e # fs)) (wd_cancel (wd_arm conn t w)) = replicate (length (es @ e # fs)) None"
proof -
  have "wd_polls (map ((+) t) (es @ e # fs)) (wd_arm conn t w) =
      replicate (length es) None @ Some conn # replicate (length fs) None"
    using assms
  proof (induction es)
    case Nil
    have "wd_takeExpired (t + e) (wd_arm conn t w) = (Some conn, (wd_arm conn t w)\<lparr>wd_armed := False\<rparr>)"
      using before32_interval [of "wd_timeout w" e t] Nil by (simp add: wd_takeExpired_def wd_arm_def)
    then show ?case by (simp add: wd_polls_disarmed)
  next
    case (Cons e' es)
    have "wd_takeExpired (t + e') (wd_arm conn t w) = (None, wd_arm conn t w)"
      using before32_interval [of "wd_timeout w" e' t] Cons by (simp add: wd_takeExpired_def wd_arm_def)
    then show ?case using Cons by simp
  qed
  moreover have "\<not> wd_armed (wd_cancel (wd_arm conn t w))" by (simp add: wd_cancel_def)
  ultimately show ?thesis by (simp add: wd_polls_disarmed del: map_append)
qed

theorem watchdog_fires_once_witness:
  "wd_polls (map ((+) 0xFFFFFFFF) [5, 30000, 40000]) (wd_arm 3 0xFFFFFFFF (wd_init 30000)) = [None, Some 3, None]"
  using watchdog_fires_once [of "wd_init 30000" "[5]" 30000 "[40000]" "0xFFFFFFFF" 3]
  by (simp add: wd_init_def)

text \<open>
  The Bluetooth controller is started only after configuration, never twice, and not again
  within the retry delay of a failed start. Calls before \<open>configure\<close> do nothing; after a
  successful start every later call reports success without calling the initializer; after a
  failed start at \<open>t\<close> a call within the delay is refused without calling it and the first later
  call does call it.
\<close>

theorem init_gate_discipline:
  assumes "ig_state g = Ready" and "unat (ig_retry_delay g) < 2 ^ 31"
  shows "ig_calls cs (ig_init d) = (replicate (length cs) (False, False), ig_init d) \<and>
    fst (ig_calls ((t, True) # cs) g) = (True, True) # replicate (length cs) (True, False) \<and>
    (\<forall>e ok. unat e < 2 ^ 31 \<longrightarrow> fst (ig_calls [(t, False), (t + e, ok)] g) =
       [(False, True), if unat e < unat (ig_retry_delay g) then (False, False) else (ok, True)])"
proof -
  have "fst (ig_calls ((t, True) # cs) g) = (True, True) # replicate (length cs) (True, False)"
    using assms ig_calls_initialized [of "g\<lparr>ig_state := Initialized\<rparr>" cs]
    by (simp add: ig_ensureInitialized_def)
  moreover have "fst (ig_calls [(t, False), (t + e, ok)] g) =
       [(False, True), if unat e < unat (ig_retry_delay g) then (False, False) else (ok, True)]"
    if "unat e < 2 ^ 31" for e ok
    using assms before32_interval [OF assms(2) that, of t] by (simp add: ig_ensureInitialized_def)
  ultimately show ?thesis using ig_calls_unconfigured [of "ig_init d" cs] by (simp add: ig_init_def)
qed

theorem init_gate_discipline_witness:
  "fst (ig_calls [(0xFFFFFF00, False), (0xFFFFFF00 + 500, True)] (ig_configure (ig_init 1000))) =
     [(False, True), (False, False)]"
proof -
  have g: "ig_state (ig_configure (ig_init 1000)) = Ready" "ig_retry_delay (ig_configure (ig_init 1000)) = 1000"
    by (simp_all add: ig_configure_def ig_init_def)
  have "unat (ig_retry_delay (ig_configure (ig_init 1000))) < 2 ^ 31" "unat (500 :: u32) < 2 ^ 31" by (simp_all add: g)
  then have "fst (ig_calls [(0xFFFFFF00, False), (0xFFFFFF00 + 500, True)] (ig_configure (ig_init 1000))) =
      [(False, True), if unat (500 :: u32) < unat (1000 :: u32) then (False, False) else (True, True)]"
    using init_gate_discipline [OF g(1), of "[]" 0 "0xFFFFFF00"] unfolding g(2) by blast
  then show ?thesis by (simp del: ig_calls.simps)
qed

end
