(* ===== verification/Base64.thy ===== *)
theory Base64
  imports SigPrelude
begin

text \<open>
  The Base64 decoders: \<open>decodeBase64Strict\<close> (\<open>mesh/strict_base64.h\<close>) and \<open>channel_psk_decode_16\<close>
  (\<open>mesh/channel_validation.cpp\<close>). The specification is an encoder; the decoders are shown to accept
  exactly its images, so no two texts stand for the same key.
\<close>

section \<open>The strict decoder\<close>

definition base64Value :: "byte \<Rightarrow> int" where
  "base64Value c =
     (if c \<ge> 0x41 \<and> c \<le> 0x5A then uint c - 0x41
      else if c \<ge> 0x61 \<and> c \<le> 0x7A then uint c - 0x61 + 26
      else if c \<ge> 0x30 \<and> c \<le> 0x39 then uint c - 0x30 + 52
      else if c = 0x2B then 62
      else if c = 0x2F then 63
      else -1)"

text \<open>One group of four characters: the bytes it stands for, or \<open>None\<close> where the source rejects it.\<close>

definition b64_group :: "bool \<Rightarrow> byte \<Rightarrow> byte \<Rightarrow> byte \<Rightarrow> byte \<Rightarrow> byte list option" where
  "b64_group final c0 c1 c2 c3 =
     (let pad2 = (c2 = 0x3D); pad3 = (c3 = 0x3D) in
      if \<not> final \<and> (pad2 \<or> pad3) then None
      else if pad2 \<and> \<not> pad3 then None
      else
        let a = base64Value c0; b = base64Value c1;
            c = (if pad2 then 0 else base64Value c2);
            d = (if pad3 then 0 else base64Value c3)
        in if a < 0 \<or> b < 0 \<or> c < 0 \<or> d < 0 then None
           else if pad2 \<and> and b 0x0F \<noteq> 0 then None
           else if \<not> pad2 \<and> pad3 \<and> and c 0x03 \<noteq> 0 then None
           else
             let produced = (if pad2 then 1 else if pad3 then 2 else 3) :: nat;
                 word = or (or (or (push_bit 18 (word_of_int a)) (push_bit 12 (word_of_int b)))
                          (push_bit 6 (word_of_int c))) (word_of_int d) :: u32
             in Some (take produced [ucast (drop_bit 16 word), ucast (drop_bit 8 word), ucast word]))"

function b64_loop :: "byte list \<Rightarrow> nat \<Rightarrow> nat \<Rightarrow> nat \<Rightarrow> byte list \<Rightarrow> nat \<Rightarrow> bool \<times> byte list \<times> nat" where
  "b64_loop input input_len output_cap offset output output_len =
     (if offset < input_len
      then case b64_group (offset + 4 = input_len) (input ! offset) (input ! (offset + 1))
                 (input ! (offset + 2)) (input ! (offset + 3)) of
             None \<Rightarrow> (False, output, output_len)
           | Some ds \<Rightarrow>
               if output_len + length ds > output_cap then (False, output, output_len)
               else b64_loop input input_len output_cap (offset + 4)
                      (overwrite output output_len ds)
                      (output_len + length ds)
      else (True, output, output_len))"
  by pat_completeness auto
termination
  by (relation "measure (\<lambda>(input, input_len, output_cap, offset, output, output_len). input_len - offset)") auto

declare b64_loop.simps [simp del]

definition decodeBase64Strict :: "byte list option \<Rightarrow> nat \<Rightarrow> byte list option \<Rightarrow> nat \<Rightarrow> bool \<times> byte list option \<times> nat" where
  "decodeBase64Strict input input_len output output_cap =
     (case (input, output) of
        (Some s, Some d) \<Rightarrow>
          if input_len = 0 \<or> input_len mod 4 \<noteq> 0 then (False, output, 0)
          else (case b64_loop s input_len output_cap 0 d 0 of (ok, d', n) \<Rightarrow> (ok, Some d', n))
      | _ \<Rightarrow> (False, output, 0))"

subsection \<open>Specification: the encoder\<close>

definition B64 :: "byte list" where
  "B64 = bytes_of ''ABCDEFGHIJKLMNOPQRSTUVWXYZabcdefghijklmnopqrstuvwxyz0123456789+/''"

definition enc3 :: "byte \<Rightarrow> byte \<Rightarrow> byte \<Rightarrow> byte list" where
  "enc3 x y z = [B64 ! (unat x div 4), B64 ! (unat x mod 4 * 16 + unat y div 16),
     B64 ! (unat y mod 16 * 4 + unat z div 64), B64 ! (unat z mod 64)]"

fun base64_encode :: "byte list \<Rightarrow> byte list" where
  "base64_encode [] = []"
| "base64_encode [x] = take 2 (enc3 x 0 0) @ [0x3D, 0x3D]"
| "base64_encode [x, y] = take 3 (enc3 x y 0) @ [0x3D]"
| "base64_encode (x # y # z # bs) = enc3 x y z @ base64_encode bs"

lemma B64_list [code]: "B64 = [0x41, 0x42, 0x43, 0x44, 0x45, 0x46, 0x47, 0x48, 0x49, 0x4A, 0x4B, 0x4C, 0x4D, 0x4E, 0x4F,
   0x50, 0x51, 0x52, 0x53, 0x54, 0x55, 0x56, 0x57, 0x58, 0x59, 0x5A, 0x61, 0x62, 0x63, 0x64, 0x65, 0x66, 0x67, 0x68,
   0x69, 0x6A, 0x6B, 0x6C, 0x6D, 0x6E, 0x6F, 0x70, 0x71, 0x72, 0x73, 0x74, 0x75, 0x76, 0x77, 0x78, 0x79, 0x7A, 0x30,
   0x31, 0x32, 0x33, 0x34, 0x35, 0x36, 0x37, 0x38, 0x39, 0x2B, 0x2F]"
  by code_simp

lemma length_B64 [simp]: "length B64 = 64"
  by (simp add: B64_list)

lemma base64Value_B64_list: "map base64Value B64 = map int [0..<64]"
  by code_simp

lemma base64Value_B64: "n < 64 \<Longrightarrow> base64Value (B64 ! n) = int n"
  using arg_cong [OF base64Value_B64_list, of "\<lambda>xs. xs ! n"] by simp

lemma B64_unat: "map unat B64 = [65..<91] @ [97..<123] @ [48..<58] @ [43, 47]"
  by code_simp

lemma base64Value_dom: "0 \<le> base64Value c \<Longrightarrow> c \<in> set B64"
proof -
  assume "0 \<le> base64Value c"
  then have "unat c \<in> {65..<91} \<union> {97..<123} \<union> {48..<58} \<union> {43, 47}"
    by (auto simp: base64Value_def word_le_nat_alt split: if_splits)
  also have "\<dots> = unat ` set B64"
    using arg_cong [OF B64_unat, of set] by (simp only: set_map set_append set_upt) auto
  finally have "unat c \<in> unat ` set B64" .
  then show ?thesis by (auto simp: word_unat_eq_iff [symmetric])
qed

lemma base64Value_range:
  assumes "0 \<le> base64Value c"
  obtains v where "v < 64" and "base64Value c = int v" and "c = B64 ! v"
proof -
  have "c \<in> set B64" using base64Value_dom assms by simp
  then obtain v where "v < 64" "c = B64 ! v" by (auto simp: in_set_conv_nth)
  then show thesis using that base64Value_B64 by metis
qed

lemma B64_not_pad: "v < 64 \<Longrightarrow> B64 ! v \<noteq> 0x3D"
  using base64Value_B64 [of v] by (auto simp: base64Value_def)

subsection \<open>One group\<close>

lemma or_disjoint: "0 \<le> l \<Longrightarrow> l < 2 ^ n \<Longrightarrow> or (push_bit n h) l = h * 2 ^ n + (l :: int)"
proof -
  assume "0 \<le> l" "l < 2 ^ n"
  then have "take_bit n l = l" by (simp add: take_bit_int_eq_self)
  then have "or (push_bit n h) l = concat_bit n l h" by (simp add: concat_bit_def or.commute)
  also have "\<dots> = h * 2 ^ n + l" using \<open>take_bit n l = l\<close> by (simp add: concat_bit_eq push_bit_eq_mult)
  finally show ?thesis .
qed

lemma group_word:
  assumes "a < 64" "b < 64" "c < 64" "d < 64"
  shows "or (or (or (push_bit 18 (word_of_int (int a))) (push_bit 12 (word_of_int (int b))))
       (push_bit 6 (word_of_int (int c)))) (word_of_int (int d)) =
     (word_of_nat (a * 262144 + b * 4096 + c * 64 + d) :: u32)"
proof -
  let ?i = "or (push_bit 18 (int a)) (or (push_bit 12 (int b)) (or (push_bit 6 (int c)) (int d)))"
  have "or (push_bit 6 (int c)) (int d) = int (c * 64 + d)"
    using assms by (subst or_disjoint) auto
  then have "or (push_bit 12 (int b)) (or (push_bit 6 (int c)) (int d)) = int (b * 4096 + c * 64 + d)"
    using assms by (simp only:) (subst or_disjoint, auto)
  then have i: "?i = int (a * 262144 + b * 4096 + c * 64 + d)"
    using assms by (simp only:) (subst or_disjoint, auto)
  have "or (or (or (push_bit 18 (word_of_int (int a))) (push_bit 12 (word_of_int (int b))))
       (push_bit 6 (word_of_int (int c)))) (word_of_int (int d)) = (word_of_int ?i :: u32)"
    by (simp only: of_int_or_eq of_int_push_bit or.assoc)
  then show ?thesis unfolding i by simp
qed

lemma group_bytes:
  assumes "n < 16777216"
  shows "ucast (drop_bit 16 (word_of_nat n :: u32)) = (word_of_nat (n div 65536) :: byte)"
    and "ucast (drop_bit 8 (word_of_nat n :: u32)) = (word_of_nat (n div 256) :: byte)"
    and "ucast (word_of_nat n :: u32) = (word_of_nat n :: byte)"
  unfolding word_unat_eq_iff unsigned_ucast_eq unsigned_drop_bit_eq
  using assms by (simp_all add: unat_of_nat take_bit_eq_mod drop_bit_eq_div)

definition join3 :: "nat \<Rightarrow> nat \<Rightarrow> nat \<Rightarrow> nat \<Rightarrow> byte list" where
  "join3 a b c d = map word_of_nat [a * 4 + b div 16, b mod 16 * 16 + c div 4, c mod 4 * 64 + d]"

lemma group_join:
  assumes "a < 64" "b < 64" "c < 64" "d < 64"
  shows "[word_of_nat ((a * 262144 + b * 4096 + c * 64 + d) div 65536),
     word_of_nat ((a * 262144 + b * 4096 + c * 64 + d) div 256),
     word_of_nat (a * 262144 + b * 4096 + c * 64 + d)] = (join3 a b c d :: byte list)"
proof -
  obtain q r where b: "b = 16 * q + r" "r < 16" "q < 4"
    using assms(2) by (intro that [of "b div 16" "b mod 16"]) simp_all
  obtain s t where c: "c = 4 * s + t" "t < 4" "s < 16"
    using assms(3) by (intro that [of "c div 4" "c mod 4"]) simp_all
  have dm: "b div 16 = q" "b mod 16 = r" "c div 4 = s" "c mod 4 = t" using b c by simp_all
  have 1: "(a * 262144 + b * 4096 + c * 64 + d) div 65536 = a * 4 + q"
    by (rule div_nat_eqI) (use assms b c in simp_all)
  have 2: "(a * 262144 + b * 4096 + c * 64 + d) div 256 = a * 1024 + b * 16 + s"
    by (rule div_nat_eqI) (use assms b c in simp_all)
  have 3: "(a * 1024 + b * 16 + s) mod 256 = r * 16 + s"
  proof -
    have "a * 1024 + b * 16 + s = r * 16 + s + 256 * (a * 4 + q)" using b by simp
    then show ?thesis using b c by (simp only: mod_mult_self2) simp
  qed
  have 4: "(a * 262144 + b * 4096 + c * 64 + d) mod 256 = t * 64 + d"
  proof -
    have "a * 262144 + b * 4096 + c * 64 + d = t * 64 + d + 256 * (a * 1024 + b * 16 + s)" using c by simp
    then show ?thesis using c assms by (simp only: mod_mult_self2) simp
  qed
  have cong: "(word_of_nat x :: byte) = word_of_nat y" if "x mod 256 = y" for x y
    using that by (simp add: word_of_nat_eq_iff take_bit_eq_mod)
  show ?thesis unfolding join3_def dm 1 2 using cong [OF 3] cong [OF 4] by simp
qed

lemma enc3_join3:
  assumes "a < 64" "b < 64" "c < 64" "d < 64"
  shows "\<exists>x y z. join3 a b c d = [x, y, z] \<and> enc3 x y z = map ((!) B64) [a, b, c, d] \<and>
    (c mod 4 = 0 \<and> d = 0 \<longrightarrow> z = 0) \<and> (b mod 16 = 0 \<and> c = 0 \<longrightarrow> y = 0)"
proof -
  obtain q r where b: "b = 16 * q + r" "r < 16" "q < 4"
    using assms(2) by (intro that [of "b div 16" "b mod 16"]) simp_all
  obtain s t where c: "c = 4 * s + t" "t < 4" "s < 16"
    using assms(3) by (intro that [of "c div 4" "c mod 4"]) simp_all
  have dm: "b div 16 = q" "b mod 16 = r" "c div 4 = s" "c mod 4 = t" using b c by simp_all
  let ?x = "word_of_nat (a * 4 + q) :: byte" and ?y = "word_of_nat (r * 16 + s) :: byte"
    and ?z = "word_of_nat (t * 64 + d) :: byte"
  have u: "unat ?x = a * 4 + q" "unat ?y = r * 16 + s" "unat ?z = t * 64 + d"
    by (rule unat_of_nat_byte, use assms b c in linarith)+
  have "enc3 ?x ?y ?z = map ((!) B64) [a, b, c, d]"
    unfolding enc3_def u using b c assms by (simp add: ac_simps)
  then show ?thesis using c by (intro exI [of _ ?x] exI [of _ ?y] exI [of _ ?z]) (simp add: join3_def dm)
qed

lemma join3_enc3:
  fixes x y z :: byte
  obtains a b c d where "a < 64" "b < 64" "c < 64" "d < 64" and "join3 a b c d = [x, y, z]"
    and "enc3 x y z = map ((!) B64) [a, b, c, d]"
    and "z = 0 \<Longrightarrow> c mod 4 = 0 \<and> d = 0" and "y = 0 \<Longrightarrow> z = 0 \<Longrightarrow> b mod 16 = 0 \<and> c = 0"
proof -
  let ?a = "unat x div 4" and ?b = "unat x mod 4 * 16 + unat y div 16"
    and ?c = "unat y mod 16 * 4 + unat z div 64" and ?d = "unat z mod 64"
  have l: "unat x div 4 < 64" "unat y div 16 < 16" "unat z div 64 < 4" "unat x mod 4 < 4" "unat y mod 16 < 16"
    using less_mult_imp_div_less [of "unat x" 64 4] less_mult_imp_div_less [of "unat y" 16 16]
      less_mult_imp_div_less [of "unat z" 4 64] by simp_all
  have "?b div 16 = unat x mod 4" "?b mod 16 = unat y div 16" "?c div 4 = unat y mod 16" "?c mod 4 = unat z div 64"
    using l by simp_all
  moreover have "unat x div 4 * 4 + unat x mod 4 = unat x" "unat y div 16 * 16 + unat y mod 16 = unat y"
    "unat z div 64 * 64 + unat z mod 64 = unat z" by simp_all
  ultimately have "join3 ?a ?b ?c ?d = [x, y, z]" by (simp add: join3_def)
  moreover have "?a < 64" "?b < 64" "?c < 64" "?d < 64" using l by simp_all
  ultimately show thesis using that [of ?a ?b ?c ?d] l by (simp add: enc3_def)
qed

lemma and_low: "and k 15 = k mod 16" "and k 3 = k mod (4 :: int)"
  using take_bit_eq_mask [of 4 k] take_bit_eq_mask [of 2 k]
  by (simp_all add: mask_eq_exp_minus_1 take_bit_eq_mod)

lemma b64_group_B64:
  assumes "a < 64" "b < 64" "c < 64" "d < 64"
  shows "b64_group final (B64 ! a) (B64 ! b) (B64 ! c) (B64 ! d) = Some (join3 a b c d)"
    and "b64_group final (B64 ! a) (B64 ! b) (B64 ! c) 0x3D =
      (if final \<and> c mod 4 = 0 then Some (take 2 (join3 a b c 0)) else None)"
    and "b64_group final (B64 ! a) (B64 ! b) 0x3D 0x3D =
      (if final \<and> b mod 16 = 0 then Some (take 1 (join3 a b 0 0)) else None)"
    and "b64_group final e f 0x3D (B64 ! d) = None"
proof -
  have z: "int m mod 4 = 0 \<longleftrightarrow> m mod 4 = 0" "int m mod 16 = 0 \<longleftrightarrow> m mod 16 = 0" for m
    by (metis of_nat_eq_0_iff of_nat_mod of_nat_numeral)+
  have w: "take k [ucast (drop_bit 16 (word_of_nat n :: u32)), ucast (drop_bit 8 (word_of_nat n :: u32)),
      ucast (word_of_nat n :: u32)] = take k (join3 a b c' d')"
    if "n = a * 262144 + b * 4096 + c' * 64 + d'" "c' < 64" "d' < 64" for n c' d' k
    using that assms group_bytes [of n] group_join [of a b c' d'] by simp
  note simps = b64_group_def Let_def B64_not_pad base64Value_B64 and_low z assms
  show "b64_group final (B64 ! a) (B64 ! b) (B64 ! c) (B64 ! d) = Some (join3 a b c d)"
    using group_word [OF assms] w [of _ c d 3] assms by (simp add: simps join3_def)
  show "b64_group final (B64 ! a) (B64 ! b) (B64 ! c) 0x3D =
      (if final \<and> c mod 4 = 0 then Some (take 2 (join3 a b c 0)) else None)"
    using group_word [OF assms(1-3), of 0] w [of _ c 0 2] assms by (simp add: simps join3_def)
  show "b64_group final (B64 ! a) (B64 ! b) 0x3D 0x3D =
      (if final \<and> b mod 16 = 0 then Some (take 1 (join3 a b 0 0)) else None)"
    using group_word [OF assms(1,2), of 0 0] w [of _ 0 0 1] assms by (simp add: simps join3_def)
  show "b64_group final e f 0x3D (B64 ! d) = None" by (simp add: simps)
qed

lemma b64_group_sound:
  assumes "b64_group final c0 c1 c2 c3 = Some ds"
  shows "ds \<noteq> [] \<and> length ds \<le> 3 \<and> (final \<or> length ds = 3) \<and> base64_encode ds = [c0, c1, c2, c3]"
proof -
  have v: "0 \<le> base64Value c0" "0 \<le> base64Value c1" "c2 = 0x3D \<or> 0 \<le> base64Value c2" "c3 = 0x3D \<or> 0 \<le> base64Value c3"
    using assms by (auto simp: b64_group_def Let_def split: if_splits)
  obtain a where a: "a < 64" "c0 = B64 ! a" using base64Value_range [OF v(1)] by blast
  obtain b where b: "b < 64" "c1 = B64 ! b" using base64Value_range [OF v(2)] by blast
  consider (p2) "c2 = 0x3D" "c3 = 0x3D" | (p2') d where "c2 = 0x3D" "d < 64" "c3 = B64 ! d"
    | (p3) c where "c < 64" "c2 = B64 ! c" "c3 = 0x3D" | (np) c d where "c < 64" "c2 = B64 ! c" "d < 64" "c3 = B64 ! d"
    using v(3,4) base64Value_range [of c2] base64Value_range [of c3] by metis
  then show ?thesis
  proof cases
    case p2
    obtain x y z where j: "join3 a b 0 0 = [x, y, z]" "enc3 x y z = map ((!) B64) [a, b, 0, 0]"
      "b mod 16 = 0 \<Longrightarrow> y = 0" "z = 0"
      using enc3_join3 [OF a(1) b(1), of 0 0] by auto
    have "final" "b mod 16 = 0" "ds = [x]"
      using assms b64_group_B64(3) [OF a(1) b(1), of 0 0 final] a b p2 j by (auto split: if_splits)
    then show ?thesis using j a b p2 by simp
  next
    case p2'
    then show ?thesis using assms b64_group_B64(4) [OF a(1) b(1) a(1) p2'(2), of final c0 c1] by simp
  next
    case (p3 c)
    obtain x y z where j: "join3 a b c 0 = [x, y, z]" "enc3 x y z = map ((!) B64) [a, b, c, 0]"
      "c mod 4 = 0 \<Longrightarrow> z = 0"
      using enc3_join3 [OF a(1) b(1) p3(1), of 0] by auto
    have "final" "c mod 4 = 0" "ds = [x, y]"
      using assms b64_group_B64(2) [OF a(1) b(1) p3(1) a(1), of final] a b p3 j by (auto split: if_splits)
    then show ?thesis using j a b p3 by simp
  next
    case (np c d)
    obtain x y z where j: "join3 a b c d = [x, y, z]" "enc3 x y z = map ((!) B64) [a, b, c, d]"
      using enc3_join3 [OF a(1) b(1) np(1) np(3)] by metis
    have "ds = [x, y, z]" using assms b64_group_B64(1) [OF a(1) b(1) np(1) np(3), of final] a b np j by simp
    then show ?thesis using j a b np by simp
  qed
qed

lemma b64_group_complete:
  "\<exists>c0 c1 c2 c3. enc3 x y z = [c0, c1, c2, c3] \<and> b64_group final c0 c1 c2 c3 = Some [x, y, z]"
  "\<exists>c0 c1 c2 c3. base64_encode [x, y] = [c0, c1, c2, c3] \<and> b64_group True c0 c1 c2 c3 = Some [x, y]"
  "\<exists>c0 c1 c2 c3. base64_encode [x] = [c0, c1, c2, c3] \<and> b64_group True c0 c1 c2 c3 = Some [x]"
proof -
  obtain a b c d where j: "a < 64" "b < 64" "c < 64" "d < 64" "join3 a b c d = [x, y, z]"
    "enc3 x y z = map ((!) B64) [a, b, c, d]" using join3_enc3 [of x y z] by metis
  then show "\<exists>c0 c1 c2 c3. enc3 x y z = [c0, c1, c2, c3] \<and> b64_group final c0 c1 c2 c3 = Some [x, y, z]"
    using b64_group_B64(1) [OF j(1-4), of final] by simp
  obtain a b c d where j: "a < 64" "b < 64" "c < 64" "d < 64" "join3 a b c d = [x, y, 0]"
    "enc3 x y 0 = map ((!) B64) [a, b, c, d]" "c mod 4 = 0 \<and> d = 0" using join3_enc3 [of x y 0] by metis
  then show "\<exists>c0 c1 c2 c3. base64_encode [x, y] = [c0, c1, c2, c3] \<and> b64_group True c0 c1 c2 c3 = Some [x, y]"
    using b64_group_B64(2) [OF j(1-4), of True] by simp
  obtain a b c d where j: "a < 64" "b < 64" "c < 64" "d < 64" "join3 a b c d = [x, 0, 0]"
    "enc3 x 0 0 = map ((!) B64) [a, b, c, d]" "d = 0" "b mod 16 = 0 \<and> c = 0" using join3_enc3 [of x 0 0] by metis
  then show "\<exists>c0 c1 c2 c3. base64_encode [x] = [c0, c1, c2, c3] \<and> b64_group True c0 c1 c2 c3 = Some [x]"
    using b64_group_B64(3) [OF j(1-4), of True] by simp
qed

subsection \<open>The loop\<close>

lemma length_enc3 [simp]: "length (enc3 x y z) = 4"
  by (simp add: enc3_def)

lemma length_base64_encode: "length (base64_encode ds) mod 4 = 0"
  by (induction ds rule: base64_encode.induct) (auto simp: mod_Suc)

lemma base64_encode_append: "3 dvd length ds \<Longrightarrow> base64_encode (ds @ es) = base64_encode ds @ base64_encode es"
proof (induction ds rule: base64_encode.induct)
  case (4 x y z bs)
  then have "3 dvd length bs" by simp presburger
  then show ?case using 4 by simp
qed (auto dest: dvd_imp_le)

lemma drop_group:
  assumes "off + 4 \<le> length s"
  shows "drop off s = [s ! off, s ! (off + 1), s ! (off + 2), s ! (off + 3)] @ drop (off + 4) s"
  using assms by (simp add: Cons_nth_drop_Suc [symmetric] numeral_eq_Suc)

lemma b64_loop_complete:
  assumes "length s = off + length (base64_encode ds)" and "drop off s = base64_encode ds"
    and "ol + length ds \<le> cap" and "cap \<le> length out"
  shows "b64_loop s (length s) cap off out ol = (True, overwrite out ol ds, ol + length ds)"
  using assms
proof (induction ds arbitrary: off out ol rule: base64_encode.induct)
  case 1
  then show ?case by (simp add: b64_loop.simps)
next
  case (2 x)
  obtain c0 c1 c2 c3 where g: "base64_encode [x] = [c0, c1, c2, c3]" "b64_group True c0 c1 c2 c3 = Some [x]"
    using b64_group_complete(3) by blast
  have "drop off s = [s ! off, s ! (off + 1), s ! (off + 2), s ! (off + 3)] @ drop (off + 4) s"
    using 2 g by (intro drop_group) simp
  then show ?case using 2 g by (simp add: b64_loop.simps [of s _ _ off] b64_loop.simps [of s _ _ "off + 4"])
next
  case (3 x y)
  obtain c0 c1 c2 c3 where g: "base64_encode [x, y] = [c0, c1, c2, c3]" "b64_group True c0 c1 c2 c3 = Some [x, y]"
    using b64_group_complete(2) by blast
  have "drop off s = [s ! off, s ! (off + 1), s ! (off + 2), s ! (off + 3)] @ drop (off + 4) s"
    using 3 g by (intro drop_group) simp
  then show ?case using 3 g by (simp add: b64_loop.simps [of s _ _ off] b64_loop.simps [of s _ _ "off + 4"])
next
  case (4 x y z bs)
  obtain c0 c1 c2 c3 where g: "enc3 x y z = [c0, c1, c2, c3]"
    "b64_group (off + 4 = length s) c0 c1 c2 c3 = Some [x, y, z]"
    using b64_group_complete(1) by blast
  have d: "drop off s = [s ! off, s ! (off + 1), s ! (off + 2), s ! (off + 3)] @ drop (off + 4) s"
    using 4(2) g by (intro drop_group) simp
  have "b64_loop s (length s) cap (off + 4) (overwrite out ol [x, y, z]) (ol + 3) =
      (True, overwrite (overwrite out ol [x, y, z]) (ol + 3) bs, ol + 3 + length bs)"
    using 4 d g by (intro 4(1)) auto
  also have "overwrite (overwrite out ol [x, y, z]) (ol + 3) bs = overwrite out ol (x # y # z # bs)"
    using 4(4,5) overwrite_overwrite [of ol "[x, y, z]" bs out] by (simp add: numeral_3_eq_3)
  finally show ?case using 4(2-) d g by (simp add: b64_loop.simps [of s _ _ off] numeral_3_eq_3)
qed

lemma b64_loop_sound:
  assumes "b64_loop s n cap off out ol = (True, out', k)" and "n \<le> length s" and "off \<le> n"
    and "4 dvd n - off" and "ol \<le> cap" and "cap \<le> length out"
  shows "\<exists>ds. drop off (take n s) = base64_encode ds \<and> k = ol + length ds \<and> k \<le> cap \<and>
    out' = overwrite out ol ds"
  using assms
proof (induction s n cap off out ol rule: b64_loop.induct)
  case (1 s n cap off out ol)
  show ?case
  proof (cases "off < n")
    case False
    then show ?thesis using 1(2-) by (intro exI [of _ "[]"]) (simp add: b64_loop.simps [of s])
  next
    case True
    let ?c = "\<lambda>i. s ! (off + i)"
    have off4: "off + 4 \<le> n" using True dvd_imp_le [OF 1(5)] by simp
    obtain es where g: "b64_group (off + 4 = n) (?c 0) (?c 1) (?c 2) (?c 3) = Some es" and fits: "ol + length es \<le> cap"
      and rest: "b64_loop s n cap (off + 4) (overwrite out ol es) (ol + length es) = (True, out', k)"
      using 1(2) True by (auto simp: b64_loop.simps [of s n cap off] split: option.splits if_splits)
    have enc: "base64_encode es = [?c 0, ?c 1, ?c 2, ?c 3]" and l3: "off + 4 = n \<or> length es = 3"
      using b64_group_sound [OF g] by auto
    have "4 dvd n - (off + 4)" using 1(5) off4 by (simp add: dvd_diff_nat flip: diff_diff_left)
    then obtain ds where ds: "drop (off + 4) (take n s) = base64_encode ds" "k = ol + length es + length ds" "k \<le> cap"
      "out' = overwrite (overwrite out ol es) (ol + length es) ds"
      using 1(1) [OF True _ _ rest] g fits 1(3-) off4 by auto
    have "drop off (take n s) = [?c 0, ?c 1, ?c 2, ?c 3] @ drop (off + 4) (take n s)"
      using drop_group [of off "take n s"] off4 1(3) by simp
    also have "\<dots> = base64_encode (es @ ds)"
    proof (cases "length es = 3")
      case True
      then show ?thesis using ds(1) enc base64_encode_append [of es ds] by simp
    next
      case False
      then have "base64_encode ds = []" using ds(1) l3 by simp
      then have "ds = []" by (cases ds rule: base64_encode.cases) (auto simp: enc3_def)
      then show ?thesis using ds(1) enc by simp
    qed
    finally show ?thesis using ds(2-4) fits 1(6,7)
      by (intro exI [of _ "es @ ds"]) (simp add: overwrite_overwrite)
  qed
qed

section \<open>The 16-byte channel key decoder\<close>

function psk_emit :: "nat \<Rightarrow> u32 \<Rightarrow> byte list \<Rightarrow> nat \<Rightarrow> nat \<times> u32 \<times> byte list \<times> nat" where
  "psk_emit bit_count bits out written =
     (if bit_count \<ge> 8 \<and> written < 16
      then let n = bit_count - 8
           in psk_emit n (and bits (if n = 0 then 0 else push_bit n 1 - 1))
                (out[written := ucast (drop_bit n bits)]) (written + 1)
      else (bit_count, bits, out, written))"
  by pat_completeness auto
termination
  by (relation "measure (\<lambda>(bit_count, bits, out, written). bit_count)") auto

declare psk_emit.simps [simp del]

fun psk_loop :: "nat list \<Rightarrow> nat \<times> u32 \<times> byte list \<times> nat \<Rightarrow> nat \<times> u32 \<times> byte list \<times> nat" where
  "psk_loop [] st = st"
| "psk_loop (v # vs) (bit_count, bits, out, written) =
     psk_loop vs (psk_emit (bit_count + 6) (or (push_bit 6 bits) (word_of_nat v)) out written)"

definition channel_psk_decode_16 :: "byte list option \<Rightarrow> byte list option \<Rightarrow> bool \<times> byte list option" where
  "channel_psk_decode_16 encoded out =
     (case (encoded, out) of
        (Some s, Some d) \<Rightarrow>
          if length (cstr s) \<noteq> 24 \<or> s ! 22 \<noteq> 0x3D \<or> s ! 23 \<noteq> 0x3D then (False, out)
          else (case those (map (\<lambda>i. first_index ((=) (s ! i)) B64) [0..<22]) of
                  None \<Rightarrow> (False, out)
                | Some vs \<Rightarrow>
                    if and (vs ! 21) 0x0F \<noteq> 0 then (False, out)
                    else (case psk_loop vs (0, 0, d, 0) of (bit_count, bits, d', written) \<Rightarrow>
                            (written = 16 \<and> bit_count = 4 \<and> bits = 0, Some d')))
      | _ \<Rightarrow> (False, out))"

lemma psk_emit_short: "n < 8 \<Longrightarrow> psk_emit n bits out w = (n, bits, out, w)"
  by (simp add: psk_emit.simps)

lemma word_low_bits:
  assumes "n < 8"
  shows "and (word_of_nat x :: u32) (if n = 0 then 0 else push_bit n 1 - 1) = word_of_nat (x mod 2 ^ n)"
proof -
  have "(if n = 0 then 0 else push_bit n 1 - 1) = (mask n :: u32)"
    by (simp add: mask_eq_exp_minus_1 push_bit_eq_mult)
  then have "and (word_of_nat x :: u32) (if n = 0 then 0 else push_bit n 1 - 1) = take_bit n (word_of_nat x)"
    by (simp add: take_bit_eq_mask)
  also have "\<dots> = word_of_nat (take_bit n x)" by (simp add: take_bit_of_nat)
  finally show ?thesis by (simp add: take_bit_eq_mod)
qed

lemma psk_emit_one:
  assumes "n < 8" and "x < 2 ^ 16" and "w < 16"
  shows "psk_emit (n + 8) (word_of_nat x) out w =
    (n, word_of_nat (x mod 2 ^ n), out[w := word_of_nat (x div 2 ^ n)], w + 1)"
proof -
  have "ucast (drop_bit n (word_of_nat x :: u32)) = (word_of_nat (x div 2 ^ n) :: byte)"
    unfolding word_unat_eq_iff unsigned_ucast_eq unsigned_drop_bit_eq
    using assms by (simp add: unat_of_nat take_bit_eq_mod drop_bit_eq_div)
  then show ?thesis
    using assms word_low_bits [OF assms(1), of x] psk_emit_short [OF assms(1)]
    by (simp add: psk_emit.simps [of "n + 8"])
qed

lemma psk_shift:
  assumes "v < 64" and "x < 256"
  shows "or (push_bit 6 (word_of_nat x)) (word_of_nat v) = (word_of_nat (x * 64 + v) :: u32)"
proof -
  have "or (push_bit 6 (int x)) (int v) = int (x * 64 + v)" using assms by (subst or_disjoint) auto
  then have "(word_of_int (or (push_bit 6 (int x)) (int v)) :: u32) = word_of_nat (x * 64 + v)"
    by (simp only: of_int_of_nat_eq)
  then show ?thesis by (simp only: of_int_or_eq of_int_push_bit of_int_of_nat_eq)
qed

lemma split_digits:
  "(x * 64 + y) mod 2 ^ 4 = y mod 16" "(x * 64 + y) div 2 ^ 4 = x * 4 + y div 16"
  "(x * 64 + y) mod 2 ^ 2 = y mod 4" "(x * 64 + y) div 2 ^ 2 = x * 16 + y div (4 :: nat)"
proof -
  have "x * 64 + y = y + 16 * (x * 4)" "x * 64 + y = y + 4 * (x * 16)" "(2 :: nat) ^ 4 = 16" "(2 :: nat) ^ 2 = 4" by simp_all
  then show "(x * 64 + y) mod 2 ^ 4 = y mod 16" "(x * 64 + y) div 2 ^ 4 = x * 4 + y div 16"
    "(x * 64 + y) mod 2 ^ 2 = y mod 4" "(x * 64 + y) div 2 ^ 2 = x * 16 + y div 4"
    by (metis mod_mult_self2, metis add.commute div_mult_self2 zero_neq_numeral,
        metis mod_mult_self2, metis add.commute div_mult_self2 zero_neq_numeral)
qed

lemma psk_loop_head:
  assumes "a < 64" "b < 64" and "w < 16"
  shows "psk_loop (a # b # vs) (0, 0, out, w) =
    psk_loop vs (4, word_of_nat (b mod 16), out[w := word_of_nat (a * 4 + b div 16)], w + 1)"
proof -
  have 1: "psk_emit (0 + 6) (or (push_bit 6 0) (word_of_nat a)) out w = (6, word_of_nat a, out, w)"
    by (simp add: psk_emit_short)
  have "or (push_bit 6 (word_of_nat a)) (word_of_nat b) = (word_of_nat (a * 64 + b) :: u32)"
    using assms by (intro psk_shift) simp_all
  moreover have "(a * 64 + b) mod 2 ^ 4 = b mod 16" "(a * 64 + b) div 2 ^ 4 = a * 4 + b div 16"
    by (rule split_digits)+
  moreover have "a * 64 + b < 2 ^ 16" using assms by simp
  ultimately have 2: "psk_emit (6 + 6) (or (push_bit 6 (word_of_nat a)) (word_of_nat b)) out w =
      (4, word_of_nat (b mod 16), out[w := word_of_nat (a * 4 + b div 16)], w + 1)"
    using psk_emit_one [of 4 "a * 64 + b" w out] assms(3) by (simp only:) simp
  show ?thesis by (simp only: psk_loop.simps 1 2)
qed

lemma psk_loop_group:
  assumes "a < 64" "b < 64" "c < 64" "d < 64" and "w + 3 \<le> 16" and "length out = 16"
  shows "psk_loop (a # b # c # d # vs) (0, 0, out, w) = psk_loop vs (0, 0, overwrite out w (join3 a b c d), w + 3)"
proof -
  let ?x = "b mod 16 * 64 + c" and ?y = "c mod 4 * 64 + d"
  have or1: "or (push_bit 6 (word_of_nat (b mod 16))) (word_of_nat c) = (word_of_nat ?x :: u32)"
    using assms by (intro psk_shift) simp_all
  have or2: "or (push_bit 6 (word_of_nat (c mod 4))) (word_of_nat d) = (word_of_nat ?y :: u32)"
    using assms by (intro psk_shift) simp_all
  have lt: "?x < 2 ^ 16" "?y < 2 ^ 16" using assms mod_less_divisor [of 16 b] mod_less_divisor [of 4 c] by simp_all
  have x: "?x mod 2 ^ 2 = c mod 4" "?x div 2 ^ 2 = b mod 16 * 16 + c div 4" by (rule split_digits)+
  have 1: "psk_emit (4 + 6) (or (push_bit 6 (word_of_nat (b mod 16))) (word_of_nat c)) o1 (w + 1) =
      (2, word_of_nat (c mod 4), o1[w + 1 := word_of_nat (b mod 16 * 16 + c div 4)], w + 1 + 1)" for o1
    using psk_emit_one [OF _ lt(1), of 2 "w + 1" o1] assms(5) unfolding or1 x by simp
  have 2: "psk_emit (2 + 6) (or (push_bit 6 (word_of_nat (c mod 4))) (word_of_nat d)) o1 (w + 1 + 1) =
      (0, 0, o1[w + 1 + 1 := word_of_nat ?y], w + 1 + 1 + 1)" for o1
    using psk_emit_one [OF _ lt(2), of 0 "w + 1 + 1" o1] assms(5) unfolding or2 by simp
  have "w + 3 = w + 1 + 1 + 1" by simp
  moreover have "overwrite out w (join3 a b c d) = ((out[w := word_of_nat (a * 4 + b div 16)])
      [w + 1 := word_of_nat (b mod 16 * 16 + c div 4)])[w + 1 + 1 := word_of_nat ?y]"
    using assms(5,6) unfolding join3_def list.map
    by (intro nth_equalityI) (auto simp: overwrite_def nth_append nth_list_update nth_Cons'
        simp del: of_nat_add of_nat_mult intro!: arg_cong [where f = "(!) out"])
  moreover have "w < 16" using assms(5) by simp
  ultimately show ?thesis
    using psk_loop_head [OF assms(1,2), of w "c # d # vs" out] by (simp only: psk_loop.simps 1 2)
qed

lemma psk_values:
  "those (map (\<lambda>i. first_index ((=) (s ! i)) B64) is) = Some vs \<Longrightarrow>
     length vs = length is \<and> (\<forall>k < length is. vs ! k < 64 \<and> s ! (is ! k) = B64 ! (vs ! k))"
proof (induction "is" arbitrary: vs)
  case (Cons i "is")
  then obtain v us where v: "first_index ((=) (s ! i)) B64 = Some v" "vs = v # us"
    "those (map (\<lambda>i. first_index ((=) (s ! i)) B64) is) = Some us" by (auto split: option.splits)
  then show ?case using Cons first_index_Some [OF v(1)] by (auto simp: nth_Cons split: nat.splits)
qed simp

lemma those_Some: "(\<forall>x \<in> set xs. f x = Some (g x)) \<Longrightarrow> those (map f xs) = Some (map g xs)"
  by (induction xs) auto

lemma first_index_B64: "v < 64 \<Longrightarrow> first_index ((=) (B64 ! v)) B64 = Some v"
proof -
  assume v: "v < 64"
  then obtain k where k: "first_index ((=) (B64 ! v)) B64 = Some k"
    by (cases "first_index ((=) (B64 ! v)) B64") auto
  then have "k < 64" "B64 ! v = B64 ! k" using first_index_Some [OF k] by auto
  then have "int v = int k" using base64Value_B64 v by metis
  then show ?thesis using k by simp
qed

text \<open>The 22 digits of a 16-byte key, and the key they stand for.\<close>

definition psk_key :: "nat list \<Rightarrow> byte list" where
  "psk_key vs = concat (map (\<lambda>j. join3 (vs ! (4 * j)) (vs ! (4 * j + 1)) (vs ! (4 * j + 2)) (vs ! (4 * j + 3))) [0..<5])
     @ [word_of_nat (vs ! 20 * 4 + vs ! 21 div 16)]"

lemma length_join3 [simp]: "length (join3 a b c d) = 3"
  by (simp add: join3_def)

lemma list22:
  assumes "length vs = 22"
  shows "vs = map ((!) vs) [0, 1, 2, 3, 4, 5, 6, 7, 8, 9, 10, 11, 12, 13, 14, 15, 16, 17, 18, 19, 20, 21]"
proof -
  have "[0, 1, 2, 3, 4, 5, 6, 7, 8, 9, 10, 11, 12, 13, 14, 15, 16, 17, 18, 19, 20, 21] = [0..<22]" by code_simp
  then show ?thesis using map_nth [of vs] assms by simp
qed

lemma psk_loop_key:
  assumes "length vs = 22" and "\<forall>k < 22. vs ! k < 64" and "length out = 16"
  shows "psk_loop vs (0, 0, out, 0) = (4, word_of_nat (vs ! 21 mod 16), psk_key vs, 16)"
proof -
  have v: "vs ! k < 64" if "k < 22" for k using assms(2) that by simp
  let ?j = "\<lambda>k. join3 (vs ! k) (vs ! (k + 1)) (vs ! (k + 2)) (vs ! (k + 3))"
  define o5 where "o5 = overwrite (overwrite (overwrite (overwrite (overwrite out 0 (?j 0)) 3 (?j 4)) 6 (?j 8)) 9 (?j 12)) 12 (?j 16)"
  have "psk_loop vs (0, 0, out, 0) = psk_loop [vs ! 20, vs ! 21] (0, 0, o5, 15)"
    unfolding o5_def by (subst list22 [OF assms(1)]) (simp add: psk_loop_group v assms(3) numeral_2_eq_2 del: psk_loop.simps)
  also have "\<dots> = (4, word_of_nat (vs ! 21 mod 16), o5[15 := word_of_nat (vs ! 20 * 4 + vs ! 21 div 16)], 16)"
    using psk_loop_head [of "vs ! 20" "vs ! 21" 15 "[]" o5] v by simp
  also have "o5 = overwrite out 0 (?j 0 @ ?j 4 @ ?j 8 @ ?j 12 @ ?j 16)"
    using overwrite_overwrite [of 0 "?j 0" "?j 4" out] overwrite_overwrite [of 0 "?j 0 @ ?j 4" "?j 8" out]
      overwrite_overwrite [of 0 "?j 0 @ ?j 4 @ ?j 8" "?j 12" out]
      overwrite_overwrite [of 0 "?j 0 @ ?j 4 @ ?j 8 @ ?j 12" "?j 16" out] assms(3) by (simp add: o5_def)
  also have "(overwrite out 0 (?j 0 @ ?j 4 @ ?j 8 @ ?j 12 @ ?j 16))[15 := word_of_nat (vs ! 20 * 4 + vs ! 21 div 16)] =
      psk_key vs"
  proof -
    have "drop 15 out = [out ! 15]" using assms(3) by (intro nth_equalityI) auto
    then show ?thesis by (simp add: overwrite_0 psk_key_def upt_conv_Cons list_update_append numeral_2_eq_2)
  qed
  finally show ?thesis .
qed

section \<open>Exactness\<close>

lemma b64_loop_encode:
  assumes "s = base64_encode ds" and "length ds \<le> cap" and "cap \<le> length out"
  shows "b64_loop s (length s) cap 0 out 0 = (True, overwrite out 0 ds, length ds)"
  using b64_loop_complete [of s 0 ds 0 cap out] assms by simp

lemma base64_encode_inj: "base64_encode ds = base64_encode es \<longleftrightarrow> ds = es"
proof
  assume e: "base64_encode ds = base64_encode es"
  define n where "n = max (length ds) (length es)"
  have "b64_loop (base64_encode ds) (length (base64_encode ds)) n 0 (replicate n 0) 0 = (True, overwrite (replicate n 0) 0 ds, length ds)"
    "b64_loop (base64_encode ds) (length (base64_encode ds)) n 0 (replicate n 0) 0 = (True, overwrite (replicate n 0) 0 es, length es)"
    by (rule b64_loop_encode; simp add: n_def e)+
  then have "overwrite (replicate n 0) 0 ds = overwrite (replicate n 0) 0 es" "length ds = length es" by simp_all
  then show "ds = es" by (simp add: overwrite_0)
qed simp

lemma base64_encode_join3:
  assumes "a < 64" "b < 64" "c < 64" "d < 64"
  shows "base64_encode (join3 a b c d @ ds) = map ((!) B64) [a, b, c, d] @ base64_encode ds"
  using enc3_join3 [OF assms] by auto

lemma base64_encode_last:
  assumes "a < 64" "b < 64" "b mod 16 = 0"
  shows "base64_encode [word_of_nat (a * 4 + b div 16)] = map ((!) B64) [a, b] @ [0x3D, 0x3D]"
proof -
  obtain x y z where j: "join3 a b 0 0 = [x, y, z]" "enc3 x y z = map ((!) B64) [a, b, 0, 0]" "z = 0" "y = 0"
    using enc3_join3 [OF assms(1,2), of 0 0] assms(3) by auto
  then have "x = word_of_nat (a * 4 + b div 16)" unfolding join3_def by (simp del: of_nat_add of_nat_mult)
  then show ?thesis using j by (simp del: of_nat_add of_nat_mult)
qed

lemma base64_encode_psk_key:
  assumes "length vs = 22" and "\<forall>k < 22. vs ! k < 64" and "vs ! 21 mod 16 = 0"
  shows "base64_encode (psk_key vs) = map ((!) B64) vs @ [0x3D, 0x3D]"
proof -
  have v: "vs ! k < 64" if "k < 22" for k using assms(2) that by simp
  have "base64_encode (psk_key vs) = map ((!) B64) (map ((!) vs)
      [0, 1, 2, 3, 4, 5, 6, 7, 8, 9, 10, 11, 12, 13, 14, 15, 16, 17, 18, 19, 20, 21]) @ [0x3D, 0x3D]"
    by (simp add: psk_key_def upt_conv_Cons base64_encode_join3 base64_encode_last v assms(3)
        numeral_2_eq_2 del: of_nat_add of_nat_mult base64_encode.simps)
  then show ?thesis by (simp only: list22 [OF assms(1), symmetric])
qed

lemma base64_digits:
  "length ds = 3 * n + 1 \<Longrightarrow> \<exists>vs. length vs = 4 * n + 2 \<and> (\<forall>v \<in> set vs. v < 64) \<and> vs ! (4 * n + 1) mod 16 = 0 \<and>
     base64_encode ds = map ((!) B64) vs @ [0x3D, 0x3D]"
proof (induction n arbitrary: ds)
  case 0
  then obtain x where x: "ds = [x]" by (auto simp: length_Suc_conv)
  obtain a b c d where "a < 64" "b < 64" "enc3 x 0 0 = map ((!) B64) [a, b, c, d]" "b mod 16 = 0"
    using join3_enc3 [of x 0 0] by metis
  then show ?case using x by (intro exI [of _ "[a, b]"]) simp
next
  case (Suc n)
  then have "length ds = Suc (Suc (Suc (3 * n + 1)))" by simp
  then obtain x y z es where x: "ds = x # y # z # es" "length es = 3 * n + 1"
    by (auto simp: length_Suc_conv)
  obtain a b c d where a: "a < 64" "b < 64" "c < 64" "d < 64" "enc3 x y z = map ((!) B64) [a, b, c, d]"
    using join3_enc3 [of x y z] by metis
  obtain vs where vs: "length vs = 4 * n + 2" "\<forall>v \<in> set vs. v < 64" "vs ! (4 * n + 1) mod 16 = 0"
    "base64_encode es = map ((!) B64) vs @ [0x3D, 0x3D]" using Suc.IH [OF x(2)] by (elim exE conjE)
  let ?ws = "a # b # c # d # vs"
  have "length ?ws = 4 * Suc n + 2" using vs(1) by simp
  moreover have "\<forall>v \<in> set ?ws. v < 64" using a vs(2) by simp
  moreover have "?ws ! (4 * Suc n + 1) = vs ! (4 * n + 1)" by simp
  moreover have "base64_encode ds = map ((!) B64) ?ws @ [0x3D, 0x3D]" using a(5) vs(4) x(1) by simp
  ultimately show ?case using vs(3) by (intro exI [of _ ?ws] conjI) (simp_all only:)
qed

lemma cstr_base64: "cstr s = t \<Longrightarrow> k < length t \<Longrightarrow> s ! k = t ! k"
  unfolding cstr_def by (auto simp: takeWhile_nth)

lemma psk_text:
  assumes "length vs = 22" and "\<forall>k < 22. vs ! k < 64 \<and> s ! k = B64 ! (vs ! k)" and "vs ! 21 mod 16 = 0"
    and "length (cstr s) = 24" and "s ! 22 = 0x3D" and "s ! 23 = 0x3D"
  shows "cstr s = base64_encode (psk_key vs)"
proof -
  have "cstr s = map ((!) B64) vs @ [0x3D, 0x3D]"
  proof (rule nth_equalityI)
    show "length (cstr s) = length (map ((!) B64) vs @ [0x3D, 0x3D])" using assms by simp
    show "cstr s ! i = (map ((!) B64) vs @ [0x3D, 0x3D]) ! i" if "i < length (cstr s)" for i
    proof -
      have "i < 22 \<or> i = 22 \<or> i = 23" using that assms(4) by auto
      then show ?thesis using assms cstr_base64 [OF refl that] by (auto simp: nth_append)
    qed
  qed
  then show ?thesis using base64_encode_psk_key [OF assms(1) _ assms(3)] assms(2) by simp
qed

lemma psk_text_digits:
  assumes "length key = 16" and "cstr s = base64_encode key"
  obtains vs where "length vs = 22" and "\<forall>k < 22. vs ! k < 64 \<and> s ! k = B64 ! (vs ! k)" and "vs ! 21 mod 16 = 0"
    and "psk_key vs = key" and "length (cstr s) = 24" and "s ! 22 = 0x3D" and "s ! 23 = 0x3D"
proof -
  obtain vs where vs: "length vs = 22" "\<forall>v \<in> set vs. v < 64" "vs ! 21 mod 16 = 0"
    "cstr s = map ((!) B64) vs @ [0x3D, 0x3D]" using base64_digits [of key 5] assms by auto
  have lt: "\<forall>k < 22. vs ! k < 64" using vs(1,2) by simp
  have nth: "s ! i = (map ((!) B64) vs @ [0x3D, 0x3D]) ! i" if "i < 24" for i
    using cstr_base64 [OF vs(4)] vs(1) that by simp
  have "psk_key vs = key"
    using base64_encode_psk_key [OF vs(1) lt vs(3)] vs(4) assms base64_encode_inj [of "psk_key vs" key] by simp
  moreover have "\<forall>k < 22. vs ! k < 64 \<and> s ! k = B64 ! (vs ! k)" using lt nth vs(1) by (simp add: nth_append)
  moreover have "length (cstr s) = 24" "s ! 22 = 0x3D" "s ! 23 = 0x3D"
    using vs(1,4) nth [of 22] nth [of 23] by (simp_all add: nth_append)
  ultimately show thesis using vs(1,3) by (intro that [of vs])
qed

lemma length_psk_key [simp]: "length (psk_key vs) = 16"
  by (simp add: psk_key_def upt_conv_Cons)

lemma and_low_nat: "and (n :: nat) 0x0F = n mod 16"
  using take_bit_eq_mask [of 4 n] by (simp add: mask_eq_exp_minus_1 take_bit_eq_mod)

text \<open>
  C38: strict Base64 accepts exactly the canonical encodings. The decoder succeeds on a text if and
  only if the text is the padded standard encoding of some non-empty byte string that fits the
  output, and then the output holds exactly those bytes: no whitespace, no wrong padding, no
  non-zero padding bits, and no two texts for one key.
\<close>

theorem base64_strict_exact:
  assumes "cap \<le> length out"
  shows "decodeBase64Strict (Some s) (length s) (Some out) cap = (True, Some out', n) \<longleftrightarrow>
    (\<exists>ds. s = base64_encode ds \<and> ds \<noteq> [] \<and> length ds \<le> cap \<and> n = length ds \<and> out' = ds @ drop (length ds) out)"
proof
  assume d: "decodeBase64Strict (Some s) (length s) (Some out) cap = (True, Some out', n)"
  then have l: "s \<noteq> []" "4 dvd length s" "b64_loop s (length s) cap 0 out 0 = (True, out', n)"
    by (auto simp: decodeBase64Strict_def split: if_splits prod.splits)
  then obtain ds where "s = base64_encode ds" "n = length ds" "n \<le> cap" "out' = overwrite out 0 ds"
    using b64_loop_sound [OF l(3)] assms by auto
  then show "\<exists>ds. s = base64_encode ds \<and> ds \<noteq> [] \<and> length ds \<le> cap \<and> n = length ds \<and> out' = ds @ drop (length ds) out"
    using l(1) by (auto simp: overwrite_0)
next
  assume "\<exists>ds. s = base64_encode ds \<and> ds \<noteq> [] \<and> length ds \<le> cap \<and> n = length ds \<and> out' = ds @ drop (length ds) out"
  then obtain ds where ds: "s = base64_encode ds" "ds \<noteq> []" "length ds \<le> cap" "n = length ds" "out' = overwrite out 0 ds"
    by (auto simp: overwrite_0)
  have "s \<noteq> []" using ds(1,2) base64_encode_inj [of ds "[]"] by auto
  then show "decodeBase64Strict (Some s) (length s) (Some out) cap = (True, Some out', n)"
    using b64_loop_encode [OF ds(1,3) assms] ds length_base64_encode [of ds] by (simp add: decodeBase64Strict_def)
qed

theorem base64_strict_exact_witness:
  "decodeBase64Strict (Some (base64_encode [7, 9])) (length (base64_encode [7, 9])) (Some [0, 0, 1]) 3 = (True, Some [7, 9, 1], 2)"
proof -
  have "\<exists>ds. base64_encode [7, 9] = base64_encode ds \<and> ds \<noteq> [] \<and> length ds \<le> 3 \<and> 2 = length ds \<and>
      [7, 9, 1] = ds @ drop (length ds) [0, 0, 1 :: byte]"
    by (rule exI [of _ "[7, 9]"]) simp
  then show ?thesis using base64_strict_exact [of 3 "[0, 0, 1]" "base64_encode [7, 9]" "[7, 9, 1]" 2] by simp
qed

text \<open>
  The channel key decoder accepts exactly the Base64 encodings of 16-byte keys, the same texts
  and the same keys as the strict decoder, although it works bit by bit.
\<close>

theorem channel_psk_exact:
  assumes "length out = 16"
  shows "channel_psk_decode_16 (Some s) (Some out) = (True, Some key) \<longleftrightarrow> length key = 16 \<and> cstr s = base64_encode key"
proof
  assume d: "channel_psk_decode_16 (Some s) (Some out) = (True, Some key)"
  then obtain vs where vs: "those (map (\<lambda>i. first_index ((=) (s ! i)) B64) [0..<22]) = Some vs"
    and l: "length (cstr s) = 24" "s ! 22 = 0x3D" "s ! 23 = 0x3D" and low: "vs ! 21 mod 16 = 0"
    by (auto simp: channel_psk_decode_16_def and_low_nat split: if_splits option.splits)
  have v: "length vs = 22" "\<forall>k < 22. vs ! k < 64 \<and> s ! k = B64 ! (vs ! k)"
    using psk_values [OF vs] by auto
  have "key = psk_key vs" using d l low vs psk_loop_key [OF v(1) _ assms] v(2)
    by (auto simp: channel_psk_decode_16_def and_low_nat)
  then show "length key = 16 \<and> cstr s = base64_encode key" using psk_text [OF v low l] by simp
next
  assume k: "length key = 16 \<and> cstr s = base64_encode key"
  obtain vs where vs: "length vs = 22" "\<forall>k < 22. vs ! k < 64 \<and> s ! k = B64 ! (vs ! k)" "vs ! 21 mod 16 = 0"
    "psk_key vs = key" "length (cstr s) = 24" "s ! 22 = 0x3D" "s ! 23 = 0x3D"
    using psk_text_digits [OF conjunct1 [OF k] conjunct2 [OF k]] .
  have "those (map (\<lambda>i. first_index ((=) (s ! i)) B64) [0..<22]) = Some (map ((!) vs) [0..<22])"
    using vs(2) by (intro those_Some) (auto simp: first_index_B64)
  also have "map ((!) vs) [0..<22] = vs" using map_nth [of vs] vs(1) by simp
  finally have "those (map (\<lambda>i. first_index ((=) (s ! i)) B64) [0..<22]) = Some vs" .
  then show "channel_psk_decode_16 (Some s) (Some out) = (True, Some key)"
    using psk_loop_key [OF vs(1) _ assms] vs by (simp add: channel_psk_decode_16_def and_low_nat)
qed

theorem channel_psk_exact_witness:
  "channel_psk_decode_16 (Some (base64_encode (replicate 16 5) @ [0])) (Some (replicate 16 0)) =
     (True, Some (replicate 16 5))"
proof -
  have "cstr (base64_encode (replicate 16 5) @ [0]) = base64_encode (replicate 16 5)"
    by code_simp
  then show ?thesis
    using channel_psk_exact [of "replicate 16 0" "base64_encode (replicate 16 5) @ [0]" "replicate 16 5"] by simp
qed

end
