(* ===== verification/KeyCodecs.thy ===== *)
theory KeyCodecs
  imports SigPrelude Base64
begin

text \<open>
  Text encodings of keys: stable contact ids (\<open>contactIdFromPubKey\<close>, \<open>contactIdToPubKey\<close> of
  \<open>mesh/contact_store.cpp\<close>), flood-scope keys (\<open>mesh/scope_key_hex.h\<close>), channel secrets
  (\<open>mesh/channel_key.h\<close>). \<open>CIPHER_KEY_SIZE\<close> of MeshCore is the argument \<open>cks\<close> of the channel codec.

  A C string argument is a byte list, its text the bytes before the first zero or the end; an
  output buffer is the list before and after the call. The three hex codecs share the loops
  \<open>hex_bytes\<close> and \<open>hex_loop\<close>; the specification of decoding is the list function \<open>unhex\<close>.
\<close>

section \<open>Hexadecimal\<close>

definition HEX_DIGITS :: "byte list" where
  "HEX_DIGITS = [0x30, 0x31, 0x32, 0x33, 0x34, 0x35, 0x36, 0x37, 0x38, 0x39, 0x61, 0x62, 0x63, 0x64, 0x65, 0x66]"

definition scopeKeyHexNibble :: "byte \<Rightarrow> int" where
  "scopeKeyHexNibble c =
     (if c \<ge> 0x30 \<and> c \<le> 0x39 then uint c - 0x30
      else if c \<ge> 0x61 \<and> c \<le> 0x66 then uint c - 0x61 + 10
      else if c \<ge> 0x41 \<and> c \<le> 0x46 then uint c - 0x41 + 10
      else -1)"

definition channelSecretHexDigit :: "byte \<Rightarrow> byte option" where
  "channelSecretHexDigit c =
     (if c \<ge> 0x30 \<and> c \<le> 0x39 then Some (c - 0x30)
      else if c \<ge> 0x61 \<and> c \<le> 0x66 then Some (c - 0x61 + 10)
      else if c \<ge> 0x41 \<and> c \<le> 0x46 then Some (c - 0x41 + 10)
      else None)"

text \<open>
  The encoding loop: \<open>out[2 * i] = hex[key[i] >> 4]; out[2 * i + 1] = hex[key[i] & 0x0F]\<close>; with the
  terminator, the buffer after encoding the first \<open>n\<close> bytes.
\<close>

fun hex_bytes :: "byte list \<Rightarrow> byte list" where
  "hex_bytes [] = []"
| "hex_bytes (b # bs) = HEX_DIGITS ! unat (drop_bit 4 b) # HEX_DIGITS ! unat (and b 0x0F) # hex_bytes bs"

definition hex_write :: "nat \<Rightarrow> byte list \<Rightarrow> byte list \<Rightarrow> byte list" where
  "hex_write n key out = hex_bytes (take n key) @ [0] @ drop (2 * n + 1) out"

definition scopeKeyHexEncode :: "byte list option \<Rightarrow> byte list option \<Rightarrow> byte list option" where
  "scopeKeyHexEncode key16 out33 =
     (case (key16, out33) of (Some k, Some out) \<Rightarrow> Some (hex_write 16 k out) | _ \<Rightarrow> out33)"

definition channelSecretHexEncode :: "nat \<Rightarrow> byte list option \<Rightarrow> byte list option \<Rightarrow> nat \<Rightarrow> bool \<times> byte list option" where
  "channelSecretHexEncode cks secret out out_capacity =
     (case (secret, out) of
        (Some k, Some d) \<Rightarrow> if out_capacity < cks * 2 + 1 then (False, out) else (True, Some (hex_write cks k d))
      | _ \<Rightarrow> (False, out))"

definition contactIdFromPubKey :: "byte list option \<Rightarrow> byte list option \<Rightarrow> nat \<Rightarrow> bool \<times> byte list option" where
  "contactIdFromPubKey pub_key out out_size =
     (case (pub_key, out) of
        (Some k, Some d) \<Rightarrow> if out_size < 65 then (False, out) else (True, Some (hex_write 32 k d))
      | _ \<Rightarrow> (False, out))"

text \<open>
  The decoding loop over the digits \<open>2 * i\<close> and \<open>2 * i + 1\<close>: it stops at the first digit that is not
  hexadecimal, having written what it decoded before.
\<close>

fun hex_loop :: "byte list \<Rightarrow> nat \<Rightarrow> nat \<Rightarrow> byte list \<Rightarrow> bool \<times> byte list" where
  "hex_loop s i 0 out = (True, out)"
| "hex_loop s i (Suc n) out =
     (let high = scopeKeyHexNibble (s ! (i * 2)); low = scopeKeyHexNibble (s ! (i * 2 + 1))
      in if high < 0 \<or> low < 0 then (False, out)
         else hex_loop s (i + 1) n (out[i := word_of_int (or (push_bit 4 high) low)]))"

definition contactIdToPubKey :: "byte list option \<Rightarrow> byte list option \<Rightarrow> bool \<times> byte list option" where
  "contactIdToPubKey contact_id out =
     (case (contact_id, out) of
        (Some s, Some d) \<Rightarrow>
          if strnlen s 65 \<noteq> 64 then (False, out)
          else (case hex_loop s 0 32 d of (ok, d') \<Rightarrow> (ok, Some d'))
      | _ \<Rightarrow> (False, out))"

definition scopeKeyNonZero :: "byte list option \<Rightarrow> bool" where
  "scopeKeyNonZero key16 = (case key16 of None \<Rightarrow> False | Some k \<Rightarrow> foldl or 0 (take 16 k) \<noteq> 0)"

definition scopeKeyHexDecode :: "byte list option \<Rightarrow> byte list option \<Rightarrow> bool \<times> byte list option" where
  "scopeKeyHexDecode hex32 out =
     (case (hex32, out) of
        (Some s, Some d) \<Rightarrow>
          if length (cstr s) \<noteq> 32 then (False, out)
          else (case hex_loop s 0 16 (replicate 16 0) of
                  (False, _) \<Rightarrow> (False, out)
                | (True, decoded) \<Rightarrow>
                    if \<not> scopeKeyNonZero (Some decoded) then (False, out)
                    else (True, Some (decoded @ drop 16 d)))
      | _ \<Rightarrow> (False, out))"

fun secret_loop :: "byte list \<Rightarrow> nat \<Rightarrow> nat \<Rightarrow> byte list \<Rightarrow> bool \<times> byte list" where
  "secret_loop s i 0 out = (True, out)"
| "secret_loop s i (Suc n) out =
     (case channelSecretHexDigit (s ! (i * 2)) of
        None \<Rightarrow> (False, out)
      | Some high \<Rightarrow>
          (case channelSecretHexDigit (s ! (i * 2 + 1)) of
             None \<Rightarrow> (False, out)
           | Some low \<Rightarrow> secret_loop s (i + 1) n (out[i := or (push_bit 4 high) low])))"

definition channelSecretHexDecode :: "nat \<Rightarrow> byte list option \<Rightarrow> byte list option \<Rightarrow> nat \<Rightarrow> bool \<times> byte list option" where
  "channelSecretHexDecode cks hex out out_capacity =
     (case (hex, out) of
        (Some s, Some d) \<Rightarrow>
          if out_capacity < cks \<or> length (cstr s) \<noteq> cks * 2 then (False, out)
          else (case secret_loop s 0 cks d of (ok, d') \<Rightarrow> (ok, Some d'))
      | _ \<Rightarrow> (False, out))"

subsection \<open>Specification\<close>

definition hex_char :: "byte \<Rightarrow> bool" where
  "hex_char c \<longleftrightarrow> 0 \<le> scopeKeyHexNibble c"

definition lower_hex :: "byte \<Rightarrow> byte" where
  "lower_hex c = (if c \<ge> 0x41 \<and> c \<le> 0x46 then c + 0x20 else c)"

fun unhex :: "byte list \<Rightarrow> byte list option" where
  "unhex [] = Some []"
| "unhex [a] = None"
| "unhex (a # b # s) =
     (if hex_char a \<and> hex_char b
      then map_option (Cons (word_of_int (or (push_bit 4 (scopeKeyHexNibble a)) (scopeKeyHexNibble b)))) (unhex s)
      else None)"

lemma nibble_hi: "scopeKeyHexNibble (HEX_DIGITS ! unat (drop_bit 4 b)) = uint (drop_bit 4 (b :: byte))"
  by (rule byte_all [where b = b]) code_simp

lemma nibble_lo: "scopeKeyHexNibble (HEX_DIGITS ! unat (and b 0x0F)) = uint (and (b :: byte) 0x0F)"
  by (rule byte_all [where b = b]) code_simp

lemma nibble_join: "word_of_int (or (push_bit 4 (uint (drop_bit 4 b))) (uint (and b 0x0F))) = (b :: byte)"
  by (rule byte_all [where b = b]) code_simp

lemma hex_char_hi [simp]: "hex_char (HEX_DIGITS ! unat (drop_bit 4 (b :: byte)))"
  by (simp add: hex_char_def nibble_hi)

lemma hex_char_lo [simp]: "hex_char (HEX_DIGITS ! unat (and (b :: byte) 0x0F))"
  by (simp add: hex_char_def nibble_lo)

lemma unhex_hex_bytes [simp]: "unhex (hex_bytes bs) = Some bs"
  by (induction bs) (simp_all add: nibble_hi nibble_lo nibble_join)

lemma length_hex_bytes [simp]: "length (hex_bytes bs) = 2 * length bs"
  by (induction bs) simp_all

lemma nibble_range:
  assumes "hex_char c"
  shows "nat (scopeKeyHexNibble c) < 16 \<and> HEX_DIGITS ! nat (scopeKeyHexNibble c) = lower_hex c"
proof -
  have "hex_char c \<longrightarrow> nat (scopeKeyHexNibble c) < 16 \<and> HEX_DIGITS ! nat (scopeKeyHexNibble c) = lower_hex c"
    by (rule byte_all [where b = c]) code_simp
  then show ?thesis using assms by blast
qed

definition nibbles :: "int list" where
  "nibbles = [0, 1, 2, 3, 4, 5, 6, 7, 8, 9, 10, 11, 12, 13, 14, 15]"

lemma nibbles_split:
  "\<forall>h \<in> set nibbles. \<forall>l \<in> set nibbles.
     unat (drop_bit 4 (word_of_int (or (push_bit 4 h) l) :: byte)) = nat h \<and>
     unat (and (word_of_int (or (push_bit 4 h) l) :: byte) 0x0F) = nat l"
  by code_simp

lemma in_nibbles: "0 \<le> v \<Longrightarrow> v < 16 \<Longrightarrow> v \<in> set nibbles"
  by (simp add: nibbles_def) presburger

lemma hex_bytes_unhex: "unhex s = Some ds \<Longrightarrow> hex_bytes ds = map lower_hex s \<and> length s = 2 * length ds \<and> (\<forall>c \<in> set s. hex_char c)"
proof (induction s arbitrary: ds rule: unhex.induct)
  case (3 a b s)
  let ?h = "scopeKeyHexNibble a" and ?l = "scopeKeyHexNibble b"
  have h: "hex_char a" "hex_char b" using 3(2) by (auto split: if_splits)
  obtain es where es: "unhex s = Some es" "ds = word_of_int (or (push_bit 4 ?h) ?l) # es"
    using 3(2) h by auto
  have "?h \<in> set nibbles" "?l \<in> set nibbles"
    using h nibble_range [of a] nibble_range [of b] by (auto intro!: in_nibbles simp: hex_char_def)
  then have "unat (drop_bit 4 (word_of_int (or (push_bit 4 ?h) ?l) :: byte)) = nat ?h"
    "unat (and (word_of_int (or (push_bit 4 ?h) ?l) :: byte) 0x0F) = nat ?l"
    using nibbles_split by blast+
  then show ?case using nibble_range [OF h(1)] nibble_range [OF h(2)] 3(1) [OF _ es(1)] h es(2)
    by (simp only: hex_bytes.simps) simp
qed auto

lemma unhex_None: "unhex s = None \<longleftrightarrow> odd (length s) \<or> (\<exists>c \<in> set s. \<not> hex_char c)"
  by (induction s rule: unhex.induct) auto

lemma hex_loop_unhex:
  assumes "2 * (i + n) \<le> length s" and "i + n \<le> length out"
  shows "case unhex (take (2 * n) (drop (2 * i) s)) of
      Some ds \<Rightarrow> hex_loop s i n out = (True, take i out @ ds @ drop (i + n) out)
    | None \<Rightarrow> \<not> fst (hex_loop s i n out)"
  using assms
proof (induction n arbitrary: i out)
  case (Suc n)
  let ?a = "s ! (2 * i)" and ?b = "s ! (2 * i + 1)"
  have d: "take (2 * Suc n) (drop (2 * i) s) = ?a # ?b # take (2 * n) (drop (2 * (i + 1)) s)"
    using Suc.prems by (simp add: Cons_nth_drop_Suc [symmetric] take_Cons')
  show ?case
  proof (cases "hex_char ?a \<and> hex_char ?b")
    case False
    then show ?thesis unfolding d by (auto simp: hex_char_def Let_def mult.commute)
  next
    case True
    let ?v = "word_of_int (or (push_bit 4 (scopeKeyHexNibble ?a)) (scopeKeyHexNibble ?b)) :: byte"
    have l: "hex_loop s i (Suc n) out = hex_loop s (i + 1) n (out[i := ?v])"
      using True by (simp add: hex_char_def Let_def mult.commute)
    have t: "take (Suc i) (out[i := ?v]) = take i out @ [?v]"
      using Suc.prems by (simp add: take_Suc_conv_app_nth)
    show ?thesis using Suc.IH [of "i + 1" "out[i := ?v]"] Suc.prems True t
      unfolding d l by (auto simp: drop_update_cancel split: option.splits)
  qed
qed simp

lemma secret_digit: "channelSecretHexDigit c = (if hex_char c then Some (word_of_int (scopeKeyHexNibble c)) else None)"
  by (simp add: channelSecretHexDigit_def hex_char_def scopeKeyHexNibble_def word_le_def)

lemma secret_loop_eq: "secret_loop s i n out = hex_loop s i n out"
proof (induction n arbitrary: i out)
  case (Suc n)
  have "or (push_bit 4 (word_of_int h)) (word_of_int l) = (word_of_int (or (push_bit 4 h) l) :: byte)" for h l
    by (simp only: of_int_or_eq of_int_push_bit)
  then show ?case using Suc by (simp add: secret_digit hex_char_def Let_def)
qed simp

section \<open>Scope keys in Base64\<close>

definition scopeKeyBase64Value :: "byte \<Rightarrow> int" where
  "scopeKeyBase64Value c =
     (if c \<ge> 0x41 \<and> c \<le> 0x5A then uint c - 0x41
      else if c \<ge> 0x61 \<and> c \<le> 0x7A then uint c - 0x61 + 26
      else if c \<ge> 0x30 \<and> c \<le> 0x39 then uint c - 0x30 + 52
      else if c = 0x2B then 62
      else if c = 0x2F then 63
      else -1)"

fun scope_b64_groups :: "byte list \<Rightarrow> nat \<Rightarrow> nat \<Rightarrow> byte list \<Rightarrow> byte list option" where
  "scope_b64_groups s i 0 decoded = Some decoded"
| "scope_b64_groups s i (Suc n) decoded =
     (let a = scopeKeyBase64Value (s ! i); b = scopeKeyBase64Value (s ! (i + 1));
          c = scopeKeyBase64Value (s ! (i + 2)); d = scopeKeyBase64Value (s ! (i + 3))
      in if a < 0 \<or> b < 0 \<or> c < 0 \<or> d < 0 then None
         else scope_b64_groups s (i + 4) n (decoded @
                [word_of_int (or (push_bit 2 a) (drop_bit 4 b)), word_of_int (or (push_bit 4 b) (drop_bit 2 c)),
                 word_of_int (or (push_bit 6 c) d)]))"

definition scopeKeyBase64Decode :: "byte list option \<Rightarrow> byte list option \<Rightarrow> bool \<times> byte list option" where
  "scopeKeyBase64Decode encoded out =
     (case (encoded, out) of
        (Some s, Some d) \<Rightarrow>
          if length (cstr s) \<noteq> 24 \<or> s ! 22 \<noteq> 0x3D \<or> s ! 23 \<noteq> 0x3D then (False, out)
          else (case scope_b64_groups s 0 5 [] of
                  None \<Rightarrow> (False, out)
                | Some decoded \<Rightarrow>
                    let a = scopeKeyBase64Value (s ! 20); b = scopeKeyBase64Value (s ! 21)
                    in if a < 0 \<or> b < 0 \<or> and b 0x0F \<noteq> 0 \<or> length decoded \<noteq> 15 then (False, out)
                       else let key = decoded @ [word_of_int (or (push_bit 2 a) (drop_bit 4 b))]
                            in if \<not> scopeKeyNonZero (Some key) then (False, out)
                               else (True, Some (key @ drop 16 d)))
      | _ \<Rightarrow> (False, out))"

lemma scope_value [simp]: "scopeKeyBase64Value = base64Value"
  by (rule ext) (simp add: scopeKeyBase64Value_def base64Value_def)

lemma or_fold: "foldl or (z :: byte) ks = 0 \<longleftrightarrow> z = 0 \<and> (\<forall>k \<in> set ks. k = 0)"
  by (induction ks arbitrary: z) (auto simp: or_eq_0_iff)

lemma scopeKeyNonZero_iff: "length k = 16 \<Longrightarrow> scopeKeyNonZero (Some k) \<longleftrightarrow> (\<exists>b \<in> set k. b \<noteq> 0)"
  by (auto simp: scopeKeyNonZero_def or_fold)

lemma scope_group_bytes:
  assumes "a < 64" "b < 64" "c < 64" "d < 64"
  shows "[word_of_int (or (push_bit 2 (int a)) (drop_bit 4 (int b))), word_of_int (or (push_bit 4 (int b)) (drop_bit 2 (int c))),
     word_of_int (or (push_bit 6 (int c)) (int d))] = join3 a b c d"
proof -
  have dr: "drop_bit 4 (int b) = int (b div 16)" "drop_bit 2 (int c) = int (c div 4)"
    by (simp_all add: drop_bit_eq_div zdiv_int)
  have "or (push_bit 2 (int a)) (drop_bit 4 (int b)) = int (a * 4 + b div 16)"
    "or (push_bit 4 (int b)) (drop_bit 2 (int c)) = int (b * 16 + c div 4)"
    "or (push_bit 6 (int c)) (int d) = int (c * 64 + d)"
    unfolding dr using assms by (subst or_disjoint; auto simp: zdiv_int)+
  moreover have w: "(word_of_nat (x + 256 * y) :: byte) = word_of_nat x" for x y
    by (simp only: word_of_nat_eq_iff take_bit_eq_mod) simp
  have "b * 16 + c div 4 = (b mod 16 * 16 + c div 4) + 256 * (b div 16)"
    "c * 64 + d = (c mod 4 * 64 + d) + 256 * (c div 4)"
    using div_mult_mod_eq [of b 16] div_mult_mod_eq [of c 4] by linarith+
  then have "(word_of_nat (b * 16 + c div 4) :: byte) = word_of_nat (b mod 16 * 16 + c div 4)"
    "(word_of_nat (c * 64 + d) :: byte) = word_of_nat (c mod 4 * 64 + d)"
    by (simp_all only: w)
  ultimately show ?thesis unfolding join3_def by (simp only: of_int_of_nat_eq list.map)
qed

lemma scope_groups_valid:
  "scope_b64_groups s i n dec = Some r \<Longrightarrow> k < 4 * n \<Longrightarrow> 0 \<le> base64Value (s ! (i + k))"
proof (induction n arbitrary: i dec k)
  case (Suc n)
  have h: "0 \<le> base64Value (s ! i)" "0 \<le> base64Value (s ! (i + 1))" "0 \<le> base64Value (s ! (i + 2))"
    "0 \<le> base64Value (s ! (i + 3))" and r: "\<exists>dec'. scope_b64_groups s (i + 4) n dec' = Some r"
    using Suc.prems(1) by (auto simp: Let_def split: if_splits)
  show ?case
  proof (cases "k < 4")
    case True
    then have "k = 0 \<or> k = 1 \<or> k = 2 \<or> k = 3" by linarith
    then show ?thesis using h by auto
  next
    case False
    then obtain m where "k = 4 + m" by (metis le_Suc_ex not_less)
    then show ?thesis using r Suc.IH [of "i + 4" _ m] Suc.prems(2) by (auto simp: add.assoc)
  qed
qed simp

lemma scope_groups_key:
  assumes "length vs = 22" and "\<forall>k < 22. vs ! k < 64 \<and> base64Value (s ! k) = int (vs ! k)"
  shows "scope_b64_groups s 0 5 [] = Some (butlast (psk_key vs))"
proof -
  have v: "vs ! k < 64" "base64Value (s ! k) = int (vs ! k)" if "k < 22" for k using assms(2) that by simp_all
  let ?j = "\<lambda>k. join3 (vs ! k) (vs ! (k + 1)) (vs ! (k + 2)) (vs ! (k + 3))"
  have step: "scope_b64_groups s k (Suc n) dec = scope_b64_groups s (k + 4) n (dec @ ?j k)" if "k + 3 < 22" for k n dec
    using v [of k] v [of "k + 1"] v [of "k + 2"] v [of "k + 3"] that
    by (simp add: Let_def scope_group_bytes del: One_nat_def add_2_eq_Suc')
  have "scope_b64_groups s 0 (Suc (Suc (Suc (Suc (Suc 0))))) [] = Some (?j 0 @ ?j 4 @ ?j 8 @ ?j 12 @ ?j 16)"
    by (simp add: step del: scope_b64_groups.simps(2))
  moreover have "butlast (psk_key vs) = ?j 0 @ ?j 4 @ ?j 8 @ ?j 12 @ ?j 16"
    by (simp add: psk_key_def butlast_append upt_conv_Cons numeral_2_eq_2)
  moreover have "(5 :: nat) = Suc (Suc (Suc (Suc (Suc 0))))" by simp
  ultimately show ?thesis by (simp only:)
qed

lemma scope_base64_exact:
  "scopeKeyBase64Decode (Some s) (Some out) = (True, Some out') \<longleftrightarrow>
    (\<exists>key. length key = 16 \<and> cstr s = base64_encode key \<and> (\<exists>b \<in> set key. b \<noteq> 0) \<and> out' = key @ drop 16 out)"
proof -
  have fin: "scopeKeyBase64Decode (Some s) (Some out) =
      (if \<exists>b \<in> set (psk_key vs). b \<noteq> 0 then (True, Some (psk_key vs @ drop 16 out)) else (False, Some out))"
    if vs: "length vs = 22" "\<forall>k < 22. vs ! k < 64 \<and> s ! k = B64 ! (vs ! k)" "vs ! 21 mod 16 = 0"
      "length (cstr s) = 24" "s ! 22 = 0x3D" "s ! 23 = 0x3D" for vs
  proof -
    have v: "\<forall>k < 22. vs ! k < 64 \<and> base64Value (s ! k) = int (vs ! k)" using vs(2) by (simp add: base64Value_B64)
    have last: "[word_of_int (or (push_bit 2 (int (vs ! 20))) (drop_bit 4 (int (vs ! 21))))] = [last (psk_key vs)]"
      using scope_group_bytes [of "vs ! 20" "vs ! 21" 0 0] v by (simp add: psk_key_def join3_def del: of_nat_add of_nat_mult)
    have "int (vs ! 21 mod 16) = 0" using vs(3) by simp
    then have "int (vs ! 21) mod 16 = 0" by (simp only: of_nat_mod of_nat_numeral)
    moreover have "butlast (psk_key vs) @ [last (psk_key vs)] = psk_key vs"
      by (rule append_butlast_last_id) (simp add: psk_key_def)
    ultimately show ?thesis
      using vs(4-6) scope_groups_key [OF vs(1) v] v [rule_format, of 20] v [rule_format, of 21]
        scopeKeyNonZero_iff [of "psk_key vs"] last
      unfolding scopeKeyBase64Decode_def by (simp add: Let_def and_low)
  qed
  show ?thesis
  proof
    assume d: "scopeKeyBase64Decode (Some s) (Some out) = (True, Some out')"
    then obtain dec where g: "scope_b64_groups s 0 5 [] = Some dec"
      and l: "length (cstr s) = 24" "s ! 22 = 0x3D" "s ! 23 = 0x3D"
      and ab: "0 \<le> base64Value (s ! 20)" "0 \<le> base64Value (s ! 21)" "base64Value (s ! 21) mod 16 = 0"
      by (auto simp: scopeKeyBase64Decode_def Let_def and_low split: if_splits option.splits)
    let ?vs = "map (\<lambda>k. nat (base64Value (s ! k))) [0..<22]"
    have "0 \<le> base64Value (s ! k)" if "k < 22" for k
    proof -
      have "k < 20 \<or> k = 20 \<or> k = 21" using that by linarith
      then show ?thesis using scope_groups_valid [OF g, of k] ab by auto
    qed
    then have v: "\<forall>k < 22. ?vs ! k < 64 \<and> s ! k = B64 ! (?vs ! k)"
      using base64Value_range by (metis (no_types, lifting) add_0 diff_zero length_upt nat_int nth_map nth_upt)
    have m: "?vs ! 21 mod 16 = 0" using ab by (simp add: nat_mod_distrib [symmetric] flip: nat_numeral)
    have "(\<exists>b \<in> set (psk_key ?vs). b \<noteq> 0) \<and> out' = psk_key ?vs @ drop 16 out"
      using fin [OF _ v m l] d by (simp split: if_splits)
    then show "\<exists>key. length key = 16 \<and> cstr s = base64_encode key \<and> (\<exists>b \<in> set key. b \<noteq> 0) \<and> out' = key @ drop 16 out"
      using psk_text [OF _ v m l] by (intro exI [of _ "psk_key ?vs"]) simp
  next
    assume "\<exists>key. length key = 16 \<and> cstr s = base64_encode key \<and> (\<exists>b \<in> set key. b \<noteq> 0) \<and> out' = key @ drop 16 out"
    then obtain key where key: "length key = 16" "cstr s = base64_encode key" "\<exists>b \<in> set key. b \<noteq> 0" "out' = key @ drop 16 out"
      by blast
    show "scopeKeyBase64Decode (Some s) (Some out) = (True, Some out')"
      using psk_text_digits [OF key(1,2)] fin key(3,4) by metis
  qed
qed

section \<open>Exactness of the hex codecs\<close>

lemma hex_char_nonzero: "hex_char c \<Longrightarrow> c \<noteq> 0"
  by (auto simp: hex_char_def scopeKeyHexNibble_def)

lemma hex_bytes_chars: "\<forall>c \<in> set (hex_bytes bs). hex_char c"
  by (induction bs) simp_all

lemma lower_hex_bytes [simp]: "map lower_hex (hex_bytes bs) = hex_bytes bs"
  using hex_bytes_unhex [OF unhex_hex_bytes, of bs] by simp

lemma lower_hex_unhex: "unhex s = unhex t" if "map lower_hex s = map lower_hex t"
  using that
proof (induction s arbitrary: t rule: unhex.induct)
  case (2 a)
  then obtain b where "t = [b]" by auto
  then show ?case by simp
next
  case (3 a b s)
  obtain c d u where t: "t = c # d # u" using 3(2) by (cases t; cases "tl t") auto
  have n: "scopeKeyHexNibble c = scopeKeyHexNibble (lower_hex c)" for c
    by (rule byte_all [where b = c]) code_simp
  have ac: "lower_hex a = lower_hex c" "lower_hex b = lower_hex d" using 3(2) t by simp_all
  have "scopeKeyHexNibble a = scopeKeyHexNibble c" "scopeKeyHexNibble b = scopeKeyHexNibble d"
    by (simp_all only: n [of a] n [of b] n [of c] n [of d] ac)
  then show ?case using 3 t by (simp add: hex_char_def)
qed auto

lemma hex_text_decode:
  assumes "length (cstr s) = 2 * n" and "length d = n"
  shows "case unhex (cstr s) of Some ds \<Rightarrow> hex_loop s 0 n d = (True, ds) | None \<Rightarrow> \<not> fst (hex_loop s 0 n d)"
proof -
  have "length (cstr s) \<le> length s" by (simp add: cstr_def length_takeWhile_le)
  moreover have "take (length (cstr s)) s = cstr s" by (simp add: cstr_def takeWhile_eq_take [symmetric])
  ultimately show ?thesis using hex_loop_unhex [of 0 n s d] assms by (auto split: option.splits)
qed

lemma strnlen_cstr: "strnlen s (Suc n) = n \<longleftrightarrow> length (cstr s) = n"
  unfolding strnlen_def cstr_def [symmetric] cstr_take by auto

lemma unhex_iff: "unhex s = Some ds \<longleftrightarrow> map lower_hex s = hex_bytes ds"
proof
  show "map lower_hex s = hex_bytes ds" if "unhex s = Some ds" using hex_bytes_unhex [OF that] by simp
  show "unhex s = Some ds" if "map lower_hex s = hex_bytes ds"
    using lower_hex_unhex [of s "hex_bytes ds"] that by simp
qed

lemma contactIdToPubKey_iff:
  assumes "length out = 32"
  shows "contactIdToPubKey (Some s) (Some out) = (True, Some pk) \<longleftrightarrow> length pk = 32 \<and> map lower_hex (cstr s) = hex_bytes pk"
proof (cases "length (cstr s) = 64")
  case True
  have len: "length ds = 32" if "unhex (cstr s) = Some ds" for ds
    using hex_bytes_unhex [OF that] True by simp
  show ?thesis
  proof (cases "unhex (cstr s)")
    case None
    then have "\<not> fst (hex_loop s 0 32 out)" using hex_text_decode [of s 32 out] True assms by simp
    then have "\<not> fst (contactIdToPubKey (Some s) (Some out))"
      by (auto simp: contactIdToPubKey_def split: prod.splits)
    then show ?thesis using None unhex_iff [of "cstr s" pk] by auto
  next
    case (Some ds)
    then have "contactIdToPubKey (Some s) (Some out) = (True, Some ds)"
      using hex_text_decode [of s 32 out] True assms strnlen_cstr [of s 64] by (simp add: contactIdToPubKey_def)
    moreover have "map lower_hex (cstr s) = hex_bytes pk \<longleftrightarrow> pk = ds"
      using Some unhex_iff [of "cstr s" pk] by auto
    ultimately show ?thesis using len [OF Some] by auto
  qed
next
  case False
  then have "contactIdToPubKey (Some s) (Some out) = (False, Some out)"
    using strnlen_cstr [of s 64] by (simp add: contactIdToPubKey_def)
  moreover have "length pk \<noteq> 32" if "map lower_hex (cstr s) = hex_bytes pk"
    using that unhex_iff [of "cstr s" pk] hex_bytes_unhex [of "cstr s" pk] False by simp
  ultimately show ?thesis by auto
qed

text \<open>
  Contact identity is the public key, and its text form is faithful. The id of a key is 64
  lowercase hex digits; the decoder gives the key back from it; it accepts a text only if the
  text is, up to letter case, the id of the key it returns, so two texts name the same contact
  only when they differ in case alone.
\<close>

theorem contact_id_exact:
  assumes "length pk = 32" and "65 \<le> n" and "n \<le> length buf" and "length out = 32"
  shows "\<exists>b. contactIdFromPubKey (Some pk) (Some buf) n = (True, Some b) \<and> length b = length buf \<and>
      length (cstr b) = 64 \<and> map lower_hex (cstr b) = cstr b \<and> list_all hex_char (cstr b) \<and>
      contactIdToPubKey (Some b) (Some out) = (True, Some pk) \<and>
      (contactIdToPubKey (Some s) (Some out) = (True, Some pk) \<longleftrightarrow> map lower_hex (cstr s) = cstr b)"
proof -
  let ?b = "hex_bytes pk @ [0] @ drop 65 buf"
  have "0 \<notin> set (hex_bytes pk)" using hex_bytes_chars [of pk] hex_char_nonzero by auto
  then have c: "cstr ?b = hex_bytes pk" by (simp add: cstr_terminated)
  have "contactIdFromPubKey (Some pk) (Some buf) n = (True, Some ?b)"
    using assms by (simp add: contactIdFromPubKey_def hex_write_def)
  moreover have "length ?b = length buf" using assms by simp
  ultimately show ?thesis
    using c assms contactIdToPubKey_iff [OF assms(4)] hex_bytes_chars [of pk] by (auto simp: list_all_iff)
qed

theorem contact_id_exact_witness:
  "\<exists>b. contactIdFromPubKey (Some (replicate 32 0xAB)) (Some (replicate 65 0)) 65 = (True, Some b) \<and>
     contactIdToPubKey (Some b) (Some (replicate 32 0)) = (True, Some (replicate 32 0xAB))"
  using contact_id_exact [of "replicate 32 0xAB" 65 "replicate 65 0" "replicate 32 0" "[]"] by auto

lemma scope_hex_exact:
  assumes h: "scopeKeyHexDecode (Some s) (Some out) = (ok, out')"
  shows "if ok then \<exists>key. length key = 16 \<and> map lower_hex (cstr s) = hex_bytes key \<and> (\<exists>b \<in> set key. b \<noteq> 0) \<and>
         out' = Some (key @ drop 16 out)
       else out' = Some out \<and> (\<forall>key. length key = 16 \<and> map lower_hex (cstr s) = hex_bytes key \<longrightarrow> (\<forall>b \<in> set key. b = 0))"
proof (cases "length (cstr s) = 32 \<and> unhex (cstr s) \<noteq> None")
  case True
  then obtain ds where ds: "unhex (cstr s) = Some ds" "length ds = 16"
    using hex_bytes_unhex [of "cstr s"] by force
  then have "hex_loop s 0 16 (replicate 16 0) = (True, ds)"
    using hex_text_decode [of s 16 "replicate 16 0"] True by simp
  then have "scopeKeyHexDecode (Some s) (Some out) =
      (if \<exists>b \<in> set ds. b \<noteq> 0 then (True, Some (ds @ drop 16 out)) else (False, Some out))"
    using True ds(2) by (simp add: scopeKeyHexDecode_def scopeKeyNonZero_iff)
  moreover have "map lower_hex (cstr s) = hex_bytes key \<longleftrightarrow> key = ds" for key
    using ds(1) unhex_iff [of "cstr s" key] by auto
  ultimately show ?thesis using h ds(2) by (auto split: if_splits)
next
  case False
  have "\<not> fst (hex_loop s 0 16 (replicate 16 0))" if "length (cstr s) = 32"
    using hex_text_decode [of s 16 "replicate 16 0"] False that by simp
  then have "scopeKeyHexDecode (Some s) (Some out) = (False, Some out)"
    by (auto simp: scopeKeyHexDecode_def split: prod.splits bool.splits)
  moreover have "length (cstr s) = 32 \<and> unhex (cstr s) = Some key"
    if "length key = 16" "map lower_hex (cstr s) = hex_bytes key" for key
    using that unhex_iff [of "cstr s" key] hex_bytes_unhex [of "cstr s" key] by simp
  ultimately show ?thesis using h False by (metis (no_types, lifting) option.distinct(1) prod.inject)
qed

lemma scope_base64_decode:
  assumes b: "scopeKeyBase64Decode (Some s) (Some out) = (ok, out')"
  shows "if ok then \<exists>key. length key = 16 \<and> cstr s = base64_encode key \<and> (\<exists>b \<in> set key. b \<noteq> 0) \<and>
         out' = Some (key @ drop 16 out)
       else out' = Some out \<and> (\<forall>key. length key = 16 \<and> cstr s = base64_encode key \<longrightarrow> (\<forall>b \<in> set key. b = 0))"
proof -
  have "out' \<noteq> None" and "\<not> ok \<Longrightarrow> out' = Some out"
    using b by (auto simp: scopeKeyBase64Decode_def Let_def split: if_splits option.splits)
  then show ?thesis using b scope_base64_exact [of s out] by (cases ok) auto
qed

text \<open>
  C39: a private scope key is loaded whole or not at all, and never as the all-zero key. The hex and
  the Base64 decoder each succeed exactly on the encodings of a non-zero 16-byte key (the hex
  one in either case), put that key into the output, and leave the output as it was when they
  fail.
\<close>

theorem scope_key_decoders_exact:
  "(case scopeKeyHexDecode (Some s) (Some out) of (ok, out') \<Rightarrow>
      if ok then \<exists>key. length key = 16 \<and> map lower_hex (cstr s) = hex_bytes key \<and> (\<exists>b \<in> set key. b \<noteq> 0) \<and>
        out' = Some (key @ drop 16 out)
      else out' = Some out \<and> (\<forall>key. length key = 16 \<and> map lower_hex (cstr s) = hex_bytes key \<longrightarrow> (\<forall>b \<in> set key. b = 0))) \<and>
   (case scopeKeyBase64Decode (Some t) (Some out) of (ok, out') \<Rightarrow>
      if ok then \<exists>key. length key = 16 \<and> cstr t = base64_encode key \<and> (\<exists>b \<in> set key. b \<noteq> 0) \<and>
        out' = Some (key @ drop 16 out)
      else out' = Some out \<and> (\<forall>key. length key = 16 \<and> cstr t = base64_encode key \<longrightarrow> (\<forall>b \<in> set key. b = 0)))"
  using scope_hex_exact [of s out] scope_base64_decode [of t out] by (auto split: prod.splits)

theorem scope_key_decoders_exact_witness:
  "fst (scopeKeyHexDecode (Some (hex_bytes (replicate 16 0xA5))) (Some [1])) \<and>
   scopeKeyBase64Decode (Some (base64_encode (replicate 16 0))) (Some [1]) = (False, Some [1])"
proof -
  let ?k = "replicate 16 (0xA5 :: byte)" and ?z = "replicate 16 (0 :: byte)"
  have n: "0 \<notin> set (hex_bytes ?k)" using hex_bytes_chars [of ?k] hex_char_nonzero by auto
  have c: "cstr (base64_encode ?z) = base64_encode ?z" by code_simp
  obtain ok o1 ok' o2 where r: "scopeKeyHexDecode (Some (hex_bytes ?k)) (Some [1]) = (ok, o1)"
    "scopeKeyBase64Decode (Some (base64_encode ?z)) (Some [1]) = (ok', o2)" by (metis prod.collapse)
  note t = scope_key_decoders_exact [of "hex_bytes ?k" "[1]" "base64_encode ?z", unfolded r prod.case
      cstr_id [OF n] c lower_hex_bytes base64_encode_inj]
  have ok
  proof (rule ccontr)
    assume "\<not> ok"
    then have "\<forall>key. length key = 16 \<and> hex_bytes ?k = hex_bytes key \<longrightarrow> (\<forall>b \<in> set key. b = 0)"
      using t by (simp only: if_False) blast
    from spec [OF this, of ?k] show False by simp
  qed
  moreover have "\<not> ok'" using t by (auto split: if_splits)
  moreover have "o2 = Some [1]" using t calculation by simp
  ultimately show ?thesis using r by simp
qed

end
