(* ===== verification/AtomicFile.thy ===== *)
theory AtomicFile
  imports SigPrelude "HOL-Library.Sublist"
begin

text \<open>
  Crash-safe file replacement (\<open>hal/atomic_file.cpp\<close>, the ESP32 branches).

  The flash file system is a map from paths to contents. SPIFFS itself is not part of the
  repository: whether a call on it succeeds is an argument, the record \<open>spiffs_faults\<close> with one
  field per call the functions make, and what a successful call does is its documented
  behaviour (a rename needs an absent destination; a failed call changes nothing). A file write
  stores as many bytes as the file system has room for.

  \<open>atomicFileReplace\<close> and \<open>atomicFileRecover\<close> return their result and the sequence of states the
  flash goes through, the first one being the state at the call; power may fail in any of them.
\<close>

type_synonym flash = "cstring \<Rightarrow> byte list option"

section \<open>Readers and writers\<close>

text \<open>\<open>AtomicFileWriter\<close>: what was written, the sticky error flag, the byte count, the room left.\<close>

record AtomicFileWriter =
  wr_data :: "byte list"
  wr_good :: bool
  wr_bytes_written :: nat
  wr_room :: nat

definition wr_open :: "nat \<Rightarrow> AtomicFileWriter" where
  "wr_open room = \<lparr>wr_data = [], wr_good = True, wr_bytes_written = 0, wr_room = room\<rparr>"

definition wr_write :: "byte list \<Rightarrow> AtomicFileWriter \<Rightarrow> nat \<times> AtomicFileWriter" where
  "wr_write data w =
     (if \<not> wr_good w \<or> length data = 0 then (0, w)
      else let written = min (length data) (wr_room w)
           in (written, w\<lparr>wr_data := wr_data w @ take written data,
                          wr_bytes_written := wr_bytes_written w + written,
                          wr_room := wr_room w - written,
                          wr_good := (written = length data)\<rparr>))"

text \<open>\<open>AtomicFileReader\<close>: the contents and the position.\<close>

record AtomicFileReader =
  rd_data :: "byte list"
  rd_pos :: nat

definition rd_open :: "byte list \<Rightarrow> AtomicFileReader" where
  "rd_open data = \<lparr>rd_data = data, rd_pos = 0\<rparr>"

definition rd_read :: "nat \<Rightarrow> AtomicFileReader \<Rightarrow> byte list \<times> AtomicFileReader" where
  "rd_read n r = (let got = take n (drop (rd_pos r) (rd_data r)) in (got, r\<lparr>rd_pos := rd_pos r + length got\<rparr>))"

definition rd_seek :: "nat \<Rightarrow> AtomicFileReader \<Rightarrow> bool \<times> AtomicFileReader" where
  "rd_seek offset r = (if offset \<le> length (rd_data r) then (True, r\<lparr>rd_pos := offset\<rparr>) else (False, r))"

definition rd_size :: "AtomicFileReader \<Rightarrow> nat" where
  "rd_size r = length (rd_data r)"

section \<open>File operations\<close>

record spiffs_faults =
  can_remove_temp :: bool
  can_open_temp :: bool
  room :: nat
  can_read_temp :: bool
  can_remove_temp_after :: bool
  can_read_live :: bool
  can_remove_live :: bool
  can_rename :: bool

definition no_faults :: "nat \<Rightarrow> spiffs_faults" where
  "no_faults n = \<lparr>can_remove_temp = True, can_open_temp = True, room = n, can_read_temp = True,
     can_remove_temp_after = True, can_read_live = True, can_remove_live = True, can_rename = True\<rparr>"

definition fileExists :: "cstring \<Rightarrow> flash \<Rightarrow> bool" where
  "fileExists path fs \<longleftrightarrow> fs path \<noteq> None"

definition removeFile :: "bool \<Rightarrow> cstring \<Rightarrow> flash \<Rightarrow> bool \<times> flash" where
  "removeFile ok path fs = (if \<not> fileExists path fs then (True, fs) else if ok then (True, fs(path := None)) else (False, fs))"

definition validatePath :: "bool \<Rightarrow> cstring \<Rightarrow> (byte list \<Rightarrow> bool) \<Rightarrow> flash \<Rightarrow> bool" where
  "validatePath can_open path validate_fn fs =
     (case fs path of None \<Rightarrow> False | Some d \<Rightarrow> can_open \<and> validate_fn d)"

definition renameFile :: "bool \<Rightarrow> cstring \<Rightarrow> cstring \<Rightarrow> flash \<Rightarrow> bool \<times> flash" where
  "renameFile ok src dst fs =
     (if ok \<and> fileExists src fs \<and> \<not> fileExists dst fs then (True, fs(dst := fs src, src := None)) else (False, fs))"

definition TMP_SUFFIX :: cstring where
  "TMP_SUFFIX = [0x2E, 0x74, 0x6D, 0x70]"

definition atomicFileTempPath :: "cstring option \<Rightarrow> nat \<Rightarrow> cstring option" where
  "atomicFileTempPath path out_size =
     (case path of None \<Rightarrow> None
      | Some p \<Rightarrow> if p = [] \<or> out_size = 0 then None
                 else if length (p @ TMP_SUFFIX) < out_size then Some (p @ TMP_SUFFIX) else None)"

definition atomicFileReplace :: "spiffs_faults \<Rightarrow> cstring option \<Rightarrow>
    (AtomicFileWriter \<Rightarrow> bool \<times> AtomicFileWriter) option \<Rightarrow> (byte list \<Rightarrow> bool) option \<Rightarrow> flash \<Rightarrow> bool \<times> flash list" where
  "atomicFileReplace env path write_fn validate_fn fs =
     (case (path, write_fn, validate_fn) of
        (Some p, Some write, Some valid) \<Rightarrow>
          (case atomicFileTempPath path 192 of
             None \<Rightarrow> (False, [fs])
           | Some t \<Rightarrow>
               (case removeFile (can_remove_temp env) t fs of
                  (False, fs1) \<Rightarrow> (False, [fs, fs1])
                | (True, fs1) \<Rightarrow>
                    if \<not> can_open_temp env then (False, [fs, fs1])
                    else
                      let (r, w) = write (wr_open (room env));
                          ok = (r \<and> wr_good w);
                          fs2 = fs1(t := Some (wr_data w));
                          before = [fs, fs1] @ map (\<lambda>d. fs1(t := Some d)) (prefixes (wr_data w))
                      in if \<not> ok \<or> \<not> validatePath (can_read_temp env) t valid fs2
                         then (False, before @ [snd (removeFile (can_remove_temp_after env) t fs2)])
                         else (case removeFile (can_remove_live env) p fs2 of
                                 (False, fs3) \<Rightarrow> (False, before @ [fs3])
                               | (True, fs3) \<Rightarrow>
                                   (case renameFile (can_rename env) t p fs3 of
                                      (ok4, fs4) \<Rightarrow> (ok4, before @ [fs3, fs4])))))
      | _ \<Rightarrow> (False, [fs]))"

definition atomicFileRecover :: "spiffs_faults \<Rightarrow> cstring option \<Rightarrow> (byte list \<Rightarrow> bool) option \<Rightarrow> flash \<Rightarrow> bool \<times> flash list" where
  "atomicFileRecover env path validate_fn fs =
     (case (path, validate_fn) of
        (Some p, Some valid) \<Rightarrow>
          (case atomicFileTempPath path 192 of
             None \<Rightarrow> (False, [fs])
           | Some t \<Rightarrow>
               if \<not> fileExists t fs then (True, [fs])
               else if \<not> validatePath (can_read_temp env) t valid fs
               then let fs1 = snd (removeFile (can_remove_temp env) t fs)
                    in (fileExists p fs1 \<and> validatePath (can_read_live env) p valid fs1, [fs, fs1])
               else (case removeFile (can_remove_live env) p fs of
                       (False, fs1) \<Rightarrow> (False, [fs, fs1])
                     | (True, fs1) \<Rightarrow>
                         (case renameFile (can_rename env) t p fs1 of (ok, fs2) \<Rightarrow> (ok, [fs, fs1, fs2]))))
      | _ \<Rightarrow> (False, [fs]))"

section \<open>Laws of one call\<close>

lemma tempPath_neq: "atomicFileTempPath (Some p) n = Some t \<Longrightarrow> t \<noteq> p \<and> p \<noteq> []"
  by (auto simp: atomicFileTempPath_def TMP_SUFFIX_def split: if_splits)

lemma removeFile_spec: "removeFile ok path fs = (r, fs') \<Longrightarrow> (if r then fs' = fs(path := None) else fs' = fs)"
  by (auto simp: removeFile_def fileExists_def split: if_splits)

lemma removeFile_ok [simp]: "removeFile True path fs = (True, fs(path := None))"
  by (auto simp: removeFile_def fileExists_def)

lemma renameFile_spec:
  "renameFile ok src dst fs = (r, fs') \<Longrightarrow> (if r then fs' = fs(dst := fs src, src := None) \<and> fs dst = None \<and> fs src \<noteq> None else fs' = fs)"
  by (auto simp: renameFile_def fileExists_def split: if_splits)

text \<open>A writer only ever appends, so what a callback leaves is an extension of what it found.\<close>

lemma wr_write_prefix: "prefix (wr_data w) (wr_data (snd (wr_write d w)))"
  by (simp add: wr_write_def Let_def)

lemma wr_write_ok:
  "wr_good w \<Longrightarrow> 0 < length d \<Longrightarrow> length d \<le> wr_room w \<Longrightarrow>
     wr_write d w = (length d, w\<lparr>wr_data := wr_data w @ d, wr_bytes_written := wr_bytes_written w + length d,
       wr_room := wr_room w - length d\<rparr>)"
  by (simp add: wr_write_def Let_def)

lemma wr_write_cases:
  obtains (full) "fst (wr_write d w) = length d" "wr_data (snd (wr_write d w)) = wr_data w @ d"
      "0 < length d \<longrightarrow> wr_good (snd (wr_write d w))"
    | (short) k where "fst (wr_write d w) \<noteq> length d" "wr_data (snd (wr_write d w)) = wr_data w @ take k d"
proof (cases "wr_good w \<and> 0 < length d \<and> length d \<le> wr_room w")
  case True
  then show thesis using full by (simp add: wr_write_ok)
next
  case False
  show thesis
  proof (cases "length d = 0")
    case True
    then show thesis using full by (simp add: wr_write_def)
  next
    case F: False
    show thesis using False F
      by (intro short [of "if wr_good w then wr_room w else 0"]) (auto simp: wr_write_def Let_def)
  qed
qed

text \<open>Writing chunks one after the other, stopping at the first that is not stored whole.\<close>

fun write_chunks :: "byte list list \<Rightarrow> AtomicFileWriter \<Rightarrow> bool \<times> AtomicFileWriter" where
  "write_chunks [] w = (True, w)"
| "write_chunks (c # cs) w = (let (k, w') = wr_write c w in if k \<noteq> length c then (False, w') else write_chunks cs w')"

lemma write_chunks_prefix:
  assumes "list_all (\<lambda>c. c \<noteq> []) cs"
  shows "prefix (wr_data (snd (write_chunks cs w))) (wr_data w @ concat cs) \<and>
    (fst (write_chunks cs w) \<longrightarrow> wr_data (snd (write_chunks cs w)) = wr_data w @ concat cs \<and>
       (cs \<noteq> [] \<longrightarrow> wr_good (snd (write_chunks cs w))))"
  using assms
proof (induction cs arbitrary: w)
  case (Cons c cs)
  show ?case
  proof (cases rule: wr_write_cases [of c w])
    case full
    then have "write_chunks (c # cs) w = write_chunks cs (snd (wr_write c w))" by (auto split: prod.splits)
    then show ?thesis using Cons.IH [of "snd (wr_write c w)"] Cons.prems full by (cases cs) auto
  next
    case (short k)
    then have "write_chunks (c # cs) w = (False, snd (wr_write c w))" by (auto split: prod.splits)
    then show ?thesis using short(2) by (simp add: prefix_append take_is_prefix)
  qed
qed simp

lemma write_chunks_ok:
  assumes "list_all (\<lambda>c. c \<noteq> []) cs" and "wr_good w" and "length (concat cs) \<le> wr_room w"
  shows "fst (write_chunks cs w)"
  using assms by (induction cs arbitrary: w) (auto simp: wr_write_ok)

section \<open>Power failure\<close>

text \<open>
  What the flash can look like while a replacement of \<open>p\<close> by \<open>new\<close> is under way: the live file is
  untouched and the temp file is absent, stale or a prefix of \<open>new\<close>; or the live file is gone and
  the temp file is the complete valid replacement; or the replacement is in place.
\<close>

definition replace_state :: "(byte list \<Rightarrow> bool) \<Rightarrow> cstring \<Rightarrow> cstring \<Rightarrow> byte list \<Rightarrow> flash \<Rightarrow> flash \<Rightarrow> bool" where
  "replace_state valid p t new fs \<sigma> \<longleftrightarrow>
     (\<forall>q. q \<noteq> p \<and> q \<noteq> t \<longrightarrow> \<sigma> q = fs q) \<and>
     (\<sigma> p = fs p \<and> (\<sigma> t = fs t \<or> \<sigma> t = None \<or> (\<exists>d. prefix d new \<and> \<sigma> t = Some d)) \<or>
      valid new \<and> \<sigma> p = None \<and> \<sigma> t = Some new \<or>
      valid new \<and> \<sigma> p = Some new \<and> \<sigma> t = None)"

lemma replace_states:
  assumes t: "atomicFileTempPath (Some p) 192 = Some t"
    and new: "new = wr_data (snd (write (wr_open (room env))))"
    and r: "atomicFileReplace env (Some p) (Some write) (Some valid) fs = (ok, tr)"
  shows "\<forall>\<sigma> \<in> set tr. replace_state valid p t new fs \<sigma>"
    and "tr \<noteq> [] \<and> (ok \<longrightarrow> valid new \<and> last tr = fs(p := Some new, t := None))"
    and "\<not> ok \<Longrightarrow> last tr p = fs p \<or> valid new \<and> last tr p = None \<and> last tr t = Some new"
proof -
  have ne: "t \<noteq> p" using tempPath_neq [OF t] by simp
  obtain r1 fs1 where r1: "removeFile (can_remove_temp env) t fs = (r1, fs1)" by force
  note f1 = removeFile_spec [OF r1]
  have s0: "replace_state valid p t new fs fs" by (simp add: replace_state_def)
  have s1: "replace_state valid p t new fs fs1" using f1 ne by (auto simp: replace_state_def split: if_splits)
  obtain wok w where w: "write (wr_open (room env)) = (wok, w)" by force
  have nw: "new = wr_data w" using new w by simp
  define fs2 where "fs2 = fs1(t := Some new)"
  define mid where "mid = [fs, fs1] @ map (\<lambda>d. fs1(t := Some d)) (prefixes new)"
  have smid: "\<forall>\<sigma> \<in> set mid. replace_state valid p t new fs \<sigma>" if r1
    using s0 s1 f1 that ne by (auto simp: mid_def replace_state_def)
  obtain r2 where r2: "removeFile (can_remove_temp_after env) t fs2 = r2" by blast
  have s2: "replace_state valid p t new fs (snd r2) \<and> snd r2 p = fs p" if r1
    using r2 f1 that ne by (cases r2; auto simp: replace_state_def fs2_def dest!: removeFile_spec split: if_splits)
  obtain r3 fs3 where r3: "removeFile (can_remove_live env) p fs2 = (r3, fs3)" by force
  note f3 = removeFile_spec [OF r3]
  obtain r4 fs4 where r4: "renameFile (can_rename env) t p fs3 = (r4, fs4)" by force
  note f4 = renameFile_spec [OF r4]
  have unfold: "atomicFileReplace env (Some p) (Some write) (Some valid) fs =
     (if \<not> r1 \<or> \<not> can_open_temp env then (False, [fs, fs1])
      else if \<not> (wok \<and> wr_good w) \<or> \<not> validatePath (can_read_temp env) t valid fs2 then (False, mid @ [snd r2])
      else if \<not> r3 then (False, mid @ [fs3]) else (r4, mid @ [fs3, fs4]))"
    unfolding atomicFileReplace_def t r1 option.case prod.case w Let_def
    by (simp add: nw [symmetric] fs2_def [symmetric] mid_def [symmetric] r2 r3 r4 del: append.simps split: bool.splits)
  have v: "valid new" if "validatePath (can_read_temp env) t valid fs2" using that by (simp add: validatePath_def fs2_def)
  have s34: "replace_state valid p t new fs fs3" "replace_state valid p t new fs fs4" if "r1" "valid new"
    using f1 f3 f4 that ne by (auto simp: replace_state_def fs2_def split: if_splits)
  consider (fail) "\<not> r1 \<or> \<not> can_open_temp env" "ok = False" "tr = [fs, fs1]"
    | (bad) r1 "ok = False" "tr = mid @ [snd r2]"
    | (stuck) r1 "valid new" "\<not> r3" "ok = False" "tr = mid @ [fs3]"
    | (commit) r1 "valid new" r3 "ok = r4" "tr = mid @ [fs3, fs4]"
    using r v unfolding unfold by (auto split: if_splits)
  note cases = this
  show "\<forall>\<sigma> \<in> set tr. replace_state valid p t new fs \<sigma>"
    using cases by cases (use s0 s1 smid s2 s34 in auto)
  show "tr \<noteq> [] \<and> (ok \<longrightarrow> valid new \<and> last tr = fs(p := Some new, t := None))"
    using cases by cases (use f1 f3 f4 ne in \<open>auto simp: fs2_def fun_eq_iff\<close>)
  show "last tr p = fs p \<or> valid new \<and> last tr p = None \<and> last tr t = Some new" if "\<not> ok"
    using cases that by cases (use f1 f3 f4 ne s2 in \<open>auto simp: fs2_def split: if_splits\<close>)
qed

lemma replace_ok:
  assumes "atomicFileTempPath (Some p) 192 = Some t"
    and w: "write (wr_open n) = (True, w)" and "wr_good w" and "valid (wr_data w)"
  shows "\<exists>tr. atomicFileReplace (no_faults n) (Some p) (Some write) (Some valid) fs = (True, tr)"
  using assms tempPath_neq [OF assms(1)]
  by (simp add: atomicFileReplace_def no_faults_def validatePath_def renameFile_def fileExists_def Let_def)

lemma replace_clean_fail:
  assumes "atomicFileTempPath (Some p) 192 = Some t"
    and "write (wr_open n) = (wok, w)" and "\<not> (wok \<and> wr_good w \<and> valid (wr_data w))"
  shows "\<exists>tr. atomicFileReplace (no_faults n) (Some p) (Some write) (Some valid) fs = (False, tr) \<and>
    tr \<noteq> [] \<and> last tr = fs(t := None)"
  using assms by (auto simp: atomicFileReplace_def no_faults_def validatePath_def Let_def)

lemma recover_clean:
  assumes t: "atomicFileTempPath (Some p) 192 = Some t"
    and r: "atomicFileRecover (no_faults n) (Some p) (Some valid) \<sigma> = (ok, tr)"
  shows "tr \<noteq> [] \<and> last tr = (case \<sigma> t of None \<Rightarrow> \<sigma> | Some d \<Rightarrow> if valid d then \<sigma>(p := Some d, t := None) else \<sigma>(t := None))"
  using r tempPath_neq [OF t] t
  by (auto simp: atomicFileRecover_def no_faults_def validatePath_def renameFile_def fileExists_def fun_eq_iff
      split: option.splits if_splits)

text \<open>
  If nothing the writer puts into the temp file on its way passes for a valid file but \<open>new\<close>, an
  interrupted replacement, once recovered, is the old file or \<open>new\<close> and nothing else. The
  replacement may have been validated more strictly than recovery does.
\<close>

lemma crash_recover_at:
  assumes t: "atomicFileTempPath (Some p) 192 = Some t"
    and old: "fs t = None \<or> (\<exists>d. fs t = Some d \<and> \<not> valid d)"
    and pre: "\<And>d. prefix d (wr_data (snd (write (wr_open (room env))))) \<Longrightarrow> valid d \<Longrightarrow> d = new"
    and strict: "\<And>d. valid' d \<Longrightarrow> valid d"
    and r: "atomicFileReplace env (Some p) (Some write) (Some valid') fs = (ok, tr)" "\<sigma> \<in> set tr"
    and rec: "atomicFileRecover (no_faults n) (Some p) (Some valid) \<sigma> = (ok', tr')"
  shows "(last tr' p = fs p \<or> valid new \<and> last tr' p = Some new) \<and> last tr' t = None \<and>
    (\<forall>q. q \<noteq> p \<and> q \<noteq> t \<longrightarrow> last tr' q = fs q)"
proof -
  have ne: "t \<noteq> p" using tempPath_neq [OF t] by simp
  let ?w = "wr_data (snd (write (wr_open (room env))))"
  have full: "?w = new" if "valid' ?w" using that strict pre [of ?w] by simp
  have s: "replace_state valid' p t ?w fs \<sigma>" using replace_states(1) [OF t refl r(1)] r(2) by blast
  have l: "last tr' = (case \<sigma> t of None \<Rightarrow> \<sigma> | Some d \<Rightarrow> if valid d then \<sigma>(p := Some d, t := None) else \<sigma>(t := None))"
    using recover_clean [OF t rec] by simp
  show ?thesis
    using s ne old pre full strict unfolding l replace_state_def
    by (elim conjE disjE exE) (auto split: option.splits)
qed

section \<open>Files with a self-delimiting format\<close>

text \<open>
  The contract a store's file format offers: no proper prefix of a valid file is valid.
\<close>

locale validated_file =
  fixes valid :: "byte list \<Rightarrow> bool"
  assumes no_valid_prefix: "valid d \<Longrightarrow> strict_prefix e d \<Longrightarrow> \<not> valid e"
begin

lemma crash_recover:
  assumes t: "atomicFileTempPath (Some p) 192 = Some t"
    and old: "fs p = Some old" "fs t = None \<or> (\<exists>d. fs t = Some d \<and> \<not> valid d)"
    and new: "prefix (wr_data (snd (write (wr_open (room env))))) new" "valid new"
    and strict: "\<And>d. valid' d \<Longrightarrow> valid d"
    and r: "atomicFileReplace env (Some p) (Some write) (Some valid') fs = (ok, tr)" "\<sigma> \<in> set tr"
    and rec: "atomicFileRecover (no_faults n) (Some p) (Some valid) \<sigma> = (ok', tr')"
  shows "(last tr' p = Some old \<or> last tr' p = Some new) \<and> last tr' t = None \<and>
    (\<forall>q. q \<noteq> p \<and> q \<noteq> t \<longrightarrow> last tr' q = fs q)"
proof -
  let ?w = "wr_data (snd (write (wr_open (room env))))"
  have "d = new" if "prefix d ?w" "valid d" for d
    using that new no_valid_prefix [of new d] prefix_order.trans [of d ?w new] by (auto simp: strict_prefix_def)
  from crash_recover_at [OF t old(2) this strict r rec] show ?thesis using old(1) by auto
qed

end

lemma replace_survives:
  assumes t: "atomicFileTempPath (Some p) 192 = Some t"
    and old: "fs p = Some old" "valid old"
    and r: "atomicFileReplace env (Some p) (Some write) (Some valid) fs = (ok, tr)" "\<sigma> \<in> set tr"
  shows "(\<exists>d. \<sigma> p = Some d \<and> valid d) \<or> (\<exists>d. \<sigma> t = Some d \<and> valid d)"
  using replace_states(1) [OF t refl r(1)] r(2) old by (auto simp: replace_state_def)

section \<open>Properties\<close>

text \<open>
  C20: replacing a valid file never leaves the flash without a valid copy. In every state the
  flash passes through, whatever calls fail and wherever the power goes, the live file or the
  temp file is a complete valid file and no other file has changed; the call reports success
  only when exactly the validated new contents are in place and the temp file is gone, and on
  failure the live file is the old one or the validated replacement is kept as the temp file.
\<close>

theorem replace_keeps_valid_copy:
  assumes "atomicFileTempPath (Some p) 192 = Some t" and "fs p = Some old" and "valid old"
    and "atomicFileReplace env (Some p) (Some write) (Some valid) fs = (ok, tr)"
  shows "(\<forall>\<sigma> \<in> set tr. ((\<exists>d. \<sigma> p = Some d \<and> valid d) \<or> (\<exists>d. \<sigma> t = Some d \<and> valid d)) \<and>
      (\<forall>q. q \<noteq> p \<and> q \<noteq> t \<longrightarrow> \<sigma> q = fs q)) \<and>
    (let new = wr_data (snd (write (wr_open (room env)))) in
      if ok then valid new \<and> last tr = fs(p := Some new, t := None)
      else last tr p = Some old \<or> valid new \<and> last tr p = None \<and> last tr t = Some new)"
  using replace_survives [OF assms] replace_states [OF assms(1) refl assms(4)] assms(2)
  by (auto simp: Let_def replace_state_def)

theorem replace_keeps_valid_copy_witness:
  "\<exists>ok tr. atomicFileReplace ((no_faults 9)\<lparr>can_rename := False\<rparr>) (Some [1]) (Some (\<lambda>w. (True, snd (wr_write [7, 8] w))))
      (Some (\<lambda>d. length d = 2)) ((\<lambda>_. None)([1] := Some [5, 5])) = (ok, tr) \<and> \<not> ok \<and>
    last tr [1] = None \<and> last tr ([1] @ TMP_SUFFIX) = Some [7, 8]"
proof -
  let ?env = "(no_faults 9)\<lparr>can_rename := False\<rparr>" and ?w = "\<lambda>w. (True, snd (wr_write [7, 8] w))"
    and ?v = "\<lambda>d :: byte list. length d = 2" and ?fs = "(\<lambda>_. None)([1] := Some [5, 5]) :: flash"
  have t: "atomicFileTempPath (Some [1]) 192 = Some ([1] @ TMP_SUFFIX)"
    by (simp add: atomicFileTempPath_def TMP_SUFFIX_def)
  obtain ok tr where r: "atomicFileReplace ?env (Some [1]) (Some ?w) (Some ?v) ?fs = (ok, tr)" by force
  have "\<not> ok \<and> last tr [1] = None"
    using r by (auto simp: atomicFileReplace_def t no_faults_def wr_open_def wr_write_def validatePath_def
        removeFile_def renameFile_def fileExists_def TMP_SUFFIX_def)
  then show ?thesis
    using replace_keeps_valid_copy [OF t _ _ r, of "[5, 5]"] r by (auto simp: wr_open_def wr_write_def no_faults_def)
qed

text \<open>
  The temp file a failed commit leaves is not protected against the next replacement: a call that
  starts while the temp file is the only valid copy removes it before the new contents are
  written, and if the write then fails no copy is left.
\<close>

theorem replace_drops_retained_temp:
  "\<exists>env fs p t d tr. atomicFileTempPath (Some p) 192 = Some t \<and> fs p = None \<and> fs t = Some d \<and> length d = 2 \<and>
     atomicFileReplace env (Some p) (Some (\<lambda>w. (True, snd (wr_write [7, 8] w)))) (Some (\<lambda>d. length d = 2)) fs = (False, tr) \<and>
     last tr p = None \<and> last tr t = None"
  by (rule exI [of _ "no_faults 1"], rule exI [of _ "(\<lambda>_. None)([1] @ TMP_SUFFIX := Some [5, 5])"], rule exI [of _ "[1]"],
      rule exI [of _ "[1] @ TMP_SUFFIX"], rule exI [of _ "[5, 5]"])
     (simp add: atomicFileReplace_def atomicFileTempPath_def no_faults_def wr_open_def wr_write_def TMP_SUFFIX_def)

end
