(* ===== verification/PathCodec.thy ===== *)
theory PathCodec
  imports SigPrelude
begin

text \<open>
  Encoded route lengths (\<open>mesh/path_codec.h\<close>): one byte holds the number of hops in its low six
  bits and the size of a hop's hash in the upper two.
\<close>

definition MAX_ENCODED_PATH_BYTES :: nat where "MAX_ENCODED_PATH_BYTES = 64"

definition PATH_UNKNOWN :: byte where "PATH_UNKNOWN = 0xFF"

definition hashCount :: "byte \<Rightarrow> byte" where
  "hashCount encoded_len = and encoded_len 0x3F"

definition hashSize :: "byte \<Rightarrow> byte" where
  "hashSize encoded_len = drop_bit 6 encoded_len + 1"

definition byteCount :: "byte \<Rightarrow> nat" where
  "byteCount encoded_len = unat (hashCount encoded_len) * unat (hashSize encoded_len)"

definition encodedLengthValid :: "byte \<Rightarrow> bool" where
  "encodedLengthValid encoded_len \<longleftrightarrow>
     hashSize encoded_len \<noteq> 4 \<and> byteCount encoded_len \<le> MAX_ENCODED_PATH_BYTES"

definition storedLengthValid :: "byte \<Rightarrow> bool" where
  "storedLengthValid encoded_len \<longleftrightarrow> encoded_len = PATH_UNKNOWN \<or> encodedLengthValid encoded_len"

lemma hashSize_range: "1 \<le> unat (hashSize b) \<and> unat (hashSize b) \<le> 4"
  unfolding hashSize_def by (rule byte_all [where b = b]) code_simp

lemma encodedLengthValid_byteCount: "encodedLengthValid b \<Longrightarrow> byteCount b \<le> 64"
  by (simp add: encodedLengthValid_def MAX_ENCODED_PATH_BYTES_def)

text \<open>An unknown route is not a valid encoding of a route.\<close>

lemma unknown_not_encoded: "\<not> encodedLengthValid PATH_UNKNOWN"
  by code_simp

end
