(* ===== verification/ContactStore.thy ===== *)
theory ContactStore
  imports SigPrelude PathCodec AtomicFile KeyCodecs
begin

text \<open>
  The persistent contact list (\<open>mesh/contact_store.h\<close>, \<open>mesh/contact_store.cpp\<close>): the record formats,
  validation on load, saving and loading through the atomic file layer, candidate checks,
  contact ids and the resolver for contact references.

  A contact's arrays have their declared lengths (\<open>contact_wf\<close>); \<open>int32_t\<close> coordinates are kept as
  the 32-bit words that are stored. \<open>MAX_CONTACTS\<close> is the build flag of \<open>platformio.ini\<close>. Heap
  exhaustion is the argument \<open>alloc\<close>, a missing mount the argument \<open>mounted\<close>, and the callbacks are
  functions: \<open>read\<close> gives the contact at an index, \<open>write\<close> is given a context and returns it.
\<close>

section \<open>Records\<close>

definition MAX_CONTACTS :: int where "MAX_CONTACTS = 350"

record StoredContact =
  sc_pub_key :: "byte list"
  sc_name :: "byte list"
  sc_type :: byte
  sc_flags :: byte
  sc_out_path_len :: byte
  sc_out_path :: "byte list"
  sc_last_advert_timestamp :: u32
  sc_lastmod :: u32
  sc_gps_lat :: u32
  sc_gps_lon :: u32
  sc_sync_since :: u32

definition contact_wf :: "StoredContact \<Rightarrow> bool" where
  "contact_wf c \<longleftrightarrow> length (sc_pub_key c) = 32 \<and> length (sc_name c) = 32 \<and> length (sc_out_path c) = 64"

definition CONTACT_STORE_V1_RECORD_SIZE :: nat where "CONTACT_STORE_V1_RECORD_SIZE = 32 + 32 + 1 + 1"

definition CONTACT_STORE_RECORD_SIZE :: nat where
  "CONTACT_STORE_RECORD_SIZE = 32 + 32 + 1 + 1 + 1 + 64 + 4 + 4 + 4 + 4 + 4"

definition CONTACT_STORE_MAGIC :: "byte list" where "CONTACT_STORE_MAGIC = [0x53, 0x47, 0x43, 0xB1]"

definition CONTACT_STORE_VERSION :: byte where "CONTACT_STORE_VERSION = 2"

definition contactValid :: "StoredContact \<Rightarrow> bool" where
  "contactValid contact \<longleftrightarrow> storedLengthValid (sc_out_path_len contact)"

definition contact_record :: "StoredContact \<Rightarrow> byte list" where
  "contact_record c = take 32 (sc_pub_key c) @ take 32 (sc_name c) @ [sc_type c, sc_flags c, sc_out_path_len c] @
     take 64 (sc_out_path c) @ put_u32 (sc_last_advert_timestamp c) @ put_u32 (sc_lastmod c) @
     put_u32 (sc_gps_lat c) @ put_u32 (sc_gps_lon c) @ put_u32 (sc_sync_since c)"

definition writeContactRecord :: "StoredContact \<Rightarrow> byte list option \<Rightarrow> nat \<Rightarrow> byte list option" where
  "writeContactRecord contact rec len =
     (case rec of None \<Rightarrow> None
      | Some d \<Rightarrow> if len < CONTACT_STORE_RECORD_SIZE then rec else Some (overwrite d 0 (contact_record contact)))"

definition readContactRecord :: "byte list option \<Rightarrow> nat \<Rightarrow> StoredContact option" where
  "readContactRecord rec len =
     (case rec of None \<Rightarrow> None
      | Some d \<Rightarrow>
          if len < CONTACT_STORE_RECORD_SIZE then None
          else let c = \<lparr>sc_pub_key = take 32 d, sc_name = (take 32 (drop 32 d))[31 := 0], sc_type = d ! 64,
                        sc_flags = d ! 65, sc_out_path_len = d ! 66, sc_out_path = replicate 64 0,
                        sc_last_advert_timestamp = 0, sc_lastmod = 0, sc_gps_lat = 0, sc_gps_lon = 0, sc_sync_since = 0\<rparr>
               in if \<not> contactValid c then None
                  else Some (c\<lparr>sc_out_path := take 64 (drop 67 d), sc_last_advert_timestamp := get_u32 d 131,
                               sc_lastmod := get_u32 d 135, sc_gps_lat := get_u32 d 139,
                               sc_gps_lon := get_u32 d 143, sc_sync_since := get_u32 d 147\<rparr>))"

definition readContactRecordV1 :: "byte list option \<Rightarrow> nat \<Rightarrow> StoredContact option" where
  "readContactRecordV1 rec len =
     (case rec of None \<Rightarrow> None
      | Some d \<Rightarrow>
          if len < CONTACT_STORE_V1_RECORD_SIZE then None
          else Some \<lparr>sc_pub_key = take 32 d, sc_name = (take 32 (drop 32 d))[31 := 0], sc_type = d ! 64,
                     sc_flags = push_bit 1 (and (d ! 65) 0x03), sc_out_path_len = PATH_UNKNOWN,
                     sc_out_path = replicate 64 0, sc_last_advert_timestamp = 0, sc_lastmod = 0,
                     sc_gps_lat = 0, sc_gps_lon = 0, sc_sync_since = 0\<rparr>)"

section \<open>Candidates\<close>

definition contactCandidateValid :: "byte list option \<Rightarrow> byte list option \<Rightarrow> byte \<Rightarrow> bool" where
  "contactCandidateValid name pub_key ty =
     (case (name, pub_key) of
        (Some n, Some k) \<Rightarrow>
          let name_len = strnlen n 32
          in if name_len = 0 \<or> name_len = 32 then False
             else if list_ex (\<lambda>i. n ! i < 0x20 \<or> n ! i = 0x7F) [0..<name_len] then False
             else if ty < 1 \<or> ty > 4 then False
             else list_ex (\<lambda>i. k ! i \<noteq> 0) [0..<32]
      | _ \<Rightarrow> False)"

definition contactCandidateDuplicates ::
    "byte list option \<Rightarrow> byte list option \<Rightarrow> byte list option \<Rightarrow> byte list option \<Rightarrow> bool" where
  "contactCandidateDuplicates name pub_key existing_name existing_pub_key =
     (case (name, pub_key, existing_name, existing_pub_key) of
        (Some _, Some k, Some _, Some e) \<Rightarrow> take 32 k = take 32 e
      | _ \<Rightarrow> False)"

section \<open>The store file\<close>

definition STORE_PATH :: cstring where "STORE_PATH = [0x2F, 0x63, 0x6F, 0x6E, 0x74, 0x61, 0x63, 0x74, 0x73]"

fun write_contact_records :: "(nat \<Rightarrow> StoredContact option) \<Rightarrow> nat \<Rightarrow> nat \<Rightarrow> AtomicFileWriter \<Rightarrow> bool \<times> AtomicFileWriter" where
  "write_contact_records read i 0 w = (True, w)"
| "write_contact_records read i (Suc n) w =
     (case read i of
        None \<Rightarrow> (False, w)
      | Some c \<Rightarrow>
          if \<not> contactValid c then (False, w)
          else let rec = the (writeContactRecord c (Some (replicate CONTACT_STORE_RECORD_SIZE 0)) CONTACT_STORE_RECORD_SIZE);
                   (k, w') = wr_write rec w
               in if k \<noteq> length rec then (False, w') else write_contact_records read (i + 1) n w')"

definition writeContacts :: "int \<Rightarrow> (nat \<Rightarrow> StoredContact option) \<Rightarrow> AtomicFileWriter \<Rightarrow> bool \<times> AtomicFileWriter" where
  "writeContacts count read w =
     (if count \<le> 0 \<or> count > MAX_CONTACTS then (False, w)
      else let (k1, w1) = wr_write CONTACT_STORE_MAGIC w
           in if k1 \<noteq> 4 then (False, w1)
              else let (k2, w2) = wr_write [CONTACT_STORE_VERSION] w1
                   in if k2 \<noteq> 1 then (False, w2)
                      else let (k3, w3) = wr_write (put_u32 (word_of_int count)) w2
                           in if k3 \<noteq> 4 then (False, w3)
                              else write_contact_records read 0 (nat count) w3)"

fun read_contacts :: "byte \<Rightarrow> nat \<Rightarrow> nat \<Rightarrow> AtomicFileReader \<Rightarrow> StoredContact list \<Rightarrow> StoredContact list option" where
  "read_contacts version record_size 0 r contacts = Some contacts"
| "read_contacts version record_size (Suc n) r contacts =
     (let (rec, r') = rd_read record_size r
      in if length rec \<noteq> record_size then None
         else case (if version \<ge> 2 then readContactRecord (Some rec) record_size
                    else readContactRecordV1 (Some rec) record_size) of
                None \<Rightarrow> None
              | Some c \<Rightarrow>
                  if \<not> contactValid c \<or> \<not> contactCandidateValid (Some (sc_name c)) (Some (sc_pub_key c)) (sc_type c) then None
                  else if list_ex (\<lambda>p. contactCandidateDuplicates (Some (sc_name c)) (Some (sc_pub_key c))
                                        (Some (sc_name p)) (Some (sc_pub_key p))) contacts then None
                  else read_contacts version record_size n r' (contacts @ [c]))"

text \<open>The version, the count and the header size that the first bytes of the file announce.\<close>

definition read_header :: "AtomicFileReader \<Rightarrow> (byte \<times> int \<times> nat \<times> AtomicFileReader) option" where
  "read_header r =
     (if rd_size r < 4 then None
      else case rd_seek 0 r of
        (False, _) \<Rightarrow> None
      | (True, r0) \<Rightarrow>
          let (head, r1) = rd_read 4 r0
          in if length head \<noteq> 4 then None
             else if head = CONTACT_STORE_MAGIC
             then let (v, r2) = rd_read 1 r1
                  in if length v \<noteq> 1 \<or> v ! 0 < 1 \<or> v ! 0 > CONTACT_STORE_VERSION then None
                     else let (cnt, r3) = rd_read 4 r2
                          in if length cnt \<noteq> 4 then None else Some (v ! 0, sint (get_u32 cnt 0), 4 + 1 + 4, r3)
             else Some (0, sint (get_u32 head 0), 4, r1))"

definition readValidatedContacts :: "bool \<Rightarrow> AtomicFileReader \<Rightarrow> StoredContact list option" where
  "readValidatedContacts alloc r =
     (case read_header r of
        None \<Rightarrow> None
      | Some (version, count, header_size, r') \<Rightarrow>
          if count \<le> 0 \<or> count > MAX_CONTACTS then None
          else let record_size = (if version \<ge> 2 then CONTACT_STORE_RECORD_SIZE else CONTACT_STORE_V1_RECORD_SIZE)
               in if rd_size r \<noteq> header_size + nat count * record_size then None
                  else if \<not> alloc then None
                  else read_contacts version record_size (nat count) r' [])"

definition validateContacts :: "bool \<Rightarrow> byte list \<Rightarrow> bool" where
  "validateContacts alloc data \<longleftrightarrow> readValidatedContacts alloc (rd_open data) \<noteq> None"

section \<open>Operations\<close>

definition removeStore :: "spiffs_faults \<Rightarrow> flash \<Rightarrow> bool \<times> flash list" where
  "removeStore env fs =
     (case atomicFileTempPath (Some STORE_PATH) 192 of
        None \<Rightarrow> (False, [fs])
      | Some t \<Rightarrow>
          (case removeFile (can_remove_temp env) t fs of
             (temp_ok, fs1) \<Rightarrow>
               (case removeFile (can_remove_live env) STORE_PATH fs1 of
                  (live_ok, fs2) \<Rightarrow> (live_ok \<and> temp_ok, [fs, fs1, fs2]))))"

definition contactStoreBegin :: "spiffs_faults \<Rightarrow> bool \<Rightarrow> bool \<Rightarrow> flash \<Rightarrow> bool \<times> flash list" where
  "contactStoreBegin env mounted alloc fs =
     (if \<not> mounted then (False, [fs])
      else (True, snd (atomicFileRecover env (Some STORE_PATH) (Some (validateContacts alloc)) fs)))"

definition contactStoreClear :: "spiffs_faults \<Rightarrow> bool \<Rightarrow> flash \<Rightarrow> bool \<times> flash list" where
  "contactStoreClear env mounted fs = (if \<not> mounted then (False, [fs]) else removeStore env fs)"

definition contactStoreSave :: "spiffs_faults \<Rightarrow> bool \<Rightarrow> bool \<Rightarrow> int \<Rightarrow> (nat \<Rightarrow> StoredContact option) option \<Rightarrow>
    flash \<Rightarrow> bool \<times> flash list" where
  "contactStoreSave env mounted alloc count read fs =
     (if \<not> mounted then (False, [fs])
      else if count \<le> 0 then removeStore env fs
      else case read of None \<Rightarrow> (False, [fs])
           | Some rd \<Rightarrow> atomicFileReplace env (Some STORE_PATH) (Some (writeContacts count rd)) (Some (validateContacts alloc)) fs)"

fun load_contacts :: "(StoredContact \<Rightarrow> 'c \<Rightarrow> bool \<times> 'c) \<Rightarrow> StoredContact list \<Rightarrow> nat \<Rightarrow> 'c \<Rightarrow> nat \<times> 'c" where
  "load_contacts write [] loaded ctx = (loaded, ctx)"
| "load_contacts write (c # cs) loaded ctx =
     (case write c ctx of (True, ctx') \<Rightarrow> load_contacts write cs (loaded + 1) ctx' | (False, ctx') \<Rightarrow> (loaded, ctx'))"

text \<open>The flash after the load is the one recovery leaves.\<close>

definition contactStoreLoad :: "spiffs_faults \<Rightarrow> bool \<Rightarrow> bool \<Rightarrow> (StoredContact \<Rightarrow> 'c \<Rightarrow> bool \<times> 'c) option \<Rightarrow> 'c \<Rightarrow>
    flash \<Rightarrow> nat \<times> 'c \<times> flash list" where
  "contactStoreLoad env mounted alloc write ctx fs =
     (case write of
        None \<Rightarrow> (0, ctx, [fs])
      | Some wr \<Rightarrow>
          if \<not> mounted then (0, ctx, [fs])
          else let tr = snd (atomicFileRecover env (Some STORE_PATH) (Some (validateContacts alloc)) fs)
               in case last tr STORE_PATH of
                    None \<Rightarrow> (0, ctx, tr)
                  | Some data \<Rightarrow>
                      if \<not> can_read_live env then (0, ctx, tr)
                      else (case readValidatedContacts alloc (rd_open data) of
                              None \<Rightarrow> (0, ctx, tr)
                            | Some cs \<Rightarrow> (case load_contacts wr cs 0 ctx of (n, ctx') \<Rightarrow> (n, ctx', tr))))"

definition readFromArray :: "StoredContact list option \<Rightarrow> nat \<Rightarrow> StoredContact option" where
  "readFromArray contacts index = (case contacts of None \<Rightarrow> None | Some cs \<Rightarrow> Some (cs ! index))"

definition writeToArray :: "nat \<Rightarrow> StoredContact \<Rightarrow> StoredContact list \<Rightarrow> bool \<times> StoredContact list" where
  "writeToArray mx contact out = (if length out \<ge> mx then (False, out) else (True, out @ [contact]))"

definition contactStoreSaveAll :: "spiffs_faults \<Rightarrow> bool \<Rightarrow> bool \<Rightarrow> StoredContact list option \<Rightarrow> int \<Rightarrow> flash \<Rightarrow> bool \<times> flash list" where
  "contactStoreSaveAll env mounted alloc contacts count fs =
     (if count \<le> 0 then contactStoreSave env mounted alloc count None fs
      else contactStoreSave env mounted alloc count (Some (readFromArray contacts)) fs)"

definition contactStoreLoadAll :: "spiffs_faults \<Rightarrow> bool \<Rightarrow> bool \<Rightarrow> int \<Rightarrow> flash \<Rightarrow> nat \<times> StoredContact list \<times> flash list" where
  "contactStoreLoadAll env mounted alloc mx fs =
     (if mx \<le> 0 then (0, [], [fs])
      else case contactStoreLoad env mounted alloc (Some (writeToArray (nat mx))) [] fs of
             (_, out, tr) \<Rightarrow> (length out, out, tr))"

section \<open>Record round trip\<close>

lemmas contact_sizes = CONTACT_STORE_RECORD_SIZE_def CONTACT_STORE_V1_RECORD_SIZE_def

lemma length_contact_record: "contact_wf c \<Longrightarrow> length (contact_record c) = 151"
  by (simp add: contact_record_def contact_wf_def)

text \<open>What reading a stored contact gives: the contact with its name array's last byte cleared.\<close>

definition stored_form :: "StoredContact \<Rightarrow> StoredContact" where
  "stored_form c = c\<lparr>sc_name := (sc_name c)[31 := 0]\<rparr>"

lemma get_u32_at: "length xs = n \<Longrightarrow> get_u32 (xs @ put_u32 w @ ys) n = w"
  using get_u32_put_u32 [of xs w ys] by simp

lemma readContactRecord_write:
  assumes "contact_wf c"
  shows "readContactRecord (Some (contact_record c)) CONTACT_STORE_RECORD_SIZE =
    (if contactValid c then Some (stored_form c) else None)"
proof -
  let ?k = "sc_pub_key c" and ?n = "sc_name c" and ?p = "sc_out_path c"
  have l: "length ?k = 32" "length ?n = 32" "length ?p = 64" using assms by (auto simp: contact_wf_def)
  define h where "h = ?k @ ?n @ [sc_type c, sc_flags c, sc_out_path_len c] @ ?p"
  have lh: "length h = 131" using l by (simp add: h_def)
  have r: "contact_record c = h @ put_u32 (sc_last_advert_timestamp c) @ put_u32 (sc_lastmod c) @
     put_u32 (sc_gps_lat c) @ put_u32 (sc_gps_lon c) @ put_u32 (sc_sync_since c)"
    using l by (simp add: contact_record_def h_def)
  have u: "get_u32 (contact_record c) 131 = sc_last_advert_timestamp c"
    "get_u32 (contact_record c) 135 = sc_lastmod c" "get_u32 (contact_record c) 139 = sc_gps_lat c"
    "get_u32 (contact_record c) 143 = sc_gps_lon c" "get_u32 (contact_record c) 147 = sc_sync_since c"
    unfolding r using lh get_u32_at [of h 131] get_u32_at [of "h @ put_u32 (sc_last_advert_timestamp c)" 135]
      get_u32_at [of "h @ put_u32 (sc_last_advert_timestamp c) @ put_u32 (sc_lastmod c)" 139]
      get_u32_at [of "h @ put_u32 (sc_last_advert_timestamp c) @ put_u32 (sc_lastmod c) @ put_u32 (sc_gps_lat c)" 143]
      get_u32_at [of "h @ put_u32 (sc_last_advert_timestamp c) @ put_u32 (sc_lastmod c) @ put_u32 (sc_gps_lat c)
        @ put_u32 (sc_gps_lon c)" 147 _ "[]"]
    by simp_all
  have "take 32 (contact_record c) = ?k" "take 32 (drop 32 (contact_record c)) = ?n"
    "contact_record c ! 64 = sc_type c" "contact_record c ! 65 = sc_flags c"
    "contact_record c ! 66 = sc_out_path_len c" "take 64 (drop 67 (contact_record c)) = ?p"
    using l by (simp_all add: contact_record_def nth_append)
  then show ?thesis using u by (simp add: readContactRecord_def contactValid_def stored_form_def contact_sizes Let_def)
qed

lemma contactCandidateDuplicates_iff:
  "length k = 32 \<Longrightarrow> length e = 32 \<Longrightarrow> contactCandidateDuplicates (Some n) (Some k) (Some m) (Some e) \<longleftrightarrow> k = e"
  by (simp add: contactCandidateDuplicates_def)

definition candidate_ok :: "StoredContact \<Rightarrow> bool" where
  "candidate_ok c \<longleftrightarrow> contactValid c \<and>
     contactCandidateValid (Some (sc_name (stored_form c))) (Some (sc_pub_key c)) (sc_type c)"

section \<open>File round trip\<close>

definition contact_file :: "StoredContact list \<Rightarrow> byte list" where
  "contact_file cs = CONTACT_STORE_MAGIC @ [CONTACT_STORE_VERSION] @ put_u32 (word_of_nat (length cs)) @
     concat (map contact_record cs)"

definition contacts_ok :: "StoredContact list \<Rightarrow> bool" where
  "contacts_ok cs \<longleftrightarrow> list_all candidate_ok cs \<and> distinct (map sc_pub_key cs)"

lemma list_ex_dup:
  assumes "length (sc_pub_key c) = 32" and "list_all contact_wf ps"
  shows "list_ex (\<lambda>p. contactCandidateDuplicates (Some n) (Some (sc_pub_key c)) (Some (sc_name p)) (Some (sc_pub_key p))) ps
    \<longleftrightarrow> sc_pub_key c \<in> sc_pub_key ` set ps"
  using assms by (auto simp: list_ex_iff list_all_iff contact_wf_def contactCandidateDuplicates_iff)

lemma read_contacts_records:
  assumes "drop (rd_pos r) (rd_data r) = concat (map contact_record cs)" and "list_all contact_wf cs"
    and "list_all contact_wf acc" and "distinct (map sc_pub_key acc)"
  shows "read_contacts 2 CONTACT_STORE_RECORD_SIZE (length cs) r acc =
    (if list_all candidate_ok cs \<and> distinct (map sc_pub_key (acc @ cs)) then Some (acc @ map stored_form cs) else None)"
  using assms
proof (induction cs arbitrary: r acc)
  case (Cons c cs)
  have wf: "contact_wf c" "list_all contact_wf cs" using Cons.prems by auto
  let ?r = "r\<lparr>rd_pos := rd_pos r + 151\<rparr>"
  have d: "drop (rd_pos r) (rd_data r) = contact_record c @ concat (map contact_record cs)" using Cons.prems by simp
  have rd: "rd_read CONTACT_STORE_RECORD_SIZE r = (contact_record c, ?r)"
    using length_contact_record [OF wf(1)] by (simp add: rd_read_def d contact_sizes Let_def)
  have dr: "drop (rd_pos ?r) (rd_data ?r) = concat (map contact_record cs)"
    using arg_cong [OF d, of "drop 151"] length_contact_record [OF wf(1)] by (simp add: add.commute)
  have sf: "contact_wf (stored_form c)" "sc_pub_key (stored_form c) = sc_pub_key c" "sc_type (stored_form c) = sc_type c"
    "contactValid (stored_form c) = contactValid c"
    using wf(1) by (simp_all add: contact_wf_def stored_form_def contactValid_def)
  have len: "length (contact_record c) = CONTACT_STORE_RECORD_SIZE"
    using length_contact_record [OF wf(1)] by (simp add: contact_sizes)
  have dup: "list_ex (\<lambda>p. contactCandidateDuplicates (Some n) (Some (sc_pub_key c)) (Some (sc_name p)) (Some (sc_pub_key p))) acc
      \<longleftrightarrow> sc_pub_key c \<in> sc_pub_key ` set acc" for n
    using wf(1) Cons.prems(3) by (intro list_ex_dup) (simp add: contact_wf_def)
  note step = rd len sf dup readContactRecord_write [OF wf(1)]
  show ?case
  proof (cases "candidate_ok c \<and> sc_pub_key c \<notin> sc_pub_key ` set acc")
    case True
    have "read_contacts 2 CONTACT_STORE_RECORD_SIZE (length (c # cs)) r acc =
        read_contacts 2 CONTACT_STORE_RECORD_SIZE (length cs) ?r (acc @ [stored_form c])"
      using True by (simp add: step candidate_ok_def)
    also have "\<dots> = (if list_all candidate_ok cs \<and> distinct (map sc_pub_key ((acc @ [stored_form c]) @ cs))
        then Some ((acc @ [stored_form c]) @ map stored_form cs) else None)"
      using Cons.prems sf wf True by (intro Cons.IH dr) auto
    finally show ?thesis using True sf by simp
  next
    case False
    then have "read_contacts 2 CONTACT_STORE_RECORD_SIZE (length (c # cs)) r acc = None"
      by (auto simp: step candidate_ok_def)
    then show ?thesis using False by auto
  qed
qed simp

lemma sint_count: "n \<le> 350 \<Longrightarrow> sint (word_of_nat n :: u32) = int n"
proof -
  assume n: "n \<le> 350"
  then have "uint (word_of_nat n :: u32) = int n" by (simp add: uint_nat unat_of_nat)
  then show ?thesis using n by (simp add: sint_uint signed_take_bit_int_eq_self)
qed

lemma read_header_file:
  assumes "length cs \<le> 350"
  shows "read_header (rd_open (contact_file cs)) =
    Some (2, int (length cs), 9, \<lparr>rd_data = contact_file cs, rd_pos = 9\<rparr>)"
  using sint_count [OF assms] get_u32_put_u32_0 [of "word_of_nat (length cs)" "[]"]
  by (simp add: read_header_def rd_open_def rd_read_def rd_seek_def rd_size_def contact_file_def
      CONTACT_STORE_MAGIC_def CONTACT_STORE_VERSION_def Let_def)

lemma length_contact_file: "list_all contact_wf cs \<Longrightarrow> length (contact_file cs) = 9 + length cs * 151"
  by (induction cs) (auto simp: contact_file_def CONTACT_STORE_MAGIC_def length_contact_record)

lemma read_contact_file:
  assumes wf: "list_all contact_wf cs" and n: "cs \<noteq> []" "length cs \<le> 350"
  shows "readValidatedContacts True (rd_open (contact_file cs)) =
    (if contacts_ok cs then Some (map stored_form cs) else None)"
proof -
  have "read_contacts 2 CONTACT_STORE_RECORD_SIZE (length cs) \<lparr>rd_data = contact_file cs, rd_pos = 9\<rparr> [] =
      (if contacts_ok cs then Some (map stored_form cs) else None)"
    using wf by (subst read_contacts_records)
      (simp_all add: contacts_ok_def contact_file_def CONTACT_STORE_MAGIC_def)
  then show ?thesis
    using read_header_file [OF n(2)] length_contact_file [OF wf] n
    by (simp add: readValidatedContacts_def MAX_CONTACTS_def rd_size_def rd_open_def contact_sizes Let_def)
qed

section \<open>Writing the file\<close>

lemma contact_record_written:
  "contact_wf c \<Longrightarrow> the (writeContactRecord c (Some (replicate CONTACT_STORE_RECORD_SIZE 0)) CONTACT_STORE_RECORD_SIZE) = contact_record c"
  using length_contact_record [of c] by (simp add: writeContactRecord_def overwrite_0 contact_sizes)

lemma write_contact_records_prefix:
  assumes "\<forall>j < length cs. read (i + j) = Some (cs ! j)" and "list_all contact_wf cs"
  shows "prefix (wr_data (snd (write_contact_records read i (length cs) w))) (wr_data w @ concat (map contact_record cs)) \<and>
    (fst (write_contact_records read i (length cs) w) \<longrightarrow>
       wr_data (snd (write_contact_records read i (length cs) w)) = wr_data w @ concat (map contact_record cs) \<and>
       (cs \<noteq> [] \<longrightarrow> wr_good (snd (write_contact_records read i (length cs) w))))"
  using assms
proof (induction cs arbitrary: i w)
  case (Cons c cs)
  have rd: "read i = Some c" using Cons.prems(1) [rule_format, of 0] by simp
  have rest: "\<forall>j < length cs. read (i + 1 + j) = Some (cs ! j)"
  proof (intro allI impI)
    fix j assume "j < length cs"
    then show "read (i + 1 + j) = Some (cs ! j)" using Cons.prems(1) [rule_format, of "Suc j"] by simp
  qed
  have wf: "contact_wf c" "list_all contact_wf cs" using Cons.prems(2) by auto
  let ?d = "contact_record c"
  show ?case
  proof (cases "contactValid c")
    case False
    then show ?thesis using rd by simp
  next
    case True
    show ?thesis
    proof (cases rule: wr_write_cases [of ?d w])
      case full
      have "0 < length ?d" using length_contact_record [OF wf(1)] by simp
      then have g: "wr_good (snd (wr_write ?d w))" using full(3) by simp
      have "write_contact_records read i (length (c # cs)) w = write_contact_records read (i + 1) (length cs) (snd (wr_write ?d w))"
        using rd True full(1) contact_record_written [OF wf(1)] by (auto simp: Let_def split: prod.splits)
      then show ?thesis using Cons.IH [OF rest wf(2), of "snd (wr_write ?d w)"] full(2) g
        by (cases cs) (auto simp: prefix_append)
    next
      case (short k)
      have "write_contact_records read i (length (c # cs)) w = (False, snd (wr_write ?d w))"
        using rd True short(1) contact_record_written [OF wf(1)] by (auto simp: Let_def split: prod.splits)
      then show ?thesis using short(2) by (simp add: prefix_append take_is_prefix)
    qed
  qed
qed simp

lemma write_contact_records_ok:
  assumes "\<forall>j < length cs. read (i + j) = Some (cs ! j)" and "list_all contact_wf cs" and "list_all contactValid cs"
    and "wr_good w" and "length cs * 151 \<le> wr_room w"
  shows "fst (write_contact_records read i (length cs) w)"
  using assms
proof (induction cs arbitrary: i w)
  case (Cons c cs)
  have rd: "read i = Some c" using Cons.prems(1) [rule_format, of 0] by simp
  have rest: "\<forall>j < length cs. read (i + 1 + j) = Some (cs ! j)"
  proof (intro allI impI)
    fix j assume "j < length cs"
    then show "read (i + 1 + j) = Some (cs ! j)" using Cons.prems(1) [rule_format, of "Suc j"] by simp
  qed
  have wf: "contact_wf c" "list_all contact_wf cs" "list_all contactValid cs" "contactValid c" using Cons.prems by auto
  note len = length_contact_record [OF wf(1)]
  have "wr_write (contact_record c) w = (151, w\<lparr>wr_data := wr_data w @ contact_record c,
      wr_bytes_written := wr_bytes_written w + 151, wr_room := wr_room w - 151\<rparr>)"
    using Cons.prems len by (simp add: wr_write_ok)
  then show ?case
    using rd wf contact_record_written [OF wf(1)] len Cons.prems Cons.IH [OF rest wf(2,3)] by (simp add: Let_def)
qed simp

lemma writeContacts_spec:
  assumes rd: "\<forall>j < length cs. read j = Some (cs ! j)" and wf: "list_all contact_wf cs"
    and n: "cs \<noteq> []" "length cs \<le> 350"
  shows "prefix (wr_data (snd (writeContacts (int (length cs)) read (wr_open rm)))) (contact_file cs)"
    and "fst (writeContacts (int (length cs)) read (wr_open rm)) \<Longrightarrow>
      wr_data (snd (writeContacts (int (length cs)) read (wr_open rm))) = contact_file cs \<and>
      wr_good (snd (writeContacts (int (length cs)) read (wr_open rm)))"
    and "list_all contactValid cs \<Longrightarrow> length (contact_file cs) \<le> rm \<Longrightarrow>
      fst (writeContacts (int (length cs)) read (wr_open rm))"
proof -
  let ?m = CONTACT_STORE_MAGIC and ?v = "[CONTACT_STORE_VERSION]" and ?c = "put_u32 (word_of_nat (length cs))"
  let ?w0 = "wr_open rm"
  let ?W = "writeContacts (int (length cs)) read ?w0"
  obtain k1 w1 where 1: "wr_write ?m ?w0 = (k1, w1)" by force
  obtain k2 w2 where 2: "wr_write ?v w1 = (k2, w2)" by force
  obtain k3 w3 where 3: "wr_write ?c w2 = (k3, w3)" by force
  have W: "?W = (if k1 \<noteq> 4 then (False, w1) else if k2 \<noteq> 1 then (False, w2) else if k3 \<noteq> 4 then (False, w3)
      else write_contact_records read 0 (length cs) w3)"
    using n 1 2 3 by (simp add: writeContacts_def MAX_CONTACTS_def Let_def)
  have m4: "length ?m = 4" by (simp add: CONTACT_STORE_MAGIC_def)
  have d1: "k1 = 4 \<and> wr_data w1 = ?m \<or> k1 \<noteq> 4 \<and> prefix (wr_data w1) ?m"
    by (cases rule: wr_write_cases [of ?m ?w0]) (use 1 m4 take_is_prefix in \<open>auto simp: wr_open_def\<close>)
  have d2: "k2 = 1 \<and> wr_data w2 = wr_data w1 @ ?v \<or> k2 \<noteq> 1 \<and> prefix (wr_data w2) (wr_data w1 @ ?v)"
    by (cases rule: wr_write_cases [of ?v w1]) (use 2 take_is_prefix in \<open>auto simp: prefix_append\<close>)
  have d3: "k3 = 4 \<and> wr_data w3 = wr_data w2 @ ?c \<or> k3 \<noteq> 4 \<and> prefix (wr_data w3) (wr_data w2 @ ?c)"
    by (cases rule: wr_write_cases [of ?c w2]) (use 3 take_is_prefix in \<open>auto simp: prefix_append\<close>)
  note rec = write_contact_records_prefix [of cs read 0 w3]
  have cf: "contact_file cs = ?m @ ?v @ ?c @ concat (map contact_record cs)" by (simp add: contact_file_def)
  show "prefix (wr_data (snd ?W)) (contact_file cs)"
  proof (cases "k1 = 4 \<and> k2 = 1 \<and> k3 = 4")
    case True
    then show ?thesis using W d1 d2 d3 rec rd wf by (simp add: cf)
  next
    case False
    then consider "k1 \<noteq> 4" "snd ?W = w1" | "k1 = 4" "k2 \<noteq> 1" "snd ?W = w2" | "k1 = 4" "k2 = 1" "k3 \<noteq> 4" "snd ?W = w3"
      using W by (auto split: if_splits)
    then show ?thesis
    proof cases
      case 1
      then show ?thesis using d1 prefix_prefix [of "wr_data w1" ?m] by (simp add: cf)
    next
      case 2
      then show ?thesis using d1 d2 prefix_prefix [of "wr_data w2" "?m @ ?v"] by (simp add: cf)
    next
      case 3
      then show ?thesis using d1 d2 d3 prefix_prefix [of "wr_data w3" "?m @ ?v @ ?c"] by (simp add: cf)
    qed
  qed
  show "wr_data (snd ?W) = contact_file cs \<and> wr_good (snd ?W)" if "fst ?W"
    using that W d1 d2 d3 rec rd wf n by (auto simp: cf split: if_splits)
  show "fst ?W" if v: "list_all contactValid cs" and l: "length (contact_file cs) \<le> rm"
  proof -
    have l': "9 + length cs * 151 \<le> rm" using l length_contact_file [OF wf] by simp
    then have "k1 = 4" "w1 = ?w0\<lparr>wr_data := ?m, wr_bytes_written := 4, wr_room := rm - 4\<rparr>"
      using 1 m4 wr_write_ok [of ?w0 ?m] by (auto simp: wr_open_def)
    moreover from this have "k2 = 1" "w2 = w1\<lparr>wr_data := ?m @ ?v, wr_bytes_written := 5, wr_room := rm - 5\<rparr>"
      using 2 l' wr_write_ok [of w1 ?v] by (auto simp: wr_open_def)
    moreover from this calculation have "k3 = 4" "wr_good w3" "wr_room w3 = rm - 9"
      using 3 l' wr_write_ok [of w2 ?c] by (auto simp: wr_open_def)
    ultimately show ?thesis using W write_contact_records_ok [of cs read 0 w3] rd wf v l' by simp
  qed
qed

section \<open>The format is self-delimiting\<close>

text \<open>The file length the first bytes determine.\<close>

definition contact_file_length :: "byte list \<Rightarrow> nat option" where
  "contact_file_length d =
     (if length d < 4 then None
      else if take 4 d = CONTACT_STORE_MAGIC
      then if length d < 9 then None
           else Some (9 + nat (sint (get_u32 (take 4 (drop 5 d)) 0)) *
                      (if d ! 4 \<ge> 2 then CONTACT_STORE_RECORD_SIZE else CONTACT_STORE_V1_RECORD_SIZE))
      else Some (4 + nat (sint (get_u32 (take 4 d) 0)) * CONTACT_STORE_V1_RECORD_SIZE))"

lemma read_header_open:
  "read_header (rd_open d) =
     (if length d < 4 then None
      else if take 4 d = CONTACT_STORE_MAGIC
      then if length d < 9 \<or> d ! 4 < 1 \<or> d ! 4 > CONTACT_STORE_VERSION then None
           else Some (d ! 4, sint (get_u32 (take 4 (drop 5 d)) 0), 9, \<lparr>rd_data = d, rd_pos = 9\<rparr>)
      else Some (0, sint (get_u32 (take 4 d) 0), 4, \<lparr>rd_data = d, rd_pos = 4\<rparr>))"
proof (cases "4 < length d \<and> take 4 d = CONTACT_STORE_MAGIC")
  case False
  then show ?thesis
    by (auto simp: read_header_def rd_read_def rd_seek_def rd_size_def rd_open_def Let_def)
next
  case True
  then have t: "take 1 (drop 4 d) = [d ! 4]" by (simp add: take_Suc hd_drop_conv_nth)
  have "read_header (rd_open d) =
      (if d ! 4 < 1 \<or> d ! 4 > CONTACT_STORE_VERSION then None
       else if length (take 4 (drop 5 d)) \<noteq> 4 then None
       else Some (d ! 4, sint (get_u32 (take 4 (drop 5 d)) 0), 9, \<lparr>rd_data = d, rd_pos = 9\<rparr>))"
    using True t by (simp add: read_header_def rd_read_def rd_seek_def rd_size_def rd_open_def Let_def)
  moreover have "length (take 4 (drop 5 d)) \<noteq> 4 \<longleftrightarrow> length d < 9" by auto
  ultimately have "read_header (rd_open d) =
      (if d ! 4 < 1 \<or> d ! 4 > CONTACT_STORE_VERSION then None
       else if length d < 9 then None
       else Some (d ! 4, sint (get_u32 (take 4 (drop 5 d)) 0), 9, \<lparr>rd_data = d, rd_pos = 9\<rparr>))"
    by (simp only:)
  then show ?thesis using True by auto
qed

lemma contact_file_length_valid:
  assumes "readValidatedContacts alloc (rd_open d) = Some cs"
  shows "contact_file_length d = Some (length d)"
proof -
  obtain v n h r where hd: "read_header (rd_open d) = Some (v, n, h, r)"
    and l: "length d = h + nat n * (if v \<ge> 2 then CONTACT_STORE_RECORD_SIZE else CONTACT_STORE_V1_RECORD_SIZE)"
    using assms by (auto simp: readValidatedContacts_def rd_size_def rd_open_def Let_def split: option.splits if_splits)
  then show ?thesis
    by (cases "take 4 d = CONTACT_STORE_MAGIC") (auto simp: read_header_open contact_file_length_def split: if_splits)
qed

lemma contact_file_length_prefix:
  assumes "prefix e d" and "contact_file_length e = Some k"
  shows "contact_file_length d = Some k"
proof -
  obtain z where d: "d = e @ z" using assms(1) by (auto simp: prefix_def)
  have e4: "4 \<le> length e" using assms(2) by (auto simp: contact_file_length_def split: if_splits)
  then have t: "take 4 d = take 4 e" by (simp add: d)
  show ?thesis
  proof (cases "take 4 e = CONTACT_STORE_MAGIC")
    case True
    then have "9 \<le> length e" using assms(2) by (auto simp: contact_file_length_def split: if_splits)
    then show ?thesis using assms(2) t True by (simp add: contact_file_length_def d nth_append split: if_splits)
  next
    case False
    then show ?thesis using assms(2) t e4 by (simp add: contact_file_length_def d split: if_splits)
  qed
qed

interpretation contacts: validated_file "validateContacts alloc" for alloc :: bool
proof unfold_locales
  fix d e
  assume v: "validateContacts alloc d" and s: "strict_prefix e d"
  show "\<not> validateContacts alloc e"
  proof
    assume "validateContacts alloc e"
    then have "contact_file_length e = Some (length e)" using contact_file_length_valid by (auto simp: validateContacts_def)
    moreover have "contact_file_length d = Some (length d)" using v contact_file_length_valid by (auto simp: validateContacts_def)
    ultimately have "length e = length d" using contact_file_length_prefix [of e d] s by (simp add: strict_prefix_def)
    then show False using s by (auto simp: strict_prefix_def prefix_def)
  qed
qed

section \<open>Loading\<close>

lemma load_to_array: "load_contacts (writeToArray m) cs k out = (k + min (length cs) (m - length out), out @ take (m - length out) cs)"
proof (induction cs arbitrary: k out)
  case (Cons c cs)
  show ?case
  proof (cases "m \<le> length out")
    case False
    then obtain j where "m - length out = Suc j" by (cases "m - length out") auto
    moreover from this have "m - Suc (length out) = j" by simp
    ultimately show ?thesis using Cons by (simp add: writeToArray_def)
  qed (simp add: writeToArray_def)
qed simp

lemma read_contacts_length: "read_contacts v rs n r acc = Some cs \<Longrightarrow> length cs = length acc + n"
  by (induction v rs n r acc rule: read_contacts.induct) (auto simp: Let_def split: option.splits if_splits prod.splits)

lemma readValidated_bound: "readValidatedContacts alloc r = Some cs \<Longrightarrow> length cs \<le> 350"
  by (auto simp: readValidatedContacts_def MAX_CONTACTS_def Let_def split: option.splits if_splits dest!: read_contacts_length)

lemma STORE_temp: "atomicFileTempPath (Some STORE_PATH) 192 = Some (STORE_PATH @ TMP_SUFFIX)"
  by (simp add: atomicFileTempPath_def STORE_PATH_def TMP_SUFFIX_def)

lemma contactStoreLoadAll_clean:
  assumes "atomicFileRecover (no_faults n) (Some STORE_PATH) (Some (validateContacts alloc)) fs = (ok, tr)"
    and "last tr STORE_PATH = Some d" and "readValidatedContacts alloc (rd_open d) = Some cs"
  shows "contactStoreLoadAll (no_faults n) True alloc 350 fs = (length cs, cs, tr)"
  using assms readValidated_bound [OF assms(3)]
  by (simp add: contactStoreLoadAll_def contactStoreLoad_def load_to_array Let_def) (simp add: no_faults_def)

lemma save_written:
  assumes "list_all contact_wf cs" and "cs \<noteq> []" and "length cs \<le> 350"
  shows "contactStoreSaveAll env True alloc (Some cs) (int (length cs)) fs =
      atomicFileReplace env (Some STORE_PATH) (Some (writeContacts (int (length cs)) (readFromArray (Some cs))))
        (Some (validateContacts alloc)) fs"
    and "prefix (wr_data (snd (writeContacts (int (length cs)) (readFromArray (Some cs)) (wr_open rm)))) (contact_file cs)"
  using writeContacts_spec(1) [of cs "readFromArray (Some cs)" rm] assms
  by (simp_all add: contactStoreSaveAll_def contactStoreSave_def readFromArray_def)

lemma validate_contact_file:
  assumes "list_all contact_wf cs" and "cs \<noteq> []" and "length cs \<le> 350"
  shows "validateContacts True (contact_file cs) \<longleftrightarrow> contacts_ok cs"
  using read_contact_file [OF assms] by (simp add: validateContacts_def)

section \<open>Contact references\<close>

text \<open>\<open>snprintf\<close> into a buffer of \<open>out_size\<close> bytes: as much of the text as fits, then a terminator.\<close>

definition snprintf_text :: "cstring \<Rightarrow> byte list \<Rightarrow> nat \<Rightarrow> byte list" where
  "snprintf_text s out out_size = (if out_size = 0 then out else overwrite out 0 (take (out_size - 1) s @ [0]))"

definition contactDisplayLabel :: "byte list option \<Rightarrow> byte list option \<Rightarrow> bool \<Rightarrow> byte list option \<Rightarrow> nat \<Rightarrow> bool \<times> byte list option" where
  "contactDisplayLabel name contact_id disambiguate out out_size =
     (case (name, contact_id, out) of
        (Some n, Some i, Some d) \<Rightarrow>
          if out_size = 0 then (False, out)
          else let s = (if disambiguate then cstr n @ [0x20, 0x5B] @ take 8 (cstr i) @ [0x5D] else cstr n)
               in (length s < out_size, Some (snprintf_text s d out_size))
      | _ \<Rightarrow> (False, out))"

record ContactReferenceResolver =
  res_reference :: "byte list option"
  res_pub_key :: "byte list"
  res_match :: int
  res_stable_id :: bool
  res_ambiguous :: bool

definition resolver_new :: "byte list option \<Rightarrow> ContactReferenceResolver" where
  "resolver_new reference =
     (case contactIdToPubKey reference (Some (replicate 32 0)) of
        (ok, k) \<Rightarrow> \<lparr>res_reference = reference, res_pub_key = the k, res_match = -1, res_stable_id = ok, res_ambiguous = False\<rparr>)"

definition resolver_consider :: "int \<Rightarrow> byte list option \<Rightarrow> byte list option \<Rightarrow> ContactReferenceResolver \<Rightarrow> ContactReferenceResolver" where
  "resolver_consider index name pub_key r =
     (case (name, pub_key, res_reference r) of
        (Some n, Some k, Some ref) \<Rightarrow>
          if index < 0 \<or> res_ambiguous r then r
          else if \<not> (if res_stable_id r then take 32 (res_pub_key r) = take 32 k else cstr ref = cstr n) then r
          else if res_match r \<ge> 0 then r\<lparr>res_ambiguous := True\<rparr>
          else r\<lparr>res_match := index\<rparr>
      | _ \<Rightarrow> r)"

definition resolver_result :: "ContactReferenceResolver \<Rightarrow> int" where
  "resolver_result r = (if res_ambiguous r then -1 else res_match r)"

definition nextContactRevision :: "u32 \<Rightarrow> u32 \<Rightarrow> u32 option" where
  "nextContactRevision clock_value high_water =
     (if high_water = 0xFFFFFFFF then None
      else Some (if clock_value > high_water then clock_value else high_water + 1))"

text \<open>The loop every caller runs: the contacts of a table in order, each under its index.\<close>

definition resolve_in :: "byte list \<Rightarrow> (byte list \<times> byte list) list \<Rightarrow> int" where
  "resolve_in reference table =
     resolver_result (fold (\<lambda>(i, n, k) r. resolver_consider (int i) (Some n) (Some k) r)
       (enumerate 0 table) (resolver_new (Some reference)))"

text \<open>Which contacts a reference denotes: those whose key it spells, if it is a contact id, and those of that name otherwise.\<close>

definition reference_matches :: "byte list \<Rightarrow> byte list \<times> byte list \<Rightarrow> bool" where
  "reference_matches reference c =
     (if length (cstr reference) = 64 \<and> list_all hex_char (cstr reference)
      then map lower_hex (cstr reference) = hex_bytes (snd c) else cstr reference = cstr (fst c))"

definition resolver_accepts :: "ContactReferenceResolver \<Rightarrow> byte list \<times> byte list \<Rightarrow> bool" where
  "resolver_accepts r c = (if res_stable_id r then take 32 (res_pub_key r) = take 32 (snd c) else cstr (the (res_reference r)) = cstr (fst c))"

lemma resolver_fold:
  assumes "res_reference r = Some ref" and "res_match r = -1" and "\<not> res_ambiguous r"
  shows "fold (\<lambda>(i, n, k). resolver_consider (int i) (Some n) (Some k)) xs r =
    (let hits = filter (\<lambda>(i, c). resolver_accepts r c) xs
     in r\<lparr>res_match := (case hits of [] \<Rightarrow> -1 | (i, _) # _ \<Rightarrow> int i), res_ambiguous := 2 \<le> length hits\<rparr>)"
proof (induction xs rule: rev_induct)
  case Nil
  then show ?case using assms by simp
next
  case (snoc x xs)
  obtain i n k where x: "x = (i, n, k)" by (cases x)
  let ?hits = "filter (\<lambda>(i, c). resolver_accepts r c) xs"
  have "?hits = [] \<or> length ?hits = 1 \<or> 2 \<le> length ?hits" by (cases ?hits rule: list.exhaust) (auto simp: Suc_le_eq)
  then consider "?hits = []" | h where "?hits = [h]" | h1 h2 hs where "?hits = h1 # h2 # hs"
    by (cases ?hits rule: remdups_adj.cases) auto
  then show ?case
    by cases (use snoc assms in \<open>auto simp: x resolver_consider_def resolver_accepts_def Let_def split: prod.splits\<close>)
qed

lemma resolver_accepts_matches:
  assumes "length (snd c) = 32"
  shows "resolver_accepts (resolver_new (Some reference)) c \<longleftrightarrow> reference_matches reference c"
proof -
  obtain ok k where k: "contactIdToPubKey (Some reference) (Some (replicate 32 0)) = (ok, k)" by force
  have ke: "\<exists>d. k = Some d" using k by (auto simp: contactIdToPubKey_def split: prod.splits if_splits)
  have iff: "contactIdToPubKey (Some reference) (Some (replicate 32 0)) = (True, Some pk) \<longleftrightarrow>
      length pk = 32 \<and> map lower_hex (cstr reference) = hex_bytes pk" for pk
    by (rule contactIdToPubKey_iff) simp
  show ?thesis
  proof (cases ok)
    case True
    obtain d where d: "k = Some d" using ke by blast
    have h: "length d = 32" "map lower_hex (cstr reference) = hex_bytes d" using iff [of d] k True d by auto
    then have "unhex (cstr reference) = Some d" by (simp add: unhex_iff)
    then have "length (cstr reference) = 64 \<and> list_all hex_char (cstr reference)"
      using hex_bytes_unhex [of "cstr reference" d] h by (auto simp: list_all_iff)
    moreover have "hex_bytes d = hex_bytes (snd c) \<longleftrightarrow> d = snd c" using unhex_hex_bytes by (metis option.inject)
    ultimately show ?thesis using h k True d assms by (simp add: resolver_accepts_def resolver_new_def reference_matches_def)
  next
    case False
    have "\<not> (length (cstr reference) = 64 \<and> list_all hex_char (cstr reference))"
    proof
      assume a: "length (cstr reference) = 64 \<and> list_all hex_char (cstr reference)"
      then have "unhex (cstr reference) \<noteq> None" by (auto simp: unhex_None list_all_iff)
      then obtain pk where "unhex (cstr reference) = Some pk" by blast
      then show False using iff [of pk] hex_bytes_unhex [of "cstr reference" pk] a k False by simp
    qed
    then show ?thesis using k False by (auto simp: resolver_accepts_def resolver_new_def reference_matches_def)
  qed
qed

lemma filter_enumerate: "map fst (filter (\<lambda>(i, c). P c) (enumerate n xs)) = filter (\<lambda>i. P (xs ! (i - n))) [n..<n + length xs]"
proof (induction xs arbitrary: n)
  case (Cons x xs)
  have "filter (\<lambda>i. P ((x # xs) ! (i - n))) [Suc n..<Suc n + length xs] = filter (\<lambda>i. P (xs ! (i - Suc n))) [Suc n..<Suc n + length xs]"
    by (intro filter_cong refl) (auto simp: nth_Cons' Suc_diff_Suc)
  moreover have "[n..<n + length (x # xs)] = n # [Suc n..<Suc n + length xs]"
    by (simp add: upt_rec [of n] del: upt_Suc)
  ultimately show ?case using Cons [of "Suc n"] by (simp del: upt_Suc)
qed simp

section \<open>Properties\<close>

text \<open>
  C4: a power failure while the contacts are being saved loses nothing that was stored. Whatever
  flash calls fail and in whichever state the power goes, what the next start loads is the
  complete list that was saved before or the complete new list, never a mixture or a part.
\<close>

theorem contacts_survive_power_loss:
  assumes "list_all contact_wf old" and "old \<noteq> []" and "length old \<le> 350" and "contacts_ok old"
    and "list_all contact_wf new" and "new \<noteq> []" and "length new \<le> 350" and "contacts_ok new"
    and "fs STORE_PATH = Some (contact_file old)"
    and "case fs (STORE_PATH @ TMP_SUFFIX) of None \<Rightarrow> True | Some d \<Rightarrow> \<not> validateContacts True d"
    and "\<sigma> \<in> set (snd (contactStoreSaveAll env True True (Some new) (int (length new)) fs))"
  shows "\<exists>tr. contactStoreLoadAll (no_faults n) True True 350 \<sigma> = (length old, map stored_form old, tr) \<or>
    contactStoreLoadAll (no_faults n) True True 350 \<sigma> = (length new, map stored_form new, tr)"
proof -
  obtain ok tr where r: "atomicFileReplace env (Some STORE_PATH)
      (Some (writeContacts (int (length new)) (readFromArray (Some new)))) (Some (validateContacts True)) fs = (ok, tr)" by force
  then have s: "\<sigma> \<in> set tr" using assms(11) save_written(1) [OF assms(5,6,7)] by simp
  obtain ok' tr' where rec: "atomicFileRecover (no_faults n) (Some STORE_PATH) (Some (validateContacts True)) \<sigma> = (ok', tr')" by force
  have "last tr' STORE_PATH = Some (contact_file old) \<or> last tr' STORE_PATH = Some (contact_file new)"
    using contacts.crash_recover [OF STORE_temp assms(9) _ save_written(2) [OF assms(5,6,7)] _ _ r s rec] assms(10)
      validate_contact_file [OF assms(5,6,7)] assms(8) by (auto split: option.splits)
  then show ?thesis
    using contactStoreLoadAll_clean [OF rec] read_contact_file [OF assms(1,2,3)] read_contact_file [OF assms(5,6,7)] assms(4,8)
    by fastforce
qed

text \<open>Two contacts the witnesses store.\<close>

definition sample_contact :: "byte \<Rightarrow> StoredContact" where
  "sample_contact b = \<lparr>sc_pub_key = replicate 32 b, sc_name = pad_to 32 [0x41], sc_type = 1, sc_flags = 0,
     sc_out_path_len = 0xFF, sc_out_path = replicate 64 0, sc_last_advert_timestamp = 7, sc_lastmod = 8,
     sc_gps_lat = 0, sc_gps_lon = 0, sc_sync_since = 0\<rparr>"

lemma sample_contact_ok:
  "contact_wf (sample_contact b)"
  "b \<noteq> 0 \<Longrightarrow> candidate_ok (sample_contact b)"
  "sc_pub_key (sample_contact b) = sc_pub_key (sample_contact c) \<longleftrightarrow> b = c"
proof -
  show "contact_wf (sample_contact b)" by (simp add: sample_contact_def contact_wf_def)
  have "strnlen ((pad_to 32 [0x41])[31 := 0]) 32 = 1" "(pad_to 32 [0x41])[31 := 0] ! 0 = (0x41 :: byte)"
    "storedLengthValid 0xFF" by code_simp+
  then show "candidate_ok (sample_contact b)" if "b \<noteq> 0"
    using that by (simp add: candidate_ok_def contactValid_def contactCandidateValid_def stored_form_def sample_contact_def
        list_ex_iff Let_def) (auto intro: exI [of _ 0])
  show "sc_pub_key (sample_contact b) = sc_pub_key (sample_contact c) \<longleftrightarrow> b = c"
    by (simp add: sample_contact_def)
qed

theorem contacts_survive_power_loss_witness:
  "let old = [sample_contact 1]; new = [sample_contact 2, sample_contact 3];
       fs = (\<lambda>_. None)(STORE_PATH := Some (contact_file old));
       \<sigma> = snd (contactStoreSaveAll (no_faults 100) True True (Some new) 2 fs) ! 2
   in \<exists>tr. contactStoreLoadAll (no_faults 0) True True 350 \<sigma> = (1, map stored_form old, tr) \<or>
     contactStoreLoadAll (no_faults 0) True True 350 \<sigma> = (2, map stored_form new, tr)"
proof -
  let ?old = "[sample_contact 1]" and ?new = "[sample_contact 2, sample_contact 3]"
  let ?fs = "(\<lambda>_. None)(STORE_PATH := Some (contact_file ?old)) :: flash"
  let ?tr = "snd (contactStoreSaveAll (no_faults 100) True True (Some ?new) (int (length ?new)) ?fs)"
  have ok: "contacts_ok ?old" "contacts_ok ?new" by (auto simp: contacts_ok_def sample_contact_ok)
  have "2 < length ?tr"
    by (simp add: contactStoreSaveAll_def contactStoreSave_def atomicFileReplace_def STORE_temp no_faults_def Let_def
        split: prod.splits bool.splits)
  then have "?tr ! 2 \<in> set ?tr" by (rule nth_mem)
  then show ?thesis
    using contacts_survive_power_loss [of ?old ?new ?fs "?tr ! 2" "no_faults 100" 0] ok
    by (simp add: sample_contact_ok Let_def TMP_SUFFIX_def numeral_2_eq_2)
qed

text \<open>
  A save on a working flash succeeds exactly when every contact is storable and no two share a
  key, and then a load returns the same contacts in the same order; otherwise the stored list
  is untouched.
\<close>

theorem contacts_save_load:
  assumes "list_all contact_wf cs" and "cs \<noteq> []" and "length cs \<le> 350" and "9 + length cs * 151 \<le> n"
    and "contactStoreSaveAll (no_faults n) True True (Some cs) (int (length cs)) fs = (ok, tr)"
  shows "ok = contacts_ok cs \<and>
    (if ok then contactStoreLoadAll (no_faults m) True True 350 (last tr) = (length cs, map stored_form cs, [last tr])
     else last tr STORE_PATH = fs STORE_PATH)"
proof -
  let ?save = "writeContacts (int (length cs)) (readFromArray (Some cs))" and ?t = "STORE_PATH @ TMP_SUFFIX"
  note spec = writeContacts_spec [of cs "readFromArray (Some cs)" n, OF _ assms(1-3)]
  have rd: "\<forall>j < length cs. readFromArray (Some cs) j = Some (cs ! j)" by (simp add: readFromArray_def)
  obtain wok w where w: "?save (wr_open n) = (wok, w)" by force
  have r: "atomicFileReplace (no_faults n) (Some STORE_PATH) (Some ?save) (Some (validateContacts True)) fs = (ok, tr)"
    using assms(5) save_written(1) [OF assms(1-3)] by simp
  note valid = validate_contact_file [OF assms(1-3)]
  show ?thesis
  proof (cases "contacts_ok cs")
    case True
    then have "list_all contactValid cs" by (auto simp: contacts_ok_def candidate_ok_def list_all_iff)
    then have wok: "wok" using spec(3) [OF rd] assms(4) length_contact_file [OF assms(1)] w by simp
    then have wd: "wr_data w = contact_file cs" "wr_good w" using spec(2) [OF rd] w by simp_all
    then have ok: "ok" using replace_ok [OF STORE_temp, of ?save n w "validateContacts True" fs] w wok valid True r by simp
    have "last tr = fs(STORE_PATH := Some (contact_file cs), ?t := None)"
      using replace_states(2) [OF STORE_temp refl r] ok w wd(1) by (simp add: no_faults_def)
    then have l: "last tr STORE_PATH = Some (contact_file cs)" "last tr ?t = None" by (simp_all add: TMP_SUFFIX_def)
    then have "atomicFileRecover (no_faults m) (Some STORE_PATH) (Some (validateContacts True)) (last tr) = (True, [last tr])"
      by (simp add: atomicFileRecover_def STORE_temp fileExists_def)
    then show ?thesis
      using contactStoreLoadAll_clean [where tr = "[last tr]"] l read_contact_file [OF assms(1-3)] True ok by simp
  next
    case False
    have "\<not> (wok \<and> wr_good w \<and> validateContacts True (wr_data w))" using spec(2) [OF rd] w False valid by auto
    then show ?thesis
      using replace_clean_fail [OF STORE_temp, of ?save n wok w "validateContacts True" fs] w r False by (auto simp: TMP_SUFFIX_def)
  qed
qed

theorem contacts_save_load_witness:
  "\<exists>tr. contactStoreSaveAll (no_faults 400) True True (Some [sample_contact 2, sample_contact 3]) 2 (\<lambda>_. None) = (True, tr) \<and>
     contactStoreLoadAll (no_faults 0) True True 350 (last tr) =
       (2, map stored_form [sample_contact 2, sample_contact 3], [last tr])"
proof -
  let ?cs = "[sample_contact 2, sample_contact 3]"
  obtain ok tr where r: "contactStoreSaveAll (no_faults 400) True True (Some ?cs) (int (length ?cs)) (\<lambda>_. None) = (ok, tr)" by force
  have "contacts_ok ?cs" by (auto simp: contacts_ok_def sample_contact_ok)
  then show ?thesis using contacts_save_load [OF _ _ _ _ r, of 0] r by (simp add: sample_contact_ok numeral_2_eq_2)
qed

text \<open>
  C31: a contact reference names a contact only if it names exactly one. A reference that is a
  64-digit hex id is compared with the keys alone, every other one with the display names; the
  result is the index of the single match, and -1 when nothing matches or several do.
\<close>

theorem contact_reference_unambiguous:
  assumes "list_all (\<lambda>(n, k). length k = 32) table"
  shows "resolve_in reference table =
    (case filter (\<lambda>i. reference_matches reference (table ! i)) [0..<length table] of [i] \<Rightarrow> int i | _ \<Rightarrow> -1)"
proof -
  let ?r = "resolver_new (Some reference)"
  have r: "res_reference ?r = Some reference" "res_match ?r = -1" "\<not> res_ambiguous ?r"
    by (simp_all add: resolver_new_def split: prod.splits)
  let ?hits = "filter (\<lambda>(i, c). resolver_accepts ?r c) (enumerate 0 table)"
  have "filter (\<lambda>i. resolver_accepts ?r (table ! i)) [0..<length table] =
      filter (\<lambda>i. reference_matches reference (table ! i)) [0..<length table]"
    using assms by (intro filter_cong refl resolver_accepts_matches) (auto simp: list_all_length case_prod_beta)
  then have h: "map fst ?hits = filter (\<lambda>i. reference_matches reference (table ! i)) [0..<length table]"
    using filter_enumerate [of "resolver_accepts ?r" 0 table] by simp
  show ?thesis unfolding h [symmetric] resolve_in_def resolver_fold [OF r] resolver_result_def Let_def
    by (cases ?hits rule: remdups_adj.cases) auto
qed

theorem contact_reference_unambiguous_witness:
  "resolve_in [0x42] [([0x41], replicate 32 1), ([0x42], replicate 32 2), ([0x42, 0, 7], replicate 32 3)] = -1 \<and>
   resolve_in [0x41] [([0x41], replicate 32 1), ([0x42], replicate 32 2)] = 0"
  using contact_reference_unambiguous [of "[([0x41], replicate 32 1), ([0x42], replicate 32 2), ([0x42, 0, 7], replicate 32 3)]" "[0x42]"]
    contact_reference_unambiguous [of "[([0x41], replicate 32 1), ([0x42], replicate 32 2)]" "[0x41]"]
  by (simp add: reference_matches_def cstr_def upt_conv_Cons)

end
