(* ===== verification/MessageCodec.thy ===== *)
theory MessageCodec
  imports SigPrelude Utf8
begin

text \<open>
  Messages as the message log stores them (\<open>mesh/message_store.h\<close> and the record part of
  \<open>mesh/message_store.cpp\<close>): the flags byte, normalisation, identity and its hash, the current and
  the version 5 record formats, the file header, and the id arithmetic.

  A message's arrays have their declared lengths (\<open>msg_wf\<close>); \<open>int16_t\<close> and \<open>int8_t\<close> fields are kept as
  the words that are stored. A record or header is a byte list.
\<close>

section \<open>Messages\<close>

record StoredMessage =
  sm_store_id :: u32
  sm_conversation :: "byte list"
  sm_sender :: "byte list"
  sm_text :: "byte list"
  sm_timestamp :: u32
  sm_sender_prefix :: "byte list"
  sm_rssi :: u16
  sm_snr_quarters :: byte
  sm_path_len :: byte
  sm_txt_type :: byte
  sm_attempt :: byte
  sm_extra_len :: byte
  sm_extra :: "byte list"
  sm_is_self :: bool
  sm_is_channel :: bool
  sm_acked :: bool
  sm_confirmation_lost :: bool
  sm_companion_sent :: bool
  sm_route_flood :: bool
  sm_route_known :: bool
  sm_attempt_known :: bool

definition msg_wf :: "StoredMessage \<Rightarrow> bool" where
  "msg_wf m \<longleftrightarrow> length (sm_conversation m) = 32 \<and> length (sm_sender m) = 32 \<and> length (sm_text m) = 160 \<and>
     length (sm_sender_prefix m) = 6 \<and> length (sm_extra m) = 8"

datatype MessageStoreRecoveryResult = Clean | Migrated | Repaired | Salvaged | Quarantined | UnsupportedVersion | Failed

definition MESSAGE_STORE_MAGIC :: u32 where "MESSAGE_STORE_MAGIC = 0x534d5347"
definition MESSAGE_STORE_VERSION :: byte where "MESSAGE_STORE_VERSION = 6"
definition MESSAGE_STORE_V4_HEADER_SIZE :: nat where "MESSAGE_STORE_V4_HEADER_SIZE = 9"
definition MESSAGE_STORE_HEADER_SIZE :: nat where "MESSAGE_STORE_HEADER_SIZE = 13"
definition MESSAGE_STORE_V5_RECORD_SIZE :: nat where
  "MESSAGE_STORE_V5_RECORD_SIZE = 4 + 32 + 32 + 160 + 4 + 6 + 2 + 1 + 1 + 1 + 1 + 8 + 1"
definition MESSAGE_STORE_RECORD_SIZE :: nat where
  "MESSAGE_STORE_RECORD_SIZE = 4 + 32 + 32 + 160 + 4 + 6 + 2 + 1 + 1 + 1 + 1 + 1 + 8 + 1"
definition MESSAGE_STORE_MAX_RECORDS :: u32 where "MESSAGE_STORE_MAX_RECORDS = 512"
definition MESSAGE_STORE_COMPACT_TO_RECORDS :: u32 where "MESSAGE_STORE_COMPACT_TO_RECORDS = 448"
definition MESSAGE_STORE_RETRY_QUEUE_CAPACITY :: nat where "MESSAGE_STORE_RETRY_QUEUE_CAPACITY = 8"

lemmas message_sizes = MESSAGE_STORE_V4_HEADER_SIZE_def MESSAGE_STORE_HEADER_SIZE_def MESSAGE_STORE_V5_RECORD_SIZE_def
  MESSAGE_STORE_RECORD_SIZE_def

section \<open>Flags\<close>

definition flag_bit :: "bool \<Rightarrow> byte \<Rightarrow> byte \<Rightarrow> byte" where
  "flag_bit c b flags = (if c then flags OR b else flags)"

definition flagsFor :: "StoredMessage \<Rightarrow> byte" where
  "flagsFor m = flag_bit (sm_attempt_known m) 0x80 (flag_bit (sm_route_known m) 0x40 (flag_bit (sm_route_flood m) 0x20
     (flag_bit (sm_confirmation_lost m) 0x10 (flag_bit (sm_companion_sent m) 0x08 (flag_bit (sm_acked m) 0x04
     (flag_bit (sm_is_channel m) 0x02 (flag_bit (sm_is_self m) 0x01 0)))))))"

definition applyFlags :: "byte \<Rightarrow> StoredMessage \<Rightarrow> StoredMessage" where
  "applyFlags flags m = m\<lparr>
     sm_is_self := (flags AND 0x01 \<noteq> 0), sm_is_channel := (flags AND 0x02 \<noteq> 0), sm_acked := (flags AND 0x04 \<noteq> 0),
     sm_companion_sent := (flags AND 0x08 \<noteq> 0), sm_confirmation_lost := (flags AND 0x10 \<noteq> 0),
     sm_route_flood := (flags AND 0x20 \<noteq> 0), sm_route_known := (flags AND 0x40 \<noteq> 0),
     sm_attempt_known := (flags AND 0x80 \<noteq> 0)\<rparr>"

section \<open>Normalisation and identity\<close>

text \<open>\<open>strncmp(a, b, n) == 0\<close>: the texts agree up to \<open>n\<close> bytes.\<close>

definition strncmp_eq :: "byte list \<Rightarrow> byte list \<Rightarrow> nat \<Rightarrow> bool" where
  "strncmp_eq a b n \<longleftrightarrow> cstr (take n a) = cstr (take n b)"

definition storedMessageNormalize :: "StoredMessage \<Rightarrow> StoredMessage" where
  "storedMessageNormalize m = m\<lparr>
     sm_conversation := (sm_conversation m)[31 := 0],
     sm_sender := (sm_sender m)[31 := 0],
     sm_text := the (fst (utf8_copy_truncate_n (Some (sm_text m)) 160 (Some (sm_text m)) 160)),
     sm_extra_len := (if sm_extra_len m > 8 then 8 else sm_extra_len m),
     sm_timestamp := (if sm_timestamp m = 0 then 1 else sm_timestamp m)\<rparr>"

definition storedMessageSameIdentity :: "StoredMessage \<Rightarrow> StoredMessage \<Rightarrow> bool" where
  "storedMessageSameIdentity a b \<longleftrightarrow>
     (let a_has_prefix = list_ex (\<lambda>x. x \<noteq> 0) (take 6 (sm_sender_prefix a));
          b_has_prefix = list_ex (\<lambda>x. x \<noteq> 0) (take 6 (sm_sender_prefix b));
          same_sender = (if a_has_prefix \<and> b_has_prefix
                         then take 6 (sm_sender_prefix a) = take 6 (sm_sender_prefix b)
                         else strncmp_eq (sm_sender a) (sm_sender b) 32)
      in strncmp_eq (sm_conversation a) (sm_conversation b) 32 \<and> same_sender \<and>
         strncmp_eq (sm_text a) (sm_text b) 160 \<and> sm_timestamp a = sm_timestamp b \<and>
         sm_txt_type a = sm_txt_type b \<and> sm_extra_len a = sm_extra_len b \<and>
         take (unat (sm_extra_len a)) (sm_extra a) = take (unat (sm_extra_len a)) (sm_extra b) \<and>
         sm_is_self a = sm_is_self b \<and> sm_is_channel a = sm_is_channel b)"

definition fnv_add :: "byte list \<Rightarrow> u32 \<Rightarrow> u32" where
  "fnv_add bytes hash = foldl (\<lambda>h b. (h XOR ucast b) * 16777619) hash bytes"

definition identityHash :: "StoredMessage \<Rightarrow> u32" where
  "identityHash m =
     (let h1 = fnv_add (take (strnlen (sm_conversation m) 32) (sm_conversation m)) 2166136261;
          h2 = fnv_add (take (strnlen (sm_text m) 160) (sm_text m)) h1;
          h3 = fnv_add (put_u32 (sm_timestamp m)) h2;
          h4 = fnv_add [sm_txt_type m] h3;
          h5 = fnv_add [sm_extra_len m] h4;
          h6 = fnv_add (take (if sm_extra_len m \<le> 8 then unat (sm_extra_len m) else 8) (sm_extra m)) h5;
          direction = (if sm_is_self m then 1 else 0) OR (if sm_is_channel m then 2 else 0);
          h7 = fnv_add [direction] h6
      in if h7 = 0 then 1 else h7)"

section \<open>Records\<close>

definition readRecordRaw :: "byte list option \<Rightarrow> nat \<Rightarrow> StoredMessage option" where
  "readRecordRaw rec len =
     (case rec of None \<Rightarrow> None
      | Some d \<Rightarrow>
          if len < MESSAGE_STORE_RECORD_SIZE then None
          else let text = take 160 (drop 68 d)
               in if d ! 244 > 8 then None
                  else Some (applyFlags (d ! 253) \<lparr>sm_store_id = get_u32 d 0,
                    sm_conversation = (take 32 (drop 4 d))[31 := 0], sm_sender = (take 32 (drop 36 d))[31 := 0],
                    sm_text = the (fst (utf8_copy_truncate_n (Some text) 160 (Some text) 160)),
                    sm_timestamp = get_u32 d 228, sm_sender_prefix = take 6 (drop 232 d), sm_rssi = get_u16 d 238,
                    sm_snr_quarters = d ! 240, sm_path_len = d ! 241, sm_txt_type = d ! 242, sm_attempt = d ! 243,
                    sm_extra_len = d ! 244, sm_extra = take 8 (drop 245 d), sm_is_self = False, sm_is_channel = False,
                    sm_acked = False, sm_confirmation_lost = False, sm_companion_sent = False, sm_route_flood = False,
                    sm_route_known = False, sm_attempt_known = False\<rparr>))"

definition readVersion5RecordRaw :: "byte list option \<Rightarrow> nat \<Rightarrow> StoredMessage option" where
  "readVersion5RecordRaw rec len =
     (case rec of None \<Rightarrow> None
      | Some d \<Rightarrow>
          if len < MESSAGE_STORE_V5_RECORD_SIZE then None
          else if d ! 243 > 8 then None
          else let m = (applyFlags (d ! 252) \<lparr>sm_store_id = get_u32 d 0,
                    sm_conversation = (take 32 (drop 4 d))[31 := 0], sm_sender = (take 32 (drop 36 d))[31 := 0],
                    sm_text = (take 160 (drop 68 d))[159 := 0],
                    sm_timestamp = get_u32 d 228, sm_sender_prefix = take 6 (drop 232 d), sm_rssi = get_u16 d 238,
                    sm_snr_quarters = d ! 240, sm_path_len = d ! 241, sm_txt_type = d ! 242, sm_attempt = 0,
                    sm_extra_len = d ! 243, sm_extra = take 8 (drop 244 d), sm_is_self = False, sm_is_channel = False,
                    sm_acked = False, sm_confirmation_lost = False, sm_companion_sent = False, sm_route_flood = False,
                    sm_route_known = False, sm_attempt_known = False\<rparr>)\<lparr>sm_attempt_known := False\<rparr>
               in if \<not> sm_route_known m \<and> sm_path_len m \<noteq> 0xFF
                  then Some (m\<lparr>sm_route_known := True, sm_route_flood := True\<rparr>) else Some m)"

definition message_record :: "StoredMessage \<Rightarrow> byte list" where
  "message_record norm = put_u32 (sm_store_id norm) @
     pad_to 32 (take (strnlen (sm_conversation norm) 31) (sm_conversation norm)) @
     pad_to 32 (take (strnlen (sm_sender norm) 31) (sm_sender norm)) @
     pad_to 160 (take (strnlen (sm_text norm) 159) (sm_text norm)) @
     put_u32 (sm_timestamp norm) @ take 6 (sm_sender_prefix norm) @ put_u16 (sm_rssi norm) @
     [sm_snr_quarters norm, sm_path_len norm, sm_txt_type norm, sm_attempt norm, sm_extra_len norm] @
     take 8 (sm_extra norm) @ [flagsFor norm]"

definition writeRecordRaw :: "StoredMessage \<Rightarrow> byte list option \<Rightarrow> nat \<Rightarrow> byte list option" where
  "writeRecordRaw m rec len =
     (case rec of None \<Rightarrow> None
      | Some d \<Rightarrow> if len < MESSAGE_STORE_RECORD_SIZE then rec
                 else Some (overwrite d 0 (pad_to len (message_record (storedMessageNormalize m)))))"

text \<open>The record the callers write: into an array of exactly the record size.\<close>

definition record_bytes :: "StoredMessage \<Rightarrow> byte list" where
  "record_bytes m = the (writeRecordRaw m (Some (replicate MESSAGE_STORE_RECORD_SIZE 0)) MESSAGE_STORE_RECORD_SIZE)"

definition header_bytes :: "u32 \<Rightarrow> u32 \<Rightarrow> byte list" where
  "header_bytes count next_id = put_u32 MESSAGE_STORE_MAGIC @ [MESSAGE_STORE_VERSION] @ put_u32 count @ put_u32 next_id"

section \<open>Ids\<close>

definition nextAfter :: "u32 \<Rightarrow> u32" where
  "nextAfter i = (if i = 0xFFFFFFFF then 1 else i + 1)"

text \<open>The first id after \<open>candidate\<close> that none of \<open>ids\<close> is, tried at most \<open>attempts\<close> times.\<close>

fun unused_from :: "u32 list \<Rightarrow> nat \<Rightarrow> u32 \<Rightarrow> u32" where
  "unused_from ids 0 candidate = 0"
| "unused_from ids (Suc attempts) candidate =
     (if \<not> list_ex (\<lambda>i. i = candidate) ids then candidate else unused_from ids attempts (nextAfter candidate))"

definition highest_id :: "u32 list \<Rightarrow> u32" where
  "highest_id ids = foldl (\<lambda>highest i. if i > highest then i else highest) 0 ids"

definition deriveNextId :: "StoredMessage list \<Rightarrow> u32" where
  "deriveNextId messages =
     (let ids = map sm_store_id messages
      in unused_from ids (length messages + 1) (nextAfter (highest_id ids)))"

definition idsAreUniqueAndNonzero :: "StoredMessage list \<Rightarrow> bool" where
  "idsAreUniqueAndNonzero messages \<longleftrightarrow>
     list_all (\<lambda>i. sm_store_id (messages ! i) \<noteq> 0 \<and>
       list_all (\<lambda>j. sm_store_id (messages ! i) \<noteq> sm_store_id (messages ! j)) [0..<i]) [0..<length messages]"

section \<open>Round trips\<close>

lemma applyFlags_flagsFor:
  "applyFlags (flagsFor m) (m\<lparr>sm_is_self := a1, sm_is_channel := a2, sm_acked := a3, sm_confirmation_lost := a4,
     sm_companion_sent := a5, sm_route_flood := a6, sm_route_known := a7, sm_attempt_known := a8\<rparr>) = m"
  by (cases "sm_is_self m"; cases "sm_is_channel m"; cases "sm_acked m"; cases "sm_confirmation_lost m";
      cases "sm_companion_sent m"; cases "sm_route_flood m"; cases "sm_route_known m"; cases "sm_attempt_known m")
     (simp_all add: applyFlags_def flagsFor_def flag_bit_def)

lemma applyFlags_fields:
  "applyFlags (flagsFor n) \<lparr>sm_store_id = sm_store_id n, sm_conversation = sm_conversation n, sm_sender = sm_sender n,
     sm_text = sm_text n, sm_timestamp = sm_timestamp n, sm_sender_prefix = sm_sender_prefix n, sm_rssi = sm_rssi n,
     sm_snr_quarters = sm_snr_quarters n, sm_path_len = sm_path_len n, sm_txt_type = sm_txt_type n, sm_attempt = sm_attempt n,
     sm_extra_len = sm_extra_len n, sm_extra = sm_extra n, sm_is_self = False, sm_is_channel = False, sm_acked = False,
     sm_confirmation_lost = False, sm_companion_sent = False, sm_route_flood = False, sm_route_known = False,
     sm_attempt_known = False\<rparr> = n"
  using applyFlags_flagsFor [of n False False False False False False False False] by (cases n) simp

text \<open>A message as it comes back from a record: normalised, its arrays padded with zeros.\<close>

definition stored_message :: "StoredMessage \<Rightarrow> StoredMessage" where
  "stored_message m = m\<lparr>
     sm_conversation := pad_to 32 (cstr (take 31 (sm_conversation m))),
     sm_sender := pad_to 32 (cstr (take 31 (sm_sender m))),
     sm_text := pad_to 160 (utf8_trunc 159 (sm_text m)),
     sm_extra_len := (if sm_extra_len m > 8 then 8 else sm_extra_len m),
     sm_timestamp := (if sm_timestamp m = 0 then 1 else sm_timestamp m)\<rparr>"

lemma copy_truncate_n_eq:
  "utf8_copy_truncate_n (Some d) 160 (Some s) 160 =
     (Some (utf8_trunc 159 s @ 0 # drop (length (utf8_trunc 159 s) + 1) d), length (utf8_trunc 159 s))"
  unfolding length_utf8_trunc
  by (simp add: utf8_copy_truncate_n_def store_terminated_def Let_def utf8_trunc_def)

lemma length_cstr_take: "length (cstr (take n d)) \<le> n"
  using length_takeWhile_le [of "\<lambda>b. b \<noteq> 0" "take n d"] by (simp add: cstr_def)

lemma take_upd_last: "31 < length d \<Longrightarrow> take 31 (d[31 := x]) = take 31 d"
  by simp

lemma pad_to_terminated: "length s < n \<Longrightarrow> pad_to n s = s @ 0 # replicate (n - length s - 1) 0"
  by (simp add: pad_to_def flip: replicate_Suc) 

lemma pad_to_upd: "length s < n \<Longrightarrow> (pad_to n s)[n - 1 := 0] = pad_to n s"
proof -
  assume "length s < n"
  then have "pad_to n s ! (n - 1) = 0" by (auto simp: pad_to_def nth_append)
  then show ?thesis using list_update_id [of "pad_to n s" "n - 1"] by simp
qed

lemma cstr_take_pad: "length s < n \<Longrightarrow> 0 \<notin> set s \<Longrightarrow> cstr (take (n - 1) (pad_to n s)) = s"
  by (cases "length s = n - 1") (auto simp: pad_to_terminated take_Cons' cstr_terminated cstr_id)

lemma utf8_trunc_pad: "utf8_trunc 159 (pad_to 160 (utf8_trunc 159 s)) = utf8_trunc 159 s"
  using utf8_trunc_cstr [of 159 "pad_to 160 (utf8_trunc 159 s)"] cstr_pad_to [of "utf8_trunc 159 s" 160]
    utf8_trunc_all [of "utf8_trunc 159 s" 159] length_utf8_trunc_le [of 159 s]
  by simp

lemma stored_message_idem [simp]: "stored_message (stored_message m) = stored_message m"
proof -
  have "cstr (take 31 (pad_to 32 (cstr (take 31 d)))) = cstr (take 31 d)" for d
    using cstr_take_pad [of "cstr (take 31 d)" 32] length_cstr_take [of 31 d] cstr_no_nul by simp
  then show ?thesis by (simp add: stored_message_def utf8_trunc_pad)
qed

lemma message_record_normalized:
  assumes "msg_wf m"
  shows "message_record (storedMessageNormalize m) = message_record (stored_message m)"
    and "message_record (stored_message m) = put_u32 (sm_store_id m) @
     sm_conversation (stored_message m) @ sm_sender (stored_message m) @ sm_text (stored_message m) @
     put_u32 (sm_timestamp (stored_message m)) @ sm_sender_prefix m @ put_u16 (sm_rssi m) @
     [sm_snr_quarters m, sm_path_len m, sm_txt_type m, sm_attempt m, sm_extra_len (stored_message m)] @
     sm_extra m @ [flagsFor m]"
proof -
  have t0: "cstr (take 159 (utf8_trunc 159 s @ 0 # ys)) = utf8_trunc 159 s" for s ys
    using length_utf8_trunc_le [of 159 s] by (simp add: take_Cons' cstr_terminated cstr_id)
  then have t: "take (strnlen (utf8_trunc 159 s @ 0 # ys) 159) (utf8_trunc 159 s @ 0 # ys) = utf8_trunc 159 s" for s ys
    by (simp only: take_strnlen)
  note p31 = cstr_take_pad [of _ 32, simplified] and p159 = cstr_take_pad [of _ 160, simplified]
  have l: "length (cstr (take 31 d)) < 32" for d using length_cstr_take [of 31 d] by simp
  have l': "length (utf8_trunc 159 d) < 160" for d using length_utf8_trunc_le [of 159 d] by simp
  show "message_record (storedMessageNormalize m) = message_record (stored_message m)"
    using assms by (simp add: message_record_def storedMessageNormalize_def stored_message_def take_strnlen copy_truncate_n_eq t0 t
        p31 p159 l l' cstr_no_nul msg_wf_def flagsFor_def del: take_append)
  show "message_record (stored_message m) = put_u32 (sm_store_id m) @
     sm_conversation (stored_message m) @ sm_sender (stored_message m) @ sm_text (stored_message m) @
     put_u32 (sm_timestamp (stored_message m)) @ sm_sender_prefix m @ put_u16 (sm_rssi m) @
     [sm_snr_quarters m, sm_path_len m, sm_txt_type m, sm_attempt m, sm_extra_len (stored_message m)] @
     sm_extra m @ [flagsFor m]"
    using assms by (simp add: message_record_def stored_message_def take_strnlen p31 p159 l l' cstr_no_nul msg_wf_def flagsFor_def)
qed

lemma stored_message_wf: "msg_wf m \<Longrightarrow> msg_wf (stored_message m)"
  using length_cstr_take [of 31 "sm_conversation m"] length_cstr_take [of 31 "sm_sender m"] length_utf8_trunc_le [of 159 "sm_text m"]
  by (simp add: msg_wf_def stored_message_def)

lemma record_bytes_eq:
  assumes "msg_wf m"
  shows "record_bytes m = message_record (stored_message m)" and "length (record_bytes m) = 254"
proof -
  have l: "length (message_record (stored_message m)) = 254"
    using stored_message_wf [OF assms] assms unfolding message_record_normalized(2) [OF assms] by (simp add: msg_wf_def)
  then show "record_bytes m = message_record (stored_message m)"
    by (simp add: record_bytes_def writeRecordRaw_def message_sizes message_record_normalized(1) [OF assms] overwrite_0 pad_to_def)
  then show "length (record_bytes m) = 254" using l by simp
qed

lemma drop_nth_append: "length xs = i \<Longrightarrow> (xs @ y # ys) ! i = y"
  by (simp add: nth_append)

lemma get_u32_append: "length xs = i \<Longrightarrow> get_u32 (xs @ put_u32 w @ ys) i = w"
  using get_u32_put_u32 by blast

lemma get_u16_append: "length xs = i \<Longrightarrow> get_u16 (xs @ put_u16 w @ ys) i = w"
  using get_u16_put_u16 by blast

lemma readRecordRaw_record_bytes:
  assumes wf: "msg_wf m"
  shows "readRecordRaw (Some (record_bytes m)) 254 = Some (stored_message m)"
proof -
  let ?n = "stored_message m"
  let ?c = "sm_conversation ?n" and ?s = "sm_sender ?n" and ?t = "sm_text ?n" and ?p = "sm_sender_prefix m" and ?e = "sm_extra m"
  have w: "length ?c = 32" "length ?s = 32" "length ?t = 160" "length ?p = 6" "length ?e = 8"
    using stored_message_wf [OF wf] wf by (simp_all add: msg_wf_def)
  let ?b5 = "[sm_snr_quarters m, sm_path_len m, sm_txt_type m, sm_attempt m, sm_extra_len ?n]"
  have d: "record_bytes m = put_u32 (sm_store_id m) @ ?c @ ?s @ ?t @ put_u32 (sm_timestamp ?n) @ ?p @ put_u16 (sm_rssi m) @ ?b5 @ ?e @ [flagsFor m]"
    using record_bytes_eq(1) [OF wf] message_record_normalized(2) [OF wf] by simp
  have u: "get_u32 (record_bytes m) 0 = sm_store_id m" "get_u32 (record_bytes m) 228 = sm_timestamp ?n" "get_u16 (record_bytes m) 238 = sm_rssi m"
    unfolding d
    using get_u32_put_u32_0 [of "sm_store_id m"] get_u32_append [of "put_u32 (sm_store_id m) @ ?c @ ?s @ ?t" 228 "sm_timestamp ?n"]
      get_u16_append [of "put_u32 (sm_store_id m) @ ?c @ ?s @ ?t @ put_u32 (sm_timestamp ?n) @ ?p" 238 "sm_rssi m"] w by simp_all
  have f: "take 32 (drop 4 (record_bytes m)) = ?c" "take 32 (drop 36 (record_bytes m)) = ?s" "take 160 (drop 68 (record_bytes m)) = ?t"
    "take 6 (drop 232 (record_bytes m)) = ?p" "take 8 (drop 245 (record_bytes m)) = ?e"
    unfolding d using w by simp_all
  have b: "record_bytes m ! 240 = sm_snr_quarters m" "record_bytes m ! 241 = sm_path_len m" "record_bytes m ! 242 = sm_txt_type m"
    "record_bytes m ! 243 = sm_attempt m" "record_bytes m ! 244 = sm_extra_len ?n" "record_bytes m ! 253 = flagsFor m"
    unfolding d using w by (simp_all add: nth_append)
  have "(pad_to 32 (cstr (take 31 d)))[31 := 0] = pad_to 32 (cstr (take 31 d))" for d
    using pad_to_upd [of "cstr (take 31 d)" 32] length_cstr_take [of 31 d] by simp
  then have c31: "?c[31 := 0] = ?c" "?s[31 := 0] = ?s" by (simp_all add: stored_message_def)
  have tr: "utf8_trunc 159 ?t = utf8_trunc 159 (sm_text m)"
    using utf8_trunc_pad by (simp add: stored_message_def)
  have tx: "the (fst (utf8_copy_truncate_n (Some ?t) 160 (Some ?t) 160)) = ?t"
    unfolding copy_truncate_n_eq tr using length_utf8_trunc_le [of 159 "sm_text m"]
    by (simp add: stored_message_def pad_to_terminated)
  have e8: "\<not> sm_extra_len ?n > 8" by (simp add: stored_message_def)
  have flags: "flagsFor m = flagsFor ?n" by (simp add: flagsFor_def stored_message_def)
  have same: "sm_store_id m = sm_store_id ?n" "sm_rssi m = sm_rssi ?n" "sm_snr_quarters m = sm_snr_quarters ?n"
    "sm_path_len m = sm_path_len ?n" "sm_txt_type m = sm_txt_type ?n" "sm_attempt m = sm_attempt ?n"
    "sm_sender_prefix m = sm_sender_prefix ?n" "sm_extra m = sm_extra ?n"
    by (simp_all add: stored_message_def)
  show ?thesis
    using e8 by (simp add: readRecordRaw_def message_sizes u f b c31 tx flags same Let_def applyFlags_fields)
qed

section \<open>Properties\<close>

text \<open>
  A message record is faithful. Writing any message into a record buffer and reading the record
  gives back the normalised message: every field as it was, the conversation and sender cut at 31
  bytes, the text cut to a whole number of characters within 159 bytes, an extra length of at
  most 8 and a timestamp that is not zero.
\<close>

theorem message_record_round_trip:
  assumes "msg_wf m" and "length buf = MESSAGE_STORE_RECORD_SIZE"
  shows "readRecordRaw (writeRecordRaw m (Some buf) MESSAGE_STORE_RECORD_SIZE) MESSAGE_STORE_RECORD_SIZE = Some (stored_message m) \<and>
    utf8_wf (cstr (sm_text (stored_message m)))"
proof -
  have l: "length (message_record (storedMessageNormalize m)) = 254"
    using record_bytes_eq [OF assms(1)] message_record_normalized(1) [OF assms(1)] by simp
  then have "writeRecordRaw m (Some buf) MESSAGE_STORE_RECORD_SIZE = Some (record_bytes m)"
    using assms(2) by (simp add: writeRecordRaw_def record_bytes_def message_sizes overwrite_0 pad_to_def)
  moreover have "cstr (sm_text (stored_message m)) = utf8_trunc 159 (sm_text m)"
    by (simp add: stored_message_def cstr_pad_to)
  ultimately show ?thesis using readRecordRaw_record_bytes [OF assms(1)] by (simp add: message_sizes)
qed

definition example_message :: StoredMessage where
  "example_message = \<lparr>sm_store_id = 7, sm_conversation = replicate 32 0x41, sm_sender = pad_to 32 [0x42], sm_text = replicate 160 0x63,
     sm_timestamp = 0, sm_sender_prefix = [1, 2, 3, 4, 5, 6], sm_rssi = 0xFFB0, sm_snr_quarters = 0xF0, sm_path_len = 0xFF,
     sm_txt_type = 2, sm_attempt = 1, sm_extra_len = 9, sm_extra = [1, 2, 3, 4, 5, 6, 7, 8], sm_is_self = True, sm_is_channel = False,
     sm_acked = True, sm_confirmation_lost = False, sm_companion_sent = False, sm_route_flood = True, sm_route_known = False,
     sm_attempt_known = True\<rparr>"

theorem message_record_round_trip_witness:
  "\<exists>m. readRecordRaw (writeRecordRaw example_message (Some (replicate 254 0xEE)) MESSAGE_STORE_RECORD_SIZE) MESSAGE_STORE_RECORD_SIZE = Some m \<and>
     sm_store_id m = 7 \<and> cstr (sm_conversation m) = replicate 31 0x41 \<and> sm_extra_len m = 8 \<and> sm_timestamp m = 1 \<and> sm_is_self m"
proof -
  have "msg_wf example_message" by (simp add: msg_wf_def example_message_def)
  moreover have "cstr (replicate 31 (0x41 :: byte)) = replicate 31 0x41" by (simp add: cstr_id)
  ultimately show ?thesis
    using message_record_round_trip [of example_message "replicate 254 0xEE"]
    by (simp add: stored_message_def message_sizes cstr_pad_to) (simp add: example_message_def cstr_pad_to)
qed

end
