(* ===== verification/MessageStore.thy ===== *)
theory MessageStore
  imports MessageCodec AtomicFile "HOL-Library.State_Monad"
begin

text \<open>
  The message log (\<open>mesh/message_store.cpp\<close>): an append-only file of fixed-size records with a
  13-byte header, an in-memory identity index, recovery at start, compaction, the mark
  operations, loading, and the fail-over from an external backend to the flash.

  The state holds the file-level globals and the two media. The flash is the map of
  \<open>AtomicFile\<close>; every call on it takes the next outcome of the sequence \<open>ms_io\<close>, which says whether
  the call succeeds, how many bytes a write may store, and how the calls inside an atomic
  replacement or recovery go. \<open>ms_trace\<close> collects the states the flash passes through, down to
  single bytes of a write, for reasoning about power failure. An external backend is a record
  of operations on a medium \<open>'m\<close> of its own, like the table of function pointers it models. \<open>ms_heap\<close>
  says which requests the heap can serve. The recursive mutex that makes every public function
  one transaction has no counterpart: each definition is one transaction.

  The identity index and the retry queue are the lists of the entries in use; an output array
  with its count is the returned list.
\<close>

section \<open>State\<close>

record io_outcome =
  io_ok :: bool
  io_room :: nat
  io_file :: spiffs_faults

record 'm MessageStoreBackend =
  be_path :: "('m \<Rightarrow> cstring) option"
  be_max_records :: u32
  be_compact_to_records :: u32
  be_ensure :: "('m \<Rightarrow> bool \<times> 'm) option"
  be_exists :: "(cstring \<Rightarrow> 'm \<Rightarrow> bool \<times> 'm) option"
  be_size :: "(cstring \<Rightarrow> 'm \<Rightarrow> nat \<times> 'm) option"
  be_read_at :: "(cstring \<Rightarrow> nat \<Rightarrow> nat \<Rightarrow> 'm \<Rightarrow> byte list option \<times> 'm) option"
  be_write_at :: "(cstring \<Rightarrow> nat \<Rightarrow> byte list \<Rightarrow> 'm \<Rightarrow> bool \<times> 'm) option"
  be_append :: "(cstring \<Rightarrow> byte list \<Rightarrow> 'm \<Rightarrow> bool \<times> 'm) option"
  be_replace :: "(cstring \<Rightarrow> byte list \<Rightarrow> 'm \<Rightarrow> bool \<times> 'm) option"
  be_recover :: "(cstring \<Rightarrow> (byte list \<Rightarrow> bool) \<Rightarrow> 'm \<Rightarrow> bool \<times> 'm) option"
  be_remove :: "(cstring \<Rightarrow> 'm \<Rightarrow> bool \<times> 'm) option"
  be_rename :: "(cstring \<Rightarrow> cstring \<Rightarrow> 'm \<Rightarrow> bool \<times> 'm) option"

record 'm mstore =
  g_backend :: "'m MessageStoreBackend option"
  ms_media :: 'm
  ms_flash :: flash
  ms_trace :: "flash list"
  ms_io :: "nat \<Rightarrow> io_outcome"
  ms_tick :: nat
  ms_heap :: "nat \<Rightarrow> bool"
  g_companion_backlog_drop_count :: u32
  g_backend_degraded :: bool
  g_retry_queue :: "StoredMessage list"
  g_retry_queue_drop_count :: u32
  g_last_recovery_result :: MessageStoreRecoveryResult
  g_append_recovery_required :: bool
  g_identity_index :: "(u32 \<times> u32) list"
  g_identity_index_capacity :: nat
  g_identity_index_valid :: bool

type_synonym ('m, 'a) ms = "('m mstore, 'a) state"

definition gets :: "('s \<Rightarrow> 'a) \<Rightarrow> ('s, 'a) state" where
  "gets f = State (\<lambda>s. (f s, s))"

definition modify :: "('s \<Rightarrow> 's) \<Rightarrow> ('s, unit) state" where
  "modify f = State (\<lambda>s. ((), f s))"

abbreviation ret :: "'a \<Rightarrow> ('s, 'a) state" where
  "ret \<equiv> State_Monad.return"

text \<open>\<open>a && b\<close>, the second operand evaluated only if the first holds.\<close>

definition and_then :: "('s, bool) state \<Rightarrow> ('s, bool) state \<Rightarrow> ('s, bool) state" where
  "and_then a b = do { x \<leftarrow> a; if x then b else ret False }"

lemma run_gets [simp]: "run_state (gets f) s = (f s, s)"
  by (simp add: gets_def)

lemma run_modify [simp]: "run_state (modify f) s = ((), f s)"
  by (simp add: modify_def)

lemma run_and_then [simp]: "run_state (and_then a b) s = (case run_state a s of (x, s') \<Rightarrow> if x then run_state b s' else (False, s'))"
  by (simp add: and_then_def split: prod.splits)

definition next_io :: "('m, io_outcome) ms" where
  "next_io = State (\<lambda>s. (ms_io s (ms_tick s), s\<lparr>ms_tick := ms_tick s + 1\<rparr>))"

definition on_media :: "('m \<Rightarrow> 'a \<times> 'm) \<Rightarrow> ('m, 'a) ms" where
  "on_media f = State (\<lambda>s. case f (ms_media s) of (a, m) \<Rightarrow> (a, s\<lparr>ms_media := m\<rparr>))"

text \<open>The flash passes through \<open>states\<close>.\<close>

definition flash_steps :: "flash list \<Rightarrow> ('m, unit) ms" where
  "flash_steps states = modify (\<lambda>s. s\<lparr>ms_flash := (if states = [] then ms_flash s else last states), ms_trace := ms_trace s @ states\<rparr>)"

section \<open>Memory\<close>

definition allocateRaw :: "nat \<Rightarrow> ('m, bool) ms" where
  "allocateRaw bytes = gets (\<lambda>s. bytes \<noteq> 0 \<and> ms_heap s bytes)"

text \<open>\<open>sizeof(StoredMessage)\<close> and \<open>sizeof(IdentityIndexEntry)\<close> on the target.\<close>

definition SIZEOF_MESSAGE :: nat where "SIZEOF_MESSAGE = 264"
definition SIZEOF_INDEX_ENTRY :: nat where "SIZEOF_INDEX_ENTRY = 8"

definition allocateMessages :: "nat \<Rightarrow> ('m, bool) ms" where
  "allocateMessages count = (if count = 0 then ret False else allocateRaw (SIZEOF_MESSAGE * count))"

definition max_records_of :: "'m MessageStoreBackend option \<Rightarrow> u32" where
  "max_records_of be = (case be of None \<Rightarrow> MESSAGE_STORE_MAX_RECORDS
     | Some b \<Rightarrow> if be_max_records b > 0 then be_max_records b else MESSAGE_STORE_MAX_RECORDS)"

definition backendMaxRecords :: "('m, u32) ms" where
  "backendMaxRecords = gets (\<lambda>s. max_records_of (g_backend s))"

definition recovery_max :: "'m MessageStoreBackend option \<Rightarrow> nat" where
  "recovery_max be = (let max_records = max_records_of be
     in unat (if max_records = 0xFFFFFFFF then max_records else max_records + 1))"

definition backendRecoveryMaxRecords :: "('m, nat) ms" where
  "backendRecoveryMaxRecords = gets (\<lambda>s. recovery_max (g_backend s))"

definition backendCompactToRecords :: "('m, u32) ms" where
  "backendCompactToRecords = gets (\<lambda>s. case g_backend s of None \<Rightarrow> MESSAGE_STORE_COMPACT_TO_RECORDS
     | Some b \<Rightarrow> if be_compact_to_records b = 0 then MESSAGE_STORE_COMPACT_TO_RECORDS else be_compact_to_records b)"

definition ensureIdentityIndexCapacity :: "nat \<Rightarrow> ('m, bool) ms" where
  "ensureIdentityIndexCapacity capacity = do {
     have_room \<leftarrow> gets (\<lambda>s. capacity \<le> g_identity_index_capacity s);
     if have_room then ret True
     else do {
       ok \<leftarrow> allocateRaw (SIZEOF_INDEX_ENTRY * capacity);
       if \<not> ok then ret False
       else do { modify (\<lambda>s. s\<lparr>g_identity_index_capacity := capacity\<rparr>); ret True } } }"

section \<open>Identity index\<close>

definition identityIndexClear :: "('m, unit) ms" where
  "identityIndexClear = do {
     mx \<leftarrow> backendMaxRecords;
     ok \<leftarrow> ensureIdentityIndexCapacity (unat mx);
     if \<not> ok then modify (\<lambda>s. s\<lparr>g_identity_index := [], g_identity_index_valid := False\<rparr>)
     else modify (\<lambda>s. s\<lparr>g_identity_index := [], g_identity_index_valid := True\<rparr>) }"

definition identityIndexAdd :: "StoredMessage \<Rightarrow> ('m, unit) ms" where
  "identityIndexAdd msg = modify (\<lambda>s.
     if \<not> g_identity_index_valid s \<or> sm_store_id msg = 0 \<or> length (g_identity_index s) \<ge> g_identity_index_capacity s then s
     else s\<lparr>g_identity_index := g_identity_index s @ [(identityHash msg, sm_store_id msg)]\<rparr>)"

definition nextUnusedIdAfter :: "u32 \<Rightarrow> ('m, u32) ms" where
  "nextUnusedIdAfter i = gets (\<lambda>s. unused_from (map snd (g_identity_index s)) (length (g_identity_index s) + 1) (nextAfter i))"

section \<open>Media access\<close>

definition MSG_STORE_PATH :: cstring where
  "MSG_STORE_PATH = [0x2F, 0x63, 0x6F, 0x6D, 0x70, 0x61, 0x6E, 0x69, 0x6F, 0x6E, 0x5F, 0x6D, 0x73, 0x67, 0x73]"

definition storePath :: "('m, cstring) ms" where
  "storePath = gets (\<lambda>s. case g_backend s of None \<Rightarrow> MSG_STORE_PATH
     | Some b \<Rightarrow> (case be_path b of None \<Rightarrow> MSG_STORE_PATH | Some p \<Rightarrow> p (ms_media s)))"

definition ensureFs :: "('m, bool) ms" where
  "ensureFs = do {
     be \<leftarrow> gets g_backend;
     case be of
       Some b \<Rightarrow> (case be_ensure b of None \<Rightarrow> ret False | Some f \<Rightarrow> on_media f)
     | None \<Rightarrow> do { r \<leftarrow> next_io; ret (io_ok r) } }"

definition pathExists :: "cstring \<Rightarrow> ('m, bool) ms" where
  "pathExists path = do {
     be \<leftarrow> gets g_backend;
     case be of
       Some b \<Rightarrow> (case be_exists b of None \<Rightarrow> ret False | Some f \<Rightarrow> on_media (f path))
     | None \<Rightarrow> gets (\<lambda>s. fileExists path (ms_flash s)) }"

definition existsStore :: "('m, bool) ms" where
  "existsStore = do { p \<leftarrow> storePath; pathExists p }"

definition removePath :: "cstring \<Rightarrow> ('m, bool) ms" where
  "removePath path = do {
     be \<leftarrow> gets g_backend;
     case be of
       Some b \<Rightarrow> (case be_remove b of None \<Rightarrow> ret False | Some f \<Rightarrow> on_media (f path))
     | None \<Rightarrow> do {
         r \<leftarrow> next_io;
         fs \<leftarrow> gets ms_flash;
         flash_steps [snd (removeFile (io_ok r) path fs)];
         ret (fst (removeFile (io_ok r) path fs)) } }"

definition renamePath :: "cstring \<Rightarrow> cstring \<Rightarrow> ('m, bool) ms" where
  "renamePath src dst = do {
     be \<leftarrow> gets g_backend;
     case be of
       Some b \<Rightarrow> (case be_rename b of None \<Rightarrow> ret False | Some f \<Rightarrow> on_media (f src dst))
     | None \<Rightarrow> do {
         r \<leftarrow> next_io;
         fs \<leftarrow> gets ms_flash;
         flash_steps [snd (renameFile (io_ok r) src dst fs)];
         ret (fst (renameFile (io_ok r) src dst fs)) } }"

definition storeSize :: "cstring \<Rightarrow> ('m, nat) ms" where
  "storeSize path = do {
     be \<leftarrow> gets g_backend;
     case be of
       Some b \<Rightarrow> (case be_size b of None \<Rightarrow> ret 0 | Some f \<Rightarrow> on_media (f path))
     | None \<Rightarrow> do {
         r \<leftarrow> next_io;
         fs \<leftarrow> gets ms_flash;
         ret (case fs path of None \<Rightarrow> 0 | Some d \<Rightarrow> if io_ok r then length d else 0) } }"

definition storeReadAt :: "cstring \<Rightarrow> nat \<Rightarrow> nat \<Rightarrow> ('m, byte list option) ms" where
  "storeReadAt path offset n =
     (if n = 0 then ret (Some [])
      else do {
        be \<leftarrow> gets g_backend;
        case be of
          Some b \<Rightarrow> (case be_read_at b of None \<Rightarrow> ret None | Some f \<Rightarrow> on_media (f path offset n))
        | None \<Rightarrow> do {
            r \<leftarrow> next_io;
            fs \<leftarrow> gets ms_flash;
            ret (case fs path of None \<Rightarrow> None
                 | Some d \<Rightarrow> if io_ok r \<and> offset + n \<le> length d then Some (take n (drop offset d)) else None) } })"

text \<open>Writing \<open>data\<close> at \<open>offset\<close> of a file, byte by byte, as far as the outcome allows.\<close>

definition write_steps :: "cstring \<Rightarrow> byte list \<Rightarrow> nat \<Rightarrow> byte list \<Rightarrow> nat \<Rightarrow> flash \<Rightarrow> flash list" where
  "write_steps path d offset data k fs =
     map (\<lambda>j. fs(path \<mapsto> overwrite d offset (take j data))) [0..<min k (length data) + 1]"

definition storeWriteAt :: "cstring \<Rightarrow> nat \<Rightarrow> byte list \<Rightarrow> ('m, bool) ms" where
  "storeWriteAt path offset data =
     (if data = [] then ret True
      else do {
        be \<leftarrow> gets g_backend;
        case be of
          Some b \<Rightarrow> (case be_write_at b of None \<Rightarrow> ret False | Some f \<Rightarrow> on_media (f path offset data))
        | None \<Rightarrow> do {
            r \<leftarrow> next_io;
            fs \<leftarrow> gets ms_flash;
            let d = (case fs path of None \<Rightarrow> [] | Some d \<Rightarrow> d);
            if \<not> io_ok r then ret False
            else if offset > length d then do { flash_steps [fs(path \<mapsto> d)]; ret False }
            else do {
              flash_steps (write_steps path d offset data (io_room r) fs);
              ret (length data \<le> io_room r) } } })"

definition storeAppend :: "cstring \<Rightarrow> byte list \<Rightarrow> ('m, bool) ms" where
  "storeAppend path data =
     (if data = [] then ret True
      else do {
        be \<leftarrow> gets g_backend;
        case be of
          Some b \<Rightarrow> (case be_append b of None \<Rightarrow> ret False | Some f \<Rightarrow> on_media (f path data))
        | None \<Rightarrow> do {
            r \<leftarrow> next_io;
            fs \<leftarrow> gets ms_flash;
            let d = (case fs path of None \<Rightarrow> [] | Some d \<Rightarrow> d);
            if \<not> io_ok r then ret False
            else do {
              flash_steps (write_steps path d (length d) data (io_room r) fs);
              ret (length data \<le> io_room r) } } })"

section \<open>Header and payload\<close>

text \<open>The count and the next id of a header that is current, whole and plausible.\<close>

definition decode_header :: "nat \<Rightarrow> byte list \<Rightarrow> (nat \<times> u32) option" where
  "decode_header mx h =
     (let magic = get_u32 h 0; version = h ! 4; count = unat (get_u32 h 5); next_id = get_u32 h 9
      in if magic \<noteq> MESSAGE_STORE_MAGIC \<or> version \<noteq> MESSAGE_STORE_VERSION \<or> next_id = 0 \<or> count > mx then None
         else Some (count, next_id))"

definition readHeader :: "('m, (nat \<times> u32) option) ms" where
  "readHeader = do {
     ok \<leftarrow> and_then ensureFs existsStore;
     if \<not> ok then ret None
     else do {
       mx \<leftarrow> backendRecoveryMaxRecords;
       path \<leftarrow> storePath;
       h \<leftarrow> storeReadAt path 0 MESSAGE_STORE_HEADER_SIZE;
       ret (case h of None \<Rightarrow> None | Some header \<Rightarrow> decode_header mx header) } }"

definition writeHeaderState :: "nat \<Rightarrow> u32 \<Rightarrow> ('m, bool) ms" where
  "writeHeaderState count next_id = do {
     ok \<leftarrow> ensureFs;
     if \<not> ok \<or> next_id = 0 then ret False
     else do {
       path \<leftarrow> storePath;
       storeWriteAt path 0 (header_bytes (word_of_nat count) next_id) } }"

definition readPayload :: "nat \<Rightarrow> nat \<Rightarrow> nat \<Rightarrow> ('m, byte list option) ms" where
  "readPayload count header_size record_size =
     (if count = 0 then ret None
      else if record_size > (2 ^ 32 - 1) div count then ret None
      else do {
        ok \<leftarrow> allocateRaw (record_size * count);
        if \<not> ok then ret None
        else do { path \<leftarrow> storePath; storeReadAt path header_size (record_size * count) } })"

definition record_at :: "nat \<Rightarrow> byte list \<Rightarrow> nat \<Rightarrow> byte list" where
  "record_at record_size payload i = take record_size (drop (i * record_size) payload)"

definition message_at :: "byte list \<Rightarrow> nat \<Rightarrow> StoredMessage option" where
  "message_at payload i =
     readRecordRaw (Some (record_at MESSAGE_STORE_RECORD_SIZE payload i)) MESSAGE_STORE_RECORD_SIZE"

section \<open>Loading\<close>

definition loadAllInternal :: "int \<Rightarrow> ('m, StoredMessage list) ms" where
  "loadAllInternal mx =
     (if mx \<le> 0 then ret []
      else do {
        h \<leftarrow> readHeader;
        case h of None \<Rightarrow> ret []
        | Some (count, _) \<Rightarrow> do {
            let read_count = min count (nat mx);
            payload \<leftarrow> readPayload read_count MESSAGE_STORE_HEADER_SIZE MESSAGE_STORE_RECORD_SIZE;
            case payload of None \<Rightarrow> ret []
            | Some p \<Rightarrow> ret (List.map_filter (message_at p) [0..<read_count]) } })"

fun recent_loop :: "(StoredMessage \<Rightarrow> bool) \<Rightarrow> byte list \<Rightarrow> nat \<Rightarrow> nat \<Rightarrow> StoredMessage list \<Rightarrow> StoredMessage list" where
  "recent_loop keep payload mx 0 out = out"
| "recent_loop keep payload mx (Suc i) out =
     (if length out \<ge> mx then out
      else case message_at payload i of
             None \<Rightarrow> recent_loop keep payload mx i out
           | Some m \<Rightarrow> recent_loop keep payload mx i (if keep m then out @ [m] else out))"

definition loadRecentInternal :: "byte list option \<Rightarrow> int \<Rightarrow> bool \<Rightarrow> ('m, StoredMessage list) ms" where
  "loadRecentInternal conversation mx unsent_only =
     (if mx \<le> 0 then ret []
      else do {
        h \<leftarrow> readHeader;
        case h of None \<Rightarrow> ret []
        | Some (count, _) \<Rightarrow> do {
            payload \<leftarrow> readPayload count MESSAGE_STORE_HEADER_SIZE MESSAGE_STORE_RECORD_SIZE;
            case payload of None \<Rightarrow> ret []
            | Some p \<Rightarrow> ret (rev (recent_loop
                (\<lambda>m. \<not> (unsent_only \<and> sm_companion_sent m) \<and>
                   (case conversation of None \<Rightarrow> True
                    | Some c \<Rightarrow> cstr c = [] \<or> strncmp_eq (sm_conversation m) c 32)) p (nat mx) count [])) } })"

fun unsent_loop :: "byte list \<Rightarrow> nat \<Rightarrow> nat list \<Rightarrow> StoredMessage list \<Rightarrow> StoredMessage list" where
  "unsent_loop payload mx [] out = out"
| "unsent_loop payload mx (i # is) out =
     (if length out \<ge> mx then out
      else case message_at payload i of
             None \<Rightarrow> unsent_loop payload mx is out
           | Some m \<Rightarrow> unsent_loop payload mx is (if sm_companion_sent m \<or> sm_is_self m then out else out @ [m]))"

definition loadUnsentInternal :: "int \<Rightarrow> ('m, StoredMessage list) ms" where
  "loadUnsentInternal mx =
     (if mx \<le> 0 then ret []
      else do {
        h \<leftarrow> readHeader;
        case h of None \<Rightarrow> ret []
        | Some (count, _) \<Rightarrow> do {
            payload \<leftarrow> readPayload count MESSAGE_STORE_HEADER_SIZE MESSAGE_STORE_RECORD_SIZE;
            case payload of None \<Rightarrow> ret []
            | Some p \<Rightarrow> ret (unsent_loop p (nat mx) [0..<count] []) } })"

definition messageStoreGetById :: "u32 \<Rightarrow> ('m, StoredMessage option) ms" where
  "messageStoreGetById store_id =
     (if store_id = 0 then ret None
      else do {
        h \<leftarrow> readHeader;
        case h of None \<Rightarrow> ret None
        | Some (count, _) \<Rightarrow>
            if count = 0 then ret None
            else do {
              payload \<leftarrow> readPayload count MESSAGE_STORE_HEADER_SIZE MESSAGE_STORE_RECORD_SIZE;
              case payload of None \<Rightarrow> ret None
              | Some p \<Rightarrow> ret (List.find (\<lambda>m. sm_store_id m = store_id) (List.map_filter (message_at p) [0..<count])) } })"

definition rebuildIdentityIndex :: "('m, bool) ms" where
  "rebuildIdentityIndex = do {
     h \<leftarrow> readHeader;
     mx \<leftarrow> backendMaxRecords;
     case h of None \<Rightarrow> do { modify (\<lambda>s. s\<lparr>g_identity_index_valid := False\<rparr>); ret False }
     | Some (count, _) \<Rightarrow>
         if count > unat mx then do { modify (\<lambda>s. s\<lparr>g_identity_index_valid := False\<rparr>); ret False }
         else if count = 0 then do { identityIndexClear; ret True }
         else do {
           ok \<leftarrow> and_then (ensureIdentityIndexCapacity count) (allocateMessages count);
           if \<not> ok then do { modify (\<lambda>s. s\<lparr>g_identity_index_valid := False\<rparr>); ret False }
           else do {
             messages \<leftarrow> loadAllInternal (int count);
             identityIndexClear;
             if length messages \<noteq> count then do { modify (\<lambda>s. s\<lparr>g_identity_index_valid := False\<rparr>); ret False }
             else do { foldr (\<lambda>m k. do { identityIndexAdd m; k }) messages (ret ()); ret True } } } }"

fun exists_loop :: "StoredMessage \<Rightarrow> u32 \<Rightarrow> (u32 \<times> u32) list \<Rightarrow> ('m, u32 option) ms" where
  "exists_loop msg hash [] = ret None"
| "exists_loop msg hash ((h, i) # es) =
     (if h \<noteq> hash then exists_loop msg hash es
      else do {
        existing \<leftarrow> messageStoreGetById i;
        case existing of
          Some e \<Rightarrow> if storedMessageSameIdentity e msg then ret (Some (sm_store_id e)) else exists_loop msg hash es
        | None \<Rightarrow> exists_loop msg hash es })"

definition messageExists :: "StoredMessage \<Rightarrow> ('m, u32 option) ms" where
  "messageExists msg = do {
     valid \<leftarrow> gets g_identity_index_valid;
     ok \<leftarrow> (if valid then ret True else rebuildIdentityIndex);
     if \<not> ok then ret None
     else do { es \<leftarrow> gets g_identity_index; exists_loop msg (identityHash msg) es } }"

section \<open>Whole-store files\<close>

fun write_records :: "StoredMessage list \<Rightarrow> AtomicFileWriter \<Rightarrow> bool \<times> AtomicFileWriter" where
  "write_records [] w = (True, w)"
| "write_records (m # ms) w =
     (let (k, w') = wr_write (record_bytes m) w
      in if k \<noteq> MESSAGE_STORE_RECORD_SIZE then (False, w') else write_records ms w')"

definition writeStore :: "nat \<Rightarrow> StoredMessage list \<Rightarrow> u32 \<Rightarrow> AtomicFileWriter \<Rightarrow> bool \<times> AtomicFileWriter" where
  "writeStore mx messages next_id w =
     (if next_id = 0 \<or> length messages > mx then (False, w)
      else let (k1, w1) = wr_write (put_u32 MESSAGE_STORE_MAGIC) w
           in if k1 \<noteq> 4 then (False, w1)
              else let (k2, w2) = wr_write [MESSAGE_STORE_VERSION] w1
                   in if k2 \<noteq> 1 then (False, w2)
                      else let (k3, w3) = wr_write (put_u32 (word_of_nat (length messages))) w2
                           in if k3 \<noteq> 4 then (False, w3)
                              else let (k4, w4) = wr_write (put_u32 next_id) w3
                                   in if k4 \<noteq> 4 then (False, w4) else write_records messages w4)"

text \<open>
  The id loop of the validators: \<open>count\<close> records of \<open>record_size\<close> bytes, whose ids are accepted by
  \<open>ok_id\<close> and pairwise different.
\<close>

fun validate_ids :: "nat \<Rightarrow> (u32 \<Rightarrow> bool) \<Rightarrow> nat \<Rightarrow> AtomicFileReader \<Rightarrow> u32 list \<Rightarrow> bool" where
  "validate_ids record_size ok_id 0 r ids = True"
| "validate_ids record_size ok_id (Suc n) r ids =
     (let (rec, r') = rd_read record_size r
      in if length rec \<noteq> record_size then False
         else let i = get_u32 rec 0
              in if \<not> ok_id i then False
                 else if list_ex (\<lambda>j. j = i) ids then False
                 else validate_ids record_size ok_id n r' (ids @ [i]))"

definition validateStoreReader :: "nat \<Rightarrow> AtomicFileReader \<Rightarrow> bool" where
  "validateStoreReader mx r =
     (if rd_size r < MESSAGE_STORE_HEADER_SIZE then False
      else case rd_seek 0 r of
        (False, _) \<Rightarrow> False
      | (True, r0) \<Rightarrow>
          let (a, r1) = rd_read 4 r0; (b, r2) = rd_read 1 r1; (c, r3) = rd_read 4 r2; (d, r4) = rd_read 4 r3
          in if length a \<noteq> 4 \<or> length b \<noteq> 1 \<or> length c \<noteq> 4 \<or> length d \<noteq> 4 then False
             else let magic = get_u32 a 0; version = b ! 0; count = unat (get_u32 c 0); next_id = get_u32 d 0
                  in if magic \<noteq> MESSAGE_STORE_MAGIC \<or> version \<noteq> MESSAGE_STORE_VERSION \<or> count > mx \<or> next_id = 0 then False
                     else if rd_size r \<noteq> MESSAGE_STORE_HEADER_SIZE + count * MESSAGE_STORE_RECORD_SIZE then False
                     else validate_ids MESSAGE_STORE_RECORD_SIZE (\<lambda>i. i \<noteq> 0 \<and> i \<noteq> next_id) count r4 [])"

definition validateStore :: "nat \<Rightarrow> byte list \<Rightarrow> bool" where
  "validateStore mx data = validateStoreReader mx (rd_open data)"

definition validateStoreForRecovery :: "nat \<Rightarrow> byte list \<Rightarrow> bool" where
  "validateStoreForRecovery mx data =
     (let r = rd_open data
      in if rd_size r < MESSAGE_STORE_V4_HEADER_SIZE then False
         else case rd_seek 0 r of
           (False, _) \<Rightarrow> False
         | (True, r0) \<Rightarrow>
             let (a, r1) = rd_read 4 r0; (b, r2) = rd_read 1 r1
             in if length a \<noteq> 4 \<or> length b \<noteq> 1 \<or> get_u32 a 0 \<noteq> MESSAGE_STORE_MAGIC then False
                else let version = b ! 0
                     in if version = MESSAGE_STORE_VERSION then validateStoreReader mx r2
                        else if version \<noteq> 4 \<and> version \<noteq> 5 then False
                        else let (c, r3) = rd_read 4 r2; count = unat (get_u32 c 0)
                             in if length c \<noteq> 4 \<or> count > mx then False
                                else let header_size = (if version = 4 then MESSAGE_STORE_V4_HEADER_SIZE else MESSAGE_STORE_HEADER_SIZE);
                                         (d, r4) = (if version = 5 then rd_read 4 r3 else ([], r3))
                                     in if version = 5 \<and> (length d \<noteq> 4 \<or> get_u32 d 0 = 0) then False
                                        else if rd_size r \<noteq> header_size + count * MESSAGE_STORE_V5_RECORD_SIZE then False
                                        else if version = 4 then True
                                        else validate_ids MESSAGE_STORE_V5_RECORD_SIZE (\<lambda>i. i \<noteq> 0) count r4 [])"

text \<open>The sorted ids have no equal neighbours: \<open>std::sort\<close> is the library sort.\<close>

definition validateStoreBytes :: "nat \<Rightarrow> byte list \<Rightarrow> bool" where
  "validateStoreBytes mx data =
     (if length data < MESSAGE_STORE_HEADER_SIZE then False
      else case decode_header mx data of
        None \<Rightarrow> False
      | Some (count, next_id) \<Rightarrow>
          if length data \<noteq> MESSAGE_STORE_HEADER_SIZE + count * MESSAGE_STORE_RECORD_SIZE then False
          else let msgs = map (message_at (drop MESSAGE_STORE_HEADER_SIZE data)) [0..<count]
               in if list_ex (\<lambda>m. case m of None \<Rightarrow> True | Some x \<Rightarrow> sm_store_id x = 0 \<or> sm_store_id x = next_id) msgs then False
                  else let ids = sort (map (\<lambda>m. sm_store_id (the m)) msgs)
                       in list_all (\<lambda>i. ids ! (i - 1) \<noteq> ids ! i) [1..<length ids])"

definition store_bytes :: "StoredMessage list \<Rightarrow> u32 \<Rightarrow> byte list" where
  "store_bytes msgs next_id = header_bytes (word_of_nat (length msgs)) next_id @ concat (map record_bytes msgs)"

definition atomicReplaceStore :: "StoredMessage list \<Rightarrow> u32 \<Rightarrow> ('m, bool) ms" where
  "atomicReplaceStore msgs next_id0 = do {
     ok \<leftarrow> ensureFs;
     if \<not> ok then ret False
     else do {
       next_id \<leftarrow> (if next_id0 = 0 then do {
                     h \<leftarrow> readHeader;
                     ret (case h of Some (_, n) \<Rightarrow> n | None \<Rightarrow> deriveNextId msgs) }
                   else ret next_id0);
       mx \<leftarrow> backendRecoveryMaxRecords;
       path \<leftarrow> storePath;
       be \<leftarrow> gets g_backend;
       case be of
         Some b \<Rightarrow>
           (case be_replace b of
              None \<Rightarrow> ret False
            | Some f \<Rightarrow>
                if length msgs > mx then ret False
                else do {
                  mem \<leftarrow> allocateRaw (MESSAGE_STORE_HEADER_SIZE + length msgs * MESSAGE_STORE_RECORD_SIZE);
                  if \<not> mem then ret False
                  else let data = store_bytes msgs next_id
                       in if validateStoreBytes mx data then on_media (f path data) else ret False })
       | None \<Rightarrow> do {
           r \<leftarrow> next_io;
           fs \<leftarrow> gets ms_flash;
           let res = atomicFileReplace (io_file r) (Some path) (Some (writeStore mx msgs next_id)) (Some (validateStore mx)) fs;
           flash_steps (snd res);
           ret (fst res) } } }"

definition writeHeaderIfNeeded :: "('m, bool) ms" where
  "writeHeaderIfNeeded = do {
     h \<leftarrow> readHeader;
     if h \<noteq> None then ret True
     else do {
       ex \<leftarrow> existsStore;
       if ex then ret False else atomicReplaceStore [] 1 } }"

definition CORRUPT_SUFFIX :: cstring where "CORRUPT_SUFFIX = [0x2E, 0x63, 0x6F, 0x72, 0x72, 0x75, 0x70, 0x74]"

definition quarantinePath :: "nat \<Rightarrow> ('m, cstring option) ms" where
  "quarantinePath out_size = do {
     path \<leftarrow> storePath;
     ret (if out_size = 0 then None
          else if length (path @ CORRUPT_SUFFIX) < out_size then Some (path @ CORRUPT_SUFFIX) else None) }"

definition quarantineStoreAndReset :: "('m, MessageStoreRecoveryResult) ms" where
  "quarantineStoreAndReset = do {
     q \<leftarrow> quarantinePath 192;
     path \<leftarrow> storePath;
     ok \<leftarrow> (case q of None \<Rightarrow> ret False | Some quarantine \<Rightarrow> and_then (removePath quarantine) (renamePath path quarantine));
     if \<not> ok then ret Failed
     else do {
       reset \<leftarrow> atomicReplaceStore [] 1;
       if \<not> reset then ret Failed
       else do {
         modify (\<lambda>s. s\<lparr>g_append_recovery_required := False, g_identity_index_valid := False\<rparr>);
         ret Quarantined } } }"

section \<open>Reading records\<close>

definition readCompleteRecords :: "nat \<Rightarrow> nat \<Rightarrow> ('m, StoredMessage list option) ms" where
  "readCompleteRecords count header_size =
     (if count = 0 then ret (Some [])
      else do {
        payload \<leftarrow> readPayload count header_size MESSAGE_STORE_RECORD_SIZE;
        ret (case payload of None \<Rightarrow> None | Some p \<Rightarrow> those (map (message_at p) [0..<count])) })"

fun recoverable_prefix :: "byte list \<Rightarrow> nat list \<Rightarrow> StoredMessage list \<Rightarrow> StoredMessage list" where
  "recoverable_prefix payload [] out = out"
| "recoverable_prefix payload (i # is) out =
     (case message_at payload i of
        None \<Rightarrow> out
      | Some m \<Rightarrow>
          if sm_store_id m = 0 then out
          else if list_ex (\<lambda>p. sm_store_id p = sm_store_id m) out then out
          else recoverable_prefix payload is (out @ [m]))"

definition readRecoverablePrefix :: "nat \<Rightarrow> nat \<Rightarrow> ('m, StoredMessage list option) ms" where
  "readRecoverablePrefix count header_size =
     (if count = 0 then ret (Some [])
      else do {
        payload \<leftarrow> readPayload count header_size MESSAGE_STORE_RECORD_SIZE;
        ret (case payload of None \<Rightarrow> None | Some p \<Rightarrow> Some (recoverable_prefix p [0..<count] [])) })"

definition readVersion5Records :: "nat \<Rightarrow> nat \<Rightarrow> ('m, StoredMessage list option) ms" where
  "readVersion5Records count header_size =
     (if count = 0 then ret (Some [])
      else do {
        payload \<leftarrow> readPayload count header_size MESSAGE_STORE_V5_RECORD_SIZE;
        ret (case payload of None \<Rightarrow> None
             | Some p \<Rightarrow> those (map (\<lambda>i. readVersion5RecordRaw (Some (record_at MESSAGE_STORE_V5_RECORD_SIZE p i))
                           MESSAGE_STORE_V5_RECORD_SIZE) [0..<count])) })"

section \<open>Recovery\<close>

text \<open>The version is 0 when the first nine bytes cannot be read; the header is then not usable.\<close>

definition migrateOlderStore :: "('m, MessageStoreRecoveryResult) ms" where
  "migrateOlderStore = do {
     ex \<leftarrow> existsStore;
     if \<not> ex then ret Clean
     else do {
       path \<leftarrow> storePath;
       file_size \<leftarrow> storeSize path;
       h \<leftarrow> storeReadAt path 0 9;
       let magic = (case h of None \<Rightarrow> 0 | Some d \<Rightarrow> get_u32 d 0);
       let version = (case h of None \<Rightarrow> 0 | Some d \<Rightarrow> d ! 4);
       header_ok \<leftarrow> (case h of None \<Rightarrow> ret False
                     | Some _ \<Rightarrow> if version = 5 then do { n \<leftarrow> storeReadAt path 9 4; ret (n \<noteq> None) } else ret True);
       mx \<leftarrow> backendRecoveryMaxRecords;
       if file_size < 5 then ret Clean
       else if magic \<noteq> MESSAGE_STORE_MAGIC then ret Clean
       else if version = MESSAGE_STORE_VERSION then ret Clean
       else if version \<noteq> 4 \<and> version \<noteq> 5 then ret UnsupportedVersion
       else if \<not> header_ok then quarantineStoreAndReset
       else let header_size = (if version = 4 then MESSAGE_STORE_V4_HEADER_SIZE else MESSAGE_STORE_HEADER_SIZE);
                complete_count = (file_size - header_size) div MESSAGE_STORE_V5_RECORD_SIZE
            in if file_size < header_size then quarantineStoreAndReset
               else if complete_count > mx then quarantineStoreAndReset
               else do {
                 mem \<leftarrow> (if complete_count > 0 then allocateMessages complete_count else ret True);
                 if \<not> mem then ret Failed
                 else do {
                   got \<leftarrow> readVersion5Records complete_count header_size;
                   let messages = (case got of None \<Rightarrow> None
                     | Some ms \<Rightarrow> if version = 4 then Some (map (\<lambda>i. (ms ! i)\<lparr>sm_store_id := word_of_nat i + 1\<rparr>) [0..<complete_count])
                                 else if idsAreUniqueAndNonzero ms then Some ms else None);
                   case messages of
                     None \<Rightarrow> quarantineStoreAndReset
                   | Some ms \<Rightarrow>
                       if deriveNextId ms = 0 then quarantineStoreAndReset
                       else do {
                         ok \<leftarrow> atomicReplaceStore ms (deriveNextId ms);
                         ret (if ok then Migrated else Failed) } } } } }"

definition repairInterruptedAppend :: "('m, MessageStoreRecoveryResult) ms" where
  "repairInterruptedAppend = do {
     ex \<leftarrow> existsStore;
     if \<not> ex then ret Clean
     else do {
       path \<leftarrow> storePath;
       file_size \<leftarrow> storeSize path;
       h \<leftarrow> storeReadAt path 0 MESSAGE_STORE_HEADER_SIZE;
       let magic = (case h of None \<Rightarrow> 0 | Some d \<Rightarrow> get_u32 d 0);
       let version = (case h of None \<Rightarrow> 0 | Some d \<Rightarrow> d ! 4);
       let declared_count = (case h of None \<Rightarrow> 0 | Some d \<Rightarrow> unat (get_u32 d 5));
       let declared_next_id = (case h of None \<Rightarrow> 0 | Some d \<Rightarrow> get_u32 d 9);
       mx \<leftarrow> backendRecoveryMaxRecords;
       if file_size < 5 then quarantineStoreAndReset
       else if magic \<noteq> MESSAGE_STORE_MAGIC then quarantineStoreAndReset
       else if version \<noteq> MESSAGE_STORE_VERSION then ret UnsupportedVersion
       else if file_size < MESSAGE_STORE_HEADER_SIZE then quarantineStoreAndReset
       else let payload_size = file_size - MESSAGE_STORE_HEADER_SIZE;
                complete_count = payload_size div MESSAGE_STORE_RECORD_SIZE;
                has_torn_tail = (payload_size mod MESSAGE_STORE_RECORD_SIZE \<noteq> 0)
            in if complete_count > mx then quarantineStoreAndReset
               else do {
                 mem \<leftarrow> (if complete_count > 0 then allocateMessages complete_count else ret True);
                 if \<not> mem then ret Failed
                 else do {
                   got \<leftarrow> readRecoverablePrefix complete_count MESSAGE_STORE_HEADER_SIZE;
                   case got of
                     None \<Rightarrow> ret Failed
                   | Some messages \<Rightarrow>
                       if complete_count > 0 \<and> messages = [] then quarantineStoreAndReset
                       else let recovered_count = length messages;
                                recovered_next_id = deriveNextId messages;
                                valid_header = (h \<noteq> None \<and> declared_count \<le> mx \<and> declared_next_id \<noteq> 0);
                                exact = (valid_header \<and> \<not> has_torn_tail \<and> declared_count = complete_count \<and>
                                  recovered_count = complete_count \<and> declared_next_id = recovered_next_id)
                            in if exact then ret Clean
                               else if recovered_count = 0 \<and> \<not> valid_header then quarantineStoreAndReset
                               else do {
                                 replace_ok \<leftarrow> (if recovered_next_id \<noteq> 0 then atomicReplaceStore messages recovered_next_id else ret False);
                                 if \<not> replace_ok then ret Failed
                                 else ret (if \<not> valid_header \<or> recovered_count < complete_count then Salvaged else Repaired) } } } } }"

definition retryQueueClear :: "('m, unit) ms" where
  "retryQueueClear = modify (\<lambda>s. s\<lparr>g_retry_queue := []\<rparr>)"

definition messageStoreClear :: "('m, bool) ms" where
  "messageStoreClear = do {
     ok \<leftarrow> atomicReplaceStore [] 1;
     if \<not> ok then ret False
     else do {
       identityIndexClear;
       modify (\<lambda>s. s\<lparr>g_append_recovery_required := False\<rparr>);
       retryQueueClear;
       modify (\<lambda>s. s\<lparr>g_retry_queue_drop_count := 0\<rparr>);
       ret True } }"

section \<open>Compaction\<close>

definition msg_unsent :: "StoredMessage \<Rightarrow> bool" where
  "msg_unsent m \<longleftrightarrow> \<not> sm_is_self m \<and> \<not> sm_companion_sent m"

fun compact_loop :: "nat \<Rightarrow> nat \<Rightarrow> StoredMessage list \<Rightarrow> nat \<Rightarrow> nat \<Rightarrow> StoredMessage list" where
  "compact_loop unsent_to_drop others_to_drop [] skipped_unsent skipped_others = []"
| "compact_loop unsent_to_drop others_to_drop (m # ms) skipped_unsent skipped_others =
     (if msg_unsent m \<and> skipped_unsent < unsent_to_drop
      then compact_loop unsent_to_drop others_to_drop ms (skipped_unsent + 1) skipped_others
      else if \<not> msg_unsent m \<and> skipped_others < others_to_drop
      then compact_loop unsent_to_drop others_to_drop ms skipped_unsent (skipped_others + 1)
      else m # compact_loop unsent_to_drop others_to_drop ms skipped_unsent skipped_others)"

definition compact_messages :: "nat \<Rightarrow> StoredMessage list \<Rightarrow> StoredMessage list \<times> nat" where
  "compact_messages max_records messages =
     (let unsent = length (filter msg_unsent messages);
          unsent_to_drop = (if unsent > max_records then unsent - max_records else 0);
          unsent_to_keep = unsent - unsent_to_drop;
          other_slots = max_records - unsent_to_keep;
          others = length messages - unsent;
          others_to_drop = (if others > other_slots then others - other_slots else 0)
      in (compact_loop unsent_to_drop others_to_drop messages 0 0, unsent_to_drop))"

definition compactStoreToRecent :: "nat \<Rightarrow> ('m, bool) ms" where
  "compactStoreToRecent max_records =
     (if max_records = 0 then messageStoreClear
      else do {
        h \<leftarrow> readHeader;
        case h of
          None \<Rightarrow> ret False
        | Some (count, next_id) \<Rightarrow>
            if count \<le> max_records then ret True
            else do {
              mem \<leftarrow> allocateMessages count;
              got \<leftarrow> (if mem then readCompleteRecords count MESSAGE_STORE_HEADER_SIZE else ret None);
              case got of
                None \<Rightarrow> ret False
              | Some messages \<Rightarrow>
                  let (kept, dropped) = compact_messages max_records messages
                  in do {
                    ok \<leftarrow> atomicReplaceStore kept next_id;
                    (if ok then modify (\<lambda>s. s\<lparr>g_companion_backlog_drop_count := g_companion_backlog_drop_count s + word_of_nat dropped\<rparr>)
                     else ret ());
                    ret ok } } })"

section \<open>Appending\<close>

definition retryQueuePopFront :: "('m, unit) ms" where
  "retryQueuePopFront = modify (\<lambda>s. s\<lparr>g_retry_queue := tl (g_retry_queue s)\<rparr>)"

definition retryQueuePush :: "StoredMessage \<Rightarrow> ('m, unit) ms" where
  "retryQueuePush msg = modify (\<lambda>s.
     if length (g_retry_queue s) \<ge> MESSAGE_STORE_RETRY_QUEUE_CAPACITY
     then s\<lparr>g_retry_queue_drop_count := g_retry_queue_drop_count s + 1\<rparr>
     else s\<lparr>g_retry_queue := g_retry_queue s @ [msg]\<rparr>)"

text \<open>
  \<open>appendOnce\<close> in three stages: bring a store whose last append did not finish back in order; look
  the message up; write the record, then the header, then compact or index it.
\<close>

definition append_prepare :: "('m, bool) ms" where
  "append_prepare = do {
     required \<leftarrow> gets g_append_recovery_required;
     ok \<leftarrow> (if required then do {
              recovery \<leftarrow> repairInterruptedAppend;
              if recovery = UnsupportedVersion \<or> recovery = Failed then ret False
              else do { modify (\<lambda>s. s\<lparr>g_append_recovery_required := False\<rparr>); rebuildIdentityIndex } }
            else ret True);
     if \<not> ok then ret False else writeHeaderIfNeeded }"

definition append_record :: "StoredMessage \<Rightarrow> ('m, u32 option) ms" where
  "append_record norm = do {
     h \<leftarrow> readHeader;
     case h of
       None \<Rightarrow> ret None
     | Some (count, next_id) \<Rightarrow>
         let msg = norm\<lparr>sm_store_id := next_id\<rparr>
         in do {
           following_id \<leftarrow> nextUnusedIdAfter next_id;
           if following_id = 0 then ret None
           else do {
             path \<leftarrow> storePath;
             modify (\<lambda>s. s\<lparr>g_append_recovery_required := True\<rparr>);
             ok \<leftarrow> and_then (storeAppend path (record_bytes msg)) (writeHeaderState (count + 1) following_id);
             if \<not> ok then ret None
             else do {
               modify (\<lambda>s. s\<lparr>g_append_recovery_required := False\<rparr>);
               mx \<leftarrow> backendMaxRecords;
               compact_to \<leftarrow> backendCompactToRecords;
               done_ok \<leftarrow> (if count + 1 > unat mx then and_then (compactStoreToRecent (unat compact_to)) rebuildIdentityIndex
                           else do { identityIndexAdd msg; ret True });
               ret (if done_ok then Some next_id else None) } } } }"

definition appendOnce :: "StoredMessage \<Rightarrow> ('m, u32 option) ms" where
  "appendOnce msg = do {
     ok \<leftarrow> append_prepare;
     if \<not> ok then ret None
     else do {
       existing \<leftarrow> messageExists (storedMessageNormalize msg);
       case existing of
         Some i \<Rightarrow> ret (Some i)
       | None \<Rightarrow> append_record (storedMessageNormalize msg) } }"

fun retry_loop :: "nat \<Rightarrow> ('m, unit) ms" where
  "retry_loop 0 = ret ()"
| "retry_loop (Suc n) = do {
     q \<leftarrow> gets g_retry_queue;
     if q = [] then ret ()
     else do {
       r \<leftarrow> appendOnce (hd q);
       if r = None then ret () else do { retryQueuePopFront; retry_loop n } } }"

definition retryQueuedOnDefaultBackend :: "('m, unit) ms" where
  "retryQueuedOnDefaultBackend = do {
     be \<leftarrow> gets g_backend;
     case be of Some _ \<Rightarrow> ret ()
     | None \<Rightarrow> do { q \<leftarrow> gets g_retry_queue; retry_loop (length q) } }"

definition messageStoreSelectBackend :: "'m MessageStoreBackend option \<Rightarrow> ('m, unit) ms" where
  "messageStoreSelectBackend backend = modify (\<lambda>s. s\<lparr>g_backend := backend, g_backend_degraded := False,
     g_identity_index := [], g_identity_index_valid := False, g_append_recovery_required := False\<rparr>)"

definition messageStoreSelectDefaultBackend :: "('m, unit) ms" where
  "messageStoreSelectDefaultBackend = messageStoreSelectBackend None"

section \<open>Start and append\<close>

text \<open>A step of the start-up: a fatal result ends it, any other than \<open>Clean\<close> is recorded.\<close>

definition recovery_step :: "('m, MessageStoreRecoveryResult) ms \<Rightarrow> ('m, bool) ms" where
  "recovery_step step = do {
     r \<leftarrow> step;
     if r = UnsupportedVersion \<or> r = Failed then do { modify (\<lambda>s. s\<lparr>g_last_recovery_result := r\<rparr>); ret False }
     else if r \<noteq> Clean then do { modify (\<lambda>s. s\<lparr>g_last_recovery_result := r\<rparr>); ret True }
     else ret True }"

definition begin_fail :: "('m, bool) ms" where
  "begin_fail = do { modify (\<lambda>s. s\<lparr>g_last_recovery_result := Failed\<rparr>); ret False }"

definition recover_replacement :: "('m, bool) ms" where
  "recover_replacement = do {
     be \<leftarrow> gets g_backend;
     mx \<leftarrow> backendRecoveryMaxRecords;
     path \<leftarrow> storePath;
     case be of
       Some b \<Rightarrow> (case be_recover b of None \<Rightarrow> ret True | Some f \<Rightarrow> on_media (f path (validateStoreBytes mx)))
     | None \<Rightarrow> do {
         r \<leftarrow> next_io;
         fs \<leftarrow> gets ms_flash;
         let res = atomicFileRecover (io_file r) (Some path) (Some (validateStoreForRecovery mx)) fs;
         flash_steps (snd res);
         ret (fst res) } }"

definition messageStoreBegin :: "('m, bool) ms" where
  "messageStoreBegin = do {
     modify (\<lambda>s. s\<lparr>g_last_recovery_result := Clean\<rparr>);
     ok \<leftarrow> ensureFs;
     if \<not> ok then begin_fail
     else do {
       replacement_recovered \<leftarrow> recover_replacement;
       ex \<leftarrow> (if replacement_recovered then ret True else existsStore);
       path \<leftarrow> storePath;
       pending \<leftarrow> (if replacement_recovered \<or> ex then ret False
                   else case atomicFileTempPath (Some path) 192 of None \<Rightarrow> ret False | Some t \<Rightarrow> pathExists t);
       if pending then begin_fail
       else do {
         ok \<leftarrow> and_then (recovery_step migrateOlderStore) (recovery_step repairInterruptedAppend);
         if \<not> ok then ret False
         else do {
           ok \<leftarrow> writeHeaderIfNeeded;
           if \<not> ok then begin_fail
           else do {
             h \<leftarrow> readHeader;
             mx \<leftarrow> backendMaxRecords;
             compact_to \<leftarrow> backendCompactToRecords;
             ok \<leftarrow> (case h of
                 Some (count, _) \<Rightarrow>
                   if count > unat mx then do {
                     c \<leftarrow> compactStoreToRecent (unat compact_to);
                     if c then do { modify (\<lambda>s. s\<lparr>g_last_recovery_result := Repaired\<rparr>); ret True } else begin_fail }
                   else ret True
               | None \<Rightarrow> ret True);
             if \<not> ok then ret False
             else do {
               ok \<leftarrow> rebuildIdentityIndex;
               if \<not> ok then begin_fail
               else do { modify (\<lambda>s. s\<lparr>g_append_recovery_required := False\<rparr>); ret True } } } } } } }"

definition messageStoreAppend :: "StoredMessage \<Rightarrow> ('m, u32 option) ms" where
  "messageStoreAppend msg = do {
     retryQueuedOnDefaultBackend;
     r \<leftarrow> appendOnce msg;
     be \<leftarrow> gets g_backend;
     if r \<noteq> None then ret r
     else case be of
       None \<Rightarrow> ret None
     | Some _ \<Rightarrow> do {
         messageStoreSelectDefaultBackend;
         modify (\<lambda>s. s\<lparr>g_backend_degraded := True\<rparr>);
         started \<leftarrow> messageStoreBegin;
         r2 \<leftarrow> (if started then appendOnce msg else ret None);
         if r2 \<noteq> None then ret r2
         else do { retryQueuePush msg; ret None } } }"

section \<open>Reading and marking\<close>

definition messageStoreLoadRecent :: "byte list option \<Rightarrow> int \<Rightarrow> ('m, StoredMessage list) ms" where
  "messageStoreLoadRecent conversation mx = loadRecentInternal conversation mx False"

definition messageStoreLoadAll :: "int \<Rightarrow> ('m, StoredMessage list) ms" where
  "messageStoreLoadAll mx = loadAllInternal mx"

definition messageStoreLoadUnsent :: "int \<Rightarrow> ('m, StoredMessage list) ms" where
  "messageStoreLoadUnsent mx = loadUnsentInternal mx"

definition messageStoreCount :: "('m, nat) ms" where
  "messageStoreCount = do { h \<leftarrow> readHeader; ret (case h of Some (count, _) \<Rightarrow> count | None \<Rightarrow> 0) }"

definition same_conversation :: "byte list \<Rightarrow> u32 \<Rightarrow> StoredMessage \<Rightarrow> bool" where
  "same_conversation conversation timestamp m \<longleftrightarrow>
     sm_timestamp m = timestamp \<and> strncmp_eq (sm_conversation m) conversation 32"

text \<open>
  The load-edit-replace skeleton of the mark operations: load the whole log, \<open>edit\<close> every message
  that \<open>hit\<close> selects, and replace the store if there was one.
\<close>

definition mark_messages :: "(StoredMessage \<Rightarrow> bool) \<Rightarrow> (StoredMessage \<Rightarrow> StoredMessage) \<Rightarrow> nat \<Rightarrow> ('m, bool \<times> nat) ms" where
  "mark_messages hit edit count = do {
     mx \<leftarrow> backendRecoveryMaxRecords;
     if count > mx then ret (False, 0)
     else do {
       mem \<leftarrow> allocateMessages count;
       if \<not> mem then ret (False, 0)
       else do {
         msgs \<leftarrow> messageStoreLoadAll (int count);
         let changed = length (filter hit msgs);
         if changed = 0 then ret (True, 0)
         else do {
           ok \<leftarrow> atomicReplaceStore (map (\<lambda>m. if hit m then edit m else m) msgs) 0;
           ret (ok, changed) } } } }"

definition messageStoreMarkAcked :: "byte list option \<Rightarrow> u32 \<Rightarrow> ('m, bool) ms" where
  "messageStoreMarkAcked conversation timestamp =
     (case conversation of
        None \<Rightarrow> ret False
      | Some c \<Rightarrow>
          if cstr c = [] \<or> timestamp = 0 then ret False
          else do {
            h \<leftarrow> readHeader;
            case h of None \<Rightarrow> ret False
            | Some (count, _) \<Rightarrow> do {
                r \<leftarrow> mark_messages (same_conversation c timestamp) (\<lambda>m. m\<lparr>sm_acked := True, sm_confirmation_lost := False\<rparr>) count;
                ret (fst r \<and> snd r \<noteq> 0) } })"

definition messageStoreMarkConfirmationLost :: "byte list option \<Rightarrow> u32 \<Rightarrow> ('m, bool) ms" where
  "messageStoreMarkConfirmationLost conversation timestamp =
     (case conversation of
        None \<Rightarrow> ret False
      | Some c \<Rightarrow>
          if cstr c = [] \<or> timestamp = 0 then ret False
          else do {
            h \<leftarrow> readHeader;
            case h of None \<Rightarrow> ret False
            | Some (count, _) \<Rightarrow>
                if count = 0 then ret False
                else do {
                  r \<leftarrow> mark_messages (\<lambda>m. \<not> sm_acked m \<and> same_conversation c timestamp m) (\<lambda>m. m\<lparr>sm_confirmation_lost := True\<rparr>) count;
                  ret (fst r \<and> snd r \<noteq> 0) } })"

definition messageStoreMarkOrphanedPendingLost :: "('m, nat) ms" where
  "messageStoreMarkOrphanedPendingLost = do {
     h \<leftarrow> readHeader;
     case h of None \<Rightarrow> ret 0
     | Some (count, _) \<Rightarrow>
         if count = 0 then ret 0
         else do {
           r \<leftarrow> mark_messages (\<lambda>m. sm_is_self m \<and> \<not> sm_is_channel m \<and> \<not> sm_acked m \<and> \<not> sm_confirmation_lost m)
                  (\<lambda>m. m\<lparr>sm_confirmation_lost := True\<rparr>) count;
           ret (if fst r then snd r else 0) } }"

definition messageStoreMarkCompanionSent :: "u32 \<Rightarrow> ('m, bool) ms" where
  "messageStoreMarkCompanionSent store_id =
     (if store_id = 0 then ret False
      else do {
        h \<leftarrow> readHeader;
        mx \<leftarrow> backendRecoveryMaxRecords;
        case h of None \<Rightarrow> ret False
        | Some (count, _) \<Rightarrow>
            if count = 0 \<or> count > mx then ret False
            else do {
              mem \<leftarrow> allocateMessages count;
              if \<not> mem then ret False
              else do {
                messages \<leftarrow> messageStoreLoadAll (int count);
                if length messages \<noteq> count then ret False
                else case first_index (\<lambda>m. sm_store_id m = store_id) messages of
                  None \<Rightarrow> ret False
                | Some i \<Rightarrow>
                    if sm_companion_sent (messages ! i) then ret True
                    else atomicReplaceStore (messages[i := (messages ! i)\<lparr>sm_companion_sent := True\<rparr>]) 0 } } })"

definition RECENT_WINDOW_SECONDS :: u32 where "RECENT_WINDOW_SECONDS = 2"

definition recent_match :: "byte list \<Rightarrow> byte list \<Rightarrow> byte list \<Rightarrow> u32 \<Rightarrow> bool \<Rightarrow> StoredMessage \<Rightarrow> bool" where
  "recent_match conversation sender text timestamp is_self m \<longleftrightarrow>
     (let delta = (if sm_timestamp m > timestamp then sm_timestamp m - timestamp else timestamp - sm_timestamp m)
      in delta \<le> RECENT_WINDOW_SECONDS \<and> sm_is_self m = is_self \<and> strncmp_eq (sm_conversation m) conversation 32 \<and>
         strncmp_eq (sm_sender m) sender 32 \<and> strncmp_eq (sm_text m) text 160)"

definition messageStoreFindRecent :: "byte list option \<Rightarrow> byte list option \<Rightarrow> byte list option \<Rightarrow> u32 \<Rightarrow> bool \<Rightarrow>
    ('m, StoredMessage option) ms" where
  "messageStoreFindRecent conversation sender text timestamp is_self =
     (case (conversation, sender, text) of
        (Some c, Some sd, Some tx) \<Rightarrow>
          if cstr c = [] \<or> timestamp = 0 then ret None
          else do {
            h \<leftarrow> readHeader;
            case h of None \<Rightarrow> ret None
            | Some (count, _) \<Rightarrow>
                if count = 0 then ret None
                else do {
                  payload \<leftarrow> readPayload count MESSAGE_STORE_HEADER_SIZE MESSAGE_STORE_RECORD_SIZE;
                  ret (case payload of None \<Rightarrow> None
                       | Some p \<Rightarrow> (case recent_loop (recent_match c sd tx timestamp is_self) p 1 count [] of
                                     [] \<Rightarrow> None | m # _ \<Rightarrow> Some m)) } }
      | _ \<Rightarrow> ret None)"

end
