(* ===== verification/MessageLog.thy ===== *)
theory MessageLog
  imports MessageStore "HOL-Library.Sublist"
begin

text \<open>
  What the message log promises: ids, compaction, the store image and its validator, appending
  and recovery after a power failure.
\<close>

section \<open>Fresh ids\<close>

text \<open>The ids are the non-zero words; \<open>nextAfter\<close> steps round them cyclically.\<close>

lemma unat_nextAfter: "i \<noteq> 0 \<Longrightarrow> unat (nextAfter i) = unat i mod (2 ^ 32 - 1) + 1"
proof -
  assume i: "i \<noteq> 0"
  have lt: "unat i < 2 ^ 32" using unsigned_less [of i, where 'a = nat] by simp
  show ?thesis
  proof (cases "i = 0xFFFFFFFF")
    case True
    then show ?thesis by (simp add: nextAfter_def)
  next
    case False
    then have "unat i \<noteq> unat (0xFFFFFFFF :: u32)" using word_unat_eq_iff by blast
    then have "unat i < 2 ^ 32 - 1" using lt by simp
    then show ?thesis using False by (simp add: nextAfter_def unat_word_ariths)
  qed
qed

lemma nextAfter_nonzero: "nextAfter i \<noteq> 0"
proof (cases "i = 0xFFFFFFFF")
  case False
  show ?thesis
  proof
    assume "nextAfter i = 0"
    then have "i + 1 = 0" using False by (simp add: nextAfter_def)
    then have "i = - 1" using eq_neg_iff_add_eq_0 by blast
    then show False using False by simp
  qed
qed (simp add: nextAfter_def)

lemma unat_iterate:
  assumes "i \<noteq> 0"
  shows "unat ((nextAfter ^^ k) i) = (unat i - 1 + k) mod (2 ^ 32 - 1) + 1 \<and> (nextAfter ^^ k) i \<noteq> 0"
proof (induction k)
  case 0
  have "unat i < 2 ^ 32" using unsigned_less [of i, where 'a = nat] by simp
  moreover have "0 < unat i" using assms by (simp add: unat_gt_0)
  ultimately show ?case using assms by simp
next
  case (Suc k)
  let ?m = "2 ^ 32 - 1 :: nat"
  have "unat ((nextAfter ^^ Suc k) i) = ((unat i - 1 + k) mod ?m + 1) mod ?m + 1"
    using Suc unat_nextAfter [of "(nextAfter ^^ k) i"] by simp
  also have "\<dots> = (unat i - 1 + Suc k) mod ?m + 1" by (simp add: mod_Suc_eq)
  finally show ?case using nextAfter_nonzero by simp
qed

lemma mod_add_cancel:
  fixes a :: nat
  assumes "(a + j) mod m = (a + k) mod m" and "j \<le> k" and "k < m"
  shows "j = k"
proof -
  have "m dvd (a + k) - (a + j)" using assms mod_eq_dvd_iff_nat [of "a + j" "a + k" m] by simp
  then show ?thesis using assms by (auto dest: dvd_imp_le)
qed

lemma iterates_distinct:
  assumes "i \<noteq> 0" and "n \<le> 2 ^ 32 - 1"
  shows "inj_on (\<lambda>k. (nextAfter ^^ k) i) {..<n}"
proof (rule inj_onI)
  fix j k assume jk: "j \<in> {..<n}" "k \<in> {..<n}" and e: "(nextAfter ^^ j) i = (nextAfter ^^ k) i"
  let ?m = "2 ^ 32 - 1 :: nat"
  have "(unat i - 1 + j) mod ?m = (unat i - 1 + k) mod ?m"
    using e unat_iterate [OF assms(1), of j] unat_iterate [OF assms(1), of k] by simp
  note e = this
  have lt: "j < ?m" "k < ?m" using jk assms(2) by simp_all
  show "j = k"
  proof (cases "j \<le> k")
    case True
    then show ?thesis using mod_add_cancel [OF e _ lt(2)] by blast
  next
    case False
    then show ?thesis using mod_add_cancel [OF e [symmetric] _ lt(1)] by simp
  qed
qed

lemma unused_from_cases:
  "c \<noteq> 0 \<Longrightarrow> unused_from ids n c \<noteq> 0 \<and> unused_from ids n c \<notin> set ids \<or>
     unused_from ids n c = 0 \<and> (\<forall>k < n. (nextAfter ^^ k) c \<in> set ids)"
proof (induction n arbitrary: c)
  case (Suc n)
  show ?case
  proof (cases "c \<in> set ids")
    case True
    then have "unused_from ids (Suc n) c = unused_from ids n (nextAfter c)" by (auto simp: list_ex_iff)
    moreover have "(nextAfter ^^ k) c \<in> set ids" if "k < Suc n" "\<forall>k < n. (nextAfter ^^ k) (nextAfter c) \<in> set ids" for k
      using that True by (cases k) (auto simp: funpow_swap1)
    ultimately show ?thesis using Suc.IH [OF nextAfter_nonzero, of c] by auto
  next
    case False
    then show ?thesis using Suc.prems by (auto simp: list_ex_iff)
  qed
qed simp

lemma unused_from_fresh:
  assumes "c \<noteq> 0" and "length ids < 2 ^ 32 - 1"
  shows "unused_from ids (length ids + 1) c \<noteq> 0 \<and> unused_from ids (length ids + 1) c \<notin> set ids"
proof (rule ccontr)
  assume "\<not> ?thesis"
  then have "(\<lambda>k. (nextAfter ^^ k) c) ` {..<length ids + 1} \<subseteq> set ids"
    using unused_from_cases [OF assms(1), of ids "length ids + 1"] by auto
  then have "card {..<length ids + 1} \<le> card (set ids)"
    using iterates_distinct [OF assms(1), of "length ids + 1"] assms(2) by (intro card_inj_on_le) auto
  then show False using card_length [of ids] by simp
qed

lemma deriveNextId_fresh:
  "length ms < 2 ^ 32 - 1 \<Longrightarrow> deriveNextId ms \<noteq> 0 \<and> deriveNextId ms \<notin> sm_store_id ` set ms"
  using unused_from_fresh [OF nextAfter_nonzero, of "map sm_store_id ms"] by (simp add: deriveNextId_def Let_def)

section \<open>Compaction\<close>

lemma compact_loop_filter:
  "filter msg_unsent (compact_loop u v ms i j) = drop (u - i) (filter msg_unsent ms) \<and>
   filter (\<lambda>m. \<not> msg_unsent m) (compact_loop u v ms i j) = drop (v - j) (filter (\<lambda>m. \<not> msg_unsent m) ms) \<and>
   subseq (compact_loop u v ms i j) ms"
proof (induction ms arbitrary: i j)
  case (Cons m ms)
  show ?case
    using Cons.IH [of "i + 1" j] Cons.IH [of i "j + 1"] Cons.IH [of i j]
    by (cases "msg_unsent m"; cases "i < u"; cases "j < v")
       (auto simp: Suc_diff_Suc [symmetric] Suc_diff_le drop_Suc)
qed simp

lemma length_filter_split: "length ms = length (filter P ms) + length (filter (\<lambda>x. \<not> P x) ms)"
  by (induction ms) auto

lemma compact_messages_spec:
  assumes "compact_messages n ms = (kept, dropped)"
  shows "subseq kept ms" and "length kept = min n (length ms)"
    and "dropped = length (filter msg_unsent ms) - n"
    and "filter msg_unsent kept = drop dropped (filter msg_unsent ms)"
    and "filter (\<lambda>m. \<not> msg_unsent m) kept = drop (length ms - n - dropped) (filter (\<lambda>m. \<not> msg_unsent m) ms)"
proof -
  let ?u = "length (filter msg_unsent ms)" and ?o = "length (filter (\<lambda>m. \<not> msg_unsent m) ms)"
  have split: "length ms = ?u + ?o" by (rule length_filter_split)
  define u where "u = ?u - n"
  define v where "v = ?o - (n - (?u - u))"
  have k: "kept = compact_loop u v ms 0 0" "dropped = u"
    using assms split by (auto simp: compact_messages_def Let_def u_def v_def split: if_splits)
  have vv: "v = length ms - n - u \<or> ?o \<le> v" using split unfolding u_def v_def by auto
  have f: "filter msg_unsent kept = drop u (filter msg_unsent ms)"
    "filter (\<lambda>m. \<not> msg_unsent m) kept = drop v (filter (\<lambda>m. \<not> msg_unsent m) ms)" "subseq kept ms"
    using compact_loop_filter [of u v ms 0 0] k by simp_all
  show "subseq kept ms" by (rule f)
  show "dropped = ?u - n" by (simp add: k u_def)
  show "filter msg_unsent kept = drop dropped (filter msg_unsent ms)" using f k by simp
  show "filter (\<lambda>m. \<not> msg_unsent m) kept = drop (length ms - n - dropped) (filter (\<lambda>m. \<not> msg_unsent m) ms)"
    using f vv k split by (auto simp: u_def v_def)
  have "length kept = (?u - u) + (?o - v)"
    using length_filter_split [of kept msg_unsent] f by simp
  then show "length kept = min n (length ms)" using split by (auto simp: u_def v_def)
qed

section \<open>The store image\<close>

lemma chunk_nth:
  assumes "\<forall>x \<in> set xs. length x = k" and "i < length xs"
  shows "take k (drop (i * k) (concat xs @ z)) = xs ! i"
  using assms
proof (induction xs arbitrary: i)
  case (Cons x xs)
  then show ?case by (cases i) (auto simp: add.commute)
qed simp

lemma length_chunks: "\<forall>x \<in> set xs. length x = k \<Longrightarrow> length (concat xs) = length xs * k"
  by (induction xs) auto

lemma record_chunks: "list_all msg_wf ms \<Longrightarrow> \<forall>x \<in> set (map record_bytes ms). length x = 254"
  using record_bytes_eq(2) by (auto simp: list_all_iff)

lemma length_records: "list_all msg_wf ms \<Longrightarrow> length (concat (map record_bytes ms)) = length ms * 254"
  using length_chunks [OF record_chunks] by simp

lemma message_at_image:
  assumes "list_all msg_wf ms" and "i < length ms"
  shows "message_at (concat (map record_bytes ms) @ z) i = Some (stored_message (ms ! i))"
  using chunk_nth [OF record_chunks [OF assms(1)], of i z] assms readRecordRaw_record_bytes [of "ms ! i"]
  by (simp add: message_at_def record_at_def message_sizes list_all_iff)

lemma messages_of_image:
  assumes "list_all msg_wf ms" and "n \<le> length ms"
  shows "map (message_at (concat (map record_bytes ms) @ z)) [0..<n] = map (Some \<circ> stored_message) (take n ms)"
  using assms by (intro nth_equalityI) (simp_all add: message_at_image)

lemma record_id: "msg_wf m \<Longrightarrow> get_u32 (record_bytes m) 0 = sm_store_id m"
  using record_bytes_eq(1) [of m] message_record_normalized(2) [of m] get_u32_put_u32_0 [of "sm_store_id m"] by simp

lemma length_header [simp]: "length (header_bytes c n) = 13"
  by (simp add: header_bytes_def)

lemma header_fields:
  "get_u32 (header_bytes c n @ z) 0 = MESSAGE_STORE_MAGIC" "(header_bytes c n @ z) ! 4 = MESSAGE_STORE_VERSION"
  "get_u32 (header_bytes c n @ z) 5 = c" "get_u32 (header_bytes c n @ z) 9 = n"
  using get_u32_put_u32_0 [of MESSAGE_STORE_MAGIC] get_u32_append [of "put_u32 MESSAGE_STORE_MAGIC @ [MESSAGE_STORE_VERSION]" 5 c]
    get_u32_append [of "put_u32 MESSAGE_STORE_MAGIC @ [MESSAGE_STORE_VERSION] @ put_u32 c" 9 n]
  by (simp_all add: header_bytes_def nth_append)

lemma validate_ids_records:
  assumes "drop (rd_pos r) (rd_data r) = concat (map record_bytes ms)" and "list_all msg_wf ms" and "distinct ids"
  shows "validate_ids 254 ok (length ms) r ids \<longleftrightarrow> list_all (\<lambda>m. ok (sm_store_id m)) ms \<and> distinct (ids @ map sm_store_id ms)"
  using assms
proof (induction ms arbitrary: r ids)
  case (Cons m ms)
  let ?r = "r\<lparr>rd_pos := rd_pos r + 254\<rparr>"
  have wf: "msg_wf m" "list_all msg_wf ms" using Cons.prems by auto
  note l = record_bytes_eq(2) [OF wf(1)]
  have d: "drop (rd_pos r) (rd_data r) = record_bytes m @ concat (map record_bytes ms)" using Cons.prems by simp
  have rd: "rd_read 254 r = (record_bytes m, ?r)" using l by (simp add: rd_read_def d Let_def)
  have dr: "drop (rd_pos ?r) (rd_data ?r) = concat (map record_bytes ms)"
    using arg_cong [OF d, of "drop 254"] l by (simp add: add.commute)
  have "validate_ids 254 ok (length (m # ms)) r ids \<longleftrightarrow>
      ok (sm_store_id m) \<and> sm_store_id m \<notin> set ids \<and> validate_ids 254 ok (length ms) ?r (ids @ [sm_store_id m])"
    using l by (auto simp: rd record_id [OF wf(1)] list_ex_iff Let_def)
  then show ?case using Cons.IH [OF dr wf(2), of "ids @ [sm_store_id m]"] Cons.prems(3) by auto
qed simp

definition log_ok :: "nat \<Rightarrow> StoredMessage list \<Rightarrow> u32 \<Rightarrow> bool" where
  "log_ok mx ms nid \<longleftrightarrow> list_all msg_wf ms \<and> distinct (map sm_store_id ms) \<and> 0 \<notin> sm_store_id ` set ms \<and>
     nid \<notin> sm_store_id ` set ms \<and> nid \<noteq> 0 \<and> length ms \<le> mx \<and> mx < 2 ^ 32"

lemma unat_count: "n \<le> mx \<Longrightarrow> mx < 2 ^ 32 \<Longrightarrow> unat (word_of_nat n :: u32) = n"
  by (simp add: unat_of_nat)

lemma length_store_bytes: "list_all msg_wf ms \<Longrightarrow> length (store_bytes ms nid) = 13 + length ms * 254"
  by (simp add: store_bytes_def length_records)

lemma rd_read_at: "rd_read n \<lparr>rd_data = xs @ ys @ zs, rd_pos = length xs\<rparr> = 
   (take n (ys @ zs), \<lparr>rd_data = xs @ ys @ zs, rd_pos = length xs + length (take n (ys @ zs))\<rparr>)"
  by (simp add: rd_read_def Let_def)

lemma validateStore_image:
  assumes "list_all msg_wf ms" and "length ms \<le> mx" and "mx < 2 ^ 32"
  shows "validateStore mx (store_bytes ms nid) \<longleftrightarrow> log_ok mx ms nid"
proof -
  let ?n = "word_of_nat (length ms) :: u32" and ?b = "concat (map record_bytes ms)"
  let ?d = "put_u32 MESSAGE_STORE_MAGIC @ [MESSAGE_STORE_VERSION] @ put_u32 ?n @ put_u32 nid @ ?b"
  have d: "store_bytes ms nid = ?d" by (simp add: store_bytes_def header_bytes_def)
  have c: "unat ?n = length ms" using unat_count assms by blast
  have l: "length ?d = 13 + length ms * 254" using length_records [OF assms(1)] by simp
  have "validateStore mx (store_bytes ms nid) \<longleftrightarrow> nid \<noteq> 0 \<and>
      validate_ids 254 (\<lambda>i. i \<noteq> 0 \<and> i \<noteq> nid) (length ms) \<lparr>rd_data = ?d, rd_pos = 13\<rparr> []"
    unfolding d validateStore_def validateStoreReader_def rd_open_def rd_seek_def rd_size_def message_sizes
    using l c assms get_u32_put_u32_0 [of _ "[]"] by (simp add: rd_read_def Let_def)
  then show ?thesis
    using validate_ids_records [of "\<lparr>rd_data = ?d, rd_pos = 13\<rparr>" ms "[]" "\<lambda>i. i \<noteq> 0 \<and> i \<noteq> nid"] assms
    by (auto simp: log_ok_def list_all_iff)
qed

end
