(* ===== verification/MessageRecovery.thy ===== *)
theory MessageRecovery
  imports MessageLog
begin

text \<open>
  Start-up of the message log: the store image and its self-delimiting format, runs on a working
  flash, and what \<open>messageStoreBegin\<close> makes of a file with a torn header or a torn last record.
\<close>

section \<open>Writing the image\<close>

lemma write_records_chunks: "list_all msg_wf ms \<Longrightarrow> write_records ms w = write_chunks (map record_bytes ms) w"
  by (induction ms arbitrary: w) (auto simp: record_bytes_eq(2) message_sizes split: prod.splits)

lemma writeStore_chunks:
  assumes "list_all msg_wf ms"
  shows "writeStore mx ms nid w = (if nid = 0 \<or> length ms > mx then (False, w)
    else write_chunks ([put_u32 MESSAGE_STORE_MAGIC, [MESSAGE_STORE_VERSION], put_u32 (word_of_nat (length ms)), put_u32 nid] @
      map record_bytes ms) w)"
  by (auto simp: writeStore_def write_records_chunks [OF assms] Let_def split: prod.splits)

lemma writeStore_spec:
  assumes wf: "list_all msg_wf ms" and "nid \<noteq> 0" and "length ms \<le> mx"
  shows "prefix (wr_data (snd (writeStore mx ms nid (wr_open rm)))) (store_bytes ms nid)"
    and "fst (writeStore mx ms nid (wr_open rm)) \<Longrightarrow>
      wr_data (snd (writeStore mx ms nid (wr_open rm))) = store_bytes ms nid \<and> wr_good (snd (writeStore mx ms nid (wr_open rm)))"
    and "length (store_bytes ms nid) \<le> rm \<Longrightarrow> fst (writeStore mx ms nid (wr_open rm))"
proof -
  let ?cs = "[put_u32 MESSAGE_STORE_MAGIC, [MESSAGE_STORE_VERSION], put_u32 (word_of_nat (length ms)), put_u32 nid] @ map record_bytes ms"
  have W: "writeStore mx ms nid (wr_open rm) = write_chunks ?cs (wr_open rm)"
    using assms by (simp add: writeStore_chunks [OF wf])
  have cc: "store_bytes ms nid = concat ?cs" by (simp add: store_bytes_def header_bytes_def)
  have nz: "record_bytes m \<noteq> []" if "m \<in> set ms" for m
    using that wf record_bytes_eq(2) [of m] by (auto simp: list_all_iff)
  have ne: "list_all (\<lambda>c. c \<noteq> []) ?cs" using nz by (auto simp: list_all_iff put_u32_def)
  note p = write_chunks_prefix [OF ne, of "wr_open rm"]
  show "prefix (wr_data (snd (writeStore mx ms nid (wr_open rm)))) (store_bytes ms nid)"
    using p unfolding W cc by (simp add: wr_open_def)
  show "wr_data (snd (writeStore mx ms nid (wr_open rm))) = store_bytes ms nid \<and> wr_good (snd (writeStore mx ms nid (wr_open rm)))"
    if "fst (writeStore mx ms nid (wr_open rm))"
    using p that unfolding W cc by (simp add: wr_open_def)
  show "fst (writeStore mx ms nid (wr_open rm))" if "length (store_bytes ms nid) \<le> rm"
    using write_chunks_ok [OF ne, of "wr_open rm"] that unfolding W cc by (simp add: wr_open_def)
qed

section \<open>The formats are self-delimiting\<close>

text \<open>The file length the first thirteen bytes determine.\<close>

definition log_length :: "byte list \<Rightarrow> nat" where
  "log_length d =
     (if d ! 4 = MESSAGE_STORE_VERSION then 13 + unat (get_u32 d 5) * 254
      else if d ! 4 = 4 then 9 + unat (get_u32 d 5) * 253 else 13 + unat (get_u32 d 5) * 253)"

lemma validateStore_length:
  assumes "validateStoreReader mx \<lparr>rd_data = d, rd_pos = p\<rparr>"
  shows "13 \<le> length d \<and> d ! 4 = MESSAGE_STORE_VERSION \<and> length d = log_length d"
proof -
  have l: "13 \<le> length d" using assms by (auto simp: validateStoreReader_def rd_size_def message_sizes split: if_splits)
  have "take (Suc 0) (drop 4 d) = [d ! 4]" using l by (simp add: take_Suc hd_drop_conv_nth)
  moreover have "get_u32 (take 4 (drop 5 d)) 0 = get_u32 d 5" using l by (simp add: get_u32_def add.commute)
  ultimately show ?thesis using assms l
    by (simp add: validateStoreReader_def rd_size_def rd_seek_def rd_read_def message_sizes log_length_def Let_def split: if_splits)
qed

lemma validateStoreReader_pos:
  "validateStoreReader mx \<lparr>rd_data = d, rd_pos = p\<rparr> = validateStoreReader mx \<lparr>rd_data = d, rd_pos = q\<rparr>"
  by (simp add: validateStoreReader_def rd_seek_def rd_size_def)

lemma validateRecovery_length:
  assumes "validateStoreForRecovery mx d"
  shows "9 \<le> length d \<and> length d = log_length d"
proof -
  have l: "9 \<le> length d" using assms by (auto simp: validateStoreForRecovery_def rd_size_def rd_open_def message_sizes Let_def split: if_splits)
  have v: "take (Suc 0) (drop 4 d) = [d ! 4]" using l by (simp add: take_Suc hd_drop_conv_nth)
  have c: "get_u32 (take 4 (drop 5 d)) 0 = get_u32 d 5" using l by (simp add: get_u32_def add.commute)
  show ?thesis
  proof (cases "d ! 4 = MESSAGE_STORE_VERSION")
    case True
    then have "validateStoreReader mx \<lparr>rd_data = d, rd_pos = 5\<rparr>" using assms l v
      by (simp add: validateStoreForRecovery_def rd_size_def rd_open_def rd_seek_def rd_read_def message_sizes Let_def split: if_splits)
    then show ?thesis using validateStore_length l by blast
  next
    case False
    then show ?thesis using assms l v c
      by (auto simp: validateStoreForRecovery_def rd_size_def rd_open_def rd_seek_def rd_read_def message_sizes log_length_def Let_def split: if_splits)
  qed
qed

lemma log_length_prefix: "9 \<le> length e \<Longrightarrow> prefix e d \<Longrightarrow> log_length d = log_length e"
  by (auto simp: prefix_def log_length_def get_u32_def nth_append)

lemma validateStore_strict: "validateStore mx d \<Longrightarrow> validateStoreForRecovery mx d"
proof -
  assume v: "validateStore mx d"
  then have l: "13 \<le> length d \<and> d ! 4 = MESSAGE_STORE_VERSION" using validateStore_length [of mx d 0] by (simp add: validateStore_def rd_open_def)
  then have "take (Suc 0) (drop 4 d) = [d ! 4]" by (simp add: take_Suc hd_drop_conv_nth)
  moreover have "validateStoreReader mx \<lparr>rd_data = d, rd_pos = 5\<rparr>"
    using v validateStoreReader_pos [of mx d 5 0] by (simp add: validateStore_def rd_open_def)
  moreover have "get_u32 (take 4 d) 0 = MESSAGE_STORE_MAGIC"
    using v l by (auto simp: validateStore_def validateStoreReader_def rd_open_def rd_size_def rd_seek_def rd_read_def Let_def split: if_splits)
  moreover have "min (length d - 4) (Suc 0) = Suc 0" using l by auto
  ultimately show ?thesis using l
    by (simp add: validateStoreForRecovery_def rd_size_def rd_open_def rd_seek_def rd_read_def message_sizes Let_def)
qed

interpretation message_log: validated_file "validateStoreForRecovery mx" for mx :: nat
proof unfold_locales
  fix d e
  assume v: "validateStoreForRecovery mx d" and s: "strict_prefix e d"
  show "\<not> validateStoreForRecovery mx e"
  proof
    assume "validateStoreForRecovery mx e"
    then have "9 \<le> length e" "length e = log_length e" using validateRecovery_length by blast+
    moreover have "length d = log_length d" using v validateRecovery_length by blast
    ultimately have "length e = length d" using log_length_prefix [of e d] s by (simp add: strict_prefix_def)
    then show False using s by (auto simp: strict_prefix_def prefix_def)
  qed
qed

section \<open>Running on a working flash\<close>

text \<open>
  \<open>calm\<close>: the default backend, every flash call succeeds with room for the largest store, and the
  heap serves every request.
\<close>

definition big :: nat where "big = 200000"

definition calm_io :: io_outcome where "calm_io = \<lparr>io_ok = True, io_room = big, io_file = no_faults big\<rparr>"

definition calm :: "'m mstore \<Rightarrow> bool" where
  "calm s \<longleftrightarrow> g_backend s = None \<and> ms_io s = (\<lambda>_. calm_io) \<and> ms_heap s = (\<lambda>_. True)"

lemma calm_updates [simp]:
  "calm (s\<lparr>ms_tick := t\<rparr>) = calm s" "calm (s\<lparr>ms_flash := f\<rparr>) = calm s" "calm (s\<lparr>ms_trace := tr\<rparr>) = calm s"
  "calm (s\<lparr>g_identity_index := a\<rparr>) = calm s" "calm (s\<lparr>g_identity_index_valid := b\<rparr>) = calm s"
  "calm (s\<lparr>g_identity_index_capacity := c\<rparr>) = calm s" "calm (s\<lparr>g_append_recovery_required := b\<rparr>) = calm s"
  "calm (s\<lparr>g_last_recovery_result := r\<rparr>) = calm s" "calm (s\<lparr>g_companion_backlog_drop_count := w\<rparr>) = calm s"
  by (simp_all add: calm_def)

text \<open>The state after \<open>k\<close> more outcomes were used up.\<close>

definition ticks :: "nat \<Rightarrow> 'm mstore \<Rightarrow> 'm mstore" where
  "ticks k s = s\<lparr>ms_tick := ms_tick s + k\<rparr>"

lemma ticks_simps [simp]:
  "calm (ticks k s) = calm s" "ms_flash (ticks k s) = ms_flash s" "g_backend (ticks k s) = g_backend s"
  "ms_trace (ticks k s) = ms_trace s" "g_identity_index (ticks k s) = g_identity_index s"
  "g_identity_index_valid (ticks k s) = g_identity_index_valid s"
  "g_identity_index_capacity (ticks k s) = g_identity_index_capacity s"
  "g_append_recovery_required (ticks k s) = g_append_recovery_required s"
  "ms_heap (ticks k s) = ms_heap s" "ms_io (ticks k s) = ms_io s"
  "ticks i (ticks j s) = ticks (j + i) s"
  by (simp_all add: ticks_def add.assoc)

lemma calm_next_io: "calm s \<Longrightarrow> run_state next_io s = (calm_io, ticks 1 s)"
  by (simp add: next_io_def calm_def ticks_def)

lemma calm_backend: "calm s \<Longrightarrow> g_backend s = None"
  by (simp add: calm_def)

lemma recovery_max_default [simp]: "recovery_max None = 513"
  by (simp add: recovery_max_def max_records_of_def MESSAGE_STORE_MAX_RECORDS_def)

lemma max_records_default [simp]: "max_records_of None = 512"
  by (simp add: max_records_of_def MESSAGE_STORE_MAX_RECORDS_def)

lemmas calm_simps = calm_next_io calm_backend calm_io_def backendRecoveryMaxRecords_def backendMaxRecords_def storePath_def

lemma calm_ensureFs: "calm s \<Longrightarrow> run_state ensureFs s = (True, ticks 1 s)"
  by (simp add: ensureFs_def calm_simps)

lemma calm_existsStore: "g_backend s = None \<Longrightarrow> run_state existsStore s = (ms_flash s MSG_STORE_PATH \<noteq> None, s)"
  by (simp add: existsStore_def pathExists_def fileExists_def calm_simps)

lemma calm_readAt:
  "calm s \<Longrightarrow> 0 < n \<Longrightarrow> run_state (storeReadAt path off n) s =
     (case ms_flash s path of None \<Rightarrow> None | Some d \<Rightarrow> if off + n \<le> length d then Some (take n (drop off d)) else None, ticks 1 s)"
  by (simp add: storeReadAt_def calm_simps split: option.split)

lemma calm_storeSize:
  "calm s \<Longrightarrow> run_state (storeSize path) s = (case ms_flash s path of None \<Rightarrow> 0 | Some d \<Rightarrow> length d, ticks 1 s)"
  by (simp add: storeSize_def calm_simps split: option.split)

lemma calm_readHeader:
  assumes "calm s" and "ms_flash s MSG_STORE_PATH = Some d" and "13 \<le> length d"
  shows "run_state readHeader s = (decode_header 513 d, ticks 2 s)"
proof -
  have "decode_header 513 (take 13 d) = decode_header 513 d"
    using assms(3) by (simp add: decode_header_def get_u32_def Let_def)
  then show ?thesis using assms
    by (simp add: readHeader_def calm_ensureFs calm_existsStore calm_readAt calm_simps message_sizes numeral_2_eq_2)
qed

lemma calm_readPayload:
  assumes "calm s" and "ms_flash s MSG_STORE_PATH = Some d" and "0 < n" and "n \<le> 513" and "0 < k" "k \<le> 254" and "h + k * n \<le> length d"
  shows "run_state (readPayload n h k) s = (Some (take (k * n) (drop h d)), ticks 1 s)"
proof -
  have "k * n \<le> 254 * 513" using assms by (intro mult_mono) auto
  then have "k \<le> (2 ^ 32 - 1) div n" using assms(3) by (simp add: less_eq_div_iff_mult_less_eq)
  then show ?thesis using assms
    by (simp add: readPayload_def calm_readAt allocateRaw_def calm_simps calm_def)
qed

lemma record_bytes_stored: "msg_wf m \<Longrightarrow> record_bytes (stored_message m) = record_bytes m"
  using record_bytes_eq(1) [of m] record_bytes_eq(1) [of "stored_message m"] stored_message_wf [of m] by simp

lemma stored_message_id [simp]: "sm_store_id (stored_message m) = sm_store_id m"
  by (simp add: stored_message_def)

lemma stored_list_wf: "list_all msg_wf ms \<Longrightarrow> list_all msg_wf (map stored_message ms)"
  using stored_message_wf by (auto simp: list_all_iff)

lemma store_bytes_stored: "list_all msg_wf ms \<Longrightarrow> store_bytes (map stored_message ms) nid = store_bytes ms nid"
proof -
  assume "list_all msg_wf ms"
  then have "map record_bytes (map stored_message ms) = map record_bytes ms"
    by (auto simp: list_all_iff record_bytes_stored)
  then show ?thesis by (simp only: store_bytes_def length_map)
qed

lemma log_ok_stored: "log_ok mx ms nid \<Longrightarrow> log_ok mx (map stored_message ms) nid"
  using stored_list_wf by (auto simp: log_ok_def image_image o_def)

definition MSG_TEMP :: cstring where "MSG_TEMP = MSG_STORE_PATH @ TMP_SUFFIX"

lemma MSG_temp: "atomicFileTempPath (Some MSG_STORE_PATH) 192 = Some MSG_TEMP"
  by (simp add: atomicFileTempPath_def MSG_STORE_PATH_def TMP_SUFFIX_def MSG_TEMP_def)

lemma MSG_TEMP_neq [simp]: "MSG_TEMP \<noteq> MSG_STORE_PATH" "MSG_STORE_PATH \<noteq> MSG_TEMP"
  by (simp_all add: MSG_TEMP_def TMP_SUFFIX_def)

text \<open>\<open>s'\<close> is \<open>s\<close> with the flash \<open>fs\<close>, outcomes used up and a longer history.\<close>

definition moved :: "'m mstore \<Rightarrow> flash \<Rightarrow> 'm mstore \<Rightarrow> bool" where
  "moved s fs s' \<longleftrightarrow> (\<exists>k tr. s' = (ticks k s)\<lparr>ms_flash := fs, ms_trace := tr\<rparr>)"

lemma moved_simps:
  "moved s fs s' \<Longrightarrow> calm s' = calm s" "moved s fs s' \<Longrightarrow> ms_flash s' = fs" "moved s fs s' \<Longrightarrow> g_backend s' = g_backend s"
  "moved s fs s' \<Longrightarrow> g_identity_index_capacity s' = g_identity_index_capacity s"
  by (auto simp: moved_def)

lemma moved_ticks: "moved s (ms_flash s) (ticks k s)"
  unfolding moved_def by (intro exI [of _ k] exI [of _ "ms_trace s"]) (simp add: ticks_def)

lemma moved_trans: "moved s fs s' \<Longrightarrow> moved s' fs' s'' \<Longrightarrow> moved s fs' s''"
proof -
  assume "moved s fs s'" "moved s' fs' s''"
  then obtain k tr k' tr' where "s' = (ticks k s)\<lparr>ms_flash := fs, ms_trace := tr\<rparr>" "s'' = (ticks k' s')\<lparr>ms_flash := fs', ms_trace := tr'\<rparr>"
    by (auto simp: moved_def)
  then have "s'' = (ticks (k + k') s)\<lparr>ms_flash := fs', ms_trace := tr'\<rparr>" by (simp add: ticks_def add.assoc)
  then show ?thesis unfolding moved_def by blast
qed

lemma calm_replace:
  assumes c: "calm s" and ok: "log_ok 513 ms nid"
  shows "\<exists>s'. run_state (atomicReplaceStore ms nid) s = (True, s') \<and>
    moved s ((ms_flash s)(MSG_STORE_PATH := Some (store_bytes ms nid), MSG_TEMP := None)) s' \<and> ms_flash s' \<in> set (ms_trace s')"
proof -
  have wf: "list_all msg_wf ms" "nid \<noteq> 0" "length ms \<le> 513" using ok by (simp_all add: log_ok_def)
  let ?w = "writeStore 513 ms nid"
  obtain k w where w: "?w (wr_open big) = (k, w)" by force
  have l: "length (store_bytes ms nid) \<le> big" using length_store_bytes [OF wf(1)] wf(3) by (simp add: big_def)
  have wk: "k" "wr_data w = store_bytes ms nid" "wr_good w"
    using writeStore_spec(2,3) [OF wf, of big] l w by simp_all
  have v: "validateStore 513 (wr_data w)" using validateStore_image [OF wf(1,3)] ok wk by simp
  obtain tr where tr: "atomicFileReplace (no_faults big) (Some MSG_STORE_PATH) (Some ?w) (Some (validateStore 513)) (ms_flash s) = (True, tr)"
    using replace_ok [OF MSG_temp, of ?w big w] w wk v by auto
  have last: "tr \<noteq> []" "last tr = (ms_flash s)(MSG_STORE_PATH := Some (store_bytes ms nid), MSG_TEMP := None)"
    using replace_states(2) [OF MSG_temp refl tr] w wk by (simp_all add: no_faults_def)
  have "run_state (atomicReplaceStore ms nid) s =
      (True, (ticks 2 s)\<lparr>ms_flash := last tr, ms_trace := ms_trace s @ tr\<rparr>)"
    using c wf last(1) tr by (simp add: atomicReplaceStore_def calm_ensureFs calm_simps flash_steps_def numeral_2_eq_2)
  then show ?thesis using last last_in_set [OF last(1)] by (auto simp: moved_def)
qed

lemma recoverable_prefix_image:
  assumes "list_all msg_wf ms" and "distinct (map sm_store_id ms)" and "0 \<notin> sm_store_id ` set ms" and "i \<le> length ms"
  shows "recoverable_prefix (concat (map record_bytes ms) @ z) [i..<length ms] (map stored_message (take i ms)) = map stored_message ms"
  using assms(4)
proof (induction "length ms - i" arbitrary: i)
  case (Suc k)
  then have i: "i < length ms" by simp
  have nz: "sm_store_id (ms ! i) \<noteq> 0" using assms(3) i by (metis image_eqI nth_mem)
  have new: "\<not> list_ex (\<lambda>p. sm_store_id p = sm_store_id (ms ! i)) (map stored_message (take i ms))"
    using assms(2) i by (auto simp: list_ex_iff in_set_conv_nth distinct_conv_nth)
  have "map stored_message (take i ms) @ [stored_message (ms ! i)] = map stored_message (take (Suc i) ms)"
    using i by (simp add: take_Suc_conv_app_nth)
  then show ?case using Suc i nz new message_at_image [OF assms(1) i, of z] by (simp add: upt_conv_Cons)
qed simp

lemma deriveNextId_stored: "deriveNextId (map stored_message ms) = deriveNextId ms"
  by (simp add: deriveNextId_def o_def Let_def)

lemma header_of_fields:
  assumes "length h = 13" and "get_u32 h 0 = MESSAGE_STORE_MAGIC" and "h ! 4 = MESSAGE_STORE_VERSION"
  shows "h = header_bytes (get_u32 h 5) (get_u32 h 9)"
proof -
  have "h = take 4 (drop 0 h) @ [h ! 4] @ take 4 (drop 5 h) @ take 4 (drop 9 h)"
    using assms(1) by (simp add: append_take_drop_id list_eq_iff_nth_eq nth_append less_Suc_eq numeral_nat)
  then show ?thesis
    using put_u32_get_u32 [of 0 h] put_u32_get_u32 [of 5 h] put_u32_get_u32 [of 9 h] assms by (simp add: header_bytes_def)
qed

text \<open>
  Repair of a file whose records \<open>ms\<close> are whole but whose header may say anything plausible and
  which may have a torn record at its end: exactly the whole records remain.
\<close>

lemma calm_repair:
  assumes c: "calm s" and f: "ms_flash s MSG_STORE_PATH = Some (h @ concat (map record_bytes ms) @ z)"
    and h: "length h = 13" "get_u32 h 0 = MESSAGE_STORE_MAGIC" "h ! 4 = MESSAGE_STORE_VERSION"
    and z: "length z < 254" and ms: "list_all msg_wf ms" "distinct (map sm_store_id ms)" "0 \<notin> sm_store_id ` set ms" "length ms \<le> 513"
    and e: "ms = [] \<Longrightarrow> unat (get_u32 h 5) \<le> 513 \<and> get_u32 h 9 \<noteq> 0"
  shows "\<exists>r s' nid. run_state repairInterruptedAppend s = (r, s') \<and> r \<noteq> UnsupportedVersion \<and> r \<noteq> Failed \<and> log_ok 513 ms nid \<and>
    (moved s (ms_flash s) s' \<and> ms_flash s MSG_STORE_PATH = Some (store_bytes ms nid) \<or>
     moved s ((ms_flash s)(MSG_STORE_PATH := Some (store_bytes ms nid), MSG_TEMP := None)) s')"
proof -
  let ?d = "h @ concat (map record_bytes ms) @ z" and ?n = "length ms"
  have len: "length ?d = 13 + ?n * 254 + length z" using h length_records [OF ms(1)] by simp
  have pl: "length ?d - 13 = length z + ?n * 254" using len by (simp only: add_diff_cancel_left' add.assoc add.commute)
  have cnt: "(length ?d - 13) div 254 = ?n" "(length ?d - 13) mod 254 = length z" unfolding pl using z by simp_all
  let ?nid = "deriveNextId ms"
  have nid: "log_ok 513 ms ?nid" using deriveNextId_fresh [of ms] ms by (auto simp: log_ok_def)
  have hd: "take 13 ?d = h" "get_u32 ?d 0 = get_u32 h 0" "?d ! 4 = h ! 4" "get_u32 ?d 5 = get_u32 h 5" "get_u32 ?d 9 = get_u32 h 9"
    using h by (simp_all add: get_u32_def nth_append)
  have pre: "\<exists>k. run_state (readRecoverablePrefix ?n 13) s1 = (Some (map stored_message ms), ticks k s1)"
    if "calm s1" "ms_flash s1 MSG_STORE_PATH = Some ?d" for s1 :: "'a mstore"
  proof (cases "?n = 0")
    case True
    then show ?thesis by (auto simp: readRecoverablePrefix_def ticks_def intro: exI [of _ 0])
  next
    case False
    have "take (254 * ?n) (drop 13 ?d) = concat (map record_bytes ms) @ []" using h length_records [OF ms(1)] by (simp add: mult.commute)
    then have p: "run_state (readPayload ?n 13 254) s1 = (Some (concat (map record_bytes ms) @ []), ticks 1 s1)"
      using calm_readPayload [OF that, of ?n 254 13] False ms(4) len by simp
    show ?thesis using False recoverable_prefix_image [OF ms(1-3), of 0 "[]"]
      by (auto simp: readRecoverablePrefix_def message_sizes p simp del: append_Nil2)
  qed
  obtain k where k: "run_state (readRecoverablePrefix ?n 13) (ticks (Suc (Suc 0)) s) = (Some (map stored_message ms), ticks k s)"
    using pre [of "ticks (Suc (Suc 0)) s"] c f by auto
  let ?valid = "unat (get_u32 h 5) \<le> 513 \<and> get_u32 h 9 \<noteq> 0"
  let ?exact = "?valid \<and> length z = 0 \<and> unat (get_u32 h 5) = ?n \<and> get_u32 h 9 = ?nid"
  have alloc: "run_state (if ms \<noteq> [] then allocateMessages ((length ?d - 13) div 254) else ret True) s1 = (True, s1)"
    if "calm s1" for s1 :: "'a mstore"
    using that unfolding cnt by (simp add: allocateMessages_def allocateRaw_def SIZEOF_MESSAGE_def calm_def)
  have R: "run_state repairInterruptedAppend s = (if ?exact then (Clean, ticks k s)
      else case run_state (atomicReplaceStore (map stored_message ms) ?nid) (ticks k s) of
        (ok, s') \<Rightarrow> if ok then (if \<not> ?valid then Salvaged else Repaired, s') else (Failed, s'))"
  proof -
    define D where "D = ?d"
    have lD: "13 \<le> length D" "\<not> length D < 5" "\<not> length D < 13" using len D_def by auto
    have fD: "ms_flash s MSG_STORE_PATH = Some D" using f D_def by simp
    have cD: "(length D - 13) div 254 = ?n" "(length D - 13) mod 254 = length z" "take 13 D = h" using cnt hd D_def by simp_all
    have q: "\<not> (0 < ?n \<and> map stored_message ms = [])" "\<not> (?n = 0 \<and> \<not> ?valid)" "\<not> 513 < ?n" "?nid \<noteq> 0"
      using e ms(4) nid by (auto simp: log_ok_def)
    show ?thesis
      unfolding repairInterruptedAppend_def message_sizes
      by (simp add: calm_existsStore calm_storeSize calm_readAt calm_simps deriveNextId_stored c fD cD lD h k
          alloc [folded D_def] q Let_def split del: if_split)
        (use q cD in \<open>auto split: prod.splits\<close>)
  qed
  show ?thesis
  proof (cases ?exact)
    case True
    then have n: "?n = unat (get_u32 h 5)" by simp
    have "word_of_nat ?n = get_u32 h 5" unfolding n by simp
    then have "h = header_bytes (word_of_nat ?n) ?nid" using header_of_fields [OF h] True by simp
    then have "?d = store_bytes ms ?nid" using True by (simp add: store_bytes_def)
    then show ?thesis using R True nid f moved_ticks [of s k] by auto
  next
    case False
    obtain s' where "run_state (atomicReplaceStore (map stored_message ms) ?nid) (ticks k s) = (True, s')"
      and "moved (ticks k s) ((ms_flash s)(MSG_STORE_PATH := Some (store_bytes ms ?nid), MSG_TEMP := None)) s'"
      using calm_replace [of "ticks k s", OF _ log_ok_stored [OF nid]] c store_bytes_stored [OF ms(1)] by auto
    then show ?thesis using R False nid moved_trans [OF moved_ticks [of s k]] by auto
  qed
qed

section \<open>Loading and indexing\<close>

lemma decode_header_image: "log_ok mx ms nid \<Longrightarrow> decode_header mx (store_bytes ms nid) = Some (length ms, nid)"
  using unat_count [of "length ms" mx] by (auto simp: decode_header_def store_bytes_def header_fields log_ok_def Let_def)

lemma map_filter_all: "\<forall>x \<in> set xs. f x = Some (g x) \<Longrightarrow> List.map_filter f xs = map g xs"
  by (induction xs) (auto simp: List.map_filter_simps)

lemma loaded_messages:
  assumes "list_all msg_wf ms" and "n \<le> length ms"
  shows "List.map_filter (message_at (take (254 * n) (concat (map record_bytes ms)))) [0..<n] = map stored_message (take n ms)"
proof -
  have wf: "list_all msg_wf (take n ms)" using assms(1) by (auto simp: list_all_iff dest: in_set_takeD)
  have "length (concat (map record_bytes (take n ms))) = 254 * n" using length_records [OF wf] assms(2) by simp
  moreover have "concat (map record_bytes ms) = concat (map record_bytes (take n ms)) @ concat (map record_bytes (drop n ms))"
    by (simp flip: concat_append map_append)
  ultimately have t: "take (254 * n) (concat (map record_bytes ms)) = concat (map record_bytes (take n ms)) @ []" by simp
  have "List.map_filter (message_at (concat (map record_bytes (take n ms)) @ [])) [0..<n] = map (\<lambda>i. stored_message (take n ms ! i)) [0..<n]"
    using assms(2) message_at_image [OF wf, of _ "[]"] by (intro map_filter_all) simp
  then show ?thesis unfolding t using assms(2) by (auto intro!: nth_equalityI)
qed

lemma calm_loadAll:
  assumes c: "calm s" and f: "ms_flash s MSG_STORE_PATH = Some (store_bytes ms nid)" and ok: "log_ok 513 ms nid"
  shows "\<exists>k. run_state (loadAllInternal mx) s = (map stored_message (take (nat mx) ms), ticks k s)"
proof -
  have wf: "list_all msg_wf ms" "length ms \<le> 513" using ok by (simp_all add: log_ok_def)
  let ?n = "min (length ms) (nat mx)"
  have h: "run_state readHeader s = (Some (length ms, nid), ticks 2 s)"
    using calm_readHeader [OF c f] length_store_bytes [OF wf(1)] decode_header_image [OF ok] by simp
  show ?thesis
  proof (cases "mx \<le> 0 \<or> ms = []")
    case True
    then show ?thesis
    proof (cases "mx \<le> 0")
      case True
      then show ?thesis by (auto simp: loadAllInternal_def ticks_def intro: exI [of _ 0])
    next
      case False
      then show ?thesis using True h by (auto simp: loadAllInternal_def readPayload_def)
    qed
  next
    case False
    then have n: "0 < ?n" "?n \<le> length ms" by auto
    have "run_state (readPayload ?n 13 254) (ticks 2 s) = (Some (take (254 * ?n) (drop 13 (store_bytes ms nid))), ticks 1 (ticks 2 s))"
      using c f n wf length_store_bytes [OF wf(1)] by (intro calm_readPayload) auto
    moreover have "drop 13 (store_bytes ms nid) = concat (map record_bytes ms)" by (simp add: store_bytes_def)
    ultimately show ?thesis
      using False h loaded_messages [OF wf(1) n(2)] by (auto simp: loadAllInternal_def message_sizes Let_def min_def)
  qed
qed

definition index_of :: "StoredMessage list \<Rightarrow> (u32 \<times> u32) list" where
  "index_of ms = map (\<lambda>m. (identityHash (stored_message m), sm_store_id m)) ms"

lemma run_index_adds:
  assumes "g_identity_index_valid s" and "0 \<notin> sm_store_id ` set ms" and "length (g_identity_index s) + length ms \<le> g_identity_index_capacity s"
  shows "run_state (foldr (\<lambda>m k. do { identityIndexAdd m; k }) (map stored_message ms) (ret ())) s =
    ((), s\<lparr>g_identity_index := g_identity_index s @ index_of ms\<rparr>)"
  using assms
proof (induction ms arbitrary: s)
  case (Cons m ms)
  let ?s = "s\<lparr>g_identity_index := g_identity_index s @ [(identityHash (stored_message m), sm_store_id m)]\<rparr>"
  have "run_state (identityIndexAdd (stored_message m)) s = ((), ?s)"
    using Cons.prems by (auto simp: identityIndexAdd_def)
  then show ?case using Cons.IH [of ?s] Cons.prems by (simp add: index_of_def)
qed (simp add: index_of_def)

lemma calm_indexClear:
  assumes "calm s"
  shows "run_state identityIndexClear s =
    ((), s\<lparr>g_identity_index_capacity := max 512 (g_identity_index_capacity s), g_identity_index := [], g_identity_index_valid := True\<rparr>)"
  using assms by (auto simp: identityIndexClear_def ensureIdentityIndexCapacity_def calm_simps allocateRaw_def SIZEOF_INDEX_ENTRY_def
      calm_def max_def)

lemma calm_header:
  assumes "calm s" and "ms_flash s MSG_STORE_PATH = Some (store_bytes ms nid)" and "log_ok 513 ms nid"
  shows "run_state readHeader s = (Some (length ms, nid), ticks 2 s)"
  using calm_readHeader [OF assms(1,2)] length_store_bytes [of ms nid] decode_header_image [OF assms(3)] assms(3)
  by (simp add: log_ok_def)

lemma calm_rebuild:
  assumes c: "calm s" and f: "ms_flash s MSG_STORE_PATH = Some (store_bytes ms nid)" and ok: "log_ok 513 ms nid" and n: "length ms \<le> 512"
  shows "\<exists>k cap. 512 \<le> cap \<and> run_state rebuildIdentityIndex s =
    (True, (ticks k s)\<lparr>g_identity_index_capacity := cap, g_identity_index := index_of ms, g_identity_index_valid := True\<rparr>)"
proof -
  note h = calm_header [OF c f ok]
  show ?thesis
  proof (cases "ms = []")
    case True
    then show ?thesis using h c
      by (intro exI [of _ 2] exI [of _ "max 512 (g_identity_index_capacity s)"])
        (simp add: rebuildIdentityIndex_def calm_simps calm_indexClear index_of_def)
  next
    case False
    let ?s2 = "(ticks 2 s)\<lparr>g_identity_index_capacity := max (length ms) (g_identity_index_capacity s)\<rparr>"
    have cap: "run_state (ensureIdentityIndexCapacity (length ms)) (ticks 2 s) = (True, ?s2)"
      using c False by (auto simp: ensureIdentityIndexCapacity_def allocateRaw_def SIZEOF_INDEX_ENTRY_def calm_def max_def ticks_def)
    have mem: "run_state (allocateMessages (length ms)) ?s2 = (True, ?s2)"
      using c False by (simp add: allocateMessages_def allocateRaw_def SIZEOF_MESSAGE_def calm_def)
    obtain k where k: "run_state (loadAllInternal (int (length ms))) ?s2 = (map stored_message ms, ticks k ?s2)"
      using calm_loadAll [of ?s2 ms nid "int (length ms)"] c f ok by auto
    let ?s3 = "(ticks k ?s2)\<lparr>g_identity_index_capacity := max 512 (max (length ms) (g_identity_index_capacity s)),
      g_identity_index := [], g_identity_index_valid := True\<rparr>"
    have cl: "run_state identityIndexClear (ticks k ?s2) = ((), ?s3)" using c by (simp add: calm_indexClear)
    have add: "run_state (foldr (\<lambda>m k. do { identityIndexAdd m; k }) (map stored_message ms) (ret ())) ?s3 =
        ((), ?s3\<lparr>g_identity_index := index_of ms\<rparr>)"
      using run_index_adds [of ?s3 ms] ok by (simp add: log_ok_def)
    have "run_state rebuildIdentityIndex s = (True, ?s3\<lparr>g_identity_index := index_of ms\<rparr>)"
      using h cap mem k cl add n False by (simp add: rebuildIdentityIndex_def calm_simps c)
    moreover have "?s3\<lparr>g_identity_index := index_of ms\<rparr> = (ticks (2 + k) s)\<lparr>g_identity_index_capacity :=
        max 512 (max (length ms) (g_identity_index_capacity s)), g_identity_index := index_of ms, g_identity_index_valid := True\<rparr>"
      by (simp add: ticks_def add.assoc)
    ultimately show ?thesis by (metis max.cobounded1)
  qed
qed

lemma calm_migrate:
  assumes c: "calm s" and f: "ms_flash s MSG_STORE_PATH = Some (h @ x)" and h: "length h = 13" "get_u32 h 0 = MESSAGE_STORE_MAGIC" "h ! 4 = MESSAGE_STORE_VERSION"
  shows "\<exists>k. run_state migrateOlderStore s = (Clean, ticks k s)"
proof -
  have "get_u32 (take 9 h) 0 = MESSAGE_STORE_MAGIC" using h by (simp add: get_u32_def)
  moreover have "\<not> length h + length x < 5" using h by simp
  ultimately show ?thesis using c f h
    by (auto simp: migrateOlderStore_def calm_existsStore calm_storeSize calm_readAt calm_simps MESSAGE_STORE_VERSION_def Let_def)
qed

lemma calm_recover_none:
  assumes "calm s" and "ms_flash s MSG_TEMP = None"
  shows "run_state recover_replacement s = (True, (ticks 1 s)\<lparr>ms_trace := ms_trace s @ [ms_flash s]\<rparr>)"
  using assms by (simp add: recover_replacement_def calm_simps atomicFileRecover_def MSG_temp fileExists_def flash_steps_def)

text \<open>
  Start-up on a file with whole records \<open>ms\<close>, whatever its header and its torn tail: it succeeds,
  and the store then holds exactly \<open>ms\<close>, all of them in the index.
\<close>

definition log_state :: "'m mstore \<Rightarrow> StoredMessage list \<Rightarrow> u32 \<Rightarrow> bool" where
  "log_state s ms nid \<longleftrightarrow> log_ok 513 ms nid \<and> ms_flash s MSG_STORE_PATH = Some (store_bytes ms nid) \<and>
     ms_flash s MSG_TEMP = None \<and> g_append_recovery_required s = False \<and>
     g_identity_index_valid s \<and> g_identity_index s = index_of ms \<and> 512 \<le> g_identity_index_capacity s"

lemma calm_begin_recovered:
  assumes c: "calm s" and rec: "run_state recover_replacement (ticks 1 (s\<lparr>g_last_recovery_result := Clean\<rparr>)) = (ok, s1)" and c1: "calm s1"
    and f: "ms_flash s1 MSG_STORE_PATH = Some (h @ concat (map record_bytes ms) @ z)" and t: "ms_flash s1 MSG_TEMP = None"
    and h: "length h = 13" "get_u32 h 0 = MESSAGE_STORE_MAGIC" "h ! 4 = MESSAGE_STORE_VERSION"
    and z: "length z < 254" and ms: "list_all msg_wf ms" "distinct (map sm_store_id ms)" "0 \<notin> sm_store_id ` set ms" "length ms \<le> 512"
    and e: "ms = [] \<Longrightarrow> unat (get_u32 h 5) \<le> 513 \<and> get_u32 h 9 \<noteq> 0"
  shows "\<exists>s' nid. run_state messageStoreBegin s = (True, s') \<and> calm s' \<and> log_state s' ms nid"
proof -
  let ?s0 = "s\<lparr>g_last_recovery_result := Clean\<rparr>"
  have r0: "run_state ensureFs ?s0 = (True, ticks 1 ?s0)" using c by (simp add: calm_ensureFs)
  have r1: "run_state recover_replacement (ticks (Suc 0) ?s0) = (ok, s1)" using rec by simp
  have ex: "run_state (if ok then ret True else existsStore) s1 = (True, s1)" using f calm_existsStore [OF calm_backend [OF c1]] by simp
  obtain k where k: "run_state migrateOlderStore s1 = (Clean, ticks k s1)"
    using calm_migrate [OF c1 _ h, of "concat (map record_bytes ms) @ z"] f by auto
  obtain r s2 nid where R: "run_state repairInterruptedAppend (ticks k s1) = (r, s2)" "r \<noteq> UnsupportedVersion" "r \<noteq> Failed" "log_ok 513 ms nid"
    and m: "moved (ticks k s1) (ms_flash s1) s2 \<and> ms_flash s1 MSG_STORE_PATH = Some (store_bytes ms nid) \<or>
      moved (ticks k s1) ((ms_flash s1)(MSG_STORE_PATH := Some (store_bytes ms nid), MSG_TEMP := None)) s2"
    using calm_repair [of "ticks k s1" h ms z] c1 f h z ms e by auto
  have s2: "calm s2" "ms_flash s2 MSG_STORE_PATH = Some (store_bytes ms nid)" "ms_flash s2 MSG_TEMP = None"
    using m moved_simps [of "ticks k s1" _ s2] c1 t by auto
  define S3 where "S3 = (if r = Clean then s2 else s2\<lparr>g_last_recovery_result := r\<rparr>)"
  have rs: "run_state (and_then (recovery_step migrateOlderStore) (recovery_step repairInterruptedAppend)) s1 = (True, S3)"
    using k R by (simp add: recovery_step_def S3_def)
  have c3: "calm S3" "ms_flash S3 = ms_flash s2" using s2 by (simp_all add: S3_def)
  have w: "run_state writeHeaderIfNeeded S3 = (True, ticks 2 S3)"
    using calm_header [OF c3(1)] c3 s2 R(4) by (simp add: writeHeaderIfNeeded_def)
  have hd: "run_state readHeader (ticks 2 S3) = (Some (length ms, nid), ticks 4 S3)"
    using calm_header [of "ticks 2 S3" ms nid] c3 s2 R(4) by simp
  obtain j cap where rb: "512 \<le> cap" "run_state rebuildIdentityIndex (ticks 4 S3) =
      (True, (ticks j (ticks 4 S3))\<lparr>g_identity_index_capacity := cap, g_identity_index := index_of ms, g_identity_index_valid := True\<rparr>)"
    using calm_rebuild [of "ticks 4 S3" ms nid] c3 s2 R(4) ms(4) by auto
  let ?s4 = "(ticks j (ticks 4 S3))\<lparr>g_identity_index_capacity := cap, g_identity_index := index_of ms, g_identity_index_valid := True,
    g_append_recovery_required := False\<rparr>"
  have "run_state messageStoreBegin s = (True, ?s4)"
    unfolding messageStoreBegin_def
    using r0 r1 ex rs w hd rb(2) ms(4) calm_backend [OF c3(1)] calm_backend [OF c1]
    by (simp add: backendMaxRecords_def backendCompactToRecords_def storePath_def MESSAGE_STORE_COMPACT_TO_RECORDS_def split del: if_split)
  moreover have "calm ?s4" "log_state ?s4 ms nid" using c3 s2 R(4) rb(1) by (simp_all add: log_state_def)
  ultimately show ?thesis by blast
qed

lemma calm_begin:
  assumes c: "calm s" and f: "ms_flash s MSG_STORE_PATH = Some (h @ concat (map record_bytes ms) @ z)" and t: "ms_flash s MSG_TEMP = None"
    and h: "length h = 13" "get_u32 h 0 = MESSAGE_STORE_MAGIC" "h ! 4 = MESSAGE_STORE_VERSION"
    and z: "length z < 254" and ms: "list_all msg_wf ms" "distinct (map sm_store_id ms)" "0 \<notin> sm_store_id ` set ms" "length ms \<le> 512"
    and e: "ms = [] \<Longrightarrow> unat (get_u32 h 5) \<le> 513 \<and> get_u32 h 9 \<noteq> 0"
  shows "\<exists>s' nid. run_state messageStoreBegin s = (True, s') \<and> calm s' \<and> log_state s' ms nid"
proof -
  let ?s0 = "ticks 1 (s\<lparr>g_last_recovery_result := Clean\<rparr>)"
  show ?thesis
    by (rule calm_begin_recovered [OF c calm_recover_none [of ?s0] _ _ _ h z ms e]) (use c f t in simp_all)
qed

end
