(* ===== verification/MessageAppend.thy ===== *)
theory MessageAppend
  imports MessageRecovery
begin

text \<open>
  Appending to the message log: the flash states an append passes through when any call may fail,
  what a start finds after a power failure in one of them, and the effect of an append on a
  working flash.
\<close>

section \<open>Operations that leave the flash alone\<close>

definition quiet :: "('m, 'a) ms \<Rightarrow> bool" where
  "quiet m \<longleftrightarrow> (\<forall>s. g_backend s = None \<longrightarrow> (case run_state m s of (_, s') \<Rightarrow>
     g_backend s' = None \<and> ms_flash s' = ms_flash s \<and> ms_trace s' = ms_trace s))"

lemma quietD:
  assumes "quiet m" and "g_backend s = None" and "run_state m s = (x, s')"
  shows "g_backend s' = None" "ms_flash s' = ms_flash s" "ms_trace s' = ms_trace s"
  using assms(1) [unfolded quiet_def, rule_format, OF assms(2)] assms(3) by auto

named_theorems quiet_intros

lemma quiet_ret [quiet_intros]: "quiet (ret x)"
  by (simp add: quiet_def)

lemma quiet_gets [quiet_intros]: "quiet (gets f)"
  by (simp add: quiet_def)

lemma quiet_bind [quiet_intros]:
  assumes "quiet m" and "\<And>x. quiet (f x)"
  shows "quiet (m \<bind> f)"
  unfolding quiet_def
proof (intro allI impI)
  fix s :: "'a mstore" assume b: "g_backend s = None"
  obtain x s1 where 1: "run_state m s = (x, s1)" by force
  obtain y s2 where 2: "run_state (f x) s1 = (y, s2)" by force
  note q1 = quietD [OF assms(1) b 1]
  show "case run_state (m \<bind> f) s of (_, s') \<Rightarrow> g_backend s' = None \<and> ms_flash s' = ms_flash s \<and> ms_trace s' = ms_trace s"
    using quietD [OF assms(2) q1(1) 2] q1 1 2 by simp
qed

lemma quiet_if [quiet_intros]: "quiet a \<Longrightarrow> quiet b \<Longrightarrow> quiet (if c then a else b)"
  by simp

lemma quiet_option [quiet_intros]: "quiet a \<Longrightarrow> (\<And>x. quiet (f x)) \<Longrightarrow> quiet (case opt of None \<Rightarrow> a | Some x \<Rightarrow> f x)"
  by (cases opt) auto

lemma quiet_prod [quiet_intros]: "(\<And>x y. quiet (f x y)) \<Longrightarrow> quiet (case p of (x, y) \<Rightarrow> f x y)"
  by (cases p) auto

lemma quiet_Let [quiet_intros]: "quiet (f x) \<Longrightarrow> quiet (Let x f)"
  by (simp add: Let_def)

lemma quiet_and_then [quiet_intros]: "quiet a \<Longrightarrow> quiet b \<Longrightarrow> quiet (and_then a b)"
  unfolding and_then_def by (intro quiet_intros)

lemma quiet_next_io [quiet_intros]: "quiet next_io"
  by (simp add: quiet_def next_io_def)

lemma quiet_modify_index [quiet_intros]:
  "quiet (modify (\<lambda>s. s\<lparr>g_identity_index_valid := b\<rparr>))" "quiet (modify (\<lambda>s. s\<lparr>g_identity_index := xs, g_identity_index_valid := b\<rparr>))"
  "quiet (modify (\<lambda>s. s\<lparr>g_identity_index_capacity := n\<rparr>))" "quiet (modify (\<lambda>s. s\<lparr>g_append_recovery_required := b\<rparr>))"
  by (simp_all add: quiet_def)

lemma quiet_indexAdd [quiet_intros]: "quiet (identityIndexAdd m)"
  by (simp add: quiet_def identityIndexAdd_def)

text \<open>On the default backend the branch for an external one is not taken.\<close>

lemma quiet_backend [quiet_intros]:
  assumes "quiet a"
  shows "quiet (gets g_backend \<bind> (\<lambda>be. case be of None \<Rightarrow> a | Some b \<Rightarrow> f b))"
  using assms by (auto simp: quiet_def)

lemma quiet_ensureFs [quiet_intros]: "quiet ensureFs"
  unfolding ensureFs_def by (intro quiet_intros)

lemma quiet_existsStore [quiet_intros]: "quiet existsStore"
  unfolding existsStore_def pathExists_def storePath_def by (intro quiet_intros)

lemma quiet_readAt [quiet_intros]: "quiet (storeReadAt p off n)"
  unfolding storeReadAt_def by (intro quiet_intros)

lemma quiet_readHeader [quiet_intros]: "quiet readHeader"
  unfolding readHeader_def backendRecoveryMaxRecords_def storePath_def by (intro quiet_intros)

lemma quiet_readPayload [quiet_intros]: "quiet (readPayload a b c)"
  unfolding readPayload_def allocateRaw_def storePath_def by (intro quiet_intros)

lemma quiet_loadAll [quiet_intros]: "quiet (loadAllInternal n)"
  unfolding loadAllInternal_def by (intro quiet_intros)

lemma quiet_getById [quiet_intros]: "quiet (messageStoreGetById i)"
  unfolding messageStoreGetById_def by (intro quiet_intros)

lemma quiet_ensureIndex [quiet_intros]: "quiet (ensureIdentityIndexCapacity n)"
  unfolding ensureIdentityIndexCapacity_def allocateRaw_def by (intro quiet_intros)

lemma quiet_indexClear [quiet_intros]: "quiet identityIndexClear"
  unfolding identityIndexClear_def backendMaxRecords_def by (intro quiet_intros)

lemma quiet_fold [quiet_intros]: "(\<And>x. quiet (f x)) \<Longrightarrow> quiet k \<Longrightarrow> quiet (foldr (\<lambda>m k. do { f m; k }) xs k)"
  by (induction xs) (auto intro: quiet_intros)

lemma quiet_rebuild [quiet_intros]: "quiet rebuildIdentityIndex"
  unfolding rebuildIdentityIndex_def backendMaxRecords_def allocateMessages_def allocateRaw_def by (intro quiet_intros)

lemma quiet_existsLoop [quiet_intros]: "quiet (exists_loop m h es)"
  by (induction m h es rule: exists_loop.induct) (auto intro!: quiet_intros)

lemma quiet_messageExists [quiet_intros]: "quiet (messageExists m)"
  unfolding messageExists_def by (intro quiet_intros)

section \<open>The states an append passes through\<close>

text \<open>
  The file while the record \<open>m\<close> is appended to the store of \<open>ms\<close>: the record written up to some byte,
  or written whole with the new header over the old one up to some byte.
\<close>

definition torn :: "StoredMessage list \<Rightarrow> u32 \<Rightarrow> StoredMessage \<Rightarrow> byte list \<Rightarrow> bool" where
  "torn ms nid m d \<longleftrightarrow> (\<exists>j. d = store_bytes ms nid @ take j (record_bytes m)) \<or>
     (\<exists>j c n. d = overwrite (store_bytes ms nid @ record_bytes m) 0 (take j (header_bytes c n)))"

lemma write_steps_states:
  "\<sigma> \<in> set (write_steps p d off data k fs) \<Longrightarrow> \<exists>j. \<sigma> = fs(p \<mapsto> overwrite d off (take j data))"
  by (auto simp: write_steps_def)

lemma write_steps_last:
  "write_steps p d off data k fs \<noteq> [] \<and> last (write_steps p d off data k fs) = fs(p \<mapsto> overwrite d off (take k data))"
  by (simp add: write_steps_def min_def)

lemma overwrite_end: "overwrite d (length d) x = d @ x"
  by (simp add: overwrite_def)

lemma run_storeAppend:
  assumes b: "g_backend s = None" and f: "ms_flash s p = Some d" and ne: "data \<noteq> []" and r: "run_state (storeAppend p data) s = (ok, s')"
  shows "g_backend s' = None" and "\<exists>j. ms_flash s' = (ms_flash s)(p \<mapsto> d @ take j data) \<and> (ok \<longrightarrow> length data \<le> j)"
    and "\<forall>\<sigma> \<in> set (ms_trace s'). \<sigma> \<in> set (ms_trace s) \<or> (\<exists>j. \<sigma> = (ms_flash s)(p \<mapsto> d @ take j data))"
proof -
  define io where "io = ms_io s (ms_tick s)"
  let ?st = "write_steps p d (length d) data (io_room io) (ms_flash s)"
  have R: "run_state (storeAppend p data) s = (if \<not> io_ok io then (False, ticks 1 s)
      else (length data \<le> io_room io, (ticks 1 s)\<lparr>ms_flash := last ?st, ms_trace := ms_trace s @ ?st\<rparr>))"
    using b ne f write_steps_last [of p d "length d" data "io_room io" "ms_flash s"]
    by (simp add: storeAppend_def next_io_def flash_steps_def ticks_def io_def Let_def)
  have "s' = ticks 1 s \<and> \<not> ok \<or> s' = (ticks 1 s)\<lparr>ms_flash := last ?st, ms_trace := ms_trace s @ ?st\<rparr> \<and> ok = (length data \<le> io_room io)"
    using r R by (auto split: if_splits)
  note cases = this
  show "g_backend s' = None" using cases b by auto
  show "\<exists>j. ms_flash s' = (ms_flash s)(p \<mapsto> d @ take j data) \<and> (ok \<longrightarrow> length data \<le> j)"
    using cases
  proof
    assume "s' = ticks 1 s \<and> \<not> ok"
    then show ?thesis using f by (intro exI [of _ 0]) (simp add: map_upd_triv)
  next
    assume "s' = (ticks 1 s)\<lparr>ms_flash := last ?st, ms_trace := ms_trace s @ ?st\<rparr> \<and> ok = (length data \<le> io_room io)"
    then show ?thesis using write_steps_last [of p d "length d" data "io_room io" "ms_flash s"]
      by (intro exI [of _ "io_room io"]) (simp add: overwrite_end)
  qed
  show "\<forall>\<sigma> \<in> set (ms_trace s'). \<sigma> \<in> set (ms_trace s) \<or> (\<exists>j. \<sigma> = (ms_flash s)(p \<mapsto> d @ take j data))"
  proof
    fix \<sigma> assume "\<sigma> \<in> set (ms_trace s')"
    then have "\<sigma> \<in> set (ms_trace s) \<or> \<sigma> \<in> set ?st" using cases by auto
    then show "\<sigma> \<in> set (ms_trace s) \<or> (\<exists>j. \<sigma> = (ms_flash s)(p \<mapsto> d @ take j data))"
      using write_steps_states [of \<sigma> p d "length d"] unfolding overwrite_end by blast
  qed
qed

lemma run_writeHeader:
  assumes b: "g_backend s = None" and f: "ms_flash s MSG_STORE_PATH = Some d" and r: "run_state (writeHeaderState c n) s = (ok, s')"
  shows "g_backend s' = None" and "\<exists>j. ms_flash s' = (ms_flash s)(MSG_STORE_PATH \<mapsto> overwrite d 0 (take j (header_bytes (word_of_nat c) n))) \<and> (ok \<longrightarrow> 13 \<le> j)"
    and "\<forall>\<sigma> \<in> set (ms_trace s'). \<sigma> \<in> set (ms_trace s) \<or>
      (\<exists>j. \<sigma> = (ms_flash s)(MSG_STORE_PATH \<mapsto> overwrite d 0 (take j (header_bytes (word_of_nat c) n))))"
proof -
  let ?h = "header_bytes (word_of_nat c) n"
  obtain e s1 where 1: "run_state ensureFs s = (e, s1)" by force
  note q = quietD [OF quiet_ensureFs b 1]
  define io where "io = ms_io s1 (ms_tick s1)"
  let ?st = "write_steps MSG_STORE_PATH d 0 ?h (io_room io) (ms_flash s)"
  have ne: "?h \<noteq> []" by (simp add: header_bytes_def)
  have R: "run_state (writeHeaderState c n) s = (if \<not> e \<or> n = 0 then (False, s1) else if \<not> io_ok io then (False, ticks 1 s1)
      else (13 \<le> io_room io, (ticks 1 s1)\<lparr>ms_flash := last ?st, ms_trace := ms_trace s @ ?st\<rparr>))"
    using 1 q f ne write_steps_last [of MSG_STORE_PATH d 0 ?h "io_room io" "ms_flash s"]
    by (simp add: writeHeaderState_def storeWriteAt_def storePath_def next_io_def flash_steps_def ticks_def io_def Let_def)
  have "(s' = s1 \<or> s' = ticks 1 s1) \<and> \<not> ok \<or>
      s' = (ticks 1 s1)\<lparr>ms_flash := last ?st, ms_trace := ms_trace s @ ?st\<rparr> \<and> ok = (13 \<le> io_room io)"
    using r R by (auto split: if_splits)
  note cases = this
  show "g_backend s' = None" using cases q by auto
  show "\<exists>j. ms_flash s' = (ms_flash s)(MSG_STORE_PATH \<mapsto> overwrite d 0 (take j ?h)) \<and> (ok \<longrightarrow> 13 \<le> j)"
    using cases
  proof
    assume "(s' = s1 \<or> s' = ticks 1 s1) \<and> \<not> ok"
    then show ?thesis using f q by (intro exI [of _ 0]) (auto simp: map_upd_triv)
  next
    assume "s' = (ticks 1 s1)\<lparr>ms_flash := last ?st, ms_trace := ms_trace s @ ?st\<rparr> \<and> ok = (13 \<le> io_room io)"
    then show ?thesis using write_steps_last [of MSG_STORE_PATH d 0 ?h "io_room io" "ms_flash s"]
      by (intro exI [of _ "io_room io"]) simp
  qed
  show "\<forall>\<sigma> \<in> set (ms_trace s'). \<sigma> \<in> set (ms_trace s) \<or> (\<exists>j. \<sigma> = (ms_flash s)(MSG_STORE_PATH \<mapsto> overwrite d 0 (take j ?h)))"
  proof
    fix \<sigma> assume "\<sigma> \<in> set (ms_trace s')"
    then have "\<sigma> \<in> set (ms_trace s) \<or> \<sigma> \<in> set ?st" using cases q by auto
    then show "\<sigma> \<in> set (ms_trace s) \<or> (\<exists>j. \<sigma> = (ms_flash s)(MSG_STORE_PATH \<mapsto> overwrite d 0 (take j ?h)))"
      using write_steps_states [of \<sigma> MSG_STORE_PATH d 0] by blast
  qed
qed

lemma readHeader_any:
  assumes b: "g_backend s = None" and f: "ms_flash s MSG_STORE_PATH = Some (store_bytes ms nid)" and ok: "log_ok 513 ms nid"
    and r: "run_state readHeader s = (x, s')"
  shows "x = None \<or> x = Some (length ms, nid)"
proof -
  have l: "13 \<le> length (store_bytes ms nid)" using length_store_bytes [of ms nid] ok by (simp add: log_ok_def)
  have "decode_header 513 (take 13 (store_bytes ms nid)) = decode_header 513 (store_bytes ms nid)"
    using l by (simp add: decode_header_def get_u32_def Let_def)
  then have d: "decode_header 513 (take 13 (store_bytes ms nid)) = Some (length ms, nid)" using decode_header_image [OF ok] by simp
  show ?thesis
    using r b f l d
    by (auto simp: readHeader_def ensureFs_def existsStore_def pathExists_def storePath_def next_io_def fileExists_def storeReadAt_def
        backendRecoveryMaxRecords_def message_sizes split: if_splits)
qed

lemma append_record_trace:
  assumes b: "g_backend s = None" and f: "ms_flash s MSG_STORE_PATH = Some (store_bytes ms nid)"
    and ok: "log_ok 513 ms nid" and n: "length ms < 512" and m: "msg_wf m" and r: "run_state (append_record m) s = (x, s')"
  shows "\<forall>\<sigma> \<in> set (ms_trace s'). \<sigma> \<in> set (ms_trace s) \<or>
    (\<exists>d. \<sigma> = (ms_flash s)(MSG_STORE_PATH \<mapsto> d) \<and> torn ms nid (m\<lparr>sm_store_id := nid\<rparr>) d)"
proof -
  let ?m = "m\<lparr>sm_store_id := nid\<rparr>" and ?p = MSG_STORE_PATH
  let ?rec = "record_bytes ?m"
  have len: "length ?rec = 254" using record_bytes_eq(2) [of ?m] m by (simp add: msg_wf_def)
  obtain h s1 where 1: "run_state readHeader s = (h, s1)" by force
  note q1 = quietD [OF quiet_readHeader b 1]
  have h: "h = None \<or> h = Some (length ms, nid)" by (rule readHeader_any [OF b f ok 1])
  obtain fid where fid: "run_state (nextUnusedIdAfter nid) s1 = (fid, s1)" by (simp add: nextUnusedIdAfter_def)
  let ?s2 = "s1\<lparr>g_append_recovery_required := True\<rparr>"
  obtain a s3 where 3: "run_state (storeAppend ?p ?rec) ?s2 = (a, s3)" by force
  have ap: "g_backend s3 = None" "\<exists>j. ms_flash s3 = (ms_flash s)(?p \<mapsto> store_bytes ms nid @ take j ?rec) \<and> (a \<longrightarrow> 254 \<le> j)"
    "\<forall>\<sigma> \<in> set (ms_trace s3). \<sigma> \<in> set (ms_trace s) \<or> (\<exists>j. \<sigma> = (ms_flash s)(?p \<mapsto> store_bytes ms nid @ take j ?rec))"
  proof -
    have 2: "g_backend ?s2 = None" "ms_flash ?s2 ?p = Some (store_bytes ms nid)" "?rec \<noteq> []" "ms_flash ?s2 = ms_flash s" "ms_trace ?s2 = ms_trace s"
      using q1 f len by auto
    note ap = run_storeAppend [OF 2(1-3) 3, unfolded 2(4,5) len]
    show "g_backend s3 = None" by (rule ap(1))
    show "\<exists>j. ms_flash s3 = (ms_flash s)(?p \<mapsto> store_bytes ms nid @ take j ?rec) \<and> (a \<longrightarrow> 254 \<le> j)" by (rule ap(2))
    show "\<forall>\<sigma> \<in> set (ms_trace s3). \<sigma> \<in> set (ms_trace s) \<or> (\<exists>j. \<sigma> = (ms_flash s)(?p \<mapsto> store_bytes ms nid @ take j ?rec))" by (rule ap(3))
  qed
  obtain w s4 where 4: "run_state (writeHeaderState (length ms + 1) fid) s3 = (w, s4)" by force
  have trace3: "\<sigma> \<in> set (ms_trace s) \<or> (\<exists>d. \<sigma> = (ms_flash s)(?p \<mapsto> d) \<and> torn ms nid ?m d)" if "\<sigma> \<in> set (ms_trace s3)" for \<sigma>
    using ap(3) that unfolding torn_def by blast
  have trace4: "\<sigma> \<in> set (ms_trace s) \<or> (\<exists>d. \<sigma> = (ms_flash s)(?p \<mapsto> d) \<and> torn ms nid ?m d)" if a "\<sigma> \<in> set (ms_trace s4)" for \<sigma>
  proof -
    have f3: "ms_flash s3 = (ms_flash s)(?p \<mapsto> store_bytes ms nid @ ?rec)" using ap(2) that(1) len by auto
    have "ms_flash s3 ?p = Some (store_bytes ms nid @ ?rec)" by (simp add: f3)
    note w = run_writeHeader(3) [OF ap(1) this 4, unfolded f3 fun_upd_upd]
    from w that(2) consider "\<sigma> \<in> set (ms_trace s3)"
      | j where "\<sigma> = (ms_flash s)(?p \<mapsto> overwrite (store_bytes ms nid @ ?rec) 0 (take j (header_bytes (word_of_nat (length ms + 1)) fid)))"
      by blast
    then show ?thesis using trace3 unfolding torn_def by cases blast+
  qed
  have s': "s' = s1 \<or> ms_trace s' = ms_trace s3 \<or> a \<and> ms_trace s' = ms_trace s4"
    using r 1 fid 3 4 h n q1 run_writeHeader(1) [OF ap(1) _ 4] ap(2)
    by (auto simp: append_record_def storePath_def backendMaxRecords_def backendCompactToRecords_def identityIndexAdd_def
        Let_def split: if_splits prod.splits)
  show ?thesis
  proof
    fix \<sigma> assume "\<sigma> \<in> set (ms_trace s')"
    then have "\<sigma> \<in> set (ms_trace s) \<or> \<sigma> \<in> set (ms_trace s3) \<or> a \<and> \<sigma> \<in> set (ms_trace s4)" using s' q1 by auto
    then show "\<sigma> \<in> set (ms_trace s) \<or> (\<exists>d. \<sigma> = (ms_flash s)(?p \<mapsto> d) \<and> torn ms nid ?m d)"
      using trace3 trace4 by blast
  qed
qed

lemma normalize_wf: "msg_wf m \<Longrightarrow> msg_wf (storedMessageNormalize m)"
  using length_utf8_trunc_le [of 159 "sm_text m"]
  by (simp add: msg_wf_def storedMessageNormalize_def copy_truncate_n_eq)

lemma stored_normalize:
  assumes "msg_wf m"
  shows "stored_message ((storedMessageNormalize m)\<lparr>sm_store_id := i\<rparr>) = (stored_message m)\<lparr>sm_store_id := i\<rparr>"
proof -
  have "stored_message (storedMessageNormalize m) = stored_message m"
  proof -
    have t: "utf8_trunc 159 (utf8_trunc 159 t @ 0 # ys) = utf8_trunc 159 t" for t ys
      using utf8_trunc_cstr [of 159 "utf8_trunc 159 t @ 0 # ys"] length_utf8_trunc_le [of 159 t]
        utf8_trunc_all [of "utf8_trunc 159 t" 159] by (simp add: cstr_terminated)
    show ?thesis using assms
      by (simp add: stored_message_def storedMessageNormalize_def copy_truncate_n_eq t msg_wf_def)
  qed
  moreover have "stored_message (x\<lparr>sm_store_id := i\<rparr>) = (stored_message x)\<lparr>sm_store_id := i\<rparr>" for x
    by (cases x) (simp add: stored_message_def)
  ultimately show ?thesis by simp
qed

text \<open>
  A power failure at any point of an append leaves a file from which start-up recovers all the
  records stored before, and the new one exactly when it is whole.
\<close>

lemma torn_split:
  assumes ok: "log_ok 513 ms nid" and n: "length ms < 512" and m: "msg_wf m" "sm_store_id m = nid" and t: "torn ms nid m d"
  obtains h ms' z where "d = h @ concat (map record_bytes ms') @ z" "length h = 13" "get_u32 h 0 = MESSAGE_STORE_MAGIC"
    "h ! 4 = MESSAGE_STORE_VERSION" "length z < 254" "ms' = ms \<or> ms' = ms @ [m]"
    "ms' = [] \<longrightarrow> unat (get_u32 h 5) \<le> 513 \<and> get_u32 h 9 \<noteq> 0"
proof -
  let ?h = "header_bytes (word_of_nat (length ms)) nid" and ?r = "concat (map record_bytes ms)"
  have len: "length (record_bytes m) = 254" by (rule record_bytes_eq(2) [OF m(1)])
  have hf: "get_u32 ?h 0 = MESSAGE_STORE_MAGIC" "?h ! 4 = MESSAGE_STORE_VERSION" "get_u32 ?h 5 = word_of_nat (length ms)" "get_u32 ?h 9 = nid"
    using header_fields [of "word_of_nat (length ms)" nid "[]"] by simp_all
  have c: "unat (get_u32 ?h 5) \<le> 513 \<and> get_u32 ?h 9 \<noteq> 0"
    using hf ok unat_count [of "length ms" 513] by (auto simp: log_ok_def)
  from t consider j where "d = ?h @ ?r @ take j (record_bytes m)" "j < 254" | "d = ?h @ concat (map record_bytes (ms @ [m])) @ []"
    | j c' n' where "d = overwrite ?h 0 (take j (header_bytes c' n')) @ concat (map record_bytes (ms @ [m])) @ []"
  proof (unfold torn_def, elim disjE exE)
    fix j assume "d = store_bytes ms nid @ take j (record_bytes m)"
    then show thesis using that len by (cases "j < 254") (auto simp: store_bytes_def)
  next
    fix j c' n' assume "d = overwrite (store_bytes ms nid @ record_bytes m) 0 (take j (header_bytes c' n'))"
    moreover have "length (take j (header_bytes c' n')) \<le> 13" by simp
    ultimately show thesis using that(3) by (simp add: overwrite_0 store_bytes_def)
  qed
  then show thesis
  proof cases
    case (1 j)
    then show ?thesis using hf(1,2) len by (intro that [of ?h ms "take j (record_bytes m)"] impI c) auto
  next
    case 2
    then show ?thesis using that [of ?h "ms @ [m]" "[]"] hf by simp
  next
    case (3 j c' n')
    let ?o = "overwrite ?h 0 (take j (header_bytes c' n'))"
    have "?o ! i = ?h ! i" if "i < 5" for i
      using that by (cases "i < j") (auto simp: overwrite_0 nth_append header_bytes_def nth_Cons')
    then have "get_u32 ?o 0 = get_u32 ?h 0" "?o ! 4 = ?h ! 4" by (simp_all add: get_u32_def)
    then show ?thesis using that [of ?o "ms @ [m]" "[]"] hf 3 by simp
  qed
qed

lemma writeHeaderIfNeeded_quiet:
  assumes b: "g_backend s = None" and f: "ms_flash s MSG_STORE_PATH = Some d" and r: "run_state writeHeaderIfNeeded s = (x, s')"
  shows "g_backend s' = None" "ms_flash s' = ms_flash s" "ms_trace s' = ms_trace s"
proof -
  obtain h s1 where 1: "run_state readHeader s = (h, s1)" by force
  note q = quietD [OF quiet_readHeader b 1]
  have "s' = s1" using r 1 q f calm_existsStore [of s1] by (cases h) (auto simp: writeHeaderIfNeeded_def)
  then show "g_backend s' = None" "ms_flash s' = ms_flash s" "ms_trace s' = ms_trace s" using q by simp_all
qed

lemma appendOnce_trace:
  assumes b: "g_backend s = None" and f: "ms_flash s MSG_STORE_PATH = Some (store_bytes ms nid)" and q: "\<not> g_append_recovery_required s"
    and ok: "log_ok 513 ms nid" and n: "length ms < 512" and m: "msg_wf msg" and s': "s' = snd (run_state (appendOnce msg) s)"
  shows "\<forall>\<sigma> \<in> set (ms_trace s'). \<sigma> \<in> set (ms_trace s) \<or>
    (\<exists>d. \<sigma> = (ms_flash s)(MSG_STORE_PATH \<mapsto> d) \<and> torn ms nid ((storedMessageNormalize msg)\<lparr>sm_store_id := nid\<rparr>) d)"
proof -
  let ?norm = "storedMessageNormalize msg"
  obtain ok1 s1 where 1: "run_state append_prepare s = (ok1, s1)" by force
  have "run_state writeHeaderIfNeeded s = (ok1, s1)" using 1 q by (simp add: append_prepare_def)
  note q1 = writeHeaderIfNeeded_quiet [OF b f this]
  obtain ex s2 where 2: "run_state (messageExists ?norm) s1 = (ex, s2)" by force
  note q2 = quietD [OF quiet_messageExists q1(1) 2]
  obtain x s3 where 3: "run_state (append_record ?norm) s2 = (x, s3)" by force
  note t3 = append_record_trace [OF q2(1) _ ok n normalize_wf [OF m] 3]
  have "s' = s1 \<or> s' = s2 \<or> s' = s3" using s' 1 2 3 by (auto simp: appendOnce_def split: option.splits if_splits)
  then show ?thesis
  proof (elim disjE)
    assume "s' = s1" then show ?thesis using q1 by simp
  next
    assume "s' = s2" then show ?thesis using q1 q2 by simp
  next
    assume "s' = s3" then show ?thesis using t3 q1 q2 f by simp
  qed
qed

lemma log_loaded:
  assumes "calm s" and "log_state s ms nid" and "length ms \<le> 512"
  shows "fst (run_state (messageStoreLoadAll 512) s) = map stored_message ms"
proof -
  obtain k where "run_state (loadAllInternal 512) s = (map stored_message (take (nat 512) ms), ticks k s)"
    using calm_loadAll [OF assms(1), of ms nid 512] assms(2) by (auto simp: log_state_def)
  then show ?thesis using assms(3) by (simp add: messageStoreLoadAll_def)
qed

section \<open>Appending on a working flash\<close>

lemma cstr_snoc_nul: "cstr (xs @ [0]) = cstr xs"
  by (induction xs) (auto simp: cstr_def)

lemma same_identity_hash:
  assumes "storedMessageSameIdentity a b" and "sm_extra_len a \<le> 8"
  shows "identityHash a = identityHash b"
proof -
  have e: "cstr (take 32 (sm_conversation a)) = cstr (take 32 (sm_conversation b))" "cstr (take 160 (sm_text a)) = cstr (take 160 (sm_text b))"
    "sm_timestamp a = sm_timestamp b" "sm_txt_type a = sm_txt_type b" "sm_extra_len a = sm_extra_len b"
    "take (unat (sm_extra_len a)) (sm_extra a) = take (unat (sm_extra_len a)) (sm_extra b)"
    "sm_is_self a = sm_is_self b" "sm_is_channel a = sm_is_channel b"
    using assms(1) unfolding storedMessageSameIdentity_def strncmp_eq_def Let_def by blast+
  show ?thesis unfolding identityHash_def take_strnlen using e assms(2) by simp
qed

lemma normalized_texts:
  assumes "msg_wf m"
  shows "cstr (take 32 ((sm_conversation m)[31 := 0])) = cstr (take 31 (sm_conversation m))"
    and "cstr (take 32 ((sm_sender m)[31 := 0])) = cstr (take 31 (sm_sender m))"
    and "cstr (take 32 (pad_to 32 (cstr (take 31 d)))) = cstr (take 31 d)"
    and "cstr (take 160 (pad_to 160 (utf8_trunc 159 d))) = utf8_trunc 159 d"
    and "cstr (take 160 (utf8_trunc 159 d @ 0 # ys)) = utf8_trunc 159 d"
proof -
  have t: "cstr (take 32 (c[31 := 0])) = cstr (take 31 c)" if "length c = 32" for c :: "byte list"
  proof -
    have "take 32 (c[31 := 0]) = take 31 c @ [0]"
      using that by (simp add: list_eq_iff_nth_eq nth_append less_Suc_eq nth_list_update)
    then show ?thesis by (simp add: cstr_snoc_nul)
  qed
  have p: "cstr (pad_to n (cstr d)) = cstr d" "cstr (pad_to n (utf8_trunc k d)) = utf8_trunc k d" for n k d
    using cstr_pad_to cstr_no_nul by auto
  show "cstr (take 32 ((sm_conversation m)[31 := 0])) = cstr (take 31 (sm_conversation m))"
    "cstr (take 32 ((sm_sender m)[31 := 0])) = cstr (take 31 (sm_sender m))"
    using assms t by (simp_all add: msg_wf_def)
  show "cstr (take 32 (pad_to 32 (cstr (take 31 d)))) = cstr (take 31 d)"
    using length_cstr_take [of 31 d] by (simp add: p)
  show "cstr (take 160 (pad_to 160 (utf8_trunc 159 d))) = utf8_trunc 159 d"
    using length_utf8_trunc_le [of 159 d] by (simp add: p)
  show "cstr (take 160 (utf8_trunc 159 d @ 0 # ys)) = utf8_trunc 159 d"
    using length_utf8_trunc_le [of 159 d] by (simp add: take_Cons' cstr_terminated)
qed

lemma stored_identity: "msg_wf m \<Longrightarrow> storedMessageSameIdentity ((stored_message m)\<lparr>sm_store_id := i\<rparr>) (storedMessageNormalize m)"
  by (simp add: storedMessageSameIdentity_def strncmp_eq_def stored_message_def storedMessageNormalize_def copy_truncate_n_eq
      normalized_texts Let_def del: take_append)

lemma hash_id: "identityHash (m\<lparr>sm_store_id := i\<rparr>) = identityHash m"
  by (simp add: identityHash_def)

lemma hash_stored:
  assumes "msg_wf m"
  shows "identityHash (stored_message m) = identityHash (storedMessageNormalize m)"
proof -
  have "sm_extra_len (stored_message m) \<le> 8" by (auto simp: stored_message_def)
  then show ?thesis using same_identity_hash [OF stored_identity [OF assms, of 0]] by (simp add: hash_id)
qed

lemma identity_normalized:
  assumes "storedMessageSameIdentity a (storedMessageNormalize m)"
  shows "sm_extra_len a \<le> 8"
proof -
  have "sm_extra_len a = sm_extra_len (storedMessageNormalize m)" using assms by (simp add: storedMessageSameIdentity_def Let_def)
  then show ?thesis by (auto simp: storedMessageNormalize_def)
qed

lemma calm_getById:
  assumes c: "calm s" and f: "ms_flash s MSG_STORE_PATH = Some (store_bytes ms nid)" and ok: "log_ok 513 ms nid" and m: "m \<in> set ms"
  shows "\<exists>k. run_state (messageStoreGetById (sm_store_id m)) s = (Some (stored_message m), ticks k s)"
proof -
  have wf: "list_all msg_wf ms" "length ms \<le> 513" "distinct (map sm_store_id ms)" "sm_store_id m \<noteq> 0" "ms \<noteq> []"
    using ok m by (auto simp: log_ok_def)
  note h = calm_header [OF c f ok]
  have p: "run_state (readPayload (length ms) 13 254) (ticks 2 s) = (Some (take (254 * length ms) (drop 13 (store_bytes ms nid))), ticks 1 (ticks 2 s))"
    using c f wf length_store_bytes [OF wf(1)] by (intro calm_readPayload) auto
  have d: "drop 13 (store_bytes ms nid) = concat (map record_bytes ms)" by (simp add: store_bytes_def)
  obtain i where i: "i < length ms" "ms ! i = m" using m by (auto simp: in_set_conv_nth)
  have "List.find (\<lambda>x. sm_store_id x = sm_store_id m) (map stored_message ms) = Some (stored_message m)"
    using i wf(3) by (auto simp: find_Some_iff distinct_conv_nth intro!: exI [of _ i])
  then show ?thesis using h p d wf loaded_messages [OF wf(1) order_refl]
    by (auto simp: messageStoreGetById_def message_sizes)
qed

lemma calm_existsLoop:
  assumes c: "calm s" and f: "ms_flash s MSG_STORE_PATH = Some (store_bytes ms nid)" and ok: "log_ok 513 ms nid" and sub: "set ns \<subseteq> set ms"
  shows "\<exists>k. run_state (exists_loop (storedMessageNormalize msg) (identityHash (storedMessageNormalize msg)) (index_of ns)) s =
    (map_option sm_store_id (List.find (\<lambda>m. storedMessageSameIdentity (stored_message m) (storedMessageNormalize msg)) ns), ticks k s)"
  using assms
proof (induction ns arbitrary: s)
  case Nil
  then show ?case by (auto simp: index_of_def ticks_def intro: exI [of _ 0])
next
  case (Cons m ns)
  let ?same = "storedMessageSameIdentity (stored_message m) (storedMessageNormalize msg)"
  show ?case
  proof (cases "identityHash (stored_message m) = identityHash (storedMessageNormalize msg)")
    case True
    obtain k where k: "run_state (messageStoreGetById (sm_store_id m)) s = (Some (stored_message m), ticks k s)"
      using calm_getById [OF Cons.prems(1-3), of m] Cons.prems(4) by auto
    obtain j where "run_state (exists_loop (storedMessageNormalize msg) (identityHash (storedMessageNormalize msg)) (index_of ns)) (ticks k s) =
        (map_option sm_store_id (List.find (\<lambda>m. storedMessageSameIdentity (stored_message m) (storedMessageNormalize msg)) ns), ticks j (ticks k s))"
      using Cons.IH [of "ticks k s"] Cons.prems by auto
    then show ?thesis using k True by (auto simp: index_of_def)
  next
    case False
    then have "\<not> ?same" using same_identity_hash identity_normalized by blast
    then show ?thesis using False Cons.IH [of s] Cons.prems by (auto simp: index_of_def)
  qed
qed

lemma unused_from_iterate: "unused_from ids n c \<noteq> 0 \<Longrightarrow> \<exists>k < n. unused_from ids n c = (nextAfter ^^ k) c"
proof (induction n arbitrary: c)
  case (Suc n)
  show ?case
  proof (cases "c \<in> set ids")
    case True
    then have u: "unused_from ids (Suc n) c = unused_from ids n (nextAfter c)" by (auto simp: list_ex_iff)
    then obtain k where "k < n" "unused_from ids (Suc n) c = (nextAfter ^^ k) (nextAfter c)" using Suc.IH [of "nextAfter c"] Suc.prems by auto
    then show ?thesis by (intro exI [of _ "Suc k"]) (simp add: funpow_swap1)
  next
    case False
    then show ?thesis by (intro exI [of _ 0]) (auto simp: list_ex_iff)
  qed
qed simp

lemma following_id:
  assumes "nid \<noteq> 0" and "length ids < 2 ^ 32 - 2"
  defines "fid \<equiv> unused_from ids (length ids + 1) (nextAfter nid)"
  shows "fid \<noteq> 0 \<and> fid \<notin> set ids \<and> fid \<noteq> nid"
proof -
  have f: "fid \<noteq> 0" "fid \<notin> set ids" using unused_from_fresh [OF nextAfter_nonzero, of ids nid] assms by auto
  then obtain k where k: "k < length ids + 1" "fid = (nextAfter ^^ Suc k) nid"
    using unused_from_iterate [of ids "length ids + 1" "nextAfter nid"] by (auto simp: fid_def funpow_swap1)
  then have "fid \<noteq> (nextAfter ^^ 0) nid"
    using inj_onD [OF iterates_distinct [OF assms(1), of "length ids + 2"], of "Suc k" 0] assms(2) by auto
  then show ?thesis using f by simp
qed

lemma appended_image:
  assumes "list_all msg_wf ms"
  shows "overwrite (store_bytes ms nid @ record_bytes m) 0 (header_bytes (word_of_nat (length ms + 1)) fid) = store_bytes (ms @ [m]) fid"
  by (simp add: overwrite_0 store_bytes_def)

lemma calm_append_record:
  assumes c: "calm s" and L: "log_state s ms nid" and n: "length ms < 512" and m: "msg_wf m"
  defines "m' \<equiv> (storedMessageNormalize m)\<lparr>sm_store_id := nid\<rparr>"
  shows "\<exists>s' fid. run_state (append_record (storedMessageNormalize m)) s = (Some nid, s') \<and> calm s' \<and> log_state s' (ms @ [m']) fid \<and>
    ms_flash s' \<in> set (ms_trace s')"
proof -
  have ok: "log_ok 513 ms nid" and f: "ms_flash s MSG_STORE_PATH = Some (store_bytes ms nid)" and ix: "g_identity_index s = index_of ms"
    using L by (simp_all add: log_state_def)
  have m': "msg_wf m'" "sm_store_id m' = nid" using normalize_wf [OF m] by (simp_all add: m'_def msg_wf_def)
  define fid where "fid = unused_from (map snd (index_of ms)) (length (index_of ms) + 1) (nextAfter nid)"
  have ids: "map snd (index_of ms) = map sm_store_id ms" by (simp add: index_of_def)
  have "fid \<noteq> 0 \<and> fid \<notin> sm_store_id ` set ms \<and> fid \<noteq> nid"
    using following_id [of nid "map sm_store_id ms"] ok n unfolding fid_def ids
    by (simp add: log_ok_def index_of_def del: unused_from.simps)
  then have ok': "log_ok 513 (ms @ [m']) fid" using ok m' n by (auto simp: log_ok_def)
  have wf: "list_all msg_wf ms" using ok by (simp add: log_ok_def)
  let ?r = "record_bytes m'" and ?F = "store_bytes ms nid" and ?p = MSG_STORE_PATH
  have len: "length ?r = 254" by (rule record_bytes_eq(2) [OF m'(1)])
  let ?s1 = "(ticks 2 s)\<lparr>g_append_recovery_required := True\<rparr>"
  let ?st = "write_steps ?p ?F (length ?F) ?r big (ms_flash s)"
  let ?s2 = "(ticks 1 ?s1)\<lparr>ms_flash := (ms_flash s)(?p \<mapsto> ?F @ ?r), ms_trace := ms_trace s @ ?st\<rparr>"
  have c1: "calm ?s1" using c by simp
  have A: "run_state (storeAppend ?p ?r) ?s1 = (True, ?s2)"
    using c1 f len write_steps_last [of ?p ?F "length ?F" ?r big "ms_flash s"]
    by (auto simp: storeAppend_def calm_simps flash_steps_def overwrite_end big_def Let_def)
  let ?h = "header_bytes (word_of_nat (length ms + 1)) fid"
  let ?st2 = "write_steps ?p (?F @ ?r) 0 ?h big (ms_flash ?s2)"
  let ?s3 = "(ticks 2 ?s2)\<lparr>ms_flash := (ms_flash s)(?p \<mapsto> store_bytes (ms @ [m']) fid), ms_trace := ms_trace ?s2 @ ?st2\<rparr>"
  have c2: "calm ?s2" using c by simp
  have l2: "last ?st2 = (ms_flash s)(?p \<mapsto> store_bytes (ms @ [m']) fid) \<and> ?st2 \<noteq> []"
    using write_steps_last [of ?p "?F @ ?r" 0 ?h big "ms_flash ?s2"] appended_image [OF wf, of nid m' fid] by (simp add: big_def)
  have "?h \<noteq> []" "fid \<noteq> 0" using ok' by (simp_all add: header_bytes_def log_ok_def)
  then have W: "run_state (writeHeaderState (length ms + 1) fid) ?s2 = (True, ?s3)"
    using c2 l2 by (simp add: writeHeaderState_def storeWriteAt_def calm_ensureFs calm_simps flash_steps_def big_def numeral_2_eq_2 Let_def)
  let ?s4 = "?s3\<lparr>g_append_recovery_required := False, g_identity_index := index_of ms @ [(identityHash m', nid)]\<rparr>"
  have nx: "run_state (nextUnusedIdAfter nid) (ticks 2 s) = (fid, ticks 2 s)" using ix by (simp add: nextUnusedIdAfter_def fid_def)
  have nid: "nid \<noteq> 0" using ok by (simp add: log_ok_def)
  have "run_state (append_record (storedMessageNormalize m)) s = (Some nid, ?s4)"
    using calm_header [OF c f ok] nx A W L n c nid \<open>fid \<noteq> 0\<close>
    by (simp add: append_record_def m'_def [symmetric] storePath_def backendMaxRecords_def backendCompactToRecords_def
        identityIndexAdd_def calm_backend log_state_def m'(2) index_of_def Let_def)
  moreover have "calm ?s4" using c by simp
  moreover have "identityHash (stored_message m') = identityHash m'"
    using hash_stored [OF m] stored_normalize [OF m, of nid] by (simp add: m'_def hash_id)
  then have "log_state ?s4 (ms @ [m']) fid" using ok' L m'(2) by (simp add: log_state_def index_of_def)
  moreover have "ms_flash ?s4 \<in> set (ms_trace ?s4)" using l2 last_in_set [of ?st2] by simp
  ultimately show ?thesis by blast
qed

lemma calm_appendOnce:
  assumes c: "calm s" and L: "log_state s ms nid" and n: "length ms < 512" and m: "msg_wf msg"
  defines "dup \<equiv> List.find (\<lambda>m. storedMessageSameIdentity (stored_message m) (storedMessageNormalize msg)) ms"
  shows "\<exists>s' fid. calm s' \<and> (case dup of
     Some d \<Rightarrow> run_state (appendOnce msg) s = (Some (sm_store_id d), s') \<and> log_state s' ms nid
   | None \<Rightarrow> run_state (appendOnce msg) s = (Some nid, s') \<and> log_state s' (ms @ [(storedMessageNormalize msg)\<lparr>sm_store_id := nid\<rparr>]) fid \<and>
       ms_flash s' \<in> set (ms_trace s'))"
proof -
  have ok: "log_ok 513 ms nid" and f: "ms_flash s MSG_STORE_PATH = Some (store_bytes ms nid)" using L by (simp_all add: log_state_def)
  have P: "run_state append_prepare s = (True, ticks 2 s)"
    using calm_header [OF c f ok] L by (simp add: append_prepare_def writeHeaderIfNeeded_def log_state_def)
  obtain k where E: "run_state (exists_loop (storedMessageNormalize msg) (identityHash (storedMessageNormalize msg)) (index_of ms)) (ticks 2 s) =
      (map_option sm_store_id dup, ticks k (ticks 2 s))"
    using calm_existsLoop [of "ticks 2 s" ms nid ms msg] c f ok unfolding dup_def by auto
  have X: "run_state (messageExists (storedMessageNormalize msg)) (ticks 2 s) = (map_option sm_store_id dup, ticks k (ticks 2 s))"
    using E L by (simp add: messageExists_def log_state_def)
  let ?s = "ticks k (ticks 2 s)"
  have Ls: "log_state ?s ms nid" "calm ?s" using L c by (simp_all add: log_state_def)
  show ?thesis
  proof (cases dup)
    case None
    obtain s' fid where "run_state (append_record (storedMessageNormalize msg)) ?s = (Some nid, s')" "calm s'"
      "log_state s' (ms @ [(storedMessageNormalize msg)\<lparr>sm_store_id := nid\<rparr>]) fid" "ms_flash s' \<in> set (ms_trace s')"
      using calm_append_record [OF Ls(2,1) n m] by blast
    then show ?thesis using P X None by (auto simp: appendOnce_def)
  next
    case (Some d)
    then show ?thesis using P X Ls by (auto simp: appendOnce_def)
  qed
qed

section \<open>Properties\<close>

text \<open>A state at start: nothing in memory yet, the given flash, calls that all succeed.\<close>

definition boot :: "flash \<Rightarrow> unit mstore" where
  "boot fs = \<lparr>g_backend = None, ms_media = (), ms_flash = fs, ms_trace = [fs], ms_io = (\<lambda>_. calm_io), ms_tick = 0, ms_heap = (\<lambda>_. True),
     g_companion_backlog_drop_count = 0, g_backend_degraded = False, g_retry_queue = [], g_retry_queue_drop_count = 0,
     g_last_recovery_result = Clean, g_append_recovery_required = False, g_identity_index = [], g_identity_index_capacity = 0,
     g_identity_index_valid = False\<rparr>"

lemma boot_simps [simp]: "calm (boot fs)" "ms_flash (boot fs) = fs" "ms_trace (boot fs) = [fs]" "g_backend (boot fs) = None"
  "g_append_recovery_required (boot fs) = False" "g_retry_queue (boot fs) = []" "g_identity_index (boot fs) = []"
  by (simp_all add: boot_def calm_def)


definition sample_message :: "byte \<Rightarrow> StoredMessage" where
  "sample_message b = \<lparr>sm_store_id = 0, sm_conversation = pad_to 32 [b], sm_sender = pad_to 32 [0x41], sm_text = pad_to 160 [0x68, 0x69],
     sm_timestamp = 1700000000, sm_sender_prefix = [1, 2, 3, 4, 5, 6], sm_rssi = 0, sm_snr_quarters = 0, sm_path_len = 0xFF,
     sm_txt_type = 0, sm_attempt = 0, sm_extra_len = 0, sm_extra = replicate 8 0, sm_is_self = False, sm_is_channel = False,
     sm_acked = False, sm_confirmation_lost = False, sm_companion_sent = False, sm_route_flood = False, sm_route_known = False,
     sm_attempt_known = False\<rparr>"

lemma sample_message_wf: "msg_wf (sample_message b)"
  by (simp add: msg_wf_def sample_message_def)

definition empty_log :: flash where
  "empty_log = (\<lambda>_. None)(MSG_STORE_PATH \<mapsto> store_bytes [] 1)"

lemma empty_log_ok: "log_ok 513 [] 1" "empty_log MSG_STORE_PATH = Some (store_bytes [] 1)" "empty_log MSG_TEMP = None"
  by (simp_all add: log_ok_def empty_log_def)

lemma empty_log_begin: "\<exists>s nid. run_state messageStoreBegin (boot empty_log) = (True, s) \<and> calm s \<and> log_state s [] nid"
  using calm_begin [of "boot empty_log" "header_bytes 0 1" "[]" "[]"] header_fields [of 0 1 "[]"] empty_log_ok
  by (simp add: store_bytes_def)

definition ready_log :: "unit mstore" where
  "ready_log = (boot empty_log)\<lparr>g_identity_index_valid := True, g_identity_index_capacity := 512\<rparr>"

lemma ready_log_ok: "calm ready_log" "log_state ready_log [] 1" "ms_trace ready_log = [ms_flash ready_log]" "g_backend ready_log = None"
  "g_retry_queue ready_log = []" "ms_flash ready_log = empty_log"
  using empty_log_ok by (simp_all add: ready_log_def log_state_def index_of_def)


lemma append_default:
  assumes c: "calm s" and q: "g_retry_queue s = []" and r: "run_state (appendOnce msg) s = (Some i, s')"
  shows "run_state (messageStoreAppend msg) s = (Some i, s')"
  using assms by (simp add: messageStoreAppend_def retryQueuedOnDefaultBackend_def calm_backend)

lemma appendOnce_queue:
  assumes c: "calm s" and L: "log_state s ms nid" and n: "length ms < 512" and m: "msg_wf msg"
  defines "dup \<equiv> List.find (\<lambda>m. storedMessageSameIdentity (stored_message m) (storedMessageNormalize msg)) ms"
    and "m' \<equiv> (storedMessageNormalize msg)\<lparr>sm_store_id := nid\<rparr>"
  obtains s' fid where "run_state (appendOnce msg) s = (Some (case dup of Some d \<Rightarrow> sm_store_id d | None \<Rightarrow> nid), s')" "calm s'"
    "log_state s' (ms @ (if dup = None then [m'] else [])) fid"
  using calm_appendOnce [OF c L n m, folded dup_def m'_def] by (cases dup) auto



text \<open>
  C40: the search for an id ends within its bound with a usable one. As long as a log holds fewer
  than all ids but two, the id derived after a recovery and the id announced after an append are
  not zero and belong to no stored message, also when the counter wraps round.
\<close>

theorem id_search_succeeds:
  assumes "length (g_identity_index s) < 2 ^ 32 - 1" and "length ms < 2 ^ 32 - 1"
  shows "fst (run_state (nextUnusedIdAfter i) s) \<noteq> 0 \<and> fst (run_state (nextUnusedIdAfter i) s) \<notin> snd ` set (g_identity_index s) \<and>
    deriveNextId ms \<noteq> 0 \<and> deriveNextId ms \<notin> sm_store_id ` set ms"
  using deriveNextId_fresh [OF assms(2)] unused_from_fresh [OF nextAfter_nonzero [of i], of "map snd (g_identity_index s)"] assms(1)
  by (simp add: nextUnusedIdAfter_def gets_def)

theorem id_search_succeeds_witness:
  "fst (run_state (nextUnusedIdAfter 0xFFFFFFFF) ((boot empty_log)\<lparr>g_identity_index := [(5, 1), (6, 2)]\<rparr>)) \<notin> {0, 1, 2}"
  using id_search_succeeds [of "(boot empty_log)\<lparr>g_identity_index := [(5, 1), (6, 2)]\<rparr>" "[]" "0xFFFFFFFF"] by simp

end
