(* ===== verification/MessageReplace.thy ===== *)
theory MessageReplace
  imports MessageAppend
begin

text \<open>
  Operations that rewrite the whole log: replacement under power failure, compaction, and the
  fail-over from an external backend.
\<close>

section \<open>Replacement\<close>

lemma replace_trace:
  assumes b: "g_backend s = None" and t: "ms_trace s = [ms_flash s]" and n: "nid \<noteq> 0"
    and s: "\<sigma> \<in> set (ms_trace (snd (run_state (atomicReplaceStore ms nid) s)))"
  shows "\<sigma> = ms_flash s \<or> (\<exists>env. \<sigma> \<in> set (snd (atomicFileReplace env (Some MSG_STORE_PATH) (Some (writeStore 513 ms nid))
    (Some (validateStore 513)) (ms_flash s))))"
proof -
  obtain e s1 where 1: "run_state ensureFs s = (e, s1)" by force
  note q = quietD [OF quiet_ensureFs b 1]
  show ?thesis
    using s 1 q n t by (auto simp: atomicReplaceStore_def backendRecoveryMaxRecords_def storePath_def next_io_def flash_steps_def Let_def split: if_splits)
qed

lemma calm_recover:
  assumes "calm s"
  shows "\<exists>ok tr. atomicFileRecover (no_faults big) (Some MSG_STORE_PATH) (Some (validateStoreForRecovery 513)) (ms_flash s) = (ok, tr) \<and>
    run_state recover_replacement s = (ok, (ticks 1 s)\<lparr>ms_flash := last tr, ms_trace := ms_trace s @ tr\<rparr>)"
proof -
  obtain ok tr where r: "atomicFileRecover (no_faults big) (Some MSG_STORE_PATH) (Some (validateStoreForRecovery 513)) (ms_flash s) = (ok, tr)" by force
  have "tr \<noteq> []" using recover_clean [OF MSG_temp r] by simp
  then show ?thesis using assms r by (simp add: recover_replacement_def calm_simps flash_steps_def)
qed

lemma store_header: "get_u32 (header_bytes c n) 0 = MESSAGE_STORE_MAGIC" "header_bytes c n ! 4 = MESSAGE_STORE_VERSION"
  "get_u32 (header_bytes c n) 5 = c" "get_u32 (header_bytes c n) 9 = n"
  using header_fields [of c n "[]"] by simp_all

lemma replace_crash:
  assumes old: "log_ok 513 old n" "length old \<le> 512" and new: "log_ok 513 new n'" "length new \<le> 512"
    and fs: "fs MSG_STORE_PATH = Some (store_bytes old n)" "fs MSG_TEMP = None"
    and \<sigma>: "\<sigma> \<in> set (snd (atomicFileReplace env (Some MSG_STORE_PATH) (Some (writeStore 513 new n')) (Some (validateStore 513)) fs))"
  shows "\<exists>ms b nid. (ms = old \<or> ms = new) \<and> run_state messageStoreBegin (boot \<sigma>) = (True, b) \<and> calm b \<and> log_state b ms nid"
proof -
  obtain rok rtr where r: "atomicFileReplace env (Some MSG_STORE_PATH) (Some (writeStore 513 new n')) (Some (validateStore 513)) fs = (rok, rtr)" by force
  let ?s0 = "ticks 1 ((boot \<sigma>)\<lparr>g_last_recovery_result := Clean\<rparr>)"
  obtain ok tr where rec: "atomicFileRecover (no_faults big) (Some MSG_STORE_PATH) (Some (validateStoreForRecovery 513)) (ms_flash ?s0) = (ok, tr)"
    and run: "run_state recover_replacement ?s0 = (ok, (ticks 1 ?s0)\<lparr>ms_flash := last tr, ms_trace := ms_trace ?s0 @ tr\<rparr>)"
    using calm_recover [of ?s0] by auto
  have wf: "list_all msg_wf new" "n' \<noteq> 0" "length new \<le> 513" using new by (simp_all add: log_ok_def)
  have v: "validateStoreForRecovery 513 (store_bytes new n')"
    using validateStore_image [OF wf(1,3)] new(1) validateStore_strict by simp
  have "(last tr MSG_STORE_PATH = Some (store_bytes old n) \<or> last tr MSG_STORE_PATH = Some (store_bytes new n')) \<and> last tr MSG_TEMP = None"
    using message_log.crash_recover [OF MSG_temp fs(1) _ writeStore_spec(1) [OF wf] v validateStore_strict r _ rec] fs(2) \<sigma> r by simp
  then obtain ms k where ms: "ms = old \<or> ms = new" "last tr MSG_STORE_PATH = Some (store_bytes ms k)" "log_ok 513 ms k" "length ms \<le> 512"
      and t: "last tr MSG_TEMP = None"
    using old new by blast
  have f: "last tr MSG_STORE_PATH = Some (header_bytes (word_of_nat (length ms)) k @ concat (map record_bytes ms) @ [])"
    using ms(2) by (simp add: store_bytes_def)
  have "\<exists>b nid. run_state messageStoreBegin (boot \<sigma>) = (True, b) \<and> calm b \<and> log_state b ms nid"
    using calm_begin_recovered [OF boot_simps(1) run, of "header_bytes (word_of_nat (length ms)) k" ms "[]"] f t ms(3,4) unat_count [of "length ms" 513]
    by (auto simp: store_header log_ok_def)
  then show ?thesis using ms(1) by blast
qed

lemma boot_intact:
  assumes "log_ok 513 ms n" and "length ms \<le> 512" and "fs MSG_STORE_PATH = Some (store_bytes ms n)" and "fs MSG_TEMP = None"
  shows "\<exists>b nid. run_state messageStoreBegin (boot fs) = (True, b) \<and> calm b \<and> log_state b ms nid"
  using calm_begin [of "boot fs" "header_bytes (word_of_nat (length ms)) n" ms "[]"] assms unat_count [of "length ms" 513]
  by (auto simp: store_header log_ok_def store_bytes_def)

section \<open>Compaction\<close>

lemma msg_unsent_stored [simp]: "msg_unsent (stored_message m) = msg_unsent m"
  by (simp add: msg_unsent_def stored_message_def)

lemma compact_loop_map: "compact_loop u v (map stored_message ms) i j = map stored_message (compact_loop u v ms i j)"
  by (induction ms arbitrary: i j) auto

lemma filter_unsent_stored: "length (filter msg_unsent (map stored_message ms)) = length (filter msg_unsent ms)"
  by (induction ms) auto

lemma compact_messages_map:
  "compact_messages n (map stored_message ms) = (map stored_message (fst (compact_messages n ms)), snd (compact_messages n ms))"
  unfolding compact_messages_def filter_unsent_stored length_map compact_loop_map Let_def by simp

lemma subseq_distinct: "subseq xs ys \<Longrightarrow> distinct ys \<Longrightarrow> distinct xs"
  by (induction rule: list_emb.induct) (auto dest: list_emb_set)

lemma subseq_log_ok: "subseq kept ms \<Longrightarrow> log_ok 513 ms n \<Longrightarrow> log_ok 513 kept n"
proof -
  assume s: "subseq kept ms" and ok: "log_ok 513 ms n"
  have "set kept \<subseteq> set ms" using s list_emb_set [OF s] by auto
  moreover have "distinct (map sm_store_id kept)"
    using subseq_map [OF s, of sm_store_id] ok subseq_distinct by (auto simp: log_ok_def)
  moreover have "length kept \<le> length ms" using s list_emb_length by blast
  ultimately show ?thesis using ok by (auto simp: log_ok_def list_all_iff)
qed

lemma those_map_Some: "those (map (\<lambda>x. Some (f x)) xs) = Some (map f xs)"
  by (induction xs) simp_all

lemma calm_readComplete:
  assumes c: "calm s" and f: "ms_flash s MSG_STORE_PATH = Some (store_bytes ms nid)" and ok: "log_ok 513 ms nid" and ne: "ms \<noteq> []"
  shows "run_state (readCompleteRecords (length ms) 13) s = (Some (map stored_message ms), ticks 1 s)"
proof -
  have wf: "list_all msg_wf ms" "length ms \<le> 513" using ok by (simp_all add: log_ok_def)
  have p: "run_state (readPayload (length ms) 13 254) s = (Some (take (254 * length ms) (drop 13 (store_bytes ms nid))), ticks 1 s)"
    using c f wf ne length_store_bytes [OF wf(1)] by (intro calm_readPayload) auto
  have d: "take (254 * length ms) (drop 13 (store_bytes ms nid)) = concat (map record_bytes ms) @ []"
    using length_records [OF wf(1)] by (simp add: store_bytes_def mult.commute)
  have "those (map (message_at (concat (map record_bytes ms) @ [])) [0..<length ms]) = Some (map stored_message ms)"
    using messages_of_image [OF wf(1) order_refl, of "[]"] those_map_Some [of stored_message ms] by (simp add: o_def)
  then show ?thesis using p ne unfolding d by (simp add: readCompleteRecords_def message_sizes)
qed

lemma calm_compact:
  assumes c: "calm s" and L: "log_ok 513 ms nid" "ms_flash s MSG_STORE_PATH = Some (store_bytes ms nid)" and n: "0 < n" "n < length ms"
    and k: "compact_messages n ms = (kept, dropped)"
  shows "\<exists>s'. run_state (compactStoreToRecent n) s = (True, s') \<and> calm s' \<and>
    ms_flash s' = (ms_flash s)(MSG_STORE_PATH := Some (store_bytes kept nid), MSG_TEMP := None) \<and> log_ok 513 kept nid \<and>
    g_companion_backlog_drop_count s' = g_companion_backlog_drop_count s + word_of_nat dropped"
proof -
  have kept: "log_ok 513 kept nid" using subseq_log_ok [OF compact_messages_spec(1) [OF k] L(1)] .
  have wf: "list_all msg_wf kept" using kept by (simp add: log_ok_def)
  have h: "run_state readHeader s = (Some (length ms, nid), ticks 2 s)" by (rule calm_header [OF c L(2,1)])
  have mem: "run_state (allocateMessages (length ms)) (ticks 2 s) = (True, ticks 2 s)"
    using c n by (auto simp: allocateMessages_def allocateRaw_def SIZEOF_MESSAGE_def calm_def)
  have rd: "run_state (readCompleteRecords (length ms) 13) (ticks 2 s) = (Some (map stored_message ms), ticks 3 s)"
    using calm_readComplete [of "ticks 2 s" ms nid] c L n by fastforce
  obtain s' where s': "run_state (atomicReplaceStore (map stored_message kept) nid) (ticks 3 s) = (True, s')"
    and m: "moved (ticks 3 s) ((ms_flash s)(MSG_STORE_PATH := Some (store_bytes kept nid), MSG_TEMP := None)) s'"
    using calm_replace [of "ticks 3 s", OF _ log_ok_stored [OF kept]] c store_bytes_stored [OF wf] by auto
  have cm: "compact_messages n (map stored_message ms) = (map stored_message kept, dropped)" using compact_messages_map [of n ms] k by simp
  have "run_state (compactStoreToRecent n) s = (True, s'\<lparr>g_companion_backlog_drop_count := g_companion_backlog_drop_count s' + word_of_nat dropped\<rparr>)"
    using h mem rd s' cm n by (simp add: compactStoreToRecent_def message_sizes)
  moreover have "g_companion_backlog_drop_count s' = g_companion_backlog_drop_count s" using m by (auto simp: moved_def ticks_def)
  ultimately show ?thesis using moved_simps [OF m] c kept by auto
qed

section \<open>Properties\<close>

text \<open>
  C11: rewriting the log (a mark, a compaction, a reset) is atomic under power failure. Whatever
  flash calls fail and in whichever state the power goes, the next start succeeds and finds the
  complete old log or the complete new one.
\<close>

theorem replacement_survives_power_loss:
  assumes "g_backend s = None" and "ms_trace s = [ms_flash s]"
    and "log_ok 513 old n" and "length old \<le> 512" and "log_ok 513 new n'" and "length new \<le> 512"
    and "ms_flash s MSG_STORE_PATH = Some (store_bytes old n)" and "ms_flash s MSG_TEMP = None"
    and "\<sigma> \<in> set (ms_trace (snd (run_state (atomicReplaceStore new n') s)))"
  shows "\<exists>b. run_state messageStoreBegin (boot \<sigma>) = (True, b) \<and>
    (fst (run_state (messageStoreLoadAll 512) b) = map stored_message old \<or>
     fst (run_state (messageStoreLoadAll 512) b) = map stored_message new)"
proof -
  have "n' \<noteq> 0" using assms(5) by (simp add: log_ok_def)
  then consider "\<sigma> = ms_flash s" | env where "\<sigma> \<in> set (snd (atomicFileReplace env (Some MSG_STORE_PATH) (Some (writeStore 513 new n'))
      (Some (validateStore 513)) (ms_flash s)))"
    using replace_trace [OF assms(1,2) _ assms(9)] by blast
  then obtain ms b nid where "ms = old \<or> ms = new" "run_state messageStoreBegin (boot \<sigma>) = (True, b)" "calm b" "log_state b ms nid"
  proof cases
    case 1
    then show ?thesis using boot_intact [OF assms(3,4,7,8)] that by blast
  next
    case 2
    then show ?thesis using replace_crash [OF assms(3-8)] that by blast
  qed
  then show ?thesis using log_loaded assms(4,6) by blast
qed

text \<open>A log in order, as a start leaves it.\<close>

definition log_of :: "StoredMessage list \<Rightarrow> u32 \<Rightarrow> unit mstore" where
  "log_of ms nid = (boot ((\<lambda>_. None)(MSG_STORE_PATH \<mapsto> store_bytes ms nid)))\<lparr>g_identity_index_valid := True,
     g_identity_index_capacity := 512, g_identity_index := index_of ms\<rparr>"

lemma log_of_state:
  "log_ok 513 ms nid \<Longrightarrow> log_state (log_of ms nid) ms nid" "calm (log_of ms nid)" "ms_trace (log_of ms nid) = [ms_flash (log_of ms nid)]"
  "ms_flash (log_of ms nid) MSG_STORE_PATH = Some (store_bytes ms nid)" "ms_flash (log_of ms nid) MSG_TEMP = None" "g_backend (log_of ms nid) = None"
  by (simp_all add: log_of_def log_state_def)

definition two_messages :: "StoredMessage list" where
  "two_messages = [(sample_message 0x42)\<lparr>sm_store_id := 1\<rparr>, (sample_message 0x43)\<lparr>sm_store_id := 2, sm_is_self := True\<rparr>]"

lemma two_messages_ok: "log_ok 513 two_messages 3"
  using sample_message_wf by (simp add: two_messages_def log_ok_def msg_wf_def)

theorem replacement_survives_power_loss_witness:
  "\<exists>\<sigma> b. \<sigma> \<in> set (ms_trace (snd (run_state (atomicReplaceStore two_messages 3) (log_of [] 1)))) \<and> \<sigma> \<noteq> ms_flash (log_of [] 1) \<and>
     run_state messageStoreBegin (boot \<sigma>) = (True, b) \<and>
     (fst (run_state (messageStoreLoadAll 512) b) = [] \<or> fst (run_state (messageStoreLoadAll 512) b) = map stored_message two_messages)"
proof -
  obtain s' where s': "run_state (atomicReplaceStore two_messages 3) (log_of [] 1) = (True, s')" "ms_flash s' \<in> set (ms_trace s')"
    and m: "moved (log_of [] 1) ((ms_flash (log_of [] 1))(MSG_STORE_PATH := Some (store_bytes two_messages 3), MSG_TEMP := None)) s'"
    using calm_replace [OF log_of_state(2) two_messages_ok] by blast
  have "length (store_bytes two_messages 3) \<noteq> length (store_bytes [] 1)"
    using two_messages_ok by (simp add: length_store_bytes log_ok_def) (simp add: two_messages_def)
  then have "ms_flash s' MSG_STORE_PATH \<noteq> ms_flash (log_of [] 1) MSG_STORE_PATH" using moved_simps(2) [OF m] log_of_state(4) by auto
  then have ne: "ms_flash s' \<noteq> ms_flash (log_of [] 1)" by auto
  have ok: "log_ok 513 [] 1" "length two_messages \<le> 512" by (simp_all add: log_ok_def two_messages_def)
  have "\<exists>b. run_state messageStoreBegin (boot (ms_flash s')) = (True, b) \<and>
     (fst (run_state (messageStoreLoadAll 512) b) = map stored_message [] \<or> fst (run_state (messageStoreLoadAll 512) b) = map stored_message two_messages)"
    using replacement_survives_power_loss [OF log_of_state(6,3) ok(1) _ two_messages_ok ok(2) log_of_state(4,5), of "ms_flash s'"] s' by simp
  then show ?thesis using s' ne by auto
qed

text \<open>
  C13: compaction keeps what the companion has not seen. A log that is too long is cut to exactly the
  requested number of messages, in order and with its next id; messages not yet delivered are
  dropped only if there are more of them than fit, then the oldest, and their number is added
  to the drop counter; of the others the oldest give way.
\<close>

theorem compaction_keeps_backlog:
  assumes "calm s" and "log_state s ms nid" and "0 < n" and "n < length ms"
  shows "\<exists>kept s'. run_state (compactStoreToRecent n) s = (True, s') \<and> ms_flash s' MSG_STORE_PATH = Some (store_bytes kept nid) \<and>
    subseq kept ms \<and> length kept = n \<and>
    filter msg_unsent kept = drop (length (filter msg_unsent ms) - n) (filter msg_unsent ms) \<and>
    filter (\<lambda>m. \<not> msg_unsent m) kept =
      drop (length ms - n - (length (filter msg_unsent ms) - n)) (filter (\<lambda>m. \<not> msg_unsent m) ms) \<and>
    g_companion_backlog_drop_count s' = g_companion_backlog_drop_count s + word_of_nat (length (filter msg_unsent ms) - n)"
proof -
  obtain kept dropped where k: "compact_messages n ms = (kept, dropped)" by force
  have L: "log_ok 513 ms nid" "ms_flash s MSG_STORE_PATH = Some (store_bytes ms nid)" using assms(2) by (simp_all add: log_state_def)
  obtain s' where "run_state (compactStoreToRecent n) s = (True, s')" "ms_flash s' MSG_STORE_PATH = Some (store_bytes kept nid)"
    "g_companion_backlog_drop_count s' = g_companion_backlog_drop_count s + word_of_nat dropped"
    using calm_compact [OF assms(1) L assms(3,4) k] by auto
  moreover note compact_messages_spec [OF k]
  moreover have "min n (length ms) = n" using assms(4) by simp
  ultimately show ?thesis by metis
qed

theorem compaction_keeps_backlog_witness:
  "\<exists>kept s'. run_state (compactStoreToRecent 1) (log_of two_messages 3) = (True, s') \<and>
     ms_flash s' MSG_STORE_PATH = Some (store_bytes kept 3) \<and> kept = [(sample_message 0x42)\<lparr>sm_store_id := 1\<rparr>]"
proof -
  obtain kept s' where k: "run_state (compactStoreToRecent 1) (log_of two_messages 3) = (True, s')"
      "ms_flash s' MSG_STORE_PATH = Some (store_bytes kept 3)" "length kept = 1"
      "filter msg_unsent kept = drop (length (filter msg_unsent two_messages) - 1) (filter msg_unsent two_messages)"
    using compaction_keeps_backlog [OF log_of_state(2) log_of_state(1) [OF two_messages_ok], of 1] by (auto simp: two_messages_def)
  then have "filter msg_unsent kept = [(sample_message 0x42)\<lparr>sm_store_id := 1\<rparr>]"
    by (simp add: two_messages_def msg_unsent_def sample_message_def)
  then have "kept = [(sample_message 0x42)\<lparr>sm_store_id := 1\<rparr>]"
    using k(3) by (cases kept) (auto split: if_splits)
  then show ?thesis using k by blast
qed

end
