(* ===== verification/MessageFailover.thy ===== *)
theory MessageFailover
  imports MessageAppend
begin

text \<open>
  Fail-over of the message log: what happens to a message when the external backend loses it, for
  every behaviour of that backend and of the flash.
\<close>

section \<open>Fail-over\<close>

text \<open>Operations that leave the backend selection and the retry queue alone.\<close>

definition keeps :: "('m, 'a) ms \<Rightarrow> bool" where
  "keeps m \<longleftrightarrow> (\<forall>s. case run_state m s of (_, s') \<Rightarrow> g_backend s' = g_backend s \<and> g_backend_degraded s' = g_backend_degraded s \<and>
     g_retry_queue s' = g_retry_queue s \<and> g_retry_queue_drop_count s' = g_retry_queue_drop_count s)"

lemma keepsD:
  assumes "keeps m" and "run_state m s = (x, s')"
  shows "g_backend s' = g_backend s" "g_backend_degraded s' = g_backend_degraded s" "g_retry_queue s' = g_retry_queue s"
    "g_retry_queue_drop_count s' = g_retry_queue_drop_count s"
  using assms(1) [unfolded keeps_def, rule_format, of s] assms(2) by auto

named_theorems keeps_intros

lemma keeps_basic [keeps_intros]: "keeps (ret x)" "keeps (gets f)" "keeps next_io" "keeps (on_media g)" "keeps (flash_steps fs)"
  "keeps (identityIndexAdd m)"
  by (simp_all add: keeps_def next_io_def on_media_def flash_steps_def identityIndexAdd_def split: prod.splits)

lemma keeps_modify [keeps_intros]:
  "keeps (modify (\<lambda>s. s\<lparr>g_identity_index_valid := b\<rparr>))" "keeps (modify (\<lambda>s. s\<lparr>g_identity_index := xs, g_identity_index_valid := b\<rparr>))"
  "keeps (modify (\<lambda>s. s\<lparr>g_identity_index_capacity := n\<rparr>))" "keeps (modify (\<lambda>s. s\<lparr>g_append_recovery_required := b\<rparr>))"
  "keeps (modify (\<lambda>s. s\<lparr>g_append_recovery_required := b, g_identity_index_valid := c\<rparr>))"
  "keeps (modify (\<lambda>s. s\<lparr>g_last_recovery_result := r\<rparr>))"
  "keeps (modify (\<lambda>s. s\<lparr>g_companion_backlog_drop_count := g_companion_backlog_drop_count s + w\<rparr>))"
  by (simp_all add: keeps_def)

lemma keeps_bind [keeps_intros]:
  assumes "keeps m" and "\<And>x. keeps (f x)"
  shows "keeps (m \<bind> f)"
  unfolding keeps_def
proof
  fix s :: "'a mstore"
  obtain x s1 where 1: "run_state m s = (x, s1)" by force
  obtain y s2 where 2: "run_state (f x) s1 = (y, s2)" by force
  show "case run_state (m \<bind> f) s of (_, s') \<Rightarrow> g_backend s' = g_backend s \<and> g_backend_degraded s' = g_backend_degraded s \<and>
     g_retry_queue s' = g_retry_queue s \<and> g_retry_queue_drop_count s' = g_retry_queue_drop_count s"
    using keepsD [OF assms(1) 1] keepsD [OF assms(2) 2] 1 2 by simp
qed

lemma keeps_if [keeps_intros]: "(c \<Longrightarrow> keeps a) \<Longrightarrow> (\<not> c \<Longrightarrow> keeps b) \<Longrightarrow> keeps (if c then a else b)"
  by simp

lemma keeps_option [keeps_intros]: "keeps a \<Longrightarrow> (\<And>x. keeps (f x)) \<Longrightarrow> keeps (case opt of None \<Rightarrow> a | Some x \<Rightarrow> f x)"
  by (cases opt) auto

lemma keeps_prod [keeps_intros]: "(\<And>x y. keeps (f x y)) \<Longrightarrow> keeps (case p of (x, y) \<Rightarrow> f x y)"
  by (cases p) auto

lemma keeps_Let [keeps_intros]: "keeps (f x) \<Longrightarrow> keeps (Let x f)"
  by (simp add: Let_def)

lemmas keeps_defs = and_then_def ensureFs_def existsStore_def pathExists_def storePath_def storeSize_def storeReadAt_def storeWriteAt_def
  storeAppend_def removePath_def renamePath_def allocateRaw_def allocateMessages_def backendMaxRecords_def backendRecoveryMaxRecords_def
  backendCompactToRecords_def ensureIdentityIndexCapacity_def identityIndexClear_def nextUnusedIdAfter_def begin_fail_def

lemma keeps_readHeader [keeps_intros]: "keeps readHeader"
  unfolding readHeader_def keeps_defs by (intro keeps_intros)

lemma keeps_writeHeaderState [keeps_intros]: "keeps (writeHeaderState c n)"
  unfolding writeHeaderState_def keeps_defs by (intro keeps_intros)

lemma keeps_readPayload [keeps_intros]: "keeps (readPayload a b c)"
  unfolding readPayload_def keeps_defs by (intro keeps_intros)

lemma keeps_loadAll [keeps_intros]: "keeps (loadAllInternal n)"
  unfolding loadAllInternal_def by (intro keeps_intros)

lemma keeps_getById [keeps_intros]: "keeps (messageStoreGetById i)"
  unfolding messageStoreGetById_def by (intro keeps_intros)

lemma keeps_fold [keeps_intros]: "(\<And>x. keeps (f x)) \<Longrightarrow> keeps k \<Longrightarrow> keeps (foldr (\<lambda>m k. do { f m; k }) xs k)"
  by (induction xs) (auto intro: keeps_intros)

lemma keeps_rebuild [keeps_intros]: "keeps rebuildIdentityIndex"
  unfolding rebuildIdentityIndex_def keeps_defs by (intro keeps_intros)

lemma keeps_existsLoop [keeps_intros]: "keeps (exists_loop m h es)"
  by (induction m h es rule: exists_loop.induct) (auto intro!: keeps_intros)

lemma keeps_messageExists [keeps_intros]: "keeps (messageExists m)"
  unfolding messageExists_def by (intro keeps_intros)

lemma keeps_replace [keeps_intros]: "keeps (atomicReplaceStore ms n)"
  unfolding atomicReplaceStore_def keeps_defs by (intro keeps_intros)

lemma keeps_writeHeaderIfNeeded [keeps_intros]: "keeps writeHeaderIfNeeded"
  unfolding writeHeaderIfNeeded_def keeps_defs by (intro keeps_intros)

lemma keeps_quarantine [keeps_intros]: "keeps quarantineStoreAndReset"
  unfolding quarantineStoreAndReset_def quarantinePath_def keeps_defs by (intro keeps_intros)

lemma keeps_repair [keeps_intros]: "keeps repairInterruptedAppend"
  unfolding repairInterruptedAppend_def readRecoverablePrefix_def keeps_defs by (intro keeps_intros)

lemma keeps_migrate [keeps_intros]: "keeps migrateOlderStore"
  unfolding migrateOlderStore_def readVersion5Records_def keeps_defs by (intro keeps_intros)

lemma keeps_compact [keeps_intros]: "n \<noteq> 0 \<Longrightarrow> keeps (compactStoreToRecent n)"
  unfolding compactStoreToRecent_def readCompleteRecords_def keeps_defs by simp (intro keeps_intros)

text \<open>The compaction target is never zero, so compaction does not clear the store.\<close>

lemma keeps_compact_to:
  assumes "\<And>x. x \<noteq> 0 \<Longrightarrow> keeps (f x)"
  shows "keeps (backendCompactToRecords \<bind> f)"
proof -
  have nz: "fst (run_state backendCompactToRecords s) \<noteq> 0 \<and> snd (run_state backendCompactToRecords s) = s" for s :: "'a mstore"
    by (auto simp: backendCompactToRecords_def MESSAGE_STORE_COMPACT_TO_RECORDS_def split: option.splits)
  show ?thesis unfolding keeps_def
  proof
    fix s :: "'a mstore"
    obtain c where c: "run_state backendCompactToRecords s = (c, s)" "c \<noteq> 0" using nz [of s] by (cases "run_state backendCompactToRecords s") auto
    obtain y s2 where 2: "run_state (f c) s = (y, s2)" by force
    show "case run_state (backendCompactToRecords \<bind> f) s of (_, s') \<Rightarrow> g_backend s' = g_backend s \<and> g_backend_degraded s' = g_backend_degraded s \<and>
     g_retry_queue s' = g_retry_queue s \<and> g_retry_queue_drop_count s' = g_retry_queue_drop_count s"
      using keepsD [OF assms [OF c(2)] 2] c 2 by simp
  qed
qed

lemma keeps_storeAppend [keeps_intros]: "keeps (storeAppend p d)"
  unfolding storeAppend_def keeps_defs by (intro keeps_intros)

lemma keeps_storePath [keeps_intros]: "keeps storePath"
  unfolding storePath_def by (intro keeps_intros)

lemma keeps_maxRecords [keeps_intros]: "keeps backendMaxRecords"
  unfolding backendMaxRecords_def by (intro keeps_intros)

lemma keeps_appendOnce: "keeps (appendOnce msg)"
proof -
  have "keeps (append_record m)" for m :: StoredMessage
    unfolding append_record_def and_then_def nextUnusedIdAfter_def
    by (intro keeps_intros keeps_compact_to) (simp_all add: unat_eq_zero)
  then show ?thesis unfolding appendOnce_def append_prepare_def by (intro keeps_intros)
qed

lemma keeps_begin: "keeps messageStoreBegin"
proof -
  have rs: "keeps (recovery_step m)" if "keeps m" for m :: "('a, MessageStoreRecoveryResult) ms"
    using that unfolding recovery_step_def by (intro keeps_intros)
  have fs: "keeps ensureFs" "keeps existsStore" "keeps (pathExists t)" "keeps begin_fail" for t
    unfolding keeps_defs by (intro keeps_intros)+
  have rr: "keeps recover_replacement" unfolding recover_replacement_def keeps_defs by (intro keeps_intros)
  show ?thesis
    unfolding messageStoreBegin_def and_then_def
    by (intro keeps_intros keeps_compact_to rs fs rr) (simp_all add: unat_eq_zero)
qed

section \<open>Properties\<close>

text \<open>
  C29: a message is never lost silently. When an append through an external backend fails, whatever
  that backend and the flash do, the log has switched to the flash and is marked degraded, and
  the message waits at the end of the retry queue, which keeps its other entries in order; only
  when the queue already holds eight messages is it dropped, and then the drop counter counts it.
\<close>

theorem failed_append_is_queued:
  assumes "g_backend s = Some b" and "run_state (messageStoreAppend msg) s = (None, s')"
  shows "g_backend s' = None \<and> g_backend_degraded s' \<and>
    (if length (g_retry_queue s) < 8
     then g_retry_queue s' = g_retry_queue s @ [msg] \<and> g_retry_queue_drop_count s' = g_retry_queue_drop_count s
     else g_retry_queue s' = g_retry_queue s \<and> g_retry_queue_drop_count s' = g_retry_queue_drop_count s + 1)"
proof -
  obtain r s1 where 1: "run_state (appendOnce msg) s = (r, s1)" by force
  note k1 = keepsD [OF keeps_appendOnce 1]
  let ?s2 = "s1\<lparr>g_backend := None, g_identity_index := [], g_identity_index_valid := False, g_append_recovery_required := False,
    g_backend_degraded := True\<rparr>"
  obtain ok s3 where 3: "run_state messageStoreBegin ?s2 = (ok, s3)" by force
  note k3 = keepsD [OF keeps_begin 3]
  obtain r2 s4 where 4: "run_state (if ok then appendOnce msg else ret None) s3 = (r2, s4)" by force
  have "keeps (if ok then appendOnce msg else ret None)" by (intro keeps_intros keeps_appendOnce)
  note k4 = keepsD [OF this 4]
  have "r = None" "r2 = None" "s' = snd (run_state (retryQueuePush msg) s4)"
    using assms 1 3 4 k1(1)
    by (auto simp: messageStoreAppend_def retryQueuedOnDefaultBackend_def messageStoreSelectDefaultBackend_def messageStoreSelectBackend_def
        split: if_splits prod.splits)
  then show ?thesis using k1 k3 k4 by (simp add: retryQueuePush_def MESSAGE_STORE_RETRY_QUEUE_CAPACITY_def)
qed

text \<open>A backend that refuses every call.\<close>

definition dead_backend :: "unit MessageStoreBackend" where
  "dead_backend = \<lparr>be_path = None, be_max_records = 0, be_compact_to_records = 0, be_ensure = None, be_exists = None, be_size = None,
     be_read_at = None, be_write_at = None, be_append = None, be_replace = None, be_recover = None, be_remove = None, be_rename = None\<rparr>"

definition dead_store :: "unit mstore" where
  "dead_store = (boot (\<lambda>_. None))\<lparr>g_backend := Some dead_backend, ms_io := (\<lambda>_. calm_io\<lparr>io_ok := False\<rparr>)\<rparr>"

theorem failed_append_is_queued_witness:
  "\<exists>s'. run_state (messageStoreAppend (sample_message 0x42)) dead_store = (None, s') \<and> g_retry_queue s' = [sample_message 0x42] \<and>
     g_backend s' = None \<and> g_backend_degraded s'"
proof -
  have "fst (run_state (messageStoreAppend (sample_message 0x42)) dead_store) = None"
    by (simp add: dead_store_def boot_def dead_backend_def messageStoreAppend_def retryQueuedOnDefaultBackend_def appendOnce_def append_prepare_def
        writeHeaderIfNeeded_def readHeader_def ensureFs_def existsStore_def pathExists_def storePath_def atomicReplaceStore_def
        messageStoreSelectDefaultBackend_def messageStoreSelectBackend_def messageStoreBegin_def begin_fail_def next_io_def retryQueuePush_def)
  then obtain s' where s': "run_state (messageStoreAppend (sample_message 0x42)) dead_store = (None, s')" by (metis prod.collapse)
  have "g_backend dead_store = Some dead_backend" "g_retry_queue dead_store = []" by (simp_all add: dead_store_def)
  then show ?thesis using failed_append_is_queued [OF _ s'] s' by simp
qed

end
