(* ===== verification/Backlog.thy ===== *)
theory Backlog
  imports MessageReplace
begin

text \<open>
  The contract the companion bridge relies on when it replays stored messages: loading hands out
  the oldest messages of the backlog and leaves it alone, and marking a message takes exactly
  that message out of it. The message log on a working flash fulfils the contract; its backlog is
  what \<open>messageStoreLoadAll\<close> reads, less the node's own and the already delivered messages.
\<close>

section \<open>The contract\<close>

locale companion_backlog =
  fixes load :: "nat \<Rightarrow> 's \<Rightarrow> StoredMessage list \<times> 's"
    and mark :: "u32 \<Rightarrow> 's \<Rightarrow> bool \<times> 's"
    and ok :: "'s \<Rightarrow> bool"
    and backlog :: "'s \<Rightarrow> StoredMessage list"
  assumes load: "ok s \<Longrightarrow> \<exists>s'. load n s = (take n (backlog s), s') \<and> ok s' \<and> backlog s' = backlog s"
    and mark: "ok s \<Longrightarrow> m \<in> set (backlog s) \<Longrightarrow> \<exists>s'. mark (sm_store_id m) s = (True, s') \<and> ok s' \<and>
      backlog s' = filter (\<lambda>x. sm_store_id x \<noteq> sm_store_id m) (backlog s)"
    and ids: "ok s \<Longrightarrow> distinct (map sm_store_id (backlog s)) \<and> 0 \<notin> sm_store_id ` set (backlog s)"
    and incoming: "ok s \<Longrightarrow> m \<in> set (backlog s) \<Longrightarrow> \<not> sm_is_self m"
begin

lemma mark_shrinks:
  assumes "ok s" and "m \<in> set (backlog s)" and "mark (sm_store_id m) s = (r, s')"
  shows "length (backlog s') < length (backlog s)"
proof -
  have "backlog s' = filter (\<lambda>x. sm_store_id x \<noteq> sm_store_id m) (backlog s)" using mark [OF assms(1,2)] assms(3) by auto
  then show ?thesis using assms(2) by (auto intro!: length_filter_less)
qed

lemma load_mark_disjoint:
  assumes "ok s" and "m \<in> set (backlog s)" and "mark (sm_store_id m) s = (r, s')"
  shows "m \<notin> set (fst (load n s'))"
proof -
  have "ok s'" "backlog s' = filter (\<lambda>x. sm_store_id x \<noteq> sm_store_id m) (backlog s)"
    using mark [OF assms(1,2)] assms(3) by auto
  then have "set (fst (load n s')) \<subseteq> {x. sm_store_id x \<noteq> sm_store_id m}" using load [of s' n] set_take_subset by fastforce
  then show ?thesis by auto
qed

end

section \<open>The message log\<close>

definition store_load :: "nat \<Rightarrow> 'm mstore \<Rightarrow> StoredMessage list \<times> 'm mstore" where
  "store_load n = run_state (messageStoreLoadUnsent (int n))"

definition store_mark :: "u32 \<Rightarrow> 'm mstore \<Rightarrow> bool \<times> 'm mstore" where
  "store_mark i = run_state (messageStoreMarkCompanionSent i)"

definition store_backlog :: "'m mstore \<Rightarrow> StoredMessage list" where
  "store_backlog s = filter msg_unsent (fst (run_state (messageStoreLoadAll 513) s))"

text \<open>The working flash holds a valid log.\<close>

definition holds_log :: "'m mstore \<Rightarrow> StoredMessage list \<Rightarrow> u32 \<Rightarrow> bool" where
  "holds_log s ms nid \<longleftrightarrow> calm s \<and> ms_flash s MSG_STORE_PATH = Some (store_bytes ms nid) \<and> log_ok 513 ms nid"

definition store_ok :: "'m mstore \<Rightarrow> bool" where
  "store_ok s \<longleftrightarrow> (\<exists>ms nid. holds_log s ms nid)"

lemma holds_log_ticks [simp]: "holds_log (ticks k s) ms nid = holds_log s ms nid"
  by (simp add: holds_log_def)

lemma backlog_of_log:
  assumes "holds_log s ms nid"
  shows "store_backlog s = filter msg_unsent (map stored_message ms)"
proof -
  have "length ms \<le> 513" using assms by (simp add: holds_log_def log_ok_def)
  then show ?thesis using calm_loadAll [of s ms nid 513] assms
    by (auto simp: holds_log_def store_backlog_def messageStoreLoadAll_def)
qed

lemma store_okI: "holds_log s ms nid \<Longrightarrow> store_ok s"
  by (auto simp: store_ok_def)

lemma unsent_loop_image:
  assumes "list_all msg_wf ms" and "i \<le> length ms" and "length out \<le> mx"
  shows "unsent_loop (concat (map record_bytes ms)) mx [i..<length ms] out =
    take mx (out @ filter msg_unsent (map stored_message (drop i ms)))"
  using assms(2,3)
proof (induction "length ms - i" arbitrary: i out)
  case (Suc k)
  then have i: "i < length ms" by simp
  have at: "message_at (concat (map record_bytes ms)) i = Some (stored_message (ms ! i))"
    using message_at_image [OF assms(1) i, of "[]"] by simp
  have dr: "drop i ms = ms ! i # drop (Suc i) ms" using i by (simp add: Cons_nth_drop_Suc)
  let ?m = "stored_message (ms ! i)"
  let ?out = "if sm_companion_sent ?m \<or> sm_is_self ?m then out else out @ [?m]"
  show ?case
  proof (cases "length out \<ge> mx")
    case True
    then show ?thesis using Suc.prems i by (simp add: upt_conv_Cons)
  next
    case False
    then have "length ?out \<le> mx" by simp
    then have "unsent_loop (concat (map record_bytes ms)) mx [Suc i..<length ms] ?out =
        take mx (?out @ filter msg_unsent (map stored_message (drop (Suc i) ms)))"
      using Suc i by (intro Suc.hyps(1)) auto
    moreover have "?out @ filter msg_unsent (map stored_message (drop (Suc i) ms)) =
        out @ filter msg_unsent (map stored_message (drop i ms))"
      unfolding dr by (auto simp: msg_unsent_def)
    ultimately show ?thesis using False i at by (simp add: upt_conv_Cons)
  qed
qed simp

lemma store_load_spec:
  assumes "holds_log s ms nid"
  shows "\<exists>k. store_load n s = (take n (store_backlog s), ticks k s)"
proof (cases "n = 0")
  case True
  then show ?thesis by (auto simp: store_load_def messageStoreLoadUnsent_def loadUnsentInternal_def ticks_def intro: exI [of _ 0])
next
  case False
  have c: "calm s" "ms_flash s MSG_STORE_PATH = Some (store_bytes ms nid)" "log_ok 513 ms nid" using assms by (simp_all add: holds_log_def)
  have wf: "list_all msg_wf ms" "length ms \<le> 513" using c by (simp_all add: log_ok_def)
  have h: "run_state readHeader s = (Some (length ms, nid), ticks 2 s)" using calm_header [OF c] .
  show ?thesis
  proof (cases "ms = []")
    case True
    then show ?thesis using False h backlog_of_log [OF assms]
      by (auto simp: store_load_def messageStoreLoadUnsent_def loadUnsentInternal_def readPayload_def)
  next
    case ne: False
    have "run_state (readPayload (length ms) 13 254) (ticks 2 s) =
        (Some (take (254 * length ms) (drop 13 (store_bytes ms nid))), ticks 1 (ticks 2 s))"
      using c wf ne length_store_bytes [OF wf(1)] by (intro calm_readPayload) auto
    moreover have "take (254 * length ms) (drop 13 (store_bytes ms nid)) = concat (map record_bytes ms)"
      using length_records [OF wf(1)] by (simp add: store_bytes_def mult.commute)
    ultimately show ?thesis
      using False h unsent_loop_image [OF wf(1), of 0 "[]" n] backlog_of_log [OF assms]
      by (auto simp: store_load_def messageStoreLoadUnsent_def loadUnsentInternal_def message_sizes)
  qed
qed

lemma calm_replace_same_id:
  assumes "holds_log s old nid" and ok: "log_ok 513 ms nid"
  shows "\<exists>s'. run_state (atomicReplaceStore ms 0) s = (True, s') \<and> holds_log s' ms nid"
proof -
  have c: "calm s" and f: "ms_flash s MSG_STORE_PATH = Some (store_bytes old nid)" and o: "log_ok 513 old nid"
    using assms by (simp_all add: holds_log_def)
  have nz: "nid \<noteq> 0" using ok by (simp add: log_ok_def)
  have h: "run_state readHeader (ticks 1 s) = (Some (length old, nid), ticks 2 (ticks 1 s))"
    using calm_header [of "ticks 1 s" old nid] c f o by simp
  have 1: "run_state (atomicReplaceStore ms 0) s = run_state (do {
      r \<leftarrow> next_io; fs \<leftarrow> gets ms_flash;
      let res = atomicFileReplace (io_file r) (Some MSG_STORE_PATH) (Some (writeStore 513 ms nid)) (Some (validateStore 513)) fs;
      flash_steps (snd res); ret (fst res) }) (ticks 3 s)"
    using c h by (simp add: atomicReplaceStore_def calm_ensureFs calm_simps eval_nat_numeral)
  have 2: "run_state (atomicReplaceStore ms nid) (ticks 2 s) = run_state (do {
      r \<leftarrow> next_io; fs \<leftarrow> gets ms_flash;
      let res = atomicFileReplace (io_file r) (Some MSG_STORE_PATH) (Some (writeStore 513 ms nid)) (Some (validateStore 513)) fs;
      flash_steps (snd res); ret (fst res) }) (ticks 3 s)"
    using c nz by (simp add: atomicReplaceStore_def calm_ensureFs calm_simps eval_nat_numeral)
  obtain s' where "run_state (atomicReplaceStore ms nid) (ticks 2 s) = (True, s')"
    and m: "moved (ticks 2 s) ((ms_flash s)(MSG_STORE_PATH := Some (store_bytes ms nid), MSG_TEMP := None)) s'"
    using calm_replace [of "ticks 2 s", OF _ ok] c by auto
  moreover have "holds_log s' ms nid" using moved_simps [OF m] c ok by (simp add: holds_log_def)
  ultimately show ?thesis using 1 2 by auto
qed

text \<open>Marking on the abstract log.\<close>

definition marked :: "u32 \<Rightarrow> StoredMessage list \<Rightarrow> StoredMessage list" where
  "marked i ms = map (\<lambda>m. if sm_store_id m = i then m\<lparr>sm_companion_sent := True\<rparr> else m) ms"

lemma marked_update:
  assumes "distinct (map sm_store_id ms)" and "k < length ms" and "sm_store_id (ms ! k) = i"
  shows "ms[k := (ms ! k)\<lparr>sm_companion_sent := True\<rparr>] = marked i ms"
proof (rule nth_equalityI)
  fix j assume j: "j < length (ms[k := (ms ! k)\<lparr>sm_companion_sent := True\<rparr>])"
  have "sm_store_id (ms ! j) = i \<Longrightarrow> j = k"
    using assms j by (auto simp: distinct_conv_nth)
  then show "ms[k := (ms ! k)\<lparr>sm_companion_sent := True\<rparr>] ! j = marked i ms ! j"
    using assms j by (cases "j = k") (auto simp: marked_def)
qed (simp add: marked_def)

lemma marked_log_ok: "log_ok 513 ms nid \<Longrightarrow> log_ok 513 (marked i ms) nid"
proof -
  assume ok: "log_ok 513 ms nid"
  have "map sm_store_id (marked i ms) = map sm_store_id ms" by (simp add: marked_def)
  moreover have "sm_store_id ` set (marked i ms) = sm_store_id ` set ms"
    using calculation by (metis list.set_map)
  moreover have "list_all msg_wf (marked i ms)" using ok by (auto simp: log_ok_def marked_def list_all_iff msg_wf_def)
  moreover have "length (marked i ms) = length ms" by (simp add: marked_def)
  ultimately show ?thesis using ok unfolding log_ok_def by simp
qed

lemma stored_marked: "map stored_message (marked i (map stored_message ms)) = marked i (map stored_message ms)"
proof -
  have "stored_message (m\<lparr>sm_companion_sent := True\<rparr>) = (stored_message m)\<lparr>sm_companion_sent := True\<rparr>" for m
    by (simp add: stored_message_def)
  then show ?thesis by (auto simp: marked_def)
qed

lemma unsent_marked: "filter msg_unsent (marked i ms) = filter (\<lambda>x. sm_store_id x \<noteq> i) (filter msg_unsent ms)"
  by (induction ms) (auto simp: marked_def msg_unsent_def)

lemma store_mark_spec:
  assumes L: "holds_log s ms nid" and i: "i \<in> sm_store_id ` set (store_backlog s)"
  shows "\<exists>s'. store_mark i s = (True, s') \<and> holds_log s' (marked i (map stored_message ms)) nid"
proof -
  have c: "calm s" "ms_flash s MSG_STORE_PATH = Some (store_bytes ms nid)" "log_ok 513 ms nid" using L by (simp_all add: holds_log_def)
  let ?ms = "map stored_message ms"
  have ok: "log_ok 513 ?ms nid" by (rule log_ok_stored [OF c(3)])
  have len: "length ms \<le> 513" "distinct (map sm_store_id ?ms)" using ok by (simp_all add: log_ok_def)
  obtain m where m: "m \<in> set ?ms" "msg_unsent m" "sm_store_id m = i" using i unfolding backlog_of_log [OF L] by auto
  then have ne: "ms \<noteq> []" by auto
  have i0: "i \<noteq> 0" using ok m by (auto simp: log_ok_def)
  obtain k where k: "first_index (\<lambda>m. sm_store_id m = i) ?ms = Some k"
    using m by (cases "first_index (\<lambda>m. sm_store_id m = i) ?ms") (auto simp: first_index_None)
  have k': "k < length ?ms" "sm_store_id (?ms ! k) = i" using first_index_Some [OF k] by auto
  have "?ms ! k = m" using k' m len(2) by (metis distinct_map inj_on_def nth_mem)
  then have us: "\<not> sm_companion_sent (?ms ! k)" using m by (simp add: msg_unsent_def)
  obtain j where j: "run_state (messageStoreLoadAll (int (length ms))) (ticks 2 s) = (?ms, ticks j (ticks 2 s))"
    using calm_loadAll [of "ticks 2 s" ms nid "int (length ms)"] c by (auto simp: messageStoreLoadAll_def)
  have run: "store_mark i s = run_state (atomicReplaceStore (?ms[k := (?ms ! k)\<lparr>sm_companion_sent := True\<rparr>]) 0) (ticks j (ticks 2 s))"
    using c(1) i0 ne len j k us calm_header [OF c]
    by (simp add: store_mark_def messageStoreMarkCompanionSent_def calm_simps allocateMessages_def allocateRaw_def SIZEOF_MESSAGE_def calm_def)
  show ?thesis unfolding run marked_update [OF len(2) k']
    using calm_replace_same_id [of "ticks j (ticks 2 s)" ms nid] L marked_log_ok [OF ok] by simp
qed

interpretation message_store: companion_backlog store_load store_mark store_ok store_backlog
proof unfold_locales
  fix s :: "'m mstore" and n assume "store_ok s"
  then obtain ms nid where L: "holds_log s ms nid" by (auto simp: store_ok_def)
  obtain k where k: "store_load n s = (take n (store_backlog s), ticks k s)" using store_load_spec [OF L] by blast
  have "holds_log (ticks k s) ms nid" using L by simp
  then show "\<exists>s'. store_load n s = (take n (store_backlog s), s') \<and> store_ok s' \<and> store_backlog s' = store_backlog s"
    using k L by (auto intro: store_okI simp: backlog_of_log)
next
  fix s :: "'m mstore" and m assume "store_ok s" and m: "m \<in> set (store_backlog s)"
  then obtain ms nid where L: "holds_log s ms nid" by (auto simp: store_ok_def)
  obtain s' where s': "store_mark (sm_store_id m) s = (True, s')" "holds_log s' (marked (sm_store_id m) (map stored_message ms)) nid"
    using store_mark_spec [OF L, of "sm_store_id m"] m by auto
  have "store_backlog s' = filter (\<lambda>x. sm_store_id x \<noteq> sm_store_id m) (store_backlog s)"
    unfolding backlog_of_log [OF s'(2)] backlog_of_log [OF L] stored_marked unsent_marked ..
  then show "\<exists>s'. store_mark (sm_store_id m) s = (True, s') \<and> store_ok s' \<and>
      store_backlog s' = filter (\<lambda>x. sm_store_id x \<noteq> sm_store_id m) (store_backlog s)"
    using s' by (auto intro: store_okI)
next
  fix s :: "'m mstore" assume "store_ok s"
  then obtain ms nid where L: "holds_log s ms nid" by (auto simp: store_ok_def)
  have ok: "log_ok 513 (map stored_message ms) nid" using L log_ok_stored by (auto simp: holds_log_def)
  then have "distinct (map sm_store_id (filter msg_unsent (map stored_message ms)))"
    by (auto simp: log_ok_def intro: distinct_map_filter)
  then show "distinct (map sm_store_id (store_backlog s)) \<and> 0 \<notin> sm_store_id ` set (store_backlog s)"
    unfolding backlog_of_log [OF L] using ok by (auto simp: log_ok_def)
next
  fix s :: "'m mstore" and m assume "store_ok s" and "m \<in> set (store_backlog s)"
  then show "\<not> sm_is_self m" by (auto simp: store_backlog_def msg_unsent_def)
qed

end
