(* ===== verification/BridgeEnv.thy ===== *)
theory BridgeEnv
  imports MessageStore PathCodec
begin

text \<open>
  What the companion bridge (\<open>comms/companion_bridge.h\<close>) exchanges with its surroundings: the
  protocol's command, response, push and error codes, the structures that cross the interface,
  and the interfaces themselves.

  The environment of the bridge is a state \<open>'e\<close>. An object the bridge holds a pointer to (the
  serial link of the MeshCore library, the host of \<open>CompanionBridgeHost\<close>) is a record of
  operations on \<open>'e\<close>, one field per virtual function: a \<open>const\<close> function reads the environment,
  any other one also returns the new environment. The free functions the bridge is linked with
  (the transport registry, the message store) form the record \<open>linked\<close>. A host function may call
  back into the bridge before it returns (importing an identity does); the calls it makes are
  part of its result, a list of \<open>bridge_call\<close>, and are run before the command continues.
\<close>

section \<open>Protocol codes\<close>

named_theorems codes "numeric values of the protocol codes"

definition CMD_APP_START :: byte where [codes]: "CMD_APP_START = 1"
definition CMD_SEND_TXT_MSG :: byte where [codes]: "CMD_SEND_TXT_MSG = 2"
definition CMD_SEND_CHANNEL_TXT_MSG :: byte where [codes]: "CMD_SEND_CHANNEL_TXT_MSG = 3"
definition CMD_GET_CONTACTS :: byte where [codes]: "CMD_GET_CONTACTS = 4"
definition CMD_GET_DEVICE_TIME :: byte where [codes]: "CMD_GET_DEVICE_TIME = 5"
definition CMD_SET_DEVICE_TIME :: byte where [codes]: "CMD_SET_DEVICE_TIME = 6"
definition CMD_SEND_SELF_ADVERT :: byte where [codes]: "CMD_SEND_SELF_ADVERT = 7"
definition CMD_SET_ADVERT_NAME :: byte where [codes]: "CMD_SET_ADVERT_NAME = 8"
definition CMD_ADD_UPDATE_CONTACT :: byte where [codes]: "CMD_ADD_UPDATE_CONTACT = 9"
definition CMD_SYNC_NEXT_MESSAGE :: byte where [codes]: "CMD_SYNC_NEXT_MESSAGE = 10"
definition CMD_SET_RADIO_PARAMS :: byte where [codes]: "CMD_SET_RADIO_PARAMS = 11"
definition CMD_SET_RADIO_TX_POWER :: byte where [codes]: "CMD_SET_RADIO_TX_POWER = 12"
definition CMD_RESET_PATH :: byte where [codes]: "CMD_RESET_PATH = 13"
definition CMD_SET_ADVERT_LATLON :: byte where [codes]: "CMD_SET_ADVERT_LATLON = 14"
definition CMD_REMOVE_CONTACT :: byte where [codes]: "CMD_REMOVE_CONTACT = 15"
definition CMD_SHARE_CONTACT :: byte where [codes]: "CMD_SHARE_CONTACT = 16"
definition CMD_EXPORT_CONTACT :: byte where [codes]: "CMD_EXPORT_CONTACT = 17"
definition CMD_IMPORT_CONTACT :: byte where [codes]: "CMD_IMPORT_CONTACT = 18"
definition CMD_REBOOT :: byte where [codes]: "CMD_REBOOT = 19"
definition CMD_GET_BATT_AND_STORAGE :: byte where [codes]: "CMD_GET_BATT_AND_STORAGE = 20"
definition CMD_SET_TUNING_PARAMS :: byte where [codes]: "CMD_SET_TUNING_PARAMS = 21"
definition CMD_DEVICE_QUERY :: byte where [codes]: "CMD_DEVICE_QUERY = 22"
definition CMD_EXPORT_PRIVATE_KEY :: byte where [codes]: "CMD_EXPORT_PRIVATE_KEY = 23"
definition CMD_IMPORT_PRIVATE_KEY :: byte where [codes]: "CMD_IMPORT_PRIVATE_KEY = 24"
definition CMD_SEND_RAW_DATA :: byte where [codes]: "CMD_SEND_RAW_DATA = 25"
definition CMD_SEND_LOGIN :: byte where [codes]: "CMD_SEND_LOGIN = 26"
definition CMD_SEND_STATUS_REQ :: byte where [codes]: "CMD_SEND_STATUS_REQ = 27"
definition CMD_HAS_CONNECTION :: byte where [codes]: "CMD_HAS_CONNECTION = 28"
definition CMD_LOGOUT :: byte where [codes]: "CMD_LOGOUT = 29"
definition CMD_GET_CONTACT_BY_KEY :: byte where [codes]: "CMD_GET_CONTACT_BY_KEY = 30"
definition CMD_GET_CHANNEL :: byte where [codes]: "CMD_GET_CHANNEL = 31"
definition CMD_SET_CHANNEL :: byte where [codes]: "CMD_SET_CHANNEL = 32"
definition CMD_SIGN_START :: byte where [codes]: "CMD_SIGN_START = 33"
definition CMD_SIGN_DATA :: byte where [codes]: "CMD_SIGN_DATA = 34"
definition CMD_SIGN_FINISH :: byte where [codes]: "CMD_SIGN_FINISH = 35"
definition CMD_SEND_TRACE_PATH :: byte where [codes]: "CMD_SEND_TRACE_PATH = 36"
definition CMD_SET_DEVICE_PIN :: byte where [codes]: "CMD_SET_DEVICE_PIN = 37"
definition CMD_SET_OTHER_PARAMS :: byte where [codes]: "CMD_SET_OTHER_PARAMS = 38"
definition CMD_SEND_TELEMETRY_REQ :: byte where [codes]: "CMD_SEND_TELEMETRY_REQ = 39"
definition CMD_GET_CUSTOM_VARS :: byte where [codes]: "CMD_GET_CUSTOM_VARS = 40"
definition CMD_SET_CUSTOM_VAR :: byte where [codes]: "CMD_SET_CUSTOM_VAR = 41"
definition CMD_GET_ADVERT_PATH :: byte where [codes]: "CMD_GET_ADVERT_PATH = 42"
definition CMD_GET_TUNING_PARAMS :: byte where [codes]: "CMD_GET_TUNING_PARAMS = 43"
definition CMD_SEND_BINARY_REQ :: byte where [codes]: "CMD_SEND_BINARY_REQ = 50"
definition CMD_FACTORY_RESET :: byte where [codes]: "CMD_FACTORY_RESET = 51"
definition CMD_SEND_PATH_DISCOVERY_REQ :: byte where [codes]: "CMD_SEND_PATH_DISCOVERY_REQ = 52"
definition CMD_SET_FLOOD_SCOPE_KEY :: byte where [codes]: "CMD_SET_FLOOD_SCOPE_KEY = 54"
definition CMD_SEND_CONTROL_DATA :: byte where [codes]: "CMD_SEND_CONTROL_DATA = 55"
definition CMD_GET_STATS :: byte where [codes]: "CMD_GET_STATS = 56"
definition CMD_SEND_ANON_REQ :: byte where [codes]: "CMD_SEND_ANON_REQ = 57"
definition CMD_SET_AUTOADD_CONFIG :: byte where [codes]: "CMD_SET_AUTOADD_CONFIG = 58"
definition CMD_GET_AUTOADD_CONFIG :: byte where [codes]: "CMD_GET_AUTOADD_CONFIG = 59"
definition CMD_GET_ALLOWED_REPEAT_FREQ :: byte where [codes]: "CMD_GET_ALLOWED_REPEAT_FREQ = 60"
definition CMD_SET_PATH_HASH_MODE :: byte where [codes]: "CMD_SET_PATH_HASH_MODE = 61"
definition CMD_SEND_CHANNEL_DATA :: byte where [codes]: "CMD_SEND_CHANNEL_DATA = 62"
definition CMD_SET_DEFAULT_FLOOD_SCOPE :: byte where [codes]: "CMD_SET_DEFAULT_FLOOD_SCOPE = 63"
definition CMD_GET_DEFAULT_FLOOD_SCOPE :: byte where [codes]: "CMD_GET_DEFAULT_FLOOD_SCOPE = 64"
definition CMD_SEND_RAW_PACKET :: byte where [codes]: "CMD_SEND_RAW_PACKET = 65"

definition STATS_TYPE_CORE :: byte where [codes]: "STATS_TYPE_CORE = 0"
definition STATS_TYPE_RADIO :: byte where [codes]: "STATS_TYPE_RADIO = 1"
definition STATS_TYPE_PACKETS :: byte where [codes]: "STATS_TYPE_PACKETS = 2"

definition RESP_CODE_OK :: byte where [codes]: "RESP_CODE_OK = 0"
definition RESP_CODE_ERR :: byte where [codes]: "RESP_CODE_ERR = 1"
definition RESP_CODE_CONTACTS_START :: byte where [codes]: "RESP_CODE_CONTACTS_START = 2"
definition RESP_CODE_CONTACT :: byte where [codes]: "RESP_CODE_CONTACT = 3"
definition RESP_CODE_END_OF_CONTACTS :: byte where [codes]: "RESP_CODE_END_OF_CONTACTS = 4"
definition RESP_CODE_SELF_INFO :: byte where [codes]: "RESP_CODE_SELF_INFO = 5"
definition RESP_CODE_SENT :: byte where [codes]: "RESP_CODE_SENT = 6"
definition RESP_CODE_CONTACT_MSG_RECV :: byte where [codes]: "RESP_CODE_CONTACT_MSG_RECV = 7"
definition RESP_CODE_CHANNEL_MSG_RECV :: byte where [codes]: "RESP_CODE_CHANNEL_MSG_RECV = 8"
definition RESP_CODE_CURR_TIME :: byte where [codes]: "RESP_CODE_CURR_TIME = 9"
definition RESP_CODE_NO_MORE_MESSAGES :: byte where [codes]: "RESP_CODE_NO_MORE_MESSAGES = 10"
definition RESP_CODE_BATT_AND_STORAGE :: byte where [codes]: "RESP_CODE_BATT_AND_STORAGE = 12"
definition RESP_CODE_DEVICE_INFO :: byte where [codes]: "RESP_CODE_DEVICE_INFO = 13"
definition RESP_CODE_PRIVATE_KEY :: byte where [codes]: "RESP_CODE_PRIVATE_KEY = 14"
definition RESP_CODE_DISABLED :: byte where [codes]: "RESP_CODE_DISABLED = 15"
definition RESP_CODE_EXPORT_CONTACT :: byte where [codes]: "RESP_CODE_EXPORT_CONTACT = 11"
definition RESP_CODE_CONTACT_MSG_RECV_V3 :: byte where [codes]: "RESP_CODE_CONTACT_MSG_RECV_V3 = 16"
definition RESP_CODE_CHANNEL_MSG_RECV_V3 :: byte where [codes]: "RESP_CODE_CHANNEL_MSG_RECV_V3 = 17"
definition RESP_CODE_CHANNEL_INFO :: byte where [codes]: "RESP_CODE_CHANNEL_INFO = 18"
definition RESP_CODE_SIGN_START :: byte where [codes]: "RESP_CODE_SIGN_START = 19"
definition RESP_CODE_SIGNATURE :: byte where [codes]: "RESP_CODE_SIGNATURE = 20"
definition RESP_CODE_CUSTOM_VARS :: byte where [codes]: "RESP_CODE_CUSTOM_VARS = 21"
definition RESP_CODE_ADVERT_PATH :: byte where [codes]: "RESP_CODE_ADVERT_PATH = 22"
definition RESP_CODE_TUNING_PARAMS :: byte where [codes]: "RESP_CODE_TUNING_PARAMS = 23"
definition RESP_CODE_STATS :: byte where [codes]: "RESP_CODE_STATS = 24"
definition RESP_CODE_AUTOADD_CONFIG :: byte where [codes]: "RESP_CODE_AUTOADD_CONFIG = 25"
definition RESP_ALLOWED_REPEAT_FREQ :: byte where [codes]: "RESP_ALLOWED_REPEAT_FREQ = 26"
definition RESP_CODE_CHANNEL_DATA_RECV :: byte where [codes]: "RESP_CODE_CHANNEL_DATA_RECV = 27"
definition RESP_CODE_DEFAULT_FLOOD_SCOPE :: byte where [codes]: "RESP_CODE_DEFAULT_FLOOD_SCOPE = 28"

definition PUSH_CODE_ADVERT :: byte where [codes]: "PUSH_CODE_ADVERT = 0x80"
definition PUSH_CODE_PATH_UPDATED :: byte where [codes]: "PUSH_CODE_PATH_UPDATED = 0x81"
definition PUSH_CODE_SEND_CONFIRMED :: byte where [codes]: "PUSH_CODE_SEND_CONFIRMED = 0x82"
definition PUSH_CODE_MSG_WAITING :: byte where [codes]: "PUSH_CODE_MSG_WAITING = 0x83"
definition PUSH_CODE_RAW_DATA :: byte where [codes]: "PUSH_CODE_RAW_DATA = 0x84"
definition PUSH_CODE_LOGIN_SUCCESS :: byte where [codes]: "PUSH_CODE_LOGIN_SUCCESS = 0x85"
definition PUSH_CODE_LOGIN_FAIL :: byte where [codes]: "PUSH_CODE_LOGIN_FAIL = 0x86"
definition PUSH_CODE_STATUS_RESPONSE :: byte where [codes]: "PUSH_CODE_STATUS_RESPONSE = 0x87"
definition PUSH_CODE_LOG_RX_DATA :: byte where [codes]: "PUSH_CODE_LOG_RX_DATA = 0x88"
definition PUSH_CODE_TRACE_DATA :: byte where [codes]: "PUSH_CODE_TRACE_DATA = 0x89"
definition PUSH_CODE_NEW_ADVERT :: byte where [codes]: "PUSH_CODE_NEW_ADVERT = 0x8A"
definition PUSH_CODE_TELEMETRY_RESPONSE :: byte where [codes]: "PUSH_CODE_TELEMETRY_RESPONSE = 0x8B"
definition PUSH_CODE_BINARY_RESPONSE :: byte where [codes]: "PUSH_CODE_BINARY_RESPONSE = 0x8C"
definition PUSH_CODE_PATH_DISCOVERY_RESPONSE :: byte where [codes]: "PUSH_CODE_PATH_DISCOVERY_RESPONSE = 0x8D"
definition PUSH_CODE_CONTROL_DATA :: byte where [codes]: "PUSH_CODE_CONTROL_DATA = 0x8E"
definition PUSH_CODE_CONTACT_DELETED :: byte where [codes]: "PUSH_CODE_CONTACT_DELETED = 0x8F"
definition PUSH_CODE_CONTACTS_FULL :: byte where [codes]: "PUSH_CODE_CONTACTS_FULL = 0x90"

definition ERR_CODE_UNSUPPORTED_CMD :: byte where [codes]: "ERR_CODE_UNSUPPORTED_CMD = 1"
definition ERR_CODE_NOT_FOUND :: byte where [codes]: "ERR_CODE_NOT_FOUND = 2"
definition ERR_CODE_TABLE_FULL :: byte where [codes]: "ERR_CODE_TABLE_FULL = 3"
definition ERR_CODE_BAD_STATE :: byte where [codes]: "ERR_CODE_BAD_STATE = 4"
definition ERR_CODE_FILE_IO_ERROR :: byte where [codes]: "ERR_CODE_FILE_IO_ERROR = 5"
definition ERR_CODE_ILLEGAL_ARG :: byte where [codes]: "ERR_CODE_ILLEGAL_ARG = 6"

definition COMPANION_TXT_PLAIN :: byte where [codes]: "COMPANION_TXT_PLAIN = 0"
definition COMPANION_TXT_CLI_DATA :: byte where [codes]: "COMPANION_TXT_CLI_DATA = 1"
definition COMPANION_TXT_SIGNED_PLAIN :: byte where [codes]: "COMPANION_TXT_SIGNED_PLAIN = 2"

definition SIGURDOS_COMPANION_FIRMWARE_VER_CODE :: byte where "SIGURDOS_COMPANION_FIRMWARE_VER_CODE = 12"
definition SIGURDOS_COMPANION_PUB_KEY_SIZE :: nat where "SIGURDOS_COMPANION_PUB_KEY_SIZE = 32"
definition SIGURDOS_COMPANION_PUB_KEY_PREFIX_SIZE :: nat where "SIGURDOS_COMPANION_PUB_KEY_PREFIX_SIZE = 6"
definition SIGURDOS_COMPANION_PATH_SIZE :: nat where "SIGURDOS_COMPANION_PATH_SIZE = 64"
definition SIGURDOS_COMPANION_BLE_PIN_MIN :: u32 where "SIGURDOS_COMPANION_BLE_PIN_MIN = 100000"
definition SIGURDOS_COMPANION_BLE_PIN_MAX :: u32 where "SIGURDOS_COMPANION_BLE_PIN_MAX = 999999"
definition SIGURDOS_COMPANION_MAX_SIGN_DATA :: nat where "SIGURDOS_COMPANION_MAX_SIGN_DATA = 8192"

lemmas companion_sizes = SIGURDOS_COMPANION_PUB_KEY_SIZE_def SIGURDOS_COMPANION_PUB_KEY_PREFIX_SIZE_def
  SIGURDOS_COMPANION_PATH_SIZE_def

definition companionBlePinValid :: "u32 \<Rightarrow> bool" where
  "companionBlePinValid pin \<longleftrightarrow>
     pin = 0 \<or> (pin \<ge> SIGURDOS_COMPANION_BLE_PIN_MIN \<and> pin \<le> SIGURDOS_COMPANION_BLE_PIN_MAX)"

text \<open>The build options of \<open>companion_bridge.h\<close> at their default values.\<close>

definition SIGURDOS_ENABLE_PRIVATE_KEY_EXPORT :: bool where "SIGURDOS_ENABLE_PRIVATE_KEY_EXPORT = False"
definition SIGURDOS_ENABLE_PRIVATE_KEY_IMPORT :: bool where "SIGURDOS_ENABLE_PRIVATE_KEY_IMPORT = True"

section \<open>Structures\<close>

text \<open>Signed 8-, 16- and 32-bit fields are kept as the words \<open>memcpy\<close> moves.\<close>

record CompanionContact =
  cc_pub_key :: "byte list"
  cc_type :: byte
  cc_flags :: byte
  cc_out_path_len :: byte
  cc_out_path :: "byte list"
  cc_name :: "byte list"
  cc_last_advert_timestamp :: u32
  cc_lastmod :: u32
  cc_gps_lat :: u32
  cc_gps_lon :: u32

record CompanionChannel =
  ch_name :: "byte list"
  ch_secret :: "byte list"

record CompanionSendResult =
  sr_ok :: bool
  sr_sent_flood :: bool
  sr_expected_ack :: u32
  sr_est_timeout :: u32

record CompanionSelfInfo =
  si_pub_key :: "byte list"
  si_node_name :: "byte list"
  si_advert_type :: byte
  si_tx_power_dbm :: byte
  si_max_tx_power_dbm :: byte
  si_lat :: u32
  si_lon :: u32
  si_multi_acks :: byte
  si_advert_loc_policy :: byte
  si_telemetry_modes :: byte
  si_manual_add_contacts :: byte
  si_freq_khz :: u32
  si_bw_hz :: u32
  si_sf :: byte
  si_cr :: byte

text \<open>A field with its \<open>_present\<close> flag is an option.\<close>

record CompanionOtherParams =
  op_manual_add_contacts :: byte
  op_telemetry_modes :: "byte option"
  op_advert_loc_policy :: "byte option"
  op_multi_acks :: "byte option"

record CompanionCoreStats =
  cs_batt_mv :: u16
  cs_uptime_secs :: u32
  cs_err_flags :: u16
  cs_queue_len :: byte

record CompanionRadioStats =
  rs_noise_floor :: u16
  rs_last_rssi :: byte
  rs_last_snr_quarters :: byte
  rs_tx_air_secs :: u32
  rs_rx_air_secs :: u32

record CompanionPacketStats =
  ps_recv :: u32
  ps_sent :: u32
  ps_sent_flood :: u32
  ps_sent_direct :: u32
  ps_recv_flood :: u32
  ps_recv_direct :: u32
  ps_recv_errors :: u32

datatype TransportId = BLE | TCP | WS

section \<open>Interfaces\<close>

text \<open>A call of a public function of the bridge by the mesh side. A null pointer is \<open>None\<close>.\<close>

datatype bridge_call =
    Call_enqueueMessage StoredMessage
  | Call_enqueueChannelData byte byte byte u16 "byte list"
  | Call_notifySendConfirmed u32 u32
  | Call_onIdentityChanged
  | Call_setEnabled bool
  | Call_pushAdvert CompanionContact bool
  | Call_pushPathUpdated CompanionContact
  | Call_pushPathDiscoveryResponse "byte list option" "byte list option" byte "byte list option" byte
  | Call_pushContactDeleted "byte list option"
  | Call_pushContactsFull
  | Call_pushLoginResult "byte list option" bool byte u32 byte byte bool
  | Call_pushStatusResponse "byte list option" "byte list"
  | Call_pushTelemetryResponse "byte list option" "byte list"
  | Call_pushBinaryResponse u32 "byte list"
  | Call_pushRawData byte byte "byte list"
  | Call_pushControlData byte byte byte "byte list"
  | Call_pushTraceData u32 u32 byte "byte list option" "byte list option" byte byte

type_synonym ('e, 'a) host_op = "'e \<Rightarrow> ('a \<times> bridge_call list) \<times> 'e"

text \<open>
  \<open>CompanionBridgeHost\<close>, its functions in five groups: the \<open>const\<close> functions on the node itself; the \<open>const\<close> functions on tables and statistics; changes of settings; contact operations and the system functions; transmissions and requests.
\<close>

record 'e HostStatus =
  h_blePin :: "'e \<Rightarrow> u32"
  h_clientRepeat :: "'e \<Rightarrow> byte"
  h_pathHashMode :: "'e \<Rightarrow> byte"
  h_selfInfo :: "'e \<Rightarrow> CompanionSelfInfo"
  h_currentTime :: "'e \<Rightarrow> u32"
  h_monotonicMillis :: "'e \<Rightarrow> u32"
  h_batteryMilliVolts :: "'e \<Rightarrow> u16"
  h_storageUsedKb :: "'e \<Rightarrow> u32"
  h_storageTotalKb :: "'e \<Rightarrow> u32"
  h_exportPrivateKey :: "'e \<Rightarrow> byte list option"
  h_tuningParams :: "'e \<Rightarrow> u32 \<times> u32"
  h_getAutoAddConfig :: "'e \<Rightarrow> byte \<times> byte"

record 'e HostTables =
  h_contactCount :: "'e \<Rightarrow> nat"
  h_getContact :: "nat \<Rightarrow> 'e \<Rightarrow> CompanionContact option"
  h_channelCount :: "'e \<Rightarrow> nat"
  h_getChannel :: "nat \<Rightarrow> 'e \<Rightarrow> CompanionChannel option"
  h_getContactByPubKey :: "byte list \<Rightarrow> 'e \<Rightarrow> CompanionContact option"
  h_hasConnectionTo :: "byte list \<Rightarrow> 'e \<Rightarrow> bool"
  h_coreStats :: "'e \<Rightarrow> CompanionCoreStats"
  h_radioStats :: "'e \<Rightarrow> CompanionRadioStats"
  h_packetStats :: "'e \<Rightarrow> CompanionPacketStats"
  h_allowedRepeatFreqRanges :: "nat \<Rightarrow> 'e \<Rightarrow> (u32 \<times> u32) list"
  h_getDefaultFloodScope :: "'e \<Rightarrow> (byte list \<times> byte list) option"
  h_selfTelemetry :: "'e \<Rightarrow> byte list"
  h_getCustomVars :: "nat \<Rightarrow> 'e \<Rightarrow> cstring"
  h_getAdvertPath :: "byte list \<Rightarrow> 'e \<Rightarrow> (byte list \<times> byte \<times> nat \<times> u32) option"

record 'e HostSettings =
  h_setCurrentTime :: "u32 \<Rightarrow> ('e, bool) host_op"
  h_setChannel :: "nat \<Rightarrow> CompanionChannel \<Rightarrow> ('e, bool) host_op"
  h_setAdvertName :: "cstring \<Rightarrow> ('e, bool) host_op"
  h_setAdvertLatLon :: "u32 \<Rightarrow> u32 \<Rightarrow> ('e, bool) host_op"
  h_setBlePin :: "u32 \<Rightarrow> ('e, bool) host_op"
  h_importPrivateKey :: "byte list \<Rightarrow> ('e, bool) host_op"
  h_setRadioParams :: "u32 \<Rightarrow> u32 \<Rightarrow> byte \<Rightarrow> byte \<Rightarrow> byte \<Rightarrow> ('e, bool) host_op"
  h_setRadioTxPower :: "byte \<Rightarrow> ('e, bool) host_op"
  h_setTuningParams :: "u32 \<Rightarrow> u32 \<Rightarrow> ('e, bool) host_op"
  h_setOtherParams :: "CompanionOtherParams \<Rightarrow> ('e, bool) host_op"
  h_setPathHashMode :: "byte \<Rightarrow> ('e, bool) host_op"
  h_setAutoAddConfig :: "byte \<Rightarrow> byte \<Rightarrow> ('e, bool) host_op"
  h_setDefaultFloodScope :: "(cstring \<times> byte list) option \<Rightarrow> ('e, bool) host_op"
  h_setFloodScopeOverride :: "byte list option \<Rightarrow> bool \<Rightarrow> ('e, bool) host_op"
  h_setCustomVar :: "cstring \<Rightarrow> cstring \<Rightarrow> ('e, bool) host_op"

record 'e HostContacts =
  h_addOrUpdateContact :: "CompanionContact \<Rightarrow> ('e, bool) host_op"
  h_removeContactByPubKey :: "byte list \<Rightarrow> ('e, bool) host_op"
  h_resetPathByPubKey :: "byte list \<Rightarrow> ('e, bool) host_op"
  h_shareContactByPubKey :: "byte list \<Rightarrow> ('e, bool) host_op"
  h_exportContactByPubKey :: "byte list option \<Rightarrow> nat \<Rightarrow> ('e, byte list) host_op"
  h_importContact :: "byte list \<Rightarrow> ('e, bool) host_op"
  h_logout :: "byte list \<Rightarrow> ('e, unit) host_op"
  h_reboot :: "('e, unit) host_op"
  h_factoryReset :: "('e, bool) host_op"
  h_signData :: "byte list \<Rightarrow> ('e, byte list) host_op"

record 'e HostRadio =
  h_sendTextByPubKeyPrefix :: "byte list \<Rightarrow> byte \<Rightarrow> byte \<Rightarrow> u32 \<Rightarrow> cstring \<Rightarrow> ('e, CompanionSendResult) host_op"
  h_sendChannelText :: "nat \<Rightarrow> u32 \<Rightarrow> cstring \<Rightarrow> ('e, CompanionSendResult) host_op"
  h_sendChannelData :: "nat \<Rightarrow> byte list option \<Rightarrow> byte \<Rightarrow> u16 \<Rightarrow> byte list \<Rightarrow> ('e, bool) host_op"
  h_sendRawData :: "byte list \<Rightarrow> byte \<Rightarrow> byte list \<Rightarrow> ('e, bool) host_op"
  h_sendControlData :: "byte list \<Rightarrow> ('e, bool) host_op"
  h_sendAdvert :: "bool \<Rightarrow> ('e, bool) host_op"
  h_sendLogin :: "byte list \<Rightarrow> cstring \<Rightarrow> ('e, CompanionSendResult) host_op"
  h_sendStatusReq :: "byte list \<Rightarrow> ('e, CompanionSendResult) host_op"
  h_sendTelemetryReq :: "byte list \<Rightarrow> ('e, CompanionSendResult) host_op"
  h_sendBinaryReq :: "byte list \<Rightarrow> byte list \<Rightarrow> ('e, CompanionSendResult) host_op"
  h_sendAnonReq :: "byte list \<Rightarrow> byte list \<Rightarrow> ('e, CompanionSendResult) host_op"
  h_cancelBinaryReq :: "u32 \<Rightarrow> 'e \<Rightarrow> 'e"
  h_cancelBinaryReqs :: "'e \<Rightarrow> 'e"
  h_sendTracePath :: "u32 \<Rightarrow> u32 \<Rightarrow> byte \<Rightarrow> byte list \<Rightarrow> ('e, CompanionSendResult) host_op"
  h_sendPathDiscovery :: "byte list \<Rightarrow> ('e, CompanionSendResult) host_op"

record 'e CompanionBridgeHost =
  h_status :: "'e HostStatus"
  h_tables :: "'e HostTables"
  h_settings :: "'e HostSettings"
  h_contacts :: "'e HostContacts"
  h_radio :: "'e HostRadio"

text \<open>\<open>BaseSerialInterface\<close> of the MeshCore library, as far as the bridge calls it.\<close>

record 'e BaseSerialInterface =
  s_isEnabled :: "'e \<Rightarrow> bool"
  s_isConnected :: "'e \<Rightarrow> bool"
  s_isWriteBusy :: "'e \<Rightarrow> bool"
  s_enable :: "'e \<Rightarrow> 'e"
  s_disable :: "'e \<Rightarrow> 'e"
  s_writeFrame :: "byte list \<Rightarrow> 'e \<Rightarrow> nat \<times> 'e"
  s_checkRecvFrame :: "'e \<Rightarrow> byte list \<times> 'e"

text \<open>
  The functions and constants the bridge is linked with: the transport registry
  (\<open>transports_internal.h\<close>, \<open>transport_iface.h\<close>), the OTA gate, the message store, and the
  constants of the MeshCore library and the build.
\<close>

record 'e linked =
  l_attached :: "'e \<Rightarrow> bool"
  l_client_connected :: "TransportId \<Rightarrow> int \<Rightarrow> 'e \<Rightarrow> bool"
  l_client_generation :: "TransportId \<Rightarrow> int \<Rightarrow> 'e \<Rightarrow> u32"
  l_current_request :: "'e \<Rightarrow> (TransportId \<times> int \<times> u32) option"
  l_send_to_result :: "TransportId \<Rightarrow> int \<Rightarrow> byte list \<Rightarrow> 'e \<Rightarrow> bool \<times> 'e"
  l_broadcast_result :: "TransportId \<Rightarrow> byte list \<Rightarrow> 'e \<Rightarrow> bool \<times> 'e"
  l_set_enabled :: "TransportId \<Rightarrow> bool \<Rightarrow> 'e \<Rightarrow> bool \<times> 'e"
  l_transport_enabled :: "TransportId \<Rightarrow> 'e \<Rightarrow> bool"
  l_status_connected :: "TransportId \<Rightarrow> 'e \<Rightarrow> bool"
  l_companionTransportsAllowed :: "'e \<Rightarrow> bool"
  l_loadUnsent :: "nat \<Rightarrow> 'e \<Rightarrow> StoredMessage list \<times> 'e"
  l_markCompanionSent :: "u32 \<Rightarrow> 'e \<Rightarrow> bool \<times> 'e"
  l_MAX_FRAME_SIZE :: nat
  l_MAX_CONTACTS :: nat
  l_BUILD_DATE :: cstring
  l_FIRMWARE_VERSION :: cstring

end
