(* ===== verification/CompanionBridge.thy ===== *)
theory CompanionBridge
  imports BridgeEnv
begin

text \<open>
  The companion bridge (\<open>comms/companion_bridge.cpp\<close>): the state of the protocol engine, its
  sessions, the offline queue with the implicit acknowledgement of durable messages, the pending
  response slot, the table of binary requests, and the pushes of the mesh side. The command
  dispatcher is in \<open>BridgeCommands\<close>.

  \<open>session_vars\<close> holds the connection-scoped variables; the bridge has one set of them (the
  \<open>_\<close>-prefixed members) and every transport session another, and \<open>loadTransportSession\<close> and
  \<open>saveTransportSession\<close> copy them. The offline queue is the list of the entries in use; a frame's
  bytes are the list \<open>fr_buf\<close> of its \<open>len\<close> bytes. The signing buffer, the buffer of the pending response
  and the command buffer keep their full size, because the code erases them. \<open>_out_frame\<close> and
  \<open>_offline_snapshot\<close> are scratch space: every frame is built there from its first byte and
  handed on with its length, so a frame is the list of its bytes.
\<close>

section \<open>State\<close>

record Frame =
  fr_store_id :: u32
  fr_persistent :: bool
  fr_buf :: "byte list"

record PendingBinaryRequest =
  pb_tag :: u32
  pb_deadline_ms :: u32

record session_vars =
  app_target_ver :: byte
  version_negotiated :: bool
  iter_filter_since :: u32
  most_recent_lastmod :: u32
  contact_iter :: int
  offline :: "Frame list"
  pending_binary :: "PendingBinaryRequest list"
  pending_response :: "byte list"
  pending_response_len :: nat
  sign_buf :: "byte list"
  sign_len :: nat
  sign_active :: bool
  was_connected :: bool
  connection_generation :: u32
  inflight_store_id :: u32
  inflight_generation :: u32

record TransportSession = session_vars +
  ts_used :: bool
  ts_id :: TransportId
  ts_client_index :: int
  ts_generation :: u32

record 'e bridge = session_vars +
  b_serial :: "'e BaseSerialInterface option"
  b_session :: "('e \<Rightarrow> u32) option"
  b_host :: "'e CompanionBridgeHost option"
  b_last_sync_time :: u32
  b_cmd_frame :: "byte list"
  b_push_drop_count :: u32
  b_transport_request_active :: bool
  b_request_transport :: TransportId
  b_request_client_index :: int
  b_request_generation :: u32
  b_active_session :: "nat option"
  b_transport_sessions :: "TransportSession list"
  b_registered :: bool
  b_linked :: "'e linked"
  b_env :: 'e

type_synonym ('e, 'a) br = "('e bridge, 'a) state"

definition OFFLINE_QUEUE_SIZE :: nat where "OFFLINE_QUEUE_SIZE = 16"
definition MAX_PENDING_BINARY_REQUESTS :: nat where "MAX_PENDING_BINARY_REQUESTS = 4"
definition MAX_TRANSPORT_SESSIONS :: nat where "MAX_TRANSPORT_SESSIONS = 9"
definition BINARY_REQUEST_FALLBACK_TIMEOUT_MS :: u32 where "BINARY_REQUEST_FALLBACK_TIMEOUT_MS = 30000"
definition COMPANION_OUT_PATH_UNKNOWN :: byte where "COMPANION_OUT_PATH_UNKNOWN = 0xFF"
definition MANUFACTURER :: cstring where "MANUFACTURER = bytes_of ''SigurdOS''"

definition no_request :: PendingBinaryRequest where
  "no_request = \<lparr>pb_tag = 0, pb_deadline_ms = 0\<rparr>"

section \<open>Running on the environment\<close>

definition look :: "('e \<Rightarrow> 'a) \<Rightarrow> ('e, 'a) br" where
  "look f = gets (\<lambda>b. f (b_env b))"

definition env :: "('e \<Rightarrow> 'a \<times> 'e) \<Rightarrow> ('e, 'a) br" where
  "env f = State (\<lambda>b. case f (b_env b) of (a, e) \<Rightarrow> (a, b\<lparr>b_env := e\<rparr>))"

definition env_do :: "('e \<Rightarrow> 'e) \<Rightarrow> ('e, unit) br" where
  "env_do f = modify (\<lambda>b. b\<lparr>b_env := f (b_env b)\<rparr>)"

definition linked_look :: "('e linked \<Rightarrow> 'e \<Rightarrow> 'a) \<Rightarrow> ('e, 'a) br" where
  "linked_look f = gets (\<lambda>b. f (b_linked b) (b_env b))"

definition linked_env :: "('e linked \<Rightarrow> 'e \<Rightarrow> 'a \<times> 'e) \<Rightarrow> ('e, 'a) br" where
  "linked_env f = State (\<lambda>b. case f (b_linked b) (b_env b) of (a, e) \<Rightarrow> (a, b\<lparr>b_env := e\<rparr>))"

definition max_frame :: "('e, nat) br" where
  "max_frame = gets (\<lambda>b. l_MAX_FRAME_SIZE (b_linked b))"

definition when_host :: "('e CompanionBridgeHost \<Rightarrow> ('e, unit) br) \<Rightarrow> ('e, unit) br" where
  "when_host f = do { h \<leftarrow> gets b_host; case h of None \<Rightarrow> ret () | Some h \<Rightarrow> f h }"

text \<open>A C loop over a list of values or indices.\<close>

fun for_each :: "('x \<Rightarrow> ('s, unit) state) \<Rightarrow> 'x list \<Rightarrow> ('s, unit) state" where
  "for_each f [] = ret ()"
| "for_each f (x # xs) = do { f x; for_each f xs }"

text \<open>A loop that collects whether some round reported success.\<close>

fun any_of :: "('x \<Rightarrow> ('s, bool) state) \<Rightarrow> 'x list \<Rightarrow> ('s, bool) state" where
  "any_of f [] = ret False"
| "any_of f (x # xs) = do { a \<leftarrow> f x; r \<leftarrow> any_of f xs; ret (a \<or> r) }"

section \<open>Helpers\<close>

definition transportAllowedDuringOta :: "TransportId \<Rightarrow> ('e, bool) br" where
  "transportAllowedDuringOta tid = linked_look (\<lambda>l e. tid = BLE \<or> l_companionTransportsAllowed l e)"

definition strzcpy :: "cstring option \<Rightarrow> nat \<Rightarrow> byte list" where
  "strzcpy src dest_sz = (case src of None \<Rightarrow> replicate dest_sz 0 | Some s \<Rightarrow> pad_to dest_sz (take (dest_sz - 1) (cstr s)))"

definition boundedTextLen :: "byte list \<Rightarrow> nat \<Rightarrow> nat" where
  "boundedTextLen text max_len = strnlen text max_len"

definition pathByteLen :: "byte \<Rightarrow> nat option" where
  "pathByteLen path_len =
     (if path_len = COMPANION_OUT_PATH_UNKNOWN then Some 0
      else if \<not> encodedLengthValid path_len then None
      else Some (byteCount path_len))"

definition commandMinimumLength :: "byte \<Rightarrow> nat" where
  "commandMinimumLength cmd =
     (if cmd = CMD_DEVICE_QUERY then 2
      else if cmd = CMD_APP_START then 8
      else if cmd = CMD_SEND_TXT_MSG then 14
      else if cmd = CMD_SEND_CHANNEL_TXT_MSG then 7
      else if cmd = CMD_SEND_CHANNEL_DATA then 5
      else if cmd = CMD_SET_DEVICE_TIME then 5
      else if cmd = CMD_SET_ADVERT_NAME then 2
      else if cmd = CMD_SET_ADVERT_LATLON then 9
      else if cmd = CMD_SET_RADIO_PARAMS then 11
      else if cmd = CMD_SET_RADIO_TX_POWER then 2
      else if cmd = CMD_SET_TUNING_PARAMS then 9
      else if cmd = CMD_GET_CHANNEL then 2
      else if cmd = CMD_SET_CHANNEL then 2 + 32 + 16
      else if cmd = CMD_SET_DEVICE_PIN then 5
      else if cmd = CMD_IMPORT_PRIVATE_KEY then 65
      else if cmd = CMD_SET_OTHER_PARAMS then 2
      else if cmd = CMD_SET_PATH_HASH_MODE then 3
      else if cmd = CMD_SET_AUTOADD_CONFIG then 2
      else if cmd \<in> {CMD_GET_CONTACT_BY_KEY, CMD_RESET_PATH, CMD_REMOVE_CONTACT, CMD_SHARE_CONTACT, CMD_HAS_CONNECTION, CMD_LOGOUT}
        then 1 + SIGURDOS_COMPANION_PUB_KEY_SIZE
      else if cmd = CMD_ADD_UPDATE_CONTACT
        then 1 + SIGURDOS_COMPANION_PUB_KEY_SIZE + 2 + 1 + SIGURDOS_COMPANION_PATH_SIZE + 32 + 4
      else if cmd = CMD_IMPORT_CONTACT then 2 + 32 + 64 + 1
      else if cmd = CMD_REBOOT then 7
      else if cmd = CMD_FACTORY_RESET then 6
      else if cmd = CMD_GET_STATS then 2
      else if cmd = CMD_SET_CUSTOM_VAR then 4
      else if cmd \<in> {CMD_GET_ADVERT_PATH, CMD_SEND_PATH_DISCOVERY_REQ} then 2 + SIGURDOS_COMPANION_PUB_KEY_SIZE
      else if cmd = CMD_SET_FLOOD_SCOPE_KEY then 2
      else if cmd = CMD_SIGN_DATA then 2
      else if cmd \<in> {CMD_SEND_LOGIN, CMD_SEND_STATUS_REQ} then 1 + SIGURDOS_COMPANION_PUB_KEY_SIZE
      else if cmd = CMD_SEND_TELEMETRY_REQ then 4
      else if cmd \<in> {CMD_SEND_BINARY_REQ, CMD_SEND_ANON_REQ} then 2 + SIGURDOS_COMPANION_PUB_KEY_SIZE
      else if cmd = CMD_SEND_TRACE_PATH then 11
      else if cmd = CMD_SEND_RAW_DATA then 6
      else if cmd = CMD_SEND_CONTROL_DATA then 2
      else 0)"

definition secureWipe :: "byte list \<Rightarrow> byte list" where
  "secureWipe data = replicate (length data) 0"

section \<open>Sessions\<close>

text \<open>\<open>TransportSession::reset\<close>: every buffer zeroed, every variable at its initial value.\<close>

definition ts_reset :: "nat \<Rightarrow> TransportSession" where
  "ts_reset mfs = \<lparr>app_target_ver = 3, version_negotiated = True, iter_filter_since = 0, most_recent_lastmod = 0,
     contact_iter = -1, offline = [], pending_binary = replicate MAX_PENDING_BINARY_REQUESTS no_request,
     pending_response = replicate mfs 0, pending_response_len = 0,
     sign_buf = replicate SIGURDOS_COMPANION_MAX_SIGN_DATA 0, sign_len = 0, sign_active = False,
     was_connected = False, connection_generation = 0, inflight_store_id = 0, inflight_generation = 0,
     ts_used = False, ts_id = BLE, ts_client_index = -1, ts_generation = 0\<rparr>"

definition fresh_for :: "nat \<Rightarrow> TransportId \<Rightarrow> int \<Rightarrow> u32 \<Rightarrow> TransportSession" where
  "fresh_for mfs tid client_index generation = (ts_reset mfs)\<lparr>ts_used := True, ts_id := tid, ts_client_index := client_index,
     ts_generation := generation, connection_generation := generation, was_connected := True\<rparr>"

definition clearPendingBinary :: "('e, unit) br" where
  "clearPendingBinary = modify (\<lambda>b. b\<lparr>pending_binary := map (\<lambda>_. no_request) (pending_binary b)\<rparr>)"

definition clearSigningState :: "('e, unit) br" where
  "clearSigningState = modify (\<lambda>b. b\<lparr>sign_buf := secureWipe (sign_buf b), sign_active := False, sign_len := 0\<rparr>)"

definition clearInflightMessage :: "('e, unit) br" where
  "clearInflightMessage = modify (\<lambda>b. b\<lparr>inflight_store_id := 0, inflight_generation := 0\<rparr>)"

definition bridge_begin :: "'e BaseSerialInterface option \<Rightarrow> 'e CompanionBridgeHost option \<Rightarrow> ('e \<Rightarrow> u32) option \<Rightarrow> ('e, unit) br" where
  "bridge_begin serial host session = do {
     modify (\<lambda>b. b\<lparr>b_serial := serial, b_session := session, b_host := host, app_target_ver := 3, version_negotiated := True,
       b_last_sync_time := 0, contact_iter := -1, offline := []\<rparr>);
     clearSigningState;
     modify (\<lambda>b. b\<lparr>was_connected := False, pending_response_len := 0, b_push_drop_count := 0, connection_generation := 0\<rparr>);
     clearInflightMessage;
     clearPendingBinary;
     modify (\<lambda>b. b\<lparr>b_transport_request_active := False, b_request_transport := BLE, b_request_client_index := -1,
       b_request_generation := 0, b_active_session := None,
       b_transport_sessions := map (\<lambda>_. ts_reset (l_MAX_FRAME_SIZE (b_linked b))) (b_transport_sessions b),
       b_registered := True\<rparr>) }"

text \<open>The slot a session lives in: the first one with its identity, else the first free one.\<close>

definition session_slot :: "TransportId \<Rightarrow> int \<Rightarrow> TransportSession list \<Rightarrow> nat option" where
  "session_slot tid client_index ss =
     (case first_index (\<lambda>s. ts_used s \<and> ts_id s = tid \<and> ts_client_index s = client_index) ss of
        Some i \<Rightarrow> Some i
      | None \<Rightarrow> first_index (\<lambda>s. \<not> ts_used s) ss)"

definition put_session :: "nat \<Rightarrow> TransportSession \<Rightarrow> ('e, unit) br" where
  "put_session i s = modify (\<lambda>b. b\<lparr>b_transport_sessions := (b_transport_sessions b)[i := s]\<rparr>)"

definition ensureTransportSession :: "TransportId \<Rightarrow> int \<Rightarrow> u32 \<Rightarrow> ('e, nat option) br" where
  "ensureTransportSession tid client_index generation = do {
     ss \<leftarrow> gets b_transport_sessions;
     mfs \<leftarrow> max_frame;
     case session_slot tid client_index ss of
       None \<Rightarrow> ret None
     | Some i \<Rightarrow>
         if ts_used (ss ! i) then do {
           (if generation \<noteq> 0 \<and> ts_generation (ss ! i) \<noteq> 0 \<and> generation \<noteq> ts_generation (ss ! i) then do {
              put_session i (fresh_for mfs tid client_index generation);
              when_host (\<lambda>h. env_do (h_cancelBinaryReqs (h_radio h))) }
            else ret ());
           ret (Some i) }
         else do {
           put_session i (fresh_for mfs tid client_index generation);
           ret (Some i) } }"

definition load_vars :: "TransportSession \<Rightarrow> 'e bridge \<Rightarrow> 'e bridge" where
  "load_vars s b = b\<lparr>app_target_ver := app_target_ver s, version_negotiated := version_negotiated s,
     iter_filter_since := iter_filter_since s, most_recent_lastmod := most_recent_lastmod s,
     contact_iter := contact_iter s, offline := offline s, pending_binary := pending_binary s,
     pending_response := pending_response s, pending_response_len := pending_response_len s,
     sign_buf := sign_buf s, sign_len := sign_len s, sign_active := sign_active s,
     was_connected := was_connected s, connection_generation := connection_generation s,
     inflight_store_id := inflight_store_id s, inflight_generation := inflight_generation s\<rparr>"

definition save_vars :: "'e bridge \<Rightarrow> TransportSession \<Rightarrow> TransportSession" where
  "save_vars b s = s\<lparr>app_target_ver := app_target_ver b, version_negotiated := version_negotiated b,
     iter_filter_since := iter_filter_since b, most_recent_lastmod := most_recent_lastmod b,
     contact_iter := contact_iter b, offline := offline b, pending_binary := pending_binary b,
     pending_response := pending_response b, pending_response_len := pending_response_len b,
     sign_buf := sign_buf b, sign_len := sign_len b, sign_active := sign_active b,
     was_connected := was_connected b, connection_generation := connection_generation b,
     inflight_store_id := inflight_store_id b, inflight_generation := inflight_generation b\<rparr>"

definition loadTransportSession :: "nat \<Rightarrow> ('e, unit) br" where
  "loadTransportSession i = modify (\<lambda>b. load_vars (b_transport_sessions b ! i) b)"

definition saveTransportSession :: "nat \<Rightarrow> ('e, unit) br" where
  "saveTransportSession i = modify (\<lambda>b. b\<lparr>b_transport_sessions :=
     (b_transport_sessions b)[i := save_vars b (b_transport_sessions b ! i)]\<rparr>)"

definition activateTransportSession :: "TransportId \<Rightarrow> int \<Rightarrow> u32 \<Rightarrow> ('e, nat option) br" where
  "activateTransportSession tid client_index generation = do {
     r \<leftarrow> ensureTransportSession tid client_index generation;
     case r of
       None \<Rightarrow> ret None
     | Some i \<Rightarrow> do {
         loadTransportSession i;
         modify (\<lambda>b. b\<lparr>b_active_session := Some i\<rparr>);
         ret (Some i) } }"

section \<open>Connection state\<close>

definition isEnabled :: "('e, bool) br" where
  "isEnabled = do {
     att \<leftarrow> linked_look l_attached;
     if att then linked_look (\<lambda>l e. l_transport_enabled l BLE e \<or> l_transport_enabled l TCP e \<or> l_transport_enabled l WS e)
     else gets (\<lambda>b. case b_serial b of None \<Rightarrow> False | Some s \<Rightarrow> s_isEnabled s (b_env b)) }"

definition isConnected :: "('e, bool) br" where
  "isConnected = do {
     att \<leftarrow> linked_look l_attached;
     if att then linked_look (\<lambda>l e. l_status_connected l BLE e \<or> l_status_connected l TCP e \<or> l_status_connected l WS e)
     else gets (\<lambda>b. case b_serial b of None \<Rightarrow> False | Some s \<Rightarrow> s_isConnected s (b_env b)) }"

definition resetConnectionSession :: "('e, unit) br" where
  "resetConnectionSession = do {
     modify (\<lambda>b. b\<lparr>app_target_ver := 3, version_negotiated := False, contact_iter := -1, iter_filter_since := 0,
       most_recent_lastmod := 0, offline := []\<rparr>);
     clearSigningState;
     modify (\<lambda>b. b\<lparr>pending_response := secureWipe (pending_response b), pending_response_len := 0\<rparr>);
     clearInflightMessage;
     clearPendingBinary }"

definition setEnabled :: "bool \<Rightarrow> ('e, bool) br" where
  "setEnabled enabled = do {
     serial \<leftarrow> gets b_serial;
     case serial of
       None \<Rightarrow> ret False
     | Some s \<Rightarrow> do {
         (if enabled then env_do (s_enable s)
          else do {
            env_do (s_disable s);
            resetConnectionSession;
            modify (\<lambda>b. b\<lparr>was_connected := False, connection_generation := 0\<rparr>);
            when_host (\<lambda>h. env_do (h_cancelBinaryReqs (h_radio h))) });
         look (\<lambda>e. s_isEnabled s e = enabled) } }"

definition serial_generation :: "'e bridge \<Rightarrow> u32" where
  "serial_generation b = (case b_serial b of
       None \<Rightarrow> 0
     | Some s \<Rightarrow> if \<not> s_isConnected s (b_env b) then 0
                 else (case b_session b of Some source \<Rightarrow> source (b_env b) | None \<Rightarrow> 1))"

definition transport_connected :: "'e bridge \<Rightarrow> bool" where
  "transport_connected b =
     (if b_transport_request_active b
      then l_client_connected (b_linked b) (b_request_transport b) (b_request_client_index b) (b_env b)
      else (case b_serial b of None \<Rightarrow> False | Some s \<Rightarrow> s_isConnected s (b_env b)))"

definition currentTransportConnected :: "('e, bool) br" where
  "currentTransportConnected = gets transport_connected"

definition current_generation :: "'e bridge \<Rightarrow> u32" where
  "current_generation b =
     (if b_transport_request_active b
      then l_client_generation (b_linked b) (b_request_transport b) (b_request_client_index b) (b_env b)
      else if transport_connected b then serial_generation b else 0)"

definition refreshConnectionSession :: "('e, unit) br" where
  "refreshConnectionSession = do {
     none \<leftarrow> gets (\<lambda>b. b_serial b = None \<and> \<not> b_transport_request_active b);
     if none then ret ()
     else do {
       connected \<leftarrow> currentTransportConnected;
       generation \<leftarrow> gets current_generation;
       changed \<leftarrow> gets (\<lambda>b. was_connected b \<and> connection_generation b \<noteq> 0 \<and>
                    (\<not> connected \<or> generation \<noteq> connection_generation b));
       (if changed then do {
          resetConnectionSession;
          when_host (\<lambda>h. env_do (h_cancelBinaryReqs (h_radio h))) }
        else ret ());
       modify (\<lambda>b. b\<lparr>connection_generation := generation, was_connected := connected\<rparr>) } }"

section \<open>Sending frames\<close>

definition writeFrameToCurrentTransport :: "byte list \<Rightarrow> ('e, bool) br" where
  "writeFrameToCurrentTransport frame = do {
     mfs \<leftarrow> max_frame;
     if length frame = 0 \<or> length frame > mfs then ret False
     else do {
       active \<leftarrow> gets b_transport_request_active;
       if active then do {
         tid \<leftarrow> gets b_request_transport;
         ci \<leftarrow> gets b_request_client_index;
         linked_env (\<lambda>l. l_send_to_result l tid ci frame) }
       else do {
         serial \<leftarrow> gets b_serial;
         case serial of
           None \<Rightarrow> ret False
         | Some s \<Rightarrow> do { n \<leftarrow> env (s_writeFrame s frame); ret (n = length frame) } } } }"

definition sendResponseFrame :: "byte list \<Rightarrow> ('e, bool) br" where
  "sendResponseFrame frame = do {
     mfs \<leftarrow> max_frame;
     refused \<leftarrow> gets (\<lambda>b. (b_serial b = None \<and> \<not> b_transport_request_active b) \<or> pending_response_len b \<noteq> 0);
     if refused \<or> length frame = 0 \<or> length frame > mfs then ret False
     else do {
       written \<leftarrow> writeFrameToCurrentTransport frame;
       if written then ret True
       else do {
         modify (\<lambda>b. b\<lparr>pending_response := overwrite (pending_response b) 0 frame, pending_response_len := length frame\<rparr>);
         ret True } } }"

definition flushPendingResponse :: "('e, bool) br" where
  "flushPendingResponse = do {
     n \<leftarrow> gets pending_response_len;
     if n = 0 then ret True
     else do {
       connected \<leftarrow> currentTransportConnected;
       if \<not> connected then ret False
       else do {
         frame \<leftarrow> gets (\<lambda>b. take n (pending_response b));
         written \<leftarrow> writeFrameToCurrentTransport frame;
         if \<not> written then ret False
         else do {
           modify (\<lambda>b. b\<lparr>pending_response := secureWipe (pending_response b), pending_response_len := 0\<rparr>);
           ret True } } } }"

definition drop_push :: "('e, bool) br" where
  "drop_push = do { modify (\<lambda>b. b\<lparr>b_push_drop_count := b_push_drop_count b + 1\<rparr>); ret False }"

definition sendPushFrame :: "byte list \<Rightarrow> ('e, bool) br" where
  "sendPushFrame frame = do {
     mfs \<leftarrow> max_frame;
     if length frame = 0 \<or> length frame > mfs then drop_push
     else do {
       att \<leftarrow> linked_look l_attached;
       if att then do {
         s1 \<leftarrow> linked_env (\<lambda>l. l_broadcast_result l BLE frame);
         s2 \<leftarrow> linked_env (\<lambda>l. l_broadcast_result l TCP frame);
         s3 \<leftarrow> linked_env (\<lambda>l. l_broadcast_result l WS frame);
         if s1 \<or> s2 \<or> s3 then ret True else drop_push }
       else do {
         written \<leftarrow> writeFrameToCurrentTransport frame;
         if written then ret True else drop_push } } }"

definition respond :: "byte list \<Rightarrow> ('e, unit) br" where
  "respond frame = do { _ \<leftarrow> sendResponseFrame frame; ret () }"

definition writeOKFrame :: "('e, unit) br" where
  "writeOKFrame = respond [RESP_CODE_OK]"

definition writeErrFrame :: "byte \<Rightarrow> ('e, unit) br" where
  "writeErrFrame err = respond [RESP_CODE_ERR, err]"

definition writeDisabledFrame :: "('e, unit) br" where
  "writeDisabledFrame = respond [RESP_CODE_DISABLED]"

definition writeNoMoreMessages :: "('e, unit) br" where
  "writeNoMoreMessages = respond [RESP_CODE_NO_MORE_MESSAGES]"

definition contact_frame :: "byte \<Rightarrow> CompanionContact \<Rightarrow> byte list" where
  "contact_frame code c = [code] @ cc_pub_key c @ [cc_type c, cc_flags c, cc_out_path_len c] @ cc_out_path c @
     strzcpy (Some (cc_name c)) 32 @ put_u32 (cc_last_advert_timestamp c) @ put_u32 (cc_gps_lat c) @
     put_u32 (cc_gps_lon c) @ put_u32 (cc_lastmod c)"

definition writeContactFrame :: "byte \<Rightarrow> CompanionContact \<Rightarrow> bool \<Rightarrow> ('e, bool) br" where
  "writeContactFrame code contact command_response =
     (if command_response then sendResponseFrame (contact_frame code contact)
      else sendPushFrame (contact_frame code contact))"

definition sent_frame :: "CompanionSendResult \<Rightarrow> byte list" where
  "sent_frame r = [RESP_CODE_SENT, if sr_sent_flood r then 1 else 0] @ put_u32 (sr_expected_ack r) @ put_u32 (sr_est_timeout r)"

definition writeSentOrErr :: "CompanionSendResult \<Rightarrow> ('e, unit) br" where
  "writeSentOrErr r = (if \<not> sr_ok r then writeErrFrame ERR_CODE_NOT_FOUND else respond (sent_frame r))"

section \<open>Binary requests\<close>

definition findPendingBinary :: "u32 \<Rightarrow> PendingBinaryRequest list \<Rightarrow> nat option" where
  "findPendingBinary tag reqs = (if tag = 0 then None else first_index (\<lambda>r. pb_tag r = tag) reqs)"

definition findFreePendingBinary :: "PendingBinaryRequest list \<Rightarrow> nat option" where
  "findFreePendingBinary reqs = first_index (\<lambda>r. pb_tag r = 0) reqs"

definition expire_slot :: "'e CompanionBridgeHost \<Rightarrow> u32 \<Rightarrow> nat \<Rightarrow> ('e, unit) br" where
  "expire_slot h now i = do {
     r \<leftarrow> gets (\<lambda>b. pending_binary b ! i);
     if pb_tag r = 0 \<or> before32 now (pb_deadline_ms r) then ret ()
     else do {
       modify (\<lambda>b. b\<lparr>pending_binary := (pending_binary b)[i := no_request]\<rparr>);
       env_do (h_cancelBinaryReq (h_radio h) (pb_tag r)) } }"

definition expirePendingBinary :: "('e, unit) br" where
  "expirePendingBinary = when_host (\<lambda>h. do {
     now \<leftarrow> look (h_monotonicMillis (h_status h));
     n \<leftarrow> gets (\<lambda>b. length (pending_binary b));
     for_each (expire_slot h now) [0..<n] })"

section \<open>Offline queue\<close>

definition offlineFrameExistsIn :: "nat \<Rightarrow> Frame list \<Rightarrow> byte list \<Rightarrow> bool" where
  "offlineFrameExistsIn mfs queue frame \<longleftrightarrow>
     \<not> (length frame = 0 \<or> length frame > mfs) \<and> length queue \<le> OFFLINE_QUEUE_SIZE \<and>
     list_ex (\<lambda>q. fr_buf q = frame) queue"

text \<open>The queue after the call, or \<open>None\<close> where the code returns \<open>false\<close> and leaves the queue as it is.\<close>

definition addToOfflineQueueBuffer :: "nat \<Rightarrow> Frame list \<Rightarrow> u32 \<Rightarrow> bool \<Rightarrow> byte list \<Rightarrow> Frame list option" where
  "addToOfflineQueueBuffer mfs queue store_id persistent frame =
     (if length frame = 0 \<or> length frame > mfs \<or> length queue > OFFLINE_QUEUE_SIZE then None
      else if persistent \<and> store_id = 0 then None
      else if persistent \<and> list_ex (\<lambda>q. fr_persistent q \<and> fr_store_id q = store_id) queue then None
      else if offlineFrameExistsIn mfs queue frame then None
      else
        let entry = \<lparr>fr_store_id = store_id, fr_persistent = persistent, fr_buf = frame\<rparr>
        in if length queue \<ge> OFFLINE_QUEUE_SIZE then
             if persistent then None
             else (case first_index (\<lambda>q. \<not> fr_persistent q) queue of
                     None \<Rightarrow> None
                   | Some i \<Rightarrow> Some (take i queue @ drop (i + 1) queue @ [entry]))
           else Some (queue @ [entry]))"

definition addToOfflineQueue :: "u32 \<Rightarrow> bool \<Rightarrow> byte list \<Rightarrow> ('e, bool) br" where
  "addToOfflineQueue store_id persistent frame = do {
     mfs \<leftarrow> max_frame;
     q \<leftarrow> gets offline;
     case addToOfflineQueueBuffer mfs q store_id persistent frame of
       None \<Rightarrow> ret False
     | Some q' \<Rightarrow> do { modify (\<lambda>b. b\<lparr>offline := q'\<rparr>); ret True } }"

definition add_to_session_queue :: "nat \<Rightarrow> u32 \<Rightarrow> bool \<Rightarrow> byte list \<Rightarrow> ('e, bool) br" where
  "add_to_session_queue i store_id persistent frame = do {
     mfs \<leftarrow> max_frame;
     s \<leftarrow> gets (\<lambda>b. b_transport_sessions b ! i);
     case addToOfflineQueueBuffer mfs (offline s) store_id persistent frame of
       None \<Rightarrow> ret False
     | Some q' \<Rightarrow> do { put_session i (s\<lparr>offline := q'\<rparr>); ret True } }"

definition peekOfflineQueue :: "('e, Frame option) br" where
  "peekOfflineQueue = gets (\<lambda>b. case offline b of [] \<Rightarrow> None | f # _ \<Rightarrow> Some f)"

definition removeFirstOfflineFrame :: "('e, unit) br" where
  "removeFirstOfflineFrame = modify (\<lambda>b. b\<lparr>offline := tl (offline b)\<rparr>)"

text \<open>The index of the channel a conversation names, \<open>0xFF\<close> if there is none.\<close>

definition channel_index :: "'e CompanionBridgeHost option \<Rightarrow> 'e \<Rightarrow> byte list \<Rightarrow> byte" where
  "channel_index host e conversation =
     (case host of
        None \<Rightarrow> 0xFF
      | Some h \<Rightarrow>
          (case first_index (\<lambda>ci. case h_getChannel (h_tables h) ci e of
                                     None \<Rightarrow> False
                                   | Some ch \<Rightarrow> strncmp_eq (ch_name ch) conversation 32) [0..<h_channelCount (h_tables h) e] of
             None \<Rightarrow> 0xFF
           | Some ci \<Rightarrow> word_of_nat ci))"

definition message_head :: "byte \<Rightarrow> byte \<Rightarrow> StoredMessage \<Rightarrow> byte list" where
  "message_head ver channel_idx m =
     (if sm_is_channel m then
        (if ver \<ge> 3 then [RESP_CODE_CHANNEL_MSG_RECV_V3, sm_snr_quarters m, 0, 0] else [RESP_CODE_CHANNEL_MSG_RECV]) @
        [channel_idx, sm_path_len m, sm_txt_type m] @ put_u32 (sm_timestamp m)
      else
        (if ver \<ge> 3 then [RESP_CODE_CONTACT_MSG_RECV_V3, sm_snr_quarters m, 0, 0] else [RESP_CODE_CONTACT_MSG_RECV]) @
        take SIGURDOS_COMPANION_PUB_KEY_PREFIX_SIZE (sm_sender_prefix m) @ [sm_path_len m, sm_txt_type m] @
        put_u32 (sm_timestamp m) @
        (if sm_txt_type m = COMPANION_TXT_SIGNED_PLAIN \<and> sm_extra_len m \<ge> 4 then take 4 (sm_extra m) else []))"

definition message_frame :: "nat \<Rightarrow> byte \<Rightarrow> byte \<Rightarrow> StoredMessage \<Rightarrow> byte list" where
  "message_frame mfs ver channel_idx m =
     (let head = message_head ver channel_idx m;
          tlen = boundedTextLen (sm_text m) 159;
          tlen = (if length head + tlen > mfs then mfs - length head else tlen)
      in head @ take tlen (sm_text m))"

text \<open>
  The second argument is the protocol version in force; the code stores the version of the
  session it builds for in \<open>_app_target_ver\<close> for the duration of the call.
\<close>

definition buildMessageFrame :: "StoredMessage \<Rightarrow> byte \<Rightarrow> ('e, byte list) br" where
  "buildMessageFrame m ver = do {
     mfs \<leftarrow> max_frame;
     ci \<leftarrow> gets (\<lambda>b. channel_index (b_host b) (b_env b) (sm_conversation m));
     ret (message_frame mfs ver ci m) }"

definition tickle :: "('e, unit) br" where
  "tickle = do { _ \<leftarrow> sendPushFrame [PUSH_CODE_MSG_WAITING]; ret () }"

definition session_live :: "nat \<Rightarrow> ('e, bool) br" where
  "session_live i = do {
     s \<leftarrow> gets (\<lambda>b. b_transport_sessions b ! i);
     linked_look (\<lambda>l e. ts_used s \<and> l_client_connected l (ts_id s) (ts_client_index s) e) }"

definition enqueue_for_session :: "StoredMessage \<Rightarrow> bool \<Rightarrow> nat \<Rightarrow> ('e, bool) br" where
  "enqueue_for_session m persistent i = do {
     ver \<leftarrow> gets (\<lambda>b. app_target_ver (b_transport_sessions b ! i));
     frame \<leftarrow> buildMessageFrame m ver;
     add_to_session_queue i (sm_store_id m) persistent frame }"

definition refill_message :: "StoredMessage \<Rightarrow> ('e, bool) br" where
  "refill_message m =
     (if sm_is_self m then ret False
      else do {
        ver \<leftarrow> gets app_target_ver;
        frame \<leftarrow> buildMessageFrame m ver;
        own \<leftarrow> addToOfflineQueue (sm_store_id m) True frame;
        share \<leftarrow> gets (\<lambda>b. b_transport_request_active b \<and> l_attached (b_linked b) (b_env b));
        others \<leftarrow> (if share then do {
             n \<leftarrow> gets (\<lambda>b. length (b_transport_sessions b));
             any_of (\<lambda>i. do {
               active \<leftarrow> gets b_active_session;
               live \<leftarrow> session_live i;
               if active = Some i \<or> \<not> live then ret False else enqueue_for_session m True i }) [0..<n] }
           else ret False);
        ret (own \<or> others) })"

definition refillOfflineQueueFromStore :: "bool \<Rightarrow> ('e, bool) br" where
  "refillOfflineQueueFromStore notify_waiting = do {
     busy \<leftarrow> gets (\<lambda>b. length (offline b) > 0);
     if busy then ret False
     else do {
       snapshot \<leftarrow> linked_env (\<lambda>l. l_loadUnsent l OFFLINE_QUEUE_SIZE);
       added_any \<leftarrow> any_of refill_message snapshot;
       connected \<leftarrow> isConnected;
       (if added_any \<and> notify_waiting \<and> connected then tickle else ret ());
       ret added_any } }"

text \<open>
  \<open>enqueueMessage\<close> and \<open>enqueueChannelData\<close> share the choice of the queue: every live session's, or
  the bridge's own when a session is active, none is live or no registry is attached.
\<close>

definition enqueue_to_sessions :: "(nat \<Rightarrow> ('e, bool) br) \<Rightarrow> ('e, bool) br \<Rightarrow> ('e, bool) br" where
  "enqueue_to_sessions per_session own = do {
     fanout \<leftarrow> gets (\<lambda>b. l_attached (b_linked b) (b_env b) \<and> b_active_session b = None);
     if fanout then do {
       n \<leftarrow> gets (\<lambda>b. length (b_transport_sessions b));
       live_session \<leftarrow> any_of session_live [0..<n];
       if live_session then any_of (\<lambda>i. do { live \<leftarrow> session_live i; if live then per_session i else ret False }) [0..<n]
       else own }
     else own }"

definition enqueueMessage :: "StoredMessage \<Rightarrow> ('e, bool) br" where
  "enqueueMessage m =
     (if sm_is_self m then ret False
      else do {
        let persistent = sm_store_id m \<noteq> 0;
        added \<leftarrow> enqueue_to_sessions (enqueue_for_session m persistent)
          (do { ver \<leftarrow> gets app_target_ver;
                frame \<leftarrow> buildMessageFrame m ver;
                addToOfflineQueue (sm_store_id m) persistent frame });
        connected \<leftarrow> isConnected;
        (if added \<and> connected then tickle else ret ());
        ret (added \<or> sm_store_id m \<noteq> 0) })"

definition channel_data_frame :: "byte \<Rightarrow> byte \<Rightarrow> byte \<Rightarrow> u16 \<Rightarrow> byte list \<Rightarrow> byte list" where
  "channel_data_frame channel_idx snr_quarters path_len data_type payload =
     [RESP_CODE_CHANNEL_DATA_RECV, snr_quarters, 0, 0, channel_idx, path_len, ucast (data_type AND 0xFF),
      ucast (drop_bit 8 data_type), word_of_nat (length payload)] @ payload"

definition enqueueChannelData :: "byte \<Rightarrow> byte \<Rightarrow> byte \<Rightarrow> u16 \<Rightarrow> byte list \<Rightarrow> ('e, bool) br" where
  "enqueueChannelData channel_idx snr_quarters path_len data_type payload = do {
     mfs \<leftarrow> max_frame;
     if length payload > mfs - 9 then ret False
     else if data_type = 0 \<or> pathByteLen path_len = None then ret False
     else do {
       let frame = channel_data_frame channel_idx snr_quarters path_len data_type payload;
       added \<leftarrow> enqueue_to_sessions (\<lambda>i. add_to_session_queue i 0 False frame) (addToOfflineQueue 0 False frame);
       connected \<leftarrow> isConnected;
       (if added \<and> connected then tickle else ret ());
       ret added } }"

definition notifySendConfirmed :: "u32 \<Rightarrow> u32 \<Rightarrow> ('e, bool) br" where
  "notifySendConfirmed ack trip_time_ms = do {
     connected \<leftarrow> isConnected;
     if \<not> connected then ret False
     else sendPushFrame ([PUSH_CODE_SEND_CONFIRMED] @ put_u32 ack @ put_u32 trip_time_ms) }"

definition reset_identity_session :: "nat \<Rightarrow> ('e, unit) br" where
  "reset_identity_session i = do {
     mfs \<leftarrow> max_frame;
     s \<leftarrow> gets (\<lambda>b. b_transport_sessions b ! i);
     if \<not> ts_used s then ret ()
     else do {
       connected \<leftarrow> linked_look (\<lambda>l e. l_client_connected l (ts_id s) (ts_client_index s) e);
       put_session i ((fresh_for mfs (ts_id s) (ts_client_index s) (ts_generation s))\<lparr>was_connected := connected\<rparr>) } }"

definition onIdentityChanged :: "('e, unit) br" where
  "onIdentityChanged = do {
     modify (\<lambda>b. b\<lparr>contact_iter := -1, iter_filter_since := 0, most_recent_lastmod := 0, offline := []\<rparr>);
     clearSigningState;
     clearPendingBinary;
     n \<leftarrow> gets (\<lambda>b. length (b_transport_sessions b));
     for_each reset_identity_session [0..<n] }"

section \<open>Pushes of the mesh side\<close>

definition when_connected :: "bool \<Rightarrow> ('e, bool) br \<Rightarrow> ('e, bool) br" where
  "when_connected ok m = do { connected \<leftarrow> isConnected; if \<not> connected \<or> \<not> ok then ret False else m }"

definition pushAdvert :: "CompanionContact \<Rightarrow> bool \<Rightarrow> ('e, bool) br" where
  "pushAdvert contact is_new = when_connected True
     (if is_new then writeContactFrame PUSH_CODE_NEW_ADVERT contact False
      else sendPushFrame ([PUSH_CODE_ADVERT] @ cc_pub_key contact))"

definition pushPathUpdated :: "CompanionContact \<Rightarrow> ('e, bool) br" where
  "pushPathUpdated contact = when_connected True (sendPushFrame ([PUSH_CODE_PATH_UPDATED] @ cc_pub_key contact))"

definition path_discovery_frame :: "byte list \<Rightarrow> byte list \<Rightarrow> byte \<Rightarrow> byte list \<Rightarrow> byte \<Rightarrow> byte list" where
  "path_discovery_frame pk in_path in_path_len out_path out_path_len =
     [PUSH_CODE_PATH_DISCOVERY_RESPONSE, 0] @ take SIGURDOS_COMPANION_PUB_KEY_PREFIX_SIZE pk @
     [out_path_len] @ take (byteCount out_path_len) out_path @ [in_path_len] @ take (byteCount in_path_len) in_path"

definition pushPathDiscoveryResponse :: "byte list option \<Rightarrow> byte list option \<Rightarrow> byte \<Rightarrow> byte list option \<Rightarrow> byte \<Rightarrow> ('e, bool) br" where
  "pushPathDiscoveryResponse pubkey_prefix in_path in_path_len out_path out_path_len = do {
     mfs \<leftarrow> max_frame;
     when_connected (pubkey_prefix \<noteq> None \<and> encodedLengthValid in_path_len \<and> encodedLengthValid out_path_len)
       (let in_bytes = byteCount in_path_len; out_bytes = byteCount out_path_len
        in if (in_bytes > 0 \<and> in_path = None) \<or> (out_bytes > 0 \<and> out_path = None) \<or> 10 + in_bytes + out_bytes > mfs then ret False
           else sendPushFrame (path_discovery_frame (the pubkey_prefix) (case in_path of None \<Rightarrow> [] | Some p \<Rightarrow> p) in_path_len
                  (case out_path of None \<Rightarrow> [] | Some p \<Rightarrow> p) out_path_len)) }"

definition pushContactDeleted :: "byte list option \<Rightarrow> ('e, bool) br" where
  "pushContactDeleted pub_key = when_connected (pub_key \<noteq> None)
     (sendPushFrame ([PUSH_CODE_CONTACT_DELETED] @ take SIGURDOS_COMPANION_PUB_KEY_SIZE (the pub_key)))"

definition pushContactsFull :: "('e, bool) br" where
  "pushContactsFull = when_connected True (sendPushFrame [PUSH_CODE_CONTACTS_FULL])"

definition pushLoginResult :: "byte list option \<Rightarrow> bool \<Rightarrow> byte \<Rightarrow> u32 \<Rightarrow> byte \<Rightarrow> byte \<Rightarrow> bool \<Rightarrow> ('e, bool) br" where
  "pushLoginResult pubkey_prefix success permission tag acl_permissions firmware_level legacy_success =
     when_connected (pubkey_prefix \<noteq> None) (sendPushFrame
       ([if success then PUSH_CODE_LOGIN_SUCCESS else PUSH_CODE_LOGIN_FAIL, if success then permission else 0] @
        take SIGURDOS_COMPANION_PUB_KEY_PREFIX_SIZE (the pubkey_prefix) @
        (if success \<and> \<not> legacy_success then put_u32 tag @ [acl_permissions, firmware_level] else [])))"

definition push_blob :: "byte \<Rightarrow> byte list option \<Rightarrow> byte list \<Rightarrow> ('e, bool) br" where
  "push_blob code pubkey_prefix blob = do {
     mfs \<leftarrow> max_frame;
     when_connected (pubkey_prefix \<noteq> None \<and> length blob \<le> mfs - 2 - SIGURDOS_COMPANION_PUB_KEY_PREFIX_SIZE)
       (sendPushFrame ([code, 0] @ take SIGURDOS_COMPANION_PUB_KEY_PREFIX_SIZE (the pubkey_prefix) @ blob)) }"

definition pushStatusResponse :: "byte list option \<Rightarrow> byte list \<Rightarrow> ('e, bool) br" where
  "pushStatusResponse pubkey_prefix blob = push_blob PUSH_CODE_STATUS_RESPONSE pubkey_prefix blob"

definition pushTelemetryResponse :: "byte list option \<Rightarrow> byte list \<Rightarrow> ('e, bool) br" where
  "pushTelemetryResponse pubkey_prefix blob = push_blob PUSH_CODE_TELEMETRY_RESPONSE pubkey_prefix blob"

text \<open>
  The pending requests with a tag, over all sessions that are connected in the generation they
  were opened in; the active session's requests are the bridge's own copy.
\<close>

definition session_requests :: "'e bridge \<Rightarrow> nat \<Rightarrow> PendingBinaryRequest list" where
  "session_requests b i = (if b_active_session b = Some i then pending_binary b else pending_binary (b_transport_sessions b ! i))"

definition session_current :: "'e bridge \<Rightarrow> nat \<Rightarrow> bool" where
  "session_current b i \<longleftrightarrow>
     (let s = b_transport_sessions b ! i; g = l_client_generation (b_linked b) (ts_id s) (ts_client_index s) (b_env b)
      in ts_used s \<and> l_client_connected (b_linked b) (ts_id s) (ts_client_index s) (b_env b) \<and> g \<noteq> 0 \<and> g = ts_generation s)"

definition binary_owners :: "'e bridge \<Rightarrow> u32 \<Rightarrow> (nat \<times> nat) list" where
  "binary_owners b tag = concat (map (\<lambda>i. if session_current b i
       then map (Pair i) (filter (\<lambda>k. pb_tag (session_requests b i ! k) = tag) [0..<length (session_requests b i)])
       else []) [0..<length (b_transport_sessions b)])"

definition binary_frame :: "u32 \<Rightarrow> byte list \<Rightarrow> byte list" where
  "binary_frame tag blob = [PUSH_CODE_BINARY_RESPONSE, 0] @ put_u32 tag @ blob"

definition clear_request :: "nat \<Rightarrow> nat \<Rightarrow> ('e, unit) br" where
  "clear_request i k = modify (\<lambda>b. if b_active_session b = Some i
       then b\<lparr>pending_binary := (pending_binary b)[k := no_request]\<rparr>
       else b\<lparr>b_transport_sessions := (b_transport_sessions b)[i := (b_transport_sessions b ! i)
              \<lparr>pending_binary := (pending_binary (b_transport_sessions b ! i))[k := no_request]\<rparr>]\<rparr>)"

definition push_to_owner :: "u32 \<Rightarrow> byte list \<Rightarrow> nat \<times> nat \<Rightarrow> ('e, bool) br" where
  "push_to_owner tag blob owner = (case owner of (i, k) \<Rightarrow> do {
     s \<leftarrow> gets (\<lambda>b. b_transport_sessions b ! i);
     same \<leftarrow> linked_look (\<lambda>l e. l_client_connected l (ts_id s) (ts_client_index s) e \<and>
                l_client_generation l (ts_id s) (ts_client_index s) e = ts_generation s);
     if \<not> same then ret False
     else do {
       written \<leftarrow> linked_env (\<lambda>l. l_send_to_result l (ts_id s) (ts_client_index s) (binary_frame tag blob));
       if \<not> written then drop_push
       else do { clear_request i k; ret True } } })"

definition pushBinaryResponse :: "u32 \<Rightarrow> byte list \<Rightarrow> ('e, bool) br" where
  "pushBinaryResponse tag blob = do {
     expirePendingBinary;
     mfs \<leftarrow> max_frame;
     if tag = 0 \<or> 6 + length blob > mfs then ret False
     else do {
       att \<leftarrow> linked_look l_attached;
       if att then do {
         owners \<leftarrow> gets (\<lambda>b. binary_owners b tag);
         case owners of [owner] \<Rightarrow> push_to_owner tag blob owner | _ \<Rightarrow> ret False }
       else do {
         pending \<leftarrow> gets (\<lambda>b. findPendingBinary tag (pending_binary b));
         connected \<leftarrow> isConnected;
         case pending of
           None \<Rightarrow> ret False
         | Some k \<Rightarrow>
             if \<not> connected then ret False
             else do {
               written \<leftarrow> sendPushFrame (binary_frame tag blob);
               if \<not> written then ret False
               else do {
                 modify (\<lambda>b. b\<lparr>pending_binary := (pending_binary b)[k := no_request]\<rparr>);
                 ret True } } } } }"

definition pushRawData :: "byte \<Rightarrow> byte \<Rightarrow> byte list \<Rightarrow> ('e, bool) br" where
  "pushRawData snr_quarters rssi payload = do {
     mfs \<leftarrow> max_frame;
     when_connected (length payload \<le> mfs - 4) (sendPushFrame ([PUSH_CODE_RAW_DATA, snr_quarters, rssi, 0xFF] @ payload)) }"

definition pushControlData :: "byte \<Rightarrow> byte \<Rightarrow> byte \<Rightarrow> byte list \<Rightarrow> ('e, bool) br" where
  "pushControlData snr_quarters rssi path_len payload = do {
     mfs \<leftarrow> max_frame;
     when_connected (length payload \<le> mfs - 4) (sendPushFrame ([PUSH_CODE_CONTROL_DATA, snr_quarters, rssi, path_len] @ payload)) }"

definition pushTraceData :: "u32 \<Rightarrow> u32 \<Rightarrow> byte \<Rightarrow> byte list option \<Rightarrow> byte list option \<Rightarrow> byte \<Rightarrow> byte \<Rightarrow> ('e, bool) br" where
  "pushTraceData tag auth flags path_hashes path_snrs path_len final_snr_quarters = do {
     mfs \<leftarrow> max_frame;
     let hash_size = 2 ^ unat (flags AND 0x03);
     let n = unat path_len;
     let snr_count = n div hash_size;
     when_connected (\<not> (n > MAX_ENCODED_PATH_BYTES \<or> n mod hash_size \<noteq> 0 \<or> (n > 0 \<and> path_hashes = None) \<or>
         (snr_count > 0 \<and> path_snrs = None) \<or> 12 + n + snr_count + 1 > mfs))
       (sendPushFrame ([PUSH_CODE_TRACE_DATA, 0, path_len, flags] @ put_u32 tag @ put_u32 auth @
          (case path_hashes of None \<Rightarrow> [] | Some h \<Rightarrow> take n h) @ (case path_snrs of None \<Rightarrow> [] | Some q \<Rightarrow> take snr_count q) @
          [final_snr_quarters])) }"

text \<open>A call of the mesh side; the caller drops the result.\<close>

definition ignore :: "('e, 'a) br \<Rightarrow> ('e, unit) br" where
  "ignore m = do { _ \<leftarrow> m; ret () }"

fun run_call :: "bridge_call \<Rightarrow> ('e, unit) br" where
  "run_call (Call_enqueueMessage m) = ignore (enqueueMessage m)"
| "run_call (Call_enqueueChannelData ci snr pl dt payload) = ignore (enqueueChannelData ci snr pl dt payload)"
| "run_call (Call_notifySendConfirmed ack t) = ignore (notifySendConfirmed ack t)"
| "run_call Call_onIdentityChanged = onIdentityChanged"
| "run_call (Call_setEnabled on) = ignore (setEnabled on)"
| "run_call (Call_pushAdvert c is_new) = ignore (pushAdvert c is_new)"
| "run_call (Call_pushPathUpdated c) = ignore (pushPathUpdated c)"
| "run_call (Call_pushPathDiscoveryResponse pk ip il op ol) = ignore (pushPathDiscoveryResponse pk ip il op ol)"
| "run_call (Call_pushContactDeleted pk) = ignore (pushContactDeleted pk)"
| "run_call Call_pushContactsFull = ignore pushContactsFull"
| "run_call (Call_pushLoginResult pk su pe tag acl fw leg) = ignore (pushLoginResult pk su pe tag acl fw leg)"
| "run_call (Call_pushStatusResponse pk blob) = ignore (pushStatusResponse pk blob)"
| "run_call (Call_pushTelemetryResponse pk blob) = ignore (pushTelemetryResponse pk blob)"
| "run_call (Call_pushBinaryResponse tag blob) = ignore (pushBinaryResponse tag blob)"
| "run_call (Call_pushRawData snr rssi payload) = ignore (pushRawData snr rssi payload)"
| "run_call (Call_pushControlData snr rssi pl payload) = ignore (pushControlData snr rssi pl payload)"
| "run_call (Call_pushTraceData tag auth fl hs qs pl fin) = ignore (pushTraceData tag auth fl hs qs pl fin)"

text \<open>A host function, followed by the calls it made into the bridge.\<close>

definition host_call :: "('e, 'a) host_op \<Rightarrow> ('e, 'a) br" where
  "host_call f = do { r \<leftarrow> env f; for_each run_call (snd r); ret (fst r) }"

end
