(* ===== verification/BridgeCommands.thy ===== *)
theory BridgeCommands
  imports CompanionBridge
begin

text \<open>
  The command dispatcher of the companion bridge: \<open>CompanionBridge::handleFrame\<close> with one
  definition per command, the routing of frames to transport sessions, and the service loops.

  A command definition takes the host \<open>h\<close>, the command buffer \<open>f\<close> (the received bytes, then a
  terminating zero) and the number \<open>len\<close> of received bytes, and sends its response itself.
\<close>

definition slice :: "byte list \<Rightarrow> nat \<Rightarrow> nat \<Rightarrow> byte list" where
  "slice f i n = take n (drop i f)"

definition ok_or :: "byte \<Rightarrow> ('e, bool) br \<Rightarrow> ('e, unit) br" where
  "ok_or err m = do { r \<leftarrow> m; if r then writeOKFrame else writeErrFrame err }"

definition pub_key_at :: "byte list \<Rightarrow> nat \<Rightarrow> byte list" where
  "pub_key_at f i = slice f i SIGURDOS_COMPANION_PUB_KEY_SIZE"

section \<open>Session, contacts and messages\<close>

definition device_info_frame :: "'e bridge \<Rightarrow> 'e CompanionBridgeHost \<Rightarrow> byte list" where
  "device_info_frame b h =
     [RESP_CODE_DEVICE_INFO, SIGURDOS_COMPANION_FIRMWARE_VER_CODE, word_of_nat (l_MAX_CONTACTS (b_linked b) div 2), 8] @
     put_u32 (h_blePin (h_status h) (b_env b)) @ strzcpy (Some (l_BUILD_DATE (b_linked b))) 12 @
     strzcpy (Some MANUFACTURER) 40 @ strzcpy (Some (l_FIRMWARE_VERSION (b_linked b))) 20 @
     [h_clientRepeat (h_status h) (b_env b), h_pathHashMode (h_status h) (b_env b)]"

definition do_device_query :: "'e CompanionBridgeHost \<Rightarrow> byte list \<Rightarrow> ('e, unit) br" where
  "do_device_query h f = do {
     modify (\<lambda>b. b\<lparr>app_target_ver := f ! 1, version_negotiated := True, offline := []\<rparr>);
     fr \<leftarrow> gets (\<lambda>b. device_info_frame b h);
     respond fr }"

definition self_info_frame :: "nat \<Rightarrow> CompanionSelfInfo \<Rightarrow> byte list" where
  "self_info_frame mfs si =
     (let head = [RESP_CODE_SELF_INFO, si_advert_type si, si_tx_power_dbm si, si_max_tx_power_dbm si] @ si_pub_key si @
            put_u32 (si_lat si) @ put_u32 (si_lon si) @
            [si_multi_acks si, si_advert_loc_policy si, si_telemetry_modes si, si_manual_add_contacts si] @
            put_u32 (si_freq_khz si) @ put_u32 (si_bw_hz si) @ [si_sf si, si_cr si];
          nlen = boundedTextLen (si_node_name si) 31;
          nlen = (if length head + nlen > mfs then mfs - length head else nlen)
      in head @ take nlen (si_node_name si))"

definition do_app_start :: "'e CompanionBridgeHost \<Rightarrow> ('e, unit) br" where
  "do_app_start h = do {
     modify (\<lambda>b. b\<lparr>contact_iter := -1\<rparr>);
     si \<leftarrow> look (h_selfInfo (h_status h));
     mfs \<leftarrow> max_frame;
     respond (self_info_frame mfs si);
     ignore (refillOfflineQueueFromStore True) }"

definition do_get_contacts :: "'e CompanionBridgeHost \<Rightarrow> byte list \<Rightarrow> nat \<Rightarrow> ('e, unit) br" where
  "do_get_contacts h f len = do {
     iterating \<leftarrow> gets (\<lambda>b. contact_iter b \<ge> 0);
     if iterating then writeErrFrame ERR_CODE_BAD_STATE
     else do {
       modify (\<lambda>b. b\<lparr>iter_filter_since := (if len \<ge> 5 then get_u32 f 1 else 0)\<rparr>);
       count \<leftarrow> look (h_contactCount (h_tables h));
       respond ([RESP_CODE_CONTACTS_START] @ put_u32 (word_of_nat count));
       modify (\<lambda>b. b\<lparr>contact_iter := 0, most_recent_lastmod := 0\<rparr>) } }"

text \<open>The implicit acknowledgement of \<open>CMD_SYNC_NEXT_MESSAGE\<close>, then the next message.\<close>

definition ack_inflight :: "('e, unit) br" where
  "ack_inflight = do {
     sid \<leftarrow> gets inflight_store_id;
     if sid = 0 then ret ()
     else do {
       same \<leftarrow> gets (\<lambda>b. connection_generation b \<noteq> 0 \<and> inflight_generation b = connection_generation b \<and>
                 (case offline b of [] \<Rightarrow> False | q # _ \<Rightarrow> fr_persistent q \<and> fr_store_id q = sid));
       marked \<leftarrow> (if same then linked_env (\<lambda>l. l_markCompanionSent l sid) else ret False);
       (if marked then removeFirstOfflineFrame else ret ());
       clearInflightMessage } }"

definition deliver_next :: "('e, unit) br" where
  "deliver_next = do {
     nxt \<leftarrow> peekOfflineQueue;
     case nxt of
       None \<Rightarrow> writeNoMoreMessages
     | Some q \<Rightarrow> do {
         written \<leftarrow> writeFrameToCurrentTransport (fr_buf q);
         if \<not> written then ret ()
         else if fr_persistent q then
           modify (\<lambda>b. b\<lparr>inflight_store_id := fr_store_id q, inflight_generation := connection_generation b\<rparr>)
         else removeFirstOfflineFrame } }"

definition do_sync_next_message :: "'e CompanionBridgeHost \<Rightarrow> ('e, unit) br" where
  "do_sync_next_message h = do {
     modify (\<lambda>b. b\<lparr>b_last_sync_time := h_currentTime (h_status h) (b_env b)\<rparr>);
     negotiated \<leftarrow> gets version_negotiated;
     if \<not> negotiated then writeErrFrame ERR_CODE_BAD_STATE
     else do {
       ack_inflight;
       empty \<leftarrow> gets (\<lambda>b. offline b = []);
       (if empty then ignore (refillOfflineQueueFromStore False) else ret ());
       deliver_next } }"

definition do_send_txt_msg :: "'e CompanionBridgeHost \<Rightarrow> byte list \<Rightarrow> ('e, unit) br" where
  "do_send_txt_msg h f =
     (if f ! 1 \<noteq> COMPANION_TXT_PLAIN \<and> f ! 1 \<noteq> COMPANION_TXT_CLI_DATA then writeErrFrame ERR_CODE_UNSUPPORTED_CMD
      else do {
        r \<leftarrow> host_call (h_sendTextByPubKeyPrefix (h_radio h) (slice f 7 SIGURDOS_COMPANION_PUB_KEY_PREFIX_SIZE)
                (f ! 1) (f ! 2) (get_u32 f 3) (cstr (drop 13 f)));
        if \<not> sr_ok r then writeErrFrame ERR_CODE_NOT_FOUND else respond (sent_frame r) })"

definition do_send_channel_txt_msg :: "'e CompanionBridgeHost \<Rightarrow> byte list \<Rightarrow> ('e, unit) br" where
  "do_send_channel_txt_msg h f =
     (if f ! 1 \<noteq> COMPANION_TXT_PLAIN then writeErrFrame ERR_CODE_UNSUPPORTED_CMD
      else do {
        r \<leftarrow> host_call (h_sendChannelText (h_radio h) (unat (f ! 2)) (get_u32 f 3) (cstr (drop 7 f)));
        if sr_ok r then writeOKFrame else writeErrFrame ERR_CODE_NOT_FOUND })"

definition do_send_channel_data :: "'e CompanionBridgeHost \<Rightarrow> byte list \<Rightarrow> nat \<Rightarrow> ('e, unit) br" where
  "do_send_channel_data h f len =
     (if len < 5 then writeErrFrame ERR_CODE_ILLEGAL_ARG
      else case pathByteLen (f ! 2) of
        None \<Rightarrow> writeErrFrame ERR_CODE_ILLEGAL_ARG
      | Some path_bytes \<Rightarrow>
          if 3 + path_bytes + 2 > len then writeErrFrame ERR_CODE_ILLEGAL_ARG
          else do {
            mfs \<leftarrow> max_frame;
            let path = (if f ! 2 \<noteq> COMPANION_OUT_PATH_UNKNOWN then Some (slice f 3 path_bytes) else None);
            let data_type = get_u16 f (3 + path_bytes);
            let payload = slice f (3 + path_bytes + 2) (len - (3 + path_bytes + 2));
            if data_type = 0 \<or> length payload > mfs - 9 then writeErrFrame ERR_CODE_ILLEGAL_ARG
            else ok_or ERR_CODE_NOT_FOUND
              (host_call (h_sendChannelData (h_radio h) (unat (f ! 1)) path (f ! 2) data_type payload)) })"

section \<open>Node settings\<close>

definition do_get_device_time :: "'e CompanionBridgeHost \<Rightarrow> ('e, unit) br" where
  "do_get_device_time h = do {
     now \<leftarrow> look (h_currentTime (h_status h));
     respond ([RESP_CODE_CURR_TIME] @ put_u32 now) }"

definition do_set_device_time :: "'e CompanionBridgeHost \<Rightarrow> byte list \<Rightarrow> ('e, unit) br" where
  "do_set_device_time h f = do {
     now \<leftarrow> look (h_currentTime (h_status h));
     if get_u32 f 1 \<ge> now then ok_or ERR_CODE_ILLEGAL_ARG (host_call (h_setCurrentTime (h_settings h) (get_u32 f 1)))
     else writeErrFrame ERR_CODE_ILLEGAL_ARG }"

definition do_get_batt_and_storage :: "'e CompanionBridgeHost \<Rightarrow> ('e, unit) br" where
  "do_get_batt_and_storage h = do {
     mv \<leftarrow> look (h_batteryMilliVolts (h_status h));
     used \<leftarrow> look (h_storageUsedKb (h_status h));
     total \<leftarrow> look (h_storageTotalKb (h_status h));
     respond ([RESP_CODE_BATT_AND_STORAGE] @ put_u16 mv @ put_u32 used @ put_u32 total) }"

definition do_set_advert_name :: "'e CompanionBridgeHost \<Rightarrow> byte list \<Rightarrow> nat \<Rightarrow> ('e, unit) br" where
  "do_set_advert_name h f len =
     (if len < 2 then writeErrFrame ERR_CODE_ILLEGAL_ARG
      else ok_or ERR_CODE_ILLEGAL_ARG (host_call (h_setAdvertName (h_settings h) (cstr (drop 1 f)))))"

definition do_set_advert_latlon :: "'e CompanionBridgeHost \<Rightarrow> byte list \<Rightarrow> nat \<Rightarrow> ('e, unit) br" where
  "do_set_advert_latlon h f len =
     (if len < 9 then writeErrFrame ERR_CODE_ILLEGAL_ARG
      else ok_or ERR_CODE_ILLEGAL_ARG (host_call (h_setAdvertLatLon (h_settings h) (get_u32 f 1) (get_u32 f 5))))"

definition do_set_radio_params :: "'e CompanionBridgeHost \<Rightarrow> byte list \<Rightarrow> nat \<Rightarrow> ('e, unit) br" where
  "do_set_radio_params h f len =
     (if len < 11 then writeErrFrame ERR_CODE_ILLEGAL_ARG
      else ok_or ERR_CODE_ILLEGAL_ARG (host_call (h_setRadioParams (h_settings h) (get_u32 f 1) (get_u32 f 5) (f ! 9) (f ! 10)
             (if len > 11 then f ! 11 else 0))))"

definition do_set_radio_tx_power :: "'e CompanionBridgeHost \<Rightarrow> byte list \<Rightarrow> nat \<Rightarrow> ('e, unit) br" where
  "do_set_radio_tx_power h f len =
     (if len < 2 then writeErrFrame ERR_CODE_ILLEGAL_ARG
      else ok_or ERR_CODE_ILLEGAL_ARG (host_call (h_setRadioTxPower (h_settings h) (f ! 1))))"

definition do_set_tuning_params :: "'e CompanionBridgeHost \<Rightarrow> byte list \<Rightarrow> nat \<Rightarrow> ('e, unit) br" where
  "do_set_tuning_params h f len =
     (if len < 9 then writeErrFrame ERR_CODE_ILLEGAL_ARG
      else ok_or ERR_CODE_ILLEGAL_ARG (host_call (h_setTuningParams (h_settings h) (get_u32 f 1) (get_u32 f 5))))"

definition do_get_tuning_params :: "'e CompanionBridgeHost \<Rightarrow> ('e, unit) br" where
  "do_get_tuning_params h = do {
     p \<leftarrow> look (h_tuningParams (h_status h));
     respond ([RESP_CODE_TUNING_PARAMS] @ put_u32 (fst p) @ put_u32 (snd p)) }"

definition do_send_self_advert :: "'e CompanionBridgeHost \<Rightarrow> byte list \<Rightarrow> nat \<Rightarrow> ('e, unit) br" where
  "do_send_self_advert h f len = ok_or ERR_CODE_TABLE_FULL (host_call (h_sendAdvert (h_radio h) (len \<ge> 2 \<and> f ! 1 = 1)))"

definition do_get_channel :: "'e CompanionBridgeHost \<Rightarrow> byte list \<Rightarrow> ('e, unit) br" where
  "do_get_channel h f = do {
     ch \<leftarrow> look (h_getChannel (h_tables h) (unat (f ! 1)));
     case ch of
       None \<Rightarrow> writeErrFrame ERR_CODE_NOT_FOUND
     | Some ch \<Rightarrow> respond ([RESP_CODE_CHANNEL_INFO, f ! 1] @ strzcpy (Some (ch_name ch)) 32 @ take 16 (ch_secret ch)) }"

definition do_set_channel :: "'e CompanionBridgeHost \<Rightarrow> byte list \<Rightarrow> ('e, unit) br" where
  "do_set_channel h f = ok_or ERR_CODE_NOT_FOUND (host_call (h_setChannel (h_settings h) (unat (f ! 1))
     \<lparr>ch_name = strzcpy (Some (drop 2 f)) 32, ch_secret = pad_to 32 (slice f (2 + 32) 16)\<rparr>))"

definition do_set_device_pin :: "'e CompanionBridgeHost \<Rightarrow> byte list \<Rightarrow> ('e, unit) br" where
  "do_set_device_pin h f =
     (if companionBlePinValid (get_u32 f 1) then ok_or ERR_CODE_ILLEGAL_ARG (host_call (h_setBlePin (h_settings h) (get_u32 f 1)))
      else writeErrFrame ERR_CODE_ILLEGAL_ARG)"

definition do_export_private_key :: "'e CompanionBridgeHost \<Rightarrow> ('e, unit) br" where
  "do_export_private_key h =
     (if SIGURDOS_ENABLE_PRIVATE_KEY_EXPORT then do {
        key \<leftarrow> look (h_exportPrivateKey (h_status h));
        case key of None \<Rightarrow> writeDisabledFrame | Some k \<Rightarrow> respond ([RESP_CODE_PRIVATE_KEY] @ k) }
      else writeDisabledFrame)"

definition do_import_private_key :: "'e CompanionBridgeHost \<Rightarrow> byte list \<Rightarrow> ('e, unit) br" where
  "do_import_private_key h f =
     (if SIGURDOS_ENABLE_PRIVATE_KEY_IMPORT
      then ok_or ERR_CODE_ILLEGAL_ARG (host_call (h_importPrivateKey (h_settings h) (slice f 1 64)))
      else writeDisabledFrame)"

definition do_set_other_params :: "'e CompanionBridgeHost \<Rightarrow> byte list \<Rightarrow> nat \<Rightarrow> ('e, unit) br" where
  "do_set_other_params h f len = ok_or ERR_CODE_FILE_IO_ERROR (host_call (h_setOtherParams (h_settings h)
     \<lparr>op_manual_add_contacts = f ! 1,
      op_telemetry_modes = (if len \<ge> 3 then Some (f ! 2) else None),
      op_advert_loc_policy = (if len \<ge> 4 then Some (f ! 3) else None),
      op_multi_acks = (if len \<ge> 5 then Some (f ! 4) else None)\<rparr>))"

definition do_set_path_hash_mode :: "'e CompanionBridgeHost \<Rightarrow> byte list \<Rightarrow> ('e, unit) br" where
  "do_set_path_hash_mode h f =
     (if f ! 2 \<ge> 3 then writeErrFrame ERR_CODE_ILLEGAL_ARG
      else ok_or ERR_CODE_ILLEGAL_ARG (host_call (h_setPathHashMode (h_settings h) (f ! 2))))"

definition do_set_autoadd_config :: "'e CompanionBridgeHost \<Rightarrow> byte list \<Rightarrow> nat \<Rightarrow> ('e, unit) br" where
  "do_set_autoadd_config h f len =
     (let max_hops = (if len \<ge> 3 then f ! 2 else 0);
          max_hops = (if max_hops > 64 then 64 else max_hops)
      in ok_or ERR_CODE_FILE_IO_ERROR (host_call (h_setAutoAddConfig (h_settings h) (f ! 1) max_hops)))"

definition do_get_autoadd_config :: "'e CompanionBridgeHost \<Rightarrow> ('e, unit) br" where
  "do_get_autoadd_config h = do {
     c \<leftarrow> look (h_getAutoAddConfig (h_status h));
     respond [RESP_CODE_AUTOADD_CONFIG, fst c, snd c] }"

section \<open>Contact table and connections\<close>

definition do_get_contact_by_key :: "'e CompanionBridgeHost \<Rightarrow> byte list \<Rightarrow> ('e, unit) br" where
  "do_get_contact_by_key h f = do {
     c \<leftarrow> look (h_getContactByPubKey (h_tables h) (pub_key_at f 1));
     case c of None \<Rightarrow> writeErrFrame ERR_CODE_NOT_FOUND
     | Some c \<Rightarrow> ignore (writeContactFrame RESP_CODE_CONTACT c True) }"

definition do_reset_path :: "'e CompanionBridgeHost \<Rightarrow> byte list \<Rightarrow> ('e, unit) br" where
  "do_reset_path h f = ok_or ERR_CODE_NOT_FOUND (host_call (h_resetPathByPubKey (h_contacts h) (pub_key_at f 1)))"

definition do_remove_contact :: "'e CompanionBridgeHost \<Rightarrow> byte list \<Rightarrow> ('e, unit) br" where
  "do_remove_contact h f = ok_or ERR_CODE_NOT_FOUND (host_call (h_removeContactByPubKey (h_contacts h) (pub_key_at f 1)))"

definition do_share_contact :: "'e CompanionBridgeHost \<Rightarrow> byte list \<Rightarrow> ('e, unit) br" where
  "do_share_contact h f = ok_or ERR_CODE_NOT_FOUND (host_call (h_shareContactByPubKey (h_contacts h) (pub_key_at f 1)))"

definition contact_of_frame :: "byte list \<Rightarrow> nat \<Rightarrow> u32 \<Rightarrow> CompanionContact" where
  "contact_of_frame f len now =
     \<lparr>cc_pub_key = pub_key_at f 1, cc_type = f ! 33, cc_flags = f ! 34, cc_out_path_len = f ! 35,
      cc_out_path = slice f 36 SIGURDOS_COMPANION_PATH_SIZE, cc_name = (slice f 100 32)[31 := 0],
      cc_last_advert_timestamp = get_u32 f 132,
      cc_lastmod = (if len \<ge> 136 + 8 + 4 then get_u32 f 144 else now),
      cc_gps_lat = (if len \<ge> 136 + 8 then get_u32 f 136 else 0),
      cc_gps_lon = (if len \<ge> 136 + 8 then get_u32 f 140 else 0)\<rparr>"

definition do_add_update_contact :: "'e CompanionBridgeHost \<Rightarrow> byte list \<Rightarrow> nat \<Rightarrow> ('e, unit) br" where
  "do_add_update_contact h f len =
     (if \<not> storedLengthValid (f ! 35) then writeErrFrame ERR_CODE_ILLEGAL_ARG
      else do {
        now \<leftarrow> look (h_currentTime (h_status h));
        ok_or ERR_CODE_TABLE_FULL (host_call (h_addOrUpdateContact (h_contacts h) (contact_of_frame f len now))) })"

definition do_export_contact :: "'e CompanionBridgeHost \<Rightarrow> byte list \<Rightarrow> nat \<Rightarrow> ('e, unit) br" where
  "do_export_contact h f len = do {
     mfs \<leftarrow> max_frame;
     let pub_key = (if len \<ge> 1 + SIGURDOS_COMPANION_PUB_KEY_SIZE then Some (pub_key_at f 1) else None);
     out \<leftarrow> host_call (h_exportContactByPubKey (h_contacts h) pub_key (mfs - 1));
     if length out > 0 then respond ([RESP_CODE_EXPORT_CONTACT] @ out)
     else writeErrFrame (if pub_key \<noteq> None then ERR_CODE_NOT_FOUND else ERR_CODE_TABLE_FULL) }"

definition do_import_contact :: "'e CompanionBridgeHost \<Rightarrow> byte list \<Rightarrow> nat \<Rightarrow> ('e, unit) br" where
  "do_import_contact h f len = ok_or ERR_CODE_ILLEGAL_ARG (host_call (h_importContact (h_contacts h) (slice f 1 (len - 1))))"

definition do_has_connection :: "'e CompanionBridgeHost \<Rightarrow> byte list \<Rightarrow> ('e, unit) br" where
  "do_has_connection h f = ok_or ERR_CODE_NOT_FOUND (look (h_hasConnectionTo (h_tables h) (pub_key_at f 1)))"

definition do_logout :: "'e CompanionBridgeHost \<Rightarrow> byte list \<Rightarrow> ('e, unit) br" where
  "do_logout h f = do { host_call (h_logout (h_contacts h) (pub_key_at f 1)); writeOKFrame }"

section \<open>System and statistics\<close>

definition do_factory_reset :: "'e CompanionBridgeHost \<Rightarrow> ('e, unit) br" where
  "do_factory_reset h = do {
     active \<leftarrow> gets b_transport_request_active;
     tid \<leftarrow> gets b_request_transport;
     serial \<leftarrow> gets b_serial;
     (if active then ignore (linked_env (\<lambda>l. l_set_enabled l tid False))
      else case serial of None \<Rightarrow> ret () | Some s \<Rightarrow> env_do (s_disable s));
     ok_or ERR_CODE_FILE_IO_ERROR (host_call (h_factoryReset (h_contacts h))) }"

definition core_stats_frame :: "CompanionCoreStats \<Rightarrow> byte list" where
  "core_stats_frame s = [RESP_CODE_STATS, STATS_TYPE_CORE] @ put_u16 (cs_batt_mv s) @ put_u32 (cs_uptime_secs s) @
     put_u16 (cs_err_flags s) @ [cs_queue_len s]"

definition radio_stats_frame :: "CompanionRadioStats \<Rightarrow> byte list" where
  "radio_stats_frame s = [RESP_CODE_STATS, STATS_TYPE_RADIO] @ put_u16 (rs_noise_floor s) @
     [rs_last_rssi s, rs_last_snr_quarters s] @ put_u32 (rs_tx_air_secs s) @ put_u32 (rs_rx_air_secs s)"

definition packet_stats_frame :: "CompanionPacketStats \<Rightarrow> byte list" where
  "packet_stats_frame s = [RESP_CODE_STATS, STATS_TYPE_PACKETS] @ put_u32 (ps_recv s) @ put_u32 (ps_sent s) @
     put_u32 (ps_sent_flood s) @ put_u32 (ps_sent_direct s) @ put_u32 (ps_recv_flood s) @ put_u32 (ps_recv_direct s) @
     put_u32 (ps_recv_errors s)"

definition do_get_stats :: "'e CompanionBridgeHost \<Rightarrow> byte list \<Rightarrow> ('e, unit) br" where
  "do_get_stats h f =
     (if f ! 1 = STATS_TYPE_CORE then do { s \<leftarrow> look (h_coreStats (h_tables h)); respond (core_stats_frame s) }
      else if f ! 1 = STATS_TYPE_RADIO then do { s \<leftarrow> look (h_radioStats (h_tables h)); respond (radio_stats_frame s) }
      else if f ! 1 = STATS_TYPE_PACKETS then do { s \<leftarrow> look (h_packetStats (h_tables h)); respond (packet_stats_frame s) }
      else writeErrFrame ERR_CODE_ILLEGAL_ARG)"

text \<open>The loop stops at the first value that does not fit: \<open>(MAX_FRAME_SIZE - 1) / 4\<close> values do.\<close>

definition do_get_allowed_repeat_freq :: "'e CompanionBridgeHost \<Rightarrow> ('e, unit) br" where
  "do_get_allowed_repeat_freq h = do {
     mfs \<leftarrow> max_frame;
     pairs \<leftarrow> look (h_allowedRepeatFreqRanges (h_tables h) 8);
     let words = concat (map (\<lambda>p. [fst p, snd p]) pairs);
     respond ([RESP_ALLOWED_REPEAT_FREQ] @ concat (map put_u32 (take ((mfs - 1) div 4) words))) }"

definition do_get_custom_vars :: "'e CompanionBridgeHost \<Rightarrow> ('e, unit) br" where
  "do_get_custom_vars h = do {
     mfs \<leftarrow> max_frame;
     out \<leftarrow> look (h_getCustomVars (h_tables h) (mfs - 1));
     respond ([RESP_CODE_CUSTOM_VARS] @ out) }"

definition COLON :: byte where "COLON = 0x3A"

definition do_set_custom_var :: "'e CompanionBridgeHost \<Rightarrow> byte list \<Rightarrow> ('e, unit) br" where
  "do_set_custom_var h f =
     (let s = cstr (drop 1 f)
      in if COLON \<notin> set s then writeErrFrame ERR_CODE_ILLEGAL_ARG
         else ok_or ERR_CODE_ILLEGAL_ARG (host_call (h_setCustomVar (h_settings h) (takeWhile (\<lambda>c. c \<noteq> COLON) s)
                (tl (dropWhile (\<lambda>c. c \<noteq> COLON) s)))))"

definition do_get_advert_path :: "'e CompanionBridgeHost \<Rightarrow> byte list \<Rightarrow> ('e, unit) br" where
  "do_get_advert_path h f = do {
     mfs \<leftarrow> max_frame;
     r \<leftarrow> look (h_getAdvertPath (h_tables h) (pub_key_at f 2));
     case r of
       None \<Rightarrow> writeErrFrame ERR_CODE_NOT_FOUND
     | Some (path_buf, path_descriptor, path_bytes, timestamp) \<Rightarrow>
         if \<not> encodedLengthValid path_descriptor \<or> path_bytes \<noteq> byteCount path_descriptor \<or>
            path_bytes > SIGURDOS_COMPANION_PATH_SIZE \<or> 1 + 4 + 1 + path_bytes > mfs
         then writeErrFrame ERR_CODE_NOT_FOUND
         else respond ([RESP_CODE_ADVERT_PATH] @ put_u32 timestamp @ [path_descriptor] @ take path_bytes (pad_to 64 path_buf)) }"

definition do_send_path_discovery_req :: "'e CompanionBridgeHost \<Rightarrow> byte list \<Rightarrow> ('e, unit) br" where
  "do_send_path_discovery_req h f = do {
     r \<leftarrow> host_call (h_sendPathDiscovery (h_radio h) (pub_key_at f 2));
     writeSentOrErr r }"

section \<open>Flood scope\<close>

definition do_get_default_flood_scope :: "'e CompanionBridgeHost \<Rightarrow> ('e, unit) br" where
  "do_get_default_flood_scope h = do {
     r \<leftarrow> look (h_getDefaultFloodScope (h_tables h));
     case r of
       Some (name, key) \<Rightarrow> respond ([RESP_CODE_DEFAULT_FLOOD_SCOPE] @ name @ key)
     | None \<Rightarrow> respond [RESP_CODE_DEFAULT_FLOOD_SCOPE] }"

definition do_set_default_flood_scope :: "'e CompanionBridgeHost \<Rightarrow> byte list \<Rightarrow> nat \<Rightarrow> ('e, unit) br" where
  "do_set_default_flood_scope h f len =
     (if len = 1 + 31 + 16 then
        (let nlen = strnlen (slice f 1 31) 31
         in if nlen > 0 \<and> nlen < 31
            then ok_or ERR_CODE_FILE_IO_ERROR (host_call (h_setDefaultFloodScope (h_settings h) (Some (cstr (slice f 1 31), slice f (1 + 31) 16))))
            else writeErrFrame ERR_CODE_ILLEGAL_ARG)
      else if len = 1 then ok_or ERR_CODE_FILE_IO_ERROR (host_call (h_setDefaultFloodScope (h_settings h) None))
      else writeErrFrame ERR_CODE_ILLEGAL_ARG)"

definition do_set_flood_scope_key :: "'e CompanionBridgeHost \<Rightarrow> byte list \<Rightarrow> nat \<Rightarrow> ('e, unit) br" where
  "do_set_flood_scope_key h f len =
     (if len = 2 \<and> f ! 1 = 1 then ok_or ERR_CODE_FILE_IO_ERROR (host_call (h_setFloodScopeOverride (h_settings h) None True))
      else if len \<ge> 2 \<and> f ! 1 = 0 \<and> (len = 2 \<or> len = 2 + 16)
        then ok_or ERR_CODE_FILE_IO_ERROR
          (host_call (h_setFloodScopeOverride (h_settings h) (if len = 2 + 16 then Some (slice f 2 16) else None) False))
      else writeErrFrame ERR_CODE_ILLEGAL_ARG)"

section \<open>Signing\<close>

definition do_sign_start :: "('e, unit) br" where
  "do_sign_start = do {
     clearSigningState;
     modify (\<lambda>b. b\<lparr>sign_active := True\<rparr>);
     respond ([RESP_CODE_SIGN_START, 0] @ put_u32 (word_of_nat SIGURDOS_COMPANION_MAX_SIGN_DATA)) }"

definition do_sign_data :: "byte list \<Rightarrow> nat \<Rightarrow> ('e, unit) br" where
  "do_sign_data f len = do {
     active \<leftarrow> gets sign_active;
     n \<leftarrow> gets sign_len;
     if \<not> active then writeErrFrame ERR_CODE_BAD_STATE
     else if n + (len - 1) > SIGURDOS_COMPANION_MAX_SIGN_DATA then writeErrFrame ERR_CODE_TABLE_FULL
     else do {
       modify (\<lambda>b. b\<lparr>sign_buf := overwrite (sign_buf b) n (slice f 1 (len - 1)), sign_len := n + (len - 1)\<rparr>);
       writeOKFrame } }"

definition do_sign_finish :: "'e CompanionBridgeHost \<Rightarrow> ('e, unit) br" where
  "do_sign_finish h = do {
     active \<leftarrow> gets sign_active;
     if \<not> active then writeErrFrame ERR_CODE_BAD_STATE
     else do {
       data \<leftarrow> gets (\<lambda>b. take (sign_len b) (sign_buf b));
       sig \<leftarrow> host_call (h_signData (h_contacts h) data);
       clearSigningState;
       if length sig > 0 then respond ([RESP_CODE_SIGNATURE] @ sig) else writeErrFrame ERR_CODE_BAD_STATE } }"

section \<open>Requests to other nodes\<close>

definition do_send_login :: "'e CompanionBridgeHost \<Rightarrow> byte list \<Rightarrow> ('e, unit) br" where
  "do_send_login h f = do {
     r \<leftarrow> host_call (h_sendLogin (h_radio h) (pub_key_at f 1) (cstr (drop (1 + SIGURDOS_COMPANION_PUB_KEY_SIZE) f)));
     writeSentOrErr r }"

definition do_send_status_req :: "'e CompanionBridgeHost \<Rightarrow> byte list \<Rightarrow> ('e, unit) br" where
  "do_send_status_req h f = do { r \<leftarrow> host_call (h_sendStatusReq (h_radio h) (pub_key_at f 1)); writeSentOrErr r }"

definition do_self_telemetry :: "'e CompanionBridgeHost \<Rightarrow> ('e, unit) br" where
  "do_self_telemetry h = do {
     blob \<leftarrow> look (h_selfTelemetry (h_tables h));
     si \<leftarrow> look (h_selfInfo (h_status h));
     ignore (pushTelemetryResponse (Some (take SIGURDOS_COMPANION_PUB_KEY_PREFIX_SIZE (si_pub_key si))) blob) }"

definition do_send_telemetry_req :: "'e CompanionBridgeHost \<Rightarrow> byte list \<Rightarrow> ('e, unit) br" where
  "do_send_telemetry_req h f = do { r \<leftarrow> host_call (h_sendTelemetryReq (h_radio h) (pub_key_at f 4)); writeSentOrErr r }"

text \<open>The shared tail of the binary and the anonymous request: record the tag with its deadline.\<close>

definition record_binary :: "'e CompanionBridgeHost \<Rightarrow> nat \<Rightarrow> CompanionSendResult \<Rightarrow> ('e, unit) br" where
  "record_binary h pending r =
     (if \<not> sr_ok r \<or> sr_expected_ack r = 0 then writeErrFrame ERR_CODE_TABLE_FULL
      else do {
        now \<leftarrow> look (h_monotonicMillis (h_status h));
        modify (\<lambda>b. b\<lparr>pending_binary := (pending_binary b)[pending := \<lparr>pb_tag = sr_expected_ack r, pb_deadline_ms = now +
          (if sr_est_timeout r \<noteq> 0 then sr_est_timeout r else BINARY_REQUEST_FALLBACK_TIMEOUT_MS)\<rparr>]\<rparr>);
        writeSentOrErr r })"

definition do_send_binary_req :: "'e CompanionBridgeHost \<Rightarrow> byte list \<Rightarrow> nat \<Rightarrow> ('e, unit) br" where
  "do_send_binary_req h f len =
     (if len < 2 + SIGURDOS_COMPANION_PUB_KEY_SIZE then writeErrFrame ERR_CODE_ILLEGAL_ARG
      else do {
        contact \<leftarrow> look (h_getContactByPubKey (h_tables h) (pub_key_at f 1));
        if contact = None then writeErrFrame ERR_CODE_NOT_FOUND
        else do {
          pending \<leftarrow> gets (\<lambda>b. findFreePendingBinary (pending_binary b));
          case pending of
            None \<Rightarrow> writeErrFrame ERR_CODE_TABLE_FULL
          | Some k \<Rightarrow> do {
              r \<leftarrow> host_call (h_sendBinaryReq (h_radio h) (pub_key_at f 1)
                      (slice f (1 + SIGURDOS_COMPANION_PUB_KEY_SIZE) (len - (1 + SIGURDOS_COMPANION_PUB_KEY_SIZE))));
              record_binary h k r } } })"

definition do_send_anon_req :: "'e CompanionBridgeHost \<Rightarrow> byte list \<Rightarrow> nat \<Rightarrow> ('e, unit) br" where
  "do_send_anon_req h f len =
     (if len \<le> 1 + SIGURDOS_COMPANION_PUB_KEY_SIZE then writeErrFrame ERR_CODE_ILLEGAL_ARG
      else do {
        pending \<leftarrow> gets (\<lambda>b. findFreePendingBinary (pending_binary b));
        case pending of
          None \<Rightarrow> writeErrFrame ERR_CODE_TABLE_FULL
        | Some k \<Rightarrow> do {
            r \<leftarrow> host_call (h_sendAnonReq (h_radio h) (pub_key_at f 1)
                    (slice f (1 + SIGURDOS_COMPANION_PUB_KEY_SIZE) (len - (1 + SIGURDOS_COMPANION_PUB_KEY_SIZE))));
            record_binary h k r } })"

definition do_send_trace_path :: "'e CompanionBridgeHost \<Rightarrow> byte list \<Rightarrow> nat \<Rightarrow> ('e, unit) br" where
  "do_send_trace_path h f len =
     (let path_len = (word_of_nat (len - 10) :: byte);
          path_sz = unat (f ! 9 AND 0x03)
      in if unat path_len div 2 ^ path_sz > SIGURDOS_COMPANION_PATH_SIZE \<or> unat path_len mod 2 ^ path_sz \<noteq> 0
         then writeErrFrame ERR_CODE_ILLEGAL_ARG
         else do {
           r \<leftarrow> host_call (h_sendTracePath (h_radio h) (get_u32 f 1) (get_u32 f 5) (f ! 9) (slice f 10 (unat path_len)));
           if sr_ok r then respond ([RESP_CODE_SENT, 0] @ put_u32 (get_u32 f 1) @ put_u32 (sr_est_timeout r))
           else writeErrFrame ERR_CODE_TABLE_FULL })"

definition do_send_raw_data :: "'e CompanionBridgeHost \<Rightarrow> byte list \<Rightarrow> nat \<Rightarrow> ('e, unit) br" where
  "do_send_raw_data h f len =
     (let path_len = f ! 1; n = unat path_len
      in if len < 6 then writeErrFrame ERR_CODE_ILLEGAL_ARG
         else if path_len = COMPANION_OUT_PATH_UNKNOWN then writeErrFrame ERR_CODE_UNSUPPORTED_CMD
         else if path_len > 63 \<or> 2 + n + 4 > len then writeErrFrame ERR_CODE_ILLEGAL_ARG
         else ok_or ERR_CODE_TABLE_FULL (host_call (h_sendRawData (h_radio h) (slice f 2 n) path_len (slice f (2 + n) (len - 2 - n)))))"

definition do_send_control_data :: "'e CompanionBridgeHost \<Rightarrow> byte list \<Rightarrow> nat \<Rightarrow> ('e, unit) br" where
  "do_send_control_data h f len =
     (if len < 2 \<or> f ! 1 AND 0x80 = 0 then writeErrFrame ERR_CODE_ILLEGAL_ARG
      else ok_or ERR_CODE_TABLE_FULL (host_call (h_sendControlData (h_radio h) (slice f 1 (len - 1)))))"

definition REBOOT_WORD :: cstring where "REBOOT_WORD = bytes_of ''reboot''"
definition RESET_WORD :: cstring where "RESET_WORD = bytes_of ''reset''"

section \<open>Dispatch\<close>

text \<open>The chain of tests of \<open>handleFrame\<close>, in the order of the code, in five pieces.\<close>

definition dispatch_requests :: "'e CompanionBridgeHost \<Rightarrow> byte \<Rightarrow> byte list \<Rightarrow> nat \<Rightarrow> ('e, unit) br" where
  "dispatch_requests h cmd f len =
     (if cmd = CMD_SEND_LOGIN \<and> len \<ge> 1 + SIGURDOS_COMPANION_PUB_KEY_SIZE then do_send_login h f
      else if cmd = CMD_SEND_STATUS_REQ \<and> len \<ge> 1 + SIGURDOS_COMPANION_PUB_KEY_SIZE then do_send_status_req h f
      else if cmd = CMD_SEND_TELEMETRY_REQ \<and> len = 4 then do_self_telemetry h
      else if cmd = CMD_SEND_TELEMETRY_REQ \<and> len \<ge> 4 + SIGURDOS_COMPANION_PUB_KEY_SIZE then do_send_telemetry_req h f
      else if cmd = CMD_SEND_BINARY_REQ then do_send_binary_req h f len
      else if cmd = CMD_SEND_ANON_REQ then do_send_anon_req h f len
      else if cmd = CMD_SEND_TRACE_PATH \<and> len > 10 then do_send_trace_path h f len
      else if cmd = CMD_SEND_RAW_DATA then do_send_raw_data h f len
      else if cmd = CMD_SEND_CONTROL_DATA then do_send_control_data h f len
      else if cmd = CMD_SEND_RAW_PACKET then writeErrFrame ERR_CODE_UNSUPPORTED_CMD
      else writeErrFrame (if commandMinimumLength cmd \<noteq> 0 then ERR_CODE_ILLEGAL_ARG else ERR_CODE_UNSUPPORTED_CMD))"

definition dispatch_system :: "'e CompanionBridgeHost \<Rightarrow> byte \<Rightarrow> byte list \<Rightarrow> nat \<Rightarrow> ('e, unit) br" where
  "dispatch_system h cmd f len =
     (if cmd = CMD_REBOOT \<and> len \<ge> 7 \<and> slice f 1 6 = REBOOT_WORD then host_call (h_reboot (h_contacts h))
      else if cmd = CMD_FACTORY_RESET \<and> len \<ge> 6 \<and> slice f 1 5 = RESET_WORD then do_factory_reset h
      else if cmd = CMD_GET_STATS \<and> len \<ge> 2 then do_get_stats h f
      else if cmd = CMD_GET_ALLOWED_REPEAT_FREQ then do_get_allowed_repeat_freq h
      else if cmd = CMD_GET_CUSTOM_VARS then do_get_custom_vars h
      else if cmd = CMD_SET_CUSTOM_VAR \<and> len \<ge> 4 then do_set_custom_var h f
      else if cmd = CMD_GET_ADVERT_PATH \<and> len \<ge> 2 + SIGURDOS_COMPANION_PUB_KEY_SIZE then do_get_advert_path h f
      else if cmd = CMD_SEND_PATH_DISCOVERY_REQ \<and> len \<ge> 2 + SIGURDOS_COMPANION_PUB_KEY_SIZE \<and> f ! 1 = 0 then do_send_path_discovery_req h f
      else if cmd = CMD_GET_DEFAULT_FLOOD_SCOPE then do_get_default_flood_scope h
      else if cmd = CMD_SET_DEFAULT_FLOOD_SCOPE then do_set_default_flood_scope h f len
      else if cmd = CMD_SET_FLOOD_SCOPE_KEY then do_set_flood_scope_key h f len
      else if cmd = CMD_SIGN_START then do_sign_start
      else if cmd = CMD_SIGN_DATA \<and> len > 1 then do_sign_data f len
      else if cmd = CMD_SIGN_FINISH then do_sign_finish h
      else dispatch_requests h cmd f len)"

definition dispatch_contacts :: "'e CompanionBridgeHost \<Rightarrow> byte \<Rightarrow> byte list \<Rightarrow> nat \<Rightarrow> ('e, unit) br" where
  "dispatch_contacts h cmd f len =
     (if cmd = CMD_GET_CONTACT_BY_KEY \<and> len \<ge> 1 + SIGURDOS_COMPANION_PUB_KEY_SIZE then do_get_contact_by_key h f
      else if cmd = CMD_RESET_PATH \<and> len \<ge> 1 + SIGURDOS_COMPANION_PUB_KEY_SIZE then do_reset_path h f
      else if cmd = CMD_REMOVE_CONTACT \<and> len \<ge> 1 + SIGURDOS_COMPANION_PUB_KEY_SIZE then do_remove_contact h f
      else if cmd = CMD_SHARE_CONTACT \<and> len \<ge> 1 + SIGURDOS_COMPANION_PUB_KEY_SIZE then do_share_contact h f
      else if cmd = CMD_ADD_UPDATE_CONTACT \<and> len \<ge> 1 + SIGURDOS_COMPANION_PUB_KEY_SIZE + 2 + 1 + SIGURDOS_COMPANION_PATH_SIZE + 32 + 4 then do_add_update_contact h f len
      else if cmd = CMD_EXPORT_CONTACT then do_export_contact h f len
      else if cmd = CMD_IMPORT_CONTACT \<and> len > 2 + 32 + 64 then do_import_contact h f len
      else if cmd = CMD_HAS_CONNECTION \<and> len \<ge> 1 + SIGURDOS_COMPANION_PUB_KEY_SIZE then do_has_connection h f
      else if cmd = CMD_LOGOUT \<and> len \<ge> 1 + SIGURDOS_COMPANION_PUB_KEY_SIZE then do_logout h f
      else dispatch_system h cmd f len)"

definition dispatch_settings :: "'e CompanionBridgeHost \<Rightarrow> byte \<Rightarrow> byte list \<Rightarrow> nat \<Rightarrow> ('e, unit) br" where
  "dispatch_settings h cmd f len =
     (if cmd = CMD_GET_DEVICE_TIME then do_get_device_time h
      else if cmd = CMD_SET_DEVICE_TIME \<and> len \<ge> 5 then do_set_device_time h f
      else if cmd = CMD_GET_BATT_AND_STORAGE then do_get_batt_and_storage h
      else if cmd = CMD_SET_ADVERT_NAME then do_set_advert_name h f len
      else if cmd = CMD_SET_ADVERT_LATLON then do_set_advert_latlon h f len
      else if cmd = CMD_SET_RADIO_PARAMS then do_set_radio_params h f len
      else if cmd = CMD_SET_RADIO_TX_POWER then do_set_radio_tx_power h f len
      else if cmd = CMD_SET_TUNING_PARAMS then do_set_tuning_params h f len
      else if cmd = CMD_GET_TUNING_PARAMS then do_get_tuning_params h
      else if cmd = CMD_SEND_SELF_ADVERT then do_send_self_advert h f len
      else if cmd = CMD_GET_CHANNEL \<and> len \<ge> 2 then do_get_channel h f
      else if cmd = CMD_SET_CHANNEL \<and> len \<ge> 2 + 32 + 32 then writeErrFrame ERR_CODE_UNSUPPORTED_CMD
      else if cmd = CMD_SET_CHANNEL \<and> len \<ge> 2 + 32 + 16 then do_set_channel h f
      else if cmd = CMD_SET_DEVICE_PIN \<and> len \<ge> 5 then do_set_device_pin h f
      else if cmd = CMD_EXPORT_PRIVATE_KEY then do_export_private_key h
      else if cmd = CMD_IMPORT_PRIVATE_KEY \<and> len \<ge> 65 then do_import_private_key h f
      else if cmd = CMD_SET_OTHER_PARAMS \<and> len \<ge> 2 then do_set_other_params h f len
      else if cmd = CMD_SET_PATH_HASH_MODE \<and> len \<ge> 3 \<and> f ! 1 = 0 then do_set_path_hash_mode h f
      else if cmd = CMD_SET_AUTOADD_CONFIG \<and> len \<ge> 2 then do_set_autoadd_config h f len
      else if cmd = CMD_GET_AUTOADD_CONFIG then do_get_autoadd_config h
      else dispatch_contacts h cmd f len)"

definition dispatch_session :: "'e CompanionBridgeHost \<Rightarrow> byte \<Rightarrow> byte list \<Rightarrow> nat \<Rightarrow> ('e, unit) br" where
  "dispatch_session h cmd f len =
     (if cmd = CMD_DEVICE_QUERY \<and> len \<ge> 2 then do_device_query h f
      else if cmd = CMD_APP_START \<and> len \<ge> 8 then do_app_start h
      else if cmd = CMD_GET_CONTACTS then do_get_contacts h f len
      else if cmd = CMD_SYNC_NEXT_MESSAGE then do_sync_next_message h
      else if cmd = CMD_SEND_TXT_MSG \<and> len \<ge> 14 then do_send_txt_msg h f
      else if cmd = CMD_SEND_CHANNEL_TXT_MSG \<and> len \<ge> 7 then do_send_channel_txt_msg h f
      else if cmd = CMD_SEND_CHANNEL_DATA then do_send_channel_data h f len
      else dispatch_settings h cmd f len)"

definition handle_command :: "'e CompanionBridgeHost \<Rightarrow> byte list \<Rightarrow> nat \<Rightarrow> ('e, unit) br" where
  "handle_command h f len =
     (let cmd = f ! 0; minimum_length = commandMinimumLength cmd
      in if minimum_length \<noteq> 0 \<and> len < minimum_length then writeErrFrame ERR_CODE_ILLEGAL_ARG
         else dispatch_session h cmd f len)"

text \<open>
  \<open>ScopedWipe\<close> erases the command buffer when the function returns. A null frame is the empty list.
\<close>

definition handleFrame :: "byte list \<Rightarrow> ('e, bool) br" where
  "handleFrame frame = do {
     mfs \<leftarrow> max_frame;
     host \<leftarrow> gets b_host;
     closed \<leftarrow> gets (\<lambda>b. b_serial b = None \<and> \<not> b_transport_request_active b);
     case host of
       None \<Rightarrow> ret False
     | Some h \<Rightarrow>
         if closed \<or> length frame = 0 \<or> length frame > mfs then ret False
         else do {
           refreshConnectionSession;
           waiting \<leftarrow> gets (\<lambda>b. pending_response_len b \<noteq> 0);
           if waiting then ret False
           else do {
             expirePendingBinary;
             modify (\<lambda>b. b\<lparr>b_cmd_frame := (overwrite (b_cmd_frame b) 0 frame)[length frame := 0]\<rparr>);
             f \<leftarrow> gets b_cmd_frame;
             handle_command h f (length frame);
             modify (\<lambda>b. b\<lparr>b_cmd_frame := secureWipe (b_cmd_frame b)\<rparr>);
             ret True } } }"

section \<open>Service loops\<close>

text \<open>
  The scan of \<open>serviceCurrentSession\<close> for the next contact to report: \<open>k\<close> indices are left from
  \<open>i\<close> on. The result is the contact, if any, and the value of the iterator after the loop.
\<close>

fun scan_contacts :: "(nat \<Rightarrow> CompanionContact option) \<Rightarrow> u32 \<Rightarrow> nat \<Rightarrow> nat \<Rightarrow> CompanionContact option \<times> nat" where
  "scan_contacts get_contact since 0 i = (None, i)"
| "scan_contacts get_contact since (Suc k) i =
     (case get_contact i of
        None \<Rightarrow> scan_contacts get_contact since k (i + 1)
      | Some c \<Rightarrow> if since \<noteq> 0 \<and> cc_lastmod c \<le> since then scan_contacts get_contact since k (i + 1) else (Some c, i + 1))"

definition service_contacts :: "'e CompanionBridgeHost \<Rightarrow> ('e, unit) br" where
  "service_contacts h = do {
     count \<leftarrow> look (h_contactCount (h_tables h));
     r \<leftarrow> gets (\<lambda>b. scan_contacts (\<lambda>i. h_getContact (h_tables h) i (b_env b)) (iter_filter_since b)
            (count - nat (contact_iter b)) (nat (contact_iter b)));
     case fst r of
       Some c \<Rightarrow> do {
         modify (\<lambda>b. b\<lparr>contact_iter := int (snd r),
           most_recent_lastmod := (if cc_lastmod c > most_recent_lastmod b then cc_lastmod c else most_recent_lastmod b)\<rparr>);
         ignore (writeContactFrame RESP_CODE_CONTACT c True) }
     | None \<Rightarrow> do {
         recent \<leftarrow> gets most_recent_lastmod;
         respond ([RESP_CODE_END_OF_CONTACTS] @ put_u32 recent);
         modify (\<lambda>b. b\<lparr>contact_iter := -1\<rparr>) } }"

definition serviceCurrentSession :: "('e, unit) br" where
  "serviceCurrentSession = do {
     expirePendingBinary;
     flushed \<leftarrow> flushPendingResponse;
     if \<not> flushed then ret ()
     else do {
       write_busy \<leftarrow> gets (\<lambda>b. (case b_serial b of None \<Rightarrow> False | Some s \<Rightarrow> s_isWriteBusy s (b_env b)) \<and>
                       (\<not> b_transport_request_active b \<or> b_request_transport b = BLE));
       idle \<leftarrow> gets (\<lambda>b. contact_iter b < 0);
       if idle \<or> write_busy then ret () else when_host service_contacts } }"

definition begin_request :: "TransportId \<Rightarrow> int \<Rightarrow> u32 \<Rightarrow> ('e, unit) br" where
  "begin_request tid client_index generation = modify (\<lambda>b. b\<lparr>b_transport_request_active := True, b_request_transport := tid,
     b_request_client_index := client_index, b_request_generation := generation\<rparr>)"

definition end_request :: "('e, unit) br" where
  "end_request = modify (\<lambda>b. b\<lparr>b_active_session := None, b_transport_request_active := False, b_request_client_index := -1,
     b_request_generation := 0\<rparr>)"

definition handleTransportFrame :: "byte list \<Rightarrow> TransportId \<Rightarrow> int \<Rightarrow> u32 \<Rightarrow> ('e, unit) br" where
  "handleTransportFrame frame tid client_index generation = do {
     allowed \<leftarrow> transportAllowedDuringOta tid;
     if \<not> allowed then ret ()
     else do {
       session \<leftarrow> activateTransportSession tid client_index generation;
       case session of
         None \<Rightarrow> ret ()
       | Some i \<Rightarrow> do {
           begin_request tid client_index generation;
           ignore (handleFrame frame);
           saveTransportSession i;
           end_request } } }"

definition transportFrameHandler :: "byte list \<Rightarrow> TransportId \<Rightarrow> ('e, unit) br" where
  "transportFrameHandler frame from_id = do {
     registered \<leftarrow> gets b_registered;
     allowed \<leftarrow> transportAllowedDuringOta from_id;
     if \<not> registered \<or> \<not> allowed then ret ()
     else do {
       req \<leftarrow> linked_look l_current_request;
       case req of
         None \<Rightarrow> handleTransportFrame frame from_id (-1) 0
       | Some (tid, client_index, generation) \<Rightarrow> handleTransportFrame frame tid client_index generation } }"

definition transport_slots :: "(TransportId \<times> int) list" where
  "transport_slots = [(BLE, 0), (TCP, 0), (TCP, 1), (TCP, 2), (TCP, 3), (WS, 0), (WS, 1), (WS, 2), (WS, 3)]"

definition materialize_slot :: "TransportId \<times> int \<Rightarrow> ('e, unit) br" where
  "materialize_slot slot = (case slot of (tid, client) \<Rightarrow> do {
     allowed \<leftarrow> transportAllowedDuringOta tid;
     connected \<leftarrow> linked_look (\<lambda>l e. l_client_connected l tid client e);
     if \<not> allowed \<or> \<not> connected then ret ()
     else do {
       generation \<leftarrow> linked_look (\<lambda>l e. l_client_generation l tid client e);
       ignore (ensureTransportSession tid client generation) } })"

definition service_session :: "nat \<Rightarrow> ('e, unit) br" where
  "service_session i = do {
     s \<leftarrow> gets (\<lambda>b. b_transport_sessions b ! i);
     allowed \<leftarrow> transportAllowedDuringOta (ts_id s);
     live \<leftarrow> session_live i;
     if \<not> allowed \<or> \<not> live then ret ()
     else do {
       generation \<leftarrow> linked_look (\<lambda>l e. l_client_generation l (ts_id s) (ts_client_index s) e);
       ignore (ensureTransportSession (ts_id s) (ts_client_index s) generation);
       modify (\<lambda>b. b\<lparr>b_active_session := Some i\<rparr>);
       begin_request (ts_id s) (ts_client_index s) generation;
       loadTransportSession i;
       refreshConnectionSession;
       serviceCurrentSession;
       saveTransportSession i;
       end_request } }"

definition serviceTransportSessions :: "('e, unit) br" where
  "serviceTransportSessions = do {
     for_each materialize_slot transport_slots;
     n \<leftarrow> gets (\<lambda>b. length (b_transport_sessions b));
     for_each service_session [0..<n] }"

definition transportServiceHandler :: "('e, unit) br" where
  "transportServiceHandler = do { registered \<leftarrow> gets b_registered; if registered then serviceTransportSessions else ret () }"

definition receive_command :: "'e BaseSerialInterface \<Rightarrow> ('e, unit) br" where
  "receive_command s = do {
     frame \<leftarrow> env (s_checkRecvFrame s);
     if length frame > 0 then do {
       modify (\<lambda>b. b\<lparr>b_cmd_frame := overwrite (b_cmd_frame b) 0 frame\<rparr>);
       ignore (handleFrame frame) }
     else ret () }"

definition bridge_loop :: "('e, unit) br" where
  "bridge_loop = do {
     serial \<leftarrow> gets b_serial;
     host \<leftarrow> gets b_host;
     case serial of
       None \<Rightarrow> ret ()
     | Some s \<Rightarrow>
         if host = None then ret ()
         else do {
           refreshConnectionSession;
           on \<leftarrow> look (s_isEnabled s);
           if \<not> on then ret ()
           else do {
             expirePendingBinary;
             flushed \<leftarrow> flushPendingResponse;
             if \<not> flushed then ret ()
             else do { receive_command s; serviceCurrentSession } } } }"

definition sensitiveBuffersCleared :: "'e bridge \<Rightarrow> bool" where
  "sensitiveBuffersCleared b \<longleftrightarrow> list_all (\<lambda>x. x = 0) (b_cmd_frame b) \<and> list_all (\<lambda>x. x = 0) (sign_buf b) \<and>
     \<not> sign_active b \<and> sign_len b = 0"

end
