(* ===== verification/BridgeLogic.thy ===== *)
theory BridgeLogic
  imports BridgeCommands
begin

text \<open>
  The well-formedness of the bridge's state, the moves the bridge may make on its environment,
  and the proof that every operation keeps the first and makes only the second.
\<close>

section \<open>Well-formed states\<close>

definition queue_ok :: "nat \<Rightarrow> Frame list \<Rightarrow> bool" where
  "queue_ok mfs q \<longleftrightarrow> length q \<le> OFFLINE_QUEUE_SIZE \<and>
     (\<forall>f \<in> set q. 0 < length (fr_buf f) \<and> length (fr_buf f) \<le> mfs \<and> (fr_persistent f \<longrightarrow> fr_store_id f \<noteq> 0)) \<and>
     distinct (map fr_buf q) \<and> distinct (map fr_store_id (filter fr_persistent q))"

text \<open>The signing buffer holds nothing beyond the bytes received for the signature in progress.\<close>

definition sign_ok :: "'a session_vars_scheme \<Rightarrow> bool" where
  "sign_ok s \<longleftrightarrow> length (sign_buf s) = SIGURDOS_COMPANION_MAX_SIGN_DATA \<and> sign_len s \<le> SIGURDOS_COMPANION_MAX_SIGN_DATA \<and>
     (\<not> sign_active s \<longrightarrow> sign_len s = 0) \<and> (\<forall>x \<in> set (drop (sign_len s) (sign_buf s)). x = 0)"

definition vars_ok :: "nat \<Rightarrow> 'a session_vars_scheme \<Rightarrow> bool" where
  "vars_ok mfs s \<longleftrightarrow> queue_ok mfs (offline s) \<and> sign_ok s \<and> length (pending_binary s) = MAX_PENDING_BINARY_REQUESTS \<and>
     length (pending_response s) = mfs \<and> pending_response_len s \<le> mfs \<and> contact_iter s \<ge> -1"

definition session_keys :: "TransportSession list \<Rightarrow> (TransportId \<times> int) list" where
  "session_keys ss = map (\<lambda>s. (ts_id s, ts_client_index s)) (filter ts_used ss)"

definition bridge_ok :: "'e bridge \<Rightarrow> bool" where
  "bridge_ok b \<longleftrightarrow> (let mfs = l_MAX_FRAME_SIZE (b_linked b) in
     vars_ok mfs b \<and> length (b_transport_sessions b) = MAX_TRANSPORT_SESSIONS \<and>
     list_all (vars_ok mfs) (b_transport_sessions b) \<and> distinct (session_keys (b_transport_sessions b)) \<and>
     length (b_cmd_frame b) = mfs + 1)"

section \<open>Moves on the environment\<close>

text \<open>One call of a host function that is not \<open>const\<close>.\<close>

inductive host_move :: "'e CompanionBridgeHost \<Rightarrow> 'e \<Rightarrow> 'e \<Rightarrow> bool" for h where
  setCurrentTime: "host_move h e (snd (h_setCurrentTime (h_settings h) t e))"
| setChannel: "host_move h e (snd (h_setChannel (h_settings h) i ch e))"
| setAdvertName: "host_move h e (snd (h_setAdvertName (h_settings h) n e))"
| setAdvertLatLon: "host_move h e (snd (h_setAdvertLatLon (h_settings h) x y e))"
| setBlePin: "companionBlePinValid p \<Longrightarrow> host_move h e (snd (h_setBlePin (h_settings h) p e))"
| importPrivateKey: "host_move h e (snd (h_importPrivateKey (h_settings h) k e))"
| setRadioParams: "host_move h e (snd (h_setRadioParams (h_settings h) fq w sf cr cl e))"
| setRadioTxPower: "host_move h e (snd (h_setRadioTxPower (h_settings h) pw e))"
| setTuningParams: "host_move h e (snd (h_setTuningParams (h_settings h) x y e))"
| setOtherParams: "host_move h e (snd (h_setOtherParams (h_settings h) pp e))"
| setPathHashMode: "host_move h e (snd (h_setPathHashMode (h_settings h) m e))"
| setAutoAddConfig: "host_move h e (snd (h_setAutoAddConfig (h_settings h) x1 y1 e))"
| setDefaultFloodScope: "host_move h e (snd (h_setDefaultFloodScope (h_settings h) x2 e))"
| setFloodScopeOverride: "host_move h e (snd (h_setFloodScopeOverride (h_settings h) x3 y3 e))"
| setCustomVar: "host_move h e (snd (h_setCustomVar (h_settings h) x4 y4 e))"
| addOrUpdateContact: "storedLengthValid (cc_out_path_len x) \<Longrightarrow> host_move h e (snd (h_addOrUpdateContact (h_contacts h) x e))"
| removeContactByPubKey: "host_move h e (snd (h_removeContactByPubKey (h_contacts h) k e))"
| resetPathByPubKey: "host_move h e (snd (h_resetPathByPubKey (h_contacts h) k e))"
| shareContactByPubKey: "host_move h e (snd (h_shareContactByPubKey (h_contacts h) k e))"
| exportContactByPubKey: "host_move h e (snd (h_exportContactByPubKey (h_contacts h) k' n e))"
| importContact: "host_move h e (snd (h_importContact (h_contacts h) d e))"
| logout: "host_move h e (snd (h_logout (h_contacts h) k e))"
| reboot: "host_move h e (snd (h_reboot (h_contacts h) e))"
| factoryReset: "host_move h e (snd (h_factoryReset (h_contacts h) e))"
| signData: "length d' \<le> SIGURDOS_COMPANION_MAX_SIGN_DATA \<Longrightarrow> host_move h e (snd (h_signData (h_contacts h) d' e))"
| sendTextByPubKeyPrefix: "host_move h e (snd (h_sendTextByPubKeyPrefix (h_radio h) p t a ts x e))"
| sendChannelText: "host_move h e (snd (h_sendChannelText (h_radio h) i ts x e))"
| sendChannelData: "dt \<noteq> 0 \<Longrightarrow> host_move h e (snd (h_sendChannelData (h_radio h) i p' pl dt pay e))"
| sendRawData: "pl \<le> 63 \<Longrightarrow> host_move h e (snd (h_sendRawData (h_radio h) p pl pay e))"
| sendControlData: "host_move h e (snd (h_sendControlData (h_radio h) p e))"
| sendAdvert: "host_move h e (snd (h_sendAdvert (h_radio h) f e))"
| sendLogin: "host_move h e (snd (h_sendLogin (h_radio h) k pw e))"
| sendStatusReq: "host_move h e (snd (h_sendStatusReq (h_radio h) k e))"
| sendTelemetryReq: "host_move h e (snd (h_sendTelemetryReq (h_radio h) k e))"
| sendBinaryReq: "host_move h e (snd (h_sendBinaryReq (h_radio h) k d e))"
| sendAnonReq: "host_move h e (snd (h_sendAnonReq (h_radio h) k d e))"
| sendTracePath: "host_move h e (snd (h_sendTracePath (h_radio h) tg au fl p e))"
| sendPathDiscovery: "host_move h e (snd (h_sendPathDiscovery (h_radio h) k e))"
| cancelBinaryReq: "host_move h e (h_cancelBinaryReq (h_radio h) tg e)"
| cancelBinaryReqs: "host_move h e (h_cancelBinaryReqs (h_radio h) e)"

text \<open>
  One call of the bridge on its environment: a frame handed to a transport is never empty and
  never longer than \<open>MAX_FRAME_SIZE\<close>, and only a message with an id is marked as delivered.
\<close>

inductive env_move :: "'e linked \<Rightarrow> 'e BaseSerialInterface option \<Rightarrow> 'e CompanionBridgeHost option \<Rightarrow> 'e \<Rightarrow> 'e \<Rightarrow> bool"
  for l s h where
  host: "h = Some h' \<Longrightarrow> host_move h' e e' \<Longrightarrow> env_move l s h e e'"
| send_to: "0 < length fr \<Longrightarrow> length fr \<le> l_MAX_FRAME_SIZE l \<Longrightarrow> env_move l s h e (snd (l_send_to_result l tid ci fr e))"
| broadcast: "0 < length fr \<Longrightarrow> length fr \<le> l_MAX_FRAME_SIZE l \<Longrightarrow> env_move l s h e (snd (l_broadcast_result l tid fr e))"
| serial_write: "s = Some s' \<Longrightarrow> 0 < length fr \<Longrightarrow> length fr \<le> l_MAX_FRAME_SIZE l \<Longrightarrow> env_move l s h e (snd (s_writeFrame s' fr e))"
| serial_recv: "s = Some s' \<Longrightarrow> env_move l s h e (snd (s_checkRecvFrame s' e))"
| serial_enable: "s = Some s' \<Longrightarrow> env_move l s h e (s_enable s' e)"
| serial_disable: "s = Some s' \<Longrightarrow> env_move l s h e (s_disable s' e)"
| set_enabled: "env_move l s h e (snd (l_set_enabled l tid on e))"
| load: "env_move l s h e (snd (l_loadUnsent l n e))"
| mark: "i \<noteq> 0 \<Longrightarrow> env_move l s h e (snd (l_markCompanionSent l i e))"

abbreviation env_moves :: "'e linked \<Rightarrow> 'e BaseSerialInterface option \<Rightarrow> 'e CompanionBridgeHost option \<Rightarrow> 'e \<Rightarrow> 'e \<Rightarrow> bool" where
  "env_moves l s h \<equiv> (env_move l s h)\<^sup>*\<^sup>*"

definition attached_to :: "'e linked \<Rightarrow> 'e BaseSerialInterface option \<Rightarrow> 'e CompanionBridgeHost option \<Rightarrow> 'e bridge \<Rightarrow> bool" where
  "attached_to l s h b \<longleftrightarrow> b_linked b = l \<and> b_serial b = s \<and> b_host b = h"

definition safe :: "'e linked \<Rightarrow> 'e BaseSerialInterface option \<Rightarrow> 'e CompanionBridgeHost option \<Rightarrow> ('e, 'a) br \<Rightarrow> bool" where
  "safe l s h m \<longleftrightarrow> (\<forall>b x b'. bridge_ok b \<longrightarrow> attached_to l s h b \<longrightarrow> run_state m b = (x, b') \<longrightarrow>
     bridge_ok b' \<and> attached_to l s h b' \<and> env_moves l s h (b_env b) (b_env b'))"

section \<open>Composition\<close>

named_theorems safe_intros "operations that keep the bridge well-formed"

lemma safeD:
  assumes "safe l s h m" and "bridge_ok b" and "attached_to l s h b" and "run_state m b = (x, b')"
  shows "bridge_ok b' \<and> attached_to l s h b' \<and> env_moves l s h (b_env b) (b_env b')"
  using assms unfolding safe_def by blast

lemma safeI:
  assumes "\<And>b x b'. bridge_ok b \<Longrightarrow> attached_to l s h b \<Longrightarrow> run_state m b = (x, b') \<Longrightarrow>
    bridge_ok b' \<and> attached_to l s h b' \<and> env_moves l s h (b_env b) (b_env b')"
  shows "safe l s h m"
  using assms unfolding safe_def by blast

lemma safe_pure [safe_intros]: "safe l s h (ret x)" "safe l s h (gets f)" "safe l s h (look g)" "safe l s h (linked_look k)" "safe l s h max_frame"
  by (auto simp: safe_def look_def linked_look_def max_frame_def)

lemma safe_bind [safe_intros]:
  assumes m: "safe l s h m" and f: "\<And>x. safe l s h (f x)"
  shows "safe l s h (m \<bind> f)"
proof (rule safeI)
  fix b y b2 assume b: "bridge_ok b" "attached_to l s h b" and r: "run_state (m \<bind> f) b = (y, b2)"
  obtain x b1 where 1: "run_state m b = (x, b1)" by force
  then have 2: "run_state (f x) b1 = (y, b2)" using r by simp
  note s1 = safeD [OF m b 1]
  with safeD [OF f _ _ 2] show "bridge_ok b2 \<and> attached_to l s h b2 \<and> env_moves l s h (b_env b) (b_env b2)"
    by (meson rtranclp_trans)
qed

text \<open>A value read from the state may be used with what is known about that state.\<close>

lemma safe_gets_bind:
  assumes "\<And>b. bridge_ok b \<Longrightarrow> attached_to l s h b \<Longrightarrow> safe l s h (f (g b))"
  shows "safe l s h (gets g \<bind> f)"
proof (rule safeI)
  fix b y b2 assume b: "bridge_ok b" "attached_to l s h b" and r: "run_state (gets g \<bind> f) b = (y, b2)"
  then have "run_state (f (g b)) b = (y, b2)" by (simp add: gets_def)
  then show "bridge_ok b2 \<and> attached_to l s h b2 \<and> env_moves l s h (b_env b) (b_env b2)"
    using safeD [OF assms [OF b] b] by blast
qed

lemma safe_if [safe_intros]: "(c \<Longrightarrow> safe l s h a) \<Longrightarrow> (\<not> c \<Longrightarrow> safe l s h d) \<Longrightarrow> safe l s h (if c then a else d)"
  by simp

lemma safe_option [safe_intros]:
  "(opt = None \<Longrightarrow> safe l s h a) \<Longrightarrow> (\<And>x. opt = Some x \<Longrightarrow> safe l s h (f x)) \<Longrightarrow> safe l s h (case opt of None \<Rightarrow> a | Some x \<Rightarrow> f x)"
  by (cases opt) auto

lemma safe_prod [safe_intros]: "(\<And>x y. safe l s h (f x y)) \<Longrightarrow> safe l s h (case p of (x, y) \<Rightarrow> f x y)"
  by (cases p) auto

lemma safe_Let [safe_intros]: "safe l s h (f x) \<Longrightarrow> safe l s h (Let x f)"
  by simp

lemma safe_ignore [safe_intros]: "safe l s h m \<Longrightarrow> safe l s h (ignore m)"
  by (auto simp: ignore_def intro!: safe_intros)

lemma safe_for_each [safe_intros]: "(\<And>x. x \<in> set xs \<Longrightarrow> safe l s h (f x)) \<Longrightarrow> safe l s h (for_each f xs)"
  by (induction xs) (auto intro!: safe_intros)

lemma safe_any_of [safe_intros]: "(\<And>x. x \<in> set xs \<Longrightarrow> safe l s h (f x)) \<Longrightarrow> safe l s h (any_of f xs)"
  by (induction xs) (auto intro!: safe_intros)

lemma safe_when_host [safe_intros]:
  assumes "\<And>h'. h = Some h' \<Longrightarrow> safe l s h (f h')"
  shows "safe l s h (when_host f)"
  unfolding when_host_def
proof (rule safe_gets_bind, rule safe_option)
  fix b x assume "attached_to l s h b" "b_host b = Some x"
  then have "h = Some x" by (simp add: attached_to_def)
  then show "safe l s h (f x)" by (rule assms)
qed (rule safe_intros)

section \<open>Elementary steps\<close>

lemma bridge_ok_env [simp]: "bridge_ok (b\<lparr>b_env := e\<rparr>) = bridge_ok b"
  by (simp add: bridge_ok_def vars_ok_def sign_ok_def)

lemma attached_env [simp]: "attached_to l s h (b\<lparr>b_env := e\<rparr>) = attached_to l s h b"
  by (simp add: attached_to_def)

lemma safe_env:
  assumes "\<And>e. env_move l s h e (snd (f e))"
  shows "safe l s h (env f)"
proof (rule safeI)
  fix b x b' assume b: "bridge_ok b" "attached_to l s h b" and r: "run_state (env f) b = (x, b')"
  obtain a e where f: "f (b_env b) = (a, e)" by force
  then have "b' = b\<lparr>b_env := e\<rparr>" using r by (simp add: env_def)
  then show "bridge_ok b' \<and> attached_to l s h b' \<and> env_moves l s h (b_env b) (b_env b')"
    using b assms [of "b_env b"] f by auto
qed

lemma safe_linked_env [safe_intros]:
  assumes "\<And>e. env_move l s h e (snd (f l e))"
  shows "safe l s h (linked_env f)"
proof (rule safeI)
  fix b x b' assume b: "bridge_ok b" "attached_to l s h b" and r: "run_state (linked_env f) b = (x, b')"
  obtain a e where f: "f l (b_env b) = (a, e)" by force
  then have "b' = b\<lparr>b_env := e\<rparr>" using r b by (simp add: linked_env_def attached_to_def)
  then show "bridge_ok b' \<and> attached_to l s h b' \<and> env_moves l s h (b_env b) (b_env b')"
    using b assms [of "b_env b"] f by auto
qed

lemma safe_env_do:
  assumes "\<And>e. env_move l s h e (f e)"
  shows "safe l s h (env_do f)"
  using assms by (auto simp: safe_def env_do_def)

text \<open>An update of the bridge's own variables.\<close>

lemma safe_modify:
  assumes "\<And>b. bridge_ok b \<Longrightarrow> attached_to l s h b \<Longrightarrow> bridge_ok (f b) \<and> attached_to l s h (f b) \<and> b_env (f b) = b_env b"
  shows "safe l s h (modify f)"
  by (rule safeI) (use assms in auto)

lemma safe_modifyD:
  assumes "safe l s h (modify f)" and "bridge_ok b" and "attached_to l s h b"
  shows "bridge_ok (f b) \<and> attached_to l s h (f b) \<and> env_moves l s h (b_env b) (b_env (f b))"
  using safeD [OF assms, of "()" "f b"] by simp

lemmas ok_defs = bridge_ok_def vars_ok_def sign_ok_def attached_to_def Let_def

lemma queue_ok_Nil [simp]: "queue_ok mfs []"
  by (simp add: queue_ok_def)

lemma queue_ok_tl: "queue_ok mfs q \<Longrightarrow> queue_ok mfs (tl q)"
  by (cases q) (auto simp: queue_ok_def split: if_splits)

lemma queue_ok_delete: "queue_ok mfs (xs @ y # zs) \<Longrightarrow> queue_ok mfs (xs @ zs)"
  by (auto simp: queue_ok_def split: if_splits)

lemma queue_ok_remove:
  assumes "queue_ok mfs q"
  shows "queue_ok mfs (take i q @ drop (i + 1) q)"
proof (cases "i < length q")
  case True
  then have "queue_ok mfs (take i q @ q ! i # drop (i + 1) q)" using assms id_take_nth_drop [OF True] by simp
  then show ?thesis by (rule queue_ok_delete)
qed (use assms in simp)

lemma addToOfflineQueueBuffer_ok:
  assumes q: "queue_ok mfs q" and a: "addToOfflineQueueBuffer mfs q sid per frame = Some q'"
  shows "queue_ok mfs q'"
proof -
  let ?entry = "\<lparr>fr_store_id = sid, fr_persistent = per, fr_buf = frame\<rparr>"
  have ext: "queue_ok mfs (r @ [?entry])" if "queue_ok mfs r" "set r \<subseteq> set q" "length r < OFFLINE_QUEUE_SIZE" for r
    using that a q by (auto simp: queue_ok_def addToOfflineQueueBuffer_def offlineFrameExistsIn_def list_ex_iff split: if_splits)
  show ?thesis
  proof (cases "length q \<ge> OFFLINE_QUEUE_SIZE")
    case True
    then obtain i where i: "first_index (\<lambda>f. \<not> fr_persistent f) q = Some i" "q' = (take i q @ drop (i + 1) q) @ [?entry]"
      using a by (auto simp: addToOfflineQueueBuffer_def Let_def split: if_splits option.splits)
    have "i < length q" "length q \<le> OFFLINE_QUEUE_SIZE" using first_index_Some [OF i(1)] q by (auto simp: queue_ok_def)
    then show ?thesis unfolding i(2)
      by (intro ext queue_ok_remove [OF q]) (auto dest: in_set_takeD in_set_dropD)
  next
    case False
    then have "q' = q @ [?entry]" using a by (auto simp: addToOfflineQueueBuffer_def Let_def split: if_splits)
    then show ?thesis using ext [OF q] False by simp
  qed
qed

lemma secureWipe_simps [simp]: "length (secureWipe d) = length d" "x \<in> set (secureWipe d) \<Longrightarrow> x = 0"
  by (auto simp: secureWipe_def)

lemma safe_clears [safe_intros]:
  "safe l s h clearPendingBinary" "safe l s h clearSigningState" "safe l s h clearInflightMessage" "safe l s h removeFirstOfflineFrame"
  unfolding clearPendingBinary_def clearSigningState_def clearInflightMessage_def removeFirstOfflineFrame_def
  by (auto intro!: safe_modify simp: ok_defs queue_ok_tl dest: in_set_dropD)

lemma safe_drop_push [safe_intros]: "safe l s h drop_push"
  unfolding drop_push_def by (intro safe_intros safe_modify) (simp add: ok_defs)

lemma safe_cancel [safe_intros]:
  "h = Some h' \<Longrightarrow> safe l s h (env_do (h_cancelBinaryReqs (h_radio h')))"
  "h = Some h' \<Longrightarrow> safe l s h (env_do (h_cancelBinaryReq (h_radio h') t))"
  by (rule safe_env_do, rule env_move.host, assumption, rule host_move.intros)+

lemma safe_resetConnectionSession [safe_intros]: "safe l s h resetConnectionSession"
  unfolding resetConnectionSession_def by (intro safe_intros safe_modify) (auto simp: ok_defs)

lemma safe_setEnabled [safe_intros]: "safe l s h (setEnabled on)"
  unfolding setEnabled_def
proof (rule safe_gets_bind, rule safe_option)
  fix b s' assume "bridge_ok b" "attached_to l s h b" "b_serial b = Some s'"
  then have s: "s = Some s'" by (simp add: attached_to_def)
  show "safe l s h (do {
      (if on then env_do (s_enable s') else do {
         env_do (s_disable s');
         resetConnectionSession;
         modify (\<lambda>b. b\<lparr>was_connected := False, connection_generation := 0\<rparr>);
         when_host (\<lambda>h. env_do (h_cancelBinaryReqs (h_radio h))) });
      look (\<lambda>e. s_isEnabled s' e = on) })"
    by (intro safe_intros safe_modify safe_env_do env_move.serial_enable env_move.serial_disable s) (auto simp: ok_defs)
qed (rule safe_intros)

lemma safe_connection [safe_intros]: "safe l s h isEnabled" "safe l s h isConnected" "safe l s h currentTransportConnected"
    "safe l s h (transportAllowedDuringOta tid)"
  unfolding isEnabled_def isConnected_def currentTransportConnected_def transportAllowedDuringOta_def by (intro safe_intros)+

lemma safe_refresh [safe_intros]: "safe l s h refreshConnectionSession"
  unfolding refreshConnectionSession_def by (intro safe_intros safe_modify) (auto simp: ok_defs)

section \<open>Sending\<close>

lemma safe_max_frame:
  assumes "safe l s h (f (l_MAX_FRAME_SIZE l))"
  shows "safe l s h (max_frame \<bind> f)"
  unfolding max_frame_def by (rule safe_gets_bind) (use assms in \<open>simp add: attached_to_def\<close>)

lemma safe_writeFrame [safe_intros]: "safe l s h (writeFrameToCurrentTransport fr)"
  unfolding writeFrameToCurrentTransport_def
proof (rule safe_max_frame, rule safe_if)
  assume "\<not> (length fr = 0 \<or> length fr > l_MAX_FRAME_SIZE l)"
  then have fr: "0 < length fr" "length fr \<le> l_MAX_FRAME_SIZE l" by auto
  have ser: "safe l s h (gets b_serial \<bind> case_option (ret False) (\<lambda>s. do { n \<leftarrow> env (s_writeFrame s fr); ret (n = length fr) }))"
  proof (rule safe_gets_bind, rule safe_option)
    fix b s' assume "attached_to l s h b" "b_serial b = Some s'"
    then have "s = Some s'" by (simp add: attached_to_def)
    then show "safe l s h (do { n \<leftarrow> env (s_writeFrame s' fr); ret (n = length fr) })"
      by (intro safe_intros safe_env env_move.serial_write fr)
  qed (rule safe_intros)
  show "safe l s h (do {
       active \<leftarrow> gets b_transport_request_active;
       if active then do {
         tid \<leftarrow> gets b_request_transport;
         ci \<leftarrow> gets b_request_client_index;
         linked_env (\<lambda>l. l_send_to_result l tid ci fr) }
       else do {
         serial \<leftarrow> gets b_serial;
         case serial of None \<Rightarrow> ret False | Some s \<Rightarrow> do { n \<leftarrow> env (s_writeFrame s fr); ret (n = length fr) } } })"
    by (rule safe_bind, rule safe_pure, rule safe_if, (intro safe_intros env_move.send_to fr)[1], rule ser)
qed (rule safe_intros)

lemma safe_sendResponse [safe_intros]: "safe l s h (sendResponseFrame fr)"
  unfolding sendResponseFrame_def
  by (rule safe_max_frame) (auto intro!: safe_intros safe_modify simp: ok_defs)

lemma safe_flush [safe_intros]: "safe l s h flushPendingResponse"
  unfolding flushPendingResponse_def by (intro safe_intros safe_modify) (auto simp: ok_defs)

lemma safe_sendPush [safe_intros]: "safe l s h (sendPushFrame fr)"
  unfolding sendPushFrame_def
  by (rule safe_max_frame) (auto intro!: safe_intros env_move.broadcast)

lemma safe_respond [safe_intros]: "safe l s h (respond fr)" "safe l s h writeOKFrame" "safe l s h (writeErrFrame err)"
    "safe l s h writeDisabledFrame" "safe l s h writeNoMoreMessages" "safe l s h (writeContactFrame c x r)" "safe l s h (writeSentOrErr sr)"
    "safe l s h tickle"
  unfolding respond_def writeOKFrame_def writeErrFrame_def writeDisabledFrame_def writeNoMoreMessages_def writeContactFrame_def
    writeSentOrErr_def tickle_def by (intro safe_intros)+

section \<open>Sessions\<close>

lemma first_index_none_filter: "first_index P xs = None \<Longrightarrow> filter P xs = []"
  by (auto simp: first_index_None filter_empty_conv)

lemma session_keys_update_same:
  assumes "i < length ss" and "ts_used s' = ts_used (ss ! i)" and "ts_id s' = ts_id (ss ! i)" and "ts_client_index s' = ts_client_index (ss ! i)"
  shows "session_keys (ss[i := s']) = session_keys ss"
  using assms
proof (induction ss arbitrary: i)
  case (Cons s ss)
  then show ?case by (cases i) (auto simp: session_keys_def)
qed simp

lemma session_keys_fresh:
  assumes "i < length ss" and "\<not> ts_used (ss ! i)" and "ts_used s'" and "(ts_id s', ts_client_index s') \<notin> set (session_keys ss)"
    and "distinct (session_keys ss)"
  shows "distinct (session_keys (ss[i := s']))"
  using assms
proof (induction ss arbitrary: i)
  case (Cons s ss)
  show ?case
  proof (cases i)
    case 0
    then show ?thesis using Cons.prems by (auto simp: session_keys_def)
  next
    case (Suc j)
    have IH: "distinct (session_keys (ss[j := s']))" using Cons Suc by (auto simp: session_keys_def split: if_splits)
    have "set (session_keys (ss[j := s'])) \<subseteq> insert (ts_id s', ts_client_index s') (set (session_keys ss))"
      by (auto simp: session_keys_def dest: set_update_subset_insert [THEN subsetD])
    then show ?thesis using IH Cons.prems Suc by (auto simp: session_keys_def split: if_splits)
  qed
qed simp

lemma fresh_vars_ok: "vars_ok mfs (ts_reset mfs)" "vars_ok mfs (fresh_for mfs tid ci g)" "vars_ok mfs ((fresh_for mfs tid ci g)\<lparr>was_connected := c\<rparr>)"
  by (auto simp: vars_ok_def sign_ok_def fresh_for_def ts_reset_def)

lemma put_session_ok:
  assumes "bridge_ok b" and "vars_ok (l_MAX_FRAME_SIZE (b_linked b)) s'" and "distinct (session_keys ((b_transport_sessions b)[i := s']))"
  shows "bridge_ok (b\<lparr>b_transport_sessions := (b_transport_sessions b)[i := s']\<rparr>)"
  using assms by (auto simp: ok_defs list_all_iff dest: set_update_subset_insert [THEN subsetD])

lemma session_ok: "bridge_ok b \<Longrightarrow> i < length (b_transport_sessions b) \<Longrightarrow> vars_ok (l_MAX_FRAME_SIZE (b_linked b)) (b_transport_sessions b ! i)"
  by (auto simp: bridge_ok_def Let_def list_all_length)

lemma safe_replace_session:
  assumes "\<And>b. bridge_ok b \<Longrightarrow> b_linked b = l \<Longrightarrow> i < length (b_transport_sessions b) \<Longrightarrow>
    vars_ok (l_MAX_FRAME_SIZE l) (f b) \<and> distinct (session_keys ((b_transport_sessions b)[i := f b]))"
  shows "safe l s h (modify (\<lambda>b. b\<lparr>b_transport_sessions := (b_transport_sessions b)[i := f b]\<rparr>))"
proof (rule safe_modify)
  fix b assume b: "bridge_ok b" "attached_to l s h b"
  show "bridge_ok (b\<lparr>b_transport_sessions := (b_transport_sessions b)[i := f b]\<rparr>) \<and>
      attached_to l s h (b\<lparr>b_transport_sessions := (b_transport_sessions b)[i := f b]\<rparr>) \<and>
      b_env (b\<lparr>b_transport_sessions := (b_transport_sessions b)[i := f b]\<rparr>) = b_env b"
  proof (cases "i < length (b_transport_sessions b)")
    case True
    then show ?thesis using b put_session_ok [OF b(1)] assms [OF b(1) _ True] by (auto simp: attached_to_def)
  next
    case False
    then have "(b_transport_sessions b)[i := f b] = b_transport_sessions b" by (simp add: list_update_beyond)
    then show ?thesis using b by (simp add: attached_to_def bridge_ok_def Let_def vars_ok_def sign_ok_def)
  qed
qed

lemma safe_put_fresh:
  assumes ss: "session_slot tid ci ss = Some i" and b: "bridge_ok b" "attached_to l s h b" "ss = b_transport_sessions b"
    and r: "run_state (put_session i (fresh_for (l_MAX_FRAME_SIZE l) tid ci g)) b = (x, b')"
  shows "bridge_ok b' \<and> attached_to l s h b' \<and> env_moves l s h (b_env b) (b_env b')"
proof -
  let ?f = "fresh_for (l_MAX_FRAME_SIZE l) tid ci g"
  have b': "b' = b\<lparr>b_transport_sessions := ss[i := ?f]\<rparr>" using r b(3) by (simp add: put_session_def)
  have key: "ts_used ?f" "ts_id ?f = tid" "ts_client_index ?f = ci" by (simp_all add: fresh_for_def)
  have d: "distinct (session_keys ss)" using b by (simp add: bridge_ok_def Let_def)
  have "distinct (session_keys (ss[i := ?f]))"
  proof (cases "first_index (\<lambda>s. ts_used s \<and> ts_id s = tid \<and> ts_client_index s = ci) ss")
    case None
    then have i: "i < length ss \<and> \<not> ts_used (ss ! i)" using ss first_index_Some by (auto simp: session_slot_def)
    have "(tid, ci) \<notin> set (session_keys ss)" using None by (auto simp: first_index_None session_keys_def)
    then show ?thesis using session_keys_fresh [of i ss ?f] i key d by simp
  next
    case (Some j)
    then have "j = i" using ss by (simp add: session_slot_def)
    then have i: "i < length ss \<and> ts_used (ss ! i) \<and> ts_id (ss ! i) = tid \<and> ts_client_index (ss ! i) = ci"
      using first_index_Some [OF Some] by simp
    then show ?thesis using session_keys_update_same [of i ss ?f] key d by simp
  qed
  then have "bridge_ok b'" using b put_session_ok [OF b(1), of ?f i] fresh_vars_ok unfolding b' by (simp add: attached_to_def)
  then show ?thesis using b unfolding b' by (simp add: attached_to_def)
qed

lemma safe_ensure [safe_intros]: "safe l s h (ensureTransportSession tid ci g)"
proof (rule safeI)
  fix b x b' assume b: "bridge_ok b" "attached_to l s h b" and r: "run_state (ensureTransportSession tid ci g) b = (x, b')"
  let ?ss = "b_transport_sessions b" and ?m = "l_MAX_FRAME_SIZE l"
  have l: "l_MAX_FRAME_SIZE (b_linked b) = ?m" using b(2) by (simp add: attached_to_def)
  show "bridge_ok b' \<and> attached_to l s h b' \<and> env_moves l s h (b_env b) (b_env b')"
  proof (cases "session_slot tid ci ?ss")
    case None
    then show ?thesis using r b by (simp add: ensureTransportSession_def max_frame_def)
  next
    case (Some i)
    obtain u b1 where 1: "run_state (put_session i (fresh_for ?m tid ci g)) b = (u, b1)" by (meson surj_pair)
    have s1: "bridge_ok b1 \<and> attached_to l s h b1 \<and> env_moves l s h (b_env b) (b_env b1)"
      using safe_put_fresh [OF Some b refl 1] .
    obtain v b2 where 2: "run_state (when_host (\<lambda>h. env_do (h_cancelBinaryReqs (h_radio h)))) b1 = (v, b2)" by (meson surj_pair)
    have "safe l s h (when_host (\<lambda>h. env_do (h_cancelBinaryReqs (h_radio h))))" by (intro safe_intros)
    then have s2: "bridge_ok b2 \<and> attached_to l s h b2 \<and> env_moves l s h (b_env b) (b_env b2)"
      using safeD [OF _ _ _ 2] s1 by (meson rtranclp_trans)
    have "b' = b \<or> b' = b1 \<or> b' = b2"
      using r Some 1 2 l by (auto simp: ensureTransportSession_def max_frame_def split: if_splits)
    then show ?thesis using b s1 s2 by auto
  qed
qed

lemma vars_ok_load: "vars_ok mfs ts \<Longrightarrow> vars_ok mfs (load_vars ts b)"
  by (simp add: vars_ok_def sign_ok_def load_vars_def)

lemma vars_ok_save: "vars_ok mfs b \<Longrightarrow> vars_ok mfs (save_vars b ts)"
  by (simp add: vars_ok_def sign_ok_def save_vars_def)

lemma safe_load_session [safe_intros]: "i < MAX_TRANSPORT_SESSIONS \<Longrightarrow> safe l s h (loadTransportSession i)"
  unfolding loadTransportSession_def
proof (rule safe_modify)
  fix b :: "'a bridge" assume i: "i < MAX_TRANSPORT_SESSIONS" and b: "bridge_ok b" "attached_to l s h b"
  let ?b = "load_vars (b_transport_sessions b ! i) b"
  have "vars_ok (l_MAX_FRAME_SIZE (b_linked b)) ?b"
    using vars_ok_load session_ok [OF b(1), of i] i b(1) by (metis bridge_ok_def)
  moreover have "b_linked ?b = b_linked b" "b_transport_sessions ?b = b_transport_sessions b" "b_cmd_frame ?b = b_cmd_frame b"
      "b_serial ?b = b_serial b" "b_host ?b = b_host b" "b_env ?b = b_env b"
    by (simp_all add: load_vars_def)
  ultimately show "bridge_ok ?b \<and> attached_to l s h ?b \<and> b_env ?b = b_env b"
    using b by (simp add: bridge_ok_def attached_to_def Let_def)
qed

lemma safe_save_session [safe_intros]: "safe l s h (saveTransportSession i)"
  unfolding saveTransportSession_def
proof (rule safe_replace_session)
  fix b :: "'a bridge" assume b: "bridge_ok b" "b_linked b = l" "i < length (b_transport_sessions b)"
  have "vars_ok (l_MAX_FRAME_SIZE l) (save_vars b (b_transport_sessions b ! i))" using vars_ok_save b by (auto simp: bridge_ok_def Let_def)
  moreover have "session_keys ((b_transport_sessions b)[i := save_vars b (b_transport_sessions b ! i)]) = session_keys (b_transport_sessions b)"
    using b(3) by (intro session_keys_update_same) (simp_all add: save_vars_def)
  ultimately show "vars_ok (l_MAX_FRAME_SIZE l) (save_vars b (b_transport_sessions b ! i)) \<and>
      distinct (session_keys ((b_transport_sessions b)[i := save_vars b (b_transport_sessions b ! i)]))"
    using b(1) by (simp add: bridge_ok_def Let_def)
qed

lemma session_slot_bound: "session_slot tid ci ss = Some i \<Longrightarrow> i < length ss"
  by (auto simp: session_slot_def dest: first_index_Some split: option.splits)

lemma ensure_bound:
  assumes "run_state (ensureTransportSession tid ci g) b = (Some i, b')"
  shows "i < length (b_transport_sessions b)"
  using assms
  by (auto simp: ensureTransportSession_def max_frame_def put_session_def when_host_def env_do_def
      dest: session_slot_bound split: option.splits if_splits)

lemma safe_activate [safe_intros]: "safe l s h (activateTransportSession tid ci g)"
proof (rule safeI)
  fix b x b' assume b: "bridge_ok b" "attached_to l s h b" and r: "run_state (activateTransportSession tid ci g) b = (x, b')"
  obtain r1 b1 where 1: "run_state (ensureTransportSession tid ci g) b = (r1, b1)" by force
  note s1 = safeD [OF safe_ensure b 1]
  show "bridge_ok b' \<and> attached_to l s h b' \<and> env_moves l s h (b_env b) (b_env b')"
  proof (cases r1)
    case None
    then show ?thesis using r 1 s1 by (simp add: activateTransportSession_def)
  next
    case (Some i)
    then have "i < MAX_TRANSPORT_SESSIONS" using ensure_bound [of tid ci g b i b1] 1 b(1) by (simp add: bridge_ok_def Let_def)
    then have "safe l s h (do { loadTransportSession i; modify (\<lambda>b. b\<lparr>b_active_session := Some i\<rparr>); ret (Some i) })"
      by (intro safe_intros safe_modify) (auto simp: ok_defs)
    moreover have "run_state (do { loadTransportSession i; modify (\<lambda>b. b\<lparr>b_active_session := Some i\<rparr>); ret (Some i) }) b1 = (x, b')"
      using r 1 Some by (simp add: activateTransportSession_def)
    ultimately show ?thesis using s1 safeD by (meson rtranclp_trans)
  qed
qed

section \<open>Binary requests and the offline queue\<close>

lemma safe_set_binary [safe_intros]: "safe l s h (modify (\<lambda>b. b\<lparr>pending_binary := (pending_binary b)[k := r]\<rparr>))"
  by (rule safe_modify) (simp add: ok_defs)

lemma safe_expire [safe_intros]: "safe l s h expirePendingBinary"
  unfolding expirePendingBinary_def expire_slot_def by (intro safe_intros)

lemma safe_addToOfflineQueue [safe_intros]: "safe l s h (addToOfflineQueue sid per fr)"
  unfolding addToOfflineQueue_def
proof (rule safe_max_frame, rule safe_gets_bind, rule safe_option)
  fix b q' assume b: "bridge_ok b" "attached_to l s h b" and a: "addToOfflineQueueBuffer (l_MAX_FRAME_SIZE l) (offline b) sid per fr = Some q'"
  have "queue_ok (l_MAX_FRAME_SIZE l) q'" using addToOfflineQueueBuffer_ok [OF _ a] b by (simp add: ok_defs)
  then show "safe l s h (do { modify (\<lambda>b. b\<lparr>offline := q'\<rparr>); ret True })"
    by (intro safe_intros safe_modify) (simp add: ok_defs)
qed (rule safe_intros)

text \<open>Only sessions change, each keeping its identity.\<close>

lemma safe_update_session:
  assumes "\<And>ts. vars_ok (l_MAX_FRAME_SIZE l) ts \<Longrightarrow> vars_ok (l_MAX_FRAME_SIZE l) (g ts)"
    and "\<And>ts. ts_used (g ts) = ts_used ts \<and> ts_id (g ts) = ts_id ts \<and> ts_client_index (g ts) = ts_client_index ts"
  shows "safe l s h (modify (\<lambda>b. b\<lparr>b_transport_sessions := (b_transport_sessions b)[i := g (b_transport_sessions b ! i)]\<rparr>))"
proof (rule safe_replace_session)
  fix b :: "'a bridge" assume b: "bridge_ok b" "b_linked b = l" "i < length (b_transport_sessions b)"
  have "session_keys ((b_transport_sessions b)[i := g (b_transport_sessions b ! i)]) = session_keys (b_transport_sessions b)"
    using b(3) assms(2) by (intro session_keys_update_same) auto
  then show "vars_ok (l_MAX_FRAME_SIZE l) (g (b_transport_sessions b ! i)) \<and>
      distinct (session_keys ((b_transport_sessions b)[i := g (b_transport_sessions b ! i)]))"
    using b assms(1) session_ok [OF b(1,3)] by (simp add: bridge_ok_def Let_def)
qed

lemma safe_add_to_session [safe_intros]: "safe l s h (add_to_session_queue i sid per fr)"
proof (rule safeI)
  fix b x b' assume b: "bridge_ok b" "attached_to l s h b" and r: "run_state (add_to_session_queue i sid per fr) b = (x, b')"
  let ?m = "l_MAX_FRAME_SIZE l" and ?s = "b_transport_sessions b ! i"
  have l: "b_linked b = l" using b(2) by (simp add: attached_to_def)
  define g where "g = (\<lambda>ts :: TransportSession. case addToOfflineQueueBuffer ?m (offline ts) sid per fr of None \<Rightarrow> ts | Some q \<Rightarrow> ts\<lparr>offline := q\<rparr>)"
  have u: "safe l s h (modify (\<lambda>b. b\<lparr>b_transport_sessions := (b_transport_sessions b)[i := g (b_transport_sessions b ! i)]\<rparr>))"
    by (rule safe_update_session)
      (auto simp: g_def vars_ok_def sign_ok_def dest: addToOfflineQueueBuffer_ok split: option.split)
  have "b' = b\<lparr>b_transport_sessions := (b_transport_sessions b)[i := g ?s]\<rparr>"
    using r l by (auto simp: add_to_session_queue_def put_session_def max_frame_def g_def split: option.splits)
  then show "bridge_ok b' \<and> attached_to l s h b' \<and> env_moves l s h (b_env b) (b_env b')"
    using safe_modifyD [OF u b] by simp
qed

lemma safe_queueing [safe_intros]: "safe l s h peekOfflineQueue" "safe l s h (buildMessageFrame m v)" "safe l s h (session_live i)"
    "safe l s h (enqueue_for_session m p i)" "safe l s h (refill_message m)" "safe l s h (refillOfflineQueueFromStore n)"
  unfolding peekOfflineQueue_def buildMessageFrame_def session_live_def enqueue_for_session_def refill_message_def refillOfflineQueueFromStore_def
  by (intro safe_intros env_move.load)+

lemma safe_enqueue [safe_intros]: "safe l s h (enqueueMessage m)" "safe l s h (enqueueChannelData c q pl dt pay)" "safe l s h (notifySendConfirmed a t)"
  unfolding enqueueMessage_def enqueueChannelData_def enqueue_to_sessions_def notifySendConfirmed_def by (intro safe_intros)+

lemma safe_reset_identity [safe_intros]: "safe l s h (reset_identity_session i)"
proof (rule safeI)
  fix b x b' assume b: "bridge_ok b" "attached_to l s h b" and r: "run_state (reset_identity_session i) b = (x, b')"
  let ?m = "l_MAX_FRAME_SIZE l" and ?s = "b_transport_sessions b ! i"
  have l: "b_linked b = l" using b(2) by (simp add: attached_to_def)
  define c where "c = l_client_connected l (ts_id ?s) (ts_client_index ?s) (b_env b)"
  define g where "g = (\<lambda>ts. if ts_used ts then (fresh_for ?m (ts_id ts) (ts_client_index ts) (ts_generation ts))\<lparr>was_connected := c\<rparr> else ts)"
  have u: "safe l s h (modify (\<lambda>b. b\<lparr>b_transport_sessions := (b_transport_sessions b)[i := g (b_transport_sessions b ! i)]\<rparr>))"
    by (rule safe_update_session) (auto simp: g_def fresh_vars_ok, auto simp: fresh_for_def)
  have "b' = b\<lparr>b_transport_sessions := (b_transport_sessions b)[i := g ?s]\<rparr>"
    using r l by (auto simp: reset_identity_session_def put_session_def max_frame_def linked_look_def g_def c_def split: if_splits)
  then show "bridge_ok b' \<and> attached_to l s h b' \<and> env_moves l s h (b_env b) (b_env b')"
    using safe_modifyD [OF u b] by simp
qed

lemma safe_onIdentityChanged [safe_intros]: "safe l s h onIdentityChanged"
  unfolding onIdentityChanged_def by (intro safe_intros safe_modify) (auto simp: ok_defs)

section \<open>Pushes\<close>

lemma safe_when_connected [safe_intros]: "(c \<Longrightarrow> safe l s h m) \<Longrightarrow> safe l s h (when_connected c m)"
  unfolding when_connected_def by (intro safe_intros) auto

lemma safe_pushes [safe_intros]:
  "safe l s h (pushAdvert c n)" "safe l s h (pushPathUpdated c)" "safe l s h (pushPathDiscoveryResponse k ip il op ol)"
  "safe l s h (pushContactDeleted k)" "safe l s h pushContactsFull" "safe l s h (pushLoginResult k su pe t a fw lg)"
  "safe l s h (push_blob code k blob)" "safe l s h (pushStatusResponse k blob)" "safe l s h (pushTelemetryResponse k blob)"
  "safe l s h (pushRawData q r pay)" "safe l s h (pushControlData q r pl pay)" "safe l s h (pushTraceData t au fl hs qs pl fin)"
  unfolding pushAdvert_def pushPathUpdated_def pushPathDiscoveryResponse_def pushContactDeleted_def pushContactsFull_def pushLoginResult_def
    push_blob_def pushStatusResponse_def pushTelemetryResponse_def pushRawData_def pushControlData_def pushTraceData_def
  by (intro safe_intros)+

lemma safe_clear_request [safe_intros]: "safe l s h (clear_request i k)"
proof (rule safeI)
  fix b x b' assume b: "bridge_ok b" "attached_to l s h b" and r: "run_state (clear_request i k) b = (x, b')"
  let ?g = "\<lambda>ts :: TransportSession. ts\<lparr>pending_binary := (pending_binary ts)[k := no_request]\<rparr>"
  have u: "safe l s h (modify (\<lambda>b. b\<lparr>b_transport_sessions := (b_transport_sessions b)[i := ?g (b_transport_sessions b ! i)]\<rparr>))"
    by (rule safe_update_session) (auto simp: vars_ok_def sign_ok_def)
  have "b' = b\<lparr>pending_binary := (pending_binary b)[k := no_request]\<rparr> \<or>
      b' = b\<lparr>b_transport_sessions := (b_transport_sessions b)[i := ?g (b_transport_sessions b ! i)]\<rparr>"
    using r by (auto simp: clear_request_def split: if_splits)
  then show "bridge_ok b' \<and> attached_to l s h b' \<and> env_moves l s h (b_env b) (b_env b')"
    using safe_modifyD [OF u b] safe_modifyD [OF safe_set_binary b, of k no_request] by auto
qed

lemma safe_pushBinary [safe_intros]: "safe l s h (pushBinaryResponse t blob)"
proof -
  have fr: "safe l s h (push_to_owner t blob ow)" if "6 + length blob \<le> l_MAX_FRAME_SIZE l" for ow
    unfolding push_to_owner_def using that by (intro safe_intros env_move.send_to) (auto simp: binary_frame_def)
  have "safe l s h (case ows of [] \<Rightarrow> ret False | [ow] \<Rightarrow> push_to_owner t blob ow | _ # _ # _ \<Rightarrow> ret False)"
    if "6 + length blob \<le> l_MAX_FRAME_SIZE l" for ows
    using fr [OF that] by (cases ows rule: remdups_adj.cases) (auto intro: safe_intros)
  then show ?thesis unfolding pushBinaryResponse_def
    by (intro safe_bind safe_expire safe_max_frame safe_if safe_pure safe_option safe_connection safe_sendPush safe_set_binary) auto
qed

lemma safe_run_call [safe_intros]: "safe l s h (run_call c)"
  by (cases c) (auto intro!: safe_intros)

section \<open>Commands\<close>

declare host_move.intros [safe_intros]

lemma safe_host_call [safe_intros]:
  assumes "\<And>e. host_move h e (snd (f e))"
  shows "safe l s (Some h) (host_call f)"
  unfolding host_call_def by (intro safe_intros safe_env env_move.host [OF refl] assms)

lemma safe_ok_or [safe_intros]: "safe l s h m \<Longrightarrow> safe l s h (ok_or err m)"
  unfolding ok_or_def by (intro safe_intros)

lemma safe_device_query [safe_intros]: "safe l s h (do_device_query h' f)"
  unfolding do_device_query_def by (intro safe_intros safe_modify) (simp add: ok_defs)

lemma safe_app_start [safe_intros]: "safe l s h (do_app_start h')"
  unfolding do_app_start_def by (intro safe_intros safe_modify) (simp add: ok_defs)

lemma safe_get_contacts [safe_intros]: "safe l s h (do_get_contacts h' f len)"
  unfolding do_get_contacts_def by (intro safe_intros safe_modify) (simp_all add: ok_defs)

lemma safe_sync [safe_intros]: "safe l s h (do_sync_next_message h')"
  unfolding do_sync_next_message_def ack_inflight_def deliver_next_def
  by (intro safe_intros safe_modify env_move.mark) (simp_all add: ok_defs)

lemma safe_messages [safe_intros]: "safe l s (Some h) (do_send_txt_msg h f)" "safe l s (Some h) (do_send_channel_txt_msg h f)"
    "safe l s (Some h) (do_send_channel_data h f len)"
  unfolding do_send_txt_msg_def do_send_channel_txt_msg_def do_send_channel_data_def by ((intro safe_intros)+, auto)

lemma safe_settings_read [safe_intros]: "safe l s (Some h) (do_get_device_time h)" "safe l s (Some h) (do_get_batt_and_storage h)"
    "safe l s (Some h) (do_get_tuning_params h)" "safe l s (Some h) (do_get_channel h f)" "safe l s (Some h) (do_export_private_key h)"
    "safe l s (Some h) (do_get_autoadd_config h)"
  unfolding do_get_device_time_def do_get_batt_and_storage_def do_get_tuning_params_def do_get_channel_def do_export_private_key_def
    do_get_autoadd_config_def by (intro safe_intros)+

lemma safe_settings_write [safe_intros]: "safe l s (Some h) (do_set_device_time h f)" "safe l s (Some h) (do_set_advert_name h f len)"
    "safe l s (Some h) (do_set_advert_latlon h f len)" "safe l s (Some h) (do_set_radio_params h f len)"
    "safe l s (Some h) (do_set_radio_tx_power h f len)" "safe l s (Some h) (do_set_tuning_params h f len)"
    "safe l s (Some h) (do_send_self_advert h f len)" "safe l s (Some h) (do_set_channel h f)" "safe l s (Some h) (do_set_device_pin h f)"
    "safe l s (Some h) (do_import_private_key h f)" "safe l s (Some h) (do_set_other_params h f len)"
    "safe l s (Some h) (do_set_path_hash_mode h f)" "safe l s (Some h) (do_set_autoadd_config h f len)"
  unfolding do_set_device_time_def do_set_advert_name_def do_set_advert_latlon_def do_set_radio_params_def do_set_radio_tx_power_def
    do_set_tuning_params_def do_send_self_advert_def do_set_channel_def do_set_device_pin_def do_import_private_key_def
    do_set_other_params_def do_set_path_hash_mode_def do_set_autoadd_config_def by (intro safe_intros, assumption?)+

lemma safe_contacts [safe_intros]: "safe l s (Some h) (do_get_contact_by_key h f)" "safe l s (Some h) (do_reset_path h f)"
    "safe l s (Some h) (do_remove_contact h f)" "safe l s (Some h) (do_share_contact h f)" "safe l s (Some h) (do_export_contact h f len)"
    "safe l s (Some h) (do_import_contact h f len)" "safe l s (Some h) (do_has_connection h f)" "safe l s (Some h) (do_logout h f)"
  unfolding do_get_contact_by_key_def do_reset_path_def do_remove_contact_def do_share_contact_def do_export_contact_def
    do_import_contact_def do_has_connection_def do_logout_def by (intro safe_intros)+

lemma safe_add_update [safe_intros]: "safe l s (Some h) (do_add_update_contact h f len)"
  unfolding do_add_update_contact_def by (intro safe_intros) (simp add: contact_of_frame_def)

lemma safe_factory_reset [safe_intros]: "safe l s (Some h) (do_factory_reset h)"
proof -
  have F: "safe l s (Some h) (gets b_serial \<bind> (\<lambda>serial. do {
      (if active then ignore (linked_env (\<lambda>l. l_set_enabled l tid False))
       else case serial of None \<Rightarrow> ret () | Some s \<Rightarrow> env_do (s_disable s));
      ok_or ERR_CODE_FILE_IO_ERROR (host_call (h_factoryReset (h_contacts h))) }))" for active tid
  proof (rule safe_gets_bind)
    fix b assume "attached_to l s (Some h) b"
    then have "b_serial b = s" by (simp add: attached_to_def)
    then show "safe l s (Some h) (do {
      (if active then ignore (linked_env (\<lambda>l. l_set_enabled l tid False))
       else case b_serial b of None \<Rightarrow> ret () | Some s \<Rightarrow> env_do (s_disable s));
      ok_or ERR_CODE_FILE_IO_ERROR (host_call (h_factoryReset (h_contacts h))) })"
      by (intro safe_intros env_move.set_enabled safe_env_do env_move.serial_disable) simp
  qed
  show ?thesis unfolding do_factory_reset_def by (rule safe_bind, rule safe_pure, rule safe_bind, rule safe_pure, rule F)
qed

lemma safe_system [safe_intros]: "safe l s (Some h) (do_get_stats h f)" "safe l s (Some h) (do_get_allowed_repeat_freq h)"
    "safe l s (Some h) (do_get_custom_vars h)" "safe l s (Some h) (do_set_custom_var h f)" "safe l s (Some h) (do_get_advert_path h f)"
    "safe l s (Some h) (do_send_path_discovery_req h f)" "safe l s (Some h) (do_get_default_flood_scope h)"
    "safe l s (Some h) (do_set_default_flood_scope h f len)" "safe l s (Some h) (do_set_flood_scope_key h f len)"
  unfolding do_get_stats_def do_get_allowed_repeat_freq_def do_get_custom_vars_def do_set_custom_var_def do_get_advert_path_def
    do_send_path_discovery_req_def do_get_default_flood_scope_def do_set_default_flood_scope_def do_set_flood_scope_key_def
  by (intro safe_intros)+

lemma safe_sign_start [safe_intros]: "safe l s h do_sign_start"
proof -
  have "safe l s h (modify (\<lambda>b. b\<lparr>sign_active := True\<rparr>))" by (rule safe_modify) (simp add: ok_defs)
  then show ?thesis unfolding do_sign_start_def by (intro safe_bind safe_intros)
qed

lemma sign_data_ok:
  assumes "sign_ok b" and "n = sign_len b" and "n + length d \<le> SIGURDOS_COMPANION_MAX_SIGN_DATA"
    and "sign_active b" and "m = n + length d"
  shows "sign_ok (b\<lparr>sign_buf := overwrite (sign_buf b) n d, sign_len := m\<rparr>)"
proof -
  have len: "length (sign_buf b) = SIGURDOS_COMPANION_MAX_SIGN_DATA" using assms(1) by (simp add: sign_ok_def)
  have "drop m (overwrite (sign_buf b) n d) = drop m (sign_buf b)" using assms(3,5) len by (simp add: overwrite_def)
  moreover have "set (drop m (sign_buf b)) \<subseteq> set (drop n (sign_buf b))" using assms(5) by (intro set_drop_subset_set_drop) simp
  ultimately show ?thesis using assms len by (auto simp: sign_ok_def)
qed

lemma safe_sign_data [safe_intros]:
  assumes "len \<le> length f"
  shows "safe l s h (do_sign_data f len)"
proof (rule safeI)
  fix b x b' assume b: "bridge_ok b" "attached_to l s h b" and r: "run_state (do_sign_data f len) b = (x, b')"
  let ?d = "slice f 1 (len - 1)"
  let ?b1 = "b\<lparr>sign_buf := overwrite (sign_buf b) (sign_len b) ?d, sign_len := sign_len b + (len - 1)\<rparr>"
  let ?fits = "sign_active b \<and> sign_len b + (len - 1) \<le> SIGURDOS_COMPANION_MAX_SIGN_DATA"
  have "length ?d = len - 1" using assms by (simp add: slice_def)
  then have ok: "?fits \<Longrightarrow> bridge_ok ?b1 \<and> attached_to l s h ?b1"
    using b sign_data_ok [of b "sign_len b" ?d] by (simp add: bridge_ok_def vars_ok_def attached_to_def Let_def)
  have env: "b_env ?b1 = b_env b" by simp
  show "bridge_ok b' \<and> attached_to l s h b' \<and> env_moves l s h (b_env b) (b_env b')"
  proof (cases ?fits)
    case True
    then have "run_state writeOKFrame ?b1 = (x, b')" using r by (simp add: do_sign_data_def)
    then show ?thesis using safeD [OF safe_respond(2)] ok [OF True] env by metis
  next
    case False
    then have "run_state (writeErrFrame (if \<not> sign_active b then ERR_CODE_BAD_STATE else ERR_CODE_TABLE_FULL)) b = (x, b')"
      using r by (simp add: do_sign_data_def split: if_splits)
    then show ?thesis using safeD [OF safe_respond(3) b] by blast
  qed
qed

lemma safe_sign_finish [safe_intros]: "safe l s (Some h) (do_sign_finish h)"
proof -
  have F: "safe l s (Some h) (gets (\<lambda>b. take (sign_len b) (sign_buf b)) \<bind> (\<lambda>data. do {
      sig \<leftarrow> host_call (h_signData (h_contacts h) data);
      clearSigningState;
      if length sig > 0 then respond ([RESP_CODE_SIGNATURE] @ sig) else writeErrFrame ERR_CODE_BAD_STATE }))"
    by (rule safe_gets_bind, intro safe_intros) (simp add: ok_defs)
  show ?thesis unfolding do_sign_finish_def by (rule safe_bind, rule safe_pure, rule safe_if, rule safe_respond, rule F)
qed

lemma safe_requests [safe_intros]: "safe l s (Some h) (do_send_login h f)" "safe l s (Some h) (do_send_status_req h f)"
    "safe l s (Some h) (do_self_telemetry h)" "safe l s (Some h) (do_send_telemetry_req h f)"
    "safe l s (Some h) (do_send_binary_req h f len)" "safe l s (Some h) (do_send_anon_req h f len)"
    "safe l s (Some h) (do_send_trace_path h f len)" "safe l s (Some h) (do_send_control_data h f len)"
  unfolding do_send_login_def do_send_status_req_def do_self_telemetry_def do_send_telemetry_req_def do_send_binary_req_def
    record_binary_def do_send_anon_req_def do_send_trace_path_def do_send_control_data_def
  by (intro safe_intros)+

lemma safe_send_raw_data [safe_intros]: "safe l s (Some h) (do_send_raw_data h f len)"
  unfolding do_send_raw_data_def by (intro safe_intros) auto

lemma safe_handle_command [safe_intros]: "len \<le> length f \<Longrightarrow> safe l s (Some h) (handle_command h f len)"
  unfolding handle_command_def dispatch_session_def dispatch_settings_def dispatch_contacts_def dispatch_system_def dispatch_requests_def
  by (intro safe_intros)

section \<open>Frames and service loops\<close>

lemma safe_handleFrame [safe_intros]: "safe l s h (handleFrame frame)"
proof -
  have cmd: "safe l s (Some h') (do {
      modify (\<lambda>b. b\<lparr>b_cmd_frame := (overwrite (b_cmd_frame b) 0 frame)[length frame := 0]\<rparr>);
      f \<leftarrow> gets b_cmd_frame;
      handle_command h' f (length frame);
      modify (\<lambda>b. b\<lparr>b_cmd_frame := secureWipe (b_cmd_frame b)\<rparr>);
      ret True })" if "length frame \<le> l_MAX_FRAME_SIZE l" for h'
  proof (rule safe_bind)
    show "safe l s (Some h') (modify (\<lambda>b. b\<lparr>b_cmd_frame := (overwrite (b_cmd_frame b) 0 frame)[length frame := 0]\<rparr>))"
      using that by (intro safe_modify) (simp add: ok_defs)
    show "safe l s (Some h') (do {
      f \<leftarrow> gets b_cmd_frame;
      handle_command h' f (length frame);
      modify (\<lambda>b. b\<lparr>b_cmd_frame := secureWipe (b_cmd_frame b)\<rparr>);
      ret True })" for x :: unit
      using that by (intro safe_gets_bind safe_bind safe_handle_command safe_pure safe_modify) (auto simp: ok_defs)
  qed
  show ?thesis unfolding handleFrame_def
  proof (rule safe_max_frame, rule safe_gets_bind, rule safe_bind, rule safe_pure, rule safe_option)
    fix b h' x assume "attached_to l s h b" "b_host b = Some h'"
    then have h: "h = Some h'" by (simp add: attached_to_def)
    show "safe l s h (if x \<or> length frame = 0 \<or> l_MAX_FRAME_SIZE l < length frame then ret False
        else refreshConnectionSession \<bind> (\<lambda>_. gets (\<lambda>b. pending_response_len b \<noteq> 0) \<bind> (\<lambda>waiting.
          if waiting then ret False
          else expirePendingBinary \<bind> (\<lambda>_. modify (\<lambda>b. b\<lparr>b_cmd_frame := (overwrite (b_cmd_frame b) 0 frame)[length frame := 0]\<rparr>) \<bind>
            (\<lambda>_. gets b_cmd_frame \<bind> (\<lambda>f. handle_command h' f (length frame) \<bind>
              (\<lambda>_. modify (\<lambda>b. b\<lparr>b_cmd_frame := secureWipe (b_cmd_frame b)\<rparr>) \<bind> (\<lambda>_. ret True))))))))"
      unfolding h by (rule safe_if, rule safe_pure, (rule safe_bind, rule safe_refresh | rule safe_bind, rule safe_pure |
          rule safe_if, rule safe_pure | rule safe_bind, rule safe_expire | rule cmd, simp)+)
  qed (rule safe_intros)
qed

lemma safe_service_contacts [safe_intros]: "safe l s h (service_contacts h')"
  unfolding service_contacts_def by (intro safe_intros safe_modify) (auto simp: ok_defs)

lemma safe_request_scope [safe_intros]: "safe l s h (begin_request tid ci g)" "safe l s h end_request"
  unfolding begin_request_def end_request_def by (rule safe_modify, simp add: ok_defs)+

lemma safe_service [safe_intros]: "safe l s h serviceCurrentSession"
  unfolding serviceCurrentSession_def by (intro safe_intros)

lemma safe_handleTransportFrame [safe_intros]: "safe l s h (handleTransportFrame frame tid ci g)"
  unfolding handleTransportFrame_def by (intro safe_intros)

lemma safe_transportFrameHandler [safe_intros]: "safe l s h (transportFrameHandler frame tid)"
  unfolding transportFrameHandler_def by (intro safe_intros)

lemma safe_service_session [safe_intros]: "i < MAX_TRANSPORT_SESSIONS \<Longrightarrow> safe l s h (service_session i)"
  unfolding service_session_def by (intro safe_intros safe_modify) (simp add: ok_defs)

lemma safe_transportService [safe_intros]: "safe l s h transportServiceHandler"
proof -
  have slots: "safe l s h (for_each materialize_slot transport_slots)" unfolding materialize_slot_def by (intro safe_intros)
  have "safe l s h (gets (\<lambda>b. length (b_transport_sessions b)) \<bind> (\<lambda>n. for_each service_session [0..<n]))"
    by (rule safe_gets_bind, intro safe_intros) (simp add: bridge_ok_def Let_def)
  then have "safe l s h serviceTransportSessions" unfolding serviceTransportSessions_def by (rule safe_bind [OF slots])
  then show ?thesis unfolding transportServiceHandler_def by (rule safe_bind [OF safe_pure(2) safe_if]) (rule safe_pure)
qed

text \<open>\<open>checkRecvFrame\<close> fills a buffer of \<open>MAX_FRAME_SIZE\<close> bytes.\<close>

definition recv_bounded :: "'e linked \<Rightarrow> 'e BaseSerialInterface option \<Rightarrow> bool" where
  "recv_bounded l s \<longleftrightarrow> (\<forall>s' e. s = Some s' \<longrightarrow> length (fst (s_checkRecvFrame s' e)) \<le> l_MAX_FRAME_SIZE l)"

lemma safe_receive:
  assumes "recv_bounded l s" and s: "s = Some s'"
  shows "safe l s h (receive_command s')"
proof (rule safeI)
  fix b x b' assume b: "bridge_ok b" "attached_to l s h b" and r: "run_state (receive_command s') b = (x, b')"
  obtain fr e where f: "s_checkRecvFrame s' (b_env b) = (fr, e)" by force
  have len: "length fr \<le> l_MAX_FRAME_SIZE l" using assms f unfolding recv_bounded_def by (metis fst_conv)
  have mv: "env_move l s h (b_env b) e" using env_move.serial_recv [OF s, of l h "b_env b"] f by simp
  have "safe l s h (if length fr > 0 then do {
      modify (\<lambda>b. b\<lparr>b_cmd_frame := overwrite (b_cmd_frame b) 0 fr\<rparr>); ignore (handleFrame fr) } else ret ())"
    by (intro safe_intros safe_modify) (use len in \<open>simp add: ok_defs\<close>)
  moreover have "run_state (if length fr > 0 then do {
      modify (\<lambda>b. b\<lparr>b_cmd_frame := overwrite (b_cmd_frame b) 0 fr\<rparr>); ignore (handleFrame fr) } else ret ()) (b\<lparr>b_env := e\<rparr>) = (x, b')"
    using r f by (simp add: receive_command_def env_def)
  ultimately have "bridge_ok b' \<and> attached_to l s h b' \<and> env_moves l s h e (b_env b')"
    using safeD [of l s h _ "b\<lparr>b_env := e\<rparr>" x b'] b by simp
  then show "bridge_ok b' \<and> attached_to l s h b' \<and> env_moves l s h (b_env b) (b_env b')"
    using mv by (meson converse_rtranclp_into_rtranclp)
qed

lemma safe_loop:
  assumes "recv_bounded l s"
  shows "safe l s h bridge_loop"
  unfolding bridge_loop_def
proof (rule safe_gets_bind, rule safe_bind, rule safe_pure, rule safe_option)
  fix b s' x assume "attached_to l s h b" "b_serial b = Some s'"
  then have s: "s = Some s'" by (simp add: attached_to_def)
  show "safe l s h (if x = None then ret () else do {
      refreshConnectionSession;
      on \<leftarrow> look (s_isEnabled s');
      if \<not> on then ret ()
      else do {
        expirePendingBinary;
        flushed \<leftarrow> flushPendingResponse;
        if \<not> flushed then ret () else do { receive_command s'; serviceCurrentSession } } })"
    by (intro safe_intros safe_receive [OF assms s])
qed (rule safe_intros)

section \<open>Reachable states\<close>

text \<open>The sizes of the bridge's arrays; what the arrays contain before \<open>begin\<close> does not matter.\<close>

definition arrays_ok :: "'e bridge \<Rightarrow> bool" where
  "arrays_ok b \<longleftrightarrow> length (b_cmd_frame b) = l_MAX_FRAME_SIZE (b_linked b) + 1 \<and>
     length (pending_response b) = l_MAX_FRAME_SIZE (b_linked b) \<and> length (sign_buf b) = SIGURDOS_COMPANION_MAX_SIGN_DATA \<and>
     length (pending_binary b) = MAX_PENDING_BINARY_REQUESTS \<and> length (b_transport_sessions b) = MAX_TRANSPORT_SESSIONS"

lemma begin_ok:
  assumes "arrays_ok b" and "run_state (bridge_begin s h src) b = (x, b')"
  shows "bridge_ok b' \<and> attached_to (b_linked b) s h b'"
proof -
  have un: "session_keys (map (\<lambda>_. ts_reset mfs) ss) = []" for mfs and ss :: "TransportSession list"
    by (simp add: session_keys_def ts_reset_def filter_empty_conv)
  have "list_all (vars_ok mfs) (map (\<lambda>_. ts_reset mfs) ss)" for mfs and ss :: "TransportSession list"
    by (simp add: list_all_iff fresh_vars_ok)
  then show ?thesis using assms un
    by (auto simp: bridge_begin_def clearSigningState_def clearInflightMessage_def clearPendingBinary_def ok_defs arrays_ok_def
        dest: in_set_dropD)
qed

datatype bridge_event = Transport_frame "byte list" TransportId | Service | Serial_loop | Mesh_call bridge_call

fun run_event :: "bridge_event \<Rightarrow> ('e, unit) br" where
  "run_event (Transport_frame frame tid) = transportFrameHandler frame tid"
| "run_event Service = transportServiceHandler"
| "run_event Serial_loop = bridge_loop"
| "run_event (Mesh_call c) = run_call c"

text \<open>
  The states of a bridge that was started with the serial link \<open>s\<close> and the host \<open>h\<close>. Between two events
  the environment may change in any way: clients come and go, messages arrive, time passes.
\<close>

inductive reachable :: "'e linked \<Rightarrow> 'e BaseSerialInterface option \<Rightarrow> 'e CompanionBridgeHost option \<Rightarrow> 'e bridge \<Rightarrow> bool"
  for l s h where
  started: "arrays_ok b \<Longrightarrow> b_linked b = l \<Longrightarrow> reachable l s h (snd (run_state (bridge_begin s h src) b))"
| event: "reachable l s h b \<Longrightarrow> reachable l s h (snd (run_state (run_event ev) b))"
| world: "reachable l s h b \<Longrightarrow> reachable l s h (b\<lparr>b_env := e\<rparr>)"

inductive_cases reachable_cases: "reachable l s h b"

lemma safe_event: "recv_bounded l s \<Longrightarrow> safe l s h (run_event ev)"
  by (cases ev) (auto intro!: safe_intros safe_loop)

lemma reachable_ok:
  assumes "reachable l s h b" and "recv_bounded l s"
  shows "bridge_ok b \<and> attached_to l s h b"
  using assms
proof (induction rule: reachable.induct)
  case (started b src)
  then show ?case using begin_ok [of b s h src] by (metis prod.collapse)
next
  case (event b ev)
  then show ?case using safeD [OF safe_event [OF event.prems, of h ev]] by (metis prod.collapse)
qed simp

end
