(* ===== verification/BridgeSample.thy ===== *)
theory BridgeSample
  imports BridgeLogic Backlog
begin

text \<open>
  A concrete environment for the companion bridge: one TCP client, whose received frames are
  recorded, the message log of \<open>MessageStore\<close> on a working flash, and a host without contacts that
  accepts every request. It is the environment in which the theorems about the bridge are
  applied to concrete inputs.
\<close>

definition quiet_self :: CompanionSelfInfo where
  "quiet_self = \<lparr>si_pub_key = replicate 32 0x11, si_node_name = pad_to 32 [0x4E], si_advert_type = 1, si_tx_power_dbm = 20,
     si_max_tx_power_dbm = 22, si_lat = 0, si_lon = 0, si_multi_acks = 0, si_advert_loc_policy = 0, si_telemetry_modes = 0,
     si_manual_add_contacts = 0, si_freq_khz = 869525, si_bw_hz = 250000, si_sf = 11, si_cr = 5\<rparr>"

definition quiet_result :: CompanionSendResult where
  "quiet_result = \<lparr>sr_ok = True, sr_sent_flood = False, sr_expected_ack = 1, sr_est_timeout = 0\<rparr>"

definition quiet_status :: "'e HostStatus" where
  "quiet_status = \<lparr>h_blePin = (\<lambda>_. 0), h_clientRepeat = (\<lambda>_. 0), h_pathHashMode = (\<lambda>_. 0),
     h_selfInfo = (\<lambda>_. quiet_self), h_currentTime = (\<lambda>_. 0), h_monotonicMillis = (\<lambda>_. 0),
     h_batteryMilliVolts = (\<lambda>_. 0), h_storageUsedKb = (\<lambda>_. 0), h_storageTotalKb = (\<lambda>_. 0),
     h_exportPrivateKey = (\<lambda>_. None), h_tuningParams = (\<lambda>_. (0, 0)),
     h_getAutoAddConfig = (\<lambda>_. (0, 0))\<rparr>"

definition quiet_tables :: "'e HostTables" where
  "quiet_tables = \<lparr>h_contactCount = (\<lambda>_. 0), h_getContact = (\<lambda>_ _. None), h_channelCount = (\<lambda>_. 0),
     h_getChannel = (\<lambda>_ _. None), h_getContactByPubKey = (\<lambda>_ _. None),
     h_hasConnectionTo = (\<lambda>_ _. True),
     h_coreStats = (\<lambda>_. \<lparr>cs_batt_mv = 0, cs_uptime_secs = 0, cs_err_flags = 0, cs_queue_len = 0\<rparr>),
     h_radioStats = (\<lambda>_. \<lparr>rs_noise_floor = 0, rs_last_rssi = 0, rs_last_snr_quarters = 0, rs_tx_air_secs = 0, rs_rx_air_secs = 0\<rparr>),
     h_packetStats = (\<lambda>_. \<lparr>ps_recv = 0, ps_sent = 0, ps_sent_flood = 0, ps_sent_direct = 0, ps_recv_flood = 0, ps_recv_direct = 0, ps_recv_errors = 0\<rparr>),
     h_allowedRepeatFreqRanges = (\<lambda>_ _. []), h_getDefaultFloodScope = (\<lambda>_. None),
     h_selfTelemetry = (\<lambda>_. []), h_getCustomVars = (\<lambda>_ _. []), h_getAdvertPath = (\<lambda>_ _. None)\<rparr>"

definition quiet_settings :: "'e HostSettings" where
  "quiet_settings = \<lparr>h_setCurrentTime = (\<lambda>_ e. ((True, []), e)), h_setChannel = (\<lambda>_ _ e. ((True, []), e)),
     h_setAdvertName = (\<lambda>_ e. ((True, []), e)), h_setAdvertLatLon = (\<lambda>_ _ e. ((True, []), e)),
     h_setBlePin = (\<lambda>_ e. ((True, []), e)), h_importPrivateKey = (\<lambda>_ e. ((True, []), e)),
     h_setRadioParams = (\<lambda>_ _ _ _ _ e. ((True, []), e)), h_setRadioTxPower = (\<lambda>_ e. ((True, []), e)),
     h_setTuningParams = (\<lambda>_ _ e. ((True, []), e)), h_setOtherParams = (\<lambda>_ e. ((True, []), e)),
     h_setPathHashMode = (\<lambda>_ e. ((True, []), e)), h_setAutoAddConfig = (\<lambda>_ _ e. ((True, []), e)),
     h_setDefaultFloodScope = (\<lambda>_ e. ((True, []), e)),
     h_setFloodScopeOverride = (\<lambda>_ _ e. ((True, []), e)), h_setCustomVar = (\<lambda>_ _ e. ((True, []), e))\<rparr>"

definition quiet_contacts :: "'e HostContacts" where
  "quiet_contacts = \<lparr>h_addOrUpdateContact = (\<lambda>_ e. ((True, []), e)),
     h_removeContactByPubKey = (\<lambda>_ e. ((True, []), e)), h_resetPathByPubKey = (\<lambda>_ e. ((True, []), e)),
     h_shareContactByPubKey = (\<lambda>_ e. ((True, []), e)),
     h_exportContactByPubKey = (\<lambda>_ _ e. (([], []), e)), h_importContact = (\<lambda>_ e. ((True, []), e)),
     h_logout = (\<lambda>_ e. (((), []), e)), h_reboot = (\<lambda>e. (((), []), e)),
     h_factoryReset = (\<lambda>e. ((True, []), e)), h_signData = (\<lambda>_ e. (([], []), e))\<rparr>"

definition quiet_radio :: "'e HostRadio" where
  "quiet_radio = \<lparr>h_sendTextByPubKeyPrefix = (\<lambda>_ _ _ _ _ e. ((quiet_result, []), e)),
     h_sendChannelText = (\<lambda>_ _ _ e. ((quiet_result, []), e)),
     h_sendChannelData = (\<lambda>_ _ _ _ _ e. ((True, []), e)), h_sendRawData = (\<lambda>_ _ _ e. ((True, []), e)),
     h_sendControlData = (\<lambda>_ e. ((True, []), e)), h_sendAdvert = (\<lambda>_ e. ((True, []), e)),
     h_sendLogin = (\<lambda>_ _ e. ((quiet_result, []), e)),
     h_sendStatusReq = (\<lambda>_ e. ((quiet_result, []), e)),
     h_sendTelemetryReq = (\<lambda>_ e. ((quiet_result, []), e)),
     h_sendBinaryReq = (\<lambda>_ _ e. ((quiet_result, []), e)),
     h_sendAnonReq = (\<lambda>_ _ e. ((quiet_result, []), e)), h_cancelBinaryReq = (\<lambda>_ e. e),
     h_cancelBinaryReqs = (\<lambda>e. e), h_sendTracePath = (\<lambda>_ _ _ _ e. ((quiet_result, []), e)),
     h_sendPathDiscovery = (\<lambda>_ e. ((quiet_result, []), e))\<rparr>"

definition quiet_host :: "'e CompanionBridgeHost" where
  "quiet_host = \<lparr>h_status = quiet_status, h_tables = quiet_tables, h_settings = quiet_settings, h_contacts = quiet_contacts,
     h_radio = quiet_radio\<rparr>"

lemmas quiet_defs = quiet_host_def quiet_status_def quiet_tables_def quiet_settings_def quiet_contacts_def quiet_radio_def

record demo_env =
  de_out :: "byte list list"
  de_store :: "unit mstore"

definition demo_send :: "TransportId \<Rightarrow> int \<Rightarrow> byte list \<Rightarrow> demo_env \<Rightarrow> bool \<times> demo_env" where
  "demo_send tid ci fr e = (if tid = TCP \<and> ci = 0 then (True, e\<lparr>de_out := de_out e @ [fr]\<rparr>) else (False, e))"

definition on_store :: "(unit mstore \<Rightarrow> 'a \<times> unit mstore) \<Rightarrow> demo_env \<Rightarrow> 'a \<times> demo_env" where
  "on_store f e = (case f (de_store e) of (a, st) \<Rightarrow> (a, e\<lparr>de_store := st\<rparr>))"

definition demo_linked :: "demo_env linked" where
  "demo_linked = \<lparr>l_attached = (\<lambda>_. True), l_client_connected = (\<lambda>tid ci _. tid = TCP \<and> ci = 0),
     l_client_generation = (\<lambda>tid ci _. if tid = TCP \<and> ci = 0 then 7 else 0), l_current_request = (\<lambda>_. Some (TCP, 0, 7)),
     l_send_to_result = demo_send, l_broadcast_result = (\<lambda>tid. demo_send tid 0), l_set_enabled = (\<lambda>_ _ e. (True, e)),
     l_transport_enabled = (\<lambda>tid _. tid = TCP), l_status_connected = (\<lambda>tid _. tid = TCP),
     l_companionTransportsAllowed = (\<lambda>_. True), l_loadUnsent = (\<lambda>n. on_store (store_load n)),
     l_markCompanionSent = (\<lambda>i. on_store (store_mark i)), l_MAX_FRAME_SIZE = 172, l_MAX_CONTACTS = 350,
     l_BUILD_DATE = bytes_of ''Jan  1 2026'', l_FIRMWARE_VERSION = bytes_of ''SigurdOS''\<rparr>"

text \<open>The bridge object before \<open>begin\<close>.\<close>

definition blank_bridge :: "demo_env \<Rightarrow> demo_env bridge" where
  "blank_bridge e = \<lparr>app_target_ver = 3, version_negotiated = True, iter_filter_since = 0, most_recent_lastmod = 0, contact_iter = -1,
     offline = [], pending_binary = replicate MAX_PENDING_BINARY_REQUESTS no_request, pending_response = replicate 172 0,
     pending_response_len = 0, sign_buf = replicate SIGURDOS_COMPANION_MAX_SIGN_DATA 0, sign_len = 0, sign_active = False,
     was_connected = False, connection_generation = 0, inflight_store_id = 0, inflight_generation = 0,
     b_serial = None, b_session = None, b_host = None, b_last_sync_time = 0, b_cmd_frame = replicate 173 0, b_push_drop_count = 0,
     b_transport_request_active = False, b_request_transport = BLE, b_request_client_index = -1, b_request_generation = 0,
     b_active_session = None, b_transport_sessions = replicate MAX_TRANSPORT_SESSIONS (ts_reset 172), b_registered = False,
     b_linked = demo_linked, b_env = e\<rparr>"

definition demo_bridge :: "demo_env \<Rightarrow> demo_env bridge" where
  "demo_bridge e = snd (run_state (bridge_begin None (Some quiet_host) None) (blank_bridge e))"

lemma demo_mfs [simp]: "l_MAX_FRAME_SIZE demo_linked = 172"
  by (simp add: demo_linked_def)

lemma blank_arrays: "arrays_ok (blank_bridge e)" "b_linked (blank_bridge e) = demo_linked"
  by (simp_all add: arrays_ok_def blank_bridge_def)

lemma demo_reachable: "reachable demo_linked None (Some quiet_host) (demo_bridge e)"
  unfolding demo_bridge_def using blank_arrays by (rule reachable.started)

lemma demo_recv: "recv_bounded demo_linked None"
  by (simp add: recv_bounded_def)

end
