(* ===== verification/BridgeProps.thy ===== *)
theory BridgeProps
  imports BridgeSample
begin

text \<open>
  What the companion bridge promises about its state, its environment and the separation of its
  clients.
\<close>

section \<open>Every state and every call\<close>

definition demo_world :: demo_env where
  "demo_world = \<lparr>de_out = [], de_store = log_of two_messages 3\<rparr>"

text \<open>
  C10: the bridge never leaves its well-formed states. Whatever transport frames, service ticks,
  serial polls and calls of the mesh side arrive, and however the environment changes in between,
  the offline queues hold at most 16 non-empty frames of at most \<open>MAX_FRAME_SIZE\<close> bytes without
  duplicates, the signing buffer holds nothing beyond the bytes of the signature in progress, the
  pending response fits its buffer, and no client owns two session slots.
\<close>

theorem bridge_state_well_formed:
  assumes "reachable l s h b" and "recv_bounded l s"
  shows "bridge_ok b"
  using reachable_ok [OF assms] by blast

theorem bridge_state_well_formed_witness:
  "bridge_ok (snd (run_state (run_event (Transport_frame [CMD_SIGN_START] TCP)) (demo_bridge demo_world)))"
  by (rule bridge_state_well_formed [OF reachable.event [OF demo_reachable] demo_recv])

text \<open>
  C28: what one event does to the world outside is a sequence of permitted calls. Every frame
  handed to a transport or the serial link has between one and \<open>MAX_FRAME_SIZE\<close> bytes, a message
  is marked as delivered only under a real id, and the host is only asked for what its
  interface allows: BLE pins in range, contacts with a valid path length, raw paths of at most 63
  bytes, channel data with a type, at most 8192 bytes to sign.
\<close>

theorem bridge_calls_in_bounds:
  assumes "reachable l s h b" and "recv_bounded l s" and "run_state (run_event ev) b = (x, b')"
  shows "env_moves l s h (b_env b) (b_env b')"
  using safeD [OF safe_event [OF assms(2), of h ev] _ _ assms(3)] reachable_ok [OF assms(1,2)] by blast

theorem bridge_calls_in_bounds_witness:
  "env_moves demo_linked None (Some quiet_host) (b_env (demo_bridge demo_world))
     (b_env (snd (run_state (run_event (Transport_frame [CMD_SIGN_START] TCP)) (demo_bridge demo_world))))"
  using bridge_calls_in_bounds [OF demo_reachable demo_recv surjective_pairing] .

section \<open>A client slot that changes hands\<close>

lemma load_vars_load_vars: "load_vars s (load_vars t b) = load_vars s b"
  by (simp add: load_vars_def)

lemma load_vars_fields [simp]: "b_transport_sessions (load_vars s b) = b_transport_sessions b" "b_linked (load_vars s b) = b_linked b"
  "b_env (load_vars s b) = b_env b" "b_host (load_vars s b) = b_host b"
  by (simp_all add: load_vars_def)

lemma load_vars_sessions [simp]:
  "(load_vars s b)\<lparr>b_transport_sessions := ss\<rparr> = load_vars s (b\<lparr>b_transport_sessions := ss\<rparr>)"
  "(load_vars s b)\<lparr>b_env := e\<rparr> = load_vars s (b\<lparr>b_env := e\<rparr>)"
  by (simp_all add: load_vars_def)

lemma session_slot_used:
  assumes "session_slot tid ci ss = Some i" and "ts_used (ss ! i)"
  shows "i < length ss \<and> ts_id (ss ! i) = tid \<and> ts_client_index (ss ! i) = ci \<and>
    (\<forall>j < i. \<not> (ts_used (ss ! j) \<and> ts_id (ss ! j) = tid \<and> ts_client_index (ss ! j) = ci))"
  using assms by (auto simp: session_slot_def split: option.splits dest!: first_index_Some)

lemma session_slot_update:
  assumes "session_slot tid ci ss = Some i" and "ts_used (ss ! i)" and "ts_used s" "ts_id s = tid" "ts_client_index s = ci"
  shows "session_slot tid ci (ss[i := s]) = Some i"
proof -
  have "first_index (\<lambda>s. ts_used s \<and> ts_id s = tid \<and> ts_client_index s = ci) (ss[i := s]) = Some i"
    using session_slot_used [OF assms(1,2)] assms(3-5) by (intro first_index_update) auto
  then show ?thesis by (simp add: session_slot_def)
qed

definition replaced :: "TransportId \<Rightarrow> int \<Rightarrow> u32 \<Rightarrow> nat \<Rightarrow> 'e bridge \<Rightarrow> 'e bridge" where
  "replaced tid ci gen i b = b\<lparr>b_transport_sessions := (b_transport_sessions b)[i := fresh_for (l_MAX_FRAME_SIZE (b_linked b)) tid ci gen],
     b_env := (case b_host b of None \<Rightarrow> b_env b | Some h \<Rightarrow> h_cancelBinaryReqs (h_radio h) (b_env b))\<rparr>"

lemma ensure_replaces:
  assumes "session_slot tid ci (b_transport_sessions b) = Some i" and "ts_used (b_transport_sessions b ! i)"
    and "gen \<noteq> 0" and "ts_generation (b_transport_sessions b ! i) \<notin> {0, gen}"
  shows "run_state (ensureTransportSession tid ci gen) b = (Some i, replaced tid ci gen i b)"
  using assms by (auto simp: ensureTransportSession_def max_frame_def put_session_def when_host_def env_do_def replaced_def split: option.split)

lemma activate_replaces:
  assumes "session_slot tid ci (b_transport_sessions b) = Some i" and "ts_used (b_transport_sessions b ! i)"
    and "gen \<noteq> 0" and "ts_generation (b_transport_sessions b ! i) \<notin> {0, gen}"
  shows "run_state (activateTransportSession tid ci gen) b =
    (Some i, (load_vars (fresh_for (l_MAX_FRAME_SIZE (b_linked b)) tid ci gen) (replaced tid ci gen i b))\<lparr>b_active_session := Some i\<rparr>)"
  using ensure_replaces [OF assms] session_slot_used [OF assms(1,2)]
  by (simp add: activateTransportSession_def loadTransportSession_def replaced_def)

text \<open>
  C7: a client that takes over a slot starts from nothing. When a frame arrives for a client
  whose connection generation differs from the one its slot was opened in, the outcome (every
  frame sent, every call made, the whole state afterwards) is the same whatever the previous
  client left in the slot and in the bridge's working variables: its queued messages, its pending
  response, its signing data, its outstanding requests, its protocol version.
\<close>

theorem new_connection_is_isolated:
  assumes "session_slot tid ci (b_transport_sessions b) = Some i" and "ts_used (b_transport_sessions b ! i)"
    and "gen \<noteq> 0" and "ts_generation (b_transport_sessions b ! i) \<notin> {0, gen}"
    and "ts_used t" and "ts_id t = tid" and "ts_client_index t = ci" and "ts_generation t \<notin> {0, gen}"
    and "tid = BLE \<or> l_companionTransportsAllowed (b_linked b) (b_env b)"
  shows "run_state (handleTransportFrame frame tid ci gen) (load_vars v (b\<lparr>b_transport_sessions := (b_transport_sessions b)[i := t]\<rparr>)) =
    run_state (handleTransportFrame frame tid ci gen) b"
proof -
  let ?b' = "load_vars v (b\<lparr>b_transport_sessions := (b_transport_sessions b)[i := t]\<rparr>)"
  have i: "i < length (b_transport_sessions b)" using session_slot_used [OF assms(1,2)] by blast
  have slot: "session_slot tid ci (b_transport_sessions ?b') = Some i" using session_slot_update [OF assms(1,2,5-7)] by simp
  have "load_vars u (replaced tid ci gen i ?b') = load_vars u (replaced tid ci gen i b)" for u
    by (simp add: replaced_def load_vars_load_vars split: option.split)
  then have "run_state (activateTransportSession tid ci gen) ?b' = run_state (activateTransportSession tid ci gen) b"
    using activate_replaces [OF slot _ assms(3)] activate_replaces [OF assms(1-4)] i assms(5,8) by simp
  then show ?thesis using assms(9)
    by (simp add: handleTransportFrame_def transportAllowedDuringOta_def linked_look_def)
qed

text \<open>A slot last used in generation 5 and taken over in generation 7.\<close>

definition handover :: "demo_env bridge" where
  "handover = (demo_bridge demo_world)\<lparr>b_transport_sessions := fresh_for 172 TCP 0 5 # replicate 8 (ts_reset 172)\<rparr>"

theorem new_connection_is_isolated_witness:
  "run_state (handleTransportFrame [CMD_SYNC_NEXT_MESSAGE] TCP 0 7) (load_vars ((ts_reset 172)\<lparr>sign_active := True\<rparr>)
     (handover\<lparr>b_transport_sessions := (b_transport_sessions handover)[0 := (fresh_for 172 TCP 0 6)
        \<lparr>offline := [\<lparr>fr_store_id = 4, fr_persistent = True, fr_buf = [7, 7]\<rparr>], inflight_store_id := 4, inflight_generation := 6\<rparr>]\<rparr>)) =
   run_state (handleTransportFrame [CMD_SYNC_NEXT_MESSAGE] TCP 0 7) handover"
proof -
  have "b_linked handover = demo_linked"
    using reachable_ok [OF demo_reachable demo_recv, of demo_world] by (simp add: handover_def attached_to_def)
  then show ?thesis
    by (intro new_connection_is_isolated) (simp_all add: handover_def session_slot_def fresh_for_def demo_linked_def)
qed

section \<open>Signing\<close>

text \<open>The part \<open>g\<close> of the state is the same after \<open>m\<close> as before.\<close>

definition leaves :: "('e bridge \<Rightarrow> 'x) \<Rightarrow> ('e, 'a) br \<Rightarrow> bool" where
  "leaves g m \<longleftrightarrow> (\<forall>b. g (snd (run_state m b)) = g b)"

lemma leavesD: "leaves g m \<Longrightarrow> run_state m b = (x, b') \<Longrightarrow> g b' = g b"
  unfolding leaves_def by (metis snd_conv)

lemma leaves_bind: "leaves g m \<Longrightarrow> (\<And>x. leaves g (f x)) \<Longrightarrow> leaves g (m \<bind> f)"
  by (simp add: leaves_def split: prod.split) (metis snd_conv)

lemma leaves_if: "leaves g m \<Longrightarrow> leaves g n \<Longrightarrow> leaves g (if c then m else n)"
  by simp

lemma leaves_option: "leaves g m \<Longrightarrow> (\<And>x. leaves g (f x)) \<Longrightarrow> leaves g (case opt of None \<Rightarrow> m | Some x \<Rightarrow> f x)"
  by (cases opt) auto

lemma leaves_pure: "leaves g (ret x)" "leaves g (gets f)" "leaves g max_frame"
  by (simp_all add: leaves_def max_frame_def)

lemma leaves_modify: "(\<And>b. g (f b) = g b) \<Longrightarrow> leaves g (modify f)"
  by (simp add: leaves_def)

lemma leaves_env: "(\<And>b e. g (b\<lparr>b_env := e\<rparr>) = g b) \<Longrightarrow> leaves g (env f)" "(\<And>b e. g (b\<lparr>b_env := e\<rparr>) = g b) \<Longrightarrow> leaves g (linked_env k)"
  by (simp_all add: leaves_def env_def linked_env_def split: prod.split)

lemmas leaves_intros = leaves_bind leaves_if leaves_option leaves_pure leaves_modify leaves_env

definition signing :: "'e bridge \<Rightarrow> byte list \<times> nat \<times> bool" where
  "signing b = (sign_buf b, sign_len b, sign_active b)"

lemma respond_leaves_signing: "leaves signing (respond fr)"
  unfolding respond_def sendResponseFrame_def writeFrameToCurrentTransport_def
  by (intro leaves_intros) (simp_all add: signing_def)

lemma signing_dispatch:
  "handle_command h [CMD_SIGN_START, 0] 1 = do_sign_start"
  "c \<noteq> [] \<Longrightarrow> handle_command h (CMD_SIGN_DATA # c @ [0]) (length c + 1) = do_sign_data (CMD_SIGN_DATA # c @ [0]) (length c + 1)"
  "handle_command h [CMD_SIGN_FINISH, 0] 1 = do_sign_finish h"
  by (auto simp: handle_command_def commandMinimumLength_def dispatch_session_def dispatch_settings_def dispatch_contacts_def
      dispatch_system_def codes Suc_le_eq)

text \<open>The commands that upload \<open>cs\<close> for signing, one chunk per command.\<close>

definition sign_upload :: "'e CompanionBridgeHost \<Rightarrow> byte list list \<Rightarrow> ('e, unit) br" where
  "sign_upload h cs = do { handle_command h [CMD_SIGN_START, 0] 1;
     for_each (\<lambda>c. handle_command h (CMD_SIGN_DATA # c @ [0]) (length c + 1)) cs }"

definition uploaded :: "byte list \<Rightarrow> 'e bridge \<Rightarrow> bool" where
  "uploaded d b \<longleftrightarrow> sign_active b \<and> length (sign_buf b) = SIGURDOS_COMPANION_MAX_SIGN_DATA \<and> sign_len b = length d \<and>
     take (length d) (sign_buf b) = d"

lemma sign_start_uploaded:
  assumes "bridge_ok b" and "run_state do_sign_start b = (x, b')"
  shows "uploaded [] b'"
proof -
  have "length (sign_buf b) = SIGURDOS_COMPANION_MAX_SIGN_DATA" using assms(1) by (simp add: bridge_ok_def vars_ok_def sign_ok_def Let_def)
  then show ?thesis
    using leavesD [OF respond_leaves_signing assms(2) [unfolded do_sign_start_def clearSigningState_def, simplified]]
    by (simp add: uploaded_def signing_def secureWipe_def)
qed

lemma sign_data_uploaded:
  assumes "uploaded d b" and "length d + length c \<le> SIGURDOS_COMPANION_MAX_SIGN_DATA"
    and "run_state (do_sign_data (CMD_SIGN_DATA # c @ [0]) (length c + 1)) b = (x, b')"
  shows "uploaded (d @ c) b'"
proof -
  have r: "run_state (respond [RESP_CODE_OK]) (b\<lparr>sign_buf := overwrite (sign_buf b) (length d) c, sign_len := length d + length c\<rparr>) = (x, b')"
    using assms by (simp add: do_sign_data_def uploaded_def slice_def writeOKFrame_def)
  have "take (length d + length c) (overwrite (sign_buf b) (length d) c) = d @ c"
    using assms(1,2) by (auto simp: uploaded_def overwrite_def)
  then show ?thesis using leavesD [OF respond_leaves_signing r] assms(1,2) by (simp add: uploaded_def signing_def)
qed

lemma sign_chunks_uploaded:
  assumes "uploaded d b" and "[] \<notin> set cs" and "length d + length (concat cs) \<le> SIGURDOS_COMPANION_MAX_SIGN_DATA"
    and "run_state (for_each (\<lambda>c. handle_command h (CMD_SIGN_DATA # c @ [0]) (length c + 1)) cs) b = (x, b')"
  shows "uploaded (d @ concat cs) b'"
  using assms
proof (induction cs arbitrary: d b)
  case (Cons c cs)
  obtain y b1 where b1: "run_state (do_sign_data (CMD_SIGN_DATA # c @ [0]) (length c + 1)) b = (y, b1)" by (meson surj_pair)
  then have r: "run_state (for_each (\<lambda>c. handle_command h (CMD_SIGN_DATA # c @ [0]) (length c + 1)) cs) b1 = (x, b')"
    using Cons.prems signing_dispatch(2) [of c h] by (simp split: prod.splits)
  have "uploaded (d @ c) b1" using sign_data_uploaded [OF Cons.prems(1) _ b1] Cons.prems(3) by simp
  from Cons.IH [OF this _ _ r] show ?case using Cons.prems(2,3) by simp
qed simp

text \<open>
  C27: the device signs exactly the bytes the client uploaded, and forgets them. After a start
  command and any chunks of together at most 8192 bytes, the finish command asks the host for a
  signature of their concatenation, answers with it (or with an error if the host gives none), and
  whatever the host does meanwhile the signing buffer is erased afterwards.
\<close>

theorem signing_signs_the_upload:
  assumes "bridge_ok b" and "[] \<notin> set cs" and "length (concat cs) \<le> SIGURDOS_COMPANION_MAX_SIGN_DATA"
    and up: "run_state (sign_upload h cs) b = (x, b1)" and fin: "run_state (handle_command h [CMD_SIGN_FINISH, 0] 1) b1 = (y, b2)"
  shows "run_state (do {
      sig \<leftarrow> host_call (h_signData (h_contacts h) (concat cs));
      clearSigningState;
      if length sig > 0 then respond ([RESP_CODE_SIGNATURE] @ sig) else writeErrFrame ERR_CODE_BAD_STATE }) b1 = (y, b2) \<and>
    list_all (\<lambda>z. z = 0) (sign_buf b2) \<and> sign_len b2 = 0 \<and> \<not> sign_active b2"
proof -
  obtain z b0 where b0: "run_state do_sign_start b = (z, b0)" by (meson surj_pair)
  have "uploaded [] b0" by (rule sign_start_uploaded [OF assms(1) b0])
  moreover have "run_state (for_each (\<lambda>c. handle_command h (CMD_SIGN_DATA # c @ [0]) (length c + 1)) cs) b0 = (x, b1)"
    using up b0 unfolding sign_upload_def signing_dispatch(1) by simp
  ultimately have u: "uploaded (concat cs) b1" using sign_chunks_uploaded [of "[]"] assms(2,3) by fastforce
  then have run: "run_state (do {
      sig \<leftarrow> host_call (h_signData (h_contacts h) (concat cs));
      clearSigningState;
      if length sig > 0 then respond ([RESP_CODE_SIGNATURE] @ sig) else writeErrFrame ERR_CODE_BAD_STATE }) b1 = (y, b2)"
    using fin unfolding signing_dispatch(3) do_sign_finish_def by (simp add: uploaded_def)
  obtain sig b3 where b3: "run_state (host_call (h_signData (h_contacts h) (concat cs))) b1 = (sig, b3)" by (meson surj_pair)
  let ?wiped = "b3\<lparr>sign_buf := secureWipe (sign_buf b3), sign_active := False, sign_len := 0\<rparr>"
  have "\<exists>fr. run_state (respond fr) ?wiped = (y, b2)"
    using run b3 by (auto simp: clearSigningState_def writeErrFrame_def split: if_splits)
  then have "signing b2 = signing ?wiped" using leavesD [OF respond_leaves_signing] by blast
  with run show ?thesis by (simp add: signing_def secureWipe_def list_all_iff)
qed

theorem signing_signs_the_upload_witness:
  "\<exists>b1 b2. run_state (sign_upload quiet_host [[1, 2], [3]]) (demo_bridge demo_world) = ((), b1) \<and>
     run_state (handle_command quiet_host [CMD_SIGN_FINISH, 0] 1) b1 = ((), b2) \<and>
     run_state (do {
       sig \<leftarrow> host_call (h_signData (h_contacts quiet_host) [1, 2, 3]);
       clearSigningState;
       if length sig > 0 then respond ([RESP_CODE_SIGNATURE] @ sig) else writeErrFrame ERR_CODE_BAD_STATE }) b1 = ((), b2) \<and>
     list_all (\<lambda>z. z = 0) (sign_buf b2) \<and> sign_len b2 = 0 \<and> \<not> sign_active b2"
proof -
  define b1 where "b1 = snd (run_state (sign_upload quiet_host [[1, 2], [3]]) (demo_bridge demo_world))"
  define b2 where "b2 = snd (run_state (handle_command quiet_host [CMD_SIGN_FINISH, 0] 1) b1)"
  have b1: "run_state (sign_upload quiet_host [[1, 2], [3]]) (demo_bridge demo_world) = ((), b1)" by (simp add: b1_def prod_eq_iff)
  have b2: "run_state (handle_command quiet_host [CMD_SIGN_FINISH, 0] 1) b1 = ((), b2)" by (simp add: b2_def prod_eq_iff)
  have "bridge_ok (demo_bridge demo_world)" using reachable_ok [OF demo_reachable demo_recv] by blast
  from signing_signs_the_upload [OF this _ _ b1 b2] b1 b2 show ?thesis
    by (intro exI [of _ b1] exI [of _ b2]) (simp add: SIGURDOS_COMPANION_MAX_SIGN_DATA_def)
qed

section \<open>Binary responses\<close>

lemma binary_owners_iff: "(i, k) \<in> set (binary_owners b tag) \<longleftrightarrow> i < length (b_transport_sessions b) \<and> session_current b i \<and>
    k < length (session_requests b i) \<and> pb_tag (session_requests b i ! k) = tag"
  by (auto simp: binary_owners_def)

lemma session_requests_env [simp]: "session_requests (b\<lparr>b_env := e\<rparr>) i = session_requests b i"
  by (simp add: session_requests_def)

lemma clear_request_owners:
  assumes r: "run_state (clear_request i k) b = (x, b')" and "tag \<noteq> 0" and i: "i < length (b_transport_sessions b)" and k: "k < length (session_requests b i)"
  shows "set (binary_owners b' tag) \<subseteq> set (binary_owners b tag) - {(i, k)}"
proof -
  have len: "length (b_transport_sessions b') = length (b_transport_sessions b)" using r by (auto simp: clear_request_def split: if_splits)
  have cur: "session_current b' j = session_current b j" for j
    using r i by (cases "j = i") (auto simp: clear_request_def session_current_def Let_def split: if_splits)
  have req: "session_requests b' j = (if j = i then (session_requests b i)[k := no_request] else session_requests b j)" for j
    using r i by (auto simp: clear_request_def session_requests_def split: if_splits)
  show ?thesis
  proof (rule subrelI)
    fix j m assume "(j, m) \<in> set (binary_owners b' tag)"
    then show "(j, m) \<in> set (binary_owners b tag) - {(i, k)}"
      using assms(2) k unfolding binary_owners_iff len cur req
      by (cases "j = i"; cases "m = k") (auto simp: binary_owners_iff no_request_def)
  qed
qed

text \<open>
  C15: the answer to a binary request reaches the client that asked, and only once. With the
  registry attached, a pushed response that is accepted was sent to exactly one client, the only
  one with a live request under that tag, still on the connection it made it in; the frame carries the
  tag and the data unchanged; afterwards no client has a request under the tag, so a repeated
  response finds no owner.
\<close>

theorem binary_response_to_its_owner:
  assumes "run_state (pushBinaryResponse tag blob) b = (True, b')" and ex: "run_state expirePendingBinary b = (x, b1)"
    and att: "l_attached (b_linked b1) (b_env b1)"
  shows "\<exists>i k. binary_owners b1 tag = [(i, k)] \<and> tag \<noteq> 0 \<and>
    (let s = b_transport_sessions b1 ! i
     in l_client_connected (b_linked b1) (ts_id s) (ts_client_index s) (b_env b1) \<and>
        l_client_generation (b_linked b1) (ts_id s) (ts_client_index s) (b_env b1) = ts_generation s \<and>
        l_send_to_result (b_linked b1) (ts_id s) (ts_client_index s) ([PUSH_CODE_BINARY_RESPONSE, 0] @ put_u32 tag @ blob) (b_env b1) = (True, b_env b')) \<and>
    binary_owners (b'\<lparr>b_env := b_env b1\<rparr>) tag = []"
proof -
  have t: "tag \<noteq> 0" and owners: "run_state (case binary_owners b1 tag of [owner] \<Rightarrow> push_to_owner tag blob owner | _ \<Rightarrow> ret False) b1 = (True, b')"
    using assms by (auto simp: pushBinaryResponse_def max_frame_def linked_look_def split: if_splits)
  then obtain i k where o: "binary_owners b1 tag = [(i, k)]" and p: "run_state (push_to_owner tag blob (i, k)) b1 = (True, b')"
    by (auto split: list.splits)
  let ?s = "b_transport_sessions b1 ! i"
  obtain r e where send: "l_send_to_result (b_linked b1) (ts_id ?s) (ts_client_index ?s) (binary_frame tag blob) (b_env b1) = (r, e)" by force
  have r: "r" and c: "run_state (clear_request i k) (b1\<lparr>b_env := e\<rparr>) = ((), b')"
    and live: "l_client_connected (b_linked b1) (ts_id ?s) (ts_client_index ?s) (b_env b1)"
      "l_client_generation (b_linked b1) (ts_id ?s) (ts_client_index ?s) (b_env b1) = ts_generation ?s"
    using p send by (auto simp: push_to_owner_def linked_look_def linked_env_def drop_push_def split: if_splits prod.splits)
  have ik: "i < length (b_transport_sessions b1)" "k < length (session_requests b1 i)"
    using binary_owners_iff [of i k b1 tag] o by auto
  have c': "run_state (clear_request i k) b1 = ((), b'\<lparr>b_env := b_env b1\<rparr>)" using c by (auto simp: clear_request_def split: if_splits)
  have e: "b_env b' = e" using c by (auto simp: clear_request_def split: if_splits)
  have "binary_owners (b'\<lparr>b_env := b_env b1\<rparr>) tag = []" using clear_request_owners [OF c' t ik] o by simp
  then show ?thesis using o t send r e live by (auto simp: Let_def binary_frame_def)
qed

text \<open>A client with an outstanding request under the tag 9.\<close>

definition asking :: "demo_env bridge" where
  "asking = (demo_bridge demo_world)\<lparr>b_transport_sessions := (fresh_for 172 TCP 0 7)
     \<lparr>pending_binary := \<lparr>pb_tag = 9, pb_deadline_ms = 100\<rparr> # replicate 3 no_request\<rparr> # replicate 8 (ts_reset 172)\<rparr>"

lemma demo_bridge_fields: "b_linked (demo_bridge e) = demo_linked" "b_env (demo_bridge e) = e" "b_host (demo_bridge e) = Some quiet_host"
  "b_serial (demo_bridge e) = None" "b_active_session (demo_bridge e) = None" "pending_binary (demo_bridge e) = replicate 4 no_request"
  "b_transport_sessions (demo_bridge e) = replicate 9 (ts_reset 172)"
  by (simp_all add: demo_bridge_def bridge_begin_def clearSigningState_def clearInflightMessage_def clearPendingBinary_def blank_bridge_def
      MAX_PENDING_BINARY_REQUESTS_def MAX_TRANSPORT_SESSIONS_def)

lemma asking_owner: "binary_owners asking 9 = [(0, 0)]"
proof -
  have req: "session_requests asking 0 = [\<lparr>pb_tag = 9, pb_deadline_ms = 100\<rparr>, no_request, no_request, no_request]"
    by (simp add: session_requests_def asking_def demo_bridge_fields eval_nat_numeral)
  have cur: "session_current asking 0"
    by (simp add: session_current_def asking_def demo_bridge_fields fresh_for_def demo_linked_def)
  have others: "\<not> session_current asking (Suc j)" if "j < 8" for j
    using that by (simp add: session_current_def asking_def ts_reset_def)
  have "length (b_transport_sessions asking) = Suc 8" by (simp add: asking_def)
  then show ?thesis unfolding binary_owners_def using cur others req
    by (simp add: upt_conv_Cons map_Suc_upt [symmetric] no_request_def del: upt_Suc)
qed

lemma asking_expire: "run_state expirePendingBinary asking = ((), asking)"
proof -
  have "pending_binary asking = replicate 4 no_request" "b_host asking = Some quiet_host" by (simp_all add: asking_def demo_bridge_fields)
  then show ?thesis
    by (simp add: expirePendingBinary_def when_host_def look_def expire_slot_def no_request_def upt_rec)
qed

theorem binary_response_to_its_owner_witness:
  "\<exists>b'. run_state (pushBinaryResponse 9 [1, 2]) asking = (True, b') \<and> binary_owners (b'\<lparr>b_env := b_env asking\<rparr>) 9 = []"
proof -
  have att: "l_attached (b_linked asking) (b_env asking)" by (simp add: asking_def demo_bridge_fields demo_linked_def)
  have "run_state (pushBinaryResponse 9 [1, 2]) asking = run_state (push_to_owner 9 [1, 2] (0, 0)) asking"
    using att by (simp add: pushBinaryResponse_def asking_expire asking_owner max_frame_def linked_look_def)
      (simp add: asking_def demo_bridge_fields)
  also have "\<dots> = (True, snd (run_state (push_to_owner 9 [1, 2] (0, 0)) asking))"
    by (simp add: push_to_owner_def linked_look_def linked_env_def asking_def demo_bridge_fields demo_linked_def fresh_for_def demo_send_def
        prod_eq_iff split: prod.split)
  finally have run: "run_state (pushBinaryResponse 9 [1, 2]) asking = (True, snd (run_state (push_to_owner 9 [1, 2] (0, 0)) asking))" .
  from binary_response_to_its_owner [OF run asking_expire att] run show ?thesis by blast
qed

end
