(* ===== verification/BridgeReads.thy ===== *)
theory BridgeReads
  imports BridgeCommands
begin

text \<open>
  No command handler of the companion bridge looks past the frame it was sent: what a handler
  does depends on the received bytes and the terminating zero alone.
\<close>

section \<open>Reading a buffer that holds a frame\<close>

text \<open>Two command buffers with the same frame of \<open>len\<close> bytes and its terminator.\<close>

definition same_frame :: "nat \<Rightarrow> byte list \<Rightarrow> byte list \<Rightarrow> bool" where
  "same_frame len f f' \<longleftrightarrow> take (len + 1) f = take (len + 1) f' \<and> len < length f \<and> len < length f' \<and> f ! len = 0"

lemma same_nth: "same_frame len f f' \<Longrightarrow> i \<le> len \<Longrightarrow> f ! i = f' ! i"
  unfolding same_frame_def by (metis Suc_eq_plus1 le_imp_less_Suc nth_take)

lemma same_slice: "same_frame len f f' \<Longrightarrow> i + n \<le> len + 1 \<Longrightarrow> slice f i n = slice f' i n"
proof -
  assume same: "same_frame len f f'" and i: "i + n \<le> len + 1"
  have cut: "slice g i n = drop i (take (i + n) (take (len + 1) g))" for g :: "byte list"
    using i by (simp add: slice_def take_drop min_def add.commute)
  show ?thesis using same unfolding cut [of f] cut [of f'] by (simp add: same_frame_def)
qed

lemma same_u32: "same_frame len f f' \<Longrightarrow> i + 3 \<le> len \<Longrightarrow> get_u32 f i = get_u32 f' i"
  by (simp add: get_u32_def same_nth)

lemma same_u16: "same_frame len f f' \<Longrightarrow> i + 1 \<le> len \<Longrightarrow> get_u16 f i = get_u16 f' i"
  by (simp add: get_u16_def same_nth)

lemma cstr_stops:
  assumes "i \<le> len" and "len < length f" and "f ! len = 0"
  shows "cstr (drop i f) = cstr (drop i (take (len + 1) f))"
proof -
  have "drop i (take (len + 1) f) = drop i (take len f) @ [0]" using assms by (simp add: take_Suc_conv_app_nth)
  moreover have "drop i f = drop i (take len f) @ 0 # drop (len + 1) f"
    using assms id_take_nth_drop [of len f] by (metis Suc_eq_plus1 drop_append diff_is_0_eq' drop0 length_take min.absorb2 less_imp_le_nat)
  ultimately show ?thesis by (auto simp: cstr_def takeWhile_append)
qed

lemma same_cstr: "same_frame len f f' \<Longrightarrow> i \<le> len \<Longrightarrow> cstr (drop i f) = cstr (drop i f')"
  using cstr_stops [of i len f] cstr_stops [of i len f'] same_nth [of len f f' len] by (simp add: same_frame_def)

lemma same_key: "same_frame len f f' \<Longrightarrow> i + 31 \<le> len \<Longrightarrow> pub_key_at f i = pub_key_at f' i"
  by (simp add: pub_key_at_def same_slice SIGURDOS_COMPANION_PUB_KEY_SIZE_def)

lemmas same_reads = same_nth same_slice same_u32 same_u16 same_cstr same_key

section \<open>The handlers\<close>

lemma session_reads:
  assumes "same_frame len f f'"
  shows "1 \<le> len \<Longrightarrow> do_device_query h f = do_device_query h f'"
    and "do_get_contacts h f len = do_get_contacts h f' len"
    and "14 \<le> len \<Longrightarrow> do_send_txt_msg h f = do_send_txt_msg h f'"
    and "7 \<le> len \<Longrightarrow> do_send_channel_txt_msg h f = do_send_channel_txt_msg h f'"
  by (simp_all add: do_device_query_def do_get_contacts_def do_send_txt_msg_def do_send_channel_txt_msg_def
      SIGURDOS_COMPANION_PUB_KEY_PREFIX_SIZE_def same_reads [OF assms] cong: if_cong option.case_cong)

lemma channel_data_reads:
  assumes "same_frame len f f'"
  shows "do_send_channel_data h f len = do_send_channel_data h f' len"
proof (cases "len < 5")
  case False
  then show ?thesis
    by (simp add: do_send_channel_data_def same_reads [OF assms] Let_def cong: if_cong option.case_cong split: option.split)
qed (simp add: do_send_channel_data_def)

lemma settings_reads:
  assumes "same_frame len f f'"
  shows "5 \<le> len \<Longrightarrow> do_set_device_time h f = do_set_device_time h f'"
    and "do_set_advert_name h f len = do_set_advert_name h f' len"
    and "do_set_advert_latlon h f len = do_set_advert_latlon h f' len"
    and "do_set_radio_params h f len = do_set_radio_params h f' len"
    and "do_set_radio_tx_power h f len = do_set_radio_tx_power h f' len"
    and "do_set_tuning_params h f len = do_set_tuning_params h f' len"
    and "do_send_self_advert h f len = do_send_self_advert h f' len"
    and "2 \<le> len \<Longrightarrow> do_get_channel h f = do_get_channel h f'"
    and "50 \<le> len \<Longrightarrow> do_set_channel h f = do_set_channel h f'"
    and "5 \<le> len \<Longrightarrow> do_set_device_pin h f = do_set_device_pin h f'"
    and "65 \<le> len \<Longrightarrow> do_import_private_key h f = do_import_private_key h f'"
    and "2 \<le> len \<Longrightarrow> do_set_other_params h f len = do_set_other_params h f' len"
    and "3 \<le> len \<Longrightarrow> do_set_path_hash_mode h f = do_set_path_hash_mode h f'"
    and "2 \<le> len \<Longrightarrow> do_set_autoadd_config h f len = do_set_autoadd_config h f' len"
  by (simp_all add: do_set_device_time_def do_set_advert_name_def do_set_advert_latlon_def do_set_radio_params_def
      do_set_radio_tx_power_def do_set_tuning_params_def do_send_self_advert_def do_get_channel_def do_set_channel_def strzcpy_def
      do_set_device_pin_def do_import_private_key_def do_set_other_params_def do_set_path_hash_mode_def do_set_autoadd_config_def
      same_reads [OF assms] cong: if_cong conj_cong option.case_cong)

lemma contact_reads:
  assumes "same_frame len f f'"
  shows "33 \<le> len \<Longrightarrow> do_get_contact_by_key h f = do_get_contact_by_key h f'"
    and "33 \<le> len \<Longrightarrow> do_reset_path h f = do_reset_path h f'"
    and "33 \<le> len \<Longrightarrow> do_remove_contact h f = do_remove_contact h f'"
    and "33 \<le> len \<Longrightarrow> do_share_contact h f = do_share_contact h f'"
    and "136 \<le> len \<Longrightarrow> do_add_update_contact h f len = do_add_update_contact h f' len"
    and "do_export_contact h f len = do_export_contact h f' len"
    and "1 \<le> len \<Longrightarrow> do_import_contact h f len = do_import_contact h f' len"
    and "33 \<le> len \<Longrightarrow> do_has_connection h f = do_has_connection h f'"
    and "33 \<le> len \<Longrightarrow> do_logout h f = do_logout h f'"
  by (simp_all add: do_get_contact_by_key_def do_reset_path_def do_remove_contact_def do_share_contact_def do_add_update_contact_def
      contact_of_frame_def do_export_contact_def do_import_contact_def do_has_connection_def do_logout_def
      SIGURDOS_COMPANION_PUB_KEY_SIZE_def SIGURDOS_COMPANION_PATH_SIZE_def same_reads [OF assms] cong: if_cong option.case_cong)

lemma system_reads:
  assumes "same_frame len f f'"
  shows "2 \<le> len \<Longrightarrow> do_get_stats h f = do_get_stats h f'"
    and "4 \<le> len \<Longrightarrow> do_set_custom_var h f = do_set_custom_var h f'"
    and "34 \<le> len \<Longrightarrow> do_get_advert_path h f = do_get_advert_path h f'"
    and "34 \<le> len \<Longrightarrow> do_send_path_discovery_req h f = do_send_path_discovery_req h f'"
    and "do_set_default_flood_scope h f len = do_set_default_flood_scope h f' len"
    and "do_set_flood_scope_key h f len = do_set_flood_scope_key h f' len"
    and "1 \<le> len \<Longrightarrow> do_sign_data f len = do_sign_data f' len"
  by (simp_all add: do_get_stats_def do_set_custom_var_def do_get_advert_path_def do_send_path_discovery_req_def
      do_set_default_flood_scope_def do_set_flood_scope_key_def do_sign_data_def same_reads [OF assms] cong: if_cong conj_cong option.case_cong)

lemma request_reads:
  assumes "same_frame len f f'"
  shows "33 \<le> len \<Longrightarrow> do_send_login h f = do_send_login h f'"
    and "33 \<le> len \<Longrightarrow> do_send_status_req h f = do_send_status_req h f'"
    and "36 \<le> len \<Longrightarrow> do_send_telemetry_req h f = do_send_telemetry_req h f'"
    and "do_send_binary_req h f len = do_send_binary_req h f' len"
    and "do_send_anon_req h f len = do_send_anon_req h f' len"
    and "do_send_control_data h f len = do_send_control_data h f' len"
  by (simp_all add: do_send_login_def do_send_status_req_def do_send_telemetry_req_def do_send_binary_req_def do_send_anon_req_def
      do_send_control_data_def SIGURDOS_COMPANION_PUB_KEY_SIZE_def same_reads [OF assms] Let_def cong: if_cong disj_cong option.case_cong)

lemma raw_data_reads:
  assumes "same_frame len f f'"
  shows "do_send_raw_data h f len = do_send_raw_data h f' len"
proof -
  have "slice f 2 (unat (f' ! 1)) = slice f' 2 (unat (f' ! 1)) \<and>
      slice f (2 + unat (f' ! 1)) (len - 2 - unat (f' ! 1)) = slice f' (2 + unat (f' ! 1)) (len - 2 - unat (f' ! 1))"
    if "2 + unat (f' ! 1) + 4 \<le> len" using that by (intro conjI same_slice [OF assms]) simp_all
  then show ?thesis
    by (cases "2 + unat (f' ! 1) + 4 \<le> len"; cases "len < 6")
      (simp_all add: do_send_raw_data_def same_nth [OF assms] Let_def)
qed

text \<open>The trace path takes its length modulo 256 and still stays within the frame.\<close>

lemma trace_reads:
  assumes "same_frame len f f'" and "10 < len"
  shows "do_send_trace_path h f len = do_send_trace_path h f' len"
proof -
  have "unat (word_of_nat (len - 10) :: byte) \<le> len - 10" by (simp add: unat_of_nat)
  then have "slice f 10 (unat (word_of_nat (len - 10) :: byte)) = slice f' 10 (unat (word_of_nat (len - 10) :: byte))"
    using assms(2) by (intro same_slice [OF assms(1)]) linarith
  then show ?thesis using assms(2) by (simp add: do_send_trace_path_def same_reads [OF assms(1)] Let_def cong: if_cong)
qed

text \<open>
  C14: no command reads past the received frame. Whatever follows the frame and its terminating
  zero in the command buffer (the remains of a longer earlier command, say), every one of the
  commands behaves the same: same host calls, same answer, same state. The minimum lengths, the
  length tests of the handlers and the offsets they read from fit together.
\<close>

theorem commands_read_only_their_frame:
  assumes "same_frame len f f'"
  shows "handle_command h f len = handle_command h f' len"
proof -
  note keys = SIGURDOS_COMPANION_PUB_KEY_SIZE_def SIGURDOS_COMPANION_PATH_SIZE_def
  note reads = session_reads [OF assms] channel_data_reads [OF assms] settings_reads [OF assms] contact_reads [OF assms]
    system_reads [OF assms] request_reads [OF assms] raw_data_reads [OF assms] trace_reads [OF assms] same_reads [OF assms]
  have 5: "dispatch_requests h cmd f len = dispatch_requests h cmd f' len" for cmd
    by (simp add: dispatch_requests_def reads keys cong: if_cong)
  have 4: "dispatch_system h cmd f len = dispatch_system h cmd f' len" for cmd
    by (simp add: dispatch_system_def reads 5 keys cong: if_cong conj_cong)
  have 3: "dispatch_contacts h cmd f len = dispatch_contacts h cmd f' len" for cmd
    by (simp add: dispatch_contacts_def reads 4 keys cong: if_cong)
  have 2: "dispatch_settings h cmd f len = dispatch_settings h cmd f' len" for cmd
    by (simp add: dispatch_settings_def reads 3 keys cong: if_cong conj_cong)
  have 1: "dispatch_session h cmd f len = dispatch_session h cmd f' len" for cmd
    by (simp add: dispatch_session_def reads 2 keys cong: if_cong)
  show ?thesis by (simp add: handle_command_def Let_def reads 1)
qed

theorem commands_read_only_their_frame_witness:
  "\<forall>h :: unit CompanionBridgeHost. handle_command h [CMD_GET_STATS, 1, 0, 9, 9] 2 = handle_command h [CMD_GET_STATS, 1, 0, 4] 2"
  by (intro allI commands_read_only_their_frame) (simp add: same_frame_def)

end
