(* ===== verification/BridgeClient.thy ===== *)
theory BridgeClient
  imports BridgeProps
begin

text \<open>
  What a companion app sees of the bridge over a link that accepts every frame: the contact list
  it asks for, and the messages it polls from the backlog of the message log.
\<close>

section \<open>A client on a link that accepts every frame\<close>

text \<open>The bridge while it works for the client, with nothing left over from earlier commands.\<close>

definition serving_client :: "'e linked \<Rightarrow> 'e CompanionBridgeHost \<Rightarrow> TransportId \<Rightarrow> int \<Rightarrow> 'e bridge \<Rightarrow> bool" where
  "serving_client l h tid ci b \<longleftrightarrow> b_linked b = l \<and> b_host b = Some h \<and> b_transport_request_active b \<and> b_request_transport b = tid \<and>
     b_request_client_index b = ci \<and> pending_response_len b = 0 \<and> list_all (\<lambda>r. pb_tag r = 0) (pending_binary b) \<and>
     (\<forall>s e. b_serial b = Some s \<longrightarrow> tid = BLE \<longrightarrow> \<not> s_isWriteBusy s e)"

locale recording_client =
  fixes l :: "'e linked" and h :: "'e CompanionBridgeHost" and tid :: TransportId and ci :: int and gen :: u32
    and out :: "'e \<Rightarrow> byte list list" and live :: "'e \<Rightarrow> bool"
  assumes allowed: "live e \<Longrightarrow> tid = BLE \<or> l_companionTransportsAllowed l e"
    and connected: "live e \<Longrightarrow> l_client_connected l tid ci e"
    and generation: "live e \<Longrightarrow> l_client_generation l tid ci e = gen" and gen: "gen \<noteq> 0"
    and accepted: "live e \<Longrightarrow> 0 < length fr \<Longrightarrow> length fr \<le> l_MAX_FRAME_SIZE l \<Longrightarrow> fst (l_send_to_result l tid ci fr e)"
    and recorded: "live e \<Longrightarrow> 0 < length fr \<Longrightarrow> length fr \<le> l_MAX_FRAME_SIZE l \<Longrightarrow> out (snd (l_send_to_result l tid ci fr e)) = out e @ [fr]"
    and stays: "live e \<Longrightarrow> 0 < length fr \<Longrightarrow> length fr \<le> l_MAX_FRAME_SIZE l \<Longrightarrow> live (snd (l_send_to_result l tid ci fr e))"
    and frame_size: "152 \<le> l_MAX_FRAME_SIZE l"
begin

definition sent :: "byte list \<Rightarrow> 'e \<Rightarrow> 'e" where
  "sent fr e = snd (l_send_to_result l tid ci fr e)"

abbreviation serving :: "'e bridge \<Rightarrow> bool" where
  "serving b \<equiv> serving_client l h tid ci b \<and> live (b_env b)"

lemma sent_spec:
  assumes "live e" and "0 < length fr" and "length fr \<le> l_MAX_FRAME_SIZE l"
  shows "out (sent fr e) = out e @ [fr]" "live (sent fr e)" "l_send_to_result l tid ci fr e = (True, sent fr e)"
  using recorded [OF assms] stays [OF assms] accepted [OF assms] by (simp_all add: sent_def prod_eq_iff)

lemma run_write:
  assumes "serving b" and "0 < length fr" and "length fr \<le> l_MAX_FRAME_SIZE l"
  shows "run_state (writeFrameToCurrentTransport fr) b = (True, b\<lparr>b_env := sent fr (b_env b)\<rparr>)"
  using assms by (auto simp: serving_client_def writeFrameToCurrentTransport_def max_frame_def linked_env_def sent_spec(3))

lemma run_respond:
  assumes "serving b" and "0 < length fr" and "length fr \<le> l_MAX_FRAME_SIZE l"
  shows "run_state (sendResponseFrame fr) b = (True, b\<lparr>b_env := sent fr (b_env b)\<rparr>)"
    and "run_state (respond fr) b = ((), b\<lparr>b_env := sent fr (b_env b)\<rparr>)"
proof -
  have s: "b_linked b = l" "b_transport_request_active b" "pending_response_len b = 0" using assms(1) by (simp_all add: serving_client_def)
  show 1: "run_state (sendResponseFrame fr) b = (True, b\<lparr>b_env := sent fr (b_env b)\<rparr>)"
    using s assms(2,3) by (simp add: sendResponseFrame_def max_frame_def run_write [OF assms])
  show "run_state (respond fr) b = ((), b\<lparr>b_env := sent fr (b_env b)\<rparr>)" by (simp add: respond_def 1)
qed

lemma expire_slots:
  assumes "list_all (\<lambda>r. pb_tag r = 0) (pending_binary b)" and "\<forall>i \<in> set is. i < length (pending_binary b)"
  shows "run_state (for_each (expire_slot hh now) is) b = ((), b)"
  using assms by (induction "is") (simp_all add: expire_slot_def list_all_length)

lemma run_expire: "serving b \<Longrightarrow> run_state expirePendingBinary b = ((), b)"
  using expire_slots [of b "[0..<length (pending_binary b)]"]
  by (simp add: serving_client_def expirePendingBinary_def when_host_def look_def)

lemma run_flush: "serving b \<Longrightarrow> run_state flushPendingResponse b = (True, b)"
  by (simp add: serving_client_def flushPendingResponse_def)

end

section \<open>The contact list\<close>

text \<open>The contacts a client asks for: those changed after \<open>since\<close>, all of them if \<open>since\<close> is 0.\<close>

definition wanted :: "u32 \<Rightarrow> CompanionContact option list \<Rightarrow> CompanionContact list" where
  "wanted since tab = filter (\<lambda>c. since = 0 \<or> since < cc_lastmod c) (concat (map (case_option [] (\<lambda>c. [c])) tab))"

lemma wanted_simps: "wanted since [] = []"
  "wanted since (x # xs) = (case x of None \<Rightarrow> wanted since xs
     | Some c \<Rightarrow> if since = 0 \<or> since < cc_lastmod c then c # wanted since xs else wanted since xs)"
  by (simp_all add: wanted_def split: option.split)

abbreviation entry :: "'a option list \<Rightarrow> nat \<Rightarrow> 'a option" where
  "entry tab i \<equiv> (if i < length tab then tab ! i else None)"

lemma scan_contacts_wanted:
  assumes "i + k = length tab"
  shows "case scan_contacts (entry tab) since k i of
      (None, _) \<Rightarrow> wanted since (drop i tab) = []
    | (Some c, j) \<Rightarrow> j \<le> length tab \<and> wanted since (drop i tab) = c # wanted since (drop j tab)"
  using assms
proof (induction k arbitrary: i)
  case (Suc k)
  then have d: "drop i tab = tab ! i # drop (Suc i) tab" by (simp add: Cons_nth_drop_Suc)
  have w: "wanted since (drop i tab) = (case tab ! i of None \<Rightarrow> wanted since (drop (Suc i) tab)
     | Some c \<Rightarrow> if since = 0 \<or> since < cc_lastmod c then c # wanted since (drop (Suc i) tab) else wanted since (drop (Suc i) tab))"
    unfolding d by (rule wanted_simps)
  show ?case using Suc.IH [of "Suc i"] Suc.prems by (cases "tab ! i") (auto simp: w not_le split: option.splits)
qed (simp add: wanted_simps)

text \<open>The frames of a contact list: every wanted contact in the order of the table, then the end mark.\<close>

definition end_frame :: "u32 \<Rightarrow> byte list" where
  "end_frame recent = [RESP_CODE_END_OF_CONTACTS] @ put_u32 recent"

definition newest :: "u32 \<Rightarrow> CompanionContact list \<Rightarrow> u32" where
  "newest recent cs = foldl (\<lambda>r c. if cc_lastmod c > r then cc_lastmod c else r) recent cs"

definition contact_wf :: "CompanionContact \<Rightarrow> bool" where
  "contact_wf c \<longleftrightarrow> length (cc_pub_key c) = SIGURDOS_COMPANION_PUB_KEY_SIZE \<and> length (cc_out_path c) = SIGURDOS_COMPANION_PATH_SIZE"

lemma length_strzcpy: "0 < n \<Longrightarrow> length (strzcpy (Some s) n) = n"
  by (simp add: strzcpy_def)

lemma length_contact_frame: "contact_wf c \<Longrightarrow> length (contact_frame code c) = 148"
  by (simp add: contact_wf_def contact_frame_def length_strzcpy SIGURDOS_COMPANION_PUB_KEY_SIZE_def SIGURDOS_COMPANION_PATH_SIZE_def)

locale contact_client = recording_client +
  fixes tab :: "CompanionContact option list"
  assumes contact_count: "live e \<Longrightarrow> h_contactCount (h_tables h) e = length tab"
    and contacts: "live e \<Longrightarrow> h_getContact (h_tables h) i e = entry tab i"
    and contacts_wf: "Some c \<in> set tab \<Longrightarrow> contact_wf c"
begin

lemma wanted_wf: "c \<in> set (wanted since (drop i tab)) \<Longrightarrow> contact_wf c"
  using contacts_wf set_drop_subset [of i tab] by (auto simp: wanted_def split: option.splits)

lemma service_step:
  assumes s: "serving b" and iter: "contact_iter b = int i" and i: "i \<le> length tab"
  shows "\<exists>e. live e \<and> (case wanted (iter_filter_since b) (drop i tab) of
      [] \<Rightarrow> run_state serviceCurrentSession b = ((), b\<lparr>contact_iter := -1, b_env := e\<rparr>) \<and>
        out e = out (b_env b) @ [end_frame (most_recent_lastmod b)]
    | c # cs \<Rightarrow> \<exists>j \<le> length tab. cs = wanted (iter_filter_since b) (drop j tab) \<and>
        run_state serviceCurrentSession b = ((), b\<lparr>contact_iter := int j, most_recent_lastmod := newest (most_recent_lastmod b) [c], b_env := e\<rparr>) \<and>
        out e = out (b_env b) @ [contact_frame RESP_CODE_CONTACT c])"
proof -
  have h: "b_host b = Some h" "b_transport_request_active b" "b_request_transport b = tid" "live (b_env b)"
    and busy: "\<And>s e. b_serial b = Some s \<Longrightarrow> tid = BLE \<Longrightarrow> \<not> s_isWriteBusy s e" using s unfolding serving_client_def by blast+
  have run: "run_state serviceCurrentSession b = run_state (service_contacts h) b"
    using busy iter by (auto simp: serviceCurrentSession_def run_expire [OF s] run_flush [OF s] when_host_def h split: option.split)
  have tabl: "(\<lambda>i. h_getContact (h_tables h) i (b_env b)) = entry tab" using contacts [OF h(4)] by (simp add: fun_eq_iff)
  obtain r j where scan: "scan_contacts (entry tab) (iter_filter_since b) (length tab - i) i = (r, j)" by force
  note spec = scan_contacts_wanted [of i "length tab - i" tab "iter_filter_since b", unfolded scan]
  show ?thesis
  proof (cases r)
    case None
    let ?fr = "end_frame (most_recent_lastmod b)"
    have e: "0 < length ?fr" "length ?fr \<le> l_MAX_FRAME_SIZE l" using frame_size by (simp_all add: end_frame_def)
    have "run_state (service_contacts h) b = ((), b\<lparr>contact_iter := -1, b_env := sent ?fr (b_env b)\<rparr>)"
      using iter scan None run_respond(2) [OF s e]
      by (simp add: service_contacts_def look_def contact_count [OF h(4)] tabl end_frame_def)
    then show ?thesis using spec i None run sent_spec [OF h(4) e] by auto
  next
    case (Some c)
    then have w: "j \<le> length tab" "wanted (iter_filter_since b) (drop i tab) = c # wanted (iter_filter_since b) (drop j tab)" using spec i by auto
    let ?b = "b\<lparr>contact_iter := int j, most_recent_lastmod := newest (most_recent_lastmod b) [c]\<rparr>"
    let ?fr = "contact_frame RESP_CODE_CONTACT c"
    have "length ?fr = 148" using w(2) wanted_wf [of c "iter_filter_since b" i] by (intro length_contact_frame) simp
    then have e: "0 < length ?fr" "length ?fr \<le> l_MAX_FRAME_SIZE l" using frame_size by (auto simp del: length_greater_0_conv)
    have "serving ?b" using s by (simp add: serving_client_def)
    from run_respond(1) [OF this e] have "run_state (sendResponseFrame ?fr) ?b = (True, ?b\<lparr>b_env := sent ?fr (b_env b)\<rparr>)" by simp
    then have "run_state (service_contacts h) b = ((), ?b\<lparr>b_env := sent ?fr (b_env b)\<rparr>)" using iter scan Some
      by (simp add: service_contacts_def look_def contact_count [OF h(4)] tabl writeContactFrame_def ignore_def newest_def)
    then show ?thesis using w run sent_spec [OF h(4) e] by auto
  qed
qed

lemma service_all:
  assumes "serving b" and "contact_iter b = int i" and "i \<le> length tab"
  shows "\<exists>b'. run_state (for_each (\<lambda>_. serviceCurrentSession) (replicate (length (wanted (iter_filter_since b) (drop i tab)) + 1) ())) b = ((), b') \<and>
    contact_iter b' = -1 \<and>
    out (b_env b') = out (b_env b) @ map (contact_frame RESP_CODE_CONTACT) (wanted (iter_filter_since b) (drop i tab)) @
      [end_frame (newest (most_recent_lastmod b) (wanted (iter_filter_since b) (drop i tab)))]"
  using assms
proof (induction "wanted (iter_filter_since b) (drop i tab)" arbitrary: b i)
  case Nil
  note w = Nil(1) [symmetric]
  obtain e where "run_state serviceCurrentSession b = ((), b\<lparr>contact_iter := -1, b_env := e\<rparr>)"
    "out e = out (b_env b) @ [end_frame (most_recent_lastmod b)]"
    using service_step [OF Nil(2-4)] w by auto
  then show ?case by (auto simp: w newest_def)
next
  case (Cons c cs)
  note w = Cons(2) [symmetric]
  obtain e j where j: "j \<le> length tab" "cs = wanted (iter_filter_since b) (drop j tab)" and e: "live e" "out e = out (b_env b) @ [contact_frame RESP_CODE_CONTACT c]"
    and run: "run_state serviceCurrentSession b = ((), b\<lparr>contact_iter := int j, most_recent_lastmod := newest (most_recent_lastmod b) [c],
          b_env := e\<rparr>)" (is "_ = ((), ?b)")
    using service_step [OF Cons(3-5)] w by auto
  have "serving ?b" using Cons(3) e by (simp add: serving_client_def)
  then obtain b' where b': "run_state (for_each (\<lambda>_. serviceCurrentSession) (replicate (length cs + 1) ())) ?b = ((), b')"
    "contact_iter b' = -1"
    "out (b_env b') = out (b_env ?b) @ map (contact_frame RESP_CODE_CONTACT) cs @ [end_frame (newest (most_recent_lastmod ?b) cs)]"
    using Cons(1) [of ?b j] j by auto
  then show ?case using run e by (auto simp: w newest_def)
qed

lemma get_contacts_run:
  assumes s: "serving b" and idle: "contact_iter b < 0" and f: "0 < length f" "f ! 0 = CMD_GET_CONTACTS"
  shows "\<exists>e. live e \<and> out e = out (b_env b) @ [[RESP_CODE_CONTACTS_START] @ put_u32 (word_of_nat (length tab))] \<and>
    run_state (handle_command h f len) b = ((), b\<lparr>iter_filter_since := (if len \<ge> 5 then get_u32 f 1 else 0),
      contact_iter := 0, most_recent_lastmod := 0, b_env := e\<rparr>)"
proof -
  let ?b = "b\<lparr>iter_filter_since := (if len \<ge> 5 then get_u32 f 1 else 0)\<rparr>"
  let ?fr = "[RESP_CODE_CONTACTS_START] @ put_u32 (word_of_nat (length tab))"
  have e: "0 < length ?fr" "length ?fr \<le> l_MAX_FRAME_SIZE l" and live: "live (b_env b)" using frame_size s by simp_all
  have "serving ?b" using s by (simp add: serving_client_def)
  moreover have "handle_command h f len = do_get_contacts h f len"
    using f by (simp add: handle_command_def commandMinimumLength_def dispatch_session_def codes)
  ultimately have "run_state (handle_command h f len) b = ((), b\<lparr>iter_filter_since := (if len \<ge> 5 then get_u32 f 1 else 0),
      contact_iter := 0, most_recent_lastmod := 0, b_env := sent ?fr (b_env b)\<rparr>)"
    using idle run_respond(2) [of ?b, OF _ e] by (simp add: do_get_contacts_def look_def contact_count [OF live])
  then show ?thesis using sent_spec [OF live e] by blast
qed

end

text \<open>
  C16: a contact list is complete, in order, and ends. A client on a link that accepts frames, with a
  host whose contact table stays the same meanwhile, asks for the contacts changed since a time;
  after as many service rounds as there are such contacts, plus one, it has received the
  start mark with the size of the table, every contact changed after that time (all of them for time
  0) in the order of the table, each once, and the end mark with the newest change time; the bridge
  is then ready for the next list.
\<close>

theorem contact_list_complete:
  assumes client: "contact_client l h tid ci gen out live tab" and "serving_client l h tid ci b" and "live (b_env b)" and "contact_iter b < 0"
    and "0 < length f" and "f ! 0 = CMD_GET_CONTACTS" and since: "since = (if len \<ge> 5 then get_u32 f 1 else 0)"
  shows "\<exists>b'. run_state (do {
      handle_command h f len;
      for_each (\<lambda>_. serviceCurrentSession) (replicate (length (wanted since tab) + 1) ()) }) b = ((), b') \<and>
    contact_iter b' = -1 \<and>
    out (b_env b') = out (b_env b) @ [[RESP_CODE_CONTACTS_START] @ put_u32 (word_of_nat (length tab))] @
      map (contact_frame RESP_CODE_CONTACT) (wanted since tab) @ [[RESP_CODE_END_OF_CONTACTS] @ put_u32 (newest 0 (wanted since tab))]"
proof -
  obtain e where e: "live e" "out e = out (b_env b) @ [[RESP_CODE_CONTACTS_START] @ put_u32 (word_of_nat (length tab))]"
    and start: "run_state (handle_command h f len) b = ((), b\<lparr>iter_filter_since := since, contact_iter := 0, most_recent_lastmod := 0, b_env := e\<rparr>)"
    (is "_ = ((), ?b)")
    using contact_client.get_contacts_run [OF client _ assms(4-6), of len] assms(2,3) since by auto
  have "serving_client l h tid ci ?b \<and> live (b_env ?b)" using assms(2) e by (simp add: serving_client_def)
  then obtain b' where "run_state (for_each (\<lambda>_. serviceCurrentSession) (replicate (length (wanted since tab) + 1) ())) ?b = ((), b')"
    "contact_iter b' = -1"
    "out (b_env b') = out (b_env ?b) @ map (contact_frame RESP_CODE_CONTACT) (wanted since tab) @ [end_frame (newest 0 (wanted since tab))]"
    using contact_client.service_all [OF client, of ?b 0] by auto
  then show ?thesis using start e by (auto simp: end_frame_def)
qed

definition demo_contact :: "byte \<Rightarrow> u32 \<Rightarrow> CompanionContact" where
  "demo_contact x t = \<lparr>cc_pub_key = replicate 32 x, cc_type = 1, cc_flags = 0, cc_out_path_len = 0xFF, cc_out_path = replicate 64 0,
     cc_name = [x], cc_last_advert_timestamp = 0, cc_lastmod = t, cc_gps_lat = 0, cc_gps_lon = 0\<rparr>"

definition demo_table :: "CompanionContact option list" where
  "demo_table = [Some (demo_contact 1 5), None, Some (demo_contact 2 9)]"

definition contact_host :: "CompanionContact option list \<Rightarrow> 'e CompanionBridgeHost" where
  "contact_host tab = quiet_host\<lparr>h_tables := quiet_tables\<lparr>h_contactCount := (\<lambda>_. length tab), h_getContact := (\<lambda>i _. entry tab i)\<rparr>\<rparr>"

interpretation demo_client: contact_client demo_linked "contact_host demo_table" TCP 0 7 de_out "\<lambda>_. True" demo_table
proof unfold_locales
  fix c assume "Some c \<in> set demo_table"
  then show "contact_wf c"
    by (auto simp: demo_table_def demo_contact_def contact_wf_def SIGURDOS_COMPANION_PUB_KEY_SIZE_def SIGURDOS_COMPANION_PATH_SIZE_def)
qed (simp_all add: demo_linked_def demo_send_def contact_host_def)

text \<open>The sample bridge, working for its client.\<close>

definition demo_serving :: "demo_env CompanionBridgeHost \<Rightarrow> demo_env bridge" where
  "demo_serving h = (blank_bridge demo_world)\<lparr>b_host := Some h, b_transport_request_active := True, b_request_transport := TCP,
     b_request_client_index := 0\<rparr>"

lemma demo_serving: "serving_client demo_linked h TCP 0 (demo_serving h)"
  by (simp add: serving_client_def demo_serving_def blank_bridge_def no_request_def list_all_iff)

theorem contact_list_complete_witness:
  "\<exists>b'. contact_iter b' = -1 \<and> run_state (do {
      handle_command (contact_host demo_table) [CMD_GET_CONTACTS, 6, 0, 0, 0, 0] 5;
      for_each (\<lambda>_. serviceCurrentSession) [(), ()] }) (demo_serving (contact_host demo_table)) = ((), b') \<and>
     de_out (b_env b') = [[RESP_CODE_CONTACTS_START, 3, 0, 0, 0], contact_frame RESP_CODE_CONTACT (demo_contact 2 9),
       [RESP_CODE_END_OF_CONTACTS, 9, 0, 0, 0]]"
proof -
  let ?f = "[CMD_GET_CONTACTS, 6, 0, 0, 0, 0]"
  have w: "wanted 6 demo_table = [demo_contact 2 9]" by (simp add: wanted_def demo_table_def demo_contact_def)
  have s: "(6 :: u32) = (if (5 :: nat) \<ge> 5 then get_u32 ?f 1 else 0)" by (simp add: get_u32_def)
  have i: "contact_iter (demo_serving h) < 0" "de_out (b_env (demo_serving h)) = []" for h
    by (simp_all add: demo_serving_def blank_bridge_def demo_world_def)
  have m: "newest 0 [demo_contact 2 9] = 9" "length demo_table = 3" by (simp_all add: newest_def demo_contact_def demo_table_def)
  have r: "replicate (length [demo_contact 2 9] + 1) () = [(), ()]" by simp
  obtain b' where b': "run_state (do {
      handle_command (contact_host demo_table) ?f 5;
      for_each (\<lambda>_. serviceCurrentSession) [(), ()] }) (demo_serving (contact_host demo_table)) = ((), b')" "contact_iter b' = -1"
    and o: "de_out (b_env b') = [] @ [[RESP_CODE_CONTACTS_START] @ put_u32 (word_of_nat 3)] @
      map (contact_frame RESP_CODE_CONTACT) [demo_contact 2 9] @ [[RESP_CODE_END_OF_CONTACTS] @ put_u32 9]"
    using contact_list_complete [OF demo_client.contact_client_axioms demo_serving TrueI i(1) _ _ s, unfolded w i(2) m r] by fastforce
  have "de_out (b_env b') = [[RESP_CODE_CONTACTS_START, 3, 0, 0, 0], contact_frame RESP_CODE_CONTACT (demo_contact 2 9),
       [RESP_CODE_END_OF_CONTACTS, 9, 0, 0, 0]]" unfolding o by (simp add: put_u32_def)
  with b' show ?thesis by blast
qed

end
