(* ===== verification/BridgeSync.thy ===== *)
theory BridgeSync
  imports BridgeClient "HOL-Library.Multiset"
begin

text \<open>
  Polling the backlog. A client that keeps sending \<open>CMD_SYNC_NEXT_MESSAGE\<close> receives the stored
  messages page by page; the poll after a message acknowledges it. The theory states this as a
  small abstract machine, shows that the bridge over any backlog provider simulates the
  machine, and concludes for the message log that the backlog is delivered completely.
\<close>

section \<open>The abstract machine\<close>

record sync =
  sy_queue :: "StoredMessage list"
  sy_inflight :: bool
  sy_backlog :: "StoredMessage list"

text \<open>A page holds the next 16 messages, less those whose frame is the same as an earlier one's.\<close>

definition keep_new :: "(StoredMessage \<Rightarrow> byte list) \<Rightarrow> StoredMessage list \<Rightarrow> StoredMessage \<Rightarrow> StoredMessage list" where
  "keep_new f q m = (if f m \<in> f ` set q then q else q @ [m])"

definition page :: "(StoredMessage \<Rightarrow> byte list) \<Rightarrow> StoredMessage list \<Rightarrow> StoredMessage list" where
  "page f ms = foldl (keep_new f) [] (take OFFLINE_QUEUE_SIZE ms)"

definition without :: "StoredMessage \<Rightarrow> StoredMessage list \<Rightarrow> StoredMessage list" where
  "without m ms = filter (\<lambda>x. sm_store_id x \<noteq> sm_store_id m) ms"

definition sync_ack :: "sync \<Rightarrow> sync" where
  "sync_ack s = (if sy_inflight s
     then \<lparr>sy_queue = tl (sy_queue s), sy_inflight = False, sy_backlog = without (hd (sy_queue s)) (sy_backlog s)\<rparr> else s)"

definition sync_fill :: "(StoredMessage \<Rightarrow> byte list) \<Rightarrow> sync \<Rightarrow> sync" where
  "sync_fill f s = (if sy_queue s = [] then s\<lparr>sy_queue := page f (sy_backlog s)\<rparr> else s)"

definition sync_step :: "(StoredMessage \<Rightarrow> byte list) \<Rightarrow> sync \<Rightarrow> byte list option \<times> sync" where
  "sync_step f s = (let a = sync_fill f (sync_ack s)
     in case sy_queue a of [] \<Rightarrow> (None, a) | m # _ \<Rightarrow> (Some (f m), a\<lparr>sy_inflight := True\<rparr>))"

fun sync_run :: "(StoredMessage \<Rightarrow> byte list) \<Rightarrow> nat \<Rightarrow> sync \<Rightarrow> byte list option list \<times> sync" where
  "sync_run f 0 s = ([], s)"
| "sync_run f (Suc n) s = (case sync_step f s of (x, s1) \<Rightarrow> (case sync_run f n s1 of (xs, s2) \<Rightarrow> (x # xs, s2)))"

definition sync_ok :: "sync \<Rightarrow> bool" where
  "sync_ok s \<longleftrightarrow> set (sy_queue s) \<subseteq> set (sy_backlog s) \<and> distinct (map sm_store_id (sy_backlog s)) \<and>
     distinct (sy_queue s) \<and> length (sy_queue s) \<le> OFFLINE_QUEUE_SIZE \<and> (sy_inflight s \<longrightarrow> sy_queue s \<noteq> [])"

lemma page_props:
  assumes "distinct (q @ ms)"
  shows "set (foldl (keep_new f) q ms) \<subseteq> set (q @ ms) \<and> distinct (foldl (keep_new f) q ms) \<and>
    length (foldl (keep_new f) q ms) \<le> length (q @ ms) \<and> (q \<noteq> [] \<longrightarrow> foldl (keep_new f) q ms \<noteq> [])"
  using assms
proof (induction ms arbitrary: q)
  case (Cons m ms)
  have "distinct (keep_new f q m @ ms)" "set (keep_new f q m) \<subseteq> set (q @ [m])" "length (keep_new f q m) \<le> length q + 1"
    "q \<noteq> [] \<longrightarrow> keep_new f q m \<noteq> []" using Cons.prems by (auto simp: keep_new_def)
  then show ?case using Cons.IH [of "keep_new f q m"] by auto
qed simp

lemma page_in_order:
  assumes "distinct (map f (q @ ms))"
  shows "foldl (keep_new f) q ms = q @ ms"
  using assms
proof (induction ms arbitrary: q)
  case (Cons m ms)
  then have "keep_new f q m = q @ [m]" by (auto simp: keep_new_def)
  then show ?case using Cons.IH [of "q @ [m]"] Cons.prems by simp
qed simp

lemma page_spec:
  assumes "distinct (map sm_store_id bl)"
  shows "set (page f bl) \<subseteq> set bl" "distinct (page f bl)" "length (page f bl) \<le> OFFLINE_QUEUE_SIZE" "page f bl = [] \<longleftrightarrow> bl = []"
proof -
  have d: "distinct (take OFFLINE_QUEUE_SIZE bl)" using assms by (simp add: distinct_map)
  note p = page_props [of "[]" "take OFFLINE_QUEUE_SIZE bl" f]
  show "set (page f bl) \<subseteq> set bl" "distinct (page f bl)" "length (page f bl) \<le> OFFLINE_QUEUE_SIZE"
    using p d set_take_subset [of OFFLINE_QUEUE_SIZE bl] by (auto simp: page_def)
  show "page f bl = [] \<longleftrightarrow> bl = []"
  proof (cases bl)
    case (Cons m ms)
    have "distinct (m # take (OFFLINE_QUEUE_SIZE - 1) ms)" using d Cons by (simp add: OFFLINE_QUEUE_SIZE_def take_Cons')
    then have "foldl (keep_new f) [m] (take (OFFLINE_QUEUE_SIZE - 1) ms) \<noteq> []"
      using page_props [of "[m]" "take (OFFLINE_QUEUE_SIZE - 1) ms" f] by simp
    then show ?thesis using Cons by (simp add: page_def take_Cons' OFFLINE_QUEUE_SIZE_def keep_new_def)
  qed (simp add: page_def)
qed

lemma without_mset:
  assumes "distinct (map sm_store_id bl)" and "m \<in> set bl"
  shows "mset bl = add_mset m (mset (without m bl))" and "length bl = Suc (length (without m bl))"
proof -
  have "filter (\<lambda>x. sm_store_id x = sm_store_id m) bl = [m]"
    using assms by (induction bl) (auto simp: filter_empty_conv image_iff)
  then have "mset (filter (\<lambda>x. sm_store_id x = sm_store_id m) bl) = {#m#}" by simp
  then show 1: "mset bl = add_mset m (mset (without m bl))"
    using multiset_partition [of "mset bl" "\<lambda>x. sm_store_id x = sm_store_id m"] by (simp add: without_def)
  show "length bl = Suc (length (without m bl))" using arg_cong [OF 1, of size] by simp
qed

lemma without_ok: "distinct (map sm_store_id bl) \<Longrightarrow> distinct (map sm_store_id (without m bl))"
  by (simp add: without_def distinct_map_filter)

lemma ack_ok:
  assumes "sync_ok s"
  shows "sync_ok (sync_ack s)" "\<not> sy_inflight (sync_ack s)"
proof -
  have ok: "set (sy_queue s) \<subseteq> set (sy_backlog s)" "distinct (map sm_store_id (sy_backlog s))" "distinct (sy_queue s)"
    "length (sy_queue s) \<le> OFFLINE_QUEUE_SIZE" "sy_inflight s \<Longrightarrow> sy_queue s \<noteq> []" using assms by (simp_all add: sync_ok_def)
  have "set (tl q) \<subseteq> set (without (hd q) bl)"
    if "q \<noteq> []" "set q \<subseteq> set bl" "distinct q" "distinct (map sm_store_id bl)" for q bl
  proof
    fix x assume x: "x \<in> set (tl q)"
    with that(1,3) have "x \<noteq> hd q" "x \<in> set q" "hd q \<in> set q" by (cases q; auto)+
    then show "x \<in> set (without (hd q) bl)" using that(2,4) by (auto simp: without_def distinct_map inj_on_def)
  qed
  then show "sync_ok (sync_ack s)" using ok without_ok
    by (auto simp: sync_ok_def sync_ack_def distinct_tl)
  show "\<not> sy_inflight (sync_ack s)" by (simp add: sync_ack_def)
qed

lemma fill_ok: "sync_ok s \<Longrightarrow> sync_ok (sync_fill f s)"
  using page_spec [of "sy_backlog s" f] by (auto simp: sync_ok_def sync_fill_def)

lemma fill_backlog [simp]: "sy_backlog (sync_fill f s) = sy_backlog s"
  by (simp add: sync_fill_def)

lemma fill_empty: "sync_ok s \<Longrightarrow> sy_queue (sync_fill f s) = [] \<longleftrightarrow> sy_backlog s = []"
  using page_spec(4) [of "sy_backlog s" f] by (auto simp: sync_ok_def sync_fill_def)

text \<open>Messages are delivered in the order of the backlog when no two of them make the same frame.\<close>

definition in_order :: "(StoredMessage \<Rightarrow> byte list) \<Rightarrow> sync \<Rightarrow> bool" where
  "in_order f s \<longleftrightarrow> distinct (map f (sy_backlog s)) \<and> (\<exists>k. sy_queue s = take k (sy_backlog s))"

lemma without_head:
  assumes "distinct (map sm_store_id (m # ms))"
  shows "without m (m # ms) = ms"
  using assms by (auto simp: without_def image_iff intro!: filter_True)

lemma in_order_ack:
  assumes "sync_ok s" and "in_order f s"
  shows "in_order f (sync_ack s)"
proof (cases "sy_inflight s")
  case True
  then have ne: "sy_queue s \<noteq> []" using assms(1) by (simp add: sync_ok_def)
  then obtain m q where mq: "sy_queue s = m # q" by (cases "sy_queue s") auto
  obtain k where k: "m # q = take k (sy_backlog s)" using assms(2) mq by (auto simp: in_order_def)
  then obtain bl where bl: "sy_backlog s = m # bl" by (cases "sy_backlog s"; cases k) auto
  then have "q = take (k - 1) bl" using k by (cases k) auto
  note m = mq bl
  have "without m (m # bl) = bl" using assms(1) m by (intro without_head) (simp add: sync_ok_def)
  then show ?thesis using True m assms(2) \<open>q = take (k - 1) bl\<close> by (auto simp: sync_ack_def in_order_def)
qed (simp add: sync_ack_def assms)

lemma in_order_fill: "in_order f s \<Longrightarrow> in_order f (sync_fill f s)"
proof -
  assume o: "in_order f s"
  have "page f (sy_backlog s) = take OFFLINE_QUEUE_SIZE (sy_backlog s)"
    unfolding page_def using o page_in_order [of f "[]" "take OFFLINE_QUEUE_SIZE (sy_backlog s)"]
    by (simp add: in_order_def take_map [symmetric])
  then show ?thesis using o by (auto simp: in_order_def sync_fill_def)
qed

lemma sync_drains:
  assumes "sync_ok s" and "n = length (sy_backlog (sync_ack s))"
  shows "\<exists>outs s'. sync_run f (Suc n) s = (map Some outs @ [None], s') \<and> mset outs = image_mset f (mset (sy_backlog (sync_ack s))) \<and>
    (in_order f s \<longrightarrow> outs = map f (sy_backlog (sync_ack s))) \<and> sy_backlog s' = [] \<and> sync_ok s'"
  using assms
proof (induction n arbitrary: s)
  case 0
  let ?a = "sync_fill f (sync_ack s)"
  have "sy_queue ?a = []" "sync_ok ?a" using 0 ack_ok fill_ok fill_empty [of "sync_ack s" f] by auto
  then show ?case using 0 by (auto simp: sync_step_def Let_def)
next
  case (Suc n)
  let ?a = "sync_fill f (sync_ack s)"
  have a: "sync_ok ?a" "sy_backlog ?a \<noteq> []" using Suc.prems ack_ok fill_ok by auto
  then obtain m q where q: "sy_queue ?a = m # q" using fill_empty [of "sync_ack s" f] ack_ok [OF Suc.prems(1)] by (cases "sy_queue ?a") auto
  have m: "m \<in> set (sy_backlog ?a)" "distinct (map sm_store_id (sy_backlog ?a))" using a(1) q by (auto simp: sync_ok_def)
  let ?s = "?a\<lparr>sy_inflight := True\<rparr>"
  have s1: "sync_ok ?s" "sy_backlog (sync_ack ?s) = without m (sy_backlog ?a)" using a(1) q by (auto simp: sync_ok_def sync_ack_def)
  moreover have "n = length (sy_backlog (sync_ack ?s))" using without_mset(2) [OF m(2,1)] s1(2) Suc.prems(2) by simp
  ultimately obtain outs s' where r: "sync_run f (Suc n) ?s = (map Some outs @ [None], s')"
    "mset outs = image_mset f (mset (without m (sy_backlog ?a)))" "in_order f ?s \<longrightarrow> outs = map f (without m (sy_backlog ?a))"
    "sy_backlog s' = []" "sync_ok s'" using Suc.IH [of ?s] by auto
  have step: "sync_step f s = (Some (f m), ?s)" using q by (simp add: sync_step_def Let_def)
  have run: "sync_run f (Suc (Suc n)) s = (map Some (f m # outs) @ [None], s')"
    using step r(1) by (simp del: sync_run.simps(2) add: sync_run.simps(2) [of f "Suc n" s])
  have ms: "mset (f m # outs) = image_mset f (mset (sy_backlog (sync_ack s)))"
    using r(2) without_mset(1) [OF m(2,1)] by simp
  have "f m # outs = map f (sy_backlog (sync_ack s))" if "in_order f s"
  proof -
    have o: "in_order f ?a" using that Suc.prems in_order_ack in_order_fill by blast
    then obtain bl where bl: "sy_backlog ?a = m # bl" using q by (cases "sy_backlog ?a") (auto simp: in_order_def take_Cons' split: if_splits)
    have "in_order f ?s" using o by (simp add: in_order_def)
    then show ?thesis using r(3) bl without_head [of m bl] m(2) by simp
  qed
  then show ?case using run ms r(4,5) by (intro exI [of _ "f m # outs"] exI [of _ s']) blast
qed

section \<open>The bridge simulates the machine\<close>

lemma message_frame_length:
  assumes "20 \<le> mfs"
  shows "0 < length (message_frame mfs ver c m)" "length (message_frame mfs ver c m) \<le> mfs"
proof -
  have h: "0 < length (message_head ver c m)" "length (message_head ver c m) \<le> 20"
    by (simp_all add: message_head_def SIGURDOS_COMPANION_PUB_KEY_PREFIX_SIZE_def min_def)
  then show "0 < length (message_frame mfs ver c m)" by (simp add: message_frame_def Let_def)
  show "length (message_frame mfs ver c m) \<le> mfs" using h(2) assms by (auto simp: message_frame_def Let_def)
qed

lemma run_linked_env:
  "run_state (linked_env g) b = (fst (g (b_linked b) (b_env b)), b\<lparr>b_env := snd (g (b_linked b) (b_env b))\<rparr>)"
  by (simp add: linked_env_def split_def)

lemma leaves_any_of: "(\<And>x. leaves g (f x)) \<Longrightarrow> leaves g (any_of f xs)"
  by (induction xs) (auto intro!: leaves_intros)

lemma leaves_look: "leaves g (linked_look f)"
  by (simp add: leaves_def linked_look_def)

lemma leaves_build: "leaves g (buildMessageFrame m ver)"
  by (simp add: leaves_def buildMessageFrame_def max_frame_def)

lemma leaves_live: "leaves g (session_live i)"
  by (simp add: leaves_def session_live_def linked_look_def)

lemma leaves_isConnected: "leaves g isConnected"
  unfolding isConnected_def by (intro leaves_intros leaves_look)

text \<open>What a session is called; no operation of a poll changes it.\<close>

definition idents :: "'e bridge \<Rightarrow> (bool \<times> TransportId \<times> int \<times> u32) list" where
  "idents b = map (\<lambda>s. (ts_used s, ts_id s, ts_client_index s, ts_generation s)) (b_transport_sessions b)"

lemma first_index_map: "first_index P (map g xs) = first_index (P \<circ> g) xs"
  by (induction xs) auto

lemma session_slot_idents:
  assumes "idents b = idents b'"
  shows "session_slot tid ci (b_transport_sessions b) = session_slot tid ci (b_transport_sessions b')"
proof -
  let ?key = "\<lambda>s. (ts_used s, ts_id s, ts_client_index s, ts_generation s)"
  have *: "session_slot tid ci ss = (case first_index (\<lambda>(u, t, c, g). u \<and> t = tid \<and> c = ci) (map ?key ss) of
      Some i \<Rightarrow> Some i | None \<Rightarrow> first_index (\<lambda>(u, t, c, g). \<not> u) (map ?key ss))" for ss
    unfolding session_slot_def first_index_map by (simp add: comp_def split: option.split)
  show ?thesis unfolding * assms [unfolded idents_def] ..
qed

lemma session_same_ident:
  assumes "idents b = idents b'" and "i < length (b_transport_sessions b)"
  shows "i < length (b_transport_sessions b')" "ts_used (b_transport_sessions b ! i) = ts_used (b_transport_sessions b' ! i)"
    "ts_generation (b_transport_sessions b ! i) = ts_generation (b_transport_sessions b' ! i)"
proof -
  show i: "i < length (b_transport_sessions b')" using arg_cong [OF assms(1), of length] assms(2) by (simp add: idents_def)
  have "idents b ! i = idents b' ! i" using assms(1) by simp
  then show "ts_used (b_transport_sessions b ! i) = ts_used (b_transport_sessions b' ! i)"
    "ts_generation (b_transport_sessions b ! i) = ts_generation (b_transport_sessions b' ! i)"
    using i assms(2) by (simp_all add: idents_def)
qed

lemma leaves_add_to_session:
  assumes "\<And>b ss. map (\<lambda>s. (ts_used s, ts_id s, ts_client_index s, ts_generation s)) ss = idents b \<Longrightarrow> g (b\<lparr>b_transport_sessions := ss\<rparr>) = g b"
  shows "leaves g (add_to_session_queue i sid p fr)"
proof -
  let ?key = "\<lambda>s. (ts_used s, ts_id s, ts_client_index s, ts_generation s)"
  have "map ?key (ss[i := (ss ! i)\<lparr>offline := q\<rparr>]) = map ?key ss" for ss q
    by (cases "i < length ss") (simp_all add: map_update list_update_same_conv list_update_beyond)
  then have "g (b\<lparr>b_transport_sessions := (b_transport_sessions b)[i := (b_transport_sessions b ! i)\<lparr>offline := q\<rparr>]\<rparr>) = g b" for b q
    by (intro assms) (simp add: idents_def)
  then show ?thesis by (auto simp: leaves_def add_to_session_queue_def put_session_def max_frame_def split: option.split)
qed

text \<open>Everything but the queues.\<close>

definition unqueued where
  "unqueued b = ((b_linked b, b_host b, b_transport_request_active b, b_request_transport b, b_request_client_index b, b_serial b),
     (pending_response_len b, pending_binary b, version_negotiated b, app_target_ver b, connection_generation b),
     (inflight_store_id b, inflight_generation b, b_env b, idents b, b_active_session b))"

lemma leaves_refill_message: "leaves unqueued (refill_message m)"
  unfolding refill_message_def enqueue_for_session_def addToOfflineQueue_def
  by (intro leaves_intros leaves_any_of leaves_live leaves_build leaves_add_to_session)
    (simp_all add: unqueued_def idents_def)

lemma leaves_refill_others: "leaves offline (any_of (\<lambda>i. do {
    active \<leftarrow> gets b_active_session; live \<leftarrow> session_live i;
    if active = Some i \<or> \<not> live then ret False else enqueue_for_session m True i }) is)"
  unfolding enqueue_for_session_def
  by (intro leaves_intros leaves_any_of leaves_live leaves_build leaves_add_to_session) simp

text \<open>The bridge before the first frame of a connection, which opens a new session.\<close>

definition unopened_client :: "'e linked \<Rightarrow> 'e CompanionBridgeHost \<Rightarrow> TransportId \<Rightarrow> int \<Rightarrow> u32 \<Rightarrow> 'e bridge \<Rightarrow> bool" where
  "unopened_client l h tid ci gen b \<longleftrightarrow> b_linked b = l \<and> b_host b = Some h \<and>
     (\<forall>s e. b_serial b = Some s \<longrightarrow> tid = BLE \<longrightarrow> \<not> s_isWriteBusy s e) \<and>
     (\<exists>i. session_slot tid ci (b_transport_sessions b) = Some i \<and>
        (ts_used (b_transport_sessions b ! i) \<longrightarrow> ts_generation (b_transport_sessions b ! i) \<notin> {0, gen}))"

locale syncing_client = recording_client l h tid ci gen out live + companion_backlog load mark ok backlog
  for l :: "'e linked" and h :: "'e CompanionBridgeHost" and tid :: TransportId and ci :: int and gen :: u32
    and out :: "'e \<Rightarrow> byte list list" and live :: "'e \<Rightarrow> bool"
    and load :: "nat \<Rightarrow> 's \<Rightarrow> StoredMessage list \<times> 's" and mark :: "u32 \<Rightarrow> 's \<Rightarrow> bool \<times> 's" and ok :: "'s \<Rightarrow> bool"
    and backlog :: "'s \<Rightarrow> StoredMessage list" +
  fixes store :: "'e \<Rightarrow> 's" and chan :: "byte list \<Rightarrow> byte"
  assumes link_load: "live e \<Longrightarrow> fst (l_loadUnsent l n e) = fst (load n (store e)) \<and> store (snd (l_loadUnsent l n e)) = snd (load n (store e)) \<and>
      out (snd (l_loadUnsent l n e)) = out e \<and> live (snd (l_loadUnsent l n e))"
    and link_mark: "live e \<Longrightarrow> fst (l_markCompanionSent l i e) = fst (mark i (store e)) \<and>
      store (snd (l_markCompanionSent l i e)) = snd (mark i (store e)) \<and>
      out (snd (l_markCompanionSent l i e)) = out e \<and> live (snd (l_markCompanionSent l i e))"
    and link_send: "live e \<Longrightarrow> store (snd (l_send_to_result l tid ci fr e)) = store e"
    and link_cancel: "live e \<Longrightarrow> store (h_cancelBinaryReqs (h_radio h) e) = store e \<and> out (h_cancelBinaryReqs (h_radio h) e) = out e \<and>
      live (h_cancelBinaryReqs (h_radio h) e)"
    and channels: "live e \<Longrightarrow> channel_index (Some h) e conv = chan conv"
begin

abbreviation frame :: "byte \<Rightarrow> StoredMessage \<Rightarrow> byte list" where
  "frame ver m \<equiv> message_frame (l_MAX_FRAME_SIZE l) ver (chan (sm_conversation m)) m"

abbreviation queued :: "byte \<Rightarrow> StoredMessage \<Rightarrow> Frame" where
  "queued ver m \<equiv> \<lparr>fr_store_id = sm_store_id m, fr_persistent = True, fr_buf = frame ver m\<rparr>"

lemma frame_fits: "0 < length (frame ver m)" "length (frame ver m) \<le> l_MAX_FRAME_SIZE l"
  using message_frame_length frame_size by simp_all

lemma store_sent: "live e \<Longrightarrow> store (sent fr e) = store e"
  by (simp add: sent_def link_send)

text \<open>The working variables agree with the abstract state.\<close>

definition agrees :: "byte \<Rightarrow> 'e bridge \<Rightarrow> sync \<Rightarrow> bool" where
  "agrees ver b s \<longleftrightarrow> serving b \<and> version_negotiated b \<and> app_target_ver b = ver \<and> connection_generation b = gen \<and>
     offline b = map (queued ver) (sy_queue s) \<and>
     (if sy_inflight s then inflight_store_id b = sm_store_id (hd (sy_queue s)) \<and> inflight_generation b = gen else inflight_store_id b = 0) \<and>
     ok (store (b_env b)) \<and> backlog (store (b_env b)) = sy_backlog s"

lemma add_queued:
  assumes "length q < OFFLINE_QUEUE_SIZE" and "sm_store_id m \<noteq> 0" and "sm_store_id m \<notin> sm_store_id ` set q"
  shows "addToOfflineQueueBuffer (l_MAX_FRAME_SIZE l) (map (queued ver) q) (sm_store_id m) True (frame ver m) =
    (if frame ver m \<in> frame ver ` set q then None else Some (map (queued ver) (q @ [m])))"
proof -
  have dup: "list_ex (\<lambda>x. fr_buf x = frame ver m) (map (queued ver) q) \<longleftrightarrow> frame ver m \<in> frame ver ` set q"
    by (simp add: list_ex_iff image_iff) metis
  have new: "\<not> list_ex (\<lambda>x. fr_persistent x \<and> fr_store_id x = sm_store_id m) (map (queued ver) q)"
    using assms(3) by (auto simp: list_ex_iff image_iff)
  show ?thesis using assms(1,2) frame_fits [of ver m] dup new
    by (simp add: addToOfflineQueueBuffer_def offlineFrameExistsIn_def)
qed

lemma refill_one:
  assumes "serving b" and "app_target_ver b = ver" and "offline b = map (queued ver) q"
    and "length q < OFFLINE_QUEUE_SIZE" and "sm_store_id m \<noteq> 0" and "sm_store_id m \<notin> sm_store_id ` set q" and "\<not> sm_is_self m"
    and run: "run_state (refill_message m) b = (x, b')"
  shows "offline b' = map (queued ver) (keep_new (frame ver) q m)"
proof -
  have l: "b_linked b = l" "b_host b = Some h" and live: "live (b_env b)" using assms(1) by (simp_all add: serving_client_def)
  let ?b = "b\<lparr>offline := map (queued ver) (keep_new (frame ver) q m)\<rparr>"
  let ?others = "\<lambda>n. any_of (\<lambda>i. do { active \<leftarrow> gets b_active_session; live \<leftarrow> session_live i;
      if active = Some i \<or> \<not> live then ret False else enqueue_for_session m True i }) [0..<n]"
  have build: "run_state (buildMessageFrame m ver) b = (frame ver m, b)" using l by (simp add: buildMessageFrame_def max_frame_def channels [OF live])
  have same: "b\<lparr>offline := map (queued ver) q\<rparr> = b" unfolding assms(3) [symmetric] by simp
  have "run_state (addToOfflineQueue (sm_store_id m) True (frame ver m)) b = (frame ver m \<notin> frame ver ` set q, ?b)"
    using l add_queued [OF assms(4-6)] assms(3) same
    by (cases "frame ver m \<in> frame ver ` set q") (simp_all add: addToOfflineQueue_def max_frame_def keep_new_def)
  then obtain r where add: "run_state (addToOfflineQueue (sm_store_id m) True (frame ver m)) b = (r, ?b)" by blast
  let ?rest = "\<lambda>c. if c then gets (\<lambda>b. length (b_transport_sessions b)) \<bind> ?others else ret False"
  let ?share = "b_transport_request_active ?b \<and> l_attached (b_linked ?b) (b_env ?b)"
  obtain y b2 where rest: "run_state (?rest ?share) ?b = (y, b2)" by force
  have "leaves offline (?rest c)" for c by (intro leaves_intros leaves_refill_others)
  then have "offline b2 = offline ?b" using rest by (rule leavesD)
  moreover have "run_state (refill_message m) b = (r \<or> y, b2)"
    unfolding refill_message_def using assms(2,7) build add rest by (simp split del: if_split)
  ultimately show ?thesis using run by simp
qed

lemma refill_loop:
  assumes "serving b" and "app_target_ver b = ver" and "offline b = map (queued ver) q"
    and "length q + length ms \<le> OFFLINE_QUEUE_SIZE" and "distinct (map sm_store_id (q @ ms))"
    and "0 \<notin> sm_store_id ` set ms" and "\<forall>m \<in> set ms. \<not> sm_is_self m"
    and "run_state (any_of refill_message ms) b = (x, b')"
  shows "offline b' = map (queued ver) (foldl (keep_new (frame ver)) q ms)"
  using assms
proof (induction ms arbitrary: q b x)
  case (Cons m ms)
  obtain y b1 where b1: "run_state (refill_message m) b = (y, b1)" by force
  obtain z b2 where b2: "run_state (any_of refill_message ms) b1 = (z, b2)" by force
  have eq: "b2 = b'" using Cons.prems(8) b1 b2 by simp
  have un: "unqueued b1 = unqueued b" by (rule leavesD [OF leaves_refill_message b1])
  have q1: "offline b1 = map (queued ver) (keep_new (frame ver) q m)"
    by (rule refill_one [OF Cons.prems(1-3) _ _ _ _ b1]) (use Cons.prems in auto)
  have "serving b1" "app_target_ver b1 = ver" using un Cons.prems(1,2) by (simp_all add: unqueued_def serving_client_def)
  moreover have "length (keep_new (frame ver) q m) + length ms \<le> OFFLINE_QUEUE_SIZE"
    "distinct (map sm_store_id (keep_new (frame ver) q m @ ms))" using Cons.prems(4,5) by (auto simp: keep_new_def)
  ultimately show ?case using Cons.IH [OF _ _ q1 _ _ _ _ b2 [unfolded eq]] Cons.prems(6,7) by simp
qed simp

lemma ack_agrees:
  assumes A: "agrees ver b s" and S: "sync_ok s"
  shows "\<exists>b'. run_state ack_inflight b = ((), b') \<and> agrees ver b' (sync_ack s) \<and> out (b_env b') = out (b_env b) \<and> idents b' = idents b"
proof (cases "sy_inflight s")
  case False
  then have "run_state ack_inflight b = ((), b)" "sync_ack s = s" using A by (simp_all add: agrees_def ack_inflight_def sync_ack_def)
  then show ?thesis using A by auto
next
  case True
  then obtain m q where q: "sy_queue s = m # q" using S by (cases "sy_queue s") (auto simp: sync_ok_def)
  have a: "b_linked b = l" "connection_generation b = gen" "offline b = map (queued ver) (m # q)" "inflight_store_id b = sm_store_id m"
    "inflight_generation b = gen" "ok (store (b_env b))" "backlog (store (b_env b)) = sy_backlog s" "live (b_env b)"
    using A True q by (simp_all add: agrees_def serving_client_def)
  note lm = link_mark [OF a(8), of "sm_store_id m"]
  have m: "m \<in> set (backlog (store (b_env b)))" using S q a(7) by (simp add: sync_ok_def)
  then have id0: "sm_store_id m \<noteq> 0" using ids [OF a(6)] by force
  obtain st where st: "mark (sm_store_id m) (store (b_env b)) = (True, st)" "ok st" "backlog st = without m (sy_backlog s)"
    using mark [OF a(6) m] a(7) by (auto simp: without_def)
  let ?e = "snd (l_markCompanionSent l (sm_store_id m) (b_env b))"
  let ?b = "b\<lparr>b_env := ?e, offline := map (queued ver) q, inflight_store_id := 0, inflight_generation := 0\<rparr>"
  have "fst (l_markCompanionSent l (sm_store_id m) (b_env b))" using st(1) lm by simp
  then have "run_state ack_inflight b = ((), ?b)"
    using a gen id0 by (simp add: ack_inflight_def removeFirstOfflineFrame_def clearInflightMessage_def run_linked_env)
  moreover have "agrees ver ?b (sync_ack s)"
    using A True q st lm by (simp add: agrees_def sync_ack_def serving_client_def)
  moreover have "idents ?b = idents b" by (simp add: idents_def)
  ultimately show ?thesis using lm by auto
qed

lemma fill_agrees:
  assumes A: "agrees ver b s" and S: "sync_ok s" and N: "\<not> sy_inflight s"
  shows "\<exists>b'. run_state (if offline b = [] then ignore (refillOfflineQueueFromStore False) else ret ()) b = ((), b') \<and>
    agrees ver b' (sync_fill (frame ver) s) \<and> out (b_env b') = out (b_env b) \<and> idents b' = idents b"
proof (cases "sy_queue s = []")
  case False
  then show ?thesis using A by (auto simp: agrees_def sync_fill_def)
next
  case True
  have a: "b_linked b = l" "offline b = []" "ok (store (b_env b))" "backlog (store (b_env b)) = sy_backlog s" "serving b" "app_target_ver b = ver"
    "live (b_env b)" using A True by (simp_all add: agrees_def serving_client_def)
  note ll = link_load [OF a(7), of OFFLINE_QUEUE_SIZE]
  let ?ms = "take OFFLINE_QUEUE_SIZE (sy_backlog s)"
  obtain st where st: "load OFFLINE_QUEUE_SIZE (store (b_env b)) = (?ms, st)" "ok st" "backlog st = sy_backlog s"
    using load [OF a(3), of OFFLINE_QUEUE_SIZE] a(4) by auto
  let ?b = "b\<lparr>b_env := snd (l_loadUnsent l OFFLINE_QUEUE_SIZE (b_env b))\<rparr>"
  obtain x b1 where b1: "run_state (any_of refill_message ?ms) ?b = (x, b1)" by force
  obtain y where conn: "run_state isConnected b1 = (y, b1)"
    using leavesD [OF leaves_isConnected [of "\<lambda>b. b"]] by (metis surj_pair)
  have run: "run_state (if offline b = [] then ignore (refillOfflineQueueFromStore False) else ret ()) b = ((), b1)"
    using a(1,2) st(1) b1 conn ll by (simp add: ignore_def refillOfflineQueueFromStore_def run_linked_env)
  have "leaves unqueued (any_of refill_message ?ms)" by (intro leaves_any_of leaves_refill_message)
  then have un: "unqueued b1 = unqueued ?b" using b1 by (rule leavesD)
  have sub: "set ?ms \<subseteq> set (backlog (store (b_env b)))" using a(4) by (simp add: set_take_subset)
  have d: "distinct (map sm_store_id ([] @ ?ms))" using S by (simp add: sync_ok_def take_map [symmetric])
  have "0 \<notin> sm_store_id ` set ?ms" "\<forall>m \<in> set ?ms. \<not> sm_is_self m" using sub ids [OF a(3)] incoming [OF a(3)] by blast+
  then have "offline b1 = map (queued ver) (page (frame ver) (sy_backlog s))"
    unfolding page_def using refill_loop [of ?b ver "[]" ?ms x b1] a(2,5,6) d b1 ll by (simp add: serving_client_def)
  moreover have "store (b_env ?b) = st" using st(1) ll by simp
  ultimately have "agrees ver b1 (sync_fill (frame ver) s)"
    using A True N un st ll by (auto simp: agrees_def sync_fill_def unqueued_def serving_client_def)
  moreover have "out (b_env b1) = out (b_env b)" "idents b1 = idents b" using un ll by (simp_all add: unqueued_def idents_def)
  ultimately show ?thesis using run by blast
qed

lemma deliver_agrees:
  assumes A: "agrees ver b s" and N: "\<not> sy_inflight s"
  shows "\<exists>b'. run_state deliver_next b = ((), b') \<and> idents b' = idents b \<and>
    (case sy_queue s of [] \<Rightarrow> agrees ver b' s \<and> out (b_env b') = out (b_env b) @ [[RESP_CODE_NO_MORE_MESSAGES]]
     | m # q \<Rightarrow> agrees ver b' (s\<lparr>sy_inflight := True\<rparr>) \<and> out (b_env b') = out (b_env b) @ [frame ver m])"
proof (cases "sy_queue s")
  case Nil
  have s: "serving b" "offline b = []" using A Nil by (simp_all add: agrees_def)
  let ?fr = "[RESP_CODE_NO_MORE_MESSAGES]"
  have e: "out (sent ?fr (b_env b)) = out (b_env b) @ [?fr]" "live (sent ?fr (b_env b))" "store (sent ?fr (b_env b)) = store (b_env b)"
    using s(1) frame_size by (simp_all add: sent_spec store_sent)
  have "run_state deliver_next b = ((), b\<lparr>b_env := sent ?fr (b_env b)\<rparr>)"
    using s run_respond(2) [OF s(1), of ?fr] frame_size by (simp add: deliver_next_def peekOfflineQueue_def writeNoMoreMessages_def)
  moreover have "agrees ver (b\<lparr>b_env := sent ?fr (b_env b)\<rparr>) s" using A e by (simp add: agrees_def serving_client_def)
  ultimately show ?thesis using Nil e by (auto simp: idents_def)
next
  case (Cons m q)
  have s: "serving b" "offline b = queued ver m # map (queued ver) q" "connection_generation b = gen" using A Cons by (simp_all add: agrees_def)
  have e: "out (sent (frame ver m) (b_env b)) = out (b_env b) @ [frame ver m]" "live (sent (frame ver m) (b_env b))"
    "store (sent (frame ver m) (b_env b)) = store (b_env b)"
    using s(1) sent_spec [OF _ frame_fits] by (simp_all add: store_sent)
  let ?b = "b\<lparr>b_env := sent (frame ver m) (b_env b), inflight_store_id := sm_store_id m, inflight_generation := gen\<rparr>"
  have "run_state deliver_next b = ((), ?b)"
    using s run_write [OF s(1) frame_fits] by (simp add: deliver_next_def peekOfflineQueue_def)
  moreover have "agrees ver ?b (s\<lparr>sy_inflight := True\<rparr>)" using A Cons e by (simp add: agrees_def serving_client_def)
  ultimately show ?thesis using Cons e by (auto simp: idents_def)
qed

definition answer :: "byte list option \<Rightarrow> byte list" where
  "answer x = (case x of None \<Rightarrow> [RESP_CODE_NO_MORE_MESSAGES] | Some fr \<Rightarrow> fr)"

lemma sync_agrees:
  assumes A: "agrees ver b s" and S: "sync_ok s" and step: "sync_step (frame ver) s = (x, s')"
  shows "\<exists>b'. run_state (do_sync_next_message h) b = ((), b') \<and> agrees ver b' s' \<and> out (b_env b') = out (b_env b) @ [answer x] \<and> idents b' = idents b"
proof -
  let ?b0 = "b\<lparr>b_last_sync_time := h_currentTime (h_status h) (b_env b)\<rparr>"
  have 0: "agrees ver ?b0 s" "idents ?b0 = idents b" "version_negotiated ?b0" using A by (simp_all add: agrees_def serving_client_def idents_def)
  obtain b1 where 1: "run_state ack_inflight ?b0 = ((), b1)" "agrees ver b1 (sync_ack s)" "out (b_env b1) = out (b_env b)" "idents b1 = idents b"
    using ack_agrees [OF 0(1) S] 0(2) by auto
  obtain b2 where 2: "run_state (if offline b1 = [] then ignore (refillOfflineQueueFromStore False) else ret ()) b1 = ((), b2)"
    "agrees ver b2 (sync_fill (frame ver) (sync_ack s))" "out (b_env b2) = out (b_env b)" "idents b2 = idents b"
    using fill_agrees [OF 1(2) ack_ok [OF S]] 1(3,4) by auto
  let ?a = "sync_fill (frame ver) (sync_ack s)"
  have n: "\<not> sy_inflight ?a" using ack_ok(2) [OF S] by (simp add: sync_fill_def)
  obtain b3 where 3: "run_state deliver_next b2 = ((), b3)" "idents b3 = idents b2"
    "case sy_queue ?a of [] \<Rightarrow> agrees ver b3 ?a \<and> out (b_env b3) = out (b_env b2) @ [[RESP_CODE_NO_MORE_MESSAGES]]
     | m # q \<Rightarrow> agrees ver b3 (?a\<lparr>sy_inflight := True\<rparr>) \<and> out (b_env b3) = out (b_env b2) @ [frame ver m]"
    using deliver_agrees [OF 2(2) n] by auto
  have "run_state (do_sync_next_message h) b = ((), b3)"
    using 0(3) 1(1) 2(1) 3(1) by (simp add: do_sync_next_message_def)
  moreover have "agrees ver b3 s' \<and> out (b_env b3) = out (b_env b) @ [answer x]"
    using 3(3) step 2(3) by (auto simp: sync_step_def Let_def answer_def split: list.splits)
  ultimately show ?thesis using 3(2) 2(4) by auto
qed

text \<open>Between two polls the state rests in the client's session.\<close>

definition session_agrees :: "byte \<Rightarrow> TransportSession \<Rightarrow> sync \<Rightarrow> bool" where
  "session_agrees ver t s \<longleftrightarrow> ts_used t \<and> ts_generation t = gen \<and> pending_response_len t = 0 \<and>
     list_all (\<lambda>r. pb_tag r = 0) (pending_binary t) \<and> version_negotiated t \<and> app_target_ver t = ver \<and> connection_generation t = gen \<and>
     offline t = map (queued ver) (sy_queue s) \<and>
     (if sy_inflight s then inflight_store_id t = sm_store_id (hd (sy_queue s)) \<and> inflight_generation t = gen else inflight_store_id t = 0)"

definition ready :: "byte \<Rightarrow> 'e bridge \<Rightarrow> sync \<Rightarrow> bool" where
  "ready ver b s \<longleftrightarrow> live (b_env b) \<and> b_linked b = l \<and> b_host b = Some h \<and> (\<forall>s e. b_serial b = Some s \<longrightarrow> tid = BLE \<longrightarrow> \<not> s_isWriteBusy s e) \<and>
     (\<exists>i. session_slot tid ci (b_transport_sessions b) = Some i \<and> session_agrees ver (b_transport_sessions b ! i) s) \<and>
     ok (store (b_env b)) \<and> backlog (store (b_env b)) = sy_backlog s"

lemma run_refresh:
  assumes "serving b" and "connection_generation b = gen"
  shows "run_state refreshConnectionSession b = ((), b\<lparr>connection_generation := gen, was_connected := True\<rparr>)"
proof -
  have "b_linked b = l" "b_transport_request_active b" "b_request_transport b = tid" "b_request_client_index b = ci" "live (b_env b)"
    using assms(1) by (simp_all add: serving_client_def)
  then have "transport_connected b" "current_generation b = gen"
    by (simp_all add: transport_connected_def current_generation_def connected generation)
  then show ?thesis using assms(2) \<open>b_transport_request_active b\<close>
    by (simp add: refreshConnectionSession_def currentTransportConnected_def)
qed

lemma handle_poll:
  assumes A: "agrees ver b s" and S: "sync_ok s" and step: "sync_step (frame ver) s = (x, s')"
  shows "\<exists>b'. run_state (handleFrame [CMD_SYNC_NEXT_MESSAGE]) b = (True, b') \<and> agrees ver b' s' \<and>
    out (b_env b') = out (b_env b) @ [answer x] \<and> idents b' = idents b"
proof -
  have s: "serving b" "connection_generation b = gen" "pending_response_len b = 0" "b_host b = Some h" "b_linked b = l" "b_transport_request_active b"
    using A by (simp_all add: agrees_def serving_client_def)
  let ?b1 = "b\<lparr>connection_generation := gen, was_connected := True\<rparr>"
  let ?f = "(overwrite (b_cmd_frame b) 0 [CMD_SYNC_NEXT_MESSAGE])[1 := 0]"
  let ?b2 = "?b1\<lparr>b_cmd_frame := ?f\<rparr>"
  have "?f ! 0 = CMD_SYNC_NEXT_MESSAGE" by (simp add: overwrite_0)
  then have cmd: "handle_command h ?f 1 = do_sync_next_message h"
    by (simp add: handle_command_def commandMinimumLength_def dispatch_session_def codes)
  have "agrees ver ?b2 s" using A by (simp add: agrees_def serving_client_def)
  then obtain b3 where 3: "run_state (do_sync_next_message h) ?b2 = ((), b3)" "agrees ver b3 s'"
    "out (b_env b3) = out (b_env b) @ [answer x]" "idents b3 = idents b"
    using sync_agrees [OF _ S step, of ?b2] by (auto simp: idents_def)
  have ex: "run_state expirePendingBinary ?b1 = ((), ?b1)" using s(1) by (intro run_expire) (simp add: serving_client_def)
  have "run_state (handleFrame [CMD_SYNC_NEXT_MESSAGE]) b = (True, b3\<lparr>b_cmd_frame := secureWipe (b_cmd_frame b3)\<rparr>)"
    using s frame_size run_refresh [OF s(1,2)] ex cmd 3(1) by (simp add: handleFrame_def max_frame_def)
  moreover have "agrees ver (b3\<lparr>b_cmd_frame := secureWipe (b_cmd_frame b3)\<rparr>) s'" using 3(2) by (simp add: agrees_def serving_client_def)
  ultimately show ?thesis using 3 by (auto simp: idents_def)
qed

lemma poll_ready:
  assumes R: "ready ver b s" and S: "sync_ok s" and step: "sync_step (frame ver) s = (x, s')"
  shows "\<exists>b'. run_state (handleTransportFrame [CMD_SYNC_NEXT_MESSAGE] tid ci gen) b = ((), b') \<and> ready ver b' s' \<and>
    out (b_env b') = out (b_env b) @ [answer x]"
proof -
  obtain i where i: "session_slot tid ci (b_transport_sessions b) = Some i" and t: "session_agrees ver (b_transport_sessions b ! i) s"
    and l: "b_linked b = l" "b_host b = Some h" "live (b_env b)" using R by (auto simp: ready_def)
  let ?t = "b_transport_sessions b ! i"
  let ?b = "(load_vars ?t b)\<lparr>b_active_session := Some i, b_transport_request_active := True, b_request_transport := tid,
     b_request_client_index := ci, b_request_generation := gen\<rparr>"
  have act: "run_state (activateTransportSession tid ci gen) b = (Some i, (load_vars ?t b)\<lparr>b_active_session := Some i\<rparr>)"
    using i t by (simp add: activateTransportSession_def ensureTransportSession_def max_frame_def loadTransportSession_def session_agrees_def)
  have A: "agrees ver ?b s" using R t by (simp add: agrees_def serving_client_def ready_def session_agrees_def load_vars_def)
  have id: "idents ?b = idents b" by (simp add: idents_def load_vars_def)
  obtain b1 where 1: "run_state (handleFrame [CMD_SYNC_NEXT_MESSAGE]) ?b = (True, b1)" "agrees ver b1 s'"
    "out (b_env b1) = out (b_env b) @ [answer x]" "idents b1 = idents b"
    using handle_poll [OF A S step] id by auto
  let ?t1 = "save_vars b1 (b_transport_sessions b1 ! i)"
  let ?b' = "b1\<lparr>b_transport_sessions := (b_transport_sessions b1)[i := ?t1], b_active_session := None, b_transport_request_active := False,
     b_request_client_index := -1, b_request_generation := 0\<rparr>"
  have run: "run_state (handleTransportFrame [CMD_SYNC_NEXT_MESSAGE] tid ci gen) b = ((), ?b')"
    using allowed [OF l(3)] l act 1(1)
    by (simp add: handleTransportFrame_def transportAllowedDuringOta_def linked_look_def begin_request_def ignore_def saveTransportSession_def end_request_def)
  have len: "i < length (b_transport_sessions b)" using session_slot_used [OF i] t by (simp add: session_agrees_def)
  note same = session_same_ident [OF 1(4) [symmetric] len]
  have "idents ?b' = idents b1" using same(1)
    by (simp add: idents_def map_update list_update_same_conv save_vars_def)
  then have slot: "session_slot tid ci (b_transport_sessions ?b') = Some i" using session_slot_idents [of ?b' b] i 1(4) by simp
  have "session_agrees ver ?t1 s'"
    using 1(2) t same by (simp add: session_agrees_def agrees_def serving_client_def save_vars_def)
  then have "ready ver ?b' s'" using slot same(1) 1(2) by (auto simp: ready_def agrees_def serving_client_def)
  then show ?thesis using run 1(3) by auto
qed

lemma polls_ready:
  assumes "ready ver b s" and "sync_ok s" and "sync_run (frame ver) n s = (xs, s')"
  shows "\<exists>b'. run_state (for_each (\<lambda>_. handleTransportFrame [CMD_SYNC_NEXT_MESSAGE] tid ci gen) (replicate n ())) b = ((), b') \<and>
    ready ver b' s' \<and> out (b_env b') = out (b_env b) @ map answer xs"
  using assms
proof (induction n arbitrary: b s xs)
  case (Suc n)
  obtain x s1 where x: "sync_step (frame ver) s = (x, s1)" by force
  obtain ys s2 where ys: "sync_run (frame ver) n s1 = (ys, s2)" by force
  have eq: "xs = x # ys" "s' = s2" using Suc.prems(3) x ys by simp_all
  obtain b1 where b1: "run_state (handleTransportFrame [CMD_SYNC_NEXT_MESSAGE] tid ci gen) b = ((), b1)" "ready ver b1 s1"
    "out (b_env b1) = out (b_env b) @ [answer x]" using poll_ready [OF Suc.prems(1,2) x] by blast
  have "sync_ok s1" using x fill_ok [OF ack_ok(1) [OF Suc.prems(2)], of "frame ver"]
    by (auto simp: sync_step_def sync_ok_def Let_def split: list.splits)
  from Suc.IH [OF b1(2) this ys [folded eq(2)]] obtain b2 where
    "run_state (for_each (\<lambda>_. handleTransportFrame [CMD_SYNC_NEXT_MESSAGE] tid ci gen) (replicate n ())) b1 = ((), b2)"
    "ready ver b2 s'" "out (b_env b2) = out (b_env b1) @ map answer ys" by blast
  then show ?case using b1 eq by auto
qed simp

abbreviation unopened :: "'e bridge \<Rightarrow> bool" where
  "unopened b \<equiv> unopened_client l h tid ci gen b \<and> live (b_env b)"

lemma session_slot_new:
  assumes "session_slot tid ci ss = Some i" and "\<not> ts_used (ss ! i)" and "ts_used t" "ts_id t = tid" "ts_client_index t = ci"
  shows "session_slot tid ci (ss[i := t]) = Some i"
proof -
  have "first_index (\<lambda>s. ts_used s \<and> ts_id s = tid \<and> ts_client_index s = ci) ss = None" "i < length ss"
    using assms(1,2) by (auto simp: session_slot_def split: option.splits dest!: first_index_Some)
  then have "first_index (\<lambda>s. ts_used s \<and> ts_id s = tid \<and> ts_client_index s = ci) (ss[i := t]) = Some i"
    using assms(3-5) by (intro first_index_update) (auto simp: first_index_None)
  then show ?thesis by (simp add: session_slot_def)
qed

lemma open_ready:
  assumes U: "unopened b" and K: "ok (store (b_env b))"
  shows "\<exists>b1. ready 3 b1 \<lparr>sy_queue = [], sy_inflight = False, sy_backlog = backlog (store (b_env b))\<rparr> \<and> out (b_env b1) = out (b_env b) \<and>
    run_state (handleTransportFrame fr tid ci gen) b = run_state (handleTransportFrame fr tid ci gen) b1"
proof -
  obtain i where i: "session_slot tid ci (b_transport_sessions b) = Some i"
    and old: "ts_used (b_transport_sessions b ! i) \<longrightarrow> ts_generation (b_transport_sessions b ! i) \<notin> {0, gen}"
    and lh: "b_linked b = l" "b_host b = Some h" "live (b_env b)" using U by (auto simp: unopened_client_def)
  let ?t = "fresh_for (l_MAX_FRAME_SIZE l) tid ci gen"
  have t: "ts_used ?t" "ts_id ?t = tid" "ts_client_index ?t = ci" "ts_generation ?t = gen" by (simp_all add: fresh_for_def)
  have len: "i < length (b_transport_sessions b)" using i by (auto simp: session_slot_def split: option.splits dest!: first_index_Some)
  have slot: "session_slot tid ci ((b_transport_sessions b)[i := ?t]) = Some i"
    using session_slot_update [OF i _ t(1-3)] session_slot_new [OF i _ t(1-3)] by blast
  obtain e where e: "run_state (ensureTransportSession tid ci gen) b = (Some i, b\<lparr>b_transport_sessions := (b_transport_sessions b)[i := ?t], b_env := e\<rparr>)"
    and se: "store e = store (b_env b)" "out e = out (b_env b)" "live e"
  proof (cases "ts_used (b_transport_sessions b ! i)")
    case True
    have "run_state (ensureTransportSession tid ci gen) b = (Some i, replaced tid ci gen i b)"
      using old True by (intro ensure_replaces [OF i True gen]) blast
    then show thesis using that [of "h_cancelBinaryReqs (h_radio h) (b_env b)"] lh link_cancel [OF lh(3)] by (simp add: replaced_def)
  next
    case False
    then show thesis using that [of "b_env b"] i lh by (simp add: ensureTransportSession_def max_frame_def put_session_def)
  qed
  let ?b1 = "b\<lparr>b_transport_sessions := (b_transport_sessions b)[i := ?t], b_env := e\<rparr>"
  have e1: "run_state (ensureTransportSession tid ci gen) ?b1 = (Some i, ?b1)"
    using slot len t by (simp add: ensureTransportSession_def max_frame_def)
  have "run_state (activateTransportSession tid ci gen) b = run_state (activateTransportSession tid ci gen) ?b1"
    by (simp add: activateTransportSession_def e e1)
  then have "run_state (handleTransportFrame fr tid ci gen) b = run_state (handleTransportFrame fr tid ci gen) ?b1"
    using allowed [OF lh(3)] allowed [OF se(3)] lh by (simp add: handleTransportFrame_def transportAllowedDuringOta_def linked_look_def)
  moreover have "ready 3 ?b1 \<lparr>sy_queue = [], sy_inflight = False, sy_backlog = backlog (store (b_env b))\<rparr>"
    using U slot len se K by (auto simp: ready_def unopened_client_def session_agrees_def fresh_for_def ts_reset_def no_request_def list_all_iff)
  ultimately show ?thesis using se by (intro exI [of _ ?b1]) simp
qed

lemma backlog_drained:
  assumes U: "unopened b" and K: "ok (store (b_env b))" and bl: "bl = backlog (store (b_env b))"
  shows "\<exists>b' frames. run_state (for_each (\<lambda>_. handleTransportFrame [CMD_SYNC_NEXT_MESSAGE] tid ci gen) (replicate (length bl + 1) ())) b = ((), b') \<and>
    out (b_env b') = out (b_env b) @ frames @ [[RESP_CODE_NO_MORE_MESSAGES]] \<and>
    mset frames = image_mset (frame 3) (mset bl) \<and> (distinct (map (frame 3) bl) \<longrightarrow> frames = map (frame 3) bl) \<and>
    ok (store (b_env b')) \<and> backlog (store (b_env b')) = []"
proof -
  let ?s = "\<lparr>sy_queue = [], sy_inflight = False, sy_backlog = bl\<rparr>"
  obtain b1 where b1: "ready 3 b1 ?s" "out (b_env b1) = out (b_env b)"
    "run_state (handleTransportFrame [CMD_SYNC_NEXT_MESSAGE] tid ci gen) b = run_state (handleTransportFrame [CMD_SYNC_NEXT_MESSAGE] tid ci gen) b1"
    using open_ready [OF U K] bl by blast
  have S: "sync_ok ?s" using ids [OF K] bl by (simp add: sync_ok_def)
  have a: "sync_ack ?s = ?s" by (simp add: sync_ack_def)
  obtain outs s' where r: "sync_run (frame 3) (Suc (length bl)) ?s = (map Some outs @ [None], s')" "mset outs = image_mset (frame 3) (mset bl)"
    "in_order (frame 3) ?s \<longrightarrow> outs = map (frame 3) bl" "sy_backlog s' = []"
    using sync_drains [OF S, of "length bl" "frame 3"] a by auto
  obtain b' where b': "run_state (for_each (\<lambda>_. handleTransportFrame [CMD_SYNC_NEXT_MESSAGE] tid ci gen) (replicate (Suc (length bl)) ())) b1 = ((), b')"
    "ready 3 b' s'" "out (b_env b') = out (b_env b1) @ map answer (map Some outs @ [None])"
    using polls_ready [OF b1(1) S r(1)] by blast
  have "run_state (for_each (\<lambda>_. handleTransportFrame [CMD_SYNC_NEXT_MESSAGE] tid ci gen) (replicate (length bl + 1) ())) b = ((), b')"
    using b'(1) b1(3) by simp
  moreover have "out (b_env b') = out (b_env b) @ outs @ [[RESP_CODE_NO_MORE_MESSAGES]]"
    using b'(3) b1(2) by (simp add: answer_def comp_def)
  moreover have "distinct (map (frame 3) bl) \<longrightarrow> outs = map (frame 3) bl" using r(3) by (auto simp: in_order_def intro: exI [of _ 0])
  ultimately show ?thesis using r(2,4) b'(2) unfolding ready_def by (intro exI [of _ b'] exI [of _ outs]) simp
qed

end

section \<open>The message log behind the bridge\<close>

text \<open>
  C1: every stored message reaches the companion, and is then off the backlog. The bridge reads
  and marks the message log of \<open>MessageStore\<close>; a client opens a connection on a link that accepts
  frames and polls as often as there are undelivered messages, plus once. Then it has received the
  frame of every undelivered message (every one as often as it is stored), the last answer
  says that there are no more, and the log has no undelivered message left. If no two messages make
  the same frame, they arrive in the order of the log.
\<close>

theorem backlog_reaches_companion:
  assumes client: "syncing_client l h tid ci gen out live store_load store_mark store_ok store_backlog store chan"
    and "unopened_client l h tid ci gen b" and "live (b_env b)" and "store_ok (store (b_env b))" and bl: "bl = store_backlog (store (b_env b))"
    and f: "f = (\<lambda>m. message_frame (l_MAX_FRAME_SIZE l) 3 (chan (sm_conversation m)) m)"
  shows "\<exists>b' frames. run_state (for_each (\<lambda>_. handleTransportFrame [CMD_SYNC_NEXT_MESSAGE] tid ci gen) (replicate (length bl + 1) ())) b = ((), b') \<and>
    out (b_env b') = out (b_env b) @ frames @ [[RESP_CODE_NO_MORE_MESSAGES]] \<and>
    mset frames = image_mset f (mset bl) \<and> (distinct (map f bl) \<longrightarrow> frames = map f bl) \<and>
    store_ok (store (b_env b')) \<and> store_backlog (store (b_env b')) = []"
  unfolding f using syncing_client.backlog_drained [OF client conjI [OF assms(2,3)] assms(4) bl] .

definition no_channel :: "byte list \<Rightarrow> byte" where
  "no_channel conv = 0xFF"

interpretation demo_sync: syncing_client demo_linked quiet_host TCP 0 7 de_out "\<lambda>_. True" store_load store_mark store_ok store_backlog de_store no_channel
  by unfold_locales (simp_all add: demo_linked_def demo_send_def on_store_def quiet_defs channel_index_def no_channel_def split_def)

lemma demo_world_log: "store_ok (de_store demo_world)" "store_backlog (de_store demo_world) = [stored_message ((sample_message 0x42)\<lparr>sm_store_id := 1\<rparr>)]"
proof -
  have L: "holds_log (de_store demo_world) two_messages 3"
    using log_of_state(2,4) two_messages_ok by (simp add: holds_log_def demo_world_def)
  then show "store_ok (de_store demo_world)" by (rule store_okI)
  show "store_backlog (de_store demo_world) = [stored_message ((sample_message 0x42)\<lparr>sm_store_id := 1\<rparr>)]"
    unfolding backlog_of_log [OF L] by (simp add: two_messages_def msg_unsent_def stored_message_def sample_message_def)
qed

theorem backlog_reaches_companion_witness:
  "\<exists>b'. run_state (for_each (\<lambda>_. handleTransportFrame [CMD_SYNC_NEXT_MESSAGE] TCP 0 7) [(), ()]) (demo_bridge demo_world) = ((), b') \<and>
     de_out (b_env b') = [message_frame 172 3 0xFF (stored_message ((sample_message 0x42)\<lparr>sm_store_id := 1\<rparr>)), [RESP_CODE_NO_MORE_MESSAGES]] \<and>
     store_backlog (de_store (b_env b')) = []"
proof -
  let ?m = "stored_message ((sample_message 0x42)\<lparr>sm_store_id := 1\<rparr>)"
  have "session_slot TCP 0 (replicate 9 (ts_reset 172)) = Some 0" "\<not> ts_used (replicate 9 (ts_reset 172) ! 0)"
    by (simp_all add: session_slot_def ts_reset_def first_index_None eval_nat_numeral)
  then have U: "unopened_client demo_linked quiet_host TCP 0 7 (demo_bridge demo_world)"
    unfolding unopened_client_def demo_bridge_fields by blast
  have K: "store_ok (de_store (b_env (demo_bridge demo_world)))" "[?m] = store_backlog (de_store (b_env (demo_bridge demo_world)))"
    using demo_world_log by (simp_all add: demo_bridge_fields)
  have o: "de_out (b_env (demo_bridge demo_world)) = []" by (simp add: demo_bridge_fields demo_world_def)
  have two: "replicate (length [?m] + 1) () = [(), ()]" by simp
  obtain b' frames where b': "run_state (for_each (\<lambda>_. handleTransportFrame [CMD_SYNC_NEXT_MESSAGE] TCP 0 7) [(), ()]) (demo_bridge demo_world) = ((), b')"
    and out: "de_out (b_env b') = [] @ frames @ [[RESP_CODE_NO_MORE_MESSAGES]]" and fr: "mset frames = {#message_frame 172 3 0xFF ?m#}"
    and bl: "store_backlog (de_store (b_env b')) = []"
    using backlog_reaches_companion [OF demo_sync.syncing_client_axioms U TrueI K refl, unfolded two o demo_mfs no_channel_def] by auto
  have "frames = [message_frame 172 3 0xFF ?m]" using fr by (cases frames) auto
  then show ?thesis using b' out bl by (intro exI [of _ b']) simp
qed

end
