(* ===== verification/Transports.thy ===== *)
theory Transports
  imports CompanionBridge FrameParser
begin

text \<open>
  The companion transports of the device build: the TCP server (\<open>comms/transport_tcp.cpp\<close>), the
  WebSocket server (\<open>comms/transport_ws.cpp\<close>) and the registry that routes frames between them,
  the BLE link and the bridge (\<open>comms/transports.cpp\<close>).

  The sockets and the WebSocket library, the preferences and the OTA gate are operations on a
  network state \<open>'n\<close>. A socket is named by a number. The loop that accepts connections sees the
  list of connections the listener hands out before it has none left (\<open>None\<close> for a handle that is
  already closed); the bytes that can be read from a socket at a poll are a list, and
  \<open>n_read\<close> takes bytes off it. The WebSocket library reports what happened since the last
  call of its \<open>loop\<close> as a list of events. The receive queue of a WebSocket client is the list of
  its entries in use.
\<close>

section \<open>The network\<close>

datatype WStype = WStype_CONNECTED | WStype_DISCONNECTED | WStype_BIN | WStype_FRAGMENT_BIN_START | WStype_FRAGMENT | WStype_FRAGMENT_FIN
  | WStype_OTHER

record 'n Sockets =
  n_listen :: "nat \<Rightarrow> 'n \<Rightarrow> 'n"
  n_unlisten :: "'n \<Rightarrow> 'n"
  n_accept :: "'n \<Rightarrow> nat option list \<times> 'n"
  n_connected :: "nat \<Rightarrow> 'n \<Rightarrow> bool"
  n_close :: "nat \<Rightarrow> 'n \<Rightarrow> 'n"
  n_available :: "nat \<Rightarrow> 'n \<Rightarrow> byte list"
  n_read :: "nat \<Rightarrow> nat \<Rightarrow> 'n \<Rightarrow> 'n"
  n_writable :: "nat \<Rightarrow> 'n \<Rightarrow> bool"
  n_write :: "nat \<Rightarrow> byte list \<Rightarrow> 'n \<Rightarrow> nat \<times> 'n"
  n_millis :: "'n \<Rightarrow> u32"
  n_delay :: "'n \<Rightarrow> 'n"

record 'n WebSockets =
  ws_begin :: "nat \<Rightarrow> 'n \<Rightarrow> 'n"
  ws_close :: "'n \<Rightarrow> 'n"
  ws_loop :: "'n \<Rightarrow> (nat \<times> WStype \<times> byte list) list \<times> 'n"
  ws_disconnect :: "nat \<Rightarrow> 'n \<Rightarrow> 'n"
  ws_clientIsConnected :: "nat \<Rightarrow> 'n \<Rightarrow> bool"
  ws_sendBIN :: "nat \<Rightarrow> byte list \<Rightarrow> 'n \<Rightarrow> bool \<times> 'n"

record 'n Network =
  n_sockets :: "'n Sockets"
  n_websockets :: "'n WebSockets"
  n_companionTransportsAllowed :: "'n \<Rightarrow> bool"
  n_wifi_connected :: "'n \<Rightarrow> bool"
  n_wifi_ap :: "'n \<Rightarrow> bool"
  n_pref_enabled :: "TransportId \<Rightarrow> 'n \<Rightarrow> bool"
  n_prefs_set :: "TransportId \<Rightarrow> bool \<Rightarrow> 'n \<Rightarrow> bool \<times> 'n"
  n_MAX_FRAME_SIZE :: nat

section \<open>State\<close>

record ClientSlot =
  cs_parser :: companion_parser
  cs_in_use :: bool
  cs_generation :: u32
  cs_client :: nat

record TCPCompanionServer =
  tcp_clients :: "ClientSlot list"
  tcp_port :: nat
  tcp_started :: bool
  tcp_poll_start :: int

record WsClientSlot =
  wc_parser :: companion_parser
  wc_in_use :: bool
  wc_generation :: u32
  wc_rx_queue :: "byte list list"

record WebSocketCompanionServer =
  ws_server :: bool
  ws_clients :: "WsClientSlot list"
  ws_port :: nat
  ws_started :: bool
  ws_poll_start :: int

record Registry =
  r_serial :: bool
  r_frame_handler :: bool
  r_service_handler :: bool
  r_tcp :: TCPCompanionServer
  r_ws :: WebSocketCompanionServer
  r_initialized :: bool
  r_tcp_enabled :: bool
  r_ws_enabled :: bool
  r_tcp_started :: bool
  r_ws_started :: bool
  r_request_active :: bool
  r_request_id :: TransportId
  r_request_client :: int
  r_request_generation :: u32
  r_ota_parked :: bool

record 'n tenv =
  t_reg :: Registry
  t_net :: 'n

type_synonym ('n, 'a) tp = "('n tenv, 'a) state"

definition MAX_CLIENTS :: nat where "MAX_CLIENTS = 4"
definition TCP_DEFAULT_PORT :: nat where "TCP_DEFAULT_PORT = 5000"
definition WS_DEFAULT_PORT :: nat where "WS_DEFAULT_PORT = 8765"
definition TCP_WRITE_TIMEOUT_MS :: u32 where "TCP_WRITE_TIMEOUT_MS = 120"
definition WS_RX_QUEUE :: nat where "WS_RX_QUEUE = 4"

definition net_look :: "('n \<Rightarrow> 'a) \<Rightarrow> ('n, 'a) tp" where
  "net_look f = gets (\<lambda>e. f (t_net e))"

definition net_do :: "('n \<Rightarrow> 'n) \<Rightarrow> ('n, unit) tp" where
  "net_do f = modify (\<lambda>e. e\<lparr>t_net := f (t_net e)\<rparr>)"

definition net :: "('n \<Rightarrow> 'a \<times> 'n) \<Rightarrow> ('n, 'a) tp" where
  "net f = State (\<lambda>e. case f (t_net e) of (a, n) \<Rightarrow> (a, e\<lparr>t_net := n\<rparr>))"

definition upd_tcp :: "(TCPCompanionServer \<Rightarrow> TCPCompanionServer) \<Rightarrow> ('n, unit) tp" where
  "upd_tcp f = modify (\<lambda>e. e\<lparr>t_reg := (t_reg e)\<lparr>r_tcp := f (r_tcp (t_reg e))\<rparr>\<rparr>)"

definition upd_ws :: "(WebSocketCompanionServer \<Rightarrow> WebSocketCompanionServer) \<Rightarrow> ('n, unit) tp" where
  "upd_ws f = modify (\<lambda>e. e\<lparr>t_reg := (t_reg e)\<lparr>r_ws := f (r_ws (t_reg e))\<rparr>\<rparr>)"

definition upd_reg :: "(Registry \<Rightarrow> Registry) \<Rightarrow> ('n, unit) tp" where
  "upd_reg f = modify (\<lambda>e. e\<lparr>t_reg := f (t_reg e)\<rparr>)"

definition next_generation :: "u32 \<Rightarrow> u32" where
  "next_generation g = (if g + 1 = 0 then 1 else g + 1)"

section \<open>TCP server\<close>

definition tcp_slot :: "nat \<Rightarrow> (ClientSlot \<Rightarrow> ClientSlot) \<Rightarrow> ('n, unit) tp" where
  "tcp_slot i f = upd_tcp (\<lambda>s. s\<lparr>tcp_clients := (tcp_clients s)[i := f (tcp_clients s ! i)]\<rparr>)"

definition client_at :: "nat \<Rightarrow> 'n tenv \<Rightarrow> ClientSlot" where
  "client_at i e = tcp_clients (r_tcp (t_reg e)) ! i"

definition valid_index :: "int \<Rightarrow> bool" where
  "valid_index i \<longleftrightarrow> 0 \<le> i \<and> i < int MAX_CLIENTS"

definition tcp_resetClient :: "'n Network \<Rightarrow> int \<Rightarrow> ('n, unit) tp" where
  "tcp_resetClient N client_index =
     (if \<not> valid_index client_index then ret ()
      else do {
        c \<leftarrow> gets (client_at (nat client_index));
        (if cs_in_use c then net_do (n_close (n_sockets N) (cs_client c)) else ret ());
        tcp_slot (nat client_index) (\<lambda>c. c\<lparr>cs_in_use := False, cs_parser := fp_reset (cs_parser c)\<rparr>) })"

definition tcp_stop :: "'n Network \<Rightarrow> ('n, unit) tp" where
  "tcp_stop N = do {
     net_do (n_unlisten (n_sockets N));
     for_each (\<lambda>i. tcp_resetClient N (int i)) [0..<MAX_CLIENTS];
     upd_tcp (\<lambda>s. s\<lparr>tcp_started := False\<rparr>) }"

definition tcp_begin :: "'n Network \<Rightarrow> nat \<Rightarrow> ('n, unit) tp" where
  "tcp_begin N port = do {
     tcp_stop N;
     allowed \<leftarrow> net_look (n_companionTransportsAllowed N);
     if \<not> allowed then ret ()
     else do {
       upd_tcp (\<lambda>s. s\<lparr>tcp_port := port, tcp_started := True\<rparr>);
       net_do (n_listen (n_sockets N) port) } }"

definition free_slot :: "ClientSlot list \<Rightarrow> nat option" where
  "free_slot cs = first_index (\<lambda>c. \<not> cs_in_use c) cs"

definition tcp_admit :: "'n Network \<Rightarrow> nat option \<Rightarrow> ('n, unit) tp" where
  "tcp_admit N incoming =
     (case incoming of
        None \<Rightarrow> ret ()
      | Some sock \<Rightarrow> do {
          slot \<leftarrow> gets (\<lambda>e. free_slot (tcp_clients (r_tcp (t_reg e))));
          case slot of
            None \<Rightarrow> net_do (n_close (n_sockets N) sock)
          | Some i \<Rightarrow> tcp_slot i (\<lambda>c. c\<lparr>cs_client := sock, cs_in_use := True, cs_parser := fp_reset (cs_parser c),
                        cs_generation := next_generation (cs_generation c)\<rparr>) })"

definition tcp_acceptNewClients :: "'n Network \<Rightarrow> ('n, unit) tp" where
  "tcp_acceptNewClients N = do {
     allowed \<leftarrow> net_look (n_companionTransportsAllowed N);
     if \<not> allowed then ret ()
     else do {
       incoming \<leftarrow> net (n_accept (n_sockets N));
       for_each (tcp_admit N) incoming } }"

definition tcp_prune :: "'n Network \<Rightarrow> nat \<Rightarrow> ('n, unit) tp" where
  "tcp_prune N i = do {
     c \<leftarrow> gets (client_at i);
     connected \<leftarrow> net_look (n_connected (n_sockets N) (cs_client c));
     if cs_in_use c \<and> \<not> connected then tcp_resetClient N (int i) else ret () }"

definition tcp_pruneDisconnected :: "'n Network \<Rightarrow> ('n, unit) tp" where
  "tcp_pruneDisconnected N = for_each (tcp_prune N) [0..<MAX_CLIENTS]"

text \<open>
  The loop of \<open>writeBytes\<close>. Every round either writes at least one byte, or waits a millisecond
  and counts against the time limit; \<open>fuel\<close> bounds the rounds, and \<open>None\<close> says that they did not
  suffice.
\<close>

fun tcp_write_loop :: "'n Network \<Rightarrow> nat \<Rightarrow> u32 \<Rightarrow> nat \<Rightarrow> byte list \<Rightarrow> 'n \<Rightarrow> (bool \<times> 'n) option" where
  "tcp_write_loop N sock started fuel [] n = Some (True, n)"
| "tcp_write_loop N sock started 0 (d # ds) n = None"
| "tcp_write_loop N sock started (Suc fuel) (d # ds) n =
     (if \<not> n_companionTransportsAllowed N n then Some (False, n)
      else
        let (count, n1) = (if n_writable (n_sockets N) sock n then n_write (n_sockets N) sock (d # ds) n else (0, n))
        in if count > 0 then tcp_write_loop N sock started fuel (drop count (d # ds)) n1
           else if n_millis (n_sockets N) n1 - started \<ge> TCP_WRITE_TIMEOUT_MS then Some (False, n1)
           else tcp_write_loop N sock started fuel (d # ds) (n_delay (n_sockets N) n1))"

definition write_fuel :: "byte list \<Rightarrow> nat" where
  "write_fuel data = (length data + 1) * (unat TCP_WRITE_TIMEOUT_MS + 2)"

definition tcp_writeBytes :: "'n Network \<Rightarrow> nat \<Rightarrow> byte list \<Rightarrow> ('n, bool) tp" where
  "tcp_writeBytes N sock data = do {
     connected \<leftarrow> net_look (n_connected (n_sockets N) sock);
     if \<not> connected then ret False
     else do {
       started \<leftarrow> net_look (n_millis (n_sockets N));
       net (\<lambda>n. case tcp_write_loop N sock started (write_fuel data) data n of None \<Rightarrow> (False, n) | Some r \<Rightarrow> r) } }"

text \<open>Reading a client's bytes up to the end of a frame: the frame, the parser and the number of bytes read.\<close>

fun tcp_read_loop :: "nat \<Rightarrow> companion_parser \<Rightarrow> byte list \<Rightarrow> byte list option \<times> companion_parser \<times> nat" where
  "tcp_read_loop mfs p [] = (None, p, 0)"
| "tcp_read_loop mfs p (b # bs) =
     (case fp_push mfs b p of
        (False, p1) \<Rightarrow> (case tcp_read_loop mfs p1 bs of (r, q, k) \<Rightarrow> (r, q, Suc k))
      | (True, p1) \<Rightarrow>
          (case fp_take True mfs p1 of
             None \<Rightarrow> (case tcp_read_loop mfs p1 bs of (r, q, k) \<Rightarrow> (r, q, Suc k))
           | Some (d, n, p2) \<Rightarrow> (Some d, p2, 1)))"

definition tcp_read_client :: "'n Network \<Rightarrow> nat \<Rightarrow> ('n, byte list option) tp" where
  "tcp_read_client N i = do {
     c \<leftarrow> gets (client_at i);
     connected \<leftarrow> net_look (n_connected (n_sockets N) (cs_client c));
     if \<not> cs_in_use c \<or> \<not> connected then ret None
     else do {
       bytes \<leftarrow> net_look (n_available (n_sockets N) (cs_client c));
       let r = tcp_read_loop (n_MAX_FRAME_SIZE N) (cs_parser c) bytes;
       tcp_slot i (\<lambda>c. c\<lparr>cs_parser := fst (snd r)\<rparr>);
       net_do (n_read (n_sockets N) (cs_client c) (snd (snd r)));
       ret (fst r) } }"

text \<open>One round of a poll: the clients in the order of \<open>is\<close>, until one of them has a frame.\<close>

fun poll_clients :: "(nat \<Rightarrow> ('s, byte list option) state) \<Rightarrow> (int \<Rightarrow> ('s, unit) state) \<Rightarrow> nat list \<Rightarrow> ('s, (byte list \<times> int) option) state" where
  "poll_clients read advance [] = ret None"
| "poll_clients read advance (i # is) = do {
     r \<leftarrow> read i;
     case r of
       None \<Rightarrow> poll_clients read advance is
     | Some frame \<Rightarrow> do {
         advance (int ((i + 1) mod MAX_CLIENTS));
         ret (Some (frame, int i)) } }"

definition poll_order :: "int \<Rightarrow> nat list" where
  "poll_order s = (let start = (if s < 0 \<or> s \<ge> int MAX_CLIENTS then 0 else nat s)
     in map (\<lambda>offset. (start + offset) mod MAX_CLIENTS) [0..<MAX_CLIENTS])"

definition tcp_pollRecvFrame :: "'n Network \<Rightarrow> ('n, (byte list \<times> int) option) tp" where
  "tcp_pollRecvFrame N = do {
     allowed \<leftarrow> net_look (n_companionTransportsAllowed N);
     if \<not> allowed then do { tcp_stop N; ret None }
     else do {
       started \<leftarrow> gets (\<lambda>e. tcp_started (r_tcp (t_reg e)));
       if \<not> started then ret None
       else do {
         tcp_acceptNewClients N;
         allowed \<leftarrow> net_look (n_companionTransportsAllowed N);
         if \<not> allowed then do { tcp_stop N; ret None }
         else do {
           tcp_pruneDisconnected N;
           order \<leftarrow> gets (\<lambda>e. poll_order (tcp_poll_start (r_tcp (t_reg e))));
           r \<leftarrow> poll_clients (tcp_read_client N) (\<lambda>p. upd_tcp (\<lambda>s. s\<lparr>tcp_poll_start := p\<rparr>)) order;
           case r of
             Some x \<Rightarrow> ret (Some x)
           | None \<Rightarrow> do {
               upd_tcp (\<lambda>s. s\<lparr>tcp_poll_start := int ((hd order + 1) mod MAX_CLIENTS)\<rparr>);
               ret None } } } } }"

definition tcp_isClientConnected :: "'n Network \<Rightarrow> int \<Rightarrow> 'n tenv \<Rightarrow> bool" where
  "tcp_isClientConnected N client_index e \<longleftrightarrow> n_companionTransportsAllowed N (t_net e) \<and> valid_index client_index \<and>
     (let c = client_at (nat client_index) e in cs_in_use c \<and> n_connected (n_sockets N) (cs_client c) (t_net e))"

definition tcp_writeToClient :: "'n Network \<Rightarrow> int \<Rightarrow> byte list \<Rightarrow> ('n, nat) tp" where
  "tcp_writeToClient N client_index src = do {
     ok \<leftarrow> gets (\<lambda>e. tcp_started (r_tcp (t_reg e)) \<and> valid_index client_index \<and> 0 < length src \<and> length src \<le> n_MAX_FRAME_SIZE N \<and>
            n_companionTransportsAllowed N (t_net e) \<and> tcp_isClientConnected N client_index e);
     if \<not> ok then ret 0
     else case encodeCompanionTransportFrame (n_MAX_FRAME_SIZE N) True (n_MAX_FRAME_SIZE N + 3) (Some src) of
       None \<Rightarrow> ret 0
     | Some encoded \<Rightarrow> do {
         sock \<leftarrow> gets (\<lambda>e. cs_client (client_at (nat client_index) e));
         written \<leftarrow> tcp_writeBytes N sock encoded;
         ret (if written then length src else 0) } }"

text \<open>The loop shared by both servers: the numbers of connected clients and of complete writes.\<close>

fun write_all :: "(int \<Rightarrow> 's \<Rightarrow> bool) \<Rightarrow> (int \<Rightarrow> ('s, nat) state) \<Rightarrow> nat \<Rightarrow> nat list \<Rightarrow> ('s, nat \<times> nat) state" where
  "write_all isConn send len [] = ret (0, 0)"
| "write_all isConn send len (i # is) = do {
     c \<leftarrow> gets (isConn (int i));
     if \<not> c then write_all isConn send len is
     else do {
       n \<leftarrow> send (int i);
       r \<leftarrow> write_all isConn send len is;
       ret (fst r + 1, snd r + (if n = len then 1 else 0)) } }"

definition tcp_writeToAllClients :: "'n Network \<Rightarrow> byte list \<Rightarrow> ('n, nat) tp" where
  "tcp_writeToAllClients N src = do {
     allowed \<leftarrow> net_look (n_companionTransportsAllowed N);
     if \<not> allowed \<or> length src = 0 \<or> length src > n_MAX_FRAME_SIZE N then ret 0
     else do {
       r \<leftarrow> write_all (tcp_isClientConnected N) (\<lambda>i. tcp_writeToClient N i src) (length src) [0..<MAX_CLIENTS];
       ret (if fst r > 0 \<and> fst r = snd r then length src else 0) } }"

definition tcp_connectedCount :: "'n Network \<Rightarrow> 'n tenv \<Rightarrow> nat" where
  "tcp_connectedCount N e = length (filter (\<lambda>i. tcp_isClientConnected N (int i) e) [0..<MAX_CLIENTS])"

definition tcp_clientGeneration :: "'n Network \<Rightarrow> int \<Rightarrow> 'n tenv \<Rightarrow> u32" where
  "tcp_clientGeneration N client_index e =
     (if \<not> valid_index client_index \<or> \<not> tcp_isClientConnected N client_index e then 0
      else cs_generation (client_at (nat client_index) e))"

definition tcp_disconnectClient :: "'n Network \<Rightarrow> int \<Rightarrow> ('n, unit) tp" where
  "tcp_disconnectClient N client_index = tcp_resetClient N client_index"

section \<open>WebSocket server\<close>

definition wclient_at :: "nat \<Rightarrow> 'n tenv \<Rightarrow> WsClientSlot" where
  "wclient_at i e = ws_clients (r_ws (t_reg e)) ! i"

definition ws_slot :: "nat \<Rightarrow> (WsClientSlot \<Rightarrow> WsClientSlot) \<Rightarrow> ('n, unit) tp" where
  "ws_slot i f = upd_ws (\<lambda>s. s\<lparr>ws_clients := (ws_clients s)[i := f (ws_clients s ! i)]\<rparr>)"

definition wsc_resetClient :: "int \<Rightarrow> ('n, unit) tp" where
  "wsc_resetClient client_index =
     (if \<not> valid_index client_index then ret ()
      else ws_slot (nat client_index) (\<lambda>c. c\<lparr>wc_in_use := False, wc_parser := fp_reset (wc_parser c), wc_rx_queue := []\<rparr>))"

definition wsc_stop :: "'n Network \<Rightarrow> ('n, unit) tp" where
  "wsc_stop N = do {
     open_server \<leftarrow> gets (\<lambda>e. ws_server (r_ws (t_reg e)));
     (if open_server then do {
        net_do (ws_close (n_websockets N));
        upd_ws (\<lambda>s. s\<lparr>ws_server := False\<rparr>) }
      else ret ());
     for_each (\<lambda>i. wsc_resetClient (int i)) [0..<MAX_CLIENTS];
     upd_ws (\<lambda>s. s\<lparr>ws_started := False\<rparr>) }"

definition wsc_begin :: "'n Network \<Rightarrow> nat \<Rightarrow> ('n, unit) tp" where
  "wsc_begin N port = do {
     wsc_stop N;
     allowed \<leftarrow> net_look (n_companionTransportsAllowed N);
     if \<not> allowed then ret ()
     else do {
       upd_ws (\<lambda>s. s\<lparr>ws_port := port, ws_started := True, ws_server := True\<rparr>);
       net_do (ws_begin (n_websockets N) port) } }"

definition wsc_isClientConnected :: "'n Network \<Rightarrow> int \<Rightarrow> 'n tenv \<Rightarrow> bool" where
  "wsc_isClientConnected N client_index e \<longleftrightarrow> n_companionTransportsAllowed N (t_net e) \<and> valid_index client_index \<and>
     wc_in_use (wclient_at (nat client_index) e) \<and> ws_server (r_ws (t_reg e)) \<and>
     ws_clientIsConnected (n_websockets N) (nat client_index) (t_net e)"

text \<open>The loop of \<open>queuePayload\<close> on a client slot; the queue stores a frame's length in one byte.\<close>

fun queue_bytes :: "nat \<Rightarrow> byte list \<Rightarrow> WsClientSlot \<Rightarrow> WsClientSlot" where
  "queue_bytes mfs [] c = c"
| "queue_bytes mfs (b # bs) c =
     (case fp_push mfs b (wc_parser c) of
        (False, p1) \<Rightarrow> queue_bytes mfs bs (c\<lparr>wc_parser := p1\<rparr>)
      | (True, p1) \<Rightarrow>
          if length (wc_rx_queue c) \<ge> WS_RX_QUEUE then queue_bytes mfs bs (c\<lparr>wc_parser := fp_reset p1\<rparr>)
          else (case fp_take True mfs p1 of
                  None \<Rightarrow> queue_bytes mfs bs (c\<lparr>wc_parser := p1\<rparr>)
                | Some (d, n, p2) \<Rightarrow> queue_bytes mfs bs (c\<lparr>wc_parser := p2, wc_rx_queue := wc_rx_queue c @ [take (n mod 256) d]\<rparr>)))"

definition wsc_queuePayload :: "'n Network \<Rightarrow> int \<Rightarrow> byte list \<Rightarrow> ('n, unit) tp" where
  "wsc_queuePayload N client_index payload = do {
     connected \<leftarrow> gets (wsc_isClientConnected N client_index);
     if \<not> valid_index client_index \<or> \<not> connected then ret ()
     else ws_slot (nat client_index) (queue_bytes (n_MAX_FRAME_SIZE N) payload) }"

definition wsc_onEvent :: "'n Network \<Rightarrow> nat \<times> WStype \<times> byte list \<Rightarrow> ('n, unit) tp" where
  "wsc_onEvent N event = (case event of (client_num, type, payload) \<Rightarrow> do {
     allowed \<leftarrow> net_look (n_companionTransportsAllowed N);
     open_server \<leftarrow> gets (\<lambda>e. ws_server (r_ws (t_reg e)));
     let disconnect = (if open_server then net_do (ws_disconnect (n_websockets N) client_num) else ret ());
     if client_num \<ge> MAX_CLIENTS then disconnect
     else if type = WStype_CONNECTED then
       (if \<not> allowed then do { disconnect; wsc_resetClient (int client_num) }
        else ws_slot client_num (\<lambda>c. c\<lparr>wc_in_use := True, wc_parser := fp_reset (wc_parser c), wc_rx_queue := [],
               wc_generation := next_generation (wc_generation c)\<rparr>))
     else if type = WStype_DISCONNECTED then wsc_resetClient (int client_num)
     else if \<not> allowed then do { disconnect; wsc_resetClient (int client_num) }
     else do {
       c \<leftarrow> gets (wclient_at client_num);
       if \<not> wc_in_use c then ret ()
       else if type \<in> {WStype_BIN, WStype_FRAGMENT_BIN_START, WStype_FRAGMENT, WStype_FRAGMENT_FIN}
         then wsc_queuePayload N (int client_num) payload
       else ret () } })"

definition wsc_loop :: "'n Network \<Rightarrow> ('n, unit) tp" where
  "wsc_loop N = do {
     allowed \<leftarrow> net_look (n_companionTransportsAllowed N);
     if \<not> allowed then wsc_stop N
     else do {
       run \<leftarrow> gets (\<lambda>e. ws_started (r_ws (t_reg e)) \<and> ws_server (r_ws (t_reg e)));
       if run then do {
         events \<leftarrow> net (ws_loop (n_websockets N));
         for_each (wsc_onEvent N) events }
       else ret () } }"

definition wsc_read_client :: "'n Network \<Rightarrow> nat \<Rightarrow> ('n, byte list option) tp" where
  "wsc_read_client N i = do {
     connected \<leftarrow> gets (wsc_isClientConnected N (int i));
     c \<leftarrow> gets (wclient_at i);
     if \<not> connected \<or> wc_rx_queue c = [] then ret None
     else do {
       ws_slot i (\<lambda>c. c\<lparr>wc_rx_queue := tl (wc_rx_queue c)\<rparr>);
       ret (Some (hd (wc_rx_queue c))) } }"

definition wsc_pollRecvFrame :: "'n Network \<Rightarrow> ('n, (byte list \<times> int) option) tp" where
  "wsc_pollRecvFrame N = do {
     allowed \<leftarrow> net_look (n_companionTransportsAllowed N);
     if \<not> allowed then do { wsc_stop N; ret None }
     else do {
       started \<leftarrow> gets (\<lambda>e. ws_started (r_ws (t_reg e)));
       if \<not> started then ret None
       else do {
         wsc_loop N;
         order \<leftarrow> gets (\<lambda>e. poll_order (ws_poll_start (r_ws (t_reg e))));
         r \<leftarrow> poll_clients (wsc_read_client N) (\<lambda>p. upd_ws (\<lambda>s. s\<lparr>ws_poll_start := p\<rparr>)) order;
         case r of
           Some x \<Rightarrow> ret (Some x)
         | None \<Rightarrow> do {
             upd_ws (\<lambda>s. s\<lparr>ws_poll_start := int ((hd order + 1) mod MAX_CLIENTS)\<rparr>);
             ret None } } } }"

definition wsc_writeToClient :: "'n Network \<Rightarrow> int \<Rightarrow> byte list \<Rightarrow> ('n, nat) tp" where
  "wsc_writeToClient N client_index src = do {
     ok \<leftarrow> gets (\<lambda>e. ws_started (r_ws (t_reg e)) \<and> n_companionTransportsAllowed N (t_net e) \<and> 0 < length src \<and>
            length src \<le> n_MAX_FRAME_SIZE N \<and> wsc_isClientConnected N client_index e);
     if \<not> ok then ret 0
     else case encodeCompanionTransportFrame (n_MAX_FRAME_SIZE N) True (n_MAX_FRAME_SIZE N + 3) (Some src) of
       None \<Rightarrow> ret 0
     | Some encoded \<Rightarrow> do {
         sent \<leftarrow> net (ws_sendBIN (n_websockets N) (nat client_index) encoded);
         ret (if sent then length src else 0) } }"

definition wsc_writeToAllClients :: "'n Network \<Rightarrow> byte list \<Rightarrow> ('n, nat) tp" where
  "wsc_writeToAllClients N src = do {
     allowed \<leftarrow> net_look (n_companionTransportsAllowed N);
     if \<not> allowed \<or> length src = 0 \<or> length src > n_MAX_FRAME_SIZE N then ret 0
     else do {
       r \<leftarrow> write_all (wsc_isClientConnected N) (\<lambda>i. wsc_writeToClient N i src) (length src) [0..<MAX_CLIENTS];
       ret (if fst r > 0 \<and> fst r = snd r then length src else 0) } }"

definition wsc_connectedCount :: "'n Network \<Rightarrow> 'n tenv \<Rightarrow> nat" where
  "wsc_connectedCount N e = length (filter (\<lambda>i. wsc_isClientConnected N (int i) e) [0..<MAX_CLIENTS])"

definition wsc_clientGeneration :: "'n Network \<Rightarrow> int \<Rightarrow> 'n tenv \<Rightarrow> u32" where
  "wsc_clientGeneration N client_index e =
     (if \<not> valid_index client_index \<or> \<not> wsc_isClientConnected N client_index e then 0
      else wc_generation (wclient_at (nat client_index) e))"

definition wsc_disconnectClient :: "'n Network \<Rightarrow> int \<Rightarrow> ('n, unit) tp" where
  "wsc_disconnectClient N client_index = do {
     open_server \<leftarrow> gets (\<lambda>e. ws_server (r_ws (t_reg e)) \<and> valid_index client_index \<and> wc_in_use (wclient_at (nat client_index) e));
     (if open_server then net_do (ws_disconnect (n_websockets N) (nat client_index)) else ret ());
     wsc_resetClient client_index }"

end
