(* ===== verification/TransportRegistry.thy ===== *)
theory TransportRegistry
  imports Transports BridgeCommands
begin

text \<open>
  The transport registry (\<open>comms/transports.cpp\<close>): starting and stopping the servers, routing a
  received frame to the bridge together with the identity of its connection, and sending to one
  client or to all clients of a transport. \<open>registry_linked\<close> ties the bridge to it.

  The serial (BLE) link and its session source are the arguments \<open>S\<close> and \<open>source\<close>; \<open>r_serial\<close>
  says whether they are attached. The handlers a registry can hold are those of the bridge.
\<close>

section \<open>Servers\<close>

definition networkTransportsAllowed :: "'n Network \<Rightarrow> 'n tenv \<Rightarrow> bool" where
  "networkTransportsAllowed N e \<longleftrightarrow> \<not> r_ota_parked (t_reg e) \<and> n_companionTransportsAllowed N (t_net e)"

definition wifiReady :: "'n Network \<Rightarrow> 'n tenv \<Rightarrow> bool" where
  "wifiReady N e \<longleftrightarrow> n_wifi_connected N (t_net e) \<or> n_wifi_ap N (t_net e)"

definition stopTcp :: "'n Network \<Rightarrow> ('n, unit) tp" where
  "stopTcp N = do {
     started \<leftarrow> gets (\<lambda>e. r_tcp_started (t_reg e));
     if \<not> started then ret () else do { tcp_stop N; upd_reg (\<lambda>r. r\<lparr>r_tcp_started := False\<rparr>) } }"

definition stopWs :: "'n Network \<Rightarrow> ('n, unit) tp" where
  "stopWs N = do {
     started \<leftarrow> gets (\<lambda>e. r_ws_started (t_reg e));
     if \<not> started then ret () else do { wsc_stop N; upd_reg (\<lambda>r. r\<lparr>r_ws_started := False\<rparr>) } }"

definition otaTransportParkHook :: "'n Network \<Rightarrow> bool \<Rightarrow> ('n, unit) tp" where
  "otaTransportParkHook N parked = do {
     upd_reg (\<lambda>r. r\<lparr>r_ota_parked := parked\<rparr>);
     if \<not> parked then ret () else do { stopTcp N; stopWs N } }"

definition reconcileServers :: "'n Network \<Rightarrow> ('n, unit) tp" where
  "reconcileServers N = do {
     ready \<leftarrow> gets (\<lambda>e. wifiReady N e \<and> networkTransportsAllowed N e);
     tcp_on \<leftarrow> gets (\<lambda>e. r_tcp_enabled (t_reg e));
     tcp_up \<leftarrow> gets (\<lambda>e. r_tcp_started (t_reg e));
     (if \<not> tcp_on \<or> \<not> ready then stopTcp N
      else if \<not> tcp_up then do {
        tcp_begin N TCP_DEFAULT_PORT;
        upd_reg (\<lambda>r. r\<lparr>r_tcp_started := True\<rparr>) }
      else ret ());
     ws_on \<leftarrow> gets (\<lambda>e. r_ws_enabled (t_reg e));
     ws_up \<leftarrow> gets (\<lambda>e. r_ws_started (t_reg e));
     if \<not> ws_on \<or> \<not> ready then stopWs N
     else if \<not> ws_up then do {
       wsc_begin N WS_DEFAULT_PORT;
       upd_reg (\<lambda>r. r\<lparr>r_ws_started := True\<rparr>) }
     else ret () }"

definition validFrame :: "'n Network \<Rightarrow> byte list \<Rightarrow> bool" where
  "validFrame N frame \<longleftrightarrow> 0 < length frame \<and> length frame \<le> n_MAX_FRAME_SIZE N"

definition writeToBle :: "'n tenv BaseSerialInterface \<Rightarrow> byte list \<Rightarrow> ('n, bool) tp" where
  "writeToBle S frame = do {
     open_link \<leftarrow> gets (\<lambda>e. r_serial (t_reg e) \<and> s_isEnabled S e \<and> s_isConnected S e);
     if \<not> open_link then ret False
     else do { n \<leftarrow> State (s_writeFrame S frame); ret (n = length frame) } }"

definition transports_attach_serial :: "bool \<Rightarrow> ('n, unit) tp" where
  "transports_attach_serial serial = upd_reg (\<lambda>r. r\<lparr>r_serial := serial\<rparr>)"

definition transports_set_frame_handler :: "bool \<Rightarrow> ('n, unit) tp" where
  "transports_set_frame_handler handler = upd_reg (\<lambda>r. r\<lparr>r_frame_handler := handler\<rparr>)"

definition transports_set_service_handler :: "bool \<Rightarrow> ('n, unit) tp" where
  "transports_set_service_handler handler = upd_reg (\<lambda>r. r\<lparr>r_service_handler := handler\<rparr>)"

definition transports_attached :: "'n tenv \<Rightarrow> bool" where
  "transports_attached e = r_serial (t_reg e)"

definition transports_init :: "'n Network \<Rightarrow> ('n, unit) tp" where
  "transports_init N = do {
     tcp_on \<leftarrow> net_look (n_pref_enabled N TCP);
     ws_on \<leftarrow> net_look (n_pref_enabled N WS);
     upd_reg (\<lambda>r. r\<lparr>r_tcp_enabled := tcp_on, r_ws_enabled := ws_on, r_initialized := True\<rparr>);
     reconcileServers N }"

definition transport_set_enabled :: "'n Network \<Rightarrow> 'n tenv BaseSerialInterface \<Rightarrow> TransportId \<Rightarrow> bool \<Rightarrow> ('n, bool) tp" where
  "transport_set_enabled N S tid on =
     (if tid = BLE then do {
        serial \<leftarrow> gets transports_attached;
        if \<not> serial then ret False
        else do {
          modify (if on then s_enable S else s_disable S);
          gets (\<lambda>e. s_isEnabled S e = on) } }
      else do {
        refused \<leftarrow> gets (\<lambda>e. on \<and> (\<not> wifiReady N e \<or> \<not> networkTransportsAllowed N e));
        if refused then ret False
        else do {
          saved \<leftarrow> net (n_prefs_set N tid on);
          if \<not> saved then ret False
          else do {
            upd_reg (\<lambda>r. if tid = TCP then r\<lparr>r_tcp_enabled := on\<rparr> else r\<lparr>r_ws_enabled := on\<rparr>);
            (if \<not> on then (if tid = TCP then stopTcp N else stopWs N) else reconcileServers N);
            ret True } } })"

definition transport_enabled :: "'n tenv BaseSerialInterface \<Rightarrow> TransportId \<Rightarrow> 'n tenv \<Rightarrow> bool" where
  "transport_enabled S tid e =
     (case tid of BLE \<Rightarrow> r_serial (t_reg e) \<and> s_isEnabled S e | TCP \<Rightarrow> r_tcp_enabled (t_reg e) | WS \<Rightarrow> r_ws_enabled (t_reg e))"

record TransportStatus =
  st_enabled :: bool
  st_connected :: bool
  st_clientCount :: nat
  st_detail :: string

definition network_status :: "bool \<Rightarrow> bool \<Rightarrow> nat \<Rightarrow> bool \<Rightarrow> string \<Rightarrow> TransportStatus" where
  "network_status enabled allowed clients started address =
     \<lparr>st_enabled = enabled, st_connected = 0 < (if allowed then clients else 0), st_clientCount = (if allowed then clients else 0),
      st_detail = (if \<not> enabled then ''disabled'' else if \<not> allowed then ''parked for OTA''
        else if started then address else ''waiting for WiFi'')\<rparr>"

definition transport_status :: "'n Network \<Rightarrow> 'n tenv BaseSerialInterface \<Rightarrow> TransportId \<Rightarrow> 'n tenv \<Rightarrow> TransportStatus" where
  "transport_status N S tid e =
     (case tid of
        BLE \<Rightarrow> (let enabled = transport_enabled S BLE e; connected = r_serial (t_reg e) \<and> s_isConnected S e
                in \<lparr>st_enabled = enabled, st_connected = connected, st_clientCount = (if connected then 1 else 0),
                    st_detail = (if enabled then if connected then ''connected'' else ''advertising'' else ''disabled'')\<rparr>)
      | TCP \<Rightarrow> network_status (transport_enabled S TCP e) (networkTransportsAllowed N e) (tcp_connectedCount N e) (r_tcp_started (t_reg e)) ''tcp://:5000''
      | WS \<Rightarrow> network_status (transport_enabled S WS e) (networkTransportsAllowed N e) (wsc_connectedCount N e) (r_ws_started (t_reg e)) ''ws://:8765'')"

section \<open>Clients\<close>

definition serial_link_generation :: "('e \<Rightarrow> u32) option \<Rightarrow> 'e BaseSerialInterface \<Rightarrow> 'e \<Rightarrow> u32" where
  "serial_link_generation source S e = (if \<not> s_isConnected S e then 0 else case source of Some f \<Rightarrow> f e | None \<Rightarrow> 1)"

definition transports_client_connected :: "'n Network \<Rightarrow> 'n tenv BaseSerialInterface \<Rightarrow> TransportId \<Rightarrow> int \<Rightarrow> 'n tenv \<Rightarrow> bool" where
  "transports_client_connected N S tid client_index e =
     (case tid of
        BLE \<Rightarrow> client_index = 0 \<and> r_serial (t_reg e) \<and> s_isEnabled S e \<and> s_isConnected S e
      | TCP \<Rightarrow> networkTransportsAllowed N e \<and> tcp_isClientConnected N client_index e
      | WS \<Rightarrow> networkTransportsAllowed N e \<and> wsc_isClientConnected N client_index e)"

definition transports_client_generation ::
    "'n Network \<Rightarrow> 'n tenv BaseSerialInterface \<Rightarrow> ('n tenv \<Rightarrow> u32) option \<Rightarrow> TransportId \<Rightarrow> int \<Rightarrow> 'n tenv \<Rightarrow> u32" where
  "transports_client_generation N S source tid client_index e =
     (case tid of
        BLE \<Rightarrow> if transports_client_connected N S BLE client_index e then serial_link_generation source S e else 0
      | TCP \<Rightarrow> if networkTransportsAllowed N e then tcp_clientGeneration N client_index e else 0
      | WS \<Rightarrow> if networkTransportsAllowed N e then wsc_clientGeneration N client_index e else 0)"

definition transports_current_request :: "'n tenv \<Rightarrow> (TransportId \<times> int \<times> u32) option" where
  "transports_current_request e =
     (if \<not> r_request_active (t_reg e) then None
      else Some (r_request_id (t_reg e), r_request_client (t_reg e), r_request_generation (t_reg e)))"

definition transports_send_to_result :: "'n Network \<Rightarrow> 'n tenv BaseSerialInterface \<Rightarrow> TransportId \<Rightarrow> int \<Rightarrow> byte list \<Rightarrow> ('n, bool) tp" where
  "transports_send_to_result N S tid client_index frame =
     (if \<not> validFrame N frame then ret False
      else if tid = BLE then (if client_index = 0 then writeToBle S frame else ret False)
      else do {
        allowed \<leftarrow> gets (networkTransportsAllowed N);
        if \<not> allowed then ret False
        else do {
          n \<leftarrow> (if tid = TCP then tcp_writeToClient N client_index frame else wsc_writeToClient N client_index frame);
          ret (n = length frame) } })"

definition transports_broadcast_result :: "'n Network \<Rightarrow> 'n tenv BaseSerialInterface \<Rightarrow> TransportId \<Rightarrow> byte list \<Rightarrow> ('n, bool) tp" where
  "transports_broadcast_result N S tid frame =
     (if \<not> validFrame N frame then ret False
      else if tid = BLE then writeToBle S frame
      else do {
        allowed \<leftarrow> gets (networkTransportsAllowed N);
        if \<not> allowed then ret False
        else do {
          n \<leftarrow> (if tid = TCP then tcp_writeToAllClients N frame else wsc_writeToAllClients N frame);
          ret (n = length frame) } })"

definition transports_broadcast :: "'n Network \<Rightarrow> 'n tenv BaseSerialInterface \<Rightarrow> TransportId \<Rightarrow> byte list \<Rightarrow> ('n, unit) tp" where
  "transports_broadcast N S tid frame = do { _ \<leftarrow> transports_broadcast_result N S tid frame; ret () }"

definition transport_send_to :: "'n Network \<Rightarrow> 'n tenv BaseSerialInterface \<Rightarrow> TransportId \<Rightarrow> int \<Rightarrow> byte list \<Rightarrow> ('n, unit) tp" where
  "transport_send_to N S tid client_index frame = do { _ \<leftarrow> transports_send_to_result N S tid client_index frame; ret () }"

section \<open>The bridge on the registry\<close>

text \<open>The functions the bridge is linked with: those of the registry, and the others from \<open>base\<close>.\<close>

definition registry_linked ::
    "'n Network \<Rightarrow> 'n tenv BaseSerialInterface \<Rightarrow> ('n tenv \<Rightarrow> u32) option \<Rightarrow> 'n tenv linked \<Rightarrow> 'n tenv linked" where
  "registry_linked N S source base = base\<lparr>
     l_attached := transports_attached,
     l_client_connected := transports_client_connected N S,
     l_client_generation := transports_client_generation N S source,
     l_current_request := transports_current_request,
     l_send_to_result := (\<lambda>tid ci frame. run_state (transports_send_to_result N S tid ci frame)),
     l_broadcast_result := (\<lambda>tid frame. run_state (transports_broadcast_result N S tid frame)),
     l_set_enabled := (\<lambda>tid on. run_state (transport_set_enabled N S tid on)),
     l_transport_enabled := transport_enabled S,
     l_status_connected := (\<lambda>tid e. st_connected (transport_status N S tid e)),
     l_companionTransportsAllowed := (\<lambda>e. n_companionTransportsAllowed N (t_net e)),
     l_MAX_FRAME_SIZE := n_MAX_FRAME_SIZE N\<rparr>"

definition on_registry :: "('n, 'a) tp \<Rightarrow> ('n tenv, 'a) br" where
  "on_registry m = env (run_state m)"

definition dispatchFrame :: "'n Network \<Rightarrow> TransportId \<Rightarrow> int \<Rightarrow> u32 \<Rightarrow> byte list \<Rightarrow> ('n tenv, unit) br" where
  "dispatchFrame N tid client_index generation frame = do {
     allowed \<leftarrow> look (\<lambda>e. tid = BLE \<or> networkTransportsAllowed N e);
     handler \<leftarrow> look (\<lambda>e. r_frame_handler (t_reg e));
     if \<not> allowed \<or> \<not> handler \<or> \<not> validFrame N frame then ret ()
     else do {
       on_registry (upd_reg (\<lambda>r. r\<lparr>r_request_active := True, r_request_id := tid, r_request_client := client_index,
         r_request_generation := generation\<rparr>));
       transportFrameHandler frame tid;
       on_registry (upd_reg (\<lambda>r. r\<lparr>r_request_active := False, r_request_client := -1, r_request_generation := 0\<rparr>)) } }"

definition loop_serial :: "'n Network \<Rightarrow> 'n tenv BaseSerialInterface \<Rightarrow> ('n tenv \<Rightarrow> u32) option \<Rightarrow> ('n tenv, unit) br" where
  "loop_serial N S source = do {
     on \<leftarrow> look (\<lambda>e. r_serial (t_reg e) \<and> s_isEnabled S e);
     if \<not> on then ret ()
     else do {
       frame \<leftarrow> env (s_checkRecvFrame S);
       generation \<leftarrow> look (serial_link_generation source S);
       if length frame > 0 then dispatchFrame N BLE 0 generation frame else ret () } }"

definition dispatch_polled :: "'n Network \<Rightarrow> TransportId \<Rightarrow> (int \<Rightarrow> 'n tenv \<Rightarrow> u32) \<Rightarrow> (byte list \<times> int) option \<Rightarrow> ('n tenv, unit) br" where
  "dispatch_polled N tid generation_of polled =
     (case polled of
        None \<Rightarrow> ret ()
      | Some (frame, client_index) \<Rightarrow> do {
          generation \<leftarrow> look (generation_of client_index);
          if length frame > 0 then dispatchFrame N tid client_index generation frame else ret () })"

definition transports_loop :: "'n Network \<Rightarrow> 'n tenv BaseSerialInterface \<Rightarrow> ('n tenv \<Rightarrow> u32) option \<Rightarrow> ('n tenv, unit) br" where
  "transports_loop N S source = do {
     initialized \<leftarrow> look (\<lambda>e. r_initialized (t_reg e));
     (if \<not> initialized then on_registry (transports_init N) else ret ());
     on_registry (reconcileServers N);
     network_allowed \<leftarrow> look (networkTransportsAllowed N);
     loop_serial N S source;
     tcp_up \<leftarrow> look (\<lambda>e. r_tcp_started (t_reg e));
     (if network_allowed \<and> tcp_up then do {
        polled \<leftarrow> on_registry (tcp_pollRecvFrame N);
        dispatch_polled N TCP (tcp_clientGeneration N) polled }
      else ret ());
     ws_up \<leftarrow> look (\<lambda>e. r_ws_started (t_reg e));
     (if network_allowed \<and> ws_up then do {
        polled \<leftarrow> on_registry (wsc_pollRecvFrame N);
        dispatch_polled N WS (wsc_clientGeneration N) polled }
      else ret ());
     service \<leftarrow> look (\<lambda>e. r_service_handler (t_reg e));
     if service then transportServiceHandler else ret () }"

end
