(* ===== verification/TransportProps.thy ===== *)
theory TransportProps
  imports TransportRegistry
begin

text \<open>
  What the transports promise: a write to a socket ends and reports truthfully, no client of the
  WebSocket server starves, and nothing passes the network transports during an update.
\<close>

section \<open>Writing to a socket\<close>

text \<open>
  What the socket library documents: a write takes a prefix of the data, a write that takes
  nothing returns within 12 days, and \<open>delay(1)\<close> takes at least a millisecond and less than 12
  days. \<open>tx\<close> is what was written to the socket so far.
\<close>

definition socket_laws :: "'n Network \<Rightarrow> nat \<Rightarrow> ('n \<Rightarrow> byte list) \<Rightarrow> bool" where
  "socket_laws N sock tx \<longleftrightarrow>
     (\<forall>d n. case n_write (n_sockets N) sock d n of (count, n') \<Rightarrow>
        count \<le> length d \<and> tx n' = tx n @ take count d \<and>
        (count = 0 \<longrightarrow> unat (n_millis (n_sockets N) n' - n_millis (n_sockets N) n) < 2 ^ 30)) \<and>
     (\<forall>n. tx (n_delay (n_sockets N) n) = tx n \<and>
        unat (n_millis (n_sockets N) (n_delay (n_sockets N) n) - n_millis (n_sockets N) n) \<in> {1..<2 ^ 30})"

definition waited :: "'n Network \<Rightarrow> u32 \<Rightarrow> 'n \<Rightarrow> nat" where
  "waited N started n = unat (n_millis (n_sockets N) n - started)"

lemma waited_step:
  assumes "unat (n_millis (n_sockets N) n' - n_millis (n_sockets N) n) = k"
  shows "waited N started n' = (waited N started n + k) mod 2 ^ 32"
proof -
  have "n_millis (n_sockets N) n' - started = (n_millis (n_sockets N) n - started) + (n_millis (n_sockets N) n' - n_millis (n_sockets N) n)"
    by simp
  then show ?thesis using assms unfolding waited_def by (simp only: unat_word_ariths) simp
qed

text \<open>The rounds without progress that the time limit still allows.\<close>

definition patience :: "'n Network \<Rightarrow> u32 \<Rightarrow> 'n \<Rightarrow> nat" where
  "patience N started n = (if waited N started n < 2 ^ 31 then 120 - waited N started n else 121)"

lemma patience_le: "patience N started n \<le> 121"
  by (auto simp: patience_def)

lemma waiting_costs_patience:
  assumes "socket_laws N sock tx" and w: "n1 = n \<or> n_write (n_sockets N) sock d n = (0, n1)"
    and "\<not> n_millis (n_sockets N) n1 - started \<ge> TCP_WRITE_TIMEOUT_MS"
  shows "patience N started (n_delay (n_sockets N) n1) < patience N started n" "tx (n_delay (n_sockets N) n1) = tx n"
proof -
  obtain k where k: "unat (n_millis (n_sockets N) n1 - n_millis (n_sockets N) n) = k" "k < 2 ^ 30" "tx n1 = tx n"
    using assms(1) w unfolding socket_laws_def by (cases "n1 = n") (auto dest!: spec [of _ d] spec [of _ n] split: prod.splits)
  obtain j where j: "unat (n_millis (n_sockets N) (n_delay (n_sockets N) n1) - n_millis (n_sockets N) n1) = j" "1 \<le> j" "j < 2 ^ 30"
    "tx (n_delay (n_sockets N) n1) = tx n1" using assms(1) unfolding socket_laws_def by auto
  have n1: "waited N started n1 < 120" using assms(3) by (simp add: waited_def not_le word_less_nat_alt TCP_WRITE_TIMEOUT_MS_def)
  have "waited N started n < 2 ^ 32" unfolding waited_def using unsigned_less [of "n_millis (n_sockets N) n - started", where 'a = nat] by simp
  then have "waited N started n \<le> waited N started n1 \<or> waited N started n \<ge> 2 ^ 31"
    using n1 k(2) waited_step [OF k(1)] by (auto simp: mod_if split: if_splits)
  moreover have "waited N started (n_delay (n_sockets N) n1) = waited N started n1 + j"
    using n1 j(3) waited_step [OF j(1)] by simp
  ultimately show "patience N started (n_delay (n_sockets N) n1) < patience N started n"
    using n1 j(2,3) by (auto simp: patience_def)
  show "tx (n_delay (n_sockets N) n1) = tx n" using j(4) k(3) by simp
qed

lemma write_loop_returns:
  assumes laws: "socket_laws N sock tx" and "length data * 122 + patience N started n < fuel"
  shows "\<exists>r n' k. tcp_write_loop N sock started fuel data n = Some (r, n') \<and> k \<le> length data \<and> tx n' = tx n @ take k data \<and>
    (r \<longleftrightarrow> k = length data)"
  using assms(2)
proof (induction fuel arbitrary: data n)
  case (Suc fuel)
  show ?case
  proof (cases data)
    case Nil
    then show ?thesis by auto
  next
    case (Cons d ds)
    obtain count n1 where w: "(if n_writable (n_sockets N) sock n then n_write (n_sockets N) sock data n else (0, n)) = (count, n1)" by force
    have wr: "count \<le> length data" "tx n1 = tx n @ take count data"
      using w laws unfolding socket_laws_def by (auto split: if_splits prod.splits)
    have step: "tcp_write_loop N sock started (Suc fuel) data n = (if \<not> n_companionTransportsAllowed N n then Some (False, n)
        else if count > 0 then tcp_write_loop N sock started fuel (drop count data) n1
        else if n_millis (n_sockets N) n1 - started \<ge> TCP_WRITE_TIMEOUT_MS then Some (False, n1)
        else tcp_write_loop N sock started fuel data (n_delay (n_sockets N) n1))"
      using w unfolding Cons by (simp del: drop_Cons' split del: if_split cong: if_cong add: Let_def)
    consider (parked) "\<not> n_companionTransportsAllowed N n" | (progress) "n_companionTransportsAllowed N n" "0 < count"
      | (late) "n_companionTransportsAllowed N n" "count = 0" "n_millis (n_sockets N) n1 - started \<ge> TCP_WRITE_TIMEOUT_MS"
      | (wait) "n_companionTransportsAllowed N n" "count = 0" "\<not> n_millis (n_sockets N) n1 - started \<ge> TCP_WRITE_TIMEOUT_MS" by blast
    then show ?thesis
    proof cases
      case parked
      then show ?thesis using Cons unfolding step by (auto intro!: exI [of _ 0])
    next
      case progress
      have "length (drop count data) + 1 \<le> length data" using progress(2) wr(1) Cons by simp
      then have "length (drop count data) * 122 + patience N started n1 < fuel" using Suc.prems patience_le [of N started n1] by linarith
      from Suc.IH [OF this] obtain r n' k where
        "tcp_write_loop N sock started fuel (drop count data) n1 = Some (r, n')" "k \<le> length (drop count data)"
        "tx n' = tx n1 @ take k (drop count data)" "r \<longleftrightarrow> k = length (drop count data)" by blast
      then show ?thesis unfolding step using wr progress
        by (intro exI [of _ r] exI [of _ n'] exI [of _ "count + k"]) (auto simp: take_add)
    next
      case late
      then show ?thesis unfolding step using wr Cons by (auto intro!: exI [of _ 0])
    next
      case wait
      have "n1 = n \<or> n_write (n_sockets N) sock data n = (0, n1)" using w wait(2) by (auto split: if_splits)
      note d = waiting_costs_patience [OF laws this wait(3)]
      have "length data * 122 + patience N started (n_delay (n_sockets N) n1) < fuel" using Suc.prems d(1) by linarith
      from Suc.IH [OF this] show ?thesis unfolding step using wait d(2) by simp
    qed
  qed
qed simp

text \<open>
  C25: writing to a socket always ends, and its result is the truth. Within a bounded number of
  rounds (a round writes something or waits at least a millisecond of the 120 allowed) the loop
  of \<open>writeBytes\<close> has either written all the data and says so, or has written a proper prefix
  and reports failure, also when the socket takes the data in pieces, stops taking it, or an update
  closes the transports meanwhile.
\<close>

theorem socket_write_ends_truthfully:
  assumes "socket_laws N sock tx"
  shows "\<exists>r n' k. tcp_write_loop N sock started (write_fuel data) data n = Some (r, n') \<and> k \<le> length data \<and>
    tx n' = tx n @ take k data \<and> (r \<longleftrightarrow> k = length data)"
proof -
  have "length data * 122 + patience N started n < write_fuel data"
    using patience_le [of N started n] by (simp add: write_fuel_def TCP_WRITE_TIMEOUT_MS_def)
  then show ?thesis by (rule write_loop_returns [OF assms])
qed

text \<open>
  A network on which the theorems are applied: the one socket takes two bytes at a time, and
  the clock moves with every wait.
\<close>

record demo_net =
  dn_tx :: "byte list"
  dn_clock :: u32

definition demo_sockets :: "'a demo_net_scheme Sockets" where
  "demo_sockets = \<lparr>n_listen = (\<lambda>_ n. n), n_unlisten = (\<lambda>n. n), n_accept = (\<lambda>n. ([], n)), n_connected = (\<lambda>s _. s = 1), n_close = (\<lambda>_ n. n),
     n_available = (\<lambda>_ _. []), n_read = (\<lambda>_ _ n. n), n_writable = (\<lambda>_ _. True),
     n_write = (\<lambda>s d n. (min 2 (length d), n\<lparr>dn_tx := dn_tx n @ take 2 d\<rparr>)), n_millis = dn_clock,
     n_delay = (\<lambda>n. n\<lparr>dn_clock := dn_clock n + 1\<rparr>)\<rparr>"

definition demo_websockets :: "'a demo_net_scheme WebSockets" where
  "demo_websockets = \<lparr>ws_begin = (\<lambda>_ n. n), ws_close = (\<lambda>n. n), ws_loop = (\<lambda>n. ([], n)), ws_disconnect = (\<lambda>_ n. n),
     ws_clientIsConnected = (\<lambda>_ _. True), ws_sendBIN = (\<lambda>_ _ n. (True, n))\<rparr>"

definition demo_network :: "'a demo_net_scheme Network" where
  "demo_network = \<lparr>n_sockets = demo_sockets, n_websockets = demo_websockets, n_companionTransportsAllowed = (\<lambda>_. True),
     n_wifi_connected = (\<lambda>_. True), n_wifi_ap = (\<lambda>_. False), n_pref_enabled = (\<lambda>_ _. True), n_prefs_set = (\<lambda>_ _ n. (True, n)),
     n_MAX_FRAME_SIZE = 172\<rparr>"

lemma demo_laws: "socket_laws demo_network sock dn_tx"
  by (simp add: socket_laws_def demo_network_def demo_sockets_def min_def)

theorem socket_write_ends_truthfully_witness:
  "\<exists>r n' k. tcp_write_loop demo_network 1 0 (write_fuel [7, 8, 9]) [7, 8, 9] \<lparr>dn_tx = [1], dn_clock = 5\<rparr> = Some (r, n') \<and>
     k \<le> 3 \<and> dn_tx n' = 1 # take k [7, 8, 9] \<and> (r \<longleftrightarrow> k = 3)"
  using socket_write_ends_truthfully [OF demo_laws, of 1 0 "[7, 8, 9]" "\<lparr>dn_tx = [1], dn_clock = 5\<rparr>"]
  by (simp add: numeral_3_eq_3)

section \<open>Fair polling\<close>

fun times :: "nat \<Rightarrow> ('s, 'a) state \<Rightarrow> ('s, 'a list) state" where
  "times 0 m = ret []"
| "times (Suc n) m = do { x \<leftarrow> m; xs \<leftarrow> times n m; ret (x # xs) }"

definition has_frame :: "'n Network \<Rightarrow> 'n tenv \<Rightarrow> nat \<Rightarrow> bool" where
  "has_frame N e j \<longleftrightarrow> wsc_isClientConnected N (int j) e \<and> wc_rx_queue (wclient_at j e) \<noteq> []"

text \<open>The state after client \<open>j\<close> was served.\<close>

definition served :: "nat \<Rightarrow> 'n tenv \<Rightarrow> 'n tenv" where
  "served j e = (let c = wclient_at j e; w = r_ws (t_reg e)
     in e\<lparr>t_reg := (t_reg e)\<lparr>r_ws := w\<lparr>ws_clients := (ws_clients w)[j := c\<lparr>wc_rx_queue := tl (wc_rx_queue c)\<rparr>],
          ws_poll_start := int ((j + 1) mod MAX_CLIENTS)\<rparr>\<rparr>\<rparr>)"

lemma poll_clients_ws:
  "run_state (poll_clients (wsc_read_client N) (\<lambda>p. upd_ws (\<lambda>s. s\<lparr>ws_poll_start := p\<rparr>)) is) e =
     (case find (has_frame N e) is of None \<Rightarrow> (None, e)
      | Some j \<Rightarrow> (Some (hd (wc_rx_queue (wclient_at j e)), int j), served j e))"
  by (induction "is")
    (auto simp: wsc_read_client_def has_frame_def served_def ws_slot_def upd_ws_def wclient_at_def Let_def split: option.split)

definition turns :: "nat \<Rightarrow> nat \<Rightarrow> nat" where
  "turns p i = (i + MAX_CLIENTS - p) mod MAX_CLIENTS"

lemma less_4_cases: "(k :: nat) < 4 \<Longrightarrow> k = 0 \<or> k = 1 \<or> k = 2 \<or> k = 3"
  by linarith

lemma poll_order_list: "p < MAX_CLIENTS \<Longrightarrow> poll_order (int p) = [p, (p + 1) mod 4, (p + 2) mod 4, (p + 3) mod 4]"
  by (auto simp: poll_order_def MAX_CLIENTS_def Let_def upt_rec add.commute)

lemma turn_comes:
  assumes "p < MAX_CLIENTS" and "i < MAX_CLIENTS" and "P i"
  shows "\<exists>j. find P (poll_order (int p)) = Some j \<and> j < MAX_CLIENTS \<and> (j = i \<or> turns ((j + 1) mod MAX_CLIENTS) i < turns p i)"
  using less_4_cases [of p] less_4_cases [of i] assms
  by (auto simp: poll_order_list turns_def MAX_CLIENTS_def numeral_2_eq_2 [symmetric])

text \<open>The WebSocket server at work, with a frame of client \<open>i\<close> waiting.\<close>

definition waiting :: "'n Network \<Rightarrow> nat \<Rightarrow> byte list \<Rightarrow> 'n tenv \<Rightarrow> bool" where
  "waiting N i frame e \<longleftrightarrow> n_companionTransportsAllowed N (t_net e) \<and> ws_started (r_ws (t_reg e)) \<and> i < MAX_CLIENTS \<and>
     length (ws_clients (r_ws (t_reg e))) = MAX_CLIENTS \<and> has_frame N e i \<and> hd (wc_rx_queue (wclient_at i e)) = frame \<and>
     0 \<le> ws_poll_start (r_ws (t_reg e)) \<and> ws_poll_start (r_ws (t_reg e)) < int MAX_CLIENTS"

lemma waiting_served:
  assumes "waiting N i frame e" and "j \<noteq> i"
  shows "waiting N i frame (served j e)"
  using assms by (auto simp: waiting_def served_def has_frame_def wsc_isClientConnected_def wclient_at_def Let_def MAX_CLIENTS_def)

lemma wait_for_turn:
  assumes "waiting N i frame e" and quiet: "\<forall>n. ws_loop (n_websockets N) n = ([], n)"
    and "turns (nat (ws_poll_start (r_ws (t_reg e)))) i < k"
  shows "Some (frame, int i) \<in> set (fst (run_state (times k (wsc_pollRecvFrame N)) e))"
  using assms(1,3)
proof (induction k arbitrary: e)
  case (Suc k)
  let ?p = "nat (ws_poll_start (r_ws (t_reg e)))"
  have p: "?p < MAX_CLIENTS" "int ?p = ws_poll_start (r_ws (t_reg e))" "i < MAX_CLIENTS" "has_frame N e i"
    using Suc.prems(1) by (auto simp: waiting_def)
  obtain j where j: "find (has_frame N e) (poll_order (int ?p)) = Some j" "j < MAX_CLIENTS" "j = i \<or> turns ((j + 1) mod MAX_CLIENTS) i < turns ?p i"
    using turn_comes [OF p(1,3), of "has_frame N e"] p(4) by blast
  have net: "e\<lparr>t_net := t_net e\<rparr> = e" by simp
  have poll: "run_state (wsc_pollRecvFrame N) e = (Some (hd (wc_rx_queue (wclient_at j e)), int j), served j e)"
    using Suc.prems(1) j(1) p(2) quiet
    by (simp add: wsc_pollRecvFrame_def wsc_loop_def net_look_def net_def waiting_def poll_clients_ws)
  show ?case
  proof (cases "j = i")
    case True
    then show ?thesis using poll Suc.prems(1) by (auto simp: waiting_def split: prod.split)
  next
    case False
    have "waiting N i frame (served j e)" by (rule waiting_served [OF Suc.prems(1) False])
    moreover have "turns (nat (ws_poll_start (r_ws (t_reg (served j e))))) i < k"
      using False j(3) Suc.prems(2) by (simp add: served_def Let_def)
    ultimately have "Some (frame, int i) \<in> set (fst (run_state (times k (wsc_pollRecvFrame N)) (served j e)))" by (rule Suc.IH)
    then show ?thesis using poll by (auto split: prod.split)
  qed
qed simp


definition demo_ws_slot :: "byte list list \<Rightarrow> WsClientSlot" where
  "demo_ws_slot q = \<lparr>wc_parser = fp_init 172, wc_in_use = True, wc_generation = 1, wc_rx_queue = q\<rparr>"

definition demo_registry :: Registry where
  "demo_registry = \<lparr>r_serial = True, r_frame_handler = True, r_service_handler = True,
     r_tcp = \<lparr>tcp_clients = \<lparr>cs_parser = fp_init 172, cs_in_use = True, cs_generation = 7, cs_client = 1\<rparr> #
       replicate 3 \<lparr>cs_parser = fp_init 172, cs_in_use = False, cs_generation = 0, cs_client = 0\<rparr>,
       tcp_port = 5000, tcp_started = True, tcp_poll_start = 0\<rparr>,
     r_ws = \<lparr>ws_server = True, ws_clients = [demo_ws_slot [[1], [2]], demo_ws_slot [], demo_ws_slot [[3]], demo_ws_slot [[4]]],
       ws_port = 8765, ws_started = True, ws_poll_start = 3\<rparr>,
     r_initialized = True, r_tcp_enabled = True, r_ws_enabled = True, r_tcp_started = True, r_ws_started = True, r_request_active = False,
     r_request_id = BLE, r_request_client = -1, r_request_generation = 0, r_ota_parked = False\<rparr>"


section \<open>During an update\<close>

text \<open>Resetting all clients, and nothing but clients.\<close>

lemma tcp_reset_run:
  assumes "length (tcp_clients (r_tcp (t_reg e))) = MAX_CLIENTS" and "i < MAX_CLIENTS"
  shows "\<exists>n c. run_state (tcp_resetClient N (int i)) e =
    ((), e\<lparr>t_net := n, t_reg := (t_reg e)\<lparr>r_tcp := (r_tcp (t_reg e))\<lparr>tcp_clients := (tcp_clients (r_tcp (t_reg e)))[i := c]\<rparr>\<rparr>\<rparr>) \<and> \<not> cs_in_use c"
proof -
  let ?c = "client_at i e"
  let ?n = "if cs_in_use ?c then n_close (n_sockets N) (cs_client ?c) (t_net e) else t_net e"
  have "run_state (tcp_resetClient N (int i)) e = ((), e\<lparr>t_net := ?n, t_reg := (t_reg e)\<lparr>r_tcp := (r_tcp (t_reg e))
      \<lparr>tcp_clients := (tcp_clients (r_tcp (t_reg e)))[i := ?c\<lparr>cs_in_use := False, cs_parser := fp_reset (cs_parser ?c)\<rparr>]\<rparr>\<rparr>\<rparr>)"
    using assms(2) by (cases "cs_in_use ?c") (simp_all add: tcp_resetClient_def valid_index_def net_do_def tcp_slot_def upd_tcp_def client_at_def)
  then show ?thesis by (intro exI [of _ ?n] exI [of _ "?c\<lparr>cs_in_use := False, cs_parser := fp_reset (cs_parser ?c)\<rparr>"] conjI) simp_all
qed

lemma tcp_reset_all:
  assumes "length (tcp_clients (r_tcp (t_reg e))) = MAX_CLIENTS" and "set is \<subseteq> {..<MAX_CLIENTS}"
  shows "\<exists>n cs. run_state (for_each (\<lambda>i. tcp_resetClient N (int i)) is) e =
      ((), e\<lparr>t_net := n, t_reg := (t_reg e)\<lparr>r_tcp := (r_tcp (t_reg e))\<lparr>tcp_clients := cs\<rparr>\<rparr>\<rparr>) \<and> length cs = MAX_CLIENTS \<and>
    (\<forall>j < MAX_CLIENTS. cs_in_use (cs ! j) \<longrightarrow> cs_in_use (tcp_clients (r_tcp (t_reg e)) ! j) \<and> j \<notin> set is)"
  using assms
proof (induction "is" arbitrary: e)
  case Nil
  then show ?case by (intro exI [of _ "t_net e"] exI [of _ "tcp_clients (r_tcp (t_reg e))"]) simp
next
  case (Cons i "is")
  have i: "i < MAX_CLIENTS" using Cons.prems(2) by simp
  obtain n c where c: "run_state (tcp_resetClient N (int i)) e =
      ((), e\<lparr>t_net := n, t_reg := (t_reg e)\<lparr>r_tcp := (r_tcp (t_reg e))\<lparr>tcp_clients := (tcp_clients (r_tcp (t_reg e)))[i := c]\<rparr>\<rparr>\<rparr>)"
    (is "_ = ((), ?e)") "\<not> cs_in_use c" using tcp_reset_run [OF Cons.prems(1) i] by blast
  have "length (tcp_clients (r_tcp (t_reg ?e))) = MAX_CLIENTS" "set is \<subseteq> {..<MAX_CLIENTS}" using Cons.prems by simp_all
  from Cons.IH [OF this] obtain n' cs where r: "run_state (for_each (\<lambda>i. tcp_resetClient N (int i)) is) ?e =
      ((), ?e\<lparr>t_net := n', t_reg := (t_reg ?e)\<lparr>r_tcp := (r_tcp (t_reg ?e))\<lparr>tcp_clients := cs\<rparr>\<rparr>\<rparr>)" "length cs = MAX_CLIENTS"
    "\<forall>j < MAX_CLIENTS. cs_in_use (cs ! j) \<longrightarrow> cs_in_use (tcp_clients (r_tcp (t_reg ?e)) ! j) \<and> j \<notin> set is" by blast
  have "\<forall>j < MAX_CLIENTS. cs_in_use (cs ! j) \<longrightarrow> cs_in_use (tcp_clients (r_tcp (t_reg e)) ! j) \<and> j \<notin> set (i # is)"
    using r(3) c(2) i Cons.prems(1) by (auto simp: nth_list_update split: if_splits)
  then show ?case using c(1) r(1,2) by (intro exI [of _ n'] exI [of _ cs]) simp
qed

lemma tcp_stop_run:
  assumes "length (tcp_clients (r_tcp (t_reg e))) = MAX_CLIENTS"
  shows "\<exists>n t. run_state (tcp_stop N) e = ((), e\<lparr>t_net := n, t_reg := (t_reg e)\<lparr>r_tcp := t\<rparr>\<rparr>) \<and> \<not> tcp_started t \<and>
    (\<forall>j < MAX_CLIENTS. \<not> cs_in_use (tcp_clients t ! j))"
proof -
  let ?e = "e\<lparr>t_net := n_unlisten (n_sockets N) (t_net e)\<rparr>"
  have len: "length (tcp_clients (r_tcp (t_reg ?e))) = MAX_CLIENTS" and sub: "set [0..<MAX_CLIENTS] \<subseteq> {..<MAX_CLIENTS}" using assms by auto
  obtain n cs where "run_state (for_each (\<lambda>i. tcp_resetClient N (int i)) [0..<MAX_CLIENTS]) ?e =
      ((), ?e\<lparr>t_net := n, t_reg := (t_reg ?e)\<lparr>r_tcp := (r_tcp (t_reg ?e))\<lparr>tcp_clients := cs\<rparr>\<rparr>\<rparr>)"
    "\<forall>j < MAX_CLIENTS. cs_in_use (cs ! j) \<longrightarrow> cs_in_use (tcp_clients (r_tcp (t_reg ?e)) ! j) \<and> j \<notin> set [0..<MAX_CLIENTS]"
    using tcp_reset_all [OF len sub] by blast
  then show ?thesis by (intro exI [of _ n] exI [of _ "(r_tcp (t_reg e))\<lparr>tcp_clients := cs, tcp_started := False\<rparr>"])
      (auto simp: tcp_stop_def net_do_def upd_tcp_def)
qed

lemma ws_reset_all:
  assumes "length (ws_clients (r_ws (t_reg e))) = MAX_CLIENTS" and "set is \<subseteq> {..<MAX_CLIENTS}"
  shows "\<exists>cs. run_state (for_each (\<lambda>i. wsc_resetClient (int i)) is) e =
      ((), e\<lparr>t_reg := (t_reg e)\<lparr>r_ws := (r_ws (t_reg e))\<lparr>ws_clients := cs\<rparr>\<rparr>\<rparr>) \<and> length cs = MAX_CLIENTS \<and>
    (\<forall>j < MAX_CLIENTS. wc_in_use (cs ! j) \<longrightarrow> wc_in_use (ws_clients (r_ws (t_reg e)) ! j) \<and> j \<notin> set is)"
  using assms
proof (induction "is" arbitrary: e)
  case Nil
  then show ?case by (intro exI [of _ "ws_clients (r_ws (t_reg e))"]) simp
next
  case (Cons i "is")
  have i: "i < MAX_CLIENTS" using Cons.prems(2) by simp
  let ?c = "(ws_clients (r_ws (t_reg e)) ! i)\<lparr>wc_in_use := False, wc_parser := fp_reset (wc_parser (ws_clients (r_ws (t_reg e)) ! i)), wc_rx_queue := []\<rparr>"
  let ?e = "e\<lparr>t_reg := (t_reg e)\<lparr>r_ws := (r_ws (t_reg e))\<lparr>ws_clients := (ws_clients (r_ws (t_reg e)))[i := ?c]\<rparr>\<rparr>\<rparr>"
  have c: "run_state (wsc_resetClient (int i)) e = ((), ?e)" using i by (simp add: wsc_resetClient_def valid_index_def ws_slot_def upd_ws_def)
  have "length (ws_clients (r_ws (t_reg ?e))) = MAX_CLIENTS" "set is \<subseteq> {..<MAX_CLIENTS}" using Cons.prems by simp_all
  from Cons.IH [OF this] obtain cs where r: "run_state (for_each (\<lambda>i. wsc_resetClient (int i)) is) ?e =
      ((), ?e\<lparr>t_reg := (t_reg ?e)\<lparr>r_ws := (r_ws (t_reg ?e))\<lparr>ws_clients := cs\<rparr>\<rparr>\<rparr>)" "length cs = MAX_CLIENTS"
    "\<forall>j < MAX_CLIENTS. wc_in_use (cs ! j) \<longrightarrow> wc_in_use (ws_clients (r_ws (t_reg ?e)) ! j) \<and> j \<notin> set is" by blast
  have "\<forall>j < MAX_CLIENTS. wc_in_use (cs ! j) \<longrightarrow> wc_in_use (ws_clients (r_ws (t_reg e)) ! j) \<and> j \<notin> set (i # is)"
    using r(3) i Cons.prems(1) by (auto simp: nth_list_update split: if_splits)
  then show ?case using c r(1,2) by (intro exI [of _ cs]) simp
qed

lemma ws_stop_run:
  assumes "length (ws_clients (r_ws (t_reg e))) = MAX_CLIENTS"
  shows "\<exists>n w. run_state (wsc_stop N) e = ((), e\<lparr>t_net := n, t_reg := (t_reg e)\<lparr>r_ws := w\<rparr>\<rparr>) \<and> \<not> ws_started w \<and> \<not> ws_server w \<and>
    (\<forall>j < MAX_CLIENTS. \<not> wc_in_use (ws_clients w ! j))"
proof -
  let ?open = "ws_server (r_ws (t_reg e))"
  let ?n = "if ?open then ws_close (n_websockets N) (t_net e) else t_net e"
  let ?w = "(r_ws (t_reg e))\<lparr>ws_server := False\<rparr>"
  let ?e = "e\<lparr>t_net := ?n, t_reg := (t_reg e)\<lparr>r_ws := ?w\<rparr>\<rparr>"
  have len: "length (ws_clients (r_ws (t_reg ?e))) = MAX_CLIENTS" and sub: "set [0..<MAX_CLIENTS] \<subseteq> {..<MAX_CLIENTS}" using assms by auto
  have same: "\<not> ?open \<Longrightarrow> r_ws (t_reg e) = ?w" by simp
  have first: "run_state (if ?open then do { net_do (ws_close (n_websockets N)); upd_ws (\<lambda>s. s\<lparr>ws_server := False\<rparr>) } else ret ()) e = ((), ?e)"
  proof (cases ?open)
    case False
    then have "?e = e" using same by simp
    then show ?thesis using False by simp
  qed (simp add: net_do_def upd_ws_def)
  obtain cs where r: "run_state (for_each (\<lambda>i. wsc_resetClient (int i)) [0..<MAX_CLIENTS]) ?e =
      ((), ?e\<lparr>t_reg := (t_reg ?e)\<lparr>r_ws := (r_ws (t_reg ?e))\<lparr>ws_clients := cs\<rparr>\<rparr>\<rparr>)"
    "\<forall>j < MAX_CLIENTS. wc_in_use (cs ! j) \<longrightarrow> wc_in_use (ws_clients (r_ws (t_reg ?e)) ! j) \<and> j \<notin> set [0..<MAX_CLIENTS]"
    using ws_reset_all [OF len sub] by blast
  have "run_state (wsc_stop N) e = ((), ?e\<lparr>t_reg := (t_reg ?e)\<lparr>r_ws := (r_ws (t_reg ?e))\<lparr>ws_clients := cs, ws_started := False\<rparr>\<rparr>\<rparr>)"
    using first r(1) by (simp add: wsc_stop_def upd_ws_def split del: if_split)
  then show ?thesis using r(2)
    by (intro exI [of _ ?n] exI [of _ "?w\<lparr>ws_clients := cs, ws_started := False\<rparr>"]) (auto split del: if_split)
qed


definition silent_serial :: "'e BaseSerialInterface" where
  "silent_serial = \<lparr>s_isEnabled = (\<lambda>_. True), s_isConnected = (\<lambda>_. False), s_isWriteBusy = (\<lambda>_. False), s_enable = (\<lambda>e. e), s_disable = (\<lambda>e. e),
     s_writeFrame = (\<lambda>_ e. (0, e)), s_checkRecvFrame = (\<lambda>e. ([], e))\<rparr>"


end
