(* ===== verification/TransportClient.thy ===== *)
theory TransportClient
  imports TransportProps BridgeSync
begin

text \<open>
  The bridge on the transport registry: an app connected to the TCP server over a socket that
  takes bytes, any number at a time, is a client in the sense of \<open>BridgeClient\<close>, so the promises
  of the bridge hold for what the app decodes from the byte stream.
\<close>

section \<open>The app's end of the stream\<close>

text \<open>The frames in a stream of frames as \<open>encodeCompanionTransportFrame\<close> makes them.\<close>

function deframe :: "byte list \<Rightarrow> byte list list" where
  "deframe (m # lo # hi # rest) = take (unat lo + 256 * unat hi) rest # deframe (drop (unat lo + 256 * unat hi) rest)"
| "deframe [] = []"
| "deframe [a] = []"
| "deframe [a, b] = []"
  by pat_completeness auto
termination
  by (relation "measure length") auto

definition framed :: "byte list \<Rightarrow> byte list" where
  "framed d = 0x3E # word_of_nat (length d mod 256) # word_of_nat (length d div 256 mod 256) # d"

lemma deframe_framed: "length d < 65536 \<Longrightarrow> deframe (framed d @ rest) = d # deframe rest"
proof -
  assume "length d < 65536"
  then have "length d div 256 mod 256 = length d div 256" by simp
  then have "unat (word_of_nat (length d mod 256) :: byte) + 256 * unat (word_of_nat (length d div 256 mod 256) :: byte) = length d"
    by (simp add: unat_of_nat_byte)
  then show ?thesis by (simp add: framed_def)
qed

lemma deframe_stream: "list_all (\<lambda>d. length d < 65536) ds \<Longrightarrow> deframe (concat (map framed ds)) = ds"
  by (induction ds) (simp_all add: deframe_framed)

section \<open>A socket that takes bytes\<close>

locale accepting_socket =
  fixes N :: "'n Network" and sock :: nat and tx :: "'n \<Rightarrow> byte list" and up :: "'n \<Rightarrow> bool"
  assumes usable: "up n \<Longrightarrow> n_companionTransportsAllowed N n \<and> n_connected (n_sockets N) sock n \<and> n_writable (n_sockets N) sock n"
    and takes: "up n \<Longrightarrow> d \<noteq> [] \<Longrightarrow> n_write (n_sockets N) sock d n = (k, n') \<Longrightarrow>
      0 < k \<and> k \<le> length d \<and> tx n' = tx n @ take k d \<and> up n'"
begin

lemma writes_all:
  assumes "up n" and "length data \<le> fuel"
  shows "\<exists>n'. tcp_write_loop N sock started fuel data n = Some (True, n') \<and> up n' \<and> tx n' = tx n @ data"
  using assms
proof (induction fuel arbitrary: data n)
  case (Suc fuel)
  show ?case
  proof (cases data)
    case (Cons d ds)
    obtain k n1 where w: "n_write (n_sockets N) sock data n = (k, n1)" by force
    note t = takes [OF Suc.prems(1) _ w]
    have "length (drop k data) < length data" using t Cons by auto
    then have "length (drop k data) \<le> fuel" using Suc.prems(2) by linarith
    then obtain n' where "tcp_write_loop N sock started fuel (drop k data) n1 = Some (True, n')" "up n'" "tx n' = tx n1 @ drop k data"
      using Suc.IH [of n1] t Cons by blast
    then show ?thesis using Cons w t usable [OF Suc.prems(1)] by (simp del: drop_Cons')
  qed (use Suc.prems in simp)
qed simp

end

locale tcp_app = accepting_socket N sock tx up for N :: "'n Network" and sock tx up +
  fixes S :: "'n tenv BaseSerialInterface" and source :: "('n tenv \<Rightarrow> u32) option" and base :: "'n tenv linked"
    and h :: "'n tenv CompanionBridgeHost" and i :: nat and gen :: u32
  assumes slot: "i < MAX_CLIENTS" and generation_set: "gen \<noteq> 0"
    and sizes: "152 \<le> n_MAX_FRAME_SIZE N" "n_MAX_FRAME_SIZE N < 65536"
begin

text \<open>The app's connection is up, and its socket has carried whole frames so far.\<close>

definition online :: "'n tenv \<Rightarrow> bool" where
  "online e \<longleftrightarrow> up (t_net e) \<and> \<not> r_ota_parked (t_reg e) \<and> tcp_started (r_tcp (t_reg e)) \<and> cs_in_use (client_at i e) \<and>
     cs_client (client_at i e) = sock \<and> cs_generation (client_at i e) = gen \<and>
     (\<exists>ds. list_all (\<lambda>d. length d < 65536) ds \<and> tx (t_net e) = concat (map framed ds))"

definition got :: "'n tenv \<Rightarrow> byte list list" where
  "got e = deframe (tx (t_net e))"

lemma online_connected:
  assumes "online e"
  shows "networkTransportsAllowed N e" "tcp_isClientConnected N (int i) e" "valid_index (int i)"
  using assms usable [of "t_net e"] slot
  by (auto simp: online_def networkTransportsAllowed_def tcp_isClientConnected_def valid_index_def Let_def)

lemma online_send:
  assumes "online e" and "0 < length fr" and "length fr \<le> n_MAX_FRAME_SIZE N"
  shows "\<exists>n. run_state (transports_send_to_result N S TCP (int i) fr) e = (True, e\<lparr>t_net := n\<rparr>) \<and> up n \<and> tx n = tx (t_net e) @ framed fr"
proof -
  note c = online_connected [OF assms(1)]
  have up: "up (t_net e)" "tcp_started (r_tcp (t_reg e))" "cs_client (client_at i e) = sock" using assms(1) by (simp_all add: online_def)
  have "length (framed fr) \<le> write_fuel (framed fr)" by (simp add: write_fuel_def)
  then obtain n where n: "tcp_write_loop N sock (n_millis (n_sockets N) (t_net e)) (write_fuel (framed fr)) (framed fr) (t_net e) = Some (True, n)"
    "up n" "tx n = tx (t_net e) @ framed fr" using writes_all [OF up(1)] by blast
  have "encodeCompanionTransportFrame (n_MAX_FRAME_SIZE N) True (n_MAX_FRAME_SIZE N + 3) (Some fr) = Some (framed fr)"
    using assms(2,3) by (simp add: encodeCompanionTransportFrame_def framed_def)
  moreover have "n_companionTransportsAllowed N (t_net e)" "n_connected (n_sockets N) sock (t_net e)" using usable [OF up(1)] by blast+
  ultimately show ?thesis using c up n assms(2,3)
    by (auto simp: transports_send_to_result_def validFrame_def tcp_writeToClient_def tcp_writeBytes_def net_look_def net_def)
qed

lemma online_sent:
  assumes "online e" and "0 < length fr" and "length fr \<le> n_MAX_FRAME_SIZE N"
  shows "fst (run_state (transports_send_to_result N S TCP (int i) fr) e)"
    "got (snd (run_state (transports_send_to_result N S TCP (int i) fr) e)) = got e @ [fr]"
    "online (snd (run_state (transports_send_to_result N S TCP (int i) fr) e))"
proof -
  obtain n where n: "run_state (transports_send_to_result N S TCP (int i) fr) e = (True, e\<lparr>t_net := n\<rparr>)" "up n" "tx n = tx (t_net e) @ framed fr"
    using online_send [OF assms] by blast
  obtain ds where ds: "list_all (\<lambda>d. length d < 65536) ds" "tx (t_net e) = concat (map framed ds)" using assms(1) by (auto simp: online_def)
  have l: "list_all (\<lambda>d. length d < 65536) (ds @ [fr])" and t: "tx n = concat (map framed (ds @ [fr]))" using ds n(3) assms(3) sizes by simp_all
  show "fst (run_state (transports_send_to_result N S TCP (int i) fr) e)" using n(1) by simp
  show "got (snd (run_state (transports_send_to_result N S TCP (int i) fr) e)) = got e @ [fr]"
    using n(1) t deframe_stream [OF l] deframe_stream [OF ds(1)] ds(2) by (simp add: got_def)
  show "online (snd (run_state (transports_send_to_result N S TCP (int i) fr) e))"
    using assms(1) n l t unfolding online_def by (auto simp: client_at_def intro!: exI [of _ "ds @ [fr]"])
qed

end

sublocale tcp_app \<subseteq> client: recording_client "registry_linked N S source base" h TCP "int i" gen got online
  by unfold_locales
    (use online_connected online_sent generation_set sizes in
      \<open>auto simp: registry_linked_def transports_client_connected_def transports_client_generation_def tcp_clientGeneration_def
        networkTransportsAllowed_def online_def\<close>)

section \<open>The message log behind the registry\<close>

record store_net = demo_net +
  dn_store :: "unit mstore"

definition on_net_store :: "(unit mstore \<Rightarrow> 'a \<times> unit mstore) \<Rightarrow> store_net tenv \<Rightarrow> 'a \<times> store_net tenv" where
  "on_net_store f e = (case f (dn_store (t_net e)) of (a, st) \<Rightarrow> (a, e\<lparr>t_net := (t_net e)\<lparr>dn_store := st\<rparr>\<rparr>))"

definition store_base :: "store_net tenv linked" where
  "store_base = \<lparr>l_attached = (\<lambda>_. True), l_client_connected = (\<lambda>_ _ _. False), l_client_generation = (\<lambda>_ _ _. 0), l_current_request = (\<lambda>_. None),
     l_send_to_result = (\<lambda>_ _ _ e. (False, e)), l_broadcast_result = (\<lambda>_ _ e. (False, e)), l_set_enabled = (\<lambda>_ _ e. (False, e)),
     l_transport_enabled = (\<lambda>_ _. False), l_status_connected = (\<lambda>_ _. False), l_companionTransportsAllowed = (\<lambda>_. True),
     l_loadUnsent = (\<lambda>n. on_net_store (store_load n)), l_markCompanionSent = (\<lambda>i. on_net_store (store_mark i)),
     l_MAX_FRAME_SIZE = 172, l_MAX_CONTACTS = 350, l_BUILD_DATE = [], l_FIRMWARE_VERSION = []\<rparr>"

interpretation app: tcp_app demo_network 1 dn_tx "\<lambda>_ :: store_net. True" silent_serial None store_base quiet_host 0 7
  by unfold_locales (auto simp: demo_network_def demo_sockets_def MAX_CLIENTS_def min_def)

abbreviation app_link :: "store_net tenv linked" where
  "app_link \<equiv> registry_linked demo_network silent_serial None store_base"

lemma app_store:
  assumes "app.online e"
  shows "app.online (snd (on_net_store f e))" "app.got (snd (on_net_store f e)) = app.got e"
    "fst (on_net_store f e) = fst (f (dn_store (t_net e)))" "dn_store (t_net (snd (on_net_store f e))) = snd (f (dn_store (t_net e)))"
  using assms unfolding app.online_def app.got_def by (auto simp: on_net_store_def client_at_def split_def)

lemma write_loop_store:
  fixes n :: store_net
  shows "tcp_write_loop demo_network sock st fuel d n = Some (r, n') \<Longrightarrow> dn_store n' = dn_store n"
proof (induction fuel arbitrary: d n)
  case 0
  then show ?case by (cases d) simp_all
next
  case (Suc fuel)
  then show ?case by (cases d) (auto simp: demo_network_def demo_sockets_def Let_def split: if_splits)
qed

lemma send_store:
  fixes e :: "store_net tenv"
  shows "dn_store (t_net (snd (run_state (transports_send_to_result demo_network silent_serial TCP ci fr) e))) = dn_store (t_net e)"
  by (auto simp: transports_send_to_result_def tcp_writeToClient_def tcp_writeBytes_def net_look_def net_def
      split: option.split dest: write_loop_store)

interpretation app_sync: syncing_client app_link quiet_host TCP "int 0" 7 app.got app.online
  store_load store_mark store_ok store_backlog "\<lambda>e. dn_store (t_net e)" no_channel
proof unfold_locales
  fix e n i fr conv assume e: "app.online e"
  show "fst (l_loadUnsent app_link n e) = fst (store_load n (dn_store (t_net e))) \<and>
      dn_store (t_net (snd (l_loadUnsent app_link n e))) = snd (store_load n (dn_store (t_net e))) \<and>
      app.got (snd (l_loadUnsent app_link n e)) = app.got e \<and> app.online (snd (l_loadUnsent app_link n e))"
    using app_store [OF e, of "store_load n"] by (simp add: registry_linked_def store_base_def)
  show "fst (l_markCompanionSent app_link i e) = fst (store_mark i (dn_store (t_net e))) \<and>
      dn_store (t_net (snd (l_markCompanionSent app_link i e))) = snd (store_mark i (dn_store (t_net e))) \<and>
      app.got (snd (l_markCompanionSent app_link i e)) = app.got e \<and> app.online (snd (l_markCompanionSent app_link i e))"
    using app_store [OF e, of "store_mark i"] by (simp add: registry_linked_def store_base_def)
  show "dn_store (t_net (snd (l_send_to_result app_link TCP (int 0) fr e))) = dn_store (t_net e)"
    by (simp add: registry_linked_def send_store)
  show "dn_store (t_net (h_cancelBinaryReqs (h_radio quiet_host) e)) = dn_store (t_net e) \<and>
      app.got (h_cancelBinaryReqs (h_radio quiet_host) e) = app.got e \<and> app.online (h_cancelBinaryReqs (h_radio quiet_host) e)"
    using e by (simp add: quiet_defs)
  show "channel_index (Some quiet_host) e conv = no_channel conv" by (simp add: channel_index_def no_channel_def quiet_defs)
qed

text \<open>The bridge started on the registry, with the app's first poll to come.\<close>

definition app_world :: "store_net tenv" where
  "app_world = \<lparr>t_reg = demo_registry, t_net = \<lparr>dn_tx = [], dn_clock = 0, dn_store = log_of two_messages 3\<rparr>\<rparr>"

lemma app_world_online: "app.online app_world" "app.got app_world = []"
  unfolding app.online_def app.got_def
  by (simp_all add: app_world_def demo_registry_def client_at_def exI [of _ "[]"])

text \<open>
  The whole stack: over the TCP server and the registry, the app decodes from its socket the
  frames of all stored messages and the closing answer.
\<close>

lemma app_receives_backlog:
  assumes "unopened_client app_link quiet_host TCP 0 7 b" and "b_env b = app_world"
  shows "\<exists>b'. run_state (for_each (\<lambda>_. handleTransportFrame [CMD_SYNC_NEXT_MESSAGE] TCP 0 7) [(), ()]) b = ((), b') \<and>
    deframe (dn_tx (t_net (b_env b'))) = [message_frame 172 3 0xFF (stored_message ((sample_message 0x42)\<lparr>sm_store_id := 1\<rparr>)), [RESP_CODE_NO_MORE_MESSAGES]] \<and>
    store_backlog (dn_store (t_net (b_env b'))) = []"
proof -
  let ?m = "stored_message ((sample_message 0x42)\<lparr>sm_store_id := 1\<rparr>)"
  have bl: "[?m] = store_backlog (dn_store (t_net (b_env b)))" "store_ok (dn_store (t_net (b_env b)))"
    using demo_world_log by (simp_all add: assms(2) app_world_def demo_world_def)
  have on: "unopened_client app_link quiet_host TCP (int 0) 7 b \<and> app.online (b_env b)" using assms app_world_online by simp
  have two: "replicate (length [?m] + 1) () = [(), ()]" by simp
  have mfs: "l_MAX_FRAME_SIZE app_link = 172" by (simp add: registry_linked_def demo_network_def)
  obtain b' frames where r: "run_state (for_each (\<lambda>_. handleTransportFrame [CMD_SYNC_NEXT_MESSAGE] TCP (int 0) 7) [(), ()]) b = ((), b')"
    "app.got (b_env b') = app.got (b_env b) @ frames @ [[RESP_CODE_NO_MORE_MESSAGES]]" "mset frames = {#message_frame 172 3 0xFF ?m#}"
    "store_backlog (dn_store (t_net (b_env b'))) = []"
    using app_sync.backlog_drained [OF on bl(2,1), unfolded two mfs no_channel_def] by auto
  have "frames = [message_frame 172 3 0xFF ?m]" using r(3) by (cases frames) auto
  then show ?thesis using r(1,2,4) assms(2) app_world_online(2) unfolding app.got_def by (intro exI [of _ b']) simp
qed

end
