(* ===== verification/SdReplace.thy ===== *)
theory SdReplace
  imports MessageStore
begin

text \<open>
  Replacement of a file on the SD card (\<open>hal/sdcard_replace.h\<close>). New contents are written to a
  temporary file, synchronised, measured, and renamed to a \<open>.ready\<close> file; only a ready file is
  ever promoted to the live name, and an interrupted promotion is completed by the next access.

  The operations of the medium are a record of actions on a state \<open>'c\<close>, like the table of
  function pointers it models; a null pointer is \<open>None\<close>. The paths are the callers' local arrays,
  never null. The locale \<open>replace_medium\<close> states what the protocol relies on, and its lemmas show
  that the contents a file stands for change from the old to the new ones in one step.
\<close>

section \<open>Operations\<close>

datatype RenameResult = Success | DestinationExists | Failure

datatype ReplaceStage = TempOpened | TempWritten | TempSynced | TempClosed | TempValidated | LiveRemoved | TempRenamed

record ('c, 'f) ReplaceOps =
  op_exists :: "(cstring \<Rightarrow> ('c, bool) state) option"
  op_remove :: "(cstring \<Rightarrow> ('c, bool) state) option"
  op_open :: "(cstring \<Rightarrow> ('c, 'f option) state) option"
  op_write :: "('f \<Rightarrow> byte list \<Rightarrow> ('c, nat) state) option"
  op_sync :: "('f \<Rightarrow> ('c, bool) state) option"
  op_size :: "('f \<Rightarrow> ('c, nat option) state) option"
  op_close :: "('f \<Rightarrow> ('c, bool) state) option"
  op_rename :: "(cstring \<Rightarrow> cstring \<Rightarrow> ('c, RenameResult) state) option"
  op_checkpoint :: "(ReplaceStage \<Rightarrow> ('c, bool) state) option"

definition checkpoint :: "('c, 'f) ReplaceOps \<Rightarrow> ReplaceStage \<Rightarrow> ('c, bool) state" where
  "checkpoint ops stage = (case op_checkpoint ops of None \<Rightarrow> ret True | Some f \<Rightarrow> f stage)"

definition promoteValidated :: "cstring \<Rightarrow> cstring \<Rightarrow> ('c, 'f) ReplaceOps \<Rightarrow> ('c, bool) state" where
  "promoteValidated path ready_path ops = do {
     renamed \<leftarrow> the (op_rename ops) ready_path path;
     if renamed = Success then checkpoint ops TempRenamed
     else if renamed \<noteq> DestinationExists then ret False
     else do {
       removed \<leftarrow> the (op_remove ops) path;
       if \<not> removed then ret False
       else do {
         go \<leftarrow> checkpoint ops LiveRemoved;
         if \<not> go then ret False
         else do {
           again \<leftarrow> the (op_rename ops) ready_path path;
           if again \<noteq> Success then ret False else checkpoint ops TempRenamed } } } }"

definition recoverPending :: "cstring \<Rightarrow> cstring \<Rightarrow> cstring \<Rightarrow> ('c, 'f) ReplaceOps \<Rightarrow> ('c, bool) state" where
  "recoverPending path temp_path ready_path ops =
     (if op_exists ops = None \<or> op_remove ops = None \<or> op_rename ops = None then ret False
      else do {
        pending \<leftarrow> the (op_exists ops) ready_path;
        promoted \<leftarrow> (if pending then promoteValidated path ready_path ops else ret True);
        if \<not> promoted then ret False
        else do {
          stale \<leftarrow> the (op_exists ops) temp_path;
          if stale then the (op_remove ops) temp_path else ret True } })"

text \<open>
  The body after \<open>recoverPending\<close>, in the order of the source: the stage that fills and closes the
  temporary file gives \<open>Some ok\<close>, or \<open>None\<close> when a checkpoint stops the function on the spot.
\<close>

definition fill_temp :: "'f \<Rightarrow> byte list \<Rightarrow> ('c, 'f) ReplaceOps \<Rightarrow> ('c, bool option) state" where
  "fill_temp file data ops = do {
     n \<leftarrow> (if data = [] then ret 0 else the (op_write ops) file data);
     let wrote = (n = length data);
     go \<leftarrow> checkpoint ops TempWritten;
     if \<not> go then ret None
     else if \<not> wrote then do { _ \<leftarrow> the (op_close ops) file; ret (Some False) }
     else do {
       synced \<leftarrow> the (op_sync ops) file;
       go \<leftarrow> checkpoint ops TempSynced;
       if \<not> go then ret None
       else do {
         actual_size \<leftarrow> (if synced then the (op_size ops) file else ret None);
         closed \<leftarrow> the (op_close ops) file;
         go \<leftarrow> checkpoint ops TempClosed;
         if \<not> go then ret None else ret (Some (actual_size = Some (length data) \<and> closed)) } } }"

definition replaceFile :: "cstring \<Rightarrow> cstring \<Rightarrow> cstring \<Rightarrow> byte list \<Rightarrow> ('c, 'f) ReplaceOps \<Rightarrow> ('c, bool) state" where
  "replaceFile path temp_path ready_path data ops =
     (if op_exists ops = None \<or> op_remove ops = None \<or> op_open ops = None \<or> op_write ops = None \<or> op_sync ops = None \<or>
         op_size ops = None \<or> op_close ops = None \<or> op_rename ops = None then ret False
      else do {
        recovered \<leftarrow> recoverPending path temp_path ready_path ops;
        if \<not> recovered then ret False
        else do {
          opened \<leftarrow> the (op_open ops) temp_path;
          case opened of
            None \<Rightarrow> ret False
          | Some file \<Rightarrow> do {
              go \<leftarrow> checkpoint ops TempOpened;
              if \<not> go then ret False
              else do {
                filled \<leftarrow> fill_temp file data ops;
                case filled of
                  None \<Rightarrow> ret False
                | Some False \<Rightarrow> do { _ \<leftarrow> the (op_remove ops) temp_path; ret False }
                | Some True \<Rightarrow> do {
                    renamed \<leftarrow> the (op_rename ops) temp_path ready_path;
                    if renamed \<noteq> Success then ret False
                    else do {
                      go \<leftarrow> checkpoint ops TempValidated;
                      if \<not> go then ret False else promoteValidated path ready_path ops } } } } } })"

section \<open>Contract of the medium\<close>

text \<open>
  The contents a file stands for: a ready file takes precedence over the live one, because the
  next access promotes it.
\<close>

definition current :: "cstring \<Rightarrow> cstring \<Rightarrow> flash \<Rightarrow> byte list option" where
  "current path ready_path fs = (case fs ready_path of None \<Rightarrow> fs path | Some d \<Rightarrow> Some d)"

text \<open>
  What the protocol relies on. Renaming is atomic; a removal removes the file or does nothing,
  whatever it reports; operations on a stream touch its file only; a successful synchronisation
  leaves nothing buffered and a prefix of the accepted bytes in the file; a measured size is the
  file's. Nothing is assumed about which calls succeed.
\<close>

locale replace_medium =
  fixes ops :: "('c, 'f) ReplaceOps"
    and files :: "'c \<Rightarrow> flash"
    and trail :: "'c \<Rightarrow> flash list"
    and streaming :: "'f \<Rightarrow> cstring \<Rightarrow> byte list \<Rightarrow> 'c \<Rightarrow> bool"
    and settled :: "'f \<Rightarrow> 'c \<Rightarrow> bool"
    and exists_fn remove_fn open_fn write_fn sync_fn size_fn close_fn rename_fn
  assumes ops_are: "ops = \<lparr>op_exists = Some exists_fn, op_remove = Some remove_fn, op_open = Some open_fn, op_write = Some write_fn,
      op_sync = Some sync_fn, op_size = Some size_fn, op_close = Some close_fn, op_rename = Some rename_fn, op_checkpoint = None\<rparr>"
    and exists_law: "run_state (exists_fn p) c = (r, c') \<Longrightarrow> files c' = files c \<and> trail c' = trail c \<and> (r \<longrightarrow> files c p \<noteq> None)"
    and remove_law: "run_state (remove_fn p) c = (r, c') \<Longrightarrow>
      files c' = files c \<and> trail c' = trail c \<or> files c' = (files c)(p := None) \<and> trail c' = trail c @ [files c']"
    and rename_done: "run_state (rename_fn p q) c = (Success, c') \<Longrightarrow>
      files c p \<noteq> None \<and> files c' = (files c)(q := files c p, p := None) \<and> trail c' = trail c @ [files c']"
    and rename_refused: "run_state (rename_fn p q) c = (res, c') \<Longrightarrow> res \<noteq> Success \<Longrightarrow> files c' = files c \<and> trail c' = trail c"
    and open_law: "run_state (open_fn p) c = (opened, c') \<Longrightarrow>
      (\<exists>ss. trail c' = trail c @ ss \<and> (\<forall>fs \<in> set (files c' # ss). \<forall>q. q \<noteq> p \<longrightarrow> fs q = files c q)) \<and>
      (\<forall>f. opened = Some f \<longrightarrow> streaming f p [] c')"
    and write_law: "streaming f p d c \<Longrightarrow> run_state (write_fn f data) c = (k, c') \<Longrightarrow>
      (\<exists>ss. trail c' = trail c @ ss \<and> (\<forall>fs \<in> set (files c' # ss). \<forall>q. q \<noteq> p \<longrightarrow> fs q = files c q)) \<and>
      (\<exists>d'. streaming f p d' c' \<and> (k = length data \<longrightarrow> d' = d @ data))"
    and sync_law: "streaming f p d c \<Longrightarrow> run_state (sync_fn f) c = (r, c') \<Longrightarrow>
      (\<exists>ss. trail c' = trail c @ ss \<and> (\<forall>fs \<in> set (files c' # ss). \<forall>q. q \<noteq> p \<longrightarrow> fs q = files c q)) \<and>
      (\<exists>d'. streaming f p d' c') \<and> (r \<longrightarrow> settled f c' \<and> (\<exists>k. files c' p = Some (take k d)))"
    and size_law: "streaming f p d c \<Longrightarrow> run_state (size_fn f) c = (measured, c') \<Longrightarrow>
      files c' = files c \<and> trail c' = trail c \<and> (\<exists>d'. streaming f p d' c') \<and> (settled f c \<longrightarrow> settled f c') \<and>
      (\<forall>n x. measured = Some n \<longrightarrow> files c p = Some x \<longrightarrow> n = length x)"
    and close_law: "streaming f p d c \<Longrightarrow> run_state (close_fn f) c = (r, c') \<Longrightarrow>
      (\<exists>ss. trail c' = trail c @ ss \<and> (\<forall>fs \<in> set (files c' # ss). \<forall>q. q \<noteq> p \<longrightarrow> fs q = files c q)) \<and>
      (settled f c \<longrightarrow> files c' = files c \<and> trail c' = trail c)"
begin

text \<open>From \<open>c\<close> to \<open>c'\<close> the medium passes through states that satisfy \<open>P\<close>.\<close>

definition through :: "(flash \<Rightarrow> bool) \<Rightarrow> 'c \<Rightarrow> 'c \<Rightarrow> bool" where
  "through P c c' \<longleftrightarrow> (\<exists>ss. trail c' = trail c @ ss \<and> (\<forall>fs \<in> set (files c' # ss). P fs))"

definition only :: "cstring \<Rightarrow> 'c \<Rightarrow> 'c \<Rightarrow> bool" where
  "only p c c' \<longleftrightarrow> through (\<lambda>fs. \<forall>q. q \<noteq> p \<longrightarrow> fs q = files c q) c c'"

lemma throughI_still: "P (files c) \<Longrightarrow> files c' = files c \<and> trail c' = trail c \<Longrightarrow> through P c c'"
  unfolding through_def by (intro exI [of _ "[]"]) simp

lemma through_trans: "through P c c1 \<Longrightarrow> through P c1 c2 \<Longrightarrow> through P c c2"
proof -
  assume "through P c c1" and "through P c1 c2"
  then obtain ss ts where "trail c1 = trail c @ ss" "trail c2 = trail c1 @ ts" "\<forall>fs \<in> set ss. P fs" "\<forall>fs \<in> set (files c2 # ts). P fs"
    unfolding through_def by auto
  then show ?thesis unfolding through_def by (intro exI [of _ "ss @ ts"]) auto
qed

lemma through_mono: "through P c c' \<Longrightarrow> (\<And>fs. P fs \<Longrightarrow> Q fs) \<Longrightarrow> through Q c c'"
  unfolding through_def by blast

lemma through_end: "through P c c' \<Longrightarrow> P (files c')"
  unfolding through_def by auto

lemma through_only: "only p c c' \<Longrightarrow> P (files c) \<Longrightarrow> (\<And>fs fs'. \<forall>q. q \<noteq> p \<longrightarrow> fs q = fs' q \<Longrightarrow> P fs \<Longrightarrow> P fs') \<Longrightarrow> through P c c'"
  unfolding only_def by (erule through_mono) metis

lemma only_remove: "run_state (remove_fn p) c = (r, c') \<Longrightarrow> only p c c'"
  using remove_law [of p c r c'] unfolding only_def through_def by auto

lemma only_still: "files c' = files c \<and> trail c' = trail c \<Longrightarrow> only p c c'"
  unfolding only_def by (rule throughI_still) auto

lemma only_trans: "only p c c1 \<Longrightarrow> only p c1 c2 \<Longrightarrow> only p c c2"
proof -
  assume 1: "only p c c1" and 2: "only p c1 c2"
  have "\<forall>q. q \<noteq> p \<longrightarrow> files c1 q = files c q" using 1 unfolding only_def by (rule through_end)
  then have "through (\<lambda>fs. \<forall>q. q \<noteq> p \<longrightarrow> fs q = files c q) c1 c2"
    using 2 unfolding only_def by (elim through_mono) simp
  then show ?thesis using 1 unfolding only_def by (rule through_trans [rotated])
qed

lemma ops_fields: "op_exists ops = Some exists_fn" "op_remove ops = Some remove_fn" "op_open ops = Some open_fn" "op_write ops = Some write_fn"
  "op_sync ops = Some sync_fn" "op_size ops = Some size_fn" "op_close ops = Some close_fn" "op_rename ops = Some rename_fn"
  "checkpoint ops stage = ret True"
  by (simp_all add: ops_are checkpoint_def)

lemmas fill_temp_code = fill_temp_def [of _ _ ops, unfolded ops_fields option.sel]
lemmas promote_code = promoteValidated_def [of _ _ ops, unfolded ops_fields option.sel]
lemmas recover_code = recoverPending_def [of _ _ _ ops, unfolded ops_fields option.sel]
lemmas replace_code = replaceFile_def [of _ _ _ _ ops, unfolded ops_fields option.sel]

text \<open>Filling touches the temporary file only, and reports success when it holds the data.\<close>

lemma fill_temp_run:
  assumes "streaming file temp [] c" and "run_state (fill_temp file data ops) c = (filled, c')"
  shows "only temp c c' \<and> filled \<noteq> None \<and> (filled = Some True \<longrightarrow> files c' temp = Some data)"
proof -
  obtain n c1 where 1: "run_state (if data = [] then ret 0 else write_fn file data) c = (n, c1)" by force
  have w: "only temp c c1 \<and> (\<exists>d. streaming file temp d c1 \<and> (n = length data \<longrightarrow> d = data))"
  proof (cases "data = []")
    case True then show ?thesis using 1 assms(1) by (auto intro: only_still)
  next
    case False then show ?thesis using 1 write_law [OF assms(1), of data n c1] by (auto simp: only_def through_def)
  qed
  then obtain d where d: "streaming file temp d c1" "n = length data \<longrightarrow> d = data" by blast
  show ?thesis
  proof (cases "n = length data")
    case False
    obtain x c2 where 2: "run_state (close_fn file) c1 = (x, c2)" by force
    have "only temp c1 c2" using close_law [OF d(1) 2] by (auto simp: only_def through_def)
    moreover have "filled = Some False" "c' = c2"
      using assms(2) 1 2 False by (simp_all add: fill_temp_code)
    ultimately show ?thesis using w only_trans by auto
  next
    case True
    obtain synced c2 where 2: "run_state (sync_fn file) c1 = (synced, c2)" by force
    note s = sync_law [OF d(1) 2]
    then obtain d2 where d2: "streaming file temp d2 c2" by blast
    obtain sz c3 where 3: "run_state (if synced then size_fn file else ret None) c2 = (sz, c3)" by force
    have z: "files c3 = files c2 \<and> trail c3 = trail c2 \<and> (\<exists>d3. streaming file temp d3 c3)"
      and z': "synced \<Longrightarrow> settled file c2 \<longrightarrow> settled file c3" "synced \<Longrightarrow> \<forall>n x. sz = Some n \<longrightarrow> files c2 temp = Some x \<longrightarrow> n = length x"
      using 3 size_law [OF d2, of sz c3] d2 by (auto split: if_splits)
    then obtain d3 where d3: "streaming file temp d3 c3" by blast
    obtain closed c4 where 4: "run_state (close_fn file) c3 = (closed, c4)" by force
    note c = close_law [OF d3 4]
    have r: "filled = Some (sz = Some (length data) \<and> closed)" "c' = c4"
      using assms(2) 1 2 3 4 True by (auto simp: fill_temp_code)
    have o: "only temp c1 c2" "only temp c2 c3" "only temp c3 c4" using s z c by (auto simp: only_def through_def only_still [unfolded only_def through_def])
    have "files c4 temp = Some data" if f: "filled = Some True"
    proof -
      have "synced" using f r 3 by (auto split: if_splits)
      then obtain k where k: "files c2 temp = Some (take k data)" and "settled file c2" using s d(2) True by auto
      then have "files c4 = files c2" using c z z'(1) \<open>synced\<close> by simp
      moreover have "length data = length (take k data)" using z'(2) [OF \<open>synced\<close>] f r k by simp
      ultimately show ?thesis using k by simp
    qed
    then show ?thesis using w o r only_trans by blast
  qed
qed

text \<open>The states a promotion or recovery may pass through: the contents stay, other files too.\<close>

definition steady :: "cstring \<Rightarrow> cstring \<Rightarrow> cstring \<Rightarrow> flash \<Rightarrow> flash \<Rightarrow> bool" where
  "steady live temp ready fs0 fs \<longleftrightarrow> current live ready fs = current live ready fs0 \<and> (\<forall>q. q \<notin> {live, temp, ready} \<longrightarrow> fs q = fs0 q)"

lemma steady_refl: "steady live temp ready fs fs"
  by (simp add: steady_def)

lemma steady_trans: "steady live temp ready fs0 fs1 \<Longrightarrow> steady live temp ready fs1 fs2 \<Longrightarrow> steady live temp ready fs0 fs2"
  by (simp add: steady_def)

lemma steady_temp:
  assumes "live \<noteq> temp" and "temp \<noteq> ready" and "only temp c c'"
  shows "through (steady live temp ready (files c)) c c'"
  using assms(3) unfolding only_def by (elim through_mono) (use assms(1,2) in \<open>simp add: steady_def current_def split: option.split\<close>)

lemma steady_through: "through (steady live temp ready fs0) c c1 \<Longrightarrow> through (steady live temp ready (files c1)) c1 c2 \<Longrightarrow>
  through (steady live temp ready fs0) c c2"
  by (rule through_trans, assumption, erule through_mono) (rule steady_trans [OF through_end [of "steady live temp ready fs0"]])

lemma rename_ready:
  assumes "live \<noteq> ready" and "run_state (rename_fn ready live) c = (Success, c')"
  shows "through (steady live temp ready (files c)) c c' \<and> files c' ready = None \<and> files c' live = current live ready (files c)"
  using rename_done [OF assms(2)] assms(1) unfolding through_def steady_def current_def by auto

lemma promote_run:
  assumes "live \<noteq> ready" and "files c ready \<noteq> None" and "run_state (promoteValidated live ready ops) c = (r, c')"
  shows "through (steady live temp ready (files c)) c c' \<and> (r \<longrightarrow> files c' ready = None \<and> files c' live = current live ready (files c))"
proof -
  obtain x c1 where 1: "run_state (rename_fn ready live) c = (x, c1)" by force
  show ?thesis
  proof (cases "x = Success")
    case True
    then show ?thesis using rename_ready [OF assms(1)] 1 assms(3) by (simp add: promote_code)
  next
    case False
    note s1 = rename_refused [OF 1 False]
    then have t1: "through (steady live temp ready (files c)) c c1" by (intro throughI_still) (simp_all add: steady_refl)
    obtain g c2 where 2: "run_state (remove_fn live) c1 = (g, c2)" by force
    have t2: "through (steady live temp ready (files c1)) c1 c2"
      using only_remove [OF 2] unfolding only_def by (elim through_mono) (use assms(1,2) s1 in \<open>auto simp: steady_def current_def\<close>)
    have k2: "current live ready (files c2) = current live ready (files c)"
      using through_end [OF t2] s1 by (simp add: steady_def)
    obtain y c3 where 3: "run_state (rename_fn ready live) c2 = (y, c3)" by force
    have t3: "through (steady live temp ready (files c2)) c2 c3"
      by (cases "y = Success") (use rename_ready [OF assms(1)] 3 in blast, use rename_refused [OF 3] throughI_still steady_refl in blast)
    have ok: "y = Success \<Longrightarrow> files c3 ready = None \<and> files c3 live = current live ready (files c)"
      using rename_ready [OF assms(1), of c2 c3] 3 k2 by simp
    consider "r = False" "c' = c1" | "r = False" "c' = c2" | "r = (y = Success)" "c' = c3"
      using assms(3) 1 2 3 False by (simp add: promote_code split: if_splits)
    then show ?thesis
      by cases (use t1 t2 t3 ok steady_through in blast)+
  qed
qed

lemma recover_run:
  assumes "distinct [live, temp, ready]" and "run_state (recoverPending live temp ready ops) c = (r, c')"
  shows "through (steady live temp ready (files c)) c c'"
proof -
  obtain e c1 where 1: "run_state (exists_fn ready) c = (e, c1)" by force
  note x1 = exists_law [OF 1]
  have t1: "through (steady live temp ready (files c)) c c1" using x1 by (intro throughI_still) (simp_all add: steady_refl)
  obtain p c2 where 2: "run_state (if e then promoteValidated live ready ops else ret True) c1 = (p, c2)" by force
  have t2: "through (steady live temp ready (files c1)) c1 c2"
  proof (cases e)
    case True then show ?thesis using promote_run [of live ready c1 p c2] 2 x1 assms(1) by simp
  next
    case False then show ?thesis using 2 by (intro throughI_still) (simp_all add: steady_refl)
  qed
  obtain g c3 where 3: "run_state (exists_fn temp) c2 = (g, c3)" by force
  have t3: "through (steady live temp ready (files c2)) c2 c3"
    using exists_law [OF 3] by (intro throughI_still) (simp_all add: steady_refl)
  obtain d c4 where 4: "run_state (remove_fn temp) c3 = (d, c4)" by force
  have t4: "through (steady live temp ready (files c3)) c3 c4" using steady_temp [OF _ _ only_remove [OF 4]] assms(1) by simp
  have "c' = c2 \<or> c' = c3 \<or> c' = c4"
    using assms(2) 1 2 3 4 by (auto simp: recover_code split: if_splits)
  then show ?thesis using t1 t2 t3 t4 steady_through by blast
qed

text \<open>
  Replacement: in every state the contents are the old or the new ones, and a successful
  replacement has left the new ones under the live name with nothing to promote.
\<close>

definition swapping :: "cstring \<Rightarrow> cstring \<Rightarrow> cstring \<Rightarrow> flash \<Rightarrow> byte list \<Rightarrow> flash \<Rightarrow> bool" where
  "swapping live temp ready fs0 data fs \<longleftrightarrow>
     (current live ready fs = current live ready fs0 \<or> current live ready fs = Some data) \<and> (\<forall>q. q \<notin> {live, temp, ready} \<longrightarrow> fs q = fs0 q)"

lemma swapping_steady: "steady live temp ready fs0 fs \<Longrightarrow> swapping live temp ready fs0 data fs"
  by (simp add: steady_def swapping_def)

lemma swapping_new: "steady live temp ready fs1 fs \<Longrightarrow> current live ready fs1 = Some data \<Longrightarrow> swapping live temp ready fs0 data fs1 \<Longrightarrow>
  swapping live temp ready fs0 data fs"
  by (auto simp: steady_def swapping_def)

lemma replace_run:
  assumes dis: "distinct [live, temp, ready]" and run: "run_state (replaceFile live temp ready data ops) c = (r, c')"
  shows "through (swapping live temp ready (files c) data) c c' \<and> (r \<longrightarrow> files c' live = Some data \<and> files c' ready = None)"
proof -
  let ?S = "steady live temp ready" and ?W = "swapping live temp ready (files c) data"
  have lt: "live \<noteq> temp" "temp \<noteq> ready" "live \<noteq> ready" using dis by auto
  obtain x c1 where 1: "run_state (recoverPending live temp ready ops) c = (x, c1)" by force
  have t1: "through (?S (files c)) c c1" by (rule recover_run [OF dis 1])
  obtain opened c2 where 2: "run_state (open_fn temp) c1 = (opened, c2)" by force
  have "only temp c1 c2" using open_law [OF 2] by (simp add: only_def through_def)
  then have t2: "through (?S (files c)) c c2" using t1 steady_temp [OF lt(1,2)] steady_through by blast
  show ?thesis
  proof (cases "x \<and> opened \<noteq> None")
    case False
    then have "\<not> r \<and> (c' = c1 \<or> c' = c2)" using run 1 2 by (cases x) (auto simp: replace_code)
    then show ?thesis using t1 t2 by (auto intro: through_mono swapping_steady)
  next
    case True
    then obtain f where f: "opened = Some f" by auto
    obtain filled c3 where 3: "run_state (fill_temp f data ops) c2 = (filled, c3)" by force
    have str: "streaming f temp [] c2" using open_law [OF 2] f by simp
    note fr = fill_temp_run [OF str 3]
    then have t3: "through (?S (files c)) c c3" using t2 steady_temp [OF lt(1,2)] steady_through by blast
    show ?thesis
    proof (cases "filled = Some True")
      case False
      then have fl: "filled = Some False" using fr by auto
      obtain g c4 where 4: "run_state (remove_fn temp) c3 = (g, c4)" by force
      have "through (?S (files c)) c c4" using t3 steady_temp [OF lt(1,2) only_remove [OF 4]] steady_through by blast
      moreover have "\<not> r \<and> c' = c4" using run 1 2 3 4 True f fl by (auto simp: replace_code)
      ultimately show ?thesis by (auto intro: through_mono swapping_steady)
    next
      case filled: True
      obtain y c4 where 4: "run_state (rename_fn temp ready) c3 = (y, c4)" by force
      show ?thesis
      proof (cases "y = Success")
        case False
        then have "\<not> r \<and> c' = c4" "files c4 = files c3 \<and> trail c4 = trail c3"
          using run 1 2 3 4 True f filled rename_refused [OF 4] by (auto simp: replace_code)
        then show ?thesis using t3 by (auto simp: through_def intro: swapping_steady)
      next
        case renamed: True
        have fs4: "files c4 = (files c3)(ready := Some data, temp := None)" "trail c4 = trail c3 @ [files c4]"
          using rename_done [of temp ready c3 c4] 4 renamed fr filled by auto
        have w4: "?W (files c4)"
          using through_end [OF t3] lt unfolding fs4 by (auto simp: swapping_def steady_def current_def)
        have t4: "through ?W c c4"
          using t3 w4 fs4 swapping_steady [of live temp ready "files c" _ data] by (auto simp: through_def)
        have cur: "current live ready (files c4) = Some data" "files c4 ready \<noteq> None" using fs4 lt by (auto simp: current_def)
        have 5: "run_state (promoteValidated live ready ops) c4 = (r, c')"
          using run 1 2 3 4 True f filled renamed by (auto simp: replace_code)
        note p = promote_run [OF lt(3) cur(2) 5, of temp]
        then have "through ?W c4 c'" using swapping_new [OF _ cur(1) w4] by (auto intro: through_mono)
        then show ?thesis using through_trans [OF t4] p cur(1) by auto
      qed
    qed
  qed
qed

end

end
