(* ===== verification/SdCard.thy ===== *)
theory SdCard
  imports SdReplace
begin

text \<open>
  The SD card (\<open>hal/sdcard.cpp\<close>, \<open>hal/sdcard.h\<close>): mounting with bounded retries, the drop of the mount on
  a media error, path handling, and the file operations that the message log and other users call.

  The card is a map from paths to contents; \<open>sd_trail\<close> collects the states it passes through, down
  to single bytes of a write, for reasoning about power failure. Every call of the platform (the
  bus arbiter, POSIX, stdio, the Arduino SD object) takes the next outcome of the sequence \<open>sd_io\<close>:
  whether it fails and with which error, how many buffered bytes reach the card, whether a rename
  may replace its destination, what a directory query answers, whether
  the heap has room. After a media error the file
  system is unmounted, so every later call on it fails. The directory tree is not tracked. The
  code has at most one output stream open at a time; the bytes it has accepted that are not on the
  card yet are \<open>sd_pending\<close>, and \<open>sd_pos\<close> is where they go. A successful flush may still lose the tail
  of the data, as a worn card does; the size check of the replacement protocol is there for it.
  Delays and the bus set-up have no effect on this state. Left out: directory listings and the
  texts for the user interface.
\<close>

section \<open>Errors, capacity and diagnostics\<close>

datatype errno = ENOENT | EEXIST | ENOTEMPTY | EIO | ENODEV | ENXIO | ENOMEDIUM | EREMOTEIO | ESHUTDOWN | EOTHER

definition isMediaLossError :: "errno \<Rightarrow> bool" where
  "isMediaLossError e \<longleftrightarrow> e = EIO \<or> e = ENODEV \<or> e = ENXIO \<or> e = ENOMEDIUM \<or> e = EREMOTEIO \<or> e = ESHUTDOWN"

record CapacityCache =
  total_bytes :: "64 word"
  free_bytes :: "64 word"
  cap_valid :: bool
  cap_dirty :: bool

definition cap_clear :: CapacityCache where
  "cap_clear = \<lparr>total_bytes = 0, free_bytes = 0, cap_valid = False, cap_dirty = True\<rparr>"

definition cap_invalidate :: "CapacityCache \<Rightarrow> CapacityCache" where
  "cap_invalidate c = c\<lparr>cap_valid := False, cap_dirty := True\<rparr>"

definition cap_update :: "64 word \<Rightarrow> 64 word \<Rightarrow> CapacityCache \<Rightarrow> bool \<times> CapacityCache" where
  "cap_update tot used c =
     (if tot = 0 \<or> used > tot then (False, cap_invalidate c)
      else (True, \<lparr>total_bytes = tot, free_bytes = tot - used, cap_valid = True, cap_dirty = False\<rparr>))"

datatype SigurdosSdMountSource = SOURCE_NONE | SOURCE_INIT | SOURCE_RETRY
datatype SigurdosSdMountError = ERROR_NONE | BEGIN_FAILED | RETRIES_EXHAUSTED | MEDIA_LOST | CAPACITY_QUERY_FAILED

record SigurdosSdMountDiagnostic =
  di_mounted :: bool
  di_capacity_valid :: bool
  di_attempt_count :: byte
  di_last_source :: SigurdosSdMountSource
  di_last_error :: SigurdosSdMountError
  di_last_backoff_ms :: u32

section \<open>State and platform calls\<close>

record sd_outcome =
  so_lock :: bool
  so_err :: "errno option"
  so_room :: nat
  so_over :: bool
  so_dir :: bool
  so_mem :: bool
  so_fill :: byte
  so_bytes :: "64 word"

record sdcard =
  sd_mounted :: bool
  sd_bus_reset_locked :: bool
  sd_capacity_cache :: CapacityCache
  sd_retry_count :: nat
  sd_diag :: SigurdosSdMountDiagnostic
  sd_pending :: "byte list"
  sd_pos :: nat
  sd_files :: flash
  sd_trail :: "flash list"
  sd_io :: "nat \<Rightarrow> sd_outcome"
  sd_tick :: nat

type_synonym 'a sd = "(sdcard, 'a) state"

text \<open>The next outcome, with the error the call ends in: on an unmounted file system it always fails.\<close>

definition sd_call :: "(sd_outcome \<times> errno option) sd" where
  "sd_call = State (\<lambda>s. let r = sd_io s (sd_tick s)
     in ((r, if sd_mounted s then so_err r else Some (case so_err r of None \<Rightarrow> ENOENT | Some e \<Rightarrow> e)), s\<lparr>sd_tick := sd_tick s + 1\<rparr>))"

definition sd_steps :: "flash list \<Rightarrow> unit sd" where
  "sd_steps states = modify (\<lambda>s. s\<lparr>sd_files := (if states = [] then sd_files s else last states), sd_trail := sd_trail s @ states\<rparr>)"

text \<open>\<open>SigurdosSharedSpiGuard\<close>: the operation gives up when the bus is not free in time.\<close>

definition with_bus :: "'a \<Rightarrow> 'a sd \<Rightarrow> 'a sd" where
  "with_bus otherwise act = do { (r, _) \<leftarrow> sd_call; if so_lock r then act else ret otherwise }"

definition sdcard_note_io_failure :: "errno \<Rightarrow> unit sd" where
  "sdcard_note_io_failure e = modify (\<lambda>s.
     if \<not> sd_mounted s \<or> \<not> isMediaLossError e then s
     else s\<lparr>sd_mounted := False, sd_retry_count := 0, sd_capacity_cache := (sd_capacity_cache s)\<lparr>cap_valid := False, cap_dirty := True\<rparr>,
            sd_diag := (sd_diag s)\<lparr>di_mounted := False, di_capacity_valid := False, di_last_error := MEDIA_LOST, di_last_backoff_ms := 0\<rparr>\<rparr>)"

definition invalidate_capacity :: "unit sd" where
  "invalidate_capacity = modify (\<lambda>s. s\<lparr>sd_capacity_cache := cap_invalidate (sd_capacity_cache s)\<rparr>)"

text \<open>A failed call is noted with its error; \<open>err\<close> is \<open>None\<close> after success.\<close>

definition noting :: "errno option \<Rightarrow> bool sd" where
  "noting err = (case err of None \<Rightarrow> ret True | Some e \<Rightarrow> do { sdcard_note_io_failure e; ret False })"

section \<open>POSIX and stdio\<close>

definition stat_file :: "cstring \<Rightarrow> errno option sd" where
  "stat_file path = do {
     (_, err) \<leftarrow> sd_call;
     fs \<leftarrow> gets sd_files;
     ret (case err of Some e \<Rightarrow> Some e | None \<Rightarrow> if fs path = None then Some ENOENT else None) }"

definition remove_file :: "cstring \<Rightarrow> errno option sd" where
  "remove_file path = do {
     (_, err) \<leftarrow> sd_call;
     fs \<leftarrow> gets sd_files;
     case err of
       Some e \<Rightarrow> ret (Some e)
     | None \<Rightarrow> if fs path = None then ret (Some ENOENT) else do { sd_steps [fs(path := None)]; ret None } }"

definition rename_file :: "cstring \<Rightarrow> cstring \<Rightarrow> errno option sd" where
  "rename_file src dst = do {
     (r, err) \<leftarrow> sd_call;
     fs \<leftarrow> gets sd_files;
     case err of
       Some e \<Rightarrow> ret (Some e)
     | None \<Rightarrow>
         if fs src = None then ret (Some ENOENT)
         else if fs dst \<noteq> None \<and> \<not> so_over r then ret (Some EEXIST)
         else do { sd_steps [fs(dst := fs src, src := None)]; ret None } }"

text \<open>Opening for reading gives the contents; opening for writing creates the file or empties it.\<close>

definition fopen_read :: "cstring \<Rightarrow> (errno + byte list) sd" where
  "fopen_read path = do {
     (_, err) \<leftarrow> sd_call;
     fs \<leftarrow> gets sd_files;
     ret (case err of Some e \<Rightarrow> Inl e | None \<Rightarrow> (case fs path of None \<Rightarrow> Inl ENOENT | Some d \<Rightarrow> Inr d)) }"

definition open_trunc :: "cstring \<Rightarrow> errno option sd" where
  "open_trunc path = do {
     (_, err) \<leftarrow> sd_call;
     fs \<leftarrow> gets sd_files;
     case err of
       Some e \<Rightarrow> ret (Some e)
     | None \<Rightarrow> do { sd_steps [fs(path \<mapsto> [])]; modify (\<lambda>s. s\<lparr>sd_pending := [], sd_pos := 0\<rparr>); ret None } }"

definition open_update :: "cstring \<Rightarrow> errno option sd" where
  "open_update path = do {
     (_, err) \<leftarrow> sd_call;
     fs \<leftarrow> gets sd_files;
     case err of
       Some e \<Rightarrow> ret (Some e)
     | None \<Rightarrow> if fs path = None then ret (Some ENOENT)
               else do { modify (\<lambda>s. s\<lparr>sd_pending := [], sd_pos := 0\<rparr>); ret None } }"

definition open_append :: "cstring \<Rightarrow> errno option sd" where
  "open_append path = do {
     (_, err) \<leftarrow> sd_call;
     fs \<leftarrow> gets sd_files;
     case err of
       Some e \<Rightarrow> ret (Some e)
     | None \<Rightarrow> do {
         (case fs path of None \<Rightarrow> sd_steps [fs(path \<mapsto> [])] | Some _ \<Rightarrow> ret ());
         modify (\<lambda>s. s\<lparr>sd_pending := [], sd_pos := (case fs path of None \<Rightarrow> 0 | Some d \<Rightarrow> length d)\<rparr>);
         ret None } }"

text \<open>The first \<open>k\<close> pending bytes reach the card, one after the other; a hole before them is filled with \<open>fill\<close>.\<close>

definition put_at :: "byte list \<Rightarrow> nat \<Rightarrow> byte \<Rightarrow> byte list \<Rightarrow> byte list" where
  "put_at d pos fill bs = overwrite (d @ replicate (pos - length d) fill) pos bs"

definition drain :: "cstring \<Rightarrow> nat \<Rightarrow> byte \<Rightarrow> unit sd" where
  "drain path k fill = do {
     s \<leftarrow> gets (\<lambda>s. s);
     (case sd_files s path of
        None \<Rightarrow> ret ()
      | Some d \<Rightarrow> sd_steps (map (\<lambda>j. (sd_files s)(path \<mapsto> put_at d (sd_pos s) fill (take j (sd_pending s)))) [1..<min k (length (sd_pending s)) + 1]));
     modify (\<lambda>s. s\<lparr>sd_pos := sd_pos s + min k (length (sd_pending s)), sd_pending := drop k (sd_pending s)\<rparr>) }"

definition fwrite_out :: "cstring \<Rightarrow> byte list \<Rightarrow> (nat \<times> errno) sd" where
  "fwrite_out path data = do {
     (r, err) \<leftarrow> sd_call;
     mounted \<leftarrow> gets sd_mounted;
     let n = (if err = None then length data else min (so_room r) (length data - 1));
     modify (\<lambda>s. s\<lparr>sd_pending := sd_pending s @ take n data\<rparr>);
     (if mounted then drain path (so_room r) (so_fill r) else ret ());
     ret (n, case err of None \<Rightarrow> EOTHER | Some e \<Rightarrow> e) }"

definition fflush_out :: "cstring \<Rightarrow> errno option sd" where
  "fflush_out path = do {
     (r, err) \<leftarrow> sd_call;
     mounted \<leftarrow> gets sd_mounted;
     (if mounted then drain path (so_room r) (so_fill r) else ret ());
     (if err = None then modify (\<lambda>s. s\<lparr>sd_pending := []\<rparr>) else ret ());
     ret err }"

definition fsync_out :: "errno option sd" where
  "fsync_out = do { (_, err) \<leftarrow> sd_call; ret err }"

definition fclose_out :: "cstring \<Rightarrow> errno option sd" where
  "fclose_out path = do {
     (r, err) \<leftarrow> sd_call;
     mounted \<leftarrow> gets sd_mounted;
     (if mounted then drain path (so_room r) (so_fill r) else ret ());
     modify (\<lambda>s. s\<lparr>sd_pending := []\<rparr>);
     ret err }"

definition fseek_to :: "nat \<Rightarrow> errno option sd" where
  "fseek_to offset = do {
     (_, err) \<leftarrow> sd_call;
     (if err = None then modify (\<lambda>s. s\<lparr>sd_pos := offset\<rparr>) else ret ());
     ret err }"

text \<open>Reading \<open>n\<close> bytes at \<open>offset\<close> of \<open>d\<close>: the bytes and the stream error, if any.\<close>

definition fread_at :: "byte list \<Rightarrow> nat \<Rightarrow> nat \<Rightarrow> (byte list \<times> errno option) sd" where
  "fread_at d offset n = do {
     (r, err) \<leftarrow> sd_call;
     let got = take n (drop offset d);
     ret (if err = None then got else take (so_room r) got, err) }"

definition fclose_in :: "errno option sd" where
  "fclose_in = do { (_, err) \<leftarrow> sd_call; ret err }"

section \<open>The operations of the replacement protocol\<close>

definition posix_exists :: "cstring \<Rightarrow> bool sd" where
  "posix_exists path = do { err \<leftarrow> stat_file path; noting err }"

definition posix_remove :: "cstring \<Rightarrow> bool sd" where
  "posix_remove path = do { err \<leftarrow> remove_file path; if err = Some ENOENT then ret True else noting err }"

definition posix_open :: "cstring \<Rightarrow> cstring option sd" where
  "posix_open path = do {
     err \<leftarrow> open_trunc path;
     ok \<leftarrow> noting err;
     if \<not> ok then ret None
     else do {
       (_, err) \<leftarrow> sd_call;
       ok \<leftarrow> noting err;
       ret (if ok then Some path else None) } }"

definition posix_write :: "cstring \<Rightarrow> byte list \<Rightarrow> nat sd" where
  "posix_write stream data = do {
     (written, e) \<leftarrow> fwrite_out stream data;
     (if written \<noteq> length data then sdcard_note_io_failure e else ret ());
     ret written }"

definition posix_sync :: "cstring \<Rightarrow> bool sd" where
  "posix_sync stream = do {
     err \<leftarrow> fflush_out stream;
     ok \<leftarrow> noting err;
     if \<not> ok then ret False else do { err \<leftarrow> fsync_out; noting err } }"

definition posix_size :: "cstring \<Rightarrow> nat option sd" where
  "posix_size stream = do {
     (_, err) \<leftarrow> sd_call;
     ok \<leftarrow> noting err;
     fs \<leftarrow> gets sd_files;
     ret (if ok then Some (case fs stream of None \<Rightarrow> 0 | Some d \<Rightarrow> length d) else None) }"

definition posix_close :: "cstring \<Rightarrow> bool sd" where
  "posix_close stream = do { err \<leftarrow> fclose_out stream; noting err }"

definition posix_rename :: "cstring \<Rightarrow> cstring \<Rightarrow> RenameResult sd" where
  "posix_rename src dst = do {
     err \<leftarrow> rename_file src dst;
     ok \<leftarrow> noting err;
     ret (if ok then Success else if err = Some EEXIST \<or> err = Some ENOTEMPTY then DestinationExists else Failure) }"

definition SDCARD_REPLACE_OPS :: "(sdcard, cstring) ReplaceOps" where
  "SDCARD_REPLACE_OPS = \<lparr>op_exists = Some posix_exists, op_remove = Some posix_remove, op_open = Some posix_open,
     op_write = Some posix_write, op_sync = Some posix_sync, op_size = Some posix_size, op_close = Some posix_close,
     op_rename = Some posix_rename, op_checkpoint = None\<rparr>"

section \<open>Paths\<close>

text \<open>\<open>/sdcard\<close>, \<open>.ready\<close>; \<open>.tmp\<close> is the suffix of the flash files too.\<close>

definition SD_MOUNTPOINT :: cstring where
  "SD_MOUNTPOINT = [0x2F, 0x73, 0x64, 0x63, 0x61, 0x72, 0x64]"

definition READY_SUFFIX :: cstring where
  "READY_SUFFIX = [0x2E, 0x72, 0x65, 0x61, 0x64, 0x79]"

definition SD_MAX_PATH_LEN :: nat where "SD_MAX_PATH_LEN = 255"

fun has_dotdot :: "cstring \<Rightarrow> bool" where
  "has_dotdot (a # b # cs) \<longleftrightarrow> a = 0x2E \<and> b = 0x2E \<or> has_dotdot (b # cs)"
| "has_dotdot _ \<longleftrightarrow> False"

definition sdcard_path_valid :: "cstring option \<Rightarrow> bool" where
  "sdcard_path_valid path = (case path of None \<Rightarrow> False
     | Some p \<Rightarrow> p \<noteq> [] \<and> p ! 0 = 0x2F \<and> \<not> has_dotdot p \<and> length p \<le> SD_MAX_PATH_LEN)"

definition bounded_path :: "cstring \<Rightarrow> nat \<Rightarrow> cstring option" where
  "bounded_path p out_size = (if p \<noteq> [] \<and> length p < out_size then Some p else None)"

definition sdcard_vfs_path :: "cstring option \<Rightarrow> nat \<Rightarrow> cstring option" where
  "sdcard_vfs_path path out_size = (case path of None \<Rightarrow> None
     | Some p \<Rightarrow>
         if out_size = 0 then None
         else if take 7 p = SD_MOUNTPOINT \<and> (length p = 7 \<or> p ! 7 = 0x2F) then bounded_path p out_size
         else bounded_path (SD_MOUNTPOINT @ p) out_size)"

definition sdcard_temp_path :: "cstring \<Rightarrow> nat \<Rightarrow> cstring option" where
  "sdcard_temp_path path out_size = bounded_path (path @ TMP_SUFFIX) out_size"

definition sdcard_ready_path :: "cstring \<Rightarrow> nat \<Rightarrow> cstring option" where
  "sdcard_ready_path path out_size = bounded_path (path @ READY_SUFFIX) out_size"

text \<open>\<open>sizeof\<close> of the local path arrays: 264 for the live path, 4 and 6 more for the others.\<close>

definition LIVE_PATH_SIZE :: nat where "LIVE_PATH_SIZE = 8 + SD_MAX_PATH_LEN + 1"

definition sdcard_file_paths :: "cstring option \<Rightarrow> (cstring \<times> cstring \<times> cstring) option" where
  "sdcard_file_paths path = do {
     live \<leftarrow> sdcard_vfs_path path LIVE_PATH_SIZE;
     temp \<leftarrow> sdcard_temp_path live (LIVE_PATH_SIZE + 4);
     ready \<leftarrow> sdcard_ready_path live (LIVE_PATH_SIZE + 6);
     Some (live, temp, ready) }"

text \<open>The path up to its last slash.\<close>

definition parent_path :: "cstring \<Rightarrow> cstring option" where
  "parent_path p = (if 0x2F \<in> set p then Some (rev (tl (dropWhile (\<lambda>c. c \<noteq> 0x2F) (rev p)))) else None)"

fun make_dirs :: "cstring list \<Rightarrow> bool sd" where
  "make_dirs [] = ret True"
| "make_dirs (p # ps) = do {
     (_, err) \<leftarrow> sd_call;
     if err = Some EEXIST then make_dirs ps
     else do { ok \<leftarrow> noting err; if ok then make_dirs ps else ret False } }"

definition sdcard_ensure_parent_dir :: "cstring \<Rightarrow> bool sd" where
  "sdcard_ensure_parent_dir live_path =
     (if live_path = [] \<or> length live_path \<ge> LIVE_PATH_SIZE then ret False
      else case parent_path live_path of
        None \<Rightarrow> ret False
      | Some parent \<Rightarrow>
          if take 7 parent \<noteq> SD_MOUNTPOINT then ret False
          else do {
            made \<leftarrow> make_dirs (map (\<lambda>i. take i parent) (filter (\<lambda>i. parent ! i = 0x2F) [7..<length parent]) @ [parent]);
            if \<not> made then ret False
            else do {
              (r, err) \<leftarrow> sd_call;
              ok \<leftarrow> noting err;
              ret (ok \<and> so_dir r) } })"

definition sdcard_recover :: "cstring option \<Rightarrow> bool sd" where
  "sdcard_recover path = (case sdcard_file_paths path of None \<Rightarrow> ret False
     | Some (live, temp, ready) \<Rightarrow> recoverPending live temp ready SDCARD_REPLACE_OPS)"

section \<open>Mounting\<close>

definition may_reset_bus :: "bool \<Rightarrow> bool" where
  "may_reset_bus reset_locked \<longleftrightarrow> \<not> reset_locked"

definition update_diag :: "(SigurdosSdMountDiagnostic \<Rightarrow> SigurdosSdMountDiagnostic) \<Rightarrow> unit sd" where
  "update_diag f = modify (\<lambda>s. s\<lparr>sd_diag := f (sd_diag s)\<rparr>)"

definition sdcard_mark_mount_failed :: "unit sd" where
  "sdcard_mark_mount_failed = modify (\<lambda>s. s\<lparr>sd_mounted := False, sd_capacity_cache := cap_invalidate (sd_capacity_cache s)\<rparr>)"

definition sdcard_backoff_ms :: "byte \<Rightarrow> u32" where
  "sdcard_backoff_ms attempt_index = (if attempt_index = 0 then 0 else if attempt_index = 1 then 120 else if attempt_index = 2 then 300 else 600)"

definition sdcard_reset_mount_state :: "unit sd" where
  "sdcard_reset_mount_state = modify (\<lambda>s. s\<lparr>sd_mounted := False, sd_capacity_cache := cap_clear\<rparr>)"

definition sdcard_reset_diagnostics :: "unit sd" where
  "sdcard_reset_diagnostics = update_diag (\<lambda>_. \<lparr>di_mounted = False, di_capacity_valid = False, di_attempt_count = 0,
     di_last_source = SOURCE_NONE, di_last_error = ERROR_NONE, di_last_backoff_ms = 0\<rparr>)"

text \<open>\<open>SD.totalBytes()\<close> and \<open>SD.usedBytes()\<close> give a number and leave an error number, 0 being \<open>None\<close>.\<close>

definition sdcard_refresh_capacity_impl :: "bool sd" where
  "sdcard_refresh_capacity_impl = do {
     m \<leftarrow> gets sd_mounted;
     if \<not> m then ret False
     else with_bus False (do {
       (tot, total_error) \<leftarrow> sd_call;
       (used, used_error) \<leftarrow> sd_call;
       (ok, cache) \<leftarrow> gets (\<lambda>s. cap_update (so_bytes tot) (so_bytes used) (sd_capacity_cache s));
       modify (\<lambda>s. s\<lparr>sd_capacity_cache := cache\<rparr>);
       let loss = (\<lambda>e. case e of None \<Rightarrow> False | Some x \<Rightarrow> isMediaLossError x);
       let e = (if loss total_error then total_error else used_error);
       if \<not> ok then do {
         (if so_bytes tot = 0 \<or> loss e then sdcard_note_io_failure (if loss e then the e else EIO)
          else update_diag (\<lambda>d. d\<lparr>di_capacity_valid := False, di_last_error := CAPACITY_QUERY_FAILED\<rparr>));
         ret False }
       else do {
         update_diag (\<lambda>d. d\<lparr>di_capacity_valid := True, di_last_error := ERROR_NONE\<rparr>);
         ret True } }) }"

definition sdcard_record_success :: "unit sd" where
  "sdcard_record_success = do {
     modify (\<lambda>s. s\<lparr>sd_mounted := True, sd_retry_count := 0, sd_capacity_cache := (sd_capacity_cache s)\<lparr>cap_valid := False, cap_dirty := True\<rparr>\<rparr>);
     _ \<leftarrow> sdcard_refresh_capacity_impl;
     m \<leftarrow> gets sd_mounted;
     update_diag (\<lambda>d. d\<lparr>di_mounted := m\<rparr>) }"

text \<open>The bus reset and \<open>SD.begin\<close> take an outcome each; a reset is attempted only while it is allowed.\<close>

definition sdcard_mount_once :: "SigurdosSdMountSource \<Rightarrow> bool sd" where
  "sdcard_mount_once source = with_bus False (do {
     update_diag (\<lambda>d. d\<lparr>di_attempt_count := di_attempt_count d + 1, di_last_source := source\<rparr>);
     locked \<leftarrow> gets sd_bus_reset_locked;
     reset_ok \<leftarrow> (if may_reset_bus locked then do { (r, _) \<leftarrow> sd_call; ret (so_err r = None) } else ret True);
     if \<not> reset_ok then do { update_diag (\<lambda>d. d\<lparr>di_last_error := BEGIN_FAILED\<rparr>); ret False }
     else do {
       (r, _) \<leftarrow> sd_call;
       if so_err r = None then do { sdcard_record_success; gets sd_mounted }
       else do {
         sdcard_mark_mount_failed;
         valid \<leftarrow> gets (\<lambda>s. cap_valid (sd_capacity_cache s));
         update_diag (\<lambda>d. d\<lparr>di_mounted := False, di_capacity_valid := valid, di_last_error := BEGIN_FAILED\<rparr>);
         ret False } } })"

text \<open>The attempts with index \<open>attempt\<close> to \<open>attempt + n - 1\<close>.\<close>

fun sdcard_mount_with_backoff :: "SigurdosSdMountSource \<Rightarrow> nat \<Rightarrow> byte \<Rightarrow> bool sd" where
  "sdcard_mount_with_backoff source 0 attempt = ret False"
| "sdcard_mount_with_backoff source (Suc n) attempt = do {
     update_diag (\<lambda>d. d\<lparr>di_last_backoff_ms := sdcard_backoff_ms attempt\<rparr>);
     ok \<leftarrow> sdcard_mount_once source;
     if ok then ret True else sdcard_mount_with_backoff source n (attempt + 1) }"

definition SDCARD_INIT_MAX_ATTEMPTS :: nat where "SDCARD_INIT_MAX_ATTEMPTS = 3"
definition SDCARD_LAZY_RETRY_MAX_ATTEMPTS :: nat where "SDCARD_LAZY_RETRY_MAX_ATTEMPTS = 3"

definition sdcard_init :: "bool sd" where
  "sdcard_init = do {
     sdcard_reset_diagnostics;
     sdcard_reset_mount_state;
     modify (\<lambda>s. s\<lparr>sd_retry_count := 0\<rparr>);
     sdcard_mount_with_backoff SOURCE_INIT SDCARD_INIT_MAX_ATTEMPTS 0 }"

definition sdcard_lock_bus_reset :: "unit sd" where
  "sdcard_lock_bus_reset = modify (\<lambda>s. s\<lparr>sd_bus_reset_locked := True\<rparr>)"

definition sdcard_lazy_mount :: "bool sd" where
  "sdcard_lazy_mount = do {
     n \<leftarrow> gets sd_retry_count;
     if n \<ge> SDCARD_LAZY_RETRY_MAX_ATTEMPTS then do {
       update_diag (\<lambda>d. d\<lparr>di_last_source := SOURCE_RETRY, di_last_error := RETRIES_EXHAUSTED, di_last_backoff_ms := 0\<rparr>);
       ret False }
     else do {
       modify (\<lambda>s. s\<lparr>sd_retry_count := n + 1\<rparr>);
       update_diag (\<lambda>d. d\<lparr>di_last_backoff_ms := sdcard_backoff_ms (word_of_nat (n + 1))\<rparr>);
       sdcard_mount_once SOURCE_RETRY } }"

definition sdcard_retry :: "bool sd" where
  "sdcard_retry = do {
     m \<leftarrow> gets sd_mounted;
     if m then do {
       capacity_ok \<leftarrow> sdcard_refresh_capacity_impl;
       still \<leftarrow> gets sd_mounted;
       if still then ret capacity_ok else sdcard_lazy_mount }
     else sdcard_lazy_mount }"

definition sdcard_diagnostics :: "SigurdosSdMountDiagnostic sd" where
  "sdcard_diagnostics = do {
     s \<leftarrow> gets (\<lambda>s. s);
     update_diag (\<lambda>d. d\<lparr>di_mounted := sd_mounted s, di_capacity_valid := cap_valid (sd_capacity_cache s)\<rparr>);
     gets sd_diag }"

definition fresh_capacity :: "CapacityCache sd" where
  "fresh_capacity = do {
     stale \<leftarrow> gets (\<lambda>s. sd_mounted s \<and> (\<not> cap_valid (sd_capacity_cache s) \<or> cap_dirty (sd_capacity_cache s)));
     (if stale then do { _ \<leftarrow> sdcard_refresh_capacity_impl; ret () } else ret ());
     gets sd_capacity_cache }"

definition sdcard_capacity_bytes :: "(64 word) sd" where
  "sdcard_capacity_bytes = do { c \<leftarrow> fresh_capacity; ret (total_bytes c) }"

definition sdcard_free_bytes :: "(64 word) sd" where
  "sdcard_free_bytes = do { c \<leftarrow> fresh_capacity; ret (free_bytes c) }"

section \<open>File operations\<close>

text \<open>The operations start alike: the card must be mounted, the path valid and the bus free.\<close>

definition on_card :: "cstring option \<Rightarrow> 'a \<Rightarrow> 'a sd \<Rightarrow> 'a sd" where
  "on_card path otherwise act = do {
     m \<leftarrow> gets sd_mounted;
     if \<not> m \<or> \<not> sdcard_path_valid path then ret otherwise else with_bus otherwise act }"

definition sdcard_exists :: "cstring option \<Rightarrow> bool sd" where
  "sdcard_exists path = on_card path False (do {
     ok \<leftarrow> sdcard_recover path;
     if \<not> ok then ret False
     else case sdcard_vfs_path path LIVE_PATH_SIZE of None \<Rightarrow> ret False | Some live \<Rightarrow> posix_exists live })"

definition sdcard_read :: "cstring option \<Rightarrow> nat \<Rightarrow> byte list sd" where
  "sdcard_read path max_len = (if max_len = 0 then ret [] else on_card path [] (do {
     ok \<leftarrow> sdcard_recover path;
     case (ok, sdcard_vfs_path path LIVE_PATH_SIZE) of
       (True, Some live) \<Rightarrow> do {
         opened \<leftarrow> fopen_read live;
         case opened of
           Inl e \<Rightarrow> do { sdcard_note_io_failure e; ret [] }
         | Inr d \<Rightarrow> do {
             (got, err) \<leftarrow> fread_at d 0 max_len;
             _ \<leftarrow> noting err;
             err \<leftarrow> fclose_in;
             _ \<leftarrow> noting err;
             ret got } }
     | _ \<Rightarrow> ret [] }))"

definition sdcard_delete_file :: "cstring option \<Rightarrow> bool sd" where
  "sdcard_delete_file path = (if path = Some [0x2F] then ret False else on_card path False (
     case sdcard_vfs_path path LIVE_PATH_SIZE of
       None \<Rightarrow> ret False
     | Some live \<Rightarrow> do {
         err \<leftarrow> stat_file live;
         ok \<leftarrow> noting err;
         if \<not> ok then ret False
         else do {
           err \<leftarrow> remove_file live;
           ok \<leftarrow> noting err;
           (if ok then invalidate_capacity else ret ());
           ret ok } }))"

definition sdcard_write :: "cstring option \<Rightarrow> byte list \<Rightarrow> bool sd" where
  "sdcard_write path data = on_card path False (
     case sdcard_file_paths path of
       None \<Rightarrow> ret False
     | Some (live, temp, ready) \<Rightarrow> do {
         ok \<leftarrow> sdcard_ensure_parent_dir live;
         if \<not> ok then ret False
         else do {
           replaced \<leftarrow> replaceFile live temp ready data SDCARD_REPLACE_OPS;
           (if replaced then invalidate_capacity else ret ());
           ret replaced } })"

definition sdcard_file_size :: "cstring option \<Rightarrow> nat sd" where
  "sdcard_file_size path = on_card path 0 (do {
     ok \<leftarrow> sdcard_recover path;
     case (ok, sdcard_vfs_path path LIVE_PATH_SIZE) of
       (True, Some live) \<Rightarrow> do {
         err \<leftarrow> stat_file live;
         ok \<leftarrow> noting err;
         fs \<leftarrow> gets sd_files;
         ret (if ok then (case fs live of None \<Rightarrow> 0 | Some d \<Rightarrow> length d) else 0) }
     | _ \<Rightarrow> ret 0 })"

text \<open>\<open>LONG_MAX\<close> of the target, where \<open>long\<close> has 32 bits.\<close>

definition SD_LONG_MAX :: nat where "SD_LONG_MAX = 2147483647"

definition read_stream_at :: "cstring \<Rightarrow> nat \<Rightarrow> nat \<Rightarrow> byte list option sd" where
  "read_stream_at live offset n = do {
     opened \<leftarrow> fopen_read live;
     case opened of
       Inl e \<Rightarrow> do { sdcard_note_io_failure e; ret None }
     | Inr d \<Rightarrow> do {
         (_, seek) \<leftarrow> sd_call;
         (got, err) \<leftarrow> (if seek = None then fread_at d offset n else ret ([], None));
         let ok = (seek = None \<and> length got = n);
         (if \<not> ok then do { _ \<leftarrow> noting err; ret () } else ret ());
         err \<leftarrow> fclose_in;
         closed \<leftarrow> noting err;
         ret (if ok \<and> closed then Some got else None) } }"

definition sdcard_read_at :: "cstring option \<Rightarrow> nat \<Rightarrow> nat \<Rightarrow> byte list option sd" where
  "sdcard_read_at path offset n = do {
     m \<leftarrow> gets sd_mounted;
     if \<not> m \<or> \<not> sdcard_path_valid path \<or> offset > SD_LONG_MAX then ret None
     else if n = 0 then ret (Some [])
     else with_bus None (do {
       ok \<leftarrow> sdcard_recover path;
       case (ok, sdcard_vfs_path path LIVE_PATH_SIZE) of
         (True, Some live) \<Rightarrow> read_stream_at live offset n
       | _ \<Rightarrow> ret None }) }"

text \<open>The end of a write in place: flush, synchronise, close, each failure noted.\<close>

definition finish_write :: "cstring \<Rightarrow> bool \<Rightarrow> bool sd" where
  "finish_write live ok0 = do {
     flushed \<leftarrow> (if ok0 then do { err \<leftarrow> fflush_out live; noting err } else ret False);
     synced \<leftarrow> (if flushed then do { err \<leftarrow> fsync_out; noting err } else ret False);
     err \<leftarrow> fclose_out live;
     closed \<leftarrow> noting err;
     (if synced \<and> closed then invalidate_capacity else ret ());
     ret (synced \<and> closed) }"

definition write_stream :: "cstring \<Rightarrow> nat option \<Rightarrow> byte list \<Rightarrow> bool sd" where
  "write_stream live offset data = do {
     seek \<leftarrow> (case offset of None \<Rightarrow> ret None | Some i \<Rightarrow> fseek_to i);
     (n, e) \<leftarrow> (case seek of None \<Rightarrow> fwrite_out live data | Some e \<Rightarrow> ret (0, e));
     let ok = (seek = None \<and> n = length data);
     (if \<not> ok then sdcard_note_io_failure e else ret ());
     finish_write live ok }"

text \<open>The common guards of \<open>write_at\<close> and \<open>append\<close>: the live path, its directory, an interrupted promotion completed first.\<close>

definition prepare_write :: "cstring option \<Rightarrow> cstring option sd" where
  "prepare_write path = (case sdcard_vfs_path path LIVE_PATH_SIZE of
     None \<Rightarrow> ret None
   | Some live \<Rightarrow> do {
       ok \<leftarrow> and_then (sdcard_ensure_parent_dir live) (sdcard_recover path);
       ret (if ok then Some live else None) })"

definition sdcard_write_at :: "cstring option \<Rightarrow> nat \<Rightarrow> byte list \<Rightarrow> bool sd" where
  "sdcard_write_at path offset data = do {
     m \<leftarrow> gets sd_mounted;
     if \<not> m \<or> \<not> sdcard_path_valid path \<or> offset > SD_LONG_MAX then ret False
     else if data = [] then ret True
     else with_bus False (do {
       target \<leftarrow> prepare_write path;
       case target of
         None \<Rightarrow> ret False
       | Some live \<Rightarrow> do {
           err \<leftarrow> open_update live;
           err \<leftarrow> (if err = None then ret None else open_trunc live);
           opened \<leftarrow> noting err;
           if opened then write_stream live (Some offset) data else ret False } }) }"

definition sdcard_append :: "cstring option \<Rightarrow> byte list \<Rightarrow> bool sd" where
  "sdcard_append path data = do {
     m \<leftarrow> gets sd_mounted;
     if \<not> m \<or> \<not> sdcard_path_valid path then ret False
     else if data = [] then ret True
     else with_bus False (do {
       target \<leftarrow> prepare_write path;
       case target of
         None \<Rightarrow> ret False
       | Some live \<Rightarrow> do {
           err \<leftarrow> open_append live;
           opened \<leftarrow> noting err;
           if opened then write_stream live None data else ret False } }) }"

definition sdcard_remove_path :: "cstring option \<Rightarrow> bool sd" where
  "sdcard_remove_path path = (if path = Some [0x2F] then ret False else on_card path False (
     case sdcard_vfs_path path LIVE_PATH_SIZE of
       None \<Rightarrow> ret False
     | Some live \<Rightarrow> do {
         err \<leftarrow> remove_file live;
         ok \<leftarrow> (if err = Some ENOENT then ret True else noting err);
         (if ok then invalidate_capacity else ret ());
         ret ok }))"

definition sdcard_rename_path :: "cstring option \<Rightarrow> cstring option \<Rightarrow> bool sd" where
  "sdcard_rename_path src dst = (if \<not> sdcard_path_valid dst then ret False else on_card src False (
     case (sdcard_vfs_path src LIVE_PATH_SIZE, sdcard_vfs_path dst LIVE_PATH_SIZE) of
       (Some from_path, Some to_path) \<Rightarrow> do {
         ok \<leftarrow> sdcard_ensure_parent_dir to_path;
         if \<not> ok then ret False
         else do {
           err \<leftarrow> rename_file from_path to_path;
           ok \<leftarrow> noting err;
           (if ok then invalidate_capacity else ret ());
           ret ok } }
     | _ \<Rightarrow> ret False))"

definition sdcard_recover_file :: "cstring option \<Rightarrow> bool sd" where
  "sdcard_recover_file path = on_card path False (do {
     recovered \<leftarrow> sdcard_recover path;
     (if recovered then invalidate_capacity else ret ());
     ret recovered })"

end
