(* ===== verification/SdCardProps.thy ===== *)
theory SdCardProps
  imports SdCard
begin

text \<open>
  The SD card provides what the replacement protocol relies on, and the file operations keep
  their promises: a replaced file has its old or its new contents after a power failure at any
  point, and a media error takes the mount away.
\<close>

section \<open>The card as a medium of the protocol\<close>

definition streaming :: "cstring \<Rightarrow> cstring \<Rightarrow> byte list \<Rightarrow> sdcard \<Rightarrow> bool" where
  "streaming f p d s \<longleftrightarrow> f = p \<and> (\<exists>x. sd_files s p = Some x \<and> sd_pos s = length x \<and> d = x @ sd_pending s)"

definition settled :: "cstring \<Rightarrow> sdcard \<Rightarrow> bool" where
  "settled f s \<longleftrightarrow> sd_pending s = []"

text \<open>The parts of the state the protocol's contract speaks of.\<close>

definition same_card :: "sdcard \<Rightarrow> sdcard \<Rightarrow> bool" where
  "same_card s s' \<longleftrightarrow> sd_files s' = sd_files s \<and> sd_trail s' = sd_trail s \<and> sd_pending s' = sd_pending s \<and> sd_pos s' = sd_pos s"

lemma same_card_refl [simp]: "same_card s s" by (simp add: same_card_def)

lemma same_card_trans: "same_card s s1 \<Longrightarrow> same_card s1 s2 \<Longrightarrow> same_card s s2" by (simp add: same_card_def)

lemma same_card_streaming: "same_card s s' \<Longrightarrow> streaming f p d s' = streaming f p d s"
  by (simp add: same_card_def streaming_def)

lemma same_card_call [simp]: "same_card s (snd (run_state sd_call s))"
  by (simp add: sd_call_def same_card_def Let_def)

lemma same_card_note [simp]: "same_card s (snd (run_state (sdcard_note_io_failure e) s))"
  by (simp add: sdcard_note_io_failure_def same_card_def)

lemma same_card_noting [simp]: "same_card s (snd (run_state (noting err) s))"
  by (cases err) (simp_all add: noting_def split_beta)

lemma noting_result [simp]: "fst (run_state (noting err) s) = (err = None)"
  by (cases err) (simp_all add: noting_def split_beta)

lemma run_callE:
  obtains r err s1 where "run_state sd_call s = ((r, err), s1)" "same_card s s1"
  using same_card_call [of s] by (cases "run_state sd_call s") auto

lemma put_at_end: "put_at d (length d) fill bs = d @ bs"
  by (simp add: put_at_def overwrite_def)

text \<open>Draining a stream appends the bytes to its file and touches nothing else.\<close>

definition only_file :: "cstring \<Rightarrow> sdcard \<Rightarrow> sdcard \<Rightarrow> bool" where
  "only_file p s s' \<longleftrightarrow> (\<exists>ss. sd_trail s' = sd_trail s @ ss \<and> (\<forall>fs \<in> set (sd_files s' # ss). \<forall>q. q \<noteq> p \<longrightarrow> fs q = sd_files s q))"

lemma only_file_same: "same_card s s1 \<Longrightarrow> only_file p s1 s2 \<Longrightarrow> only_file p s s2"
  by (simp add: same_card_def only_file_def)

lemma only_file_same': "only_file p s s1 \<Longrightarrow> same_card s1 s2 \<Longrightarrow> only_file p s s2"
  by (simp add: same_card_def only_file_def)

lemma same_only_file: "same_card s s' \<Longrightarrow> only_file p s s'"
  by (simp add: same_card_def only_file_def)

lemma drain_run:
  assumes "sd_files s p = Some x" and "sd_pos s = length x" and "run_state (drain p k fill) s = (u, s')"
  shows "only_file p s s' \<and> sd_files s' p = Some (x @ take k (sd_pending s)) \<and> sd_pos s' = length (x @ take k (sd_pending s)) \<and>
    sd_pending s' = drop k (sd_pending s)"
proof -
  let ?n = "min k (length (sd_pending s))"
  let ?ss = "map (\<lambda>j. (sd_files s)(p \<mapsto> x @ take j (sd_pending s))) [1..<?n + 1]"
  have s': "s' = s\<lparr>sd_files := (if ?ss = [] then sd_files s else last ?ss), sd_trail := sd_trail s @ ?ss,
      sd_pos := length x + ?n, sd_pending := drop k (sd_pending s)\<rparr>"
    using assms by (auto simp: drain_def sd_steps_def put_at_end min_def simp del: upt_Suc split: if_splits)
  have "take ?n (sd_pending s) = take k (sd_pending s)" by (metis min.commute take_take take_all_iff order_refl)
  then have "(if ?ss = [] then sd_files s else last ?ss) p = Some (x @ take k (sd_pending s))"
    using assms(1) by (cases "?n = 0") (auto simp: last_map Suc_le_eq)
  moreover have "\<forall>fs \<in> set ((if ?ss = [] then sd_files s else last ?ss) # ?ss). \<forall>q. q \<noteq> p \<longrightarrow> fs q = sd_files s q"
    by (auto simp: last_map)
  ultimately show ?thesis unfolding only_file_def s' by auto
qed

lemma streaming_drain:
  assumes "streaming f p d s" and "run_state (drain f k fill) s = (u, s')"
  shows "only_file p s s' \<and> streaming f p d s' \<and> (\<exists>j. sd_files s' p = Some (take j d)) \<and> (sd_pending s = [] \<longrightarrow> same_card s s')"
proof -
  obtain x where x: "f = p" "sd_files s p = Some x" "sd_pos s = length x" "d = x @ sd_pending s"
    using assms(1) by (auto simp: streaming_def)
  note r = drain_run [of s p x k fill u s'] 
  have "\<exists>j. x @ take k (sd_pending s) = take j d" using x by (intro exI [of _ "length x + k"]) simp
  moreover have "sd_pending s = [] \<Longrightarrow> same_card s s'"
    using assms(2) x by (auto simp: drain_def sd_steps_def same_card_def)
  moreover have "streaming f p d s'" using r assms(2) x by (simp add: streaming_def)
  ultimately show ?thesis using r assms(2) x by simp
qed

definition drain_if :: "bool \<Rightarrow> cstring \<Rightarrow> nat \<Rightarrow> byte \<Rightarrow> unit sd" where
  "drain_if m f k fill = (if m then drain f k fill else ret ())"

lemma streaming_drain_if:
  assumes "streaming f p d s" and "run_state (drain_if m f k fill) s = (u, s')"
  shows "only_file p s s' \<and> streaming f p d s' \<and> (\<exists>j. sd_files s' p = Some (take j d)) \<and> (sd_pending s = [] \<longrightarrow> same_card s s')"
proof (cases m)
  case True then show ?thesis using streaming_drain [OF assms(1)] assms(2) by (simp add: drain_if_def)
next
  case False
  then have "s' = s" using assms(2) by (simp add: drain_if_def)
  moreover obtain x where "sd_files s p = Some x" "d = x @ sd_pending s" using assms(1) by (auto simp: streaming_def)
  then have "sd_files s p = Some (take (length x) d)" by simp
  ultimately show ?thesis using assms(1) same_only_file by auto
qed

lemma open_medium:
  assumes "run_state (posix_open p) s = (r, s')"
  shows "only_file p s s' \<and> (\<forall>f. r = Some f \<longrightarrow> streaming f p [] s')"
proof -
  obtain o1 err s1 where 1: "run_state sd_call s = ((o1, err), s1)" "same_card s s1" by (rule run_callE)
  show ?thesis
  proof (cases err)
    case (Some e)
    then have "r = None" "s' = snd (run_state (noting err) s1)"
      using assms 1 by (auto simp: posix_open_def open_trunc_def noting_def split_beta split: prod.splits)
    then show ?thesis using 1 same_card_trans [OF 1(2) same_card_noting] same_only_file by auto
  next
    case None
    let ?s2 = "s1\<lparr>sd_files := (sd_files s1)(p \<mapsto> []), sd_trail := sd_trail s1 @ [(sd_files s1)(p \<mapsto> [])], sd_pending := [], sd_pos := 0\<rparr>"
    have o: "only_file p s ?s2" using 1(2) by (auto simp: only_file_def same_card_def)
    obtain o2 err2 s3 where 3: "run_state sd_call ?s2 = ((o2, err2), s3)" "same_card ?s2 s3" by (rule run_callE)
    obtain b s4 where 4: "run_state (noting err2) s3 = (b, s4)" by force
    have "same_card ?s2 s4" using same_card_trans [OF 3(2), of s4] same_card_noting [of s3 err2] 4 by simp
    moreover have "r = (if b then Some p else None)" "s' = s4"
      using assms 1 3 4 None by (auto simp: posix_open_def open_trunc_def noting_def sd_steps_def split: prod.splits)
    ultimately show ?thesis using only_file_same' [OF o] by (auto simp: streaming_def same_card_def)
  qed
qed

lemma write_medium:
  assumes "streaming f p d s" and "run_state (posix_write f data) s = (k, s')"
  shows "only_file p s s' \<and> (\<exists>d'. streaming f p d' s' \<and> (k = length data \<longrightarrow> d' = d @ data))"
proof -
  obtain r err s1 where 1: "run_state sd_call s = ((r, err), s1)" "same_card s s1" by (rule run_callE)
  let ?n = "if err = None then length data else min (so_room r) (length data - 1)"
  let ?s2 = "s1\<lparr>sd_pending := sd_pending s1 @ take ?n data\<rparr>"
  have st: "streaming f p (d @ take ?n data) ?s2" using assms(1) 1(2) by (auto simp: streaming_def same_card_def)
  obtain u s3 where 3: "run_state (drain_if (sd_mounted s1) f (so_room r) (so_fill r)) ?s2 = (u, s3)" by (meson surj_pair)
  note d3 = streaming_drain_if [OF st 3]
  let ?e = "case err of None \<Rightarrow> EOTHER | Some e \<Rightarrow> e"
  have r: "k = ?n" "s' = (if ?n \<noteq> length data then snd (run_state (sdcard_note_io_failure ?e) s3) else s3)"
    using assms(2) 1(1) 3 by (auto simp: posix_write_def fwrite_out_def drain_if_def Let_def split_beta split: prod.splits if_splits)
  then have sm: "same_card s3 s'" by auto
  have "only_file p s ?s2" using 1(2) by (auto simp: only_file_def same_card_def)
  then have "only_file p s s3" using d3 by (auto simp: only_file_def)
  moreover have "k = length data \<longrightarrow> take ?n data = data" using r by auto
  ultimately show ?thesis using d3 same_card_streaming [OF sm] only_file_same' [OF _ sm] by metis
qed

lemma flush_medium:
  assumes "streaming f p d s" and "run_state (fflush_out f) s = (err, s')"
  shows "only_file p s s' \<and> (\<exists>d'. streaming f p d' s') \<and> (err = None \<longrightarrow> settled f s' \<and> (\<exists>k. sd_files s' p = Some (take k d)))"
proof -
  obtain r e s1 where 1: "run_state sd_call s = ((r, e), s1)" "same_card s s1" by (rule run_callE)
  have st: "streaming f p d s1" using assms(1) same_card_streaming [OF 1(2)] by simp
  obtain u s3 where 3: "run_state (drain_if (sd_mounted s1) f (so_room r) (so_fill r)) s1 = (u, s3)" by (meson surj_pair)
  note d3 = streaming_drain_if [OF st 3]
  have r: "err = e" "s' = (if e = None then s3\<lparr>sd_pending := []\<rparr> else s3)"
    using assms(2) 1(1) 3 by (auto simp: fflush_out_def drain_if_def split: prod.splits if_splits)
  have "only_file p s s'" using only_file_same [OF 1(2), of p s3] d3 r by (auto simp: only_file_def)
  moreover have "\<exists>d'. streaming f p d' s'" using d3 r by (auto simp: streaming_def)
  ultimately show ?thesis using d3 r by (auto simp: settled_def)
qed

lemma sync_medium:
  assumes "streaming f p d s" and "run_state (posix_sync f) s = (r, s')"
  shows "only_file p s s' \<and> (\<exists>d'. streaming f p d' s') \<and> (r \<longrightarrow> settled f s' \<and> (\<exists>k. sd_files s' p = Some (take k d)))"
proof -
  obtain err s1 where 1: "run_state (fflush_out f) s = (err, s1)" by force
  obtain b s2 where 2: "run_state (noting err) s1 = (b, s2)" by force
  have s2: "same_card s1 s2" "b = (err = None)" using same_card_noting [of s1 err] noting_result [of err s1] 2 by simp_all
  obtain o3 err3 s3 where 3: "run_state sd_call s2 = ((o3, err3), s3)" "same_card s2 s3" by (rule run_callE)
  obtain b4 s4 where 4: "run_state (noting err3) s3 = (b4, s4)" by force
  have s4: "same_card s1 s4" using same_card_trans [OF same_card_trans [OF s2(1) 3(2)], of s4] same_card_noting [of s3 err3] 4 by simp
  have "s' = s2 \<and> \<not> r \<or> s' = s4 \<and> err = None"
    using assms(2) 1 2 3(1) 4 s2(2) by (auto simp: posix_sync_def fsync_out_def split: if_splits)
  then have "same_card s1 s'" "r \<longrightarrow> err = None" using s2 s4 by auto
  then show ?thesis using flush_medium [OF assms(1) 1] same_card_streaming [of s1 s'] only_file_same' [of p s s1 s']
    by (auto simp: settled_def same_card_def)
qed

lemma size_medium:
  assumes "streaming f p d s" and "run_state (posix_size f) s = (r, s')"
  shows "same_card s s' \<and> (\<forall>n x. r = Some n \<longrightarrow> sd_files s p = Some x \<longrightarrow> n = length x)"
proof -
  obtain o1 err s1 where 1: "run_state sd_call s = ((o1, err), s1)" "same_card s s1" by (rule run_callE)
  obtain b s2 where 2: "run_state (noting err) s1 = (b, s2)" by force
  have "same_card s s2" using same_card_trans [OF 1(2), of s2] same_card_noting [of s1 err] 2 by simp
  moreover have "r = (if b then Some (case sd_files s2 f of None \<Rightarrow> 0 | Some d \<Rightarrow> length d) else None)" "s' = s2"
    using assms(2) 1(1) 2 by (auto simp: posix_size_def)
  ultimately show ?thesis using assms(1) by (auto simp: streaming_def same_card_def)
qed

lemma close_medium:
  assumes "streaming f p d s" and "run_state (posix_close f) s = (r, s')"
  shows "only_file p s s' \<and> (settled f s \<longrightarrow> sd_files s' = sd_files s \<and> sd_trail s' = sd_trail s)"
proof -
  obtain o1 err s1 where 1: "run_state sd_call s = ((o1, err), s1)" "same_card s s1" by (rule run_callE)
  have st: "streaming f p d s1" using assms(1) same_card_streaming [OF 1(2)] by simp
  obtain u s3 where 3: "run_state (drain_if (sd_mounted s1) f (so_room o1) (so_fill o1)) s1 = (u, s3)" by (meson surj_pair)
  note d3 = streaming_drain_if [OF st 3]
  have "s' = snd (run_state (noting err) (s3\<lparr>sd_pending := []\<rparr>))"
    using assms(2) 1(1) 3 by (auto simp: posix_close_def fclose_out_def drain_if_def split: if_splits)
  then have "same_card (s3\<lparr>sd_pending := []\<rparr>) s'" by simp
  then have "sd_files s' = sd_files s3" "sd_trail s' = sd_trail s3" by (simp_all add: same_card_def)
  then show ?thesis using d3 only_file_same [OF 1(2), of p s3] 1(2) by (auto simp: only_file_def settled_def same_card_def)
qed

lemma rename_medium:
  assumes "run_state (posix_rename p q) s = (r, s')"
  shows "if r = Success then sd_files s p \<noteq> None \<and> sd_files s' = (sd_files s)(q := sd_files s p, p := None) \<and> sd_trail s' = sd_trail s @ [sd_files s']
    else sd_files s' = sd_files s \<and> sd_trail s' = sd_trail s"
proof -
  obtain o1 err s1 where 1: "run_state sd_call s = ((o1, err), s1)" "same_card s s1" by (rule run_callE)
  let ?err = "case err of Some e \<Rightarrow> Some e | None \<Rightarrow> if sd_files s p = None then Some ENOENT
    else if sd_files s q \<noteq> None \<and> \<not> so_over o1 then Some EEXIST else None"
  let ?fs = "(sd_files s)(q := sd_files s p, p := None)"
  let ?s2 = "if ?err = None then s1\<lparr>sd_files := ?fs, sd_trail := sd_trail s1 @ [?fs]\<rparr> else s1"
  have 2: "run_state (rename_file p q) s = (?err, ?s2)"
    using 1 by (auto simp: rename_file_def sd_steps_def same_card_def split: option.splits)
  obtain b s3 where 3: "run_state (noting ?err) ?s2 = (b, s3)" by force
  have s3: "same_card ?s2 s3" "b = (?err = None)" using same_card_noting [of ?s2 ?err] noting_result [of ?err ?s2] unfolding 3 by simp_all
  have "s' = s3" "(r = Success) = b" using assms 2 3 by (auto simp: posix_rename_def split: if_splits)
  then show ?thesis using s3 1(2) by (auto simp: same_card_def split: option.splits if_splits)
qed

lemma exists_medium:
  assumes "run_state (posix_exists p) s = (r, s')"
  shows "same_card s s' \<and> (r \<longrightarrow> sd_files s p \<noteq> None)"
proof -
  obtain o1 err s1 where 1: "run_state sd_call s = ((o1, err), s1)" "same_card s s1" by (rule run_callE)
  let ?err = "case err of Some e \<Rightarrow> Some e | None \<Rightarrow> if sd_files s1 p = None then Some ENOENT else None"
  have "run_state (noting ?err) s1 = (r, s')"
    using assms 1(1) by (simp add: posix_exists_def stat_file_def)
  then have "same_card s s'" "r = (?err = None)"
    using same_card_trans [OF 1(2) same_card_noting, of ?err] noting_result [of ?err s1] by simp_all
  then show ?thesis using 1(2) by (auto simp: same_card_def split: option.splits if_splits)
qed

lemma remove_medium:
  assumes "run_state (posix_remove p) s = (r, s')"
  shows "same_card s s' \<or> sd_files s' = (sd_files s)(p := None) \<and> sd_trail s' = sd_trail s @ [sd_files s']"
proof -
  obtain o1 err s1 where 1: "run_state sd_call s = ((o1, err), s1)" "same_card s s1" by (rule run_callE)
  obtain x s2 where 2: "run_state (remove_file p) s = (x, s2)" by force
  have s2: "same_card s s2 \<or> sd_files s2 = (sd_files s)(p := None) \<and> sd_trail s2 = sd_trail s @ [sd_files s2]"
    using 2 1 by (auto simp: remove_file_def sd_steps_def same_card_def split: option.splits if_splits)
  have "same_card s2 s'" using assms 2 same_card_noting [of s2 x] by (cases "x = Some ENOENT") (simp_all add: posix_remove_def)
  then show ?thesis using s2 by (auto simp: same_card_def)
qed

interpretation card: replace_medium SDCARD_REPLACE_OPS sd_files sd_trail streaming settled
  posix_exists posix_remove posix_open posix_write posix_sync posix_size posix_close posix_rename
proof (unfold_locales, goal_cases)
  case 1 show ?case by (simp add: SDCARD_REPLACE_OPS_def)
next
  case (2 p s r s') then show ?case using exists_medium [of p s r s'] by (simp add: same_card_def)
next
  case (3 p s r s') then show ?case using remove_medium [of p s r s'] by (auto simp: same_card_def)
next
  case (4 p q s s') then show ?case using rename_medium [of p q s Success s'] by simp
next
  case (5 p q s r s') then show ?case using rename_medium [of p q s r s'] by simp
next
  case (6 p s r s') then show ?case using open_medium [of p s r s'] unfolding only_file_def by blast
next
  case (7 f p d s data k s') then show ?case using write_medium [of f p d s data k s'] unfolding only_file_def by blast
next
  case (8 f p d s r s') then show ?case using sync_medium [of f p d s r s'] unfolding only_file_def by blast
next
  case (9 f p d s r s')
  then have "same_card s s' \<and> (\<forall>n x. r = Some n \<longrightarrow> sd_files s p = Some x \<longrightarrow> n = length x)" by (rule size_medium)
  then show ?case using 9(1) same_card_streaming [of s s' f p d] by (auto simp: same_card_def settled_def)
next
  case (10 f p d s r s') then show ?case using close_medium [of f p d s r s'] unfolding only_file_def by blast
qed

section \<open>A card without faults\<close>

text \<open>A mounted card on which every call succeeds; whether a rename may overwrite is still open.\<close>

definition healthy :: "sdcard \<Rightarrow> bool" where
  "healthy s \<longleftrightarrow> sd_mounted s \<and> (\<forall>i. so_lock (sd_io s i) \<and> so_err (sd_io s i) = None \<and> so_dir (sd_io s i))"

lemma healthy_call:
  assumes "healthy s"
  obtains r s1 where "run_state sd_call s = ((r, None), s1)" "so_lock r" "healthy s1" "sd_files s1 = sd_files s"
  using assms by (auto simp: healthy_def sd_call_def Let_def)

lemma healthy_noting: "healthy s \<Longrightarrow> err \<in> {None, Some ENOENT, Some EEXIST} \<Longrightarrow> run_state (noting err) s = (err = None, s)"
  by (auto simp: noting_def sdcard_note_io_failure_def isMediaLossError_def)

lemma healthy_exists:
  assumes "healthy s"
  shows "\<exists>s'. run_state (posix_exists p) s = (sd_files s p \<noteq> None, s') \<and> healthy s' \<and> sd_files s' = sd_files s"
proof -
  obtain r s1 where 1: "run_state sd_call s = ((r, None), s1)" "healthy s1" "sd_files s1 = sd_files s" by (rule healthy_call [OF assms])
  then show ?thesis using healthy_noting [OF 1(2)] by (auto simp: posix_exists_def stat_file_def)
qed

lemma healthy_steps: "healthy s \<Longrightarrow> healthy (s\<lparr>sd_files := fs, sd_trail := tr\<rparr>)"
  by (simp add: healthy_def)

lemma healthy_remove:
  assumes "healthy s"
  shows "\<exists>s'. run_state (posix_remove p) s = (True, s') \<and> healthy s' \<and> sd_files s' = (sd_files s)(p := None)"
proof -
  obtain r s1 where 1: "run_state sd_call s = ((r, None), s1)" "healthy s1" "sd_files s1 = sd_files s" by (rule healthy_call [OF assms])
  then show ?thesis by (auto simp: posix_remove_def remove_file_def sd_steps_def noting_def healthy_steps)
qed

lemma healthy_rename:
  assumes "healthy s" and "sd_files s p \<noteq> None"
  shows "\<exists>r s'. run_state (posix_rename p q) s = (r, s') \<and> healthy s' \<and>
    (r = Success \<and> sd_files s' = (sd_files s)(q := sd_files s p, p := None) \<or>
     r = DestinationExists \<and> sd_files s' = sd_files s \<and> sd_files s q \<noteq> None)"
proof -
  obtain r s1 where 1: "run_state sd_call s = ((r, None), s1)" "healthy s1" "sd_files s1 = sd_files s" by (rule healthy_call [OF assms(1)])
  then show ?thesis using assms(2) healthy_noting [OF 1(2), of "Some EEXIST"] healthy_noting [OF 1(2), of None]
    by (cases "sd_files s q \<noteq> None \<and> \<not> so_over r") (auto simp: posix_rename_def rename_file_def sd_steps_def noting_def healthy_steps)
qed

lemma healthy_promote:
  assumes "healthy s" and "sd_files s ready = Some d" and "live \<noteq> ready"
  shows "\<exists>s'. run_state (promoteValidated live ready SDCARD_REPLACE_OPS) s = (True, s') \<and> healthy s' \<and>
    sd_files s' = (sd_files s)(live \<mapsto> d, ready := None)"
proof -
  obtain r s1 where 1: "run_state (posix_rename ready live) s = (r, s1)" "healthy s1"
    and c1: "r = Success \<and> sd_files s1 = (sd_files s)(live \<mapsto> d, ready := None) \<or> r = DestinationExists \<and> sd_files s1 = sd_files s"
    using healthy_rename [OF assms(1), of ready live] assms(2) by auto
  obtain s2 where 2: "run_state (posix_remove live) s1 = (True, s2)" "healthy s2" "sd_files s2 = (sd_files s1)(live := None)"
    using healthy_remove [OF 1(2)] by blast
  from c1 show ?thesis
  proof (elim disjE conjE)
    assume "r = Success" "sd_files s1 = (sd_files s)(live \<mapsto> d, ready := None)"
    then show ?thesis using 1 by (simp add: card.promote_code)
  next
    assume r: "r = DestinationExists" "sd_files s1 = sd_files s"
    have "sd_files s2 ready = Some d" "sd_files s2 live = None" using 2(3) r assms(2,3) by simp_all
    then obtain s3 where "run_state (posix_rename ready live) s2 = (Success, s3)" "healthy s3" "sd_files s3 = (sd_files s2)(live \<mapsto> d, ready := None)"
      using healthy_rename [OF 2(2), of ready live] by auto
    then show ?thesis using 1(1) 2(1,3) r by (simp add: card.promote_code)
  qed
qed

lemma healthy_recover:
  assumes "healthy s" and "distinct [live, temp, ready]"
  shows "\<exists>s'. run_state (recoverPending live temp ready SDCARD_REPLACE_OPS) s = (True, s') \<and> healthy s' \<and>
    sd_files s' = (sd_files s)(live := current live ready (sd_files s), ready := None, temp := None)"
proof -
  obtain s1 where 1: "run_state (posix_exists ready) s = (sd_files s ready \<noteq> None, s1)" "healthy s1" "sd_files s1 = sd_files s"
    using healthy_exists [OF assms(1)] by blast
  obtain s2 where 2: "run_state (if sd_files s ready \<noteq> None then promoteValidated live ready SDCARD_REPLACE_OPS else ret True) s1 = (True, s2)"
    "healthy s2" "sd_files s2 = (sd_files s)(live := current live ready (sd_files s), ready := None)"
  proof (cases "sd_files s ready")
    case None then show ?thesis using that [of s1] 1 by (simp add: current_def fun_upd_idem)
  next
    case (Some d) then show ?thesis using that healthy_promote [OF 1(2), of ready d live] 1(3) assms(2) by (auto simp: current_def)
  qed
  obtain s3 where 3: "run_state (posix_exists temp) s2 = (sd_files s2 temp \<noteq> None, s3)" "healthy s3" "sd_files s3 = sd_files s2"
    using healthy_exists [OF 2(2)] by blast
  obtain s4 where 4: "run_state (posix_remove temp) s3 = (True, s4)" "healthy s4" "sd_files s4 = (sd_files s3)(temp := None)"
    using healthy_remove [OF 3(2)] by blast
  show ?thesis
  proof (cases "sd_files s2 temp = None")
    case True
    then have "run_state (recoverPending live temp ready SDCARD_REPLACE_OPS) s = (True, s3)"
      unfolding card.recover_code using 1(1) 2(1) 3(1) by simp
    then show ?thesis using 2(3) 3 True by (auto simp: fun_upd_idem)
  next
    case False
    then have "run_state (recoverPending live temp ready SDCARD_REPLACE_OPS) s = (True, s4)"
      unfolding card.recover_code using 1(1) 2(1) 3(1) 4(1) by simp
    then show ?thesis using 2(3) 3(3) 4 by auto
  qed
qed

section \<open>Paths\<close>

lemma file_paths_parts:
  assumes "sdcard_file_paths path = Some (live, temp, ready)"
  shows "sdcard_vfs_path path LIVE_PATH_SIZE = Some live" "temp = live @ TMP_SUFFIX" "ready = live @ READY_SUFFIX" "distinct [live, temp, ready]"
  using assms by (auto simp: sdcard_file_paths_def sdcard_temp_path_def sdcard_ready_path_def bounded_path_def TMP_SUFFIX_def READY_SUFFIX_def
      split: bind_splits if_splits)

lemma healthy_read:
  assumes "healthy s" and "sdcard_path_valid path" and "sdcard_file_paths path = Some (live, temp, ready)" and "n > 0"
  shows "fst (run_state (sdcard_read path n) s) = (case current live ready (sd_files s) of None \<Rightarrow> [] | Some d \<Rightarrow> take n d)"
proof -
  note f = file_paths_parts [OF assms(3)]
  obtain r s1 where 1: "run_state sd_call s = ((r, None), s1)" "so_lock r" "healthy s1" "sd_files s1 = sd_files s"
    by (rule healthy_call [OF assms(1)])
  obtain s2 where 2: "run_state (sdcard_recover path) s1 = (True, s2)" "healthy s2" "sd_files s2 live = current live ready (sd_files s)"
    using healthy_recover [OF 1(3) f(4)] 1(4) f(4) assms(3) by (auto simp: sdcard_recover_def)
  obtain r2 s3 where 3: "run_state sd_call s2 = ((r2, None), s3)" "healthy s3" "sd_files s3 = sd_files s2" by (rule healthy_call [OF 2(2)])
  obtain r3 s4 where 4: "run_state sd_call s3 = ((r3, None), s4)" "healthy s4" by (rule healthy_call [OF 3(2)])
  obtain r4 s5 where 5: "run_state sd_call s4 = ((r4, None), s5)" "healthy s5" by (rule healthy_call [OF 4(2)])
  have m: "sd_mounted s" using assms(1) by (simp add: healthy_def)
  show ?thesis using m assms(2,4) 1 2 3 4 5 f(1)
    by (auto simp: sdcard_read_def on_card_def with_bus_def fopen_read_def fread_at_def fclose_in_def noting_def split_beta Let_def split: option.splits)
qed

section \<open>Replacing a file\<close>

lemma same_card_dirs [simp]: "same_card s (snd (run_state (make_dirs ps) s))"
proof (induction ps arbitrary: s)
  case (Cons p ps)
  obtain r err s1 where 1: "run_state sd_call s = ((r, err), s1)" "same_card s s1" by (rule run_callE)
  obtain b s2 where 2: "run_state (noting err) s1 = (b, s2)" by force
  have "same_card s s2" using same_card_trans [OF 1(2), of s2] same_card_noting [of s1 err] 2 by simp
  then show ?case using same_card_trans [OF 1(2) Cons.IH] same_card_trans [OF _ Cons.IH] 1(1) 2 by simp
qed simp

lemma same_card_parent [simp]: "same_card s (snd (run_state (sdcard_ensure_parent_dir live) s))"
proof -
  have "same_card s (snd (run_state (do {
      made \<leftarrow> make_dirs ps;
      if \<not> made then ret False else do { (r, err) \<leftarrow> sd_call; ok \<leftarrow> noting err; ret (ok \<and> so_dir r) } }) s))" for ps
  proof -
    obtain m s1 where 1: "run_state (make_dirs ps) s = (m, s1)" by force
    have s1: "same_card s s1" using same_card_dirs [of s ps] 1 by simp
    obtain r err s2 where 2: "run_state sd_call s1 = ((r, err), s2)" "same_card s1 s2" by (rule run_callE)
    have "same_card s (snd (run_state (noting err) s2))" using same_card_trans [OF same_card_trans [OF s1 2(2)] same_card_noting] .
    then show ?thesis using s1 1 2(1) by (simp add: split_beta)
  qed
  then show ?thesis by (simp add: sdcard_ensure_parent_dir_def split: option.split)
qed

lemma write_run:
  assumes "run_state (sdcard_write path data) s = (r, s')" and "sdcard_file_paths path = Some (live, temp, ready)"
  shows "card.through (card.swapping live temp ready (sd_files s) data) s s' \<and> (r \<longrightarrow> sd_files s' live = Some data \<and> sd_files s' ready = None)"
proof -
  let ?W = "card.swapping live temp ready (sd_files s) data"
  note dis = file_paths_parts(4) [OF assms(2)]
  have still: "card.through ?W s x" if "same_card s x" for x
    using that by (intro card.throughI_still) (simp_all add: card.swapping_def same_card_def)
  obtain o1 err s1 where 1: "run_state sd_call s = ((o1, err), s1)" "same_card s s1" by (rule run_callE)
  obtain ok s2 where 2: "run_state (sdcard_ensure_parent_dir live) s1 = (ok, s2)" by force
  have s2: "same_card s s2" using same_card_trans [OF 1(2), of s2] same_card_parent [of s1 live] 2 by simp
  obtain x s3 where 3: "run_state (replaceFile live temp ready data SDCARD_REPLACE_OPS) s2 = (x, s3)" by force
  note rep = card.replace_run [OF dis 3]
  have t3: "card.through ?W s s3" using rep s2 by (simp add: card.through_def same_card_def)
  have "s' = s \<and> \<not> r \<or> s' = s1 \<and> \<not> r \<or> s' = s2 \<and> \<not> r \<or> r = x \<and> sd_files s' = sd_files s3 \<and> sd_trail s' = sd_trail s3"
    using assms 1(1) 2 3 by (auto simp: sdcard_write_def on_card_def with_bus_def invalidate_capacity_def split: if_splits)
  then consider "same_card s s'" "\<not> r" | "r = x" "sd_files s' = sd_files s3" "sd_trail s' = sd_trail s3"
    using 1(2) s2 same_card_refl by blast
  then show ?thesis by cases (use still t3 rep in \<open>auto simp: card.through_def\<close>)
qed

text \<open>
  C12: replacing a file on the SD card is atomic under power failure. Whatever calls fail during
  the write (a full card, a lost medium, a rename that refuses an existing destination) and in
  whichever state the power goes, the next read on a working card returns the complete old or the
  complete new contents; a write that reported success is what is read from then on; no other
  file changes.
\<close>

theorem sd_write_survives_power_loss:
  assumes "run_state (sdcard_write path data) s = (r, s')" and "sdcard_path_valid path"
    and "sdcard_file_paths path = Some (live, temp, ready)"
    and "fs = sd_files s' \<or> fs \<in> set (drop (length (sd_trail s)) (sd_trail s'))"
    and "healthy t" and "sd_files t = fs" and "n > 0"
  shows "(fst (run_state (sdcard_read path n) t) = fst (run_state (sdcard_read path n) (t\<lparr>sd_files := sd_files s\<rparr>)) \<or>
      fst (run_state (sdcard_read path n) t) = take n data) \<and>
    (r \<and> fs = sd_files s' \<longrightarrow> fst (run_state (sdcard_read path n) t) = take n data) \<and>
    (\<forall>q. q \<notin> {live, live @ TMP_SUFFIX, live @ READY_SUFFIX} \<longrightarrow> fs q = sd_files s q)"
proof -
  note w = write_run [OF assms(1,3)] and parts = file_paths_parts [OF assms(3)]
  have fs: "card.swapping live temp ready (sd_files s) data fs" using w assms(4) by (auto simp: card.through_def)
  have "healthy (t\<lparr>sd_files := sd_files s\<rparr>)" using assms(5) by (simp add: healthy_def)
  note rd = healthy_read [OF assms(5,2,3,7)] healthy_read [OF this assms(2,3,7)]
  have "fst (run_state (sdcard_read path n) t) = fst (run_state (sdcard_read path n) (t\<lparr>sd_files := sd_files s\<rparr>)) \<or>
      fst (run_state (sdcard_read path n) t) = take n data"
    using fs rd assms(6) by (auto simp: card.swapping_def)
  moreover have "r \<and> fs = sd_files s' \<longrightarrow> fst (run_state (sdcard_read path n) t) = take n data"
    using w rd assms(6) by (auto simp: current_def)
  moreover have "\<forall>q. q \<notin> {live, live @ TMP_SUFFIX, live @ READY_SUFFIX} \<longrightarrow> fs q = sd_files s q"
    using fs parts by (auto simp: card.swapping_def)
  ultimately show ?thesis by blast
qed

text \<open>A working card that holds one file, \<open>/a\<close>.\<close>

definition demo_card :: sdcard where
  "demo_card = \<lparr>sd_mounted = True, sd_bus_reset_locked = False, sd_capacity_cache = cap_clear, sd_retry_count = 0,
     sd_diag = \<lparr>di_mounted = True, di_capacity_valid = False, di_attempt_count = 1, di_last_source = SOURCE_INIT, di_last_error = ERROR_NONE, di_last_backoff_ms = 0\<rparr>,
     sd_pending = [], sd_pos = 0, sd_files = [SD_MOUNTPOINT @ [0x2F, 0x61] \<mapsto> [7]], sd_trail = [],
     sd_io = (\<lambda>_. \<lparr>so_lock = True, so_err = None, so_room = 8, so_over = False, so_dir = True, so_mem = True, so_fill = 0, so_bytes = 0\<rparr>), sd_tick = 0\<rparr>"

definition demo_path :: "cstring option" where "demo_path = Some [0x2F, 0x61]"

lemma demo_paths: "sdcard_file_paths demo_path = Some (SD_MOUNTPOINT @ [0x2F, 0x61], SD_MOUNTPOINT @ [0x2F, 0x61] @ TMP_SUFFIX, SD_MOUNTPOINT @ [0x2F, 0x61] @ READY_SUFFIX)"
  by (simp add: sdcard_file_paths_def sdcard_vfs_path_def sdcard_temp_path_def sdcard_ready_path_def bounded_path_def demo_path_def
      SD_MOUNTPOINT_def TMP_SUFFIX_def READY_SUFFIX_def LIVE_PATH_SIZE_def SD_MAX_PATH_LEN_def)

lemma demo_write_runs: "fst (run_state (sdcard_write demo_path [1, 2]) demo_card)"
  by code_simp

theorem sd_write_survives_power_loss_witness:
  "fst (run_state (sdcard_read demo_path 4) (demo_card\<lparr>sd_files := sd_files (snd (run_state (sdcard_write demo_path [1, 2]) demo_card))\<rparr>)) = [1, 2]"
proof -
  have "sdcard_path_valid demo_path" by (simp add: sdcard_path_valid_def demo_path_def SD_MAX_PATH_LEN_def)
  moreover have "healthy (demo_card\<lparr>sd_files := fs\<rparr>)" for fs by (simp add: healthy_def demo_card_def)
  ultimately show ?thesis
    using sd_write_survives_power_loss [where s = demo_card and path = demo_path and data = "[1, 2]" and n = 4 and fs = "sd_files (snd (run_state (sdcard_write demo_path [1, 2]) demo_card))" and
        t = "demo_card\<lparr>sd_files := sd_files (snd (run_state (sdcard_write demo_path [1, 2]) demo_card))\<rparr>",
        OF prod.collapse [symmetric] _ demo_paths disjI1 [OF refl]] demo_write_runs
    by simp
qed

end
