(* ===== verification/SdMessageStore.thy ===== *)
theory SdMessageStore
  imports SdCardProps MessageFailover
begin

text \<open>
  The message log on the SD card (\<open>mesh/sd_message_store.cpp\<close>): the backend that the message store
  calls, the choice of the backend at start with the migration of the flash log, and the factory
  reset. The build for the device is modelled; the native doubles of the card are test code.
\<close>

section \<open>The backend\<close>

definition SD_MESSAGE_STORE_MAX_RECORDS :: u32 where "SD_MESSAGE_STORE_MAX_RECORDS = 5000"
definition SD_MESSAGE_STORE_COMPACT_TO_RECORDS :: u32 where "SD_MESSAGE_STORE_COMPACT_TO_RECORDS = 4480"

text \<open>\<open>/sdcard/msgs\<close>\<close>

definition SD_MESSAGE_STORE_PATH :: cstring where
  "SD_MESSAGE_STORE_PATH = [0x2F, 0x73, 0x64, 0x63, 0x61, 0x72, 0x64, 0x2F, 0x6D, 0x73, 0x67, 0x73]"

definition SD_MESSAGE_STORE_MAX_ENCODED_BYTES :: nat where
  "SD_MESSAGE_STORE_MAX_ENCODED_BYTES = MESSAGE_STORE_HEADER_SIZE + (unat SD_MESSAGE_STORE_MAX_RECORDS + 1) * MESSAGE_STORE_RECORD_SIZE"

definition encodedStoreSizeAllowed :: "nat \<Rightarrow> bool" where
  "encodedStoreSizeAllowed n \<longleftrightarrow> n \<noteq> 0 \<and> n \<le> 2 ^ 32 - 1 \<and> n \<le> SD_MESSAGE_STORE_MAX_ENCODED_BYTES"

definition appendPath :: "cstring \<Rightarrow> cstring \<Rightarrow> nat \<Rightarrow> cstring option" where
  "appendPath path ext out_size = (if out_size = 0 then None else bounded_path (path @ ext) out_size)"

definition sdValidateStoreBytes :: "byte list \<Rightarrow> bool" where
  "sdValidateStoreBytes data =
     (if length data < MESSAGE_STORE_HEADER_SIZE then False
      else let magic = get_u32 data 0; version = data ! 4; count = unat (get_u32 data 5); next_id = get_u32 data 9
           in if magic \<noteq> MESSAGE_STORE_MAGIC \<or> version \<noteq> MESSAGE_STORE_VERSION \<or> next_id = 0 \<or>
                 count > unat SD_MESSAGE_STORE_MAX_RECORDS + 1 \<or> length data \<noteq> MESSAGE_STORE_HEADER_SIZE + count * MESSAGE_STORE_RECORD_SIZE
              then False
              else let ids = map (\<lambda>i. get_u32 data (MESSAGE_STORE_HEADER_SIZE + i * MESSAGE_STORE_RECORD_SIZE)) [0..<count]
                   in if list_ex (\<lambda>store_id. store_id = 0 \<or> store_id = next_id) ids then False
                      else let sorted_ids = sort ids
                           in list_all (\<lambda>i. sorted_ids ! (i - 1) \<noteq> sorted_ids ! i) [1..<length sorted_ids])"

definition backendEnsure :: "bool sd" where
  "backendEnsure = gets sd_mounted"

definition backendExists :: "cstring \<Rightarrow> bool sd" where
  "backendExists path = with_bus False (sdcard_exists (Some path))"

definition backendSize :: "cstring \<Rightarrow> nat sd" where
  "backendSize path = with_bus 0 (sdcard_file_size (Some path))"

definition backendReadAt :: "cstring \<Rightarrow> nat \<Rightarrow> nat \<Rightarrow> byte list option sd" where
  "backendReadAt path offset n = with_bus None (sdcard_read_at (Some path) offset n)"

definition backendWriteAt :: "cstring \<Rightarrow> nat \<Rightarrow> byte list \<Rightarrow> bool sd" where
  "backendWriteAt path offset data = with_bus False (sdcard_write_at (Some path) offset data)"

definition backendAppend :: "cstring \<Rightarrow> byte list \<Rightarrow> bool sd" where
  "backendAppend path data = with_bus False (sdcard_append (Some path) data)"

definition backendRemove :: "cstring \<Rightarrow> bool sd" where
  "backendRemove path = with_bus False (sdcard_remove_path (Some path))"

definition backendRename :: "cstring \<Rightarrow> cstring \<Rightarrow> bool sd" where
  "backendRename src dst = with_bus False (sdcard_rename_path (Some src) (Some dst))"

text \<open>Whether the ready file is a complete log: its size plausible, room to read it, and \<open>validate\<close> content.\<close>

definition ready_is_valid :: "cstring \<Rightarrow> (byte list \<Rightarrow> bool) \<Rightarrow> bool sd" where
  "ready_is_valid ready_path validate = do {
     ready_size \<leftarrow> sdcard_file_size (Some ready_path);
     if \<not> encodedStoreSizeAllowed ready_size then ret False
     else do {
       (r, _) \<leftarrow> sd_call;
       ready \<leftarrow> (if so_mem r then sdcard_read_at (Some ready_path) 0 ready_size else ret None);
       ret (case ready of None \<Rightarrow> False | Some d \<Rightarrow> validate d) } }"

definition recover_ready :: "cstring \<Rightarrow> cstring \<Rightarrow> (byte list \<Rightarrow> bool) \<Rightarrow> bool sd" where
  "recover_ready path ready_path validate = do {
     pending \<leftarrow> sdcard_exists (Some ready_path);
     if \<not> pending then ret True
     else do {
       valid \<leftarrow> ready_is_valid ready_path validate;
       if \<not> valid then and_then (sdcard_remove_path (Some ready_path)) (sdcard_exists (Some path))
       else and_then (sdcard_remove_path (Some path)) (sdcard_rename_path (Some ready_path) (Some path)) } }"

definition backendRecover :: "cstring \<Rightarrow> (byte list \<Rightarrow> bool) \<Rightarrow> bool sd" where
  "backendRecover path validate = with_bus False (do {
     m \<leftarrow> gets sd_mounted;
     if \<not> m then ret False
     else case (appendPath path TMP_SUFFIX 256, appendPath path READY_SUFFIX 256) of
       (Some temp_path, Some ready_path) \<Rightarrow> do {
         ok \<leftarrow> recover_ready path ready_path validate;
         if \<not> ok then ret False
         else do {
           stale \<leftarrow> sdcard_exists (Some temp_path);
           if stale then sdcard_remove_path (Some temp_path) else ret True } }
     | _ \<Rightarrow> ret False })"

definition backendReplace :: "cstring \<Rightarrow> byte list \<Rightarrow> bool sd" where
  "backendReplace path data = with_bus False (
     if \<not> sdValidateStoreBytes data then ret False
     else and_then (backendRecover path sdValidateStoreBytes) (sdcard_write (Some path) data))"

definition SD_MESSAGE_STORE_BACKEND :: "sdcard MessageStoreBackend" where
  "SD_MESSAGE_STORE_BACKEND = \<lparr>be_path = Some (\<lambda>_. SD_MESSAGE_STORE_PATH), be_max_records = SD_MESSAGE_STORE_MAX_RECORDS,
     be_compact_to_records = SD_MESSAGE_STORE_COMPACT_TO_RECORDS, be_ensure = Some (run_state backendEnsure),
     be_exists = Some (\<lambda>p. run_state (backendExists p)), be_size = Some (\<lambda>p. run_state (backendSize p)),
     be_read_at = Some (\<lambda>p i n. run_state (backendReadAt p i n)), be_write_at = Some (\<lambda>p i d. run_state (backendWriteAt p i d)),
     be_append = Some (\<lambda>p d. run_state (backendAppend p d)), be_replace = Some (\<lambda>p d. run_state (backendReplace p d)),
     be_recover = Some (\<lambda>p v. run_state (backendRecover p v)), be_remove = Some (\<lambda>p. run_state (backendRemove p)),
     be_rename = Some (\<lambda>p q. run_state (backendRename p q))\<rparr>"

section \<open>Choosing the backend\<close>

record sdstore =
  ss_log :: "sdcard mstore"
  g_using_sd :: bool
  g_degraded :: bool

type_synonym 'a sds = "(sdstore, 'a) state"

definition in_log :: "(sdcard, 'a) ms \<Rightarrow> 'a sds" where
  "in_log m = State (\<lambda>s. case run_state m (ss_log s) of (x, l) \<Rightarrow> (x, s\<lparr>ss_log := l\<rparr>))"

definition selectDefaultStore :: "bool \<Rightarrow> (sdcard, bool \<times> StoredMessage list) ms" where
  "selectDefaultStore spiffs_available = do {
     messageStoreSelectDefaultBackend;
     ok \<leftarrow> (if spiffs_available then messageStoreBegin else ret False);
     if \<not> ok then ret (False, [])
     else do {
       count \<leftarrow> messageStoreCount;
       if count = 0 then ret (True, [])
       else do {
         migration \<leftarrow> messageStoreLoadAll (int count);
         ret (if length migration \<noteq> count then (False, []) else (True, migration)) } } }"

definition migrationIsDurablyRepresented :: "StoredMessage list \<Rightarrow> (sdcard, bool) ms" where
  "migrationIsDurablyRepresented migration =
     (if migration = [] then ret True
      else do {
        count \<leftarrow> messageStoreCount;
        if count < length migration then ret False
        else do {
          destination \<leftarrow> messageStoreLoadAll (int count);
          ret (length destination = count \<and>
               list_all (\<lambda>source. list_ex (\<lambda>candidate. storedMessageSameIdentity source candidate) destination) migration) } })"

definition retireDefaultStore :: "StoredMessage list \<Rightarrow> (sdcard, bool) ms" where
  "retireDefaultStore migration =
     (if migration = [] then ret True
      else do {
        messageStoreSelectDefaultBackend;
        and_then messageStoreBegin messageStoreClear })"

text \<open>Every message is appended until one fails.\<close>

fun append_all :: "(StoredMessage \<Rightarrow> (sdcard, u32 option) ms) \<Rightarrow> StoredMessage list \<Rightarrow> (sdcard, bool) ms" where
  "append_all app [] = ret True"
| "append_all app (m # ms) = do { r \<leftarrow> app m; if r = None then ret False else append_all app ms }"

definition restoreDefaultStoreWithMigration :: "StoredMessage list \<Rightarrow> (sdcard, bool) ms" where
  "restoreDefaultStoreWithMigration migration = do {
     messageStoreSelectDefaultBackend;
     ok \<leftarrow> and_then messageStoreBegin messageStoreClear;
     if \<not> ok then ret False else append_all messageStoreAppend migration }"

text \<open>
  \<open>sdMessageStoreSelect\<close> in stages. Copying opens the card's log, appends every message without the
  fail-over of the public append, and reads the result back. Only then is the flash log emptied
  and the card's log opened again.
\<close>

definition copy_to_card :: "StoredMessage list \<Rightarrow> (sdcard, bool) ms" where
  "copy_to_card migration = do {
     messageStoreSelectBackend (Some SD_MESSAGE_STORE_BACKEND);
     started \<leftarrow> messageStoreBegin;
     if \<not> started then ret False
     else do {
       copied \<leftarrow> append_all appendOnce migration;
       if \<not> copied then ret False else migrationIsDurablyRepresented migration } }"

definition fallBackToDefault :: "bool \<Rightarrow> bool sds" where
  "fallBackToDefault spiffs_ready = do {
     in_log messageStoreSelectDefaultBackend;
     (if spiffs_ready then do { _ \<leftarrow> in_log messageStoreBegin; ret () } else ret ());
     modify (\<lambda>s. s\<lparr>g_degraded := True\<rparr>);
     ret spiffs_ready }"

definition use_card :: "bool sds" where
  "use_card = do { modify (\<lambda>s. s\<lparr>g_using_sd := True, g_degraded := False\<rparr>); ret True }"

definition switch_to_card :: "bool \<Rightarrow> StoredMessage list \<Rightarrow> bool sds" where
  "switch_to_card spiffs_ready migration = do {
     retired \<leftarrow> in_log (retireDefaultStore migration);
     if \<not> retired then fallBackToDefault spiffs_ready
     else do {
       in_log (messageStoreSelectBackend (Some SD_MESSAGE_STORE_BACKEND));
       started \<leftarrow> in_log messageStoreBegin;
       if started then use_card
       else do {
         restored \<leftarrow> in_log (restoreDefaultStoreWithMigration migration);
         if restored then fallBackToDefault spiffs_ready
         else do { modify (\<lambda>s. s\<lparr>g_degraded := True\<rparr>); ret False } } } }"

definition sdMessageStoreSelect :: "bool \<Rightarrow> bool sds" where
  "sdMessageStoreSelect spiffs_available = do {
     modify (\<lambda>s. s\<lparr>g_using_sd := False, g_degraded := False\<rparr>);
     (spiffs_ready, migration) \<leftarrow> in_log (selectDefaultStore spiffs_available);
     card_ready \<leftarrow> gets (\<lambda>s. sd_mounted (ms_media (ss_log s)));
     if \<not> card_ready then do { modify (\<lambda>s. s\<lparr>g_degraded := True\<rparr>); ret spiffs_ready }
     else do {
       copied \<leftarrow> in_log (copy_to_card migration);
       if \<not> copied then fallBackToDefault spiffs_ready
       else if migration = [] then use_card
       else switch_to_card spiffs_ready migration } }"

section \<open>Reset and status\<close>

definition restoreDefaultMessageStore :: "(sdcard, unit) ms" where
  "restoreDefaultMessageStore = do { messageStoreSelectDefaultBackend; _ \<leftarrow> messageStoreBegin; ret () }"

definition resetPath :: "cstring \<Rightarrow> cstring \<Rightarrow> bool sd" where
  "resetPath path ext =
     (case (if ext = [] then bounded_path path 256 else appendPath path ext 256) of
        None \<Rightarrow> ret False
      | Some out \<Rightarrow> do {
          removed \<leftarrow> backendRemove out;
          if \<not> removed then ret False else do { ex \<leftarrow> backendExists out; ret (\<not> ex) } })"

text \<open>All suffixes are tried, also after a failure.\<close>

fun reset_paths :: "cstring \<Rightarrow> cstring list \<Rightarrow> bool sd" where
  "reset_paths path [] = ret True"
| "reset_paths path (x # xs) = do { ok \<leftarrow> resetPath path x; rest \<leftarrow> reset_paths path xs; ret (ok \<and> rest) }"

definition give_up_reset :: "bool \<Rightarrow> bool sds" where
  "give_up_reset result = do {
     modify (\<lambda>s. s\<lparr>g_degraded := True\<rparr>);
     in_log restoreDefaultMessageStore;
     ret result }"

definition sdMessageStoreReset :: "(sdstore \<Rightarrow> bool \<times> sdstore) option \<Rightarrow> bool sds" where
  "sdMessageStoreReset preflight = do {
     was_using_sd \<leftarrow> gets g_using_sd;
     go \<leftarrow> (case preflight of None \<Rightarrow> ret True | Some f \<Rightarrow> State f);
     in_log messageStoreSelectDefaultBackend;
     modify (\<lambda>s. s\<lparr>g_using_sd := False\<rparr>);
     if \<not> go then give_up_reset False
     else do {
       modify (\<lambda>s. s\<lparr>g_degraded := False\<rparr>);
       mounted \<leftarrow> gets (\<lambda>s. sd_mounted (ms_media (ss_log s)));
       if \<not> mounted then give_up_reset (\<not> was_using_sd)
       else do {
         removed \<leftarrow> in_log (on_media (run_state (reset_paths SD_MESSAGE_STORE_PATH [TMP_SUFFIX, READY_SUFFIX, CORRUPT_SUFFIX, []])));
         if \<not> removed then give_up_reset False else ret True } } }"

definition sdMessageStoreUsingSd :: "sdstore \<Rightarrow> bool" where
  "sdMessageStoreUsingSd s \<longleftrightarrow> g_using_sd s \<and> \<not> g_backend_degraded (ss_log s)"

definition sdMessageStoreDegraded :: "sdstore \<Rightarrow> bool" where
  "sdMessageStoreDegraded s \<longleftrightarrow> g_degraded s \<or> g_backend_degraded (ss_log s)"

definition sdMessageStoreCapacity :: "sdstore \<Rightarrow> u32" where
  "sdMessageStoreCapacity s = (if sdMessageStoreUsingSd s then SD_MESSAGE_STORE_MAX_RECORDS else MESSAGE_STORE_MAX_RECORDS)"

definition sdMessageStoreFreeBytes :: "(64 word) sds" where
  "sdMessageStoreFreeBytes = do {
     mounted \<leftarrow> gets (\<lambda>s. sd_mounted (ms_media (ss_log s)));
     if mounted then in_log (on_media (run_state sdcard_free_bytes)) else ret 0 }"

end
