(* ===== verification/SdMigration.thy ===== *)
theory SdMigration
  imports SdMessageStore MessageReplace
begin

text \<open>
  The choice of the message backend keeps the messages: an operation on the card's log does not
  touch the flash, what is read back from the card is on the card, and the flash log is emptied
  only after every message was found there.
\<close>

section \<open>Operations on another backend leave the flash alone\<close>

definition off_flash :: "('m, 'a) ms \<Rightarrow> bool" where
  "off_flash m \<longleftrightarrow> (\<forall>s. g_backend s \<noteq> None \<longrightarrow> (case run_state m s of (_, s') \<Rightarrow> g_backend s' = g_backend s \<and>
     ms_flash s' = ms_flash s \<and> ms_trace s' = ms_trace s \<and> ms_io s' = ms_io s \<and> ms_heap s' = ms_heap s))"

lemma off_flashD:
  assumes "off_flash m" and "g_backend s \<noteq> None" and "run_state m s = (x, s')"
  shows "g_backend s' = g_backend s" "ms_flash s' = ms_flash s" "ms_trace s' = ms_trace s" "ms_io s' = ms_io s" "ms_heap s' = ms_heap s"
  using assms(1) [unfolded off_flash_def, rule_format, OF assms(2)] assms(3) by auto

named_theorems off_intros

lemma off_basic [off_intros]: "off_flash (ret x)" "off_flash (gets f)" "off_flash (on_media g)" "off_flash (identityIndexAdd m)"
  by (simp_all add: off_flash_def on_media_def identityIndexAdd_def split: prod.splits)

lemma off_modify [off_intros]:
  "off_flash (modify (\<lambda>s. s\<lparr>g_identity_index_valid := b\<rparr>))" "off_flash (modify (\<lambda>s. s\<lparr>g_identity_index := xs, g_identity_index_valid := b\<rparr>))"
  "off_flash (modify (\<lambda>s. s\<lparr>g_identity_index_capacity := n\<rparr>))" "off_flash (modify (\<lambda>s. s\<lparr>g_append_recovery_required := b\<rparr>))"
  "off_flash (modify (\<lambda>s. s\<lparr>g_append_recovery_required := b, g_identity_index_valid := c\<rparr>))"
  "off_flash (modify (\<lambda>s. s\<lparr>g_last_recovery_result := r\<rparr>))" "off_flash (modify (\<lambda>s. s\<lparr>g_retry_queue := q\<rparr>))"
  "off_flash (modify (\<lambda>s. s\<lparr>g_retry_queue_drop_count := w\<rparr>))"
  "off_flash (modify (\<lambda>s. s\<lparr>g_companion_backlog_drop_count := g_companion_backlog_drop_count s + w\<rparr>))"
  by (simp_all add: off_flash_def)

lemma off_bind [off_intros]:
  assumes "off_flash m" and "\<And>x. off_flash (f x)"
  shows "off_flash (m \<bind> f)"
  unfolding off_flash_def
proof (intro allI impI)
  fix s :: "'a mstore" assume b: "g_backend s \<noteq> None"
  obtain x s1 where 1: "run_state m s = (x, s1)" by force
  obtain y s2 where 2: "run_state (f x) s1 = (y, s2)" by force
  note d1 = off_flashD [OF assms(1) b 1]
  then have b1: "g_backend s1 \<noteq> None" using b by simp
  show "case run_state (m \<bind> f) s of (_, s') \<Rightarrow> g_backend s' = g_backend s \<and> ms_flash s' = ms_flash s \<and> ms_trace s' = ms_trace s \<and>
      ms_io s' = ms_io s \<and> ms_heap s' = ms_heap s"
    using d1 off_flashD [OF assms(2) b1 2] 1 2 by simp
qed

lemma off_if [off_intros]: "off_flash a \<Longrightarrow> off_flash b \<Longrightarrow> off_flash (if c then a else b)"
  by simp

lemma off_option [off_intros]: "off_flash a \<Longrightarrow> (\<And>x. off_flash (f x)) \<Longrightarrow> off_flash (case opt of None \<Rightarrow> a | Some x \<Rightarrow> f x)"
  by (cases opt) auto

lemma off_Some [off_intros]: "off_flash (f b) \<Longrightarrow> off_flash (case Some b of None \<Rightarrow> a | Some x \<Rightarrow> f x)"
  by simp

lemma off_prod [off_intros]: "(\<And>x y. off_flash (f x y)) \<Longrightarrow> off_flash (case p of (x, y) \<Rightarrow> f x y)"
  by (cases p) auto

lemma off_Let [off_intros]: "off_flash (f x) \<Longrightarrow> off_flash (Let x f)"
  by (simp add: Let_def)

lemma off_backend [off_intros]:
  assumes "\<And>b. off_flash (f (Some b))"
  shows "off_flash (gets g_backend \<bind> f)"
  unfolding off_flash_def
proof (intro allI impI)
  fix s :: "'a mstore" assume b: "g_backend s \<noteq> None"
  then obtain be where be: "g_backend s = Some be" by auto
  obtain y s2 where 2: "run_state (f (Some be)) s = (y, s2)" by force
  show "case run_state (gets g_backend \<bind> f) s of (_, s') \<Rightarrow> g_backend s' = g_backend s \<and> ms_flash s' = ms_flash s \<and> ms_trace s' = ms_trace s \<and>
      ms_io s' = ms_io s \<and> ms_heap s' = ms_heap s"
    using off_flashD [OF assms b 2] be 2 by simp
qed

lemma off_readHeader [off_intros]: "off_flash readHeader"
  unfolding readHeader_def keeps_defs by (intro off_intros)

lemma off_writeHeaderState [off_intros]: "off_flash (writeHeaderState c n)"
  unfolding writeHeaderState_def keeps_defs by (intro off_intros)

lemma off_readPayload [off_intros]: "off_flash (readPayload a b c)"
  unfolding readPayload_def keeps_defs by (intro off_intros)

lemma off_loadAll [off_intros]: "off_flash (loadAllInternal n)"
  unfolding loadAllInternal_def by (intro off_intros)

lemma off_getById [off_intros]: "off_flash (messageStoreGetById i)"
  unfolding messageStoreGetById_def by (intro off_intros)

lemma off_fold [off_intros]: "(\<And>x. off_flash (f x)) \<Longrightarrow> off_flash k \<Longrightarrow> off_flash (foldr (\<lambda>m k. do { f m; k }) xs k)"
  by (induction xs) (auto intro: off_intros)

lemma off_indexClear [off_intros]: "off_flash identityIndexClear"
  unfolding keeps_defs by (intro off_intros)

lemma off_rebuild [off_intros]: "off_flash rebuildIdentityIndex"
  unfolding rebuildIdentityIndex_def keeps_defs by (intro off_intros)

lemma off_existsLoop [off_intros]: "off_flash (exists_loop m h es)"
  by (induction m h es rule: exists_loop.induct) (auto intro!: off_intros)

lemma off_messageExists [off_intros]: "off_flash (messageExists m)"
  unfolding messageExists_def by (intro off_intros)

lemma off_replace [off_intros]: "off_flash (atomicReplaceStore ms n)"
  unfolding atomicReplaceStore_def keeps_defs by (intro off_intros)

lemma off_writeHeaderIfNeeded [off_intros]: "off_flash writeHeaderIfNeeded"
  unfolding writeHeaderIfNeeded_def keeps_defs by (intro off_intros)

lemma off_quarantine [off_intros]: "off_flash quarantineStoreAndReset"
  unfolding quarantineStoreAndReset_def quarantinePath_def keeps_defs by (intro off_intros)

lemma off_repair [off_intros]: "off_flash repairInterruptedAppend"
  unfolding repairInterruptedAppend_def readRecoverablePrefix_def keeps_defs by (intro off_intros)

lemma off_migrate [off_intros]: "off_flash migrateOlderStore"
  unfolding migrateOlderStore_def readVersion5Records_def keeps_defs by (intro off_intros)

lemma off_clear [off_intros]: "off_flash messageStoreClear"
  unfolding messageStoreClear_def retryQueueClear_def by (intro off_intros)

lemma off_compact [off_intros]: "off_flash (compactStoreToRecent n)"
  unfolding compactStoreToRecent_def readCompleteRecords_def keeps_defs by (intro off_intros)

lemma off_storeAppend [off_intros]: "off_flash (storeAppend p d)"
  unfolding storeAppend_def keeps_defs by (intro off_intros)

lemma off_appendOnce [off_intros]: "off_flash (appendOnce msg)"
  unfolding appendOnce_def append_prepare_def append_record_def keeps_defs by (intro off_intros)

lemma off_begin [off_intros]: "off_flash messageStoreBegin"
  unfolding messageStoreBegin_def recovery_step_def recover_replacement_def keeps_defs by (intro off_intros)

lemma off_append_all [off_intros]: "(\<And>m. off_flash (app m)) \<Longrightarrow> off_flash (append_all app ms)"
  by (induction ms) (auto intro!: off_intros)

lemma off_represented [off_intros]: "off_flash (migrationIsDurablyRepresented ms)"
  unfolding migrationIsDurablyRepresented_def messageStoreCount_def messageStoreLoadAll_def by (intro off_intros)

section \<open>The flash log on a working flash\<close>

text \<open>The flash works and holds the log \<open>ms\<close>, whichever backend is selected.\<close>

definition flash_log :: "'m mstore \<Rightarrow> StoredMessage list \<Rightarrow> bool" where
  "flash_log s ms \<longleftrightarrow> ms_io s = (\<lambda>_. calm_io) \<and> ms_heap s = (\<lambda>_. True) \<and> length ms \<le> 512 \<and> ms_flash s MSG_TEMP = None \<and>
     (\<exists>nid. log_ok 513 ms nid \<and> ms_flash s MSG_STORE_PATH = Some (store_bytes ms nid))"

lemma flash_log_state: "calm s \<Longrightarrow> log_state s ms nid \<Longrightarrow> length ms \<le> 512 \<Longrightarrow> flash_log s ms"
  by (auto simp: flash_log_def calm_def log_state_def)

lemma flash_log_off: "off_flash m \<Longrightarrow> g_backend s \<noteq> None \<Longrightarrow> run_state m s = (x, s') \<Longrightarrow> flash_log s ms \<Longrightarrow> flash_log s' ms \<and> g_backend s' = g_backend s"
  using off_flashD [of m s x s'] by (simp add: flash_log_def)

lemma select_run: "run_state (messageStoreSelectBackend b) s = ((), s\<lparr>g_backend := b, g_backend_degraded := False,
     g_identity_index := [], g_identity_index_valid := False, g_append_recovery_required := False\<rparr>)"
  by (simp add: messageStoreSelectBackend_def)

lemma default_begin:
  assumes "flash_log s ms"
  obtains s1 s2 nid where "run_state messageStoreSelectDefaultBackend s = ((), s1)" "run_state messageStoreBegin s1 = (True, s2)"
    "calm s2" "log_state s2 ms nid"
proof -
  let ?s1 = "s\<lparr>g_backend := None, g_backend_degraded := False, g_identity_index := [], g_identity_index_valid := False, g_append_recovery_required := False\<rparr>"
  obtain n where n: "log_ok 513 ms n" "ms_flash s MSG_STORE_PATH = Some (store_bytes ms n)" "length ms \<le> 512" "ms_flash s MSG_TEMP = None"
    using assms by (auto simp: flash_log_def)
  have "calm ?s1" using assms by (simp add: flash_log_def calm_def)
  then obtain s2 nid where "run_state messageStoreBegin ?s1 = (True, s2)" "calm s2" "log_state s2 ms nid"
    using calm_begin [of ?s1 "header_bytes (word_of_nat (length ms)) n" ms "[]"] n unat_count [of "length ms" 513]
    by (auto simp: store_header log_ok_def store_bytes_def)
  then show ?thesis using that [of ?s1] by (simp add: messageStoreSelectDefaultBackend_def select_run)
qed

lemma calm_clear:
  assumes c: "calm s" and L: "log_state s ms nid"
  shows "\<exists>s'. run_state messageStoreClear s = (True, s') \<and> calm s' \<and> log_state s' [] 1 \<and> g_retry_queue s' = []"
proof -
  have ok: "log_ok 513 [] 1" by (simp add: log_ok_def)
  obtain s1 where 1: "run_state (atomicReplaceStore [] 1) s = (True, s1)"
    and m: "moved s ((ms_flash s)(MSG_STORE_PATH := Some (store_bytes [] 1), MSG_TEMP := None)) s1"
    using calm_replace [OF c ok] by blast
  have c1: "calm s1" "ms_flash s1 = (ms_flash s)(MSG_STORE_PATH := Some (store_bytes [] 1), MSG_TEMP := None)" using moved_simps [OF m] c by simp_all
  let ?s2 = "s1\<lparr>g_identity_index_capacity := max 512 (g_identity_index_capacity s1), g_identity_index := [], g_identity_index_valid := True,
    g_append_recovery_required := False, g_retry_queue := [], g_retry_queue_drop_count := 0\<rparr>"
  have "run_state messageStoreClear s = (True, ?s2)" using 1 calm_indexClear [OF c1(1)] by (simp add: messageStoreClear_def retryQueueClear_def)
  moreover have "calm ?s2" using c1(1) by (simp add: calm_def)
  moreover have "log_state ?s2 [] 1" using ok c1(2) by (simp add: log_state_def index_of_def)
  ultimately show ?thesis by auto
qed

lemma identity_refl: "storedMessageSameIdentity m m"
  by (simp add: storedMessageSameIdentity_def strncmp_eq_def Let_def)

lemma identity_sym: "storedMessageSameIdentity a b \<Longrightarrow> storedMessageSameIdentity b a"
  by (auto simp: storedMessageSameIdentity_def strncmp_eq_def Let_def split: if_splits)

lemma identity_normal:
  assumes "msg_wf m" and "storedMessageSameIdentity x (storedMessageNormalize m)"
  shows "storedMessageSameIdentity x (stored_message m)"
proof -
  let ?n = "storedMessageNormalize m" and ?t = "stored_message m"
  have "cstr (take 32 (sm_conversation ?n)) = cstr (take 32 (sm_conversation ?t))" "cstr (take 32 (sm_sender ?n)) = cstr (take 32 (sm_sender ?t))"
    "cstr (take 160 (sm_text ?n)) = cstr (take 160 (sm_text ?t))"
    by (simp_all add: stored_message_def storedMessageNormalize_def copy_truncate_n_eq normalized_texts [OF assms(1)] del: take_append)
  moreover have "sm_sender_prefix ?n = sm_sender_prefix ?t" "sm_timestamp ?n = sm_timestamp ?t" "sm_txt_type ?n = sm_txt_type ?t"
    "sm_extra_len ?n = sm_extra_len ?t" "sm_extra ?n = sm_extra ?t" "sm_is_self ?n = sm_is_self ?t" "sm_is_channel ?n = sm_is_channel ?t"
    by (simp_all add: stored_message_def storedMessageNormalize_def)
  ultimately show ?thesis using assms(2) unfolding storedMessageSameIdentity_def strncmp_eq_def Let_def by metis
qed

text \<open>Appending messages one by one to a log with room for all of them stores each, or finds it there.\<close>

lemma calm_append_all:
  assumes "calm s" and "log_state s acc nid" and "g_retry_queue s = []" and "length acc + length ms \<le> 512" and "list_all msg_wf ms"
  shows "\<exists>s' acc' nid'. run_state (append_all messageStoreAppend ms) s = (True, s') \<and> calm s' \<and> log_state s' acc' nid' \<and> length acc' \<le> 512 \<and>
    set acc \<subseteq> set acc' \<and> (\<forall>m \<in> set ms. \<exists>x \<in> set acc'. storedMessageSameIdentity (stored_message m) (stored_message x))"
  using assms
proof (induction ms arbitrary: s acc nid)
  case Nil
  then show ?case by (auto intro!: exI [of _ acc])
next
  case (Cons m ms)
  let ?same = "\<lambda>x. storedMessageSameIdentity (stored_message x) (storedMessageNormalize m)"
  let ?dup = "List.find ?same acc" and ?m = "(storedMessageNormalize m)\<lparr>sm_store_id := nid\<rparr>"
  let ?acc = "acc @ (if ?dup = None then [?m] else [])"
  have wf: "msg_wf m" and n: "length acc < 512" using Cons.prems by simp_all
  obtain i s1 fid where 1: "run_state (appendOnce m) s = (Some i, s1)" "calm s1" "log_state s1 ?acc fid"
    using appendOnce_queue [OF Cons.prems(1,2) n wf] by blast
  have a: "run_state (messageStoreAppend m) s = (Some i, s1)" by (rule append_default [OF Cons.prems(1,3) 1(1)])
  have q: "g_retry_queue s1 = []" using keepsD(3) [OF keeps_appendOnce 1(1)] Cons.prems(3) by simp
  have "\<exists>x \<in> set ?acc. ?same x"
  proof (cases ?dup)
    case None
    have "?same ?m" using stored_identity [OF wf, of nid] stored_normalize [OF wf, of nid] by simp
    then show ?thesis using None by auto
  next
    case (Some d)
    then show ?thesis by (auto simp: find_Some_iff)
  qed
  then have found: "\<exists>x \<in> set ?acc. storedMessageSameIdentity (stored_message m) (stored_message x)"
    using identity_normal [OF wf] identity_sym by blast
  have "length ?acc + length ms \<le> 512" using Cons.prems(4) by simp
  then obtain s' acc' nid' where "run_state (append_all messageStoreAppend ms) s1 = (True, s')" "calm s'" "log_state s' acc' nid'" "length acc' \<le> 512"
    "set ?acc \<subseteq> set acc'" "\<forall>m \<in> set ms. \<exists>x \<in> set acc'. storedMessageSameIdentity (stored_message m) (stored_message x)"
    using Cons.IH [OF 1(2,3) q] Cons.prems(5) by auto
  then show ?case using a found by (intro exI [of _ s'] exI [of _ acc'] exI [of _ nid']) auto
qed

section \<open>What is read from the card is on the card\<close>

definition card_messages :: "sdcard \<Rightarrow> nat \<Rightarrow> StoredMessage list" where
  "card_messages c n = (case sd_files c SD_MESSAGE_STORE_PATH of None \<Rightarrow> []
     | Some d \<Rightarrow> List.map_filter (message_at (drop MESSAGE_STORE_HEADER_SIZE d)) [0..<n])"

lemma card_path: "sdcard_vfs_path (Some SD_MESSAGE_STORE_PATH) LIVE_PATH_SIZE = Some SD_MESSAGE_STORE_PATH"
  by (simp add: sdcard_vfs_path_def bounded_path_def SD_MESSAGE_STORE_PATH_def SD_MOUNTPOINT_def LIVE_PATH_SIZE_def SD_MAX_PATH_LEN_def)

lemma read_stream_file:
  assumes "run_state (read_stream_at live off n) c = (Some bs, c')"
  shows "\<exists>d. sd_files c' live = Some d \<and> bs = take n (drop off d) \<and> length bs = n"
proof -
  obtain r1 e1 c1 where 1: "run_state sd_call c = ((r1, e1), c1)" "same_card c c1" by (rule run_callE)
  have "e1 = None" using assms 1 by (cases e1) (auto simp: read_stream_at_def fopen_read_def split_beta)
  then obtain d where d: "sd_files c1 live = Some d" using assms 1 by (cases "sd_files c1 live") (auto simp: read_stream_at_def fopen_read_def split_beta)
  obtain r2 e2 c2 where 2: "run_state sd_call c1 = ((r2, e2), c2)" "same_card c1 c2" by (rule run_callE)
  obtain r3 e3 c3 where 3: "run_state sd_call c2 = ((r3, e3), c3)" "same_card c2 c3" by (rule run_callE)
  let ?got = "if e3 = None then take n (drop off d) else take (so_room r3) (take n (drop off d))"
  obtain r4 e4 c4 where 4: "run_state sd_call c3 = ((r4, e4), c4)" "same_card c3 c4" by (rule run_callE)
  obtain b c5 where 5: "run_state (noting e4) c4 = (b, c5)" by force
  have e2: "e2 = None"
  proof (rule ccontr)
    assume "e2 \<noteq> None"
    then show False using assms 1(1) 2(1) \<open>e1 = None\<close> d
      by (cases e2) (auto simp: read_stream_at_def fopen_read_def fclose_in_def noting_def Let_def split_beta)
  qed
  have len: "length ?got = n"
  proof (rule ccontr)
    assume "length ?got \<noteq> n"
    then show False using assms 1(1) 2(1) 3(1) e2 \<open>e1 = None\<close> d
      by (auto simp: read_stream_at_def fopen_read_def fread_at_def fclose_in_def Let_def split_beta split: if_splits)
  qed
  then have "bs = ?got \<and> c' = c5"
    using assms 1(1) 2(1) 3(1) 4(1) 5 e2 \<open>e1 = None\<close> d
    by (auto simp: read_stream_at_def fopen_read_def fread_at_def fclose_in_def Let_def split: if_splits)
  moreover have "same_card c1 c5"
    using same_card_trans [OF same_card_trans [OF same_card_trans [OF 2(2) 3(2)] 4(2)]] same_card_noting [of c4 e4] 5 by simp
  moreover have "?got = take n (drop off d)" using len by (auto simp: take_all_iff split: if_splits)
  ultimately show ?thesis using d len by (auto simp: same_card_def)
qed

lemma backend_read_file:
  assumes "run_state (backendReadAt SD_MESSAGE_STORE_PATH off n) c = (Some bs, c')" and "n > 0"
  shows "\<exists>d. sd_files c' SD_MESSAGE_STORE_PATH = Some d \<and> bs = take n (drop off d)"
proof -
  obtain r1 e1 c1 where 1: "run_state sd_call c = ((r1, e1), c1)" by (rule run_callE)
  obtain r2 e2 c2 where 2: "run_state sd_call c1 = ((r2, e2), c2)" by (rule run_callE)
  obtain ok c3 where 3: "run_state (sdcard_recover (Some SD_MESSAGE_STORE_PATH)) c2 = (ok, c3)" by force
  have "run_state (read_stream_at SD_MESSAGE_STORE_PATH off n) c3 = (Some bs, c')"
    using assms 1 2 3 by (auto simp: backendReadAt_def sdcard_read_at_def with_bus_def card_path split: if_splits bool.splits)
  then show ?thesis using read_stream_file by blast
qed

lemma message_at_take: "i < n \<Longrightarrow> message_at (take (254 * n) x) i = message_at x i"
proof -
  assume "i < n"
  then have "254 * n - i * 254 \<ge> 254" by simp
  then show ?thesis by (simp add: message_at_def record_at_def message_sizes drop_take min_def)
qed

lemma card_loaded:
  assumes "g_backend s = Some SD_MESSAGE_STORE_BACKEND" and "run_state (loadAllInternal mx) s = (out, s')" and "out \<noteq> []"
  shows "\<exists>n. out = card_messages (ms_media s') n"
proof -
  obtain h s1 where 1: "run_state readHeader s = (h, s1)" by force
  have b1: "g_backend s1 = Some SD_MESSAGE_STORE_BACKEND" using off_flashD(1) [OF off_readHeader _ 1] assms(1) by simp
  obtain count nid where h: "h = Some (count, nid)" using assms(2,3) 1 by (cases h) (auto simp: loadAllInternal_def split: if_splits)
  let ?n = "min count (nat mx)"
  obtain x s2 where 2: "run_state (readPayload ?n MESSAGE_STORE_HEADER_SIZE MESSAGE_STORE_RECORD_SIZE) s1 = (x, s2)" by force
  have out: "out = (case x of None \<Rightarrow> [] | Some p \<Rightarrow> List.map_filter (message_at p) [0..<?n])" "s' = s2"
    using assms(2,3) 1 2 h by (auto simp: loadAllInternal_def Let_def split: if_splits option.splits)
  then obtain p where p: "x = Some p" using assms(3) by (cases x) auto
  obtain y m where y: "run_state (backendReadAt SD_MESSAGE_STORE_PATH 13 (254 * ?n)) (ms_media s1) = (y, m)" by force
  have n0: "?n \<noteq> 0" using 2 p by (cases "?n = 0") (simp_all add: readPayload_def)
  then have "y = Some p" "ms_media s2 = m"
    using 2 p y b1 by (auto simp: readPayload_def storePath_def storeReadAt_def on_media_def allocateRaw_def SD_MESSAGE_STORE_BACKEND_def message_sizes
        split: if_splits prod.splits)
  then obtain d where "sd_files (ms_media s2) SD_MESSAGE_STORE_PATH = Some d" "p = take (254 * ?n) (drop 13 d)"
    using backend_read_file [of 13 "254 * ?n" "ms_media s1" p m] y n0 by auto
  moreover have "List.map_filter (message_at (take (254 * ?n) (drop 13 d))) [0..<?n] = List.map_filter (message_at (drop 13 d)) [0..<?n]"
    by (auto simp: List.map_filter_def message_at_take intro!: map_cong filter_cong)
  ultimately show ?thesis using out p by (auto simp: card_messages_def message_sizes intro!: exI [of _ ?n])
qed

text \<open>A successful copy was read back: every message is among the records of the file on the card.\<close>

lemma copied_to_card:
  assumes "run_state (copy_to_card ms) s = (True, s')" 
  shows "\<exists>n. \<forall>m \<in> set ms. \<exists>x \<in> set (card_messages (ms_media s') n). storedMessageSameIdentity m x"
proof (cases "ms = []")
  case False
  obtain s1 where 1: "run_state (messageStoreSelectBackend (Some SD_MESSAGE_STORE_BACKEND)) s = ((), s1)" "g_backend s1 = Some SD_MESSAGE_STORE_BACKEND"
    by (simp add: select_run)
  obtain b s2 where 2: "run_state messageStoreBegin s1 = (b, s2)" by force
  obtain c s3 where 3: "run_state (append_all appendOnce ms) s2 = (c, s3)" by force
  have b3: "g_backend s3 = Some SD_MESSAGE_STORE_BACKEND"
    using off_flashD(1) [OF off_begin _ 2] off_flashD(1) [OF off_append_all [OF off_appendOnce] _ 3] 1(2) by simp
  have r: "run_state (migrationIsDurablyRepresented ms) s3 = (True, s')"
    using assms 1(1) 2 3 by (auto simp: copy_to_card_def split: if_splits)
  obtain count s4 where 4: "run_state messageStoreCount s3 = (count, s4)" by force
  have b4: "g_backend s4 = Some SD_MESSAGE_STORE_BACKEND"
    using off_flashD(1) [OF _ _ 4] b3 unfolding messageStoreCount_def by (simp add: off_intros)
  obtain out s5 where 5: "run_state (loadAllInternal (int count)) s4 = (out, s5)" by force
  have v: "s' = s5 \<and> length ms \<le> count \<and> length out = count \<and> list_all (\<lambda>m. list_ex (storedMessageSameIdentity m) out) ms"
    using r 4 5 False by (auto simp: migrationIsDurablyRepresented_def messageStoreLoadAll_def split: if_splits)
  then have "out \<noteq> []" using False by auto
  then obtain n where "out = card_messages (ms_media s5) n" using card_loaded [OF b4 5] by blast
  then show ?thesis using v by (auto simp: list_all_iff list_ex_iff)
qed simp

section \<open>The choice of the backend\<close>

lemma run_in_log: "run_state (in_log m) s = (case run_state m (ss_log s) of (x, l) \<Rightarrow> (x, s\<lparr>ss_log := l\<rparr>))"
  by (simp add: in_log_def)

text \<open>The log that is active on the flash has every message.\<close>

definition on_flash :: "sdcard mstore \<Rightarrow> StoredMessage list \<Rightarrow> bool" where
  "on_flash l ms \<longleftrightarrow> g_backend l = None \<and>
     (\<forall>m \<in> set ms. \<exists>x \<in> set (fst (run_state (messageStoreLoadAll 512) l)). storedMessageSameIdentity (stored_message m) x)"

lemma on_flashI:
  assumes "calm l" and "log_state l acc nid" and "length acc \<le> 512"
    and "\<forall>m \<in> set ms. \<exists>x \<in> set acc. storedMessageSameIdentity (stored_message m) (stored_message x)"
  shows "on_flash l ms"
  using log_loaded [OF assms(1-3)] assms(4) calm_backend [OF assms(1)] by (auto simp: on_flash_def)

lemma default_store:
  assumes "flash_log l old"
  shows "\<exists>l' nid. run_state (selectDefaultStore True) l = ((True, map stored_message old), l') \<and> calm l' \<and> log_state l' old nid"
proof -
  obtain l1 l2 nid where 1: "run_state messageStoreSelectDefaultBackend l = ((), l1)" and 2: "run_state messageStoreBegin l1 = (True, l2)"
    and c: "calm l2" and L: "log_state l2 old nid" by (rule default_begin [OF assms])
  have f: "ms_flash l2 MSG_STORE_PATH = Some (store_bytes old nid)" "log_ok 513 old nid" using L by (simp_all add: log_state_def)
  have h: "run_state messageStoreCount l2 = (length old, ticks 2 l2)" using calm_header [OF c f] by (simp add: messageStoreCount_def)
  show ?thesis
  proof (cases "old = []")
    case True
    then show ?thesis using 1 2 h c L by (auto simp: selectDefaultStore_def log_state_def)
  next
    case False
    obtain k where k: "run_state (loadAllInternal (int (length old))) (ticks 2 l2) = (map stored_message old, ticks k (ticks 2 l2))"
      using calm_loadAll [of "ticks 2 l2" old nid "int (length old)"] c f by auto
    then have "run_state (selectDefaultStore True) l = ((True, map stored_message old), ticks k (ticks 2 l2))"
      using 1 2 h False by (simp add: selectDefaultStore_def messageStoreLoadAll_def)
    then show ?thesis using c L by (auto simp: log_state_def)
  qed
qed

lemma fall_back:
  assumes "flash_log (ss_log s) acc" and "\<forall>m \<in> set ms. \<exists>x \<in> set acc. storedMessageSameIdentity (stored_message m) (stored_message x)"
    and "\<not> g_using_sd s"
  shows "\<exists>s'. run_state (fallBackToDefault True) s = (True, s') \<and> \<not> g_using_sd s' \<and> g_degraded s' \<and> on_flash (ss_log s') ms"
proof -
  obtain l1 l2 nid where 1: "run_state messageStoreSelectDefaultBackend (ss_log s) = ((), l1)" and 2: "run_state messageStoreBegin l1 = (True, l2)"
    and c: "calm l2" and L: "log_state l2 acc nid" by (rule default_begin [OF assms(1)])
  have "length acc \<le> 512" using assms(1) by (simp add: flash_log_def)
  then show ?thesis using 1 2 on_flashI [OF c L] assms(2,3) by (simp add: fallBackToDefault_def run_in_log)
qed

lemma flash_log_card:
  assumes "flash_log l ms" and "run_state (messageStoreSelectBackend (Some b)) l = ((), l1)"
  shows "flash_log l1 ms \<and> g_backend l1 = Some b"
  using assms by (auto simp: select_run flash_log_def)

lemma same_self: "\<forall>m \<in> set ms. \<exists>x \<in> set ms. storedMessageSameIdentity (stored_message m) (stored_message x)"
  using identity_refl by blast

lemma copy_keeps_flash:
  assumes "flash_log l old" and "run_state (copy_to_card ms) l = (r, l')"
  shows "flash_log l' old \<and> (r \<longrightarrow> g_backend l' = Some SD_MESSAGE_STORE_BACKEND)"
proof -
  obtain l1 where 1: "run_state (messageStoreSelectBackend (Some SD_MESSAGE_STORE_BACKEND)) l = ((), l1)" by (simp add: select_run)
  note f1 = flash_log_card [OF assms(1) 1]
  obtain b l2 where 2: "run_state messageStoreBegin l1 = (b, l2)" by force
  have f2: "flash_log l2 old \<and> g_backend l2 = Some SD_MESSAGE_STORE_BACKEND" using flash_log_off [OF off_begin _ 2] f1 by auto
  obtain c l3 where 3: "run_state (append_all appendOnce ms) l2 = (c, l3)" by force
  have f3: "flash_log l3 old \<and> g_backend l3 = Some SD_MESSAGE_STORE_BACKEND" using flash_log_off [OF off_append_all [OF off_appendOnce] _ 3] f2 by auto
  obtain d l4 where 4: "run_state (migrationIsDurablyRepresented ms) l3 = (d, l4)" by force
  have f4: "flash_log l4 old \<and> g_backend l4 = Some SD_MESSAGE_STORE_BACKEND" using flash_log_off [OF off_represented _ 4] f3 by auto
  have "l' = l2 \<or> l' = l3 \<or> l' = l4" using assms(2) 1 2 3 4 by (auto simp: copy_to_card_def split: if_splits)
  then show ?thesis using f2 f3 f4 by auto
qed

lemma restore_run:
  assumes "flash_log l acc" and "list_all msg_wf ms" and "length ms \<le> 512"
  shows "\<exists>l' acc'. run_state (restoreDefaultStoreWithMigration (map stored_message ms)) l = (True, l') \<and> flash_log l' acc' \<and>
    (\<forall>m \<in> set ms. \<exists>x \<in> set acc'. storedMessageSameIdentity (stored_message m) (stored_message x))"
proof -
  obtain l1 l2 nid where 1: "run_state messageStoreSelectDefaultBackend l = ((), l1)" and 2: "run_state messageStoreBegin l1 = (True, l2)"
    and c: "calm l2" and L: "log_state l2 acc nid" by (rule default_begin [OF assms(1)])
  obtain l3 where 3: "run_state messageStoreClear l2 = (True, l3)" "calm l3" "log_state l3 [] 1" "g_retry_queue l3 = []"
    using calm_clear [OF c L] by blast
  obtain l4 acc' nid' where 4: "run_state (append_all messageStoreAppend (map stored_message ms)) l3 = (True, l4)" "calm l4" "log_state l4 acc' nid'"
    "length acc' \<le> 512" "\<forall>m \<in> set ms. \<exists>x \<in> set acc'. storedMessageSameIdentity (stored_message m) (stored_message x)"
    using calm_append_all [OF 3(2-4), of "map stored_message ms"] assms(2,3) stored_list_wf by auto
  have "run_state (restoreDefaultStoreWithMigration (map stored_message ms)) l = (True, l4)"
    using 1 2 3(1) 4(1) by (simp add: restoreDefaultStoreWithMigration_def)
  then show ?thesis using flash_log_state [OF 4(2-4)] 4(5) by blast
qed

text \<open>How a choice may end: with the card's log open, or with the flash log open and complete.\<close>

definition kept :: "StoredMessage list \<Rightarrow> bool \<Rightarrow> sdstore \<Rightarrow> bool" where
  "kept old r s \<longleftrightarrow> r \<and> (if g_using_sd s then \<not> g_degraded s \<and> g_backend (ss_log s) = Some SD_MESSAGE_STORE_BACKEND
     else g_degraded s \<and> on_flash (ss_log s) old)"

lemma use_card_kept: "g_backend (ss_log s) = Some SD_MESSAGE_STORE_BACKEND \<Longrightarrow> run_state use_card s = (r, s') \<Longrightarrow> kept old r s'"
  by (auto simp: use_card_def kept_def)

lemma switch_kept:
  assumes f: "flash_log (ss_log s) old" and u: "\<not> g_using_sd s" and ne: "old \<noteq> []"
    and run: "run_state (switch_to_card True (map stored_message old)) s = (r, s')"
  shows "kept old r s'"
proof -
  have wf: "list_all msg_wf old" "length old \<le> 512" using f by (auto simp: flash_log_def log_ok_def)
  obtain l1 l2 nid where 1: "run_state messageStoreSelectDefaultBackend (ss_log s) = ((), l1)" and 2: "run_state messageStoreBegin l1 = (True, l2)"
    and c: "calm l2" and L: "log_state l2 old nid" by (rule default_begin [OF f])
  obtain l3 where 3: "run_state messageStoreClear l2 = (True, l3)" "calm l3" "log_state l3 [] 1"
    using calm_clear [OF c L] by blast
  have ret: "run_state (retireDefaultStore (map stored_message old)) (ss_log s) = (True, l3)"
    using 1 2 3(1) ne by (simp add: retireDefaultStore_def)
  have f3: "flash_log l3 []" using flash_log_state [OF 3(2,3)] by simp
  obtain l4 where 4: "run_state (messageStoreSelectBackend (Some SD_MESSAGE_STORE_BACKEND)) l3 = ((), l4)" by (simp add: select_run)
  note f4 = flash_log_card [OF f3 4]
  obtain b l5 where 5: "run_state messageStoreBegin l4 = (b, l5)" by force
  have f5: "flash_log l5 []" "g_backend l5 = Some SD_MESSAGE_STORE_BACKEND" using flash_log_off [OF off_begin _ 5] f4 by auto
  show ?thesis
  proof (cases b)
    case True
    then have "run_state use_card (s\<lparr>ss_log := l5\<rparr>) = (r, s')" using run ret 4 5 by (simp add: switch_to_card_def run_in_log)
    then show ?thesis using use_card_kept [of "s\<lparr>ss_log := l5\<rparr>"] f5(2) by simp
  next
    case False
    obtain l6 acc where 6: "run_state (restoreDefaultStoreWithMigration (map stored_message old)) l5 = (True, l6)" "flash_log l6 acc"
      "\<forall>m \<in> set old. \<exists>x \<in> set acc. storedMessageSameIdentity (stored_message m) (stored_message x)"
      using restore_run [OF f5(1) wf] by blast
    have "run_state (fallBackToDefault True) (s\<lparr>ss_log := l6\<rparr>) = (r, s')"
      using run ret 4 5 6(1) False by (simp add: switch_to_card_def run_in_log)
    then show ?thesis using fall_back [of "s\<lparr>ss_log := l6\<rparr>" acc old] 6(2,3) u by (auto simp: kept_def)
  qed
qed

text \<open>
  C3: choosing the message backend at start loses no message, whatever the card does. With a
  working flash the choice always succeeds. It ends with the flash log active, marked degraded and
  holding every message it held before, or with the card's log active; and then, before the flash
  log was emptied, every message had been read back from a record of the file on the card.
\<close>

theorem migration_loses_nothing:
  assumes "flash_log (ss_log s) old" and "run_state (sdMessageStoreSelect True) s = (r, s')"
  shows "r \<and> (if g_using_sd s'
    then \<not> g_degraded s' \<and> g_backend (ss_log s') = Some SD_MESSAGE_STORE_BACKEND \<and>
      (\<exists>l n. run_state (copy_to_card (map stored_message old)) (snd (run_state (selectDefaultStore True) (ss_log s))) = (True, l) \<and>
        (\<forall>m \<in> set old. \<exists>x \<in> set (card_messages (ms_media l) n). storedMessageSameIdentity (stored_message m) x))
    else g_degraded s' \<and> g_backend (ss_log s') = None \<and>
      (\<forall>m \<in> set old. \<exists>x \<in> set (fst (run_state (messageStoreLoadAll 512) (ss_log s'))). storedMessageSameIdentity (stored_message m) x))"
proof -
  obtain l1 nid where 1: "run_state (selectDefaultStore True) (ss_log s) = ((True, map stored_message old), l1)" and c: "calm l1" "log_state l1 old nid"
    using default_store [OF assms(1)] by blast
  have len: "length old \<le> 512" using assms(1) by (simp add: flash_log_def)
  have f1: "flash_log l1 old" by (rule flash_log_state [OF c len])
  obtain b l2 where 2: "run_state (copy_to_card (map stored_message old)) l1 = (b, l2)" by force
  note f2 = copy_keeps_flash [OF f1 2]
  let ?s1 = "s\<lparr>g_using_sd := False, g_degraded := False, ss_log := l1\<rparr>"
  let ?s2 = "s\<lparr>g_using_sd := False, g_degraded := False, ss_log := l2\<rparr>"
  show ?thesis
  proof (cases "sd_mounted (ms_media l1)")
    case False
    then have "r" "s' = ?s1\<lparr>g_degraded := True\<rparr>" using assms(2) 1 by (auto simp: sdMessageStoreSelect_def run_in_log)
    then show ?thesis using on_flashI [OF c len same_self] by (simp add: on_flash_def)
  next
    case m: True
    have "kept old r s' \<and> (g_using_sd s' \<longrightarrow> b)"
    proof (cases b)
      case False
      then have "run_state (fallBackToDefault True) ?s2 = (r, s')" using assms(2) 1 2 m by (simp add: sdMessageStoreSelect_def run_in_log)
      then show ?thesis using fall_back [of ?s2 old old] f2 same_self by (auto simp: kept_def)
    next
      case b: True
      show ?thesis
      proof (cases "old = []")
        case True
        then have "run_state use_card ?s2 = (r, s')" using assms(2) 1 2 m b by (simp add: sdMessageStoreSelect_def run_in_log)
        then show ?thesis using use_card_kept [of ?s2] f2 b by simp
      next
        case False
        then have "run_state (switch_to_card True (map stored_message old)) ?s2 = (r, s')"
          using assms(2) 1 2 m b by (simp add: sdMessageStoreSelect_def run_in_log)
        then show ?thesis using switch_kept [of ?s2 old r s'] f2 b False by simp
      qed
    qed
    then show ?thesis using copied_to_card [of "map stored_message old" l1 l2] 1 2 by (auto simp: kept_def on_flash_def)
  qed
qed

text \<open>Two messages on the flash, and a card in the slot.\<close>

definition demo_store :: sdstore where
  "demo_store = \<lparr>ss_log = \<lparr>g_backend = None, ms_media = demo_card, ms_flash = [MSG_STORE_PATH \<mapsto> store_bytes two_messages 3], ms_trace = [],
     ms_io = (\<lambda>_. calm_io), ms_tick = 0, ms_heap = (\<lambda>_. True),
     g_companion_backlog_drop_count = 0, g_backend_degraded = False, g_retry_queue = [], g_retry_queue_drop_count = 0,
     g_last_recovery_result = Clean, g_append_recovery_required = False, g_identity_index = [], g_identity_index_capacity = 0,
     g_identity_index_valid = False\<rparr>, g_using_sd = False, g_degraded = False\<rparr>"

theorem migration_loses_nothing_witness:
  "\<exists>r s'. run_state (sdMessageStoreSelect True) demo_store = (r, s') \<and> r \<and> (g_using_sd s' \<or>
     (\<forall>m \<in> set two_messages. \<exists>x \<in> set (fst (run_state (messageStoreLoadAll 512) (ss_log s'))). storedMessageSameIdentity (stored_message m) x))"
proof -
  have "flash_log (ss_log demo_store) two_messages"
    using two_messages_ok by (auto simp: flash_log_def demo_store_def two_messages_def)
  then show ?thesis
    using migration_loses_nothing [of demo_store two_messages] by (cases "run_state (sdMessageStoreSelect True) demo_store") (auto split: if_splits)
qed

end
