(* ===== verification/Nvs.thy ===== *)
theory Nvs
  imports SigPrelude
begin

text \<open>
  Non-volatile storage: the two libraries of the ESP32 platform through which the firmware keeps small
  values by name space and key, the NVS functions of ESP-IDF and the \<open>Preferences\<close> class of Arduino.
  Neither is part of the repository. Their operations are the fields of the record \<open>Nvs\<close>, over any
  type of states, and what the code relies on is the locale \<open>nvs_store\<close>: reads return what is
  stored, a write that reports success has stored, a write that reports a failure has stored
  or not. Since the laws allow every write to fail from some point on, whatever is shown of the state
  an operation leaves also holds of the state in which a power failure stops it.

  \<open>getString\<close> counts the terminator and \<open>putString\<close> does not, as in the libraries.
\<close>

datatype nvs_value =
    NvsU8 byte | NvsI8 byte | NvsU16 u16 | NvsU32 u32 | NvsI32 u32 | NvsStr cstring | NvsBlob "byte list"

type_synonym nvs_ns = string
type_synonym nvs_key = string
type_synonym esp_err = "32 word"

definition ESP_OK :: esp_err where "ESP_OK = 0"
definition ESP_FAIL :: esp_err where "ESP_FAIL = 0xFFFFFFFF"
definition ESP_ERR_NVS_NOT_FOUND :: esp_err where "ESP_ERR_NVS_NOT_FOUND = 0x1102"

text \<open>
  The flag of \<open>nvs_open\<close> asks for write access, that of \<open>begin\<close> for reading only. \<open>nvs_set\<close> stands for
  the function of the value's type. Reads into a buffer return their result and the bytes they store
  at its start. A handle or an object is identified with the name space it was opened for.
\<close>

record 's Nvs =
  nvs_open :: "nvs_ns \<Rightarrow> bool \<Rightarrow> 's \<Rightarrow> esp_err \<times> 's"
  nvs_set :: "nvs_ns \<Rightarrow> nvs_key \<Rightarrow> nvs_value \<Rightarrow> 's \<Rightarrow> esp_err \<times> 's"
  nvs_get_u8 :: "nvs_ns \<Rightarrow> nvs_key \<Rightarrow> 's \<Rightarrow> esp_err \<times> byte"
  nvs_erase_key :: "nvs_ns \<Rightarrow> nvs_key \<Rightarrow> 's \<Rightarrow> esp_err \<times> 's"
  nvs_erase_all :: "nvs_ns \<Rightarrow> 's \<Rightarrow> esp_err \<times> 's"
  nvs_commit :: "nvs_ns \<Rightarrow> 's \<Rightarrow> esp_err \<times> 's"
  pf_begin :: "nvs_ns \<Rightarrow> bool \<Rightarrow> 's \<Rightarrow> bool \<times> 's"
  pf_isKey :: "nvs_ns \<Rightarrow> nvs_key \<Rightarrow> 's \<Rightarrow> bool"
  pf_getUChar :: "nvs_ns \<Rightarrow> nvs_key \<Rightarrow> byte \<Rightarrow> 's \<Rightarrow> byte"
  pf_getChar :: "nvs_ns \<Rightarrow> nvs_key \<Rightarrow> byte \<Rightarrow> 's \<Rightarrow> byte"
  pf_getUShort :: "nvs_ns \<Rightarrow> nvs_key \<Rightarrow> u16 \<Rightarrow> 's \<Rightarrow> u16"
  pf_getInt :: "nvs_ns \<Rightarrow> nvs_key \<Rightarrow> u32 \<Rightarrow> 's \<Rightarrow> u32"
  pf_getULong :: "nvs_ns \<Rightarrow> nvs_key \<Rightarrow> u32 \<Rightarrow> 's \<Rightarrow> u32"
  pf_getBool :: "nvs_ns \<Rightarrow> nvs_key \<Rightarrow> bool \<Rightarrow> 's \<Rightarrow> bool"
  pf_getFloat :: "nvs_ns \<Rightarrow> nvs_key \<Rightarrow> u32 \<Rightarrow> 's \<Rightarrow> u32"
  pf_getString :: "nvs_ns \<Rightarrow> nvs_key \<Rightarrow> nat \<Rightarrow> 's \<Rightarrow> nat \<times> byte list"
  pf_getBytesLength :: "nvs_ns \<Rightarrow> nvs_key \<Rightarrow> 's \<Rightarrow> nat"
  pf_getBytes :: "nvs_ns \<Rightarrow> nvs_key \<Rightarrow> nat \<Rightarrow> 's \<Rightarrow> nat \<times> byte list"
  pf_putUChar :: "nvs_ns \<Rightarrow> nvs_key \<Rightarrow> byte \<Rightarrow> 's \<Rightarrow> nat \<times> 's"
  pf_putString :: "nvs_ns \<Rightarrow> nvs_key \<Rightarrow> cstring \<Rightarrow> 's \<Rightarrow> nat \<times> 's"
  pf_putBytes :: "nvs_ns \<Rightarrow> nvs_key \<Rightarrow> byte list \<Rightarrow> 's \<Rightarrow> nat \<times> 's"
  pf_remove :: "nvs_ns \<Rightarrow> nvs_key \<Rightarrow> 's \<Rightarrow> bool \<times> 's"
  pf_clear :: "nvs_ns \<Rightarrow> 's \<Rightarrow> bool \<times> 's"

text \<open>\<open>if (error == ESP_OK) error = ...\<close>, call after call.\<close>

fun run_checked :: "('s \<Rightarrow> esp_err \<times> 's) list \<Rightarrow> 's \<Rightarrow> esp_err \<times> 's" where
  "run_checked [] s = (ESP_OK, s)"
| "run_checked (f # fs) s = (let (e, s1) = f s in if e = ESP_OK then run_checked fs s1 else (e, s1))"

section \<open>The contract\<close>

type_synonym nvs_contents = "nvs_ns \<Rightarrow> nvs_key \<Rightarrow> nvs_value option"

definition with_entry :: "nvs_contents \<Rightarrow> nvs_ns \<Rightarrow> nvs_key \<Rightarrow> nvs_value option \<Rightarrow> nvs_contents" where
  "with_entry m ns k v = m(ns := (m ns)(k := v))"

lemma with_entry_apply [simp]:
  "with_entry m ns k v ns' k' = (if ns' = ns \<and> k' = k then v else m ns' k')"
  by (simp add: with_entry_def)

text \<open>A write that reports \<open>ok\<close>.\<close>

definition writes :: "nvs_contents \<Rightarrow> nvs_contents \<Rightarrow> nvs_ns \<Rightarrow> nvs_key \<Rightarrow> nvs_value option \<Rightarrow> bool \<Rightarrow> bool" where
  "writes m m' ns k v ok \<longleftrightarrow> m' = with_entry m ns k v \<or> \<not> ok \<and> m' = m"

text \<open>Emptying a name space may stop half way.\<close>

definition empties :: "nvs_contents \<Rightarrow> nvs_contents \<Rightarrow> nvs_ns \<Rightarrow> bool \<Rightarrow> bool" where
  "empties m m' ns ok \<longleftrightarrow> m' ns \<subseteq>\<^sub>m m ns \<and> (\<forall>n. n \<noteq> ns \<longrightarrow> m' n = m n) \<and> (ok \<longrightarrow> m' ns = Map.empty)"

locale nvs_store =
  fixes N :: "'s Nvs" and ent :: "'s \<Rightarrow> nvs_contents"
  assumes open_law: "ent (snd (nvs_open N ns rw s)) = ent s"
    and open_absent: "fst (nvs_open N ns rw s) = ESP_ERR_NVS_NOT_FOUND \<Longrightarrow> ent s ns = Map.empty"
    and set_law: "writes (ent s) (ent (snd (nvs_set N ns k v s))) ns k (Some v) (fst (nvs_set N ns k v s) = ESP_OK)"
    and get_u8_found: "fst (nvs_get_u8 N ns k s) = ESP_OK \<Longrightarrow> ent s ns k = Some (NvsU8 (snd (nvs_get_u8 N ns k s)))"
    and get_u8_absent: "fst (nvs_get_u8 N ns k s) = ESP_ERR_NVS_NOT_FOUND \<Longrightarrow> ent s ns k = Some (NvsU8 b) \<Longrightarrow> False"
    and erase_key_law: "writes (ent s) (ent (snd (nvs_erase_key N ns k s))) ns k None
      (fst (nvs_erase_key N ns k s) = ESP_OK)"
    and erase_key_absent: "fst (nvs_erase_key N ns k s) = ESP_ERR_NVS_NOT_FOUND \<Longrightarrow> ent s ns k = None"
    and erase_all_law: "empties (ent s) (ent (snd (nvs_erase_all N ns s))) ns (fst (nvs_erase_all N ns s) = ESP_OK)"
    and commit_law: "ent (snd (nvs_commit N ns s)) = ent s"
    and begin_law: "ent (snd (pf_begin N ns ro s)) = ent s"
    and begin_existing: "ent s ns \<noteq> Map.empty \<Longrightarrow> fst (pf_begin N ns True s)"
    and isKey_law: "pf_isKey N ns k s \<longleftrightarrow> ent s ns k \<noteq> None"
    and getUChar_law: "pf_getUChar N ns k d s = (case ent s ns k of Some (NvsU8 b) \<Rightarrow> b | _ \<Rightarrow> d)"
    and getChar_law: "pf_getChar N ns k d s = (case ent s ns k of Some (NvsI8 b) \<Rightarrow> b | _ \<Rightarrow> d)"
    and getUShort_law: "pf_getUShort N ns k h s = (case ent s ns k of Some (NvsU16 w) \<Rightarrow> w | _ \<Rightarrow> h)"
    and getInt_law: "pf_getInt N ns k i s = (case ent s ns k of Some (NvsI32 w) \<Rightarrow> w | _ \<Rightarrow> i)"
    and getULong_law: "pf_getULong N ns k i s = (case ent s ns k of Some (NvsU32 w) \<Rightarrow> w | _ \<Rightarrow> i)"
    and getBool_law: "pf_getBool N ns k t s = (case ent s ns k of Some (NvsU8 b) \<Rightarrow> b = 1 | _ \<Rightarrow> t)"
    and getFloat_law: "pf_getFloat N ns k i s =
      (case ent s ns k of Some (NvsBlob b) \<Rightarrow> if length b = 4 then get_u32 b 0 else i | _ \<Rightarrow> i)"
    and getString_law: "pf_getString N ns k n s =
      (case ent s ns k of Some (NvsStr v) \<Rightarrow> if length v < n then (length v + 1, v @ [0]) else (0, []) | _ \<Rightarrow> (0, []))"
    and getBytesLength_law: "pf_getBytesLength N ns k s = (case ent s ns k of Some (NvsBlob b) \<Rightarrow> length b | _ \<Rightarrow> 0)"
    and getBytes_law: "pf_getBytes N ns k n s =
      (case ent s ns k of Some (NvsBlob b) \<Rightarrow> if length b \<le> n then (length b, b) else (0, []) | _ \<Rightarrow> (0, []))"
    and putUChar_law: "writes (ent s) (ent (snd (pf_putUChar N ns k d s))) ns k (Some (NvsU8 d)) (fst (pf_putUChar N ns k d s) = 1)"
    and putString_law: "writes (ent s) (ent (snd (pf_putString N ns k v' s))) ns k (Some (NvsStr v')) (fst (pf_putString N ns k v' s) \<noteq> 0)"
    and putString_result: "fst (pf_putString N ns k v' s) \<in> {0, length v'}"
    and putBytes_law: "writes (ent s) (ent (snd (pf_putBytes N ns k b' s))) ns k (Some (NvsBlob b')) (fst (pf_putBytes N ns k b' s) \<noteq> 0)"
    and putBytes_result: "fst (pf_putBytes N ns k b' s) \<in> {0, length b'}"
    and remove_law: "writes (ent s) (ent (snd (pf_remove N ns k s))) ns k None (fst (pf_remove N ns k s))"
    and clear_law: "empties (ent s) (ent (snd (pf_clear N ns s))) ns (fst (pf_clear N ns s))"
begin

lemmas frame_laws [simp] = open_law commit_law begin_law

lemmas get_laws = isKey_law getUChar_law getChar_law getUShort_law getInt_law getULong_law getBool_law getFloat_law
  getString_law getBytesLength_law getBytes_law

end

section \<open>A store on flash\<close>

text \<open>
  The contents and, for the calls that write, how each ends: \<open>Stored\<close>, \<open>Rejected\<close> with nothing
  written, or \<open>Unreported\<close>, written although the call reports a failure; past the end of the list
  all is well. A name space exists while it has entries.
\<close>

datatype put_outcome = Stored | Rejected | Unreported

record nvs_flash =
  fl_entries :: nvs_contents
  fl_outcomes :: "put_outcome list"

definition fl_write :: "(nvs_contents \<Rightarrow> nvs_contents) \<Rightarrow> nvs_flash \<Rightarrow> bool \<times> nvs_flash" where
  "fl_write f s =
     (let s' = s\<lparr>fl_entries := f (fl_entries s), fl_outcomes := tl (fl_outcomes s)\<rparr>
      in case fl_outcomes s of
           Rejected # os \<Rightarrow> (False, s\<lparr>fl_outcomes := os\<rparr>)
         | Unreported # os \<Rightarrow> (False, s')
         | _ \<Rightarrow> (True, s'))"

definition fl_err :: "bool \<times> nvs_flash \<Rightarrow> esp_err \<times> nvs_flash" where
  "fl_err r = (if fst r then ESP_OK else ESP_FAIL, snd r)"

definition fl_count :: "nat \<Rightarrow> bool \<times> nvs_flash \<Rightarrow> nat \<times> nvs_flash" where
  "fl_count n r = (if fst r then n else 0, snd r)"

definition fl_put :: "nvs_ns \<Rightarrow> nvs_key \<Rightarrow> nvs_value option \<Rightarrow> nvs_flash \<Rightarrow> bool \<times> nvs_flash" where
  "fl_put ns k v = fl_write (\<lambda>m. with_entry m ns k v)"

definition fl_clear :: "nvs_ns \<Rightarrow> nvs_flash \<Rightarrow> bool \<times> nvs_flash" where
  "fl_clear ns = fl_write (\<lambda>m. m(ns := Map.empty))"

definition flash_nvs :: "nvs_flash Nvs" where
  "flash_nvs = \<lparr>
     nvs_open = \<lambda>ns rw s. (if rw \<or> fl_entries s ns \<noteq> Map.empty then ESP_OK else ESP_ERR_NVS_NOT_FOUND, s),
     nvs_set = \<lambda>ns k v s. fl_err (fl_put ns k (Some v) s),
     nvs_get_u8 = \<lambda>ns k s. (case fl_entries s ns k of Some (NvsU8 b) \<Rightarrow> (ESP_OK, b) | _ \<Rightarrow> (ESP_ERR_NVS_NOT_FOUND, 0)),
     nvs_erase_key = \<lambda>ns k s. if fl_entries s ns k = None then (ESP_ERR_NVS_NOT_FOUND, s) else fl_err (fl_put ns k None s),
     nvs_erase_all = \<lambda>ns s. fl_err (fl_clear ns s),
     nvs_commit = \<lambda>ns s. (ESP_OK, s),
     pf_begin = \<lambda>ns ro s. (\<not> ro \<or> fl_entries s ns \<noteq> Map.empty, s),
     pf_isKey = \<lambda>ns k s. fl_entries s ns k \<noteq> None,
     pf_getUChar = \<lambda>ns k d s. (case fl_entries s ns k of Some (NvsU8 b) \<Rightarrow> b | _ \<Rightarrow> d),
     pf_getChar = \<lambda>ns k d s. (case fl_entries s ns k of Some (NvsI8 b) \<Rightarrow> b | _ \<Rightarrow> d),
     pf_getUShort = \<lambda>ns k h s. (case fl_entries s ns k of Some (NvsU16 w) \<Rightarrow> w | _ \<Rightarrow> h),
     pf_getInt = \<lambda>ns k i s. (case fl_entries s ns k of Some (NvsI32 w) \<Rightarrow> w | _ \<Rightarrow> i),
     pf_getULong = \<lambda>ns k i s. (case fl_entries s ns k of Some (NvsU32 w) \<Rightarrow> w | _ \<Rightarrow> i),
     pf_getBool = \<lambda>ns k t s. (case fl_entries s ns k of Some (NvsU8 b) \<Rightarrow> b = 1 | _ \<Rightarrow> t),
     pf_getFloat = \<lambda>ns k i s. (case fl_entries s ns k of Some (NvsBlob b) \<Rightarrow> if length b = 4 then get_u32 b 0 else i | _ \<Rightarrow> i),
     pf_getString = \<lambda>ns k n s.
       (case fl_entries s ns k of Some (NvsStr v) \<Rightarrow> if length v < n then (length v + 1, v @ [0]) else (0, []) | _ \<Rightarrow> (0, [])),
     pf_getBytesLength = \<lambda>ns k s. (case fl_entries s ns k of Some (NvsBlob b) \<Rightarrow> length b | _ \<Rightarrow> 0),
     pf_getBytes = \<lambda>ns k n s.
       (case fl_entries s ns k of Some (NvsBlob b) \<Rightarrow> if length b \<le> n then (length b, b) else (0, []) | _ \<Rightarrow> (0, [])),
     pf_putUChar = \<lambda>ns k b s. fl_count 1 (fl_put ns k (Some (NvsU8 b)) s),
     pf_putString = \<lambda>ns k v s. fl_count (length v) (fl_put ns k (Some (NvsStr v)) s),
     pf_putBytes = \<lambda>ns k b s. fl_count (length b) (fl_put ns k (Some (NvsBlob b)) s),
     pf_remove = \<lambda>ns k s. if fl_entries s ns k = None then (False, s) else fl_put ns k None s,
     pf_clear = fl_clear\<rparr>"

lemma fl_write_contents: "fl_entries (snd (fl_write f s)) = f (fl_entries s) \<or> \<not> fst (fl_write f s) \<and> fl_entries (snd (fl_write f s)) = fl_entries s"
  by (simp add: fl_write_def Let_def split: list.splits put_outcome.splits)

lemma fl_put_law: "writes (fl_entries s) (fl_entries (snd (fl_put ns k v s))) ns k v (fst (fl_put ns k v s))"
  using fl_write_contents by (auto simp: writes_def fl_put_def)

lemma fl_clear_law: "empties (fl_entries s) (fl_entries (snd (fl_clear ns s))) ns (fst (fl_clear ns s))"
  using fl_write_contents [of "\<lambda>m. m(ns := Map.empty)" s] by (auto simp: empties_def fl_clear_def)

lemma writes_none: "m ns k = None \<Longrightarrow> writes m m ns k None ok"
  by (auto simp: writes_def with_entry_def fun_upd_idem)

lemma writes_weaken: "writes m m' ns k v ok \<Longrightarrow> (ok' \<longrightarrow> ok) \<Longrightarrow> writes m m' ns k v ok'"
  by (auto simp: writes_def)

lemma empties_weaken: "empties m m' ns ok \<Longrightarrow> (ok' \<longrightarrow> ok) \<Longrightarrow> empties m m' ns ok'"
  by (auto simp: empties_def)

lemma esp_codes [simp]: "ESP_OK \<noteq> ESP_FAIL" "ESP_FAIL \<noteq> ESP_OK" "ESP_OK \<noteq> ESP_ERR_NVS_NOT_FOUND" "ESP_ERR_NVS_NOT_FOUND \<noteq> ESP_OK"
    "ESP_FAIL \<noteq> ESP_ERR_NVS_NOT_FOUND" "ESP_ERR_NVS_NOT_FOUND \<noteq> ESP_FAIL"
  by (simp_all add: ESP_OK_def ESP_FAIL_def ESP_ERR_NVS_NOT_FOUND_def)

interpretation esp: nvs_store flash_nvs fl_entries
  by unfold_locales
    (auto simp: flash_nvs_def fl_err_def fl_count_def fl_clear_law fl_put_law writes_none
      intro: writes_weaken [OF fl_put_law] empties_weaken [OF fl_clear_law] split: option.splits nvs_value.splits if_splits)

end
