(* ===== verification/ChannelStore.thy ===== *)
theory ChannelStore
  imports Nvs
begin

text \<open>
  Persistence of the channel list (\<open>mesh/persistence_store.cpp\<close>, the channel part).

  Channels live in a key-value store as two banks. A save writes the bank that is not active and
  moves the pointer \<open>ch_active\<close> last; a load validates the bank the pointer names, then the other
  one, and reads the keys of older firmware only while there is no pointer.

  The code reaches the store through a table of callbacks, the record \<open>ChannelStoreKv\<close>, here over
  any type of states. The contract it relies on is the locale \<open>channel_kv\<close>; the callbacks on the
  ESP32 \<open>Preferences\<close> are its instance, over a map from keys to values and a list that says how
  each write ends: \<open>Stored\<close>, \<open>Rejected\<close> with nothing written, or \<open>Unreported\<close>, written although the
  call reports a failure. Since a save returns at the first write that fails, a failed write also
  stands for the power failing there.
\<close>

section \<open>The key-value interface\<close>

text \<open>
  \<open>kv_callbacks\<close> says whether all callback pointers are set. The two reads into a buffer return
  their result and the bytes they store at the start of the buffer.
\<close>

record 's ChannelStoreKv =
  kv_callbacks :: bool
  kv_has :: "cstring \<Rightarrow> 's \<Rightarrow> bool"
  kv_putU8 :: "cstring \<Rightarrow> byte \<Rightarrow> 's \<Rightarrow> bool \<times> 's"
  kv_putU32 :: "cstring \<Rightarrow> u32 \<Rightarrow> 's \<Rightarrow> bool \<times> 's"
  kv_putString :: "cstring \<Rightarrow> cstring \<Rightarrow> 's \<Rightarrow> bool \<times> 's"
  kv_putBytes :: "cstring \<Rightarrow> byte list \<Rightarrow> 's \<Rightarrow> bool \<times> 's"
  kv_getU8 :: "cstring \<Rightarrow> byte \<Rightarrow> 's \<Rightarrow> byte"
  kv_getU32 :: "cstring \<Rightarrow> u32 \<Rightarrow> 's \<Rightarrow> u32"
  kv_getString :: "cstring \<Rightarrow> nat \<Rightarrow> 's \<Rightarrow> nat \<times> byte list"
  kv_getBytes :: "cstring \<Rightarrow> nat \<Rightarrow> 's \<Rightarrow> nat \<times> byte list"

text \<open>The three buffers of one channel: name, secret, hash.\<close>

type_synonym channel_slot = "byte list \<times> byte list \<times> byte list"
type_synonym channel_read = "nat \<Rightarrow> channel_slot option"
type_synonym 'c channel_load = "byte list \<Rightarrow> byte list \<Rightarrow> byte list \<Rightarrow> 'c \<Rightarrow> bool \<times> 'c"

definition CHANNEL_STORE_MAX :: int where "CHANNEL_STORE_MAX = 16"
definition CHANNEL_COMMIT_MAGIC :: u32 where "CHANNEL_COMMIT_MAGIC = 0x43484E31"

definition checksumUpdate :: "u32 \<Rightarrow> byte list \<Rightarrow> u32" where
  "checksumUpdate checksum data = foldl (\<lambda>c b. (c XOR ucast b) * 16777619) checksum data"

section \<open>Keys\<close>

text \<open>\<open>%d\<close> and \<open>%02d\<close> of a number that is not negative.\<close>

definition digit :: "nat \<Rightarrow> byte" where
  "digit n = 0x30 + word_of_nat n"

fun decimal :: "nat \<Rightarrow> cstring" where
  "decimal n = (if n < 10 then [digit n] else decimal (n div 10) @ [digit (n mod 10)])"

declare decimal.simps [simp del]

definition decimal02 :: "nat \<Rightarrow> cstring" where
  "decimal02 n = (if n < 10 then [0x30] else []) @ decimal n"

definition bankKey :: "nat \<Rightarrow> nat \<Rightarrow> char \<Rightarrow> cstring" where
  "bankKey bank index field = take 11 (bytes_of ''c'' @ decimal bank @ bytes_of ''_'' @ decimal02 index @ bytes_of [CHR ''_'', field])"

definition bankMetaKey :: "nat \<Rightarrow> string \<Rightarrow> cstring" where
  "bankMetaKey bank field = take 11 (bytes_of ''c'' @ decimal bank @ bytes_of (CHR ''_'' # field))"

definition legacyKey :: "nat \<Rightarrow> string \<Rightarrow> cstring" where
  "legacyKey i field = take 23 (bytes_of ''ch_'' @ decimal i @ bytes_of (CHR ''_'' # field))"

definition KEY_ACTIVE :: cstring where "KEY_ACTIVE = bytes_of ''ch_active''"
definition KEY_LEGACY_COUNT :: cstring where "KEY_LEGACY_COUNT = bytes_of ''ch_cnt''"

definition kvComplete :: "'s ChannelStoreKv \<Rightarrow> bool" where
  "kvComplete kv = kv_callbacks kv"

section \<open>Banks\<close>

text \<open>One read into a buffer of 32 bytes that starts out as zeros: the result and the buffer.\<close>

definition get_string32 :: "'s ChannelStoreKv \<Rightarrow> cstring \<Rightarrow> 's \<Rightarrow> nat \<times> byte list" where
  "get_string32 kv key s = (let (n, d) = kv_getString kv key 32 s in (n, overwrite (replicate 32 0) 0 d))"

definition get_bytes32 :: "'s ChannelStoreKv \<Rightarrow> cstring \<Rightarrow> 's \<Rightarrow> nat \<times> byte list" where
  "get_bytes32 kv key s = (let (n, d) = kv_getBytes kv key 32 s in (n, overwrite (replicate 32 0) 0 d))"

definition slot_checksum :: "u32 \<Rightarrow> channel_slot \<Rightarrow> u32" where
  "slot_checksum c = (\<lambda>(name, secret, hash). checksumUpdate (checksumUpdate (checksumUpdate c name) secret) hash)"

fun check_slots :: "'s ChannelStoreKv \<Rightarrow> nat \<Rightarrow> nat \<Rightarrow> nat \<Rightarrow> u32 \<Rightarrow> 's \<Rightarrow> u32 option" where
  "check_slots kv bank i 0 checksum s = Some checksum"
| "check_slots kv bank i (Suc n) checksum s =
     (let (nl, name) = get_string32 kv (bankKey bank i CHR ''n'') s;
          (sl, secret) = get_bytes32 kv (bankKey bank i CHR ''s'') s;
          (hl, hash) = get_bytes32 kv (bankKey bank i CHR ''h'') s
      in if nl = 0 \<or> name ! 0 = 0 then None
         else if sl \<noteq> 32 then None
         else if hl \<noteq> 32 then None
         else check_slots kv bank (i + 1) n (slot_checksum checksum (name, secret, hash)) s)"

definition validateBank :: "'s ChannelStoreKv \<Rightarrow> nat \<Rightarrow> 's \<Rightarrow> nat option" where
  "validateBank kv bank s =
     (let count_key = bankMetaKey bank ''cnt''; crc_key = bankMetaKey bank ''crc''; commit_key = bankMetaKey bank ''ok''
      in if \<not> kv_has kv count_key s \<or> \<not> kv_has kv crc_key s \<or> \<not> kv_has kv commit_key s then None
         else let count_byte = kv_getU8 kv count_key 0xFF s
              in if uint count_byte > CHANNEL_STORE_MAX then None
                 else (case check_slots kv bank 0 (unat count_byte) (checksumUpdate 2166136261 [count_byte]) s of
                         None \<Rightarrow> None
                       | Some checksum \<Rightarrow>
                           let stored_crc = kv_getU32 kv crc_key 0 s; commit = kv_getU32 kv commit_key 0 s
                           in if stored_crc \<noteq> checksum \<or> commit \<noteq> CHANNEL_COMMIT_MAGIC XOR checksum then None
                              else Some (unat count_byte)))"

fun apply_slots :: "'s ChannelStoreKv \<Rightarrow> nat \<Rightarrow> 'c channel_load \<Rightarrow> nat \<Rightarrow> nat \<Rightarrow> 's \<Rightarrow> nat \<Rightarrow> 'c \<Rightarrow> nat \<times> 'c" where
  "apply_slots kv bank load i 0 s loaded ctx = (loaded, ctx)"
| "apply_slots kv bank load i (Suc n) s loaded ctx =
     (let (_, name) = get_string32 kv (bankKey bank i CHR ''n'') s;
          (_, secret) = get_bytes32 kv (bankKey bank i CHR ''s'') s;
          (_, hash) = get_bytes32 kv (bankKey bank i CHR ''h'') s;
          (ok, ctx') = load secret hash name ctx
      in apply_slots kv bank load (i + 1) n s (if ok then loaded + 1 else loaded) ctx')"

definition applyBank :: "'s ChannelStoreKv \<Rightarrow> nat \<Rightarrow> nat \<Rightarrow> 'c channel_load \<Rightarrow> 's \<Rightarrow> 'c \<Rightarrow> nat \<times> 'c" where
  "applyBank kv bank count load s ctx = apply_slots kv bank load 0 count s 0 ctx"

fun legacy_slots :: "'s ChannelStoreKv \<Rightarrow> 'c channel_load \<Rightarrow> nat \<Rightarrow> nat \<Rightarrow> 's \<Rightarrow> nat \<Rightarrow> 'c \<Rightarrow> nat \<times> 'c" where
  "legacy_slots kv load i 0 s loaded ctx = (loaded, ctx)"
| "legacy_slots kv load i (Suc n) s loaded ctx =
     (let (nl, name) = get_string32 kv (legacyKey i ''name'') s;
          (sl, secret) = get_bytes32 kv (legacyKey i ''sec'') s;
          (hl, hash) = get_bytes32 kv (legacyKey i ''hash'') s
      in if nl = 0 \<or> sl \<noteq> 32 \<or> hl \<noteq> 32 \<or> name ! 0 = 0 then legacy_slots kv load (i + 1) n s loaded ctx
         else let (ok, ctx') = load secret hash name ctx
              in legacy_slots kv load (i + 1) n s (if ok then loaded + 1 else loaded) ctx')"

definition loadLegacy :: "'s ChannelStoreKv \<Rightarrow> 'c channel_load \<Rightarrow> 's \<Rightarrow> 'c \<Rightarrow> nat \<times> 'c" where
  "loadLegacy kv load s ctx =
     (if \<not> kv_has kv KEY_LEGACY_COUNT s then (0, ctx)
      else let count = kv_getU8 kv KEY_LEGACY_COUNT 0 s
           in if uint count > CHANNEL_STORE_MAX then (0, ctx)
              else legacy_slots kv load 0 (unat count) s 0 ctx)"

section \<open>Saving and loading\<close>

text \<open>\<open>if (!put(...)) return false;\<close> and on with the next statement.\<close>

definition and_then :: "bool \<times> 's \<Rightarrow> ('s \<Rightarrow> bool \<times> 's) \<Rightarrow> bool \<times> 's" where
  "and_then r f = (case r of (ok, s) \<Rightarrow> if ok then f s else (False, s))"

text \<open>The loop of a save: the checksum of all channels, or none if it returned, and the store.\<close>

fun save_slots :: "'s ChannelStoreKv \<Rightarrow> nat \<Rightarrow> channel_read \<Rightarrow> nat \<Rightarrow> nat \<Rightarrow> u32 \<Rightarrow> 's \<Rightarrow> u32 option \<times> 's" where
  "save_slots kv target read i 0 checksum s = (Some checksum, s)"
| "save_slots kv target read i (Suc n) checksum s =
     (case read i of None \<Rightarrow> (None, s)
      | Some (name, secret, hash) \<Rightarrow>
          if name ! 0 = 0 then (None, s)
          else case and_then (and_then (kv_putString kv (bankKey target i CHR ''n'') (cstr name) s)
                       (kv_putBytes kv (bankKey target i CHR ''s'') secret))
                       (kv_putBytes kv (bankKey target i CHR ''h'') hash) of
                 (False, s') \<Rightarrow> (None, s')
               | (True, s') \<Rightarrow> save_slots kv target read (i + 1) n (slot_checksum checksum (name, secret, hash)) s')"

definition active_bank :: "'s ChannelStoreKv \<Rightarrow> 's \<Rightarrow> byte" where
  "active_bank kv s = (if kv_has kv KEY_ACTIVE s then kv_getU8 kv KEY_ACTIVE 0xFF s else 0xFF)"

definition channelStoreSaveTransactional ::
  "'s ChannelStoreKv \<Rightarrow> int \<Rightarrow> channel_read option \<Rightarrow> 's \<Rightarrow> bool \<times> 's" where
  "channelStoreSaveTransactional kv count read s =
     (case read of None \<Rightarrow> (False, s)
      | Some rd \<Rightarrow>
          if \<not> kvComplete kv \<or> count < 0 \<or> count > CHANNEL_STORE_MAX then (False, s)
          else let active = active_bank kv s;
                   target = (if active \<le> 1 then unat (active XOR 1) else 0)
               in and_then (kv_putU32 kv (bankMetaKey target ''ok'') 0 s) (\<lambda>s1.
                    case save_slots kv target rd 0 (nat count) (checksumUpdate 2166136261 [word_of_int count]) s1 of
                      (None, s2) \<Rightarrow> (False, s2)
                    | (Some checksum, s2) \<Rightarrow>
                        and_then (and_then (and_then
                          (kv_putU8 kv (bankMetaKey target ''cnt'') (word_of_int count) s2)
                          (kv_putU32 kv (bankMetaKey target ''crc'') checksum))
                          (kv_putU32 kv (bankMetaKey target ''ok'') (CHANNEL_COMMIT_MAGIC XOR checksum)))
                          (kv_putU8 kv KEY_ACTIVE (word_of_nat target))))"

text \<open>The channels loaded, the loader's state, and the flag \<open>g_channel_store_corrupt\<close>.\<close>

definition channelStoreLoadTransactional ::
  "'s ChannelStoreKv \<Rightarrow> 'c channel_load option \<Rightarrow> 's \<Rightarrow> 'c \<Rightarrow> (nat \<times> 'c) \<times> bool" where
  "channelStoreLoadTransactional kv load s ctx =
     (case load of None \<Rightarrow> ((0, ctx), False)
      | Some ld \<Rightarrow>
          if \<not> kvComplete kv then ((0, ctx), False)
          else let marker = kv_has kv KEY_ACTIVE s;
                   active = active_bank kv s;
                   (first, second) = (if active \<le> 1 then (unat active, unat (active XOR 1)) else (0, 1));
                   attempt = (if active \<le> 1 \<or> marker
                      then (case validateBank kv first s of
                              Some count \<Rightarrow> Some (applyBank kv first count ld s ctx)
                            | None \<Rightarrow>
                                (case validateBank kv second s of
                                   Some count \<Rightarrow> Some (applyBank kv second count ld s ctx)
                                 | None \<Rightarrow> None))
                      else None)
               in case attempt of
                    Some r \<Rightarrow> (r, False)
                  | None \<Rightarrow> if marker then ((0, ctx), True) else (loadLegacy kv ld s ctx, False))"

section \<open>The callbacks on the ESP32\<close>

record nvs =
  nvs_map :: "cstring \<Rightarrow> nvs_value option"
  nvs_puts :: "put_outcome list"

definition nvs_put :: "cstring \<Rightarrow> nvs_value \<Rightarrow> nvs \<Rightarrow> bool \<times> nvs" where
  "nvs_put key v s =
     (let s' = s\<lparr>nvs_map := (nvs_map s)(key \<mapsto> v), nvs_puts := tl (nvs_puts s)\<rparr>
      in case nvs_puts s of
           Rejected # os \<Rightarrow> (False, s\<lparr>nvs_puts := os\<rparr>)
         | Unreported # os \<Rightarrow> (False, s')
         | _ \<Rightarrow> (True, s'))"

definition prefHas :: "cstring \<Rightarrow> nvs \<Rightarrow> bool" where
  "prefHas key s \<longleftrightarrow> nvs_map s key \<noteq> None"

definition prefPutU8 :: "cstring \<Rightarrow> byte \<Rightarrow> nvs \<Rightarrow> bool \<times> nvs" where
  "prefPutU8 key v = nvs_put key (NvsU8 v)"

definition prefPutU32 :: "cstring \<Rightarrow> u32 \<Rightarrow> nvs \<Rightarrow> bool \<times> nvs" where
  "prefPutU32 key v = nvs_put key (NvsU32 v)"

text \<open>\<open>putString\<close> returns the length, so storing the empty string counts as a failure.\<close>

definition prefPutString :: "cstring \<Rightarrow> cstring \<Rightarrow> nvs \<Rightarrow> bool \<times> nvs" where
  "prefPutString key v s = (let (ok, s') = nvs_put key (NvsStr v) s in (ok \<and> v \<noteq> [], s'))"

definition prefPutBytes :: "cstring \<Rightarrow> byte list \<Rightarrow> nvs \<Rightarrow> bool \<times> nvs" where
  "prefPutBytes key d = nvs_put key (NvsBlob d)"

definition prefGetU8 :: "cstring \<Rightarrow> byte \<Rightarrow> nvs \<Rightarrow> byte" where
  "prefGetU8 key fallback s = (case nvs_map s key of Some (NvsU8 b) \<Rightarrow> b | _ \<Rightarrow> fallback)"

definition prefGetU32 :: "cstring \<Rightarrow> u32 \<Rightarrow> nvs \<Rightarrow> u32" where
  "prefGetU32 key fallback s = (case nvs_map s key of Some (NvsU32 w) \<Rightarrow> w | _ \<Rightarrow> fallback)"

text \<open>The reads into a buffer store nothing and return 0 if the value does not fit.\<close>

definition prefGetString :: "cstring \<Rightarrow> nat \<Rightarrow> nvs \<Rightarrow> nat \<times> byte list" where
  "prefGetString key len s =
     (case nvs_map s key of Some (NvsStr v) \<Rightarrow> if length v < len then (length v + 1, v @ [0]) else (0, []) | _ \<Rightarrow> (0, []))"

definition prefGetBytes :: "cstring \<Rightarrow> nat \<Rightarrow> nvs \<Rightarrow> nat \<times> byte list" where
  "prefGetBytes key len s =
     (case nvs_map s key of Some (NvsBlob d) \<Rightarrow> if length d \<le> len then (length d, d) else (0, []) | _ \<Rightarrow> (0, []))"

definition preferencesKv :: "nvs ChannelStoreKv" where
  "preferencesKv = \<lparr>kv_callbacks = True, kv_has = prefHas, kv_putU8 = prefPutU8, kv_putU32 = prefPutU32,
     kv_putString = prefPutString, kv_putBytes = prefPutBytes, kv_getU8 = prefGetU8, kv_getU32 = prefGetU32,
     kv_getString = prefGetString, kv_getBytes = prefGetBytes\<rparr>"

text \<open>\<open>begun\<close>: whether the name space could be opened.\<close>

definition channelStoreSave :: "bool \<Rightarrow> int \<Rightarrow> channel_read option \<Rightarrow> nvs \<Rightarrow> bool \<times> nvs" where
  "channelStoreSave begun count read s =
     (if read = None then (False, s) else if \<not> begun then (False, s)
      else channelStoreSaveTransactional preferencesKv count read s)"

definition channelStoreLoad :: "bool \<Rightarrow> 'c channel_load option \<Rightarrow> nvs \<Rightarrow> 'c \<Rightarrow> (nat \<times> 'c) \<times> bool" where
  "channelStoreLoad begun load s ctx =
     (case load of None \<Rightarrow> ((0, ctx), False)
      | Some _ \<Rightarrow> if \<not> begun then ((0, ctx), False) else channelStoreLoadTransactional preferencesKv load s ctx)"

section \<open>Keys of one bank\<close>

definition bank_key :: "nat \<Rightarrow> cstring \<Rightarrow> bool" where
  "bank_key bank k \<longleftrightarrow> take 2 k = [0x63, digit bank]"

lemma key_chars [simp]: "bytes_of [] = []" "bytes_of (c # cs) = of_char c # bytes_of cs" "length (bytes_of cs) = length cs"
  by (simp_all add: bytes_of_def)

lemma decimal_digit [simp]: "n < 10 \<Longrightarrow> decimal n = [digit n]"
  by (simp add: decimal.simps)

lemma digit_eq: "m < 10 \<Longrightarrow> n < 10 \<Longrightarrow> digit m = digit n \<longleftrightarrow> m = n"
  by (auto simp: digit_def word_of_nat_eq_iff take_bit_eq_mod)

lemma decimal02_digits: "n < 100 \<Longrightarrow> decimal02 n = [digit (n div 10), digit (n mod 10)]"
  by (subst decimal02_def, subst decimal.simps) (auto simp: digit_def)

lemma bankKey_eq:
  "bank < 10 \<Longrightarrow> i < 100 \<Longrightarrow>
     bankKey bank i f = [0x63, digit bank, 0x5F, digit (i div 10), digit (i mod 10), 0x5F, of_char f]"
  by (simp add: bankKey_def decimal02_digits)

lemma bankKey_index: "bank < 10 \<Longrightarrow> i < 100 \<Longrightarrow> j < 100 \<Longrightarrow> bankKey bank i f = bankKey bank j g \<Longrightarrow> i = j"
  by (simp add: bankKey_eq digit_eq) (metis div_mult_mod_eq)

lemma bankKey_field: "bank < 10 \<Longrightarrow> i < 100 \<Longrightarrow> bankKey bank i f = bankKey bank i g \<longleftrightarrow> of_char f = (of_char g :: byte)"
  by (simp add: bankKey_eq)

lemma bank_key_bankKey [simp]: "bank < 10 \<Longrightarrow> bank_key bank (bankKey bank i f)"
  by (simp add: bank_key_def bankKey_def)

lemma bankMetaKey_eq: "bank < 10 \<Longrightarrow> length f \<le> 8 \<Longrightarrow> bankMetaKey bank f = [0x63, digit bank, 0x5F] @ bytes_of f"
  by (simp add: bankMetaKey_def)

lemma bank_key_meta [simp]: "bank < 10 \<Longrightarrow> bank_key bank (bankMetaKey bank f)"
  by (simp add: bank_key_def bankMetaKey_def)

lemma bank_key_other: "bank_key a k \<Longrightarrow> a < 10 \<Longrightarrow> b < 10 \<Longrightarrow> a \<noteq> b \<Longrightarrow> \<not> bank_key b k"
  by (auto simp: bank_key_def digit_eq)

lemma digit_not_h: "b < 10 \<Longrightarrow> digit b \<noteq> 0x68"
proof -
  assume "b < 10"
  then have "b \<in> {0, 1, 2, 3, 4, 5, 6, 7, 8, 9}" by auto
  then show ?thesis by (auto simp: digit_def)
qed

lemma not_bank_key [simp]:
  "b < 10 \<Longrightarrow> \<not> bank_key b KEY_ACTIVE" "b < 10 \<Longrightarrow> \<not> bank_key b KEY_LEGACY_COUNT" "b < 10 \<Longrightarrow> \<not> bank_key b (legacyKey i f)"
  using digit_not_h [of b] by (auto simp: bank_key_def KEY_ACTIVE_def KEY_LEGACY_COUNT_def legacyKey_def)

lemma byte_le_1: "(x :: byte) \<le> 1 \<longleftrightarrow> x = 0 \<or> x = 1"
  by (auto simp: word_le_nat_alt word_unat_eq_iff)

section \<open>What a store holds\<close>

definition slot_wf :: "channel_slot \<Rightarrow> bool" where
  "slot_wf = (\<lambda>(name, secret, hash). length (cstr name) < 32 \<and> name = pad_to 32 (cstr name) \<and> length secret = 32 \<and> length hash = 32)"

definition slot_holds :: "(cstring \<Rightarrow> nvs_value option) \<Rightarrow> nat \<Rightarrow> nat \<Rightarrow> channel_slot \<Rightarrow> bool" where
  "slot_holds m bank i = (\<lambda>(name, secret, hash).
     m (bankKey bank i CHR ''n'') = Some (NvsStr (cstr name)) \<and>
     m (bankKey bank i CHR ''s'') = Some (NvsBlob secret) \<and>
     m (bankKey bank i CHR ''h'') = Some (NvsBlob hash))"

definition channels_checksum :: "channel_slot list \<Rightarrow> u32" where
  "channels_checksum cs = foldl slot_checksum (checksumUpdate 2166136261 [word_of_nat (length cs)]) cs"

definition bank_holds :: "(cstring \<Rightarrow> nvs_value option) \<Rightarrow> nat \<Rightarrow> channel_slot list \<Rightarrow> bool" where
  "bank_holds m bank cs \<longleftrightarrow> length cs \<le> 16 \<and>
     m (bankMetaKey bank ''cnt'') = Some (NvsU8 (word_of_nat (length cs))) \<and>
     m (bankMetaKey bank ''crc'') = Some (NvsU32 (channels_checksum cs)) \<and>
     m (bankMetaKey bank ''ok'') = Some (NvsU32 (CHANNEL_COMMIT_MAGIC XOR channels_checksum cs)) \<and>
     (\<forall>i < length cs. slot_holds m bank i (cs ! i) \<and> slot_wf (cs ! i) \<and> fst (cs ! i) ! 0 \<noteq> 0)"

text \<open>Handing a list of channels to the loader, one after the other.\<close>

fun load_channels :: "'c channel_load \<Rightarrow> channel_slot list \<Rightarrow> nat \<Rightarrow> 'c \<Rightarrow> nat \<times> 'c" where
  "load_channels load [] loaded ctx = (loaded, ctx)"
| "load_channels load ((name, secret, hash) # cs) loaded ctx =
     (let (ok, ctx') = load secret hash name ctx in load_channels load cs (if ok then loaded + 1 else loaded) ctx')"

text \<open>
  A settled store: \<open>ch_active\<close> is absent, as before the first save, or names a bank that is valid.
\<close>

definition settled :: "'s ChannelStoreKv \<Rightarrow> 's \<Rightarrow> bool" where
  "settled kv s \<longleftrightarrow> \<not> kv_has kv KEY_ACTIVE s \<or> active_bank kv s \<le> 1 \<and> validateBank kv (unat (active_bank kv s)) s \<noteq> None"

lemma and_then_cases:
  assumes "and_then r f = (ok, s')"
  obtains "\<not> fst r" "\<not> ok" "s' = snd r" | "fst r" "f (snd r) = (ok, s')"
  using assms by (cases r) (auto simp: and_then_def split: if_splits)

lemma overwrite_zeros: "length d \<le> n \<Longrightarrow> overwrite (replicate n 0) 0 d = pad_to n d"
  by (simp add: overwrite_def pad_to_def)

lemma pad_to_nul: "length v < n \<Longrightarrow> pad_to n (v @ [0]) = pad_to n v"
  by (simp add: pad_to_def) (metis Suc_diff_Suc replicate_Suc)

lemma pad_to_full [simp]: "length d = n \<Longrightarrow> pad_to n d = d"
  by (simp add: pad_to_def)

section \<open>The contract of the callbacks\<close>

definition put_law :: "('s \<Rightarrow> cstring \<Rightarrow> nvs_value option) \<Rightarrow> bool \<times> 's \<Rightarrow> 's \<Rightarrow> cstring \<Rightarrow> nvs_value \<Rightarrow> bool" where
  "put_law entries r s k v \<longleftrightarrow>
     (if fst r then entries (snd r) = (entries s)(k \<mapsto> v)
      else entries (snd r) = entries s \<or> entries (snd r) = (entries s)(k \<mapsto> v))"

locale channel_kv =
  fixes kv :: "'s ChannelStoreKv" and entries :: "'s \<Rightarrow> cstring \<Rightarrow> nvs_value option"
  assumes complete: "kvComplete kv"
    and has_law: "kv_has kv k s \<longleftrightarrow> entries s k \<noteq> None"
    and getU8_law: "kv_getU8 kv k d s = (case entries s k of Some (NvsU8 b) \<Rightarrow> b | _ \<Rightarrow> d)"
    and getU32_law: "kv_getU32 kv k w s = (case entries s k of Some (NvsU32 x) \<Rightarrow> x | _ \<Rightarrow> w)"
    and getString_law: "kv_getString kv k n s =
      (case entries s k of Some (NvsStr v) \<Rightarrow> if length v < n then (length v + 1, v @ [0]) else (0, []) | _ \<Rightarrow> (0, []))"
    and getBytes_law: "kv_getBytes kv k n s =
      (case entries s k of Some (NvsBlob b) \<Rightarrow> if length b \<le> n then (length b, b) else (0, []) | _ \<Rightarrow> (0, []))"
    and putU8_law: "put_law entries (kv_putU8 kv k b s) s k (NvsU8 b)"
    and putU32_law: "put_law entries (kv_putU32 kv k w s) s k (NvsU32 w)"
    and putString_law: "put_law entries (kv_putString kv k v s) s k (NvsStr v)"
    and putBytes_law: "put_law entries (kv_putBytes kv k bs s) s k (NvsBlob bs)"
begin

lemmas get_laws = has_law getU8_law getU32_law get_string32_def get_bytes32_def getString_law getBytes_law

definition same_outside :: "nat \<Rightarrow> 's \<Rightarrow> 's \<Rightarrow> bool" where
  "same_outside bank s s' \<longleftrightarrow> (\<forall>k. \<not> bank_key bank k \<longrightarrow> entries s' k = entries s k)"

lemma same_outside_refl [simp]: "same_outside b s s"
  by (simp add: same_outside_def)

lemma same_outside_trans: "same_outside b s1 s2 \<Longrightarrow> same_outside b s2 s3 \<Longrightarrow> same_outside b s1 s3"
  by (simp add: same_outside_def)

lemma put_outside: "put_law entries r s k v \<Longrightarrow> bank_key b k \<Longrightarrow> same_outside b s (snd r)"
  by (auto simp: put_law_def same_outside_def split: if_splits)

lemma slots_frame:
  assumes "b < 10" and "\<forall>k. bank_key b k \<longrightarrow> entries s' k = entries s k"
  shows "check_slots kv b i n c s' = check_slots kv b i n c s"
    and "apply_slots kv b load i n s' m ctx = apply_slots kv b load i n s m ctx"
  using assms
  by (induction n arbitrary: i c m ctx) (auto simp: get_laws Let_def split: prod.splits)

lemma bank_frame:
  assumes "b < 10" and "\<forall>k. bank_key b k \<longrightarrow> entries s' k = entries s k"
  shows "validateBank kv b s' = validateBank kv b s" and "applyBank kv b n load s' ctx = applyBank kv b n load s ctx"
  using assms slots_frame [OF assms] by (simp_all add: validateBank_def applyBank_def get_laws Let_def cong: option.case_cong)

lemma legacy_slots_frame:
  assumes "b < 10" and "same_outside b s s'"
  shows "legacy_slots kv load i n s' m ctx = legacy_slots kv load i n s m ctx"
  using assms by (induction n arbitrary: i m ctx) (auto simp: same_outside_def get_laws Let_def split: prod.splits)

lemma legacy_frame:
  assumes "b < 10" and "same_outside b s s'"
  shows "loadLegacy kv load s' ctx = loadLegacy kv load s ctx"
  using assms legacy_slots_frame [OF assms, of load] by (simp add: loadLegacy_def same_outside_def get_laws Let_def)

lemma active_frame: "b < 10 \<Longrightarrow> same_outside b s s' \<Longrightarrow> active_bank kv s' = active_bank kv s \<and> kv_has kv KEY_ACTIVE s' = kv_has kv KEY_ACTIVE s"
  by (simp add: active_bank_def same_outside_def get_laws)

text \<open>As long as a save has only touched its target bank, a load does not see it.\<close>

lemma load_undisturbed:
  assumes "settled kv s" and t: "t = (if active_bank kv s \<le> 1 then unat (active_bank kv s XOR 1) else 0)"
    and "same_outside t s s'"
  shows "settled kv s' \<and> channelStoreLoadTransactional kv (Some ld) s' ctx = channelStoreLoadTransactional kv (Some ld) s ctx"
proof -
  have t10: "t < 10" "active_bank kv s \<le> 1 \<Longrightarrow> unat (active_bank kv s) < 10 \<and> unat (active_bank kv s) \<noteq> t"
    using t byte_le_1 [of "active_bank kv s"] by (auto split: if_splits)
  note a = active_frame [OF t10(1) assms(3)]
  show ?thesis
  proof (cases "kv_has kv KEY_ACTIVE s")
    case False
    then have "active_bank kv s = 0xFF" by (simp add: active_bank_def)
    then show ?thesis using False a legacy_frame [OF t10(1) assms(3), of ld]
      by (simp add: settled_def channelStoreLoadTransactional_def byte_le_1)
  next
    case True
    then have act: "active_bank kv s \<le> 1" "validateBank kv (unat (active_bank kv s)) s \<noteq> None"
      using assms(1) by (auto simp: settled_def)
    then have "\<forall>k. bank_key (unat (active_bank kv s)) k \<longrightarrow> entries s' k = entries s k"
      using assms(3) bank_key_other t10 by (metis same_outside_def)
    note f = bank_frame [OF _ this]
    show ?thesis using act a f t10 complete True
      by (auto simp: settled_def channelStoreLoadTransactional_def Let_def)
  qed
qed

text \<open>A complete bank under the pointer is what a load hands to the loader.\<close>

lemma get_slot:
  assumes "slot_holds (entries s) b i (name, secret, hash)" and "slot_wf (name, secret, hash)"
  shows "get_string32 kv (bankKey b i CHR ''n'') s = (length (cstr name) + 1, name)"
    and "get_bytes32 kv (bankKey b i CHR ''s'') s = (32, secret)" and "get_bytes32 kv (bankKey b i CHR ''h'') s = (32, hash)"
  using assms by (auto simp: slot_holds_def slot_wf_def get_laws overwrite_zeros pad_to_nul)

lemma held_slots:
  assumes "\<forall>j < length cs. slot_holds (entries s) b (i + j) (cs ! j) \<and> slot_wf (cs ! j) \<and> fst (cs ! j) ! 0 \<noteq> 0"
  shows "check_slots kv b i (length cs) c s = Some (foldl slot_checksum c cs) \<and>
    apply_slots kv b load i (length cs) s m ctx = load_channels load cs m ctx"
  using assms
proof (induction cs arbitrary: i c m ctx)
  case (Cons ch cs)
  obtain name secret hash where ch: "ch = (name, secret, hash)" by (cases ch) auto
  have "slot_holds (entries s) b i (name, secret, hash) \<and> slot_wf (name, secret, hash) \<and> name ! 0 \<noteq> 0"
    using Cons.prems [rule_format, of 0] ch by simp
  note get = get_slot [OF conjunct1 [OF this] conjunct1 [OF conjunct2 [OF this]]] and nz = conjunct2 [OF conjunct2 [OF this]]
  have "\<forall>j < length cs. slot_holds (entries s) b (i + 1 + j) (cs ! j) \<and> slot_wf (cs ! j) \<and> fst (cs ! j) ! 0 \<noteq> 0"
    using Cons.prems [rule_format, of "Suc j" for j] by simp
  then show ?case using get nz Cons.IH [of "i + 1"] by (simp add: ch split: prod.splits)
qed simp

lemma held_bank:
  assumes "bank_holds (entries s) b cs"
  shows "validateBank kv b s = Some (length cs)" and "applyBank kv b (length cs) load s ctx = load_channels load cs 0 ctx"
proof -
  have len: "length cs \<le> 16" and slots: "\<forall>j < length cs. slot_holds (entries s) b (0 + j) (cs ! j) \<and> slot_wf (cs ! j) \<and> fst (cs ! j) ! 0 \<noteq> 0"
    using assms by (auto simp: bank_holds_def)
  note held = held_slots [OF slots, of _ load]
  have n: "unat (word_of_nat (length cs) :: byte) = length cs" "uint (word_of_nat (length cs) :: byte) \<le> 16"
    using len by (simp_all add: unat_of_nat_byte uint_nat)
  show "validateBank kv b s = Some (length cs)"
    using assms held n by (simp add: validateBank_def bank_holds_def get_laws channels_checksum_def CHANNEL_STORE_MAX_def)
  show "applyBank kv b (length cs) load s ctx = load_channels load cs 0 ctx"
    using held by (simp add: applyBank_def)
qed

lemma load_committed:
  assumes "bank_holds (entries s) t cs" and "entries s KEY_ACTIVE = Some (NvsU8 (word_of_nat t))" and "t \<le> 1"
  shows "settled kv s \<and> channelStoreLoadTransactional kv (Some ld) s ctx = (load_channels ld cs 0 ctx, False)"
proof -
  have "active_bank kv s = word_of_nat t" "kv_has kv KEY_ACTIVE s" using assms(2) by (simp_all add: active_bank_def get_laws)
  moreover have "(word_of_nat t :: byte) \<le> 1" "unat (word_of_nat t :: byte) = t" using assms(3) by (auto simp: le_Suc_eq)
  ultimately show ?thesis
    using held_bank [OF assms(1)] complete by (simp add: settled_def channelStoreLoadTransactional_def)
qed

text \<open>The writes of a save.\<close>

lemma save_slots_step:
  assumes "save_slots kv b read i (Suc n) c s = (r, s')"
  obtains (stop) "r = None" "\<forall>k. (\<forall>f. k \<noteq> bankKey b i f) \<longrightarrow> entries s' k = entries s k"
    | (step) name secret hash s1 where "read i = Some (name, secret, hash)" "name ! 0 \<noteq> 0"
      "entries s1 = (entries s)(bankKey b i CHR ''n'' \<mapsto> NvsStr (cstr name), bankKey b i CHR ''s'' \<mapsto> NvsBlob secret,
         bankKey b i CHR ''h'' \<mapsto> NvsBlob hash)"
      "save_slots kv b read (i + 1) n (slot_checksum c (name, secret, hash)) s1 = (r, s')"
proof (cases "\<exists>name secret hash. read i = Some (name, secret, hash) \<and> name ! 0 \<noteq> 0")
  case False
  then show thesis using assms stop by (cases "read i") auto
next
  case True
  then obtain name secret hash where rd: "read i = Some (name, secret, hash)" "name ! 0 \<noteq> 0" by blast
  let ?n = "bankKey b i CHR ''n''" and ?s = "bankKey b i CHR ''s''" and ?h = "bankKey b i CHR ''h''"
  obtain r1 s1 where p1: "kv_putString kv ?n (cstr name) s = (r1, s1)" by force
  obtain r2 s2 where p2: "kv_putBytes kv ?s secret s1 = (r2, s2)" by force
  obtain r3 s3 where p3: "kv_putBytes kv ?h hash s2 = (r3, s3)" by force
  note l1 = putString_law [of ?n "cstr name" s, unfolded p1 put_law_def, simplified]
    and l2 = putBytes_law [of ?s secret s1, unfolded p2 put_law_def, simplified]
    and l3 = putBytes_law [of ?h hash s2, unfolded p3 put_law_def, simplified]
  show thesis
  proof (cases "r1 \<and> r2 \<and> r3")
    case True
    then show thesis using assms rd step [OF rd, of s3] l1 l2 l3 by (simp add: p1 p2 p3 and_then_def)
  next
    case False
    then have "r = None \<and> (s' = s1 \<and> \<not> r1 \<or> r1 \<and> \<not> r2 \<and> s' = s2 \<or> r1 \<and> r2 \<and> \<not> r3 \<and> s' = s3)"
      using assms rd by (auto simp: p1 p2 p3 and_then_def split: if_splits)
    then show thesis using stop l1 l2 l3 by (auto split: if_splits)
  qed
qed

lemma save_slots_frame:
  assumes "save_slots kv b read i n c s = (r, s')" and "\<forall>j f. i \<le> j \<and> j < i + n \<longrightarrow> k \<noteq> bankKey b j f"
  shows "entries s' k = entries s k"
  using assms
proof (induction n arbitrary: i c s)
  case (Suc n)
  from Suc.prems(1) show ?case
  proof (cases rule: save_slots_step)
    case stop
    then show ?thesis using Suc.prems(2) by simp
  next
    case (step name secret hash s1)
    then show ?thesis using Suc.IH [OF step(4)] Suc.prems(2) by simp
  qed
qed simp

lemma save_slots_done:
  assumes "save_slots kv b read i n c s = (Some c', s')" and "b < 10" and "i + n \<le> 100"
  shows "\<exists>cs. length cs = n \<and> c' = foldl slot_checksum c cs \<and>
    (\<forall>j < n. read (i + j) = Some (cs ! j) \<and> fst (cs ! j) ! 0 \<noteq> 0 \<and> slot_holds (entries s') b (i + j) (cs ! j))"
  using assms
proof (induction n arbitrary: i c s)
  case (Suc n)
  from Suc.prems(1) show ?case
  proof (cases rule: save_slots_step)
    case (step name secret hash s1)
    obtain cs where cs: "length cs = n" "c' = foldl slot_checksum (slot_checksum c (name, secret, hash)) cs"
      "\<forall>j < n. read (i + 1 + j) = Some (cs ! j) \<and> fst (cs ! j) ! 0 \<noteq> 0 \<and> slot_holds (entries s') b (i + 1 + j) (cs ! j)"
      using Suc.IH [OF step(4)] Suc.prems by auto
    have keep: "entries s' (bankKey b i f) = entries s1 (bankKey b i f)" for f
    proof (rule save_slots_frame [OF step(4)], intro allI impI notI)
      fix j g assume "i + 1 \<le> j \<and> j < i + 1 + n" and "bankKey b i f = bankKey b j g"
      then show False using bankKey_index [of b i j f g] Suc.prems(2,3) by simp
    qed
    have "slot_holds (entries s') b i (name, secret, hash)"
      using Suc.prems(2,3) by (simp add: slot_holds_def keep step(3) bankKey_field)
    then have "\<forall>j < Suc n. read (i + j) = Some (((name, secret, hash) # cs) ! j) \<and> fst (((name, secret, hash) # cs) ! j) ! 0 \<noteq> 0 \<and>
      slot_holds (entries s') b (i + j) (((name, secret, hash) # cs) ! j)"
      using cs(3) step(1,2) by (auto simp: nth_Cons split: nat.splits)
    then show ?thesis using cs(1,2) by (intro exI [of _ "(name, secret, hash) # cs"]) simp
  qed simp
qed simp

lemma save_slots_outside: "save_slots kv b read i n c s = (r, s') \<Longrightarrow> b < 10 \<Longrightarrow> same_outside b s s'"
  unfolding same_outside_def by (metis bank_key_bankKey save_slots_frame)

text \<open>
  The last four writes of a save: either the pointer was not moved and only the target bank has
  changed, or everything is in place.
\<close>

lemma commit_writes:
  assumes "and_then (and_then (and_then (kv_putU8 kv (bankMetaKey t ''cnt'') n s) (kv_putU32 kv (bankMetaKey t ''crc'') c))
      (kv_putU32 kv (bankMetaKey t ''ok'') d)) (kv_putU8 kv KEY_ACTIVE a) = (ok, s')" and t: "t < 10"
  shows "\<not> ok \<and> same_outside t s s' \<or>
    entries s' = (entries s)(bankMetaKey t ''cnt'' \<mapsto> NvsU8 n, bankMetaKey t ''crc'' \<mapsto> NvsU32 c, bankMetaKey t ''ok'' \<mapsto> NvsU32 d,
      KEY_ACTIVE \<mapsto> NvsU8 a)"
proof -
  obtain r1 s1 where p1: "kv_putU8 kv (bankMetaKey t ''cnt'') n s = (r1, s1)" by force
  obtain r2 s2 where p2: "kv_putU32 kv (bankMetaKey t ''crc'') c s1 = (r2, s2)" by force
  obtain r3 s3 where p3: "kv_putU32 kv (bankMetaKey t ''ok'') d s2 = (r3, s3)" by force
  obtain r4 s4 where p4: "kv_putU8 kv KEY_ACTIVE a s3 = (r4, s4)" by force
  note l1 = putU8_law [of "bankMetaKey t ''cnt''" n s, unfolded p1] and l2 = putU32_law [of "bankMetaKey t ''crc''" c s1, unfolded p2]
    and l3 = putU32_law [of "bankMetaKey t ''ok''" d s2, unfolded p3] and l4 = putU8_law [of KEY_ACTIVE a s3, unfolded p4]
  have o: "same_outside t s s1" "same_outside t s1 s2" "same_outside t s2 s3"
    using put_outside [OF l1] put_outside [OF l2] put_outside [OF l3] t by simp_all
  note o' = o(1) same_outside_trans [OF o(1,2)] same_outside_trans [OF same_outside_trans [OF o(1,2)] o(3)]
  show ?thesis
  proof (cases "r1 \<and> r2 \<and> r3 \<and> (r4 \<or> entries s4 \<noteq> entries s3)")
    case True
    then show ?thesis using assms(1) l1 l2 l3 l4 by (auto simp: p1 p2 p3 p4 and_then_def put_law_def split: if_splits)
  next
    case False
    then have "\<not> ok \<and> (s' = s1 \<or> s' = s2 \<and> r1 \<or> s' = s3 \<and> r1 \<and> r2 \<or> s' = s4 \<and> r1 \<and> r2 \<and> r3 \<and> entries s4 = entries s3)"
      using assms(1) by (auto simp: p1 p2 p3 p4 and_then_def split: if_splits)
    then show ?thesis using o' by (auto simp: same_outside_def)
  qed
qed

lemma meta_keys:
  "t < 10 \<Longrightarrow> bankMetaKey t ''cnt'' \<noteq> bankMetaKey t ''crc'' \<and> bankMetaKey t ''cnt'' \<noteq> bankMetaKey t ''ok'' \<and>
     bankMetaKey t ''crc'' \<noteq> bankMetaKey t ''ok'' \<and> KEY_ACTIVE \<noteq> bankMetaKey t ''cnt'' \<and> KEY_ACTIVE \<noteq> bankMetaKey t ''crc'' \<and>
     KEY_ACTIVE \<noteq> bankMetaKey t ''ok''"
  by (simp add: bankMetaKey_eq KEY_ACTIVE_def)

lemma slot_keys:
  "t < 10 \<Longrightarrow> i < 100 \<Longrightarrow> bankKey t i f \<noteq> bankMetaKey t ''cnt'' \<and> bankKey t i f \<noteq> bankMetaKey t ''crc'' \<and>
     bankKey t i f \<noteq> bankMetaKey t ''ok'' \<and> bankKey t i f \<noteq> KEY_ACTIVE"
  by (auto simp: bankMetaKey_eq bankKey_eq KEY_ACTIVE_def dest: arg_cong [where f = length])

lemma save_transactional:
  assumes set: "settled kv s"
    and wf: "\<And>i ch. read i = Some ch \<Longrightarrow> slot_wf ch"
    and save: "channelStoreSaveTransactional kv count (Some read) s = (ok, s')"
  shows "settled kv s' \<and>
    (\<not> ok \<and> channelStoreLoadTransactional kv (Some ld) s' ctx = channelStoreLoadTransactional kv (Some ld) s ctx \<or>
     (\<exists>cs. int (length cs) = count \<and> (\<forall>i < length cs. read i = Some (cs ! i)) \<and>
       channelStoreLoadTransactional kv (Some ld) s' ctx = (load_channels ld cs 0 ctx, False)))"
proof (cases "count < 0 \<or> count > CHANNEL_STORE_MAX")
  case True
  then show ?thesis using set save by (auto simp: channelStoreSaveTransactional_def)
next
  case False
  define t where "t = (if active_bank kv s \<le> 1 then unat (active_bank kv s XOR 1) else 0)"
  have t: "t \<le> 1" "t < 10" using byte_le_1 [of "active_bank kv s"] by (auto simp: t_def split: if_splits)
  have quiet: ?thesis if "\<not> ok" "same_outside t s s'" using load_undisturbed [OF set t_def that(2), of ld ctx] that(1) by blast
  obtain r1 s1 where p1: "kv_putU32 kv (bankMetaKey t ''ok'') 0 s = (r1, s1)" by force
  have o1: "same_outside t s s1" using put_outside [OF putU32_law, of t "bankMetaKey t ''ok''" s 0] p1 t by simp
  obtain r2 s2 where p2: "save_slots kv t read 0 (nat count) (checksumUpdate 2166136261 [word_of_int count]) s1 = (r2, s2)" by force
  note o2 = same_outside_trans [OF o1 save_slots_outside [OF p2 t(2)]]
  note unfold = save [unfolded channelStoreSaveTransactional_def Let_def, folded t_def, unfolded p1]
  show ?thesis
  proof (cases "r1 \<and> r2 \<noteq> None")
    case F: False
    then have "\<not> ok \<and> (s' = s1 \<or> s' = s2)" using unfold False complete p2 by (auto simp: and_then_def split: if_splits)
    then show ?thesis using quiet o1 o2 by blast
  next
    case True
    then obtain c where c: "r2 = Some c" "r1" by blast
    obtain cs where cs: "length cs = nat count" "c = foldl slot_checksum (checksumUpdate 2166136261 [word_of_int count]) cs"
      "\<forall>j < nat count. read j = Some (cs ! j) \<and> fst (cs ! j) ! 0 \<noteq> 0 \<and> slot_holds (entries s2) t j (cs ! j)"
    proof -
      have "0 + nat count \<le> 100" using False by (auto simp: CHANNEL_STORE_MAX_def nat_le_iff)
      then show thesis using save_slots_done [OF p2 [unfolded c(1)] t(2)] that by auto
    qed
    have n1: "int (length cs) = count" using cs(1) False by simp
    have n: "int (length cs) = count" "(word_of_int count :: byte) = word_of_nat (length cs)" "length cs \<le> 16"
      using n1 False by (auto simp: CHANNEL_STORE_MAX_def simp flip: n1)
    have ck: "c = channels_checksum cs" using cs(2) n(2) by (simp add: channels_checksum_def)
    have "\<not> ok \<and> same_outside t s2 s' \<or> entries s' = (entries s2)(bankMetaKey t ''cnt'' \<mapsto> NvsU8 (word_of_nat (length cs)),
        bankMetaKey t ''crc'' \<mapsto> NvsU32 c, bankMetaKey t ''ok'' \<mapsto> NvsU32 (CHANNEL_COMMIT_MAGIC XOR c), KEY_ACTIVE \<mapsto> NvsU8 (word_of_nat t))"
      (is "_ \<or> ?new") using unfold False complete p2 c n(2) by (intro commit_writes) (auto simp: and_then_def t)
    then show ?thesis
    proof
      assume "\<not> ok \<and> same_outside t s2 s'"
      then show ?thesis using quiet same_outside_trans [OF o2] by blast
    next
      assume new: ?new
      have "slot_holds (entries s') t j (cs ! j)" if "j < length cs" for j
        using cs(1,3) that slot_keys [OF t(2), of j] n(3) by (auto simp: slot_holds_def new)
      moreover have "slot_wf (cs ! j)" if "j < length cs" for j using cs(1,3) wf that by metis
      ultimately have "bank_holds (entries s') t cs"
        using n(3) cs(1,3) meta_keys [OF t(2)] by (auto simp: bank_holds_def new ck)
      from load_committed [OF this _ t(1), of ld ctx] have "settled kv s' \<and>
        channelStoreLoadTransactional kv (Some ld) s' ctx = (load_channels ld cs 0 ctx, False)" by (simp add: new)
      moreover have "\<forall>i < length cs. read i = Some (cs ! i)" using cs(1,3) by simp
      ultimately show ?thesis using n1 by blast
    qed
  qed
qed

end

section \<open>Properties\<close>

lemma nvs_put_law: "put_law nvs_map (nvs_put k v s) s k v"
  by (auto simp: put_law_def nvs_put_def Let_def split: list.splits put_outcome.splits)

lemma prefPutString_law: "put_law nvs_map (prefPutString k v s) s k (NvsStr v)"
  using nvs_put_law [of k "NvsStr v" s] by (auto simp: put_law_def prefPutString_def split: prod.splits if_splits)

interpretation flash: channel_kv preferencesKv nvs_map
  by unfold_locales
    (simp_all add: preferencesKv_def kvComplete_def prefHas_def prefGetU8_def prefGetU32_def prefGetString_def prefGetBytes_def
      prefPutU8_def prefPutU32_def prefPutBytes_def nvs_put_law prefPutString_law)

text \<open>
  C6: saving the channels never loses the list that was there. Whatever writes fail and wherever the power
  goes during a save, the next load hands the loader either exactly the channels it would have
  handed it before the save or exactly the channels of the new list, in order and with no report
  of corruption; it is the new list if the save reported success; and the store is left in a state
  of which the same can be said again.
\<close>

theorem channels_survive_power_loss:
  assumes "settled preferencesKv s" and "\<And>i ch. read i = Some ch \<Longrightarrow> slot_wf ch"
    and "channelStoreSave begun count (Some read) s = (ok, s')"
  shows "settled preferencesKv s' \<and>
    (\<not> ok \<and> channelStoreLoad True (Some ld) s' ctx = channelStoreLoad True (Some ld) s ctx \<or>
     (\<exists>cs. int (length cs) = count \<and> (\<forall>i < length cs. read i = Some (cs ! i)) \<and>
       channelStoreLoad True (Some ld) s' ctx = (load_channels ld cs 0 ctx, False)))"
  using assms flash.save_transactional [of s read count ok s' ld ctx]
  by (cases begun) (simp_all add: channelStoreSave_def channelStoreLoad_def)

definition sample_slot :: "byte \<Rightarrow> channel_slot" where
  "sample_slot b = (pad_to 32 [b], replicate 32 b, replicate 32 0)"

lemma sample_slot_wf: "slot_wf (sample_slot 7)"
  by (simp add: sample_slot_def slot_wf_def cstr_pad_to)

text \<open>A first save whose last write, the pointer, is lost: the store loads as empty or with the new channel.\<close>

theorem channels_survive_power_loss_witness:
  "let s = \<lparr>nvs_map = \<lambda>_. None, nvs_puts = replicate 7 Stored @ [Rejected]\<rparr>;
       s' = snd (channelStoreSave True 1 (Some (\<lambda>_. Some (sample_slot 7))) s)
   in settled preferencesKv s' \<and>
     channelStoreLoad True (Some (\<lambda>secret hash name ctx. (True, ctx @ [name]))) s' []
       \<in> {((0, []), False), ((1, [pad_to 32 [7]]), False)}"
proof -
  let ?s = "\<lparr>nvs_map = \<lambda>_. None, nvs_puts = replicate 7 Stored @ [Rejected]\<rparr>" and ?rd = "\<lambda>_. Some (sample_slot 7)"
    and ?ld = "\<lambda>secret hash name ctx. (True, ctx @ [name])"
  define s' where "s' = snd (channelStoreSave True 1 (Some ?rd) ?s)"
  have set: "settled preferencesKv ?s" by (simp add: settled_def preferencesKv_def prefHas_def)
  have empty: "channelStoreLoad True (Some ?ld) ?s [] = ((0, []), False)"
    by (simp add: channelStoreLoad_def channelStoreLoadTransactional_def active_bank_def preferencesKv_def prefHas_def
        kvComplete_def loadLegacy_def byte_le_1)
  have "load_channels ?ld cs 0 [] = (1, [pad_to 32 [7]])" if "int (length cs) = 1" "\<forall>i < length cs. sample_slot 7 = cs ! i" for cs
    using that by (cases cs) (auto simp: sample_slot_def)
  then show ?thesis
    using channels_survive_power_loss [OF set, of ?rd True 1 "fst (channelStoreSave True 1 (Some ?rd) ?s)" s' ?ld "[]"]
      sample_slot_wf empty unfolding s'_def Let_def by auto
qed

text \<open>
  A store that is not settled is not protected. When the pointer names a bank that does not
  validate, a load still finds the channels in the other bank; but a save chooses that other bank
  as its target, and its first write invalidates the only good copy. If the power fails there,
  the channels that were loaded before are gone and the next load reports corruption.
\<close>

definition fallback_store :: "nvs" where
  "fallback_store = \<lparr>nvs_map = (\<lambda>_. None)(KEY_ACTIVE \<mapsto> NvsU8 1,
     bankMetaKey 0 ''cnt'' \<mapsto> NvsU8 1, bankMetaKey 0 ''crc'' \<mapsto> NvsU32 (channels_checksum [sample_slot 7]),
     bankMetaKey 0 ''ok'' \<mapsto> NvsU32 (CHANNEL_COMMIT_MAGIC XOR channels_checksum [sample_slot 7]),
     bankKey 0 0 CHR ''n'' \<mapsto> NvsStr [7], bankKey 0 0 CHR ''s'' \<mapsto> NvsBlob (replicate 32 7),
     bankKey 0 0 CHR ''h'' \<mapsto> NvsBlob (replicate 32 0)), nvs_puts = [Stored, Rejected]\<rparr>"

lemma xor_eq_0_iff: "(0 :: u32) = a XOR b \<longleftrightarrow> b = a"
  by (metis xor.assoc xor.left_neutral xor.right_neutral xor_self_eq)

lemma sample_checksum: "channels_checksum [sample_slot 7] \<noteq> CHANNEL_COMMIT_MAGIC"
  by code_simp

lemma bank0_keys:
  "bankKey 0 0 f = [0x63, 0x30, 0x5F, 0x30, 0x30, 0x5F, of_char f]" "bankMetaKey 0 ''cnt'' = [0x63, 0x30, 0x5F, 0x63, 0x6E, 0x74]"
  "bankMetaKey 0 ''crc'' = [0x63, 0x30, 0x5F, 0x63, 0x72, 0x63]" "bankMetaKey 0 ''ok'' = [0x63, 0x30, 0x5F, 0x6F, 0x6B]"
  "bankMetaKey (Suc 0) ''cnt'' = [0x63, 0x31, 0x5F, 0x63, 0x6E, 0x74]"
  "KEY_ACTIVE = [0x63, 0x68, 0x5F, 0x61, 0x63, 0x74, 0x69, 0x76, 0x65]"
  by (simp_all add: bankKey_eq bankMetaKey_eq KEY_ACTIVE_def digit_def)

lemma fallback_bank: "bank_holds (nvs_map fallback_store) 0 [sample_slot 7]"
  using sample_slot_wf
  by (simp add: bank_holds_def slot_holds_def fallback_store_def bank0_keys sample_slot_def cstr_pad_to) (simp add: pad_to_def)

lemma bank1_missing: "nvs_map s (bankMetaKey 1 ''cnt'') = None \<Longrightarrow> validateBank preferencesKv 1 s = None"
  by (simp add: validateBank_def preferencesKv_def prefHas_def)

theorem save_overwrites_fallback_bank:
  "let ld = (\<lambda>secret hash name ctx. (True, ctx @ [name]));
       (ok, s') = channelStoreSave True 1 (Some (\<lambda>_. Some (sample_slot 9))) fallback_store
   in channelStoreLoad True (Some ld) fallback_store [] = ((1, [pad_to 32 [7]]), False) \<and> \<not> ok \<and>
      channelStoreLoad True (Some ld) s' [] = ((0, []), True)"
proof -
  let ?ld = "\<lambda>secret hash name ctx. (True, ctx @ [name])"
  define s' where "s' = fallback_store\<lparr>nvs_map := (nvs_map fallback_store)(bankMetaKey 0 ''ok'' \<mapsto> NvsU32 0), nvs_puts := []\<rparr>"
  have act: "active_bank preferencesKv fallback_store = 1" "active_bank preferencesKv s' = 1"
    "kv_has preferencesKv KEY_ACTIVE fallback_store" "kv_has preferencesKv KEY_ACTIVE s'"
    by (simp_all add: active_bank_def flash.has_law flash.getU8_law s'_def fallback_store_def bank0_keys)
  have b1: "validateBank preferencesKv 1 fallback_store = None" "validateBank preferencesKv 1 s' = None"
    by (rule bank1_missing, simp add: s'_def fallback_store_def bank0_keys)+
  have slots: "check_slots preferencesKv 0 0 1 (checksumUpdate 2166136261 [1]) s' = Some (channels_checksum [sample_slot 7])"
  proof -
    have "slot_holds (nvs_map s') 0 0 (sample_slot 7)"
      by (simp add: slot_holds_def s'_def fallback_store_def bank0_keys sample_slot_def cstr_pad_to)
    moreover have "fst (sample_slot 7) ! 0 \<noteq> 0" using fallback_bank by (simp add: bank_holds_def)
    ultimately show ?thesis
      using flash.held_slots [of "[sample_slot 7]" s' 0 0 "checksumUpdate 2166136261 [1]" "\<lambda>_ _ _ c. (True, c)" 0 "()"] sample_slot_wf
      by (simp add: channels_checksum_def del: check_slots.simps)
  qed
  have "nvs_map s' (bankMetaKey 0 ''cnt'') = Some (NvsU8 1)" "nvs_map s' (bankMetaKey 0 ''crc'') \<noteq> None"
    "nvs_map s' (bankMetaKey 0 ''ok'') = Some (NvsU32 0)"
    by (simp_all add: s'_def fallback_store_def bank0_keys)
  then have "validateBank preferencesKv 0 s' = None"
    using slots sample_checksum
    by (auto simp: validateBank_def Let_def CHANNEL_STORE_MAX_def flash.has_law flash.getU8_law flash.getU32_law xor_eq_0_iff
        simp del: check_slots.simps)
  moreover have "channelStoreSave True 1 (Some (\<lambda>_. Some (sample_slot 9))) fallback_store = (False, s')"
  proof -
    have "kv_putU32 preferencesKv (bankMetaKey 0 ''ok'') 0 fallback_store = (True, s'\<lparr>nvs_puts := [Rejected]\<rparr>)"
      "kv_putString preferencesKv k v (s'\<lparr>nvs_puts := [Rejected]\<rparr>) = (False, s')" for k v
      by (simp_all add: s'_def fallback_store_def preferencesKv_def prefPutU32_def prefPutString_def nvs_put_def)
    then show ?thesis using act
      by (simp add: channelStoreSave_def channelStoreSaveTransactional_def and_then_def CHANNEL_STORE_MAX_def flash.complete
          sample_slot_def pad_to_def)
  qed
  ultimately show ?thesis
    using act b1 flash.held_bank(1) [OF fallback_bank] flash.held_bank(2) [OF fallback_bank, of ?ld "[]"]
    by (simp add: channelStoreLoad_def channelStoreLoadTransactional_def flash.complete sample_slot_def)
qed

end
