(* ===== verification/RegionStore.thy ===== *)
theory RegionStore
  imports AtomicFile
begin

text \<open>
  Persistence of the regions (\<open>mesh/persistence_store.cpp\<close>, the region part, and
  \<open>mesh/region_name.h\<close>): the three file formats, their validation, the envelope that commits the
  region map together with the private keys, and the classification of the live file at start-up.

  The file system and the replacement of files are those of the theory \<open>AtomicFile\<close>. A call that
  opens files takes the results of its opens, in the order the code makes them, as a function
  from positions to truth values. The serialised region map itself is produced and consumed by
  the MeshCore library; here it is the contents of the file at \<open>legacy_path\<close>.
\<close>

section \<open>Names\<close>

definition REGION_NAME_MAX_LEN :: nat where "REGION_NAME_MAX_LEN = 30"

definition regionNameBodyChar :: "byte \<Rightarrow> bool" where
  "regionNameBodyChar c \<longleftrightarrow> 0x61 \<le> c \<and> c \<le> 0x7A \<or> 0x41 \<le> c \<and> c \<le> 0x5A \<or> 0x30 \<le> c \<and> c \<le> 0x39 \<or> c = 0x2D \<or> c = 0x5F"

fun region_name_loop :: "bool \<Rightarrow> nat \<Rightarrow> cstring \<Rightarrow> bool" where
  "region_name_loop first len [] = True"
| "region_name_loop first len (c # cs) =
     (if len + 1 > REGION_NAME_MAX_LEN then False
      else if first \<and> (c = 0x23 \<or> c = 0x24) then region_name_loop False (len + 1) cs
      else if \<not> regionNameBodyChar c then False
      else region_name_loop False (len + 1) cs)"

definition regionNameValid :: "cstring option \<Rightarrow> bool" where
  "regionNameValid name =
     (case name of None \<Rightarrow> False
      | Some n \<Rightarrow>
          if n = [] then False
          else let body = (if hd n = 0x23 \<or> hd n = 0x24 then tl n else n)
               in if body = [] then False else region_name_loop True 0 n)"

section \<open>Integers and checksums\<close>

definition REGION_MAGIC :: "byte list" where "REGION_MAGIC = [0x53, 0x52, 1]"
definition REGION_TRANSACTIONAL_MAGIC :: "byte list" where "REGION_TRANSACTIONAL_MAGIC = [0x53, 0x52, 2]"
definition REGION_LEGACY_HEADER_SIZE :: nat where "REGION_LEGACY_HEADER_SIZE = 10"
definition REGION_LEGACY_RECORD_SIZE :: nat where "REGION_LEGACY_RECORD_SIZE = 164"
definition REGION_CHECKSUM_SIZE :: nat where "REGION_CHECKSUM_SIZE = 4"
definition REGION_MAX_RECORDS :: nat where "REGION_MAX_RECORDS = 32"
definition REGION_TRANSACTIONAL_HEADER_SIZE :: nat where "REGION_TRANSACTIONAL_HEADER_SIZE = 10"
definition REGION_PRIVATE_KEY_SIZE :: nat where "REGION_PRIVATE_KEY_SIZE = 16"
definition REGION_KEY_RECORD_SIZE :: nat where "REGION_KEY_RECORD_SIZE = 2 + REGION_PRIVATE_KEY_SIZE"
definition REGION_MAX_PRIVATE_KEYS :: nat where "REGION_MAX_PRIVATE_KEYS = 16"

lemmas region_sizes = REGION_LEGACY_HEADER_SIZE_def REGION_LEGACY_RECORD_SIZE_def REGION_CHECKSUM_SIZE_def REGION_MAX_RECORDS_def
  REGION_TRANSACTIONAL_HEADER_SIZE_def REGION_PRIVATE_KEY_SIZE_def REGION_KEY_RECORD_SIZE_def REGION_MAX_PRIVATE_KEYS_def

definition regionReadU16 :: "byte list \<Rightarrow> u16" where "regionReadU16 d = get_u16 d 0"
definition regionReadU32 :: "byte list \<Rightarrow> u32" where "regionReadU32 d = get_u32 d 0"
definition regionWriteU32 :: "u32 \<Rightarrow> byte list" where "regionWriteU32 v = put_u32 v"
definition regionWriteU16 :: "u16 \<Rightarrow> byte list" where "regionWriteU16 v = put_u16 v"

definition crc_bit :: "u32 \<Rightarrow> u32" where
  "crc_bit crc = drop_bit 1 crc XOR (0xEDB88320 AND - (crc AND 1))"

definition regionCrcUpdate :: "u32 \<Rightarrow> byte list \<Rightarrow> u32" where
  "regionCrcUpdate crc data = foldl (\<lambda>c b. (crc_bit ^^ 8) (c XOR ucast b)) crc data"

text \<open>The checksum loop over the next bytes of a file, through a buffer of \<open>cap\<close> bytes.\<close>

function crc_chunks :: "nat \<Rightarrow> nat \<Rightarrow> AtomicFileReader \<Rightarrow> u32 \<Rightarrow> (u32 \<times> AtomicFileReader) option" where
  "crc_chunks cap remaining r crc =
     (if remaining = 0 \<or> cap = 0 then Some (crc, r)
      else let chunk = (if remaining < cap then remaining else cap);
               (buffer, r') = rd_read chunk r
           in if length buffer \<noteq> chunk then None
              else crc_chunks cap (remaining - chunk) r' (regionCrcUpdate crc buffer))"
  by auto
termination by (relation "measure (\<lambda>(k, n, r, c). n)") (auto split: if_splits)

declare crc_chunks.simps [simp del]

section \<open>The structure of a region map\<close>

definition regionIdPresent :: "u16 \<Rightarrow> u16 list \<Rightarrow> bool" where
  "regionIdPresent i ids \<longleftrightarrow> i = 0 \<or> i \<in> set ids"

record RegionStructureInfo =
  rs_ids :: "u16 list"
  rs_private :: "bool list"

text \<open>The loop over the records: identifiers, parents, whether the name starts with \<open>$\<close>, and the largest identifier.\<close>

fun region_records :: "nat \<Rightarrow> AtomicFileReader \<Rightarrow> u16 list \<Rightarrow> u16 list \<Rightarrow> bool list \<Rightarrow> u16 \<Rightarrow>
    (u16 list \<times> u16 list \<times> bool list \<times> u16) option" where
  "region_records 0 r ids parents priv max_id = Some (ids, parents, priv, max_id)"
| "region_records (Suc n) r ids parents priv max_id =
     (let (rec, r') = rd_read REGION_LEGACY_RECORD_SIZE r
      in if length rec \<noteq> REGION_LEGACY_RECORD_SIZE then None
         else let i = regionReadU16 rec; parent = regionReadU16 (drop 2 rec); name = drop 4 rec
              in if i = 0 \<or> 0 \<notin> set (take 31 name) \<or> name ! 0 = 0 then None
                 else if \<not> regionNameValid (Some (cstr name)) then None
                 else if i \<in> set ids then None
                 else region_records n r' (ids @ [i]) (parents @ [parent]) (priv @ [name ! 0 = 0x24]) (if i > max_id then i else max_id))"

text \<open>The walk from a parent up to the root; \<open>depth\<close> counts the steps.\<close>

function parent_walk :: "u16 list \<Rightarrow> u16 list \<Rightarrow> nat \<Rightarrow> u16 \<Rightarrow> bool" where
  "parent_walk ids parents depth cursor =
     (if cursor = 0 then True
      else if depth \<ge> length ids then False
      else case first_index ((=) cursor) ids of
             None \<Rightarrow> False
           | Some parent_index \<Rightarrow> parent_walk ids parents (depth + 1) (parents ! parent_index))"
  by auto
termination by (relation "measure (\<lambda>(ids, parents, depth, cursor). length ids - depth)") auto

declare parent_walk.simps [simp del]

fun parents_ok :: "u16 list \<Rightarrow> u16 list \<Rightarrow> (u16 \<times> u16) list \<Rightarrow> bool" where
  "parents_ok ids parents [] = True"
| "parents_ok ids parents ((i, p) # rest) =
     (if p = i \<or> \<not> regionIdPresent p ids then False
      else if \<not> parent_walk ids parents 0 p then False
      else parents_ok ids parents rest)"

definition validateRegionStructure :: "AtomicFileReader \<Rightarrow> nat \<Rightarrow> nat \<Rightarrow> bool \<Rightarrow> RegionStructureInfo option" where
  "validateRegionStructure reader raw_offset raw_size current =
     (if raw_size < REGION_LEGACY_HEADER_SIZE \<or> (raw_size - REGION_LEGACY_HEADER_SIZE) mod REGION_LEGACY_RECORD_SIZE \<noteq> 0 then None
      else let count = (raw_size - REGION_LEGACY_HEADER_SIZE) div REGION_LEGACY_RECORD_SIZE;
               (sought, r0) = rd_seek raw_offset reader
           in if count > REGION_MAX_RECORDS \<or> \<not> sought then None
              else let (header, r1) = rd_read REGION_LEGACY_HEADER_SIZE r0
                   in if length header \<noteq> REGION_LEGACY_HEADER_SIZE then None
                      else if current \<and> take 3 header \<noteq> REGION_MAGIC then None
                      else if \<not> current \<and> (header ! 0 \<noteq> 0 \<or> header ! 1 \<noteq> 0 \<or> header ! 2 \<noteq> 0) then None
                      else let default_id = regionReadU16 (drop 3 header); home_id = regionReadU16 (drop 5 header);
                               next_id = regionReadU16 (drop 8 header)
                           in case region_records count r1 [] [] [] 0 of
                                None \<Rightarrow> None
                              | Some (ids, parents, priv, max_id) \<Rightarrow>
                                  if next_id = 0 \<or> next_id \<le> max_id \<or> \<not> regionIdPresent default_id ids \<or> \<not> regionIdPresent home_id ids
                                  then None
                                  else if \<not> parents_ok ids parents (zip ids parents) then None
                                  else Some \<lparr>rs_ids = ids, rs_private = priv\<rparr>)"

section \<open>The file formats\<close>

definition stored_crc_matches :: "nat \<Rightarrow> AtomicFileReader \<Rightarrow> bool" where
  "stored_crc_matches content r =
     (case rd_seek 0 r of (sought, r0) \<Rightarrow>
        sought \<and>
        (case crc_chunks 128 content r0 0xFFFFFFFF of
           None \<Rightarrow> False
         | Some (crc, r1) \<Rightarrow>
             let (stored, _) = rd_read REGION_CHECKSUM_SIZE r1
             in length stored = REGION_CHECKSUM_SIZE \<and> crc XOR 0xFFFFFFFF = regionReadU32 stored))"

definition validateCurrentRegionFile :: "byte list \<Rightarrow> bool" where
  "validateCurrentRegionFile d =
     (let reader = rd_open d; sz = rd_size reader
      in if sz < REGION_LEGACY_HEADER_SIZE + REGION_CHECKSUM_SIZE then False
         else let raw_size = sz - REGION_CHECKSUM_SIZE
              in if \<not> stored_crc_matches raw_size reader then False
                 else validateRegionStructure reader 0 raw_size True \<noteq> None)"

definition validateLegacyRegionFile :: "byte list \<Rightarrow> bool" where
  "validateLegacyRegionFile d = (let reader = rd_open d in validateRegionStructure reader 0 (rd_size reader) False \<noteq> None)"

definition regionPrivateIdPresent :: "RegionStructureInfo \<Rightarrow> u16 \<Rightarrow> bool" where
  "regionPrivateIdPresent info i = (case first_index ((=) i) (rs_ids info) of None \<Rightarrow> False | Some k \<Rightarrow> rs_private info ! k)"

fun key_records_ok :: "RegionStructureInfo \<Rightarrow> nat \<Rightarrow> AtomicFileReader \<Rightarrow> u16 list \<Rightarrow> bool" where
  "key_records_ok info 0 r key_ids = True"
| "key_records_ok info (Suc n) r key_ids =
     (let (rec, r') = rd_read REGION_KEY_RECORD_SIZE r
      in if length rec \<noteq> REGION_KEY_RECORD_SIZE then False
         else let i = regionReadU16 rec
              in if i = 0 \<or> \<not> regionPrivateIdPresent info i then False
                 else if fold (OR) (drop 2 rec) 0 = 0 then False
                 else if i \<in> set key_ids then False
                 else key_records_ok info n r' (key_ids @ [i]))"

text \<open>The sizes are added in \<open>size_t\<close>, which has 32 bits on the device.\<close>

definition validateTransactionalRegionFile :: "byte list \<Rightarrow> bool" where
  "validateTransactionalRegionFile d =
     (let reader = rd_open d; sz = rd_size reader
      in if sz < REGION_TRANSACTIONAL_HEADER_SIZE + REGION_LEGACY_HEADER_SIZE + REGION_CHECKSUM_SIZE then False
         else let (sought, r0) = rd_seek 0 reader; (header, r1) = rd_read REGION_TRANSACTIONAL_HEADER_SIZE r0
              in if \<not> sought \<or> length header \<noteq> REGION_TRANSACTIONAL_HEADER_SIZE \<or> take 3 header \<noteq> REGION_TRANSACTIONAL_MAGIC \<or>
                    header ! 8 \<noteq> 0 \<or> header ! 9 \<noteq> 0 then False
                 else let raw_size = unat (regionReadU32 (drop 3 header)); key_count = unat (header ! 7)
                      in if key_count > REGION_MAX_PRIVATE_KEYS \<or>
                            sz \<noteq> (REGION_TRANSACTIONAL_HEADER_SIZE + raw_size + key_count * REGION_KEY_RECORD_SIZE + REGION_CHECKSUM_SIZE) mod 2 ^ 32
                         then False
                         else case validateRegionStructure r1 REGION_TRANSACTIONAL_HEADER_SIZE raw_size False of
                                None \<Rightarrow> False
                              | Some info \<Rightarrow>
                                  let (sought2, r2) = rd_seek (REGION_TRANSACTIONAL_HEADER_SIZE + raw_size) r1
                                  in if \<not> sought2 then False
                                     else if \<not> key_records_ok info key_count r2 [] then False
                                     else stored_crc_matches (sz - REGION_CHECKSUM_SIZE) r2)"

definition validateAnyCurrentRegionFile :: "byte list \<Rightarrow> bool" where
  "validateAnyCurrentRegionFile d \<longleftrightarrow> validateTransactionalRegionFile d \<or> validateCurrentRegionFile d"

definition validateRegionPath :: "bool \<Rightarrow> cstring option \<Rightarrow> (byte list \<Rightarrow> bool) option \<Rightarrow> flash \<Rightarrow> bool" where
  "validateRegionPath opened path validate fs =
     (case (path, validate) of
        (Some p, Some v) \<Rightarrow> (case fs p of None \<Rightarrow> False | Some d \<Rightarrow> if \<not> opened then False else v d)
      | _ \<Rightarrow> False)"

section \<open>Writing\<close>

text \<open>
  The copy loop of both envelopes: \<open>head\<close> replaces the first bytes of the first chunk (the magic of
  format 1, nothing in format 2).
\<close>

function copy_source :: "byte list \<Rightarrow> byte list \<Rightarrow> nat \<Rightarrow> nat \<Rightarrow> u32 \<Rightarrow> AtomicFileWriter \<Rightarrow> bool \<times> u32 \<times> AtomicFileWriter" where
  "copy_source head source src_size off crc w =
     (if \<not> off < src_size then (True, crc, w)
      else let chunk = (if src_size - off < 128 then src_size - off else 128);
               buffer = take chunk (drop off source)
           in if length buffer \<noteq> chunk then (False, crc, w)
              else let buffer = (if off = 0 then overwrite buffer 0 head else buffer);
                       crc' = regionCrcUpdate crc buffer;
                       (written, w') = wr_write buffer w
                   in if written \<noteq> chunk then (False, crc', w')
                      else copy_source head source src_size (off + chunk) crc' w')"
  by auto
termination by (relation "measure (\<lambda>(h, s, n, off, c, w). n - off)") (auto split: if_splits)

declare copy_source.simps [simp del]

definition writeRegionEnvelope :: "byte list option \<Rightarrow> nat \<Rightarrow> AtomicFileWriter \<Rightarrow> bool \<times> AtomicFileWriter" where
  "writeRegionEnvelope source src_size w =
     (if src_size < length REGION_MAGIC then (False, w)
      else case source of None \<Rightarrow> (False, w)
           | Some d \<Rightarrow>
               (case copy_source REGION_MAGIC d src_size 0 0xFFFFFFFF w of
                  (False, crc, w1) \<Rightarrow> (False, w1)
                | (True, crc, w1) \<Rightarrow>
                    let (n, w2) = wr_write (regionWriteU32 (crc XOR 0xFFFFFFFF)) w1 in (n = REGION_CHECKSUM_SIZE, w2)))"

definition regionPathSize :: "bool \<Rightarrow> cstring \<Rightarrow> flash \<Rightarrow> nat option" where
  "regionPathSize opened path fs = (if opened then map_option length (fs path) else None)"

type_synonym key_reader = "nat \<Rightarrow> (u16 \<times> byte list) option"

fun write_keys :: "key_reader \<Rightarrow> nat \<Rightarrow> nat \<Rightarrow> u32 \<Rightarrow> AtomicFileWriter \<Rightarrow> bool \<times> u32 \<times> AtomicFileWriter" where
  "write_keys read_key i 0 crc w = (True, crc, w)"
| "write_keys read_key i (Suc n) crc w =
     (case read_key i of None \<Rightarrow> (False, crc, w)
      | Some (region_id, key) \<Rightarrow>
          let rec = regionWriteU16 region_id @ key; crc' = regionCrcUpdate crc rec; (written, w') = wr_write rec w
          in if written \<noteq> REGION_KEY_RECORD_SIZE then (False, crc', w') else write_keys read_key (i + 1) n crc' w')"

definition transactional_header :: "nat \<Rightarrow> int \<Rightarrow> byte list" where
  "transactional_header src_size key_count =
     REGION_TRANSACTIONAL_MAGIC @ regionWriteU32 (word_of_nat src_size) @ [word_of_int key_count, 0, 0]"

definition writeTransactionalRegionEnvelope ::
  "byte list option \<Rightarrow> nat \<Rightarrow> int \<Rightarrow> key_reader option \<Rightarrow> AtomicFileWriter \<Rightarrow> bool \<times> AtomicFileWriter" where
  "writeTransactionalRegionEnvelope source src_size key_count read_key w =
     (if src_size < REGION_LEGACY_HEADER_SIZE \<or> src_size > 0xFFFFFFFF \<or> key_count < 0 \<or>
         key_count > int REGION_MAX_PRIVATE_KEYS \<or> key_count > 0 \<and> read_key = None then (False, w)
      else let header = transactional_header src_size key_count;
               crc = regionCrcUpdate 0xFFFFFFFF header;
               (n, w1) = wr_write header w
           in if n \<noteq> REGION_TRANSACTIONAL_HEADER_SIZE then (False, w1)
              else case source of None \<Rightarrow> (False, w1)
                   | Some d \<Rightarrow>
                       (case copy_source [] d src_size 0 crc w1 of
                          (False, crc1, w2) \<Rightarrow> (False, w2)
                        | (True, crc1, w2) \<Rightarrow>
                            (case write_keys (case read_key of None \<Rightarrow> (\<lambda>_. None) | Some rk \<Rightarrow> rk) 0 (nat key_count) crc1 w2 of
                               (False, crc2, w3) \<Rightarrow> (False, w3)
                             | (True, crc2, w3) \<Rightarrow>
                                 let (k, w4) = wr_write (regionWriteU32 (crc2 XOR 0xFFFFFFFF)) w3
                                 in (k = REGION_CHECKSUM_SIZE, w4))))"

section \<open>Saving and loading\<close>

text \<open>How the calls of one save end: the opens outside the replacement, the recovery, the replacement.\<close>

record region_faults =
  rf_opens :: "nat \<Rightarrow> bool"
  rf_recover :: spiffs_faults
  rf_replace :: spiffs_faults

definition opened_source :: "bool \<Rightarrow> cstring \<Rightarrow> flash \<Rightarrow> byte list option" where
  "opened_source opened path fs = (if opened then fs path else None)"

definition regionStoreSaveLegacyFile :: "region_faults \<Rightarrow> cstring option \<Rightarrow> cstring option \<Rightarrow> flash \<Rightarrow> bool \<times> flash list" where
  "regionStoreSaveLegacyFile env path legacy_path fs =
     (case (path, legacy_path) of
        (Some p, Some l) \<Rightarrow>
          if \<not> validateRegionPath (rf_opens env 0) legacy_path (Some validateLegacyRegionFile) fs then (False, [fs])
          else (case atomicFileRecover (rf_recover env) path (Some validateCurrentRegionFile) fs of
                  (recovered, tr) \<Rightarrow>
                    let fs1 = last tr;
                        refused = (case atomicFileTempPath path 192 of
                            None \<Rightarrow> True
                          | Some t \<Rightarrow> validateRegionPath (rf_opens env 1) (Some t) (Some validateCurrentRegionFile) fs1 \<or>
                              \<not> validateRegionPath (rf_opens env 2) path (Some validateCurrentRegionFile) fs1 \<and>
                              \<not> validateRegionPath (rf_opens env 3) path (Some validateLegacyRegionFile) fs1)
                    in if \<not> recovered \<and> refused then (False, tr)
                       else (case regionPathSize (rf_opens env 4) l fs1 of
                               None \<Rightarrow> (False, tr)
                             | Some src_size \<Rightarrow>
                                 (case atomicFileReplace (rf_replace env) path
                                         (Some (writeRegionEnvelope (opened_source (rf_opens env 5) l fs1) src_size))
                                         (Some validateCurrentRegionFile) fs1 of
                                    (ok, tr2) \<Rightarrow> (ok, tr @ tr2))))
      | _ \<Rightarrow> (False, [fs]))"

definition regionStoreSaveTransactionalFile ::
  "region_faults \<Rightarrow> cstring option \<Rightarrow> cstring option \<Rightarrow> int \<Rightarrow> key_reader option \<Rightarrow> flash \<Rightarrow> bool \<times> flash list" where
  "regionStoreSaveTransactionalFile env path legacy_path key_count read_key fs =
     (case (path, legacy_path) of
        (Some p, Some l) \<Rightarrow>
          if key_count < 0 \<or> key_count > int REGION_MAX_PRIVATE_KEYS \<or> key_count > 0 \<and> read_key = None \<or>
             \<not> validateRegionPath (rf_opens env 0) legacy_path (Some validateLegacyRegionFile) fs then (False, [fs])
          else (case atomicFileRecover (rf_recover env) path (Some validateAnyCurrentRegionFile) fs of
                  (recovered, tr) \<Rightarrow>
                    let fs1 = last tr;
                        refused = (case atomicFileTempPath path 192 of
                            None \<Rightarrow> True
                          | Some t \<Rightarrow> validateRegionPath (rf_opens env 1) (Some t) (Some validateAnyCurrentRegionFile) fs1 \<or>
                              \<not> validateRegionPath (rf_opens env 2) path (Some validateTransactionalRegionFile) fs1 \<and>
                              \<not> validateRegionPath (rf_opens env 3) path (Some validateCurrentRegionFile) fs1 \<and>
                              \<not> validateRegionPath (rf_opens env 4) path (Some validateLegacyRegionFile) fs1)
                    in if \<not> recovered \<and> refused then (False, tr)
                       else (case regionPathSize (rf_opens env 5) l fs1 of
                               None \<Rightarrow> (False, tr)
                             | Some src_size \<Rightarrow>
                                 (case atomicFileReplace (rf_replace env) path
                                         (Some (writeTransactionalRegionEnvelope (opened_source (rf_opens env 6) l fs1) src_size
                                           key_count read_key))
                                         (Some validateTransactionalRegionFile) fs1 of
                                    (ok, tr2) \<Rightarrow> (ok, tr @ tr2))))
      | _ \<Rightarrow> (False, [fs]))"

text \<open>
  Extracting the map: the bytes after the header, copied 128 at a time into a file that is created
  empty; \<open>rm\<close> is the room on the flash. A read of a validated file is never short; a copy that is not whole or does not validate is removed.
\<close>

function extract_loop :: "byte list \<Rightarrow> nat \<Rightarrow> nat \<Rightarrow> byte list \<Rightarrow> bool \<times> byte list" where
  "extract_loop source remaining rm dest =
     (if remaining = 0 then (True, dest)
      else let chunk = (if remaining < 128 then remaining else 128);
               buffer = take chunk source;
               written = min chunk rm
           in if length buffer \<noteq> chunk \<or> written \<noteq> chunk then (False, dest @ take written (pad_to chunk buffer))
              else extract_loop (drop chunk source) (remaining - chunk) (rm - chunk) (dest @ buffer))"
  by auto
termination by (relation "measure (\<lambda>(s, n, rm, d). n)") (auto split: if_splits)

declare extract_loop.simps [simp del]

definition copyTransactionalRegionMap :: "(nat \<Rightarrow> bool) \<Rightarrow> nat \<Rightarrow> bool \<Rightarrow> cstring \<Rightarrow> cstring \<Rightarrow> flash \<Rightarrow> bool \<times> flash" where
  "copyTransactionalRegionMap opens rm can_remove path legacy_path fs =
     (if \<not> validateRegionPath (opens 0) (Some path) (Some validateTransactionalRegionFile) fs then (False, fs)
      else let source = opened_source (opens 1) path fs;
               fs1 = (if opens 2 then fs(legacy_path := Some []) else fs)
           in case source of None \<Rightarrow> (False, fs1)
              | Some d \<Rightarrow>
                  if \<not> opens 2 then (False, fs1)
                  else let header = take REGION_TRANSACTIONAL_HEADER_SIZE d;
                           ok = (length header = REGION_TRANSACTIONAL_HEADER_SIZE);
                           remaining = (if ok then unat (regionReadU32 (drop 3 header)) else 0);
                           (ok1, copied) = (if ok then extract_loop (drop REGION_TRANSACTIONAL_HEADER_SIZE d) remaining rm [] else (False, []));
                           fs2 = fs1(legacy_path := Some copied)
                       in if \<not> ok1 \<or> \<not> validateRegionPath (opens 3) (Some legacy_path) (Some validateLegacyRegionFile) fs2
                          then (False, snd (removeFile can_remove legacy_path fs2))
                          else (True, fs2))"

definition regionStoreExtractTransactionalMap ::
  "(nat \<Rightarrow> bool) \<Rightarrow> nat \<Rightarrow> bool \<Rightarrow> cstring option \<Rightarrow> cstring option \<Rightarrow> flash \<Rightarrow> bool \<times> flash" where
  "regionStoreExtractTransactionalMap opens rm can_remove path legacy_path fs =
     (case (path, legacy_path) of
        (Some p, Some l) \<Rightarrow> copyTransactionalRegionMap opens rm can_remove p l fs
      | _ \<Rightarrow> (False, fs))"

type_synonym 'c key_loader = "u16 \<Rightarrow> byte list \<Rightarrow> 'c \<Rightarrow> bool \<times> 'c"

fun load_keys :: "'c key_loader option \<Rightarrow> nat \<Rightarrow> AtomicFileReader \<Rightarrow> 'c \<Rightarrow> bool \<times> 'c" where
  "load_keys load_key 0 r ctx = (True, ctx)"
| "load_keys load_key (Suc n) r ctx =
     (let (rec, r') = rd_read REGION_KEY_RECORD_SIZE r
      in if length rec \<noteq> REGION_KEY_RECORD_SIZE then (False, ctx)
         else case load_key of None \<Rightarrow> load_keys load_key n r' ctx
              | Some ld \<Rightarrow> (case ld (regionReadU16 rec) (drop 2 rec) ctx of
                             (False, ctx') \<Rightarrow> (False, ctx') | (True, ctx') \<Rightarrow> load_keys load_key n r' ctx'))"

definition regionStoreLoadTransactionalKeys ::
  "(nat \<Rightarrow> bool) \<Rightarrow> cstring option \<Rightarrow> 'c key_loader option \<Rightarrow> flash \<Rightarrow> 'c \<Rightarrow> int \<times> 'c" where
  "regionStoreLoadTransactionalKeys opens path load_key fs ctx =
     (if \<not> validateRegionPath (opens 0) path (Some validateTransactionalRegionFile) fs then (- 1, ctx)
      else case opened_source (opens 1) (the path) fs of None \<Rightarrow> (- 1, ctx)
           | Some d \<Rightarrow>
               let (_, r0) = rd_seek 0 (rd_open d);
                   (header, r1) = rd_read REGION_TRANSACTIONAL_HEADER_SIZE r0;
                   ok = (length header = REGION_TRANSACTIONAL_HEADER_SIZE);
                   raw_size = (if ok then unat (regionReadU32 (drop 3 header)) else 0);
                   key_count = (if ok then unat (header ! 7) else 0);
                   (sought, r2) = rd_seek (REGION_TRANSACTIONAL_HEADER_SIZE + raw_size) r1
               in if \<not> ok \<or> \<not> sought then (- 1, ctx)
                  else (case load_keys load_key key_count r2 ctx of
                          (ok2, ctx') \<Rightarrow> (if ok2 then int key_count else - 1, ctx')))"

datatype RegionStoreFormat = Invalid | Legacy | Current | Transactional

definition regionStorePrepareLoad :: "region_faults \<Rightarrow> cstring option \<Rightarrow> flash \<Rightarrow> RegionStoreFormat \<times> flash list" where
  "regionStorePrepareLoad env path fs =
     (case path of None \<Rightarrow> (Invalid, [fs])
      | Some p \<Rightarrow>
          let tr = snd (atomicFileRecover (rf_recover env) path (Some validateAnyCurrentRegionFile) fs); fs1 = last tr
          in (if validateRegionPath (rf_opens env 0) path (Some validateTransactionalRegionFile) fs1 then Transactional
              else if validateRegionPath (rf_opens env 1) path (Some validateCurrentRegionFile) fs1 then Current
              else if validateRegionPath (rf_opens env 2) path (Some validateLegacyRegionFile) fs1 then Legacy
              else Invalid, tr))"

end
