(* ===== verification/RegionStoreProps.thy ===== *)
theory RegionStoreProps
  imports RegionStore
begin

text \<open>
  What the region store guarantees: an accepted file describes a forest; what was committed is
  what is loaded; an interrupted commit leaves the old snapshot or the new one.
\<close>

section \<open>Checksums over files\<close>

lemma regionCrcUpdate_append: "regionCrcUpdate c (a @ b) = regionCrcUpdate (regionCrcUpdate c a) b"
  by (simp add: regionCrcUpdate_def)

lemma rd_read_eq: "rd_read n r = (take n (drop (rd_pos r) (rd_data r)), r\<lparr>rd_pos := rd_pos r + min (length (rd_data r) - rd_pos r) n\<rparr>)"
  by (simp add: rd_read_def Let_def)

lemma crc_chunks_eq:
  "0 < cap \<Longrightarrow> rd_pos r + n \<le> length (rd_data r) \<Longrightarrow>
     crc_chunks cap n r c = Some (regionCrcUpdate c (take n (drop (rd_pos r) (rd_data r))), r\<lparr>rd_pos := rd_pos r + n\<rparr>)"
proof (induction cap n r c rule: crc_chunks.induct)
  case (1 cap n r c)
  show ?case
  proof (cases "n = 0")
    case True
    then show ?thesis by (simp add: crc_chunks.simps regionCrcUpdate_def)
  next
    case False
    have nz: "\<not> (n = 0 \<or> cap = 0)" using False 1(2) by simp
    define k where "k = (if n < cap then n else cap)"
    define r' where "r' = r\<lparr>rd_pos := rd_pos r + k\<rparr>"
    have k: "0 < k" "k \<le> n" using False 1(2) by (auto simp: k_def)
    have rd: "rd_read k r = (take k (drop (rd_pos r) (rd_data r)), r')"
      using 1(3) k by (simp add: rd_read_eq r'_def min_def)
    have len: "length (take k (drop (rd_pos r) (rd_data r))) = k" using 1(3) k by simp
    have "crc_chunks cap n r c = crc_chunks cap (n - k) r' (regionCrcUpdate c (take k (drop (rd_pos r) (rd_data r))))"
      using nz len by (subst crc_chunks.simps) (simp add: k_def [symmetric] rd Let_def)
    also have "\<dots> = Some (regionCrcUpdate (regionCrcUpdate c (take k (drop (rd_pos r) (rd_data r)))) (take (n - k) (drop (rd_pos r + k) (rd_data r))),
        r\<lparr>rd_pos := rd_pos r + n\<rparr>)"
      using 1(1) [OF nz k_def rd [symmetric]] len 1(2) 1(3) k by (simp add: r'_def)
    also have "\<dots> = Some (regionCrcUpdate c (take n (drop (rd_pos r) (rd_data r))), r\<lparr>rd_pos := rd_pos r + n\<rparr>)"
      using k take_add [of k "n - k" "drop (rd_pos r) (rd_data r)"] by (simp add: regionCrcUpdate_append add.commute)
    finally show ?thesis .
  qed
qed

lemma stored_crc_matches_eq:
  "n + 4 \<le> length (rd_data r) \<Longrightarrow>
     stored_crc_matches n r \<longleftrightarrow> regionCrcUpdate 0xFFFFFFFF (take n (rd_data r)) XOR 0xFFFFFFFF = get_u32 (rd_data r) n"
  by (simp add: stored_crc_matches_def rd_seek_def crc_chunks_eq rd_read_eq region_sizes regionReadU32_def get_u32_def)

section \<open>Records in a window of a file\<close>

text \<open>The record loop reads a window of the file and nothing else.\<close>

lemma region_records_window:
  assumes "take (n * 164) (drop (rd_pos r) (rd_data r)) = take (n * 164) (drop (rd_pos r') (rd_data r'))"
  shows "region_records n r ids parents priv m = region_records n r' ids parents priv m"
  using assms
proof (induction n arbitrary: r r' ids parents priv m)
  case (Suc n)
  let ?d = "drop (rd_pos r) (rd_data r)" and ?d' = "drop (rd_pos r') (rd_data r')"
  have w: "take 164 ?d = take 164 ?d'" using arg_cong [OF Suc.prems, of "take 164"] by (simp add: min_def)
  have w2: "take (n * 164) (drop 164 ?d) = take (n * 164) (drop 164 ?d')"
    using arg_cong [OF Suc.prems, of "drop 164"] by (simp add: drop_take)
  show ?case
  proof (cases "length (take 164 ?d) = 164")
    case False
    then show ?thesis using w by (simp add: rd_read_eq region_sizes)
  next
    case True
    then have "164 \<le> length ?d" "164 \<le> length ?d'" using arg_cong [OF w, of length] by auto
    then have "region_records n (r\<lparr>rd_pos := rd_pos r + min (length (rd_data r) - rd_pos r) 164\<rparr>) i p v x =
        region_records n (r'\<lparr>rd_pos := rd_pos r' + min (length (rd_data r') - rd_pos r') 164\<rparr>) i p v x" for i p v x
      using w2 by (intro Suc.IH) (simp add: min_absorb2 add.commute)
    then show ?thesis using w by (simp add: rd_read_eq region_sizes Let_def)
  qed
qed simp

lemma structure_window:
  assumes "take sz (drop off (rd_data r)) = raw" and "length raw = sz" and "off \<le> length (rd_data r)"
  shows "validateRegionStructure r off sz b = validateRegionStructure (rd_open raw) 0 sz b"
proof (cases "sz < 10 \<or> (sz - 10) mod 164 \<noteq> 0")
  case True
  then show ?thesis by (auto simp: validateRegionStructure_def region_sizes)
next
  case False
  then have n: "(sz - 10) div 164 * 164 = sz - 10" by auto
  have h: "take 10 (drop off (rd_data r)) = take 10 raw" using assms(1) False by (auto simp: min_def)
  have len: "10 \<le> length (drop off (rd_data r))" "10 \<le> length raw" using assms False arg_cong [OF assms(1), of length] by auto
  have "take (sz - 10) (drop (off + 10) (rd_data r)) = take (sz - 10) (drop 10 raw)"
    unfolding assms(1) [symmetric] using assms(2) by (simp add: drop_take add.commute)
  then have "region_records ((sz - 10) div 164) (r\<lparr>rd_pos := off + 10\<rparr>) [] [] [] 0 =
      region_records ((sz - 10) div 164) (rd_open raw\<lparr>rd_pos := 10\<rparr>) [] [] [] 0"
    by (intro region_records_window) (simp add: n rd_open_def)
  then show ?thesis using len h assms(3) False
    by (simp add: validateRegionStructure_def region_sizes rd_seek_def rd_read_eq rd_open_def min_def Let_def)
qed

lemma structure_small: "validateRegionStructure r off sz b \<noteq> None \<Longrightarrow> sz \<le> 5258 \<and> 10 \<le> sz"
proof -
  assume "validateRegionStructure r off sz b \<noteq> None"
  then have "10 \<le> sz" "(sz - 10) mod 164 = 0" "(sz - 10) div 164 \<le> 32"
    by (auto simp: validateRegionStructure_def region_sizes Let_def split: if_splits prod.splits)
  then show ?thesis using div_mult_mod_eq [of "sz - 10" 164] by linarith
qed

section \<open>The image of a snapshot\<close>

definition key_record :: "u16 \<times> byte list \<Rightarrow> byte list" where
  "key_record k = put_u16 (fst k) @ snd k"

definition region_body :: "byte list \<Rightarrow> (u16 \<times> byte list) list \<Rightarrow> byte list" where
  "region_body raw keys = transactional_header (length raw) (int (length keys)) @ raw @ concat (map key_record keys)"

definition region_file :: "byte list \<Rightarrow> (u16 \<times> byte list) list \<Rightarrow> byte list" where
  "region_file raw keys = region_body raw keys @ put_u32 (regionCrcUpdate 0xFFFFFFFF (region_body raw keys) XOR 0xFFFFFFFF)"

definition keys_sized :: "(u16 \<times> byte list) list \<Rightarrow> bool" where
  "keys_sized keys \<longleftrightarrow> length keys \<le> 16 \<and> (\<forall>k \<in> set keys. length (snd k) = 16)"

lemma length_snapshot_header [simp]: "length (transactional_header n k) = 10"
  by (simp add: transactional_header_def REGION_TRANSACTIONAL_MAGIC_def regionWriteU32_def)

lemma length_key_records: "\<forall>k \<in> set keys. length (snd k) = 16 \<Longrightarrow> length (concat (map key_record keys)) = 18 * length keys"
  by (induction keys) (simp_all add: key_record_def)

lemma length_region_file: "keys_sized keys \<Longrightarrow> length (region_file raw keys) = 14 + length raw + 18 * length keys"
  using length_key_records [of keys] by (simp add: region_file_def region_body_def keys_sized_def)

lemma snapshot_header_fields:
  assumes "take 10 d = transactional_header n (int k)" and "n < 2 ^ 32" and "k \<le> 16"
  shows "take 3 (take 10 d) = [0x53, 0x52, 2]" "unat (regionReadU32 (drop 3 (take 10 d))) = n" "unat (take 10 d ! 7) = k"
    "take 10 d ! 8 = 0" "take 10 d ! 9 = 0"
proof -
  have k: "unat (word_of_int (int k) :: byte) = k" using assms(3) by (simp add: unat_of_nat_byte)
  have n: "unat (word_of_nat n :: u32) = n" using assms(2) by (simp add: unsigned_of_nat take_bit_nat_eq_self)
  have u: "get_u32 (put_u32 (word_of_nat n) @ [x, y, z]) 0 = word_of_nat n" for x y z by (rule get_u32_put_u32_0)
  show "unat (regionReadU32 (drop 3 (take 10 d))) = n"
    unfolding assms(1) by (simp add: transactional_header_def REGION_TRANSACTIONAL_MAGIC_def regionWriteU32_def regionReadU32_def u n)
  show "unat (take 10 d ! 7) = k" unfolding assms(1)
    by (simp add: transactional_header_def REGION_TRANSACTIONAL_MAGIC_def regionWriteU32_def put_u32_def k [simplified])
  show "take 3 (take 10 d) = [0x53, 0x52, 2]" "take 10 d ! 8 = 0" "take 10 d ! 9 = 0" unfolding assms(1)
    by (simp_all add: transactional_header_def REGION_TRANSACTIONAL_MAGIC_def regionWriteU32_def put_u32_def)
qed

text \<open>The header fixes the length, so nothing on the way to a snapshot passes for a file.\<close>

lemma valid_length:
  assumes "take 10 d = transactional_header n (int k)" and "n \<le> 5258" and "k \<le> 16" and "validateAnyCurrentRegionFile d"
  shows "length d = 14 + n + 18 * k \<and> validateTransactionalRegionFile d"
proof -
  note h = snapshot_header_fields [OF assms(1) _ assms(3)]
  have "\<not> validateCurrentRegionFile d"
    using h(1) assms(2) by (auto simp: validateCurrentRegionFile_def validateRegionStructure_def REGION_MAGIC_def rd_open_def rd_seek_def
        rd_read_eq region_sizes rd_size_def Let_def split: if_splits)
  then have v: "validateTransactionalRegionFile d" using assms(4) by (simp add: validateAnyCurrentRegionFile_def)
  then have "length d = (10 + n + k * 18 + 4) mod 2 ^ 32"
    using h(2,3) assms(2) by (auto simp: validateTransactionalRegionFile_def rd_open_def rd_seek_def rd_read_eq region_sizes rd_size_def
        Let_def split: if_splits)
  then show ?thesis using v assms(2,3) by simp
qed

lemma no_partial_snapshot:
  assumes "prefix d (region_file raw keys)" and "keys_sized keys" and "length raw \<le> 5258" and "validateAnyCurrentRegionFile d"
  shows "d = region_file raw keys"
proof -
  have "14 \<le> length d" using assms(4)
    by (auto simp: validateAnyCurrentRegionFile_def validateTransactionalRegionFile_def validateCurrentRegionFile_def region_sizes
        rd_size_def rd_open_def Let_def split: if_splits)
  then have "take 10 d = take 10 (region_file raw keys)" using assms(1) by (auto simp: prefix_def)
  also have "\<dots> = transactional_header (length raw) (int (length keys))" by (simp add: region_file_def region_body_def)
  finally have "length d = length (region_file raw keys)"
    using valid_length [OF _ assms(3) _ assms(4)] assms(2) length_region_file [OF assms(2)] by (simp add: keys_sized_def)
  then show ?thesis using assms(1) by (auto simp: prefix_def)
qed

section \<open>What the writers write\<close>

lemma prefix_window: "prefix (a @ take k (take n x)) (a @ x)"
  by (metis prefix_order.trans same_prefix_prefix take_is_prefix)

lemma copy_source_step:
  assumes "off < n" and "k = (if n - off < 128 then n - off else 128)" and "length (take k (drop off d)) = k"
  shows "copy_source [] d n off c w =
    (if fst (wr_write (take k (drop off d)) w) \<noteq> k
     then (False, regionCrcUpdate c (take k (drop off d)), snd (wr_write (take k (drop off d)) w))
     else copy_source [] d n (off + k) (regionCrcUpdate c (take k (drop off d))) (snd (wr_write (take k (drop off d)) w)))"
proof -
  have "copy_source [] d n off c w =
    (let buffer = take k (drop off d) in
     if length buffer \<noteq> k then (False, c, w)
     else let buffer = (if off = 0 then overwrite buffer 0 [] else buffer); crc' = regionCrcUpdate c buffer; (written, w') = wr_write buffer w
          in if written \<noteq> k then (False, crc', w') else copy_source [] d n (off + k) crc' w')"
    unfolding assms(2) by (subst copy_source.simps) (simp only: assms(1) Let_def not_True_eq_False if_False)
  then show ?thesis using assms(3) by (simp only: Let_def overwrite_Nil if_cancel not_not if_False) (simp add: case_prod_beta)
qed

lemma copy_source_spec:
  assumes "off \<le> length d" and "wr_good w" and "copy_source [] d (length d) off c w = (ok, c', w')"
  shows "prefix (wr_data w') (wr_data w @ drop off d) \<and>
    (ok \<longrightarrow> wr_data w' = wr_data w @ drop off d \<and> c' = regionCrcUpdate c (drop off d) \<and> wr_good w')"
  using assms
proof (induction "length d - off" arbitrary: off c w rule: less_induct)
  case less
  show ?case
  proof (cases "off < length d")
    case False
    then show ?thesis using less.prems by (subst (asm) copy_source.simps) (auto simp: regionCrcUpdate_def)
  next
    case True
    define k where "k = (if length d - off < 128 then length d - off else 128)"
    define b where "b = take k (drop off d)"
    have k: "0 < k" "off + k \<le> length d" and b: "length b = k" "drop off d = b @ drop (off + k) d" "b \<noteq> []"
      using True by (auto simp: k_def b_def) (metis append_take_drop_id drop_drop add.commute)+
    note run = less.prems(3) [unfolded copy_source_step [OF True k_def b(1) [unfolded b_def]], folded b_def]
    show ?thesis
    proof (cases rule: wr_write_cases [of b w])
      case full
      have "prefix (wr_data w') (wr_data (snd (wr_write b w)) @ drop (off + k) d) \<and>
        (ok \<longrightarrow> wr_data w' = wr_data (snd (wr_write b w)) @ drop (off + k) d \<and>
           c' = regionCrcUpdate (regionCrcUpdate c b) (drop (off + k) d) \<and> wr_good w')"
        using run full b k by (intro less.hyps) auto
      then show ?thesis using full(2) by (simp add: b(2) regionCrcUpdate_append)
    next
      case (short j)
      then have "\<not> ok" "w' = snd (wr_write b w)" using run b by auto
      then show ?thesis using short(2) prefix_window [of "wr_data w" j "length b" "b @ drop (off + k) d"] by (simp add: b(2))
    qed
  qed
qed

lemma write_keys_spec:
  assumes "\<forall>j < length keys. rk (i + j) = Some (keys ! j)" and "\<forall>k \<in> set keys. length (snd k) = 16" and "wr_good w"
    and "write_keys rk i (length keys) c w = (ok, c', w')"
  shows "prefix (wr_data w') (wr_data w @ concat (map key_record keys)) \<and>
    (ok \<longrightarrow> wr_data w' = wr_data w @ concat (map key_record keys) \<and> c' = regionCrcUpdate c (concat (map key_record keys)) \<and> wr_good w')"
  using assms
proof (induction keys arbitrary: i c w)
  case Nil
  then show ?case by (simp add: regionCrcUpdate_def)
next
  case (Cons k keys)
  have rk: "rk i = Some k" "\<forall>j < length keys. rk (i + 1 + j) = Some (keys ! j)"
    using Cons.prems(1) [rule_format, of 0] Cons.prems(1) [rule_format, of "Suc j" for j] by auto
  have b: "length (key_record k) = 18" "key_record k \<noteq> []" using Cons.prems(2) by (auto simp: key_record_def)
  have run: "(if fst (wr_write (key_record k) w) \<noteq> 18 then (False, regionCrcUpdate c (key_record k), snd (wr_write (key_record k) w))
      else write_keys rk (i + 1) (length keys) (regionCrcUpdate c (key_record k)) (snd (wr_write (key_record k) w))) = (ok, c', w')"
    using Cons.prems(4) rk(1) by (cases k) (auto simp: key_record_def regionWriteU16_def region_sizes Let_def split: prod.splits if_splits)
  show ?case
  proof (cases rule: wr_write_cases [of "key_record k" w])
    case full
    have "prefix (wr_data w') (wr_data (snd (wr_write (key_record k) w)) @ concat (map key_record keys)) \<and>
      (ok \<longrightarrow> wr_data w' = wr_data (snd (wr_write (key_record k) w)) @ concat (map key_record keys) \<and>
         c' = regionCrcUpdate (regionCrcUpdate c (key_record k)) (concat (map key_record keys)) \<and> wr_good w')"
      using run full b Cons.prems(2) rk(2) by (intro Cons.IH) auto
    then show ?thesis using full(2) by (simp add: regionCrcUpdate_append)
  next
    case (short j)
    then have "\<not> ok" "w' = snd (wr_write (key_record k) w)" using run b by auto
    then show ?thesis using short(2)
        prefix_window [of "wr_data w" j "length (key_record k)" "key_record k @ concat (map key_record keys)"] by simp
  qed
qed

lemma write_snapshot:
  assumes sz: "keys_sized keys" and rk: "\<forall>j < length keys. rk j = Some (keys ! j)" and src: "src = None \<or> src = Some raw"
    and w: "writeTransactionalRegionEnvelope src (length raw) (int (length keys)) (Some rk) (wr_open rm) = (ok, w)"
  shows "prefix (wr_data w) (region_file raw keys) \<and> (ok \<and> wr_good w \<longrightarrow> wr_data w = region_file raw keys)"
proof (cases "length raw < 10 \<or> length raw > 0xFFFFFFFF")
  case True
  then show ?thesis using w by (auto simp: writeTransactionalRegionEnvelope_def region_sizes wr_open_def)
next
  case False
  let ?h = "transactional_header (length raw) (int (length keys))"
  let ?f = "put_u32 (regionCrcUpdate 0xFFFFFFFF (region_body raw keys) XOR 0xFFFFFFFF)"
  have image: "region_file raw keys = ?h @ raw @ concat (map key_record keys) @ ?f" by (simp add: region_file_def region_body_def)
  have guard: "\<not> (length raw < REGION_LEGACY_HEADER_SIZE \<or> length raw > 0xFFFFFFFF \<or> int (length keys) < 0 \<or>
      int (length keys) > int REGION_MAX_PRIVATE_KEYS \<or> int (length keys) > 0 \<and> Some rk = None)"
    using False sz by (simp add: region_sizes keys_sized_def)
  obtain n w1 where w1: "wr_write ?h (wr_open rm) = (n, w1)" by force
  note run = w [unfolded writeTransactionalRegionEnvelope_def if_not_P [OF guard] Let_def w1 prod.case option.case REGION_TRANSACTIONAL_HEADER_SIZE_def]
  show ?thesis
  proof (cases rule: wr_write_cases [of ?h "wr_open rm"])
    case (short k)
    then have "w = w1" "\<not> ok" using run w1 by auto
    then show ?thesis using short(2) w1 prefix_window [of "[]" k 10 ?h] by (auto simp: image wr_open_def prefix_def append_assoc)
        (metis append_assoc append_take_drop_id)
  next
    case full
    then have h: "n = 10" "wr_data w1 = ?h" "wr_good w1" using w1 by (auto simp: wr_open_def)
    show ?thesis
    proof (cases src)
      case None
      then show ?thesis using run h by (auto simp: image)
    next
      case (Some d)
      then have d: "d = raw" using src by simp
      obtain ok2 c2 w2 where w2: "copy_source [] raw (length raw) 0 (regionCrcUpdate 0xFFFFFFFF ?h) w1 = (ok2, c2, w2)"
        by (meson prod_cases3)
      note s2 = copy_source_spec [OF _ h(3) w2, simplified, unfolded h(2)]
      obtain ok3 c3 w3 where w3: "write_keys rk 0 (length keys) c2 w2 = (ok3, c3, w3)" by (meson prod_cases3)
      have s3: "prefix (wr_data w3) (?h @ raw @ concat (map key_record keys)) \<and> (ok3 \<longrightarrow> wr_data w3 = ?h @ raw @ concat (map key_record keys) \<and>
          c3 = regionCrcUpdate 0xFFFFFFFF (region_body raw keys))" if ok2
        using write_keys_spec [of keys rk 0 w2 c2 ok3 c3 w3] w3 s2 that rk sz
        by (simp add: keys_sized_def region_body_def regionCrcUpdate_append)
      have f: "regionWriteU32 (c3 XOR 0xFFFFFFFF) = ?f" if "ok2" "ok3" using s3 that by (simp add: regionWriteU32_def)
      consider "\<not> ok2" "\<not> ok" "w = w2" | "ok2" "\<not> ok3" "\<not> ok" "w = w3"
        | "ok2" "ok3" "w = snd (wr_write ?f w3)" "ok = (fst (wr_write ?f w3) = 4)"
        using run h(1) Some d w2 w3 f by (auto simp: region_sizes split: bool.splits prod.splits)
      then show ?thesis
      proof cases
        case 1
        then show ?thesis using s2 by (auto simp: image intro: prefix_order.trans)
      next
        case 2
        then show ?thesis using s3 prefix_prefix [of "wr_data w3" "?h @ raw @ concat (map key_record keys)" ?f] by (simp add: image)
      next
        case 3
        show ?thesis
        proof (cases rule: wr_write_cases [of ?f w3])
          case full
          then show ?thesis using 3 s3 by (simp add: image)
        next
          case (short j)
          then show ?thesis using 3 s3 by (simp add: image take_is_prefix)
        qed
      qed
    qed
  qed
qed

section \<open>Reading a snapshot back\<close>

definition keys_valid :: "RegionStructureInfo \<Rightarrow> (u16 \<times> byte list) list \<Rightarrow> bool" where
  "keys_valid info keys \<longleftrightarrow> distinct (map fst keys) \<and>
     (\<forall>(i, k) \<in> set keys. i \<noteq> 0 \<and> regionPrivateIdPresent info i \<and> (\<exists>b \<in> set k. b \<noteq> 0))"

lemma fold_or_0: "fold (OR) (xs :: byte list) a = 0 \<longleftrightarrow> a = 0 \<and> (\<forall>b \<in> set xs. b = 0)"
  by (induction xs arbitrary: a) (auto simp: or_eq_0_iff)

lemma read_key_record:
  assumes "drop (rd_pos r) (rd_data r) = key_record (i, k) @ rest" and "length k = 16"
  shows "rd_read 18 r = (key_record (i, k), r\<lparr>rd_pos := rd_pos r + 18\<rparr>)" and "drop (rd_pos r + 18) (rd_data r) = rest"
    and "regionReadU16 (key_record (i, k)) = i" and "drop 2 (key_record (i, k)) = k" and "length (key_record (i, k)) = 18"
proof -
  have n: "length (key_record (i, k)) = 18" using assms(2) by (simp add: key_record_def)
  have "length (rd_data r) - rd_pos r = 18 + length rest" using arg_cong [OF assms(1), of length] n by simp
  then show "rd_read 18 r = (key_record (i, k), r\<lparr>rd_pos := rd_pos r + 18\<rparr>)" using assms(1) n by (simp add: rd_read_eq)
  show "drop (rd_pos r + 18) (rd_data r) = rest" using arg_cong [OF assms(1), of "drop 18"] n by (simp add: add.commute)
  show "regionReadU16 (key_record (i, k)) = i" using get_u16_put_u16_0 [of i k] by (simp add: regionReadU16_def key_record_def)
  show "drop 2 (key_record (i, k)) = k" by (simp add: key_record_def)
qed (use assms(2) in \<open>simp add: key_record_def\<close>)

lemma key_records_ok_eq:
  assumes "drop (rd_pos r) (rd_data r) = concat (map key_record keys) @ rest" and "\<forall>k \<in> set keys. length (snd k) = 16"
  shows "key_records_ok info (length keys) r seen \<longleftrightarrow> keys_valid info keys \<and> set seen \<inter> fst ` set keys = {}"
  using assms
proof (induction keys arbitrary: r seen)
  case (Cons key keys)
  obtain i k where key: "key = (i, k)" by (cases key)
  have "drop (rd_pos r) (rd_data r) = key_record (i, k) @ concat (map key_record keys) @ rest" "length k = 16"
    using Cons.prems key by auto
  note rd = read_key_record [OF this]
  show ?case
    using rd Cons.IH [of "r\<lparr>rd_pos := rd_pos r + 18\<rparr>" "seen @ [i]"] Cons.prems(2)
    by (auto simp: key region_sizes keys_valid_def fold_or_0)
qed (simp add: keys_valid_def)

text \<open>Handing a list of keys to a loader that may refuse one.\<close>

fun load_key_list :: "'c key_loader \<Rightarrow> (u16 \<times> byte list) list \<Rightarrow> 'c \<Rightarrow> bool \<times> 'c" where
  "load_key_list ld [] ctx = (True, ctx)"
| "load_key_list ld ((i, k) # keys) ctx = (case ld i k ctx of (False, ctx') \<Rightarrow> (False, ctx') | (True, ctx') \<Rightarrow> load_key_list ld keys ctx')"

lemma load_keys_eq:
  assumes "drop (rd_pos r) (rd_data r) = concat (map key_record keys) @ rest" and "\<forall>k \<in> set keys. length (snd k) = 16"
  shows "load_keys (Some ld) (length keys) r ctx = load_key_list ld keys ctx"
  using assms
proof (induction keys arbitrary: r ctx)
  case (Cons key keys)
  obtain i k where key: "key = (i, k)" by (cases key)
  have "drop (rd_pos r) (rd_data r) = key_record (i, k) @ concat (map key_record keys) @ rest" "length k = 16"
    using Cons.prems key by auto
  note rd = read_key_record [OF this]
  show ?case
    using rd Cons.IH [of "r\<lparr>rd_pos := rd_pos r + 18\<rparr>"] Cons.prems(2) by (simp add: key region_sizes split: prod.splits bool.splits)
qed simp

lemma extract_loop_eq: "n \<le> length d \<Longrightarrow> n \<le> rm \<Longrightarrow> extract_loop d n rm acc = (True, acc @ take n d)"
proof (induction d n rm acc rule: extract_loop.induct)
  case (1 d n rm acc)
  show ?case
  proof (cases "n = 0")
    case True
    then show ?thesis by (simp add: extract_loop.simps)
  next
    case False
    define k where "k = (if n < 128 then n else 128)"
    have k: "0 < k" "k \<le> n" using False by (auto simp: k_def)
    have "extract_loop d n rm acc = extract_loop (drop k d) (n - k) (rm - k) (acc @ take k d)"
      using False k 1(2,3) by (subst extract_loop.simps) (simp add: k_def [symmetric] min_absorb1 min_absorb2)
    also have "\<dots> = (True, (acc @ take k d) @ take (n - k) (drop k d))"
      using 1(1) [OF False k_def refl refl] 1(2,3) k by (simp add: min_absorb1 min_absorb2)
    finally show ?thesis using k take_add [of k "n - k" d] by simp
  qed
qed

lemma snapshot_parts:
  "take 10 (region_file raw keys) = transactional_header (length raw) (int (length keys))"
  "take (length raw) (drop 10 (region_file raw keys)) = raw"
  "drop (10 + length raw) (region_file raw keys) =
     concat (map key_record keys) @ put_u32 (regionCrcUpdate 0xFFFFFFFF (region_body raw keys) XOR 0xFFFFFFFF)"
  by (simp_all add: region_file_def region_body_def)

lemma snapshot_crc:
  "keys_sized keys \<Longrightarrow> rd_data r = region_file raw keys \<Longrightarrow> stored_crc_matches (length (region_file raw keys) - 4) r"
proof -
  assume sz: "keys_sized keys" and r: "rd_data r = region_file raw keys"
  have n: "length (region_file raw keys) - 4 = length (region_body raw keys)" by (simp add: region_file_def)
  have "get_u32 (region_body raw keys @ put_u32 w @ []) (length (region_body raw keys)) = w" for w by (rule get_u32_put_u32)
  then show ?thesis unfolding n by (subst stored_crc_matches_eq) (simp_all add: r, simp_all add: region_file_def)
qed

lemma snapshot_valid_iff:
  assumes sz: "keys_sized keys" and raw: "length raw \<le> 5258"
  shows "validateTransactionalRegionFile (region_file raw keys) \<longleftrightarrow>
    (\<exists>info. validateRegionStructure (rd_open raw) 0 (length raw) False = Some info \<and> keys_valid info keys)"
proof (cases "length raw < 10")
  case True
  then have "validateRegionStructure r off (length raw) b = None" for r off b by (simp add: validateRegionStructure_def region_sizes)
  then show ?thesis using True sz raw length_region_file [OF sz, of raw] snapshot_header_fields [OF snapshot_parts(1), of raw keys]
    by (auto simp: validateTransactionalRegionFile_def rd_open_def rd_seek_def rd_read_eq region_sizes rd_size_def keys_sized_def Let_def
        split: if_splits)
next
  case False
  let ?d = "region_file raw keys"
  have k16: "length keys \<le> 16" "\<forall>k \<in> set keys. length (snd k) = 16" using sz by (auto simp: keys_sized_def)
  note len = length_region_file [OF sz, of raw]
  note h = snapshot_header_fields [OF snapshot_parts(1) _ k16(1), of raw]
  have st: "validateRegionStructure (rd_open ?d\<lparr>rd_pos := 10\<rparr>) 10 (length raw) False = validateRegionStructure (rd_open raw) 0 (length raw) False"
    by (rule structure_window) (simp_all add: rd_open_def snapshot_parts(2) len)
  have keys: "key_records_ok info (length keys) (rd_open ?d\<lparr>rd_pos := 10 + length raw\<rparr>) [] \<longleftrightarrow> keys_valid info keys" for info
    using key_records_ok_eq [of "rd_open ?d\<lparr>rd_pos := 10 + length raw\<rparr>" keys _ info "[]"] snapshot_parts(3) [of raw keys] k16
    by (simp add: rd_open_def)
  have crc: "stored_crc_matches (length ?d - 4) (rd_open ?d\<lparr>rd_pos := n\<rparr>)" for n
    by (rule snapshot_crc [OF sz]) (simp add: rd_open_def)
  have h': "take 3 (take 10 ?d) = [83, 82, 2]" "unat (regionReadU32 (drop 3 (take 10 ?d))) = length raw" "unat (take 10 ?d ! 7) = length keys"
      "take 10 ?d ! 8 = 0" "take 10 ?d ! 9 = 0" using h raw by simp_all
  have r1: "rd_seek 0 (rd_open ?d) = (True, rd_open ?d)" "rd_read 10 (rd_open ?d) = (take 10 ?d, rd_open ?d\<lparr>rd_pos := 10\<rparr>)"
    "rd_seek (10 + length raw) (rd_open ?d\<lparr>rd_pos := 10\<rparr>) = (True, rd_open ?d\<lparr>rd_pos := 10 + length raw\<rparr>)" "rd_size (rd_open ?d) = length ?d"
    using len False by (simp_all add: rd_seek_def rd_read_eq rd_open_def rd_size_def)
  have sum: "length ?d = (10 + length raw + length keys * 18 + 4) mod 2 ^ 32" "length (take 10 ?d) = 10" "\<not> length ?d < 24" "\<not> length keys > 16"
    using len raw k16(1) False by auto
  show ?thesis
    unfolding validateTransactionalRegionFile_def Let_def region_sizes r1 prod.case h' REGION_TRANSACTIONAL_MAGIC_def
    using sum crc st keys h' by (auto split: option.splits)
qed

section \<open>Parents\<close>

text \<open>An identifier from which the parents lead to the root.\<close>

inductive to_root :: "u16 list \<Rightarrow> u16 list \<Rightarrow> u16 \<Rightarrow> bool" for ids parents where
  root: "to_root ids parents 0"
| parent: "k < length ids \<Longrightarrow> ids ! k = c \<Longrightarrow> to_root ids parents (parents ! k) \<Longrightarrow> to_root ids parents c"

lemma parent_walk_sound: "parent_walk ids parents depth c \<Longrightarrow> to_root ids parents c"
proof (induction ids parents depth c rule: parent_walk.induct)
  case (1 ids parents depth c)
  show ?case
  proof (cases "c = 0")
    case False
    then obtain k where k: "first_index ((=) c) ids = Some k" "\<not> length ids \<le> depth" "parent_walk ids parents (depth + 1) (parents ! k)"
      using 1(2) by (subst (asm) parent_walk.simps) (auto split: if_splits option.splits)
    then show ?thesis using 1(1) [OF False k(2,1,3)] first_index_Some [OF k(1)] by (auto intro: to_root.parent)
  qed (simp add: to_root.root)
qed

text \<open>The step of the walk as a function; with distinct identifiers it is the step of \<open>to_root\<close>.\<close>

definition parent_of :: "u16 list \<Rightarrow> u16 list \<Rightarrow> u16 \<Rightarrow> u16" where
  "parent_of ids parents c = (case first_index ((=) c) ids of None \<Rightarrow> 0 | Some k \<Rightarrow> parents ! k)"

lemma first_index_distinct: "distinct ids \<Longrightarrow> k < length ids \<Longrightarrow> first_index ((=) (ids ! k)) ids = Some k"
  using first_index_Some [of "(=) (ids ! k)" ids] nth_mem [of k ids] nth_eq_iff_index_eq [of ids k]
  by (cases "first_index ((=) (ids ! k)) ids") (auto simp: first_index_eq)

lemma to_root_path:
  assumes "to_root ids parents c" and "distinct ids"
  shows "\<exists>n. (parent_of ids parents ^^ n) c = 0 \<and> (\<forall>j < n. (parent_of ids parents ^^ j) c \<in> set ids)"
  using assms
proof induction
  case root
  then show ?case by (intro exI [of _ 0]) simp
next
  case (parent k c)
  then obtain n where n: "(parent_of ids parents ^^ n) (parents ! k) = 0" "\<forall>j < n. (parent_of ids parents ^^ j) (parents ! k) \<in> set ids" by blast
  have step: "parent_of ids parents c = parents ! k" using first_index_distinct [OF parent.prems, of k] parent.hyps(1,2) by (simp add: parent_of_def)
  have "(parent_of ids parents ^^ j) c \<in> set ids" if "j < Suc n" for j
    using that n(2) step parent.hyps(1,2) by (cases j) (auto simp: funpow_swap1)
  then show ?case using n(1) step by (intro exI [of _ "Suc n"]) (simp add: funpow_swap1)
qed

lemma path_length:
  fixes f :: "'a \<Rightarrow> 'a"
  assumes n: "(f ^^ n) c = z" and least: "\<forall>j < n. (f ^^ j) c \<noteq> z" and "\<forall>j < n. (f ^^ j) c \<in> set xs"
  shows "n \<le> length xs"
proof -
  have inj: "inj_on (\<lambda>j. (f ^^ j) c) {..< n}"
  proof (rule linorder_inj_onI)
    fix i j assume "i < j" "i \<in> {..< n}" "j \<in> {..< n}"
    show "(f ^^ i) c \<noteq> (f ^^ j) c"
    proof
      assume "(f ^^ i) c = (f ^^ j) c"
      then have "(f ^^ (n - j)) ((f ^^ i) c) = (f ^^ (n - j)) ((f ^^ j) c)" by simp
      then have "(f ^^ (n - j + i)) c = (f ^^ (n - j + j)) c" by (simp only: funpow_add comp_def)
      then show False using n least \<open>i < j\<close> \<open>j \<in> {..< n}\<close> by auto
    qed
  qed auto
  have "card ((\<lambda>j. (f ^^ j) c) ` {..< n}) \<le> card (set xs)" using assms(3) by (intro card_mono) auto
  then show ?thesis using card_image [OF inj] card_length [of xs] by simp
qed

lemma parent_walk_steps:
  assumes "(parent_of ids parents ^^ n) c = 0" and "\<forall>j < n. (parent_of ids parents ^^ j) c \<in> set ids" and "depth + n \<le> length ids"
  shows "parent_walk ids parents depth c"
  using assms
proof (induction n arbitrary: c depth)
  case 0
  then show ?case by (simp add: parent_walk.simps)
next
  case (Suc n)
  have "c \<in> set ids" using Suc.prems(2) [rule_format, of 0] by simp
  then obtain k where k: "first_index ((=) c) ids = Some k" using first_index_eq [of c ids] by (cases "first_index ((=) c) ids") auto
  then have p: "parent_of ids parents c = parents ! k" by (simp add: parent_of_def)
  have "parent_walk ids parents (depth + 1) (parents ! k)"
    using Suc.prems Suc.prems(2) [rule_format, of "Suc j" for j] p by (intro Suc.IH) (auto simp: funpow_swap1)
  then show ?case using k Suc.prems(3) by (subst parent_walk.simps) auto
qed

text \<open>The bound on the depth never rejects a tree.\<close>

lemma parent_walk_iff: "distinct ids \<Longrightarrow> parent_walk ids parents 0 c \<longleftrightarrow> to_root ids parents c"
proof
  assume d: "distinct ids" and "to_root ids parents c"
  then obtain m where m: "(parent_of ids parents ^^ m) c = 0" "\<forall>j < m. (parent_of ids parents ^^ j) c \<in> set ids" using to_root_path by blast
  define n where "n = (LEAST n. (parent_of ids parents ^^ n) c = 0)"
  have n: "(parent_of ids parents ^^ n) c = 0" "n \<le> m" "\<forall>j < n. (parent_of ids parents ^^ j) c \<noteq> 0"
    using LeastI [of "\<lambda>n. (parent_of ids parents ^^ n) c = 0", OF m(1)] Least_le [of "\<lambda>n. (parent_of ids parents ^^ n) c = 0", OF m(1)]
      not_less_Least by (auto simp: n_def)
  then have "n \<le> length ids" using path_length [OF n(1,3), of ids] m(2) by auto
  then show "parent_walk ids parents 0 c" using n m(2) by (intro parent_walk_steps [of n]) auto
qed (rule parent_walk_sound)

lemma parents_ok_iff: "parents_ok ids parents ps \<longleftrightarrow> (\<forall>(i, p) \<in> set ps. p \<noteq> i \<and> regionIdPresent p ids \<and> parent_walk ids parents 0 p)"
  by (induction ps) (auto split: if_splits)

lemma region_records_ids:
  assumes "region_records n r ids parents priv m = Some (ids', parents', priv', m')"
    and "distinct ids" "0 \<notin> set ids" "length parents = length ids" "length priv = length ids"
  shows "distinct ids' \<and> 0 \<notin> set ids' \<and> length parents' = length ids' \<and> length priv' = length ids' \<and> length ids' = length ids + n"
  using assms
proof (induction n arbitrary: r ids parents priv m)
  case (Suc n)
  let ?rec = "take 164 (drop (rd_pos r) (rd_data r))"
  from Suc.prems(1) obtain r' where "region_records n r' (ids @ [regionReadU16 ?rec]) (parents @ [regionReadU16 (drop 2 ?rec)])
      (priv @ [drop 4 ?rec ! 0 = 0x24]) (if regionReadU16 ?rec > m then regionReadU16 ?rec else m) = Some (ids', parents', priv', m')"
    and "regionReadU16 ?rec \<noteq> 0" "regionReadU16 ?rec \<notin> set ids"
    by (auto simp: rd_read_eq region_sizes Let_def split: if_splits)
  from Suc.IH [OF this(1)] this(2,3) Suc.prems show ?case by auto
qed simp

lemma to_root_present: "to_root ids parents c \<Longrightarrow> regionIdPresent c ids"
  by (induction rule: to_root.induct) (auto simp: regionIdPresent_def)

lemma self_parent_no_root:
  assumes "distinct ids" and "k < length ids" and "ids ! k \<noteq> 0" and "parents ! k = ids ! k"
  shows "\<not> to_root ids parents (ids ! k)"
proof
  assume "to_root ids parents (ids ! k)"
  then obtain n where n: "(parent_of ids parents ^^ n) (ids ! k) = 0" using to_root_path [OF _ assms(1)] by blast
  have "parent_of ids parents (ids ! k) = ids ! k" using first_index_distinct [OF assms(1,2)] assms(4) by (simp add: parent_of_def)
  then have "(parent_of ids parents ^^ j) (ids ! k) = ids ! k" for j by (induction j) simp_all
  then show False using n assms(3) by simp
qed

lemma to_root_parent:
  assumes "distinct ids" and "k < length ids" and "ids ! k \<noteq> 0"
  shows "to_root ids parents (ids ! k) \<longleftrightarrow> to_root ids parents (parents ! k)"
proof
  assume "to_root ids parents (ids ! k)"
  then show "to_root ids parents (parents ! k)"
  proof cases
    case (parent j)
    then show ?thesis using assms nth_eq_iff_index_eq [of ids j k] by auto
  qed (use assms in simp)
qed (use assms in \<open>auto intro: to_root.parent\<close>)

lemma parents_ok_forest:
  assumes "distinct ids" and "0 \<notin> set ids" and "length parents = length ids"
  shows "parents_ok ids parents (zip ids parents) \<longleftrightarrow> (\<forall>i \<in> set ids. to_root ids parents i)"
proof -
  have "parents_ok ids parents (zip ids parents) \<longleftrightarrow>
      (\<forall>k < length ids. parents ! k \<noteq> ids ! k \<and> regionIdPresent (parents ! k) ids \<and> to_root ids parents (parents ! k))"
    using assms by (auto simp: parents_ok_iff parent_walk_iff set_zip)
  also have "\<dots> \<longleftrightarrow> (\<forall>k < length ids. to_root ids parents (ids ! k))"
    using assms to_root_parent self_parent_no_root to_root_present by (metis nth_mem)
  finally show ?thesis by (metis in_set_conv_nth)
qed

section \<open>Saving\<close>

definition region_clean :: "nat \<Rightarrow> region_faults" where
  "region_clean n = \<lparr>rf_opens = \<lambda>_. True, rf_recover = no_faults n, rf_replace = no_faults n\<rparr>"

text \<open>Without a valid temp file, recovery at most removes the temp file.\<close>

lemma recover_quiet:
  assumes t: "atomicFileTempPath (Some p) 192 = Some t" and "fs t = None \<or> (\<exists>d. fs t = Some d \<and> \<not> valid d)"
    and r: "atomicFileRecover env (Some p) (Some valid) fs = (ok, tr)" and "\<sigma> \<in> set tr \<or> \<sigma> = last tr"
  shows "\<sigma> = fs \<or> \<sigma> = fs(t := None)"
proof -
  have "\<not> validatePath c t valid fs" for c using assms(2) by (auto simp: validatePath_def split: option.splits)
  then have "tr = [fs] \<or> tr = [fs, snd (removeFile (can_remove_temp env) t fs)]"
    using r by (auto simp: atomicFileRecover_def t Let_def split: if_splits)
  moreover have "snd (removeFile (can_remove_temp env) t fs) = fs \<or> snd (removeFile (can_remove_temp env) t fs) = fs(t := None)"
    by (auto simp: removeFile_def)
  ultimately show ?thesis using assms(4) by auto
qed

lemma save_transactional_cases:
  assumes "regionStoreSaveTransactionalFile env (Some p) (Some l) kc (Some rk) fs = (ok, tr)"
  obtains (refused) "\<not> ok" "tr = [fs]"
    | (recovered) rok where "\<not> ok" "atomicFileRecover (rf_recover env) (Some p) (Some validateAnyCurrentRegionFile) fs = (rok, tr)"
    | (replaced) rok tr1 tr2 raw where "0 \<le> kc" "kc \<le> 16"
      "atomicFileRecover (rf_recover env) (Some p) (Some validateAnyCurrentRegionFile) fs = (rok, tr1)"
      "validateRegionPath True (Some l) (Some validateLegacyRegionFile) fs" "last tr1 l = Some raw" "tr = tr1 @ tr2"
      "atomicFileReplace (rf_replace env) (Some p)
        (Some (writeTransactionalRegionEnvelope (opened_source (rf_opens env 6) l (last tr1)) (length raw) kc (Some rk)))
        (Some validateTransactionalRegionFile) (last tr1) = (ok, tr2)"
proof (cases "kc < 0 \<or> kc > 16 \<or> \<not> validateRegionPath (rf_opens env 0) (Some l) (Some validateLegacyRegionFile) fs")
  case True
  then show thesis using assms refused by (auto simp: regionStoreSaveTransactionalFile_def region_sizes)
next
  case False
  obtain rok tr1 where rec: "atomicFileRecover (rf_recover env) (Some p) (Some validateAnyCurrentRegionFile) fs = (rok, tr1)" by force
  have v: "validateRegionPath True (Some l) (Some validateLegacyRegionFile) fs"
    using False by (auto simp: validateRegionPath_def split: option.splits if_splits)
  note run = assms [unfolded regionStoreSaveTransactionalFile_def rec prod.case option.case Let_def]
  show thesis
  proof (cases "regionPathSize (rf_opens env 5) l (last tr1)")
    case None
    then have "\<not> ok \<and> tr = tr1" using run False by (auto simp: region_sizes split: if_splits)
    then show thesis using recovered rec by blast
  next
    case (Some n)
    then obtain raw where raw: "last tr1 l = Some raw" "n = length raw" by (auto simp: regionPathSize_def split: if_splits)
    obtain ok2 tr2 where rep: "atomicFileReplace (rf_replace env) (Some p)
        (Some (writeTransactionalRegionEnvelope (opened_source (rf_opens env 6) l (last tr1)) (length raw) kc (Some rk)))
        (Some validateTransactionalRegionFile) (last tr1) = (ok2, tr2)" by force
    have "\<not> ok \<and> tr = tr1 \<or> ok = ok2 \<and> tr = tr1 @ tr2" using run False Some raw(2) rep by (auto simp: region_sizes split: if_splits)
    then show thesis using recovered rec replaced [OF _ _ rec v raw(1) _ ] rep False by auto
  qed
qed

lemma snapshot_writer:
  assumes "keys_sized keys" and "\<forall>j < length keys. rk j = Some (keys ! j)" and "\<sigma> l = Some raw" and "length raw \<le> 5258"
    and "prefix d (wr_data (snd (writeTransactionalRegionEnvelope (opened_source b l \<sigma>) (length raw) (int (length keys)) (Some rk) (wr_open rm))))"
    and "validateAnyCurrentRegionFile d"
  shows "d = region_file raw keys"
proof -
  have "opened_source b l \<sigma> = None \<or> opened_source b l \<sigma> = Some raw" using assms(3) by (simp add: opened_source_def)
  from write_snapshot [OF assms(1,2) this surjective_pairing]
  have "prefix d (region_file raw keys)" using assms(5) prefix_order.trans by blast
  then show ?thesis using no_partial_snapshot assms(1,4,6) by blast
qed

lemma snapshot_transactional: "keys_sized keys \<Longrightarrow> length raw \<le> 5258 \<Longrightarrow> validateAnyCurrentRegionFile (region_file raw keys) \<Longrightarrow>
    validateTransactionalRegionFile (region_file raw keys)"
  using valid_length [OF snapshot_parts(1)] by (simp add: keys_sized_def)

lemma prepare_transactional:
  assumes "regionStorePrepareLoad (region_clean n) (Some p) \<sigma> = (fmt, tr')" and "last tr' p = Some d" and "validateTransactionalRegionFile d"
  shows "fmt = Transactional"
  using assms by (auto simp: regionStorePrepareLoad_def region_clean_def validateRegionPath_def Let_def)

section \<open>Properties\<close>

text \<open>
  C18: a region map is accepted exactly when it describes a tree under the root. For a file of complete
  records, with identifiers that are distinct and not zero, validation succeeds if and only if
  the header is that of a map, the next identifier is larger than all in use, the default and
  home regions exist, and from every region the parents lead to the root: a cycle of any length
  is refused and no tree is, however deep.
\<close>

theorem accepted_region_map_is_a_tree:
  assumes "region_records count (rd_open d\<lparr>rd_pos := 10\<rparr>) [] [] [] 0 = Some (ids, parents, priv, max_id)"
    and "length d = 10 + 164 * count" and "count \<le> 32"
  shows "(validateLegacyRegionFile d \<longleftrightarrow> take 3 d = [0, 0, 0] \<and> max_id < get_u16 d 8 \<and>
      regionIdPresent (get_u16 d 3) ids \<and> regionIdPresent (get_u16 d 5) ids \<and> (\<forall>i \<in> set ids. to_root ids parents i)) \<and>
    distinct ids \<and> 0 \<notin> set ids \<and> length ids = count"
proof -
  note ids = region_records_ids [OF assms(1), simplified]
  have h: "take 3 d = [0, 0, 0] \<longleftrightarrow> d ! 0 = 0 \<and> d ! 1 = 0 \<and> d ! 2 = 0"
    using assms(2) by (cases d; cases "tl d"; cases "tl (tl d)") (auto simp: numeral_3_eq_3)
  show ?thesis
    using ids parents_ok_forest [of ids parents] assms
    by (auto simp: validateLegacyRegionFile_def validateRegionStructure_def h region_sizes rd_size_def rd_seek_def rd_read_eq rd_open_def
        regionReadU16_def get_u16_def min_def word_gt_0 Let_def)
qed

lemma prepare_recovers:
  "regionStorePrepareLoad (region_clean n) (Some p) \<sigma> = (fmt, tr') \<Longrightarrow>
     \<exists>ok'. atomicFileRecover (no_faults n) (Some p) (Some validateAnyCurrentRegionFile) \<sigma> = (ok', tr')"
  by (simp add: regionStorePrepareLoad_def region_clean_def Let_def) (metis surjective_pairing)

lemma start_undisturbed:
  assumes t: "atomicFileTempPath (Some p) 192 = Some t"
    and old: "fs p = Some old" "validateTransactionalRegionFile old" "fs t = None \<or> (\<exists>d. fs t = Some d \<and> \<not> validateAnyCurrentRegionFile d)"
    and "\<sigma> = fs \<or> \<sigma> = fs(t := None)" and start: "regionStorePrepareLoad (region_clean n) (Some p) \<sigma> = (fmt, tr')"
  shows "fmt = Transactional \<and> last tr' = fs(t := None)"
proof -
  obtain ok' where "atomicFileRecover (no_faults n) (Some p) (Some validateAnyCurrentRegionFile) \<sigma> = (ok', tr')"
    using prepare_recovers [OF start] by blast
  from recover_clean [OF t this] assms(5) old(3) have "last tr' = fs(t := None)" by (auto split: option.splits)
  moreover from this have "last tr' p = Some old" using old(1) tempPath_neq [OF t] by auto
  ultimately show ?thesis using prepare_transactional [OF start] old(2) by blast
qed

text \<open>
  C5: saving the regions commits the map and all private keys together or not at all. Whatever calls fail and
  wherever the power goes while a snapshot replaces a valid one, the next start finds a valid
  snapshot: the old file, or the file that holds exactly the new map and the new keys. A save
  that reports success has put the new file in place, and no file besides the snapshot and its
  temp file is touched.
\<close>

theorem regions_survive_power_loss:
  assumes t: "atomicFileTempPath (Some p) 192 = Some t" "l \<noteq> t"
    and old: "fs p = Some old" "validateTransactionalRegionFile old" "fs t = None \<or> (\<exists>d. fs t = Some d \<and> \<not> validateAnyCurrentRegionFile d)"
    and new: "fs l = Some raw" "keys_sized keys" "\<forall>j < length keys. rk j = Some (keys ! j)"
    and save: "regionStoreSaveTransactionalFile env (Some p) (Some l) (int (length keys)) (Some rk) fs = (ok, tr)" "\<sigma> \<in> set tr"
    and start: "regionStorePrepareLoad (region_clean n) (Some p) \<sigma> = (fmt, tr')"
  shows "fmt = Transactional \<and> last tr' t = None \<and> (\<forall>q. q \<noteq> p \<and> q \<noteq> t \<longrightarrow> last tr' q = fs q) \<and>
    (last tr' p = Some old \<or> last tr' p = Some (region_file raw keys) \<and> validateTransactionalRegionFile (region_file raw keys)) \<and>
    (ok \<longrightarrow> last tr p = Some (region_file raw keys))"
proof -
  have ne: "t \<noteq> p" using tempPath_neq [OF t(1)] by simp
  obtain ok' where rec: "atomicFileRecover (no_faults n) (Some p) (Some validateAnyCurrentRegionFile) \<sigma> = (ok', tr')"
    using prepare_recovers [OF start] by blast
  have any: "validateAnyCurrentRegionFile d" if "validateTransactionalRegionFile d" for d using that by (simp add: validateAnyCurrentRegionFile_def)
  note quiet = start_undisturbed [OF t(1) old _ start] and same = recover_quiet [where fs = fs and valid = validateAnyCurrentRegionFile, OF t(1) old(3)]
  from save(1) show ?thesis
  proof (cases rule: save_transactional_cases)
    case refused
    then show ?thesis using quiet save(2) ne old(1) by simp
  next
    case (recovered rok)
    then show ?thesis using quiet same [OF recovered(2)] save(2) ne old(1) by simp
  next
    case (replaced rok tr1 tr2 raw')
    have fs1: "last tr1 = fs \<or> last tr1 = fs(t := None)" using same [OF replaced(3)] by blast
    have raw: "raw' = raw" using fs1 t(2) new(1) replaced(5) by auto
    have small: "length raw \<le> 5258" using replaced(4) new(1) structure_small
      by (auto simp: validateRegionPath_def validateLegacyRegionFile_def rd_size_def rd_open_def Let_def)
    have old1: "last tr1 p = Some old" and old2: "last tr1 t = None \<or> (\<exists>d. last tr1 t = Some d \<and> \<not> validateAnyCurrentRegionFile d)"
      using fs1 old ne by auto
    note w = snapshot_writer [where \<sigma> = "last tr1" and l = l and b = "rf_opens env 6" and rm = "room (rf_replace env)",
      OF new(2,3) replaced(5) [unfolded raw] small]
    have okc: "ok \<longrightarrow> last tr p = Some (region_file raw keys)"
      using replace_states(2) [OF t(1) refl replaced(7)] w [OF prefix_order.refl] any ne raw replaced(6) by auto
    show ?thesis
    proof (cases "\<sigma> \<in> set tr2")
      case True
      have "(last tr' p = Some old \<or> validateAnyCurrentRegionFile (region_file raw keys) \<and> last tr' p = Some (region_file raw keys)) \<and>
        last tr' t = None \<and> (\<forall>q. q \<noteq> p \<and> q \<noteq> t \<longrightarrow> last tr' q = last tr1 q)"
        using crash_recover_at [OF t(1) old2 _ _ replaced(7) [unfolded raw] True rec] w any unfolding old1 by blast
      then show ?thesis using prepare_transactional [OF start] old(2) snapshot_transactional [OF new(2) small] okc fs1 by auto
    next
      case False
      then show ?thesis using quiet same [OF replaced(3)] save(2) replaced(6) ne old(1) okc by auto
    qed
  qed
qed

text \<open>
  C30: what a snapshot holds is what is loaded from it. From the file of a valid map and valid keys the extraction
  recreates the map byte for byte and changes nothing else, and the loader is given exactly the
  keys, in order; the number of keys is reported, or the refusal of the loader.
\<close>

theorem region_snapshot_round_trip:
  assumes "fs p = Some (region_file raw keys)" and "l \<noteq> p" and "keys_sized keys" and "length raw \<le> rm"
    and "validateRegionStructure (rd_open raw) 0 (length raw) False = Some info" and "keys_valid info keys"
  shows "regionStoreExtractTransactionalMap (\<lambda>_. True) rm can_remove (Some p) (Some l) fs = (True, fs(l := Some raw)) \<and>
    regionStoreLoadTransactionalKeys (\<lambda>_. True) (Some p) (Some ld) fs ctx =
      (case load_key_list ld keys ctx of (ok, ctx') \<Rightarrow> (if ok then int (length keys) else - 1, ctx'))"
proof -
  let ?d = "region_file raw keys"
  have small: "length raw \<le> 5258" using structure_small [of "rd_open raw" 0 "length raw" False] assms(5) by simp
  have valid: "validateTransactionalRegionFile ?d" using snapshot_valid_iff [OF assms(3) small] assms(5,6) by blast
  have legacy: "validateLegacyRegionFile raw" using assms(5) by (simp add: validateLegacyRegionFile_def rd_size_def rd_open_def)
  have k16: "length keys \<le> 16" "\<forall>k \<in> set keys. length (snd k) = 16" using assms(3) by (auto simp: keys_sized_def)
  note len = length_region_file [OF assms(3), of raw]
  have h: "unat (regionReadU32 (drop 3 (take 10 ?d))) = length raw" "unat (take 10 ?d ! 7) = length keys"
    using snapshot_header_fields [OF snapshot_parts(1) _ k16(1), of raw] small by simp_all
  have "extract_loop (drop 10 ?d) (length raw) rm [] = (True, raw)"
    using extract_loop_eq [of "length raw" "drop 10 ?d" rm "[]"] len assms(4) snapshot_parts(2) [of raw keys] by simp
  then have "regionStoreExtractTransactionalMap (\<lambda>_. True) rm can_remove (Some p) (Some l) fs = (True, fs(l := Some raw))"
    using assms(1,2) valid legacy h(1) len
    by (simp add: regionStoreExtractTransactionalMap_def copyTransactionalRegionMap_def validateRegionPath_def opened_source_def region_sizes)
  moreover have "load_keys (Some ld) (length keys) (rd_open ?d\<lparr>rd_pos := 10 + length raw\<rparr>) ctx = load_key_list ld keys ctx"
    by (rule load_keys_eq [OF _ k16(2)]) (simp add: rd_open_def snapshot_parts(3))
  then have "regionStoreLoadTransactionalKeys (\<lambda>_. True) (Some p) (Some ld) fs ctx =
      (case load_key_list ld keys ctx of (ok, ctx') \<Rightarrow> (if ok then int (length keys) else - 1, ctx'))"
    using assms(1) valid h len
    by (simp add: regionStoreLoadTransactionalKeys_def validateRegionPath_def opened_source_def region_sizes rd_seek_def rd_read_eq
        rd_open_def Let_def split: prod.splits)
  ultimately show ?thesis by blast
qed

text \<open>A map with one private region, \<open>$a\<close>, and its key.\<close>

definition sample_map :: "byte list" where
  "sample_map = [0, 0, 0, 0, 0, 0, 0, 0, 2, 0] @ [1, 0, 0, 0, 0x24, 0x61] @ replicate 158 0"

definition sample_keys :: "(u16 \<times> byte list) list" where
  "sample_keys = [(1, replicate 16 7)]"

lemma sample_structure: "validateRegionStructure (rd_open sample_map) 0 174 False = Some \<lparr>rs_ids = [1], rs_private = [True]\<rparr>"
  by code_simp

lemma sample_records: "region_records 1 (rd_open sample_map\<lparr>rd_pos := 10\<rparr>) [] [] [] 0 = Some ([1], [0], [True], 1)"
  by code_simp

lemma sample_valid: "keys_sized sample_keys" "keys_sized []" "length sample_map = 174"
    "keys_valid \<lparr>rs_ids = [1], rs_private = [True]\<rparr> sample_keys" "keys_valid \<lparr>rs_ids = [1], rs_private = [True]\<rparr> []"
  by (simp_all add: keys_sized_def sample_keys_def sample_map_def keys_valid_def regionPrivateIdPresent_def)

theorem accepted_region_map_is_a_tree_witness:
  "validateLegacyRegionFile sample_map \<and> to_root [1] [0] 1"
proof -
  have "to_root [1] [0] 1" by (rule to_root.parent [of 0]) (simp_all add: to_root.root)
  moreover have "take 3 sample_map = [0, 0, 0]" "(1 :: u16) < get_u16 sample_map 8" "get_u16 sample_map 3 = 0" "get_u16 sample_map 5 = 0"
    by (simp_all add: sample_map_def get_u16_def)
  ultimately show ?thesis
    using accepted_region_map_is_a_tree [OF sample_records] sample_valid(3) by (simp add: regionIdPresent_def)
qed

lemma recover_trace: "atomicFileRecover env p v fs = (ok, tr) \<Longrightarrow> tr \<noteq> []"
  by (auto simp: atomicFileRecover_def Let_def split: option.splits if_splits prod.splits bool.splits)

lemma save_trace: "regionStoreSaveTransactionalFile env (Some p) (Some l) kc (Some rk) fs = (ok, tr) \<Longrightarrow> tr \<noteq> []"
  by (erule save_transactional_cases) (auto dest: recover_trace)

text \<open>The key of the region is added and the final rename fails.\<close>

theorem regions_survive_power_loss_witness:
  "let p = [1]; l = [2]; old = region_file sample_map [];
       fs = (\<lambda>_. None)(p := Some old, l := Some sample_map);
       env = (region_clean 1000)\<lparr>rf_replace := (no_faults 1000)\<lparr>can_rename := False\<rparr>\<rparr>;
       tr = snd (regionStoreSaveTransactionalFile env (Some p) (Some l) (int (length sample_keys)) (Some (\<lambda>_. Some (hd sample_keys))) fs);
       (fmt, tr') = regionStorePrepareLoad (region_clean 1000) (Some p) (last tr)
   in fmt = Transactional \<and> last tr' l = Some sample_map \<and>
      (last tr' p = Some old \<or> last tr' p = Some (region_file sample_map sample_keys))"
proof -
  let ?fs = "(\<lambda>_. None)([1] := Some (region_file sample_map []), [2] := Some sample_map) :: flash"
    and ?env = "(region_clean 1000)\<lparr>rf_replace := (no_faults 1000)\<lparr>can_rename := False\<rparr>\<rparr>" and ?rk = "\<lambda>_. Some (hd sample_keys)"
  have t: "atomicFileTempPath (Some [1]) 192 = Some ([1] @ TMP_SUFFIX)" by (simp add: atomicFileTempPath_def TMP_SUFFIX_def)
  have old: "validateTransactionalRegionFile (region_file sample_map [])"
    using snapshot_valid_iff [OF sample_valid(2), of sample_map] sample_structure sample_valid by auto
  obtain ok tr where save: "regionStoreSaveTransactionalFile ?env (Some [1]) (Some [2]) (int (length sample_keys)) (Some ?rk) ?fs = (ok, tr)"
    by force
  obtain fmt tr' where start: "regionStorePrepareLoad (region_clean 1000) (Some [1]) (last tr) = (fmt, tr')" by force
  have "fmt = Transactional \<and> last tr' ([1] @ TMP_SUFFIX) = None \<and> (\<forall>q. q \<noteq> [1] \<and> q \<noteq> [1] @ TMP_SUFFIX \<longrightarrow> last tr' q = ?fs q) \<and>
    (last tr' [1] = Some (region_file sample_map []) \<or>
      last tr' [1] = Some (region_file sample_map sample_keys) \<and> validateTransactionalRegionFile (region_file sample_map sample_keys)) \<and>
    (ok \<longrightarrow> last tr [1] = Some (region_file sample_map sample_keys))"
    by (rule regions_survive_power_loss [OF t _ _ old _ _ sample_valid(1) _ save last_in_set [OF save_trace [OF save]] start])
       (simp_all add: TMP_SUFFIX_def sample_keys_def)
  then show ?thesis using start by (auto simp: save TMP_SUFFIX_def Let_def)
qed

theorem region_snapshot_round_trip_witness:
  "let fs = (\<lambda>_. None)([1] := Some (region_file sample_map sample_keys)) :: flash
   in regionStoreExtractTransactionalMap (\<lambda>_. True) 1000 True (Some [1]) (Some [2]) fs = (True, fs([2] := Some sample_map)) \<and>
      regionStoreLoadTransactionalKeys (\<lambda>_. True) (Some [1]) (Some (\<lambda>i k ctx. (True, ctx @ [(i, k)]))) fs [] = (1, sample_keys)"
  using region_snapshot_round_trip [of "(\<lambda>_. None)([1] := Some (region_file sample_map sample_keys))" "[1]" sample_map sample_keys "[2]" 1000
      "\<lparr>rs_ids = [1], rs_private = [True]\<rparr>" True "\<lambda>i k ctx. (True, ctx @ [(i, k)])" "[]"] sample_structure sample_valid
  by (simp add: Let_def) (simp add: sample_keys_def)

end
