(* ===== verification/IdentityStore.thy ===== *)
theory IdentityStore
  imports RegionStoreProps
begin

text \<open>
  Persistence of the node's identity (\<open>mesh/persistence_store.cpp\<close>, the identity part): a payload
  of at most 128 bytes in an envelope with its length and checksum, written by atomic
  replacement; the loader also reads files of older firmware, which are the payload alone.
\<close>

section \<open>The envelope\<close>

definition IDENTITY_PATH :: cstring where "IDENTITY_PATH = bytes_of ''/mesh_id''"
definition IDENTITY_MAGIC :: "byte list" where "IDENTITY_MAGIC = [0x53, 0x47, 0x49, 0xB1]"
definition IDENTITY_VERSION :: byte where "IDENTITY_VERSION = 1"
definition IDENTITY_HEADER_SIZE :: nat where "IDENTITY_HEADER_SIZE = 4 + 1 + 2 + 4"
definition IDENTITY_MAX_PAYLOAD :: nat where "IDENTITY_MAX_PAYLOAD = 128"

lemmas identity_sizes = IDENTITY_HEADER_SIZE_def IDENTITY_MAX_PAYLOAD_def IDENTITY_MAGIC_def IDENTITY_VERSION_def

definition crc32Update :: "u32 \<Rightarrow> byte list \<Rightarrow> u32" where
  "crc32Update crc data = foldl (\<lambda>c b. (crc_bit ^^ 8) (c XOR ucast b)) crc data"

definition payloadCrc :: "byte list \<Rightarrow> u32" where
  "payloadCrc data = crc32Update 0xFFFFFFFF data XOR 0xFFFFFFFF"

definition encodeIdentityHeader :: "nat \<Rightarrow> u32 \<Rightarrow> byte list" where
  "encodeIdentityHeader len crc = IDENTITY_MAGIC @ [IDENTITY_VERSION] @ put_u16 (word_of_nat len) @ put_u32 crc"

definition decodeIdentityHeader :: "byte list \<Rightarrow> (nat \<times> u32) option" where
  "decodeIdentityHeader header =
     (if take 4 header \<noteq> IDENTITY_MAGIC \<or> header ! 4 \<noteq> IDENTITY_VERSION then None
      else let len = unat (get_u16 header 5); crc = get_u32 header 7
           in if len > 0 \<and> len \<le> IDENTITY_MAX_PAYLOAD then Some (len, crc) else None)"

definition writeIdentity :: "byte list \<Rightarrow> AtomicFileWriter \<Rightarrow> bool \<times> AtomicFileWriter" where
  "writeIdentity data w =
     (if length data = 0 \<or> length data > IDENTITY_MAX_PAYLOAD then (False, w)
      else let (n, w1) = wr_write (encodeIdentityHeader (length data) (payloadCrc data)) w
           in if n \<noteq> IDENTITY_HEADER_SIZE then (False, w1)
              else let (m, w2) = wr_write data w1 in (m = length data, w2))"

definition validateIdentity :: "byte list \<Rightarrow> bool" where
  "validateIdentity d =
     (let reader = rd_open d
      in if rd_size reader < IDENTITY_HEADER_SIZE then False
         else let (sought, r0) = rd_seek 0 reader; (header, r1) = rd_read IDENTITY_HEADER_SIZE r0
              in if \<not> sought \<or> length header \<noteq> IDENTITY_HEADER_SIZE then False
                 else case decodeIdentityHeader header of
                        None \<Rightarrow> False
                      | Some (len, expected) \<Rightarrow>
                          if rd_size r1 \<noteq> IDENTITY_HEADER_SIZE + len then False
                          else case crc_chunks 32 len r1 0xFFFFFFFF of
                                 None \<Rightarrow> False
                               | Some (crc, _) \<Rightarrow> crc XOR 0xFFFFFFFF = expected)"

section \<open>Operations\<close>

definition removeIdentityFile :: "bool \<Rightarrow> cstring \<Rightarrow> flash \<Rightarrow> bool \<times> flash" where
  "removeIdentityFile ok path fs = (if \<not> fileExists path fs then (True, fs) else if ok then (True, fs(path := None)) else (False, fs))"

definition identityStoreSave :: "spiffs_faults \<Rightarrow> byte list option \<Rightarrow> flash \<Rightarrow> bool \<times> flash list" where
  "identityStoreSave env data fs =
     (case data of None \<Rightarrow> (False, [fs])
      | Some d \<Rightarrow>
          if length d = 0 \<or> length d > IDENTITY_MAX_PAYLOAD then (False, [fs])
          else atomicFileReplace env (Some IDENTITY_PATH) (Some (writeIdentity d)) (Some validateIdentity) fs)"

text \<open>
  Loading into a buffer of \<open>buf_len\<close> bytes: whether it succeeded, the bytes read, and the states
  of the flash. \<open>opened\<close>: whether the file could be opened.
\<close>

definition identityStoreLoad :: "spiffs_faults \<Rightarrow> bool \<Rightarrow> nat option \<Rightarrow> flash \<Rightarrow> (bool \<times> byte list) \<times> flash list" where
  "identityStoreLoad env opened buf fs =
     (case buf of None \<Rightarrow> ((False, []), [fs])
      | Some buf_len \<Rightarrow>
          if buf_len = 0 then ((False, []), [fs])
          else let tr = snd (atomicFileRecover env (Some IDENTITY_PATH) (Some validateIdentity) fs)
               in (case if opened then last tr IDENTITY_PATH else None of
                     None \<Rightarrow> (False, [])
                   | Some d \<Rightarrow>
                       let sz = length d; header = take IDENTITY_HEADER_SIZE d;
                           has_header = (sz \<ge> IDENTITY_HEADER_SIZE \<and> length header = IDENTITY_HEADER_SIZE \<and> take 4 header = IDENTITY_MAGIC);
                           decoded = (if has_header then decodeIdentityHeader header else Some (sz, 0))
                       in case decoded of
                            None \<Rightarrow> (False, [])
                          | Some (payload_len, expected) \<Rightarrow>
                              if has_header \<and> sz \<noteq> IDENTITY_HEADER_SIZE + payload_len then (False, [])
                              else if payload_len = 0 \<or> payload_len > buf_len then (False, [])
                              else let got = take payload_len (if has_header then drop IDENTITY_HEADER_SIZE d else d)
                                   in (length got = payload_len \<and> (\<not> has_header \<or> payloadCrc got = expected), got),
                   tr))"

definition identityStoreClear :: "bool \<Rightarrow> bool \<Rightarrow> flash \<Rightarrow> bool \<times> flash" where
  "identityStoreClear temp_removed live_removed fs =
     (case atomicFileTempPath (Some IDENTITY_PATH) 192 of
        None \<Rightarrow> (False, fs)
      | Some t \<Rightarrow>
          (case removeIdentityFile temp_removed t fs of
             (temp_ok, fs1) \<Rightarrow>
               (case removeIdentityFile live_removed IDENTITY_PATH fs1 of (live_ok, fs2) \<Rightarrow> (live_ok \<and> temp_ok, fs2))))"

section \<open>The image of an identity\<close>

definition identity_file :: "byte list \<Rightarrow> byte list" where
  "identity_file data = encodeIdentityHeader (length data) (payloadCrc data) @ data"

lemma length_identity_header [simp]: "length (encodeIdentityHeader n c) = 11"
  by (simp add: encodeIdentityHeader_def identity_sizes)

lemma crc32Update_eq: "crc32Update = regionCrcUpdate"
  by (simp add: crc32Update_def regionCrcUpdate_def fun_eq_iff)

lemma decode_encode:
  assumes "0 < n" and "n \<le> 128"
  shows "decodeIdentityHeader (encodeIdentityHeader n c) = Some (n, c)"
proof -
  have "get_u16 ([0x53, 0x47, 0x49, 0xB1, 1] @ put_u16 (word_of_nat n) @ put_u32 c) 5 = word_of_nat n"
    using get_u16_put_u16 [of "[0x53, 0x47, 0x49, 0xB1, 1]" "word_of_nat n" "put_u32 c"] by (simp add: eval_nat_numeral)
  moreover have "get_u32 ([0x53, 0x47, 0x49, 0xB1, 1] @ put_u16 (word_of_nat n) @ put_u32 c) 7 = c"
    using get_u32_put_u32 [of "[0x53, 0x47, 0x49, 0xB1, 1] @ put_u16 (word_of_nat n)" c "[]"] by (simp add: eval_nat_numeral)
  moreover have "unat (word_of_nat n :: u16) = n" using assms by (simp add: unsigned_of_nat take_bit_nat_eq_self)
  ultimately show ?thesis using assms by (simp add: decodeIdentityHeader_def encodeIdentityHeader_def identity_sizes Let_def)
qed

lemma validate_identity_eq:
  "validateIdentity d \<longleftrightarrow> 11 \<le> length d \<and>
     (case decodeIdentityHeader (take 11 d) of None \<Rightarrow> False
      | Some (len, expected) \<Rightarrow> length d = 11 + len \<and> payloadCrc (drop 11 d) = expected)"
proof (cases "11 \<le> length d")
  case True
  have "crc_chunks 32 len \<lparr>rd_data = d, rd_pos = 11\<rparr> 0xFFFFFFFF = Some (regionCrcUpdate 0xFFFFFFFF (drop 11 d), \<lparr>rd_data = d, rd_pos = 11 + len\<rparr>)"
    if "length d = 11 + len" for len
    using crc_chunks_eq [of 32 "\<lparr>rd_data = d, rd_pos = 11\<rparr>" len] that by simp
  then show ?thesis using True
    by (auto simp: validateIdentity_def rd_open_def rd_size_def rd_seek_def rd_read_eq identity_sizes payloadCrc_def crc32Update_eq Let_def
        split: option.splits)
qed (simp add: validateIdentity_def rd_open_def rd_size_def identity_sizes)

lemma no_partial_identity:
  assumes "prefix d (identity_file data)" and "0 < length data" "length data \<le> 128" and "validateIdentity d"
  shows "d = identity_file data"
proof -
  have "11 \<le> length d" using assms(4) by (simp add: validate_identity_eq)
  then have "take 11 d = take 11 (identity_file data)" using assms(1) by (auto simp: prefix_def)
  also have "\<dots> = encodeIdentityHeader (length data) (payloadCrc data)" by (simp add: identity_file_def)
  finally have "length d = 11 + length data" using assms decode_encode by (simp add: validate_identity_eq)
  moreover have "length (identity_file data) = 11 + length data" by (simp add: identity_file_def)
  ultimately show ?thesis using assms(1) by (auto simp: prefix_def)
qed

lemma identity_file_valid: "0 < length data \<Longrightarrow> length data \<le> 128 \<Longrightarrow> validateIdentity (identity_file data)"
  by (simp add: validate_identity_eq identity_file_def decode_encode)

lemma writeIdentity_chunks:
  "0 < length data \<Longrightarrow> length data \<le> 128 \<Longrightarrow>
     writeIdentity data w = write_chunks [encodeIdentityHeader (length data) (payloadCrc data), data] w"
  by (simp add: writeIdentity_def identity_sizes split: prod.splits)

lemma writeIdentity_prefix:
  assumes "0 < length data" "length data \<le> 128"
  shows "prefix (wr_data (snd (writeIdentity data (wr_open rm)))) (identity_file data)"
proof -
  have "encodeIdentityHeader (length data) (payloadCrc data) \<noteq> []" by (metis length_identity_header list.size(3) zero_neq_numeral)
  then show ?thesis
    using write_chunks_prefix [of "[encodeIdentityHeader (length data) (payloadCrc data), data]" "wr_open rm"] assms
    by (simp add: writeIdentity_chunks identity_file_def wr_open_def)
qed

text \<open>What a load finds depends on the live file after recovery alone.\<close>

lemma identity_temp: "atomicFileTempPath (Some IDENTITY_PATH) 192 = Some (IDENTITY_PATH @ TMP_SUFFIX)"
  by (simp add: atomicFileTempPath_def IDENTITY_PATH_def TMP_SUFFIX_def bytes_of_def)

lemma load_same:
  assumes "last (snd (atomicFileRecover e1 (Some IDENTITY_PATH) (Some validateIdentity) s1)) IDENTITY_PATH =
    last (snd (atomicFileRecover e2 (Some IDENTITY_PATH) (Some validateIdentity) s2)) IDENTITY_PATH"
  shows "fst (identityStoreLoad e1 b buf s1) = fst (identityStoreLoad e2 b buf s2)"
  using assms by (simp add: identityStoreLoad_def Let_def split: option.splits)

lemma load_identity:
  assumes "last (snd (atomicFileRecover env (Some IDENTITY_PATH) (Some validateIdentity) s)) IDENTITY_PATH = Some (identity_file data)"
    and "0 < length data" "length data \<le> 128" "length data \<le> n"
  shows "fst (identityStoreLoad env True (Some n) s) = (True, data)"
proof -
  have "take 4 (encodeIdentityHeader (length data) (payloadCrc data)) = IDENTITY_MAGIC"
    by (simp add: encodeIdentityHeader_def IDENTITY_MAGIC_def)
  moreover obtain m where "n = Suc m" using assms(2,4) by (cases n) auto
  ultimately show ?thesis using assms decode_encode [of "length data"]
    by (simp add: identityStoreLoad_def identity_file_def IDENTITY_HEADER_SIZE_def Let_def)
qed

section \<open>Properties\<close>

text \<open>
  C19: saving the identity never loses it. Whatever calls fail and wherever the power goes while an identity is
  saved, the next start loads exactly what it would have loaded before, be that an identity of
  this or an older firmware or nothing, or exactly the new identity; after a save that reports
  success it is the new one.
\<close>

theorem identity_survives_power_loss:
  assumes fresh: "fs (IDENTITY_PATH @ TMP_SUFFIX) = None \<or> (\<exists>d. fs (IDENTITY_PATH @ TMP_SUFFIX) = Some d \<and> \<not> validateIdentity d)"
    and save: "identityStoreSave env (Some data) fs = (ok, tr)" "\<sigma> \<in> set tr" and "length data \<le> n"
  shows "(fst (identityStoreLoad (no_faults k) True (Some n) \<sigma>) = fst (identityStoreLoad (no_faults k) True (Some n) fs) \<or>
      fst (identityStoreLoad (no_faults k) True (Some n) \<sigma>) = (True, data)) \<and>
    (ok \<longrightarrow> fst (identityStoreLoad (no_faults k) True (Some n) (last tr)) = (True, data))"
proof (cases "0 < length data \<and> length data \<le> 128")
  case False
  then show ?thesis using save by (auto simp: identityStoreSave_def IDENTITY_MAX_PAYLOAD_def)
next
  case True
  let ?p = IDENTITY_PATH and ?t = "IDENTITY_PATH @ TMP_SUFFIX"
  have ne: "?t \<noteq> ?p" using tempPath_neq [OF identity_temp] by simp
  have r: "atomicFileReplace env (Some ?p) (Some (writeIdentity data)) (Some validateIdentity) fs = (ok, tr)"
    using save(1) True by (simp add: identityStoreSave_def IDENTITY_MAX_PAYLOAD_def)
  have pre: "d = identity_file data" if "prefix d (wr_data (snd (writeIdentity data (wr_open (room env)))))" "validateIdentity d" for d
    using no_partial_identity [of d data] prefix_order.trans [OF that(1) writeIdentity_prefix] that(2) True by blast
  define live where "live s = last (snd (atomicFileRecover (no_faults k) (Some ?p) (Some validateIdentity) s)) ?p" for s
  have liveI: "live s = (case s ?t of None \<Rightarrow> s ?p | Some d \<Rightarrow> if validateIdentity d then Some d else s ?p)" for s
    using recover_clean [OF identity_temp surjective_pairing, of k validateIdentity s] ne by (auto simp: live_def split: option.splits)
  have new: "fst (identityStoreLoad (no_faults k) True (Some n) s) = (True, data)" if "live s = Some (identity_file data)" for s
    using load_identity that True assms(4) by (simp add: live_def)
  have "live \<sigma> = fs ?p \<or> live \<sigma> = Some (identity_file data)"
    using crash_recover_at [OF identity_temp fresh pre _ r save(2) surjective_pairing] by (auto simp: live_def)
  moreover have "live fs = fs ?p" using fresh by (auto simp: liveI split: option.splits)
  ultimately have "fst (identityStoreLoad (no_faults k) True (Some n) \<sigma>) = fst (identityStoreLoad (no_faults k) True (Some n) fs) \<or>
      fst (identityStoreLoad (no_faults k) True (Some n) \<sigma>) = (True, data)"
    using new load_same by (metis live_def)
  moreover have "live (last tr) = Some (identity_file data)" if ok
    using replace_states(2) [OF identity_temp refl r] that pre [OF prefix_order.refl] ne by (auto simp: liveI)
  ultimately show ?thesis using new by blast
qed

theorem identity_survives_power_loss_witness:
  "let fs = (\<lambda>_. None)(IDENTITY_PATH := Some [1, 2, 3]);
       tr = snd (identityStoreSave ((no_faults 500)\<lparr>can_rename := False\<rparr>) (Some [9, 9]) fs)
   in fst (identityStoreLoad (no_faults 500) True (Some 100) (hd tr)) \<in> {(True, [1, 2, 3]), (True, [9, 9])}"
proof -
  let ?fs = "(\<lambda>_. None)(IDENTITY_PATH := Some [1, 2, 3]) :: flash" and ?env = "(no_faults 500)\<lparr>can_rename := False\<rparr>"
  obtain ok tr where r: "identityStoreSave ?env (Some [9, 9]) ?fs = (ok, tr)" by force
  have "tr \<noteq> []" using r replace_states(2) [OF identity_temp refl] by (auto simp: identityStoreSave_def IDENTITY_MAX_PAYLOAD_def)
  moreover have "fst (identityStoreLoad (no_faults 500) True (Some 100) ?fs) = (True, [1, 2, 3])"
    by (simp add: identityStoreLoad_def atomicFileRecover_def identity_temp fileExists_def TMP_SUFFIX_def IDENTITY_HEADER_SIZE_def)
  moreover have "?fs (IDENTITY_PATH @ TMP_SUFFIX) = None" by (simp add: TMP_SUFFIX_def)
  ultimately show ?thesis
    using identity_survives_power_loss [of ?fs ?env "[9, 9]" ok tr "hd tr" 100 500] r by (simp add: Let_def)
qed

end
