(* ===== verification/TimeState.thy ===== *)
theory TimeState
  imports SigPrelude "HOL-Library.Signed_Division"
begin

text \<open>
  Time synchronisation (\<open>mesh/time_state.h\<close>, \<open>mesh/time_state.cpp\<close>): where the clock was set from
  and when, the text that shows it, and the conversion of a calendar date to seconds since 1970.

  Integers of the conversion are unbounded here. In the code they are \<open>int\<close>, and no intermediate value
  leaves its range for years between -5000000 and 5000000, which the theorem assumes. A null result
  pointer, on which the code fails too, is not represented.
\<close>

section \<open>Synchronisation\<close>

datatype TimeSource = Unknown | Manual | Companion | GPS

record TimeSyncStatus =
  st_source :: TimeSource
  st_synced_at :: u32
  st_age_seconds :: u32

record TimeSyncTracker =
  tt_source :: TimeSource
  tt_synced_at :: u32

definition tracker_reset :: "TimeSyncTracker \<Rightarrow> TimeSyncTracker" where
  "tracker_reset t = t\<lparr>tt_source := Unknown, tt_synced_at := 0\<rparr>"

definition tracker_record :: "TimeSource \<Rightarrow> u32 \<Rightarrow> TimeSyncTracker \<Rightarrow> TimeSyncTracker" where
  "tracker_record source synced_at t = t\<lparr>tt_source := source, tt_synced_at := synced_at\<rparr>"

definition tracker_status :: "u32 \<Rightarrow> TimeSyncTracker \<Rightarrow> TimeSyncStatus" where
  "tracker_status now t =
     \<lparr>st_source = tt_source t, st_synced_at = tt_synced_at t,
      st_age_seconds = (if tt_source t = Unknown \<or> now < tt_synced_at t then 0 else now - tt_synced_at t)\<rparr>"

definition timeSourceName :: "TimeSource \<Rightarrow> cstring" where
  "timeSourceName source = bytes_of (case source of Manual \<Rightarrow> ''Manual'' | Companion \<Rightarrow> ''Companion'' | GPS \<Rightarrow> ''GPS'' | Unknown \<Rightarrow> ''Unknown'')"

text \<open>\<open>%lu\<close>.\<close>

fun decimal_text :: "nat \<Rightarrow> cstring" where
  "decimal_text n = (if n < 10 then [0x30 + word_of_nat n] else decimal_text (n div 10) @ [0x30 + word_of_nat (n mod 10)])"

declare decimal_text.simps [simp del]

text \<open>The text before the terminator, cut to the buffer; none without a buffer.\<close>

definition formatTimeSyncStatus :: "TimeSyncStatus \<Rightarrow> nat option \<Rightarrow> cstring option" where
  "formatTimeSyncStatus status out =
     (case out of None \<Rightarrow> None
      | Some out_size \<Rightarrow>
          if out_size = 0 then None
          else Some (take (out_size - 1)
            (if st_source status = Unknown then bytes_of ''Unknown''
             else let age = unat (st_age_seconds status); name = timeSourceName (st_source status)
                  in name @ bytes_of '', '' @
                     (if age < 60 then decimal_text age @ bytes_of ''s ago''
                      else if age < 3600 then decimal_text (age div 60) @ bytes_of ''m ago''
                      else if age < 86400 then decimal_text (age div 3600) @ bytes_of ''h ago''
                      else decimal_text (age div 86400) @ bytes_of ''d ago''))))"

section \<open>Calendar\<close>

definition leapYear :: "int \<Rightarrow> bool" where
  "leapYear year \<longleftrightarrow> year mod 4 = 0 \<and> (year mod 100 \<noteq> 0 \<or> year mod 400 = 0)"

definition daysInMonth :: "int \<Rightarrow> int \<Rightarrow> int" where
  "daysInMonth year month =
     (if month < 1 \<or> month > 12 then 0
      else if month = 2 \<and> leapYear year then 29
      else [31, 28, 31, 30, 31, 30, 31, 31, 30, 31, 30, 31] ! nat (month - 1))"

text \<open>The day number of a date; the division is that of C, towards zero.\<close>

definition civil_days :: "int \<Rightarrow> int \<Rightarrow> int \<Rightarrow> int" where
  "civil_days year month day =
     (let y = (if month < 3 then year - 1 else year);
          m = (if month < 3 then month + 12 else month);
          era = (if y \<ge> 0 then y else y - 399) sdiv 400;
          yoe = y - era * 400;
          doy = (153 * (m - 3) + 2) div 5 + (day - 1);
          doe = yoe * 365 + yoe div 4 - yoe div 100 + doy
      in era * 146097 + doe - 719468)"

definition utcToEpochChecked :: "int \<Rightarrow> int \<Rightarrow> int \<Rightarrow> int \<Rightarrow> int \<Rightarrow> int \<Rightarrow> u32 option" where
  "utcToEpochChecked year month day hour minute second =
     (if month < 1 \<or> month > 12 \<or> day < 1 \<or> day > daysInMonth year month \<or> hour < 0 \<or> hour > 23 \<or>
         minute < 0 \<or> minute > 59 \<or> second < 0 \<or> second > 59 then None
      else let epoch = civil_days year month day * 86400 + hour * 3600 + minute * 60 + second
           in if epoch < 0 \<or> epoch > 0xFFFFFFFF then None else Some (word_of_int epoch))"

definition utcToEpoch :: "int \<Rightarrow> int \<Rightarrow> int \<Rightarrow> int \<Rightarrow> int \<Rightarrow> int \<Rightarrow> u32" where
  "utcToEpoch year month day hour minute second =
     (case utcToEpochChecked year month day hour minute second of Some e \<Rightarrow> e | None \<Rightarrow> 0)"

section \<open>The calendar as a sequence of days\<close>

type_synonym date = "int \<times> int \<times> int"

definition valid_date :: "date \<Rightarrow> bool" where
  "valid_date = (\<lambda>(y, m, d). 1 \<le> m \<and> m \<le> 12 \<and> 1 \<le> d \<and> d \<le> daysInMonth y m)"

definition next_day :: "date \<Rightarrow> date" where
  "next_day = (\<lambda>(y, m, d). if d < daysInMonth y m then (y, m, d + 1) else if m < 12 then (y, m + 1, 1) else (y + 1, 1, 1))"

definition prev_day :: "date \<Rightarrow> date" where
  "prev_day = (\<lambda>(y, m, d). if 1 < d then (y, m, d - 1) else if 1 < m then (y, m - 1, daysInMonth y (m - 1)) else (y - 1, 12, 31))"

definition day_number :: "date \<Rightarrow> int" where
  "day_number = (\<lambda>(y, m, d). civil_days y m d)"

lemma era_floor: "(if y \<ge> 0 then y else y - 399) sdiv 400 = y div (400 :: int)"
proof (cases "y \<ge> 0")
  case True
  then show ?thesis by (simp add: signed_divide_int_def sgn_if)
next
  case False
  have "399 - y = 400 * (- (y div 400)) + (399 - y mod 400)" using mult_div_mod_eq [of 400 y] by linarith
  then have "(399 - y) div 400 = - (y div 400)"
    by (rule int_div_pos_eq) (use pos_mod_bound [of 400 y] pos_mod_sign [of 400 y] in linarith)+
  moreover have "(y - 399) sdiv 400 = - ((399 - y) div 400)" using False by (simp add: signed_divide_int_def sgn_if)
  ultimately show ?thesis using False by simp
qed

text \<open>Years start in March; leap days fall at their end.\<close>

definition year_days :: "int \<Rightarrow> int" where
  "year_days y = 365 * y + y div 4 - y div 100 + y div 400"

lemma year_days_era: "(y div 400) * 146097 + (yoe * 365 + yoe div 4 - yoe div 100) = year_days y" if "yoe = y - y div 400 * 400" for y :: int
proof -
  have "y = yoe + (100 * (y div 400)) * 4" "y = yoe + (4 * (y div 400)) * 100" using that by simp_all
  then have "y div 4 = 100 * (y div 400) + yoe div 4" "y div 100 = 4 * (y div 400) + yoe div 100"
    by (metis add.commute div_mult_self1 zero_neq_numeral)+
  then show ?thesis using that by (simp add: year_days_def)
qed

lemma civil_days_eq:
  "civil_days y m d = year_days (if m < 3 then y - 1 else y) + (153 * ((if m < 3 then m + 12 else m) - 3) + 2) div 5 + (d - 1) - 719468"
  unfolding civil_days_def era_floor Let_def year_days_era [OF refl, symmetric] by simp

lemma div_step: "0 < k \<Longrightarrow> y div k = (y - 1) div k + (if k dvd y then 1 else 0)" for y k :: int
proof (cases "k dvd y")
  case True
  assume k: "0 < k"
  from True obtain q where q: "y = k * q" by blast
  then have "y - 1 = k * (q - 1) + (k - 1)" by (simp add: algebra_simps)
  then have "(y - 1) div k = q - 1" by (rule int_div_pos_eq) (use k in auto)
  then show ?thesis using q k by simp
next
  case False
  assume k: "0 < k"
  have "y mod k \<noteq> 0" using False by (simp add: dvd_eq_mod_eq_0)
  then have "0 < y mod k" using k pos_mod_sign [of k y] by linarith
  then have "0 \<le> y mod k - 1" "y mod k - 1 < k" using pos_mod_bound [OF k, of y] by linarith+
  moreover have "y - 1 = k * (y div k) + (y mod k - 1)" by simp
  ultimately have "(y - 1) div k = y div k" using int_div_pos_eq by blast
  then show ?thesis using False by simp
qed

lemma year_days_step: "year_days y = year_days (y - 1) + (if leapYear y then 366 else 365)"
proof -
  have *: "365 * y + a - b + c = 365 * (y - 1) + a' - b' + c' + (if p \<and> (\<not> q \<or> r) then 366 else 365)"
    if "a = a' + (if p then 1 else 0)" "b = b' + (if q then 1 else 0)" "c = c' + (if r then 1 else 0)" "q \<longrightarrow> p" "r \<longrightarrow> q"
    for a b c a' b' c' :: int and p q r using that by (cases p; cases q; cases r) simp_all
  have "100 dvd y \<longrightarrow> 4 dvd y" "400 dvd y \<longrightarrow> 100 dvd y"
    using dvd_trans [of 4 100 y] dvd_trans [of 100 400 y] by simp_all
  note step = * [OF div_step [OF zero_less_numeral] div_step [OF zero_less_numeral] div_step [OF zero_less_numeral] this]
  have leap: "leapYear y \<longleftrightarrow> 4 dvd y \<and> (\<not> 100 dvd y \<or> 400 dvd y)" by (simp only: leapYear_def dvd_eq_mod_eq_0)
  show ?thesis unfolding year_days_def leap by (rule step)
qed

lemma month_cases: "1 \<le> m \<Longrightarrow> m \<le> 12 \<Longrightarrow> m \<in> {1, 2, 3, 4, 5, 6, 7, 8, 9, 10, 11, 12 :: int}"
  by (simp, presburger)

lemma month_lengths:
  "daysInMonth y 1 = 31" "daysInMonth y 2 = (if leapYear y then 29 else 28)" "daysInMonth y 3 = 31" "daysInMonth y 4 = 30"
  "daysInMonth y 5 = 31" "daysInMonth y 6 = 30" "daysInMonth y 7 = 31" "daysInMonth y 8 = 31" "daysInMonth y 9 = 30"
  "daysInMonth y 10 = 31" "daysInMonth y 11 = 30" "daysInMonth y 12 = 31"
  by (simp_all add: daysInMonth_def)

text \<open>The days of a year before each month, counted from the March before.\<close>

lemma month_starts:
  "civil_days y 1 d = year_days (y - 1) + 306 + d - 719469" "civil_days y 2 d = year_days (y - 1) + 337 + d - 719469"
  "civil_days y 3 d = year_days y + d - 719469" "civil_days y 4 d = year_days y + 31 + d - 719469"
  "civil_days y 5 d = year_days y + 61 + d - 719469" "civil_days y 6 d = year_days y + 92 + d - 719469"
  "civil_days y 7 d = year_days y + 122 + d - 719469" "civil_days y 8 d = year_days y + 153 + d - 719469"
  "civil_days y 9 d = year_days y + 184 + d - 719469" "civil_days y 10 d = year_days y + 214 + d - 719469"
  "civil_days y 11 d = year_days y + 245 + d - 719469" "civil_days y 12 d = year_days y + 275 + d - 719469"
  by (simp_all add: civil_days_eq)

lemma days_next:
  assumes "valid_date x"
  shows "valid_date (next_day x) \<and> day_number (next_day x) = day_number x + 1"
proof -
  obtain y m d where x: "x = (y, m, d)" by (cases x)
  have m: "m \<in> {1, 2, 3, 4, 5, 6, 7, 8, 9, 10, 11, 12}" using assms month_cases by (auto simp: valid_date_def x)
  show ?thesis using m assms year_days_step [of y] unfolding x
    by (elim insertE emptyE) (auto simp: valid_date_def next_day_def day_number_def month_lengths month_starts split: if_splits)
qed

lemma days_prev:
  assumes "valid_date x"
  shows "valid_date (prev_day x) \<and> next_day (prev_day x) = x"
proof -
  obtain y m d where x: "x = (y, m, d)" by (cases x)
  have m: "m \<in> {1, 2, 3, 4, 5, 6, 7, 8, 9, 10, 11, 12}" using assms month_cases by (auto simp: valid_date_def x)
  show ?thesis using m assms unfolding x
    by (elim insertE emptyE) (auto simp: valid_date_def next_day_def prev_day_def month_lengths)
qed

lemma year_days_le: "y \<le> y' \<Longrightarrow> year_days y \<le> year_days y'"
proof (induction "nat (y' - y)" arbitrary: y')
  case (Suc n)
  have "n = nat (y' - 1 - y)" "y \<le> y' - 1" using Suc.hyps(2) by linarith+
  then have "year_days y \<le> year_days (y' - 1)" by (rule Suc.hyps(1))
  also have "\<dots> \<le> year_days y'" using year_days_step [of y'] by (cases "leapYear y'") simp_all
  finally show ?case .
qed simp

lemma day_zero: "valid_date x \<Longrightarrow> day_number x = 0 \<Longrightarrow> x = (1970, 1, 1)"
proof -
  assume v: "valid_date x" and z: "day_number x = 0"
  obtain y m d where x: "x = (y, m, d)" by (cases x)
  have m: "m \<in> {1, 2, 3, 4, 5, 6, 7, 8, 9, 10, 11, 12}" using v month_cases by (auto simp: valid_date_def x)
  have base: "year_days 1969 = 719162" "year_days 1970 = 719527" by (simp_all add: year_days_def)
  have "day_number x \<le> year_days y + 306 - 719469 \<and> year_days (y - 1) + 307 - 719469 \<le> day_number x"
    using m v year_days_step [of y] unfolding x
    by (elim insertE emptyE) (auto simp: valid_date_def day_number_def month_lengths month_starts split: if_splits)
  then have b: "0 \<le> year_days y + 306 - 719469" "year_days (y - 1) + 307 - 719469 \<le> 0" using z by simp_all
  have "y \<le> 1970"
  proof (rule ccontr)
    assume "\<not> y \<le> 1970"
    then have y: "1970 \<le> y - 1" by simp
    show False using year_days_le [OF y] b(2) base(2) by simp
  qed
  moreover have "1970 \<le> y"
  proof (rule ccontr)
    assume "\<not> 1970 \<le> y"
    then have y: "y \<le> 1969" by simp
    show False using year_days_le [OF y] b(1) base(1) by simp
  qed
  ultimately have "y = 1970" by simp
  then show ?thesis using m v z base unfolding x
    by (elim insertE emptyE) (auto simp: valid_date_def day_number_def month_lengths month_starts)
qed

lemma days_reach: "valid_date x \<Longrightarrow> day_number x = int n \<Longrightarrow> (next_day ^^ n) (1970, 1, 1) = x"
proof (induction n arbitrary: x)
  case (Suc n)
  note p = days_prev [OF Suc.prems(1)]
  have "day_number (prev_day x) = int n" using days_next [of "prev_day x"] p Suc.prems(2) by simp
  then show ?case using Suc.IH [of "prev_day x"] p by simp
qed (use day_zero in simp)

lemma days_count: "valid_date ((next_day ^^ n) (1970, 1, 1)) \<and> day_number ((next_day ^^ n) (1970, 1, 1)) = int n"
  by (induction n) (auto simp: days_next, simp_all add: valid_date_def day_number_def month_lengths month_starts year_days_def)

section \<open>Properties\<close>

text \<open>
  C35: the conversion of a calendar date counts days. For a time of day in range, and a year small enough for \<open>int\<close>, it succeeds
  exactly for the dates that are reached from 1 January 1970 by stepping day by day through the
  Gregorian calendar, as long as the second fits 32 bits, and the result is the number of steps
  times 86400 plus the seconds of the day; a date that does not exist, or lies before 1970 or after
  the range, is refused.
\<close>

theorem utc_epoch_counts_days:
  assumes "0 \<le> h" "h \<le> 23" "0 \<le> mi" "mi \<le> 59" "0 \<le> s" "s \<le> 59" "\<bar>y\<bar> \<le> 5000000"
  shows "utcToEpochChecked y m d h mi s = Some e \<longleftrightarrow>
    (\<exists>n. (next_day ^^ n) (1970, 1, 1) = (y, m, d) \<and> uint e = 86400 * int n + 3600 * h + 60 * mi + s)"
proof -
  let ?sec = "3600 * h + 60 * mi + s"
  have sec: "0 \<le> ?sec" "?sec < 86400" using assms by auto
  show ?thesis
  proof (cases "valid_date (y, m, d)")
    case False
    then have "utcToEpochChecked y m d h mi s = None" by (auto simp: utcToEpochChecked_def valid_date_def)
    moreover have "(next_day ^^ n) (1970, 1, 1) \<noteq> (y, m, d)" for n using days_count [of n] False by metis
    ultimately show ?thesis by simp
  next
    case True
    then have u: "utcToEpochChecked y m d h mi s = (let epoch = day_number (y, m, d) * 86400 + ?sec
        in if epoch < 0 \<or> epoch > 0xFFFFFFFF then None else Some (word_of_int epoch))"
      using assms by (auto simp: utcToEpochChecked_def valid_date_def day_number_def Let_def algebra_simps)
    have e: "word_of_int k = e \<longleftrightarrow> k = uint e" if "0 \<le> k" "k \<le> 0xFFFFFFFF" for k :: int
    proof -
      have "uint (word_of_int k :: u32) = k" using that by (simp add: unsigned_of_int take_bit_int_eq_self)
      then show ?thesis by (metis word_of_int_uint)
    qed
    define D where "D = day_number (y, m, d)"
    have b: "0 \<le> uint e" "uint e \<le> 0xFFFFFFFF" using uint_lt2p [of e] by simp_all
    have "utcToEpochChecked y m d h mi s = Some e \<longleftrightarrow> D * 86400 + ?sec = uint e"
    proof (cases "D * 86400 + ?sec < 0 \<or> D * 86400 + ?sec > 0xFFFFFFFF")
      case F: False
      then show ?thesis using e [of "D * 86400 + ?sec"] by (simp add: u D_def [symmetric] Let_def)
    qed (use b in \<open>auto simp: u D_def [symmetric] Let_def\<close>)
    also have "\<dots> \<longleftrightarrow> (\<exists>n. D = int n \<and> uint e = 86400 * int n + 3600 * h + 60 * mi + s)"
    proof
      assume "D * 86400 + ?sec = uint e"
      moreover from this have "0 \<le> D" using b(1) sec by linarith
      ultimately show "\<exists>n. D = int n \<and> uint e = 86400 * int n + 3600 * h + 60 * mi + s" by (intro exI [of _ "nat D"]) simp
    qed auto
    also have "\<dots> \<longleftrightarrow> (\<exists>n. (next_day ^^ n) (1970, 1, 1) = (y, m, d) \<and> uint e = 86400 * int n + 3600 * h + 60 * mi + s)"
      using days_count days_reach [OF True] unfolding D_def by metis
    finally show ?thesis .
  qed
qed

theorem utc_epoch_counts_days_witness:
  "utcToEpochChecked 1970 3 1 0 0 5 = Some 5097605 \<and> (next_day ^^ 59) (1970, 1, 1) = (1970, 3, 1)"
proof -
  have "utcToEpochChecked 1970 3 1 0 0 5 = Some 5097605" by code_simp
  then obtain n where "(next_day ^^ n) (1970, 1, 1) = (1970, 3, 1)" "uint (5097605 :: u32) = 86400 * int n + 3600 * 0 + 60 * 0 + 5"
    using utc_epoch_counts_days [of 0 0 5 1970 3 1 5097605] by auto
  moreover from this(2) have "n = 59" by simp
  ultimately show ?thesis using \<open>utcToEpochChecked 1970 3 1 0 0 5 = Some 5097605\<close> by blast
qed

end
