(* ===== verification/Float32.thy ===== *)
theory Float32
  imports Complex_Main SigPrelude
begin

text \<open>
  The \<open>float\<close> of the firmware: IEEE single precision, as the bit pattern that is stored. Only what the
  preferences use of it is here: the test for finite numbers, comparisons of finite numbers, and the
  quotient of two small whole numbers.

  The value of a finite float is a whole multiple of \<open>2\<^sup>-\<^sup>1\<^sup>4\<^sup>9\<close>; comparisons are made on that multiple.
\<close>

type_synonym f32 = "32 word"

definition f32_exponent :: "f32 \<Rightarrow> nat" where
  "f32_exponent w = unat (take_bit 8 (drop_bit 23 w))"

definition f32_fraction :: "f32 \<Rightarrow> nat" where
  "f32_fraction w = unat (take_bit 23 w)"

definition f32_isfinite :: "f32 \<Rightarrow> bool" where
  "f32_isfinite w \<longleftrightarrow> f32_exponent w \<noteq> 255"

text \<open>The value times \<open>2\<^sup>1\<^sup>4\<^sup>9\<close>.\<close>

definition f32_scaled :: "f32 \<Rightarrow> int" where
  "f32_scaled w = (if bit w 31 then - 1 else 1) *
     (if f32_exponent w = 0 then int (f32_fraction w)
      else int (2 ^ 23 + f32_fraction w) * 2 ^ (f32_exponent w - 1))"

definition f32_value :: "f32 \<Rightarrow> real" where
  "f32_value w = real_of_int (f32_scaled w) / 2 ^ 149"

definition f32_less :: "f32 \<Rightarrow> f32 \<Rightarrow> bool" where
  "f32_less a b \<longleftrightarrow> f32_scaled a < f32_scaled b"

text \<open>
  \<open>std::fabs(a - b) < c\<close>. The subtraction rounds, but for the uses here that changes nothing: if \<open>a\<close> is within
  a factor of two of \<open>b\<close> the difference is exact, and otherwise it exceeds half of \<open>b\<close>, rounded or not.
\<close>

definition f32_near :: "f32 \<Rightarrow> f32 \<Rightarrow> f32 \<Rightarrow> bool" where
  "f32_near a b c \<longleftrightarrow> \<bar>f32_scaled a - f32_scaled b\<bar> < f32_scaled c"

text \<open>
  The quotient of two whole numbers from 1 to 255, rounded to nearest, ties to even. \<open>quotient_exponent\<close> is the
  binary exponent of the quotient, plus 8 so that it is not negative.
\<close>

definition round_half_even :: "nat \<Rightarrow> nat \<Rightarrow> nat" where
  "round_half_even n d =
     (let q = n div d; r = n mod d in if 2 * r > d \<or> (2 * r = d \<and> odd q) then q + 1 else q)"

definition quotient_exponent :: "nat \<Rightarrow> nat \<Rightarrow> nat" where
  "quotient_exponent n d = the (find (\<lambda>k. n * 2 ^ 8 \<ge> d * 2 ^ k) [15, 14, 13, 12, 11, 10, 9, 8, 7, 6, 5, 4, 3, 2, 1, 0])"

definition f32_quotient :: "nat \<Rightarrow> nat \<Rightarrow> f32" where
  "f32_quotient n d =
     (let k = quotient_exponent n d; m = round_half_even (n * 2 ^ 31) (d * 2 ^ k)
      in word_of_nat ((k + 119) * 2 ^ 23 + (m - 2 ^ 23)))"

lemma f32_quotient_examples:
  "f32_quotient 50 50 = 0x3f800000" "f32_quotient 97 3 = 0x42015555" "f32_quotient 67 33 = 0x4001f07c" "f32_quotient 1 99 = 0x3c257eb5"
  "f32_quotient 99 1 = 0x42c60000"
  by (simp_all add: f32_quotient_def round_half_even_def quotient_exponent_def)

lemma f32_less_value: "f32_less a b \<longleftrightarrow> f32_value a < f32_value b"
  by (simp add: f32_less_def f32_value_def divide_less_cancel)

lemma f32_near_value: "f32_near a b c \<longleftrightarrow> \<bar>f32_value a - f32_value b\<bar> < f32_value c"
proof -
  have eq: "\<bar>f32_value a - f32_value b\<bar> = real_of_int \<bar>f32_scaled a - f32_scaled b\<bar> / 2 ^ 149"
    by (simp only: f32_value_def diff_divide_distrib [symmetric] abs_divide of_int_diff [symmetric] of_int_abs [symmetric]) simp
  have "real_of_int x / 2 ^ 149 < real_of_int y / 2 ^ 149 \<longleftrightarrow> x < y" for x y by (simp add: divide_less_cancel)
  then show ?thesis unfolding eq f32_near_def f32_value_def [of c] by blast
qed

end
