(* ===== verification/Prefs.thy ===== *)
theory Prefs
  imports Nvs Float32
begin

text \<open>
  The settings of the node (\<open>hal/prefs.h\<close>, \<open>hal/prefs.cpp\<close>, \<open>hal/prefs_write_policy.h\<close>, \<open>mesh/airtime_policy.h\<close>):
  the structure, its defaults, the checks it has to pass, and its way to and from non-volatile
  storage. The build with BLE and the one without differ; the flag \<open>ble\<close> stands for
  \<open>SIGURDOS_COMPANION_BLE\<close>. Character arrays are the strings they hold; log messages are left out.
\<close>

section \<open>The structure\<close>

record NodePrefs =
  np_node_name :: cstring
  np_freq :: f32
  np_bw :: f32
  np_sf :: byte
  np_cr :: byte
  np_tx_power_dbm :: byte
  np_configured :: bool
  np_kbd_backlight :: byte
  np_kbd_layout :: byte
  np_display_brightness :: byte
  np_auto_off_timeout :: u16
  np_chat_msg_cap :: u16
  np_flood_max_hops :: byte
  np_advert_loc_policy :: byte
  np_advert_location_valid :: bool
  np_advert_lat :: u32
  np_advert_lon :: u32
  np_rx_delay_base :: f32
  np_tx_delay_factor :: f32
  np_direct_tx_delay_factor :: f32
  np_airtime_factor :: f32
  np_rx_boosted_gain :: bool
  np_duty_cycle :: byte
  np_advert_interval_h :: u16
  np_advert_type :: byte
  np_gps_enabled :: bool
  np_gps_interval :: u32
  np_gps_track_enabled :: bool
  np_gps_track_interval :: u32
  np_autoadd_config :: byte
  np_autoadd_max_hops :: byte
  np_theme_id :: byte
  np_language :: byte
  np_path_hash_mode :: byte
  np_multi_acks :: byte
  np_buzzer_quiet :: bool
  np_client_repeat :: byte
  np_ble_enabled :: bool
  np_ble_user_set :: bool
  np_device_pin :: u32
  np_ble_pin :: u32
  np_ble_bond_reset_pending :: bool
  np_telemetry_modes :: byte
  np_manual_add_contacts :: byte
  np_default_scope_key_hex :: cstring
  np_wifi_ssid :: cstring
  np_wifi_password :: cstring
  np_active_region :: cstring
  np_ota_branch :: cstring
  np_ota_allow_prerelease :: bool
  np_radio_profile :: cstring
  np_transport_tcp_enabled :: bool
  np_transport_ws_enabled :: bool

text \<open>The literals \<open>0.0f\<close>, \<open>1.0f\<close>, \<open>2.0f\<close>, \<open>10.0f\<close>, \<open>20.0f\<close>, \<open>150.0f\<close>, \<open>960.0f\<close> and \<open>0.02f\<close>.\<close>

definition F_0 :: f32 where "F_0 = 0"
definition F_1 :: f32 where "F_1 = 0x3f800000"
definition F_2 :: f32 where "F_2 = 0x40000000"
definition F_10 :: f32 where "F_10 = 0x41200000"
definition F_20 :: f32 where "F_20 = 0x41a00000"
definition F_150 :: f32 where "F_150 = 0x43160000"
definition F_960 :: f32 where "F_960 = 0x44700000"
definition F_0_02 :: f32 where "F_0_02 = 0x3ca3d70a"

definition default_prefs :: NodePrefs where
  "default_prefs = \<lparr>
     np_node_name = bytes_of ''SigurdOS T-Deck'', np_freq = F_0, np_bw = F_0, np_sf = 0, np_cr = 0,
     np_tx_power_dbm = 0, np_configured = False, np_kbd_backlight = 127, np_kbd_layout = 0,
     np_display_brightness = 200, np_auto_off_timeout = 30, np_chat_msg_cap = 200, np_flood_max_hops = 0,
     np_advert_loc_policy = 0, np_advert_location_valid = False, np_advert_lat = 0, np_advert_lon = 0,
     np_rx_delay_base = F_10, np_tx_delay_factor = F_1, np_direct_tx_delay_factor = F_1, np_airtime_factor = F_0,
     np_rx_boosted_gain = False, np_duty_cycle = 0, np_advert_interval_h = 0, np_advert_type = 1,
     np_gps_enabled = False, np_gps_interval = 5, np_gps_track_enabled = False, np_gps_track_interval = 15,
     np_autoadd_config = 0x1E, np_autoadd_max_hops = 0, np_theme_id = 0, np_language = 0, np_path_hash_mode = 0,
     np_multi_acks = 0, np_buzzer_quiet = False, np_client_repeat = 0, np_ble_enabled = True, np_ble_user_set = False,
     np_device_pin = 0, np_ble_pin = 0, np_ble_bond_reset_pending = False, np_telemetry_modes = 0,
     np_manual_add_contacts = 0, np_default_scope_key_hex = [], np_wifi_ssid = [], np_wifi_password = [],
     np_active_region = [], np_ota_branch = bytes_of ''main'', np_ota_allow_prerelease = False, np_radio_profile = [],
     np_transport_tcp_enabled = False, np_transport_ws_enabled = False\<rparr>"

text \<open>\<open>set_defaults\<close> assigns every field.\<close>

definition set_defaults :: "NodePrefs \<Rightarrow> NodePrefs" where
  "set_defaults p = default_prefs"

definition set_factory_reset_defaults :: "NodePrefs \<Rightarrow> NodePrefs" where
  "set_factory_reset_defaults p =
     (set_defaults p)\<lparr>np_ble_enabled := False, np_ble_user_set := True, np_ble_bond_reset_pending := True\<rparr>"

section \<open>Checks\<close>

definition BLE_PREFS_SCHEMA_VERSION :: byte where "BLE_PREFS_SCHEMA_VERSION = 1"

definition normalizePathHashMode :: "byte \<Rightarrow> byte" where
  "normalizePathHashMode mode = (if mode \<le> 2 then mode else 0)"

definition clearSavedNetworkCredentialFields :: "NodePrefs \<Rightarrow> NodePrefs" where
  "clearSavedNetworkCredentialFields p =
     p\<lparr>np_wifi_ssid := [], np_wifi_password := [], np_default_scope_key_hex := [], np_active_region := []\<rparr>"

definition allowed_bandwidths :: "f32 list" where
  "allowed_bandwidths = [0x40f9999a, 0x41266666, 0x4179999a, 0x41a66666, 0x41fa0000, 0x4226cccd, 0x427a0000, 0x42fa0000,
     0x437a0000, 0x43fa0000]"

definition validRadioBandwidth :: "f32 \<Rightarrow> bool" where
  "validRadioBandwidth bw \<longleftrightarrow> f32_isfinite bw \<and> list_ex (\<lambda>v. f32_near bw v F_0_02) allowed_bandwidths"

text \<open>A float outside \<open>[0, hi]\<close> is replaced.\<close>

definition clamp_float :: "f32 \<Rightarrow> f32 option \<Rightarrow> f32 \<Rightarrow> f32" where
  "clamp_float x hi fallback =
     (if \<not> f32_isfinite x \<or> f32_less x F_0 \<or> (case hi of Some h \<Rightarrow> f32_less h x | None \<Rightarrow> False) then fallback else x)"

definition clamp_track_interval :: "u32 \<Rightarrow> u32" where
  "clamp_track_interval t = (if t < 1 \<or> t > 3600 then 15 else t)"

definition clamp_brightness :: "byte \<Rightarrow> byte" where
  "clamp_brightness b = (let b1 = (if b < 20 then 20 else b) in if b1 > 240 then 240 else b1)"

definition clamp_settings :: "NodePrefs \<Rightarrow> NodePrefs" where
  "clamp_settings p =
     p\<lparr>np_gps_interval := (if np_gps_interval p > 86400 then 86400 else np_gps_interval p),
       np_gps_track_interval := clamp_track_interval (np_gps_track_interval p),
       np_kbd_layout := (if np_kbd_layout p \<ge> 12 then 0 else np_kbd_layout p),
       np_display_brightness := clamp_brightness (np_display_brightness p),
       np_path_hash_mode := normalizePathHashMode (np_path_hash_mode p),
       np_rx_delay_base := clamp_float (np_rx_delay_base p) (Some F_20) F_10,
       np_tx_delay_factor := clamp_float (np_tx_delay_factor p) (Some F_2) F_1,
       np_direct_tx_delay_factor := clamp_float (np_direct_tx_delay_factor p) (Some F_2) F_1,
       np_airtime_factor := clamp_float (np_airtime_factor p) None F_0\<rparr>"

definition disable_radio :: "NodePrefs \<Rightarrow> NodePrefs" where
  "disable_radio p = p\<lparr>np_freq := F_0, np_bw := F_0, np_sf := 0, np_cr := 0, np_tx_power_dbm := 0, np_radio_profile := []\<rparr>"

definition radio_valid :: "NodePrefs \<Rightarrow> bool" where
  "radio_valid p \<longleftrightarrow>
     f32_isfinite (np_freq p) \<and> \<not> f32_less (np_freq p) F_150 \<and> \<not> f32_less F_960 (np_freq p) \<and>
     validRadioBandwidth (np_bw p) \<and> np_sf p \<ge> 5 \<and> np_sf p \<le> 12 \<and> np_cr p \<ge> 5 \<and> np_cr p \<le> 8 \<and>
     sint (np_tx_power_dbm p) \<ge> - 9 \<and> sint (np_tx_power_dbm p) \<le> 22"

definition normalizeAndValidate :: "NodePrefs \<Rightarrow> bool \<times> NodePrefs" where
  "normalizeAndValidate p0 =
     (let p = clamp_settings p0
      in if \<not> np_configured p then (True, disable_radio p)
         else if radio_valid p then (True, p)
         else (False, disable_radio (p\<lparr>np_configured := False\<rparr>)))"

definition repeaterPasswordFitsSchema :: "cstring option \<Rightarrow> cstring option \<Rightarrow> bool" where
  "repeaterPasswordFitsSchema name password =
     (case (name, password) of
        (Some n, Some pw) \<Rightarrow> length n > 0 \<and> length n < 32 \<and> length pw > 0 \<and> length pw < 64
      | _ \<Rightarrow> False)"

datatype BlePrefsWriteMode = BlePreserve | BleWrite

record BlePrefsState =
  bs_enabled :: bool
  bs_user_set :: bool
  bs_needs_migration :: bool

definition resolveBlePrefs :: "bool \<Rightarrow> bool \<Rightarrow> bool \<Rightarrow> bool \<Rightarrow> byte \<Rightarrow> BlePrefsState" where
  "resolveBlePrefs value_present stored_value intent_present stored_intent schema_version =
     (let user_set = (intent_present \<and> stored_intent);
          legacy = schema_version < BLE_PREFS_SCHEMA_VERSION;
          enabled = (if legacy \<and> \<not> user_set then True else if value_present then stored_value else True)
      in \<lparr>bs_enabled = enabled, bs_user_set = user_set, bs_needs_migration = legacy\<rparr>)"

definition dutyCyclePercentToFactor :: "byte \<Rightarrow> f32" where
  "dutyCyclePercentToFactor percent =
     (if percent = 0 \<or> percent \<ge> 100 then F_0 else f32_quotient (100 - unat percent) (unat percent))"

section \<open>Writing\<close>

text \<open>
  The table of writers is complete if no pointer in it is null. A failed write is reported with its
  key and error.
\<close>

record 's PrefsNvsWriter =
  pw_complete :: bool
  pw_set :: "nvs_key \<Rightarrow> nvs_value \<Rightarrow> 's \<Rightarrow> esp_err \<times> 's"
  pw_commit :: "'s \<Rightarrow> esp_err \<times> 's"

type_synonym PrefsWriteFailure = "nvs_key \<times> esp_err"

definition flag_byte :: "bool \<Rightarrow> byte" where
  "flag_byte b = (if b then 1 else 0)"

abbreviation "u8_flag b \<equiv> NvsU8 (flag_byte b)"

fun write_pref_keys :: "'s PrefsNvsWriter \<Rightarrow> (nvs_key \<times> nvs_value) list \<Rightarrow> 's \<Rightarrow> PrefsWriteFailure option \<times> 's" where
  "write_pref_keys w [] s = (let (e, s1) = pw_commit w s in (if e = 0 then None else Some (''commit'', e), s1))"
| "write_pref_keys w ((k, v) # kvs) s =
     (let (e, s1) = pw_set w k v s in if e = 0 then write_pref_keys w kvs s1 else (Some (k, e), s1))"

definition interlock_keys :: "(nvs_key \<times> nvs_value) list" where
  "interlock_keys =
     [(''ble_en'', NvsU8 0), (''ble_user'', NvsU8 1), (''ble_ver'', NvsU8 BLE_PREFS_SCHEMA_VERSION), (''ble_bond_rst'', NvsU8 1)]"

definition prefsWriteFactoryResetInterlock :: "'s PrefsNvsWriter \<Rightarrow> 's \<Rightarrow> PrefsWriteFailure option \<times> 's" where
  "prefsWriteFactoryResetInterlock w s =
     (if \<not> pw_complete w then (Some (''writer'', ESP_FAIL), s) else write_pref_keys w interlock_keys s)"

definition clamp_tx_power :: "byte \<Rightarrow> byte" where
  "clamp_tx_power t = (if sint t < - 9 then - 9 else if sint t > 22 then 22 else t)"

definition prefs_keys :: "NodePrefs \<Rightarrow> BlePrefsWriteMode \<Rightarrow> (nvs_key \<times> nvs_value) list" where
  "prefs_keys p ble_mode =
     [(''name'', NvsStr (np_node_name p)),
      (''freq'', NvsBlob (put_u32 (np_freq p))),
      (''bw'', NvsBlob (put_u32 (np_bw p))),
      (''sf'', NvsU8 (np_sf p)),
      (''cr'', NvsU8 (np_cr p)),
      (''txpwr'', NvsI8 (clamp_tx_power (np_tx_power_dbm p))),
      (''cfg'', u8_flag (np_configured p)),
      (''kbd_bl'', NvsU8 (np_kbd_backlight p)),
      (''kbd_layout'', NvsU8 (np_kbd_layout p)),
      (''disp_bl'', NvsU8 (np_display_brightness p)),
      (''auto_off'', NvsU16 (np_auto_off_timeout p)),
      (''chat_cap'', NvsU16 (np_chat_msg_cap p)),
      (''flood_mh'', NvsU8 (np_flood_max_hops p)),
      (''sh_loc'', NvsU8 (np_advert_loc_policy p)),
      (''adv_loc'', u8_flag (np_advert_location_valid p)),
      (''adv_lat'', NvsI32 (np_advert_lat p)),
      (''adv_lon'', NvsI32 (np_advert_lon p)),
      (''rx_del'', NvsBlob (put_u32 (np_rx_delay_base p))),
      (''tx_del'', NvsBlob (put_u32 (np_tx_delay_factor p))),
      (''dir_tx'', NvsBlob (put_u32 (np_direct_tx_delay_factor p))),
      (''air_fact'', NvsBlob (put_u32 (np_airtime_factor p))),
      (''rx_boost'', u8_flag (np_rx_boosted_gain p)),
      (''duty_cyc'', NvsU8 (np_duty_cycle p)),
      (''adv_dur'', NvsU16 (np_advert_interval_h p)),
      (''adv_type'', NvsU8 (np_advert_type p)),
      (''theme'', NvsU8 (np_theme_id p)),
      (''phash_mode'', NvsU8 (np_path_hash_mode p)),
      (''multi_ack'', NvsU8 (np_multi_acks p)),
      (''buzz_q'', u8_flag (np_buzzer_quiet p)),
      (''gps_en'', u8_flag (np_gps_enabled p)),
      (''gps_int32'', NvsU32 (np_gps_interval p)),
      (''gps_trk_en'', u8_flag (np_gps_track_enabled p)),
      (''gps_trk_int'', NvsU32 (np_gps_track_interval p)),
      (''autoadd_cfg'', NvsU8 (np_autoadd_config p)),
      (''autoadd_mh'', NvsU8 (np_autoadd_max_hops p)),
      (''clirep'', NvsU8 (np_client_repeat p))] @
     (case ble_mode of
        BleWrite \<Rightarrow> [(''ble_en'', u8_flag (np_ble_enabled p)), (''ble_user'', u8_flag (np_ble_user_set p)),
                     (''ble_ver'', NvsU8 BLE_PREFS_SCHEMA_VERSION)]
      | BlePreserve \<Rightarrow> []) @
     [(''dev_pin'', NvsU32 (np_device_pin p)),
      (''ble_pin'', NvsU32 (np_ble_pin p)),
      (''ble_bond_rst'', u8_flag (np_ble_bond_reset_pending p)),
      (''tele_mod'', NvsU8 (np_telemetry_modes p)),
      (''man_add'', NvsU8 (np_manual_add_contacts p)),
      (''scope_key'', NvsStr (np_default_scope_key_hex p)),
      (''wifi_ssid'', NvsStr (np_wifi_ssid p)),
      (''wifi_pw'', NvsStr (np_wifi_password p)),
      (''act_reg'', NvsStr (np_active_region p)),
      (''ota_br'', NvsStr (np_ota_branch p)),
      (''ota_pre'', u8_flag (np_ota_allow_prerelease p)),
      (''rf_prof'', NvsStr (np_radio_profile p))]"

definition prefsWriteAll :: "NodePrefs \<Rightarrow> 's PrefsNvsWriter \<Rightarrow> BlePrefsWriteMode \<Rightarrow> 's \<Rightarrow> PrefsWriteFailure option \<times> 's" where
  "prefsWriteAll p w ble_mode s =
     (if \<not> pw_complete w then (Some (''writer'', ESP_FAIL), s) else write_pref_keys w (prefs_keys p ble_mode) s)"

definition NVS_NS :: nvs_ns where "NVS_NS = ''sigurdos''"

definition I18N_LANGUAGE_COUNT :: byte where "I18N_LANGUAGE_COUNT = 7"

definition nvs_writer :: "'s Nvs \<Rightarrow> 's PrefsNvsWriter" where
  "nvs_writer N = \<lparr>pw_complete = True, pw_set = nvs_set N NVS_NS, pw_commit = nvs_commit N NVS_NS\<rparr>"

definition persistBleMigration :: "'s Nvs \<Rightarrow> bool \<Rightarrow> bool \<Rightarrow> 's \<Rightarrow> bool \<times> 's" where
  "persistBleMigration N enabled user_set s =
     (let (e, s1) = run_checked [nvs_open N NVS_NS True, nvs_set N NVS_NS ''ble_en'' (u8_flag enabled),
          nvs_set N NVS_NS ''ble_user'' (u8_flag user_set), nvs_set N NVS_NS ''ble_ver'' (NvsU8 BLE_PREFS_SCHEMA_VERSION),
          nvs_commit N NVS_NS] s
      in (e = ESP_OK, s1))"

definition writePrefsToNvs :: "'s Nvs \<Rightarrow> NodePrefs \<Rightarrow> BlePrefsWriteMode \<Rightarrow> bool \<Rightarrow> 's \<Rightarrow> bool \<times> 's" where
  "writePrefsToNvs N p ble_mode erase_first s =
     (let (e, s1) = nvs_open N NVS_NS True s
      in if e \<noteq> ESP_OK then (False, s1)
         else let (e2, s2) = (if erase_first then nvs_erase_all N NVS_NS s1 else (ESP_OK, s1))
              in if e2 \<noteq> ESP_OK then (False, s2)
                 else let (failure, s3) = prefsWriteAll p (nvs_writer N) ble_mode s2 in (failure = None, s3))"

definition writeTransportPrefsToNvs :: "'s Nvs \<Rightarrow> NodePrefs \<Rightarrow> 's \<Rightarrow> bool \<times> 's" where
  "writeTransportPrefsToNvs N p s =
     (let (e, s1) = run_checked [nvs_open N NVS_NS True, nvs_set N NVS_NS ''tr_tcp'' (u8_flag (np_transport_tcp_enabled p)),
          nvs_set N NVS_NS ''tr_ws'' (u8_flag (np_transport_ws_enabled p)), nvs_commit N NVS_NS] s
      in (e = ESP_OK, s1))"

definition persistLanguagePreference :: "'s Nvs \<Rightarrow> byte \<Rightarrow> 's \<Rightarrow> bool \<times> 's" where
  "persistLanguagePreference N language s =
     (let (ok, s1) = pf_begin N NVS_NS False s
      in if \<not> ok then (False, s1)
         else let (n, s2) = pf_putUChar N NVS_NS ''lang'' language s1 in (n = 1, s2))"

section \<open>Reading\<close>

text \<open>
  \<open>getString\<close> into a character array of \<open>cap\<close> bytes: the string read, or none if the result is 0 or
  exceeds the array.
\<close>

definition load_string :: "'s Nvs \<Rightarrow> nvs_key \<Rightarrow> nat \<Rightarrow> 's \<Rightarrow> cstring option" where
  "load_string N k cap s =
     (let (len, d) = pf_getString N NVS_NS k cap s
      in if len = 0 \<or> len > cap then None else Some (take (cap - 1) (cstr d)))"

definition DEFAULT_BLE_ENABLED :: "bool \<Rightarrow> bool" where
  "DEFAULT_BLE_ENABLED ble = ble"

definition load_ble_state :: "'s Nvs \<Rightarrow> bool \<Rightarrow> 's \<Rightarrow> BlePrefsState" where
  "load_ble_state N ble s =
     resolveBlePrefs (pf_isKey N NVS_NS ''ble_en'' s) (pf_getBool N NVS_NS ''ble_en'' (DEFAULT_BLE_ENABLED ble) s)
       (pf_isKey N NVS_NS ''ble_user'' s) (pf_getBool N NVS_NS ''ble_user'' False s) (pf_getUChar N NVS_NS ''ble_ver'' 0 s)"

text \<open>The structure before the final check. Only the node name can keep the value it had.\<close>

definition load_fields :: "'s Nvs \<Rightarrow> bool \<Rightarrow> cstring \<Rightarrow> 's \<Rightarrow> NodePrefs" where
  "load_fields N ble old_name s = \<lparr>
     np_node_name = (case load_string N ''name'' 32 s of Some v \<Rightarrow> v | None \<Rightarrow> old_name),
     np_freq = pf_getFloat N NVS_NS ''freq'' F_0 s,
     np_bw = pf_getFloat N NVS_NS ''bw'' F_0 s,
     np_sf = pf_getUChar N NVS_NS ''sf'' 0 s,
     np_cr = pf_getUChar N NVS_NS ''cr'' 0 s,
     np_tx_power_dbm = pf_getChar N NVS_NS ''txpwr'' 0 s,
     np_configured = pf_getBool N NVS_NS ''cfg'' False s,
     np_kbd_backlight = pf_getUChar N NVS_NS ''kbd_bl'' 127 s,
     np_kbd_layout = (let k = pf_getUChar N NVS_NS ''kbd_layout'' 0 s in if k \<ge> 12 then 0 else k),
     np_display_brightness = clamp_brightness (pf_getUChar N NVS_NS ''disp_bl'' 200 s),
     np_auto_off_timeout = pf_getUShort N NVS_NS ''auto_off'' 30 s,
     np_chat_msg_cap = pf_getUShort N NVS_NS ''chat_cap'' 200 s,
     np_flood_max_hops = pf_getUChar N NVS_NS ''flood_mh'' 0 s,
     np_advert_loc_policy = pf_getUChar N NVS_NS ''sh_loc'' 0 s,
     np_advert_location_valid = pf_getBool N NVS_NS ''adv_loc'' False s,
     np_advert_lat = pf_getInt N NVS_NS ''adv_lat'' 0 s,
     np_advert_lon = pf_getInt N NVS_NS ''adv_lon'' 0 s,
     np_rx_delay_base = pf_getFloat N NVS_NS ''rx_del'' F_10 s,
     np_tx_delay_factor = pf_getFloat N NVS_NS ''tx_del'' F_1 s,
     np_direct_tx_delay_factor = pf_getFloat N NVS_NS ''dir_tx'' F_1 s,
     np_airtime_factor = clamp_float
       (if pf_isKey N NVS_NS ''air_fact'' s then pf_getFloat N NVS_NS ''air_fact'' F_0 s
        else dutyCyclePercentToFactor (pf_getUChar N NVS_NS ''duty_cyc'' 0 s)) None F_0,
     np_rx_boosted_gain = pf_getBool N NVS_NS ''rx_boost'' False s,
     np_duty_cycle = pf_getUChar N NVS_NS ''duty_cyc'' 0 s,
     np_advert_interval_h = pf_getUShort N NVS_NS ''adv_dur'' 0 s,
     np_advert_type = pf_getUChar N NVS_NS ''adv_type'' 1 s,
     np_gps_enabled = pf_getBool N NVS_NS ''gps_en'' False s,
     np_gps_interval = (let i = pf_getULong N NVS_NS ''gps_int32'' (ucast (pf_getUShort N NVS_NS ''gps_int'' 5 s)) s
                        in if i > 86400 then 86400 else i),
     np_gps_track_enabled = pf_getBool N NVS_NS ''gps_trk_en'' False s,
     np_gps_track_interval = clamp_track_interval (pf_getULong N NVS_NS ''gps_trk_int'' 15 s),
     np_autoadd_config = pf_getUChar N NVS_NS ''autoadd_cfg'' 0x1E s,
     np_autoadd_max_hops = pf_getUChar N NVS_NS ''autoadd_mh'' 0 s,
     np_theme_id = pf_getUChar N NVS_NS ''theme'' 0 s,
     np_language = (let l = pf_getUChar N NVS_NS ''lang'' 0 s in if l \<ge> I18N_LANGUAGE_COUNT then 0 else l),
     np_path_hash_mode = normalizePathHashMode (pf_getUChar N NVS_NS ''phash_mode'' 0 s),
     np_multi_acks = pf_getUChar N NVS_NS ''multi_ack'' 0 s,
     np_buzzer_quiet = pf_getBool N NVS_NS ''buzz_q'' False s,
     np_client_repeat = pf_getUChar N NVS_NS ''clirep'' 0 s,
     np_ble_enabled = (if ble then bs_enabled (load_ble_state N ble s)
                       else pf_getBool N NVS_NS ''ble_en'' (DEFAULT_BLE_ENABLED ble) s),
     np_ble_user_set = (if ble then bs_user_set (load_ble_state N ble s) else pf_getBool N NVS_NS ''ble_user'' False s),
     np_device_pin = pf_getULong N NVS_NS ''dev_pin'' 0 s,
     np_ble_pin = pf_getULong N NVS_NS ''ble_pin'' 0 s,
     np_ble_bond_reset_pending = pf_getBool N NVS_NS ''ble_bond_rst'' False s,
     np_telemetry_modes = pf_getUChar N NVS_NS ''tele_mod'' 0 s,
     np_manual_add_contacts = pf_getUChar N NVS_NS ''man_add'' 0 s,
     np_default_scope_key_hex = (case load_string N ''scope_key'' 33 s of Some v \<Rightarrow> v | None \<Rightarrow> []),
     np_wifi_ssid = (case load_string N ''wifi_ssid'' 33 s of Some v \<Rightarrow> v | None \<Rightarrow> []),
     np_wifi_password = (case load_string N ''wifi_pw'' 64 s of Some v \<Rightarrow> v | None \<Rightarrow> []),
     np_active_region = (case load_string N ''act_reg'' 31 s of Some v \<Rightarrow> v | None \<Rightarrow> []),
     np_ota_branch = (case load_string N ''ota_br'' 16 s of Some v \<Rightarrow> v | None \<Rightarrow> bytes_of ''main''),
     np_ota_allow_prerelease = pf_getBool N NVS_NS ''ota_pre'' False s,
     np_radio_profile = (case load_string N ''rf_prof'' 16 s of Some v \<Rightarrow> v | None \<Rightarrow> []),
     np_transport_tcp_enabled = pf_getBool N NVS_NS ''tr_tcp'' False s,
     np_transport_ws_enabled = pf_getBool N NVS_NS ''tr_ws'' False s\<rparr>"

definition prefs_load :: "'s Nvs \<Rightarrow> bool \<Rightarrow> NodePrefs \<Rightarrow> 's \<Rightarrow> (bool \<times> NodePrefs) \<times> 's" where
  "prefs_load N ble p s =
     (let (ok, s1) = pf_begin N NVS_NS True s
      in if \<not> ok then ((False, p), s1)
         else let ble_state = load_ble_state N ble s1;
                  q = snd (normalizeAndValidate (load_fields N ble (np_node_name p) s1));
                  s2 = (if ble \<and> bs_needs_migration ble_state
                        then snd (persistBleMigration N (bs_enabled ble_state) (bs_user_set ble_state) s1) else s1)
              in ((True, q), s2))"

definition prefs_save :: "'s Nvs \<Rightarrow> bool \<Rightarrow> NodePrefs \<Rightarrow> 's \<Rightarrow> bool \<times> 's" where
  "prefs_save N ble p s =
     (let candidate = (if np_language p \<ge> I18N_LANGUAGE_COUNT then p\<lparr>np_language := 0\<rparr> else p);
          (ok1, s1) = writePrefsToNvs N candidate (if ble then BleWrite else BlePreserve) False s
      in if \<not> ok1 then (False, s1)
         else let (ok2, s2) = writeTransportPrefsToNvs N candidate s1
              in if \<not> ok2 then (False, s2) else persistLanguagePreference N (np_language candidate) s2)"

definition prefs_exists :: "'s Nvs \<Rightarrow> 's \<Rightarrow> bool \<times> 's" where
  "prefs_exists N s =
     (let (ok, s1) = pf_begin N NVS_NS True s in if \<not> ok then (False, s1) else (pf_isKey N NVS_NS ''cfg'' s1, s1))"

section \<open>The module\<close>

text \<open>\<open>g_prefs\<close> and the \<open>loaded\<close> flag of \<open>prefs_get\<close>.\<close>

record prefs_module =
  g_prefs :: NodePrefs
  pm_loaded :: bool

definition prefs_get :: "'s Nvs \<Rightarrow> bool \<Rightarrow> prefs_module \<Rightarrow> 's \<Rightarrow> prefs_module \<times> 's" where
  "prefs_get N ble g s =
     (if pm_loaded g then (g, s)
      else let ((_, q), s1) = prefs_load N ble (set_defaults (g_prefs g)) s in (\<lparr>g_prefs = q, pm_loaded = True\<rparr>, s1))"

definition prefs_set :: "'s Nvs \<Rightarrow> bool \<Rightarrow> NodePrefs \<Rightarrow> prefs_module \<Rightarrow> 's \<Rightarrow> bool \<times> prefs_module \<times> 's" where
  "prefs_set N ble p g s =
     (let c = snd (normalizeAndValidate p);
          candidate = (if np_language c \<ge> I18N_LANGUAGE_COUNT then c\<lparr>np_language := 0\<rparr> else c);
          (ok, s1) = prefs_save N ble candidate s
      in if ok then (True, g\<lparr>g_prefs := candidate\<rparr>, s1) else (False, g, s1))"

definition prefs_set_ble_enabled :: "'s Nvs \<Rightarrow> bool \<Rightarrow> bool \<Rightarrow> prefs_module \<Rightarrow> 's \<Rightarrow> bool \<times> prefs_module \<times> 's" where
  "prefs_set_ble_enabled N ble enabled g s =
     (if \<not> ble then (False, g, s)
      else let (g1, s1) = prefs_get N ble g s;
               candidate = (g_prefs g1)\<lparr>np_ble_enabled := enabled, np_ble_user_set := True\<rparr>;
               (ok, s2) = prefs_save N ble candidate s1
           in if ok then (True, g1\<lparr>g_prefs := candidate\<rparr>, s2) else (False, g1, s2))"

end
