(* ===== verification/PrefsProps.thy ===== *)
theory PrefsProps
  imports Prefs
begin

text \<open>
  What the settings keep: the checks are idempotent and leave only radio configurations within the
  limits, and what was set is what the next start reads.
\<close>

section \<open>The checks\<close>

definition clamped :: "NodePrefs \<Rightarrow> bool" where
  "clamped p \<longleftrightarrow> \<not> np_gps_interval p > 86400 \<and> clamp_track_interval (np_gps_track_interval p) = np_gps_track_interval p \<and>
     \<not> np_kbd_layout p \<ge> 12 \<and> clamp_brightness (np_display_brightness p) = np_display_brightness p \<and>
     normalizePathHashMode (np_path_hash_mode p) = np_path_hash_mode p \<and>
     clamp_float (np_rx_delay_base p) (Some F_20) F_10 = np_rx_delay_base p \<and>
     clamp_float (np_tx_delay_factor p) (Some F_2) F_1 = np_tx_delay_factor p \<and>
     clamp_float (np_direct_tx_delay_factor p) (Some F_2) F_1 = np_direct_tx_delay_factor p \<and>
     clamp_float (np_airtime_factor p) None F_0 = np_airtime_factor p"

lemma clamp_float_idem [simp]: "f32_isfinite d \<Longrightarrow> \<not> f32_less d F_0 \<Longrightarrow> (case hi of Some h \<Rightarrow> \<not> f32_less h d | None \<Rightarrow> True) \<Longrightarrow>
    clamp_float (clamp_float x hi d) hi d = clamp_float x hi d"
  by (auto simp: clamp_float_def split: option.splits)

lemma float_constants [simp]:
  "f32_isfinite F_0" "f32_isfinite F_1" "f32_isfinite F_10" "\<not> f32_less F_0 F_0" "\<not> f32_less F_1 F_0" "\<not> f32_less F_10 F_0"
  "\<not> f32_less F_2 F_1" "\<not> f32_less F_20 F_10"
  by (simp_all add: F_0_def F_1_def F_2_def F_10_def F_20_def f32_less_def f32_scaled_def f32_isfinite_def
    f32_exponent_def f32_fraction_def)

lemma clamp_track_interval_idem [simp]: "clamp_track_interval (clamp_track_interval t) = clamp_track_interval t"
  by (simp add: clamp_track_interval_def)

lemma clamp_brightness_idem [simp]: "clamp_brightness (clamp_brightness b) = clamp_brightness b"
  by (auto simp: clamp_brightness_def Let_def)

lemma normalizePathHashMode_idem [simp]: "normalizePathHashMode (normalizePathHashMode m) = normalizePathHashMode m"
  by (simp add: normalizePathHashMode_def)

lemma clamp_settings_fields [simp]: "clamped (clamp_settings p)"
  by (simp add: clamped_def clamp_settings_def)

lemma clamp_settings_id: "clamped p \<Longrightarrow> clamp_settings p = p"
  by (rule NodePrefs.equality) (simp_all add: clamped_def clamp_settings_def)

lemma clamped_disable [simp]: "clamped (disable_radio p) = clamped p" "clamped (p\<lparr>np_configured := c\<rparr>) = clamped p"
  by (simp_all add: clamped_def disable_radio_def)

definition radio_off :: "NodePrefs \<Rightarrow> bool" where
  "radio_off p \<longleftrightarrow> np_freq p = F_0 \<and> np_bw p = F_0 \<and> np_sf p = 0 \<and> np_cr p = 0 \<and> np_tx_power_dbm p = 0 \<and> np_radio_profile p = []"

definition checked :: "NodePrefs \<Rightarrow> bool" where
  "checked p \<longleftrightarrow> clamped p \<and> (if np_configured p then radio_valid p else radio_off p)"

lemma radio_off_disable [simp]: "radio_off (disable_radio p)"
  by (simp add: radio_off_def disable_radio_def)

lemma disable_radio_off: "radio_off p \<Longrightarrow> disable_radio p = p"
  by (rule NodePrefs.equality) (simp_all add: radio_off_def disable_radio_def)

lemma configured_disable [simp]: "np_configured (disable_radio p) = np_configured p"
  by (simp add: disable_radio_def)

lemma checked_normalize: "checked (snd (normalizeAndValidate p))"
  by (simp add: normalizeAndValidate_def checked_def Let_def)

lemma normalize_checked: "checked p \<Longrightarrow> normalizeAndValidate p = (True, p)"
  by (simp add: normalizeAndValidate_def checked_def Let_def clamp_settings_id disable_radio_off split: if_splits)

lemma checked_language [simp]: "checked (p\<lparr>np_language := l\<rparr>) = checked p"
  by (simp add: checked_def clamped_def radio_valid_def radio_off_def)

lemma checked_ble [simp]: "checked (p\<lparr>np_ble_enabled := a, np_ble_user_set := b\<rparr>) = checked p"
  by (simp add: checked_def clamped_def radio_valid_def radio_off_def)

lemma checked_tx_power: "checked p \<Longrightarrow> clamp_tx_power (np_tx_power_dbm p) = np_tx_power_dbm p"
  by (auto simp: checked_def radio_valid_def radio_off_def clamp_tx_power_def split: if_splits)

text \<open>What a checked configuration means for the radio.\<close>

definition radio_legal :: "NodePrefs \<Rightarrow> bool" where
  "radio_legal p \<longleftrightarrow>
     (if np_configured p
      then 150 \<le> f32_value (np_freq p) \<and> f32_value (np_freq p) \<le> 960 \<and>
           list_ex (\<lambda>b. \<bar>f32_value (np_bw p) - b\<bar> < 3 / 100) [7.8, 10.4, 15.6, 20.8, 31.25, 41.7, 62.5, 125, 250, 500] \<and>
           5 \<le> unat (np_sf p) \<and> unat (np_sf p) \<le> 12 \<and> 5 \<le> unat (np_cr p) \<and> unat (np_cr p) \<le> 8 \<and>
           - 9 \<le> sint (np_tx_power_dbm p) \<and> sint (np_tx_power_dbm p) \<le> 22
      else f32_value (np_freq p) = 0 \<and> f32_value (np_bw p) = 0 \<and> np_sf p = 0 \<and> np_cr p = 0 \<and> np_tx_power_dbm p = 0)"

lemmas f32_numeral = f32_value_def f32_scaled_def f32_exponent_def f32_fraction_def

lemma float_literals: "f32_value F_0 = 0" "f32_value F_150 = 150" "f32_value F_960 = 960" "f32_value F_0_02 < 201 / 10000"
  by (simp_all add: f32_numeral F_0_def F_150_def F_960_def F_0_02_def)

lemma bandwidth_literals:
  "list_all2 (\<lambda>w b. \<bar>f32_value w - b\<bar> < 1 / 10000) allowed_bandwidths [7.8, 10.4, 15.6, 20.8, 31.25, 41.7, 62.5, 125, 250, 500]"
  by (simp add: allowed_bandwidths_def f32_numeral)

lemma list_ex_all2: "list_ex P xs \<Longrightarrow> list_all2 R xs ys \<Longrightarrow> (\<And>x y. P x \<Longrightarrow> R x y \<Longrightarrow> Q y) \<Longrightarrow> list_ex Q ys"
  by (induction xs arbitrary: ys) (auto simp: list_all2_Cons1)

lemma bandwidth_legal:
  assumes "validRadioBandwidth bw"
  shows "list_ex (\<lambda>b. \<bar>f32_value bw - b\<bar> < 3 / 100) [7.8, 10.4, 15.6, 20.8, 31.25, 41.7, 62.5, 125, 250, 500]"
proof (rule list_ex_all2 [OF _ bandwidth_literals])
  show "list_ex (\<lambda>v. f32_near bw v F_0_02) allowed_bandwidths" using assms by (simp add: validRadioBandwidth_def)
  show "\<bar>f32_value bw - y\<bar> < 3 / 100" if "f32_near bw x F_0_02" "\<bar>f32_value x - y\<bar> < 1 / 10000" for x y
    using that float_literals(4) unfolding f32_near_value by linarith
qed

lemma checked_legal: "checked p \<Longrightarrow> radio_legal p"
proof -
  assume c: "checked p"
  show ?thesis
  proof (cases "np_configured p")
    case True
    then have v: "radio_valid p" using c by (simp add: checked_def)
    have "np_sf p \<ge> 5 \<Longrightarrow> 5 \<le> unat (np_sf p)" "np_sf p \<le> 12 \<Longrightarrow> unat (np_sf p) \<le> 12"
      "np_cr p \<ge> 5 \<Longrightarrow> 5 \<le> unat (np_cr p)" "np_cr p \<le> 8 \<Longrightarrow> unat (np_cr p) \<le> 8" by (simp_all add: word_le_nat_alt)
    then show ?thesis using True v bandwidth_legal
      by (simp add: radio_legal_def radio_valid_def f32_less_value float_literals not_less)
  next
    case False
    then show ?thesis using c by (simp add: checked_def radio_off_def radio_legal_def float_literals)
  qed
qed

section \<open>What is stored\<close>

definition saved_keys :: "NodePrefs \<Rightarrow> BlePrefsWriteMode \<Rightarrow> (nvs_key \<times> nvs_value) list" where
  "saved_keys p m = prefs_keys p m @
     [(''tr_tcp'', u8_flag (np_transport_tcp_enabled p)), (''tr_ws'', u8_flag (np_transport_ws_enabled p)), (''lang'', NvsU8 (np_language p))]"

lemma saved_keys_distinct: "distinct (map fst (saved_keys p m))"
  by (cases m) (simp_all add: saved_keys_def prefs_keys_def)

text \<open>
  A sequence of writes to one name space: if all report success the values are there; in any case every
  key has its old value or one that was written, and the other name spaces are as they were.
\<close>

definition updates :: "nvs_ns \<Rightarrow> (nvs_key \<times> nvs_value) list \<Rightarrow> nvs_contents \<Rightarrow> nvs_contents \<Rightarrow> bool \<Rightarrow> bool" where
  "updates ns kvs m m' ok \<longleftrightarrow> (\<forall>n. n \<noteq> ns \<longrightarrow> m' n = m n) \<and>
     (\<forall>k. m' ns k = m ns k \<or> (\<exists>v. (k, v) \<in> set kvs \<and> m' ns k = Some v)) \<and>
     (ok \<longrightarrow> m' ns = m ns ++ map_of (rev kvs))"

lemma updates_refl: "updates ns [] m m True"
  by (simp add: updates_def)

lemma updates_other: "updates ns kvs m m' ok \<Longrightarrow> n \<noteq> ns \<Longrightarrow> m' n = m n"
  by (simp add: updates_def)

lemma updates_value: "updates ns kvs m m' ok \<Longrightarrow> m' ns k = m ns k \<or> (\<exists>v. (k, v) \<in> set kvs \<and> m' ns k = Some v)"
  by (simp add: updates_def)

lemma updatesI:
  assumes "\<And>n. n \<noteq> ns \<Longrightarrow> m' n = m n" and "\<And>k. m' ns k = m ns k \<or> (\<exists>v. (k, v) \<in> set kvs \<and> m' ns k = Some v)"
    and "ok \<Longrightarrow> m' ns = m ns ++ map_of (rev kvs)"
  shows "updates ns kvs m m' ok"
  using assms by (simp add: updates_def)

lemma updates_fail:
  assumes "updates ns kvs m m' ok"
  shows "updates ns (kvs @ kvs') m m' False"
proof (rule updatesI)
  show "m' n = m n" if "n \<noteq> ns" for n using updates_other [OF assms that] .
  show "m' ns k = m ns k \<or> (\<exists>v. (k, v) \<in> set (kvs @ kvs') \<and> m' ns k = Some v)" for k
    using updates_value [OF assms, of k] by auto
qed simp

lemma updates_seq:
  assumes "updates ns kvs m m1 True" and "updates ns kvs' m1 m' ok"
  shows "updates ns (kvs @ kvs') m m' ok"
proof (rule updatesI)
  show "m' n = m n" if "n \<noteq> ns" for n using that assms updates_other by metis
  show "m' ns k = m ns k \<or> (\<exists>v. (k, v) \<in> set (kvs @ kvs') \<and> m' ns k = Some v)" for k
    using updates_value [OF assms(1), of k] updates_value [OF assms(2), of k] by auto
  show "m' ns = m ns ++ map_of (rev (kvs @ kvs'))" if ok using that assms by (simp add: updates_def)
qed

lemma writes_updates:
  assumes "writes m m' ns k (Some v) ok"
  shows "updates ns [(k, v)] m m' ok"
proof (cases "m' = with_entry m ns k (Some v)")
  case True
  then show ?thesis by (auto simp: updates_def with_entry_def map_add_def)
next
  case False
  then show ?thesis using assms by (simp add: writes_def updates_def)
qed

lemma updates_Cons: "writes m m1 ns k (Some v) True \<Longrightarrow> updates ns kvs m1 m' ok \<Longrightarrow> updates ns ((k, v) # kvs) m m' ok"
  using updates_seq [OF writes_updates] by fastforce

lemma updates_Cons_fail: "writes m m' ns k (Some v) ok \<Longrightarrow> updates ns ((k, v) # kvs) m m' False"
  using updates_fail [OF writes_updates] by fastforce

context nvs_store
begin

lemma write_pref_keys_updates:
  "updates NVS_NS kvs (ent s) (ent (snd (write_pref_keys (nvs_writer N) kvs s))) (fst (write_pref_keys (nvs_writer N) kvs s) = None)"
proof (induction kvs arbitrary: s)
  case Nil
  then show ?case using updates_refl by (simp add: nvs_writer_def Let_def split_beta updates_def)
next
  case (Cons kv kvs)
  obtain k v where kv: "kv = (k, v)" by (cases kv)
  note w = set_law [of s NVS_NS k v]
  show ?case
  proof (cases "fst (nvs_set N NVS_NS k v s) = ESP_OK")
    case True
    then show ?thesis using updates_Cons [OF _ Cons.IH] w
      by (simp add: kv nvs_writer_def Let_def split_beta ESP_OK_def)
  next
    case False
    then show ?thesis using updates_Cons_fail [OF w, of kvs] by (simp add: kv nvs_writer_def Let_def split_beta ESP_OK_def)
  qed
qed

text \<open>\<open>run_checked\<close> over an open, writes and a commit.\<close>

lemma run_sets_updates:
  "updates ns kvs (ent s) (ent (snd (run_checked (map (\<lambda>(k, v). nvs_set N ns k v) kvs @ [nvs_commit N ns]) s)))
     (fst (run_checked (map (\<lambda>(k, v). nvs_set N ns k v) kvs @ [nvs_commit N ns]) s) = ESP_OK)"
proof (induction kvs arbitrary: s)
  case Nil
  then show ?case by (simp add: Let_def split_beta updates_def)
next
  case (Cons kv kvs)
  obtain k v where kv: "kv = (k, v)" by (cases kv)
  note w = set_law [of s ns k v]
  show ?case
  proof (cases "fst (nvs_set N ns k v s) = ESP_OK")
    case True
    then show ?thesis using updates_Cons [OF _ Cons.IH] w by (simp add: kv Let_def split_beta)
  next
    case False
    then show ?thesis using updates_Cons_fail [OF w, of kvs] by (simp add: kv Let_def split_beta)
  qed
qed

lemma run_open_updates:
  "updates ns kvs (ent s) (ent (snd (run_checked (nvs_open N ns True # map (\<lambda>(k, v). nvs_set N ns k v) kvs @ [nvs_commit N ns]) s)))
     (fst (run_checked (nvs_open N ns True # map (\<lambda>(k, v). nvs_set N ns k v) kvs @ [nvs_commit N ns]) s) = ESP_OK)"
proof (cases "fst (nvs_open N ns True s) = ESP_OK")
  case True
  then show ?thesis using run_sets_updates [of ns kvs "snd (nvs_open N ns True s)"] by (simp add: Let_def split_beta)
next
  case False
  then show ?thesis by (simp add: Let_def split_beta updates_def)
qed


lemma writePrefs_updates:
  "updates NVS_NS (prefs_keys p m) (ent s) (ent (snd (writePrefsToNvs N p m False s))) (fst (writePrefsToNvs N p m False s))"
proof (cases "fst (nvs_open N NVS_NS True s) = ESP_OK")
  case True
  then show ?thesis using write_pref_keys_updates [of "prefs_keys p m" "snd (nvs_open N NVS_NS True s)"]
    by (simp add: writePrefsToNvs_def prefsWriteAll_def Let_def split_beta nvs_writer_def)
next
  case False
  then show ?thesis by (simp add: writePrefsToNvs_def Let_def split_beta updates_def)
qed

lemma transport_updates:
  "updates NVS_NS [(''tr_tcp'', u8_flag (np_transport_tcp_enabled p)), (''tr_ws'', u8_flag (np_transport_ws_enabled p))]
     (ent s) (ent (snd (writeTransportPrefsToNvs N p s))) (fst (writeTransportPrefsToNvs N p s))"
  using run_open_updates [of NVS_NS "[(''tr_tcp'', u8_flag (np_transport_tcp_enabled p)), (''tr_ws'', u8_flag (np_transport_ws_enabled p))]" s]
  by (simp add: writeTransportPrefsToNvs_def split_beta Let_def)

lemma language_updates:
  "updates NVS_NS [(''lang'', NvsU8 l)] (ent s) (ent (snd (persistLanguagePreference N l s))) (fst (persistLanguagePreference N l s))"
proof (cases "fst (pf_begin N NVS_NS False s)")
  case True
  then show ?thesis
    using writes_updates [OF putUChar_law [of "snd (pf_begin N NVS_NS False s)" NVS_NS "''lang''" l]]
    by (simp add: persistLanguagePreference_def split_beta Let_def)
next
  case False
  then show ?thesis by (simp add: persistLanguagePreference_def split_beta Let_def updates_def)
qed

lemma save_updates:
  assumes "np_language p < I18N_LANGUAGE_COUNT"
  shows "updates NVS_NS (saved_keys p (if ble then BleWrite else BlePreserve)) (ent s) (ent (snd (prefs_save N ble p s))) (fst (prefs_save N ble p s))"
proof -
  define m where "m = (if ble then BleWrite else BlePreserve)"
  define s1 where "s1 = snd (writePrefsToNvs N p m False s)"
  define s2 where "s2 = snd (writeTransportPrefsToNvs N p s1)"
  let ?tr = "[(''tr_tcp'', u8_flag (np_transport_tcp_enabled p)), (''tr_ws'', u8_flag (np_transport_ws_enabled p))]"
  note u1 = writePrefs_updates [of p m s, folded s1_def]
  note u2 = transport_updates [of p s1, folded s2_def]
  note u3 = language_updates [of "np_language p" s2]
  have keys: "saved_keys p m = prefs_keys p m @ ?tr @ [(''lang'', NvsU8 (np_language p))]" by (simp add: saved_keys_def)
  have save: "prefs_save N ble p s = (if \<not> fst (writePrefsToNvs N p m False s) then (False, s1)
      else if \<not> fst (writeTransportPrefsToNvs N p s1) then (False, s2) else persistLanguagePreference N (np_language p) s2)"
    using assms by (simp add: not_le [symmetric] prefs_save_def split_beta Let_def s1_def s2_def m_def)
  consider "\<not> fst (writePrefsToNvs N p m False s)"
    | "fst (writePrefsToNvs N p m False s)" "\<not> fst (writeTransportPrefsToNvs N p s1)"
    | "fst (writePrefsToNvs N p m False s)" "fst (writeTransportPrefsToNvs N p s1)" by blast
  then have "updates NVS_NS (prefs_keys p m @ ?tr @ [(''lang'', NvsU8 (np_language p))]) (ent s) (ent (snd (prefs_save N ble p s))) (fst (prefs_save N ble p s))"
  proof cases
    case 1
    then show ?thesis unfolding save using updates_fail [OF u1] by simp
  next
    case 2
    then show ?thesis unfolding save using updates_seq [OF _ updates_fail [OF u2]] u1 by simp
  next
    case 3
    then have "updates NVS_NS (prefs_keys p m) (ent s) (ent s1) True" "updates NVS_NS ?tr (ent s1) (ent s2) True" using u1 u2 by simp_all
    from updates_seq [OF this(1) updates_seq [OF this(2) u3]] show ?thesis unfolding save using 3 by simp
  qed
  then show ?thesis unfolding m_def [symmetric] keys .
qed


end

section \<open>What is read back\<close>

text \<open>Strings that fit their arrays.\<close>

definition fits :: "nat \<Rightarrow> cstring \<Rightarrow> bool" where
  "fits cap v \<longleftrightarrow> length v < cap \<and> 0 \<notin> set v"

definition prefs_wf :: "NodePrefs \<Rightarrow> bool" where
  "prefs_wf p \<longleftrightarrow> fits 32 (np_node_name p) \<and> fits 33 (np_default_scope_key_hex p) \<and> fits 33 (np_wifi_ssid p) \<and>
     fits 64 (np_wifi_password p) \<and> fits 31 (np_active_region p) \<and> fits 16 (np_ota_branch p) \<and> fits 16 (np_radio_profile p)"

lemma prefs_wf_normalize: "prefs_wf p \<Longrightarrow> prefs_wf (snd (normalizeAndValidate p))"
  by (simp add: prefs_wf_def normalizeAndValidate_def Let_def clamp_settings_def disable_radio_def fits_def)

lemma flag_byte_eq [simp]: "flag_byte b = 1 \<longleftrightarrow> b"
  by (simp add: flag_byte_def)

definition saved_map :: "NodePrefs \<Rightarrow> BlePrefsWriteMode \<Rightarrow> nvs_key \<Rightarrow> nvs_value option" where
  "saved_map c md = map_of (saved_keys c md)"

lemma saved_map_rev: "map_of (rev (saved_keys c md)) = saved_map c md"
  unfolding saved_map_def by (subst map_of_inject_set) (simp_all add: saved_keys_distinct rev_map [symmetric])

lemma saved_entries: "list_all (\<lambda>(k, v). saved_map c md k = Some v) (saved_keys c md)"
  using saved_keys_distinct by (auto simp: list_all_iff saved_map_def)

lemma saved_lookup:
  "saved_map c md ''name'' = Some (NvsStr (np_node_name c))"
  "saved_map c md ''freq'' = Some (NvsBlob (put_u32 (np_freq c)))"
  "saved_map c md ''bw'' = Some (NvsBlob (put_u32 (np_bw c)))"
  "saved_map c md ''sf'' = Some (NvsU8 (np_sf c))"
  "saved_map c md ''cr'' = Some (NvsU8 (np_cr c))"
  "saved_map c md ''txpwr'' = Some (NvsI8 (clamp_tx_power (np_tx_power_dbm c)))"
  "saved_map c md ''cfg'' = Some (u8_flag (np_configured c))"
  "saved_map c md ''kbd_bl'' = Some (NvsU8 (np_kbd_backlight c))"
  "saved_map c md ''kbd_layout'' = Some (NvsU8 (np_kbd_layout c))"
  "saved_map c md ''disp_bl'' = Some (NvsU8 (np_display_brightness c))"
  "saved_map c md ''auto_off'' = Some (NvsU16 (np_auto_off_timeout c))"
  "saved_map c md ''chat_cap'' = Some (NvsU16 (np_chat_msg_cap c))"
  "saved_map c md ''flood_mh'' = Some (NvsU8 (np_flood_max_hops c))"
  "saved_map c md ''sh_loc'' = Some (NvsU8 (np_advert_loc_policy c))"
  "saved_map c md ''adv_loc'' = Some (u8_flag (np_advert_location_valid c))"
  "saved_map c md ''adv_lat'' = Some (NvsI32 (np_advert_lat c))"
  "saved_map c md ''adv_lon'' = Some (NvsI32 (np_advert_lon c))"
  "saved_map c md ''rx_del'' = Some (NvsBlob (put_u32 (np_rx_delay_base c)))"
  "saved_map c md ''tx_del'' = Some (NvsBlob (put_u32 (np_tx_delay_factor c)))"
  "saved_map c md ''dir_tx'' = Some (NvsBlob (put_u32 (np_direct_tx_delay_factor c)))"
  "saved_map c md ''air_fact'' = Some (NvsBlob (put_u32 (np_airtime_factor c)))"
  "saved_map c md ''rx_boost'' = Some (u8_flag (np_rx_boosted_gain c))"
  "saved_map c md ''duty_cyc'' = Some (NvsU8 (np_duty_cycle c))"
  "saved_map c md ''adv_dur'' = Some (NvsU16 (np_advert_interval_h c))"
  "saved_map c md ''adv_type'' = Some (NvsU8 (np_advert_type c))"
  "saved_map c md ''theme'' = Some (NvsU8 (np_theme_id c))"
  "saved_map c md ''phash_mode'' = Some (NvsU8 (np_path_hash_mode c))"
  "saved_map c md ''multi_ack'' = Some (NvsU8 (np_multi_acks c))"
  "saved_map c md ''buzz_q'' = Some (u8_flag (np_buzzer_quiet c))"
  "saved_map c md ''gps_en'' = Some (u8_flag (np_gps_enabled c))"
  "saved_map c md ''gps_int32'' = Some (NvsU32 (np_gps_interval c))"
  "saved_map c md ''gps_trk_en'' = Some (u8_flag (np_gps_track_enabled c))"
  "saved_map c md ''gps_trk_int'' = Some (NvsU32 (np_gps_track_interval c))"
  "saved_map c md ''autoadd_cfg'' = Some (NvsU8 (np_autoadd_config c))"
  "saved_map c md ''autoadd_mh'' = Some (NvsU8 (np_autoadd_max_hops c))"
  "saved_map c md ''clirep'' = Some (NvsU8 (np_client_repeat c))"
  "saved_map c md ''dev_pin'' = Some (NvsU32 (np_device_pin c))"
  "saved_map c md ''ble_pin'' = Some (NvsU32 (np_ble_pin c))"
  "saved_map c md ''ble_bond_rst'' = Some (u8_flag (np_ble_bond_reset_pending c))"
  "saved_map c md ''tele_mod'' = Some (NvsU8 (np_telemetry_modes c))"
  "saved_map c md ''man_add'' = Some (NvsU8 (np_manual_add_contacts c))"
  "saved_map c md ''scope_key'' = Some (NvsStr (np_default_scope_key_hex c))"
  "saved_map c md ''wifi_ssid'' = Some (NvsStr (np_wifi_ssid c))"
  "saved_map c md ''wifi_pw'' = Some (NvsStr (np_wifi_password c))"
  "saved_map c md ''act_reg'' = Some (NvsStr (np_active_region c))"
  "saved_map c md ''ota_br'' = Some (NvsStr (np_ota_branch c))"
  "saved_map c md ''ota_pre'' = Some (u8_flag (np_ota_allow_prerelease c))"
  "saved_map c md ''rf_prof'' = Some (NvsStr (np_radio_profile c))"
  "saved_map c md ''tr_tcp'' = Some (u8_flag (np_transport_tcp_enabled c))"
  "saved_map c md ''tr_ws'' = Some (u8_flag (np_transport_ws_enabled c))"
  "saved_map c md ''lang'' = Some (NvsU8 (np_language c))"
  using saved_entries [of c md] by (simp_all add: saved_keys_def prefs_keys_def)

lemma saved_ble:
  "saved_map c BleWrite ''ble_en'' = Some (u8_flag (np_ble_enabled c))"
  "saved_map c BleWrite ''ble_user'' = Some (u8_flag (np_ble_user_set c))"
  "saved_map c BleWrite ''ble_ver'' = Some (NvsU8 BLE_PREFS_SCHEMA_VERSION)"
  "saved_map c BlePreserve ''ble_en'' = None"
  "saved_map c BlePreserve ''ble_user'' = None"
  by (simp_all add: saved_map_def saved_keys_def prefs_keys_def)

context nvs_store
begin

lemma load_string_stored: "ent s NVS_NS k = Some (NvsStr v) \<Longrightarrow> fits cap v \<Longrightarrow> load_string N k cap s = Some v"
  by (auto simp: load_string_def getString_law fits_def cstr_terminated)

lemma getFloat_stored: "ent s NVS_NS k = Some (NvsBlob (put_u32 w)) \<Longrightarrow> pf_getFloat N NVS_NS k d s = w"
  using get_u32_put_u32_0 [of w "[]"] by (simp add: getFloat_law)

lemma load_saved:
  assumes e: "ent s NVS_NS = m ++ saved_map c (if ble then BleWrite else BlePreserve)"
    and c: "checked c" "prefs_wf c" "np_language c < I18N_LANGUAGE_COUNT"
  shows "load_fields N ble old s = (if ble then c else
    c\<lparr>np_ble_enabled := (case m ''ble_en'' of Some (NvsU8 b) \<Rightarrow> b = 1 | _ \<Rightarrow> False),
      np_ble_user_set := (case m ''ble_user'' of Some (NvsU8 b) \<Rightarrow> b = 1 | _ \<Rightarrow> False)\<rparr>)"
    and "ble \<Longrightarrow> \<not> bs_needs_migration (load_ble_state N ble s)"
proof -
  define md where "md = (if ble then BleWrite else BlePreserve)"
  have look: "ent s NVS_NS k = Some v" if "saved_map c md k = Some v" for k v
    using that by (simp add: e md_def [symmetric])
  note entry = saved_lookup [THEN look]
  have lang: "\<not> I18N_LANGUAGE_COUNT \<le> np_language c" using c(3) by (simp add: not_le)
  have ble: "load_ble_state N True s = \<lparr>bs_enabled = np_ble_enabled c, bs_user_set = np_ble_user_set c, bs_needs_migration = False\<rparr>" if ble
    using that by (simp add: load_ble_state_def resolveBlePrefs_def Let_def get_laws e saved_ble BLE_PREFS_SCHEMA_VERSION_def)
  then show "ble \<Longrightarrow> \<not> bs_needs_migration (load_ble_state N ble s)" by (cases ble) simp_all
  have noble: "ent s NVS_NS ''ble_en'' = m ''ble_en''" "ent s NVS_NS ''ble_user'' = m ''ble_user''" if "\<not> ble"
    using that by (simp_all add: e saved_ble map_add_def)
  note wf = c(2) [unfolded prefs_wf_def]
  show "load_fields N ble old s = (if ble then c else
    c\<lparr>np_ble_enabled := (case m ''ble_en'' of Some (NvsU8 b) \<Rightarrow> b = 1 | _ \<Rightarrow> False),
      np_ble_user_set := (case m ''ble_user'' of Some (NvsU8 b) \<Rightarrow> b = 1 | _ \<Rightarrow> False)\<rparr>)"
    using wf c(1) [unfolded checked_def clamped_def] checked_tx_power [OF c(1)]
    by (intro NodePrefs.equality; cases ble)
      (simp_all add: load_fields_def entry getFloat_stored load_string_stored isKey_law getUChar_law getChar_law getUShort_law getInt_law
        getULong_law getBool_law ble noble lang Let_def DEFAULT_BLE_ENABLED_def)
qed


text \<open>The settings of the build without BLE leave the two BLE switches in the store as they are.\<close>

definition as_loaded :: "bool \<Rightarrow> 's \<Rightarrow> NodePrefs \<Rightarrow> NodePrefs" where
  "as_loaded ble s c = (if ble then c else
     c\<lparr>np_ble_enabled := pf_getBool N NVS_NS ''ble_en'' False s, np_ble_user_set := pf_getBool N NVS_NS ''ble_user'' False s\<rparr>)"

lemma checked_as_loaded: "checked c \<Longrightarrow> checked (as_loaded ble s c)"
  by (simp add: as_loaded_def)

lemma load_after_save:
  assumes c: "checked c" "prefs_wf c" "np_language c < I18N_LANGUAGE_COUNT" and ok: "prefs_save N ble c s = (True, s')"
  shows "fst (prefs_load N ble q s') = (True, as_loaded ble s c)" and "ent (snd (prefs_load N ble q s')) = ent s'"
proof -
  define md where "md = (if ble then BleWrite else BlePreserve)"
  have "updates NVS_NS (saved_keys c md) (ent s) (ent s') True" using save_updates [OF c(3), of ble s] ok by (simp add: md_def)
  then have e: "ent s' NVS_NS = ent s NVS_NS ++ saved_map c md"
    by (simp add: updates_def saved_map_rev)
  define s1 where "s1 = snd (pf_begin N NVS_NS True s')"
  have "ent s' NVS_NS ''name'' \<noteq> None" by (simp add: e saved_lookup)
  then have "ent s' NVS_NS \<noteq> Map.empty" by metis
  then have b: "pf_begin N NVS_NS True s' = (True, s1)" using begin_existing by (simp add: s1_def prod_eq_iff)
  have e1: "ent s1 NVS_NS = ent s NVS_NS ++ saved_map c md" by (simp add: s1_def e)
  note l = load_saved [OF e1 [unfolded md_def] c]
  have f: "load_fields N ble (np_node_name q) s1 = as_loaded ble s c"
    by (simp add: l(1) as_loaded_def getBool_law)
  show "fst (prefs_load N ble q s') = (True, as_loaded ble s c)"
    by (simp add: prefs_load_def b f normalize_checked [OF checked_as_loaded [OF c(1)]] Let_def)
  have "\<not> (ble \<and> bs_needs_migration (load_ble_state N ble s1))" using l(2) by blast
  then have "snd (prefs_load N ble q s') = s1" by (cases ble) (simp_all add: prefs_load_def b Let_def)
  then show "ent (snd (prefs_load N ble q s')) = ent s'" by (simp add: s1_def)
qed

end

text \<open>The settings a call of \<open>prefs_set\<close> stands for.\<close>

definition effective :: "NodePrefs \<Rightarrow> NodePrefs" where
  "effective p = (let c = snd (normalizeAndValidate p) in if np_language c \<ge> I18N_LANGUAGE_COUNT then c\<lparr>np_language := 0\<rparr> else c)"

lemma prefs_set_eq: "prefs_set N ble p g s =
    (if fst (prefs_save N ble (effective p) s) then (True, g\<lparr>g_prefs := effective p\<rparr>, snd (prefs_save N ble (effective p) s))
     else (False, g, snd (prefs_save N ble (effective p) s)))"
  by (simp add: prefs_set_def effective_def Let_def split_beta)

lemma effective_checked: "checked (effective p)"
  by (simp add: effective_def Let_def checked_normalize)

lemma effective_language: "np_language (effective p) < I18N_LANGUAGE_COUNT"
  by (simp add: effective_def Let_def I18N_LANGUAGE_COUNT_def not_le)

lemma effective_wf: "prefs_wf p \<Longrightarrow> prefs_wf (effective p)"
  using prefs_wf_normalize [of p] by (simp add: effective_def Let_def prefs_wf_def)

section \<open>Properties\<close>

text \<open>
  C8: settings survive a restart. For every store that keeps its contract, and settings whose strings fit: after
  a call that reports success the settings in memory are the requested ones with the
  out-of-range values replaced, and the next start reads exactly these, in every field, and leaves
  the store as it is; the build without BLE keeps the two BLE switches that were stored before. After
  a call that reports a failure the settings in memory are unchanged, and in the store each key has its
  old value or the new one.
\<close>

theorem settings_survive_restart:
  assumes N: "nvs_store N ent" and p: "prefs_wf p" and set: "prefs_set N ble p g s = (ok, g', s')"
  shows "if ok
    then g_prefs g' = effective p \<and>
         fst (prefs_get N ble \<lparr>g_prefs = q, pm_loaded = False\<rparr> s') =
           \<lparr>g_prefs = (if ble then effective p else (effective p)\<lparr>np_ble_enabled := pf_getBool N NVS_NS ''ble_en'' False s,
              np_ble_user_set := pf_getBool N NVS_NS ''ble_user'' False s\<rparr>), pm_loaded = True\<rparr> \<and>
         ent (snd (prefs_get N ble \<lparr>g_prefs = q, pm_loaded = False\<rparr> s')) = ent s'
    else g' = g \<and> (\<forall>k. ent s' NVS_NS k = ent s NVS_NS k \<or>
         (\<exists>v. (k, v) \<in> set (saved_keys (effective p) (if ble then BleWrite else BlePreserve)) \<and> ent s' NVS_NS k = Some v))"
proof -
  note c = effective_checked [of p] effective_wf [OF p] effective_language [of p]
  obtain ok' s1 where save: "prefs_save N ble (effective p) s = (ok', s1)" by fastforce
  have set': "prefs_set N ble p g s = (if ok' then (True, g\<lparr>g_prefs := effective p\<rparr>, s1) else (False, g, s1))"
    using save by (simp add: prefs_set_eq)
  show ?thesis
  proof (cases ok')
    case True
    then have "prefs_save N ble (effective p) s = (True, s1)" using save by simp
    note l = nvs_store.load_after_save [OF N c this, where q = "set_defaults q"]
    show ?thesis using set set' True l unfolding nvs_store.as_loaded_def [OF N]
      by (auto simp: prefs_get_def Let_def split_beta)
  next
    case False
    then show ?thesis using set set' save nvs_store.save_updates [OF N c(3), of ble s] updates_value by (auto simp: Let_def)
  qed
qed


definition sample_prefs :: NodePrefs where
  "sample_prefs = default_prefs\<lparr>np_node_name := bytes_of ''Base'', np_freq := 0x44596bf1, np_bw := 0x427a0000, np_sf := 8, np_cr := 5,
     np_tx_power_dbm := 22, np_configured := True, np_display_brightness := 255, np_language := 200, np_device_pin := 4711\<rparr>"

definition blank_flash :: nvs_flash where
  "blank_flash = \<lparr>fl_entries = (\<lambda>_. Map.empty), fl_outcomes = []\<rparr>"

text \<open>A flash on which nothing fails.\<close>

lemma flash_put_ok:
  "fl_outcomes s = [] \<Longrightarrow> fst (fl_put ns k v s) \<and> fl_outcomes (snd (fl_put ns k v s)) = []"
  by (simp add: fl_put_def fl_write_def)

lemma flash_keys_ok:
  "fl_outcomes s = [] \<Longrightarrow> fst (write_pref_keys (nvs_writer flash_nvs) kvs s) = None \<and> fl_outcomes (snd (write_pref_keys (nvs_writer flash_nvs) kvs s)) = []"
proof (induction kvs arbitrary: s)
  case (Cons kv kvs)
  then show ?case using flash_put_ok [OF Cons.prems]
    by (cases kv) (simp add: nvs_writer_def flash_nvs_def fl_err_def Let_def ESP_OK_def)
qed (simp add: nvs_writer_def flash_nvs_def ESP_OK_def)

lemma flash_save_ok: "fl_outcomes s = [] \<Longrightarrow> fst (prefs_save flash_nvs ble p s)"
proof -
  assume s: "fl_outcomes s = []"
  have 1: "fst (writePrefsToNvs flash_nvs c m False s) \<and> fl_outcomes (snd (writePrefsToNvs flash_nvs c m False s)) = []" for c m
    using flash_keys_ok [OF s] by (simp add: writePrefsToNvs_def prefsWriteAll_def nvs_writer_def flash_nvs_def split_beta Let_def)
  have 2: "fst (writeTransportPrefsToNvs flash_nvs c t) \<and> fl_outcomes (snd (writeTransportPrefsToNvs flash_nvs c t)) = []"
    if "fl_outcomes t = []" for c t
    using that flash_put_ok by (simp add: writeTransportPrefsToNvs_def flash_nvs_def fl_err_def split_beta Let_def)
  have 3: "fst (persistLanguagePreference flash_nvs l t)" if "fl_outcomes t = []" for l t
    using that flash_put_ok by (simp add: persistLanguagePreference_def flash_nvs_def fl_count_def split_beta Let_def)
  show ?thesis using 1 2 3 by (simp add: prefs_save_def split_beta Let_def)
qed

lemma sample_effective: "effective sample_prefs = sample_prefs\<lparr>np_display_brightness := 240, np_language := 0\<rparr>"
proof -
  have "radio_valid (clamp_settings sample_prefs)"
    by (simp add: radio_valid_def clamp_settings_def sample_prefs_def validRadioBandwidth_def allowed_bandwidths_def f32_near_def f32_less_def
      f32_isfinite_def f32_scaled_def f32_exponent_def f32_fraction_def F_150_def F_960_def F_0_02_def)
  moreover have "clamp_settings sample_prefs = sample_prefs\<lparr>np_display_brightness := 240\<rparr>"
    by (rule NodePrefs.equality)
      (simp_all add: clamp_settings_def sample_prefs_def default_prefs_def clamp_track_interval_def clamp_brightness_def normalizePathHashMode_def
        clamp_float_def)
  moreover have "np_configured sample_prefs" by (simp add: sample_prefs_def)
  ultimately show ?thesis
    by (simp add: effective_def normalizeAndValidate_def Let_def I18N_LANGUAGE_COUNT_def) (simp add: sample_prefs_def)
qed

theorem settings_survive_restart_witness:
  "\<exists>s'. prefs_set flash_nvs True sample_prefs \<lparr>g_prefs = default_prefs, pm_loaded = True\<rparr> blank_flash =
     (True, \<lparr>g_prefs = sample_prefs\<lparr>np_display_brightness := 240, np_language := 0\<rparr>, pm_loaded = True\<rparr>, s') \<and>
   g_prefs (fst (prefs_get flash_nvs True \<lparr>g_prefs = default_prefs, pm_loaded = False\<rparr> s')) =
     sample_prefs\<lparr>np_display_brightness := 240, np_language := 0\<rparr>"
proof -
  let ?g = "\<lparr>g_prefs = default_prefs, pm_loaded = True\<rparr>"
  obtain ok g' s' where set: "prefs_set flash_nvs True sample_prefs ?g blank_flash = (ok, g', s')" by (metis prod_cases3)
  have wf: "prefs_wf sample_prefs" by (simp add: prefs_wf_def fits_def sample_prefs_def default_prefs_def bytes_of_def)
  have "fst (prefs_save flash_nvs True (effective sample_prefs) blank_flash)"
    by (rule flash_save_ok) (simp add: blank_flash_def)
  then have ok: "ok" "g' = \<lparr>g_prefs = effective sample_prefs, pm_loaded = True\<rparr>"
    using set by (auto simp: prefs_set_eq)
  note r = settings_survive_restart [OF esp.nvs_store_axioms wf set, where q = default_prefs]
  show ?thesis using r set ok unfolding sample_effective by (intro exI [of _ s']) simp
qed

end
