(* ===== verification/PrefStores.thy ===== *)
theory PrefStores
  imports PrefsProps
begin

text \<open>
  The two small stores beside the settings (\<open>hal/prefs.cpp\<close>): saved repeater passwords, as numbered pairs of
  strings with a count, and the named routing scopes of conversations, as 32 numbered blobs; and the
  operation that clears saved credentials.
\<close>

section \<open>Repeater passwords\<close>

definition PW_NS :: nvs_ns where "PW_NS = ''sigurdos_pw''"
definition MAX_SAVED_PWS :: nat where "MAX_SAVED_PWS = 8"

definition clampPasswordStoreCount :: "byte \<Rightarrow> nat" where
  "clampPasswordStoreCount count = (if unat count > MAX_SAVED_PWS then MAX_SAVED_PWS else unat count)"

definition digit_char :: "nat \<Rightarrow> char" where
  "digit_char n = char_of (48 + n)"

text \<open>The key arrays have ten bytes.\<close>

definition makePasswordStoreKey :: "string \<Rightarrow> nat \<Rightarrow> nvs_key" where
  "makePasswordStoreKey pre slot =
     (if slot \<ge> MAX_SAVED_PWS then [] else if length pre + 2 > 10 then [] else pre @ [digit_char slot])"

abbreviation "name_key \<equiv> makePasswordStoreKey ''name''"
abbreviation "pw_key \<equiv> makePasswordStoreKey ''pw''"

text \<open>\<open>getString\<close> into an array of zeros: the result and the string in the array.\<close>

definition read_pw_string :: "'s Nvs \<Rightarrow> nvs_key \<Rightarrow> nat \<Rightarrow> 's \<Rightarrow> nat \<times> cstring" where
  "read_pw_string N k cap s = (let (len, d) = pf_getString N PW_NS k cap s in (len, cstr d))"

definition slot_named :: "'s Nvs \<Rightarrow> cstring \<Rightarrow> 's \<Rightarrow> nat \<Rightarrow> bool" where
  "slot_named N name s i = (let (len, existing) = read_pw_string N (name_key i) 32 s in len > 0 \<and> existing = name)"

definition password_count :: "'s Nvs \<Rightarrow> 's \<Rightarrow> nat" where
  "password_count N s = clampPasswordStoreCount (pf_getUChar N PW_NS ''count'' 0 s)"

definition find_password :: "'s Nvs \<Rightarrow> cstring \<Rightarrow> 's \<Rightarrow> nat option" where
  "find_password N name s = find (slot_named N name s) [0..<password_count N s]"

text \<open>The three writes, each of which has to report the length it was given.\<close>

definition store_password :: "'s Nvs \<Rightarrow> nat \<Rightarrow> cstring \<Rightarrow> cstring \<Rightarrow> byte \<Rightarrow> 's \<Rightarrow> bool \<times> 's" where
  "store_password N slot name password count s =
     (let (n1, s1) = pf_putString N PW_NS (name_key slot) name s
      in if n1 \<noteq> length name then (False, s1)
         else let (n2, s2) = pf_putString N PW_NS (pw_key slot) password s1
              in if n2 \<noteq> length password then (False, s2)
                 else let (n3, s3) = pf_putUChar N PW_NS ''count'' count s2 in (n3 = 1, s3))"

definition saveRepeaterPassword :: "'s Nvs \<Rightarrow> cstring option \<Rightarrow> cstring option \<Rightarrow> 's \<Rightarrow> bool \<times> 's" where
  "saveRepeaterPassword N name_ptr password_ptr s =
     (if \<not> repeaterPasswordFitsSchema name_ptr password_ptr then (False, s)
      else let name = the name_ptr; password = the password_ptr; (ok, s1) = pf_begin N PW_NS False s
           in if \<not> ok then (False, s1)
              else let count = password_count N s1
                   in case find_password N name s1 of
                        Some slot \<Rightarrow> store_password N slot name password (word_of_nat count) s1
                      | None \<Rightarrow> if count < MAX_SAVED_PWS then store_password N count name password (word_of_nat (count + 1)) s1
                                else (False, s1))"

text \<open>The password that is found; none also stands for a result of \<open>false\<close>.\<close>

definition loadRepeaterPassword :: "'s Nvs \<Rightarrow> cstring option \<Rightarrow> nat \<Rightarrow> 's \<Rightarrow> cstring option \<times> 's" where
  "loadRepeaterPassword N name_ptr max_len s =
     (case name_ptr of None \<Rightarrow> (None, s)
      | Some name \<Rightarrow>
          if name = [] \<or> max_len = 0 then (None, s)
          else let (ok, s1) = pf_begin N PW_NS True s
               in if \<not> ok then (None, s1)
                  else case find_password N name s1 of
                         None \<Rightarrow> (None, s1)
                       | Some i \<Rightarrow> let (len, v) = read_pw_string N (pw_key i) max_len s1
                                   in (if len > 0 then Some (take (max_len - 1) v) else None, s1))"

text \<open>The last entry is moved into the place of the removed one.\<close>

definition move_last :: "'s Nvs \<Rightarrow> nat \<Rightarrow> nat \<Rightarrow> 's \<Rightarrow> bool \<times> 's" where
  "move_last N i final s =
     (let (moved_name_len, moved_name) = read_pw_string N (name_key final) 32 s;
          (moved_pw_len, moved_pw) = read_pw_string N (pw_key final) 64 s
      in if moved_name_len = 0 \<or> moved_name_len \<ge> 32 \<or> moved_pw_len = 0 \<or> moved_pw_len \<ge> 64 then (False, s)
         else let (n1, s1) = pf_putString N PW_NS (name_key i) moved_name s
              in if n1 \<noteq> moved_name_len then (False, s1)
                 else let (n2, s2) = pf_putString N PW_NS (pw_key i) moved_pw s1 in (n2 = moved_pw_len, s2))"

definition drop_last :: "'s Nvs \<Rightarrow> nat \<Rightarrow> 's \<Rightarrow> bool \<times> 's" where
  "drop_last N final s =
     (let (n, s1) = pf_putUChar N PW_NS ''count'' (word_of_nat final) s
      in if n \<noteq> 1 then (False, s1)
         else let (r1, s2) = pf_remove N PW_NS (name_key final) s1
              in if \<not> r1 then (False, s2) else pf_remove N PW_NS (pw_key final) s2)"

definition removeRepeaterPassword :: "'s Nvs \<Rightarrow> cstring option \<Rightarrow> 's \<Rightarrow> bool \<times> 's" where
  "removeRepeaterPassword N name_ptr s =
     (case name_ptr of None \<Rightarrow> (False, s)
      | Some name \<Rightarrow>
          if name = [] \<or> length name \<ge> 32 then (False, s)
          else let (ok, s1) = pf_begin N PW_NS False s
               in if \<not> ok then (False, s1)
                  else case find_password N name s1 of
                         None \<Rightarrow> (False, s1)
                       | Some i \<Rightarrow>
                           let final = password_count N s1 - 1;
                               (moved, s2) = (if i \<noteq> final then move_last N i final s1 else (True, s1))
                           in if \<not> moved then (False, s2) else drop_last N final s2)"

definition clearRepeaterPasswords :: "'s Nvs \<Rightarrow> 's \<Rightarrow> bool \<times> 's" where
  "clearRepeaterPasswords N s = (let (ok, s1) = pf_begin N PW_NS False s in if \<not> ok then (False, s1) else pf_clear N PW_NS s1)"

definition clearSavedNetworkCredentials :: "'s Nvs \<Rightarrow> bool \<Rightarrow> prefs_module \<Rightarrow> 's \<Rightarrow> bool \<times> prefs_module \<times> 's" where
  "clearSavedNetworkCredentials N ble g s =
     (let (g1, s1) = prefs_get N ble g s;
          (ok, g2, s2) = prefs_set N ble (clearSavedNetworkCredentialFields (g_prefs g1)) g1 s1
      in if \<not> ok then (False, g2, s2) else let (cleared, s3) = clearRepeaterPasswords N s2 in (cleared, g2, s3))"

section \<open>Scopes of conversations\<close>

definition CHAT_SCOPE_NS :: nvs_ns where "CHAT_SCOPE_NS = ''chat_scopes''"
definition MAX_CHAT_SCOPES :: nat where "MAX_CHAT_SCOPES = 32"

text \<open>The three arrays of the structure, of 38, 31 and 16 bytes.\<close>

record ChatScopePreference =
  cs_conversation :: "byte list"
  cs_scope_name :: "byte list"
  cs_scope_key :: "byte list"

definition scope_bytes :: "ChatScopePreference \<Rightarrow> byte list" where
  "scope_bytes c = cs_conversation c @ cs_scope_name c @ cs_scope_key c"

definition scope_of_bytes :: "byte list \<Rightarrow> ChatScopePreference" where
  "scope_of_bytes d = \<lparr>cs_conversation = take 38 d, cs_scope_name = take 31 (drop 38 d), cs_scope_key = take 16 (drop 69 d)\<rparr>"

definition makeChatScopeKey :: "nat \<Rightarrow> nvs_key" where
  "makeChatScopeKey slot =
     (if slot \<ge> MAX_CHAT_SCOPES then [] else [CHR ''s'', digit_char (slot div 10), digit_char (slot mod 10)])"

definition chatScopePreferenceValid :: "ChatScopePreference \<Rightarrow> bool" where
  "chatScopePreferenceValid c \<longleftrightarrow>
     cs_conversation c ! 0 \<noteq> 0 \<and> cs_scope_name c ! 0 \<noteq> 0 \<and> 0 \<in> set (cs_conversation c) \<and> 0 \<in> set (cs_scope_name c) \<and>
     list_ex (\<lambda>b. b \<noteq> 0) (cs_scope_key c)"

definition read_scope :: "'s Nvs \<Rightarrow> 's \<Rightarrow> nat \<Rightarrow> ChatScopePreference option" where
  "read_scope N s i =
     (if pf_getBytesLength N CHAT_SCOPE_NS (makeChatScopeKey i) s \<noteq> 85 then None
      else let (n, d) = pf_getBytes N CHAT_SCOPE_NS (makeChatScopeKey i) 85 s in if n = 85 then Some (scope_of_bytes d) else None)"

definition valid_scope :: "'s Nvs \<Rightarrow> 's \<Rightarrow> nat \<Rightarrow> ChatScopePreference option" where
  "valid_scope N s i = (case read_scope N s i of Some c \<Rightarrow> if chatScopePreferenceValid c then Some c else None | None \<Rightarrow> None)"

text \<open>\<open>max\<close> as passed; no buffer is a size of 0. The scan stops when the buffer is full.\<close>

definition loadChatScopePreferences :: "'s Nvs \<Rightarrow> nat \<Rightarrow> 's \<Rightarrow> ChatScopePreference list \<times> 's" where
  "loadChatScopePreferences N mx s =
     (if mx = 0 then ([], s)
      else let (ok, s1) = pf_begin N CHAT_SCOPE_NS True s
           in if \<not> ok then ([], s1) else (take mx (List.map_filter (valid_scope N s1) [0..<MAX_CHAT_SCOPES]), s1))"

text \<open>The slot to write: that of the conversation if it has one, else the first that is free.\<close>

fun scope_slot :: "'s Nvs \<Rightarrow> cstring \<Rightarrow> 's \<Rightarrow> nat option \<Rightarrow> nat list \<Rightarrow> nat option" where
  "scope_slot N conv s slot [] = slot"
| "scope_slot N conv s slot (i # is) =
     (case valid_scope N s i of
        Some c \<Rightarrow> if cstr (cs_conversation c) = conv then Some i else scope_slot N conv s slot is
      | None \<Rightarrow> scope_slot N conv s (if slot = None then Some i else slot) is)"

definition saveChatScopePreference :: "'s Nvs \<Rightarrow> cstring option \<Rightarrow> cstring option \<Rightarrow> byte list option \<Rightarrow> 's \<Rightarrow> bool \<times> 's" where
  "saveChatScopePreference N conversation scope_name scope_key s =
     (case (conversation, scope_name, scope_key) of
        (Some conv, Some sname, Some key) \<Rightarrow>
          if conv = [] \<or> sname = [] then (False, s)
          else if length conv \<ge> 38 \<or> length sname \<ge> 31 then (False, s)
          else let replacement = \<lparr>cs_conversation = pad_to 38 conv, cs_scope_name = pad_to 31 sname, cs_scope_key = key\<rparr>
               in if \<not> chatScopePreferenceValid replacement then (False, s)
                  else let (ok, s1) = pf_begin N CHAT_SCOPE_NS False s
                       in if \<not> ok then (False, s1)
                          else case scope_slot N conv s1 None [0..<MAX_CHAT_SCOPES] of
                                 None \<Rightarrow> (False, s1)
                               | Some slot \<Rightarrow>
                                   let (n, s2) = pf_putBytes N CHAT_SCOPE_NS (makeChatScopeKey slot) (scope_bytes replacement) s1
                                   in (n = 85, s2)
      | _ \<Rightarrow> (False, s))"

definition removeChatScopePreference :: "'s Nvs \<Rightarrow> cstring option \<Rightarrow> 's \<Rightarrow> bool \<times> 's" where
  "removeChatScopePreference N conversation s =
     (case conversation of None \<Rightarrow> (False, s)
      | Some conv \<Rightarrow>
          if conv = [] then (False, s)
          else let (ok, s1) = pf_begin N CHAT_SCOPE_NS False s
               in if \<not> ok then (False, s1)
                  else case find (\<lambda>i. case read_scope N s1 i of
                                        Some c \<Rightarrow> 0 \<in> set (cs_conversation c) \<and> cstr (cs_conversation c) = conv
                                      | None \<Rightarrow> False) [0..<MAX_CHAT_SCOPES] of
                         None \<Rightarrow> (False, s1)
                       | Some i \<Rightarrow> pf_remove N CHAT_SCOPE_NS (makeChatScopeKey i) s1)"

section \<open>The password store as a map\<close>

type_synonym entries = "nvs_key \<Rightarrow> nvs_value option"

definition pw_count :: "entries \<Rightarrow> nat" where
  "pw_count m = clampPasswordStoreCount (case m ''count'' of Some (NvsU8 b) \<Rightarrow> b | _ \<Rightarrow> 0)"

definition pw_named :: "entries \<Rightarrow> cstring \<Rightarrow> nat \<Rightarrow> bool" where
  "pw_named m name i = (case m (name_key i) of Some (NvsStr v) \<Rightarrow> length v < 32 \<and> cstr v = name | _ \<Rightarrow> False)"

definition pw_at :: "entries \<Rightarrow> nat \<Rightarrow> cstring option" where
  "pw_at m i = (case m (pw_key i) of Some (NvsStr v) \<Rightarrow> if length v < 64 then Some (take 63 (cstr v)) else None | _ \<Rightarrow> None)"

definition pw_lookup :: "entries \<Rightarrow> cstring \<Rightarrow> cstring option" where
  "pw_lookup m name = (case find (pw_named m name) [0..<pw_count m] of Some i \<Rightarrow> pw_at m i | None \<Rightarrow> None)"

lemma digit_char_eq: "i < 10 \<Longrightarrow> j < 10 \<Longrightarrow> digit_char i = digit_char j \<longleftrightarrow> i = j"
  by (simp add: digit_char_def char_of_eq_iff) (simp add: of_char_of take_bit_eq_mod)

lemma pw_key_eq:
  assumes "i < 8"
  shows "name_key i = name_key j \<longleftrightarrow> i = j" "pw_key i = pw_key j \<longleftrightarrow> i = j" "name_key i \<noteq> pw_key j" "pw_key i \<noteq> name_key j"
    "name_key j = name_key i \<longleftrightarrow> j = i" "pw_key j = pw_key i \<longleftrightarrow> j = i" "name_key j \<noteq> pw_key i" "pw_key j \<noteq> name_key i"
    "name_key i \<noteq> ''count''" "pw_key i \<noteq> ''count''" "''count'' \<noteq> name_key i" "''count'' \<noteq> pw_key i"
  using assms by (auto simp: makePasswordStoreKey_def MAX_SAVED_PWS_def digit_char_eq)

lemma pw_count_le: "pw_count m \<le> 8"
  by (simp add: pw_count_def clampPasswordStoreCount_def MAX_SAVED_PWS_def)

lemma pw_count_upd: "n \<le> 8 \<Longrightarrow> pw_count (m(''count'' \<mapsto> NvsU8 (word_of_nat n))) = n"
  by (simp add: pw_count_def clampPasswordStoreCount_def MAX_SAVED_PWS_def unat_of_nat_byte)

lemma find_upt_Some: "find P [0..<n] = Some i \<longleftrightarrow> i < n \<and> P i \<and> (\<forall>j < i. \<not> P j)"
  by (auto simp: find_Some_iff)

lemma find_upt_None: "find P [0..<n] = None \<longleftrightarrow> (\<forall>j < n. \<not> P j)"
  by (auto simp: find_None_iff)

lemma find_append: "find P (xs @ ys) = (case find P xs of Some x \<Rightarrow> Some x | None \<Rightarrow> find P ys)"
  by (induction xs) simp_all

lemma find_upt_Suc: "find P [0..<Suc n] = (case find P [0..<n] of Some i \<Rightarrow> Some i | None \<Rightarrow> if P n then Some n else None)"
  by (simp add: find_append split: option.split)

lemma find_upt_cong: "(\<And>j. j < n \<Longrightarrow> P j = Q j) \<Longrightarrow> find P [0..<n] = find Q [0..<n]"
  by (rule find_cong) auto

lemma cstr_snoc [simp]: "cstr (v @ [0]) = cstr v"
  by (induction v) (simp_all add: cstr_def)

context nvs_store
begin

lemma password_view:
  "password_count N s = pw_count (ent s PW_NS)" "slot_named N name s = pw_named (ent s PW_NS) name"
  "find_password N name s = find (pw_named (ent s PW_NS) name) [0..<pw_count (ent s PW_NS)]"
proof -
  show c: "password_count N s = pw_count (ent s PW_NS)" by (simp add: password_count_def pw_count_def getUChar_law)
  show n: "slot_named N name s = pw_named (ent s PW_NS) name"
    by (rule ext) (simp add: slot_named_def pw_named_def read_pw_string_def getString_law split: option.splits nvs_value.splits)
  show "find_password N name s = find (pw_named (ent s PW_NS) name) [0..<pw_count (ent s PW_NS)]"
    by (simp add: find_password_def c n)
qed

lemma load_password: "name \<noteq> [] \<Longrightarrow> fst (loadRepeaterPassword N (Some name) 64 s) = pw_lookup (ent s PW_NS) name"
proof -
  assume n: "name \<noteq> []"
  show ?thesis
  proof (cases "fst (pf_begin N PW_NS True s)")
    case True
    then show ?thesis using n
      by (auto simp: loadRepeaterPassword_def password_view pw_lookup_def pw_at_def read_pw_string_def getString_law Let_def split_beta
        split: option.splits nvs_value.splits)
  next
    case False
    then have "ent s PW_NS = Map.empty" using begin_existing by blast
    then show ?thesis using n False by (simp add: loadRepeaterPassword_def pw_lookup_def pw_count_def clampPasswordStoreCount_def MAX_SAVED_PWS_def Let_def split_beta)
  qed
qed


text \<open>What a write of an entry leaves: nothing, the name, name and password, or all with the new count.\<close>

lemma store_password_steps:
  assumes "name \<noteq> []" "password \<noteq> []" and "store_password N i name password c s = (ok, s')"
  defines "m1 \<equiv> with_entry (ent s) PW_NS (name_key i) (Some (NvsStr name))"
  defines "m2 \<equiv> with_entry m1 PW_NS (pw_key i) (Some (NvsStr password))"
  defines "m3 \<equiv> with_entry m2 PW_NS ''count'' (Some (NvsU8 c))"
  shows "if ok then ent s' = m3 else ent s' \<in> {ent s, m1, m2, m3}"
proof -
  define r1 where "r1 = pf_putString N PW_NS (name_key i) name s"
  define r2 where "r2 = pf_putString N PW_NS (pw_key i) password (snd r1)"
  define r3 where "r3 = pf_putUChar N PW_NS ''count'' c (snd r2)"
  have w1: "writes (ent s) (ent (snd r1)) PW_NS (name_key i) (Some (NvsStr name)) (fst r1 = length name)"
    unfolding r1_def by (rule writes_weaken [OF putString_law]) (use assms(1) in simp)
  have w2: "writes (ent (snd r1)) (ent (snd r2)) PW_NS (pw_key i) (Some (NvsStr password)) (fst r2 = length password)"
    unfolding r2_def by (rule writes_weaken [OF putString_law]) (use assms(2) in simp)
  have w3: "writes (ent (snd r2)) (ent (snd r3)) PW_NS ''count'' (Some (NvsU8 c)) (fst r3 = 1)"
    using putUChar_law by (simp add: r3_def)
  have "store_password N i name password c s = (if fst r1 \<noteq> length name then (False, snd r1)
      else if fst r2 \<noteq> length password then (False, snd r2) else (fst r3 = 1, snd r3))"
    by (simp add: store_password_def Let_def split_beta r1_def r2_def r3_def)
  then show ?thesis using assms(3) w1 w2 w3 unfolding m1_def m2_def m3_def writes_def by (auto split: if_splits)
qed

end

text \<open>Those states, as maps.\<close>

lemma named_other: "i < 8 \<Longrightarrow> j \<noteq> i \<Longrightarrow> pw_named (m(name_key i \<mapsto> v)) x j = pw_named m x j"
  by (auto simp: pw_named_def pw_key_eq)

lemma named_frame [simp]: "i < 8 \<Longrightarrow> pw_named (m(pw_key i \<mapsto> v)) x = pw_named m x" "pw_named (m(''count'' \<mapsto> v)) x j = pw_named m x j \<or> j \<ge> 8"
  by (auto simp: pw_named_def pw_key_eq fun_eq_iff)

lemma replace_password:
  assumes i: "find (pw_named m name) [0..<pw_count m] = Some i" and name: "0 \<notin> set name" "length name < 32"
    and pw: "0 \<notin> set password" "length password < 64"
  defines "m1 \<equiv> m(name_key i \<mapsto> NvsStr name)" defines "m2 \<equiv> m1(pw_key i \<mapsto> NvsStr password)"
  defines "m3 \<equiv> m2(''count'' \<mapsto> NvsU8 (word_of_nat (pw_count m)))"
  shows "pw_lookup m1 = pw_lookup m" "pw_lookup m2 = (pw_lookup m)(name \<mapsto> password)" "pw_lookup m3 = (pw_lookup m)(name \<mapsto> password)"
proof -
  have i8: "i < 8" and ic: "i < pw_count m" and nm: "pw_named m name i" using i pw_count_le [of m] by (auto simp: find_upt_Some)
  have n1: "pw_named m1 x j = pw_named m x j" for x j
    using nm name i8 by (cases "j = i") (auto simp: m1_def named_other, auto simp: pw_named_def cstr_id split: option.splits nvs_value.splits)
  have n2: "pw_named m2 x j = pw_named m x j" for x j using i8 n1 by (simp add: m2_def)
  have n3: "pw_named m3 x j = pw_named m x j" if "j < 8" for x j using that n2 named_frame(2) [of m2] by (metis m3_def not_le)
  have c1: "pw_count m1 = pw_count m" "pw_count m2 = pw_count m" using i8 by (simp_all add: pw_count_def m1_def m2_def pw_key_eq)
  have c3: "pw_count m3 = pw_count m" unfolding m3_def by (rule pw_count_upd) (rule pw_count_le)
  have p1: "pw_at m1 j = pw_at m j" for j using i8 by (simp add: pw_at_def m1_def pw_key_eq(3)) (metis pw_key_eq(3))
  have p2: "pw_at m2 j = (if j = i then Some password else pw_at m j)" "pw_at m3 j = (if j = i then Some password else pw_at m j)" if "j < 8" for j
    using that i8 pw p1 by (auto simp: pw_at_def m1_def m2_def m3_def pw_key_eq cstr_id)
  have f: "find (pw_named n x) [0..<pw_count m] = find (pw_named m x) [0..<pw_count m]" if "n \<in> {m1, m2, m3}" for n x
    using that n1 n2 n3 pw_count_le [of m] by (auto intro!: find_upt_cong)
  have other: "j \<noteq> i" if "find (pw_named m x) [0..<pw_count m] = Some j" "x \<noteq> name" for x j
    using that nm by (auto simp: find_upt_Some pw_named_def split: option.splits nvs_value.splits)
  have j8: "j < 8" if "find (pw_named m x) [0..<pw_count m] = Some j" for x j
    using that pw_count_le [of m] by (auto simp: find_upt_Some)
  show "pw_lookup m1 = pw_lookup m" by (rule ext) (simp add: pw_lookup_def c1 f p1 split: option.split)
  show "pw_lookup m2 = (pw_lookup m)(name \<mapsto> password)" "pw_lookup m3 = (pw_lookup m)(name \<mapsto> password)"
    by (rule ext; auto simp: pw_lookup_def c1 c3 f p2 i8 i j8 dest: other split: option.split)+
qed

lemma add_password:
  assumes i: "find (pw_named m name) [0..<pw_count m] = None" "pw_count m < 8" and name: "0 \<notin> set name" "length name < 32"
    and pw: "0 \<notin> set password" "length password < 64"
  defines "i \<equiv> pw_count m" defines "m1 \<equiv> m(name_key i \<mapsto> NvsStr name)" defines "m2 \<equiv> m1(pw_key i \<mapsto> NvsStr password)"
  defines "m3 \<equiv> m2(''count'' \<mapsto> NvsU8 (word_of_nat (i + 1)))"
  shows "pw_lookup m1 = pw_lookup m" "pw_lookup m2 = pw_lookup m" "pw_lookup m3 = (pw_lookup m)(name \<mapsto> password)"
proof -
  have i8: "i < 8" using assms by simp
  have n1: "pw_named m1 x j = (if j = i then x = name else pw_named m x j)" for x j
    using name i8 by (cases "j = i") (auto simp: m1_def named_other, auto simp: pw_named_def cstr_id)
  have n2: "pw_named m2 x j = (if j = i then x = name else pw_named m x j)" for x j using i8 n1 by (simp add: m2_def)
  have n3: "pw_named m3 x j = (if j = i then x = name else pw_named m x j)" if "j < 8" for x j
    using that n2 [of x j] named_frame(2) [of m2 _ x j] by (metis m3_def not_le)
  have c: "pw_count m1 = i" "pw_count m2 = i" using i8 by (simp_all add: pw_count_def m1_def m2_def i_def pw_key_eq)
  have c3: "pw_count m3 = Suc i" unfolding m3_def using i8 by (subst pw_count_upd) simp_all
  have p: "pw_at m1 j = pw_at m j" "pw_at m2 j = (if j = i then Some password else pw_at m j)"
    "pw_at m3 j = (if j = i then Some password else pw_at m j)" if "j < 8" for j
    using that i8 pw by (auto simp: pw_at_def m1_def m2_def m3_def pw_key_eq cstr_id)
  have f: "find (pw_named n x) [0..<i] = find (pw_named m x) [0..<i]" if "n \<in> {m1, m2, m3}" for n x
    using that n1 n2 n3 i8 by (auto intro!: find_upt_cong)
  have j: "j < i" if "find (pw_named m x) [0..<i] = Some j" for x j using that by (simp add: find_upt_Some)
  show "pw_lookup m1 = pw_lookup m" "pw_lookup m2 = pw_lookup m"
    by (rule ext; use i8 j in \<open>fastforce simp: pw_lookup_def c f p i_def [symmetric] split: option.split\<close>)+
  show "pw_lookup m3 = (pw_lookup m)(name \<mapsto> password)"
  proof
    fix x
    show "pw_lookup m3 x = ((pw_lookup m)(name \<mapsto> password)) x"
      using i8 j [of x] i(1) unfolding pw_lookup_def c3 find_upt_Suc f [of m3 x, simplified] i_def [symmetric]
      by (cases "find (pw_named m x) [0..<i]") (auto simp: n3 p)
  qed
qed

text \<open>What can be loaded, by repeater.\<close>

definition passwords :: "'s Nvs \<Rightarrow> 's \<Rightarrow> cstring \<Rightarrow> cstring option" where
  "passwords N s name = fst (loadRepeaterPassword N (Some name) 64 s)"

context nvs_store
begin

lemma passwords_lookup: "passwords N s name = (if name = [] then None else pw_lookup (ent s PW_NS) name)"
  using load_password by (simp add: passwords_def loadRepeaterPassword_def)

lemma passwords_upd:
  "name \<noteq> [] \<Longrightarrow> pw_lookup (ent s' PW_NS) = (pw_lookup (ent s PW_NS))(name \<mapsto> v) \<Longrightarrow> passwords N s' = (passwords N s)(name \<mapsto> v)"
  by (rule ext) (simp add: passwords_lookup)

lemma passwords_same: "pw_lookup (ent s' PW_NS) = pw_lookup (ent s PW_NS) \<Longrightarrow> passwords N s' = passwords N s"
  by (rule ext) (simp add: passwords_lookup)

lemma entry_step: "with_entry m PW_NS k (Some v) PW_NS = (m PW_NS)(k \<mapsto> v)"
  by (simp add: with_entry_def)

lemma save_password_atomic:
  assumes str: "0 \<notin> set name" "0 \<notin> set password" and save: "saveRepeaterPassword N (Some name) (Some password) s = (ok, s')"
  shows "\<not> ok \<and> passwords N s' = passwords N s \<or> passwords N s' = (passwords N s)(name \<mapsto> password)"
proof (cases "repeaterPasswordFitsSchema (Some name) (Some password) \<and> fst (pf_begin N PW_NS False s)")
  case False
  then have "\<not> ok" "s' = s \<or> s' = snd (pf_begin N PW_NS False s)"
    using save by (cases "pf_begin N PW_NS False s", auto simp: saveRepeaterPassword_def split: if_splits)+
  then show ?thesis using passwords_same [of s' s] by auto
next
  case True
  define s1 m where "s1 = snd (pf_begin N PW_NS False s)" and "m = ent s PW_NS"
  have fit: "name \<noteq> []" "length name < 32" "password \<noteq> []" "length password < 64" using True by (auto simp: repeaterPasswordFitsSchema_def)
  have e1: "ent s1 = ent s" and b: "pf_begin N PW_NS False s = (True, s1)" using True by (simp_all add: s1_def prod_eq_iff)
  have save': "saveRepeaterPassword N (Some name) (Some password) s =
     (case find (pw_named m name) [0..<pw_count m] of
        Some slot \<Rightarrow> store_password N slot name password (word_of_nat (pw_count m)) s1
      | None \<Rightarrow> if pw_count m < 8 then store_password N (pw_count m) name password (word_of_nat (pw_count m + 1)) s1 else (False, s1))"
    using True b by (simp add: saveRepeaterPassword_def password_view e1 m_def [symmetric] MAX_SAVED_PWS_def Let_def split: option.split)
  show ?thesis
  proof (cases "find (pw_named m name) [0..<pw_count m]")
    case (Some i)
    note r = replace_password [OF Some str(1) fit(2) str(2) fit(4)]
    have "store_password N i name password (word_of_nat (pw_count m)) s1 = (ok, s')" using save save' Some by simp
    note st = store_password_steps [OF fit(1,3) this]
    show ?thesis using st r passwords_same [of s' s] passwords_upd [OF fit(1), of s' s password]
      by (auto simp: e1 m_def entry_step split: if_splits)
  next
    case None
    show ?thesis
    proof (cases "pw_count m < 8")
      case c: True
      note r = add_password [OF None c str(1) fit(2) str(2) fit(4)]
      have "store_password N (pw_count m) name password (word_of_nat (pw_count m + 1)) s1 = (ok, s')" using save save' None c by simp
      note st = store_password_steps [OF fit(1,3) this]
      show ?thesis using st r passwords_same [of s' s] passwords_upd [OF fit(1), of s' s password]
        by (auto simp: e1 m_def entry_step split: if_splits)
    next
      case False
      then show ?thesis using save save' None e1 passwords_same [of s' s] by auto
    qed
  qed
qed

end

text \<open>
  Removal of an entry that is not the last. Its length check compares a length with the terminator to one
  without, so it always fails, but only after the name of the last entry has been written over the
  name of the removed one.
\<close>

context nvs_store
begin

lemma move_last_fails:
  assumes "move_last N i final s = (ok, s')"
  shows "\<not> ok \<and> (ent s' = ent s \<or>
    (\<exists>moved. ent s PW_NS (name_key final) = Some (NvsStr moved) \<and> ent s' = with_entry (ent s) PW_NS (name_key i) (Some (NvsStr (cstr moved)))))"
proof (cases "ent s PW_NS (name_key final)")
  case (Some v)
  show ?thesis
  proof (cases v)
    case (NvsStr moved)
    define r where "r = pf_putString N PW_NS (name_key i) (cstr moved) s"
    have short: "length (cstr moved) \<le> length moved" by (simp add: cstr_def length_takeWhile_le)
    have "fst r \<noteq> length moved + 1" using putString_result [of PW_NS "name_key i" "cstr moved" s] short by (auto simp: r_def)
    moreover have "ent (snd r) = ent s \<or> ent (snd r) = with_entry (ent s) PW_NS (name_key i) (Some (NvsStr (cstr moved)))"
      using putString_law [of s PW_NS "name_key i" "cstr moved"] by (auto simp: r_def writes_def)
    ultimately show ?thesis using assms Some NvsStr
      by (auto simp: move_last_def read_pw_string_def getString_law Let_def split_beta r_def [symmetric] split: if_splits)
  qed (use assms Some in \<open>auto simp: move_last_def read_pw_string_def getString_law Let_def split_beta split: if_splits\<close>)
qed (use assms in \<open>auto simp: move_last_def read_pw_string_def getString_law Let_def split_beta split: if_splits\<close>)

lemma remove_earlier_fails:
  assumes found: "find_password N name s = Some i" and early: "i + 1 < password_count N s"
    and rm: "removeRepeaterPassword N (Some name) s = (ok, s')"
  shows "\<not> ok \<and> (ent s' = ent s \<or>
    (\<exists>moved. ent s PW_NS (name_key (password_count N s - 1)) = Some (NvsStr moved) \<and>
      ent s' = with_entry (ent s) PW_NS (name_key i) (Some (NvsStr (cstr moved)))))"
proof (cases "name = [] \<or> length name \<ge> 32 \<or> \<not> fst (pf_begin N PW_NS False s)")
  case True
  then have "\<not> ok" "s' = s \<or> s' = snd (pf_begin N PW_NS False s)"
    using rm by (cases "pf_begin N PW_NS False s", auto simp: removeRepeaterPassword_def split: if_splits)+
  then show ?thesis by auto
next
  case False
  define s1 where "s1 = snd (pf_begin N PW_NS False s)"
  have e1: "ent s1 = ent s" and b: "pf_begin N PW_NS False s = (True, s1)" using False by (simp_all add: s1_def prod_eq_iff)
  have same: "find_password N name s1 = Some i" "password_count N s1 = password_count N s" using found by (simp_all add: password_view e1)
  obtain mv s2 where mv: "move_last N i (password_count N s - 1) s1 = (mv, s2)" by fastforce
  note m = move_last_fails [OF mv, unfolded e1]
  have "removeRepeaterPassword N (Some name) s = (False, s2)"
    using False b same mv m early by (simp add: removeRepeaterPassword_def Let_def) linarith
  then show ?thesis using rm m by auto
qed

lemma overwritten_name:
  assumes found: "find_password N name s = Some i" and final: "find_password N other s = Some (password_count N s - 1)"
    and early: "i + 1 < password_count N s" and moved: "ent s PW_NS (name_key (password_count N s - 1)) = Some (NvsStr moved)"
    and e: "ent s' = with_entry (ent s) PW_NS (name_key i) (Some (NvsStr (cstr moved)))" and ne: "name \<noteq> []" "other \<noteq> []"
  shows "passwords N s' other = passwords N s name"
proof -
  define m c where "m = ent s PW_NS" and "c = pw_count m"
  have m': "ent s' PW_NS = m(name_key i \<mapsto> NvsStr (cstr moved))" by (simp add: e m_def with_entry_def)
  have c8: "c \<le> 8" and i8: "i < 8" using pw_count_le [of m] early by (simp_all add: c_def m_def password_view)
  have f: "find (pw_named m name) [0..<c] = Some i" "find (pw_named m other) [0..<c] = Some (c - 1)" "i + 1 < c"
    using found final early by (simp_all add: password_view m_def c_def)
  have other: "cstr moved = other" "length moved < 32"
    using f(2) moved by (auto simp: find_upt_Some pw_named_def password_view m_def c_def)
  have short: "length (cstr moved) \<le> length moved" by (simp add: cstr_def length_takeWhile_le)
  have c': "pw_count (ent s' PW_NS) = c" using i8 by (simp add: m' c_def pw_count_def pw_key_eq)
  have "pw_named (ent s' PW_NS) other i" using other short by (simp add: m' pw_named_def) (metis cstr_idem)
  moreover have "\<not> pw_named (ent s' PW_NS) other j" if "j < i" for j
    using that f(2,3) i8 by (simp add: m' named_other) (simp add: find_upt_Some)
  ultimately have "find (pw_named (ent s' PW_NS) other) [0..<c] = Some i" using f(3) by (simp add: find_upt_Some)
  moreover have "pw_at (ent s' PW_NS) i = pw_at m i" using i8 by (simp add: m' pw_at_def pw_key_eq)
  ultimately show ?thesis using ne f(1) by (simp add: passwords_lookup pw_lookup_def c' m_def [symmetric] c_def [symmetric])
qed

end

section \<open>Properties\<close>

text \<open>
  C21: saving a password is all or nothing. For every store that keeps its contract, whatever writes fail and
  wherever the power goes while a password is saved, the passwords that can be loaded afterwards are exactly
  those from before, or those from before with the new password in place; after a reported success
  the latter. No other repeater's password is affected.
\<close>

theorem password_save_atomic:
  assumes "nvs_store N ent" and "0 \<notin> set name" "0 \<notin> set password" and "saveRepeaterPassword N (Some name) (Some password) s = (ok, s')"
  shows "\<not> ok \<and> passwords N s' = passwords N s \<or> passwords N s' = (passwords N s)(name \<mapsto> password)"
  by (rule nvs_store.save_password_atomic [OF assms])

text \<open>
  C22: a saved password is only removed while its entry is the last one. For an earlier entry removal always
  reports a failure, and if it changed the store at all, then the repeater of the last entry is now
  given the password of the repeater that was to be removed.
\<close>

theorem earlier_password_not_removed:
  assumes N: "nvs_store N ent" and found: "find_password N name s = Some i" and early: "i + 1 < password_count N s"
    and final: "find_password N other s = Some (password_count N s - 1)" and ne: "name \<noteq> []" "other \<noteq> []"
    and rm: "removeRepeaterPassword N (Some name) s = (ok, s')"
  shows "\<not> ok \<and> (ent s' = ent s \<or> passwords N s' other = passwords N s name)"
  using nvs_store.remove_earlier_fails [OF N found early rm] nvs_store.overwritten_name [OF N found final early _ _ ne] by blast

definition two_passwords :: nvs_flash where
  "two_passwords = \<lparr>fl_entries = (\<lambda>ns. if ns = PW_NS then [''count'' \<mapsto> NvsU8 2, ''name0'' \<mapsto> NvsStr (bytes_of ''a''), ''pw0'' \<mapsto> NvsStr (bytes_of ''x''),
      ''name1'' \<mapsto> NvsStr (bytes_of ''b''), ''pw1'' \<mapsto> NvsStr (bytes_of ''y'')] else Map.empty), fl_outcomes = []\<rparr>"

lemma sample_keys: "name_key 0 = ''name0''" "name_key 1 = ''name1''" "pw_key 0 = ''pw0''" "pw_key 1 = ''pw1''" "name_key (Suc 0) = ''name1''" "pw_key (Suc 0) = ''pw1''"
  by code_simp+

theorem earlier_password_not_removed_witness:
  "\<exists>s'. removeRepeaterPassword flash_nvs (Some (bytes_of ''a'')) two_passwords = (False, s') \<and>
     passwords flash_nvs two_passwords (bytes_of ''b'') = Some (bytes_of ''y'') \<and> passwords flash_nvs s' (bytes_of ''b'') = Some (bytes_of ''x'')"
proof -
  let ?a = "bytes_of ''a''" and ?b = "bytes_of ''b''"
  have c: "password_count flash_nvs two_passwords = 2"
    by (simp add: esp.password_view pw_count_def two_passwords_def PW_NS_def clampPasswordStoreCount_def MAX_SAVED_PWS_def)
  have f: "find_password flash_nvs ?a two_passwords = Some 0" "find_password flash_nvs ?b two_passwords = Some (password_count flash_nvs two_passwords - 1)"
    by (simp_all add: esp.password_view pw_count_def two_passwords_def PW_NS_def clampPasswordStoreCount_def MAX_SAVED_PWS_def
        upt_rec pw_named_def sample_keys bytes_of_def cstr_def)
  have p: "passwords flash_nvs two_passwords ?a = Some (bytes_of ''x'')" "passwords flash_nvs two_passwords ?b = Some (bytes_of ''y'')"
    using f [unfolded esp.password_view] c [unfolded esp.password_view]
    by (simp_all add: esp.passwords_lookup pw_lookup_def, simp_all add: pw_at_def sample_keys two_passwords_def PW_NS_def bytes_of_def cstr_def)
  obtain ok s' where rm: "removeRepeaterPassword flash_nvs (Some ?a) two_passwords = (ok, s')" by fastforce
  have "read_pw_string flash_nvs ''name1'' 32 two_passwords = (2, ?b)" "read_pw_string flash_nvs ''pw1'' 64 two_passwords = (2, bytes_of ''y'')"
    by (simp_all add: read_pw_string_def esp.getString_law two_passwords_def PW_NS_def bytes_of_def cstr_def)
  then have "s' = snd (fl_put PW_NS ''name0'' (Some (NvsStr ?b)) two_passwords)"
    using rm f(1) c by (simp add: removeRepeaterPassword_def move_last_def sample_keys Let_def bytes_of_def flash_nvs_def fl_count_def split_beta
        split: if_splits)
  then have "fl_entries s' PW_NS ''name0'' \<noteq> fl_entries two_passwords PW_NS ''name0''"
    by (simp add: fl_put_def fl_write_def two_passwords_def PW_NS_def bytes_of_def)
  then show ?thesis using earlier_password_not_removed [OF esp.nvs_store_axioms f(1) _ f(2) _ _ rm] rm p c by (auto simp: bytes_of_def)
qed

theorem password_save_atomic_witness:
  "\<exists>s'. saveRepeaterPassword flash_nvs (Some (bytes_of ''b'')) (Some (bytes_of ''z'')) two_passwords = (True, s') \<and>
     passwords flash_nvs s' (bytes_of ''b'') = Some (bytes_of ''z'') \<and> passwords flash_nvs s' (bytes_of ''a'') = passwords flash_nvs two_passwords (bytes_of ''a'')"
proof -
  let ?b = "bytes_of ''b''" and ?z = "bytes_of ''z''"
  obtain ok s' where sv: "saveRepeaterPassword flash_nvs (Some ?b) (Some ?z) two_passwords = (ok, s')" by fastforce
  have "find_password flash_nvs ?b two_passwords = Some 1"
    by (simp add: esp.password_view pw_count_def two_passwords_def PW_NS_def clampPasswordStoreCount_def MAX_SAVED_PWS_def
        upt_rec pw_named_def sample_keys bytes_of_def cstr_def)
  then have ok: "ok"
    using sv by (simp add: saveRepeaterPassword_def store_password_def repeaterPasswordFitsSchema_def flash_nvs_def fl_count_def fl_put_def fl_write_def
        two_passwords_def bytes_of_def Let_def)
  show ?thesis
    using password_save_atomic [OF esp.nvs_store_axioms _ _ sv] sv ok by (intro exI [of _ s']) (simp add: bytes_of_def)
qed

end
