(* ===== verification/FactoryReset.thy ===== *)
theory FactoryReset
  imports PrefStores
begin

text \<open>
  The factory reset (\<open>hal/factory_reset_policy.h\<close>, the reset functions of \<open>hal/prefs.cpp\<close>, \<open>factoryReset\<close> of
  \<open>mesh/mesh_wrapper.cpp\<close> and its resumption in \<open>main.cpp\<close>). A marker in a name space of its own records the
  stage; it is written before anything is destroyed and removed after everything is, and a start that
  finds it continues the reset instead of entering normal operation.

  The other components the reset calls are the fields of \<open>ResetEnv\<close>; what it needs of them is the
  locale \<open>reset_env\<close>. Watchdog calls and console output are left out. On the device a terminal
  failure and the completion of the reset restart it; the result says which of the two it was,
  or that the function returned \<open>false\<close> to its caller.
\<close>

section \<open>The marker\<close>

definition RESET_MARKER_NAMESPACE :: nvs_ns where "RESET_MARKER_NAMESPACE = ''sigurdos_reset''"
definition RESET_MARKER_KEY :: nvs_key where "RESET_MARKER_KEY = ''stage''"

datatype ResetMarkerStage = StageArmed | StageNvs | StageSpiffs

datatype ResetMarkerStatus = MarkerAbsent | MarkerPending | MarkerInvalid

fun stage_byte :: "ResetMarkerStage \<Rightarrow> byte" where
  "stage_byte StageArmed = 1"
| "stage_byte StageNvs = 2"
| "stage_byte StageSpiffs = 3"

definition stage_of_byte :: "byte \<Rightarrow> ResetMarkerStage option" where
  "stage_of_byte raw = (if raw = 1 then Some StageArmed else if raw = 2 then Some StageNvs else if raw = 3 then Some StageSpiffs else None)"

text \<open>A value of the enumeration is always in range, so the check of the code never fails.\<close>

definition reset_marker_write :: "'s Nvs \<Rightarrow> ResetMarkerStage \<Rightarrow> 's \<Rightarrow> bool \<times> 's" where
  "reset_marker_write N stage s =
     (let (e, s1) = run_checked [nvs_open N RESET_MARKER_NAMESPACE True,
          nvs_set N RESET_MARKER_NAMESPACE RESET_MARKER_KEY (NvsU8 (stage_byte stage)), nvs_commit N RESET_MARKER_NAMESPACE] s
      in (e = ESP_OK, s1))"

definition reset_marker_read :: "'s Nvs \<Rightarrow> 's \<Rightarrow> (ResetMarkerStatus \<times> ResetMarkerStage) \<times> 's" where
  "reset_marker_read N s =
     (let (e, s1) = nvs_open N RESET_MARKER_NAMESPACE False s
      in if e = ESP_ERR_NVS_NOT_FOUND then ((MarkerAbsent, StageArmed), s1)
         else if e \<noteq> ESP_OK then ((MarkerInvalid, StageArmed), s1)
         else let (e2, raw) = nvs_get_u8 N RESET_MARKER_NAMESPACE RESET_MARKER_KEY s1
              in if e2 = ESP_ERR_NVS_NOT_FOUND then ((MarkerAbsent, StageArmed), s1)
                 else if e2 \<noteq> ESP_OK then ((MarkerInvalid, StageArmed), s1)
                 else case stage_of_byte raw of
                        None \<Rightarrow> ((MarkerInvalid, StageArmed), s1)
                      | Some stage \<Rightarrow> ((MarkerPending, stage), s1))"

definition reset_marker_clear :: "'s Nvs \<Rightarrow> 's \<Rightarrow> bool \<times> 's" where
  "reset_marker_clear N s =
     (let (e, s1) = nvs_open N RESET_MARKER_NAMESPACE True s
      in if e = ESP_ERR_NVS_NOT_FOUND then (True, s1)
         else if e \<noteq> ESP_OK then (False, s1)
         else let (e1, s2) = nvs_erase_key N RESET_MARKER_NAMESPACE RESET_MARKER_KEY s1;
                  e2 = (if e1 = ESP_ERR_NVS_NOT_FOUND then ESP_OK else e1);
                  (e3, s3) = (if e2 = ESP_OK then nvs_commit N RESET_MARKER_NAMESPACE s2 else (e2, s2))
              in (e3 = ESP_OK, s3))"

section \<open>Settings\<close>

definition prefs_arm_factory_reset :: "'s Nvs \<Rightarrow> bool \<Rightarrow> prefs_module \<Rightarrow> 's \<Rightarrow> bool \<times> prefs_module \<times> 's" where
  "prefs_arm_factory_reset N ble g s =
     (let (g1, s1) = prefs_get N ble g s; (e, s2) = nvs_open N NVS_NS True s1
      in if e \<noteq> ESP_OK then (False, g1, s2)
         else let (failure, s3) = prefsWriteFactoryResetInterlock (nvs_writer N) s2
              in if failure \<noteq> None then (False, g1, s3)
                 else let (ok, s4) = reset_marker_write N StageArmed s3
                      in if \<not> ok then (False, g1, s4)
                         else (True, g1\<lparr>g_prefs := (g_prefs g1)\<lparr>np_ble_enabled := False, np_ble_user_set := True,
                                np_ble_bond_reset_pending := True\<rparr>\<rparr>, s4))"

definition prefs_commit_factory_reset :: "'s Nvs \<Rightarrow> prefs_module \<Rightarrow> 's \<Rightarrow> bool \<times> prefs_module \<times> 's" where
  "prefs_commit_factory_reset N g s =
     (let reset = set_factory_reset_defaults default_prefs; (ok1, s1) = writePrefsToNvs N reset BleWrite True s
      in if \<not> ok1 then (False, g, s1)
         else let (ok2, s2) = writeTransportPrefsToNvs N reset s1
              in if \<not> ok2 then (False, g, s2) else (True, g\<lparr>g_prefs := reset\<rparr>, s2))"

section \<open>Policy\<close>

datatype NvsAction = ActionClear | ReplaceWithSafePrefs

type_synonym NvsTarget = "nvs_ns \<times> NvsAction"

definition NVS_TARGETS :: "NvsTarget list" where
  "NVS_TARGETS = [(PW_NS, ActionClear), (CHAT_SCOPE_NS, ActionClear), (NVS_NS, ReplaceWithSafePrefs)]"

datatype FailureStage = FailureNone | FailureNvs | FailureSpiffs

fun apply_targets :: "(NvsTarget \<Rightarrow> 's \<Rightarrow> bool \<times> 's) \<Rightarrow> NvsTarget list \<Rightarrow> 's \<Rightarrow> (bool \<times> NvsTarget option) \<times> 's" where
  "apply_targets f [] s = ((True, None), s)"
| "apply_targets f (t # ts) s = (let (ok, s1) = f t s in if ok then apply_targets f ts s1 else ((False, Some t), s1))"

definition applyNvsTargets :: "(NvsTarget \<Rightarrow> 's \<Rightarrow> bool \<times> 's) option \<Rightarrow> 's \<Rightarrow> (bool \<times> NvsTarget option) \<times> 's" where
  "applyNvsTargets f s = (case f of None \<Rightarrow> ((False, None), s) | Some f \<Rightarrow> apply_targets f NVS_TARGETS s)"

definition eraseOwnedStorage :: "(NvsTarget \<Rightarrow> 's \<Rightarrow> bool \<times> 's) option \<Rightarrow> ('s \<Rightarrow> bool \<times> 's) option \<Rightarrow> 's \<Rightarrow> (bool \<times> NvsTarget option \<times> FailureStage) \<times> 's" where
  "eraseOwnedStorage apply_nvs format_storage s =
     (let ((ok, failed), s1) = applyNvsTargets apply_nvs s
      in if \<not> ok then ((False, failed, FailureNvs), s1)
         else case format_storage of
                None \<Rightarrow> ((False, None, FailureSpiffs), s1)
              | Some f \<Rightarrow> let (done1, s2) = f s1
                         in if done1 then ((True, None, FailureNone), s2) else ((False, None, FailureSpiffs), s2))"

section \<open>The reset\<close>

text \<open>
  \<open>re_sd_reset\<close> is \<open>sdMessageStoreReset\<close> with the preflight that silences the companion transports; its result is
  that of the call and whether the preflight completed. \<open>re_sd_select\<close> is \<open>sdMessageStoreSelect\<close>.
\<close>

record 's ResetEnv =
  re_sd_select :: "'s \<Rightarrow> 's"
  re_sd_reset :: "'s \<Rightarrow> (bool \<times> bool) \<times> 's"
  re_mesh :: "'s \<Rightarrow> bool"
  re_saveIdentity :: "'s \<Rightarrow> bool \<times> 's"
  re_saveChannels :: "'s \<Rightarrow> bool \<times> 's"
  re_saveContacts :: "'s \<Rightarrow> bool \<times> 's"
  re_stop_warm :: "'s \<Rightarrow> bool \<times> 's"
  re_spiffs_end :: "'s \<Rightarrow> 's"
  re_spiffs_format :: "'s \<Rightarrow> bool \<times> 's"

datatype reset_result = ResetRefused | ResetTerminal | ResetComplete

text \<open>All three are saved, also after a failure.\<close>

definition save_snapshot :: "'s ResetEnv \<Rightarrow> 's \<Rightarrow> bool \<times> 's" where
  "save_snapshot E s =
     (let (a, s1) = (if re_mesh E s then re_saveIdentity E s else (True, s));
          (b, s2) = re_saveChannels E s1; (c, s3) = re_saveContacts E s2
      in (a \<and> b \<and> c, s3))"

text \<open>The stage \<open>Armed\<close>: \<open>None\<close> continues.\<close>

definition reset_history :: "'s Nvs \<Rightarrow> 's ResetEnv \<Rightarrow> bool \<Rightarrow> 's \<Rightarrow> reset_result option \<times> 's" where
  "reset_history N E resuming s =
     (let ((ok, completed), s1) = re_sd_reset E s
      in if \<not> ok then
           (if \<not> completed \<and> \<not> resuming
            then let (cleared, s2) = reset_marker_clear N s1 in (Some (if cleared then ResetRefused else ResetTerminal), s2)
            else (Some ResetTerminal, s1))
         else let (saved, s2) = save_snapshot E s1 in (if saved then None else Some ResetTerminal, s2))"

definition apply_nvs_target :: "'s Nvs \<Rightarrow> NvsTarget \<Rightarrow> prefs_module \<times> 's \<Rightarrow> bool \<times> prefs_module \<times> 's" where
  "apply_nvs_target N = (\<lambda>(name, action) (g, s).
     case action of
       ReplaceWithSafePrefs \<Rightarrow>
         (let (committed, g1, s1) = prefs_commit_factory_reset N g s
          in if \<not> committed then (False, g1, s1)
             else let (ok, s2) = reset_marker_write N StageSpiffs s1 in (ok, g1, s2))
     | ActionClear \<Rightarrow>
         (let (opened, s1) = pf_begin N name False s
          in if \<not> opened then (False, g, s1) else let (committed, s2) = pf_clear N name s1 in (committed, g, s2)))"

definition reset_storage :: "'s Nvs \<Rightarrow> 's ResetEnv \<Rightarrow> ResetMarkerStage \<Rightarrow> prefs_module \<Rightarrow> 's \<Rightarrow> bool \<times> prefs_module \<times> 's" where
  "reset_storage N E stage g s =
     (if stage \<noteq> StageSpiffs then
        (let (ok, s1) = reset_marker_write N StageNvs s
         in if \<not> ok then (False, g, s1)
            else let ((erased, _), g2, s2) =
                   eraseOwnedStorage (Some (apply_nvs_target N))
                     (Some (\<lambda>(g, s). let (f, s') = re_spiffs_format E s in (f, g, s'))) (g, s1)
                 in (erased, g2, s2))
      else let (formatted, s1) = re_spiffs_format E s in (formatted, g, s1))"

definition factoryReset :: "'s Nvs \<Rightarrow> 's ResetEnv \<Rightarrow> bool \<Rightarrow> prefs_module \<Rightarrow> 's \<Rightarrow> reset_result \<times> prefs_module \<times> 's" where
  "factoryReset N E ble g s =
     (let ((status, stage), s1) = reset_marker_read N s
      in if status = MarkerInvalid then (ResetTerminal, g, s1)
         else let resuming = (status = MarkerPending);
                  (armed, g2, s2) = (if resuming then (True, g, s1) else prefs_arm_factory_reset N ble g s1)
              in if \<not> armed then (ResetRefused, g2, s2)
                 else let (stop, s3) = (if stage = StageArmed then reset_history N E resuming s2 else (None, s2))
                      in case stop of Some r \<Rightarrow> (r, g2, s3)
                         | None \<Rightarrow>
                             let (stopped, s4) = re_stop_warm E s3
                             in if \<not> stopped then (ResetTerminal, g2, s4)
                                else let (ok, g5, s5) = reset_storage N E stage g2 (re_spiffs_end E s4)
                                     in if \<not> ok then (ResetTerminal, g5, s5)
                                        else let (cleared, s6) = reset_marker_clear N s5
                                             in (if cleared then ResetComplete else ResetTerminal, g5, s6))"

text \<open>
  The part of a start that looks at the marker: whether normal operation is entered, the settings and
  the state. The message backend is chosen before a reset in its first stage, and not in the later ones.
\<close>

definition boot_reset :: "'s Nvs \<Rightarrow> 's ResetEnv \<Rightarrow> bool \<Rightarrow> prefs_module \<Rightarrow> 's \<Rightarrow> bool \<times> prefs_module \<times> 's" where
  "boot_reset N E ble g s =
     (let ((status, stage), s1) = reset_marker_read N s;
          s2 = (if status = MarkerAbsent \<or> (status = MarkerPending \<and> stage = StageArmed) then re_sd_select E s1 else s1)
      in if status = MarkerAbsent then (True, g, s2)
         else let (_, g3, s3) = factoryReset N E ble g s2 in (False, g3, s3))"

section \<open>What the reset needs\<close>

text \<open>
  \<open>rest\<close> is what the reset touches outside the key-value store. Of it the locale knows two facts:
  that the history on the card was reported removed, and that SPIFFS was formatted.
\<close>

definition other_ns :: "nvs_contents \<Rightarrow> nvs_contents \<Rightarrow> bool" where
  "other_ns m m' \<longleftrightarrow> (\<forall>ns. ns \<noteq> NVS_NS \<longrightarrow> m' ns = m ns)"

locale reset_env = nvs_store N ent for N :: "'s Nvs" and ent +
  fixes E :: "'s ResetEnv" and rest :: "'s \<Rightarrow> 'r" and card_reset formatted :: "'r \<Rightarrow> bool"
  assumes nvs_rest: "rest (snd (nvs_open N ns rw s)) = rest s" "rest (snd (nvs_set N ns k v s)) = rest s"
      "rest (snd (nvs_erase_key N ns k s)) = rest s" "rest (snd (nvs_erase_all N ns s)) = rest s"
      "rest (snd (nvs_commit N ns s)) = rest s" "rest (snd (pf_begin N ns rw s)) = rest s" "rest (snd (pf_clear N ns s)) = rest s"
    and env_ent: "ent (re_sd_select E s) = ent s" "ent (snd (re_sd_reset E s)) = ent s" "ent (snd (re_stop_warm E s)) = ent s"
      "ent (re_spiffs_end E s) = ent s" "ent (snd (re_spiffs_format E s)) = ent s"
    and save_ent: "other_ns (ent s) (ent (snd (re_saveIdentity E s)))" "other_ns (ent s) (ent (snd (re_saveChannels E s)))"
      "other_ns (ent s) (ent (snd (re_saveContacts E s)))"
    and card_done: "fst (fst (re_sd_reset E s)) \<Longrightarrow> card_reset (rest (snd (re_sd_reset E s)))"
    and card_refused: "\<not> snd (fst (re_sd_reset E s)) \<Longrightarrow> \<not> fst (fst (re_sd_reset E s)) \<Longrightarrow>
      (card_reset (rest s) \<longrightarrow> card_reset (rest (snd (re_sd_reset E s)))) \<and> (formatted (rest s) \<longrightarrow> formatted (rest (snd (re_sd_reset E s))))"
    and card_kept: "card_reset (rest s) \<Longrightarrow> card_reset (rest (snd (re_saveIdentity E s)))" "card_reset (rest s) \<Longrightarrow> card_reset (rest (snd (re_saveChannels E s)))"
      "card_reset (rest s) \<Longrightarrow> card_reset (rest (snd (re_saveContacts E s)))" "card_reset (rest s) \<Longrightarrow> card_reset (rest (snd (re_stop_warm E s)))"
      "card_reset (rest s) \<Longrightarrow> card_reset (rest (re_spiffs_end E s))" "card_reset (rest s) \<Longrightarrow> card_reset (rest (snd (re_spiffs_format E s)))"
    and format_done: "fst (re_spiffs_format E s) \<Longrightarrow> formatted (rest (snd (re_spiffs_format E s)))"
begin

lemmas rest_simps [simp] = nvs_rest env_ent

end

definition marker :: "nvs_contents \<Rightarrow> nvs_value option" where
  "marker m = m RESET_MARKER_NAMESPACE RESET_MARKER_KEY"

definition reset_keys :: "(nvs_key \<times> nvs_value) list" where
  "reset_keys = (let p = set_factory_reset_defaults default_prefs in prefs_keys p BleWrite @
     [(''tr_tcp'', u8_flag (np_transport_tcp_enabled p)), (''tr_ws'', u8_flag (np_transport_ws_enabled p))])"

text \<open>No password and no scope is left, and the settings are exactly those of a factory reset.\<close>

definition nvs_erased :: "nvs_contents \<Rightarrow> bool" where
  "nvs_erased m \<longleftrightarrow> m PW_NS = Map.empty \<and> m CHAT_SCOPE_NS = Map.empty \<and> m NVS_NS = map_of reset_keys"

text \<open>Nothing has changed but the BLE interlock.\<close>

definition ble_keys :: "nvs_key list" where
  "ble_keys = [''ble_en'', ''ble_user'', ''ble_ver'', ''ble_bond_rst'']"

definition untouched :: "nvs_contents \<Rightarrow> nvs_contents \<Rightarrow> bool" where
  "untouched m m' \<longleftrightarrow> m' PW_NS = m PW_NS \<and> m' CHAT_SCOPE_NS = m CHAT_SCOPE_NS \<and> (\<forall>k. k \<notin> set ble_keys \<longrightarrow> m' NVS_NS k = m NVS_NS k)"

lemma untouched_refl [simp]: "untouched m m"
  by (simp add: untouched_def)

lemma reset_ns_distinct [simp]: "PW_NS \<noteq> NVS_NS" "CHAT_SCOPE_NS \<noteq> NVS_NS" "RESET_MARKER_NAMESPACE \<noteq> NVS_NS" "PW_NS \<noteq> CHAT_SCOPE_NS"
  "RESET_MARKER_NAMESPACE \<noteq> PW_NS" "RESET_MARKER_NAMESPACE \<noteq> CHAT_SCOPE_NS" "NVS_NS \<noteq> PW_NS" "NVS_NS \<noteq> CHAT_SCOPE_NS"
  "NVS_NS \<noteq> RESET_MARKER_NAMESPACE" "CHAT_SCOPE_NS \<noteq> PW_NS" "PW_NS \<noteq> RESET_MARKER_NAMESPACE" "CHAT_SCOPE_NS \<noteq> RESET_MARKER_NAMESPACE"
  by (simp_all add: PW_NS_def NVS_NS_def CHAT_SCOPE_NS_def RESET_MARKER_NAMESPACE_def)

lemma reset_keys_distinct: "distinct (map fst reset_keys)"
  by (simp add: reset_keys_def Let_def prefs_keys_def)

lemma interlock_sub: "list_all (\<lambda>kv. kv \<in> set reset_keys) interlock_keys"
  by (simp add: interlock_keys_def reset_keys_def Let_def prefs_keys_def set_factory_reset_defaults_def flag_byte_def)

lemma interlock_in_reset: "(k, v) \<in> set interlock_keys \<Longrightarrow> map_of reset_keys k = Some v"
  using interlock_sub reset_keys_distinct by (auto simp: list_all_iff)

lemma stage_bytes [simp]: "stage_of_byte (stage_byte st) = Some st"
  by (cases st) (simp_all add: stage_of_byte_def)

lemma stage_of_byteD: "stage_of_byte b = Some st \<Longrightarrow> b = stage_byte st"
  by (auto simp: stage_of_byte_def split: if_splits)

text \<open>Writes of the interlock keep a store that has not been touched, and one that is erased.\<close>

lemma updates_untouched:
  assumes "updates NVS_NS kvs m m' ok" and "fst ` set kvs \<subseteq> set ble_keys" and "untouched m0 m"
  shows "untouched m0 m'"
proof -
  have "m' NVS_NS k = m NVS_NS k" if "k \<notin> set ble_keys" for k
    using updates_value [OF assms(1), of k] assms(2) that by force
  moreover have "m' PW_NS = m PW_NS" "m' CHAT_SCOPE_NS = m CHAT_SCOPE_NS" using updates_other [OF assms(1)] by simp_all
  ultimately show ?thesis using assms(3) by (simp add: untouched_def)
qed

lemma updates_erased:
  assumes "updates NVS_NS kvs m m' ok" and "\<And>k v. (k, v) \<in> set kvs \<Longrightarrow> map_of reset_keys k = Some v" and "nvs_erased m"
  shows "nvs_erased m'"
proof -
  have "m' NVS_NS k = map_of reset_keys k" for k
    using updates_value [OF assms(1), of k] assms(2,3) by (auto simp: nvs_erased_def)
  then show ?thesis using assms(1,3) by (auto simp: nvs_erased_def updates_def)
qed

lemma updates_marker: "updates NVS_NS kvs m m' ok \<Longrightarrow> marker m' = marker m"
  by (simp add: marker_def updates_def)

section \<open>The steps\<close>

lemma with_marker:
  "marker (with_entry m RESET_MARKER_NAMESPACE RESET_MARKER_KEY v) = v"
  "ns \<noteq> RESET_MARKER_NAMESPACE \<Longrightarrow> with_entry m RESET_MARKER_NAMESPACE RESET_MARKER_KEY v ns = m ns"
  by (simp_all add: marker_def with_entry_def)

lemma frame_marker:
  "nvs_erased (with_entry m RESET_MARKER_NAMESPACE RESET_MARKER_KEY v) = nvs_erased m"
  "untouched m0 (with_entry m RESET_MARKER_NAMESPACE RESET_MARKER_KEY v) = untouched m0 m"
  by (simp_all add: nvs_erased_def untouched_def with_marker)

lemma rest_run_checked:
  assumes "\<And>f s. f \<in> set fs \<Longrightarrow> r (snd (f s)) = r s"
  shows "r (snd (run_checked fs s)) = r s"
  using assms by (induction fs arbitrary: s) (simp_all add: Let_def split_beta)

context reset_env
begin

lemma rest_write_keys [simp]: "rest (snd (write_pref_keys (nvs_writer N) kvs s)) = rest s"
proof (induction kvs arbitrary: s)
  case (Cons kv kvs)
  then show ?case by (cases kv) (simp add: nvs_writer_def Let_def split_beta)
qed (simp add: nvs_writer_def Let_def split_beta)

lemma marker_write:
  assumes "reset_marker_write N st s = (ok, s')"
  shows "rest s' = rest s" and "ent s' = with_entry (ent s) RESET_MARKER_NAMESPACE RESET_MARKER_KEY (Some (NvsU8 (stage_byte st))) \<or> \<not> ok \<and> ent s' = ent s"
proof -
  let ?fs = "[nvs_open N RESET_MARKER_NAMESPACE True, nvs_set N RESET_MARKER_NAMESPACE RESET_MARKER_KEY (NvsU8 (stage_byte st)), nvs_commit N RESET_MARKER_NAMESPACE]"
  have r: "(ok, s') = (fst (run_checked ?fs s) = ESP_OK, snd (run_checked ?fs s))" using assms by (simp add: reset_marker_write_def split_beta)
  have "rest (snd (run_checked ?fs s)) = rest s" by (rule rest_run_checked) auto
  then show "rest s' = rest s" using r by (simp only: prod.inject)
  show "ent s' = with_entry (ent s) RESET_MARKER_NAMESPACE RESET_MARKER_KEY (Some (NvsU8 (stage_byte st))) \<or> \<not> ok \<and> ent s' = ent s"
    using r set_law [of "snd (nvs_open N RESET_MARKER_NAMESPACE True s)" RESET_MARKER_NAMESPACE RESET_MARKER_KEY "NvsU8 (stage_byte st)"]
    by (auto simp: writes_def Let_def split_beta split: if_splits)
qed

lemma marker_read:
  assumes "reset_marker_read N s = ((status, stage), s')"
  shows "rest s' = rest s" "ent s' = ent s" and "status = MarkerAbsent \<Longrightarrow> stage = StageArmed \<and> (\<forall>b. marker (ent s) \<noteq> Some (NvsU8 b))"
    and "status = MarkerPending \<Longrightarrow> marker (ent s) = Some (NvsU8 (stage_byte stage))"
proof -
  define s1 where "s1 = snd (nvs_open N RESET_MARKER_NAMESPACE False s)"
  have s': "s' = s1" using assms by (auto simp: reset_marker_read_def Let_def split_beta s1_def split: if_splits option.splits)
  then show "rest s' = rest s" "ent s' = ent s" by (simp_all add: s1_def)
  have e1: "ent s1 = ent s" by (simp add: s1_def)
  show "status = MarkerAbsent \<Longrightarrow> stage = StageArmed \<and> (\<forall>b. marker (ent s) \<noteq> Some (NvsU8 b))"
    using assms open_absent [of RESET_MARKER_NAMESPACE False s] get_u8_absent [of RESET_MARKER_NAMESPACE RESET_MARKER_KEY s1] e1
    by (auto simp: reset_marker_read_def Let_def split_beta marker_def s1_def [symmetric] split: if_splits option.splits)
  show "status = MarkerPending \<Longrightarrow> marker (ent s) = Some (NvsU8 (stage_byte stage))"
    using assms get_u8_found [of RESET_MARKER_NAMESPACE RESET_MARKER_KEY s1] e1
    by (auto simp: reset_marker_read_def Let_def split_beta marker_def s1_def [symmetric] dest: stage_of_byteD split: if_splits option.splits)
qed

lemma marker_clear:
  assumes "reset_marker_clear N s = (ok, s')"
  shows "rest s' = rest s" and "ent s' = ent s \<or> ent s' = with_entry (ent s) RESET_MARKER_NAMESPACE RESET_MARKER_KEY None"
    and "ok \<Longrightarrow> marker (ent s') = None"
proof -
  define s1 where "s1 = snd (nvs_open N RESET_MARKER_NAMESPACE True s)"
  define s2 where "s2 = snd (nvs_erase_key N RESET_MARKER_NAMESPACE RESET_MARKER_KEY s1)"
  have e1: "ent s1 = ent s" "rest s1 = rest s" "rest s2 = rest s" by (simp_all add: s1_def s2_def)
  note w = erase_key_law [of s1 RESET_MARKER_NAMESPACE RESET_MARKER_KEY, folded s2_def, unfolded writes_def e1]
  show "rest s' = rest s" using assms e1
    by (auto simp: reset_marker_clear_def Let_def split_beta s1_def [symmetric] s2_def [symmetric] split: if_splits)
  show "ent s' = ent s \<or> ent s' = with_entry (ent s) RESET_MARKER_NAMESPACE RESET_MARKER_KEY None" using assms w e1
    by (auto simp: reset_marker_clear_def Let_def split_beta s1_def [symmetric] s2_def [symmetric] split: if_splits)
  show "ok \<Longrightarrow> marker (ent s') = None"
    using assms w e1 open_absent [of RESET_MARKER_NAMESPACE True s] erase_key_absent [of RESET_MARKER_NAMESPACE RESET_MARKER_KEY s1]
    by (auto simp: reset_marker_clear_def Let_def split_beta s1_def [symmetric] s2_def [symmetric] with_marker marker_def split: if_splits)
qed


text \<open>Everything is erased, or nothing was destroyed.\<close>

definition ended :: "nvs_contents \<Rightarrow> 's \<Rightarrow> bool" where
  "ended m0 s \<longleftrightarrow> nvs_erased (ent s) \<and> card_reset (rest s) \<and> formatted (rest s) \<or> untouched m0 (ent s)"

lemma ended_frame: "ent s' = ent s \<Longrightarrow> rest s' = rest s \<Longrightarrow> ended m0 s' = ended m0 s"
  by (simp add: ended_def)

lemma ended_marker: "ent s' = with_entry (ent s) RESET_MARKER_NAMESPACE RESET_MARKER_KEY v \<Longrightarrow> rest s' = rest s \<Longrightarrow> ended m0 s' = ended m0 s"
  by (simp add: ended_def frame_marker)

lemma ended_updates:
  assumes "updates NVS_NS kvs (ent s) (ent s') ok" "rest s' = rest s" "fst ` set kvs \<subseteq> set ble_keys"
    and "nvs_erased (ent s) \<Longrightarrow> nvs_erased (ent s')" and "ended m0 s"
  shows "ended m0 s'"
  using assms updates_untouched [OF assms(1,3)] by (auto simp: ended_def)

lemma migration_updates:
  "updates NVS_NS [(''ble_en'', u8_flag a), (''ble_user'', u8_flag b), (''ble_ver'', NvsU8 BLE_PREFS_SCHEMA_VERSION)] (ent s)
     (ent (snd (persistBleMigration N a b s))) (fst (persistBleMigration N a b s))"
  using run_open_updates [of NVS_NS "[(''ble_en'', u8_flag a), (''ble_user'', u8_flag b), (''ble_ver'', NvsU8 BLE_PREFS_SCHEMA_VERSION)]" s]
  by (simp add: persistBleMigration_def split_beta Let_def)

lemma migration_rest: "rest (snd (persistBleMigration N a b s)) = rest s"
proof -
  let ?fs = "[nvs_open N NVS_NS True, nvs_set N NVS_NS ''ble_en'' (u8_flag a), nvs_set N NVS_NS ''ble_user'' (u8_flag b),
    nvs_set N NVS_NS ''ble_ver'' (NvsU8 BLE_PREFS_SCHEMA_VERSION), nvs_commit N NVS_NS]"
  have "rest (snd (run_checked ?fs s)) = rest s" by (rule rest_run_checked) auto
  then show ?thesis by (simp only: persistBleMigration_def split_beta Let_def snd_conv)
qed

lemma erased_current: "nvs_erased (ent s) \<Longrightarrow> \<not> bs_needs_migration (load_ble_state N ble s)"
proof -
  assume "nvs_erased (ent s)"
  moreover have "map_of reset_keys ''ble_ver'' = Some (NvsU8 BLE_PREFS_SCHEMA_VERSION)"
    by (rule interlock_in_reset) (simp add: interlock_keys_def)
  ultimately have "ent s NVS_NS ''ble_ver'' = Some (NvsU8 BLE_PREFS_SCHEMA_VERSION)" by (simp add: nvs_erased_def)
  then show ?thesis by (simp add: load_ble_state_def resolveBlePrefs_def Let_def getUChar_law)
qed

lemma load_ended:
  assumes "ended m0 s"
  shows "rest (snd (prefs_load N ble p s)) = rest s" "marker (ent (snd (prefs_load N ble p s))) = marker (ent s)" "ended m0 (snd (prefs_load N ble p s))"
proof -
  define s1 where "s1 = snd (pf_begin N NVS_NS True s)"
  define a b where "a = bs_enabled (load_ble_state N ble s1)" and "b = bs_user_set (load_ble_state N ble s1)"
  define s2 where "s2 = snd (persistBleMigration N a b s1)"
  have e1: "ent s1 = ent s" "rest s1 = rest s" by (simp_all add: s1_def)
  have e2: "rest s2 = rest s" by (simp add: s2_def migration_rest e1)
  note u = migration_updates [of a b s1, folded s2_def, unfolded e1]
  have "snd (prefs_load N ble p s) = s1 \<or> bs_needs_migration (load_ble_state N ble s1) \<and> snd (prefs_load N ble p s) = s2"
    by (auto simp: prefs_load_def Let_def split_beta s1_def [symmetric] a_def b_def s2_def)
  then consider "snd (prefs_load N ble p s) = s1" | "bs_needs_migration (load_ble_state N ble s1)" "snd (prefs_load N ble p s) = s2" by blast
  then have "rest (snd (prefs_load N ble p s)) = rest s \<and> marker (ent (snd (prefs_load N ble p s))) = marker (ent s) \<and> ended m0 (snd (prefs_load N ble p s))"
  proof cases
    case 1
    then show ?thesis using e1 assms ended_frame [of s1 s m0] by simp
  next
    case 2
    have "\<not> nvs_erased (ent s)" using 2(1) erased_current [of s1] e1 by auto
    then show ?thesis using 2 e2 updates_marker [OF u] ended_updates [OF u e2 _ _ assms] by (simp add: ble_keys_def)
  qed
  then show "rest (snd (prefs_load N ble p s)) = rest s" "marker (ent (snd (prefs_load N ble p s))) = marker (ent s)" "ended m0 (snd (prefs_load N ble p s))"
    by simp_all
qed

lemma get_ended:
  assumes "ended m0 s" and "prefs_get N ble g s = (g', s')"
  shows "rest s' = rest s" "marker (ent s') = marker (ent s)" "ended m0 s'"
  using load_ended [OF assms(1)] assms by (auto simp: prefs_get_def split: if_splits prod.splits) (metis snd_conv)+


lemma interlock_updates:
  "updates NVS_NS interlock_keys (ent s) (ent (snd (prefsWriteFactoryResetInterlock (nvs_writer N) s)))
     (fst (prefsWriteFactoryResetInterlock (nvs_writer N) s) = None)"
  "rest (snd (prefsWriteFactoryResetInterlock (nvs_writer N) s)) = rest s"
  using write_pref_keys_updates [of interlock_keys s] rest_write_keys [of interlock_keys s]
  by (simp_all add: prefsWriteFactoryResetInterlock_def nvs_writer_def)

lemma arm_ended:
  assumes e: "ended m0 s" and arm: "prefs_arm_factory_reset N ble g s = (ok, g', s')"
  shows "ended m0 s'" and "marker (ent s') = marker (ent s) \<or> marker (ent s') = Some (NvsU8 (stage_byte StageArmed))"
    and "ok \<Longrightarrow> marker (ent s') = Some (NvsU8 (stage_byte StageArmed))"
proof -
  obtain g1 s1 where get: "prefs_get N ble g s = (g1, s1)" by fastforce
  note g = get_ended [OF e get]
  define s2 where "s2 = snd (nvs_open N NVS_NS True s1)"
  define s3 where "s3 = snd (prefsWriteFactoryResetInterlock (nvs_writer N) s2)"
  have e2: "ended m0 s2" "marker (ent s2) = marker (ent s)" using g ended_frame [of s2 s1] by (simp_all add: s2_def)
  note u = interlock_updates [of s2, folded s3_def]
  have "fst ` set interlock_keys \<subseteq> set ble_keys" by (simp add: interlock_keys_def ble_keys_def)
  then have e3: "ended m0 s3" "marker (ent s3) = marker (ent s)"
    using ended_updates [OF u _ _ e2(1)] updates_erased [OF u(1) interlock_in_reset] updates_marker [OF u(1)] e2(2) by simp_all
  obtain ok4 s4 where w: "reset_marker_write N StageArmed s3 = (ok4, s4)" by fastforce
  note w4 = marker_write [OF w]
  have e4: "ended m0 s4" using w4 e3(1) ended_marker ended_frame by blast
  have m4: "marker (ent s4) = marker (ent s) \<or> marker (ent s4) = Some (NvsU8 (stage_byte StageArmed))" "ok4 \<Longrightarrow> marker (ent s4) = Some (NvsU8 (stage_byte StageArmed))"
    using w4(2) e3(2) by (auto simp: with_marker)
  have "s' = s2 \<and> \<not> ok \<or> s' = s3 \<and> \<not> ok \<or> s' = s4 \<and> ok = ok4"
    using arm by (auto simp: prefs_arm_factory_reset_def get Let_def split_beta s2_def [symmetric] s3_def [symmetric] w split: if_splits)
  then show "ended m0 s'" "marker (ent s') = marker (ent s) \<or> marker (ent s') = Some (NvsU8 (stage_byte StageArmed))"
    "ok \<Longrightarrow> marker (ent s') = Some (NvsU8 (stage_byte StageArmed))"
    using e2 e3 e4 m4 by auto
qed

text \<open>What the marker promises of the state.\<close>

definition safe :: "nvs_contents \<Rightarrow> 's \<Rightarrow> bool" where
  "safe m0 s = (case marker (ent s) of
     Some (NvsU8 b) \<Rightarrow> (case stage_of_byte b of
         Some StageNvs \<Rightarrow> card_reset (rest s)
       | Some StageSpiffs \<Rightarrow> card_reset (rest s) \<and> nvs_erased (ent s)
       | _ \<Rightarrow> True)
   | _ \<Rightarrow> ended m0 s)"

lemma safe_stage:
  "marker (ent s) = Some (NvsU8 (stage_byte st)) \<Longrightarrow> safe m0 s \<longleftrightarrow>
     (st = StageNvs \<longrightarrow> card_reset (rest s)) \<and> (st = StageSpiffs \<longrightarrow> card_reset (rest s) \<and> nvs_erased (ent s))"
  by (cases st) (simp_all add: safe_def stage_of_byte_def)

lemma safe_ended: "ended m0 s \<Longrightarrow> marker (ent s) = m \<Longrightarrow> (\<forall>b. m \<noteq> Some (NvsU8 b)) \<or> m = Some (NvsU8 (stage_byte StageArmed)) \<Longrightarrow> safe m0 s"
  by (auto simp: safe_def stage_of_byte_def split: option.splits nvs_value.splits)

lemma safe_frame: "ent s' = ent s \<Longrightarrow> rest s' = rest s \<Longrightarrow> safe m0 s' = safe m0 s"
  by (simp only: safe_def ended_def)

lemma safe_cleared:
  assumes "ended m0 s" "safe m0 s" and c: "reset_marker_clear N s = (ok, s')"
  shows "safe m0 s'"
proof (cases "ent s' = ent s")
  case True
  then show ?thesis using assms(2) safe_frame [OF True marker_clear(1) [OF c]] by simp
next
  case False
  then have w: "ent s' = with_entry (ent s) RESET_MARKER_NAMESPACE RESET_MARKER_KEY None" using marker_clear(2) [OF c] by simp
  have "ended m0 s'" using ended_marker [OF w marker_clear(1) [OF c]] assms(1) by simp
  then show ?thesis by (rule safe_ended [where m = None]) (simp_all add: w with_marker)
qed

lemma snapshot_kept:
  assumes "save_snapshot E s = (ok, s')"
  shows "other_ns (ent s) (ent s')" and "card_reset (rest s) \<Longrightarrow> card_reset (rest s')"
proof -
  define s1 where "s1 = (if re_mesh E s then snd (re_saveIdentity E s) else s)"
  define s2 where "s2 = snd (re_saveChannels E s1)"
  have s': "s' = snd (re_saveContacts E s2)" using assms by (auto simp: save_snapshot_def Let_def split_beta s1_def s2_def)
  have "other_ns (ent s) (ent s1)" using save_ent(1) by (simp add: s1_def other_ns_def)
  moreover have "other_ns (ent s1) (ent s2)" using save_ent(2) by (simp add: s2_def)
  ultimately show "other_ns (ent s) (ent s')" using save_ent(3) [of s2] by (simp add: s' other_ns_def)
  show "card_reset (rest s) \<Longrightarrow> card_reset (rest s')" using card_kept(1-3) by (simp add: s' s1_def s2_def)
qed

lemma other_marker: "other_ns m m' \<Longrightarrow> marker m' = marker m"
  by (simp add: other_ns_def marker_def)


lemma history:
  assumes m: "marker (ent s) = Some (NvsU8 (stage_byte StageArmed))" and e: "resuming \<or> ended m0 s" and h: "reset_history N E resuming s = (stop, s')"
  shows "safe m0 s'" and "stop = None \<Longrightarrow> card_reset (rest s') \<and> marker (ent s') = marker (ent s)"
proof -
  obtain ok completed s1 where sd: "re_sd_reset E s = ((ok, completed), s1)" by (metis prod.collapse)
  have e1: "ent s1 = ent s" using env_ent(2) [of s] by (simp add: sd)
  obtain saved s2 where sn: "save_snapshot E s1 = (saved, s2)" by fastforce
  obtain cleared s3 where cl: "reset_marker_clear N s1 = (cleared, s3)" by fastforce
  have s1: "safe m0 s1" using safe_stage [of s1 StageArmed] m e1 by simp
  have m2: "marker (ent s2) = marker (ent s)" using other_marker [OF snapshot_kept(1) [OF sn]] e1 by simp
  then have s2: "safe m0 s2" using safe_stage [of s2 StageArmed] m by simp
  have s3: "safe m0 s3" if "\<not> ok" "\<not> completed" "\<not> resuming"
  proof (rule safe_cleared [OF _ s1 cl])
    show "ended m0 s1" using e that card_refused [of s] by (auto simp: sd e1 ended_def)
  qed
  have "if ok then s' = s2 \<and> stop = (if saved then None else Some ResetTerminal)
    else stop \<noteq> None \<and> s' = (if \<not> completed \<and> \<not> resuming then s3 else s1)"
    using h by (auto simp: reset_history_def sd sn cl split: if_splits)
  then show "safe m0 s'" using s1 s2 s3 by (auto split: if_splits)
  show "stop = None \<Longrightarrow> card_reset (rest s') \<and> marker (ent s') = marker (ent s)"
    using \<open>if ok then _ else _\<close> m2 snapshot_kept(2) [OF sn] card_done [of s] by (auto simp: sd split: if_splits)
qed

lemma clear_target:
  assumes "apply_nvs_target N (ns, ActionClear) (g, s) = (ok, g', s')"
  shows "rest s' = rest s" and "\<And>n. n \<noteq> ns \<Longrightarrow> ent s' n = ent s n" and "ok \<Longrightarrow> ent s' ns = Map.empty" and "g' = g"
proof -
  have c: "empties (ent s) (ent (snd (pf_clear N ns (snd (pf_begin N ns False s))))) ns (fst (pf_clear N ns (snd (pf_begin N ns False s))))"
    using clear_law [of "snd (pf_begin N ns False s)" ns] by simp
  show "rest s' = rest s" "\<And>n. n \<noteq> ns \<Longrightarrow> ent s' n = ent s n" "ok \<Longrightarrow> ent s' ns = Map.empty" "g' = g"
    using assms c by (auto simp: apply_nvs_target_def Let_def split_beta empties_def split: if_splits)
qed

lemma commit_target:
  assumes "prefs_commit_factory_reset N g s = (ok, g', s')"
  shows "rest s' = rest s" and "\<And>n. n \<noteq> NVS_NS \<Longrightarrow> ent s' n = ent s n" and "ok \<Longrightarrow> ent s' NVS_NS = map_of reset_keys"
proof -
  define p where "p = set_factory_reset_defaults default_prefs"
  let ?tr = "[(''tr_tcp'', u8_flag (np_transport_tcp_enabled p)), (''tr_ws'', u8_flag (np_transport_ws_enabled p))]"
  define s1 where "s1 = snd (nvs_open N NVS_NS True s)"
  define s2 where "s2 = snd (nvs_erase_all N NVS_NS s1)"
  define s3 where "s3 = snd (write_pref_keys (nvs_writer N) (prefs_keys p BleWrite) s2)"
  define s4 where "s4 = snd (writeTransportPrefsToNvs N p s3)"
  have e1: "ent s1 = ent s" by (simp add: s1_def)
  have r: "rest s1 = rest s" "rest s2 = rest s" "rest s3 = rest s" by (simp_all add: s1_def s2_def s3_def)
  let ?fs = "[nvs_open N NVS_NS True, nvs_set N NVS_NS ''tr_tcp'' (u8_flag (np_transport_tcp_enabled p)),
    nvs_set N NVS_NS ''tr_ws'' (u8_flag (np_transport_ws_enabled p)), nvs_commit N NVS_NS]"
  have "rest (snd (run_checked ?fs s3)) = rest s3" by (rule rest_run_checked) auto
  then have r4: "rest s4 = rest s" using r(3) by (simp only: s4_def writeTransportPrefsToNvs_def split_beta Let_def snd_conv)
  note er = erase_all_law [of s1 NVS_NS, folded s2_def, unfolded e1]
  note u3 = write_pref_keys_updates [of "prefs_keys p BleWrite" s2, folded s3_def]
  note u4 = transport_updates [of p s3, folded s4_def]
  have other: "ent s2 n = ent s n" "ent s3 n = ent s n" "ent s4 n = ent s n" if "n \<noteq> NVS_NS" for n
    using that er updates_other [OF u3] updates_other [OF u4] by (auto simp: empties_def)
  have w: "writePrefsToNvs N p BleWrite True s = (if fst (nvs_open N NVS_NS True s) \<noteq> ESP_OK then (False, s1)
      else if fst (nvs_erase_all N NVS_NS s1) \<noteq> ESP_OK then (False, s2)
      else (fst (write_pref_keys (nvs_writer N) (prefs_keys p BleWrite) s2) = None, s3))"
    by (simp add: writePrefsToNvs_def prefsWriteAll_def Let_def split_beta s1_def s2_def s3_def) (simp add: nvs_writer_def)
  have res: "s' \<in> {s1, s2, s3, s4}" "ok \<Longrightarrow> s' = s4 \<and> fst (nvs_erase_all N NVS_NS s1) = ESP_OK \<and>
      fst (write_pref_keys (nvs_writer N) (prefs_keys p BleWrite) s2) = None \<and> fst (writeTransportPrefsToNvs N p s3)"
    using assms by (auto simp: prefs_commit_factory_reset_def p_def [symmetric] w Let_def split_beta s4_def split: if_splits)
  show "rest s' = rest s" using res(1) r r4 by auto
  show "\<And>n. n \<noteq> NVS_NS \<Longrightarrow> ent s' n = ent s n" using res(1) other e1 by auto
  show "ent s' NVS_NS = map_of reset_keys" if ok
  proof -
    note ok = res(2) [OF that]
    have "updates NVS_NS (prefs_keys p BleWrite @ ?tr) (ent s2) (ent s4) True" using updates_seq [of NVS_NS _ "ent s2" "ent s3"] u3 u4 ok by simp
    moreover have "ent s2 NVS_NS = Map.empty" using er ok by (simp add: empties_def)
    ultimately have "ent s4 NVS_NS = map_of (rev reset_keys)" by (simp add: updates_def reset_keys_def p_def Let_def)
    also have "\<dots> = map_of reset_keys" by (subst map_of_inject_set) (simp_all add: reset_keys_distinct rev_map [symmetric])
    finally show ?thesis using ok by simp
  qed
qed


lemma replace_target:
  assumes "apply_nvs_target N (NVS_NS, ReplaceWithSafePrefs) (g, s) = (ok, g', s')" and "ent s PW_NS = Map.empty" "ent s CHAT_SCOPE_NS = Map.empty"
  shows "rest s' = rest s" and "marker (ent s') = marker (ent s) \<or> marker (ent s') = Some (NvsU8 (stage_byte StageSpiffs)) \<and> nvs_erased (ent s')"
    and "ok \<Longrightarrow> marker (ent s') = Some (NvsU8 (stage_byte StageSpiffs)) \<and> nvs_erased (ent s')"
proof -
  obtain c g1 s1 where c: "prefs_commit_factory_reset N g s = (c, g1, s1)" by (metis prod_cases3)
  note t = commit_target [OF c]
  obtain w s2 where w: "reset_marker_write N StageSpiffs s1 = (w, s2)" by fastforce
  note mw = marker_write [OF w]
  have m1: "marker (ent s1) = marker (ent s)" using t(2) by (simp add: marker_def)
  have e1: "nvs_erased (ent s1)" if c using that t assms(2,3) by (simp add: nvs_erased_def)
  have r: "if c then s' = s2 \<and> ok = w else s' = s1 \<and> \<not> ok" using assms(1) by (auto simp: apply_nvs_target_def c w)
  show "rest s' = rest s" using r t(1) mw(1) by (auto split: if_splits)
  show "marker (ent s') = marker (ent s) \<or> marker (ent s') = Some (NvsU8 (stage_byte StageSpiffs)) \<and> nvs_erased (ent s')"
    "ok \<Longrightarrow> marker (ent s') = Some (NvsU8 (stage_byte StageSpiffs)) \<and> nvs_erased (ent s')"
    using r m1 e1 mw(2) by (auto simp: with_marker frame_marker split: if_splits)
qed

lemma targets:
  assumes m: "marker (ent s) = Some (NvsU8 (stage_byte StageNvs))" and t: "apply_targets (apply_nvs_target N) NVS_TARGETS (g, s) = ((ok, failed), g', s')"
  shows "rest s' = rest s" and "marker (ent s') = marker (ent s) \<or> marker (ent s') = Some (NvsU8 (stage_byte StageSpiffs)) \<and> nvs_erased (ent s')"
    and "ok \<Longrightarrow> marker (ent s') = Some (NvsU8 (stage_byte StageSpiffs)) \<and> nvs_erased (ent s')"
proof -
  obtain a g1 s1 where 1: "apply_nvs_target N (PW_NS, ActionClear) (g, s) = (a, g1, s1)" by (metis prod_cases3)
  obtain b g2 s2 where 2: "apply_nvs_target N (CHAT_SCOPE_NS, ActionClear) (g1, s1) = (b, g2, s2)" by (metis prod_cases3)
  obtain c g3 s3 where 3: "apply_nvs_target N (NVS_NS, ReplaceWithSafePrefs) (g2, s2) = (c, g3, s3)" by (metis prod_cases3)
  note t1 = clear_target [OF 1] and t2 = clear_target [OF 2]
  have m2: "marker (ent s1) = marker (ent s)" "marker (ent s2) = marker (ent s)" using t1(2) t2(2) by (simp_all add: marker_def)
  have e2: "ent s2 PW_NS = Map.empty" "ent s2 CHAT_SCOPE_NS = Map.empty" if a b using that t1(3) t2(2,3) by simp_all
  have r: "if \<not> a then s' = s1 \<and> \<not> ok else if \<not> b then s' = s2 \<and> \<not> ok else s' = s3 \<and> ok = c"
    using t by (auto simp: NVS_TARGETS_def 1 2 3 split: if_splits)
  note t3 = replace_target [OF 3 e2]
  show "rest s' = rest s" using r t1(1) t2(1) t3(1) by (auto split: if_splits)
  show "marker (ent s') = marker (ent s) \<or> marker (ent s') = Some (NvsU8 (stage_byte StageSpiffs)) \<and> nvs_erased (ent s')"
    "ok \<Longrightarrow> marker (ent s') = Some (NvsU8 (stage_byte StageSpiffs)) \<and> nvs_erased (ent s')"
    using r m2 t3(2,3) by (auto split: if_splits)
qed

text \<open>The destructive part, from a state whose card is reset.\<close>

lemma format_step:
  assumes "marker (ent s) = Some (NvsU8 (stage_byte StageSpiffs))" "nvs_erased (ent s)" "card_reset (rest s)" and f: "re_spiffs_format E s = (ok, s')"
  shows "safe m0 s'" and "ok \<Longrightarrow> ended m0 s'"
proof -
  have e: "ent s' = ent s" "card_reset (rest s')" "ok \<Longrightarrow> formatted (rest s')"
    using env_ent(5) [of s] card_kept(6) [OF assms(3)] format_done [of s] by (simp_all add: f)
  then show "safe m0 s'" using assms by (simp add: safe_stage [of s' StageSpiffs])
  show "ok \<Longrightarrow> ended m0 s'" using e assms by (simp add: ended_def)
qed

lemma storage:
  assumes m: "marker (ent s) = Some (NvsU8 (stage_byte st))" and card: "card_reset (rest s)" and sp: "st = StageSpiffs \<Longrightarrow> nvs_erased (ent s)"
    and r: "reset_storage N E st g s = (ok, g', s')"
  shows "safe m0 s' \<and> (ok \<longrightarrow> ended m0 s')"
proof (cases "st = StageSpiffs")
  case True
  obtain f s1 where f: "re_spiffs_format E s = (f, s1)" by fastforce
  show ?thesis using r True f format_step [OF m [unfolded True] sp [OF True] card f, of m0] by (auto simp: reset_storage_def)
next
  case False
  obtain w s1 where w: "reset_marker_write N StageNvs s = (w, s1)" by fastforce
  note mw = marker_write [OF w]
  have s1: "safe m0 s1" "w \<Longrightarrow> marker (ent s1) = Some (NvsU8 (stage_byte StageNvs))" "card_reset (rest s1)"
    using mw card m False safe_stage [of s1 st m0] safe_stage [of s1 StageNvs m0] by (auto simp: with_marker)
  obtain a x g2 s2 where t: "apply_targets (apply_nvs_target N) NVS_TARGETS (g, s1) = ((a, x), g2, s2)" by (metis prod.collapse)
  obtain f s3 where f: "re_spiffs_format E s2 = (f, s3)" by fastforce
  have res: "if \<not> w then s' = s1 \<and> \<not> ok else if \<not> a then s' = s2 \<and> \<not> ok else s' = s3 \<and> ok = f"
    using r False by (auto simp: reset_storage_def w eraseOwnedStorage_def applyNvsTargets_def t f split: if_splits)
  show ?thesis
  proof (cases w)
    case True
    note tg = targets [OF s1(2) [OF True] t]
    have c2: "card_reset (rest s2)" using tg(1) s1(3) by simp
    have s2: "safe m0 s2" using tg(2) s1(2) [OF True] c2 by (auto simp: safe_stage [of s2 StageNvs] safe_stage [of s2 StageSpiffs])
    show ?thesis
    proof (cases a)
      case True
      then show ?thesis using res \<open>w\<close> tg(3) c2 f format_step [of s2 f s3 m0] by simp
    qed (use res \<open>w\<close> s2 in simp)
  qed (use res s1(1) in simp)
qed


lemma safe_absent: "safe m0 s \<Longrightarrow> \<forall>b. marker (ent s) \<noteq> Some (NvsU8 b) \<Longrightarrow> ended m0 s"
  by (auto simp: safe_def split: option.splits nvs_value.splits)

lemma finish:
  assumes m: "marker (ent s) = Some (NvsU8 (stage_byte st))" and card: "card_reset (rest s)" and sp: "st = StageSpiffs \<Longrightarrow> nvs_erased (ent s)"
    and st: "reset_storage N E st g s = (ok, g', s1)"
  shows "safe m0 s1" and "ok \<Longrightarrow> reset_marker_clear N s1 = (cl, s2) \<Longrightarrow> safe m0 s2"
  using storage [OF m card sp st, of m0] safe_cleared [of m0 s1 cl s2] by simp_all

text \<open>The state after the first stage: safe to stop in, and if the reset goes on, ready for the next.\<close>

lemma first_stage:
  assumes safe: "safe m0 s" and rd: "reset_marker_read N s = ((status, stage), s1)" and ok: "status \<noteq> MarkerInvalid"
    and arm: "(if status = MarkerPending then (True, g, s1) else prefs_arm_factory_reset N ble g s1) = (armed, g2, s2)"
    and h: "(if stage = StageArmed then reset_history N E (status = MarkerPending) s2 else (None, s2)) = (stop, s3)"
  shows "safe m0 s2" and "armed \<Longrightarrow> safe m0 s3" and "armed \<Longrightarrow> stop = None \<Longrightarrow> marker (ent s3) = Some (NvsU8 (stage_byte stage)) \<and> card_reset (rest s3) \<and>
    (stage = StageSpiffs \<longrightarrow> nvs_erased (ent s3))"
proof -
  note r = marker_read [OF rd]
  have s1: "safe m0 s1" using safe safe_frame [OF r(2,1)] by simp
  have A: "safe m0 s2 \<and> (armed \<longrightarrow> marker (ent s2) = Some (NvsU8 (stage_byte stage)) \<and> (status = MarkerPending \<or> ended m0 s2))"
  proof (cases "status = MarkerPending")
    case True
    then show ?thesis using arm s1 r(2,4) by auto
  next
    case False
    then have ab: "status = MarkerAbsent" using ok by (cases status) simp_all
    have e1: "ended m0 s1" using safe_absent [OF s1] r(2,3) ab by simp
    have a: "prefs_arm_factory_reset N ble g s1 = (armed, g2, s2)" using arm False by simp
    note am = arm_ended [OF e1 a]
    have "safe m0 s2" using am(2) r(2,3) ab by (intro safe_ended [OF am(1) refl]) auto
    then show ?thesis using am r(3) ab by simp
  qed
  then show "safe m0 s2" by simp
  show "armed \<Longrightarrow> safe m0 s3" "armed \<Longrightarrow> stop = None \<Longrightarrow> marker (ent s3) = Some (NvsU8 (stage_byte stage)) \<and> card_reset (rest s3) \<and>
      (stage = StageSpiffs \<longrightarrow> nvs_erased (ent s3))"
    using A h history [of s2 "status = MarkerPending" m0 stop s3] safe_stage [of s2 stage m0] by (cases stage; auto)+
qed

lemma reset_safe:
  assumes safe: "safe m0 s" and fr: "factoryReset N E ble g s = (r, g', s')"
  shows "safe m0 s'"
proof -
  obtain status stage s1 where rd: "reset_marker_read N s = ((status, stage), s1)" by (metis prod.collapse)
  have s1: "safe m0 s1" using safe safe_frame [OF marker_read(2,1) [OF rd]] by simp
  obtain armed g2 s2 where a: "(if status = MarkerPending then (True, g, s1) else prefs_arm_factory_reset N ble g s1) = (armed, g2, s2)" by (metis prod_cases3)
  obtain stop s3 where h: "(if stage = StageArmed then reset_history N E (status = MarkerPending) s2 else (None, s2)) = (stop, s3)" by fastforce
  obtain wm s4 where wm: "re_stop_warm E s3 = (wm, s4)" by fastforce
  obtain ok g5 s5 where st: "reset_storage N E stage g2 (re_spiffs_end E s4) = (ok, g5, s5)" by (metis prod_cases3)
  obtain cl s6 where c: "reset_marker_clear N s5 = (cl, s6)" by fastforce
  have res: "s' = (if status = MarkerInvalid then s1 else if \<not> armed then s2 else if stop \<noteq> None then s3 else if \<not> wm then s4
      else if \<not> ok then s5 else s6)"
    using fr by (auto simp: factoryReset_def rd a h wm st c split: if_splits option.splits)
  show ?thesis
  proof (cases "status = MarkerInvalid \<or> \<not> armed \<or> stop \<noteq> None")
    case True
    then show ?thesis using res s1 first_stage [OF safe rd _ a h] by (auto split: if_splits)
  next
    case False
    have f: "marker (ent s3) = Some (NvsU8 (stage_byte stage))" "card_reset (rest s3)" "stage = StageSpiffs \<Longrightarrow> nvs_erased (ent s3)"
      using first_stage(3) [OF safe rd _ a h] False by simp_all
    have e4: "ent s4 = ent s3" "card_reset (rest s4)" using env_ent(3) [of s3] card_kept(4) [OF f(2)] by (simp_all add: wm)
    have s4: "safe m0 s4" using f e4 by (simp add: safe_stage)
    have "marker (ent (re_spiffs_end E s4)) = Some (NvsU8 (stage_byte stage))" "card_reset (rest (re_spiffs_end E s4))"
      "stage = StageSpiffs \<Longrightarrow> nvs_erased (ent (re_spiffs_end E s4))" using f e4 card_kept(5) by simp_all
    note fin = finish [OF this st]
    have "safe m0 s5" by (rule fin(1)) simp
    moreover have "ok \<Longrightarrow> safe m0 s6" by (rule fin(2) [OF _ _ c]) simp_all
    ultimately show ?thesis using res s4 False by (auto split: if_splits)
  qed
qed

lemma boot_resumed:
  assumes safe: "safe m0 s" and b: "boot_reset N E ble g s = (normal, g', s')"
  shows "if normal then ended m0 s \<and> ent s' = ent s else safe m0 s'"
proof -
  obtain status stage s1 where rd: "reset_marker_read N s = ((status, stage), s1)" by (metis prod.collapse)
  note r = marker_read [OF rd]
  have s1: "safe m0 s1" using safe safe_frame [OF r(2,1)] by simp
  show ?thesis
  proof (cases "status = MarkerAbsent")
    case True
    then have "normal" "s' = re_sd_select E s1" using b by (simp_all add: boot_reset_def rd)
    then show ?thesis using True r safe_absent [OF safe] by simp
  next
    case False
    define s2 where "s2 = (if status = MarkerPending \<and> stage = StageArmed then re_sd_select E s1 else s1)"
    have s2: "safe m0 s2"
    proof (cases "status = MarkerPending \<and> stage = StageArmed")
      case True
      then have "marker (ent s2) = Some (NvsU8 (stage_byte StageArmed))" using r(2,4) by (simp add: s2_def)
      then show ?thesis using safe_stage [of s2 StageArmed m0] by simp
    qed (use s1 in \<open>auto simp: s2_def\<close>)
    obtain x g3 s3 where f: "factoryReset N E ble g s2 = (x, g3, s3)" by (metis prod_cases3)
    have "\<not> normal" "s' = s3" using b False f by (simp_all add: boot_reset_def rd s2_def)
    then show ?thesis using reset_safe [OF s2 f] by simp
  qed
qed

end

section \<open>Properties\<close>

text \<open>
  The states after a factory reset was requested in a state without a marker, and after each start that continues it. In
  every one of them the reset may have been stopped anywhere by a failing call or a power failure.
\<close>

inductive resetting :: "'s Nvs \<Rightarrow> 's ResetEnv \<Rightarrow> bool \<Rightarrow> 's \<Rightarrow> 's \<Rightarrow> bool" for N E ble s0 where
  requested: "fst (fst (reset_marker_read N s0)) = MarkerAbsent \<Longrightarrow> factoryReset N E ble g s0 = (r, g', s) \<Longrightarrow> resetting N E ble s0 s"
| resumed: "resetting N E ble s0 s \<Longrightarrow> boot_reset N E ble g s = (False, g', s') \<Longrightarrow> resetting N E ble s0 s'"

lemma resetting_safe:
  assumes R: "reset_env N ent E rest card_reset formatted" and r: "resetting N E ble s0 s"
  shows "reset_env.safe ent rest card_reset formatted (ent s0) s"
  using r
proof induction
  case (requested g r g' s)
  have "\<forall>b. marker (ent s0) \<noteq> Some (NvsU8 b)" using requested(1) reset_env.marker_read(3) [OF R] by (metis prod.collapse)
  moreover have "reset_env.ended ent rest card_reset formatted (ent s0) s0" by (simp add: reset_env.ended_def [OF R])
  ultimately have "reset_env.safe ent rest card_reset formatted (ent s0) s0" using reset_env.safe_ended [OF R] by blast
  then show ?case using reset_env.reset_safe [OF R] requested(2) by blast
next
  case (resumed s g g' s')
  then show ?case using reset_env.boot_resumed [OF R resumed.IH resumed.hyps(2)] by simp
qed

end
