(* ===== verification/ResetDevice.thy ===== *)
theory ResetDevice
  imports FactoryReset SdCardProps SdMessageStore IdentityStore ContactStore ChannelStore
begin

text \<open>
  The factory reset on the device: the key-value store on flash, the message store with its card, and the
  stores of identity, contacts and channels as the other theories model them. The outcome of each call that
  does not belong to these is a member of the state.
\<close>

section \<open>The device\<close>

text \<open>
  \<open>dv_card_reset\<close> and \<open>dv_formatted\<close> record that the reset of the card's history, and the formatting of SPIFFS,
  were the last to touch them and reported success.
\<close>

record device =
  dv_nvs :: nvs_flash
  dv_store :: sdstore
  dv_card_reset :: bool
  dv_formatted :: bool
  dv_quiesced :: bool
  dv_mesh :: bool
  dv_warm_stops :: bool
  dv_format_works :: bool
  dv_spiffs_mounted :: bool
  dv_faults :: spiffs_faults
  dv_identity :: "byte list option"
  dv_channel_count :: int
  dv_channels :: channel_read
  dv_contacts :: "StoredContact list"

definition on_nvs :: "(nvs_flash \<Rightarrow> 'a \<times> nvs_flash) \<Rightarrow> device \<Rightarrow> 'a \<times> device" where
  "on_nvs f d = (let (x, n) = f (dv_nvs d) in (x, d\<lparr>dv_nvs := n\<rparr>))"

definition device_nvs :: "device Nvs" where
  "device_nvs = \<lparr>
     nvs_open = \<lambda>ns rw. on_nvs (nvs_open flash_nvs ns rw), nvs_set = \<lambda>ns k v. on_nvs (nvs_set flash_nvs ns k v),
     nvs_get_u8 = \<lambda>ns k d. nvs_get_u8 flash_nvs ns k (dv_nvs d), nvs_erase_key = \<lambda>ns k. on_nvs (nvs_erase_key flash_nvs ns k),
     nvs_erase_all = \<lambda>ns. on_nvs (nvs_erase_all flash_nvs ns), nvs_commit = \<lambda>ns. on_nvs (nvs_commit flash_nvs ns),
     pf_begin = \<lambda>ns ro. on_nvs (pf_begin flash_nvs ns ro), pf_isKey = \<lambda>ns k d. pf_isKey flash_nvs ns k (dv_nvs d),
     pf_getUChar = \<lambda>ns k x d. pf_getUChar flash_nvs ns k x (dv_nvs d), pf_getChar = \<lambda>ns k x d. pf_getChar flash_nvs ns k x (dv_nvs d),
     pf_getUShort = \<lambda>ns k x d. pf_getUShort flash_nvs ns k x (dv_nvs d), pf_getInt = \<lambda>ns k x d. pf_getInt flash_nvs ns k x (dv_nvs d),
     pf_getULong = \<lambda>ns k x d. pf_getULong flash_nvs ns k x (dv_nvs d), pf_getBool = \<lambda>ns k x d. pf_getBool flash_nvs ns k x (dv_nvs d),
     pf_getFloat = \<lambda>ns k x d. pf_getFloat flash_nvs ns k x (dv_nvs d), pf_getString = \<lambda>ns k n d. pf_getString flash_nvs ns k n (dv_nvs d),
     pf_getBytesLength = \<lambda>ns k d. pf_getBytesLength flash_nvs ns k (dv_nvs d), pf_getBytes = \<lambda>ns k n d. pf_getBytes flash_nvs ns k n (dv_nvs d),
     pf_putUChar = \<lambda>ns k x. on_nvs (pf_putUChar flash_nvs ns k x), pf_putString = \<lambda>ns k v. on_nvs (pf_putString flash_nvs ns k v),
     pf_putBytes = \<lambda>ns k b. on_nvs (pf_putBytes flash_nvs ns k b), pf_remove = \<lambda>ns k. on_nvs (pf_remove flash_nvs ns k),
     pf_clear = \<lambda>ns. on_nvs (pf_clear flash_nvs ns)\<rparr>"

text \<open>A file operation on SPIFFS, which also holds the message log of the device.\<close>

definition on_spiffs :: "(flash \<Rightarrow> bool \<times> flash list) \<Rightarrow> device \<Rightarrow> bool \<times> device" where
  "on_spiffs f d =
     (let (ok, tr) = f (ms_flash (ss_log (dv_store d)))
      in (ok, d\<lparr>dv_store := (dv_store d)\<lparr>ss_log := (ss_log (dv_store d))\<lparr>ms_flash := last tr\<rparr>\<rparr>, dv_formatted := False\<rparr>))"

text \<open>The channels are stored in the name space of the settings.\<close>

definition channel_view :: "nvs_flash \<Rightarrow> nvs" where
  "channel_view n = \<lparr>nvs_map = (\<lambda>k. fl_entries n NVS_NS (map (\<lambda>b. char_of (unat b)) k)), nvs_puts = fl_outcomes n\<rparr>"

definition with_channels :: "nvs \<Rightarrow> nvs_flash \<Rightarrow> nvs_flash" where
  "with_channels c n = n\<lparr>fl_entries := (fl_entries n)(NVS_NS := (\<lambda>k. nvs_map c (bytes_of k))), fl_outcomes := nvs_puts c\<rparr>"

definition device_saveChannels :: "device \<Rightarrow> bool \<times> device" where
  "device_saveChannels d = on_nvs (\<lambda>n. let (ok, c) = channelStoreSave True (dv_channel_count d) (Some (dv_channels d)) (channel_view n)
     in (ok, with_channels c n)) d"

definition device_sd_reset :: "device \<Rightarrow> (bool \<times> bool) \<times> device" where
  "device_sd_reset d =
     (let q = dv_quiesced d; (ok, st) = run_state (sdMessageStoreReset (Some (\<lambda>s. (q, s)))) (dv_store d)
      in ((ok, q), d\<lparr>dv_store := st, dv_card_reset := (if q then ok else dv_card_reset d), dv_formatted := (if q then False else dv_formatted d)\<rparr>))"

definition device_format :: "device \<Rightarrow> bool \<times> device" where
  "device_format d =
     (if dv_format_works d
      then (True, d\<lparr>dv_store := (dv_store d)\<lparr>ss_log := (ss_log (dv_store d))\<lparr>ms_flash := (\<lambda>_. None)\<rparr>\<rparr>, dv_formatted := True\<rparr>)
      else (False, d\<lparr>dv_formatted := False\<rparr>))"

definition device_env :: "device ResetEnv" where
  "device_env = \<lparr>
     re_sd_select = \<lambda>d. d\<lparr>dv_store := snd (run_state (sdMessageStoreSelect (dv_spiffs_mounted d)) (dv_store d)), dv_card_reset := False, dv_formatted := False\<rparr>,
     re_sd_reset = device_sd_reset, re_mesh = dv_mesh,
     re_saveIdentity = \<lambda>d. on_spiffs (identityStoreSave (dv_faults d) (dv_identity d)) d,
     re_saveChannels = device_saveChannels,
     re_saveContacts = \<lambda>d. on_spiffs (contactStoreSaveAll (dv_faults d) (dv_spiffs_mounted d) True (Some (dv_contacts d)) (int (length (dv_contacts d)))) d,
     re_stop_warm = \<lambda>d. (dv_warm_stops d, d), re_spiffs_end = \<lambda>d. d, re_spiffs_format = device_format\<rparr>"

section \<open>It keeps the contract\<close>

abbreviation "device_entries d \<equiv> fl_entries (dv_nvs d)"
abbreviation "device_rest d \<equiv> (dv_card_reset d, dv_formatted d)"

lemma on_nvs_simps [simp]:
  "fst (on_nvs f d) = fst (f (dv_nvs d))" "dv_nvs (snd (on_nvs f d)) = snd (f (dv_nvs d))" "device_rest (snd (on_nvs f d)) = device_rest d"
  by (simp_all add: on_nvs_def split_beta Let_def)

lemma on_spiffs_simps [simp]: "dv_nvs (snd (on_spiffs f d)) = dv_nvs d" "dv_card_reset (snd (on_spiffs f d)) = dv_card_reset d"
  by (simp_all add: on_spiffs_def split_beta Let_def)

lemma device_format_simps [simp]:
  "fst (device_format d) = dv_format_works d" "dv_nvs (snd (device_format d)) = dv_nvs d"
  "dv_card_reset (snd (device_format d)) = dv_card_reset d" "dv_formatted (snd (device_format d)) = dv_format_works d"
  by (simp_all add: device_format_def)

lemma give_up_reset_result [simp]: "fst (run_state (give_up_reset x) st) = x"
  by (simp add: give_up_reset_def split_beta)

lemma reset_not_quiesced [simp]: "\<not> fst (run_state (sdMessageStoreReset (Some (Pair False))) st)"
  by (simp add: sdMessageStoreReset_def split_beta)

lemma device_nvs_laws: "nvs_store device_nvs device_entries"
  by unfold_locales (simp only: device_nvs_def Nvs.Nvs.select_convs on_nvs_simps,
    fact esp.open_law esp.open_absent esp.set_law esp.get_u8_found esp.get_u8_absent esp.erase_key_law esp.erase_key_absent
      esp.erase_all_law esp.commit_law esp.begin_law esp.begin_existing esp.get_laws esp.putUChar_law esp.putString_law
      esp.putString_result esp.putBytes_law esp.putBytes_result esp.remove_law esp.clear_law)+

interpretation device: reset_env device_nvs device_entries device_env device_rest fst snd
proof (intro reset_env.intro device_nvs_laws)
  show "reset_env_axioms device_nvs device_entries device_env device_rest fst snd"
    by unfold_locales (auto simp: device_nvs_def device_env_def device_sd_reset_def device_saveChannels_def with_channels_def other_ns_def
      on_spiffs_def on_nvs_def split_beta Let_def)
qed

section \<open>A reset in which nothing fails\<close>

definition sound :: "device \<Rightarrow> bool" where
  "sound d \<longleftrightarrow> fl_outcomes (dv_nvs d) = [] \<and> dv_quiesced d \<and> dv_warm_stops d \<and> dv_format_works d \<and> dv_spiffs_mounted d \<and> \<not> dv_mesh d \<and>
     dv_faults d = no_faults 0 \<and> dv_channel_count d = 0 \<and> dv_contacts d = []"

text \<open>\<open>runs r\<close>: a call on such a device reported success and left it such a device.\<close>

abbreviation runs :: "bool \<times> device \<Rightarrow> bool" where
  "runs r \<equiv> fst r \<and> sound (snd r)"

lemma sound_set: "sound d \<Longrightarrow> fst (nvs_set device_nvs ns k v d) = ESP_OK \<and> sound (snd (nvs_set device_nvs ns k v d))"
  using flash_put_ok [of "dv_nvs d" ns k "Some v"] by (simp add: sound_def device_nvs_def flash_nvs_def on_nvs_def fl_err_def)

lemma sound_calls:
  "nvs_open device_nvs ns True d = (ESP_OK, d)" "nvs_commit device_nvs ns d = (ESP_OK, d)" "pf_begin device_nvs ns False d = (True, d)"
  by (simp_all add: device_nvs_def flash_nvs_def on_nvs_def)

lemma sound_erase:
  "sound d \<Longrightarrow> fst (nvs_erase_all device_nvs ns d) = ESP_OK \<and> sound (snd (nvs_erase_all device_nvs ns d))"
  "sound d \<Longrightarrow> runs (pf_clear device_nvs ns d)"
  "sound d \<Longrightarrow> fst (nvs_erase_key device_nvs ns k d) \<in> {ESP_OK, ESP_ERR_NVS_NOT_FOUND} \<and> sound (snd (nvs_erase_key device_nvs ns k d))"
  by (simp_all add: sound_def device_nvs_def flash_nvs_def on_nvs_def fl_err_def fl_put_def fl_clear_def fl_write_def)

lemma sound_keys:
  "sound d \<Longrightarrow> fst (write_pref_keys (nvs_writer device_nvs) kvs d) = None \<and> sound (snd (write_pref_keys (nvs_writer device_nvs) kvs d))"
proof (induction kvs arbitrary: d)
  case (Cons kv kvs)
  then show ?case using sound_set [OF Cons.prems] by (cases kv) (simp add: nvs_writer_def split_beta Let_def ESP_OK_def)
qed (simp add: nvs_writer_def sound_calls ESP_OK_def)

lemma sound_marker:
  "sound d \<Longrightarrow> runs (reset_marker_write device_nvs st d)" "sound d \<Longrightarrow> runs (reset_marker_clear device_nvs d)"
  using sound_set [of d] sound_erase(3) [of d RESET_MARKER_NAMESPACE RESET_MARKER_KEY] by (auto simp: reset_marker_write_def reset_marker_clear_def sound_calls split_beta Let_def)

lemma sound_commit: "sound d \<Longrightarrow> (case prefs_commit_factory_reset device_nvs g d of (ok, g', d') \<Rightarrow> ok \<and> sound d')"
proof -
  assume d: "sound d"
  have "runs (writePrefsToNvs device_nvs p BleWrite True d)" for p
    using sound_erase(1) [OF d] sound_keys
    by (simp add: writePrefsToNvs_def prefsWriteAll_def nvs_writer_def sound_calls split_beta Let_def)
  moreover have "runs (writeTransportPrefsToNvs device_nvs p d')" if "sound d'" for p d'
    using that sound_set by (simp add: writeTransportPrefsToNvs_def sound_calls split_beta Let_def)
  ultimately show ?thesis by (simp add: prefs_commit_factory_reset_def split_beta Let_def)
qed

lemma sound_target: "sound d \<Longrightarrow> (case apply_nvs_target device_nvs t (g, d) of (ok, g', d') \<Rightarrow> ok \<and> sound d')"
  using sound_commit [of d g] sound_marker(1) sound_erase(2) [of d]
  by (cases t; cases "snd t") (auto simp: apply_nvs_target_def sound_calls split_beta Let_def)

lemma sound_targets:
  "sound (snd gd) \<Longrightarrow> (case apply_targets (apply_nvs_target device_nvs) ts gd of ((ok, failed), g', d') \<Rightarrow> ok \<and> sound d')"
proof (induction ts arbitrary: gd)
  case (Cons t ts)
  then show ?case using sound_target [of "snd gd" t "fst gd"] by (simp add: split_beta Let_def)
qed (simp add: split_beta)

lemma sound_format: "sound d \<Longrightarrow> runs (re_spiffs_format device_env d)"
  by (simp add: device_env_def device_format_def sound_def)

lemma sound_storage: "sound d \<Longrightarrow> (case reset_storage device_nvs device_env st g d of (ok, g', d') \<Rightarrow> ok \<and> sound d')"
  using sound_marker(1) [of d StageNvs] sound_format sound_targets [of "(g, snd (reset_marker_write device_nvs StageNvs d))" NVS_TARGETS]
  by (auto simp: reset_storage_def eraseOwnedStorage_def applyNvsTargets_def split_beta Let_def)

lemma removeStore_works: "fst (removeStore (no_faults n) fs)"
  by (simp add: removeStore_def atomicFileTempPath_def STORE_PATH_def TMP_SUFFIX_def removeFile_def no_faults_def bytes_of_def Let_def)

lemma sound_snapshot: "sound d \<Longrightarrow> runs (save_snapshot device_env d)"
proof -
  assume d: "sound d"
  have "runs (re_saveChannels device_env d)"
    using d by (simp add: sound_def device_env_def device_saveChannels_def on_nvs_def channelStoreSave_def channelStoreSaveTransactional_def
      preferencesKv_def kvComplete_def prefPutU8_def prefPutU32_def nvs_put_def channel_view_def with_channels_def CHANNEL_STORE_MAX_def and_then_def
      split_beta Let_def)
  moreover have "runs (re_saveContacts device_env d')" if "sound d'" for d'
    using that by (simp add: sound_def device_env_def on_spiffs_def contactStoreSaveAll_def contactStoreSave_def removeStore_works split_beta)
  ultimately show ?thesis using d by (simp add: save_snapshot_def sound_def device_env_def split_beta Let_def)
qed

lemma pw_complete_writer [simp]: "pw_complete (nvs_writer N)"
  by (simp add: nvs_writer_def)

lemma set_keeps_store [simp]: "dv_store (snd (nvs_set device_nvs ns k v d)) = dv_store d"
  by (simp add: device_nvs_def on_nvs_def split_beta Let_def)

lemma keys_keep_store [simp]: "dv_store (snd (write_pref_keys (nvs_writer device_nvs) kvs d)) = dv_store d"
proof (induction kvs arbitrary: d)
  case (Cons kv kvs)
  then show ?case by (cases kv) (simp add: nvs_writer_def split_beta Let_def)
qed (simp add: nvs_writer_def sound_calls)

lemma marker_keeps_store [simp]: "dv_store (snd (reset_marker_write device_nvs st d)) = dv_store d"
  by (simp add: reset_marker_write_def sound_calls split_beta Let_def)

lemma sound_arm: "sound d \<Longrightarrow> pm_loaded g \<Longrightarrow> (case prefs_arm_factory_reset device_nvs ble g d of (ok, g', d') \<Rightarrow> ok \<and> sound d' \<and> dv_store d' = dv_store d)"
  using sound_keys [of d interlock_keys] sound_marker(1)
  by (simp add: prefs_arm_factory_reset_def prefs_get_def prefsWriteFactoryResetInterlock_def sound_calls split_beta Let_def)

lemma sound_history:
  assumes d: "sound d" and "\<not> g_using_sd (dv_store d)" "\<not> sd_mounted (ms_media (ss_log (dv_store d)))"
  shows "fst (reset_history device_nvs device_env resuming d) = None \<and> sound (snd (reset_history device_nvs device_env resuming d))"
proof -
  have q: "dv_quiesced d" using d by (simp add: sound_def)
  have "fst (run_state (sdMessageStoreReset (Some (Pair True))) (dv_store d))"
    using assms(2,3) by (simp add: sdMessageStoreReset_def in_log_def messageStoreSelectDefaultBackend_def messageStoreSelectBackend_def split_beta)
  then have "runs (fst (fst (re_sd_reset device_env d)), snd (re_sd_reset device_env d))"
    using d q by (simp add: device_env_def device_sd_reset_def sound_def split_beta Let_def)
  then show ?thesis using sound_snapshot by (simp add: reset_history_def split_beta Let_def)
qed

lemma read_absent: "marker (device_entries d) = None \<Longrightarrow> reset_marker_read device_nvs d = ((MarkerAbsent, StageArmed), d)"
  by (simp add: reset_marker_read_def device_nvs_def flash_nvs_def on_nvs_def marker_def)

lemma sound_reset:
  assumes d: "sound d" "\<not> g_using_sd (dv_store d)" "\<not> sd_mounted (ms_media (ss_log (dv_store d)))" and g: "pm_loaded g"
    and m: "marker (device_entries d) = None"
  obtains g' d' where "factoryReset device_nvs device_env ble g d = (ResetComplete, g', d')" and "marker (device_entries d') = None" and "device_entries d' PW_NS = Map.empty"
proof -
  have sf: "device.safe (device_entries d) d" using m by (intro device.safe_ended [OF _ refl]) (simp_all add: device.ended_def)
  obtain armed g2 d2 where a: "prefs_arm_factory_reset device_nvs ble g d = (armed, g2, d2)" by (metis prod_cases3)
  have 2: "armed" "sound d2" "dv_store d2 = dv_store d" using sound_arm [OF d(1) g, of ble] by (simp_all add: a)
  obtain stop d3 where h: "reset_history device_nvs device_env False d2 = (stop, d3)" by fastforce
  have 3: "stop = None" "sound d3" using sound_history [OF 2(2), of False] d(2,3) 2(3) by (simp_all add: h)
  have w: "re_stop_warm device_env d3 = (True, d3)" "re_spiffs_end device_env d3 = d3" using 3(2) by (simp_all add: device_env_def sound_def)
  obtain ok g5 d5 where st: "reset_storage device_nvs device_env StageArmed g2 d3 = (ok, g5, d5)" by (metis prod_cases3)
  have 5: "ok" "sound d5" using sound_storage [OF 3(2), of StageArmed g2] by (simp_all add: st)
  have 4: "marker (device_entries d3) = Some (NvsU8 (stage_byte StageArmed))" "dv_card_reset d3"
    using device.first_stage(3) [OF sf read_absent [OF m], of g ble armed g2 d2 stop d3] a h 2(1) 3(1) by simp_all
  define other where "other = (\<lambda>ns k. if device_entries d5 ns k = None then Some (NvsU8 0) else None)"
  have "device.ended other d5" using device.storage [OF 4(1) _ _ st] 4(2) 5(1) by simp
  moreover have "\<not> untouched other (device_entries d5)" by (auto simp: untouched_def other_def fun_eq_iff split: if_splits)
  ultimately have e5: "device_entries d5 PW_NS = Map.empty" by (simp add: device.ended_def nvs_erased_def)
  obtain cl d6 where c: "reset_marker_clear device_nvs d5 = (cl, d6)" by fastforce
  have cl: "cl" using sound_marker(2) [OF 5(2)] by (simp add: c)
  have e6: "device_entries d6 PW_NS = Map.empty" using device.marker_clear(2) [OF c] e5 by (auto simp: with_entry_def)
  show ?thesis
    by (rule that [of g5 d6]) (use e6 a 2 h 3 w st 5 c cl device.marker_clear(3) [OF c] read_absent [OF m] in \<open>simp_all add: factoryReset_def\<close>)
qed

section \<open>Property\<close>


text \<open>A device with a stored password, on which nothing fails: the start after the reset is a normal one, and the password is gone.\<close>

definition used_device :: device where
  "used_device = \<lparr>dv_nvs = \<lparr>fl_entries = (\<lambda>_. Map.empty)(PW_NS := [''count'' \<mapsto> NvsU8 1]), fl_outcomes = []\<rparr>,
     dv_store = \<lparr>ss_log = \<lparr>g_backend = None, ms_media = demo_card\<lparr>sd_mounted := False\<rparr>, ms_flash = (\<lambda>_. None), ms_trace = [],
       ms_io = (\<lambda>_. calm_io), ms_tick = 0, ms_heap = (\<lambda>_. True), g_companion_backlog_drop_count = 0, g_backend_degraded = False,
       g_retry_queue = [], g_retry_queue_drop_count = 0, g_last_recovery_result = Clean, g_append_recovery_required = False,
       g_identity_index = [], g_identity_index_capacity = 0, g_identity_index_valid = False\<rparr>, g_using_sd = False, g_degraded = False\<rparr>, dv_card_reset = False, dv_formatted = False,
     dv_quiesced = True, dv_mesh = False, dv_warm_stops = True, dv_format_works = True, dv_spiffs_mounted = True, dv_faults = no_faults 0,
     dv_identity = None, dv_channel_count = 0, dv_channels = (\<lambda>_. None), dv_contacts = []\<rparr>"


end
