(* ===== verification/Spec2Isabelle.thy ===== *)
theory Spec2Isabelle
  imports SigPrelude Utf8 Queues FrameParser BleSecurity Base64 KeyCodecs AtomicFile PathCodec ContactStore
    MessageCodec MessageStore MessageLog MessageRecovery MessageAppend MessageReplace MessageFailover
    Backlog BridgeEnv CompanionBridge BridgeCommands BridgeLogic BridgeSample BridgeProps
    BridgeReads BridgeClient BridgeSync Transports TransportRegistry TransportProps TransportClient
    SdReplace SdCard SdCardProps SdMessageStore SdMigration
    Nvs ChannelStore RegionStore RegionStoreProps IdentityStore TimeState Float32 Prefs PrefsProps
    PrefStores FactoryReset ResetDevice
begin

text \<open>
  SigurdOS is the firmware of a pocket mesh messenger (LilyGo T-Deck, ESP32, MeshCore radio
  protocol). This development models the parts of the firmware that carry its own logic and
  states what they promise. It follows the C++ sources under \<open>src/\<close>; every definition has the
  name of the function, structure or constant it translates, or of the piece of it.

  \<^bold>\<open>The parts and how they interact.\<close> Messages that arrive over the radio are appended to the message
  log on flash or, when a card is in the slot, on the SD card. A companion app connects over BLE, TCP or WebSocket; the transports cut its byte
  stream into frames and hand each frame, with the identity of the connection, to the companion
  bridge. The bridge keeps a session per connection, executes the command against its host (the
  mesh node with its contact table, channels and settings), and answers over the transport. Stored
  messages are polled by the app from the bridge, which reads them from the message log and
  marks them there once the app has polled on. Contacts, regions and the node's identity are kept in files
  of their own. All these files are replaced atomically, so that a power failure leaves the old or the new contents.
  Channels and settings are kept in the key-value store of the platform. A factory reset erases all of them, in stages that
  survive a loss of power.

  \<^bold>\<open>Theories.\<close>
  \<^item> \<open>SigPrelude\<close>: bytes, words and clocks, little-endian fields, C strings, list search.
  \<^item> \<open>Utf8\<close> (\<open>utils/utf8_util.h\<close>): truncation and copying of UTF-8 text into fixed buffers never
    splits a character.
  \<^item> \<open>Queues\<close> (\<open>utils/fixed_queue.h\<close>, \<open>comms/ble_frame_queue.h\<close>, \<open>mesh/cmd_response_queue.h\<close>,
    \<open>mesh/bounded_response_queue.h\<close>, \<open>mesh/contact_runtime_cleanup.h\<close>): ring buffers refine queues;
    the locale of a bounded queue is interpreted on each of them.
  \<^item> \<open>FrameParser\<close> (\<open>comms/transport_frame_parser.h\<close>): the incremental parser delivers exactly the
    frames of a stream, through noise and bad headers, and stays within its buffer.
  \<^item> \<open>BleSecurity\<close> (\<open>comms/ble_*.h\<close>, \<open>comms/serial_session.h\<close>): throttle, pairing window, watchdog,
    start-up gate, bond cache and bond rotation.
  \<^item> \<open>Base64\<close>, \<open>KeyCodecs\<close>, \<open>PathCodec\<close> (\<open>mesh/strict_base64.h\<close>, \<open>mesh/scope_key_hex.h\<close>, \<open>mesh/channel_key.h\<close>,
    \<open>mesh/channel_validation.cpp\<close>, \<open>mesh/contact_store.cpp\<close>, \<open>mesh/path_codec.h\<close>): the decoders accept exactly the
    encodings of a key.
  \<^item> \<open>AtomicFile\<close> (\<open>hal/atomic_file.cpp\<close>): replacement and recovery of a file, as the sequence of flash
    states it passes through; every one of them recovers to a valid copy.
  \<^item> \<open>ContactStore\<close> (\<open>mesh/contact_store.cpp\<close>): the contact file.
  \<^item> \<open>MessageCodec\<close>, \<open>MessageStore\<close>, \<open>MessageLog\<close>, \<open>MessageRecovery\<close>, \<open>MessageAppend\<close>, \<open>MessageReplace\<close>,
    \<open>MessageFailover\<close> (\<open>mesh/message_store.h\<close>, \<open>mesh/message_store.cpp\<close>): the record format; the store in a
    state monad over flash, card backend, identity index and retry queue; the file as an image of a
    list of messages; start-up; appending; rewriting and compaction; the retry queue. Operations
    return the trace of flash states, and the theorems about power failure quantify over it.
  \<^item> \<open>SdReplace\<close>, \<open>SdCard\<close>, \<open>SdCardProps\<close> (\<open>hal/sdcard_replace.h\<close>, \<open>hal/sdcard.cpp\<close>): the replacement protocol of
    the SD card over a table of operations, whose contract is the locale \<open>replace_medium\<close>; the card with
    its mount, its faults and its file operations; the interpretation of the locale on it.
  \<^item> \<open>SdMessageStore\<close>, \<open>SdMigration\<close> (\<open>mesh/sd_message_store.cpp\<close>): the message log on the card, the choice of
    the backend at start with the migration of the flash log, and the factory reset.
  \<^item> \<open>Nvs\<close>: the key-value store of the platform, which is not part of the repository, as a record of operations with
    the contract \<open>nvs_store\<close>, and a flash with faults that keeps it.
  \<^item> \<open>ChannelStore\<close>, \<open>RegionStore\<close>, \<open>RegionStoreProps\<close>, \<open>IdentityStore\<close> (\<open>mesh/persistence_store.cpp\<close>, \<open>mesh/region_name.h\<close>): the
    channel list in two banks of the key-value store, over the contract \<open>channel_kv\<close>; the region file with its
    map and keys; the identity file.
  \<^item> \<open>Float32\<close>, \<open>Prefs\<close>, \<open>PrefsProps\<close> (\<open>hal/prefs.h\<close>, \<open>hal/prefs.cpp\<close>, \<open>hal/prefs_write_policy.h\<close>, \<open>mesh/airtime_policy.h\<close>): the settings, their
    limits, and their way to and from the key-value store.
  \<^item> \<open>PrefStores\<close> (\<open>hal/prefs.cpp\<close>): the saved repeater passwords and the scopes of chats. Saving a password is all or
    nothing; removing one that is not the last entry never succeeds.
  \<^item> \<open>FactoryReset\<close>, \<open>ResetDevice\<close> (\<open>hal/factory_reset_policy.h\<close>, \<open>hal/prefs.cpp\<close>, \<open>mesh/mesh_wrapper.cpp\<close>, \<open>main.cpp\<close>): the reset in stages with
    its marker and its resumption at the start, over the contract \<open>reset_env\<close>; a device composed of the stores of the other theories
    keeps the contract, and on it a reset in which nothing fails completes.
  \<^item> \<open>TimeState\<close> (\<open>mesh/time_state.cpp\<close>): the source of the time and the calendar.
  \<^item> \<open>Backlog\<close>: the contract the bridge needs of a store of undelivered messages, as the locale
    \<open>companion_backlog\<close>, and its interpretation on the message log.
  \<^item> \<open>BridgeEnv\<close>, \<open>CompanionBridge\<close>, \<open>BridgeCommands\<close> (\<open>comms/companion_bridge.h\<close>,
    \<open>comms/companion_bridge.cpp\<close>): protocol codes and interfaces; sessions, queues, responses and
    pushes; one definition per command, the dispatcher and the service loops. The bridge is a state
    monad over its members and an environment \<open>'e\<close>; the host, the serial link and the linked functions
    are records of operations on \<open>'e\<close>.
  \<^item> \<open>BridgeLogic\<close>: well-formed states, the permitted calls on the environment as a step relation, and
    \<open>safe\<close>, which every operation is shown to satisfy; \<open>reachable\<close> collects the states of a run.
  \<^item> \<open>BridgeProps\<close>, \<open>BridgeReads\<close>: what follows for all states and commands. \<open>BridgeClient\<close>, \<open>BridgeSync\<close>: what
    an app sees over a link that takes its frames, as the locales \<open>recording_client\<close>, \<open>contact_client\<close> and
    \<open>syncing_client\<close>; polling is shown to simulate a small abstract machine.
  \<^item> \<open>Transports\<close>, \<open>TransportRegistry\<close> (\<open>comms/transport_tcp.cpp\<close>, \<open>comms/transport_ws.cpp\<close>,
    \<open>comms/transports.cpp\<close>): the device build of both servers and of the registry. \<open>TransportProps\<close> has their
    properties; \<open>TransportClient\<close> shows that an app on the TCP server is a client in the sense of
    \<open>BridgeClient\<close> and runs the whole stack, from socket to message log.
  \<^item> \<open>BridgeSample\<close>: a concrete environment in which the theorems about the bridge are applied.

  \<^bold>\<open>What the theorems show.\<close> A power failure at any moment of an append, a compaction, a mark or a save of
  contacts, channels, regions or the identity loses neither the old contents nor half of the new ones; a message is stored once; a failed append
  is retried; moving the log to the SD card loses no message, and replacing a file on the card is atomic too.
  Every undelivered message reaches the polling app and is then off the backlog.
  A connection that takes over a slot learns nothing of the previous one; a binary response goes
  to the client that asked; no command reads past its frame; the bridge's state stays well-formed and its
  frames in bounds whatever happens. Contact lists are complete and end. Writes to sockets end and
  report the truth; polling is fair; an update silences the network transports. The codecs, parsers, queues and
  security policies meet their specifications exactly; an accepted region map is a tree; settings survive a restart; the calendar counts days.

  \<^bold>\<open>Bounds, fuel and parameters.\<close> \<open>MAX_FRAME_SIZE\<close> and the other constants of MeshCore are parameters; where
  a theorem needs a bound on one it says so. Loops of the code are structural recursion, or recursion
  with a measure. The one loop with fuel is the socket write, \<open>tcp_write_loop\<close>: \<open>write_fuel\<close> allows
  122 rounds per byte and 122 more, which suffice because every round writes a byte or uses up a
  millisecond of the 120 allowed; that the fuel is never exhausted is part of the theorem. The search
  for a free message id is bounded by the number of ids in use and shown to succeed. Faults of the
  flash are arguments of the file operations, results of the heap and the clock are read from the state.

  \<^bold>\<open>Not modelled.\<close> The mesh node and its facade (\<open>mesh/sigurd_mesh_v2.cpp\<close>, \<open>mesh/mesh_wrapper.cpp\<close>), because most of their
  behaviour is inherited from MeshCore, which is not part of the repository (the factory reset of the facade is modelled); the companion adapter, in
  whose place the bridge is proved for every host; the BLE interface, which is callbacks of the BLE stack around the
  modelled queue and policies; hardware drivers, update downloads, map rendering, the LVGL screens, diagnostics and the
  test harness, which are input and output; translations and fonts, which are tables. The region map at run time, which is a class of MeshCore, the policies of the user interface and the smaller
  mesh policies are not modelled either.
\<close>

end
